(* ===== verification/Prelude.thy ===== *)
theory Prelude
  imports Main "HOL-Library.Word" "HOL-Library.Multiset"
begin

unbundle bit_operations_syntax

text \<open>
  The prelude of the Chamelio development: the machine-integer types of the C sources
  (\<^verbatim>\<open>__u8\<close> \<dots> \<^verbatim>\<open>__u64\<close>, \<^verbatim>\<open>size_t\<close>), the fact collections the component
  theories extend, and generic lemmas on words, cyclic indices and lists that several
  components share.
\<close>

section \<open>Types\<close>

type_synonym u8 = "8 word"
type_synonym u16 = "16 word"
type_synonym u32 = "32 word"
type_synonym u64 = "64 word"

text \<open>\<^verbatim>\<open>size_t\<close> and pointers are 64 bits wide on the only platform the sources support.\<close>

type_synonym csize = "64 word"
type_synonym ptr = "64 word"

text \<open>Byte-addressed memory, relative to the start of the region it belongs to.\<close>

type_synonym bytes = "nat \<Rightarrow> u8"

section \<open>Error numbers\<close>

abbreviation ENOENT :: int where "ENOENT \<equiv> 2"
abbreviation EBADF :: int where "EBADF \<equiv> 9"
abbreviation EAGAIN :: int where "EAGAIN \<equiv> 11"
abbreviation ENOMEM :: int where "ENOMEM \<equiv> 12"
abbreviation EEXIST :: int where "EEXIST \<equiv> 17"
abbreviation EINVAL :: int where "EINVAL \<equiv> 22"
abbreviation EOPNOTSUPP :: int where "EOPNOTSUPP \<equiv> 95"
abbreviation EADDRINUSE :: int where "EADDRINUSE \<equiv> 98"
abbreviation ENOBUFS :: int where "ENOBUFS \<equiv> 105"
abbreviation ENOTCONN :: int where "ENOTCONN \<equiv> 107"
abbreviation ETIMEDOUT :: int where "ETIMEDOUT \<equiv> 110"
abbreviation ECONNREFUSED :: int where "ECONNREFUSED \<equiv> 111"

section \<open>Fact collections\<close>

named_theorems layout_simps \<open>structure sizes, header offsets and constants\<close>
named_theorems field_simps_chm \<open>reading a field after a write\<close>
named_theorems wf_intros \<open>preservation of the components' well-formedness invariants\<close>

section \<open>Words\<close>

lemma unat_add_small:
  "unat (a :: 'a :: len word) + unat b < 2 ^ LENGTH('a) \<Longrightarrow> unat (a + b) = unat a + unat b"
  by (simp add: unat_add_lem)

lemma unat_mult_small:
  "unat (a :: 'a :: len word) * unat b < 2 ^ LENGTH('a) \<Longrightarrow> unat (a * b) = unat a * unat b"
  by (simp add: unat_mult_lem)

lemma unat_add_small_iff:
  "unat (a :: 'a :: len word) + unat b < 2 ^ LENGTH('a) \<Longrightarrow> x = unat a + unat b \<Longrightarrow> unat (a + b) = x"
  by (simp add: unat_add_lem)

lemma unat_bound: "unat (a :: 'a :: len word) < 2 ^ LENGTH('a)"
  by (rule unsigned_less)

lemma unat_ucast_up_aux: "LENGTH('a) \<le> n \<Longrightarrow> unat (a :: 'a :: len word) < 2 ^ n"
  using unat_bound [of a] power_increasing [of "LENGTH('a)" n "2 :: nat"] by linarith

lemma unat_ucast_up: "LENGTH('a) \<le> LENGTH('b) \<Longrightarrow> unat (ucast (a :: 'a :: len word) :: 'b :: len word) = unat a"
  by (simp add: unsigned_ucast_eq take_bit_nat_eq_self unat_ucast_up_aux)

lemma unat_32_bound: "unat (a :: u32) < 4294967296"
  using unat_bound [of a] by simp

lemma unat_16_bound: "unat (a :: u16) < 65536"
  using unat_bound [of a] by simp

lemma unat_8_bound: "unat (a :: u8) < 256"
  using unat_bound [of a] by simp

lemma unat_64_bound: "unat (a :: u64) < 18446744073709551616"
  using unat_bound [of a] by simp

subsection \<open>Clearing the low bits\<close>

lemma and_not_mask: "(w :: 'a :: len word) AND NOT (mask n) = w - take_bit n w"
proof -
  have "w AND NOT (mask n) = push_bit n (drop_bit n w)"
    by (rule bit_eqI) (auto simp: bit_simps)
  moreover have "push_bit n (drop_bit n w) + take_bit n w = w" by (rule bits_ident)
  ultimately show ?thesis by (metis add_diff_cancel_right')
qed

lemma unat_and_not_mask: "unat ((w :: 'a :: len word) AND NOT (mask n)) = unat w - unat w mod 2 ^ n"
proof -
  have "unat (take_bit n w) = take_bit n (unat w)" by (rule unsigned_take_bit_eq)
  then have t: "unat (take_bit n w) = unat w mod 2 ^ n" unfolding take_bit_eq_mod [of n "unat w"] .
  then have "take_bit n w \<le> w" by (simp add: word_le_nat_alt)
  then show ?thesis using t by (simp add: and_not_mask unat_sub)
qed

section \<open>Cyclic indices\<close>

lemma mod_add_inj:
  fixes h a b N :: nat
  assumes "(h + a) mod N = (h + b) mod N" and "a < N" and "b < N"
  shows "a = b"
proof -
  have *: "x = y" if "x \<le> y" "y < N" "(h + y) mod N = (h + x) mod N" for x y
  proof -
    have "N dvd (h + y) - (h + x)"
      using that by (intro mod_eq_dvd_iff_nat [THEN iffD1]) auto
    then have "N dvd y - x" by simp
    with that show ?thesis by (meson diff_is_0_eq dvd_imp_le le_antisym less_imp_diff_less
          linorder_not_less not_gr_zero)
  qed
  show ?thesis
  proof (cases "a \<le> b")
    case True
    with * [of a b] assms show ?thesis by simp
  next
    case False
    with * [of b a] assms show ?thesis by simp
  qed
qed

lemma mod_add_eq_iff:
  fixes h a b N :: nat
  assumes "a < N" and "b < N"
  shows "(h + a) mod N = (h + b) mod N \<longleftrightarrow> a = b"
  using assms mod_add_inj by blast

lemma Suc_mod_if:
  fixes i N :: nat
  assumes "i < N"
  shows "Suc i mod N = (if Suc i = N then 0 else Suc i)"
  using assms by auto

section \<open>Lists\<close>

lemma filter_neq_id [simp]: "a \<notin> set xs \<Longrightarrow> filter (\<lambda>i. i \<noteq> a) xs = xs"
  by (induction xs) auto

lemma unat_minus_one_32: "unat (- 1 :: u32) = 4294967295"
  by (simp add: unsigned_minus_1_eq_mask mask_eq_exp_minus_1)

lemma below_u8: "\<not> unat (x :: u8) \<le> k \<Longrightarrow> k < 255"
  using unat_8_bound [of x] by linarith

lemma sint_small_32: "unat (a :: u32) < 2 ^ 31 \<Longrightarrow> sint a = int (unat a)"
proof -
  assume a: "unat a < 2 ^ 31"
  have "int (unat a) < int (2 ^ 31)" using a by (simp only: of_nat_less_iff)
  then have "uint a < 2147483648" by simp
  then have "signed_take_bit 31 (uint a) = uint a"
    using uint_ge_0 [of a] by (intro signed_take_bit_int_eq_self) (auto intro: order_trans [of _ 0])
  then show ?thesis by (simp add: sint_uint)
qed

end
