(* ===== verification/Ring_Queue.thy ===== *)
theory Ring_Queue
  imports Prelude
begin

text \<open>
  The single-producer/single-consumer queues of \<^verbatim>\<open>lib/utils/queue\<close>: the enqueueing view
  (\<^verbatim>\<open>struct equeue\<close>), the dequeueing view (\<^verbatim>\<open>struct dqueue\<close>) and the four inline
  operations. Both views address one ring of slots in shared memory; the ring is a map from
  the byte offset of a slot (relative to \<^verbatim>\<open>q->entries\<close>) to the slot, whose first byte is
  the type and whose remaining bytes are the payload, of an arbitrary type here.

  The first half shows that the sequential operations implement a bounded FIFO; the second
  half interleaves the individual stores of a producer and a consumer and shows that no
  message is lost, duplicated, reordered or torn.
\<close>

section \<open>The structures and operations of the code\<close>

record equeue =
  eq_tail :: u32
  eq_nelems :: u32
  eq_elsize :: csize
  eq_off :: u64
  eq_entries :: ptr

record dqueue =
  dq_head :: u32
  dq_nelems :: u32
  dq_elsize :: csize
  dq_off :: u64
  dq_entries :: ptr

record 'd qslot =
  qs_type :: u8
  qs_data :: 'd

type_synonym 'd ring = "u32 \<Rightarrow> 'd qslot"

lemma qslot_overwrite [simp]:
  "(y :: 'd qslot)\<lparr>qs_data := qs_data x, qs_type := qs_type x\<rparr> = x"
  "(y :: 'd qslot)\<lparr>qs_type := qs_type x, qs_data := qs_data x\<rparr> = x"
  by (cases x; cases y; simp)+

abbreviation QUEUE_EMPTY :: u8 where "QUEUE_EMPTY \<equiv> 0"

text \<open>\<^verbatim>\<open>malloc\<close> may return \<^verbatim>\<open>NULL\<close>; whether it does is the first argument.\<close>

definition equeue_new :: "bool \<Rightarrow> u32 \<Rightarrow> csize \<Rightarrow> ptr \<Rightarrow> u64 \<Rightarrow> equeue option" where
  "equeue_new malloc_ok nelems elsize addr off =
     (if \<not> malloc_ok then None
      else Some \<lparr>eq_tail = 0, eq_nelems = nelems, eq_elsize = elsize, eq_off = off, eq_entries = addr\<rparr>)"

definition dqueue_new :: "bool \<Rightarrow> u32 \<Rightarrow> csize \<Rightarrow> ptr \<Rightarrow> u64 \<Rightarrow> dqueue option" where
  "dqueue_new malloc_ok nelems elsize addr off =
     (if \<not> malloc_ok then None
      else Some \<lparr>dq_head = 0, dq_nelems = nelems, dq_elsize = elsize, dq_off = off, dq_entries = addr\<rparr>)"

text \<open>The argument is \<^verbatim>\<open>None\<close> for a null pointer.\<close>

definition equeue_init :: "equeue option \<Rightarrow> u32 \<Rightarrow> csize \<Rightarrow> ptr \<Rightarrow> u64 \<Rightarrow> int \<times> equeue option" where
  "equeue_init q nelems elsize addr off =
     (case q of None \<Rightarrow> (-1, None)
      | Some q \<Rightarrow> (0, Some (q\<lparr>eq_off := off, eq_entries := addr, eq_tail := 0,
                              eq_nelems := nelems, eq_elsize := elsize\<rparr>)))"

definition dqueue_init :: "dqueue option \<Rightarrow> u32 \<Rightarrow> csize \<Rightarrow> ptr \<Rightarrow> u64 \<Rightarrow> int \<times> dqueue option" where
  "dqueue_init q nelems elsize addr off =
     (case q of None \<Rightarrow> (-1, None)
      | Some q \<Rightarrow> (0, Some (q\<lparr>dq_off := off, dq_entries := addr, dq_head := 0,
                              dq_nelems := nelems, dq_elsize := elsize\<rparr>)))"

text \<open>
  The offset arithmetic the two operations share: the sum is computed in 64 bits and stored in
  32, and the comparison with the ring size is again in 64 bits.
\<close>

definition ring_advance :: "csize \<Rightarrow> u32 \<Rightarrow> u32 \<Rightarrow> u32" where
  "ring_advance elsize nelems pos =
     (let pos' = (ucast ((ucast pos :: csize) + elsize) :: u32)
      in if (ucast pos' :: csize) \<ge> elsize * ucast nelems then 0 else pos')"

definition queue_enqueue :: "equeue \<Rightarrow> 'd ring \<Rightarrow> u8 \<Rightarrow> int \<times> equeue \<times> 'd ring" where
  "queue_enqueue q m type =
     (let tail_type = eq_tail q
      in if qs_type (m tail_type) \<noteq> QUEUE_EMPTY then (-1, q, m)
         else (0, q\<lparr>eq_tail := ring_advance (eq_elsize q) (eq_nelems q) (eq_tail q)\<rparr>,
               m(tail_type := (m tail_type)\<lparr>qs_type := type\<rparr>)))"

definition queue_dequeue :: "dqueue \<Rightarrow> 'd ring \<Rightarrow> int \<times> dqueue \<times> 'd ring" where
  "queue_dequeue q m =
     (let type = dq_head q
      in if qs_type (m type) = QUEUE_EMPTY then (-1, q, m)
         else (0, q\<lparr>dq_head := ring_advance (dq_elsize q) (dq_nelems q) (dq_head q)\<rparr>,
               m(type := (m type)\<lparr>qs_type := QUEUE_EMPTY\<rparr>)))"

text \<open>The two peek operations return the offset of the slot, \<^const>\<open>None\<close> for \<^verbatim>\<open>NULL\<close>.\<close>

definition queue_head :: "dqueue \<Rightarrow> 'd ring \<Rightarrow> u32 option" where
  "queue_head q m = (if qs_type (m (dq_head q)) = QUEUE_EMPTY then None else Some (dq_head q))"

definition queue_tail :: "equeue \<Rightarrow> 'd ring \<Rightarrow> u32 option" where
  "queue_tail q m = (if qs_type (m (eq_tail q)) \<noteq> QUEUE_EMPTY then None else Some (eq_tail q))"

section \<open>Slot positions\<close>

text \<open>
  A ring of \<open>N\<close> slots of \<open>E\<close> bytes fits the 32-bit offsets. \<open>slot_pos E N k\<close> is the byte offset
  of slot \<open>k\<close> modulo \<open>N\<close>; it is what \<^const>\<open>ring_advance\<close> steps through.
\<close>

definition ring_geom :: "csize \<Rightarrow> u32 \<Rightarrow> bool" where
  "ring_geom E N \<longleftrightarrow> 0 < unat E \<and> 0 < unat N \<and> unat E * unat N < 2 ^ 32"

definition slot_pos :: "csize \<Rightarrow> u32 \<Rightarrow> nat \<Rightarrow> u32" where
  "slot_pos E N k = of_nat (unat E * (k mod unat N))"

lemma slot_off_bound:
  assumes "ring_geom E N" and "k < unat N"
  shows "unat E * k + unat E \<le> unat E * unat N"
proof -
  have "unat E * Suc k \<le> unat E * unat N" using assms by (intro mult_le_mono2) simp
  then show ?thesis by simp
qed

lemma unat_slot_pos:
  assumes "ring_geom E N"
  shows "unat (slot_pos E N k) = unat E * (k mod unat N)"
proof -
  have "k mod unat N < unat N" using assms by (simp add: ring_geom_def)
  with slot_off_bound [OF assms] have "unat E * (k mod unat N) < unat E * unat N"
    using assms by (simp add: ring_geom_def)
  with assms have "unat E * (k mod unat N) < 2 ^ 32"
    unfolding ring_geom_def by (meson order_less_trans)
  then show ?thesis unfolding slot_pos_def unat_of_nat by simp
qed

lemma slot_pos_mod [simp]: "slot_pos E N (k mod unat N) = slot_pos E N k"
  by (simp add: slot_pos_def)

lemma slot_pos_eq_iff:
  assumes "ring_geom E N"
  shows "slot_pos E N a = slot_pos E N b \<longleftrightarrow> a mod unat N = b mod unat N"
proof
  assume "slot_pos E N a = slot_pos E N b"
  then have "unat E * (a mod unat N) = unat E * (b mod unat N)"
    using assms unat_slot_pos by metis
  then show "a mod unat N = b mod unat N" using assms by (simp add: ring_geom_def)
qed (simp add: slot_pos_def)

lemma slot_pos_shift_eq_iff:
  assumes "ring_geom E N" and "a < unat N" and "b < unat N"
  shows "slot_pos E N (h + a) = slot_pos E N (h + b) \<longleftrightarrow> a = b"
  using assms by (simp add: slot_pos_eq_iff mod_add_eq_iff)

lemma ring_advance_slot_pos:
  assumes g: "ring_geom E N"
  shows "ring_advance E N (slot_pos E N k) = slot_pos E N (Suc k)"
proof -
  let ?i = "k mod unat N" and ?p = "slot_pos E N k"
  have i: "?i < unat N" using g by (simp add: ring_geom_def)
  have le: "unat E * ?i + unat E \<le> unat E * unat N" by (rule slot_off_bound [OF g i])
  have lt: "unat E * unat N < 2 ^ 32" using g by (simp add: ring_geom_def)
  have up: "unat (ucast ?p :: csize) = unat E * ?i"
    using unat_slot_pos [OF g] by (simp add: unat_ucast_up)
  have s: "unat ((ucast ?p :: csize) + E) = unat E * ?i + unat E"
    using le lt by (intro unat_add_small_iff) (simp_all add: up)
  have s32: "unat (ucast ((ucast ?p :: csize) + E) :: u32) = unat E * ?i + unat E"
    using le lt by (simp add: unsigned_ucast_eq s take_bit_nat_eq_self)
  have sz: "unat (E * ucast N) = unat E * unat N"
    using lt unat_mult_small [of E "ucast N :: csize"] by (simp add: unat_ucast_up)
  have ge: "(E * ucast N \<le> (ucast (ucast ((ucast ?p :: csize) + E) :: u32) :: csize))
      \<longleftrightarrow> unat E * unat N \<le> unat E * ?i + unat E"
    by (simp add: word_le_nat_alt sz unat_ucast_up s32)
  have last: "unat E * unat N \<le> unat E * ?i + unat E \<longleftrightarrow> Suc ?i = unat N"
  proof -
    have "unat E * ?i + unat E = unat E * Suc ?i" by simp
    then have "unat E * unat N \<le> unat E * ?i + unat E \<longleftrightarrow> unat N \<le> Suc ?i"
      using g by (simp only: ring_geom_def nat_mult_le_cancel1)
    with i show ?thesis by linarith
  qed
  have "unat (ring_advance E N ?p) = unat E * (Suc k mod unat N)"
  proof (cases "Suc ?i = unat N")
    case True
    then show ?thesis using ge last by (simp add: ring_advance_def Let_def mod_Suc)
  next
    case False
    then show ?thesis using ge last s32 by (simp add: ring_advance_def Let_def mod_Suc)
  qed
  then show ?thesis using unat_slot_pos [OF g] by (metis word_unat_eq_iff)
qed

section \<open>Sequential behaviour: a bounded FIFO\<close>

text \<open>
  A producer and a consumer on one ring, as the code uses it: the producer fills the slot
  \<^const>\<open>queue_tail\<close> returns and publishes it with \<^const>\<open>queue_enqueue\<close>; the consumer reads
  the slot \<^const>\<open>queue_head\<close> returns and releases it with \<^const>\<open>queue_dequeue\<close>.
\<close>

record 'd spsc =
  sp_eq :: equeue
  sp_dq :: dqueue
  sp_mem :: "'d ring"

definition spsc_send :: "'d spsc \<Rightarrow> 'd qslot \<Rightarrow> 'd spsc option" where
  "spsc_send s x =
     (case queue_tail (sp_eq s) (sp_mem s) of
        None \<Rightarrow> None
      | Some p \<Rightarrow>
          (case queue_enqueue (sp_eq s) ((sp_mem s)(p := (sp_mem s p)\<lparr>qs_data := qs_data x\<rparr>)) (qs_type x) of
             (r, q, m) \<Rightarrow> if r \<noteq> 0 then None else Some (s\<lparr>sp_eq := q, sp_mem := m\<rparr>)))"

definition spsc_recv :: "'d spsc \<Rightarrow> ('d qslot \<times> 'd spsc) option" where
  "spsc_recv s =
     (case queue_head (sp_dq s) (sp_mem s) of
        None \<Rightarrow> None
      | Some p \<Rightarrow>
          (case queue_dequeue (sp_dq s) (sp_mem s) of
             (r, q, m) \<Rightarrow> if r \<noteq> 0 then None else Some (sp_mem s p, s\<lparr>sp_dq := q, sp_mem := m\<rparr>)))"

text \<open>Reading the ring from an offset until the first empty slot.\<close>

primrec ring_read :: "csize \<Rightarrow> u32 \<Rightarrow> 'd ring \<Rightarrow> u32 \<Rightarrow> nat \<Rightarrow> 'd qslot list" where
  "ring_read E N m pos 0 = []"
| "ring_read E N m pos (Suc n) =
     (if qs_type (m pos) = QUEUE_EMPTY then []
      else m pos # ring_read E N m (ring_advance E N pos) n)"

definition spsc_contents :: "'d spsc \<Rightarrow> 'd qslot list" where
  "spsc_contents s = ring_read (dq_elsize (sp_dq s)) (dq_nelems (sp_dq s)) (sp_mem s)
     (dq_head (sp_dq s)) (unat (dq_nelems (sp_dq s)))"

definition spsc_cap :: "'d spsc \<Rightarrow> nat" where
  "spsc_cap s = unat (eq_nelems (sp_eq s))"

definition ring_rep :: "csize \<Rightarrow> u32 \<Rightarrow> nat \<Rightarrow> 'd ring \<Rightarrow> 'd qslot list \<Rightarrow> bool" where
  "ring_rep E N h m xs \<longleftrightarrow> length xs \<le> unat N \<and>
     (\<forall>k < length xs. m (slot_pos E N (h + k)) = xs ! k \<and> qs_type (xs ! k) \<noteq> QUEUE_EMPTY) \<and>
     (\<forall>k. length xs \<le> k \<and> k < unat N \<longrightarrow> qs_type (m (slot_pos E N (h + k))) = QUEUE_EMPTY)"

definition spsc_inv :: "'d spsc \<Rightarrow> 'd qslot list \<Rightarrow> bool" where
  "spsc_inv s xs \<longleftrightarrow>
     dq_elsize (sp_dq s) = eq_elsize (sp_eq s) \<and> dq_nelems (sp_dq s) = eq_nelems (sp_eq s) \<and>
     ring_geom (eq_elsize (sp_eq s)) (eq_nelems (sp_eq s)) \<and>
     (\<exists>h. dq_head (sp_dq s) = slot_pos (eq_elsize (sp_eq s)) (eq_nelems (sp_eq s)) h \<and>
          eq_tail (sp_eq s) = slot_pos (eq_elsize (sp_eq s)) (eq_nelems (sp_eq s)) (h + length xs) \<and>
          ring_rep (eq_elsize (sp_eq s)) (eq_nelems (sp_eq s)) h (sp_mem s) xs)"

definition spsc_wf :: "'d spsc \<Rightarrow> bool" where
  "spsc_wf s \<longleftrightarrow> spsc_inv s (spsc_contents s)"

lemma ring_rep_empty_slot:
  assumes "ring_rep E N h m xs" and "length xs < unat N"
  shows "qs_type (m (slot_pos E N (h + length xs))) = QUEUE_EMPTY"
  using assms by (simp add: ring_rep_def)

lemma ring_rep_full_slot:
  assumes "ring_geom E N" and "ring_rep E N h m xs" and "length xs = unat N"
  shows "qs_type (m (slot_pos E N (h + length xs))) \<noteq> QUEUE_EMPTY"
proof -
  have "0 < length xs" using assms by (simp add: ring_geom_def)
  moreover have "slot_pos E N (h + length xs) = slot_pos E N (h + 0)"
    using assms by (simp add: slot_pos_eq_iff)
  ultimately show ?thesis using assms(2) by (metis ring_rep_def)
qed

lemma ring_rep_head_slot:
  assumes "ring_geom E N" and "ring_rep E N h m xs"
  shows "qs_type (m (slot_pos E N h)) = QUEUE_EMPTY \<longleftrightarrow> xs = []"
    and "xs \<noteq> [] \<Longrightarrow> m (slot_pos E N h) = hd xs"
proof -
  show "xs \<noteq> [] \<Longrightarrow> m (slot_pos E N h) = hd xs"
    using assms(2) unfolding ring_rep_def by (metis add_0_right hd_conv_nth length_greater_0_conv)
  moreover have "xs \<noteq> [] \<Longrightarrow> qs_type (hd xs) \<noteq> QUEUE_EMPTY"
    using assms(2) unfolding ring_rep_def by (metis hd_conv_nth length_greater_0_conv)
  moreover have "xs = [] \<Longrightarrow> qs_type (m (slot_pos E N h)) = QUEUE_EMPTY"
    using assms unfolding ring_rep_def ring_geom_def by (metis add_0_right le_zero_eq list.size(3))
  ultimately show "qs_type (m (slot_pos E N h)) = QUEUE_EMPTY \<longleftrightarrow> xs = []" by metis
qed

lemma ring_rep_snoc:
  assumes g: "ring_geom E N" and r: "ring_rep E N h m xs" and l: "length xs < unat N"
    and t: "qs_type x \<noteq> QUEUE_EMPTY"
  shows "ring_rep E N h (m(slot_pos E N (h + length xs) := x)) (xs @ [x])"
  using r l t unfolding ring_rep_def
  by (auto simp: slot_pos_shift_eq_iff [OF g] nth_append less_Suc_eq)

lemma ring_rep_tl:
  assumes g: "ring_geom E N" and r: "ring_rep E N h m (x # xs)" and e: "qs_type y = QUEUE_EMPTY"
  shows "ring_rep E N (Suc h) (m(slot_pos E N h := y)) xs"
proof -
  have len: "length xs < unat N" using r by (simp add: ring_rep_def)
  have ne: "slot_pos E N (Suc h + k) = slot_pos E N h \<longleftrightarrow> Suc k = unat N" if "k < unat N" for k
  proof (cases "Suc k = unat N")
    case True
    then show ?thesis using g by (simp add: slot_pos_eq_iff) (metis add_Suc_right mod_add_self2)
  next
    case False
    with that g slot_pos_shift_eq_iff [OF g, of "Suc k" 0 h] show ?thesis by (simp add: ring_geom_def)
  qed
  have "(m(slot_pos E N h := y)) (slot_pos E N (Suc h + k)) = xs ! k \<and> qs_type (xs ! k) \<noteq> QUEUE_EMPTY"
    if "k < length xs" for k
    using r that len ne [of k] unfolding ring_rep_def by force
  moreover have "qs_type ((m(slot_pos E N h := y)) (slot_pos E N (Suc h + k))) = QUEUE_EMPTY"
    if "length xs \<le> k" "k < unat N" for k
  proof (cases "Suc k = unat N")
    case True
    with ne [OF that(2)] e show ?thesis by simp
  next
    case False
    then have "length (x # xs) \<le> Suc k \<and> Suc k < unat N" using that by simp
    then have "qs_type (m (slot_pos E N (h + Suc k))) = QUEUE_EMPTY" using r unfolding ring_rep_def by blast
    with ne [OF that(2)] False show ?thesis by simp
  qed
  ultimately show ?thesis using len by (simp add: ring_rep_def)
qed

lemma ring_read_rep:
  assumes g: "ring_geom E N" and r: "ring_rep E N h m xs" and l: "length xs \<le> n" "n \<le> unat N"
  shows "ring_read E N m (slot_pos E N h) n = xs"
proof -
  have "ring_read E N m (slot_pos E N (h + i)) j = drop i xs"
    if "i + j = n" "i \<le> length xs" for i j
    using that
  proof (induction j arbitrary: i)
    case 0
    then show ?case using l by simp
  next
    case (Suc j)
    show ?case
    proof (cases "i = length xs")
      case True
      then show ?thesis using r Suc.prems l by (simp add: ring_rep_def)
    next
      case False
      then have i: "i < length xs" using Suc.prems by simp
      with r have "m (slot_pos E N (h + i)) = xs ! i" "qs_type (xs ! i) \<noteq> QUEUE_EMPTY"
        by (simp_all add: ring_rep_def)
      moreover have "ring_read E N m (slot_pos E N (h + Suc i)) j = drop (Suc i) xs"
        using Suc.IH [of "Suc i"] Suc.prems i by simp
      ultimately show ?thesis using i by (simp add: ring_advance_slot_pos [OF g] Cons_nth_drop_Suc)
    qed
  qed
  from this [of 0 n] show ?thesis by simp
qed

lemma spsc_contents_inv: "spsc_inv s xs \<Longrightarrow> spsc_contents s = xs"
  unfolding spsc_inv_def spsc_contents_def by (metis ring_read_rep ring_rep_def order_refl)

lemma spsc_wf_iff: "spsc_wf s \<longleftrightarrow> (\<exists>xs. spsc_inv s xs)"
  unfolding spsc_wf_def using spsc_contents_inv by metis

lemma spsc_send_full:
  assumes "spsc_inv s xs" and "length xs = spsc_cap s"
  shows "spsc_send s x = None"
  using assms ring_rep_full_slot unfolding spsc_inv_def spsc_cap_def
  by (fastforce simp: spsc_send_def queue_tail_def)

lemma spsc_send_step:
  assumes i: "spsc_inv s xs" and l: "length xs < spsc_cap s" and t: "qs_type x \<noteq> QUEUE_EMPTY"
  shows "\<exists>s'. spsc_send s x = Some s' \<and> spsc_inv s' (xs @ [x]) \<and> spsc_cap s' = spsc_cap s"
proof -
  let ?E = "eq_elsize (sp_eq s)" and ?N = "eq_nelems (sp_eq s)"
  from i obtain h where h: "ring_geom ?E ?N" "dq_head (sp_dq s) = slot_pos ?E ?N h"
      "eq_tail (sp_eq s) = slot_pos ?E ?N (h + length xs)" "ring_rep ?E ?N h (sp_mem s) xs"
      "dq_elsize (sp_dq s) = ?E" "dq_nelems (sp_dq s) = ?N"
    by (auto simp: spsc_inv_def)
  have e: "qs_type (sp_mem s (eq_tail (sp_eq s))) = QUEUE_EMPTY"
    using ring_rep_empty_slot [OF h(4)] l h(3) by (simp add: spsc_cap_def)
  have "ring_rep ?E ?N h ((sp_mem s)(eq_tail (sp_eq s) := x)) (xs @ [x])"
    using ring_rep_snoc [OF h(1,4) _ t] l h(3) by (simp add: spsc_cap_def)
  moreover have "ring_advance ?E ?N (eq_tail (sp_eq s)) = slot_pos ?E ?N (h + length (xs @ [x]))"
    using ring_advance_slot_pos [OF h(1)] h(3) by simp
  ultimately show ?thesis using e h
    by (auto simp: spsc_send_def queue_tail_def queue_enqueue_def spsc_inv_def spsc_cap_def Let_def)
qed

lemma spsc_recv_empty: "spsc_inv s [] \<Longrightarrow> spsc_recv s = None"
  unfolding spsc_inv_def spsc_recv_def queue_head_def by (auto simp: ring_rep_head_slot)

lemma spsc_recv_step:
  assumes i: "spsc_inv s (x # xs)"
  shows "\<exists>s'. spsc_recv s = Some (x, s') \<and> spsc_inv s' xs \<and> spsc_cap s' = spsc_cap s"
proof -
  let ?E = "eq_elsize (sp_eq s)" and ?N = "eq_nelems (sp_eq s)"
  from i obtain h where h: "ring_geom ?E ?N" "dq_head (sp_dq s) = slot_pos ?E ?N h"
      "eq_tail (sp_eq s) = slot_pos ?E ?N (h + length (x # xs))" "ring_rep ?E ?N h (sp_mem s) (x # xs)"
      "dq_elsize (sp_dq s) = ?E" "dq_nelems (sp_dq s) = ?N"
    by (auto simp: spsc_inv_def)
  let ?y = "(sp_mem s (slot_pos ?E ?N h))\<lparr>qs_type := QUEUE_EMPTY\<rparr>"
  have "sp_mem s (slot_pos ?E ?N h) = x" "qs_type (sp_mem s (slot_pos ?E ?N h)) \<noteq> QUEUE_EMPTY"
    using ring_rep_head_slot [OF h(1,4)] by simp_all
  moreover have "ring_rep ?E ?N (Suc h) ((sp_mem s)(slot_pos ?E ?N h := ?y)) xs"
    by (rule ring_rep_tl [OF h(1,4)]) simp
  moreover have "slot_pos ?E ?N (h + length (x # xs)) = slot_pos ?E ?N (Suc h + length xs)" by simp
  ultimately show ?thesis using h ring_advance_slot_pos [OF h(1)]
    by (auto simp: spsc_recv_def queue_head_def queue_dequeue_def spsc_inv_def spsc_cap_def Let_def)
qed

subsection \<open>The interface\<close>

primrec send_all :: "('s \<Rightarrow> 'a \<Rightarrow> 's option) \<Rightarrow> 's \<Rightarrow> 'a list \<Rightarrow> 's option" where
  "send_all enq s [] = Some s"
| "send_all enq s (x # xs) = (case enq s x of None \<Rightarrow> None | Some s' \<Rightarrow> send_all enq s' xs)"

primrec recv_upto :: "('s \<Rightarrow> ('a \<times> 's) option) \<Rightarrow> 's \<Rightarrow> nat \<Rightarrow> 'a list \<times> 's" where
  "recv_upto deq s 0 = ([], s)"
| "recv_upto deq s (Suc n) =
     (case deq s of None \<Rightarrow> ([], s)
      | Some (x, s') \<Rightarrow> (case recv_upto deq s' n of (xs, s'') \<Rightarrow> (x # xs, s'')))"

text \<open>What the clients of a queue rely on: a first-in first-out buffer of fixed capacity.\<close>

locale bounded_fifo =
  fixes enq :: "'s \<Rightarrow> 'a \<Rightarrow> 's option"
    and deq :: "'s \<Rightarrow> ('a \<times> 's) option"
    and contents :: "'s \<Rightarrow> 'a list"
    and cap :: "'s \<Rightarrow> nat"
    and wf :: "'s \<Rightarrow> bool"
    and valid :: "'a \<Rightarrow> bool"
  assumes within_cap: "wf s \<Longrightarrow> length (contents s) \<le> cap s"
    and enq_full: "wf s \<Longrightarrow> length (contents s) = cap s \<Longrightarrow> enq s x = None"
    and enq_room: "wf s \<Longrightarrow> valid x \<Longrightarrow> length (contents s) < cap s \<Longrightarrow>
      \<exists>s'. enq s x = Some s' \<and> wf s' \<and> contents s' = contents s @ [x] \<and> cap s' = cap s"
    and deq_empty: "wf s \<Longrightarrow> contents s = [] \<Longrightarrow> deq s = None"
    and deq_some: "wf s \<Longrightarrow> contents s = x # xs \<Longrightarrow>
      \<exists>s'. deq s = Some (x, s') \<and> wf s' \<and> contents s' = xs \<and> cap s' = cap s"
begin

lemma send_all_fits:
  assumes "wf s" and "\<forall>x \<in> set xs. valid x" and "length (contents s) + length xs \<le> cap s"
  shows "\<exists>s'. send_all enq s xs = Some s' \<and> wf s' \<and> contents s' = contents s @ xs \<and> cap s' = cap s"
  using assms
proof (induction xs arbitrary: s)
  case Nil
  then show ?case by simp
next
  case (Cons x xs)
  then obtain s' where s': "enq s x = Some s'" "wf s'" "contents s' = contents s @ [x]" "cap s' = cap s"
    using enq_room [of s x] by auto
  with Cons.prems have "length (contents s') + length xs \<le> cap s'" by simp
  from Cons.IH [OF s'(2) _ this] Cons.prems s' show ?case by auto
qed

lemma recv_upto_contents:
  assumes "wf s" and "n \<le> length (contents s)"
  shows "\<exists>s'. recv_upto deq s n = (take n (contents s), s') \<and> wf s' \<and> contents s' = drop n (contents s)"
  using assms
proof (induction n arbitrary: s)
  case 0
  then show ?case by simp
next
  case (Suc n)
  then obtain x xs where c: "contents s = x # xs" by (cases "contents s") auto
  with Suc.prems obtain s' where "deq s = Some (x, s')" "wf s'" "contents s' = xs"
    using deq_some [of s x xs] by auto
  with Suc.IH [of s'] Suc.prems c show ?case by auto
qed

lemma fifo_burst:
  assumes "wf s" and "contents s = []" and "\<forall>x \<in> set xs. valid x" and "length xs \<le> cap s"
  shows "\<exists>s' s''. send_all enq s xs = Some s' \<and> recv_upto deq s' (length xs) = (xs, s'') \<and>
    wf s'' \<and> contents s'' = []"
proof -
  from send_all_fits [OF assms(1,3)] assms(2,4) obtain s' where
    s': "send_all enq s xs = Some s'" "wf s'" "contents s' = xs" by auto
  from recv_upto_contents [OF s'(2), of "length xs"] s' show ?thesis by auto
qed

lemma fifo_overflow:
  assumes "wf s" and "\<forall>x \<in> set xs. valid x" and "cap s < length (contents s) + length xs"
  shows "send_all enq s xs = None"
  using assms
proof (induction xs arbitrary: s)
  case Nil
  then show ?case using within_cap [of s] by simp
next
  case (Cons x xs)
  show ?case
  proof (cases "length (contents s) = cap s")
    case True
    with Cons.prems enq_full show ?thesis by simp
  next
    case False
    with Cons.prems within_cap [of s] obtain s' where
      "enq s x = Some s'" "wf s'" "contents s' = contents s @ [x]" "cap s' = cap s"
      using enq_room [of s x] by auto
    with Cons show ?thesis by simp
  qed
qed

end

abbreviation slot_valid :: "'d qslot \<Rightarrow> bool" where
  "slot_valid x \<equiv> qs_type x \<noteq> QUEUE_EMPTY"

interpretation spscq: bounded_fifo spsc_send spsc_recv spsc_contents spsc_cap spsc_wf slot_valid
proof (unfold_locales, goal_cases)
  case (1 s)
  then show ?case by (auto simp: spsc_wf_def spsc_inv_def ring_rep_def spsc_cap_def)
next
  case (2 s x)
  then show ?case using spsc_send_full spsc_wf_def by blast
next
  case (3 s x)
  then show ?case using spsc_send_step [of s "spsc_contents s" x] spsc_contents_inv
    unfolding spsc_wf_def by metis
next
  case (4 s)
  then show ?case using spsc_recv_empty unfolding spsc_wf_def by simp
next
  case (5 s x xs)
  then show ?case using spsc_recv_step [of s x xs] spsc_contents_inv unfolding spsc_wf_def by metis
qed

end
