(* ===== verification/Queue_Concurrency.thy ===== *)
theory Queue_Concurrency
  imports Ring_Queue
begin

text \<open>
  Producer and consumer of one ring running concurrently. \<^const>\<open>queue_enqueue\<close> and
  \<^const>\<open>queue_dequeue\<close> are split at their memory barriers into the store that advances the
  private offset and the store that flips the shared type byte; the stores of the two sides
  interleave in any order. The payload of a slot is written by any number of partial stores
  before the slot is published.
\<close>

section \<open>The two halves of each operation\<close>

definition enqueue_advance :: "equeue \<Rightarrow> 'd ring \<Rightarrow> (equeue \<times> u32) option" where
  "enqueue_advance q m =
     (if qs_type (m (eq_tail q)) \<noteq> QUEUE_EMPTY then None
      else Some (q\<lparr>eq_tail := ring_advance (eq_elsize q) (eq_nelems q) (eq_tail q)\<rparr>, eq_tail q))"

definition enqueue_publish :: "'d ring \<Rightarrow> u32 \<Rightarrow> u8 \<Rightarrow> 'd ring" where
  "enqueue_publish m p type = m(p := (m p)\<lparr>qs_type := type\<rparr>)"

definition dequeue_advance :: "dqueue \<Rightarrow> 'd ring \<Rightarrow> (dqueue \<times> u32) option" where
  "dequeue_advance q m =
     (if qs_type (m (dq_head q)) = QUEUE_EMPTY then None
      else Some (q\<lparr>dq_head := ring_advance (dq_elsize q) (dq_nelems q) (dq_head q)\<rparr>, dq_head q))"

definition dequeue_clear :: "'d ring \<Rightarrow> u32 \<Rightarrow> 'd ring" where
  "dequeue_clear m p = m(p := (m p)\<lparr>qs_type := QUEUE_EMPTY\<rparr>)"

lemma queue_enqueue_split:
  "queue_enqueue q m t =
     (case enqueue_advance q m of None \<Rightarrow> (-1, q, m) | Some (q', p) \<Rightarrow> (0, q', enqueue_publish m p t))"
  by (simp add: queue_enqueue_def enqueue_advance_def enqueue_publish_def Let_def)

lemma queue_dequeue_split:
  "queue_dequeue q m =
     (case dequeue_advance q m of None \<Rightarrow> (-1, q, m) | Some (q', p) \<Rightarrow> (0, q', dequeue_clear m p))"
  by (simp add: queue_dequeue_def dequeue_advance_def dequeue_clear_def Let_def)

section \<open>The interleaved system\<close>

datatype 'd ppc = P_Idle | P_Filled "'d qslot" | P_Advanced u32 "'d qslot"

datatype 'd cpc = C_Idle | C_Read "'d qslot" | C_Advanced u32

record 'd qsys =
  qy_q :: "'d spsc"
  qy_p :: "'d ppc"
  qy_c :: "'d cpc"
  qy_sent :: "'d qslot list"
  qy_rcvd :: "'d qslot list"

abbreviation "qy_eq s \<equiv> sp_eq (qy_q s)"
abbreviation "qy_dq s \<equiv> sp_dq (qy_q s)"
abbreviation "qy_mem s \<equiv> sp_mem (qy_q s)"

inductive qstep :: "'d qsys \<Rightarrow> 'd qsys \<Rightarrow> bool" where
  scribble: "qy_p s = P_Idle \<Longrightarrow> queue_tail (qy_eq s) (qy_mem s) = Some p \<Longrightarrow>
    qstep s (s\<lparr>qy_q := (qy_q s)\<lparr>sp_mem := (qy_mem s)(p := (qy_mem s p)\<lparr>qs_data := d\<rparr>)\<rparr>\<rparr>)"
| fill: "qy_p s = P_Idle \<Longrightarrow> slot_valid x \<Longrightarrow> queue_tail (qy_eq s) (qy_mem s) = Some p \<Longrightarrow>
    qstep s (s\<lparr>qy_q := (qy_q s)\<lparr>sp_mem := (qy_mem s)(p := (qy_mem s p)\<lparr>qs_data := qs_data x\<rparr>)\<rparr>,
               qy_p := P_Filled x\<rparr>)"
| advance: "qy_p s = P_Filled x \<Longrightarrow> enqueue_advance (qy_eq s) (qy_mem s) = Some (q, p) \<Longrightarrow>
    qstep s (s\<lparr>qy_q := (qy_q s)\<lparr>sp_eq := q\<rparr>, qy_p := P_Advanced p x\<rparr>)"
| publish: "qy_p s = P_Advanced p x \<Longrightarrow>
    qstep s (s\<lparr>qy_q := (qy_q s)\<lparr>sp_mem := enqueue_publish (qy_mem s) p (qs_type x)\<rparr>,
               qy_p := P_Idle, qy_sent := qy_sent s @ [x]\<rparr>)"
| read: "qy_c s = C_Idle \<Longrightarrow> queue_head (qy_dq s) (qy_mem s) = Some p \<Longrightarrow>
    qstep s (s\<lparr>qy_c := C_Read (qy_mem s p)\<rparr>)"
| release: "qy_c s = C_Read x \<Longrightarrow> dequeue_advance (qy_dq s) (qy_mem s) = Some (q, p) \<Longrightarrow>
    qstep s (s\<lparr>qy_q := (qy_q s)\<lparr>sp_dq := q\<rparr>, qy_c := C_Advanced p, qy_rcvd := qy_rcvd s @ [x]\<rparr>)"
| clear: "qy_c s = C_Advanced p \<Longrightarrow>
    qstep s (s\<lparr>qy_q := (qy_q s)\<lparr>sp_mem := dequeue_clear (qy_mem s) p\<rparr>, qy_c := C_Idle\<rparr>)"

definition qsys_init :: "csize \<Rightarrow> u32 \<Rightarrow> ptr \<Rightarrow> ptr \<Rightarrow> u64 \<Rightarrow> 'd ring \<Rightarrow> 'd qsys" where
  "qsys_init E N ea da off m =
     \<lparr>qy_q = \<lparr>sp_eq = the (equeue_new True N E ea off), sp_dq = the (dqueue_new True N E da off), sp_mem = m\<rparr>,
      qy_p = P_Idle, qy_c = C_Idle, qy_sent = [], qy_rcvd = []\<rparr>"

inductive qreach :: "'d qsys \<Rightarrow> 'd qsys \<Rightarrow> bool" for s0 where
  start: "qreach s0 s0"
| step: "qreach s0 s \<Longrightarrow> qstep s t \<Longrightarrow> qreach s0 t"

section \<open>The invariant\<close>

text \<open>
  From slot \<open>h\<close> on, the ring holds the slot the consumer has read but not yet cleared, if any
  (\<open>ys\<close>), then the published messages \<open>xs\<close>; the slot behind them is the producer's.
\<close>

definition c_owned :: "'d cpc \<Rightarrow> nat" where
  "c_owned c = (case c of C_Advanced p \<Rightarrow> 1 | _ \<Rightarrow> 0)"

definition p_owned :: "'d ppc \<Rightarrow> nat" where
  "p_owned p = (case p of P_Advanced _ _ \<Rightarrow> 1 | _ \<Rightarrow> 0)"

definition p_ok :: "'d ring \<Rightarrow> u32 \<Rightarrow> nat \<Rightarrow> nat \<Rightarrow> 'd ppc \<Rightarrow> bool" where
  "p_ok m slot used N pc =
     (case pc of P_Idle \<Rightarrow> True
      | P_Filled x \<Rightarrow> used < N \<and> slot_valid x \<and> qs_data (m slot) = qs_data x
      | P_Advanced p x \<Rightarrow> used < N \<and> slot_valid x \<and> qs_data (m slot) = qs_data x \<and> p = slot)"

definition c_ok :: "u32 \<Rightarrow> 'd qslot list \<Rightarrow> 'd cpc \<Rightarrow> bool" where
  "c_ok slot xs pc =
     (case pc of C_Idle \<Rightarrow> True
      | C_Read x \<Rightarrow> xs \<noteq> [] \<and> x = hd xs
      | C_Advanced p \<Rightarrow> p = slot)"

definition qsys_rep :: "csize \<Rightarrow> u32 \<Rightarrow> 'd qsys \<Rightarrow> nat \<Rightarrow> 'd qslot list \<Rightarrow> 'd qslot list \<Rightarrow> bool" where
  "qsys_rep E N s h ys xs \<longleftrightarrow>
     eq_elsize (qy_eq s) = E \<and> eq_nelems (qy_eq s) = N \<and>
     dq_elsize (qy_dq s) = E \<and> dq_nelems (qy_dq s) = N \<and>
     qy_sent s = qy_rcvd s @ xs \<and> length ys = c_owned (qy_c s) \<and>
     ring_rep E N h (qy_mem s) (ys @ xs) \<and>
     dq_head (qy_dq s) = slot_pos E N (h + length ys) \<and>
     eq_tail (qy_eq s) = slot_pos E N (h + length (ys @ xs) + p_owned (qy_p s)) \<and>
     p_ok (qy_mem s) (slot_pos E N (h + length (ys @ xs))) (length (ys @ xs)) (unat N) (qy_p s) \<and>
     c_ok (slot_pos E N h) xs (qy_c s)"

definition qsys_inv :: "csize \<Rightarrow> u32 \<Rightarrow> 'd qsys \<Rightarrow> bool" where
  "qsys_inv E N s \<longleftrightarrow> (\<exists>h ys xs. qsys_rep E N s h ys xs)"

lemma qsys_invI: "qsys_rep E N s h ys xs \<Longrightarrow> qsys_inv E N s"
  by (auto simp: qsys_inv_def)

lemma qsys_invE:
  assumes "qsys_inv E N s"
  obtains h ys xs where "qsys_rep E N s h ys xs"
  using assms by (auto simp: qsys_inv_def)

lemma queue_tail_room:
  assumes "ring_geom E N" and "ring_rep E N h m zs" and "queue_tail q m = Some p"
    and "eq_tail q = slot_pos E N (h + length zs)"
  shows "p = slot_pos E N (h + length zs)" and "length zs < unat N"
  using assms ring_rep_full_slot [OF assms(1,2)]
  by (auto simp: queue_tail_def ring_rep_def le_eq_less_or_eq split: if_splits)

lemma ring_rep_write_free:
  assumes g: "ring_geom E N" and r: "ring_rep E N h m zs" and l: "length zs < unat N"
    and e: "qs_type y = QUEUE_EMPTY"
  shows "ring_rep E N h (m(slot_pos E N (h + length zs) := y)) zs"
  using r l e slot_pos_shift_eq_iff [OF g] unfolding ring_rep_def by auto

lemma qsys_rep_scribble:
  assumes g: "ring_geom E N" and r: "qsys_rep E N s h ys xs" and i: "qy_p s = P_Idle"
    and t: "queue_tail (qy_eq s) (qy_mem s) = Some p"
  shows "qsys_rep E N (s\<lparr>qy_q := (qy_q s)\<lparr>sp_mem := (qy_mem s)(p := (qy_mem s p)\<lparr>qs_data := d\<rparr>)\<rparr>\<rparr>) h ys xs"
    and "length (ys @ xs) < unat N" and "p = slot_pos E N (h + length (ys @ xs))"
proof -
  have rr: "ring_rep E N h (qy_mem s) (ys @ xs)"
    and tl: "eq_tail (qy_eq s) = slot_pos E N (h + length (ys @ xs))"
    using r i by (simp_all add: qsys_rep_def p_owned_def)
  note room = queue_tail_room [OF g rr t tl]
  from room show "length (ys @ xs) < unat N" "p = slot_pos E N (h + length (ys @ xs))" by simp_all
  have "qs_type (qy_mem s p) = QUEUE_EMPTY"
    using ring_rep_empty_slot [OF rr] room by simp
  with ring_rep_write_free [OF g rr room(2)] room(1)
  have "ring_rep E N h ((qy_mem s)(p := (qy_mem s p)\<lparr>qs_data := d\<rparr>)) (ys @ xs)" by simp
  with r i show "qsys_rep E N (s\<lparr>qy_q := (qy_q s)\<lparr>sp_mem := (qy_mem s)(p := (qy_mem s p)\<lparr>qs_data := d\<rparr>)\<rparr>\<rparr>) h ys xs"
    by (simp add: qsys_rep_def p_ok_def)
qed

lemma qsys_rep_publish:
  assumes g: "ring_geom E N" and r: "qsys_rep E N s h ys xs" and a: "qy_p s = P_Advanced p x"
  shows "qsys_rep E N (s\<lparr>qy_q := (qy_q s)\<lparr>sp_mem := enqueue_publish (qy_mem s) p (qs_type x)\<rparr>,
               qy_p := P_Idle, qy_sent := qy_sent s @ [x]\<rparr>) h ys (xs @ [x])"
proof -
  from r a have p: "p = slot_pos E N (h + length (ys @ xs))" and l: "length (ys @ xs) < unat N"
    and v: "slot_valid x" and d: "qs_data (qy_mem s p) = qs_data x"
    and rr: "ring_rep E N h (qy_mem s) (ys @ xs)"
    by (auto simp: qsys_rep_def p_ok_def)
  have "(qy_mem s p)\<lparr>qs_type := qs_type x\<rparr> = x" using d by (cases x; cases "qy_mem s p"; simp)
  with ring_rep_snoc [OF g rr l v] p
  have "ring_rep E N h (enqueue_publish (qy_mem s) p (qs_type x)) (ys @ xs @ [x])"
    by (simp add: enqueue_publish_def)
  then show ?thesis using r a by (auto simp: qsys_rep_def p_owned_def p_ok_def c_ok_def split: cpc.splits)
qed

lemma qsys_rep_read:
  assumes g: "ring_geom E N" and r: "qsys_rep E N s h ys xs" and i: "qy_c s = C_Idle"
    and t: "queue_head (qy_dq s) (qy_mem s) = Some p"
  shows "qsys_rep E N (s\<lparr>qy_c := C_Read (qy_mem s p)\<rparr>) h ys xs"
proof -
  from r i have ys: "ys = []" and rr: "ring_rep E N h (qy_mem s) xs"
    and hd: "dq_head (qy_dq s) = slot_pos E N h"
    by (auto simp: qsys_rep_def c_owned_def)
  from t hd have "p = slot_pos E N h" "qs_type (qy_mem s p) \<noteq> QUEUE_EMPTY"
    by (auto simp: queue_head_def split: if_splits)
  with ring_rep_head_slot [OF g rr] r i ys show ?thesis
    by (auto simp: qsys_rep_def c_owned_def c_ok_def)
qed

lemma qsys_rep_release:
  assumes g: "ring_geom E N" and r: "qsys_rep E N s h ys xs" and i: "qy_c s = C_Read x"
    and t: "dequeue_advance (qy_dq s) (qy_mem s) = Some (q, p)"
  shows "qsys_rep E N (s\<lparr>qy_q := (qy_q s)\<lparr>sp_dq := q\<rparr>, qy_c := C_Advanced p, qy_rcvd := qy_rcvd s @ [x]\<rparr>)
    h [x] (tl xs)"
proof -
  from r i have ys: "ys = []" and x: "xs \<noteq> []" "x = hd xs" and hd: "dq_head (qy_dq s) = slot_pos E N h"
    by (auto simp: qsys_rep_def c_owned_def c_ok_def)
  then have "x # tl xs = xs" by simp
  moreover have "p = dq_head (qy_dq s)" "q = (qy_dq s)\<lparr>dq_head := ring_advance E N (dq_head (qy_dq s))\<rparr>"
    using t r by (auto simp: dequeue_advance_def qsys_rep_def split: if_splits)
  then have "p = slot_pos E N h" "q = (qy_dq s)\<lparr>dq_head := slot_pos E N (Suc h)\<rparr>"
    using hd ring_advance_slot_pos [OF g] by simp_all
  ultimately show ?thesis using r i ys x
    by (auto simp: qsys_rep_def c_owned_def c_ok_def)
qed

lemma qsys_rep_clear:
  assumes g: "ring_geom E N" and r: "qsys_rep E N s h ys xs" and i: "qy_c s = C_Advanced p"
  shows "qsys_rep E N (s\<lparr>qy_q := (qy_q s)\<lparr>sp_mem := dequeue_clear (qy_mem s) p\<rparr>, qy_c := C_Idle\<rparr>) (Suc h) [] xs"
proof -
  from r i obtain y where ys: "ys = [y]" and p: "p = slot_pos E N h"
    by (auto simp: qsys_rep_def c_owned_def c_ok_def length_Suc_conv)
  from r ys have rr: "ring_rep E N h (qy_mem s) (y # xs)" by (simp add: qsys_rep_def)
  have "ring_rep E N (Suc h) (dequeue_clear (qy_mem s) p) xs"
    using ring_rep_tl [OF g rr, of "(qy_mem s p)\<lparr>qs_type := QUEUE_EMPTY\<rparr>"] p by (simp add: dequeue_clear_def)
  moreover have "qs_data (dequeue_clear (qy_mem s) p k) = qs_data (qy_mem s k)" for k
    by (simp add: dequeue_clear_def)
  ultimately show ?thesis using r i ys
    by (auto simp: qsys_rep_def c_owned_def c_ok_def p_ok_def split: ppc.splits)
qed

lemma qstep_inv:
  assumes "qstep s t" and g: "ring_geom E N" and "qsys_inv E N s"
  shows "qsys_inv E N t"
  using assms(1,3)
proof (induction rule: qstep.induct)
  case (scribble s p d)
  then show ?case by (elim qsys_invE) (rule qsys_invI [OF qsys_rep_scribble(1) [OF g _ scribble(1,2)]])
next
  case (fill s x p)
  then obtain h ys xs where r: "qsys_rep E N s h ys xs" by (elim qsys_invE)
  note f = qsys_rep_scribble(1) [OF g r fill(1,3), of "qs_data x"] qsys_rep_scribble(2,3) [OF g r fill(1,3)]
  have "qsys_rep E N (s\<lparr>qy_q := (qy_q s)\<lparr>sp_mem := (qy_mem s)(p := (qy_mem s p)\<lparr>qs_data := qs_data x\<rparr>)\<rparr>,
      qy_p := P_Filled x\<rparr>) h ys xs"
    using f(1) fill(1,2) unfolding qsys_rep_def p_ok_def p_owned_def f(3) using f(2) by clarsimp
  then show ?case by (rule qsys_invI)
next
  case (advance s x q p)
  then obtain h ys xs where r: "qsys_rep E N s h ys xs" by (elim qsys_invE)
  have tl: "eq_tail (qy_eq s) = slot_pos E N (h + length (ys @ xs))"
    using r advance(1) by (simp add: qsys_rep_def p_owned_def)
  have "p = eq_tail (qy_eq s)" "q = (qy_eq s)\<lparr>eq_tail := ring_advance E N (eq_tail (qy_eq s))\<rparr>"
    using advance(2) r by (auto simp: enqueue_advance_def qsys_rep_def split: if_splits)
  then have "p = slot_pos E N (h + length (ys @ xs))"
      "q = (qy_eq s)\<lparr>eq_tail := slot_pos E N (Suc (h + length (ys @ xs)))\<rparr>"
    using tl ring_advance_slot_pos [OF g] by simp_all
  then have "qsys_rep E N (s\<lparr>qy_q := (qy_q s)\<lparr>sp_eq := q\<rparr>, qy_p := P_Advanced p x\<rparr>) h ys xs"
    using r advance(1) by (clarsimp simp: qsys_rep_def p_ok_def p_owned_def)
  then show ?case by (rule qsys_invI)
next
  case (publish s p x)
  then show ?case by (elim qsys_invE) (rule qsys_invI [OF qsys_rep_publish [OF g _ publish(1)]])
next
  case (read s p)
  then show ?case by (elim qsys_invE) (rule qsys_invI [OF qsys_rep_read [OF g _ read(1,2)]])
next
  case (release s x q p)
  then show ?case by (elim qsys_invE) (rule qsys_invI [OF qsys_rep_release [OF g _ release(1,2)]])
next
  case (clear s p)
  then show ?case by (elim qsys_invE) (rule qsys_invI [OF qsys_rep_clear [OF g _ clear(1)]])
qed

text \<open>A ring whose slots are all empty, as the memory the queues are created in.\<close>

definition ring_fresh :: "csize \<Rightarrow> u32 \<Rightarrow> 'd ring \<Rightarrow> bool" where
  "ring_fresh E N m \<longleftrightarrow> (\<forall>k < unat N. qs_type (m (slot_pos E N k)) = QUEUE_EMPTY)"

lemma qsys_init_inv:
  assumes g: "ring_geom E N" and e: "\<And>k. k < unat N \<Longrightarrow> qs_type (m (slot_pos E N k)) = QUEUE_EMPTY"
  shows "qsys_inv E N (qsys_init E N ea da off m)"
proof -
  have "qsys_rep E N (qsys_init E N ea da off m) 0 [] []"
    using e by (simp add: qsys_rep_def qsys_init_def equeue_new_def dqueue_new_def c_owned_def p_owned_def
        ring_rep_def p_ok_def c_ok_def slot_pos_def)
  then show ?thesis by (auto simp: qsys_inv_def)
qed

lemma qreach_inv:
  assumes "ring_geom E N" and "ring_fresh E N m" and "qreach (qsys_init E N ea da off m) s"
  shows "qsys_inv E N s"
  using assms(3)
proof (induction rule: qreach.induct)
  case start
  show ?case using assms(1,2) by (intro qsys_init_inv) (auto simp: ring_fresh_def)
next
  case (step s t)
  then show ?case using qstep_inv assms(1) by blast
qed

section \<open>Properties\<close>

text \<open>
  C1: Whatever the interleaving of the producer's and the consumer's stores, the messages the
  consumer has taken are the first messages the producer has published, in order, each exactly
  once and with the type and payload it was sent with, and at most \<open>nelems\<close> messages are in flight.
\<close>

theorem spsc_fifo_concurrent:
  assumes "ring_geom E N" and "ring_fresh E N m" and "qreach (qsys_init E N ea da off m) s"
  shows "\<exists>inflight. qy_sent s = qy_rcvd s @ inflight \<and> length inflight \<le> unat N"
proof -
  have "qsys_inv E N s" using assms(1-3) by (rule qreach_inv)
  then obtain h ys xs where "qsys_rep E N s h ys xs" by (elim qsys_invE)
  then show ?thesis by (auto simp: qsys_rep_def ring_rep_def)
qed

definition demo_ring :: "nat ring" where
  "demo_ring = (\<lambda>_. \<lparr>qs_type = 0, qs_data = 0\<rparr>)"

definition demo_filled :: "nat qsys" where
  "demo_filled = (qsys_init 64 4 0 0 0 demo_ring)
     \<lparr>qy_q := (qy_q (qsys_init 64 4 0 0 0 demo_ring))\<lparr>sp_mem := demo_ring(0 := \<lparr>qs_type = 0, qs_data = 7\<rparr>)\<rparr>,
      qy_p := P_Filled \<lparr>qs_type = 3, qs_data = 7\<rparr>\<rparr>"

lemma demo_geom: "ring_geom 64 4" "ring_fresh 64 4 demo_ring"
  by (simp_all add: ring_geom_def ring_fresh_def demo_ring_def)

lemma demo_filled_reach: "qreach (qsys_init 64 4 0 0 0 demo_ring) demo_filled"
proof (rule qreach.step [OF qreach.start])
  have "queue_tail (qy_eq (qsys_init 64 4 0 0 0 demo_ring)) demo_ring = Some 0"
    by (simp add: qsys_init_def equeue_new_def queue_tail_def demo_ring_def)
  then show "qstep (qsys_init 64 4 0 0 0 demo_ring) demo_filled"
    using qstep.fill [of "qsys_init 64 4 0 0 0 demo_ring" "\<lparr>qs_type = 3, qs_data = 7\<rparr>" 0]
    by (simp add: demo_filled_def qsys_init_def demo_ring_def)
qed

definition demo_published :: "nat qsys" where
  "demo_published =
     \<lparr>qy_q = \<lparr>sp_eq = \<lparr>eq_tail = 64, eq_nelems = 4, eq_elsize = 64, eq_off = 0, eq_entries = 0\<rparr>,
             sp_dq = \<lparr>dq_head = 0, dq_nelems = 4, dq_elsize = 64, dq_off = 0, dq_entries = 0\<rparr>,
             sp_mem = demo_ring(0 := \<lparr>qs_type = 3, qs_data = 7\<rparr>)\<rparr>,
      qy_p = P_Idle, qy_c = C_Idle, qy_sent = [\<lparr>qs_type = 3, qs_data = 7\<rparr>], qy_rcvd = []\<rparr>"

lemma demo_published_reach: "qreach (qsys_init 64 4 0 0 0 demo_ring) demo_published"
proof -
  let ?adv = "demo_filled\<lparr>qy_q := (qy_q demo_filled)\<lparr>sp_eq := (qy_eq demo_filled)\<lparr>eq_tail := 64\<rparr>\<rparr>,
      qy_p := P_Advanced 0 \<lparr>qs_type = 3, qs_data = 7\<rparr>\<rparr>"
  have "enqueue_advance (qy_eq demo_filled) (qy_mem demo_filled) = Some ((qy_eq demo_filled)\<lparr>eq_tail := 64\<rparr>, 0)"
    by (simp add: demo_filled_def qsys_init_def equeue_new_def enqueue_advance_def ring_advance_def demo_ring_def Let_def)
  then have "qstep demo_filled ?adv"
    by (intro qstep.advance) (simp_all add: demo_filled_def)
  then have r: "qreach (qsys_init 64 4 0 0 0 demo_ring) ?adv"
    by (rule qreach.step [OF demo_filled_reach])
  have "qstep ?adv demo_published"
    using qstep.publish [of ?adv 0 "\<lparr>qs_type = 3, qs_data = 7\<rparr>"]
    by (simp add: demo_filled_def qsys_init_def equeue_new_def dqueue_new_def demo_published_def
        enqueue_publish_def demo_ring_def)
  then show ?thesis by (rule qreach.step [OF r])
qed

theorem spsc_fifo_concurrent_witness:
  "qreach (qsys_init 64 4 0 0 0 demo_ring) demo_published \<and>
   (\<exists>inflight. qy_sent demo_published = qy_rcvd demo_published @ inflight \<and> length inflight \<le> 4)"
  using spsc_fifo_concurrent [OF demo_geom demo_published_reach] demo_published_reach by simp

text \<open>
  C2: A slot the consumer is reading is not touched by the producer: while the consumer holds
  the entry \<open>x\<close> it obtained from \<^const>\<open>queue_head\<close>, the slot at its head still holds
  exactly \<open>x\<close>, so an entry is never read half-written, and releasing it does not fail.
\<close>

theorem spsc_no_torn_read:
  assumes "ring_geom E N" and "ring_fresh E N m" and "qreach (qsys_init E N ea da off m) s"
    and "qy_c s = C_Read x"
  shows "qy_mem s (dq_head (qy_dq s)) = x \<and> dequeue_advance (qy_dq s) (qy_mem s) \<noteq> None"
proof -
  have "qsys_inv E N s" using assms(1-3) by (rule qreach_inv)
  then obtain h ys xs where r: "qsys_rep E N s h ys xs" by (elim qsys_invE)
  with assms(4) have rr: "ring_rep E N h (qy_mem s) xs" and "xs \<noteq> []" "x = hd xs" "dq_head (qy_dq s) = slot_pos E N h"
    by (auto simp: qsys_rep_def c_owned_def c_ok_def)
  with ring_rep_head_slot [OF assms(1) rr] show ?thesis by (simp add: dequeue_advance_def)
qed

theorem spsc_no_torn_read_witness:
  "qy_c (demo_published\<lparr>qy_c := C_Read \<lparr>qs_type = 3, qs_data = 7\<rparr>\<rparr>) = C_Read \<lparr>qs_type = 3, qs_data = 7\<rparr> \<and>
   qy_mem demo_published 0 = \<lparr>qs_type = 3, qs_data = 7\<rparr>"
proof -
  let ?s = "demo_published\<lparr>qy_c := C_Read \<lparr>qs_type = 3, qs_data = 7\<rparr>\<rparr>"
  have "qstep demo_published ?s"
    using qstep.read [of demo_published 0] by (simp add: demo_published_def queue_head_def)
  then have "qreach (qsys_init 64 4 0 0 0 demo_ring) ?s" by (rule qreach.step [OF demo_published_reach])
  from spsc_no_torn_read [OF demo_geom this] show ?thesis by (simp add: demo_published_def)
qed

text \<open>
  Once \<^const>\<open>queue_tail\<close> has handed the producer a slot, the following
  \<^const>\<open>queue_enqueue\<close> cannot fail, whatever the consumer does in between, and the slot still
  holds the payload the producer wrote.
\<close>

theorem spsc_enqueue_after_tail:
  assumes "ring_geom E N" and "ring_fresh E N m" and "qreach (qsys_init E N ea da off m) s"
    and "qy_p s = P_Filled x"
  shows "fst (queue_enqueue (qy_eq s) (qy_mem s) (qs_type x)) = 0 \<and>
    qs_data (qy_mem s (eq_tail (qy_eq s))) = qs_data x"
proof -
  have "qsys_inv E N s" using assms(1-3) by (rule qreach_inv)
  then obtain h ys xs where r: "qsys_rep E N s h ys xs" by (elim qsys_invE)
  with assms(4) have rr: "ring_rep E N h (qy_mem s) (ys @ xs)" "length (ys @ xs) < unat N"
   and
      "eq_tail (qy_eq s) = slot_pos E N (h + length (ys @ xs))"
      "qs_data (qy_mem s (slot_pos E N (h + length (ys @ xs)))) = qs_data x"
    by (auto simp: qsys_rep_def p_owned_def p_ok_def)
  with ring_rep_empty_slot [OF rr] show ?thesis by (simp add: queue_enqueue_def Let_def)
qed

theorem spsc_enqueue_after_tail_witness:
  "fst (queue_enqueue (qy_eq demo_filled) (qy_mem demo_filled) 3) = 0"
  using spsc_enqueue_after_tail [OF demo_geom demo_filled_reach, of "\<lparr>qs_type = 3, qs_data = 7\<rparr>"]
  by (simp add: demo_filled_def)

end
