(* ===== verification/Scheduler.thy ===== *)
theory Scheduler
  imports Prelude
begin

text \<open>
  The transmit scheduler of \<^verbatim>\<open>lib/utils/scheduler/scheduler.c\<close>: a priority list threaded
  through a fixed array of entries by their \<^verbatim>\<open>next_entry\<close> fields. The array is a function of
  the entry id; ids at or above \<^verbatim>\<open>MAX_SCHED_ENTRIES\<close> are outside it, and the invariant keeps
  every linked id below that bound. The two search loops follow links that nothing in their
  types bounds, so they are partial functions: \<^const>\<open>None\<close> is "does not return", and the
  refinement lemmas show that on a well-formed scheduler every operation returns.

  The lemmas show that the linked representation implements a list sorted by priority, with
  lower values first, and that every operation is the corresponding list operation.
\<close>

section \<open>The structures and operations of the code\<close>

record cham_sched_entry =
  se_id :: u32
  se_next :: u32
  se_priority :: u64
  se_avail :: u32
  se_opaque :: u64

record cham_scheduler =
  sc_entries :: "u32 \<Rightarrow> cham_sched_entry"
  sc_vtime :: u64
  sc_head :: u32
  sc_tail :: u32

abbreviation MAX_SCHED_ENTRIES :: nat where "MAX_SCHED_ENTRIES \<equiv> 128 * 1024"
abbreviation SCHED_ID_INVALID :: u32 where "SCHED_ID_INVALID \<equiv> -1"

definition entry_clear :: "cham_sched_entry \<Rightarrow> cham_sched_entry" where
  "entry_clear e = e\<lparr>se_id := SCHED_ID_INVALID, se_next := SCHED_ID_INVALID, se_priority := 0,
     se_avail := 0, se_opaque := 0\<rparr>"

definition entry_set :: "u32 \<Rightarrow> u64 \<Rightarrow> u32 \<Rightarrow> cham_sched_entry \<Rightarrow> cham_sched_entry" where
  "entry_set sid priority avail e = e\<lparr>se_id := sid, se_next := SCHED_ID_INVALID, se_priority := priority,
     se_avail := avail, se_opaque := 0\<rparr>"

definition upd_entry ::
  "cham_scheduler \<Rightarrow> u32 \<Rightarrow> (cham_sched_entry \<Rightarrow> cham_sched_entry) \<Rightarrow> cham_scheduler" where
  "upd_entry s i f = s\<lparr>sc_entries := (sc_entries s)(i := f (sc_entries s i))\<rparr>"

definition sched_init :: "cham_scheduler \<Rightarrow> cham_scheduler" where
  "sched_init s =
     s\<lparr>sc_vtime := 0, sc_head := SCHED_ID_INVALID, sc_tail := SCHED_ID_INVALID,
       sc_entries := (\<lambda>i. if unat i < MAX_SCHED_ENTRIES then entry_clear (sc_entries s i) else sc_entries s i)\<rparr>"

definition sched_head :: "cham_scheduler \<Rightarrow> u32 option" where
  "sched_head s = (if sc_head s = SCHED_ID_INVALID then None else Some (sc_head s))"

definition sched_pop :: "cham_scheduler \<Rightarrow> int \<times> cham_scheduler" where
  "sched_pop s =
     (if sc_head s = SCHED_ID_INVALID then (-1, s)
      else let pop_idx = sc_head s;
               s1 = s\<lparr>sc_head := se_next (sc_entries s pop_idx)\<rparr>;
               s2 = (if sc_head s1 = SCHED_ID_INVALID then s1\<lparr>sc_tail := SCHED_ID_INVALID\<rparr> else s1)
           in (0, upd_entry s2 pop_idx entry_clear))"

partial_function (option) remove_find ::
  "(u32 \<Rightarrow> cham_sched_entry) \<Rightarrow> u32 \<Rightarrow> u32 \<Rightarrow> u32 \<Rightarrow> (u32 \<times> u32) option" where
  "remove_find es sid prev cur =
     (if cur \<noteq> SCHED_ID_INVALID \<and> cur \<noteq> sid then remove_find es sid cur (se_next (es cur))
      else Some (prev, cur))"

definition sched_remove :: "cham_scheduler \<Rightarrow> u32 \<Rightarrow> (int \<times> cham_scheduler) option" where
  "sched_remove s sid =
     (case remove_find (sc_entries s) sid SCHED_ID_INVALID (sc_head s) of
        None \<Rightarrow> None
      | Some (prev, cur) \<Rightarrow>
          Some (if cur = SCHED_ID_INVALID then (-1, s)
                else let nxt = se_next (sc_entries s sid);
                         s1 = (if prev = SCHED_ID_INVALID then s\<lparr>sc_head := nxt\<rparr>
                               else upd_entry s prev (\<lambda>e. e\<lparr>se_next := nxt\<rparr>));
                         s2 = (if sc_tail s1 = sid then s1\<lparr>sc_tail := prev\<rparr> else s1)
                     in (0, upd_entry s2 sid entry_clear)))"

partial_function (option) insert_find ::
  "(u32 \<Rightarrow> cham_sched_entry) \<Rightarrow> u64 \<Rightarrow> u32 \<Rightarrow> u32 \<Rightarrow> (u32 \<times> u32) option" where
  "insert_find es priority prev cur =
     (if cur \<noteq> SCHED_ID_INVALID \<and> se_priority (es cur) < priority
      then insert_find es priority cur (se_next (es cur))
      else Some (prev, cur))"

definition sched_insert :: "cham_scheduler \<Rightarrow> u32 \<Rightarrow> cham_scheduler option" where
  "sched_insert s sid =
     (if sc_head s = SCHED_ID_INVALID
      then Some (upd_entry (s\<lparr>sc_head := sid, sc_tail := sid\<rparr>) sid (\<lambda>e. e\<lparr>se_next := SCHED_ID_INVALID\<rparr>))
      else case insert_find (sc_entries s) (se_priority (sc_entries s sid)) SCHED_ID_INVALID (sc_head s) of
        None \<Rightarrow> None
      | Some (prev, cur) \<Rightarrow>
          Some (if prev = SCHED_ID_INVALID
                then (upd_entry s sid (\<lambda>e. e\<lparr>se_next := sc_head s\<rparr>))\<lparr>sc_head := sid\<rparr>
                else let s1 = upd_entry s sid (\<lambda>e. e\<lparr>se_next := se_next (sc_entries s prev)\<rparr>);
                         s2 = upd_entry s1 prev (\<lambda>e. e\<lparr>se_next := sid\<rparr>)
                     in if se_next (sc_entries s2 sid) = SCHED_ID_INVALID then s2\<lparr>sc_tail := sid\<rparr> else s2))"

definition sched_add :: "cham_scheduler \<Rightarrow> u32 \<Rightarrow> u64 \<Rightarrow> u32 \<Rightarrow> (int \<times> cham_scheduler) option" where
  "sched_add s sid priority avail =
     (let entry = sc_entries s sid
      in if se_id entry \<noteq> SCHED_ID_INVALID
         then let total_avail = se_avail entry + avail
              in if se_priority entry = priority
                 then Some (0, upd_entry s sid (\<lambda>e. e\<lparr>se_avail := total_avail\<rparr>))
                 else (case sched_remove s sid of
                         None \<Rightarrow> None
                       | Some (_, s1) \<Rightarrow>
                           (case sched_insert (upd_entry s1 sid (entry_set sid priority total_avail)) sid of
                              None \<Rightarrow> None
                            | Some s2 \<Rightarrow> Some (0, s2)))
         else (case sched_insert (upd_entry s sid (entry_set sid priority avail)) sid of
                 None \<Rightarrow> None
               | Some s2 \<Rightarrow> Some (0, s2)))"

section \<open>Linked segments\<close>

text \<open>\<open>sseg es x as y\<close>: following the links from \<open>x\<close> visits \<open>as\<close> and arrives at \<open>y\<close>.\<close>

primrec sseg :: "(u32 \<Rightarrow> cham_sched_entry) \<Rightarrow> u32 \<Rightarrow> u32 list \<Rightarrow> u32 \<Rightarrow> bool" where
  "sseg es x [] y \<longleftrightarrow> x = y"
| "sseg es x (a # as) y \<longleftrightarrow> x = a \<and> a \<noteq> SCHED_ID_INVALID \<and> sseg es (se_next (es a)) as y"

lemma sseg_append: "sseg es x (as @ bs) y \<longleftrightarrow> (\<exists>z. sseg es x as z \<and> sseg es z bs y)"
  by (induction as arbitrary: x) auto

lemma sseg_cong:
  "(\<And>a. a \<in> set as \<Longrightarrow> se_next (es' a) = se_next (es a)) \<Longrightarrow> sseg es' x as y = sseg es x as y"
  by (induction as arbitrary: x) auto

lemma sseg_invalid_notin: "sseg es x as y \<Longrightarrow> SCHED_ID_INVALID \<notin> set as"
  by (induction as arbitrary: x) auto

lemma sseg_start: "sseg es x as y \<Longrightarrow> x = (if as = [] then y else hd as)"
  by (cases as) auto

lemma sseg_empty: "sseg es SCHED_ID_INVALID as SCHED_ID_INVALID \<longleftrightarrow> as = []"
  by (cases as) auto

lemma remove_find_stop:
  "cur = SCHED_ID_INVALID \<or> cur = sid \<Longrightarrow> remove_find es sid prev cur = Some (prev, cur)"
  by (subst remove_find.simps) auto

lemma remove_find_seg:
  assumes "sseg es x as y" and "sid \<notin> set as"
  shows "remove_find es sid prev x = remove_find es sid (if as = [] then prev else last as) y"
  using assms
proof (induction as arbitrary: x prev)
  case Nil
  then show ?case by simp
next
  case (Cons a as)
  have "remove_find es sid prev x = remove_find es sid a (se_next (es a))"
    using Cons.prems by (subst remove_find.simps) auto
  also have "\<dots> = remove_find es sid (if as = [] then a else last as) y"
    using Cons.prems by (intro Cons.IH) auto
  finally show ?case by simp
qed

lemma remove_find_present:
  assumes "sseg es x (as @ sid # cs) SCHED_ID_INVALID" and "sid \<notin> set as"
  shows "remove_find es sid prev x = Some (if as = [] then prev else last as, sid)"
proof -
  from assms(1) obtain z where "sseg es x as z" "z = sid" by (auto simp: sseg_append)
  then show ?thesis using remove_find_seg [of es x as sid sid prev] assms(2) remove_find_stop by simp
qed

lemma remove_find_absent:
  assumes "sseg es x as SCHED_ID_INVALID" and "sid \<notin> set as"
  shows "\<exists>p. remove_find es sid prev x = Some (p, SCHED_ID_INVALID)"
  using remove_find_seg [OF assms, of prev] remove_find_stop by simp

lemma insert_find_seg:
  assumes "sseg es x as y" and "\<forall>a \<in> set as. se_priority (es a) < p"
  shows "insert_find es p prev x = insert_find es p (if as = [] then prev else last as) y"
  using assms
proof (induction as arbitrary: x prev)
  case Nil
  then show ?case by simp
next
  case (Cons a as)
  have "insert_find es p prev x = insert_find es p a (se_next (es a))"
    using Cons.prems by (subst insert_find.simps) auto
  also have "\<dots> = insert_find es p (if as = [] then a else last as) y"
    using Cons.prems by (intro Cons.IH) auto
  finally show ?case by simp
qed

lemma insert_find_split:
  assumes "sseg es x (as @ cs) SCHED_ID_INVALID" and "\<forall>a \<in> set as. se_priority (es a) < p"
    and "cs = [] \<or> p \<le> se_priority (es (hd cs))"
  shows "insert_find es p prev x =
    Some (if as = [] then prev else last as, if cs = [] then SCHED_ID_INVALID else hd cs)"
proof -
  from assms(1) obtain y where y: "sseg es x as y" "sseg es y cs SCHED_ID_INVALID"
    by (auto simp: sseg_append)
  have "insert_find es p q y = Some (q, y)" for q
    using y(2) assms(3) by (subst insert_find.simps) (cases cs; auto)
  with insert_find_seg [OF y(1) assms(2)] sseg_start [OF y(2)] show ?thesis by simp
qed

section \<open>Well-linked schedulers\<close>

definition sched_links :: "cham_scheduler \<Rightarrow> u32 list \<Rightarrow> bool" where
  "sched_links s ids \<longleftrightarrow> sseg (sc_entries s) (sc_head s) ids SCHED_ID_INVALID \<and> distinct ids \<and>
     sc_tail s = (if ids = [] then SCHED_ID_INVALID else last ids)"

text \<open>Two entries that differ in their link only.\<close>

definition same_entry :: "cham_sched_entry \<Rightarrow> cham_sched_entry \<Rightarrow> bool" where
  "same_entry e e' \<longleftrightarrow> e' = e\<lparr>se_next := se_next e'\<rparr>"

lemma same_entry_sel:
  "same_entry e e' \<Longrightarrow> se_id e' = se_id e" "same_entry e e' \<Longrightarrow> se_priority e' = se_priority e"
  "same_entry e e' \<Longrightarrow> se_avail e' = se_avail e" "same_entry e e' \<Longrightarrow> se_opaque e' = se_opaque e"
  by (cases e; cases e'; simp add: same_entry_def)+

lemma same_entry_refl [simp]: "same_entry e e"
  by (simp add: same_entry_def)

lemma same_entry_upd [simp]: "same_entry e (e\<lparr>se_next := n\<rparr>)"
  by (simp add: same_entry_def)

lemma upd_entry_sel [simp]:
  "sc_entries (upd_entry s i f) = (sc_entries s)(i := f (sc_entries s i))"
  "sc_head (upd_entry s i f) = sc_head s" "sc_tail (upd_entry s i f) = sc_tail s"
  "sc_vtime (upd_entry s i f) = sc_vtime s"
  by (simp_all add: upd_entry_def)

lemma sched_links_head: "sched_links s ids \<Longrightarrow> sc_head s = (if ids = [] then SCHED_ID_INVALID else hd ids)"
  unfolding sched_links_def using sseg_start by blast

lemma sched_links_invalid: "sched_links s ids \<Longrightarrow> SCHED_ID_INVALID \<notin> set ids"
  unfolding sched_links_def using sseg_invalid_notin by blast

lemma sched_links_empty_iff: "sched_links s ids \<Longrightarrow> sc_head s = SCHED_ID_INVALID \<longleftrightarrow> ids = []"
  using sched_links_head sched_links_invalid by (metis hd_in_set)

lemma sched_insert_links:
  assumes l: "sched_links s ids" and n: "sid \<notin> set ids" "sid \<noteq> SCHED_ID_INVALID"
    and a: "ids = as @ cs" "\<forall>a \<in> set as. se_priority (sc_entries s a) < se_priority (sc_entries s sid)"
    and c: "cs = [] \<or> se_priority (sc_entries s sid) \<le> se_priority (sc_entries s (hd cs))"
  shows "\<exists>s'. sched_insert s sid = Some s' \<and> sched_links s' (as @ sid # cs) \<and>
    (\<forall>j. same_entry (sc_entries s j) (sc_entries s' j))"
proof (cases "ids = []")
  case True
  with l a have "sc_head s = SCHED_ID_INVALID" by (simp add: sched_links_head)
  with True a n show ?thesis by (auto simp: sched_insert_def sched_links_def)
next
  case False
  let ?es = "sc_entries s"
  from l False have h: "sc_head s \<noteq> SCHED_ID_INVALID" by (simp add: sched_links_empty_iff)
  from l a have seg: "sseg ?es (sc_head s) (as @ cs) SCHED_ID_INVALID" by (simp add: sched_links_def)
  note f = insert_find_split [OF seg a(2) c, of SCHED_ID_INVALID]
  show ?thesis
  proof (cases as rule: rev_cases)
    case Nil
    let ?s' = "(upd_entry s sid (\<lambda>e. e\<lparr>se_next := sc_head s\<rparr>))\<lparr>sc_head := sid\<rparr>"
    have "sched_insert s sid = Some ?s'" using Nil h f by (simp add: sched_insert_def)
    moreover have "sseg (sc_entries ?s') (sc_head s) cs SCHED_ID_INVALID = sseg ?es (sc_head s) cs SCHED_ID_INVALID"
      using n a by (intro sseg_cong) auto
    then have "sched_links ?s' (as @ sid # cs)"
      using Nil n a l False seg by (simp add: sched_links_def)
    ultimately show ?thesis by auto
  next
    case (snoc as' b)
    have b: "b \<noteq> SCHED_ID_INVALID" "b \<noteq> sid" using sched_links_invalid [OF l] a snoc n by auto
    define s1 where "s1 = upd_entry (upd_entry s sid (\<lambda>e. e\<lparr>se_next := se_next (?es b)\<rparr>)) b (\<lambda>e. e\<lparr>se_next := sid\<rparr>)"
    define s' where "s' = (if se_next (sc_entries s1 sid) = SCHED_ID_INVALID then s1\<lparr>sc_tail := sid\<rparr> else s1)"
    have "sched_insert s sid = Some s'"
      using snoc h f b by (simp add: sched_insert_def s'_def s1_def Let_def)
    moreover have es': "sc_entries s' = ?es(sid := (?es sid)\<lparr>se_next := se_next (?es b)\<rparr>, b := (?es b)\<lparr>se_next := sid\<rparr>)"
      using b by (simp add: s'_def s1_def)
    moreover have "sched_links s' (as @ sid # cs)"
    proof -
      have d: "distinct (as' @ b # cs)" using l a snoc by (simp add: sched_links_def)
      from seg snoc have p: "sseg ?es (sc_head s) as' b" and q: "sseg ?es (se_next (?es b)) cs SCHED_ID_INVALID"
        by (auto simp: sseg_append)
      have "sseg (sc_entries s') (sc_head s) as' b"
        using p d n a snoc unfolding es' by (subst sseg_cong) auto
      moreover have "sseg (sc_entries s') (se_next (?es b)) cs SCHED_ID_INVALID"
        using q d n a unfolding es' by (subst sseg_cong) auto
      ultimately have "sseg (sc_entries s') (sc_head s) (as @ sid # cs) SCHED_ID_INVALID"
        using snoc b n by (auto simp: sseg_append es')
      moreover have "se_next (?es b) = SCHED_ID_INVALID \<longleftrightarrow> cs = []"
        using sseg_start [OF q] sched_links_invalid [OF l] a by (metis Un_iff hd_in_set set_append)
      moreover have "sc_head s' = sc_head s" by (simp add: s'_def s1_def)
      ultimately show ?thesis
        using d n a snoc l b by (auto simp: sched_links_def s'_def s1_def)
    qed
    ultimately show ?thesis by auto
  qed
qed

lemma sched_remove_links:
  assumes l: "sched_links s (as @ sid # cs)"
  shows "\<exists>s'. sched_remove s sid = Some (0, s') \<and> sched_links s' (as @ cs) \<and>
    sc_entries s' sid = entry_clear (sc_entries s sid) \<and>
    (\<forall>j. j \<noteq> sid \<longrightarrow> same_entry (sc_entries s j) (sc_entries s' j))"
proof -
  let ?es = "sc_entries s"
  have d: "distinct (as @ sid # cs)" and t: "sc_tail s = last (as @ sid # cs)"
    and seg: "sseg ?es (sc_head s) (as @ sid # cs) SCHED_ID_INVALID"
    using l by (auto simp: sched_links_def)
  have v: "SCHED_ID_INVALID \<notin> set as" "sid \<noteq> SCHED_ID_INVALID" using sched_links_invalid [OF l] by auto
  have f: "remove_find ?es sid SCHED_ID_INVALID (sc_head s) = Some (if as = [] then SCHED_ID_INVALID else last as, sid)"
    using remove_find_present [OF seg] d by auto
  have tid: "last (as @ sid # cs) = sid \<longleftrightarrow> cs = []" using d by auto
  from seg have p: "sseg ?es (sc_head s) as sid" and q: "sseg ?es (se_next (?es sid)) cs SCHED_ID_INVALID"
    by (auto simp: sseg_append)
  have q': "sseg (es(sid := e)) x cs SCHED_ID_INVALID = sseg es x cs SCHED_ID_INVALID" for es e x
    using d by (intro sseg_cong) auto
  show ?thesis
  proof (cases as rule: rev_cases)
    case Nil
    then show ?thesis using f v t tid q q' d by (auto simp: sched_remove_def sched_links_def Let_def)
  next
    case (snoc as' b)
    have b: "b \<noteq> SCHED_ID_INVALID" "b \<noteq> sid" using v d snoc by auto
    let ?es' = "?es(b := (?es b)\<lparr>se_next := se_next (?es sid)\<rparr>, sid := entry_clear (?es sid))"
    have "sseg ?es (sc_head s) as' b" using p snoc by (auto simp: sseg_append)
    then have "sseg ?es' (sc_head s) as' b"
      using d snoc by (subst sseg_cong [where es = ?es]) auto
    moreover have "sseg ?es' (se_next (?es sid)) cs SCHED_ID_INVALID"
      using q d snoc by (subst sseg_cong) auto
    ultimately have "sseg ?es' (sc_head s) (as @ cs) SCHED_ID_INVALID"
      using snoc b by (auto simp: sseg_append)
    then show ?thesis using f v t tid d snoc b by (auto simp: sched_remove_def sched_links_def Let_def)
  qed
qed

lemma sched_remove_absent:
  assumes "sched_links s ids" and "sid \<notin> set ids"
  shows "sched_remove s sid = Some (-1, s)"
  using remove_find_absent [of "sc_entries s" "sc_head s" ids sid SCHED_ID_INVALID] assms
  by (auto simp: sched_remove_def sched_links_def)

lemma sched_pop_links:
  assumes l: "sched_links s (i # ids)"
  shows "\<exists>s'. sched_pop s = (0, s') \<and> sched_links s' ids \<and> sc_entries s' i = entry_clear (sc_entries s i) \<and>
    (\<forall>j. j \<noteq> i \<longrightarrow> sc_entries s' j = sc_entries s j)"
proof -
  let ?es = "sc_entries s"
  from l have h: "sc_head s = i" "i \<noteq> SCHED_ID_INVALID" and q: "sseg ?es (se_next (?es i)) ids SCHED_ID_INVALID"
    and d: "distinct (i # ids)" and t: "sc_tail s = last (i # ids)"
    by (auto simp: sched_links_def)
  have "sseg (?es(i := entry_clear (?es i))) (se_next (?es i)) ids SCHED_ID_INVALID"
    using q d by (subst sseg_cong) auto
  moreover have "se_next (?es i) = SCHED_ID_INVALID \<longleftrightarrow> ids = []"
    using sseg_start [OF q] sched_links_invalid [OF l] by (metis hd_in_set list.set_intros(2))
  ultimately show ?thesis using h d t by (auto simp: sched_pop_def sched_links_def Let_def)
qed

section \<open>The abstract scheduler: a list sorted by priority\<close>

type_synonym sched_item = "u32 \<times> u64 \<times> u32"

abbreviation it_id :: "sched_item \<Rightarrow> u32" where "it_id x \<equiv> fst x"
abbreviation it_prio :: "sched_item \<Rightarrow> u64" where "it_prio x \<equiv> fst (snd x)"
abbreviation it_avail :: "sched_item \<Rightarrow> u32" where "it_avail x \<equiv> snd (snd x)"

definition ainsert :: "sched_item \<Rightarrow> sched_item list \<Rightarrow> sched_item list" where
  "ainsert x xs = takeWhile (\<lambda>y. it_prio y < it_prio x) xs @ x # dropWhile (\<lambda>y. it_prio y < it_prio x) xs"

definition aremove :: "u32 \<Rightarrow> sched_item list \<Rightarrow> sched_item list" where
  "aremove i xs = filter (\<lambda>y. it_id y \<noteq> i) xs"

definition aadd :: "u32 \<Rightarrow> u64 \<Rightarrow> u32 \<Rightarrow> sched_item list \<Rightarrow> sched_item list" where
  "aadd i p a xs =
     (case find (\<lambda>y. it_id y = i) xs of
        None \<Rightarrow> ainsert (i, p, a) xs
      | Some y \<Rightarrow>
          if it_prio y = p then map (\<lambda>z. if it_id z = i then (i, p, it_avail z + a) else z) xs
          else ainsert (i, p, it_avail y + a) (aremove i xs))"

lemma set_ainsert: "set (ainsert x xs) = insert x (set xs)"
proof -
  have "set (takeWhile P xs) \<union> set (dropWhile P xs) = set xs" for P
    by (metis set_append takeWhile_dropWhile_id)
  then show ?thesis by (auto simp: ainsert_def)
qed

lemma sorted_split_insert:
  fixes f :: "'a \<Rightarrow> 'b :: linorder"
  assumes "sorted (map f (as @ cs))" and "\<forall>a \<in> set as. f a < f x" and "cs = [] \<or> f x \<le> f (hd cs)"
  shows "sorted (map f (as @ x # cs))"
  using assms by (cases cs) (auto simp: sorted_append)

definition items :: "(u32 \<Rightarrow> cham_sched_entry) \<Rightarrow> u32 list \<Rightarrow> sched_item list" where
  "items es ids = map (\<lambda>i. (i, se_priority (es i), se_avail (es i))) ids"

definition sched_rep :: "cham_scheduler \<Rightarrow> u32 list \<Rightarrow> bool" where
  "sched_rep s ids \<longleftrightarrow> sched_links s ids \<and>
     sorted (map (\<lambda>i. se_priority (sc_entries s i)) ids) \<and>
     (\<forall>i \<in> set ids. unat i < MAX_SCHED_ENTRIES \<and> se_id (sc_entries s i) = i) \<and>
     (\<forall>i. unat i < MAX_SCHED_ENTRIES \<and> i \<notin> set ids \<longrightarrow> se_id (sc_entries s i) = SCHED_ID_INVALID)"

lemma valid_id_not_invalid: "unat i < MAX_SCHED_ENTRIES \<Longrightarrow> i \<noteq> SCHED_ID_INVALID"
  by (auto simp: unat_minus_one_32)

lemma items_same:
  assumes "\<forall>j. same_entry (es j) (es' j)"
  shows "items es' ids = items es ids"
  using assms by (auto simp: items_def same_entry_sel)

lemma sched_insert_rep:
  assumes l: "sched_links s ids" and n: "sid \<notin> set ids" "unat sid < MAX_SCHED_ENTRIES"
    and so: "sorted (map (\<lambda>i. se_priority (sc_entries s i)) ids)" and e: "se_id (sc_entries s sid) = sid"
    and i: "\<forall>i \<in> set ids. unat i < MAX_SCHED_ENTRIES \<and> se_id (sc_entries s i) = i"
    and o: "\<forall>i. unat i < MAX_SCHED_ENTRIES \<and> i \<notin> set (sid # ids) \<longrightarrow> se_id (sc_entries s i) = SCHED_ID_INVALID"
  shows "\<exists>s' ids'. sched_insert s sid = Some s' \<and> sched_rep s' ids' \<and>
    items (sc_entries s') ids' =
      ainsert (sid, se_priority (sc_entries s sid), se_avail (sc_entries s sid)) (items (sc_entries s) ids)"
proof -
  let ?es = "sc_entries s"
  let ?P = "\<lambda>i. se_priority (?es i) < se_priority (?es sid)"
  let ?as = "takeWhile ?P ids" and ?cs = "dropWhile ?P ids"
  have c: "?cs = [] \<or> se_priority (?es sid) \<le> se_priority (?es (hd ?cs))"
    using hd_dropWhile [of ?P ids] by (metis linorder_le_less_linear)
  have a: "\<forall>a \<in> set ?as. ?P a" by (auto dest: set_takeWhileD)
  have spl: "ids = ?as @ ?cs" by simp
  from sched_insert_links [OF l n(1) valid_id_not_invalid [OF n(2)] spl a c] obtain s' where
    s': "sched_insert s sid = Some s'" "sched_links s' (?as @ sid # ?cs)"
      "\<forall>j. same_entry (?es j) (sc_entries s' j)" by auto
  have st: "set (?as @ sid # ?cs) = insert sid (set ids)"
    using spl by (metis Un_insert_right list.simps(15) set_append)
  have so': "sorted (map (\<lambda>i. se_priority (?es i)) (?as @ sid # ?cs))"
    using so spl a c by (intro sorted_split_insert) auto
  have id': "\<And>j. se_id (sc_entries s' j) = se_id (?es j)"
    and pr': "\<And>j. se_priority (sc_entries s' j) = se_priority (?es j)"
    using s'(3) same_entry_sel by blast+
  have "sched_rep s' (?as @ sid # ?cs)"
    unfolding sched_rep_def st id' pr' using s'(2) so' e i o n by simp
  moreover have "items (sc_entries s') (?as @ sid # ?cs) =
      ainsert (sid, se_priority (?es sid), se_avail (?es sid)) (items ?es ids)"
    unfolding items_same [OF s'(3)] by (simp add: items_def ainsert_def takeWhile_map dropWhile_map comp_def)
  ultimately show ?thesis using s'(1) by blast
qed

lemma sched_remove_rep:
  assumes r: "sched_rep s ids"
  shows "\<exists>c s' ids'. sched_remove s sid = Some (c, s') \<and> sched_rep s' ids' \<and> ids' = filter (\<lambda>i. i \<noteq> sid) ids \<and>
    items (sc_entries s') ids' = aremove sid (items (sc_entries s) ids) \<and>
    (c = 0 \<longleftrightarrow> sid \<in> set ids) \<and> (\<forall>j. j \<noteq> sid \<longrightarrow> same_entry (sc_entries s j) (sc_entries s' j))"
proof (cases "sid \<in> set ids")
  case False
  then have "filter (\<lambda>i. i \<noteq> sid) ids = ids" by (auto simp: filter_id_conv)
  with False r sched_remove_absent [of s ids sid] show ?thesis
    by (auto simp: sched_rep_def items_def aremove_def filter_map comp_def)
next
  case True
  then obtain as cs where ids: "ids = as @ sid # cs" by (auto simp: in_set_conv_decomp)
  from r have l: "sched_links s (as @ sid # cs)" and d: "distinct (as @ sid # cs)"
    unfolding sched_rep_def sched_links_def ids by auto
  from sched_remove_links [OF l] obtain s' where
    s': "sched_remove s sid = Some (0, s')" "sched_links s' (as @ cs)"
      "sc_entries s' sid = entry_clear (sc_entries s sid)"
      "\<forall>j. j \<noteq> sid \<longrightarrow> same_entry (sc_entries s j) (sc_entries s' j)" by auto
  have f: "filter (\<lambda>i. i \<noteq> sid) ids = as @ cs" using d ids by simp
  have k: "i \<noteq> sid" if "i \<in> set (as @ cs)" for i using that d by auto
  have "sorted (map (\<lambda>i. se_priority (sc_entries s i)) (as @ cs))"
    using r ids by (auto simp: sched_rep_def sorted_append)
  moreover have "map (\<lambda>i. se_priority (sc_entries s' i)) (as @ cs) = map (\<lambda>i. se_priority (sc_entries s i)) (as @ cs)"
    using s'(4) k by (intro map_cong) (auto simp: same_entry_sel)
  ultimately have so: "sorted (map (\<lambda>i. se_priority (sc_entries s' i)) (as @ cs))" by (simp only:)
  have "se_id (sc_entries s' i) = i \<and> unat i < MAX_SCHED_ENTRIES" if "i \<in> set (as @ cs)" for i
    using that r ids s'(4) k [OF that] by (auto simp: sched_rep_def same_entry_sel)
  moreover have "se_id (sc_entries s' i) = SCHED_ID_INVALID"
    if "unat i < MAX_SCHED_ENTRIES" "i \<notin> set (as @ cs)" for i
    using that r ids s'(3,4) by (cases "i = sid") (auto simp: sched_rep_def same_entry_sel entry_clear_def)
  ultimately have "sched_rep s' (as @ cs)" using s'(2) so unfolding sched_rep_def by blast
  moreover have "items (sc_entries s') (as @ cs) = aremove sid (items (sc_entries s) ids)"
    using s'(4) d ids by (auto simp: items_def aremove_def filter_map comp_def same_entry_sel filter_id_conv)
  ultimately show ?thesis using s' True f by metis
qed

lemma sched_pop_rep:
  assumes "sched_rep s (i # ids)"
  shows "\<exists>s'. sched_pop s = (0, s') \<and> sched_rep s' ids \<and> items (sc_entries s') ids = items (sc_entries s) ids"
proof -
  from assms have l: "sched_links s (i # ids)" and d: "i \<notin> set ids" by (auto simp: sched_rep_def sched_links_def)
  from sched_pop_links [OF l] obtain s' where
    s': "sched_pop s = (0, s')" "sched_links s' ids" "sc_entries s' i = entry_clear (sc_entries s i)"
      "\<forall>j. j \<noteq> i \<longrightarrow> sc_entries s' j = sc_entries s j" by auto
  have m: "map (\<lambda>j. f (sc_entries s' j)) ids = map (\<lambda>j. f (sc_entries s j)) ids" for f :: "cham_sched_entry \<Rightarrow> u64"
    using s'(4) d by (intro map_cong) auto
  have "se_id (sc_entries s' j) = SCHED_ID_INVALID" if "unat j < MAX_SCHED_ENTRIES" "j \<notin> set ids" for j
    using that assms s'(3,4) by (cases "j = i") (auto simp: sched_rep_def entry_clear_def)
  moreover have "unat j < MAX_SCHED_ENTRIES \<and> se_id (sc_entries s' j) = j" if "j \<in> set ids" for j
    using that assms s'(4) d by (cases "j = i") (auto simp: sched_rep_def)
  moreover have "sorted (map (\<lambda>j. se_priority (sc_entries s' j)) ids)"
    using assms unfolding m sched_rep_def by simp
  moreover have "items (sc_entries s') ids = items (sc_entries s) ids"
    using s'(4) d by (auto simp: items_def)
  ultimately show ?thesis using s' unfolding sched_rep_def by blast
qed

lemma find_items:
  "find (\<lambda>y. it_id y = i) (items es ids) =
     (if i \<in> set ids then Some (i, se_priority (es i), se_avail (es i)) else None)"
  by (induction ids) (auto simp: items_def)

lemma sched_set_insert:
  assumes r: "sched_rep s ids" and n: "sid \<notin> set ids" and v: "unat sid < MAX_SCHED_ENTRIES"
  shows "\<exists>s' ids'. sched_insert (upd_entry s sid (entry_set sid p a)) sid = Some s' \<and> sched_rep s' ids' \<and>
    items (sc_entries s') ids' = ainsert (sid, p, a) (items (sc_entries s) ids)"
proof -
  let ?s1 = "upd_entry s sid (entry_set sid p a)"
  have sg: "sseg (sc_entries ?s1) x ids y = sseg (sc_entries s) x ids y" for x y
    using n by (intro sseg_cong) auto
  have m: "map (\<lambda>i. se_priority (sc_entries ?s1 i)) ids = map (\<lambda>i. se_priority (sc_entries s i)) ids"
    using n by (intro map_cong) auto
  have it: "items (sc_entries ?s1) ids = items (sc_entries s) ids"
    using n by (auto simp: items_def)
  have "sched_links ?s1 ids" using r sg by (simp add: sched_rep_def sched_links_def)
  moreover have "sorted (map (\<lambda>i. se_priority (sc_entries ?s1 i)) ids)"
    using r unfolding m sched_rep_def by blast
  moreover have "se_id (sc_entries ?s1 sid) = sid" by (simp add: entry_set_def)
  moreover have "\<forall>i \<in> set ids. unat i < MAX_SCHED_ENTRIES \<and> se_id (sc_entries ?s1 i) = i"
    using r n by (auto simp: sched_rep_def)
  moreover have "\<forall>i. unat i < MAX_SCHED_ENTRIES \<and> i \<notin> set (sid # ids) \<longrightarrow>
      se_id (sc_entries ?s1 i) = SCHED_ID_INVALID"
    using r by (auto simp: sched_rep_def)
  ultimately show ?thesis
    using sched_insert_rep [of ?s1 ids sid] n v it by (simp add: entry_set_def)
qed

lemma sched_add_rep:
  assumes r: "sched_rep s ids" and v: "unat sid < MAX_SCHED_ENTRIES"
  shows "\<exists>s' ids'. sched_add s sid p a = Some (0, s') \<and> sched_rep s' ids' \<and>
    items (sc_entries s') ids' = aadd sid p a (items (sc_entries s) ids)"
proof (cases "sid \<in> set ids")
  case False
  have e: "se_id (sc_entries s sid) = SCHED_ID_INVALID" using r False v by (simp add: sched_rep_def)
  from sched_set_insert [OF r False v, of p a] e False show ?thesis
    by (auto simp: sched_add_def aadd_def find_items Let_def)
next
  case True
  let ?e = "sc_entries s sid"
  have e: "se_id ?e = sid" using r True by (simp add: sched_rep_def)
  have ne: "sid \<noteq> SCHED_ID_INVALID" by (rule valid_id_not_invalid [OF v])
  show ?thesis
  proof (cases "se_priority ?e = p")
    case same: True
    let ?s' = "upd_entry s sid (\<lambda>e. e\<lparr>se_avail := se_avail ?e + a\<rparr>)"
    have sg: "sseg (sc_entries ?s') x ids y = sseg (sc_entries s) x ids y" for x y
      by (intro sseg_cong) simp
    have m: "map (\<lambda>i. se_priority (sc_entries ?s' i)) ids = map (\<lambda>i. se_priority (sc_entries s i)) ids"
      by (intro map_cong) auto
    have "sched_rep ?s' ids" using r unfolding sched_rep_def sched_links_def sg m by simp
    moreover have "items (sc_entries ?s') ids = aadd sid p a (items (sc_entries s) ids)"
      using True same by (auto simp: aadd_def find_items) (simp add: items_def)
    ultimately show ?thesis using e ne same by (auto simp: sched_add_def Let_def)
  next
    case diff: False
    from sched_remove_rep [OF r, of sid] obtain c s1 where s1: "sched_remove s sid = Some (c, s1)"
        "sched_rep s1 (filter (\<lambda>i. i \<noteq> sid) ids)"
        "items (sc_entries s1) (filter (\<lambda>i. i \<noteq> sid) ids) = aremove sid (items (sc_entries s) ids)"
      by auto
    from sched_set_insert [OF s1(2) _ v, of p "se_avail ?e + a"] s1 e ne diff True show ?thesis
      by (auto simp: sched_add_def aadd_def find_items Let_def)
  qed
qed

subsection \<open>Contents and invariant as functions of the state\<close>

partial_function (option) sched_walk :: "(u32 \<Rightarrow> cham_sched_entry) \<Rightarrow> u32 \<Rightarrow> u32 list option" where
  "sched_walk es cur =
     (if cur = SCHED_ID_INVALID then Some []
      else Option.bind (sched_walk es (se_next (es cur))) (\<lambda>ids. Some (cur # ids)))"

definition sched_contents :: "cham_scheduler \<Rightarrow> sched_item list" where
  "sched_contents s =
     (case sched_walk (sc_entries s) (sc_head s) of None \<Rightarrow> [] | Some ids \<Rightarrow> items (sc_entries s) ids)"

definition sched_wf :: "cham_scheduler \<Rightarrow> bool" where
  "sched_wf s \<longleftrightarrow> (\<exists>ids. sched_rep s ids)"

lemma sched_walk_seg: "sseg es x ids SCHED_ID_INVALID \<Longrightarrow> sched_walk es x = Some ids"
  by (induction ids arbitrary: x) (subst sched_walk.simps, simp)+

lemma sched_contents_rep: "sched_rep s ids \<Longrightarrow> sched_contents s = items (sc_entries s) ids"
  unfolding sched_contents_def sched_rep_def sched_links_def
  using sched_walk_seg [of "sc_entries s" "sc_head s" ids] by simp

lemma sched_wfE:
  assumes "sched_wf s"
  obtains ids where "sched_rep s ids" "sched_contents s = items (sc_entries s) ids"
  using assms sched_contents_rep unfolding sched_wf_def by blast

lemma sched_init_rep: "sched_rep (sched_init s) []"
  by (auto simp: sched_rep_def sched_links_def sched_init_def entry_clear_def)

section \<open>The interface of the scheduler\<close>

primrec pop_all :: "('s \<Rightarrow> int \<times> 's) \<Rightarrow> ('s \<Rightarrow> 'k option) \<Rightarrow> nat \<Rightarrow> 's \<Rightarrow> 'k list" where
  "pop_all pop fr 0 s = []"
| "pop_all pop fr (Suc n) s =
     (case fr s of None \<Rightarrow> [] | Some k \<Rightarrow> k # pop_all pop fr n (snd (pop s)))"

text \<open>What the protocols rely on: the operations act on a duplicate-free list sorted by priority.\<close>

locale tx_scheduler =
  fixes add :: "'s \<Rightarrow> u32 \<Rightarrow> u64 \<Rightarrow> u32 \<Rightarrow> (int \<times> 's) option"
    and rem :: "'s \<Rightarrow> u32 \<Rightarrow> (int \<times> 's) option"
    and pop :: "'s \<Rightarrow> int \<times> 's"
    and front :: "'s \<Rightarrow> u32 option"
    and contents :: "'s \<Rightarrow> sched_item list"
    and wf :: "'s \<Rightarrow> bool"
    and valid :: "u32 \<Rightarrow> bool"
  assumes add_law: "wf s \<Longrightarrow> valid i \<Longrightarrow>
      \<exists>s'. add s i p a = Some (0, s') \<and> wf s' \<and> contents s' = aadd i p a (contents s)"
    and rem_law: "wf s \<Longrightarrow> \<exists>c s'. rem s i = Some (c, s') \<and> wf s' \<and> contents s' = aremove i (contents s) \<and>
      (c = 0 \<longleftrightarrow> i \<in> it_id ` set (contents s))"
    and pop_law: "wf s \<Longrightarrow> contents s = x # xs \<Longrightarrow> \<exists>s'. pop s = (0, s') \<and> wf s' \<and> contents s' = xs"
    and pop_empty: "wf s \<Longrightarrow> contents s = [] \<Longrightarrow> pop s = (-1, s)"
    and front_law: "wf s \<Longrightarrow> front s = (case contents s of [] \<Rightarrow> None | x # _ \<Rightarrow> Some (it_id x))"
    and sorted_law: "wf s \<Longrightarrow> sorted (map it_prio (contents s))"
    and distinct_law: "wf s \<Longrightarrow> distinct (map it_id (contents s))"
begin

lemma front_minimal:
  assumes "wf s" and "front s = Some i"
  shows "\<exists>p a. (i, p, a) \<in> set (contents s) \<and> (\<forall>y \<in> set (contents s). p \<le> it_prio y)"
proof -
  from assms front_law obtain x xs where x: "contents s = x # xs" "i = it_id x"
    by (auto split: list.splits)
  with sorted_law [OF assms(1)] show ?thesis by (cases x) auto
qed

lemma pop_all_contents:
  assumes "wf s" and "length (contents s) \<le> n"
  shows "pop_all pop front n s = map it_id (contents s)"
  using assms
proof (induction n arbitrary: s)
  case 0
  then show ?case by simp
next
  case (Suc n)
  show ?case
  proof (cases "contents s")
    case Nil
    with Suc.prems show ?thesis by (simp add: front_law)
  next
    case (Cons x xs)
    with Suc.prems obtain s' where "pop s = (0, s')" "wf s'" "contents s' = xs"
      using pop_law [of s x xs] by auto
    with Suc Cons show ?thesis by (simp add: front_law)
  qed
qed

lemma add_present:
  assumes "wf s" and "valid i"
  shows "\<exists>s' b. add s i p a = Some (0, s') \<and> wf s' \<and> (i, p, b) \<in> set (contents s') \<and>
    it_id ` set (contents s') = insert i (it_id ` set (contents s))"
proof -
  from add_law [OF assms] obtain s' where s': "add s i p a = Some (0, s')" "wf s'"
    "contents s' = aadd i p a (contents s)" by auto
  have "(\<exists>b. (i, p, b) \<in> set (aadd i p a xs)) \<and> it_id ` set (aadd i p a xs) = insert i (it_id ` set xs)" for xs
  proof (cases "find (\<lambda>y. it_id y = i) xs")
    case None
    then show ?thesis by (auto simp: aadd_def set_ainsert)
  next
    case (Some y)
    then have y: "y \<in> set xs" "it_id y = i" by (auto simp: find_Some_iff)
    show ?thesis
    proof (cases "it_prio y = p")
      case True
      let ?f = "\<lambda>z. if it_id z = i then (i, p, it_avail z + a) else z"
      have "map it_id (map ?f xs) = map it_id xs" by simp
      then have "it_id ` set (map ?f xs) = it_id ` set xs" by (metis list.set_map)
      moreover have "?f y \<in> set (map ?f xs)" using y(1) unfolding set_map by (rule imageI)
      then have "(i, p, it_avail y + a) \<in> set (map ?f xs)" using y(2) by simp
      moreover have "i \<in> it_id ` set xs" using y by (metis imageI)
      moreover have "aadd i p a xs = map ?f xs" using Some True by (simp add: aadd_def)
      ultimately show ?thesis by (simp only: insert_absorb) blast
    next
      case False
      have "it_id ` set (aremove i xs) = it_id ` set xs - {i}" by (auto simp: aremove_def)
      with Some y False show ?thesis by (auto simp: aadd_def set_ainsert)
    qed
  qed
  with s' show ?thesis by metis
qed

end

lemma sched_rep_items_laws:
  assumes "sched_rep s ids"
  shows "sorted (map it_prio (items (sc_entries s) ids))" and "distinct (map it_id (items (sc_entries s) ids))"
    and "it_id ` set (items (sc_entries s) ids) = set ids"
  using assms by (auto simp: sched_rep_def sched_links_def items_def comp_def image_image)

abbreviation sched_id_valid :: "u32 \<Rightarrow> bool" where
  "sched_id_valid i \<equiv> unat i < MAX_SCHED_ENTRIES"

interpretation txs: tx_scheduler sched_add sched_remove sched_pop sched_head sched_contents sched_wf sched_id_valid
proof (unfold_locales, goal_cases)
  case (1 s i p a)
  then show ?case using sched_add_rep sched_contents_rep by (metis sched_wf_def)
next
  case (2 s i)
  then show ?case using sched_remove_rep sched_contents_rep sched_rep_items_laws(3) by (metis sched_wf_def)
next
  case (3 s x xs)
  then obtain ids where r: "sched_rep s ids" "sched_contents s = items (sc_entries s) ids" by (elim sched_wfE)
  with 3 obtain i js where ij: "ids = i # js" "xs = items (sc_entries s) js" by (auto simp: items_def)
  with sched_pop_rep [of s i js] r show ?case using sched_contents_rep by (metis sched_wf_def)
next
  case (4 s)
  then obtain ids where "sched_rep s ids" "sched_contents s = items (sc_entries s) ids" by (elim sched_wfE)
  with 4 have "sc_head s = SCHED_ID_INVALID"
    using sched_links_head by (force simp: sched_rep_def items_def)
  then show ?case by (simp add: sched_pop_def)
next
  case (5 s)
  then obtain ids where r: "sched_rep s ids" "sched_contents s = items (sc_entries s) ids" by (elim sched_wfE)
  then have "sc_head s = (if ids = [] then SCHED_ID_INVALID else hd ids)" "SCHED_ID_INVALID \<notin> set ids"
    using sched_links_head sched_links_invalid by (auto simp: sched_rep_def)
  with r show ?case by (cases ids) (auto simp: sched_head_def items_def)
next
  case (6 s)
  then show ?case using sched_rep_items_laws(1) by (metis sched_wfE)
next
  case (7 s)
  then show ?case using sched_rep_items_laws(2) by (metis sched_wfE)
qed

section \<open>Properties\<close>


definition demo_entries :: cham_scheduler where
  "demo_entries = \<lparr>sc_entries = (\<lambda>_. \<lparr>se_id = 0, se_next = 0, se_priority = 0, se_avail = 0, se_opaque = 0\<rparr>),
     sc_vtime = 0, sc_head = 0, sc_tail = 0\<rparr>"

lemma demo_sched_wf: "sched_wf (sched_init demo_entries)" and demo_sched_contents: "sched_contents (sched_init demo_entries) = []"
  using sched_init_rep [of demo_entries] sched_contents_rep [OF sched_init_rep [of demo_entries]]
  by (auto simp: sched_wf_def items_def)


text \<open>
  C4: Removing an id from a well-formed scheduler always returns; it deletes exactly that id,
  reports success exactly when the id was scheduled, and keeps the order of the others.
\<close>

theorem sched_remove_refines:
  assumes "sched_wf s"
  shows "\<exists>c s'. sched_remove s i = Some (c, s') \<and> sched_wf s' \<and>
    sched_contents s' = aremove i (sched_contents s) \<and> (c = 0 \<longleftrightarrow> i \<in> it_id ` set (sched_contents s))"
  using txs.rem_law [OF assms] .

theorem sched_remove_refines_witness:
  "\<exists>c s'. sched_remove (sched_init demo_entries) 5 = Some (c, s') \<and> sched_contents s' = [] \<and> c \<noteq> 0"
  using sched_remove_refines [OF demo_sched_wf, of 5] by (auto simp: demo_sched_contents aremove_def)

text \<open>
  Repeatedly taking the head of a well-formed scheduler and popping it yields every scheduled
  id exactly once, in order of non-decreasing priority value, whatever sequence of additions and
  removals built the scheduler.
\<close>

theorem sched_drain_sorted:
  assumes "sched_wf s" and "length (sched_contents s) \<le> n"
  shows "pop_all sched_pop sched_head n s = map it_id (sched_contents s) \<and>
    sorted (map it_prio (sched_contents s)) \<and> distinct (map it_id (sched_contents s))"
  using txs.pop_all_contents [OF assms] txs.sorted_law txs.distinct_law assms(1) by blast

theorem sched_drain_sorted_witness:
  "\<exists>s. sched_wf s \<and> pop_all sched_pop sched_head 3 s = [9, 5]"
proof -
  obtain s1 where s1: "sched_wf s1" "sched_contents s1 = [(5, 100, 7)]"
    using txs.add_law [OF demo_sched_wf, of 5 100 7] by (auto simp: demo_sched_contents aadd_def ainsert_def)
  then obtain s2 where "sched_wf s2" "sched_contents s2 = [(9, 20, 1), (5, 100, 7)]"
    using txs.add_law [OF s1(1), of 9 20 1] by (auto simp: aadd_def ainsert_def)
  with sched_drain_sorted [of s2 3] show ?thesis by auto
qed

end
