(* ===== verification/Shmalloc.thy ===== *)
theory Shmalloc
  imports Prelude
begin

unbundle bit_operations_syntax

text \<open>
  The shared-memory allocator of \<^verbatim>\<open>lib/utils/shm/shmalloc.c\<close>. The free list is the HOL list of
  its handles in link order; \<^verbatim>\<open>malloc\<close> of a handle may fail, so the operations take one flag per
  \<^verbatim>\<open>sh_alloc\<close> they make. The lemmas show memory safety: at every moment each byte of the region
  belongs to exactly one block, free or allocated, so blocks never overlap and no byte is lost.
\<close>

section \<open>The structures and operations of the code\<close>

record shm_handle =
  sh_addr :: ptr
  sh_off :: u64
  sh_len :: csize

record shm_allocator =
  sa_base :: ptr
  sa_free :: "shm_handle list"

abbreviation SHMALLOC_ALIGN :: u64 where "SHMALLOC_ALIGN \<equiv> 64"

definition ALIGN_UP :: "u64 \<Rightarrow> u64" where
  "ALIGN_UP x = (x + (SHMALLOC_ALIGN - 1)) AND NOT (SHMALLOC_ALIGN - 1)"

definition shmalloc_init :: "bool \<Rightarrow> bool \<Rightarrow> ptr \<Rightarrow> u64 \<Rightarrow> shm_allocator option" where
  "shmalloc_init sh_ok alloc_ok shm_base len =
     (if \<not> sh_ok then None
      else let sh = \<lparr>sh_addr = shm_base, sh_off = 0, sh_len = len\<rparr>
           in if \<not> alloc_ok then None else Some \<lparr>sa_base = shm_base, sa_free = [sh]\<rparr>)"

text \<open>The first-fit loop; a failed \<^verbatim>\<open>sh_alloc\<close> ends it with the list unchanged.\<close>

fun alloc_scan :: "bool \<Rightarrow> bool \<Rightarrow> ptr \<Rightarrow> csize \<Rightarrow> shm_handle list \<Rightarrow> (shm_handle \<times> shm_handle list) option" where
  "alloc_scan m1 m2 base len [] = None"
| "alloc_scan m1 m2 base len (sh # rest) =
     (let aligned_off = ALIGN_UP (sh_off sh);
          prefix_len = aligned_off - sh_off sh
      in if aligned_off < sh_off sh \<or> prefix_len > sh_len sh \<or> prefix_len + len > sh_len sh
         then (case alloc_scan m1 m2 base len rest of None \<Rightarrow> None | Some (h, rest') \<Rightarrow> Some (h, sh # rest'))
         else let suffix_len = sh_len sh - prefix_len - len;
                  ph_new = \<lparr>sh_addr = base + aligned_off, sh_off = aligned_off, sh_len = len\<rparr>;
                  sh_suffix = \<lparr>sh_addr = base + (aligned_off + len), sh_off = aligned_off + len, sh_len = suffix_len\<rparr>
              in if prefix_len = 0 \<and> suffix_len = 0 then Some (sh, rest)
                 else if \<not> m1 then None
                 else if prefix_len = 0 then Some (ph_new, sh_suffix # rest)
                 else if suffix_len > 0
                 then (if \<not> m2 then None else Some (ph_new, sh\<lparr>sh_len := prefix_len\<rparr> # sh_suffix # rest))
                 else Some (ph_new, sh\<lparr>sh_len := prefix_len\<rparr> # rest))"

definition shmalloc_alloc :: "bool \<Rightarrow> bool \<Rightarrow> shm_allocator \<Rightarrow> csize \<Rightarrow> int \<times> shm_allocator \<times> shm_handle option" where
  "shmalloc_alloc m1 m2 alloc len =
     (case alloc_scan m1 m2 (sa_base alloc) (ALIGN_UP len) (sa_free alloc) of
        None \<Rightarrow> (-1, alloc, None)
      | Some (h, fl) \<Rightarrow> (0, alloc\<lparr>sa_free := fl\<rparr>, Some h))"

text \<open>
  The search loop of \<^verbatim>\<open>shmalloc_free\<close> advances while the block after the current one starts
  below the freed block; the freed block is then linked behind the predecessor of the current
  block, that is, at the position that counts the steps taken.
\<close>

fun free_pos :: "shm_handle \<Rightarrow> shm_handle list \<Rightarrow> nat" where
  "free_pos h (sh # nx # rest) = (if sh_off nx < sh_off h then Suc (free_pos h (nx # rest)) else 0)"
| "free_pos h _ = 0"

text \<open>The second half of \<^verbatim>\<open>merge_items\<close>: merge the first block with its successor.\<close>

fun merge_next :: "shm_handle list \<Rightarrow> shm_handle list" where
  "merge_next (sh # nx # rest) =
     (if sh_off sh + sh_len sh = sh_off nx then sh\<lparr>sh_len := sh_len sh + sh_len nx\<rparr> # rest
      else sh # nx # rest)"
| "merge_next xs = xs"

text \<open>\<^verbatim>\<open>merge_items\<close> with a predecessor: the predecessor is the first block of the list.\<close>

fun merge_prev :: "shm_handle list \<Rightarrow> shm_handle list" where
  "merge_prev (pv # sh # rest) =
     (if sh_off pv + sh_len pv = sh_off sh then merge_next (pv\<lparr>sh_len := sh_len pv + sh_len sh\<rparr> # rest)
      else pv # merge_next (sh # rest))"
| "merge_prev xs = xs"

definition merge_items :: "nat \<Rightarrow> shm_handle list \<Rightarrow> shm_handle list" where
  "merge_items k xs = (if k = 0 then merge_next xs else take (k - 1) xs @ merge_prev (drop (k - 1) xs))"

definition shmalloc_free :: "shm_allocator \<Rightarrow> shm_handle \<Rightarrow> shm_allocator" where
  "shmalloc_free alloc h =
     (let k = free_pos h (sa_free alloc)
      in alloc\<lparr>sa_free := merge_items k (take k (sa_free alloc) @ h # drop k (sa_free alloc))\<rparr>)"

section \<open>Alignment\<close>

lemma ALIGN_UP_mask: "ALIGN_UP x = (x + 63) AND NOT (mask 6)"
  by (simp add: ALIGN_UP_def mask_eq_exp_minus_1)

lemma unat_ALIGN_UP:
  assumes "unat x + 63 < 2 ^ 64"
  shows "unat (ALIGN_UP x) = (unat x + 63) div 64 * 64"
proof -
  have "unat (x + 63) = unat x + 63" using assms by (intro unat_add_small_iff) simp_all
  then show ?thesis
    unfolding ALIGN_UP_mask unat_and_not_mask by (simp add: minus_mod_eq_div_mult)
qed

lemma unat_ALIGN_UP_wrap:
  assumes "2 ^ 64 \<le> unat x + 63"
  shows "ALIGN_UP x = 0"
proof -
  have "unat (x + 63) = unat x + 63 - 2 ^ 64"
    using assms unat_64_bound [of x] by (simp add: unat_plus_if')
  then have "unat (x + 63) < 64" using unat_64_bound [of x] by simp
  then have "unat (ALIGN_UP x) = 0"
    unfolding ALIGN_UP_mask unat_and_not_mask by simp
  then show ?thesis by (simp add: unat_eq_zero)
qed
lemma ALIGN_UP_props:
  shows "64 dvd unat (ALIGN_UP x)" and "unat (ALIGN_UP x) \<le> 2 ^ 64 - 64"
    and "x \<le> ALIGN_UP x \<Longrightarrow> unat (ALIGN_UP x) - unat x < 64"
proof -
  show "64 dvd unat (ALIGN_UP x)"
    by (cases "unat x + 63 < 2 ^ 64") (simp_all add: unat_ALIGN_UP unat_ALIGN_UP_wrap)
  then show "unat (ALIGN_UP x) \<le> 2 ^ 64 - 64"
    using unat_64_bound [of "ALIGN_UP x"] by (auto elim!: dvdE)
  show "x \<le> ALIGN_UP x \<Longrightarrow> unat (ALIGN_UP x) - unat x < 64"
    by (cases "unat x + 63 < 2 ^ 64") (simp_all add: unat_ALIGN_UP unat_ALIGN_UP_wrap word_le_nat_alt)
qed

section \<open>Coverage: every byte belongs to exactly one block\<close>

definition cov :: "shm_handle \<Rightarrow> nat \<Rightarrow> nat" where
  "cov h x = (if unat (sh_off h) \<le> x \<and> x < unat (sh_off h) + unat (sh_len h) then 1 else 0)"

definition cover :: "shm_handle list \<Rightarrow> nat \<Rightarrow> nat" where
  "cover hs x = (\<Sum>h \<leftarrow> hs. cov h x)"

definition blk_ok :: "ptr \<Rightarrow> nat \<Rightarrow> shm_handle \<Rightarrow> bool" where
  "blk_ok base tot h \<longleftrightarrow> unat (sh_off h) + unat (sh_len h) \<le> tot \<and> sh_addr h = base + sh_off h"

definition shm_inv :: "nat \<Rightarrow> shm_allocator \<Rightarrow> shm_handle list \<Rightarrow> bool" where
  "shm_inv tot a live \<longleftrightarrow> tot < 2 ^ 64 \<and>
     (\<forall>h \<in> set (sa_free a @ live). blk_ok (sa_base a) tot h) \<and>
     (\<forall>x. cover (sa_free a @ live) x = (if x < tot then 1 else 0))"

lemma cover_simps [simp]:
  "cover [] x = 0" "cover (h # hs) x = cov h x + cover hs x" "cover (xs @ ys) x = cover xs x + cover ys x"
  by (simp_all add: cover_def)

lemma cover_join:
  assumes "unat (sh_off b) = unat (sh_off a) + unat (sh_len a)" and "unat (sh_off c) = unat (sh_off a)"
    and "unat (sh_len c) = unat (sh_len a) + unat (sh_len b)"
  shows "cov c x = cov a x + cov b x"
  using assms by (auto simp: cov_def)

lemma fit_arith:
  fixes sh :: shm_handle and len :: csize
  defines "A \<equiv> ALIGN_UP (sh_off sh)"
  assumes ok: "unat (sh_off sh) + unat (sh_len sh) \<le> tot" "tot < 2 ^ 64" and l: "unat len \<le> 2 ^ 64 - 64"
    and c: "\<not> (A < sh_off sh \<or> A - sh_off sh > sh_len sh \<or> A - sh_off sh + len > sh_len sh)"
  shows "unat (A - sh_off sh) = unat A - unat (sh_off sh)" and "unat (sh_off sh) \<le> unat A"
    and "unat A + unat len \<le> unat (sh_off sh) + unat (sh_len sh)"
    and "unat (sh_len sh - (A - sh_off sh) - len) = unat (sh_off sh) + unat (sh_len sh) - (unat A + unat len)"
    and "unat (A + len) = unat A + unat len"
proof -
  from c have le: "sh_off sh \<le> A" by (simp add: not_less)
  then show le': "unat (sh_off sh) \<le> unat A" by (simp add: word_le_nat_alt)
  show p: "unat (A - sh_off sh) = unat A - unat (sh_off sh)" using le by (rule unat_sub)
  have "unat A - unat (sh_off sh) < 64" using ALIGN_UP_props(3) [of "sh_off sh"] le by (simp add: A_def)
  then have s: "unat (A - sh_off sh + len) = unat A - unat (sh_off sh) + unat len"
    using l by (intro unat_add_small_iff) (simp_all add: p)
  from c have "A - sh_off sh + len \<le> sh_len sh" "A - sh_off sh \<le> sh_len sh" by (simp_all add: not_less)
  then have f: "unat A - unat (sh_off sh) + unat len \<le> unat (sh_len sh)" "unat A - unat (sh_off sh) \<le> unat (sh_len sh)"
    using s p by (simp_all add: word_le_nat_alt)
  then show fit: "unat A + unat len \<le> unat (sh_off sh) + unat (sh_len sh)" using le' by linarith
  then show "unat (A + len) = unat A + unat len"
    using ok by (intro unat_add_small_iff) (simp_all)
  have u1: "unat (sh_len sh - (A - sh_off sh)) = unat (sh_len sh) - (unat A - unat (sh_off sh))"
    using f p by (subst unat_sub) (simp_all add: word_le_nat_alt)
  have "len \<le> sh_len sh - (A - sh_off sh)" using u1 f by (simp add: word_le_nat_alt)
  then have "unat (sh_len sh - (A - sh_off sh) - len) = unat (sh_len sh) - (unat A - unat (sh_off sh)) - unat len"
    using u1 by (simp add: unat_sub)
  then show "unat (sh_len sh - (A - sh_off sh) - len) = unat (sh_off sh) + unat (sh_len sh) - (unat A + unat len)"
    using le' f by linarith
qed

lemma alloc_scan_sound:
  assumes "alloc_scan m1 m2 base len fs = Some (h, fs')" and "\<forall>b \<in> set fs. blk_ok base tot b"
    and t: "tot < 2 ^ 64" and l: "unat len \<le> 2 ^ 64 - 64"
  shows "(\<forall>b \<in> set (h # fs'). blk_ok base tot b) \<and> sh_len h = len \<and> 64 dvd unat (sh_off h) \<and>
    (\<forall>x. cover (h # fs') x = cover fs x)"
  using assms(1,2)
proof (induction fs arbitrary: h fs')
  case Nil
  then show ?case by simp
next
  case (Cons sh rest)
  let ?A = "ALIGN_UP (sh_off sh)"
  let ?skip = "?A < sh_off sh \<or> ?A - sh_off sh > sh_len sh \<or> ?A - sh_off sh + len > sh_len sh"
  show ?case
  proof (cases ?skip)
    case True
    then obtain r where r: "alloc_scan m1 m2 base len rest = Some (h, r)" "fs' = sh # r"
      using Cons.prems(1) by (auto simp: Let_def split: option.splits)
    with Cons.IH [OF r(1)] Cons.prems(2) show ?thesis by auto
  next
    case False
    have b: "blk_ok base tot sh" using Cons.prems(2) by simp
    have f: "unat (?A - sh_off sh) = unat ?A - unat (sh_off sh)" "unat (sh_off sh) \<le> unat ?A"
        "unat ?A + unat len \<le> unat (sh_off sh) + unat (sh_len sh)"
        "unat (sh_len sh - (?A - sh_off sh) - len) = unat (sh_off sh) + unat (sh_len sh) - (unat ?A + unat len)"
        "unat (?A + len) = unat ?A + unat len"
      using fit_arith [OF _ t l False] b by (auto simp: blk_ok_def)
    have d: "64 dvd unat ?A" by (rule ALIGN_UP_props(1))
    let ?pre = "?A - sh_off sh"
    let ?suf = "sh_len sh - ?pre - len"
    let ?new = "\<lparr>sh_addr = base + ?A, sh_off = ?A, sh_len = len\<rparr>"
    let ?sfx = "\<lparr>sh_addr = base + (?A + len), sh_off = ?A + len, sh_len = ?suf\<rparr>"
    have bounds: "unat (sh_off sh) + unat (sh_len sh) \<le> tot" "sh_addr sh = base + sh_off sh"
      using b by (simp_all add: blk_ok_def)
    have new: "blk_ok base tot ?new" "blk_ok base tot ?sfx"
      using f bounds by (simp_all add: blk_ok_def)
    have pre: "blk_ok base tot (sh\<lparr>sh_len := ?pre\<rparr>)"
      using f bounds by (simp add: blk_ok_def)
    have split: "cov sh x = cov (sh\<lparr>sh_len := ?pre\<rparr>) x + cov ?new x + cov ?sfx x" for x
      using f unfolding cov_def by simp
    have gone: "?pre = 0 \<Longrightarrow> cov (sh\<lparr>sh_len := ?pre\<rparr>) x = 0" "?suf = 0 \<Longrightarrow> cov ?sfx x = 0" for x
      by (simp_all add: cov_def)
    have exact: "?pre = 0 \<Longrightarrow> ?suf = 0 \<Longrightarrow> sh_off sh = ?A \<and> sh_len sh = len"
      by simp
    have res: "(h, fs') = (sh, rest) \<and> ?pre = 0 \<and> ?suf = 0 \<or> (h, fs') = (?new, ?sfx # rest) \<and> ?pre = 0 \<or>
      (h, fs') = (?new, sh\<lparr>sh_len := ?pre\<rparr> # ?sfx # rest) \<or>
      (h, fs') = (?new, sh\<lparr>sh_len := ?pre\<rparr> # rest) \<and> ?suf = 0"
      using Cons.prems(1) False by (auto simp: Let_def word_gt_0 split: if_splits)
    have rest: "\<forall>b \<in> set rest. blk_ok base tot b" using Cons.prems(2) by simp
    from res show ?thesis
    proof (elim disjE conjE)
      assume "(h, fs') = (sh, rest)" "?pre = 0" "?suf = 0"
      then show ?thesis using exact b rest d by auto
    next
      assume a: "(h, fs') = (?new, ?sfx # rest)" "?pre = 0"
      then show ?thesis using split gone(1) new rest d by auto
    next
      assume "(h, fs') = (?new, sh\<lparr>sh_len := ?pre\<rparr> # ?sfx # rest)"
      then show ?thesis using split new pre rest d by auto
    next
      assume "(h, fs') = (?new, sh\<lparr>sh_len := ?pre\<rparr> # rest)" "?suf = 0"
      then show ?thesis using split gone(2) new pre rest d by auto
    qed
  qed
qed

lemma blk_end: "blk_ok base tot a \<Longrightarrow> tot < 2 ^ 64 \<Longrightarrow> unat (sh_off a + sh_len a) = unat (sh_off a) + unat (sh_len a)"
  by (intro unat_add_small_iff) (simp_all add: blk_ok_def)

lemma merge_two:
  assumes "blk_ok base tot a" "blk_ok base tot b" "tot < 2 ^ 64" "sh_off a + sh_len a = sh_off b"
  shows "blk_ok base tot (a\<lparr>sh_len := sh_len a + sh_len b\<rparr>)"
    and "cov (a\<lparr>sh_len := sh_len a + sh_len b\<rparr>) x = cov a x + cov b x"
proof -
  have e: "unat (sh_off b) = unat (sh_off a) + unat (sh_len a)" using blk_end [of base tot a] assms by simp
  then have l: "unat (sh_len a + sh_len b) = unat (sh_len a) + unat (sh_len b)"
    using assms by (intro unat_add_small_iff) (simp_all add: blk_ok_def)
  show "blk_ok base tot (a\<lparr>sh_len := sh_len a + sh_len b\<rparr>)" using e l assms by (simp add: blk_ok_def)
  show "cov (a\<lparr>sh_len := sh_len a + sh_len b\<rparr>) x = cov a x + cov b x"
    by (rule cover_join) (simp_all add: e l)
qed

lemma merge_next_sound:
  assumes "\<forall>b \<in> set xs. blk_ok base tot b" "tot < 2 ^ 64"
  shows "(\<forall>b \<in> set (merge_next xs). blk_ok base tot b) \<and> (\<forall>x. cover (merge_next xs) x = cover xs x)"
  using assms merge_two by (cases xs rule: merge_next.cases) auto

lemma merge_prev_sound:
  assumes "\<forall>b \<in> set xs. blk_ok base tot b" "tot < 2 ^ 64"
  shows "(\<forall>b \<in> set (merge_prev xs). blk_ok base tot b) \<and> (\<forall>x. cover (merge_prev xs) x = cover xs x)"
proof (cases xs rule: merge_prev.cases)
  case (1 pv sh rest)
  show ?thesis
  proof (cases "sh_off pv + sh_len pv = sh_off sh")
    case True
    have p: "blk_ok base tot pv" "blk_ok base tot sh" using 1 assms(1) by simp_all
    let ?m = "pv\<lparr>sh_len := sh_len pv + sh_len sh\<rparr>"
    have "\<forall>b \<in> set (?m # rest). blk_ok base tot b" using merge_two(1) [OF p assms(2) True] 1 assms(1) by simp
    from merge_next_sound [OF this assms(2)] merge_two(2) [OF p assms(2) True] show ?thesis
      using 1 True by simp
  next
    case False
    have "\<forall>b \<in> set (sh # rest). blk_ok base tot b" using 1 assms(1) by simp
    from merge_next_sound [OF this assms(2)] show ?thesis using 1 False assms(1) by simp
  qed
qed (use assms in auto)

lemma merge_items_sound:
  assumes "\<forall>b \<in> set xs. blk_ok base tot b" "tot < 2 ^ 64"
  shows "(\<forall>b \<in> set (merge_items k xs). blk_ok base tot b) \<and> (\<forall>x. cover (merge_items k xs) x = cover xs x)"
proof (cases "k = 0")
  case True
  then show ?thesis using merge_next_sound [OF assms] by (simp add: merge_items_def)
next
  case False
  have t: "\<forall>b \<in> set (take (k - 1) xs). blk_ok base tot b" using assms(1) by (auto dest: in_set_takeD)
  have d: "\<forall>b \<in> set (drop (k - 1) xs). blk_ok base tot b" using assms(1) by (auto dest: in_set_dropD)
  have "cover xs x = cover (take (k - 1) xs) x + cover (drop (k - 1) xs) x" for x
    using cover_simps(3) [of "take (k - 1) xs" "drop (k - 1) xs" x] by simp
  then show ?thesis using False t merge_prev_sound [OF d assms(2)] by (auto simp: merge_items_def)
qed

section \<open>The invariant\<close>

lemma cover_remove1: "h \<in> set hs \<Longrightarrow> cover hs x = cov h x + cover (remove1 h hs) x"
  by (induction hs) auto

lemma shmalloc_init_inv:
  "shmalloc_init True True base len = Some a \<Longrightarrow> shm_inv (unat len) a []"
  using unat_64_bound [of len] by (auto simp: shmalloc_init_def shm_inv_def blk_ok_def cov_def)

lemma shmalloc_alloc_result:
  "shmalloc_alloc m1 m2 a len = (r, a', Some h) \<longleftrightarrow>
   r = 0 \<and> (\<exists>fl. alloc_scan m1 m2 (sa_base a) (ALIGN_UP len) (sa_free a) = Some (h, fl) \<and> a' = a\<lparr>sa_free := fl\<rparr>)"
  "shmalloc_alloc m1 m2 a len = (r, a', None) \<longleftrightarrow>
   r = -1 \<and> a' = a \<and> alloc_scan m1 m2 (sa_base a) (ALIGN_UP len) (sa_free a) = None"
  by (auto simp: shmalloc_alloc_def split: option.splits)

lemma shm_inv_transfer:
  assumes "shm_inv tot a live" and "sa_base a' = sa_base a"
    and "\<forall>h \<in> set (sa_free a' @ live'). blk_ok (sa_base a) tot h"
    and "\<And>x. cover (sa_free a' @ live') x = cover (sa_free a @ live) x"
  shows "shm_inv tot a' live'"
  using assms unfolding shm_inv_def by (simp only: simp_thms)

lemma shmalloc_alloc_inv:
  assumes "shm_inv tot a live" and r: "shmalloc_alloc m1 m2 a len = (r, a', Some h)"
  shows "shm_inv tot a' (h # live) \<and> sh_len h = ALIGN_UP len \<and> 64 dvd unat (sh_off h)"
proof -
  have t: "tot < 2 ^ 64" and ok: "\<forall>b \<in> set (sa_free a). blk_ok (sa_base a) tot b"
    using assms(1) by (simp_all add: shm_inv_def)
  obtain fl where fl: "alloc_scan m1 m2 (sa_base a) (ALIGN_UP len) (sa_free a) = Some (h, fl)" "a' = a\<lparr>sa_free := fl\<rparr>"
    using r by (auto simp: shmalloc_alloc_result)
  from alloc_scan_sound [OF fl(1) ok t ALIGN_UP_props(2)]
  have s: "\<forall>b \<in> set (h # fl). blk_ok (sa_base a) tot b" "sh_len h = ALIGN_UP len" "64 dvd unat (sh_off h)"
    and c: "\<And>x. cover (h # fl) x = cover (sa_free a) x"
    by simp_all
  have "shm_inv tot a' (h # live)"
  proof (rule shm_inv_transfer [OF assms(1)])
    show "sa_base a' = sa_base a" using fl(2) by simp
    show "\<forall>b \<in> set (sa_free a' @ h # live). blk_ok (sa_base a) tot b"
      using s(1) assms(1) fl(2) by (auto simp: shm_inv_def)
    show "cover (sa_free a' @ h # live) x = cover (sa_free a @ live) x" for x
      using c [of x] fl(2) by simp
  qed
  then show ?thesis using s by simp
qed

lemma shmalloc_free_inv:
  assumes "shm_inv tot a live" and "h \<in> set live"
  shows "shm_inv tot (shmalloc_free a h) (remove1 h live)"
proof -
  let ?k = "free_pos h (sa_free a)"
  let ?xs = "take ?k (sa_free a) @ h # drop ?k (sa_free a)"
  have t: "tot < 2 ^ 64" using assms(1) by (simp add: shm_inv_def)
  have x: "cover ?xs x = cov h x + cover (sa_free a) x" for x
    using cover_simps(3) [of "take ?k (sa_free a)" "drop ?k (sa_free a)" x] by simp
  have "set ?xs = insert h (set (sa_free a))"
    by (metis Un_insert_right append_take_drop_id list.simps(15) set_append)
  then have ok: "\<forall>b \<in> set ?xs. blk_ok (sa_base a) tot b" using assms by (simp add: shm_inv_def)
  from merge_items_sound [OF ok t, of ?k]
  have m: "\<forall>b \<in> set (merge_items ?k ?xs). blk_ok (sa_base a) tot b" "\<And>x. cover (merge_items ?k ?xs) x = cover ?xs x"
    by simp_all
  have l: "\<forall>b \<in> set (remove1 h live). blk_ok (sa_base a) tot b"
    using assms(1) set_remove1_subset [of h live] by (auto simp: shm_inv_def)
  show ?thesis
  proof (rule shm_inv_transfer [OF assms(1)])
    show "sa_base (shmalloc_free a h) = sa_base a" by (simp add: shmalloc_free_def Let_def)
    show "\<forall>b \<in> set (sa_free (shmalloc_free a h) @ remove1 h live). blk_ok (sa_base a) tot b"
      using m(1) l by (auto simp: shmalloc_free_def Let_def)
    show "cover (sa_free (shmalloc_free a h) @ remove1 h live) x = cover (sa_free a @ live) x" for x
      using m(2) [of x] x [of x] cover_remove1 [OF assms(2), of x] by (simp add: shmalloc_free_def Let_def)
  qed
qed

subsection \<open>What the invariant gives a client\<close>

definition foot :: "shm_handle \<Rightarrow> nat set" where
  "foot h = {unat (sh_off h) ..< unat (sh_off h) + unat (sh_len h)}"

definition disjoint_blocks :: "shm_handle list \<Rightarrow> bool" where
  "disjoint_blocks hs \<longleftrightarrow> (\<forall>i j. i < length hs \<and> j < length hs \<and> i \<noteq> j \<longrightarrow> foot (hs ! i) \<inter> foot (hs ! j) = {})"

lemma cov_foot: "cov h x = (if x \<in> foot h then 1 else 0)"
  by (simp add: cov_def foot_def)

lemma cover_foot: "0 < cover hs x \<longleftrightarrow> (\<exists>h \<in> set hs. x \<in> foot h)"
  by (induction hs) (auto simp: cov_foot)

lemma cover_le_one_disjoint:
  assumes "\<And>x. cover hs x \<le> 1"
  shows "disjoint_blocks hs"
proof -
  have "x \<notin> foot (hs ! j)" if "i < j" "j < length hs" "x \<in> foot (hs ! i)" for i j x
  proof
    assume xj: "x \<in> foot (hs ! j)"
    have "hs = take j hs @ hs ! j # drop (Suc j) hs" using that(2) by (rule id_take_nth_drop)
    then have "cover hs x = cover (take j hs) x + cov (hs ! j) x + cover (drop (Suc j) hs) x"
      by (metis cover_simps(2,3) add.assoc)
    moreover have "hs ! i \<in> set (take j hs)" using that by (metis length_take min.absorb2 nat_less_le nth_mem nth_take)
    then have "0 < cover (take j hs) x" using that(3) cover_foot by blast
    ultimately show False using assms [of x] xj by (simp add: cov_foot)
  qed
  then show ?thesis unfolding disjoint_blocks_def by (meson disjoint_iff nat_neq_iff)
qed

lemma shm_inv_disjoint: "shm_inv tot a live \<Longrightarrow> disjoint_blocks (sa_free a @ live)"
  by (rule cover_le_one_disjoint) (simp add: shm_inv_def)

lemma disjoint_blocks_appendD:
  assumes "disjoint_blocks (xs @ ys)"
  shows "disjoint_blocks ys"
  unfolding disjoint_blocks_def
proof (intro allI impI)
  fix i j
  assume "i < length ys \<and> j < length ys \<and> i \<noteq> j"
  then show "foot (ys ! i) \<inter> foot (ys ! j) = {}"
    using assms [unfolded disjoint_blocks_def, rule_format, of "length xs + i" "length xs + j"] by simp
qed

definition free_bytes :: "shm_allocator \<Rightarrow> nat set" where
  "free_bytes a = (\<Union>h \<in> set (sa_free a). foot h)"

lemma shm_inv_free_bytes:
  assumes "shm_inv tot a live"
  shows "free_bytes a = {..< tot} - (\<Union>h \<in> set live. foot h)"
proof -
  have c: "cover (sa_free a) x + cover live x = (if x < tot then 1 else 0)" for x
    using assms by (simp add: shm_inv_def)
  have "x \<in> free_bytes a \<longleftrightarrow> x < tot \<and> x \<notin> (\<Union>h \<in> set live. foot h)" for x
    using c [of x] cover_foot [of "sa_free a" x] cover_foot [of live x]
    by (auto simp: free_bytes_def split: if_splits)
  then show ?thesis by auto
qed

section \<open>The contract of a region allocator\<close>

text \<open>
  What the clients of the allocator (the set-up code of the control plane and of the protocols)
  rely on: a request gives a block that is new with respect to the blocks in use, and a block
  handed back leaves the others alone. The client lemmas follow from the three laws.
\<close>

datatype ('r, 'h) region_op = Alloc 'r | Free 'h

fun region_run :: "('r \<Rightarrow> 's \<Rightarrow> 's \<times> 'h option) \<Rightarrow> ('s \<Rightarrow> 'h \<Rightarrow> 's) \<Rightarrow> ('r, 'h) region_op list \<Rightarrow> 's \<times> 'h list \<Rightarrow> 's \<times> 'h list" where
  "region_run al fr [] st = st"
| "region_run al fr (Alloc r # ops) (s, live) =
     (case al r s of (s', Some h) \<Rightarrow> region_run al fr ops (s', h # live) | (s', None) \<Rightarrow> region_run al fr ops (s', live))"
| "region_run al fr (Free h # ops) (s, live) =
     (if h \<in> set live then region_run al fr ops (fr s h, remove1 h live) else region_run al fr ops (s, live))"

locale region_allocator =
  fixes alloc :: "'r \<Rightarrow> 's \<Rightarrow> 's \<times> 'h option"
    and free :: "'s \<Rightarrow> 'h \<Rightarrow> 's"
    and inv :: "'s \<Rightarrow> 'h list \<Rightarrow> bool"
    and fp :: "'h \<Rightarrow> nat set"
  assumes alloc_inv: "inv s live \<Longrightarrow> alloc r s = (s', Some h) \<Longrightarrow> inv s' (h # live)"
    and alloc_fail: "alloc r s = (s', None) \<Longrightarrow> s' = s"
    and free_inv: "inv s live \<Longrightarrow> h \<in> set live \<Longrightarrow> inv (free s h) (remove1 h live)"
    and separate: "inv s live \<Longrightarrow> i < length live \<Longrightarrow> j < length live \<Longrightarrow> i \<noteq> j \<Longrightarrow> fp (live ! i) \<inter> fp (live ! j) = {}"
begin

lemma run_inv: "inv s live \<Longrightarrow> region_run alloc free ops (s, live) = (s', live') \<Longrightarrow> inv s' live'"
proof (induction ops arbitrary: s live)
  case Nil
  then show ?case by simp
next
  case (Cons opn ops)
  show ?case
  proof (cases opn)
    case (Alloc r)
    obtain s1 ho where a: "alloc r s = (s1, ho)" by (cases "alloc r s")
    then show ?thesis
      using Cons Alloc alloc_inv [of s live r s1] alloc_fail [of r s s1] by (cases ho) auto
  next
    case (Free h)
    then show ?thesis using Cons free_inv [of s live h] by (auto split: if_splits)
  qed
qed

text \<open>A store to one live block leaves the contents of every other live block unchanged.\<close>

lemma store_isolated:
  assumes "inv s live" "i < length live" "j < length live" "i \<noteq> j" "x \<in> fp (live ! i)" "y \<in> fp (live ! j)"
  shows "(mem(x := v)) y = (mem :: nat \<Rightarrow> 'v) y"
  using separate [OF assms(1-4)] assms(5,6) by auto

text \<open>A newly allocated block does not meet any block in use.\<close>

lemma alloc_fresh:
  assumes "inv s live" "alloc r s = (s', Some h)" "g \<in> set live"
  shows "fp h \<inter> fp g = {}"
proof -
  obtain j where "j < length live" "live ! j = g" using assms(3) by (auto simp: in_set_conv_nth)
  with separate [OF alloc_inv [OF assms(1,2)], of 0 "Suc j"] show ?thesis by simp
qed

end

definition shm_request :: "bool \<times> bool \<times> csize \<Rightarrow> shm_allocator \<Rightarrow> shm_allocator \<times> shm_handle option" where
  "shm_request r a = (case r of (m1, m2, len) \<Rightarrow> snd (shmalloc_alloc m1 m2 a len))"

definition shm_ok :: "nat \<Rightarrow> ptr \<Rightarrow> shm_allocator \<Rightarrow> shm_handle list \<Rightarrow> bool" where
  "shm_ok tot base a live \<longleftrightarrow> shm_inv tot a live \<and> sa_base a = base \<and> (\<forall>h \<in> set live. 64 dvd unat (sh_off h))"

interpretation shmr: region_allocator shm_request shmalloc_free "shm_ok tot base" foot
proof unfold_locales
  fix s live r s' h
  assume i: "shm_ok tot base s live" and a: "shm_request r s = (s', Some h)"
  obtain m1 m2 len where r: "r = (m1, m2, len)" by (cases r)
  from a have a': "shmalloc_alloc m1 m2 s len = (0, s', Some h)"
    by (cases "shmalloc_alloc m1 m2 s len") (auto simp: shm_request_def r shmalloc_alloc_result)
  then have "sa_base s' = sa_base s" by (auto simp: shmalloc_alloc_result)
  with shmalloc_alloc_inv [OF _ a'] i show "shm_ok tot base s' (h # live)" by (auto simp: shm_ok_def)
next
  fix s live h
  assume "shm_ok tot base s live" "h \<in> set live"
  then show "shm_ok tot base (shmalloc_free s h) (remove1 h live)"
    using shmalloc_free_inv [of tot s live h] set_remove1_subset [of h live]
    by (auto simp: shm_ok_def shmalloc_free_def Let_def)
next
  fix s live i j
  assume "shm_ok tot base s live" "i < length live" "j < length live" "i \<noteq> j"
  then show "foot (live ! i) \<inter> foot (live ! j) = {}"
    using disjoint_blocks_appendD [OF shm_inv_disjoint, of tot s live] by (simp add: shm_ok_def disjoint_blocks_def)
qed (auto simp: shm_request_def shmalloc_alloc_def split: prod.splits option.splits)

section \<open>First fit\<close>

text \<open>The condition under which the loop takes a free block.\<close>

definition fits :: "csize \<Rightarrow> shm_handle \<Rightarrow> bool" where
  "fits len sh \<longleftrightarrow> sh_off sh \<le> ALIGN_UP (sh_off sh) \<and>
     unat (ALIGN_UP (sh_off sh)) + unat len \<le> unat (sh_off sh) + unat (sh_len sh)"

lemma fits_code:
  assumes "unat len \<le> 2 ^ 64 - 64"
  shows "\<not> (ALIGN_UP (sh_off sh) < sh_off sh \<or> ALIGN_UP (sh_off sh) - sh_off sh > sh_len sh \<or>
             ALIGN_UP (sh_off sh) - sh_off sh + len > sh_len sh) \<longleftrightarrow> fits len sh"
proof (cases "sh_off sh \<le> ALIGN_UP (sh_off sh)")
  case True
  let ?A = "ALIGN_UP (sh_off sh)"
  have p: "unat (?A - sh_off sh) = unat ?A - unat (sh_off sh)" using True by (rule unat_sub)
  have le: "unat (sh_off sh) \<le> unat ?A" using True by (simp add: word_le_nat_alt)
  have "unat ?A - unat (sh_off sh) < 64" using ALIGN_UP_props(3) True by blast
  then have "unat (?A - sh_off sh + len) = unat ?A - unat (sh_off sh) + unat len"
    using assms by (intro unat_add_small_iff) (simp_all add: p)
  then show ?thesis using True le p by (auto simp: fits_def word_less_nat_alt not_less)
qed (auto simp: fits_def not_le)

lemma alloc_scan_skip:
  assumes l: "unat len \<le> 2 ^ 64 - 64" and "\<not> fits len sh"
  shows "alloc_scan m1 m2 base len (sh # rest) = map_option (map_prod id (Cons sh)) (alloc_scan m1 m2 base len rest)"
proof -
  have "ALIGN_UP (sh_off sh) < sh_off sh \<or> ALIGN_UP (sh_off sh) - sh_off sh > sh_len sh \<or>
      ALIGN_UP (sh_off sh) - sh_off sh + len > sh_len sh"
    using fits_code [OF l] assms(2) by blast
  then have "alloc_scan m1 m2 base len (sh # rest) =
      (case alloc_scan m1 m2 base len rest of None \<Rightarrow> None | Some (h, rest') \<Rightarrow> Some (h, sh # rest'))"
    by (simp only: alloc_scan.simps Let_def if_True)
  then show ?thesis by (auto split: option.splits)
qed

lemma alloc_scan_take:
  assumes l: "unat len \<le> 2 ^ 64 - 64" and "fits len sh"
  shows "\<exists>h ps. alloc_scan True True base len (sh # rest) = Some (h, ps @ rest) \<and>
     sh_off h = ALIGN_UP (sh_off sh) \<and> sh_len h = len"
proof -
  let ?A = "ALIGN_UP (sh_off sh)"
  let ?suf = "sh_len sh - (?A - sh_off sh) - len"
  let ?new = "\<lparr>sh_addr = base + ?A, sh_off = ?A, sh_len = len\<rparr>"
  let ?sfx = "\<lparr>sh_addr = base + (?A + len), sh_off = ?A + len, sh_len = ?suf\<rparr>"
  have c: "\<not> (?A < sh_off sh \<or> ?A - sh_off sh > sh_len sh \<or> ?A - sh_off sh + len > sh_len sh)"
    using fits_code [OF l] assms(2) by blast
  have "alloc_scan True True base len (sh # rest) =
      (if ?A - sh_off sh = 0 \<and> ?suf = 0 then Some (sh, [] @ rest)
       else if ?A - sh_off sh = 0 then Some (?new, [?sfx] @ rest)
       else if ?suf > 0 then Some (?new, [sh\<lparr>sh_len := ?A - sh_off sh\<rparr>, ?sfx] @ rest)
       else Some (?new, [sh\<lparr>sh_len := ?A - sh_off sh\<rparr>] @ rest))"
    using c by (simp add: Let_def)
  then show ?thesis by (smt (verit) diff_zero eq_iff_diff_eq_0 shm_handle.select_convs(2,3))
qed

lemma alloc_scan_none:
  assumes l: "unat len \<le> 2 ^ 64 - 64" and "\<forall>sh \<in> set fs. \<not> fits len sh"
  shows "alloc_scan m1 m2 base len fs = None"
  using assms(2) by (induction fs) (simp_all del: alloc_scan.simps(2) add: alloc_scan_skip [OF l])

lemma alloc_scan_first:
  assumes l: "unat len \<le> 2 ^ 64 - 64" and "\<forall>sh \<in> set xs. \<not> fits len sh" and f: "fits len sh"
  shows "\<exists>h ps. alloc_scan True True base len (xs @ sh # ys) = Some (h, xs @ ps @ ys) \<and>
     sh_off h = ALIGN_UP (sh_off sh) \<and> sh_len h = len"
  using assms(2)
proof (induction xs)
  case Nil
  then show ?case using alloc_scan_take [OF l f, of base ys] by (simp del: alloc_scan.simps(2))
next
  case (Cons x xs)
  then obtain h ps where "alloc_scan True True base len (xs @ sh # ys) = Some (h, xs @ ps @ ys)"
      "sh_off h = ALIGN_UP (sh_off sh)" "sh_len h = len" by auto
  with Cons.prems show ?case by (simp del: alloc_scan.simps(2) add: alloc_scan_skip [OF l])
qed

lemma first_split: "(\<exists>x \<in> set xs. P x) \<Longrightarrow> \<exists>ys x zs. xs = ys @ x # zs \<and> P x \<and> (\<forall>y \<in> set ys. \<not> P y)"
  by (rule split_list_first_prop)

section \<open>Properties\<close>

text \<open>
  C5: memory safety of the allocator. From a fresh allocator over a region of any length, after
  any sequence of allocations (some of which may fail, for lack of a fitting block or because
  \<^verbatim>\<open>malloc\<close> of a handle fails) and frees of live blocks, every live block lies inside the
  region, starts at a 64-byte aligned offset, has the address that belongs to its offset, no two
  live blocks share a byte, and the free list holds exactly the bytes of the region that no live
  block holds.
\<close>

theorem shmalloc_memory_safe:
  assumes "shmalloc_init True True base len = Some a0"
    and "region_run shm_request shmalloc_free ops (a0, []) = (a, live)"
  shows "disjoint_blocks live \<and>
    (\<forall>h \<in> set live. foot h \<subseteq> {..< unat len} \<and> 64 dvd unat (sh_off h) \<and> sh_addr h = base + sh_off h) \<and>
    free_bytes a = {..< unat len} - (\<Union>h \<in> set live. foot h)"
proof -
  have "shm_ok (unat len) base a0 []"
    using shmalloc_init_inv [OF assms(1)] assms(1) by (auto simp: shm_ok_def shmalloc_init_def)
  then have ok: "shm_ok (unat len) base a live" by (rule shmr.run_inv) (rule assms(2))
  then have i: "shm_inv (unat len) a live" by (simp add: shm_ok_def)
  have "foot h \<subseteq> {..< unat len} \<and> 64 dvd unat (sh_off h) \<and> sh_addr h = base + sh_off h" if "h \<in> set live" for h
  proof -
    have "blk_ok base (unat len) h" "64 dvd unat (sh_off h)" using ok that by (auto simp: shm_ok_def shm_inv_def)
    then show ?thesis by (auto simp: blk_ok_def foot_def)
  qed
  then show ?thesis
    using disjoint_blocks_appendD [OF shm_inv_disjoint [OF i]] shm_inv_free_bytes [OF i] by blast
qed

theorem shmalloc_memory_safe_witness:
  "let a0 = the (shmalloc_init True True 4096 1024);
       b = \<lparr>sh_addr = 4096, sh_off = 0, sh_len = 128\<rparr>;
       c = \<lparr>sh_addr = 4224, sh_off = 128, sh_len = 64\<rparr>;
       (a, live) = region_run shm_request shmalloc_free [Alloc (True, True, 100), Alloc (True, True, 1), Free b] (a0, [])
   in live = [c] \<and> free_bytes a = {..< 1024} - (\<Union>h \<in> set live. foot h)"
proof -
  let ?a0 = "\<lparr>sa_base = 4096, sa_free = [\<lparr>sh_addr = 4096, sh_off = 0, sh_len = 1024\<rparr>]\<rparr>"
  let ?b = "\<lparr>sh_addr = 4096, sh_off = 0, sh_len = 128\<rparr>"
  let ?c = "\<lparr>sh_addr = 4224, sh_off = 128, sh_len = 64\<rparr>"
  have i: "shmalloc_init True True 4096 1024 = Some ?a0" by (simp add: shmalloc_init_def)
  have r: "region_run shm_request shmalloc_free [Alloc (True, True, 100), Alloc (True, True, 1), Free ?b] (?a0, [])
     = (\<lparr>sa_base = 4096, sa_free = [?b, \<lparr>sh_addr = 4288, sh_off = 192, sh_len = 832\<rparr>]\<rparr>, [?c])"
    by (simp add: shm_request_def shmalloc_alloc_def ALIGN_UP_def shmalloc_free_def merge_items_def)
  from shmalloc_memory_safe [OF i r] show ?thesis unfolding i option.sel Let_def r by simp
qed

text \<open>
  C6: \<^verbatim>\<open>shmalloc_alloc\<close> is a first-fit allocator. It fails, leaving the allocator as it was, exactly
  when no free block can hold the rounded-up length behind its first aligned byte; otherwise it
  carves the request out of the first free block in list order that can hold it, and the blocks
  before and after that one stay in the list.
\<close>

theorem shmalloc_alloc_first_fit:
  "(\<forall>sh \<in> set (sa_free a). \<not> fits (ALIGN_UP len) sh) \<and> shmalloc_alloc True True a len = (-1, a, None) \<or>
   (\<exists>xs sh ys h ps. sa_free a = xs @ sh # ys \<and> (\<forall>x \<in> set xs. \<not> fits (ALIGN_UP len) x) \<and> fits (ALIGN_UP len) sh \<and>
      shmalloc_alloc True True a len = (0, a\<lparr>sa_free := xs @ ps @ ys\<rparr>, Some h) \<and>
      sh_off h = ALIGN_UP (sh_off sh) \<and> sh_len h = ALIGN_UP len)"
proof (cases "\<exists>sh \<in> set (sa_free a). fits (ALIGN_UP len) sh")
  case True
  then obtain xs sh ys where s: "sa_free a = xs @ sh # ys" "fits (ALIGN_UP len) sh" "\<forall>x \<in> set xs. \<not> fits (ALIGN_UP len) x"
    using first_split by metis
  from alloc_scan_first [OF ALIGN_UP_props(2) s(3,2), of "sa_base a" ys]
  show ?thesis using s by (fastforce simp: shmalloc_alloc_def)
next
  case False
  then show ?thesis using alloc_scan_none [OF ALIGN_UP_props(2)] by (simp add: shmalloc_alloc_def)
qed

theorem shmalloc_alloc_first_fit_witness:
  "let a = \<lparr>sa_base = 0, sa_free = [\<lparr>sh_addr = 8, sh_off = 8, sh_len = 56\<rparr>, \<lparr>sh_addr = 100, sh_off = 100, sh_len = 300\<rparr>]\<rparr>
   in (\<exists>x. shmalloc_alloc True True a 64 = (0, x, Some \<lparr>sh_addr = 128, sh_off = 128, sh_len = 64\<rparr>)) \<and>
      shmalloc_alloc True True a 300 = (-1, a, None)"
proof -
  let ?a = "\<lparr>sa_base = 0, sa_free = [\<lparr>sh_addr = 8, sh_off = 8, sh_len = 56\<rparr>, \<lparr>sh_addr = 100, sh_off = 100, sh_len = 300\<rparr>]\<rparr>"
  have "\<forall>sh \<in> set (sa_free ?a). \<not> fits (ALIGN_UP 300) sh" by (simp add: fits_def ALIGN_UP_def)
  then have "shmalloc_alloc True True ?a 300 = (-1, ?a, None)"
    using shmalloc_alloc_first_fit [of ?a 300] by (metis in_set_conv_decomp)
  moreover have "\<exists>x. shmalloc_alloc True True ?a 64 = (0, x, Some \<lparr>sh_addr = 128, sh_off = 128, sh_len = 64\<rparr>)"
    by (simp add: shmalloc_alloc_def ALIGN_UP_def)
  ultimately show ?thesis by (simp add: Let_def)
qed

text \<open>
  Frees do not restore the free list. The search loop of \<^verbatim>\<open>shmalloc_free\<close> looks one block
  ahead, so a block freed behind the last free block is linked in front of it, where
  \<^verbatim>\<open>merge_items\<close> finds no neighbour: after allocating a region of 256 bytes as four blocks and
  freeing them in address order, every byte is free, yet the region is split in two blocks out of
  address order and a request for the whole region fails.
\<close>

theorem shmalloc_free_fragments:
  "let blk = (\<lambda>o'. \<lparr>sh_addr = o', sh_off = o', sh_len = 64\<rparr>); q = (True, True, 64);
       (a, live) = region_run shm_request shmalloc_free
          ([Alloc q, Alloc q, Alloc q, Alloc q] @ map (Free \<circ> blk) [0, 64, 128, 192]) (the (shmalloc_init True True 0 256), [])
   in live = [] \<and> free_bytes a = {..< 256} \<and>
      map (\<lambda>h. (sh_off h, sh_len h)) (sa_free a) = [(64, 192), (0, 64)] \<and>
      shmalloc_alloc True True a 256 = (-1, a, None)"
proof -
  let ?blk = "\<lambda>o'. \<lparr>sh_addr = o', sh_off = o', sh_len = 64\<rparr>"
  let ?a = "\<lparr>sa_base = 0, sa_free = [\<lparr>sh_addr = 64, sh_off = 64, sh_len = 192\<rparr>, ?blk 0]\<rparr>"
  let ?q = "(True, True, 64)"
  have r: "region_run shm_request shmalloc_free ([Alloc ?q, Alloc ?q, Alloc ?q, Alloc ?q] @ map (Free \<circ> ?blk) [0, 64, 128, 192])
      (the (shmalloc_init True True 0 256), []) = (?a, [])"
    by (simp add: shmalloc_init_def shm_request_def shmalloc_alloc_def ALIGN_UP_def shmalloc_free_def merge_items_def
        take_Suc_conv_app_nth)
  have "free_bytes ?a = {..< 256}" by (auto simp: free_bytes_def foot_def)
  moreover have "shmalloc_alloc True True ?a 256 = (-1, ?a, None)" by (simp add: shmalloc_alloc_def ALIGN_UP_def)
  ultimately show ?thesis unfolding Let_def r by simp
qed

end
