(* ===== verification/Probe_Table.thy ===== *)
theory Probe_Table
  imports Prelude
begin

text \<open>
  The interface of the open-addressed hash tables of the program: the ARP table
  (\<^verbatim>\<open>chamelio/arp/arp.c\<close>) and the two network-virtualisation tables
  (\<^verbatim>\<open>chamelio/netvirt/netvirt_table.c\<close>). All of them walk a probe sequence from the hash of the key
  and stop at the first slot that is empty or holds the key, and none of them deletes. The locale
  states that much about a table's operations; inside it, the table is shown to implement a map.
\<close>

section \<open>The first stop of a probe sequence\<close>

definition first_stop :: "nat \<Rightarrow> (nat \<Rightarrow> bool) \<Rightarrow> nat option" where
  "first_stop n P = List.find P [0 ..< n]"

lemma first_stop_Some: "first_stop n P = Some i \<longleftrightarrow> i < n \<and> P i \<and> (\<forall>j < i. \<not> P j)"
proof -
  have "first_stop n P = Some i \<longleftrightarrow> (\<exists>k < n. P ([0 ..< n] ! k) \<and> i = [0 ..< n] ! k \<and> (\<forall>j < k. \<not> P ([0 ..< n] ! j)))"
    unfolding first_stop_def find_Some_iff by simp
  then show ?thesis by (auto simp: nth_upt)
qed

lemma first_stop_None: "first_stop n P = None \<longleftrightarrow> (\<forall>i < n. \<not> P i)"
  by (auto simp: first_stop_def find_None_iff)

text \<open>A loop that counts up from 0 and returns at the first stop.\<close>

lemma stop_loop:
  assumes step: "\<And>i. f i = (if i < n then if P i then g i else f (Suc i) else None)"
  shows "f 0 = (case first_stop n P of None \<Rightarrow> None | Some i \<Rightarrow> g i)"
proof -
  have "f i = (case List.find P [i ..< n] of None \<Rightarrow> None | Some i \<Rightarrow> g i)" if "i \<le> n" for i
    using that
  proof (induction "n - i" arbitrary: i)
    case 0
    then show ?case by (subst step) simp
  next
    case (Suc k)
    then have "f (Suc i) = (case List.find P [Suc i ..< n] of None \<Rightarrow> None | Some i \<Rightarrow> g i)" by simp
    then show ?case using Suc by (subst step) (auto simp: upt_conv_Cons)
  qed
  then show ?thesis by (simp add: first_stop_def)
qed

section \<open>Tables that probe and never delete\<close>

locale probe_table =
  fixes n :: nat
    and probe :: "'k \<Rightarrow> nat \<Rightarrow> 'p"
    and key_ok :: "'k \<Rightarrow> bool"
    and slot_key :: "'t \<Rightarrow> 'p \<Rightarrow> 'k option"
    and val :: "'t \<Rightarrow> 'p \<Rightarrow> 'v"
    and lookup :: "'t \<Rightarrow> 'k \<Rightarrow> 'p option"
    and insert :: "'u \<Rightarrow> 't \<Rightarrow> 'k \<Rightarrow> 't \<times> 'p option"
    and upd :: "'u \<Rightarrow> 'v \<Rightarrow> 'v"
  assumes probe_inj: "inj_on (probe k) {..< n}"
    and probe_all: "probe k ` {..< n} = probe k' ` {..< n}"
    and lookup_stop: "key_ok k \<Longrightarrow> lookup t k =
      (case first_stop n (\<lambda>i. slot_key t (probe k i) \<in> {None, Some k}) of None \<Rightarrow> None
       | Some i \<Rightarrow> if slot_key t (probe k i) = Some k then Some (probe k i) else None)"
    and insert_stop: "key_ok k \<Longrightarrow> first_stop n (\<lambda>i. slot_key t (probe k i) \<in> {None, Some k}) = Some i \<Longrightarrow>
      \<exists>t'. insert u t k = (t', Some (probe k i)) \<and> slot_key t' = (slot_key t)(probe k i \<mapsto> k) \<and>
        val t' = (val t)(probe k i := upd u (val t (probe k i)))"
    and insert_none: "key_ok k \<Longrightarrow> first_stop n (\<lambda>i. slot_key t (probe k i) \<in> {None, Some k}) = None \<Longrightarrow>
      insert u t k = (t, None)"
begin

definition positions :: "'p set" where
  "positions = probe undefined ` {..< n}"

definition wf :: "'t \<Rightarrow> bool" where
  "wf t \<longleftrightarrow> (\<forall>k i. i < n \<and> slot_key t (probe k i) = Some k \<longrightarrow>
      key_ok k \<and> (\<forall>j < i. slot_key t (probe k j) \<noteq> None \<and> slot_key t (probe k j) \<noteq> Some k))"

text \<open>A key found anywhere is found by the lookup, and only there.\<close>

lemma lookup_iff:
  assumes "wf t" and "key_ok k"
  shows "lookup t k = Some p \<longleftrightarrow> p \<in> probe k ` {..< n} \<and> slot_key t p = Some k"
proof
  assume "lookup t k = Some p"
  then show "p \<in> probe k ` {..< n} \<and> slot_key t p = Some k"
    using assms(2) by (auto simp: lookup_stop first_stop_Some split: option.splits if_splits)
next
  assume "p \<in> probe k ` {..< n} \<and> slot_key t p = Some k"
  then obtain i where i: "i < n" "p = probe k i" "slot_key t (probe k i) = Some k" by auto
  have "\<forall>j < i. slot_key t (probe k j) \<noteq> None \<and> slot_key t (probe k j) \<noteq> Some k"
    using assms(1) i unfolding wf_def by blast
  then have "first_stop n (\<lambda>i. slot_key t (probe k i) \<in> {None, Some k}) = Some i"
    using i by (auto simp: first_stop_Some)
  then show "lookup t k = Some p" using i assms(2) by (simp add: lookup_stop)
qed

lemma unique_position:
  assumes "wf t" "slot_key t (probe k i) = Some k" "slot_key t (probe k j) = Some k" "i < n" "j < n"
  shows "i = j"
  using assms unfolding wf_def by (meson nat_neq_iff)

lemma empty_wf: "(\<And>k i. i < n \<Longrightarrow> slot_key t (probe k i) = None) \<Longrightarrow> wf t"
  by (auto simp: wf_def)

lemma insert_wf:
  assumes w: "wf t" and ok: "key_ok k" and ins: "insert u t k = (t', r)"
  shows "wf t'"
proof (cases "first_stop n (\<lambda>i. slot_key t (probe k i) \<in> {None, Some k})")
  case None
  then show ?thesis using insert_none [OF ok None] ins w by simp
next
  case (Some i)
  note s = Some [unfolded first_stop_Some]
  have sk: "slot_key t' = (slot_key t)(probe k i \<mapsto> k)" using insert_stop [OF ok Some, of u] ins by auto
  show ?thesis
    unfolding wf_def
  proof (intro allI impI, elim conjE)
    fix k2 i2
    assume i2: "i2 < n" "slot_key t' (probe k2 i2) = Some k2"
    show "key_ok k2 \<and> (\<forall>j < i2. slot_key t' (probe k2 j) \<noteq> None \<and> slot_key t' (probe k2 j) \<noteq> Some k2)"
    proof (cases "probe k2 i2 = probe k i")
      case True
      then have k2: "k2 = k" using i2 sk by simp
      then have "i2 = i" using True probe_inj s i2 by (auto simp: inj_on_def)
      moreover have "probe k j \<noteq> probe k i" if "j < i" for j
        using that s inj_onD [OF probe_inj, of k j i] by auto
      ultimately show ?thesis using s k2 ok sk by auto
    next
      case False
      then have old: "slot_key t (probe k2 i2) = Some k2" using i2 sk by simp
      with w i2 have b: "key_ok k2" "\<forall>j < i2. slot_key t (probe k2 j) \<noteq> None \<and> slot_key t (probe k2 j) \<noteq> Some k2"
        unfolding wf_def by blast+
      have "k2 \<noteq> k" if "j < i2" "probe k2 j = probe k i" for j
      proof
        assume "k2 = k"
        then have "j = i" using that i2 s inj_onD [OF probe_inj, of k j i] by auto
        then show False using b(2) s that(1) \<open>k2 = k\<close> by auto
      qed
      then show ?thesis using b sk by auto
    qed
  qed
qed

text \<open>The map a table implements: the value at the slot that holds the key.\<close>

definition table_map :: "'t \<Rightarrow> 'k \<rightharpoonup> 'v" where
  "table_map t k = (if key_ok k then map_option (val t) (lookup t k) else None)"

lemma insert_table_map:
  assumes w: "wf t" and ok: "key_ok k" and ins: "insert u t k = (t', Some p)"
  shows "table_map t' = (table_map t)(k \<mapsto> upd u (val t p)) \<and> lookup t' k = Some p \<and>
    (\<forall>v. table_map t k = Some v \<longrightarrow> v = val t p)"
proof -
  obtain i where s: "first_stop n (\<lambda>i. slot_key t (probe k i) \<in> {None, Some k}) = Some i"
    using insert_none [OF ok] ins by (cases "first_stop n (\<lambda>i. slot_key t (probe k i) \<in> {None, Some k})") auto
  note st = s [unfolded first_stop_Some]
  have p: "p = probe k i" and sk: "slot_key t' = (slot_key t)(p \<mapsto> k)" and v: "val t' = (val t)(p := upd u (val t p))"
    using insert_stop [OF ok s, of u] ins by auto
  have w': "wf t'" using w ok ins by (rule insert_wf)
  have pk: "p \<in> probe k ` {..< n}" using p st by simp
  have lk: "lookup t' k = Some p" using pk sk by (simp add: lookup_iff [OF w' ok])
  have other: "table_map t' k2 = table_map t k2" if ne: "k2 \<noteq> k" for k2
  proof (cases "key_ok k2")
    case True
    have "lookup t' k2 = Some q \<longleftrightarrow> lookup t k2 = Some q" for q
    proof (cases "q = p")
      case False
      then show ?thesis using sk by (simp add: lookup_iff [OF w' True] lookup_iff [OF w True])
    next
      case qp: True
      have "slot_key t p \<noteq> Some k2" using st p ne by auto
      then show ?thesis using sk ne qp by (simp add: lookup_iff [OF w' True] lookup_iff [OF w True])
    qed
    then have e: "lookup t' k2 = lookup t k2" by (metis option.exhaust)
    have "lookup t k2 \<noteq> Some p" using st p ne by (auto simp: lookup_iff [OF w True])
    then show ?thesis using e v True by (cases "lookup t k2") (auto simp: table_map_def)
  qed (simp add: table_map_def)
  have "v = val t p" if tv: "table_map t k = Some v" for v
  proof -
    obtain q where q: "lookup t k = Some q" "v = val t q" using tv ok by (auto simp: table_map_def)
    then obtain j where j: "j < n" "q = probe k j" "slot_key t (probe k j) = Some k"
      by (auto simp: lookup_iff [OF w ok])
    have "\<not> i < j" using w j st unfolding wf_def by blast
    moreover have "\<not> j < i" using st j by auto
    ultimately show ?thesis using q p j by simp
  qed
  then show ?thesis using lk other ok v by (auto simp: table_map_def fun_eq_iff)
qed

text \<open>An insertion fails only when the key is absent and no slot is empty.\<close>

lemma insert_fails_iff:
  assumes "key_ok k"
  shows "snd (insert u t k) = None \<longleftrightarrow> (\<forall>p \<in> probe k ` {..< n}. slot_key t p \<notin> {None, Some k})"
proof (cases "first_stop n (\<lambda>i. slot_key t (probe k i) \<in> {None, Some k})")
  case None
  then show ?thesis using insert_none [OF assms None] by (auto simp: first_stop_None)
next
  case (Some i)
  then have "probe k i \<in> probe k ` {..< n}" "slot_key t (probe k i) \<in> {None, Some k}" by (auto simp: first_stop_Some)
  moreover have "snd (insert u t k) \<noteq> None" using insert_stop [OF assms Some, of u] by auto
  ultimately show ?thesis by blast
qed

lemma insert_fail_same: "key_ok k \<Longrightarrow> insert u t k = (t', None) \<Longrightarrow> t' = t"
  using insert_stop [of k t _ u] insert_none [of k t u]
  by (cases "first_stop n (\<lambda>i. slot_key t (probe k i) \<in> {None, Some k})") fastforce+

end

section \<open>Masked probe sequences\<close>

text \<open>Both tables have 64 slots and reduce the running index with \<^verbatim>\<open>& 63\<close>.\<close>

lemma unat_and_63: "unat ((w :: 'a :: len word) AND 63) = unat w mod 64"
proof -
  have "w AND 63 = take_bit 6 w" by (simp add: take_bit_eq_mask mask_eq_exp_minus_1)
  then have "unat (w AND 63) = take_bit 6 (unat w)" by (simp only: unsigned_take_bit_eq)
  then show ?thesis by (simp only: take_bit_eq_mod) simp
qed

lemma card_below_64: "card {w :: u32. unat w < 64} = 64" "finite {w :: u32. unat w < 64}"
proof -
  have "{w :: u32. unat w < 64} = of_nat ` {..< 64 :: nat}"
  proof
    show "{w :: u32. unat w < 64} \<subseteq> of_nat ` {..< 64 :: nat}"
    proof
      fix w :: u32
      assume "w \<in> {w. unat w < 64}"
      then show "w \<in> of_nat ` {..< 64 :: nat}" by (intro image_eqI [of _ _ "unat w"]) simp_all
    qed
    show "of_nat ` {..< 64 :: nat} \<subseteq> {w :: u32. unat w < 64}" by (auto simp: unat_of_nat)
  qed
  then show "card {w :: u32. unat w < 64} = 64" "finite {w :: u32. unat w < 64}"
    by (simp_all add: card_image inj_on_def word_unat_eq_iff unat_of_nat)
qed

lemma cyclic_64:
  fixes g :: "nat \<Rightarrow> u32"
  assumes g: "\<And>i. i < 64 \<Longrightarrow> unat (g i) = (h + i) mod 64"
  shows "inj_on g {..< 64}" and "g ` {..< 64} = {w. unat w < 64}"
proof -
  show inj: "inj_on g {..< 64}"
  proof (rule inj_onI)
    fix a b
    assume "a \<in> {..< 64 :: nat}" "b \<in> {..< 64 :: nat}" "g a = g b"
    then show "a = b" using g [of a] g [of b] mod_add_inj [of h a 64 b] by simp
  qed
  show "g ` {..< 64} = {w. unat w < 64}"
    using inj g card_below_64 by (intro card_subset_eq) (auto simp: card_image)
qed

lemma unat_probe_64:
  assumes "i < 64"
  shows "unat (((h :: u32) AND 63) + of_nat i AND 63) = (unat h + i) mod 64"
proof -
  have "unat ((h AND 63) + of_nat i) = unat h mod 64 + i"
    using assms by (intro unat_add_small_iff) (simp_all add: unat_and_63 unat_of_nat)
  then show ?thesis by (simp add: unat_and_63 mod_add_left_eq)
qed

end
