(* ===== verification/Byte_Order.thy ===== *)
theory Byte_Order
  imports Prelude
begin

unbundle bit_operations_syntax

text \<open>
  Big-endian integers of the packet headers (\<^verbatim>\<open>lib/utils/include/utils.h\<close>): a
  \<^verbatim>\<open>beui16_t\<close>/\<^verbatim>\<open>beui32_t\<close>/\<^verbatim>\<open>beui64_t\<close> holds the byte-swapped value of the host integer.
\<close>

definition bswap16 :: "u16 \<Rightarrow> u16" where
  "bswap16 w = push_bit 8 w OR drop_bit 8 w"

definition bswap32 :: "u32 \<Rightarrow> u32" where
  "bswap32 w = push_bit 24 w OR (push_bit 8 w AND 0x00ff0000) OR (drop_bit 8 w AND 0x0000ff00) OR drop_bit 24 w"

definition bswap64 :: "u64 \<Rightarrow> u64" where
  "bswap64 w = push_bit 32 (ucast (bswap32 (ucast w))) OR ucast (bswap32 (ucast (drop_bit 32 w)))"

definition f_beui16 :: "u16 \<Rightarrow> u16" where "f_beui16 x = bswap16 x"
definition f_beui32 :: "u32 \<Rightarrow> u32" where "f_beui32 x = bswap32 x"
definition f_beui64 :: "u64 \<Rightarrow> u64" where "f_beui64 x = bswap64 x"
definition t_beui16 :: "u16 \<Rightarrow> u16" where "t_beui16 x = bswap16 x"
definition t_beui32 :: "u32 \<Rightarrow> u32" where "t_beui32 x = bswap32 x"
definition t_beui64 :: "u64 \<Rightarrow> u64" where "t_beui64 x = bswap64 x"

lemma bswap16_bswap16 [simp]: "bswap16 (bswap16 w) = w"
  by (rule bit_word_eqI) (auto simp: bswap16_def bit_simps)

lemma bit_ff0000: "bit (0x00ff0000 :: u32) n \<longleftrightarrow> 16 \<le> n \<and> n < 24"
proof -
  have e: "(0x00ff0000 :: u32) = push_bit 16 (mask 8)" by (simp add: mask_eq_exp_minus_1 push_bit_eq_mult)
  show ?thesis unfolding e by (auto simp: bit_push_bit_iff bit_mask_iff)
qed

lemma bit_ff00: "bit (0x0000ff00 :: u32) n \<longleftrightarrow> 8 \<le> n \<and> n < 16"
proof -
  have e: "(0x0000ff00 :: u32) = push_bit 8 (mask 8)" by (simp add: mask_eq_exp_minus_1 push_bit_eq_mult)
  show ?thesis unfolding e by (auto simp: bit_push_bit_iff bit_mask_iff)
qed

lemma bit_bswap32:
  "bit (bswap32 w) n \<longleftrightarrow> n < 32 \<and> bit w (8 * (3 - n div 8) + n mod 8)"
proof (cases "n < 32")
  case True
  then consider "n < 8" | "8 \<le> n" "n < 16" | "16 \<le> n" "n < 24" | "24 \<le> n" "n < 32" by linarith
  then show ?thesis
  proof cases
    case 1
    then have "8 * (3 - n div 8) + n mod 8 = 24 + n" by simp
    with 1 show ?thesis using bit_ff00 [of n] bit_ff0000 [of n] by (auto simp: bswap32_def bit_simps dest: bit_imp_le_length)
  next
    case 2
    then have "n div 8 = 1" by linarith
    then have "8 * (3 - n div 8) + n mod 8 = 8 + n" using mult_div_mod_eq [of 8 n] by simp
    with 2 show ?thesis using bit_ff00 [of n] bit_ff0000 [of n] by (auto simp: bswap32_def bit_simps dest: bit_imp_le_length)
  next
    case 3
    then have "n div 8 = 2" by linarith
    then have "8 * (3 - n div 8) + n mod 8 = n - 8" using mult_div_mod_eq [of 8 n] by simp
    with 3 show ?thesis using bit_ff00 [of n] bit_ff0000 [of n] by (auto simp: bswap32_def bit_simps dest: bit_imp_le_length)
  next
    case 4
    then have "n div 8 = 3" by linarith
    then have "8 * (3 - n div 8) + n mod 8 = n - 24" using mult_div_mod_eq [of 8 n] by simp
    with 4 show ?thesis using bit_ff00 [of n] bit_ff0000 [of n] by (auto simp: bswap32_def bit_simps dest: bit_imp_le_length)
  qed
next
  case False
  then show ?thesis using bit_imp_le_length [of "bswap32 w" n] by auto
qed

lemma bswap32_bswap32 [simp]: "bswap32 (bswap32 w) = w"
proof (rule bit_word_eqI)
  fix n
  assume "n < LENGTH(32)"
  then have n: "n div 8 \<le> 3" "n < 32" by simp_all
  define m where "m = 8 * (3 - n div 8) + n mod 8"
  have m: "m < 32" "m div 8 = 3 - n div 8" "m mod 8 = n mod 8" using n(1) by (simp_all add: m_def)
  have "8 * (3 - m div 8) + m mod 8 = n" using m n by simp
  then show "bit (bswap32 (bswap32 w)) n = bit w n"
    using bit_bswap32 [of "bswap32 w" n] bit_bswap32 [of w m] m n by (simp add: m_def)
qed

lemma beui_roundtrip [simp]:
  "f_beui16 (t_beui16 h) = h" "t_beui16 (f_beui16 h) = h"
  "f_beui32 (t_beui32 w) = w" "t_beui32 (f_beui32 w) = w"
  by (simp_all add: f_beui16_def t_beui16_def f_beui32_def t_beui32_def)

lemma bswap64_bswap64 [simp]: "bswap64 (bswap64 w) = w"
proof -
  have lo: "ucast (bswap64 x) = bswap32 (ucast (drop_bit 32 x))" for x :: u64
    by (rule bit_word_eqI) (auto simp: bswap64_def bit_simps)
  have hi: "(ucast (drop_bit 32 (bswap64 x)) :: u32) = bswap32 (ucast x)" for x :: u64
    by (rule bit_word_eqI) (auto simp: bswap64_def bit_simps dest: bit_imp_le_length)
  have "bswap64 (bswap64 w) = push_bit 32 (ucast (ucast (drop_bit 32 w) :: u32)) OR ucast (ucast w :: u32)"
    unfolding bswap64_def [of "bswap64 w"] lo hi by simp
  also have "\<dots> = w"
    by (rule bit_word_eqI) (auto simp: bit_simps)
  finally show ?thesis .
qed

lemma beui64_roundtrip [simp]: "f_beui64 (t_beui64 w) = w" "t_beui64 (f_beui64 w) = w"
  by (simp_all add: f_beui64_def t_beui64_def)

end
