(* ===== verification/Queue_Msgs.thy ===== *)
theory Queue_Msgs
  imports Ring_Queue Byte_Order
begin

text \<open>
  The messages that the control path, the fast path and the guests exchange over the queues
  (\<^verbatim>\<open>lib/utils/queue/include/queue_types.h\<close>): one record per message structure, the union of
  \<^verbatim>\<open>struct queue_entry\<close> as a datatype with a constructor per member, and the message types. An ARP
  packet is written over the payload of a slot as well, so it is a constructor too.
\<close>

section \<open>Message types\<close>

text \<open>The constants of \<^verbatim>\<open>enum queue_type\<close>; \<^verbatim>\<open>QUEUE_EMPTY\<close> is declared with the queues.\<close>

abbreviation QUEUE_NEW_GUEST_REQ :: u8 where "QUEUE_NEW_GUEST_REQ \<equiv> 1"
abbreviation QUEUE_NEW_PROTO_REQ :: u8 where "QUEUE_NEW_PROTO_REQ \<equiv> 2"
abbreviation QUEUE_NEW_PROTO_RES :: u8 where "QUEUE_NEW_PROTO_RES \<equiv> 3"
abbreviation QUEUE_NEW_QUEUE_REQ :: u8 where "QUEUE_NEW_QUEUE_REQ \<equiv> 4"
abbreviation QUEUE_NEW_QUEUE_RES :: u8 where "QUEUE_NEW_QUEUE_RES \<equiv> 5"
abbreviation QUEUE_NEW_MAP_REQ :: u8 where "QUEUE_NEW_MAP_REQ \<equiv> 6"
abbreviation QUEUE_NEW_MAP_RES :: u8 where "QUEUE_NEW_MAP_RES \<equiv> 7"
abbreviation QUEUE_ENABLEQ_REQ :: u8 where "QUEUE_ENABLEQ_REQ \<equiv> 8"
abbreviation QUEUE_DISABLEQ_REQ :: u8 where "QUEUE_DISABLEQ_REQ \<equiv> 9"
abbreviation QUEUE_ALLOCATE_EBPF_REQ :: u8 where "QUEUE_ALLOCATE_EBPF_REQ \<equiv> 10"
abbreviation QUEUE_ALLOCATE_EBPF_RES :: u8 where "QUEUE_ALLOCATE_EBPF_RES \<equiv> 11"
abbreviation QUEUE_UPLOAD_EBPF_REQ :: u8 where "QUEUE_UPLOAD_EBPF_REQ \<equiv> 12"
abbreviation QUEUE_UPLOAD_EBPF_RES :: u8 where "QUEUE_UPLOAD_EBPF_RES \<equiv> 13"
abbreviation QUEUE_FREE_EBPF_REQ :: u8 where "QUEUE_FREE_EBPF_REQ \<equiv> 14"
abbreviation QUEUE_FREE_EBPF_RES :: u8 where "QUEUE_FREE_EBPF_RES \<equiv> 15"
abbreviation QUEUE_ARP_LOOKUP :: u8 where "QUEUE_ARP_LOOKUP \<equiv> 16"
abbreviation QUEUE_ARP_UPDATE :: u8 where "QUEUE_ARP_UPDATE \<equiv> 17"
abbreviation QUEUE_ARP_RX_REQ :: u8 where "QUEUE_ARP_RX_REQ \<equiv> 18"
abbreviation QUEUE_ARP_RX_REP :: u8 where "QUEUE_ARP_RX_REP \<equiv> 19"
abbreviation QUEUE_ARP_TX_PKT :: u8 where "QUEUE_ARP_TX_PKT \<equiv> 20"
abbreviation QUEUE_ARP_PKT :: u8 where "QUEUE_ARP_PKT \<equiv> 21"
abbreviation QUEUE_MBUF_PENDING :: u8 where "QUEUE_MBUF_PENDING \<equiv> 22"
abbreviation QUEUE_MBUF_TX :: u8 where "QUEUE_MBUF_TX \<equiv> 23"

section \<open>Message payloads\<close>

record queue_new_guest_req =
  ng_id :: u8
  ng_budget :: ptr
  ng_shm_base :: ptr
  ng_shm_len :: u64
  ng_gre_key :: u32
  ng_guest_ip :: u32

record queue_new_proto_req =
  npq_proto_type :: u8

record queue_new_proto_res =
  npr_success :: u8
  npr_n_fp_cores :: u32
  npr_local_ip :: u32
  npr_shm_len :: u64

record queue_new_queue_req =
  nqq_gid :: u8
  nqq_proto_type :: u8
  nqq_qid :: u32
  nqq_nelems :: u32
  nqq_elsize :: csize
  nqq_off :: u64
  nqq_opaque :: u64

record queue_new_queue_res =
  nqr_qid :: u32
  nqr_nelems :: u32
  nqr_elsize :: csize
  nqr_off :: u64
  nqr_opaque :: u64

record queue_new_map_req =
  nmq_gid :: u8
  nmq_proto_type :: u8
  nmq_mid :: u32
  nmq_nelems :: u32
  nmq_elsize :: u32
  nmq_off :: u64
  nmq_opaque :: u64

record queue_new_map_res =
  nmr_id :: u16
  nmr_off :: u64
  nmr_nelems :: u32
  nmr_elsize :: u32
  nmr_opaque :: u64

record queue_enableq_req =
  enq_qid :: u16
  enq_gid :: u16
  enq_proto_type :: u8
  enq_off :: u64
  enq_nelems :: u32
  enq_elsize :: u32
  enq_core :: u16

record queue_disableq_req =
  dis_qid :: u16
  dis_gid :: u16
  dis_core :: u16

record queue_allocate_ebpf_req =
  aeq_size :: u32
  aeq_opaque :: u64

record queue_allocate_ebpf_res =
  aer_size :: u32
  aer_off :: u64
  aer_opaque :: u64

record queue_up_ebpf_req =
  ueq_gid :: u16
  ueq_size :: u32
  ueq_off :: u64
  ueq_event_rx_vm :: ptr
  ueq_event_sched_vm :: ptr
  ueq_event_deq_vm :: ptr
  ueq_agg_rx_fn :: ptr
  ueq_agg_deq_fn :: ptr
  ueq_agg_sched_fn :: ptr

record queue_free_ebpf_req =
  feq_gid :: u16
  feq_size :: u32
  feq_off :: u64

record queue_up_ebpf_res =
  uer_success :: int

record queue_free_ebpf_res =
  fer_success :: int

record queue_arp_lookup =
  alk_ip :: u32

record queue_arp_update =
  aup_ip :: u32
  aup_mac :: "u8 list"

record queue_arp_rx_req =
  arq_spa :: u32
  arq_tpa :: u32
  arq_sha :: u64

record queue_arp_rx_rep =
  arr_spa :: u32
  arr_sha :: u64
  arr_tpa :: u32
  arr_tha :: u64

record queue_arp_tx_req =
  atx_ip :: u32

record queue_mbuf_pending =
  mbp_ip :: u32
  mbp_gid :: u8
  mbp_pkt_len :: csize
  mbp_mb :: ptr

record queue_mbuf_tx =
  mbt_gid :: u8
  mbt_pkt_len :: csize
  mbt_mb :: ptr

section \<open>ARP packets\<close>

type_synonym mac = "u8 list"

record arp_pkt =
  eth_dst :: mac
  eth_src :: mac
  eth_type :: u16
  arp_htype :: u16
  arp_ptype :: u16
  arp_hlen :: u8
  arp_plen :: u8
  arp_oper :: u16
  arp_sha :: mac
  arp_spa :: u32
  arp_tha :: mac
  arp_tpa :: u32

abbreviation ETH_TYPE_ARP :: u16 where "ETH_TYPE_ARP \<equiv> 0x0806"
abbreviation ARP_OPER_REQUEST :: u16 where "ARP_OPER_REQUEST \<equiv> 1"
abbreviation ARP_OPER_REPLY :: u16 where "ARP_OPER_REPLY \<equiv> 2"
abbreviation ARP_HTYPE_ETHERNET :: u16 where "ARP_HTYPE_ETHERNET \<equiv> 1"
abbreviation ARP_PTYPE_IPV4 :: u16 where "ARP_PTYPE_IPV4 \<equiv> 0x0800"

section \<open>The union of a queue entry\<close>

datatype qdata =
    D_raw
  | D_new_guest_req queue_new_guest_req
  | D_new_proto_req queue_new_proto_req
  | D_new_proto_res queue_new_proto_res
  | D_new_queue_req queue_new_queue_req
  | D_new_queue_res queue_new_queue_res
  | D_new_map_req queue_new_map_req
  | D_new_map_res queue_new_map_res
  | D_enableq_req queue_enableq_req
  | D_disableq_req queue_disableq_req
  | D_alloc_ebpf_req queue_allocate_ebpf_req
  | D_alloc_ebpf_res queue_allocate_ebpf_res
  | D_up_ebpf_req queue_up_ebpf_req
  | D_up_ebpf_res queue_up_ebpf_res
  | D_free_ebpf_req queue_free_ebpf_req
  | D_free_ebpf_res queue_free_ebpf_res
  | D_arp_lookup queue_arp_lookup
  | D_arp_pkt_rx_req queue_arp_rx_req
  | D_arp_pkt_rx_rep queue_arp_rx_rep
  | D_arp_pkt_tx_req queue_arp_tx_req
  | D_arp_update queue_arp_update
  | D_mbuf_pending queue_mbuf_pending
  | D_mbuf_tx queue_mbuf_tx
  | D_arp_pkt arp_pkt

type_synonym cqueue = "equeue \<times> qdata ring"

text \<open>A queue or buffer granted to a protocol (\<^verbatim>\<open>struct proto_queue_lib\<close>).\<close>

record proto_queue_lib =
  pq_id :: u16
  pq_nelems :: u32
  pq_elsize :: u32
  pq_off :: u64

text \<open>
  The way every sender uses a queue: take the tail slot, write the payload, enqueue. The result
  tells whether \<^verbatim>\<open>queue_tail\<close> found a free slot and \<^verbatim>\<open>queue_enqueue\<close> accepted the message.
\<close>

definition queue_put :: "equeue \<times> 'd ring \<Rightarrow> 'd \<Rightarrow> u8 \<Rightarrow> int \<times> equeue \<times> 'd ring" where
  "queue_put c d ty =
     (case queue_tail (fst c) (snd c) of None \<Rightarrow> (-1, c)
      | Some p \<Rightarrow> (case queue_enqueue (fst c) ((snd c)(p := (snd c p)\<lparr>qs_data := d\<rparr>)) ty of (r, q, m) \<Rightarrow> (r, (q, m))))"

lemma queue_put_cases:
  fixes d :: 'd
  shows "queue_put c d ty = (if qs_type (snd c (eq_tail (fst c))) \<noteq> QUEUE_EMPTY then (-1, c)
     else (0, ((fst c)\<lparr>eq_tail := ring_advance (eq_elsize (fst c)) (eq_nelems (fst c)) (eq_tail (fst c))\<rparr>,
              (snd c)(eq_tail (fst c) := \<lparr>qs_type = ty, qs_data = d\<rparr>))))"
proof -
  have "x\<lparr>qs_data := d, qs_type := ty\<rparr> = \<lparr>qs_type = ty, qs_data = d\<rparr>" for x :: "'d qslot"
    by (cases x) simp
  then show ?thesis by (simp only: queue_put_def queue_tail_def queue_enqueue_def Let_def fun_upd_same fun_upd_upd
        qslot.simps split: if_splits option.splits) auto
qed

section \<open>Using a queue from its two sides\<close>

text \<open>
  What a sender and a receiver see of a well-formed queue, in the form in which the components hold
  it: the sender has the enqueueing view and the ring, the receiver the dequeueing view.
\<close>

lemma queue_put_send:
  "spsc_send s \<lparr>qs_type = ty, qs_data = d\<rparr> =
     (case queue_put (sp_eq s, sp_mem s) d ty of (r, q, m) \<Rightarrow> if r \<noteq> 0 then None else Some (s\<lparr>sp_eq := q, sp_mem := m\<rparr>))"
  by (simp add: spsc_send_def queue_put_def split: option.split prod.split)

lemma queue_put_room:
  assumes "spsc_wf s" "ty \<noteq> QUEUE_EMPTY" "length (spsc_contents s) < spsc_cap s"
  shows "\<exists>q m. queue_put (sp_eq s, sp_mem s) d ty = (0, q, m) \<and> spsc_wf (s\<lparr>sp_eq := q, sp_mem := m\<rparr>) \<and>
    spsc_contents (s\<lparr>sp_eq := q, sp_mem := m\<rparr>) = spsc_contents s @ [\<lparr>qs_type = ty, qs_data = d\<rparr>] \<and>
    spsc_cap (s\<lparr>sp_eq := q, sp_mem := m\<rparr>) = spsc_cap s"
proof -
  obtain s' where s': "spsc_send s \<lparr>qs_type = ty, qs_data = d\<rparr> = Some s'" "spsc_wf s'"
    "spsc_contents s' = spsc_contents s @ [\<lparr>qs_type = ty, qs_data = d\<rparr>]" "spsc_cap s' = spsc_cap s"
    using spscq.enq_room [OF assms(1) _ assms(3)] assms(2) by (metis qslot.select_convs(1))
  then obtain q m where "queue_put (sp_eq s, sp_mem s) d ty = (0, q, m)" "s' = s\<lparr>sp_eq := q, sp_mem := m\<rparr>"
    unfolding queue_put_send by (auto split: prod.splits if_splits)
  then show ?thesis using s' by blast
qed

lemma queue_tail_usable:
  assumes "spsc_wf s" "queue_tail (sp_eq s) (sp_mem s) \<noteq> None"
  shows "length (spsc_contents s) < spsc_cap s"
proof (rule ccontr)
  assume "\<not> ?thesis"
  then have "length (spsc_contents s) = spsc_cap s" using spscq.within_cap [OF assms(1)] by simp
  then have "spsc_send s \<lparr>qs_type = 1, qs_data = undefined\<rparr> = None" by (rule spscq.enq_full [OF assms(1)])
  then show False using assms(2)
    by (auto simp: spsc_send_def queue_tail_def queue_enqueue_def Let_def split: if_splits)
qed

lemma queue_tail_full:
  assumes "spsc_wf s" "length (spsc_contents s) < spsc_cap s"
  shows "queue_tail (sp_eq s) (sp_mem s) \<noteq> None"
  using queue_put_room [OF assms(1) _ assms(2), of 1 undefined] by (auto simp: queue_put_def split: option.splits)

lemma queue_take_empty: "spsc_wf s \<Longrightarrow> spsc_contents s = [] \<Longrightarrow> queue_head (sp_dq s) (sp_mem s) = None"
  using spscq.deq_empty [of s]
  by (auto simp: spsc_recv_def queue_head_def queue_dequeue_def Let_def split: option.splits if_splits prod.splits)

lemma queue_take_first:
  assumes "spsc_wf s" "spsc_contents s = x # xs"
  shows "\<exists>p q m. queue_head (sp_dq s) (sp_mem s) = Some p \<and> sp_mem s p = x \<and> queue_dequeue (sp_dq s) (sp_mem s) = (0, q, m) \<and>
    spsc_recv s = Some (x, s\<lparr>sp_dq := q, sp_mem := m\<rparr>) \<and>
    spsc_wf (s\<lparr>sp_dq := q, sp_mem := m\<rparr>) \<and> spsc_contents (s\<lparr>sp_dq := q, sp_mem := m\<rparr>) = xs \<and>
    spsc_cap (s\<lparr>sp_dq := q, sp_mem := m\<rparr>) = spsc_cap s"
proof -
  obtain s' where s': "spsc_recv s = Some (x, s')" "spsc_wf s'" "spsc_contents s' = xs" "spsc_cap s' = spsc_cap s"
    using spscq.deq_some [OF assms] by blast
  then show ?thesis unfolding spsc_recv_def
    by (auto split: option.splits prod.splits if_splits)
qed

lemma spsc_wf_nelems: "spsc_wf s \<Longrightarrow> length (spsc_contents s) \<le> unat (dq_nelems (sp_dq s))"
  using spscq.within_cap [of s] by (auto simp: spsc_cap_def spsc_wf_def spsc_inv_def)

end
