(* ===== verification/Arp.thy ===== *)
theory Arp
  imports Probe_Table Queue_Msgs
begin

unbundle bit_operations_syntax

text \<open>
  The ARP table and the buffer of packets waiting for a resolution (\<^verbatim>\<open>chamelio/arp/arp.c\<close>). The
  table is a linear-probing hash table and is shown to implement a map from addresses to
  bindings; the buffer releases exactly the packets of a resolved address.
\<close>

section \<open>The table\<close>

abbreviation ARP_TABLE_SIZE :: nat where "ARP_TABLE_SIZE \<equiv> 64"
abbreviation ARP_TABLE_MASK :: u32 where "ARP_TABLE_MASK \<equiv> 63"
abbreviation ARP_IP_EMPTY :: u32 where "ARP_IP_EMPTY \<equiv> 0"
abbreviation ARP_BUF_SIZE :: nat where "ARP_BUF_SIZE \<equiv> 32"
abbreviation ETH_ADDR_LEN :: nat where "ETH_ADDR_LEN \<equiv> 6"

text \<open>\<^verbatim>\<open>te\<close> points into the timeout manager; a pointer there is an entry index.\<close>

record arp_table_entry =
  ae_ip :: u32
  ae_pending :: u8
  ae_mac :: mac
  ae_te :: "nat option"

record arp_table =
  buckets :: "u32 \<Rightarrow> arp_table_entry"

definition arp_table_init :: "arp_table \<Rightarrow> arp_table" where
  "arp_table_init a = a\<lparr>buckets := \<lambda>i. if unat i < ARP_TABLE_SIZE
     then (buckets a i)\<lparr>ae_ip := ARP_IP_EMPTY, ae_pending := 0\<rparr> else buckets a i\<rparr>"

definition hash_ip :: "u32 \<Rightarrow> u32" where
  "hash_ip ip = ip AND ARP_TABLE_MASK"

definition arp_idx :: "u32 \<Rightarrow> nat \<Rightarrow> u32" where
  "arp_idx ip i = hash_ip ip + of_nat i AND ARP_TABLE_MASK"

function arp_lookup_loop :: "arp_table \<Rightarrow> u32 \<Rightarrow> nat \<Rightarrow> u32 option" where
  "arp_lookup_loop a ip i =
     (if i < ARP_TABLE_SIZE then
        (let idx = arp_idx ip i in
         if ae_ip (buckets a idx) = ip then Some idx
         else if ae_ip (buckets a idx) = ARP_IP_EMPTY then None
         else arp_lookup_loop a ip (i + 1))
      else None)"
  by auto
termination by (relation "measure (\<lambda>(a, ip, i). ARP_TABLE_SIZE - i)") auto

definition arp_lookup :: "arp_table \<Rightarrow> u32 \<Rightarrow> u32 option" where
  "arp_lookup a ip = arp_lookup_loop a ip 0"

text \<open>
  The loop the two insertions share: the first bucket that is empty or already holds the address.
\<close>

function arp_insert_loop :: "arp_table \<Rightarrow> u32 \<Rightarrow> nat \<Rightarrow> u32 option" where
  "arp_insert_loop a ip i =
     (if i < ARP_TABLE_SIZE then
        (let idx = arp_idx ip i in
         if ae_ip (buckets a idx) = ARP_IP_EMPTY \<or> ae_ip (buckets a idx) = ip then Some idx
         else arp_insert_loop a ip (i + 1))
      else None)"
  by auto
termination by (relation "measure (\<lambda>(a, ip, i). ARP_TABLE_SIZE - i)") auto

declare arp_lookup_loop.simps [simp del] arp_insert_loop.simps [simp del]

definition set_bucket :: "arp_table \<Rightarrow> u32 \<Rightarrow> arp_table_entry \<Rightarrow> arp_table" where
  "set_bucket a idx e = a\<lparr>buckets := (buckets a)(idx := e)\<rparr>"

definition arp_insert :: "arp_table \<Rightarrow> u32 \<Rightarrow> mac \<Rightarrow> arp_table \<times> u32 option" where
  "arp_insert a ip m =
     (case arp_insert_loop a ip 0 of None \<Rightarrow> (a, None)
      | Some idx \<Rightarrow> (set_bucket a idx ((buckets a idx)\<lparr>ae_ip := ip, ae_pending := 0, ae_mac := take ETH_ADDR_LEN m\<rparr>), Some idx))"

definition arp_insert_pending :: "arp_table \<Rightarrow> u32 \<Rightarrow> arp_table \<times> u32 option" where
  "arp_insert_pending a ip =
     (case arp_insert_loop a ip 0 of None \<Rightarrow> (a, None)
      | Some idx \<Rightarrow> (set_bucket a idx ((buckets a idx)\<lparr>ae_ip := ip, ae_pending := 1\<rparr>), Some idx))"

section \<open>The buffer of waiting packets\<close>

record arp_buf_entry =
  be_ip :: u32
  be_core :: u16
  be_gid :: u8
  be_pkt_len :: csize
  be_mb :: ptr

record arp_buf =
  ab_n :: int
  ab_entries :: "arp_buf_entry list"

text \<open>The buffer is an array of 32 entries; \<open>b\<close> is the memory it is initialised in.\<close>

definition arp_buf_init :: "arp_buf \<Rightarrow> arp_buf" where
  "arp_buf_init b = b\<lparr>ab_n := 0, ab_entries := map (\<lambda>e. e\<lparr>be_ip := ARP_IP_EMPTY, be_mb := 0\<rparr>) (ab_entries b)\<rparr>"

fun buf_insert_loop :: "arp_buf_entry \<Rightarrow> arp_buf_entry list \<Rightarrow> arp_buf_entry list option" where
  "buf_insert_loop x [] = None"
| "buf_insert_loop x (e # es) =
     (if be_ip e = ARP_IP_EMPTY then Some (x # es) else map_option (Cons e) (buf_insert_loop x es))"

definition arp_buf_insert :: "arp_buf \<Rightarrow> u32 \<Rightarrow> u16 \<Rightarrow> u8 \<Rightarrow> csize \<Rightarrow> ptr \<Rightarrow> int \<times> arp_buf" where
  "arp_buf_insert b ip core gid pkt_len mb =
     (case buf_insert_loop \<lparr>be_ip = ip, be_core = core, be_gid = gid, be_pkt_len = pkt_len, be_mb = mb\<rparr> (ab_entries b) of
        None \<Rightarrow> (-1, b) | Some es \<Rightarrow> (0, b\<lparr>ab_entries := es\<rparr>))"

text \<open>
  The flush loop: the queues are indexed by core; the loop stops with -1 at the first full queue,
  with the entries before that point already handed over.
\<close>

definition mbuf_tx_of :: "arp_buf_entry \<Rightarrow> queue_mbuf_tx" where
  "mbuf_tx_of e = \<lparr>mbt_gid = be_gid e, mbt_pkt_len = be_pkt_len e, mbt_mb = be_mb e\<rparr>"

fun buf_flush_loop :: "u32 \<Rightarrow> bool \<Rightarrow> arp_buf_entry list \<Rightarrow> (nat \<Rightarrow> cqueue) \<Rightarrow> int \<times> arp_buf_entry list \<times> (nat \<Rightarrow> cqueue)" where
  "buf_flush_loop ip flushed [] qs = (if flushed then 0 else -1, [], qs)"
| "buf_flush_loop ip flushed (e # es) qs =
     (if be_ip e = ip then
        (case queue_put (qs (unat (be_core e))) (D_mbuf_tx (mbuf_tx_of e)) QUEUE_MBUF_TX of (r, q) \<Rightarrow>
           if r < 0 then (-1, e # es, qs)
           else case buf_flush_loop ip True es (qs(unat (be_core e) := q)) of
                  (r', es', qs') \<Rightarrow> (r', e\<lparr>be_mb := 0, be_ip := ARP_IP_EMPTY\<rparr> # es', qs'))
      else case buf_flush_loop ip flushed es qs of (r', es', qs') \<Rightarrow> (r', e # es', qs'))"

definition arp_buf_flush :: "arp_buf \<Rightarrow> u32 \<Rightarrow> (nat \<Rightarrow> cqueue) \<Rightarrow> int \<times> arp_buf \<times> (nat \<Rightarrow> cqueue)" where
  "arp_buf_flush b ip eqs =
     (case buf_flush_loop ip False (ab_entries b) eqs of (r, es, qs) \<Rightarrow> (r, b\<lparr>ab_entries := es\<rparr>, qs))"

section \<open>Sending requests and replies\<close>

definition arp_pkt_of :: "mac \<Rightarrow> mac \<Rightarrow> u32 \<Rightarrow> u32 \<Rightarrow> u16 \<Rightarrow> arp_pkt" where
  "arp_pkt_of src dst spa tpa oper =
     \<lparr>eth_dst = dst, eth_src = src, eth_type = t_beui16 ETH_TYPE_ARP,
      arp_htype = t_beui16 ARP_HTYPE_ETHERNET, arp_ptype = t_beui16 ARP_PTYPE_IPV4, arp_hlen = 6, arp_plen = 4,
      arp_oper = t_beui16 oper, arp_sha = src, arp_spa = t_beui32 spa, arp_tha = dst, arp_tpa = t_beui32 tpa\<rparr>"

text \<open>
  Both operations put the packet in the control transmit queue and then notify the fast path with
  a \<^verbatim>\<open>QUEUE_ARP_TX_PKT\<close> message that has no payload, enqueued without writing to the slot. The
  packet stays queued when the notification fails.
\<close>

definition arp_send :: "cqueue \<Rightarrow> cqueue \<Rightarrow> arp_pkt \<Rightarrow> int \<times> cqueue \<times> cqueue" where
  "arp_send txq cfq pkt =
     (case queue_put txq (D_arp_pkt pkt) QUEUE_ARP_PKT of (r, txq') \<Rightarrow>
        if r \<noteq> 0 then (-1, txq', cfq)
        else case queue_enqueue (fst cfq) (snd cfq) QUEUE_ARP_TX_PKT of (r2, q, m) \<Rightarrow>
               if r2 \<noteq> 0 then (-1, txq', (q, m)) else (0, txq', (q, m)))"

definition arp_request :: "cqueue \<Rightarrow> cqueue \<Rightarrow> u32 \<Rightarrow> mac \<Rightarrow> u32 \<Rightarrow> int \<times> cqueue \<times> cqueue" where
  "arp_request txq cfq remote_ip local_mac local_ip =
     arp_send txq cfq (arp_pkt_of (take ETH_ADDR_LEN local_mac) (replicate ETH_ADDR_LEN 0xff) local_ip remote_ip ARP_OPER_REQUEST)"

definition arp_reply :: "cqueue \<Rightarrow> cqueue \<Rightarrow> mac \<Rightarrow> u32 \<Rightarrow> mac \<Rightarrow> u32 \<Rightarrow> int \<times> cqueue \<times> cqueue" where
  "arp_reply txq cfq local_mac local_ip remote_mac remote_ip =
     arp_send txq cfq (arp_pkt_of (take ETH_ADDR_LEN local_mac) (take ETH_ADDR_LEN remote_mac) local_ip remote_ip ARP_OPER_REPLY)"

section \<open>The table implements a map\<close>

definition arp_slot_key :: "arp_table \<Rightarrow> u32 \<Rightarrow> u32 option" where
  "arp_slot_key a p = (if ae_ip (buckets a p) = ARP_IP_EMPTY then None else Some (ae_ip (buckets a p)))"

text \<open>The binding stored at a bucket: the pending flag and the hardware address.\<close>

definition arp_val :: "arp_table \<Rightarrow> u32 \<Rightarrow> u8 \<times> mac" where
  "arp_val a p = (ae_pending (buckets a p), ae_mac (buckets a p))"

definition arp_put :: "mac option \<Rightarrow> arp_table \<Rightarrow> u32 \<Rightarrow> arp_table \<times> u32 option" where
  "arp_put m a ip = (case m of None \<Rightarrow> arp_insert_pending a ip | Some m \<Rightarrow> arp_insert a ip m)"

definition arp_upd :: "mac option \<Rightarrow> u8 \<times> mac \<Rightarrow> u8 \<times> mac" where
  "arp_upd m v = (case m of None \<Rightarrow> (1, snd v) | Some m \<Rightarrow> (0, take ETH_ADDR_LEN m))"

lemma arp_idx_all: "arp_idx k ` {..< ARP_TABLE_SIZE} = {w. unat w < ARP_TABLE_SIZE}"
  by (rule cyclic_64(2) [of _ "unat k"]) (simp add: arp_idx_def hash_ip_def unat_probe_64)

lemma arp_lookup_stop:
  assumes "ip \<noteq> ARP_IP_EMPTY"
  shows "arp_lookup a ip =
    (case first_stop ARP_TABLE_SIZE (\<lambda>i. arp_slot_key a (arp_idx ip i) \<in> {None, Some ip}) of None \<Rightarrow> None
     | Some i \<Rightarrow> if arp_slot_key a (arp_idx ip i) = Some ip then Some (arp_idx ip i) else None)"
  unfolding arp_lookup_def
  by (rule stop_loop, subst arp_lookup_loop.simps) (use assms in \<open>auto simp: arp_slot_key_def Let_def\<close>)

lemma arp_insert_loop_stop:
  assumes "ip \<noteq> ARP_IP_EMPTY"
  shows "arp_insert_loop a ip 0 =
    (case first_stop ARP_TABLE_SIZE (\<lambda>i. arp_slot_key a (arp_idx ip i) \<in> {None, Some ip}) of None \<Rightarrow> None
     | Some i \<Rightarrow> Some (arp_idx ip i))"
  by (rule stop_loop, subst arp_insert_loop.simps) (use assms in \<open>auto simp: arp_slot_key_def Let_def\<close>)

interpretation arpt: probe_table ARP_TABLE_SIZE arp_idx "\<lambda>ip. ip \<noteq> ARP_IP_EMPTY" arp_slot_key arp_val arp_lookup arp_put arp_upd
proof unfold_locales
  show "inj_on (arp_idx k) {..< ARP_TABLE_SIZE}" for k
    by (rule cyclic_64(1) [of _ "unat k"]) (simp add: arp_idx_def hash_ip_def unat_probe_64)
  show "arp_idx k ` {..< ARP_TABLE_SIZE} = arp_idx k' ` {..< ARP_TABLE_SIZE}" for k k'
    by (simp only: arp_idx_all)
next
  fix k t i u
  let ?s = "first_stop ARP_TABLE_SIZE (\<lambda>i. arp_slot_key t (arp_idx k i) \<in> {None, Some k})"
  assume k: "k \<noteq> ARP_IP_EMPTY"
  show "arp_lookup t k = (case ?s of None \<Rightarrow> None
     | Some i \<Rightarrow> if arp_slot_key t (arp_idx k i) = Some k then Some (arp_idx k i) else None)"
    using k by (rule arp_lookup_stop)
  {
    assume "?s = Some i"
    then have l: "arp_insert_loop t k 0 = Some (arp_idx k i)" using arp_insert_loop_stop [OF k] by simp
    then show "\<exists>t'. arp_put u t k = (t', Some (arp_idx k i)) \<and> arp_slot_key t' = (arp_slot_key t)(arp_idx k i \<mapsto> k) \<and>
        arp_val t' = (arp_val t)(arp_idx k i := arp_upd u (arp_val t (arp_idx k i)))"
      using k by (cases u) (auto simp: arp_put_def arp_insert_def arp_insert_pending_def set_bucket_def arp_slot_key_def
          arp_val_def arp_upd_def fun_eq_iff)
  next
    assume "?s = None"
    then have "arp_insert_loop t k 0 = None" using arp_insert_loop_stop [OF k] by simp
    then show "arp_put u t k = (t, None)"
      by (cases u) (auto simp: arp_put_def arp_insert_def arp_insert_pending_def)
  }
qed

subsection \<open>Reachable tables\<close>

definition arp_puts :: "arp_table \<Rightarrow> (mac option \<times> u32) list \<Rightarrow> arp_table" where
  "arp_puts a ops = foldl (\<lambda>a (m, ip). fst (arp_put m a ip)) (arp_table_init a) ops"

definition arp_binding :: "arp_table \<Rightarrow> u32 \<Rightarrow> (u8 \<times> mac) option" where
  "arp_binding a ip = map_option (arp_val a) (arp_lookup a ip)"

lemma arp_binding_map: "ip \<noteq> ARP_IP_EMPTY \<Longrightarrow> arp_binding a ip = arpt.table_map a ip"
  by (simp add: arp_binding_def arpt.table_map_def)

lemma arp_idx_bound: "i < ARP_TABLE_SIZE \<Longrightarrow> unat (arp_idx ip i) < ARP_TABLE_SIZE"
  using unat_probe_64 [of i ip] by (simp add: arp_idx_def hash_ip_def)

lemma arp_init_wf: "arpt.wf (arp_table_init a)"
  by (rule arpt.empty_wf) (simp add: arp_slot_key_def arp_table_init_def arp_idx_bound)

lemma arp_puts_wf: "\<forall>x \<in> set ops. snd x \<noteq> ARP_IP_EMPTY \<Longrightarrow> arpt.wf (arp_puts a ops)"
proof (induction ops rule: rev_induct)
  case Nil
  then show ?case by (simp add: arp_puts_def arp_init_wf)
next
  case (snoc x xs)
  obtain m ip where x: "x = (m, ip)" by (cases x)
  obtain a' r where p: "arp_put m (arp_puts a xs) ip = (a', r)" by (cases "arp_put m (arp_puts a xs) ip")
  have "arpt.wf (arp_puts a xs)" using snoc by simp
  then have "arpt.wf a'" using snoc.prems x p by (intro arpt.insert_wf [OF _ _ p]) simp_all
  then show ?case using x p by (simp add: arp_puts_def)
qed

section \<open>Releasing the waiting packets\<close>

definition released :: "u32 \<Rightarrow> arp_buf_entry \<Rightarrow> arp_buf_entry" where
  "released ip e = (if be_ip e = ip then e\<lparr>be_mb := 0, be_ip := ARP_IP_EMPTY\<rparr> else e)"

definition hand_over :: "(nat \<Rightarrow> cqueue) \<Rightarrow> arp_buf_entry \<Rightarrow> (nat \<Rightarrow> cqueue)" where
  "hand_over qs e = qs(unat (be_core e) := snd (queue_put (qs (unat (be_core e))) (D_mbuf_tx (mbuf_tx_of e)) QUEUE_MBUF_TX))"

definition queue_full :: "cqueue \<Rightarrow> bool" where
  "queue_full c \<longleftrightarrow> queue_tail (fst c) (snd c) = None"

definition stops_at :: "u32 \<Rightarrow> arp_buf_entry list \<Rightarrow> (nat \<Rightarrow> cqueue) \<Rightarrow> nat \<Rightarrow> int \<Rightarrow> bool" where
  "stops_at ip es qs k r \<longleftrightarrow> r = -1 \<and> be_ip (es ! k) = ip \<and> queue_full (qs (unat (be_core (es ! k))))"

lemma stops_at_Cons [simp]:
  "stops_at ip (e # es) qs (Suc k) r = stops_at ip es qs k r"
  "stops_at ip (e # es) qs 0 r \<longleftrightarrow> r = -1 \<and> be_ip e = ip \<and> queue_full (qs (unat (be_core e)))"
  by (simp_all add: stops_at_def)

lemma buf_flush_loop_prefix:
  "buf_flush_loop ip flushed es qs = (r, es', qs') \<Longrightarrow>
   \<exists>k \<le> length es. es' = map (released ip) (take k es) @ drop k es \<and>
     qs' = foldl hand_over qs (filter (\<lambda>e. be_ip e = ip) (take k es)) \<and>
     (r = 0 \<longrightarrow> k = length es) \<and>
     (k < length es \<longrightarrow> stops_at ip es qs' k r) \<and>
     (k = length es \<longrightarrow> (r = 0 \<longleftrightarrow> flushed \<or> (\<exists>e \<in> set es. be_ip e = ip)))"
proof (induction es arbitrary: flushed qs r es' qs')
  case Nil
  then show ?case by (auto split: if_splits)
next
  case (Cons e es)
  show ?case
  proof (cases "be_ip e = ip")
    case True
    obtain r1 q1 where p: "queue_put (qs (unat (be_core e))) (D_mbuf_tx (mbuf_tx_of e)) QUEUE_MBUF_TX = (r1, q1)"
      by (cases "queue_put (qs (unat (be_core e))) (D_mbuf_tx (mbuf_tx_of e)) QUEUE_MBUF_TX")
    show ?thesis
    proof (cases "r1 < 0")
      case neg: True
      then have "queue_full (qs (unat (be_core e)))"
        using p by (auto simp: queue_full_def queue_put_cases queue_tail_def split: if_splits)
      then show ?thesis using Cons.prems True p neg by (intro exI [of _ 0]) auto
    next
      case False
      obtain es1 where r: "buf_flush_loop ip True es (qs(unat (be_core e) := q1)) = (r, es1, qs')"
          "es' = released ip e # es1"
        using Cons.prems True p False by (auto simp: released_def split: prod.splits)
      have h: "qs(unat (be_core e) := q1) = hand_over qs e" using p by (simp add: hand_over_def)
      from Cons.IH [OF r(1)] obtain k where k: "k \<le> length es" "es1 = map (released ip) (take k es) @ drop k es"
          "qs' = foldl hand_over (hand_over qs e) (filter (\<lambda>e. be_ip e = ip) (take k es))" "r = 0 \<longrightarrow> k = length es"
          "k < length es \<longrightarrow> stops_at ip es qs' k r"
          "k = length es \<longrightarrow> r = 0"
        unfolding h by blast
      show ?thesis
        by (intro exI [of _ "Suc k"] conjI) (use k(1,4,5,6) True in \<open>simp_all add: k(2) r(2)\<close>, simp_all add: k(3))
    qed
  next
    case False
    obtain es1 where r: "buf_flush_loop ip flushed es qs = (r, es1, qs')" "es' = e # es1"
      using Cons.prems False by (auto split: prod.splits)
    from Cons.IH [OF r(1)] obtain k where k: "k \<le> length es" "es1 = map (released ip) (take k es) @ drop k es"
        "qs' = foldl hand_over qs (filter (\<lambda>e. be_ip e = ip) (take k es))" "r = 0 \<longrightarrow> k = length es"
        "k < length es \<longrightarrow> stops_at ip es qs' k r"
        "k = length es \<longrightarrow> (r = 0 \<longleftrightarrow> flushed \<or> (\<exists>e \<in> set es. be_ip e = ip))"
      by blast
    then show ?thesis using r(2) False by (intro exI [of _ "Suc k"]) (auto simp: released_def)
  qed
qed

lemma buf_flush_loop_ret: "buf_flush_loop ip flushed es qs = (r, es', qs') \<Longrightarrow> r = 0 \<or> r = -1"
  by (induction es arbitrary: flushed qs r es' qs') (auto split: if_splits prod.splits)

section \<open>Properties\<close>

text \<open>
  C9: the ARP table implements a map. After any sequence of insertions of real addresses into a
  freshly initialised table, an insertion (resolved with a hardware address, or pending) that
  returns a bucket makes a lookup of its address return that bucket with the new binding, and
  leaves the binding of every other address unchanged; when it returns no bucket, the table is
  unchanged and all 64 buckets hold other addresses.
\<close>

theorem arp_table_map:
  assumes "\<forall>x \<in> set ops. snd x \<noteq> ARP_IP_EMPTY" and "ip \<noteq> ARP_IP_EMPTY" and "a = arp_puts a0 ops"
    and "arp_put m a ip = (a', r)"
  shows "case r of
      Some p \<Rightarrow> arp_lookup a' ip = Some p \<and> arp_binding a' ip = Some (arp_upd m (arp_val a p)) \<and>
        (\<forall>ip2. ip2 \<noteq> ip \<and> ip2 \<noteq> ARP_IP_EMPTY \<longrightarrow> arp_binding a' ip2 = arp_binding a ip2)
    | None \<Rightarrow> a' = a \<and> (\<forall>p. unat p < ARP_TABLE_SIZE \<longrightarrow> ae_ip (buckets a p) \<notin> {ARP_IP_EMPTY, ip})"
proof -
  have w: "arpt.wf a" using assms(1,3) arp_puts_wf by simp
  show ?thesis
  proof (cases r)
    case None
    have "arp_idx ip ` {..< ARP_TABLE_SIZE} = {w. unat w < ARP_TABLE_SIZE}"
      by (rule arp_idx_all)
    moreover have "\<forall>p \<in> arp_idx ip ` {..< ARP_TABLE_SIZE}. arp_slot_key a p \<notin> {None, Some ip}"
      using arpt.insert_fails_iff [OF assms(2), of m a] assms(4) None by simp
    ultimately have "\<forall>p. unat p < ARP_TABLE_SIZE \<longrightarrow> ae_ip (buckets a p) \<notin> {ARP_IP_EMPTY, ip}"
      by (auto simp: arp_slot_key_def split: if_splits)
    then show ?thesis using None arpt.insert_fail_same [OF assms(2)] assms(4) by simp
  next
    case (Some p)
    note t = arpt.insert_table_map [OF w assms(2) assms(4) [unfolded Some]]
    then show ?thesis using Some assms(2) arp_binding_map by simp
  qed
qed

theorem arp_table_map_witness:
  "let a = arp_puts \<lparr>buckets = \<lambda>_. \<lparr>ae_ip = 9, ae_pending = 9, ae_mac = [], ae_te = None\<rparr>\<rparr> [(None, 1), (Some [1,2,3,4,5,6], 65)]
   in case arp_put (Some [6,5,4,3,2,1]) a 1 of (a', r) \<Rightarrow> r = Some 1 \<and> arp_binding a' 65 = arp_binding a 65"
proof -
  let ?a0 = "\<lparr>buckets = \<lambda>_. \<lparr>ae_ip = 9, ae_pending = 9, ae_mac = [], ae_te = None\<rparr>\<rparr>"
  let ?ops = "[(None, 1), (Some [1,2,3,4,5,6], 65)]"
  obtain a' r where p: "arp_put (Some [6,5,4,3,2,1]) (arp_puts ?a0 ?ops) 1 = (a', r)"
    by (cases "arp_put (Some [6,5,4,3,2,1]) (arp_puts ?a0 ?ops) 1")
  have "r = Some 1"
    using p by (simp add: arp_puts_def arp_put_def arp_insert_def arp_insert_pending_def arp_insert_loop.simps [of _ _ 0]
        arp_insert_loop.simps [of _ _ "Suc 0"] arp_idx_def hash_ip_def set_bucket_def arp_table_init_def)
  moreover have "case r of
      Some p \<Rightarrow> arp_lookup a' 1 = Some p \<and> arp_binding a' 1 = Some (arp_upd (Some [6,5,4,3,2,1]) (arp_val (arp_puts ?a0 ?ops) p)) \<and>
        (\<forall>ip2. ip2 \<noteq> 1 \<and> ip2 \<noteq> ARP_IP_EMPTY \<longrightarrow> arp_binding a' ip2 = arp_binding (arp_puts ?a0 ?ops) ip2)
    | None \<Rightarrow> a' = arp_puts ?a0 ?ops \<and> (\<forall>p. unat p < ARP_TABLE_SIZE \<longrightarrow> ae_ip (buckets (arp_puts ?a0 ?ops) p) \<notin> {ARP_IP_EMPTY, 1})"
    by (rule arp_table_map [OF _ _ refl p]) simp_all
  ultimately show ?thesis using p by (simp add: Let_def)
qed

text \<open>
  C10: a flush of the waiting packets hands over the packets of the resolved address and nothing
  else. When it returns 0 every waiting entry of the address has been enqueued, in buffer order,
  on the queue of the core it came from and its buffer entry is free again, all other entries are
  as they were; when it returns -1, either no entry waits for the address or it stopped at an
  entry whose core queue is full, with the entries before it handed over and the rest untouched.
\<close>

theorem arp_buf_flush_exact:
  assumes "arp_buf_flush b ip eqs = (r, b', qs')"
  shows "\<exists>k \<le> length (ab_entries b).
    ab_entries b' = map (released ip) (take k (ab_entries b)) @ drop k (ab_entries b) \<and>
    qs' = foldl hand_over eqs (filter (\<lambda>e. be_ip e = ip) (take k (ab_entries b))) \<and>
    (if r = 0 then k = length (ab_entries b) \<and> (\<exists>e \<in> set (ab_entries b). be_ip e = ip)
     else r = -1 \<and> (if k = length (ab_entries b) then \<forall>e \<in> set (ab_entries b). be_ip e \<noteq> ip
       else be_ip (ab_entries b ! k) = ip \<and> queue_full (qs' (unat (be_core (ab_entries b ! k))))))"
proof -
  obtain es where f: "buf_flush_loop ip False (ab_entries b) eqs = (r, es, qs')" "b' = b\<lparr>ab_entries := es\<rparr>"
    using assms by (auto simp: arp_buf_flush_def split: prod.splits)
  from buf_flush_loop_prefix [OF f(1), unfolded simp_thms] obtain k where k: "k \<le> length (ab_entries b)"
      "es = map (released ip) (take k (ab_entries b)) @ drop k (ab_entries b)"
      "qs' = foldl hand_over eqs (filter (\<lambda>e. be_ip e = ip) (take k (ab_entries b)))"
      "r = 0 \<longrightarrow> k = length (ab_entries b)"
      "k < length (ab_entries b) \<longrightarrow> stops_at ip (ab_entries b) qs' k r"
      "k = length (ab_entries b) \<longrightarrow> (r = 0 \<longleftrightarrow> (\<exists>e \<in> set (ab_entries b). be_ip e = ip))"
    by blast
  have r: "r = 0 \<or> r = -1" using f(1) by (rule buf_flush_loop_ret)
  show ?thesis
  proof (intro exI conjI)
    show "k \<le> length (ab_entries b)" by (rule k(1))
    show "ab_entries b' = map (released ip) (take k (ab_entries b)) @ drop k (ab_entries b)" using f(2) k(2) by simp
    show "qs' = foldl hand_over eqs (filter (\<lambda>e. be_ip e = ip) (take k (ab_entries b)))" by (rule k(3))
    show "if r = 0 then k = length (ab_entries b) \<and> (\<exists>e \<in> set (ab_entries b). be_ip e = ip)
     else r = -1 \<and> (if k = length (ab_entries b) then \<forall>e \<in> set (ab_entries b). be_ip e \<noteq> ip
       else be_ip (ab_entries b ! k) = ip \<and> queue_full (qs' (unat (be_core (ab_entries b ! k)))))"
      using k(1,4-6) r by (cases "k = length (ab_entries b)") (auto simp: stops_at_def)
  qed
qed

theorem arp_buf_flush_exact_witness:
  "let e = \<lparr>be_ip = 5, be_core = 0, be_gid = 1, be_pkt_len = 60, be_mb = 77\<rparr>;
       q = \<lparr>eq_tail = 0, eq_nelems = 2, eq_elsize = 64, eq_off = 0, eq_entries = 0\<rparr>;
       (r, b', qs') = arp_buf_flush \<lparr>ab_n = 0, ab_entries = [e]\<rparr> 5 (\<lambda>_. (q, \<lambda>_. \<lparr>qs_type = 0, qs_data = D_raw\<rparr>))
   in r = 0 \<and> qs' = hand_over (\<lambda>_. (q, \<lambda>_. \<lparr>qs_type = 0, qs_data = D_raw\<rparr>)) e"
proof -
  let ?e = "\<lparr>be_ip = 5, be_core = 0, be_gid = 1, be_pkt_len = 60, be_mb = 77\<rparr>"
  let ?q = "\<lparr>eq_tail = 0, eq_nelems = 2, eq_elsize = 64, eq_off = 0, eq_entries = 0\<rparr>"
  let ?qs = "\<lambda>_. (?q, \<lambda>_. \<lparr>qs_type = 0, qs_data = D_raw\<rparr>)"
  obtain r b' qs' where f: "arp_buf_flush \<lparr>ab_n = 0, ab_entries = [?e]\<rparr> 5 ?qs = (r, b', qs')"
    by (cases "arp_buf_flush \<lparr>ab_n = 0, ab_entries = [?e]\<rparr> 5 ?qs") auto
  then have "r = 0" by (auto simp: arp_buf_flush_def queue_put_cases split: prod.splits)
  moreover from arp_buf_flush_exact [OF f] this have "qs' = hand_over ?qs ?e" by auto
  ultimately show ?thesis using f by (simp add: Let_def)
qed

end
