(* ===== verification/Tomgr.thy ===== *)
theory Tomgr
  imports Prelude
begin

text \<open>
  The timeout manager of \<^verbatim>\<open>lib/utils/tomgr/tomgr.c\<close>: a binary min-heap of deadlines over an array of
  timer entries, each of which records its heap position so that it can be cancelled. Arrays are
  functions from positions, and the \<^verbatim>\<open>int\<close> fields that hold an array position or
  \<^verbatim>\<open>TO_INVALID\<close> are natural numbers; a pointer to an entry is its index in \<^verbatim>\<open>entries\<close>.
  The lemmas show that the heap refines a finite map from entries to timers.
\<close>

section \<open>The structures and operations of the code\<close>

abbreviation TOMGR_SIZE :: nat where "TOMGR_SIZE \<equiv> 1024"
abbreviation TO_INVALID :: nat where "TO_INVALID \<equiv> TOMGR_SIZE"

record to_heap_entry =
  h_idx :: nat
  h_to :: u64

record to_entry =
  te_type :: u8
  te_to :: u64
  te_data :: ptr
  te_heap_idx :: nat

record tomgr =
  tm_heap :: "nat \<Rightarrow> to_heap_entry"
  tm_entries :: "nat \<Rightarrow> to_entry"
  tm_size :: nat

definition PARENT :: "nat \<Rightarrow> nat" where "PARENT i = (i - 1) div 2"
definition LEFT :: "nat \<Rightarrow> nat" where "LEFT i = 2 * i + 1"
definition RIGHT :: "nat \<Rightarrow> nat" where "RIGHT i = 2 * i + 2"

text \<open>\<^verbatim>\<open>malloc\<close> leaves the memory \<open>m0\<close> unspecified; \<^verbatim>\<open>tomgr_init\<close> sets the size and marks the entries free.\<close>

definition tomgr_init :: "bool \<Rightarrow> tomgr \<Rightarrow> tomgr option" where
  "tomgr_init malloc_ok m0 =
     (if \<not> malloc_ok then None
      else Some (m0\<lparr>tm_size := 0,
        tm_entries := \<lambda>i. if i < TOMGR_SIZE then (tm_entries m0 i)\<lparr>te_heap_idx := TO_INVALID\<rparr> else tm_entries m0 i\<rparr>))"

definition set_heap_idx :: "nat \<Rightarrow> nat \<Rightarrow> tomgr \<Rightarrow> tomgr" where
  "set_heap_idx e p m = m\<lparr>tm_entries := (tm_entries m)(e := (tm_entries m e)\<lparr>te_heap_idx := p\<rparr>)\<rparr>"

definition tm_swap :: "tomgr \<Rightarrow> nat \<Rightarrow> nat \<Rightarrow> tomgr" where
  "tm_swap m a b =
     (let m1 = m\<lparr>tm_heap := (tm_heap m)(a := tm_heap m b, b := tm_heap m a)\<rparr>;
          m2 = set_heap_idx (h_idx (tm_heap m1 a)) a m1
      in set_heap_idx (h_idx (tm_heap m2 b)) b m2)"

definition smallest_child :: "tomgr \<Rightarrow> nat \<Rightarrow> nat" where
  "smallest_child m i =
     (let s = if LEFT i < tm_size m \<and> h_to (tm_heap m (LEFT i)) < h_to (tm_heap m i) then LEFT i else i
      in if RIGHT i < tm_size m \<and> h_to (tm_heap m (RIGHT i)) < h_to (tm_heap m s) then RIGHT i else s)"

lemma tm_swap_size [simp]: "tm_size (tm_swap m a b) = tm_size m"
  by (simp add: tm_swap_def set_heap_idx_def Let_def)

lemma smallest_child_bounds: "smallest_child m i \<noteq> i \<Longrightarrow> i < smallest_child m i \<and> smallest_child m i < tm_size m"
  by (auto simp: smallest_child_def LEFT_def RIGHT_def Let_def split: if_splits)

function heapify_down :: "tomgr \<Rightarrow> nat \<Rightarrow> tomgr" where
  "heapify_down m i =
     (let smallest = smallest_child m i
      in if smallest \<noteq> i then heapify_down (tm_swap m i smallest) smallest else m)"
  by auto
termination
  by (relation "measure (\<lambda>(m, i). tm_size m - i)") (auto dest: smallest_child_bounds intro!: diff_less_mono2)

function heapify_up :: "tomgr \<Rightarrow> nat \<Rightarrow> tomgr" where
  "heapify_up m i =
     (if 0 < i \<and> h_to (tm_heap m (PARENT i)) > h_to (tm_heap m i)
      then heapify_up (tm_swap m i (PARENT i)) (PARENT i) else m)"
  by auto
termination
  by (relation "measure snd") (auto simp: PARENT_def)

declare heapify_down.simps [simp del] heapify_up.simps [simp del]

definition find_free_entry :: "tomgr \<Rightarrow> nat option" where
  "find_free_entry m = List.find (\<lambda>i. te_heap_idx (tm_entries m i) = TO_INVALID) [0 ..< TOMGR_SIZE]"

definition tomgr_insert :: "tomgr \<Rightarrow> u8 \<Rightarrow> u64 \<Rightarrow> ptr \<Rightarrow> tomgr \<times> nat option" where
  "tomgr_insert m ty t d =
     (if tm_size m \<ge> TOMGR_SIZE then (m, None)
      else case find_free_entry m of
        None \<Rightarrow> (m, None)
      | Some e \<Rightarrow>
          let m1 = m\<lparr>tm_entries := (tm_entries m)(e := \<lparr>te_type = ty, te_to = t, te_data = d, te_heap_idx = tm_size m\<rparr>)\<rparr>;
              m2 = m1\<lparr>tm_heap := (tm_heap m1)(tm_size m1 := \<lparr>h_idx = e, h_to = t\<rparr>), tm_size := tm_size m1 + 1\<rparr>
          in (heapify_up m2 (tm_size m2 - 1), Some e))"

definition tomgr_cancel :: "tomgr \<Rightarrow> nat \<Rightarrow> tomgr \<times> int" where
  "tomgr_cancel m e =
     (let p = te_heap_idx (tm_entries m e)
      in if p \<ge> tm_size m \<or> h_idx (tm_heap m p) \<noteq> e then (m, -1)
         else let m1 = set_heap_idx e TO_INVALID m
              in if tm_size m1 = 1 then (m1\<lparr>tm_size := tm_size m1 - 1\<rparr>, 0)
                 else let m2 = m1\<lparr>tm_heap := (tm_heap m1)(p := tm_heap m1 (tm_size m1 - 1))\<rparr>;
                          m3 = set_heap_idx (h_idx (tm_heap m2 p)) p m2;
                          m4 = m3\<lparr>tm_size := tm_size m3 - 1\<rparr>
                      in if p < tm_size m4
                         then (if 0 < p \<and> h_to (tm_heap m4 (PARENT p)) > h_to (tm_heap m4 p)
                               then (heapify_up m4 p, 0) else (heapify_down m4 p, 0))
                         else (m4, 0))"

definition tomgr_peek :: "tomgr \<Rightarrow> nat option" where
  "tomgr_peek m = (if tm_size m = 0 then None else Some (h_idx (tm_heap m 0)))"

definition tomgr_pop :: "tomgr \<Rightarrow> tomgr \<times> nat option" where
  "tomgr_pop m =
     (if tm_size m = 0 then (m, None)
      else let e = h_idx (tm_heap m 0);
               m1 = set_heap_idx e TO_INVALID m;
               m2 = m1\<lparr>tm_heap := (tm_heap m1)(0 := tm_heap m1 (tm_size m1 - 1)), tm_size := tm_size m1 - 1\<rparr>
           in (heapify_down m2 0, Some e))"

section \<open>The heap order\<close>

definition heap_ordered :: "tomgr \<Rightarrow> bool" where
  "heap_ordered m \<longleftrightarrow> (\<forall>i < tm_size m. 0 < i \<longrightarrow> h_to (tm_heap m (PARENT i)) \<le> h_to (tm_heap m i))"

text \<open>The order holds but for the pair of \<open>k\<close> and its parent, or but for \<open>k\<close> and its children.\<close>

definition ordered_up :: "tomgr \<Rightarrow> nat \<Rightarrow> bool" where
  "ordered_up m k \<longleftrightarrow>
     (\<forall>i < tm_size m. 0 < i \<and> i \<noteq> k \<longrightarrow> h_to (tm_heap m (PARENT i)) \<le> h_to (tm_heap m i)) \<and>
     (\<forall>i < tm_size m. 0 < i \<and> PARENT i = k \<and> 0 < k \<longrightarrow> h_to (tm_heap m (PARENT k)) \<le> h_to (tm_heap m i))"

definition ordered_down :: "tomgr \<Rightarrow> nat \<Rightarrow> bool" where
  "ordered_down m k \<longleftrightarrow>
     (\<forall>i < tm_size m. 0 < i \<and> PARENT i \<noteq> k \<longrightarrow> h_to (tm_heap m (PARENT i)) \<le> h_to (tm_heap m i)) \<and>
     (\<forall>i < tm_size m. 0 < i \<and> PARENT i = k \<and> 0 < k \<longrightarrow> h_to (tm_heap m (PARENT k)) \<le> h_to (tm_heap m i))"

lemma PARENT_less: "0 < i \<Longrightarrow> PARENT i < i"
  by (simp add: PARENT_def)

lemma PARENT_child: "0 < i \<Longrightarrow> PARENT i = k \<longleftrightarrow> i = LEFT k \<or> i = RIGHT k"
  unfolding PARENT_def LEFT_def RIGHT_def by presburger

lemma tm_swap_heap: "tm_heap (tm_swap m a b) = (tm_heap m)(a := tm_heap m b, b := tm_heap m a)"
  by (simp add: tm_swap_def set_heap_idx_def Let_def)

lemma ordered_up_swap:
  assumes "ordered_up m k" "0 < k" "k < tm_size m" "h_to (tm_heap m k) < h_to (tm_heap m (PARENT k))"
  shows "ordered_up (tm_swap m k (PARENT k)) (PARENT k)"
proof -
  define f where "f i = h_to (tm_heap m i)" for i
  define p where "p = PARENT k"
  let ?m = "tm_swap m k p"
  have g: "h_to (tm_heap ?m i) = (if i = k then f p else if i = p then f k else f i)" for i
    using assms(2) PARENT_less [of k] by (simp add: tm_swap_heap f_def p_def)
  have pk: "p < k" "f k < f p" using assms(2,4) PARENT_less by (simp_all add: p_def f_def)
  have o1: "f (PARENT i) \<le> f i" if "i < tm_size m" "0 < i" "i \<noteq> k" for i
    using assms(1) that by (simp add: ordered_up_def f_def)
  have o2: "f p \<le> f i" if "i < tm_size m" "0 < i" "PARENT i = k" for i
    using assms(1,2) that by (simp add: ordered_up_def f_def p_def)
  have "h_to (tm_heap ?m (PARENT i)) \<le> h_to (tm_heap ?m i)" if i: "i < tm_size m" "0 < i" "i \<noteq> p" for i
  proof (cases "i = k")
    case True
    then show ?thesis using pk p_def g [of i] g [of p] by simp
  next
    case False
    then show ?thesis
      using o1 [of i] o2 [of i] i pk g [of i] g [of "PARENT i"] by (auto split: if_splits)
  qed
  moreover have "h_to (tm_heap ?m (PARENT p)) \<le> h_to (tm_heap ?m i)" if i: "i < tm_size m" "0 < i" "PARENT i = p" "0 < p" for i
  proof -
    have "PARENT p < p" using i(4) by (rule PARENT_less)
    moreover have "f (PARENT p) \<le> f p" using o1 [of p] i pk assms(3) by simp
    moreover have "i \<noteq> p" using i PARENT_less [of i] by auto
    ultimately show ?thesis using o1 [of i] i pk g [of i] g [of "PARENT p"] by (auto split: if_splits)
  qed
  ultimately show ?thesis unfolding ordered_up_def p_def by auto
qed

lemma heapify_up_ordered:
  "ordered_up m k \<Longrightarrow> k < tm_size m \<Longrightarrow> heap_ordered (heapify_up m k)"
proof (induction m k rule: heapify_up.induct)
  case (1 m k)
  show ?case
  proof (cases "0 < k \<and> h_to (tm_heap m (PARENT k)) > h_to (tm_heap m k)")
    case True
    moreover have "PARENT k < tm_size m" using True 1(3) PARENT_less [of k] by simp
    ultimately show ?thesis
      using 1(1) [OF True ordered_up_swap] 1(2,3) by (subst heapify_up.simps) simp
  next
    case False
    then have "heapify_up m k = m" by (subst heapify_up.simps) auto
    with False 1(2) show ?thesis by (auto simp: ordered_up_def heap_ordered_def not_less)
  qed
qed

lemma smallest_child_min:
  assumes "smallest_child m k \<noteq> k"
  shows "k < smallest_child m k" "smallest_child m k < tm_size m" "PARENT (smallest_child m k) = k"
    "h_to (tm_heap m (smallest_child m k)) < h_to (tm_heap m k)"
    "i < tm_size m \<Longrightarrow> 0 < i \<Longrightarrow> PARENT i = k \<Longrightarrow> h_to (tm_heap m (smallest_child m k)) \<le> h_to (tm_heap m i)"
proof -
  show b: "k < smallest_child m k" "smallest_child m k < tm_size m" using smallest_child_bounds [OF assms] by simp_all
  have "smallest_child m k = LEFT k \<or> smallest_child m k = RIGHT k"
    using assms by (auto simp: smallest_child_def Let_def split: if_splits)
  then show "PARENT (smallest_child m k) = k" using b by (subst PARENT_child) auto
  show "h_to (tm_heap m (smallest_child m k)) < h_to (tm_heap m k)"
    using assms by (auto simp: smallest_child_def Let_def split: if_splits)
  assume i: "i < tm_size m" "0 < i" "PARENT i = k"
  then have "i = LEFT k \<or> i = RIGHT k" using PARENT_child by blast
  then show "h_to (tm_heap m (smallest_child m k)) \<le> h_to (tm_heap m i)"
    using i by (auto simp: smallest_child_def Let_def not_less split: if_splits)
qed

lemma ordered_down_swap:
  assumes "ordered_down m k" "smallest_child m k \<noteq> k"
  shows "ordered_down (tm_swap m k (smallest_child m k)) (smallest_child m k)"
proof -
  define f where "f i = h_to (tm_heap m i)" for i
  define s where "s = smallest_child m k"
  let ?m = "tm_swap m k s"
  note sc = smallest_child_min [OF assms(2), folded s_def f_def]
  have g: "h_to (tm_heap ?m i) = (if i = k then f s else if i = s then f k else f i)" for i
    using sc(1) by (simp add: tm_swap_heap f_def)
  have o1: "f (PARENT i) \<le> f i" if "i < tm_size m" "0 < i" "PARENT i \<noteq> k" for i
    using assms(1) that by (simp add: ordered_down_def f_def)
  have o2: "f (PARENT k) \<le> f s" if "0 < k"
    using assms(1) that sc by (simp add: ordered_down_def f_def)
  have "h_to (tm_heap ?m (PARENT i)) \<le> h_to (tm_heap ?m i)" if i: "i < tm_size m" "0 < i" "PARENT i \<noteq> s" for i
  proof (cases "i = k")
    case True
    then show ?thesis using PARENT_less [of k] i sc o2 g [of i] g [of "PARENT i"] by simp
  next
    case False
    then show ?thesis
      using o1 [of i] i sc(1,3,4) sc(5) [of i] g [of i] g [of "PARENT i"] by (auto split: if_splits)
  qed
  moreover have "h_to (tm_heap ?m (PARENT s)) \<le> h_to (tm_heap ?m i)" if i: "i < tm_size m" "0 < i" "PARENT i = s" for i
    using o1 [of i] i sc PARENT_less [of i] g [of i] g [of "PARENT s"] by auto
  ultimately show ?thesis unfolding ordered_down_def s_def by auto
qed

lemma heapify_down_ordered:
  "ordered_down m k \<Longrightarrow> heap_ordered (heapify_down m k)"
proof (induction m k rule: heapify_down.induct)
  case (1 m k)
  show ?case
  proof (cases "smallest_child m k = k")
    case True
    then have "heapify_down m k = m" by (subst heapify_down.simps) simp
    moreover have "h_to (tm_heap m k) \<le> h_to (tm_heap m i)" if "i < tm_size m" "0 < i" "PARENT i = k" for i
      using True that PARENT_child [of i k]
      by (auto simp: smallest_child_def Let_def not_less LEFT_def RIGHT_def split: if_splits)
    ultimately show ?thesis using 1(2) unfolding ordered_down_def heap_ordered_def by metis
  next
    case False
    then show ?thesis
      using 1(1) [OF refl False ordered_down_swap] 1(2) by (subst heapify_down.simps) (simp add: Let_def)
  qed
qed

section \<open>Heap and entries in step\<close>

definition slots :: "tomgr \<Rightarrow> nat set" where
  "slots m = (\<lambda>i. h_idx (tm_heap m i)) ` {..< tm_size m}"

definition tm_sync :: "tomgr \<Rightarrow> bool" where
  "tm_sync m \<longleftrightarrow> tm_size m \<le> TOMGR_SIZE \<and> inj_on (\<lambda>i. h_idx (tm_heap m i)) {..< tm_size m} \<and>
     (\<forall>i < tm_size m. h_to (tm_heap m i) = te_to (tm_entries m (h_idx (tm_heap m i)))) \<and>
     (\<forall>e \<in> slots m. e < TOMGR_SIZE \<and> te_heap_idx (tm_entries m e) \<noteq> TO_INVALID)"

definition tm_wf :: "tomgr \<Rightarrow> bool" where
  "tm_wf m \<longleftrightarrow> tm_sync m \<and> heap_ordered m"

definition timer_of :: "tomgr \<Rightarrow> nat \<Rightarrow> u8 \<times> u64 \<times> ptr" where
  "timer_of m e = (te_type (tm_entries m e), te_to (tm_entries m e), te_data (tm_entries m e))"

text \<open>The abstract state: the pending timers, by entry.\<close>

definition timers :: "tomgr \<Rightarrow> nat \<rightharpoonup> u8 \<times> u64 \<times> ptr" where
  "timers m = (\<lambda>e. if e \<in> slots m then Some (timer_of m e) else None)"

lemma dom_timers [simp]: "dom (timers m) = slots m"
  by (auto simp: timers_def split: if_splits)

lemma set_heap_idx_simps [simp]:
  "tm_heap (set_heap_idx e p m) = tm_heap m" "tm_size (set_heap_idx e p m) = tm_size m"
  "timer_of (set_heap_idx e p m) = timer_of m" "slots (set_heap_idx e p m) = slots m"
  "te_to (tm_entries (set_heap_idx e p m) x) = te_to (tm_entries m x)"
  "te_heap_idx (tm_entries (set_heap_idx e p m) x) = (if x = e then p else te_heap_idx (tm_entries m x))"
  by (auto simp: set_heap_idx_def timer_of_def slots_def fun_eq_iff)

lemma tm_swap_alt:
  "tm_swap m a b = set_heap_idx (h_idx (tm_heap m a)) b (set_heap_idx (h_idx (tm_heap m b)) a
      (m\<lparr>tm_heap := (tm_heap m)(a := tm_heap m b, b := tm_heap m a)\<rparr>))"
  by (auto simp: tm_swap_def Let_def)

text \<open>Both \<^verbatim>\<open>swap\<close> and the removal of a position rearrange the heap through a map of positions.\<close>

lemma rearrange_slots:
  assumes "\<And>i. i < tm_size m' \<Longrightarrow> tm_heap m' i = tm_heap m (\<sigma> i)" and "inj_on \<sigma> {..< tm_size m'}"
    and "\<sigma> ` {..< tm_size m'} \<subseteq> {..< tm_size m}" and "inj_on (\<lambda>i. h_idx (tm_heap m i)) {..< tm_size m}"
  shows "slots m' = (\<lambda>i. h_idx (tm_heap m i)) ` \<sigma> ` {..< tm_size m'}"
    and "inj_on (\<lambda>i. h_idx (tm_heap m' i)) {..< tm_size m'}"
proof -
  show "slots m' = (\<lambda>i. h_idx (tm_heap m i)) ` \<sigma> ` {..< tm_size m'}"
    unfolding slots_def image_image using assms(1) by (intro image_cong) simp_all
  have "inj_on ((\<lambda>i. h_idx (tm_heap m i)) \<circ> \<sigma>) {..< tm_size m'}"
    using assms(2) inj_on_subset [OF assms(4,3)] by (rule comp_inj_on)
  then show "inj_on (\<lambda>i. h_idx (tm_heap m' i)) {..< tm_size m'}"
    using assms(1) by (simp add: inj_on_def)
qed

lemma tm_swap_slots:
  assumes "a < tm_size m" "b < tm_size m" and inj: "inj_on (\<lambda>i. h_idx (tm_heap m i)) {..< tm_size m}"
  shows "slots (tm_swap m a b) = slots m"
    and "inj_on (\<lambda>i. h_idx (tm_heap (tm_swap m a b) i)) {..< tm_size (tm_swap m a b)}"
proof -
  define \<sigma> where "\<sigma> i = (if i = a then b else if i = b then a else i)" for i
  have s: "\<sigma> (\<sigma> i) = i" for i by (simp add: \<sigma>_def)
  have b: "i < tm_size m \<Longrightarrow> \<sigma> i < tm_size m" for i using assms by (simp add: \<sigma>_def)
  have im: "\<sigma> ` {..< tm_size m} = {..< tm_size m}"
  proof
    show "{..< tm_size m} \<subseteq> \<sigma> ` {..< tm_size m}"
    proof
      fix i
      assume "i \<in> {..< tm_size m}"
      then show "i \<in> \<sigma> ` {..< tm_size m}" using s [of i] b [of i] by (intro image_eqI [of _ _ "\<sigma> i"]) simp_all
    qed
  qed (use b in auto)
  have inj': "inj_on \<sigma> {..< tm_size (tm_swap m a b)}" by (rule inj_on_inverseI [of _ \<sigma>]) (rule s)
  have h: "tm_heap (tm_swap m a b) i = tm_heap m (\<sigma> i)" for i by (simp add: tm_swap_heap \<sigma>_def)
  note r = rearrange_slots [of "tm_swap m a b" m \<sigma>, OF h inj' _ inj]
  show "slots (tm_swap m a b) = slots m" using r(1) im by (simp add: slots_def)
  show "inj_on (\<lambda>i. h_idx (tm_heap (tm_swap m a b) i)) {..< tm_size (tm_swap m a b)}" using r(2) im by simp
qed

lemma tm_swap_timer_of [simp]: "timer_of (tm_swap m a b) = timer_of m"
  unfolding tm_swap_alt by (simp add: timer_of_def fun_eq_iff)

lemma tm_swap_te_to [simp]: "te_to (tm_entries (tm_swap m a b) x) = te_to (tm_entries m x)"
  unfolding tm_swap_alt by simp

lemma tm_swap_sync:
  assumes "tm_sync m" "a < tm_size m" "b < tm_size m"
  shows "tm_sync (tm_swap m a b)" and "timers (tm_swap m a b) = timers m"
proof -
  note sl = tm_swap_slots [OF assms(2,3)]
  have inj: "inj_on (\<lambda>i. h_idx (tm_heap m i)) {..< tm_size m}" using assms(1) by (simp add: tm_sync_def)
  have "h_to (tm_heap (tm_swap m a b) i) = te_to (tm_entries (tm_swap m a b) (h_idx (tm_heap (tm_swap m a b) i)))"
    if "i < tm_size m" for i
    using assms that by (auto simp: tm_sync_def tm_swap_heap)
  moreover have "te_heap_idx (tm_entries (tm_swap m a b) e) \<noteq> TO_INVALID" if "e \<in> slots m" for e
    using assms that unfolding tm_swap_alt by (auto simp: tm_sync_def)
  ultimately show "tm_sync (tm_swap m a b)"
    using assms(1) sl [OF inj] by (simp add: tm_sync_def)
  show "timers (tm_swap m a b) = timers m"
    using sl(1) [OF inj] by (simp add: timers_def fun_eq_iff)
qed

lemma heapify_up_sync:
  "tm_sync m \<Longrightarrow> k < tm_size m \<Longrightarrow> tm_sync (heapify_up m k) \<and> timers (heapify_up m k) = timers m \<and> timer_of (heapify_up m k) = timer_of m"
proof (induction m k rule: heapify_up.induct)
  case (1 m k)
  show ?case
  proof (cases "0 < k \<and> h_to (tm_heap m (PARENT k)) > h_to (tm_heap m k)")
    case True
    moreover have "PARENT k < tm_size m" using True 1(3) PARENT_less [of k] by simp
    ultimately show ?thesis
      using 1(1) [OF True] tm_swap_sync [of m k "PARENT k"] 1(2,3) by (subst (1 2 3) heapify_up.simps) simp
  next
    case False
    then have "heapify_up m k = m" by (subst heapify_up.simps) auto
    with 1(2) show ?thesis by simp
  qed
qed

lemma heapify_down_sync:
  "tm_sync m \<Longrightarrow> tm_sync (heapify_down m k) \<and> timers (heapify_down m k) = timers m \<and> timer_of (heapify_down m k) = timer_of m"
proof (induction m k rule: heapify_down.induct)
  case (1 m k)
  show ?case
  proof (cases "smallest_child m k = k")
    case True
    then have "heapify_down m k = m" by (subst heapify_down.simps) simp
    with 1(2) show ?thesis by simp
  next
    case False
    note sc = smallest_child_min(1,2) [OF False]
    have s: "tm_sync (tm_swap m k (smallest_child m k))" "timers (tm_swap m k (smallest_child m k)) = timers m"
      using tm_swap_sync [OF 1(2), of k "smallest_child m k"] sc by simp_all
    then show ?thesis
      using 1(1) [OF refl False s(1)] False by (subst (1 2 3) heapify_down.simps) (simp add: Let_def)
  qed
qed

subsection \<open>Removing a heap position\<close>

definition drop_at :: "tomgr \<Rightarrow> nat \<Rightarrow> tomgr" where
  "drop_at m p = m\<lparr>tm_heap := (tm_heap m)(p := tm_heap m (tm_size m - 1)), tm_size := tm_size m - 1\<rparr>"

lemma drop_at_simps [simp]:
  "tm_heap (drop_at m p) = (tm_heap m)(p := tm_heap m (tm_size m - 1))" "tm_size (drop_at m p) = tm_size m - 1"
  "tm_entries (drop_at m p) = tm_entries m" "timer_of (drop_at m p) = timer_of m"
  by (simp_all add: drop_at_def timer_of_def fun_eq_iff)

lemma drop_at_slots:
  assumes inj: "inj_on (\<lambda>i. h_idx (tm_heap m i)) {..< tm_size m}" and p: "p < tm_size m"
  shows "slots (drop_at m p) = slots m - {h_idx (tm_heap m p)}"
    and "inj_on (\<lambda>i. h_idx (tm_heap (drop_at m p) i)) {..< tm_size (drop_at m p)}"
proof -
  define n where "n = tm_size m - 1"
  have n: "tm_size m = Suc n" "p \<le> n" using p by (simp_all add: n_def)
  define \<sigma> where "\<sigma> i = (if i = p then n else i)" for i
  have im: "\<sigma> ` {..< n} = {..< tm_size m} - {p}"
  proof
    show "{..< tm_size m} - {p} \<subseteq> \<sigma> ` {..< n}"
    proof
      fix i
      assume "i \<in> {..< tm_size m} - {p}"
      then show "i \<in> \<sigma> ` {..< n}"
        using n by (intro image_eqI [of _ _ "if i = n then p else i"]) (auto simp: \<sigma>_def)
    qed
  qed (use n in \<open>auto simp: \<sigma>_def\<close>)
  have inj': "inj_on \<sigma> {..< tm_size (drop_at m p)}" using n by (auto simp: inj_on_def \<sigma>_def)
  have h: "tm_heap (drop_at m p) i = tm_heap m (\<sigma> i)" for i by (simp add: \<sigma>_def n_def)
  note r = rearrange_slots [of "drop_at m p" m \<sigma>, OF h inj' _ inj]
  have "(\<lambda>i. h_idx (tm_heap m i)) ` ({..< tm_size m} - {p}) = slots m - {h_idx (tm_heap m p)}"
    using inj_on_image_set_diff [OF inj, of "{..< tm_size m}" "{p}"] p by (simp add: slots_def)
  then show "slots (drop_at m p) = slots m - {h_idx (tm_heap m p)}" using r(1) im n by simp
  show "inj_on (\<lambda>i. h_idx (tm_heap (drop_at m p) i)) {..< tm_size (drop_at m p)}" using r(2) im n by simp
qed

lemma tomgr_pop_alt:
  "0 < tm_size m \<Longrightarrow> tomgr_pop m =
     (heapify_down (drop_at (set_heap_idx (h_idx (tm_heap m 0)) TO_INVALID m) 0) 0, Some (h_idx (tm_heap m 0)))"
  by (simp add: tomgr_pop_def Let_def drop_at_def)

text \<open>
  A position can be dropped after any writes to \<^verbatim>\<open>heap_idx\<close> that keep the entries of the remaining
  positions in use.
\<close>

lemma drop_at_sync:
  assumes w: "tm_sync m" and p: "p < tm_size m"
    and h: "tm_heap m' = tm_heap m" "tm_size m' = tm_size m" "timer_of m' = timer_of m"
    and u: "\<And>e. e \<in> slots m \<Longrightarrow> e \<noteq> h_idx (tm_heap m p) \<Longrightarrow> te_heap_idx (tm_entries m' e) \<noteq> TO_INVALID"
  shows "tm_sync (drop_at m' p)" and "timers (drop_at m' p) = (timers m)(h_idx (tm_heap m p) := None)"
proof -
  have inj: "inj_on (\<lambda>i. h_idx (tm_heap m' i)) {..< tm_size m'}" and p': "p < tm_size m'"
    using w p h by (simp_all add: tm_sync_def)
  note d = drop_at_slots [OF inj p']
  have s: "slots (drop_at m' p) = slots m - {h_idx (tm_heap m p)}" using d(1) h by (simp add: slots_def)
  have to: "te_to (tm_entries m' e) = te_to (tm_entries m e)" for e
    using fun_cong [OF h(3), of e] by (simp add: timer_of_def)
  have "h_to (tm_heap (drop_at m' p) i) = te_to (tm_entries m' (h_idx (tm_heap (drop_at m' p) i)))"
    if "i < tm_size m - 1" for i
    using w that h to by (auto simp: tm_sync_def)
  then show "tm_sync (drop_at m' p)"
    using w u d(2) s h by (auto simp: tm_sync_def)
  show "timers (drop_at m' p) = (timers m)(h_idx (tm_heap m p) := None)"
    using s h(3) by (auto simp: timers_def fun_eq_iff)
qed

lemma drop_at_ordered_down:
  assumes o: "heap_ordered m" and h: "tm_heap m' = tm_heap m" "tm_size m' = tm_size m"
    and "0 < p \<Longrightarrow> h_to (tm_heap m (PARENT p)) \<le> h_to (tm_heap m (tm_size m - 1))"
    and "p < tm_size m"
  shows "ordered_down (drop_at m' p) p"
  unfolding ordered_down_def
proof (intro conjI allI impI)
  fix i
  assume i: "i < tm_size (drop_at m' p)" "0 < i \<and> PARENT i \<noteq> p"
  then show "h_to (tm_heap (drop_at m' p) (PARENT i)) \<le> h_to (tm_heap (drop_at m' p) i)"
    using o h assms(4) by (auto simp: heap_ordered_def)
next
  fix i
  assume i: "i < tm_size (drop_at m' p)" "0 < i \<and> PARENT i = p \<and> 0 < p"
  have "h_to (tm_heap m (PARENT p)) \<le> h_to (tm_heap m p)" "h_to (tm_heap m p) \<le> h_to (tm_heap m i)"
    using o i h assms(5) by (auto simp: heap_ordered_def)
  moreover have "PARENT p \<noteq> p" "i \<noteq> p" using PARENT_less [of p] PARENT_less [of i] i by auto
  ultimately show "h_to (tm_heap (drop_at m' p) (PARENT p)) \<le> h_to (tm_heap (drop_at m' p) i)"
    using h by auto
qed

lemma drop_at_ordered_up:
  assumes o: "heap_ordered m" and h: "tm_heap m' = tm_heap m" "tm_size m' = tm_size m"
    and c: "0 < p" "h_to (tm_heap m (tm_size m - 1)) < h_to (tm_heap m (PARENT p))" and "p < tm_size m"
  shows "ordered_up (drop_at m' p) p"
  unfolding ordered_up_def
proof (intro conjI allI impI)
  have pp: "PARENT p \<noteq> p" using PARENT_less [OF c(1)] by simp
  have o': "h_to (tm_heap m (PARENT i)) \<le> h_to (tm_heap m i)" if "i < tm_size m" "0 < i" for i
    using o that by (simp add: heap_ordered_def)
  fix i
  {
    assume i: "i < tm_size (drop_at m' p)" "0 < i \<and> i \<noteq> p"
    have "h_to (tm_heap m (PARENT p)) \<le> h_to (tm_heap m p)" using o' c assms(6) by simp
    then have "h_to (tm_heap m (tm_size m - 1)) \<le> h_to (tm_heap m p)" using c(2) by order
    moreover have oi: "h_to (tm_heap m (PARENT i)) \<le> h_to (tm_heap m i)" using o' [of i] i h by simp
    ultimately have "PARENT i = p \<Longrightarrow> h_to (tm_heap m (tm_size m - 1)) \<le> h_to (tm_heap m i)" by auto
    then show "h_to (tm_heap (drop_at m' p) (PARENT i)) \<le> h_to (tm_heap (drop_at m' p) i)"
      using i oi h by simp
  next
    assume i: "i < tm_size (drop_at m' p)" "0 < i \<and> PARENT i = p \<and> 0 < p"
    have "h_to (tm_heap m (PARENT p)) \<le> h_to (tm_heap m p)" "h_to (tm_heap m p) \<le> h_to (tm_heap m i)"
      using o' [of p] o' [of i] i h assms(6) by auto
    moreover have "i \<noteq> p" using PARENT_less [of i] i by auto
    ultimately show "h_to (tm_heap (drop_at m' p) (PARENT p)) \<le> h_to (tm_heap (drop_at m' p) i)"
      using h pp by auto
  }
qed

section \<open>The operations refine a map of timers\<close>

lemma heap_ordered_root:
  assumes "heap_ordered m"
  shows "i < tm_size m \<Longrightarrow> h_to (tm_heap m 0) \<le> h_to (tm_heap m i)"
proof (induction i rule: less_induct)
  case (less i)
  show ?case
  proof (cases "i = 0")
    case False
    then have "h_to (tm_heap m 0) \<le> h_to (tm_heap m (PARENT i))"
      using less PARENT_less [of i] by simp
    moreover have "h_to (tm_heap m (PARENT i)) \<le> h_to (tm_heap m i)"
      using assms less.prems False by (simp add: heap_ordered_def)
    ultimately show ?thesis by order
  qed simp
qed

definition deadline :: "tomgr \<Rightarrow> nat \<Rightarrow> u64" where
  "deadline m e = te_to (tm_entries m e)"

lemma timers_deadline: "timers m e = Some (ty, t, d) \<Longrightarrow> deadline m e = t"
  by (auto simp: timers_def timer_of_def deadline_def split: if_splits)

lemma tomgr_init_wf: "tomgr_init True m0 = Some m \<Longrightarrow> tm_wf m \<and> timers m = Map.empty"
  by (auto simp: tomgr_init_def tm_wf_def tm_sync_def slots_def heap_ordered_def timers_def)

lemma tomgr_peek_min:
  assumes "tm_wf m"
  shows "tomgr_peek m = None \<longleftrightarrow> timers m = Map.empty"
    and "tomgr_peek m = Some e \<Longrightarrow> e \<in> dom (timers m) \<and> (\<forall>f \<in> dom (timers m). deadline m e \<le> deadline m f)"
proof -
  have "tm_size m = 0 \<longleftrightarrow> slots m = {}" by (auto simp: slots_def)
  then show "tomgr_peek m = None \<longleftrightarrow> timers m = Map.empty"
    by (auto simp: tomgr_peek_def dom_timers [symmetric] simp del: dom_timers)
  assume "tomgr_peek m = Some e"
  then have e: "0 < tm_size m" "e = h_idx (tm_heap m 0)" by (auto simp: tomgr_peek_def split: if_splits)
  have "deadline m e \<le> deadline m f" if f: "f \<in> slots m" for f
  proof -
    obtain i where i: "i < tm_size m" "f = h_idx (tm_heap m i)" using f by (auto simp: slots_def)
    then show ?thesis using heap_ordered_root [of m i] e assms by (simp add: tm_wf_def tm_sync_def deadline_def)
  qed
  then show "e \<in> dom (timers m) \<and> (\<forall>f \<in> dom (timers m). deadline m e \<le> deadline m f)"
    using e by (auto simp: slots_def)
qed

lemma tomgr_pop_refines:
  assumes w: "tm_wf m" and "tomgr_pop m = (m', r)"
  shows "tm_wf m'" and "r = tomgr_peek m" and "r = None \<Longrightarrow> m' = m"
    and "r = Some e \<Longrightarrow> timers m' = (timers m)(e := None)" and "timer_of m' = timer_of m"
proof -
  let ?e = "h_idx (tm_heap m 0)"
  let ?m1 = "set_heap_idx ?e TO_INVALID m"
  have ws: "tm_sync m" "heap_ordered m" using w by (simp_all add: tm_wf_def)
  have z: "tm_size m = 0 \<Longrightarrow> m' = m \<and> r = None \<and> tomgr_peek m = None"
    using assms(2) by (simp add: tomgr_pop_def tomgr_peek_def)
  have nz: "tm_wf m' \<and> r = Some ?e \<and> timers m' = (timers m)(?e := None) \<and> timer_of m' = timer_of m"
    if n: "0 < tm_size m"
  proof -
    have m': "m' = heapify_down (drop_at ?m1 0) 0" "r = Some ?e" using assms(2) tomgr_pop_alt [OF n] by simp_all
    have u: "te_heap_idx (tm_entries m f) \<noteq> TO_INVALID" if "f \<in> slots m" for f
      using ws(1) that by (simp add: tm_sync_def)
    have d: "tm_sync (drop_at ?m1 0)" "timers (drop_at ?m1 0) = (timers m)(?e := None)"
      by (rule drop_at_sync [OF ws(1) n]; simp add: u)+
    have "ordered_down (drop_at ?m1 0) 0" by (rule drop_at_ordered_down [OF ws(2)]) (use n in simp_all)
    then show ?thesis using m' d heapify_down_sync [OF d(1), of 0] heapify_down_ordered by (simp add: tm_wf_def)
  qed
  have p: "0 < tm_size m \<Longrightarrow> tomgr_peek m = Some ?e" by (simp add: tomgr_peek_def)
  show "tm_wf m'" using z nz w by (cases "tm_size m = 0") auto
  show "r = tomgr_peek m" using z nz p by (cases "tm_size m = 0") auto
  show "r = None \<Longrightarrow> m' = m" using z nz by (cases "tm_size m = 0") auto
  show "r = Some e \<Longrightarrow> timers m' = (timers m)(e := None)" using z nz by (cases "tm_size m = 0") auto
  show "timer_of m' = timer_of m" using z nz by (cases "tm_size m = 0") auto
qed

lemma find_free_entry_free:
  "find_free_entry m = Some e \<Longrightarrow> e < TOMGR_SIZE \<and> te_heap_idx (tm_entries m e) = TO_INVALID"
  by (auto simp: find_free_entry_def find_Some_iff)

lemma tomgr_insert_refines:
  assumes w: "tm_wf m" and i: "tomgr_insert m ty t d = (m', Some e)"
  shows "tm_wf m'" and "e \<notin> dom (timers m)" and "timers m' = (timers m)(e \<mapsto> (ty, t, d))"
proof -
  let ?m1 = "m\<lparr>tm_entries := (tm_entries m)(e := \<lparr>te_type = ty, te_to = t, te_data = d, te_heap_idx = tm_size m\<rparr>)\<rparr>"
  let ?m2 = "?m1\<lparr>tm_heap := (tm_heap m)(tm_size m := \<lparr>h_idx = e, h_to = t\<rparr>), tm_size := tm_size m + 1\<rparr>"
  have ws: "tm_sync m" "heap_ordered m" using w by (simp_all add: tm_wf_def)
  from i have c: "tm_size m < TOMGR_SIZE" "find_free_entry m = Some e" "m' = heapify_up ?m2 (tm_size m)"
    by (auto simp: tomgr_insert_def Let_def split: if_splits option.splits)
  note f = find_free_entry_free [OF c(2)]
  have e: "e \<notin> slots m" using f ws(1) by (auto simp: tm_sync_def)
  then show "e \<notin> dom (timers m)" by simp
  have sl: "slots ?m2 = insert e (slots m)"
    unfolding slots_def by (auto simp: lessThan_Suc image_iff)
  have inj: "inj_on (\<lambda>i. h_idx (tm_heap m i)) {..< tm_size m}" using ws(1) by (simp add: tm_sync_def)
  have "inj_on (\<lambda>i. h_idx (tm_heap ?m2 i)) {..< tm_size ?m2}"
    using inj e by (auto simp: inj_on_def slots_def lessThan_Suc image_iff)
  moreover have "h_to (tm_heap ?m2 k) = te_to (tm_entries ?m2 (h_idx (tm_heap ?m2 k)))" if "k < tm_size ?m2" for k
    using ws(1) e that by (auto simp: tm_sync_def slots_def less_Suc_eq)
  ultimately have s: "tm_sync ?m2" using ws(1) sl c(1) f by (simp add: tm_sync_def)
  have "timers ?m2 = (timers m)(e \<mapsto> (ty, t, d))"
    using sl by (auto simp: timers_def timer_of_def fun_eq_iff)
  then show "timers m' = (timers m)(e \<mapsto> (ty, t, d))" using c(3) heapify_up_sync [OF s, of "tm_size m"] by simp
  have "ordered_up ?m2 (tm_size m)"
    unfolding ordered_up_def
  proof (intro conjI allI impI)
    fix i
    assume "i < tm_size ?m2" "0 < i \<and> i \<noteq> tm_size m"
    then show "h_to (tm_heap ?m2 (PARENT i)) \<le> h_to (tm_heap ?m2 i)"
      using ws(2) PARENT_less [of i] by (auto simp: heap_ordered_def)
  next
    fix i
    assume "i < tm_size ?m2" "0 < i \<and> PARENT i = tm_size m \<and> 0 < tm_size m"
    then show "h_to (tm_heap ?m2 (PARENT (tm_size m))) \<le> h_to (tm_heap ?m2 i)"
      using PARENT_less [of i] by simp
  qed
  then have "heap_ordered m'" using c(3) heapify_up_ordered by simp
  then show "tm_wf m'" using c(3) heapify_up_sync [OF s, of "tm_size m"] by (simp add: tm_wf_def)
qed

lemma tomgr_insert_fail: "tomgr_insert m ty t d = (m', None) \<Longrightarrow> m' = m"
  by (auto simp: tomgr_insert_def Let_def split: if_splits option.splits)

text \<open>
  What \<^verbatim>\<open>tomgr_cancel\<close> does when the position stored in the entry is the entry's own: the last
  position takes its place. The writes to \<^verbatim>\<open>heap_idx\<close> in between are collected in one state.
\<close>

definition cancel_marks :: "tomgr \<Rightarrow> nat \<Rightarrow> tomgr" where
  "cancel_marks m e =
     (let p = te_heap_idx (tm_entries m e) in
      if tm_size m = 1 then set_heap_idx e TO_INVALID m
      else set_heap_idx (h_idx (tm_heap m (tm_size m - 1))) p (set_heap_idx e TO_INVALID m))"

lemma cancel_marks_simps [simp]:
  "tm_heap (cancel_marks m e) = tm_heap m" "tm_size (cancel_marks m e) = tm_size m"
  "timer_of (cancel_marks m e) = timer_of m"
  by (simp_all add: cancel_marks_def Let_def)

lemma tomgr_cancel_fail: "tomgr_cancel m e = (m', r) \<Longrightarrow> r \<noteq> 0 \<Longrightarrow> r = -1 \<and> m' = m"
  by (auto simp: tomgr_cancel_def Let_def split: if_splits)

lemma tomgr_cancel_fail_iff:
  "snd (tomgr_cancel m e) = -1 \<longleftrightarrow>
     te_heap_idx (tm_entries m e) \<ge> tm_size m \<or> h_idx (tm_heap m (te_heap_idx (tm_entries m e))) \<noteq> e"
  by (simp add: tomgr_cancel_def Let_def)

lemma tomgr_cancel_alt:
  assumes "tomgr_cancel m e = (m', 0)"
  defines "p \<equiv> te_heap_idx (tm_entries m e)" and "m4 \<equiv> drop_at (cancel_marks m e) (te_heap_idx (tm_entries m e))"
  shows "p < tm_size m" and "h_idx (tm_heap m p) = e"
    and "m' = (if p < tm_size m - 1
       then (if 0 < p \<and> h_to (tm_heap m4 (PARENT p)) > h_to (tm_heap m4 p) then heapify_up m4 p else heapify_down m4 p)
       else m4)"
proof -
  show p: "p < tm_size m" and e: "h_idx (tm_heap m p) = e"
    using assms(1) by (auto simp: tomgr_cancel_def p_def Let_def not_le split: if_splits)
  have one: "tm_size m = 1 \<Longrightarrow> drop_at (set_heap_idx e TO_INVALID m) p = (set_heap_idx e TO_INVALID m)\<lparr>tm_size := 0\<rparr>"
    using p by (simp add: drop_at_def)
  have "m4 = (if tm_size m = 1 then (set_heap_idx e TO_INVALID m)\<lparr>tm_size := 0\<rparr>
      else set_heap_idx (h_idx (tm_heap m (tm_size m - 1))) p (set_heap_idx e TO_INVALID m)
        \<lparr>tm_heap := (tm_heap m)(p := tm_heap m (tm_size m - 1)), tm_size := tm_size m - 1\<rparr>)"
    using one by (simp add: m4_def cancel_marks_def p_def [symmetric] Let_def drop_at_def)
  moreover have "set_heap_idx x p (M\<lparr>tm_heap := h\<rparr>)\<lparr>tm_size := k\<rparr> = (set_heap_idx x p M)\<lparr>tm_heap := h, tm_size := k\<rparr>" for x M h k
    by (simp add: set_heap_idx_def)
  ultimately show "m' = (if p < tm_size m - 1
       then (if 0 < p \<and> h_to (tm_heap m4 (PARENT p)) > h_to (tm_heap m4 p) then heapify_up m4 p else heapify_down m4 p)
       else m4)"
    using assms(1) p e by (auto simp: tomgr_cancel_def p_def [symmetric] Let_def split: if_splits)
qed

lemma tomgr_cancel_refines:
  assumes w: "tm_wf m" and c: "tomgr_cancel m e = (m', 0)"
  shows "tm_wf m'" and "e \<in> dom (timers m)" and "timers m' = (timers m)(e := None)"
    and "timer_of m' = timer_of m"
proof -
  define p where "p = te_heap_idx (tm_entries m e)"
  define m4 where "m4 = drop_at (cancel_marks m e) p"
  note a = tomgr_cancel_alt [OF c, folded p_def, folded m4_def]
  have ws: "tm_sync m" "heap_ordered m" using w by (simp_all add: tm_wf_def)
  then have lt: "p < TOMGR_SIZE" using a(1) by (simp add: tm_sync_def)
  have "te_heap_idx (tm_entries m f) \<noteq> TO_INVALID" if "f \<in> slots m" for f
    using ws(1) that by (simp add: tm_sync_def)
  then have u: "te_heap_idx (tm_entries (cancel_marks m e) f) \<noteq> TO_INVALID" if "f \<in> slots m" "f \<noteq> h_idx (tm_heap m p)" for f
    using that a(2) lt by (simp add: cancel_marks_def Let_def p_def [symmetric])
  have s: "tm_sync m4" "timers m4 = (timers m)(e := None)"
    unfolding m4_def using drop_at_sync [OF ws(1) a(1), of "cancel_marks m e"] u a(2) by simp_all
  show "e \<in> dom (timers m)" using a(1,2) by (auto simp: slots_def)
  have tmo: "timer_of m4 = timer_of m" by (simp add: m4_def)
  have h4: "tm_size m4 = tm_size m - 1" "h_to (tm_heap m4 p) = h_to (tm_heap m (tm_size m - 1))"
    "0 < p \<Longrightarrow> h_to (tm_heap m4 (PARENT p)) = h_to (tm_heap m (PARENT p))"
    using PARENT_less [of p] by (simp_all add: m4_def)
  have "tm_sync m' \<and> timers m' = timers m4 \<and> timer_of m' = timer_of m"
    using a(3) s heapify_up_sync [OF s(1), of p] heapify_down_sync [OF s(1), of p] h4(1) tmo by auto
  then show "timers m' = (timers m)(e := None)" "timer_of m' = timer_of m" using s(2) by simp_all
  have "heap_ordered m'"
  proof (cases "p < tm_size m - 1")
    case True
    show ?thesis
    proof (cases "0 < p \<and> h_to (tm_heap m4 (PARENT p)) > h_to (tm_heap m4 p)")
      case up: True
      then have "ordered_up m4 p" unfolding m4_def using h4 a(1)
        by (intro drop_at_ordered_up [OF ws(2)]) (simp_all add: m4_def)
      then show ?thesis using a(3) up True heapify_up_ordered h4(1) by simp
    next
      case False
      then have "ordered_down m4 p" unfolding m4_def using h4 a(1)
        by (intro drop_at_ordered_down [OF ws(2)]) (auto simp: m4_def not_less)
      then have "heap_ordered (heapify_down m4 p)" by (rule heapify_down_ordered)
      then show ?thesis using a(3) False True by auto
    qed
  next
    case False
    then have "m' = m4" "p = tm_size m - 1" using a by auto
    then have "tm_heap m' = tm_heap m" "tm_size m' = tm_size m - 1" by (simp_all add: m4_def)
    then show ?thesis using ws(2) by (simp add: heap_ordered_def)
  qed
  with \<open>tm_sync m' \<and> timers m' = timers m4 \<and> timer_of m' = timer_of m\<close> show "tm_wf m'" by (simp add: tm_wf_def)
qed

section \<open>The contract of a timer queue\<close>

text \<open>
  The expiry loop of the clients (\<^verbatim>\<open>tcp_timeout_poll\<close> and \<^verbatim>\<open>poll_timeouts\<close>), without their
  handlers: pop while the earliest deadline has passed, at most \<open>n\<close> times.
\<close>

fun expire :: "('s \<Rightarrow> 'e option) \<Rightarrow> ('s \<Rightarrow> 's \<times> 'e option) \<Rightarrow> ('s \<Rightarrow> 'e \<Rightarrow> 'k :: linorder) \<Rightarrow> 'k \<Rightarrow> nat \<Rightarrow> 's \<Rightarrow> 's \<times> 'e list" where
  "expire peek pop due now 0 s = (s, [])"
| "expire peek pop due now (Suc n) s =
     (case peek s of None \<Rightarrow> (s, [])
      | Some e \<Rightarrow> if now \<le> due s e then (s, [])
          else case pop s of (s', None) \<Rightarrow> (s', [])
               | (s', Some e') \<Rightarrow> (case expire peek pop due now n s' of (s'', es) \<Rightarrow> (s'', e' # es)))"

locale timer_queue =
  fixes ins :: "'v \<Rightarrow> 's \<Rightarrow> 's \<times> 'e option"
    and cancel :: "'s \<Rightarrow> 'e \<Rightarrow> 's \<times> int"
    and peek :: "'s \<Rightarrow> 'e option"
    and pop :: "'s \<Rightarrow> 's \<times> 'e option"
    and tms :: "'s \<Rightarrow> 'e \<rightharpoonup> 'v"
    and due :: "'s \<Rightarrow> 'e \<Rightarrow> 'k :: linorder"
    and wf :: "'s \<Rightarrow> bool"
  assumes ins_ok: "wf s \<Longrightarrow> ins v s = (s', Some e) \<Longrightarrow> wf s' \<and> e \<notin> dom (tms s) \<and> tms s' = (tms s)(e \<mapsto> v)"
    and ins_fail: "ins v s = (s', None) \<Longrightarrow> s' = s"
    and cancel_ok: "wf s \<Longrightarrow> cancel s e = (s', 0) \<Longrightarrow> wf s' \<and> e \<in> dom (tms s) \<and> tms s' = (tms s)(e := None)"
    and cancel_fail: "cancel s e = (s', r) \<Longrightarrow> r \<noteq> 0 \<Longrightarrow> s' = s"
    and peek_none: "wf s \<Longrightarrow> peek s = None \<longleftrightarrow> tms s = Map.empty"
    and peek_min: "wf s \<Longrightarrow> peek s = Some e \<Longrightarrow> e \<in> dom (tms s) \<and> (\<forall>f \<in> dom (tms s). due s e \<le> due s f)"
    and pop_ok: "wf s \<Longrightarrow> peek s = Some e \<Longrightarrow>
       \<exists>s'. pop s = (s', Some e) \<and> wf s' \<and> tms s' = (tms s)(e := None) \<and> due s' = due s"
begin

lemma expire_step:
  assumes "wf s" "peek s = Some e" "due s e < now"
  obtains s' where "pop s = (s', Some e)" "wf s'" "tms s' = (tms s)(e := None)" "due s' = due s"
    "expire peek pop due now (Suc n) s = (case expire peek pop due now n s' of (s'', es) \<Rightarrow> (s'', e # es))"
  using pop_ok [OF assms(1,2)] assms by (auto simp: not_le [symmetric])

lemma expire_spec:
  "wf s \<Longrightarrow> expire peek pop due now n s = (s', es) \<Longrightarrow>
   wf s' \<and> distinct es \<and> set es \<subseteq> dom (tms s) \<and> tms s' = tms s |` (- set es) \<and> due s' = due s \<and>
   sorted (map (due s) es) \<and> (\<forall>e \<in> set es. due s e < now \<and> (\<forall>f \<in> dom (tms s'). due s e \<le> due s f)) \<and>
   (length es < n \<longrightarrow> (\<forall>f \<in> dom (tms s'). now \<le> due s f))"
proof (induction n arbitrary: s es)
  case 0
  then show ?case by auto
next
  case (Suc n)
  show ?case
  proof (cases "\<exists>e. peek s = Some e \<and> due s e < now")
    case True
    then obtain e where e: "peek s = Some e" "due s e < now" by blast
    note pm = peek_min [OF Suc.prems(1) e(1)]
    obtain s1 where s1: "wf s1" "tms s1 = (tms s)(e := None)" "due s1 = due s"
        "expire peek pop due now (Suc n) s = (case expire peek pop due now n s1 of (s'', es) \<Rightarrow> (s'', e # es))"
      using expire_step [OF Suc.prems(1) e] by metis
    obtain es1 where x: "expire peek pop due now n s1 = (s', es1)" "es = e # es1"
      using Suc.prems(2) s1(4) by (auto split: prod.splits)
    note ih = Suc.IH [OF s1(1) x(1)]
    have res: "tms s' = tms s |` (- set es)"
      using ih s1(2) x(2) by (auto simp: restrict_map_def fun_eq_iff)
    then have "dom (tms s') \<subseteq> dom (tms s)" by (auto simp: restrict_map_def split: if_splits)
    moreover have "dom (tms s1) = dom (tms s) - {e}" using s1(2) by simp
    then have "set es1 \<subseteq> dom (tms s)" "e \<notin> set es1" using ih by blast+
    moreover have "wf s'" "distinct es1" "due s' = due s" "sorted (map (due s) es1)"
        "\<forall>e \<in> set es1. due s e < now \<and> (\<forall>f \<in> dom (tms s'). due s e \<le> due s f)"
        "length es1 < n \<longrightarrow> (\<forall>f \<in> dom (tms s'). now \<le> due s f)"
      using ih unfolding s1(3) by blast+
    ultimately have "wf s' \<and> distinct es \<and> set es \<subseteq> dom (tms s) \<and> due s' = due s \<and> sorted (map (due s) es) \<and>
        (\<forall>e \<in> set es. due s e < now \<and> (\<forall>f \<in> dom (tms s'). due s e \<le> due s f)) \<and>
        (length es < Suc n \<longrightarrow> (\<forall>f \<in> dom (tms s'). now \<le> due s f))"
      using x(2) pm e(2) by (simp add: subset_iff)
    with res show ?thesis by blast
  next
    case False
    then have "(s', es) = (s, [])" using Suc.prems(2) by (auto split: option.splits if_splits)
    moreover have "now \<le> due s f" if "f \<in> dom (tms s)" for f
    proof (cases "peek s")
      case None
      then show ?thesis using peek_none [OF Suc.prems(1)] that by simp
    next
      case (Some e)
      then show ?thesis using peek_min [OF Suc.prems(1) Some] False that by (meson not_less order_trans)
    qed
    ultimately show ?thesis using Suc.prems(1) by auto
  qed
qed

end

definition tm_ins :: "u8 \<times> u64 \<times> ptr \<Rightarrow> tomgr \<Rightarrow> tomgr \<times> nat option" where
  "tm_ins v m = (case v of (ty, t, d) \<Rightarrow> tomgr_insert m ty t d)"

lemma timer_of_deadline: "timer_of m' = timer_of m \<Longrightarrow> deadline m' = deadline m"
  by (simp add: timer_of_def deadline_def fun_eq_iff)

interpretation tmq: timer_queue tm_ins tomgr_cancel tomgr_peek tomgr_pop timers deadline tm_wf
proof unfold_locales
  fix s v s' e
  assume a: "tm_wf s" "tm_ins v s = (s', Some e)"
  obtain ty t d where v: "v = (ty, t, d)" by (cases v)
  with a have "tomgr_insert s ty t d = (s', Some e)" by (simp add: tm_ins_def)
  from tomgr_insert_refines [OF a(1) this] show "tm_wf s' \<and> e \<notin> dom (timers s) \<and> timers s' = (timers s)(e \<mapsto> v)"
    using v by blast
next
  fix s e
  assume w: "tm_wf s" "tomgr_peek s = Some e"
  obtain s' r where p: "tomgr_pop s = (s', r)" by (cases "tomgr_pop s")
  note q = tomgr_pop_refines [OF w(1) p]
  show "\<exists>s'. tomgr_pop s = (s', Some e) \<and> tm_wf s' \<and> timers s' = (timers s)(e := None) \<and> deadline s' = deadline s"
    using p q(1,2,4) w(2) timer_of_deadline [OF q(5)] by (simp del: dom_timers)
next
  fix v s s'
  assume "tm_ins v s = (s', None)"
  then show "s' = s" using tomgr_insert_fail by (cases v) (simp add: tm_ins_def)
next
  fix s e s'
  assume "tm_wf s" "tomgr_cancel s e = (s', 0)"
  then show "tm_wf s' \<and> e \<in> dom (timers s) \<and> timers s' = (timers s)(e := None)"
    using tomgr_cancel_refines by blast
next
  fix s e s' r
  assume "tomgr_cancel s e = (s', r)" "r \<noteq> 0"
  then show "s' = s" using tomgr_cancel_fail by blast
next
  fix s e
  assume w: "tm_wf s"
  then show "tomgr_peek s = None \<longleftrightarrow> timers s = Map.empty" by (rule tomgr_peek_min(1))
  assume "tomgr_peek s = Some e"
  with w show "e \<in> dom (timers s) \<and> (\<forall>f \<in> dom (timers s). deadline s e \<le> deadline s f)" by (rule tomgr_peek_min(2))
qed

section \<open>Properties\<close>

text \<open>A sequence of timer requests, with the entry each successful insertion returns.\<close>

datatype tm_op = TIns u8 u64 ptr | TCancel nat | TPop

definition tm_step :: "tomgr \<Rightarrow> tm_op \<Rightarrow> tomgr" where
  "tm_step m opn = (case opn of TIns ty t d \<Rightarrow> fst (tomgr_insert m ty t d) | TCancel e \<Rightarrow> fst (tomgr_cancel m e)
     | TPop \<Rightarrow> fst (tomgr_pop m))"

lemma tm_step_wf: "tm_wf m \<Longrightarrow> tm_wf (tm_step m opn)"
proof (cases opn)
  case (TIns ty t d)
  assume "tm_wf m"
  then show ?thesis
    using TIns tomgr_insert_refines(1) [of m ty t d] tomgr_insert_fail [of m ty t d]
    by (cases "tomgr_insert m ty t d"; cases "snd (tomgr_insert m ty t d)") (auto simp: tm_step_def)
next
  case (TCancel e)
  assume "tm_wf m"
  then show ?thesis
    using TCancel tomgr_cancel_refines(1) [of m e] tomgr_cancel_fail [of m e]
    by (cases "tomgr_cancel m e"; cases "snd (tomgr_cancel m e) = 0") (auto simp: tm_step_def)
next
  case TPop
  assume "tm_wf m"
  then show ?thesis
    using TPop tomgr_pop_refines(1) [of m] by (cases "tomgr_pop m") (auto simp: tm_step_def)
qed

lemma tm_steps_wf: "tm_wf m \<Longrightarrow> tm_wf (foldl tm_step m ops)"
  by (induction ops arbitrary: m) (auto simp: tm_step_wf)


text \<open>Two pending timers, due at 10 and 20, in entries 0 and 1.\<close>

definition tm_two :: tomgr where
  "tm_two = \<lparr>tm_heap = \<lambda>i. if i = 0 then \<lparr>h_idx = 0, h_to = 10\<rparr> else \<lparr>h_idx = 1, h_to = 20\<rparr>,
     tm_entries = \<lambda>i. if i = 0 then \<lparr>te_type = 0, te_to = 10, te_data = 7, te_heap_idx = 0\<rparr>
        else if i = 1 then \<lparr>te_type = 0, te_to = 20, te_data = 8, te_heap_idx = 1\<rparr>
        else \<lparr>te_type = 0, te_to = 0, te_data = 0, te_heap_idx = TO_INVALID\<rparr>, tm_size = 2\<rparr>"

lemma less_two: "(i :: nat) < 2 \<longleftrightarrow> i = 0 \<or> i = 1"
  by auto

lemma tm_two_slots: "slots tm_two = {0, 1}"
  by (auto simp: slots_def tm_two_def less_two lessThan_def)

lemma tm_two_wf: "tm_wf tm_two"
  unfolding tm_wf_def tm_sync_def heap_ordered_def tm_two_slots
  by (auto simp: tm_two_def PARENT_def inj_on_def less_two lessThan_def)




text \<open>
  a pop can make a timer impossible to cancel. \<^verbatim>\<open>tomgr_pop\<close> moves the last heap element to the
  root without updating the position stored in its entry; with two timers pending, the survivor
  of a pop keeps its old position, so that cancelling it returns -1 and it stays pending.
\<close>

theorem tomgr_pop_loses_cancel:
  assumes "tm_wf m" and "tm_size m = 2" and "h_idx (tm_heap m 1) = e" and "te_heap_idx (tm_entries m e) = 1"
  shows "e \<in> dom (timers (fst (tomgr_pop m))) \<and> tomgr_cancel (fst (tomgr_pop m)) e = (fst (tomgr_pop m), -1)"
proof -
  let ?e0 = "h_idx (tm_heap m 0)"
  let ?d = "drop_at (set_heap_idx ?e0 TO_INVALID m) 0"
  have s: "tm_sync m" using assms(1) by (simp add: tm_wf_def)
  have "inj_on (\<lambda>i. h_idx (tm_heap m i)) {..< 2}" using s assms(2) by (simp add: tm_sync_def)
  then have "h_idx (tm_heap m 0) = h_idx (tm_heap m 1) \<Longrightarrow> (0 :: nat) = 1" by (rule inj_onD) simp_all
  then have ne: "?e0 \<noteq> e" unfolding assms(3) [symmetric] by (metis zero_neq_one)
  have "smallest_child ?d 0 = 0" using assms(2) by (simp add: smallest_child_def LEFT_def RIGHT_def)
  then have "heapify_down ?d 0 = ?d" by (subst heapify_down.simps) simp
  then have p: "fst (tomgr_pop m) = ?d" using assms(2) by (simp add: tomgr_pop_alt)
  have "e \<in> dom (timers ?d)" using assms(2,3) by (auto simp: slots_def)
  moreover have "tomgr_cancel ?d e = (?d, -1)" using assms ne by (simp add: tomgr_cancel_def)
  ultimately show ?thesis using p by simp
qed

theorem tomgr_pop_loses_cancel_witness:
  "1 \<in> dom (timers (fst (tomgr_pop tm_two))) \<and> tomgr_cancel (fst (tomgr_pop tm_two)) 1 = (fst (tomgr_pop tm_two), -1)"
  by (rule tomgr_pop_loses_cancel [OF tm_two_wf]) (simp_all add: tm_two_def)

text \<open>
  Cancelling the timer at the last heap position loses its entry. \<^verbatim>\<open>tomgr_cancel\<close> marks the
  entry free and then, because the last position is copied onto itself, writes the position back:
  the timer is no longer pending, but its entry is never again found free.
\<close>

theorem tomgr_cancel_last_leaks:
  assumes "tm_wf m" and "2 \<le> tm_size m" and "te_heap_idx (tm_entries m e) = tm_size m - 1"
    and "h_idx (tm_heap m (tm_size m - 1)) = e"
  shows "snd (tomgr_cancel m e) = 0 \<and> e \<notin> dom (timers (fst (tomgr_cancel m e))) \<and>
    te_heap_idx (tm_entries (fst (tomgr_cancel m e)) e) \<noteq> TO_INVALID \<and>
    find_free_entry (fst (tomgr_cancel m e)) \<noteq> Some e"
proof -
  let ?m' = "fst (tomgr_cancel m e)"
  have z: "snd (tomgr_cancel m e) = 0" using assms by (simp add: tomgr_cancel_def Let_def)
  then have c: "tomgr_cancel m e = (?m', 0)" by (metis prod.collapse)
  have h: "te_heap_idx (tm_entries ?m' e) = tm_size m - 1"
    using tomgr_cancel_alt(3) [OF c] assms by (simp add: cancel_marks_def Let_def)
  moreover have "tm_size m \<le> TOMGR_SIZE" using assms(1) by (simp add: tm_wf_def tm_sync_def)
  ultimately have "te_heap_idx (tm_entries ?m' e) \<noteq> TO_INVALID" using assms(2) by simp
  moreover from this have "find_free_entry ?m' \<noteq> Some e" using find_free_entry_free by blast
  moreover have "e \<notin> dom (timers ?m')" using tomgr_cancel_refines(3) [OF assms(1) c] by simp
  ultimately show ?thesis using z by blast
qed

theorem tomgr_cancel_last_leaks_witness:
  "te_heap_idx (tm_entries (fst (tomgr_cancel tm_two 1)) 1) \<noteq> TO_INVALID \<and> 1 \<notin> dom (timers (fst (tomgr_cancel tm_two 1)))"
proof -
  have "2 \<le> tm_size tm_two" "te_heap_idx (tm_entries tm_two 1) = tm_size tm_two - 1"
    "h_idx (tm_heap tm_two (tm_size tm_two - 1)) = 1"
    by (simp_all add: tm_two_def)
  from tomgr_cancel_last_leaks [OF tm_two_wf this] show ?thesis by blast
qed

end
