(* ===== verification/Control_Arp.thy ===== *)
theory Control_Arp
  imports Arp Tomgr
begin

unbundle bit_operations_syntax

text \<open>
  The ARP handlers of the control path (\<^verbatim>\<open>chamelio/control/control_arp.c\<close>): they drive the ARP table,
  the buffer of waiting packets, the timeout manager and the queues to the fast path. A pointer to
  a bucket is stored in a timer as the bucket number plus one, so that 0 is \<^verbatim>\<open>NULL\<close>; a handler
  that dereferences \<^verbatim>\<open>NULL\<close> ends in a fault.
\<close>

section \<open>The handlers\<close>

datatype ctl_fault = NullDeref

abbreviation TO_ARP :: u8 where "TO_ARP \<equiv> 0"

record control_context =
  ca_table :: arp_table
  ca_buf :: arp_buf
  ca_tomgr :: tomgr
  ca_cfqs :: "nat \<Rightarrow> cqueue"
  ca_txq :: cqueue
  ca_ip :: u32
  ca_mac :: mac
  ca_cores :: u32

definition ptr_of_bucket :: "u32 option \<Rightarrow> ptr" where
  "ptr_of_bucket b = (case b of None \<Rightarrow> 0 | Some i \<Rightarrow> ucast i + 1)"

definition bucket_of_ptr :: "ptr \<Rightarrow> u32" where
  "bucket_of_ptr p = ucast (p - 1)"

text \<open>The first six bytes of a 64-bit field, in memory order.\<close>

definition mac_of_u64 :: "u64 \<Rightarrow> mac" where
  "mac_of_u64 w = map (\<lambda>i. ucast (drop_bit (8 * i) w)) [0 ..< ETH_ADDR_LEN]"

definition set_te :: "control_context \<Rightarrow> u32 \<Rightarrow> nat option \<Rightarrow> control_context" where
  "set_te c i t = c\<lparr>ca_table := set_bucket (ca_table c) i ((buckets (ca_table c) i)\<lparr>ae_te := t\<rparr>)\<rparr>"

definition send_request :: "control_context \<Rightarrow> u32 \<Rightarrow> int \<times> control_context" where
  "send_request c ip =
     (case arp_request (ca_txq c) (ca_cfqs c 0) ip (ca_mac c) (ca_ip c) of
        (r, txq, cfq) \<Rightarrow> (r, c\<lparr>ca_txq := txq, ca_cfqs := (ca_cfqs c)(0 := cfq)\<rparr>))"

text \<open>\<open>after\<close> is the value \<^verbatim>\<open>clock_tsc_after_us(ARP_TIMEOUT)\<close> returns.\<close>

definition control_arp_timeout :: "u64 \<Rightarrow> control_context \<Rightarrow> nat \<Rightarrow> control_context" where
  "control_arp_timeout after c te =
     (let i = bucket_of_ptr (te_data (tm_entries (ca_tomgr c) te));
          ae = buckets (ca_table c) i
      in if ae_pending ae = 0 then c
         else case send_request c (ae_ip ae) of (r, c1) \<Rightarrow>
           if r \<noteq> 0 then c1
           else case tomgr_insert (ca_tomgr c1) TO_ARP after (ptr_of_bucket (Some i)) of
                  (tm, None) \<Rightarrow> c1\<lparr>ca_tomgr := tm\<rparr>
                | (tm, Some e) \<Rightarrow> set_te (c1\<lparr>ca_tomgr := tm\<rparr>) i (Some e))"

definition control_arp_lookup :: "u64 \<Rightarrow> control_context \<Rightarrow> queue_arp_lookup \<Rightarrow> ctl_fault + control_context" where
  "control_arp_lookup after c le =
     (case arp_lookup (ca_table c) (alk_ip le) of
        Some _ \<Rightarrow> Inr c
      | None \<Rightarrow>
        (case arp_insert_pending (ca_table c) (alk_ip le) of (tab, ae) \<Rightarrow>
         case send_request (c\<lparr>ca_table := tab\<rparr>) (alk_ip le) of (r, c1) \<Rightarrow>
           if r \<noteq> 0 then Inr c1
           else case tomgr_insert (ca_tomgr c1) TO_ARP after (ptr_of_bucket ae) of
                  (tm, None) \<Rightarrow> Inr (c1\<lparr>ca_tomgr := tm\<rparr>)
                | (tm, Some e) \<Rightarrow>
                    (case ae of None \<Rightarrow> Inl NullDeref
                     | Some i \<Rightarrow> Inr (set_te (c1\<lparr>ca_tomgr := tm\<rparr>) i (Some e)))))"

definition control_arp_mbuf :: "control_context \<Rightarrow> queue_mbuf_pending \<Rightarrow> u16 \<Rightarrow> control_context" where
  "control_arp_mbuf c mbe core =
     (let resolved = (case arp_lookup (ca_table c) (mbp_ip mbe) of None \<Rightarrow> False
                      | Some i \<Rightarrow> ae_pending (buckets (ca_table c) i) = 0)
      in if resolved
         then (case queue_put (ca_cfqs c (unat core))
                 (D_mbuf_tx \<lparr>mbt_gid = mbp_gid mbe, mbt_pkt_len = mbp_pkt_len mbe, mbt_mb = mbp_mb mbe\<rparr>) QUEUE_MBUF_TX of
                 (r, q) \<Rightarrow> c\<lparr>ca_cfqs := (ca_cfqs c)(unat core := q)\<rparr>)
         else (case arp_buf_insert (ca_buf c) (mbp_ip mbe) core (mbp_gid mbe) (mbp_pkt_len mbe) (mbp_mb mbe) of
                 (r, b) \<Rightarrow> c\<lparr>ca_buf := b\<rparr>))"

function update_arp_loop :: "nat \<Rightarrow> u32 \<Rightarrow> mac \<Rightarrow> control_context \<Rightarrow> int \<times> control_context" where
  "update_arp_loop i ip m c =
     (if i < unat (ca_cores c) then
        (case queue_put (ca_cfqs c i) (D_arp_update \<lparr>aup_ip = ip, aup_mac = take ETH_ADDR_LEN m\<rparr>) QUEUE_ARP_UPDATE of
           (r, q) \<Rightarrow> let c' = c\<lparr>ca_cfqs := (ca_cfqs c)(i := q)\<rparr>
                     in if r \<noteq> 0 then (r, c') else update_arp_loop (i + 1) ip m c')
      else (0, c))"
  by pat_completeness auto
termination by (relation "measure (\<lambda>(i, ip, m, c). unat (ca_cores c) - i)") auto

definition update_arp_fast :: "control_context \<Rightarrow> u32 \<Rightarrow> mac \<Rightarrow> int \<times> control_context" where
  "update_arp_fast c ip m = update_arp_loop 0 ip m c"

declare update_arp_loop.simps [simp del]

definition flush_ctx :: "control_context \<Rightarrow> u32 \<Rightarrow> control_context" where
  "flush_ctx c ip = (case arp_buf_flush (ca_buf c) ip (ca_cfqs c) of (r, b, qs) \<Rightarrow> c\<lparr>ca_buf := b, ca_cfqs := qs\<rparr>)"

definition reply_ctx :: "control_context \<Rightarrow> mac \<Rightarrow> u32 \<Rightarrow> control_context" where
  "reply_ctx c m ip =
     (case arp_reply (ca_txq c) (ca_cfqs c 0) (ca_mac c) (ca_ip c) m ip of
        (r, txq, cfq) \<Rightarrow> c\<lparr>ca_txq := txq, ca_cfqs := (ca_cfqs c)(0 := cfq)\<rparr>)"

definition control_arp_req :: "control_context \<Rightarrow> queue_arp_rx_req \<Rightarrow> control_context" where
  "control_arp_req c req =
     (let m = mac_of_u64 (arq_sha req)
      in if arq_tpa req \<noteq> ca_ip c then c
         else if (case arp_lookup (ca_table c) (arq_spa req) of None \<Rightarrow> True
                  | Some i \<Rightarrow> ae_pending (buckets (ca_table c) i) \<noteq> 0)
         then (case arp_insert (ca_table c) (arq_spa req) m of
                 (tab, None) \<Rightarrow> c\<lparr>ca_table := tab\<rparr>
               | (tab, Some _) \<Rightarrow>
                   (case update_arp_fast (c\<lparr>ca_table := tab\<rparr>) (arq_spa req) m of (r, c1) \<Rightarrow>
                      if r \<noteq> 0 then c1 else reply_ctx (flush_ctx c1 (arq_spa req)) m (arq_spa req)))
         else reply_ctx c m (arq_spa req))"

definition mac_is_broadcast :: "mac \<Rightarrow> bool" where
  "mac_is_broadcast m \<longleftrightarrow> (\<forall>i < ETH_ADDR_LEN. m ! i = 0xff)"

definition arp_reply_targets_local :: "control_context \<Rightarrow> queue_arp_rx_rep \<Rightarrow> bool" where
  "arp_reply_targets_local c rep =
     (if arr_tpa rep \<noteq> ca_ip c then False
      else let target = mac_of_u64 (arr_tha rep)
           in take ETH_ADDR_LEN target = take ETH_ADDR_LEN (ca_mac c) \<or> mac_is_broadcast target)"

definition control_arp_rep :: "control_context \<Rightarrow> queue_arp_rx_rep \<Rightarrow> ctl_fault + control_context" where
  "control_arp_rep c rep =
     (let m = mac_of_u64 (arr_sha rep)
      in if \<not> arp_reply_targets_local c rep then Inr c
         else if (case arp_lookup (ca_table c) (arr_spa rep) of None \<Rightarrow> True
                  | Some i \<Rightarrow> ae_pending (buckets (ca_table c) i) = 0) then Inr c
         else case arp_insert (ca_table c) (arr_spa rep) m of
                (tab, None) \<Rightarrow> Inl NullDeref
              | (tab, Some i) \<Rightarrow>
                  (let c1 = c\<lparr>ca_table := tab\<rparr>;
                       c2 = (case ae_te (buckets tab i) of None \<Rightarrow> c1
                             | Some te \<Rightarrow> set_te (c1\<lparr>ca_tomgr := fst (tomgr_cancel (ca_tomgr c1) te)\<rparr>) i None)
                   in case update_arp_fast c2 (arr_spa rep) m of (r, c3) \<Rightarrow>
                        if r \<noteq> 0 then Inr c3
                        else Inr (flush_ctx c3 (ae_ip (buckets (ca_table c3) i)))))"

section \<open>What the handlers keep\<close>

text \<open>Sending over the queues and flushing the buffer leave the table and the timers alone.\<close>

lemma update_arp_loop_frame [simp]:
  "ca_table (snd (update_arp_loop i ip m c)) = ca_table c \<and> ca_tomgr (snd (update_arp_loop i ip m c)) = ca_tomgr c"
proof (induction i ip m c rule: update_arp_loop.induct)
  case (1 i ip m c)
  obtain r q where p: "queue_put (ca_cfqs c i) (D_arp_update \<lparr>aup_ip = ip, aup_mac = take ETH_ADDR_LEN m\<rparr>) QUEUE_ARP_UPDATE = (r, q)"
    by (rule prod.exhaust)
  show ?case
  proof (cases "i < unat (ca_cores c) \<and> r = 0")
    case True
    then show ?thesis
      using 1 [OF _ p [symmetric] refl] p by (subst (1 2) update_arp_loop.simps) (simp add: Let_def)
  next
    case False
    then show ?thesis using p by (subst (1 2) update_arp_loop.simps) (auto simp: Let_def)
  qed
qed

lemma update_arp_fast_frame [simp]:
  "ca_table (snd (update_arp_fast c ip m)) = ca_table c" "ca_tomgr (snd (update_arp_fast c ip m)) = ca_tomgr c"
  by (simp_all add: update_arp_fast_def)

lemma queue_frame [simp]:
  "ca_table (snd (send_request c ip)) = ca_table c" "ca_tomgr (snd (send_request c ip)) = ca_tomgr c"
  "ca_table (flush_ctx c ip) = ca_table c" "ca_tomgr (flush_ctx c ip) = ca_tomgr c"
  "ca_table (reply_ctx c m ip) = ca_table c" "ca_tomgr (reply_ctx c m ip) = ca_tomgr c"
  by (simp_all add: send_request_def flush_ctx_def reply_ctx_def split: prod.splits)

lemma set_te_simps [simp]:
  "ca_tomgr (set_te c i t) = ca_tomgr c" "arp_slot_key (ca_table (set_te c i t)) = arp_slot_key (ca_table c)"
  "arp_val (ca_table (set_te c i t)) = arp_val (ca_table c)"
  "ae_ip (buckets (ca_table (set_te c i t)) p) = ae_ip (buckets (ca_table c) p)"
  "ae_pending (buckets (ca_table (set_te c i t)) p) = ae_pending (buckets (ca_table c) p)"
  by (auto simp: set_te_def set_bucket_def arp_slot_key_def arp_val_def fun_eq_iff)

lemma lookup_cong: "(\<And>p. ae_ip (buckets a p) = ae_ip (buckets b p)) \<Longrightarrow> arp_lookup_loop a ip i = arp_lookup_loop b ip i"
proof (induction a ip i rule: arp_lookup_loop.induct)
  case (1 a ip i)
  then show ?case by (subst (1 2) arp_lookup_loop.simps) (auto simp: Let_def)
qed

lemma set_te_binding [simp]: "arp_binding (ca_table (set_te c i t)) = arp_binding (ca_table c)"
  using lookup_cong [of "ca_table (set_te c i t)" "ca_table c"] by (simp add: arp_binding_def arp_lookup_def fun_eq_iff)

text \<open>
  The invariant of the control path's ARP state: the table can be searched, buckets in use never
  hold the empty address and unused buckets are not pending, and the timers are well formed.
\<close>

definition table_wf :: "arp_table \<Rightarrow> bool" where
  "table_wf a \<longleftrightarrow> arpt.wf a \<and> (\<forall>p. unat p < ARP_TABLE_SIZE \<and> ae_ip (buckets a p) = ARP_IP_EMPTY \<longrightarrow> ae_pending (buckets a p) = 0)"

definition ctl_wf :: "control_context \<Rightarrow> bool" where
  "ctl_wf c \<longleftrightarrow> table_wf (ca_table c) \<and> tm_wf (ca_tomgr c)"

lemma table_wf_set_te [simp]: "table_wf (ca_table (set_te c i t)) = table_wf (ca_table c)"
  by (simp add: table_wf_def arpt.wf_def)

lemma table_wf_init: "table_wf (arp_table_init a)"
  using arp_init_wf by (simp add: table_wf_def arp_table_init_def)

lemma arp_put_bucket:
  assumes "arp_put m a ip = (a', r)"
  shows "case r of None \<Rightarrow> a' = a | Some i \<Rightarrow> ae_ip (buckets a' i) = ip \<and> ae_te (buckets a' i) = ae_te (buckets a i) \<and>
     (\<forall>p. p \<noteq> i \<longrightarrow> buckets a' p = buckets a p)"
  using assms by (auto simp: arp_put_def arp_insert_def arp_insert_pending_def set_bucket_def split: option.splits)

lemma arp_put_wf:
  assumes "table_wf a" and "ip \<noteq> ARP_IP_EMPTY" and "arp_put m a ip = (a', r)"
  shows "table_wf a'"
proof -
  have "arpt.wf a'" using assms arpt.insert_wf [of a ip m a' r] by (simp add: table_wf_def)
  moreover have "ae_pending (buckets a' p) = 0" if "unat p < ARP_TABLE_SIZE" "ae_ip (buckets a' p) = ARP_IP_EMPTY" for p
    using arp_put_bucket [OF assms(3)] assms(1,2) that by (cases r; cases "Some p = r") (auto simp: table_wf_def)
  ultimately show ?thesis by (simp add: table_wf_def)
qed

text \<open>The empty address: a lookup finds an unused bucket, an insertion finds one exactly then.\<close>

lemma lookup_empty_ip: "arp_insert_loop a ARP_IP_EMPTY i = arp_lookup_loop a ARP_IP_EMPTY i"
proof (induction a "ARP_IP_EMPTY" i rule: arp_lookup_loop.induct)
  case (1 a i)
  then show ?case by (subst arp_insert_loop.simps, subst arp_lookup_loop.simps) (auto simp: Let_def)
qed

lemma lookup_hit: "arp_lookup_loop a ip i = Some p \<Longrightarrow> ae_ip (buckets a p) = ip \<and> unat p < ARP_TABLE_SIZE"
proof (induction a ip i rule: arp_lookup_loop.induct)
  case (1 a ip i)
  show ?case
    using 1(2) 1(1) [OF _ refl] arp_idx_bound [of i ip]
    by (subst (asm) arp_lookup_loop.simps) (auto simp: Let_def split: if_splits)
qed

lemma empty_ip_unresolved:
  assumes "table_wf a"
  shows "arp_lookup a ARP_IP_EMPTY = Some i \<Longrightarrow> ae_pending (buckets a i) = 0"
    and "arp_lookup a ARP_IP_EMPTY = None \<Longrightarrow> arp_put m a ARP_IP_EMPTY = (a, None)"
proof -
  show "arp_lookup a ARP_IP_EMPTY = Some i \<Longrightarrow> ae_pending (buckets a i) = 0"
    using assms lookup_hit [of a ARP_IP_EMPTY 0 i] by (simp add: table_wf_def arp_lookup_def)
  show "arp_lookup a ARP_IP_EMPTY = None \<Longrightarrow> arp_put m a ARP_IP_EMPTY = (a, None)"
    using lookup_empty_ip [of a 0]
    by (cases m) (simp_all add: arp_lookup_def arp_put_def arp_insert_def arp_insert_pending_def)
qed

text \<open>An insertion of an address a lookup finds goes to the bucket the lookup returned.\<close>

lemma insert_after_lookup:
  assumes "table_wf a" and "ip \<noteq> ARP_IP_EMPTY" and "arp_lookup a ip = Some i"
  shows "\<exists>a'. arp_put m a ip = (a', Some i)"
proof -
  have w: "arpt.wf a" using assms(1) by (simp add: table_wf_def)
  obtain a' r where p: "arp_put m a ip = (a', r)" by (cases "arp_put m a ip")
  have l: "i \<in> arp_idx ip ` {..< ARP_TABLE_SIZE}" "arp_slot_key a i = Some ip"
    using arpt.lookup_iff [OF w assms(2), of i] assms(3) by simp_all
  then have "r \<noteq> None" using arpt.insert_fails_iff [OF assms(2), of m a] p by auto
  then obtain j where j: "r = Some j" by blast
  have w': "arpt.wf a'" using arpt.insert_wf [OF w assms(2) p] .
  have lj: "arp_lookup a' ip = Some j" using arpt.insert_table_map [OF w assms(2) p [unfolded j]] by simp
  have "i = j"
  proof (rule ccontr)
    assume "i \<noteq> j"
    then have "arp_slot_key a' i = Some ip" using arp_put_bucket [OF p] j l(2) by (auto simp: arp_slot_key_def split: if_splits)
    then have "arp_lookup a' ip = Some i" using l(1) by (simp add: arpt.lookup_iff [OF w' assms(2)])
    with lj \<open>i \<noteq> j\<close> show False by simp
  qed
  then show ?thesis using p j by simp
qed

subsection \<open>Each handler keeps the invariant\<close>

lemma tomgr_insert_wf: "tm_wf m \<Longrightarrow> tm_wf (fst (tomgr_insert m ty t d))"
  using tm_step_wf [of m "TIns ty t d"] by (simp add: tm_step_def)

lemma tomgr_cancel_wf: "tm_wf m \<Longrightarrow> tm_wf (fst (tomgr_cancel m e))"
  using tm_step_wf [of m "TCancel e"] by (simp add: tm_step_def)

lemma ctl_wf_simps [simp]:
  "ctl_wf (snd (update_arp_fast c ip m)) = ctl_wf c" "ctl_wf (snd (send_request c ip)) = ctl_wf c"
  "ctl_wf (flush_ctx c ip) = ctl_wf c" "ctl_wf (reply_ctx c m ip) = ctl_wf c" "ctl_wf (set_te c i t) = ctl_wf c"
  by (simp_all add: ctl_wf_def)

lemma timeout_wf:
  assumes "ctl_wf c"
  shows "ctl_wf (control_arp_timeout after c te)"
proof -
  let ?i = "bucket_of_ptr (te_data (tm_entries (ca_tomgr c) te))"
  let ?ip = "ae_ip (buckets (ca_table c) ?i)"
  obtain r c1 where s: "send_request c ?ip = (r, c1)" by (rule prod.exhaust)
  have w1: "ctl_wf c1" using ctl_wf_simps(2) [of c ?ip] s assms by simp
  obtain tm e where t: "tomgr_insert (ca_tomgr c1) TO_ARP after (ptr_of_bucket (Some ?i)) = (tm, e)" by (rule prod.exhaust)
  have "tm_wf tm" using tomgr_insert_wf [of "ca_tomgr c1" TO_ARP after] t w1 by (metis ctl_wf_def fst_conv)
  then have "ctl_wf (c1\<lparr>ca_tomgr := tm\<rparr>)" using w1 by (simp add: ctl_wf_def)
  then show ?thesis using s t assms w1 by (simp add: control_arp_timeout_def Let_def split: option.splits)
qed

lemma lookup_wf:
  assumes "ctl_wf c" and "control_arp_lookup after c le = Inr c'"
  shows "ctl_wf c'"
proof (cases "arp_lookup (ca_table c) (alk_ip le)")
  case (Some i)
  then show ?thesis using assms by (simp add: control_arp_lookup_def)
next
  case None
  obtain tab ae where p: "arp_insert_pending (ca_table c) (alk_ip le) = (tab, ae)" by (rule prod.exhaust)
  then have p': "arp_put None (ca_table c) (alk_ip le) = (tab, ae)" by (simp add: arp_put_def)
  have tw: "table_wf (ca_table c)" using assms(1) by (simp add: ctl_wf_def)
  have "table_wf tab"
  proof (cases "alk_ip le = ARP_IP_EMPTY")
    case True
    then show ?thesis using empty_ip_unresolved(2) [OF tw, of None] None p' tw by simp
  next
    case False
    then show ?thesis using arp_put_wf [OF tw _ p'] by simp
  qed
  then have w0: "ctl_wf (c\<lparr>ca_table := tab\<rparr>)" using assms(1) by (simp add: ctl_wf_def)
  obtain r c1 where s: "send_request (c\<lparr>ca_table := tab\<rparr>) (alk_ip le) = (r, c1)" by (rule prod.exhaust)
  have w1: "ctl_wf c1" using ctl_wf_simps(2) [of "c\<lparr>ca_table := tab\<rparr>" "alk_ip le"] s w0 by simp
  obtain tm e where t: "tomgr_insert (ca_tomgr c1) TO_ARP after (ptr_of_bucket ae) = (tm, e)" by (rule prod.exhaust)
  have "tm_wf tm" using tomgr_insert_wf [of "ca_tomgr c1" TO_ARP after] t w1 by (metis ctl_wf_def fst_conv)
  then have "ctl_wf (c1\<lparr>ca_tomgr := tm\<rparr>)" using w1 by (simp add: ctl_wf_def)
  then show ?thesis
    using assms(2) None p s t w1 by (auto simp: control_arp_lookup_def split: if_splits option.splits)
qed

lemma req_wf:
  assumes "ctl_wf c"
  shows "ctl_wf (control_arp_req c req)"
proof -
  let ?m = "mac_of_u64 (arq_sha req)" and ?ip = "arq_spa req"
  let ?learn = "case arp_lookup (ca_table c) ?ip of None \<Rightarrow> True | Some i \<Rightarrow> ae_pending (buckets (ca_table c) i) \<noteq> 0"
  obtain tab r where p: "arp_insert (ca_table c) ?ip ?m = (tab, r)" by (rule prod.exhaust)
  then have p': "arp_put (Some ?m) (ca_table c) ?ip = (tab, r)" by (simp add: arp_put_def)
  have tw: "table_wf (ca_table c)" using assms(1) by (simp add: ctl_wf_def)
  have "table_wf tab" if ?learn
  proof (cases "?ip = ARP_IP_EMPTY")
    case True
    then have "arp_lookup (ca_table c) ?ip = None"
      using that empty_ip_unresolved(1) [OF tw] by (auto split: option.splits)
    then show ?thesis using empty_ip_unresolved(2) [OF tw, of "Some ?m"] True p' tw by simp
  next
    case False
    then show ?thesis using arp_put_wf [OF tw _ p'] by simp
  qed
  then have w0: "ctl_wf (c\<lparr>ca_table := tab\<rparr>)" if ?learn using assms(1) that by (simp add: ctl_wf_def)
  obtain r1 c1 where u: "update_arp_fast (c\<lparr>ca_table := tab\<rparr>) ?ip ?m = (r1, c1)" by (rule prod.exhaust)
  have w1: "ctl_wf c1" if ?learn
    using ctl_wf_simps(1) [of "c\<lparr>ca_table := tab\<rparr>" ?ip ?m] u w0 that by simp
  have "control_arp_req c req = (if arq_tpa req \<noteq> ca_ip c then c else if ?learn then
      (case r of None \<Rightarrow> c\<lparr>ca_table := tab\<rparr> | Some _ \<Rightarrow> if r1 \<noteq> 0 then c1 else reply_ctx (flush_ctx c1 ?ip) ?m ?ip)
      else reply_ctx c ?m ?ip)"
    using p u by (simp only: control_arp_req_def Let_def prod.case split: option.splits)
  then show ?thesis using w0 w1 assms by (simp split: option.splits)
qed

lemma rep_cases:
  assumes "ctl_wf c"
  shows "\<exists>c'. control_arp_rep c rep = Inr c' \<and> ctl_wf c' \<and> (c' = c \<or>
    (\<exists>p m i tab. arp_reply_targets_local c rep \<and> arp_binding (ca_table c) (arr_spa rep) = Some (p, m) \<and> p \<noteq> 0 \<and>
      arr_spa rep \<noteq> ARP_IP_EMPTY \<and> arp_put (Some (mac_of_u64 (arr_sha rep))) (ca_table c) (arr_spa rep) = (tab, Some i) \<and>
      arp_binding (ca_table c') = arp_binding tab))"
proof (cases "control_arp_rep c rep = Inr c")
  case False
  let ?m = "mac_of_u64 (arr_sha rep)" and ?ip = "arr_spa rep"
  have loc: "arp_reply_targets_local c rep" and
    l: "\<not> (case arp_lookup (ca_table c) ?ip of None \<Rightarrow> True | Some i \<Rightarrow> ae_pending (buckets (ca_table c) i) = 0)"
    using False unfolding control_arp_rep_def Let_def by presburger+
  then obtain i where i: "arp_lookup (ca_table c) ?ip = Some i" "ae_pending (buckets (ca_table c) i) \<noteq> 0"
    by (auto split: option.splits)
  have tw: "table_wf (ca_table c)" using assms(1) by (simp add: ctl_wf_def)
  have ne: "?ip \<noteq> ARP_IP_EMPTY" using empty_ip_unresolved(1) [OF tw] i by auto
  obtain tab where p: "arp_put (Some ?m) (ca_table c) ?ip = (tab, Some i)"
    using insert_after_lookup [OF tw ne i(1)] by blast
  then have p': "arp_insert (ca_table c) ?ip ?m = (tab, Some i)" by (simp add: arp_put_def)
  define c1 where "c1 = c\<lparr>ca_table := tab\<rparr>"
  have w1: "ctl_wf c1" using assms arp_put_wf [OF tw ne p] by (simp add: c1_def ctl_wf_def)
  define c2 where "c2 = (case ae_te (buckets tab i) of None \<Rightarrow> c1
      | Some te \<Rightarrow> set_te (c1\<lparr>ca_tomgr := fst (tomgr_cancel (ca_tomgr c1) te)\<rparr>) i None)"
  have w2: "ctl_wf c2" using w1 tomgr_cancel_wf by (auto simp: c2_def ctl_wf_def split: option.splits)
  have b2: "arp_binding (ca_table c2) = arp_binding tab" by (auto simp: c2_def c1_def split: option.splits)
  obtain r c3 where u: "update_arp_fast c2 ?ip ?m = (r, c3)" by (rule prod.exhaust)
  have f: "ctl_wf c3" "ca_table c3 = ca_table c2"
    using ctl_wf_simps(1) [of c2 ?ip ?m] update_arp_fast_frame(1) [of c2 ?ip ?m] u w2 by simp_all
  have e: "control_arp_rep c rep = (if r \<noteq> 0 then Inr c3 else Inr (flush_ctx c3 (ae_ip (buckets (ca_table c3) i))))"
    using loc l p' u [unfolded c2_def c1_def] unfolding control_arp_rep_def Let_def by simp
  have b: "arp_binding (ca_table c) ?ip = Some (ae_pending (buckets (ca_table c) i), ae_mac (buckets (ca_table c) i))"
    using i by (simp add: arp_binding_def arp_val_def)
  have "\<exists>c4. control_arp_rep c rep = Inr c4 \<and> ctl_wf c4 \<and> arp_binding (ca_table c4) = arp_binding tab"
    using e f b2 by (cases "r = 0") auto
  then show ?thesis using loc b i(2) ne p by blast
qed (use assms in simp)

section \<open>Properties\<close>

text \<open>A small control path with one core, an empty table and no timers.\<close>

definition small_ctl :: control_context where
  "small_ctl =
     (let q = \<lparr>eq_tail = 0, eq_nelems = 4, eq_elsize = 64, eq_off = 0, eq_entries = 0\<rparr>;
          empty = \<lambda>_. \<lparr>qs_type = 0, qs_data = D_raw\<rparr>
      in \<lparr>ca_table = arp_table_init \<lparr>buckets = \<lambda>_. \<lparr>ae_ip = 0, ae_pending = 0, ae_mac = [], ae_te = None\<rparr>\<rparr>,
          ca_buf = \<lparr>ab_n = 0, ab_entries = []\<rparr>, ca_tomgr = the (tomgr_init True tm_two),
          ca_cfqs = \<lambda>_. (q, empty), ca_txq = (q, empty), ca_ip = 1, ca_mac = [1, 2, 3, 4, 5, 6], ca_cores = 1\<rparr>)"

lemma small_ctl_wf: "ctl_wf small_ctl"
proof -
  have "tm_wf (the (tomgr_init True tm_two))" using tomgr_init_wf [of tm_two] by (simp add: tomgr_init_def)
  then show ?thesis by (simp add: ctl_wf_def small_ctl_def Let_def table_wf_init)
qed

text \<open>The same with a request for address 5 pending.\<close>

definition waiting_ctl :: control_context where
  "waiting_ctl = small_ctl\<lparr>ca_table := fst (arp_put None (ca_table small_ctl) 5)\<rparr>"

lemma waiting_ctl_wf: "ctl_wf waiting_ctl"
  using small_ctl_wf arp_put_wf [of "ca_table small_ctl" 5 None]
  by (cases "arp_put None (ca_table small_ctl) 5") (simp add: ctl_wf_def waiting_ctl_def)

lemma waiting_ctl_table:
  "buckets (ca_table waiting_ctl) p = (if p = 5 then \<lparr>ae_ip = 5, ae_pending = 1, ae_mac = [], ae_te = None\<rparr>
     else \<lparr>ae_ip = 0, ae_pending = 0, ae_mac = [], ae_te = None\<rparr>)"
  by (simp add: waiting_ctl_def small_ctl_def Let_def arp_put_def arp_insert_pending_def arp_insert_loop.simps [of _ _ 0]
      arp_idx_def hash_ip_def set_bucket_def arp_table_init_def)

lemma find_free_first: "te_heap_idx (tm_entries m 0) = TO_INVALID \<Longrightarrow> find_free_entry m = Some 0"
proof -
  have "[0 ..< TOMGR_SIZE] = 0 # [Suc 0 ..< TOMGR_SIZE]" by (rule upt_conv_Cons) simp
  then show "te_heap_idx (tm_entries m 0) = TO_INVALID \<Longrightarrow> find_free_entry m = Some 0"
    by (simp only: find_free_entry_def find.simps if_True refl)
qed

text \<open>
  C11: every ARP handler of the control path keeps the invariant of the table and the timers, in
  every branch, and the handler of ARP replies never dereferences a null bucket, although it goes
  on after logging that the insertion failed: an insertion that follows a successful lookup of the
  same address cannot fail.
\<close>

theorem control_arp_handlers_safe:
  assumes "ctl_wf c"
  shows "ctl_wf (control_arp_timeout after c te) \<and> ctl_wf (control_arp_mbuf c mbe core) \<and> ctl_wf (control_arp_req c req) \<and>
    (\<forall>c'. control_arp_lookup after c le = Inr c' \<longrightarrow> ctl_wf c') \<and> (\<exists>c'. control_arp_rep c rep = Inr c' \<and> ctl_wf c')"
proof -
  have "ctl_wf (control_arp_mbuf c mbe core)"
    using assms by (simp add: control_arp_mbuf_def ctl_wf_def Let_def split: prod.splits)
  moreover have "\<exists>c'. control_arp_rep c rep = Inr c' \<and> ctl_wf c'"
    using rep_cases [OF assms, of rep] assms by blast
  ultimately show ?thesis using timeout_wf [OF assms] req_wf [OF assms] lookup_wf [OF assms] by blast
qed

theorem control_arp_handlers_safe_witness:
  "ctl_wf (control_arp_req small_ctl \<lparr>arq_spa = 5, arq_tpa = 1, arq_sha = 7\<rparr>) \<and>
   (\<exists>c'. control_arp_rep small_ctl \<lparr>arr_spa = 5, arr_sha = 7, arr_tpa = 1, arr_tha = 0\<rparr> = Inr c' \<and> ctl_wf c')"
  using control_arp_handlers_safe [OF small_ctl_wf] by blast

text \<open>
  C12: ARP replies are accepted only when solicited. A reply changes the control path's state only
  when it is addressed to the local protocol address and to the local or the broadcast hardware
  address, and a request for its sender is pending; then the sender is bound to the hardware
  address of the reply, resolved, and no other binding changes.
\<close>

theorem control_arp_rep_solicited:
  assumes "ctl_wf c" and "control_arp_rep c rep = Inr c'" and "c' \<noteq> c"
  shows "arr_tpa rep = ca_ip c \<and>
    (mac_of_u64 (arr_tha rep) = take ETH_ADDR_LEN (ca_mac c) \<or> mac_is_broadcast (mac_of_u64 (arr_tha rep))) \<and>
    (\<exists>p m. arp_binding (ca_table c) (arr_spa rep) = Some (p, m) \<and> p \<noteq> 0) \<and>
    arp_binding (ca_table c') (arr_spa rep) = Some (0, mac_of_u64 (arr_sha rep)) \<and>
    (\<forall>ip. ip \<noteq> arr_spa rep \<and> ip \<noteq> ARP_IP_EMPTY \<longrightarrow> arp_binding (ca_table c') ip = arp_binding (ca_table c) ip)"
proof -
  let ?m = "mac_of_u64 (arr_sha rep)" and ?ip = "arr_spa rep"
  obtain c1 where "control_arp_rep c rep = Inr c1" and r: "c1 = c \<or>
    (\<exists>p m i tab. arp_reply_targets_local c rep \<and> arp_binding (ca_table c) ?ip = Some (p, m) \<and> p \<noteq> 0 \<and>
      ?ip \<noteq> ARP_IP_EMPTY \<and> arp_put (Some ?m) (ca_table c) ?ip = (tab, Some i) \<and> arp_binding (ca_table c1) = arp_binding tab)"
    using rep_cases [OF assms(1), of rep] by blast
  then have "c1 = c'" using assms(2) by simp
  with r assms(3) obtain p m i tab where h: "arp_reply_targets_local c rep" "arp_binding (ca_table c) ?ip = Some (p, m)" "p \<noteq> 0"
      "?ip \<noteq> ARP_IP_EMPTY" "arp_put (Some ?m) (ca_table c) ?ip = (tab, Some i)" "arp_binding (ca_table c') = arp_binding tab"
    by blast
  have w: "arpt.wf (ca_table c)" using assms(1) by (simp add: ctl_wf_def table_wf_def)
  have len: "take ETH_ADDR_LEN (mac_of_u64 x) = mac_of_u64 x" for x by (simp add: mac_of_u64_def)
  have "arpt.table_map tab = (arpt.table_map (ca_table c))(?ip \<mapsto> arp_upd (Some ?m) (arp_val (ca_table c) i))"
    using arpt.insert_table_map [OF w h(4,5)] by blast
  then have "arp_binding tab ip = (if ip = ?ip then Some (0, ?m) else arp_binding (ca_table c) ip)" if "ip \<noteq> ARP_IP_EMPTY" for ip
    using that len by (simp add: arp_binding_map arp_upd_def)
  then show ?thesis using h len by (auto simp: arp_reply_targets_local_def Let_def split: if_splits)
qed

theorem control_arp_rep_solicited_witness:
  "\<exists>c'. control_arp_rep waiting_ctl \<lparr>arr_spa = 5, arr_sha = 7, arr_tpa = 1, arr_tha = 0x060504030201\<rparr> = Inr c' \<and> c' \<noteq> waiting_ctl \<and>
     arp_binding (ca_table c') 5 = Some (0, [7, 0, 0, 0, 0, 0])"
proof -
  let ?rep = "\<lparr>arr_spa = 5, arr_sha = 7, arr_tpa = 1, arr_tha = 0x060504030201\<rparr>"
  obtain c' where c': "control_arp_rep waiting_ctl ?rep = Inr c'"
    using rep_cases [OF waiting_ctl_wf, of ?rep] by blast
  have m: "mac_of_u64 7 = [7, 0, 0, 0, 0, 0]" "mac_of_u64 0x060504030201 = [1, 2, 3, 4, 5, 6]"
    by (simp_all add: mac_of_u64_def upt_rec)
  have f: "ca_ip waiting_ctl = 1" "ca_mac waiting_ctl = [1, 2, 3, 4, 5, 6]" by (simp_all add: waiting_ctl_def small_ctl_def Let_def)
  have l: "arp_lookup (ca_table waiting_ctl) 5 = Some 5"
    by (simp add: arp_lookup_def arp_lookup_loop.simps [of _ _ 0] arp_idx_def hash_ip_def waiting_ctl_table)
  have i: "arp_insert (ca_table waiting_ctl) 5 [7, 0, 0, 0, 0, 0] = (set_bucket (ca_table waiting_ctl) 5
      \<lparr>ae_ip = 5, ae_pending = 0, ae_mac = [7, 0, 0, 0, 0, 0], ae_te = None\<rparr>, Some 5)" (is "_ = (?t, _)")
    by (simp add: arp_insert_def arp_insert_loop.simps [of _ _ 0] arp_idx_def hash_ip_def waiting_ctl_table)
  have t: "ae_te (buckets ?t 5) = None" by (simp add: set_bucket_def)
  have "ca_table c' = ?t"
  proof -
    obtain r c3 where u: "update_arp_fast (waiting_ctl\<lparr>ca_table := ?t\<rparr>) 5 [7, 0, 0, 0, 0, 0] = (r, c3)" by (rule prod.exhaust)
    have "ca_table c3 = ?t" using update_arp_fast_frame(1) [of "waiting_ctl\<lparr>ca_table := ?t\<rparr>" 5 "[7, 0, 0, 0, 0, 0]"] unfolding u by simp
    moreover have "arp_reply_targets_local waiting_ctl ?rep" by (simp add: arp_reply_targets_local_def m f)
    then have "control_arp_rep waiting_ctl ?rep = (if r \<noteq> 0 then Inr c3 else Inr (flush_ctx c3 (ae_ip (buckets (ca_table c3) 5))))"
      using l i m(1) t u waiting_ctl_table [of 5] by (simp add: control_arp_rep_def)
    ultimately show ?thesis using c' by (cases "r = 0") auto
  qed
  then have "ae_pending (buckets (ca_table c') 5) = 0" by (simp add: set_bucket_def)
  then have ne: "c' \<noteq> waiting_ctl" using waiting_ctl_table [of 5] by auto
  from control_arp_rep_solicited [OF waiting_ctl_wf c' ne] show ?thesis using c' ne m by simp
qed

text \<open>
  a lookup for a new address crashes the control path when the ARP table is full. The handler
  does not test the bucket \<^verbatim>\<open>arp_insert_pending\<close> returns; with all 64 buckets taken by other
  addresses, a request that is sent and whose timer is armed is followed by a store through the
  null pointer.
\<close>

theorem control_arp_lookup_full_table:
  assumes "\<forall>p. unat p < ARP_TABLE_SIZE \<longrightarrow> ae_ip (buckets (ca_table c) p) \<notin> {ARP_IP_EMPTY, alk_ip le}"
    and "alk_ip le \<noteq> ARP_IP_EMPTY"
    and "fst (send_request c (alk_ip le)) = 0" and "snd (tomgr_insert (ca_tomgr c) TO_ARP after 0) \<noteq> None"
  shows "control_arp_lookup after c le = Inl NullDeref"
proof -
  let ?ip = "alk_ip le"
  have "arp_slot_key (ca_table c) p \<notin> {None, Some ?ip}" if "unat p < ARP_TABLE_SIZE" for p
    using assms(1) that by (auto simp: arp_slot_key_def)
  then have none: "first_stop ARP_TABLE_SIZE (\<lambda>i. arp_slot_key (ca_table c) (arp_idx ?ip i) \<in> {None, Some ?ip}) = None"
    using arp_idx_bound by (simp add: first_stop_None)
  then have l: "arp_lookup (ca_table c) ?ip = None" and "arp_put None (ca_table c) ?ip = (ca_table c, None)"
    using arp_lookup_stop [OF assms(2)] arpt.insert_none [OF assms(2)] by simp_all
  then have p: "arp_insert_pending (ca_table c) ?ip = (ca_table c, None)" by (simp add: arp_put_def)
  obtain c1 where s: "send_request c ?ip = (0, c1)" using assms(3) by (cases "send_request c ?ip") simp
  have "ca_tomgr c1 = ca_tomgr c" using queue_frame(2) [of c ?ip] s by simp
  then obtain tm e where "tomgr_insert (ca_tomgr c1) TO_ARP after 0 = (tm, Some e)"
    using assms(4) by (cases "tomgr_insert (ca_tomgr c) TO_ARP after 0") auto
  then show ?thesis using l p s by (simp add: control_arp_lookup_def ptr_of_bucket_def)
qed

theorem control_arp_lookup_full_table_witness:
  "control_arp_lookup 100 (small_ctl\<lparr>ca_table := \<lparr>buckets = \<lambda>i. \<lparr>ae_ip = i + 64, ae_pending = 0, ae_mac = [], ae_te = None\<rparr>\<rparr>\<rparr>) \<lparr>alk_ip = 5\<rparr>
     = Inl NullDeref"
proof (rule control_arp_lookup_full_table)
  let ?c = "small_ctl\<lparr>ca_table := \<lparr>buckets = \<lambda>i. \<lparr>ae_ip = i + 64, ae_pending = 0, ae_mac = [], ae_te = None\<rparr>\<rparr>\<rparr>"
  have "unat (p + 64) = unat p + 64" if "unat p < 64" for p :: u32
    using that by (intro unat_add_small_iff) simp_all
  then have "p + 64 \<noteq> 0 \<and> p + 64 \<noteq> 5" if "unat p < 64" for p :: u32
    using that by (auto simp: word_unat_eq_iff)
  then show "\<forall>p. unat p < ARP_TABLE_SIZE \<longrightarrow> ae_ip (buckets (ca_table ?c) p) \<notin> {ARP_IP_EMPTY, alk_ip \<lparr>alk_ip = 5\<rparr>}"
    by simp
  show "alk_ip \<lparr>alk_ip = 5\<rparr> \<noteq> ARP_IP_EMPTY" by simp
  show "fst (send_request ?c (alk_ip \<lparr>alk_ip = 5\<rparr>)) = 0"
    by (simp add: send_request_def small_ctl_def Let_def arp_request_def arp_send_def queue_put_cases queue_enqueue_def)
  have "find_free_entry (ca_tomgr ?c) = Some 0"
    by (rule find_free_first) (simp add: small_ctl_def Let_def tomgr_init_def)
  then show "snd (tomgr_insert (ca_tomgr ?c) TO_ARP 100 0) \<noteq> None"
    by (simp add: tomgr_insert_def Let_def) (simp add: small_ctl_def Let_def tomgr_init_def)
qed

end
