(* ===== verification/Netvirt.thy ===== *)
theory Netvirt
  imports Probe_Table
begin

unbundle bit_operations_syntax

text \<open>
  The network-virtualisation tables (\<^verbatim>\<open>chamelio/netvirt/netvirt_table.c\<close>), keyed by a pair of
  integers, and the parser of their configuration file (\<^verbatim>\<open>chamelio/netvirt/netvirt_parser.c\<close>). The
  tables implement a map from key pairs to entries.
\<close>

section \<open>The table\<close>

abbreviation NETVIRT_LEN :: nat where "NETVIRT_LEN \<equiv> 64"
abbreviation NETVIRT_INVALID :: u32 where "NETVIRT_INVALID \<equiv> 0xffffffff"

record netvirt_entry =
  ne_keya :: u32
  ne_keyb :: u32
  ne_gid :: u32
  ne_gre_key :: u32
  ne_inner_ip :: u32
  ne_outer_ip :: u32

type_synonym netvirt_table = "u32 \<Rightarrow> netvirt_entry"

definition netvirt_table_init :: "netvirt_table \<Rightarrow> netvirt_table" where
  "netvirt_table_init t = (\<lambda>i. if unat i < NETVIRT_LEN
     then \<lparr>ne_keya = NETVIRT_INVALID, ne_keyb = NETVIRT_INVALID, ne_gid = NETVIRT_INVALID, ne_gre_key = NETVIRT_INVALID,
           ne_inner_ip = NETVIRT_INVALID, ne_outer_ip = NETVIRT_INVALID\<rparr>
     else t i)"

definition hash_ints :: "u32 \<Rightarrow> u32 \<Rightarrow> u64" where
  "hash_ints a b =
     (let h0 = 0xcbf29ce484222325;
          h1 = (h0 XOR ucast a) * 0x100000001b3;
          h2 = (h1 XOR ucast b) * 0x100000001b3
      in h2 AND 63)"

function nv_set_loop :: "netvirt_table \<Rightarrow> u32 \<Rightarrow> u32 \<Rightarrow> u32 \<Rightarrow> nat \<Rightarrow> u32 option" where
  "nv_set_loop t keya keyb hash i =
     (if i < NETVIRT_LEN then
        (let e = t hash in
         if ne_keya e = NETVIRT_INVALID \<or> (ne_keya e = keya \<and> ne_keyb e = keyb) then Some hash
         else nv_set_loop t keya keyb (hash + 1 AND 63) (i + 1))
      else None)"
  by pat_completeness auto
termination by (relation "measure (\<lambda>(t, a, b, h, i). NETVIRT_LEN - i)") auto

definition netvirt_table_set :: "netvirt_table \<Rightarrow> u32 \<Rightarrow> u32 \<Rightarrow> u32 \<Rightarrow> u32 \<Rightarrow> u32 \<Rightarrow> u32 \<Rightarrow> int \<times> netvirt_table" where
  "netvirt_table_set t keya keyb gid gre_key inner_ip outer_ip =
     (case nv_set_loop t keya keyb (ucast (hash_ints keya keyb)) 0 of
        None \<Rightarrow> (-1, t)
      | Some h \<Rightarrow> (0, t(h := \<lparr>ne_keya = keya, ne_keyb = keyb, ne_gid = gid, ne_gre_key = gre_key,
                             ne_inner_ip = inner_ip, ne_outer_ip = outer_ip\<rparr>)))"

function nv_get_loop :: "netvirt_table \<Rightarrow> u32 \<Rightarrow> u32 \<Rightarrow> u32 \<Rightarrow> nat \<Rightarrow> u32 option" where
  "nv_get_loop t keya keyb hash i =
     (if i < NETVIRT_LEN then
        (let e = t hash in
         if ne_keya e = keya \<and> ne_keyb e = keyb then Some hash
         else if ne_keya e = NETVIRT_INVALID then None
         else nv_get_loop t keya keyb (hash + 1 AND 63) (i + 1))
      else None)"
  by pat_completeness auto
termination by (relation "measure (\<lambda>(t, a, b, h, i). NETVIRT_LEN - i)") auto

declare nv_set_loop.simps [simp del] nv_get_loop.simps [simp del]

definition netvirt_table_get :: "netvirt_table \<Rightarrow> u32 \<Rightarrow> u32 \<Rightarrow> u32 option" where
  "netvirt_table_get t keya keyb = nv_get_loop t keya keyb (ucast (hash_ints keya keyb)) 0"

section \<open>The parser of the configuration file\<close>

text \<open>
  What the parser uses of the C library: \<^verbatim>\<open>sscanf\<close> with the conversions \<^verbatim>\<open>%u\<close> (skip blanks, an
  optional sign, decimal digits; reduced to 32 bits) and \<^verbatim>\<open>%15[^,]\<close>, and \<^verbatim>\<open>inet_pton\<close>, here already
  composed with \<^verbatim>\<open>ntohl\<close>. Strings are lists of characters without the final zero.
\<close>

definition is_digit :: "char \<Rightarrow> bool" where "is_digit c \<longleftrightarrow> 48 \<le> (of_char c :: nat) \<and> (of_char c :: nat) \<le> 57"
definition is_blank :: "char \<Rightarrow> bool" where "is_blank c \<longleftrightarrow> (of_char c :: nat) \<in> {32, 9, 10, 11, 12, 13}"

definition digits_val :: "string \<Rightarrow> nat" where
  "digits_val ds = foldl (\<lambda>n c. 10 * n + (of_char c - 48)) 0 ds"

definition scan_u :: "string \<Rightarrow> (u32 \<times> string) option" where
  "scan_u s =
     (let s1 = dropWhile is_blank s;
          (neg, s2) = (case s1 of CHR ''-'' # r \<Rightarrow> (True, r) | CHR ''+'' # r \<Rightarrow> (False, r) | _ \<Rightarrow> (False, s1));
          ds = takeWhile is_digit s2
      in if ds = [] then None
         else Some ((if neg then - of_nat (digits_val ds) else of_nat (digits_val ds)), dropWhile is_digit s2))"

text \<open>A literal comma followed by a space in the format: the comma, then any blanks.\<close>

definition scan_comma :: "string \<Rightarrow> string option" where
  "scan_comma s = (case s of CHR '','' # r \<Rightarrow> Some (dropWhile is_blank r) | _ \<Rightarrow> None)"

definition scan_set :: "char \<Rightarrow> string \<Rightarrow> (string \<times> string) option" where
  "scan_set stop s = (let f = take 15 (takeWhile (\<lambda>c. c \<noteq> stop) s) in if f = [] then None else Some (f, drop (length f) s))"

definition scan_line :: "string \<Rightarrow> (u32 \<times> u32 \<times> string \<times> string) option" where
  "scan_line s = Option.bind (scan_u s) (\<lambda>(gid, s). Option.bind (scan_comma s) (\<lambda>s.
     Option.bind (scan_u s) (\<lambda>(key, s). Option.bind (scan_comma s) (\<lambda>s.
     Option.bind (scan_set CHR '','' s) (\<lambda>(outer, s). Option.bind (scan_comma s) (\<lambda>s.
     Option.bind (scan_set (char_of (10 :: nat)) s) (\<lambda>(inner, s). Some (gid, key, outer, inner))))))))"

fun split_dots :: "string \<Rightarrow> string list" where
  "split_dots [] = [[]]"
| "split_dots (c # cs) = (if c = CHR ''.'' then [] # split_dots cs else (c # hd (split_dots cs)) # tl (split_dots cs))"

text \<open>An octet: one to three digits, no leading zero, at most 255.\<close>

definition octet :: "string \<Rightarrow> u32 option" where
  "octet s = (if s \<noteq> [] \<and> length s \<le> 3 \<and> list_all is_digit s \<and> (length s > 1 \<longrightarrow> hd s \<noteq> CHR ''0'') \<and> digits_val s \<le> 255
     then Some (of_nat (digits_val s)) else None)"

definition inet_pton4 :: "string \<Rightarrow> u32 option" where
  "inet_pton4 s = (case map octet (split_dots s) of
     [Some a, Some b, Some c, Some d] \<Rightarrow> Some (push_bit 24 a OR push_bit 16 b OR push_bit 8 c OR d) | _ \<Rightarrow> None)"

text \<open>\<^verbatim>\<open>parse_ipv4\<close> returns an \<^verbatim>\<open>int\<close>, -1 on failure, that the caller stores in a \<^verbatim>\<open>__u32\<close>.\<close>

definition parse_ipv4 :: "string \<Rightarrow> u32" where
  "parse_ipv4 s = (case inet_pton4 s of None \<Rightarrow> -1 | Some ip \<Rightarrow> ip)"

text \<open>
  The loop over the lines \<^verbatim>\<open>fgets\<close> returns; lines that do not match the format are skipped, an
  address that reads as 0 or a full table ends the parse.
\<close>

fun parse_lines :: "string list \<Rightarrow> netvirt_table \<Rightarrow> netvirt_table \<Rightarrow> int \<times> netvirt_table \<times> netvirt_table" where
  "parse_lines [] inner gids = (0, inner, gids)"
| "parse_lines (l # ls) inner gids =
     (case scan_line (takeWhile (\<lambda>c. c \<noteq> char_of (10 :: nat)) l) of
        None \<Rightarrow> parse_lines ls inner gids
      | Some (guest_id, gre_key, outer_str, inner_str) \<Rightarrow>
          (let outer_ip = parse_ipv4 outer_str; inner_ip = parse_ipv4 inner_str
           in if outer_ip = 0 \<or> inner_ip = 0 then (-1, inner, gids)
              else case netvirt_table_set inner gre_key inner_ip guest_id gre_key inner_ip outer_ip of
                (r, inner') \<Rightarrow> if r < 0 then (-1, inner', gids)
                  else case netvirt_table_set gids guest_id outer_ip guest_id gre_key inner_ip outer_ip of
                    (r2, gids') \<Rightarrow> if r2 < 0 then (-1, inner', gids') else parse_lines ls inner' gids'))"

text \<open>\<^const>\<open>None\<close> is a file that cannot be opened; an empty file has no header line.\<close>

definition netvirt_parser :: "string list option \<Rightarrow> netvirt_table \<Rightarrow> netvirt_table \<Rightarrow> int \<times> netvirt_table \<times> netvirt_table" where
  "netvirt_parser f inner gids =
     (case f of None \<Rightarrow> (-1, inner, gids) | Some [] \<Rightarrow> (-1, inner, gids) | Some (header # ls) \<Rightarrow> parse_lines ls inner gids)"

section \<open>The tables implement maps\<close>

text \<open>The indices the loops visit.\<close>

definition nv_idx :: "u32 \<times> u32 \<Rightarrow> nat \<Rightarrow> u32" where
  "nv_idx k i = ((\<lambda>h. h + 1 AND 63) ^^ i) (ucast (hash_ints (fst k) (snd k)))"

definition nv_key :: "netvirt_table \<Rightarrow> u32 \<Rightarrow> (u32 \<times> u32) option" where
  "nv_key t p = (if ne_keya (t p) = NETVIRT_INVALID then None else Some (ne_keya (t p), ne_keyb (t p)))"

definition nv_val :: "netvirt_table \<Rightarrow> u32 \<Rightarrow> u32 \<times> u32 \<times> u32 \<times> u32" where
  "nv_val t p = (ne_gid (t p), ne_gre_key (t p), ne_inner_ip (t p), ne_outer_ip (t p))"

definition nv_get :: "netvirt_table \<Rightarrow> u32 \<times> u32 \<Rightarrow> u32 option" where
  "nv_get t k = netvirt_table_get t (fst k) (snd k)"

definition nv_put :: "u32 \<times> u32 \<times> u32 \<times> u32 \<Rightarrow> netvirt_table \<Rightarrow> u32 \<times> u32 \<Rightarrow> netvirt_table \<times> u32 option" where
  "nv_put v t k = (case v of (g, r, i, o') \<Rightarrow>
     (snd (netvirt_table_set t (fst k) (snd k) g r i o'), nv_set_loop t (fst k) (snd k) (ucast (hash_ints (fst k) (snd k))) 0))"

lemma unat_nv_idx: "unat (nv_idx k i) = (unat (hash_ints (fst k) (snd k)) + i) mod 64"
proof (induction i)
  case 0
  have "unat (hash_ints (fst k) (snd k)) < 64" by (simp add: hash_ints_def Let_def unat_and_63)
  then show ?case by (simp add: nv_idx_def unsigned_ucast_eq take_bit_nat_eq_self)
next
  case (Suc i)
  have "unat (nv_idx k i) < 64" using Suc by simp
  then have "unat (nv_idx k i + 1) = unat (nv_idx k i) + 1" by (intro unat_add_small_iff) simp_all
  moreover have "nv_idx k (Suc i) = nv_idx k i + 1 AND 63" by (simp add: nv_idx_def)
  ultimately show ?case using Suc by (simp add: unat_and_63 mod_Suc_eq)
qed

lemma nv_idx_step: "nv_idx k i + 1 AND 63 = nv_idx k (Suc i)" "nv_idx (a, b) 0 = ucast (hash_ints a b)"
  by (simp_all add: nv_idx_def)

lemma nv_idx_all: "nv_idx k ` {..< NETVIRT_LEN} = {w. unat w < NETVIRT_LEN}"
  by (rule cyclic_64(2) [OF unat_nv_idx])

lemma nv_key_hit:
  "fst k \<noteq> NETVIRT_INVALID \<Longrightarrow> nv_key t p = Some k \<longleftrightarrow> ne_keya (t p) = fst k \<and> ne_keyb (t p) = snd k"
  "nv_key t p = None \<longleftrightarrow> ne_keya (t p) = NETVIRT_INVALID"
  by (cases k; auto simp: nv_key_def)+

lemma nv_get_stop:
  assumes "fst k \<noteq> NETVIRT_INVALID"
  shows "nv_get t k = (case first_stop NETVIRT_LEN (\<lambda>i. nv_key t (nv_idx k i) \<in> {None, Some k}) of None \<Rightarrow> None
     | Some i \<Rightarrow> if nv_key t (nv_idx k i) = Some k then Some (nv_idx k i) else None)"
proof -
  define f where "f i = nv_get_loop t (fst k) (snd k) (nv_idx k i) i" for i
  have "f 0 = (case first_stop NETVIRT_LEN (\<lambda>i. nv_key t (nv_idx k i) \<in> {None, Some k}) of None \<Rightarrow> None
     | Some i \<Rightarrow> if nv_key t (nv_idx k i) = Some k then Some (nv_idx k i) else None)"
    by (rule stop_loop, unfold f_def, subst nv_get_loop.simps)
       (use assms in \<open>auto simp: nv_key_hit Let_def nv_idx_step\<close>)
  then show ?thesis by (simp add: f_def nv_get_def netvirt_table_get_def nv_idx_step(2) [of "fst k" "snd k", simplified])
qed

lemma nv_set_loop_stop:
  assumes "fst k \<noteq> NETVIRT_INVALID"
  shows "nv_set_loop t (fst k) (snd k) (ucast (hash_ints (fst k) (snd k))) 0 =
     (case first_stop NETVIRT_LEN (\<lambda>i. nv_key t (nv_idx k i) \<in> {None, Some k}) of None \<Rightarrow> None | Some i \<Rightarrow> Some (nv_idx k i))"
proof -
  define f where "f i = nv_set_loop t (fst k) (snd k) (nv_idx k i) i" for i
  have "f 0 = (case first_stop NETVIRT_LEN (\<lambda>i. nv_key t (nv_idx k i) \<in> {None, Some k}) of None \<Rightarrow> None | Some i \<Rightarrow> Some (nv_idx k i))"
    by (rule stop_loop, unfold f_def, subst nv_set_loop.simps)
       (use assms in \<open>auto simp: nv_key_hit Let_def nv_idx_step\<close>)
  then show ?thesis by (simp add: f_def nv_idx_step(2) [of "fst k" "snd k", simplified])
qed

interpretation nvt: probe_table NETVIRT_LEN nv_idx "\<lambda>k. fst k \<noteq> NETVIRT_INVALID" nv_key nv_val nv_get nv_put "\<lambda>v _. v"
proof unfold_locales
  show "inj_on (nv_idx k) {..< NETVIRT_LEN}" for k by (rule cyclic_64(1) [OF unat_nv_idx])
  show "nv_idx k ` {..< NETVIRT_LEN} = nv_idx k' ` {..< NETVIRT_LEN}" for k k' by (simp only: nv_idx_all)
next
  fix k t i and u :: "u32 \<times> u32 \<times> u32 \<times> u32"
  let ?s = "first_stop NETVIRT_LEN (\<lambda>i. nv_key t (nv_idx k i) \<in> {None, Some k})"
  assume k: "fst k \<noteq> NETVIRT_INVALID"
  show "nv_get t k = (case ?s of None \<Rightarrow> None
     | Some i \<Rightarrow> if nv_key t (nv_idx k i) = Some k then Some (nv_idx k i) else None)"
    using k by (rule nv_get_stop)
  obtain g r i4 o4 where u: "u = (g, r, i4, o4)" by (cases u)
  {
    assume "?s = Some i"
    then have l: "nv_set_loop t (fst k) (snd k) (ucast (hash_ints (fst k) (snd k))) 0 = Some (nv_idx k i)"
      using nv_set_loop_stop [OF k] by simp
    let ?t = "t(nv_idx k i := \<lparr>ne_keya = fst k, ne_keyb = snd k, ne_gid = g, ne_gre_key = r, ne_inner_ip = i4, ne_outer_ip = o4\<rparr>)"
    have "nv_put u t k = (?t, Some (nv_idx k i))" using l u by (simp add: nv_put_def netvirt_table_set_def)
    moreover have "nv_key ?t = (nv_key t)(nv_idx k i \<mapsto> k)" using k by (simp add: nv_key_def fun_eq_iff)
    moreover have "nv_val ?t = (nv_val t)(nv_idx k i := u)" using u by (simp add: nv_val_def fun_eq_iff)
    ultimately show "\<exists>t'. nv_put u t k = (t', Some (nv_idx k i)) \<and> nv_key t' = (nv_key t)(nv_idx k i \<mapsto> k) \<and>
        nv_val t' = (nv_val t)(nv_idx k i := u)" by blast
  next
    assume "?s = None"
    then have "nv_set_loop t (fst k) (snd k) (ucast (hash_ints (fst k) (snd k))) 0 = None"
      using nv_set_loop_stop [OF k] by simp
    then show "nv_put u t k = (t, None)" using u by (simp add: nv_put_def netvirt_table_set_def)
  }
qed

section \<open>Properties\<close>

definition nv_sets :: "netvirt_table \<Rightarrow> ((u32 \<times> u32) \<times> (u32 \<times> u32 \<times> u32 \<times> u32)) list \<Rightarrow> netvirt_table" where
  "nv_sets t kvs = foldl (\<lambda>t (k, v). fst (nv_put v t k)) (netvirt_table_init t) kvs"

definition nv_lookup :: "netvirt_table \<Rightarrow> u32 \<times> u32 \<Rightarrow> (u32 \<times> u32 \<times> u32 \<times> u32) option" where
  "nv_lookup t k = map_option (nv_val t) (netvirt_table_get t (fst k) (snd k))"

lemma nv_lookup_map: "fst k \<noteq> NETVIRT_INVALID \<Longrightarrow> nv_lookup t k = nvt.table_map t k"
  by (simp add: nv_lookup_def nvt.table_map_def nv_get_def)

lemma nv_idx_bound: "unat (nv_idx k i) < NETVIRT_LEN"
  by (simp add: unat_nv_idx)

lemma nv_sets_wf: "\<forall>x \<in> set kvs. fst (fst x) \<noteq> NETVIRT_INVALID \<Longrightarrow> nvt.wf (nv_sets t kvs)"
proof (induction kvs rule: rev_induct)
  case Nil
  have "nvt.wf (netvirt_table_init t)"
    by (rule nvt.empty_wf) (simp add: nv_key_def netvirt_table_init_def nv_idx_bound)
  then show ?case by (simp add: nv_sets_def)
next
  case (snoc x xs)
  obtain k v where x: "x = (k, v)" by (cases x)
  obtain t' r where p: "nv_put v (nv_sets t xs) k = (t', r)" by (cases "nv_put v (nv_sets t xs) k")
  have "nvt.wf (nv_sets t xs)" using snoc by simp
  then have "nvt.wf t'" using snoc.prems x p by (intro nvt.insert_wf [OF _ _ p]) simp_all
  then show ?case using x p by (simp add: nv_sets_def)
qed

lemma nv_put_set: "snd (netvirt_table_set t a b g r i o') = fst (nv_put (g, r, i, o') t (a, b))"
    "fst (netvirt_table_set t a b g r i o') = (if snd (nv_put (g, r, i, o') t (a, b)) = None then -1 else 0)"
  by (simp_all add: nv_put_def netvirt_table_set_def split: option.splits)

lemma nv_set_first:
  "nv_set_loop (netvirt_table_init x) a b (ucast (hash_ints a b)) 0 = Some (ucast (hash_ints a b))"
proof -
  have "unat (ucast (hash_ints a b) :: u32) < 64" using nv_idx_bound [of "(a, b)" 0] by (simp add: nv_idx_def)
  then show ?thesis by (subst nv_set_loop.simps) (simp add: netvirt_table_init_def)
qed

text \<open>
  C13: a network-virtualisation table implements a map. After any sequence of
  \<^verbatim>\<open>netvirt_table_set\<close> calls on an initialised table, with first keys other than the empty marker,
  one more call either returns 0 and a lookup of its key pair gives the values it stored while the
  lookups of all other pairs are unchanged, or returns -1 and leaves the table unchanged, which
  happens only when none of the 64 entries is free or holds the pair.
\<close>

theorem netvirt_table_map:
  assumes "\<forall>x \<in> set kvs. fst (fst x) \<noteq> NETVIRT_INVALID" and "keya \<noteq> NETVIRT_INVALID" and "t = nv_sets t0 kvs"
    and "netvirt_table_set t keya keyb gid gre inner outer = (r, t')"
  shows "(r = 0 \<and> nv_lookup t' (keya, keyb) = Some (gid, gre, inner, outer) \<and>
      (\<forall>k. k \<noteq> (keya, keyb) \<and> fst k \<noteq> NETVIRT_INVALID \<longrightarrow> nv_lookup t' k = nv_lookup t k)) \<or>
    (r = -1 \<and> t' = t \<and> (\<forall>p. unat p < NETVIRT_LEN \<longrightarrow> nv_key t p \<noteq> None \<and> nv_key t p \<noteq> Some (keya, keyb)))"
proof -
  let ?v = "(gid, gre, inner, outer)" and ?k = "(keya, keyb)"
  have w: "nvt.wf t" using assms(1,3) nv_sets_wf by simp
  have ok: "fst ?k \<noteq> NETVIRT_INVALID" using assms(2) by simp
  obtain s where p: "nv_put ?v t ?k = (t', s)" and r: "r = (if s = None then -1 else 0)"
    using nv_put_set [of t keya keyb gid gre inner outer] assms(4)
    by (cases "nv_put ?v t ?k") simp
  show ?thesis
  proof (cases s)
    case None
    have "\<forall>q \<in> nv_idx ?k ` {..< NETVIRT_LEN}. nv_key t q \<notin> {None, Some ?k}"
      using nvt.insert_fails_iff [OF ok, of ?v t] p None by simp
    then show ?thesis using None r nvt.insert_fail_same [OF ok] p unfolding nv_idx_all by auto
  next
    case (Some q)
    note m = nvt.insert_table_map [OF w ok p [unfolded Some]]
    then show ?thesis using Some r assms(2) nv_lookup_map by simp
  qed
qed

theorem netvirt_table_map_witness:
  "let t = nv_sets (\<lambda>_. \<lparr>ne_keya = 0, ne_keyb = 0, ne_gid = 0, ne_gre_key = 0, ne_inner_ip = 0, ne_outer_ip = 0\<rparr>) [((1, 2), (3, 4, 5, 6))];
       (r, t') = netvirt_table_set t 7 8 9 10 11 12
   in r = 0 \<and> nv_lookup t' (7, 8) = Some (9, 10, 11, 12) \<and> nv_lookup t' (1, 2) = nv_lookup t (1, 2)"
proof -
  let ?mem = "\<lambda>_. \<lparr>ne_keya = 0, ne_keyb = 0, ne_gid = 0, ne_gre_key = 0, ne_inner_ip = 0, ne_outer_ip = 0\<rparr>"
  let ?t = "nv_sets ?mem [((1, 2), (3, 4, 5, 6))]"
  obtain r t' where s: "netvirt_table_set ?t 7 8 9 10 11 12 = (r, t')" by (rule prod.exhaust)
  have h: "hash_ints 1 2 = 42" "hash_ints 7 8 = 10" by (simp_all add: hash_ints_def)
  have t: "?t = (netvirt_table_init ?mem)(42 := \<lparr>ne_keya = 1, ne_keyb = 2, ne_gid = 3, ne_gre_key = 4, ne_inner_ip = 5, ne_outer_ip = 6\<rparr>)"
    using nv_set_first [of ?mem 1 2] by (simp add: nv_sets_def nv_put_def netvirt_table_set_def h)
  have "nv_set_loop ?t 7 8 (ucast (hash_ints 7 8)) 0 = Some 10"
    unfolding t by (subst nv_set_loop.simps) (simp add: h netvirt_table_init_def)
  then have "r = 0" using s by (auto simp: netvirt_table_set_def split: option.splits)
  then show ?thesis
    using netvirt_table_map [OF _ _ refl s] s by (simp add: Let_def)
qed

text \<open>
  malformed addresses pass the check of the configuration parser. \<^verbatim>\<open>parse_ipv4\<close> reports failure as
  -1 but the parser tests for 0: a line whose inner address cannot be parsed is accepted, with the
  inner address 255.255.255.255, while the well-formed address 0.0.0.0 is rejected.
\<close>

theorem netvirt_parser_accepts_malformed:
  "(case netvirt_parser (Some [''GUEST_ID, GRE_KEY, OUTER_IP, INNER_IP'', ''1, 7, 10.0.0.1, bogus'']) (netvirt_table_init t) (netvirt_table_init t') of
     (r, inner, gids) \<Rightarrow> r = 0 \<and> nv_lookup inner (7, 0xffffffff) = Some (1, 7, 0xffffffff, 0x0a000001)) \<and>
   fst (netvirt_parser (Some [''GUEST_ID, GRE_KEY, OUTER_IP, INNER_IP'', ''1, 7, 10.0.0.1, 0.0.0.0'']) u u') = -1"
proof -
  have s: "scan_line ''1, 7, 10.0.0.1, bogus'' = Some (1, 7, ''10.0.0.1'', ''bogus'')"
    "scan_line ''1, 7, 10.0.0.1, 0.0.0.0'' = Some (1, 7, ''10.0.0.1'', ''0.0.0.0'')"
    "parse_ipv4 ''10.0.0.1'' = 0x0a000001" "parse_ipv4 ''bogus'' = 0xffffffff" "parse_ipv4 ''0.0.0.0'' = 0"
    by code_simp+
  have tw: "takeWhile (\<lambda>c. c \<noteq> char_of (10 :: nat)) ''1, 7, 10.0.0.1, bogus'' = ''1, 7, 10.0.0.1, bogus''"
    "takeWhile (\<lambda>c. c \<noteq> char_of (10 :: nat)) ''1, 7, 10.0.0.1, 0.0.0.0'' = ''1, 7, 10.0.0.1, 0.0.0.0''"
    by code_simp+
  have "case netvirt_parser (Some [''GUEST_ID, GRE_KEY, OUTER_IP, INNER_IP'', ''1, 7, 10.0.0.1, bogus'']) (netvirt_table_init t) (netvirt_table_init t') of
     (r, inner, gids) \<Rightarrow> r = 0 \<and> nv_lookup inner (7, 0xffffffff) = Some (1, 7, 0xffffffff, 0x0a000001)"
    by (simp only: netvirt_parser_def parse_lines.simps tw s option.case list.case prod.case Let_def netvirt_table_set_def nv_set_first)
       (simp add: nv_lookup_def netvirt_table_get_def nv_get_loop.simps [of _ _ _ _ 0] nv_val_def)
  moreover have "fst (netvirt_parser (Some [''GUEST_ID, GRE_KEY, OUTER_IP, INNER_IP'', ''1, 7, 10.0.0.1, 0.0.0.0'']) u u') = -1"
    by (simp only: netvirt_parser_def parse_lines.simps tw s option.case list.case prod.case Let_def) simp
  ultimately show ?thesis by blast
qed

end
