(* ===== verification/Byte_Ring.thy ===== *)
theory Byte_Ring
  imports Prelude
begin

text \<open>
  The byte rings between applications and protocols. A socket owns a receive and a transmit ring
  in the guest's shared memory; the fast paths and the application libraries fill and drain them
  with one or two \<^verbatim>\<open>memcpy\<close> calls each, with 32-bit positions. This theory gives the shape of
  these copies and the byte-wise meaning that all of them share.
\<close>

section \<open>Copying\<close>

definition mem_copy :: "bytes \<Rightarrow> nat \<Rightarrow> bytes \<Rightarrow> nat \<Rightarrow> nat \<Rightarrow> bytes" where
  "mem_copy dst d src o' n = (\<lambda>i. if d \<le> i \<and> i < d + n then src (o' + (i - d)) else dst i)"

text \<open>\<^verbatim>\<open>if (pos >= len) pos -= len;\<close>\<close>

definition ring_wrap :: "u32 \<Rightarrow> u32 \<Rightarrow> u32" where
  "ring_wrap L p = (if p \<ge> L then p - L else p)"

text \<open>
  Writing \<open>n\<close> bytes at position \<open>t\<close> of the ring of \<open>L\<close> bytes at \<open>base\<close>, and reading them, in two
  pieces when the end of the ring is crossed.
\<close>

definition ring_store :: "bytes \<Rightarrow> nat \<Rightarrow> u32 \<Rightarrow> u32 \<Rightarrow> bytes \<Rightarrow> nat \<Rightarrow> u32 \<Rightarrow> bytes" where
  "ring_store shm base L t src p n =
     (if t + n \<le> L then mem_copy shm (base + unat t) src p (unat n)
      else let part = L - t
           in mem_copy (mem_copy shm (base + unat t) src p (unat part)) base src (p + unat part) (unat (n - part)))"

definition ring_load :: "bytes \<Rightarrow> nat \<Rightarrow> bytes \<Rightarrow> nat \<Rightarrow> u32 \<Rightarrow> u32 \<Rightarrow> u32 \<Rightarrow> bytes" where
  "ring_load dst p shm base L t n =
     (if t + n \<le> L then mem_copy dst p shm (base + unat t) (unat n)
      else let part = L - t
           in mem_copy (mem_copy dst p shm (base + unat t) (unat part)) (p + unat part) shm base (unat (n - part)))"

text \<open>Byte \<open>k\<close> of the ring, counted from position \<open>h\<close>.\<close>

definition ring_byte :: "bytes \<Rightarrow> nat \<Rightarrow> u32 \<Rightarrow> u32 \<Rightarrow> nat \<Rightarrow> u8" where
  "ring_byte shm base L h k = shm (base + (unat h + k) mod unat L)"

section \<open>Positions\<close>

lemma wrap_pos:
  fixes h p L :: u32
  assumes "unat h < unat L" "unat p \<le> unat L" "unat L < 2 ^ 31"
  shows "unat (ring_wrap L (h + p)) = (unat h + unat p) mod unat L" and "unat (ring_wrap L (h + p)) < unat L"
proof -
  have a: "unat (h + p) = unat h + unat p" using assms by (intro unat_add_small_iff) simp_all
  show q: "unat (ring_wrap L (h + p)) = (unat h + unat p) mod unat L"
  proof (cases "L \<le> h + p")
    case True
    then have "unat (ring_wrap L (h + p)) = unat h + unat p - unat L" using a by (simp add: ring_wrap_def unat_sub)
    moreover have "(unat h + unat p) mod unat L = unat h + unat p - unat L"
      using True a assms(1,2) by (simp add: word_le_nat_alt mod_if)
    ultimately show ?thesis by simp
  next
    case False
    then show ?thesis using a by (simp add: ring_wrap_def word_le_nat_alt)
  qed
  then show "unat (ring_wrap L (h + p)) < unat L" using assms(1) by simp
qed

lemma mod_wrap: "q + d = L \<Longrightarrow> k < L \<Longrightarrow> (q + k) mod L = (if k < d then q + k else k - d)" for q d L k :: nat
proof (cases "k < d")
  case False
  assume a: "q + d = L" "k < L"
  then have "q + k = L + (k - d)" "k - d < L" using False by simp_all
  then show ?thesis using False by (metis mod_add_self1 mod_less)
qed simp

text \<open>The lengths of the two pieces.\<close>

lemma ring_parts:
  fixes t n L :: u32
  assumes "unat t < unat L" "unat n \<le> unat L" "unat L < 2 ^ 31"
  shows "t + n \<le> L \<longleftrightarrow> unat t + unat n \<le> unat L" and "unat t + unat (L - t) = unat L"
    and "\<not> t + n \<le> L \<Longrightarrow> unat (n - (L - t)) = unat n - unat (L - t)" and "\<not> t + n \<le> L \<Longrightarrow> unat (L - t) \<le> unat n"
proof -
  have s: "unat (t + n) = unat t + unat n" using assms by (intro unat_add_small_iff) simp_all
  show le: "t + n \<le> L \<longleftrightarrow> unat t + unat n \<le> unat L" using s by (simp add: word_le_nat_alt)
  show d: "unat t + unat (L - t) = unat L" using assms by (simp add: unat_sub word_le_nat_alt)
  show p: "unat (L - t) \<le> unat n" if "\<not> t + n \<le> L" using that le d by simp
  show "unat (n - (L - t)) = unat n - unat (L - t)" if "\<not> t + n \<le> L"
    using p [OF that] by (subst unat_sub) (simp_all add: word_le_nat_alt)
qed

section \<open>What is read and written\<close>

lemma ring_read_split:
  assumes "q + d = L" "d \<le> n" "n \<le> L" "k < n"
  shows "mem_copy (mem_copy dst p shm (off + q) d) (p + d) shm off (n - d) (p + k) = shm (off + (q + k) mod L)"
proof (cases "k < d")
  case True
  then show ?thesis using assms mod_wrap [of q d L k] by (simp add: mem_copy_def add.assoc)
next
  case False
  then have "p + d \<le> p + k" "p + k < p + d + (n - d)" "p + k - (p + d) = k - d" using assms by simp_all
  then show ?thesis using assms False mod_wrap [of q d L k] by (simp add: mem_copy_def)
qed

lemma ring_write_split:
  assumes "q + d = L" "d \<le> n" "n \<le> L" "k < L"
  shows "mem_copy (mem_copy shm (off + q) pkt p d) off pkt (p + d) (n - d) (off + (q + k) mod L) =
    (if k < n then pkt (p + k) else shm (off + (q + k) mod L))"
proof (cases "k < d")
  case True
  then have "(q + k) mod L = q + k" "\<not> off + (q + k) < off + (n - d)" using assms mod_wrap [of q d L k] by simp_all
  moreover have "k < n" using True assms by simp
  ultimately show ?thesis using True by (simp only: mem_copy_def) simp
next
  case False
  obtain e where e: "k = d + e" using False le_Suc_ex by fastforce
  obtain m where m: "n = d + m" using assms(2) le_Suc_ex by blast
  have "(q + k) mod L = e" "e < q" using assms mod_wrap [of q d L k] e by simp_all
  then show ?thesis using e m by (simp add: mem_copy_def add.assoc)
qed

lemma ring_load_bytes:
  assumes tnL: "unat t < unat L" "unat n \<le> unat L" "unat L < 2 ^ 31"
  shows "ring_load dst p shm base L t n =
    (\<lambda>i. if p \<le> i \<and> i < p + unat n then ring_byte shm base L t (i - p) else dst i)"
proof
  fix i
  note parts = ring_parts [OF tnL]
  show "ring_load dst p shm base L t n i =
    (if p \<le> i \<and> i < p + unat n then ring_byte shm base L t (i - p) else dst i)"
  proof (cases "p \<le> i \<and> i < p + unat n")
    case out: False
    then show ?thesis using parts by (auto simp: ring_load_def Let_def mem_copy_def)
  next
    case True
    then obtain k where k: "i = p + k" "k < unat n" using le_Suc_ex by fastforce
    show ?thesis
    proof (cases "t + n \<le> L")
      case True
      then have "(unat t + k) mod unat L = unat t + k" using parts(1) k by simp
      then show ?thesis using True k by (simp add: ring_load_def mem_copy_def ring_byte_def add.assoc)
    next
      case False
      have "ring_load dst p shm base L t n (p + k) = shm (base + (unat t + k) mod unat L)"
        using False ring_read_split [OF parts(2) parts(4) [OF False] tnL(2) k(2)] parts(3) [OF False]
        by (simp add: ring_load_def Let_def)
      then show ?thesis using k by (simp add: ring_byte_def)
    qed
  qed
qed

lemma ring_store_ring:
  assumes tnL: "unat t < unat L" "unat n \<le> unat L" "unat L < 2 ^ 31" and k: "k < unat L"
  shows "ring_store shm base L t src p n (base + (unat t + k) mod unat L) =
    (if k < unat n then src (p + k) else shm (base + (unat t + k) mod unat L))"
proof -
  note parts = ring_parts [OF tnL]
  show ?thesis
  proof (cases "t + n \<le> L")
    case True
    have "(unat t + k) mod unat L = (if k < unat (L - t) then unat t + k else k - unat (L - t))"
      by (rule mod_wrap [OF parts(2) k])
    moreover have "\<not> k < unat (L - t) \<Longrightarrow> k - unat (L - t) < unat t" using parts(2) k by simp
    ultimately show ?thesis using True parts(1,2) by (auto simp: ring_store_def mem_copy_def)
  next
    case False
    then show ?thesis
      using ring_write_split [OF parts(2) parts(4) [OF False] tnL(2) k] parts(3) [OF False]
      by (simp add: ring_store_def Let_def)
  qed
qed

lemma ring_store_outside:
  assumes tnL: "unat t < unat L" "unat n \<le> unat L" "unat L < 2 ^ 31" and a: "a < base \<or> base + unat L \<le> a"
  shows "ring_store shm base L t src p n a = shm a"
  using a ring_parts [OF tnL] tnL by (auto simp: ring_store_def Let_def mem_copy_def)

text \<open>Appending behind the \<open>a\<close> bytes that follow \<open>h\<close>: they stay, the new ones come after them.\<close>

lemma ring_append_at:
  assumes t: "unat t = (unat h + a) mod unat L" and n: "a + unat n \<le> unat L" and L: "unat L < 2 ^ 31" "0 < unat L"
    and j: "j < a + unat n"
  shows "ring_byte (ring_store shm base L t src p n) base L h j =
    (if j < a then ring_byte shm base L h j else src (p + (j - a)))"
proof -
  let ?L = "unat L"
  have aL: "a \<le> ?L" "unat n \<le> ?L" "unat t < ?L" using n t L(2) by simp_all
  define k where "k = (if j < a then j + (?L - a) else j - a)"
  have k: "k < ?L" using j n by (auto simp: k_def)
  have "(unat t + k) mod ?L = (unat h + j) mod ?L"
  proof (cases "j < a")
    case True
    then have "unat h + a + k = unat h + j + ?L" using n by (simp add: k_def)
    then show ?thesis unfolding t by (metis mod_add_left_eq mod_add_self2)
  next
    case False
    then have "unat h + a + k = unat h + j" by (simp add: k_def)
    then show ?thesis unfolding t by (metis mod_add_left_eq)
  qed
  moreover have "k < unat n \<longleftrightarrow> \<not> j < a" using j n by (auto simp: k_def)
  moreover have "\<not> j < a \<Longrightarrow> k = j - a" by (simp add: k_def)
  ultimately show ?thesis
    using ring_store_ring [OF aL(3,2) L(1) k, of shm base src p] unfolding ring_byte_def by auto
qed

lemma ring_append:
  assumes h: "unat h < unat L" and n: "unat a + unat n \<le> unat L" and L: "unat L < 2 ^ 31" and j: "j < unat a + unat n"
  shows "ring_byte (ring_store shm base L (ring_wrap L (h + a)) src p n) base L h j =
    (if j < unat a then ring_byte shm base L h j else src (p + (j - unat a)))"
proof -
  have "unat a \<le> unat L" "0 < unat L" using n h by simp_all
  then show ?thesis using wrap_pos(1) [OF h _ L] by (intro ring_append_at n L j) simp_all
qed

text \<open>Moving the head by \<open>b\<close> bytes shifts the count.\<close>

lemma ring_byte_advance:
  assumes "unat h < unat L" "unat b \<le> unat L" "unat L < 2 ^ 31"
  shows "ring_byte shm base L (ring_wrap L (h + b)) k = ring_byte shm base L h (unat b + k)"
  using wrap_pos(1) [OF assms] by (simp add: ring_byte_def mod_add_left_eq add.assoc)

text \<open>A ring's bytes depend only on the memory of the ring.\<close>

lemma ring_byte_cong:
  assumes "\<And>i. base \<le> i \<Longrightarrow> i < base + unat L \<Longrightarrow> shm i = shm' i" "0 < unat L"
  shows "ring_byte shm base L h k = ring_byte shm' base L h k"
  using assms by (simp add: ring_byte_def)

lemma ring_byte_store_other:
  assumes tnL: "unat t < unat L" "unat n \<le> unat L" "unat L < 2 ^ 31"
    and disj: "base' + unat L' \<le> base \<or> base + unat L \<le> base'" and "0 < unat L'"
  shows "ring_byte (ring_store shm base L t src p n) base' L' h k = ring_byte shm base' L' h k"
proof (rule ring_byte_cong)
  fix i assume "base' \<le> i" "i < base' + unat L'"
  then show "ring_store shm base L t src p n i = shm i" using disj by (intro ring_store_outside [OF tnL]) auto
qed fact

end
