(* ===== verification/Tcp_Sock.thy ===== *)
theory Tcp_Sock
  imports Byte_Ring
begin

unbundle bit_operations_syntax

text \<open>
  The TCP socket shared by the fast and the slow path (\<^verbatim>\<open>protos/tcp/include/tcp.h\<close>) and the
  operations of \<^verbatim>\<open>chamelio/protos/tcp_fast.c\<close> that act on a socket alone: sequence-number
  arithmetic, the send window, acknowledgements, recovery, and the two byte rings. Sequence
  numbers wrap at 32 bits and are kept at that width.
\<close>

section \<open>The socket\<close>

abbreviation TCP_SOCK_STATE_CLOSED :: u8 where "TCP_SOCK_STATE_CLOSED \<equiv> 0"
abbreviation TCP_SOCK_STATE_ESTABLISHED :: u8 where "TCP_SOCK_STATE_ESTABLISHED \<equiv> 6"
abbreviation TCP_SOCK_FLAG_SEND_ECE :: u8 where "TCP_SOCK_FLAG_SEND_ECE \<equiv> 0x8"
abbreviation TCP_SOCK_FLAG_ECN :: u8 where "TCP_SOCK_FLAG_ECN \<equiv> 0x10"
abbreviation TCP_MAX_RTT :: u32 where "TCP_MAX_RTT \<equiv> 100000"
abbreviation FAST_REMIT_THRESH :: u8 where "FAST_REMIT_THRESH \<equiv> 4"

record tcp_sock =
  tk_id :: u32
  tk_opaque :: u64
  tk_core :: u16
  tk_app_bump_qid :: u16
  tk_local_ip :: u32
  tk_remote_ip :: u32
  tk_local_port :: u16
  tk_remote_port :: u16
  tk_state :: u8
  tk_reuport :: u8
  tk_app_id :: u8
  tk_ctx_id :: u8
  tk_flags :: u8
  tk_lock :: u32
  tk_rx_len :: u32
  tk_rx_avail :: u32
  tk_rx_head :: u32
  tk_rx_off :: u64
  tk_tx_len :: u32
  tk_tx_avail :: u32
  tk_tx_head :: u32
  tk_tx_off :: u64
  tk_tx_seq :: u32
  tk_tx_pending :: u32
  tk_rx_seq :: u32
  tk_tx_remote_avail :: u32
  tk_tx_rexmit_seq :: u32
  tk_tx_rexmit_end_seq :: u32
  tk_rx_dupack_cnt :: u8
  tk_cc_acks :: u32
  tk_cc_ackb :: u32
  tk_cc_ecnb :: u32
  tk_cc_drops :: u32
  tk_cc_rate :: u32
  tk_ts_recent :: u32
  tk_rtt_est :: u32
  tk_tx_ready_tsc :: u64
  tk_recovery_active :: u8
  tk_recovery_end_seq :: u32

text \<open>
  The spin lock: taking it returns only once the word was 0, and the events of the fast path hold
  it for their whole critical section, so its value is all the model keeps.
\<close>

definition util_spin_lock :: "tcp_sock \<Rightarrow> tcp_sock" where
  "util_spin_lock s = s\<lparr>tk_lock := 1\<rparr>"

definition util_spin_unlock :: "tcp_sock \<Rightarrow> tcp_sock" where
  "util_spin_unlock s = s\<lparr>tk_lock := 0\<rparr>"

subsection \<open>Recovery\<close>

definition tcp_sock_recovery_reset :: "tcp_sock \<Rightarrow> tcp_sock" where
  "tcp_sock_recovery_reset s = s\<lparr>tk_recovery_active := 0, tk_recovery_end_seq := 0\<rparr>"

definition tcp_sock_recovery_enter :: "tcp_sock \<Rightarrow> tcp_sock" where
  "tcp_sock_recovery_enter s =
     (if tk_recovery_active s \<noteq> 0 then s
      else s\<lparr>tk_recovery_active := 1, tk_recovery_end_seq := tk_tx_seq s + tk_tx_pending s\<rparr>)"

definition tcp_sock_recovery_ack :: "tcp_sock \<Rightarrow> tcp_sock" where
  "tcp_sock_recovery_ack s =
     (if tk_recovery_active s \<noteq> 0 \<and> sint (tk_tx_seq s - tk_recovery_end_seq s) \<ge> 0
      then tcp_sock_recovery_reset s else s)"

definition tcp_sock_recovery_avail :: "tcp_sock \<Rightarrow> u32" where
  "tcp_sock_recovery_avail s =
     (if tk_recovery_active s = 0 then -1
      else let seq = tk_tx_seq s + tk_tx_pending s
           in if sint (tk_recovery_end_seq s - seq) \<le> 0 then 0 else tk_recovery_end_seq s - seq)"

subsection \<open>The send window\<close>

definition sock_sched_avail :: "tcp_sock \<Rightarrow> u32" where
  "sock_sched_avail s =
     (if tk_tx_pending s \<ge> tk_tx_remote_avail s then 0
      else let fc_avail = tk_tx_remote_avail s - tk_tx_pending s;
               avail = (if tk_tx_avail s < fc_avail then tk_tx_avail s else fc_avail);
               recovery_avail = tcp_sock_recovery_avail s
           in if avail > recovery_avail then recovery_avail else avail)"

text \<open>The window is computed in 64-bit signed arithmetic here.\<close>

definition tx_get_tx_bump :: "tcp_sock \<Rightarrow> u32 \<Rightarrow> u32" where
  "tx_get_tx_bump s max_paylen =
     (let b0 = tk_tx_avail s;
          b1 = (if b0 > max_paylen then max_paylen else b0);
          fc = uint (tk_tx_remote_avail s) - uint (tk_tx_pending s);
          fc_avail = (if fc < 0 then 0 else fc);
          b2 = (if uint b1 > fc_avail then word_of_int fc_avail else b1);
          recovery_avail = tcp_sock_recovery_avail s
      in if b2 > recovery_avail then recovery_avail else b2)"

definition tx_sock_tx_bump :: "tcp_sock \<Rightarrow> u32 \<Rightarrow> tcp_sock" where
  "tx_sock_tx_bump s tx_bump = s\<lparr>tk_tx_avail := tk_tx_avail s - tx_bump, tk_tx_pending := tk_tx_pending s + tx_bump\<rparr>"

subsection \<open>Acknowledgements\<close>

definition rx_is_ack_valid :: "u32 \<Rightarrow> u32 \<Rightarrow> u32 \<Rightarrow> u32 \<Rightarrow> bool" where
  "rx_is_ack_valid seqno pending avail ackno =
     (let max_ack = seqno + pending + avail
      in if seqno \<le> max_ack
         then (if ackno < seqno \<or> ackno > max_ack then False else True)
         else (if seqno > ackno \<and> ackno > max_ack then False else True))"

definition rx_get_ack_bump :: "tcp_sock \<Rightarrow> u32 \<Rightarrow> u32" where
  "rx_get_ack_bump s ackno =
     (if rx_is_ack_valid (tk_tx_seq s) (tk_tx_pending s) (tk_tx_avail s) ackno then ackno - tk_tx_seq s else 0)"

definition rx_sock_bump_ack :: "bool \<Rightarrow> tcp_sock \<Rightarrow> u32 \<Rightarrow> tcp_sock" where
  "rx_sock_bump_ack ece s ack_bump =
     (let extra0 = (if ack_bump > tk_tx_pending s then ack_bump - tk_tx_pending s else 0);
          extra = (if extra0 > tk_tx_avail s then tk_tx_avail s else extra0);
          s1 = s\<lparr>tk_tx_seq := tk_tx_seq s + ack_bump\<rparr>;
          s2 = (if ack_bump \<le> tk_tx_pending s1 then s1\<lparr>tk_tx_pending := tk_tx_pending s1 - ack_bump\<rparr>
                else s1\<lparr>tk_tx_pending := 0, tk_tx_avail := tk_tx_avail s1 - extra\<rparr>);
          s3 = s2\<lparr>tk_cc_ackb := tk_cc_ackb s2 + ack_bump\<rparr>;
          s4 = (if ece then s3\<lparr>tk_cc_ecnb := tk_cc_ecnb s3 + ack_bump\<rparr> else s3);
          s5 = s4\<lparr>tk_tx_head := (tk_tx_head s4 + ack_bump) mod tk_tx_len s4\<rparr>
      in if ack_bump > 0 then tcp_sock_recovery_ack (s5\<lparr>tk_rx_dupack_cnt := 0\<rparr>) else s5)"

subsection \<open>Receiving\<close>

definition rx_get_rx_bump :: "tcp_sock \<Rightarrow> u32 \<Rightarrow> u32" where
  "rx_get_rx_bump s paylen =
     (let free_rx = tk_rx_len s - tk_rx_avail s in if free_rx < paylen then free_rx else paylen)"

definition rx_sock_bump_rx :: "tcp_sock \<Rightarrow> u32 \<Rightarrow> tcp_sock" where
  "rx_sock_bump_rx s rx_bump = s\<lparr>tk_rx_seq := tk_rx_seq s + rx_bump, tk_rx_avail := tk_rx_avail s + rx_bump\<rparr>"

text \<open>The rings live in the guest's shared memory; \<^verbatim>\<open>memcpy\<close> between it and the packet.\<close>

definition rx_copy_payload :: "bytes \<Rightarrow> tcp_sock \<Rightarrow> bytes \<Rightarrow> nat \<Rightarrow> u32 \<Rightarrow> bytes" where
  "rx_copy_payload shm s pkt payload paylen =
     (let rx_base = unat (tk_rx_off s);
          tail0 = tk_rx_head s + tk_rx_avail s;
          tail = (if tail0 \<ge> tk_rx_len s then tail0 - tk_rx_len s else tail0)
      in if tail + paylen \<le> tk_rx_len s then mem_copy shm (rx_base + unat tail) pkt payload (unat paylen)
         else let part = tk_rx_len s - tail
              in mem_copy (mem_copy shm (rx_base + unat tail) pkt payload (unat part))
                   rx_base pkt (payload + unat part) (unat (paylen - part)))"

definition tx_copy_payload :: "bytes \<Rightarrow> tcp_sock \<Rightarrow> bytes \<Rightarrow> nat \<Rightarrow> u32 \<Rightarrow> bytes" where
  "tx_copy_payload shm s pkt payload tx_bump =
     (let tx_pos0 = tk_tx_head s + tk_tx_pending s;
          tx_pos = (if tx_pos0 \<ge> tk_tx_len s then tx_pos0 - tk_tx_len s else tx_pos0)
      in if tx_pos + tx_bump \<le> tk_tx_len s
         then mem_copy pkt payload shm (unat (tk_tx_off s) + unat tx_pos) (unat tx_bump)
         else let part = tk_tx_len s - tx_pos
              in mem_copy (mem_copy pkt payload shm (unat (tk_tx_off s) + unat tx_pos) (unat part))
                   (payload + unat part) shm (unat (tk_tx_off s)) (unat (tx_bump - part)))"

subsection \<open>Bumps from the application\<close>

definition deq_sock_bump_tx :: "tcp_sock \<Rightarrow> u32 \<Rightarrow> u16 \<Rightarrow> u32 \<Rightarrow> tcp_sock" where
  "deq_sock_bump_tx s b_ip b_port b_avail =
     (let tx_ip = (if b_ip = 0 then tk_remote_ip s else b_ip);
          tx_port = (if b_port = 0 then tk_remote_port s else b_port)
      in s\<lparr>tk_tx_avail := tk_tx_avail s + b_avail, tk_remote_ip := tx_ip, tk_remote_port := tx_port\<rparr>)"

definition deq_sock_bump_rx :: "tcp_sock \<Rightarrow> u32 \<Rightarrow> tcp_sock" where
  "deq_sock_bump_rx s b_head =
     (let nh0 = tk_rx_head s + b_head;
          new_head = (if nh0 \<ge> tk_rx_len s then nh0 - tk_rx_len s else nh0)
      in s\<lparr>tk_rx_head := new_head, tk_rx_avail := tk_rx_avail s - b_head\<rparr>)"

definition deq_is_retransmit_stale :: "tcp_sock \<Rightarrow> u32 \<Rightarrow> u32 \<Rightarrow> bool" where
  "deq_is_retransmit_stale s c_seq c_pending \<longleftrightarrow>
     tk_tx_pending s = 0 \<or> tk_tx_seq s \<noteq> c_seq \<or> tk_tx_pending s \<noteq> c_pending"

subsection \<open>Pacing and round-trip time\<close>

text \<open>\<open>cycles_per_us\<close> is what \<^verbatim>\<open>clock_us_to_tsc(1)\<close> returns.\<close>

definition rate_delay_tsc :: "u64 \<Rightarrow> u32 \<Rightarrow> u32 \<Rightarrow> u64" where
  "rate_delay_tsc cycles_per_us nbytes rate_kbps =
     (if nbytes = 0 \<or> rate_kbps = 0 then 0
      else if cycles_per_us = 0 then 0
      else let nr = (ucast nbytes :: u64) * 8 * 1000 * cycles_per_us
           in (nr + ucast rate_kbps - 1) div ucast rate_kbps)"

definition tx_sched_tsc :: "u64 \<Rightarrow> tcp_sock \<Rightarrow> u64" where
  "tx_sched_tsc now_tsc s =
     (if tk_cc_rate s = 0 \<or> tk_tx_ready_tsc s \<le> now_tsc then now_tsc else tk_tx_ready_tsc s)"

definition tx_sock_sched_next :: "u64 \<Rightarrow> tcp_sock \<Rightarrow> u32 \<Rightarrow> u64 \<Rightarrow> tcp_sock" where
  "tx_sock_sched_next cycles_per_us s pktlen now_tsc =
     (if tk_cc_rate s = 0 then s\<lparr>tk_tx_ready_tsc := now_tsc\<rparr>
      else s\<lparr>tk_tx_ready_tsc := now_tsc + rate_delay_tsc cycles_per_us pktlen (tk_cc_rate s)\<rparr>)"

text \<open>The timestamp handling, given the option read from the packet and the current microseconds.\<close>

definition sock_ts_rx :: "u32 \<Rightarrow> tcp_sock \<Rightarrow> (u32 \<times> u32) option \<Rightarrow> tcp_sock" where
  "sock_ts_rx now_us s opt =
     (case opt of None \<Rightarrow> s
      | Some (ts_val, ts_ecr) \<Rightarrow>
          (let s1 = s\<lparr>tk_ts_recent := ts_val\<rparr>; rtt = now_us - ts_ecr
           in if ts_ecr = 0 then s1
              else if rtt = 0 \<or> rtt \<ge> TCP_MAX_RTT then s1
              else if tk_rtt_est s1 \<noteq> 0 then s1\<lparr>tk_rtt_est := (7 * tk_rtt_est s1 + rtt) div 8\<rparr>
              else s1\<lparr>tk_rtt_est := rtt\<rparr>))"

subsection \<open>Flow lookup hash\<close>

definition sock_hash :: "u32 \<Rightarrow> u16 \<Rightarrow> u32 \<Rightarrow> u16 \<Rightarrow> u32" where
  "sock_hash lip lport rip rport =
     (let h = lip XOR rip XOR push_bit 16 (ucast lport) XOR ucast rport in h XOR drop_bit 16 h)"

section \<open>The socket invariant\<close>

text \<open>
  Both rings hold at most their length, and every index is inside its ring. The lengths stay
  below \<open>2 ^ 31\<close>, so that sums of two positions do not wrap and signed comparisons of sequence
  numbers inside a ring are meaningful.
\<close>

definition rx_ok :: "tcp_sock \<Rightarrow> bool" where
  "rx_ok s \<longleftrightarrow> 0 < unat (tk_rx_len s) \<and> unat (tk_rx_len s) < 2 ^ 31 \<and> unat (tk_rx_avail s) \<le> unat (tk_rx_len s) \<and>
     unat (tk_rx_head s) < unat (tk_rx_len s)"

definition tx_ok :: "tcp_sock \<Rightarrow> bool" where
  "tx_ok s \<longleftrightarrow> 0 < unat (tk_tx_len s) \<and> unat (tk_tx_len s) < 2 ^ 31 \<and> unat (tk_tx_head s) < unat (tk_tx_len s) \<and>
     unat (tk_tx_pending s) + unat (tk_tx_avail s) \<le> unat (tk_tx_len s)"

definition sock_ok :: "tcp_sock \<Rightarrow> bool" where
  "sock_ok s \<longleftrightarrow> rx_ok s \<and> tx_ok s"

lemmas sock_ok_defs = sock_ok_def rx_ok_def tx_ok_def

section \<open>Sequence-number arithmetic\<close>

lemma unat_diff_32: "unat ((a :: u32) - b) = (if unat b \<le> unat a then unat a - unat b else unat a + 4294967296 - unat b)"
  using unat_sub_if' [of a b] by simp

text \<open>The window test of acknowledgements is the distance test, also across the wrap-around.\<close>

lemma rx_is_ack_valid_iff:
  assumes "unat pending + unat avail < 2 ^ 32"
  shows "rx_is_ack_valid seqno pending avail ackno \<longleftrightarrow> unat (ackno - seqno) \<le> unat pending + unat avail"
proof -
  have n: "unat (pending + avail) = unat pending + unat avail" using assms by (intro unat_add_small) simp
  have m: "unat (seqno + pending + avail) =
      (if unat seqno + (unat pending + unat avail) < 4294967296 then unat seqno + (unat pending + unat avail)
       else unat seqno + (unat pending + unat avail) - 4294967296)"
    using unat_plus_if' [of seqno "pending + avail"] n by (simp add: add.assoc)
  show ?thesis
    using assms unat_32_bound [of seqno] unat_32_bound [of ackno]
    unfolding rx_is_ack_valid_def Let_def word_le_nat_alt word_less_nat_alt m unat_diff_32
    by (auto split: if_splits)
qed

lemma ack_bump_le:
  assumes "unat (tk_tx_pending s) + unat (tk_tx_avail s) < 2 ^ 32"
  shows "unat (rx_get_ack_bump s ackno) \<le> unat (tk_tx_pending s) + unat (tk_tx_avail s)"
  using rx_is_ack_valid_iff [OF assms] by (simp add: rx_get_ack_bump_def)

lemma tx_ok_sum: "tx_ok s \<Longrightarrow> unat (tk_tx_pending s) + unat (tk_tx_avail s) < 2 ^ 32"
  by (simp add: tx_ok_def)

section \<open>Acknowledging\<close>

lemma recovery_simps [simp]:
  "tk_tx_seq (tcp_sock_recovery_ack s) = tk_tx_seq s" "tk_tx_pending (tcp_sock_recovery_ack s) = tk_tx_pending s"
  "tk_tx_avail (tcp_sock_recovery_ack s) = tk_tx_avail s" "tk_tx_head (tcp_sock_recovery_ack s) = tk_tx_head s"
  "tk_tx_len (tcp_sock_recovery_ack s) = tk_tx_len s" "tk_tx_off (tcp_sock_recovery_ack s) = tk_tx_off s"
  "rx_ok (tcp_sock_recovery_ack s) = rx_ok s" "tk_rx_seq (tcp_sock_recovery_ack s) = tk_rx_seq s"
  "tk_rx_avail (tcp_sock_recovery_ack s) = tk_rx_avail s" "tk_rx_head (tcp_sock_recovery_ack s) = tk_rx_head s"
  "tk_rx_len (tcp_sock_recovery_ack s) = tk_rx_len s" "tk_rx_off (tcp_sock_recovery_ack s) = tk_rx_off s"
  "tk_tx_remote_avail (tcp_sock_recovery_ack s) = tk_tx_remote_avail s" "tk_cc_ackb (tcp_sock_recovery_ack s) = tk_cc_ackb s"
  "tk_rx_dupack_cnt (tcp_sock_recovery_ack s) = tk_rx_dupack_cnt s" "tk_lock (tcp_sock_recovery_ack s) = tk_lock s"
  "tk_id (tcp_sock_recovery_ack s) = tk_id s" "tk_app_bump_qid (tcp_sock_recovery_ack s) = tk_app_bump_qid s"
  "tk_opaque (tcp_sock_recovery_ack s) = tk_opaque s"
  by (simp_all add: tcp_sock_recovery_ack_def tcp_sock_recovery_reset_def rx_ok_def)

lemma bump_ack_frame [simp]:
  "tk_tx_len (rx_sock_bump_ack ece s b) = tk_tx_len s" "tk_tx_off (rx_sock_bump_ack ece s b) = tk_tx_off s"
  "tk_tx_seq (rx_sock_bump_ack ece s b) = tk_tx_seq s + b"
  "tk_tx_head (rx_sock_bump_ack ece s b) = (tk_tx_head s + b) mod tk_tx_len s"
  "rx_ok (rx_sock_bump_ack ece s b) = rx_ok s" "tk_rx_seq (rx_sock_bump_ack ece s b) = tk_rx_seq s"
  "tk_rx_avail (rx_sock_bump_ack ece s b) = tk_rx_avail s" "tk_rx_head (rx_sock_bump_ack ece s b) = tk_rx_head s"
  "tk_rx_len (rx_sock_bump_ack ece s b) = tk_rx_len s" "tk_rx_off (rx_sock_bump_ack ece s b) = tk_rx_off s"
  "tk_tx_remote_avail (rx_sock_bump_ack ece s b) = tk_tx_remote_avail s"
  "tk_lock (rx_sock_bump_ack ece s b) = tk_lock s" "tk_id (rx_sock_bump_ack ece s b) = tk_id s"
  "tk_app_bump_qid (rx_sock_bump_ack ece s b) = tk_app_bump_qid s" "tk_opaque (rx_sock_bump_ack ece s b) = tk_opaque s"
  by (simp_all add: rx_sock_bump_ack_def Let_def rx_ok_def)

lemma bump_ack_counts:
  assumes "unat b \<le> unat (tk_tx_pending s) + unat (tk_tx_avail s)"
  shows "unat (tk_tx_pending (rx_sock_bump_ack ece s b)) = unat (tk_tx_pending s) - unat b"
    and "unat (tk_tx_avail (rx_sock_bump_ack ece s b)) = unat (tk_tx_avail s) - (unat b - unat (tk_tx_pending s))"
proof -
  show "unat (tk_tx_pending (rx_sock_bump_ack ece s b)) = unat (tk_tx_pending s) - unat b"
    by (cases "b \<le> tk_tx_pending s") (auto simp: rx_sock_bump_ack_def Let_def unat_sub word_le_nat_alt)
  show "unat (tk_tx_avail (rx_sock_bump_ack ece s b)) = unat (tk_tx_avail s) - (unat b - unat (tk_tx_pending s))"
  proof (cases "b \<le> tk_tx_pending s")
    case True
    then show ?thesis by (simp add: rx_sock_bump_ack_def Let_def word_le_nat_alt)
  next
    case False
    then have gt: "tk_tx_pending s < b" by simp
    then have d: "unat (b - tk_tx_pending s) = unat b - unat (tk_tx_pending s)" by (simp add: unat_sub)
    have le: "b - tk_tx_pending s \<le> tk_tx_avail s" using assms d by (simp add: word_le_nat_alt)
    then have "tk_tx_avail (rx_sock_bump_ack ece s b) = tk_tx_avail s - (b - tk_tx_pending s)"
      using False gt by (simp add: rx_sock_bump_ack_def Let_def not_less [THEN iffD2])
    then show ?thesis using unat_sub [OF le] d by simp
  qed
qed

lemma unat_mod_32: "unat ((a :: u32) mod b) = unat a mod unat b"
  by (rule unat_mod_distrib)

lemma tx_head_advance:
  assumes "tx_ok s" and "unat b \<le> unat (tk_tx_len s)"
  shows "unat ((tk_tx_head s + b) mod tk_tx_len s) = (unat (tk_tx_head s) + unat b) mod unat (tk_tx_len s)"
proof -
  have "unat (tk_tx_head s + b) = unat (tk_tx_head s) + unat b"
    using assms by (intro unat_add_small_iff) (auto simp: tx_ok_def)
  then show ?thesis by (simp add: unat_mod_32)
qed

lemma bump_ack_ok:
  assumes "tx_ok s" and b: "unat b \<le> unat (tk_tx_pending s) + unat (tk_tx_avail s)"
  shows "tx_ok (rx_sock_bump_ack ece s b)"
proof -
  have "unat b \<le> unat (tk_tx_len s)" using assms by (simp add: tx_ok_def)
  then have "unat (tk_tx_head (rx_sock_bump_ack ece s b)) < unat (tk_tx_len s)"
    using tx_head_advance [OF assms(1)] assms(1) by (simp add: tx_ok_def)
  then show ?thesis using assms(1) b bump_ack_counts [OF b, of ece] by (auto simp: tx_ok_def)
qed

section \<open>The send ring\<close>

text \<open>Byte \<open>k\<close> after the oldest unacknowledged one; its sequence number is \<open>tx_seq + k\<close>.\<close>

definition tx_byte :: "bytes \<Rightarrow> tcp_sock \<Rightarrow> nat \<Rightarrow> u8" where
  "tx_byte shm s k = shm (unat (tk_tx_off s) + (unat (tk_tx_head s) + k) mod unat (tk_tx_len s))"

lemma tx_byte_ack:
  assumes "tx_ok s" and "unat b \<le> unat (tk_tx_pending s) + unat (tk_tx_avail s)"
  shows "tx_byte shm (rx_sock_bump_ack ece s b) k = tx_byte shm s (unat b + k)"
proof -
  have "unat b \<le> unat (tk_tx_len s)" using assms by (simp add: tx_ok_def)
  then show ?thesis
    using tx_head_advance [OF assms(1)] by (simp add: tx_byte_def mod_add_left_eq add.assoc)
qed

text \<open>The payload of a segment is the part of the ring that follows the pending bytes.\<close>

lemma tx_copy_payload_load:
  "tx_copy_payload shm s pkt p b = ring_load pkt p shm (unat (tk_tx_off s)) (tk_tx_len s)
     (ring_wrap (tk_tx_len s) (tk_tx_head s + tk_tx_pending s)) b"
  by (simp add: tx_copy_payload_def ring_load_def ring_wrap_def Let_def)

lemma tx_byte_ring: "tx_byte shm s = ring_byte shm (unat (tk_tx_off s)) (tk_tx_len s) (tk_tx_head s)"
  by (simp add: fun_eq_iff tx_byte_def ring_byte_def)

lemma tx_copy_payload_bytes:
  assumes ok: "tx_ok s" and n: "unat (tk_tx_pending s) + unat b \<le> unat (tk_tx_len s)"
  shows "tx_copy_payload shm s pkt p b =
    (\<lambda>i. if p \<le> i \<and> i < p + unat b then tx_byte shm s (unat (tk_tx_pending s) + (i - p)) else pkt i)"
proof -
  have a: "unat (tk_tx_head s) < unat (tk_tx_len s)" "unat (tk_tx_pending s) \<le> unat (tk_tx_len s)"
    "unat (tk_tx_len s) < 2 ^ 31" "unat b \<le> unat (tk_tx_len s)" using ok n by (simp_all add: tx_ok_def)
  show ?thesis
    unfolding tx_copy_payload_load ring_load_bytes [OF wrap_pos(2) [OF a(1-3)] a(4,3)]
      ring_byte_advance [OF a(1-3)] tx_byte_ring ..
qed

section \<open>The receive ring\<close>

text \<open>Byte \<open>k\<close> after the head; the first \<open>rx_avail\<close> of them are received and unread.\<close>

definition rx_byte :: "bytes \<Rightarrow> tcp_sock \<Rightarrow> nat \<Rightarrow> u8" where
  "rx_byte shm s k = shm (unat (tk_rx_off s) + (unat (tk_rx_head s) + k) mod unat (tk_rx_len s))"

lemma rx_copy_payload_store:
  "rx_copy_payload shm s pkt p b = ring_store shm (unat (tk_rx_off s)) (tk_rx_len s)
     (ring_wrap (tk_rx_len s) (tk_rx_head s + tk_rx_avail s)) pkt p b"
  by (simp add: rx_copy_payload_def ring_store_def ring_wrap_def Let_def)

lemma rx_byte_ring: "rx_byte shm s = ring_byte shm (unat (tk_rx_off s)) (tk_rx_len s) (tk_rx_head s)"
  by (simp add: fun_eq_iff rx_byte_def ring_byte_def)

lemma rx_copy_payload_outside:
  assumes ok: "rx_ok s" and n: "unat (tk_rx_avail s) + unat b \<le> unat (tk_rx_len s)"
    and a: "a < unat (tk_rx_off s) \<or> unat (tk_rx_off s) + unat (tk_rx_len s) \<le> a"
  shows "rx_copy_payload shm s pkt p b a = shm a"
  unfolding rx_copy_payload_store using ok n a
  by (intro ring_store_outside wrap_pos(2)) (auto simp: rx_ok_def)

text \<open>Receiving appends: the unread bytes stay, the new ones follow them.\<close>

lemma rx_append:
  assumes ok: "rx_ok s" and n: "unat (tk_rx_avail s) + unat b \<le> unat (tk_rx_len s)"
    and j: "j < unat (tk_rx_avail s) + unat b"
  shows "rx_byte (rx_copy_payload shm s pkt p b) s j =
    (if j < unat (tk_rx_avail s) then rx_byte shm s j else pkt (p + (j - unat (tk_rx_avail s))))"
  unfolding rx_copy_payload_store rx_byte_ring using ok n j by (intro ring_append) (auto simp: rx_ok_def)

section \<open>The send window\<close>

lemma sock_sched_avail_min:
  "unat (sock_sched_avail s) =
     min (min (unat (tk_tx_avail s)) (unat (tk_tx_remote_avail s) - unat (tk_tx_pending s))) (unat (tcp_sock_recovery_avail s))"
proof (cases "tk_tx_pending s \<ge> tk_tx_remote_avail s")
  case True
  then show ?thesis by (simp add: sock_sched_avail_def word_le_nat_alt)
next
  case False
  then have "unat (tk_tx_remote_avail s - tk_tx_pending s) = unat (tk_tx_remote_avail s) - unat (tk_tx_pending s)"
    by (intro unat_sub) simp
  then show ?thesis using False
    by (auto simp: sock_sched_avail_def Let_def word_le_nat_alt word_less_nat_alt min_def)
qed

lemma tx_get_tx_bump_min:
  "unat (tx_get_tx_bump s m) = min (unat m) (unat (sock_sched_avail s))"
proof -
  define b1 where "b1 = (if tk_tx_avail s > m then m else tk_tx_avail s)"
  define fc where "fc = uint (tk_tx_remote_avail s) - uint (tk_tx_pending s)"
  define fc' where "fc' = (if fc < 0 then 0 else fc)"
  define b2 where "b2 = (if uint b1 > fc' then word_of_int fc' else b1 :: u32)"
  have b1: "unat b1 = min (unat m) (unat (tk_tx_avail s))" by (auto simp: b1_def word_less_nat_alt min_def)
  define d where "d = unat (tk_tx_remote_avail s) - unat (tk_tx_pending s)"
  have fcn: "fc' = int d"
    unfolding fc'_def fc_def d_def uint_nat by arith
  have cmp: "uint b1 > fc' \<longleftrightarrow> unat b1 > d" unfolding fcn uint_nat by (rule of_nat_less_iff)
  have "d < 2 ^ 32" using unat_32_bound [of "tk_tx_remote_avail s"] by (simp add: d_def)
  then have "unat (of_nat d :: u32) = d" unfolding unat_of_nat by simp
  then have "unat (word_of_int fc' :: u32) = d" unfolding fcn by simp
  then have "unat b2 = min (unat b1) (unat (tk_tx_remote_avail s) - unat (tk_tx_pending s))"
    unfolding b2_def cmp d_def [symmetric] by simp
  moreover have "tx_get_tx_bump s m = (if b2 > tcp_sock_recovery_avail s then tcp_sock_recovery_avail s else b2)"
    by (simp add: tx_get_tx_bump_def Let_def b1_def fc_def fc'_def b2_def)
  then have "unat (tx_get_tx_bump s m) = min (unat b2) (unat (tcp_sock_recovery_avail s))"
    by (simp add: word_less_nat_alt)
  ultimately show ?thesis using b1 sock_sched_avail_min [of s] by (simp add: min.assoc)
qed

lemma tx_bump_ok:
  assumes "tx_ok s" and "unat b \<le> unat (tk_tx_avail s)"
  shows "tx_ok (tx_sock_tx_bump s b)" and "unat (tk_tx_pending (tx_sock_tx_bump s b)) = unat (tk_tx_pending s) + unat b"
    and "unat (tk_tx_avail (tx_sock_tx_bump s b)) = unat (tk_tx_avail s) - unat b"
proof -
  show p: "unat (tk_tx_pending (tx_sock_tx_bump s b)) = unat (tk_tx_pending s) + unat b"
    using assms unfolding tx_sock_tx_bump_def tx_ok_def by (simp add: unat_add_small_iff)
  show a: "unat (tk_tx_avail (tx_sock_tx_bump s b)) = unat (tk_tx_avail s) - unat b"
    using assms(2) by (simp add: tx_sock_tx_bump_def unat_sub word_le_nat_alt)
  have "tk_tx_len (tx_sock_tx_bump s b) = tk_tx_len s" "tk_tx_head (tx_sock_tx_bump s b) = tk_tx_head s"
    by (simp_all add: tx_sock_tx_bump_def)
  then show "tx_ok (tx_sock_tx_bump s b)" using assms p a by (simp add: tx_ok_def)
qed

section \<open>Receiving and reading\<close>

lemma rx_get_rx_bump_min:
  assumes "rx_ok s"
  shows "unat (rx_get_rx_bump s n) = min (unat n) (unat (tk_rx_len s) - unat (tk_rx_avail s))"
proof -
  have "unat (tk_rx_len s - tk_rx_avail s) = unat (tk_rx_len s) - unat (tk_rx_avail s)"
    using assms by (intro unat_sub) (simp add: rx_ok_def word_le_nat_alt)
  then show ?thesis by (auto simp: rx_get_rx_bump_def Let_def word_less_nat_alt min_def)
qed

lemma rx_bump_ok:
  assumes "rx_ok s" and "unat (tk_rx_avail s) + unat b \<le> unat (tk_rx_len s)"
  shows "rx_ok (rx_sock_bump_rx s b)" and "unat (tk_rx_avail (rx_sock_bump_rx s b)) = unat (tk_rx_avail s) + unat b"
proof -
  show a: "unat (tk_rx_avail (rx_sock_bump_rx s b)) = unat (tk_rx_avail s) + unat b"
    using assms unfolding rx_sock_bump_rx_def rx_ok_def by (simp add: unat_add_small_iff)
  have "tk_rx_len (rx_sock_bump_rx s b) = tk_rx_len s" "tk_rx_head (rx_sock_bump_rx s b) = tk_rx_head s"
    by (simp_all add: rx_sock_bump_rx_def)
  then show "rx_ok (rx_sock_bump_rx s b)" using assms a by (simp add: rx_ok_def)
qed

text \<open>The application has consumed \<open>b\<close> bytes: the remaining unread bytes keep their order.\<close>

lemma deq_bump_rx_ok:
  assumes "rx_ok s" and "unat b \<le> unat (tk_rx_avail s)"
  shows "rx_ok (deq_sock_bump_rx s b)" and "unat (tk_rx_avail (deq_sock_bump_rx s b)) = unat (tk_rx_avail s) - unat b"
    and "rx_byte shm (deq_sock_bump_rx s b) k = rx_byte shm s (unat b + k)"
proof -
  let ?h = "ring_wrap (tk_rx_len s) (tk_rx_head s + b)"
  have h: "unat ?h = (unat (tk_rx_head s) + unat b) mod unat (tk_rx_len s)" "unat ?h < unat (tk_rx_len s)"
    using wrap_pos [of "tk_rx_head s" "tk_rx_len s" b] assms by (auto simp: rx_ok_def)
  have eq: "deq_sock_bump_rx s b = s\<lparr>tk_rx_head := ?h, tk_rx_avail := tk_rx_avail s - b\<rparr>"
    by (simp add: deq_sock_bump_rx_def Let_def ring_wrap_def)
  show a: "unat (tk_rx_avail (deq_sock_bump_rx s b)) = unat (tk_rx_avail s) - unat b"
    using assms(2) by (simp add: eq unat_sub word_le_nat_alt)
  show "rx_ok (deq_sock_bump_rx s b)" using assms a h(2) by (auto simp: rx_ok_def eq)
  show "rx_byte shm (deq_sock_bump_rx s b) k = rx_byte shm s (unat b + k)"
    by (simp add: rx_byte_def eq h(1) mod_add_left_eq add.assoc)
qed

lemma deq_bump_tx_ok:
  assumes "tx_ok s" and "unat (tk_tx_pending s) + unat (tk_tx_avail s) + unat b \<le> unat (tk_tx_len s)"
  shows "tx_ok (deq_sock_bump_tx s ip port b)"
  using assms unat_add_small_iff [of "tk_tx_avail s" b]
  by (simp add: tx_ok_def deq_sock_bump_tx_def Let_def)

end
