(* ===== verification/Tcp_Pkt.thy ===== *)
theory Tcp_Pkt
  imports Byte_Order Tcp_Sock
begin

unbundle bit_operations_syntax

text \<open>
  TCP/IP packets as bytes (\<^verbatim>\<open>pkt_hdrs/include\<close>): the packed structures \<^verbatim>\<open>struct ip_hdr\<close>,
  \<^verbatim>\<open>struct tcp_hdr\<close> and \<^verbatim>\<open>struct tcp_timestamp_opt\<close> are read and written at their fixed offsets from
  the start of the IP header, with the little-endian loads and stores of the target, and the
  parsing and filling functions of \<^verbatim>\<open>chamelio/protos/tcp_fast.c\<close> are built on them.
\<close>

section \<open>Loads and stores\<close>

definition ld16 :: "bytes \<Rightarrow> nat \<Rightarrow> u16" where
  "ld16 p o' = ucast (p o') OR push_bit 8 (ucast (p (o' + 1)))"

definition ld32 :: "bytes \<Rightarrow> nat \<Rightarrow> u32" where
  "ld32 p o' = ucast (p o') OR push_bit 8 (ucast (p (o' + 1))) OR push_bit 16 (ucast (p (o' + 2))) OR push_bit 24 (ucast (p (o' + 3)))"

definition st16 :: "nat \<Rightarrow> u16 \<Rightarrow> bytes \<Rightarrow> bytes" where
  "st16 o' v p = p(o' := ucast v, o' + 1 := ucast (drop_bit 8 v))"

definition st32 :: "nat \<Rightarrow> u32 \<Rightarrow> bytes \<Rightarrow> bytes" where
  "st32 o' v p = p(o' := ucast v, o' + 1 := ucast (drop_bit 8 v), o' + 2 := ucast (drop_bit 16 v), o' + 3 := ucast (drop_bit 24 v))"

definition st8 :: "nat \<Rightarrow> u8 \<Rightarrow> bytes \<Rightarrow> bytes" where
  "st8 o' v p = p(o' := v)"

lemma join16: "(ucast (ucast (v :: u16) :: u8) :: u16) OR push_bit 8 (ucast (ucast (drop_bit 8 v) :: u8)) = v"
  by (rule bit_word_eqI) (auto simp: bit_simps)

lemma join32:
  "(ucast (ucast (v :: u32) :: u8) :: u32) OR push_bit 8 (ucast (ucast (drop_bit 8 v) :: u8)) OR
   push_bit 16 (ucast (ucast (drop_bit 16 v) :: u8)) OR push_bit 24 (ucast (ucast (drop_bit 24 v) :: u8)) = v"
proof (rule bit_word_eqI)
  fix n
  assume n: "n < LENGTH(32)"
  then consider "n < 8" | "8 \<le> n" "n < 16" | "16 \<le> n" "n < 24" | "24 \<le> n" by linarith
  then show "bit ((ucast (ucast v :: u8) :: u32) OR push_bit 8 (ucast (ucast (drop_bit 8 v) :: u8)) OR
     push_bit 16 (ucast (ucast (drop_bit 16 v) :: u8)) OR push_bit 24 (ucast (ucast (drop_bit 24 v) :: u8))) n = bit v n"
    using n by cases (auto simp: bit_simps)
qed

lemma ld_st_same [field_simps_chm]:
  "ld16 (st16 o' v p) o' = v" "ld32 (st32 o' w p) o' = w" "st8 o' b p o' = b"
  using join16 [of v] join32 [of w] by (simp_all add: ld16_def st16_def ld32_def st32_def st8_def)

lemma st_other [field_simps_chm]:
  "i < o' \<or> o' + 2 \<le> i \<Longrightarrow> st16 o' v p i = p i" "i < o' \<or> o' + 4 \<le> i \<Longrightarrow> st32 o' w p i = p i" "i \<noteq> o' \<Longrightarrow> st8 o' b p i = p i"
  by (auto simp: st16_def st32_def st8_def)

lemma ld16_other [field_simps_chm]:
  "i + 2 \<le> o' \<or> o' + 2 \<le> i \<Longrightarrow> ld16 (st16 o' v p) i = ld16 p i"
  "i + 2 \<le> o' \<or> o' + 4 \<le> i \<Longrightarrow> ld16 (st32 o' w p) i = ld16 p i"
  "i + 2 \<le> o' \<or> o' + 1 \<le> i \<Longrightarrow> ld16 (st8 o' b p) i = ld16 p i"
  by (auto simp: ld16_def st16_def st32_def st8_def)

lemma ld32_other [field_simps_chm]:
  "i + 4 \<le> o' \<or> o' + 2 \<le> i \<Longrightarrow> ld32 (st16 o' v p) i = ld32 p i"
  "i + 4 \<le> o' \<or> o' + 4 \<le> i \<Longrightarrow> ld32 (st32 o' w p) i = ld32 p i"
  "i + 4 \<le> o' \<or> o' + 1 \<le> i \<Longrightarrow> ld32 (st8 o' b p) i = ld32 p i"
  by (auto simp: ld32_def st16_def st32_def st8_def)

section \<open>Header fields\<close>

text \<open>Offsets: the IP header at 0, the TCP header at 20, the timestamp option at 40.\<close>

abbreviation IP_HLEN :: nat where "IP_HLEN \<equiv> 20"
abbreviation TCP_PKT_INNER :: nat where "TCP_PKT_INNER \<equiv> 40"
abbreviation TCP_HLEN :: nat where "TCP_HLEN \<equiv> 20"
abbreviation TCP_TS_OPT_LEN :: nat where "TCP_TS_OPT_LEN \<equiv> 12"
abbreviation IP_PROTO_TCP :: u8 where "IP_PROTO_TCP \<equiv> 6"
abbreviation CHAM_IP_ECN_CE :: u8 where "CHAM_IP_ECN_CE \<equiv> 3"
abbreviation CHAM_IP_ECN_ECT0 :: u8 where "CHAM_IP_ECN_ECT0 \<equiv> 2"
abbreviation TCP_OPT_TIMESTAMP :: u8 where "TCP_OPT_TIMESTAMP \<equiv> 8"

abbreviation TAS_TCP_FIN :: u16 where "TAS_TCP_FIN \<equiv> 0x01"
abbreviation TAS_TCP_SYN :: u16 where "TAS_TCP_SYN \<equiv> 0x02"
abbreviation TAS_TCP_RST :: u16 where "TAS_TCP_RST \<equiv> 0x04"
abbreviation TAS_TCP_PSH :: u16 where "TAS_TCP_PSH \<equiv> 0x08"
abbreviation TAS_TCP_ACK :: u16 where "TAS_TCP_ACK \<equiv> 0x10"
abbreviation TAS_TCP_ECE :: u16 where "TAS_TCP_ECE \<equiv> 0x40"
abbreviation TAS_TCP_FLAGS :: u16 where "TAS_TCP_FLAGS \<equiv> 0x1ff"

definition IPH_V :: "bytes \<Rightarrow> u8" where "IPH_V p = drop_bit 4 (p 0)"
definition IPH_HL :: "bytes \<Rightarrow> u8" where "IPH_HL p = p 0 AND 0x0f"
definition IPH_ECN :: "bytes \<Rightarrow> u8" where "IPH_ECN p = p 1 AND 0x3"
definition ip_len :: "bytes \<Rightarrow> u16" where "ip_len p = f_beui16 (ld16 p 2)"
definition ip_proto :: "bytes \<Rightarrow> u8" where "ip_proto p = p 9"
definition ip_src :: "bytes \<Rightarrow> u32" where "ip_src p = f_beui32 (ld32 p 12)"
definition ip_dst :: "bytes \<Rightarrow> u32" where "ip_dst p = f_beui32 (ld32 p 16)"
definition tcp_src :: "bytes \<Rightarrow> u16" where "tcp_src p = f_beui16 (ld16 p 20)"
definition tcp_dest :: "bytes \<Rightarrow> u16" where "tcp_dest p = f_beui16 (ld16 p 22)"
definition tcp_seqno :: "bytes \<Rightarrow> u32" where "tcp_seqno p = f_beui32 (ld32 p 24)"
definition tcp_ackno :: "bytes \<Rightarrow> u32" where "tcp_ackno p = f_beui32 (ld32 p 28)"
definition TCPH_RAW :: "bytes \<Rightarrow> u16" where "TCPH_RAW p = bswap16 (ld16 p 32)"
definition TCPH_HDRLEN :: "bytes \<Rightarrow> u16" where "TCPH_HDRLEN p = drop_bit 12 (TCPH_RAW p)"
definition TCPH_FLAGS :: "bytes \<Rightarrow> u16" where "TCPH_FLAGS p = TCPH_RAW p AND TAS_TCP_FLAGS"
definition tcp_wnd :: "bytes \<Rightarrow> u16" where "tcp_wnd p = f_beui16 (ld16 p 34)"

definition TCPH_HDRLEN_FLAGS_SET :: "u16 \<Rightarrow> u16 \<Rightarrow> bytes \<Rightarrow> bytes" where
  "TCPH_HDRLEN_FLAGS_SET len flags p = st16 32 (bswap16 (push_bit 12 len OR (flags AND TAS_TCP_FLAGS))) p"

definition IPH_VHL_SET :: "u8 \<Rightarrow> u8 \<Rightarrow> bytes \<Rightarrow> bytes" where
  "IPH_VHL_SET v hl p = st8 0 (push_bit 4 v OR hl) p"

text \<open>The mask is \<^verbatim>\<open>0xffc\<close> in \<^verbatim>\<open>int\<close> arithmetic, \<^verbatim>\<open>0xfc\<close> for a byte.\<close>

definition IPH_ECN_SET :: "u8 \<Rightarrow> bytes \<Rightarrow> bytes" where
  "IPH_ECN_SET e p = st8 1 ((p 1 AND 0xfc) OR e) p"

section \<open>Parsing\<close>

definition rx_get_hdrlen :: "bytes \<Rightarrow> u32" where
  "rx_get_hdrlen p =
     (let ip_hdrs_len = (ucast (IPH_HL p) * 4 :: u16);
          tcp_hdrs_len = TCPH_HDRLEN p * 4
      in ucast ip_hdrs_len + ucast tcp_hdrs_len)"

definition rx_get_paylen :: "bytes \<Rightarrow> u32" where
  "rx_get_paylen p =
     (let ip_hdrlen = (ucast (IPH_HL p) * 4 :: u16);
          ip_totlen = ip_len p;
          tcp_hdrlen = TCPH_HDRLEN p * 4
      in ucast (ip_totlen - ip_hdrlen - tcp_hdrlen))"

definition rx_is_ip :: "bytes \<Rightarrow> bool" where
  "rx_is_ip p \<longleftrightarrow> IPH_V p = 4 \<and> IPH_HL p \<ge> 5 \<and> ip_proto p = IP_PROTO_TCP"

definition rx_is_ce :: "bytes \<Rightarrow> bool" where
  "rx_is_ce p \<longleftrightarrow> IPH_ECN p = CHAM_IP_ECN_CE"

definition rx_is_flags_ctl :: "bytes \<Rightarrow> bool" where
  "rx_is_flags_ctl p \<longleftrightarrow> TCPH_FLAGS p AND (TAS_TCP_SYN OR TAS_TCP_FIN OR TAS_TCP_RST) \<noteq> 0"

definition rx_is_ack :: "bytes \<Rightarrow> bool" where
  "rx_is_ack p \<longleftrightarrow> TCPH_FLAGS p AND TAS_TCP_ACK \<noteq> 0"

definition rx_is_ack_only :: "bytes \<Rightarrow> bool" where
  "rx_is_ack_only p \<longleftrightarrow> rx_get_paylen p = 0"

definition rx_get_payload_overlap :: "bytes \<Rightarrow> tcp_sock \<Rightarrow> u32" where
  "rx_get_payload_overlap p s =
     (let seqno = tcp_seqno p;
          overlap = (if sint (seqno - tk_rx_seq s) < 0 then tk_rx_seq s - seqno else 0);
          paylen = rx_get_paylen p
      in if overlap > paylen then paylen else overlap)"

definition rx_is_payload_dup :: "bytes \<Rightarrow> tcp_sock \<Rightarrow> bool" where
  "rx_is_payload_dup p s \<longleftrightarrow> rx_get_paylen p \<le> rx_get_payload_overlap p s"

definition rx_is_out_of_order :: "bytes \<Rightarrow> tcp_sock \<Rightarrow> bool" where
  "rx_is_out_of_order p s \<longleftrightarrow> sint (tcp_seqno p - tk_rx_seq s) > 0"

text \<open>\<open>len\<close> is the number of bytes from the start of the packet to \<^verbatim>\<open>pkt_end\<close>.\<close>

definition rx_read_ts :: "bytes \<Rightarrow> nat \<Rightarrow> (u32 \<times> u32) option" where
  "rx_read_ts p len =
     (let hdrlen = TCPH_HDRLEN p * 4
      in if unat hdrlen \<le> TCP_HLEN then None
         else if TCP_PKT_INNER + TCP_TS_OPT_LEN > len then None
         else if p 40 \<noteq> TCP_OPT_TIMESTAMP then None
         else Some (f_beui32 (ld32 p 42), f_beui32 (ld32 p 46)))"

definition is_pktlen_valid :: "nat \<Rightarrow> bool" where
  "is_pktlen_valid len \<longleftrightarrow> TCP_PKT_INNER \<le> len"

definition is_paylen_valid :: "nat \<Rightarrow> u16 \<Rightarrow> u16 \<Rightarrow> bool" where
  "is_paylen_valid len hdrs_len paylen \<longleftrightarrow> unat hdrs_len + unat paylen \<le> len"

section \<open>Filling\<close>

definition tx_get_hdrlen :: u32 where
  "tx_get_hdrlen = of_nat (IP_HLEN + TCP_HLEN + TCP_TS_OPT_LEN)"

definition tx_write_tsopt :: "u32 \<Rightarrow> u32 \<Rightarrow> bytes \<Rightarrow> bytes" where
  "tx_write_tsopt now_us ts_recent p =
     st16 50 0 (st32 46 (t_beui32 ts_recent) (st32 42 (t_beui32 now_us)
       (st8 41 (of_nat TCP_TS_OPT_LEN) (st8 40 TCP_OPT_TIMESTAMP p))))"

definition tx_write_tsopt_val :: "u32 \<Rightarrow> bytes \<Rightarrow> bytes" where
  "tx_write_tsopt_val now_us p = st32 42 (t_beui32 now_us) p"

definition tx_hdr_flags :: "tcp_sock \<Rightarrow> u32 \<Rightarrow> u16" where
  "tx_hdr_flags s paylen =
     (let f0 = TAS_TCP_ACK;
          f1 = (if paylen > 0 then f0 OR TAS_TCP_PSH else f0)
      in if tk_flags s AND TCP_SOCK_FLAG_SEND_ECE \<noteq> 0 then f1 OR TAS_TCP_ECE else f1)"

definition fill_ip :: "tcp_sock \<Rightarrow> u32 \<Rightarrow> u32 \<Rightarrow> bytes \<Rightarrow> bytes" where
  "fill_ip s hdrlen paylen p =
     (let p1 = st8 1 0 (IPH_VHL_SET 4 5 p);
          p2 = st16 6 (t_beui16 0) (st16 4 (t_beui16 3) (st16 2 (t_beui16 (ucast (hdrlen + paylen))) p1));
          p3 = st16 10 0 (st8 9 IP_PROTO_TCP (st8 8 0xff p2));
          p4 = st32 16 (t_beui32 (tk_remote_ip s)) (st32 12 (t_beui32 (tk_local_ip s)) p3)
      in if tk_flags s AND TCP_SOCK_FLAG_ECN \<noteq> 0 \<and> paylen > 0 then IPH_ECN_SET CHAM_IP_ECN_ECT0 p4 else p4)"

definition fill_tcp :: "tcp_sock \<Rightarrow> u32 \<Rightarrow> u32 \<Rightarrow> bytes \<Rightarrow> bytes" where
  "fill_tcp s hdrlen paylen p =
     (let p1 = st16 22 (t_beui16 (tk_remote_port s)) (st16 20 (t_beui16 (tk_local_port s)) p);
          p2 = st32 28 (t_beui32 (tk_rx_seq s)) (st32 24 (t_beui32 (tk_tx_seq s + tk_tx_pending s)) p1);
          p3 = TCPH_HDRLEN_FLAGS_SET (ucast (hdrlen div 4 - 5)) (tx_hdr_flags s paylen) p2
      in st16 38 (t_beui16 0) (st16 36 0 (st16 34 (t_beui16 (ucast (tk_rx_len s - tk_rx_avail s))) p3)))"

text \<open>\<^verbatim>\<open>tx_fill_hdr\<close> also clears the pending ECN echo of the socket.\<close>

definition tx_fill_hdr :: "u32 \<Rightarrow> bytes \<Rightarrow> tcp_sock \<Rightarrow> u32 \<Rightarrow> u32 \<Rightarrow> bytes \<times> tcp_sock" where
  "tx_fill_hdr now_us p s hdrlen paylen =
     (let s' = (if tk_flags s AND TCP_SOCK_FLAG_SEND_ECE \<noteq> 0
                then s\<lparr>tk_flags := tk_flags s AND NOT TCP_SOCK_FLAG_SEND_ECE\<rparr> else s)
      in (tx_write_tsopt now_us (tk_ts_recent s) (fill_tcp s hdrlen paylen (fill_ip s hdrlen paylen p)), s'))"

definition tx_get_max_paylen :: "nat \<Rightarrow> u32 \<Rightarrow> u32" where
  "tx_get_max_paylen len hdrlen =
     (let payload_headroom = (of_nat len :: u32) in if payload_headroom < hdrlen then 0 else payload_headroom - hdrlen)"

section \<open>Parsing what was filled\<close>

lemma hdrlen_flags:
  fixes f :: u16
  shows "drop_bit 12 (push_bit 12 8 OR (f AND TAS_TCP_FLAGS)) = 8"
    and "(push_bit 12 8 OR (f AND TAS_TCP_FLAGS)) AND TAS_TCP_FLAGS = f AND TAS_TCP_FLAGS"
proof -
  have m: "TAS_TCP_FLAGS = mask 9" by (simp add: mask_eq_exp_minus_1)
  show "drop_bit 12 (push_bit 12 8 OR (f AND TAS_TCP_FLAGS)) = 8"
    unfolding m by (rule bit_word_eqI) (auto simp: bit_simps)
  have "(push_bit 12 x OR (f AND mask 9)) AND mask 9 = f AND mask 9" for x :: u16
    by (rule bit_word_eqI) (auto simp: bit_simps)
  then show "(push_bit 12 8 OR (f AND TAS_TCP_FLAGS)) AND TAS_TCP_FLAGS = f AND TAS_TCP_FLAGS" unfolding m .
qed

lemma tx_flags_masked: "tx_hdr_flags s n AND TAS_TCP_FLAGS = tx_hdr_flags s n"
  by (simp add: tx_hdr_flags_def Let_def)

lemma tx_fill_hdr_fields:
  assumes "tx_fill_hdr now p s tx_get_hdrlen n = (p', s')"
  shows "IPH_V p' = 4" "IPH_HL p' = 5" "ip_proto p' = IP_PROTO_TCP" "ip_len p' = ucast (tx_get_hdrlen + n)"
    and "ip_src p' = tk_local_ip s" "ip_dst p' = tk_remote_ip s" "tcp_src p' = tk_local_port s" "tcp_dest p' = tk_remote_port s"
    and "tcp_seqno p' = tk_tx_seq s + tk_tx_pending s" "tcp_ackno p' = tk_rx_seq s"
    and "tcp_wnd p' = ucast (tk_rx_len s - tk_rx_avail s)"
    and "TCPH_HDRLEN p' = 8" and "TCPH_FLAGS p' = tx_hdr_flags s n"
    and "rx_read_ts p' len = (if TCP_PKT_INNER + TCP_TS_OPT_LEN > len then None else Some (now, tk_ts_recent s))"
proof -
  have p': "p' = tx_write_tsopt now (tk_ts_recent s) (fill_tcp s tx_get_hdrlen n (fill_ip s tx_get_hdrlen n p))"
    using assms by (auto simp: tx_fill_hdr_def Let_def)
  note defs = p' tx_write_tsopt_def fill_tcp_def fill_ip_def Let_def IPH_ECN_SET_def IPH_VHL_SET_def TCPH_HDRLEN_FLAGS_SET_def
    field_simps_chm
  show "IPH_V p' = 4" "IPH_HL p' = 5" "ip_proto p' = IP_PROTO_TCP" by (simp_all add: IPH_V_def IPH_HL_def ip_proto_def defs)
  show "ip_len p' = ucast (tx_get_hdrlen + n)" "ip_src p' = tk_local_ip s" "ip_dst p' = tk_remote_ip s"
    "tcp_src p' = tk_local_port s" "tcp_dest p' = tk_remote_port s" "tcp_seqno p' = tk_tx_seq s + tk_tx_pending s"
    "tcp_ackno p' = tk_rx_seq s" "tcp_wnd p' = ucast (tk_rx_len s - tk_rx_avail s)"
    by (simp_all add: ip_len_def ip_src_def ip_dst_def tcp_src_def tcp_dest_def tcp_seqno_def tcp_ackno_def tcp_wnd_def defs)
  have raw: "TCPH_RAW p' = push_bit 12 8 OR (tx_hdr_flags s n AND TAS_TCP_FLAGS)"
    by (simp add: TCPH_RAW_def defs tx_get_hdrlen_def)
  show "TCPH_HDRLEN p' = 8" by (simp only: TCPH_HDRLEN_def raw hdrlen_flags(1))
  show "TCPH_FLAGS p' = tx_hdr_flags s n" unfolding TCPH_FLAGS_def raw hdrlen_flags(2) by (rule tx_flags_masked)
  show "rx_read_ts p' len = (if TCP_PKT_INNER + TCP_TS_OPT_LEN > len then None else Some (now, tk_ts_recent s))"
    unfolding rx_read_ts_def \<open>TCPH_HDRLEN p' = 8\<close> by (simp add: defs)
qed

end
