(* ===== verification/Tcp_Fast.thy ===== *)
theory Tcp_Fast
  imports Queue_Msgs Scheduler Tcp_Pkt
begin

unbundle bit_operations_syntax

text \<open>
  The three event handlers of the native TCP fast path (\<^verbatim>\<open>chamelio/protos/tcp_fast.c\<close>): packet
  reception, transmission of the head of the scheduler, and messages from the application and
  the slow path. A handler is a function on the protocol context \<^verbatim>\<open>struct cham_ebpf_ctx\<close>; its
  value is the returned integer with the new context, or a fault where the C code overruns a
  queue slot, divides by zero or loops in the scheduler.
\<close>

section \<open>Context\<close>

text \<open>The message types of \<^verbatim>\<open>enum tcp_queue_type\<close> that the fast path sends.\<close>

abbreviation TCP_QUEUE_CTL_RX :: u8 where "TCP_QUEUE_CTL_RX \<equiv> 23"
abbreviation TCP_QUEUE_CTL_RX_PKT :: u8 where "TCP_QUEUE_CTL_RX_PKT \<equiv> 24"
abbreviation TCP_QUEUE_BUMP_APP_TX :: u8 where "TCP_QUEUE_BUMP_APP_TX \<equiv> 25"
abbreviation TCP_QUEUE_BUMP_APP_RX :: u8 where "TCP_QUEUE_BUMP_APP_RX \<equiv> 26"

abbreviation MAX_FP_CORES :: nat where "MAX_FP_CORES \<equiv> 16"
abbreviation TCP_FLOW_BUCKETS :: u32 where "TCP_FLOW_BUCKETS \<equiv> 4096"
abbreviation TCP_FLOW_BUCKET_SLOTS :: nat where "TCP_FLOW_BUCKET_SLOTS \<equiv> 4"
abbreviation ID_INVALID :: u32 where "ID_INVALID \<equiv> -1"

record tcp_queue_bump_app_tx =
  bat_opaque :: u64
  bat_tx_head :: u32

record tcp_queue_bump_app_rx =
  bar_opaque :: u64
  bar_rx_port :: u16
  bar_rx_ip :: u32
  bar_rx_avail :: u32

record tcp_queue_bump_cham_tx =
  bct_sock_id :: u32
  bct_tx_port :: u16
  bct_tx_ip :: u32
  bct_tx_avail :: u32

record tcp_queue_bump_cham_rx =
  bcr_sock_id :: u32
  bcr_rx_head :: u32

record tcp_queue_ctl_remit =
  ctr_sock_id :: u32
  ctr_tx_seq :: u32
  ctr_tx_pending :: u32

text \<open>
  What the fast path writes into its queues: a bump for the application, the signal that a packet
  waits, or the packet itself, as the 63 bytes of the slot's payload.
\<close>

datatype tcp_qdata =
    TQ_bump_app_tx tcp_queue_bump_app_tx
  | TQ_bump_app_rx tcp_queue_bump_app_rx
  | TQ_ctl_sig u8
  | TQ_ctl_pkt bytes

abbreviation QE_PKT_ROOM :: nat where "QE_PKT_ROOM \<equiv> 63"

text \<open>The entry passed to \<^verbatim>\<open>tcp_event_deq\<close>: its type and the union member that type selects.\<close>

datatype tcp_qe =
    QE_bump_cham_tx tcp_queue_bump_cham_tx
  | QE_bump_cham_rx tcp_queue_bump_cham_rx
  | QE_ctl_tx
  | QE_tx_retransmit tcp_queue_ctl_remit
  | QE_other u8

record tcp_ctl_cfg =
  cfg_fast_slow_sig_qids :: "u16 list"
  cfg_fast_slow_pkt_qids :: "u16 list"
  cfg_slow_fast_sig_qid :: u16
  cfg_slow_fast_pkt_qid :: u16

text \<open>
  The context. Packet and shared memory are bytes from their base; the socket map is indexed by
  socket id, the flow buckets by hash. A null \<^verbatim>\<open>map->addr\<close> of the configuration map is
  \<^const>\<open>None\<close>.
\<close>

record tcp_ctx =
  tc_pkt :: bytes
  tc_len :: nat
  tc_shm :: bytes
  tc_shm_len :: nat
  tc_sched :: cham_scheduler
  tc_core :: u16
  tc_qe :: tcp_qe
  tc_qe_off :: nat
  tc_eqs :: "u16 \<Rightarrow> equeue \<times> tcp_qdata ring"
  tc_dqs :: "u16 \<Rightarrow> dqueue \<times> bytes ring"
  tc_socks :: "u32 \<Rightarrow> tcp_sock"
  tc_nsocks :: u32
  tc_bkts :: "u32 \<Rightarrow> u32 list"
  tc_nbkts :: u32
  tc_cfg :: "tcp_ctl_cfg option"

text \<open>The clock readings of one event, in the order the code takes them.\<close>

record tcp_clock =
  ck_now :: u64
  ck_us_rx :: u32
  ck_remit :: u64
  ck_us_tx :: u32
  ck_sched :: u64
  ck_cycles_per_us :: u64

datatype tcp_fault = SlotOverflow | SlotOverread | DivByZero | SchedLoop

type_synonym tcp_result = "tcp_fault + int \<times> tcp_ctx"

definition put_sock :: "u32 \<Rightarrow> tcp_sock \<Rightarrow> tcp_ctx \<Rightarrow> tcp_ctx" where
  "put_sock sid s c = c\<lparr>tc_socks := (tc_socks c)(sid := s)\<rparr>"

section \<open>Helpers\<close>

definition is_qe_valid :: "tcp_ctx \<Rightarrow> bool" where
  "is_qe_valid c \<longleftrightarrow> tc_qe_off c + 64 < tc_shm_len c"

definition is_qe_bump_valid :: "tcp_ctx \<Rightarrow> bool" where
  "is_qe_bump_valid c \<longleftrightarrow> tc_qe_off c + 32 < tc_shm_len c"

definition is_qe_ctl_valid :: "tcp_ctx \<Rightarrow> bool" where
  "is_qe_ctl_valid c \<longleftrightarrow> tc_qe_off c + 32 < tc_shm_len c"

definition is_qe_pkt_valid :: "nat \<Rightarrow> tcp_ctx \<Rightarrow> bool" where
  "is_qe_pkt_valid off c \<longleftrightarrow> off + 64 < tc_shm_len c"

definition sock_rewind :: "tcp_sock \<Rightarrow> tcp_sock" where
  "sock_rewind s =
     (let s1 = tcp_sock_recovery_enter s
      in s1\<lparr>tk_tx_avail := tk_tx_avail s1 + tk_tx_pending s1, tk_tx_pending := 0\<rparr>)"

definition remit :: "u64 \<Rightarrow> cham_scheduler \<Rightarrow> tcp_sock \<Rightarrow> (cham_scheduler \<times> tcp_sock) option" where
  "remit now sched s =
     (let s1 = sock_rewind s
      in case sched_remove sched (tk_id s1) of None \<Rightarrow> None
         | Some (_, sched1) \<Rightarrow>
             (case sched_add sched1 (tk_id s1) now (sock_sched_avail s1) of None \<Rightarrow> None
              | Some (_, sched2) \<Rightarrow> Some (sched2, s1)))"

subsection \<open>Finding the socket\<close>

definition sock_map_lookup :: "tcp_ctx \<Rightarrow> u32 \<Rightarrow> u32 option" where
  "sock_map_lookup c sid = (if sid \<ge> tc_nsocks c then None else Some sid)"

definition flow_matches :: "tcp_sock \<Rightarrow> u32 \<Rightarrow> u16 \<Rightarrow> u32 \<Rightarrow> u16 \<Rightarrow> bool" where
  "flow_matches s lip lport rip rport \<longleftrightarrow>
     tk_local_ip s = lip \<and> tk_local_port s = lport \<and> tk_remote_ip s = rip \<and> tk_remote_port s = rport"

fun find_in_bucket :: "tcp_ctx \<Rightarrow> u32 \<Rightarrow> u16 \<Rightarrow> u32 \<Rightarrow> u16 \<Rightarrow> u32 list \<Rightarrow> u32 option" where
  "find_in_bucket c lip lport rip rport [] = None"
| "find_in_bucket c lip lport rip rport (sid # sids) =
     (if sid = ID_INVALID then find_in_bucket c lip lport rip rport sids
      else case sock_map_lookup c sid of
        None \<Rightarrow> find_in_bucket c lip lport rip rport sids
      | Some p \<Rightarrow>
          if tk_state (tc_socks c p) = TCP_SOCK_STATE_CLOSED then find_in_bucket c lip lport rip rport sids
          else if flow_matches (tc_socks c p) lip lport rip rport then Some p
          else find_in_bucket c lip lport rip rport sids)"

definition sock_find :: "tcp_ctx \<Rightarrow> u32 option" where
  "sock_find c =
     (let p = tc_pkt c; rip = ip_src p; lip = ip_dst p; rport = tcp_src p; lport = tcp_dest p;
          hash = sock_hash lip lport rip rport mod TCP_FLOW_BUCKETS
      in if hash \<ge> tc_nbkts c then None
         else find_in_bucket c lip lport rip rport (take TCP_FLOW_BUCKET_SLOTS (tc_bkts c hash)))"

subsection \<open>Punting control packets to the slow path\<close>

text \<open>The payload of a packet slot before it is written: shared memory starts zeroed.\<close>

definition slot_bytes :: "tcp_qdata \<Rightarrow> bytes" where
  "slot_bytes d = (case d of TQ_ctl_pkt b \<Rightarrow> b | _ \<Rightarrow> (\<lambda>_. 0))"

definition slot_write :: "(equeue \<times> tcp_qdata ring) \<Rightarrow> (tcp_qdata \<Rightarrow> tcp_qdata) \<Rightarrow> equeue \<times> tcp_qdata ring" where
  "slot_write q f = (let p = eq_tail (fst q) in (fst q, (snd q)(p := (snd q p)\<lparr>qs_data := f (qs_data (snd q p))\<rparr>)))"

definition ctl_pkt_bytes :: "bytes \<Rightarrow> u32 \<Rightarrow> u16 \<Rightarrow> tcp_qdata \<Rightarrow> tcp_qdata" where
  "ctl_pkt_bytes pkt hdrlen core d = TQ_ctl_pkt (st16 52 core (mem_copy (slot_bytes d) 0 pkt 0 (unat hdrlen)))"

definition rx_punt_ctl :: "tcp_ctx \<Rightarrow> tcp_result" where
  "rx_punt_ctl c =
     (case tc_cfg c of None \<Rightarrow> Inr (-1, c)
      | Some cfg \<Rightarrow>
        if unat (tc_core c) \<ge> MAX_FP_CORES then Inr (-1, c)
        else let pq = cfg_fast_slow_pkt_qids cfg ! unat (tc_core c); sq = cfg_fast_slow_sig_qids cfg ! unat (tc_core c);
                 eqs = tc_eqs c
             in if queue_tail (fst (eqs pq)) (snd (eqs pq)) = None then Inr (-1, c)
             else if queue_tail (fst (eqs sq)) (snd (eqs sq)) = None then Inr (-1, c)
             else let hdrlen = rx_get_hdrlen (tc_pkt c)
             in if \<not> is_paylen_valid (tc_len c) (ucast hdrlen) 0 then Inr (-1, c)
             else if unat hdrlen > QE_PKT_ROOM then Inl SlotOverflow
             else let eqs1 = eqs(pq := slot_write (eqs pq) (ctl_pkt_bytes (tc_pkt c) hdrlen (tc_core c)));
                      eqs2 = eqs1(sq := slot_write (eqs1 sq) (\<lambda>_. TQ_ctl_sig 1))
             in case queue_enqueue (fst (eqs2 pq)) (snd (eqs2 pq)) TCP_QUEUE_CTL_RX_PKT of (r, q) \<Rightarrow>
                if r \<noteq> 0 then Inr (-1, c\<lparr>tc_eqs := eqs2\<rparr>)
                else let eqs3 = eqs2(pq := q)
             in case queue_enqueue (fst (eqs3 sq)) (snd (eqs3 sq)) TCP_QUEUE_CTL_RX of (r, q) \<Rightarrow>
                if r \<noteq> 0 then Inr (-1, c\<lparr>tc_eqs := eqs3\<rparr>)
                else Inr (0, c\<lparr>tc_eqs := eqs3(sq := q)\<rparr>))"

subsection \<open>Bumps for the application\<close>

definition rx_enqueue_rx_bump :: "equeue \<times> tcp_qdata ring \<Rightarrow> tcp_sock \<Rightarrow> u32 \<Rightarrow> u16 \<Rightarrow> u32 \<Rightarrow> int \<times> equeue \<times> tcp_qdata ring" where
  "rx_enqueue_rx_bump q s rx_bump rx_port rx_ip =
     queue_put q (TQ_bump_app_rx \<lparr>bar_opaque = tk_opaque s, bar_rx_port = rx_port, bar_rx_ip = rx_ip, bar_rx_avail = rx_bump\<rparr>)
       TCP_QUEUE_BUMP_APP_RX"

definition rx_enqueue_tx_bump :: "equeue \<times> tcp_qdata ring \<Rightarrow> tcp_sock \<Rightarrow> u32 \<Rightarrow> int \<times> equeue \<times> tcp_qdata ring" where
  "rx_enqueue_tx_bump q s tx_bump =
     queue_put q (TQ_bump_app_tx \<lparr>bat_opaque = tk_opaque s, bat_tx_head = tx_bump\<rparr>) TCP_QUEUE_BUMP_APP_TX"

subsection \<open>Sending\<close>

definition tx_fill_ack :: "tcp_clock \<Rightarrow> tcp_ctx \<Rightarrow> tcp_sock \<Rightarrow> int \<times> tcp_ctx \<times> tcp_sock" where
  "tx_fill_ack ck c s =
     (if \<not> is_pktlen_valid (tc_len c) then (-1, c, s)
      else let hdrlen = tx_get_hdrlen
           in if \<not> is_paylen_valid (tc_len c) (ucast hdrlen) 0 then (-1, c, s)
              else case tx_fill_hdr (ck_us_tx ck) (tc_pkt c) s hdrlen 0 of (p, s') \<Rightarrow> (uint hdrlen, c\<lparr>tc_pkt := p\<rparr>, s'))"

definition rx_sched_tx :: "tcp_clock \<Rightarrow> cham_scheduler \<Rightarrow> tcp_sock \<Rightarrow> u32 \<Rightarrow> u32 \<Rightarrow> cham_scheduler option" where
  "rx_sched_tx ck sched s avail_before avail_after =
     (if avail_after \<le> avail_before then Some sched
      else map_option snd (sched_add sched (tk_id s) (tx_sched_tsc (ck_sched ck) s) (avail_after - avail_before)))"

section \<open>Receiving a packet\<close>

text \<open>\<^verbatim>\<open>ret = tx_fill_ack(ctx, sock); util_spin_unlock(&sock->lock); return ret;\<close>\<close>

definition ack_and_unlock :: "tcp_clock \<Rightarrow> tcp_ctx \<Rightarrow> u32 \<Rightarrow> tcp_sock \<Rightarrow> tcp_result" where
  "ack_and_unlock ck c sid s = (case tx_fill_ack ck c s of (ret, c', s') \<Rightarrow> Inr (ret, put_sock sid (util_spin_unlock s') c'))"

text \<open>The acknowledgement part: window, timestamps and the ACK bump.\<close>

definition rx_process_ack :: "tcp_clock \<Rightarrow> bytes \<Rightarrow> nat \<Rightarrow> tcp_sock \<Rightarrow> u32 \<times> tcp_sock" where
  "rx_process_ack ck p len s =
     (let s1 = s\<lparr>tk_tx_remote_avail := ucast (tcp_wnd p)\<rparr>;
          s2 = (if rx_is_ack p then s1\<lparr>tk_cc_acks := tk_cc_acks s1 + 1\<rparr> else s1);
          s3 = sock_ts_rx (ck_us_rx ck) s2 (rx_read_ts p len);
          ack_bump = rx_get_ack_bump s3 (tcp_ackno p);
          s4 = (if rx_is_ack p then rx_sock_bump_ack (TCPH_FLAGS p AND TAS_TCP_ECE \<noteq> 0) s3 ack_bump else s3)
      in (ack_bump, s4))"

text \<open>Counting duplicate acknowledgements; the flag tells whether a retransmission was started.\<close>

definition rx_dupack ::
  "tcp_clock \<Rightarrow> bytes \<Rightarrow> u32 \<Rightarrow> cham_scheduler \<Rightarrow> tcp_sock \<Rightarrow> (bool \<times> cham_scheduler \<times> tcp_sock) option" where
  "rx_dupack ck p ack_bump sched s =
     (if rx_is_ack p \<and> rx_is_ack_only p \<and> ack_bump = 0 \<and> tk_tx_pending s \<noteq> 0 \<and> tk_recovery_active s = 0
      then let s1 = s\<lparr>tk_rx_dupack_cnt := tk_rx_dupack_cnt s + 1\<rparr>
           in if tk_rx_dupack_cnt s1 \<ge> FAST_REMIT_THRESH
              then (case remit (ck_remit ck) sched (s1\<lparr>tk_cc_drops := tk_cc_drops s1 + 1\<rparr>) of None \<Rightarrow> None
                    | Some (sched', s2) \<Rightarrow> Some (True, sched', s2\<lparr>tk_rx_dupack_cnt := 0\<rparr>))
              else Some (False, sched, s1)
      else Some (False, sched, s))"

text \<open>Copying the unseen part of the payload into the receive ring and telling the application.\<close>

definition rx_deliver :: "tcp_clock \<Rightarrow> tcp_ctx \<Rightarrow> u32 \<Rightarrow> tcp_sock \<Rightarrow> u16 \<Rightarrow> u32 \<Rightarrow> u16 \<Rightarrow> tcp_result" where
  "rx_deliver ck c sid s hdrlen overlap paylen0 =
     (let p = tc_pkt c;
          payload = unat hdrlen + unat overlap;
          paylen = paylen0 - ucast overlap;
          rx_bump = rx_get_rx_bump s (ucast paylen)
      in if rx_bump > 0
         then let shm = rx_copy_payload (tc_shm c) s p payload rx_bump;
                  s1 = rx_sock_bump_rx s rx_bump;
                  qid = tk_app_bump_qid s1
              in case rx_enqueue_rx_bump (tc_eqs c qid) s1 rx_bump (tcp_src p) (ip_src p) of (ret, q) \<Rightarrow>
                 let c1 = c\<lparr>tc_shm := shm, tc_eqs := (tc_eqs c)(qid := q)\<rparr>
                 in if ret \<noteq> 0 then Inr (-1, put_sock sid (util_spin_unlock s1) c1)
                    else ack_and_unlock ck c1 sid s1
         else ack_and_unlock ck c sid s)"

definition rx_established :: "tcp_clock \<Rightarrow> tcp_ctx \<Rightarrow> u32 \<Rightarrow> tcp_result" where
  "rx_established ck c sid =
     (let p = tc_pkt c;
          s0 = util_spin_lock (tc_socks c sid);
          s1 = (if rx_is_ce p then s0\<lparr>tk_flags := tk_flags s0 OR TCP_SOCK_FLAG_SEND_ECE\<rparr> else s0);
          hdrlen = (ucast (rx_get_hdrlen p) :: u16)
      in if \<not> is_paylen_valid (tc_len c) hdrlen 0 then ack_and_unlock ck c sid s1
         else if rx_is_ack p \<and> tk_tx_len s1 = 0 then Inl DivByZero
         else let avail_before = sock_sched_avail s1;
                  is_ack_dup = (tk_tx_seq s1 = tcp_ackno p);
                  is_ack_only = rx_is_ack_only p;
                  is_payload_dup = rx_is_payload_dup p s1;
                  is_out_of_order = rx_is_out_of_order p s1;
                  overlap = rx_get_payload_overlap p s1;
                  (ack_bump, s2) = rx_process_ack ck p (tc_len c) s1;
                  avail_after = sock_sched_avail s2;
                  qid = tk_app_bump_qid s2;
                  (ret, q) = (if is_ack_dup then (0, tc_eqs c qid) else rx_enqueue_tx_bump (tc_eqs c qid) s2 ack_bump);
                  c1 = c\<lparr>tc_eqs := (tc_eqs c)(qid := q)\<rparr>
              in if ret \<noteq> 0 then Inr (-1, put_sock sid (util_spin_unlock s2) c1)
                 else case rx_dupack ck p ack_bump (tc_sched c) s2 of None \<Rightarrow> Inl SchedLoop
                 | Some (should_fast_remit, sched1, s3) \<Rightarrow>
                   (case rx_sched_tx ck sched1 s3 avail_before avail_after of None \<Rightarrow> Inl SchedLoop
                    | Some sched2 \<Rightarrow>
                      let c2 = c1\<lparr>tc_sched := sched2\<rparr>; paylen = (ucast (rx_get_paylen p) :: u16)
                      in if is_ack_only then Inr (0, put_sock sid (util_spin_unlock s3) c2)
                         else if is_payload_dup \<and> \<not> should_fast_remit then ack_and_unlock ck c2 sid s3
                         else if is_out_of_order then ack_and_unlock ck c2 sid s3
                         else if \<not> is_paylen_valid (tc_len c) hdrlen paylen then ack_and_unlock ck c2 sid s3
                         else rx_deliver ck c2 sid s3 hdrlen overlap paylen))"

definition tcp_event_rx :: "tcp_clock \<Rightarrow> tcp_ctx \<Rightarrow> tcp_result" where
  "tcp_event_rx ck c =
     (if \<not> is_pktlen_valid (tc_len c) then Inr (-1, c)
      else if \<not> rx_is_ip (tc_pkt c) then Inr (-1, c)
      else if rx_is_flags_ctl (tc_pkt c) then rx_punt_ctl c
      else case sock_find c of None \<Rightarrow> Inr (-1, c)
      | Some sid \<Rightarrow>
          if tk_state (tc_socks c sid) \<noteq> TCP_SOCK_STATE_ESTABLISHED then rx_punt_ctl c
          else rx_established ck c sid)"

section \<open>Transmitting\<close>

definition tx_segment :: "tcp_clock \<Rightarrow> tcp_ctx \<Rightarrow> u32 \<Rightarrow> tcp_result" where
  "tx_segment ck c sid =
     (let s0 = util_spin_lock (tc_socks c sid);
          hdrlen = tx_get_hdrlen;
          max_paylen = tx_get_max_paylen (tc_len c) hdrlen;
          tx_bump = tx_get_tx_bump s0 max_paylen
      in if \<not> is_paylen_valid (tc_len c) (ucast hdrlen) (ucast tx_bump)
         then Inr (-1, put_sock sid (util_spin_unlock s0) c)
         else (case tx_fill_hdr (ck_us_tx ck) (tc_pkt c) s0 hdrlen tx_bump of (p, s1) \<Rightarrow>
           if tx_bump > 0
           then let p' = tx_copy_payload (tc_shm c) s1 p (unat hdrlen) tx_bump;
                    s2 = tx_sock_tx_bump s1 tx_bump;
                    s3 = tx_sock_sched_next (ck_cycles_per_us ck) s2 (hdrlen + tx_bump) (ck_now ck);
                    avail = sock_sched_avail s3;
                    c1 = c\<lparr>tc_pkt := p'\<rparr>
                in if avail > 0
                   then (case sched_add (tc_sched c) (tk_id s3) (tx_sched_tsc (ck_sched ck) s3) avail of None \<Rightarrow> Inl SchedLoop
                        | Some (ret, sched') \<Rightarrow>
                            let c2 = c1\<lparr>tc_sched := sched'\<rparr>
                            in if ret < 0 then Inr (-1, put_sock sid s3 c2)
                               else Inr (uint (hdrlen + tx_bump), put_sock sid (util_spin_unlock s3) c2))
                   else Inr (uint (hdrlen + tx_bump), put_sock sid (util_spin_unlock s3) c1)
           else Inr (uint (hdrlen + tx_bump), put_sock sid (util_spin_unlock s1) (c\<lparr>tc_pkt := p\<rparr>))))"

definition tcp_event_sched :: "tcp_clock \<Rightarrow> tcp_ctx \<Rightarrow> tcp_result" where
  "tcp_event_sched ck c =
     (case sched_head (tc_sched c) of None \<Rightarrow> Inr (0, c)
      | Some h \<Rightarrow>
        let e = sc_entries (tc_sched c) h
        in if se_priority e > ck_now ck then Inr (0, c)
           else (case sched_pop (tc_sched c) of (ret, sched') \<Rightarrow>
             let c1 = c\<lparr>tc_sched := sched'\<rparr>
             in if ret \<noteq> 0 then Inr (-1, c1)
                else (case sock_map_lookup c (se_id e) of None \<Rightarrow> Inr (-1, c1)
                      | Some sid \<Rightarrow>
                          if \<not> is_pktlen_valid (tc_len c) then Inr (-1, c1) else tx_segment ck c1 sid)))"

section \<open>Messages\<close>

definition deq_handle_bump_tx :: "tcp_clock \<Rightarrow> tcp_ctx \<Rightarrow> tcp_queue_bump_cham_tx \<Rightarrow> tcp_result" where
  "deq_handle_bump_tx ck c bump =
     (if \<not> is_qe_bump_valid c then Inr (-1, c)
      else case sock_map_lookup c (bct_sock_id bump) of None \<Rightarrow> Inr (-1, c)
      | Some sid \<Rightarrow>
        let s0 = util_spin_lock (tc_socks c sid);
            s1 = deq_sock_bump_tx s0 (bct_tx_ip bump) (bct_tx_port bump) (bct_tx_avail bump);
            s2 = util_spin_unlock s1;
            c1 = put_sock sid s2 c
        in (case sched_add (tc_sched c1) (tk_id s2) (tx_sched_tsc (ck_sched ck) s2) (bct_tx_avail bump) of None \<Rightarrow> Inl SchedLoop
            | Some (ret, sched') \<Rightarrow> Inr (if ret < 0 then -1 else 0, c1\<lparr>tc_sched := sched'\<rparr>)))"

definition deq_handle_bump_rx :: "tcp_clock \<Rightarrow> tcp_ctx \<Rightarrow> tcp_queue_bump_cham_rx \<Rightarrow> tcp_result" where
  "deq_handle_bump_rx ck c bump =
     (if \<not> is_qe_bump_valid c then Inr (-1, c)
      else case sock_map_lookup c (bcr_sock_id bump) of None \<Rightarrow> Inr (-1, c)
      | Some sid \<Rightarrow>
        let s0 = util_spin_lock (tc_socks c sid);
            rxfull = (tk_rx_len s0 = tk_rx_avail s0);
            s1 = deq_sock_bump_rx s0 (bcr_rx_head bump)
        in if rxfull then ack_and_unlock ck c sid s1
           else Inr (0, put_sock sid (util_spin_unlock s1) c))"

text \<open>
  The control packet is copied out of its slot with the length its own IP header states; the slot
  holds \<open>63\<close> bytes.
\<close>

definition deq_handle_ctl_tx :: "tcp_clock \<Rightarrow> tcp_ctx \<Rightarrow> tcp_result" where
  "deq_handle_ctl_tx ck c =
     (if \<not> is_qe_ctl_valid c then Inr (-1, c)
      else case tc_cfg c of None \<Rightarrow> Inr (-1, c)
      | Some cfg \<Rightarrow>
        let qid = cfg_slow_fast_pkt_qid cfg; dq = fst (tc_dqs c qid); mem = snd (tc_dqs c qid)
        in (case queue_head dq mem of None \<Rightarrow> Inr (-1, c)
        | Some pos \<Rightarrow>
          if \<not> is_qe_pkt_valid (unat (dq_off dq) + unat pos) c then Inr (-1, c)
          else let pkt = qs_data (mem pos); hdrlen = (ucast (ip_len pkt) :: u32)
          in if \<not> is_paylen_valid (tc_len c) (ucast hdrlen) 0 then Inr (-1, c)
          else let pkt1 = st16 36 0 (st16 10 0 pkt);
                   mem1 = mem(pos := (mem pos)\<lparr>qs_data := pkt1\<rparr>);
                   c1 = c\<lparr>tc_dqs := (tc_dqs c)(qid := (dq, mem1))\<rparr>
          in if unat hdrlen > QE_PKT_ROOM then Inl SlotOverread
          else let p1 = mem_copy (tc_pkt c) 0 pkt1 0 (unat hdrlen);
                   c2 = c1\<lparr>tc_pkt := p1\<rparr>;
                   has_ts = (unat (TCPH_HDRLEN pkt1) * 4 = TCP_HLEN + TCP_TS_OPT_LEN)
          in if has_ts \<and> \<not> is_paylen_valid (tc_len c) (ucast tx_get_hdrlen) 0 then Inr (-1, c2)
          else let c3 = (if has_ts then c2\<lparr>tc_pkt := tx_write_tsopt_val (ck_us_tx ck) p1\<rparr> else c2)
          in (case queue_dequeue dq mem1 of (ret, q) \<Rightarrow>
             let c4 = c3\<lparr>tc_dqs := (tc_dqs c)(qid := q)\<rparr>
             in if ret \<noteq> 0 then Inr (-1, c4) else Inr (uint hdrlen, c4))))"

definition deq_handle_retransmit :: "tcp_clock \<Rightarrow> tcp_ctx \<Rightarrow> tcp_queue_ctl_remit \<Rightarrow> tcp_result" where
  "deq_handle_retransmit ck c cmd =
     (if \<not> is_qe_ctl_valid c then Inr (-1, c)
      else case sock_map_lookup c (ctr_sock_id cmd) of None \<Rightarrow> Inr (-1, c)
      | Some sid \<Rightarrow>
        let s0 = util_spin_lock (tc_socks c sid)
        in if deq_is_retransmit_stale s0 (ctr_tx_seq cmd) (ctr_tx_pending cmd)
           then Inr (0, put_sock sid (util_spin_unlock s0) c)
           else (case remit (ck_remit ck) (tc_sched c) s0 of None \<Rightarrow> Inl SchedLoop
             | Some (sched', s1) \<Rightarrow> Inr (0, put_sock sid (util_spin_unlock s1) (c\<lparr>tc_sched := sched'\<rparr>))))"

definition tcp_event_deq :: "tcp_clock \<Rightarrow> tcp_ctx \<Rightarrow> tcp_result" where
  "tcp_event_deq ck c =
     (if \<not> is_qe_valid c then Inr (-1, c)
      else case tc_qe c of
        QE_bump_cham_tx bump \<Rightarrow> deq_handle_bump_tx ck c bump
      | QE_bump_cham_rx bump \<Rightarrow> deq_handle_bump_rx ck c bump
      | QE_ctl_tx \<Rightarrow> deq_handle_ctl_tx ck c
      | QE_tx_retransmit cmd \<Rightarrow> deq_handle_retransmit ck c cmd
      | QE_other ty \<Rightarrow> Inr (-1, c))"

section \<open>Frame\<close>

text \<open>No operation of the fast path changes the identity, the state or the receive buffer of a socket.\<close>

lemma sock_frame [simp]:
  "tk_id (util_spin_lock s) = tk_id s" "tk_id (util_spin_unlock s) = tk_id s"
  "tk_state (util_spin_lock s) = tk_state s" "tk_state (util_spin_unlock s) = tk_state s"
  "sock_ok (util_spin_lock s) = sock_ok s" "sock_ok (util_spin_unlock s) = sock_ok s"
  "tk_lock (util_spin_unlock s) = 0"
  "tk_id (sock_rewind s) = tk_id s" "tk_state (sock_rewind s) = tk_state s"
  "tk_id (sock_ts_rx now s opt) = tk_id s" "tk_state (sock_ts_rx now s opt) = tk_state s"
  "tk_id (rx_sock_bump_rx s b) = tk_id s" "tk_state (rx_sock_bump_rx s b) = tk_state s"
  "tk_id (tx_sock_tx_bump s b) = tk_id s" "tk_state (tx_sock_tx_bump s b) = tk_state s"
  "tk_id (tx_sock_sched_next cyc s len tsc) = tk_id s" "tk_state (tx_sock_sched_next cyc s len tsc) = tk_state s"
  "tk_id (deq_sock_bump_tx s ip port av) = tk_id s" "tk_state (deq_sock_bump_tx s ip port av) = tk_state s"
  "tk_id (deq_sock_bump_rx s n) = tk_id s" "tk_state (deq_sock_bump_rx s n) = tk_state s"
  "tk_state (tcp_sock_recovery_ack s) = tk_state s" "tk_state (rx_sock_bump_ack ece s b) = tk_state s"
  by (auto simp: util_spin_lock_def util_spin_unlock_def sock_ok_defs sock_rewind_def tcp_sock_recovery_enter_def
      sock_ts_rx_def rx_sock_bump_rx_def tx_sock_tx_bump_def tx_sock_sched_next_def deq_sock_bump_tx_def
      deq_sock_bump_rx_def tcp_sock_recovery_ack_def tcp_sock_recovery_reset_def rx_sock_bump_ack_def Let_def
      split: option.splits prod.splits)

lemma sock_ts_rx_frame [simp]:
  "tk_tx_seq (sock_ts_rx now s opt) = tk_tx_seq s" "tk_tx_pending (sock_ts_rx now s opt) = tk_tx_pending s"
  "tk_tx_avail (sock_ts_rx now s opt) = tk_tx_avail s" "tk_tx_head (sock_ts_rx now s opt) = tk_tx_head s"
  "tk_tx_len (sock_ts_rx now s opt) = tk_tx_len s" "tk_tx_off (sock_ts_rx now s opt) = tk_tx_off s"
  "tk_rx_seq (sock_ts_rx now s opt) = tk_rx_seq s" "tk_rx_avail (sock_ts_rx now s opt) = tk_rx_avail s"
  "tk_rx_head (sock_ts_rx now s opt) = tk_rx_head s" "tk_rx_len (sock_ts_rx now s opt) = tk_rx_len s"
  "tk_rx_off (sock_ts_rx now s opt) = tk_rx_off s" "tk_app_bump_qid (sock_ts_rx now s opt) = tk_app_bump_qid s"
  "tk_opaque (sock_ts_rx now s opt) = tk_opaque s" "tk_lock (sock_ts_rx now s opt) = tk_lock s"
  "tk_tx_remote_avail (sock_ts_rx now s opt) = tk_tx_remote_avail s"
  by (simp_all add: sock_ts_rx_def Let_def split: option.splits prod.splits)

lemma sock_rewind_frame [simp]:
  "tk_tx_seq (sock_rewind s) = tk_tx_seq s" "tk_tx_head (sock_rewind s) = tk_tx_head s"
  "tk_tx_len (sock_rewind s) = tk_tx_len s" "tk_tx_off (sock_rewind s) = tk_tx_off s"
  "tk_tx_pending (sock_rewind s) = 0" "tk_tx_avail (sock_rewind s) = tk_tx_avail s + tk_tx_pending s"
  "tk_rx_seq (sock_rewind s) = tk_rx_seq s" "tk_rx_avail (sock_rewind s) = tk_rx_avail s"
  "tk_rx_head (sock_rewind s) = tk_rx_head s" "tk_rx_len (sock_rewind s) = tk_rx_len s"
  "tk_rx_off (sock_rewind s) = tk_rx_off s" "tk_app_bump_qid (sock_rewind s) = tk_app_bump_qid s"
  "tk_opaque (sock_rewind s) = tk_opaque s"
  by (simp_all add: sock_rewind_def tcp_sock_recovery_enter_def Let_def)

section \<open>The invariant of the fast path\<close>

text \<open>
  The scheduler is well formed; every socket of the map is unlocked and has an id the scheduler
  can hold; an established socket satisfies the ring invariant.
\<close>

definition sock_wf :: "tcp_sock \<Rightarrow> bool" where
  "sock_wf s \<longleftrightarrow> sched_id_valid (tk_id s) \<and> (tk_state s = TCP_SOCK_STATE_ESTABLISHED \<longrightarrow> sock_ok s)"

definition tcp_wf :: "tcp_ctx \<Rightarrow> bool" where
  "tcp_wf c \<longleftrightarrow> sched_wf (tc_sched c) \<and> (\<forall>sid < tc_nsocks c. sock_wf (tc_socks c sid) \<and> tk_lock (tc_socks c sid) = 0)"

lemma tcp_wf_sock: "tcp_wf c \<Longrightarrow> sid < tc_nsocks c \<Longrightarrow> sock_wf (tc_socks c sid)"
  by (simp add: tcp_wf_def)

lemma sock_wf_id: "sock_wf s \<Longrightarrow> sched_id_valid (tk_id s)"
  by (simp add: sock_wf_def)

lemma tcp_wf_put [wf_intros]:
  assumes "tcp_wf c" and "sock_wf s"
  shows "tcp_wf (put_sock sid (util_spin_unlock s) c)"
  using assms by (auto simp: tcp_wf_def put_sock_def sock_wf_def)

lemma tx_ok_rewind:
  assumes "tx_ok s"
  shows "tx_ok (sock_rewind s)" and "unat (tk_tx_avail (sock_rewind s)) = unat (tk_tx_pending s) + unat (tk_tx_avail s)"
proof -
  have "unat (tk_tx_avail s + tk_tx_pending s) = unat (tk_tx_pending s) + unat (tk_tx_avail s)"
    using assms unfolding tx_ok_def by (simp add: unat_add_small_iff)
  then show "unat (tk_tx_avail (sock_rewind s)) = unat (tk_tx_pending s) + unat (tk_tx_avail s)" by simp
  then show "tx_ok (sock_rewind s)" using assms by (simp add: tx_ok_def)
qed

lemma sock_wf_rewind [wf_intros]: "sock_wf s \<Longrightarrow> sock_wf (sock_rewind s)"
  using tx_ok_rewind(1) by (auto simp: sock_wf_def sock_ok_def rx_ok_def)

lemma remit_returns:
  assumes "sched_wf sched" and "sched_id_valid (tk_id s)"
  shows "\<exists>sched'. remit now sched s = Some (sched', sock_rewind s) \<and> sched_wf sched' \<and>
    sched_contents sched' = aadd (tk_id s) now (sock_sched_avail (sock_rewind s)) (aremove (tk_id s) (sched_contents sched))"
proof -
  obtain k sched1 where r: "sched_remove sched (tk_id s) = Some (k, sched1)" "sched_wf sched1"
    "sched_contents sched1 = aremove (tk_id s) (sched_contents sched)"
    using txs.rem_law [OF assms(1)] by blast
  obtain sched2 where a: "sched_add sched1 (tk_id s) now (sock_sched_avail (sock_rewind s)) = Some (0, sched2)" "sched_wf sched2"
    "sched_contents sched2 = aadd (tk_id s) now (sock_sched_avail (sock_rewind s)) (sched_contents sched1)"
    using txs.add_law [OF r(2) assms(2)] by blast
  show ?thesis using r a by (simp add: remit_def Let_def)
qed

lemma sock_wf_upd [simp]:
  "sock_wf (s\<lparr>tk_flags := a\<rparr>) = sock_wf s" "sock_wf (s\<lparr>tk_lock := b\<rparr>) = sock_wf s"
  "sock_wf (s\<lparr>tk_tx_remote_avail := b\<rparr>) = sock_wf s" "sock_wf (s\<lparr>tk_cc_acks := b\<rparr>) = sock_wf s"
  "sock_wf (s\<lparr>tk_rx_dupack_cnt := a\<rparr>) = sock_wf s" "sock_wf (s\<lparr>tk_cc_drops := b\<rparr>) = sock_wf s"
  "sock_wf (util_spin_lock s) = sock_wf s" "sock_wf (util_spin_unlock s) = sock_wf s"
  "sock_wf (sock_ts_rx b s opt) = sock_wf s" "sock_wf (tx_sock_sched_next cyc s b tsc) = sock_wf s"
  by (simp_all add: sock_wf_def sock_ok_defs tx_sock_sched_next_def util_spin_lock_def util_spin_unlock_def)

lemma rx_process_ack_wf:
  assumes "sock_wf s" and "tk_state s = TCP_SOCK_STATE_ESTABLISHED" and "rx_process_ack ck p len s = (b, s')"
  shows "sock_wf s'" and "tk_state s' = TCP_SOCK_STATE_ESTABLISHED" and "tk_id s' = tk_id s"
proof -
  define s3 where "s3 = sock_ts_rx (ck_us_rx ck) ((if rx_is_ack p then (s\<lparr>tk_tx_remote_avail := ucast (tcp_wnd p)\<rparr>)\<lparr>tk_cc_acks := tk_cc_acks s + 1\<rparr>
       else s\<lparr>tk_tx_remote_avail := ucast (tcp_wnd p)\<rparr>)) (rx_read_ts p len)"
  have s3: "sock_wf s3" "tk_state s3 = TCP_SOCK_STATE_ESTABLISHED" "tk_id s3 = tk_id s" using assms by (auto simp: s3_def)
  have b: "b = rx_get_ack_bump s3 (tcp_ackno p)"
    and s': "s' = (if rx_is_ack p then rx_sock_bump_ack (TCPH_FLAGS p AND TAS_TCP_ECE \<noteq> 0) s3 b else s3)"
    using assms(3) by (auto simp: rx_process_ack_def Let_def s3_def)
  show "tk_state s' = TCP_SOCK_STATE_ESTABLISHED" "tk_id s' = tk_id s" using s' s3 by auto
  have ok: "tx_ok s3" using s3 by (simp add: sock_wf_def sock_ok_def)
  then have "tx_ok (rx_sock_bump_ack e s3 b)" for e using bump_ack_ok [OF ok] ack_bump_le [OF tx_ok_sum [OF ok]] b by simp
  then show "sock_wf s'" using s' s3 by (auto simp: sock_wf_def sock_ok_def)
qed

lemma rx_dupack_returns:
  assumes "sched_wf sched" and "sock_wf s"
  shows "\<exists>f sched' s'. rx_dupack ck p b sched s = Some (f, sched', s') \<and> sched_wf sched' \<and> sock_wf s' \<and>
    tk_id s' = tk_id s \<and> tk_state s' = tk_state s"
proof -
  let ?s = "s\<lparr>tk_rx_dupack_cnt := tk_rx_dupack_cnt s + 1, tk_cc_drops := tk_cc_drops s + 1\<rparr>"
  have id: "sched_id_valid (tk_id ?s)" using assms(2) by (simp add: sock_wf_def)
  have wf: "sock_wf (sock_rewind ?s)" using assms(2) by (intro sock_wf_rewind) simp
  obtain sched' where "remit (ck_remit ck) sched ?s = Some (sched', sock_rewind ?s)" "sched_wf sched'"
    using remit_returns [OF assms(1) id] by blast
  then show ?thesis using assms wf by (auto simp: rx_dupack_def Let_def)
qed

lemma rx_sched_tx_returns:
  assumes "sched_wf sched" and "sched_id_valid (tk_id s)"
  shows "\<exists>sched'. rx_sched_tx ck sched s b a = Some sched' \<and> sched_wf sched'"
  using txs.add_law [OF assms] assms(1) by (fastforce simp: rx_sched_tx_def)

lemma tx_fill_ack_frame:
  assumes "tx_fill_ack ck c s = (r, c', s')"
  shows "sock_wf s' = sock_wf s" and "c' = c\<lparr>tc_pkt := tc_pkt c'\<rparr>"
    and "s' = s \<or> s' = s\<lparr>tk_flags := tk_flags s AND NOT TCP_SOCK_FLAG_SEND_ECE\<rparr>"
  using assms by (auto simp: tx_fill_ack_def tx_fill_hdr_def Let_def split: if_splits)

lemma ack_and_unlock_wf [wf_intros]:
  assumes "tcp_wf c" and "sock_wf s"
  shows "\<exists>r c'. ack_and_unlock ck c sid s = Inr (r, c') \<and> tcp_wf c'"
proof -
  obtain r c' s' where a: "tx_fill_ack ck c s = (r, c', s')" by (metis prod_cases3)
  note f = tx_fill_ack_frame [OF a]
  have "tcp_wf (put_sock sid (util_spin_unlock s') c')"
    using assms f(1) by (subst f(2)) (rule tcp_wf_put, simp_all add: tcp_wf_def)
  with a show ?thesis by (simp add: ack_and_unlock_def)
qed

lemma rx_room:
  assumes "rx_ok s"
  shows "unat (tk_rx_avail s) + unat (rx_get_rx_bump s n) \<le> unat (tk_rx_len s)"
  using assms rx_get_rx_bump_min [OF assms, of n] by (auto simp: rx_ok_def min_def)

lemma rx_bump_wf:
  assumes "sock_wf s" and "tk_state s = TCP_SOCK_STATE_ESTABLISHED"
  shows "sock_wf (rx_sock_bump_rx s (rx_get_rx_bump s n))"
proof -
  have ok: "rx_ok s" "tx_ok s" "sched_id_valid (tk_id s)" using assms by (simp_all add: sock_wf_def sock_ok_def)
  have "tx_ok (rx_sock_bump_rx s b)" for b using ok(2) by (simp add: tx_ok_def rx_sock_bump_rx_def)
  then show ?thesis using rx_bump_ok(1) [OF ok(1) rx_room [OF ok(1)]] ok(3) by (simp add: sock_wf_def sock_ok_def)
qed

lemma tcp_wf_frame [simp]:
  "tc_nsocks (put_sock sid s c) = tc_nsocks c" "tc_sched (put_sock sid s c) = tc_sched c" "tc_len (put_sock sid s c) = tc_len c"
  by (simp_all add: put_sock_def)

lemma tcp_wf_upd [simp]:
  "tcp_wf (c\<lparr>tc_pkt := p\<rparr>) = tcp_wf c" "tcp_wf (c\<lparr>tc_eqs := q\<rparr>) = tcp_wf c" "tcp_wf (c\<lparr>tc_dqs := dq\<rparr>) = tcp_wf c"
  "tcp_wf (c\<lparr>tc_shm := p\<rparr>) = tcp_wf c"
  by (simp_all add: tcp_wf_def)

lemma tcp_wf_sched [wf_intros]: "tcp_wf c \<Longrightarrow> sched_wf sched \<Longrightarrow> tcp_wf (c\<lparr>tc_sched := sched\<rparr>)"
  by (simp add: tcp_wf_def)

lemma rx_deliver_wf:
  assumes "tcp_wf c" and "sock_wf s" and "tk_state s = TCP_SOCK_STATE_ESTABLISHED"
  shows "\<exists>r c'. rx_deliver ck c sid s hdrlen overlap paylen = Inr (r, c') \<and> tcp_wf c'"
proof -
  define n where "n = (ucast (paylen - ucast overlap) :: u32)"
  define b where "b = rx_get_rx_bump s n"
  have s1: "sock_wf (rx_sock_bump_rx s b)" using rx_bump_wf [OF assms(2,3)] by (simp add: b_def)
  obtain ret q where e: "rx_enqueue_rx_bump (tc_eqs c (tk_app_bump_qid (rx_sock_bump_rx s b))) (rx_sock_bump_rx s b) b
      (tcp_src (tc_pkt c)) (ip_src (tc_pkt c)) = (ret, q)" by (metis surj_pair)
  define c1 where "c1 = c\<lparr>tc_shm := rx_copy_payload (tc_shm c) s (tc_pkt c) (unat hdrlen + unat overlap) b,
      tc_eqs := (tc_eqs c)(tk_app_bump_qid (rx_sock_bump_rx s b) := q)\<rparr>"
  have c1: "tcp_wf c1" using assms(1) by (simp add: c1_def)
  have d: "rx_deliver ck c sid s hdrlen overlap paylen =
      (if b > 0 then if ret \<noteq> 0 then Inr (-1, put_sock sid (util_spin_unlock (rx_sock_bump_rx s b)) c1)
         else ack_and_unlock ck c1 sid (rx_sock_bump_rx s b) else ack_and_unlock ck c sid s)"
    unfolding rx_deliver_def Let_def n_def [symmetric] b_def [symmetric] e c1_def by simp
  show ?thesis
    unfolding d using tcp_wf_put [OF c1 s1] ack_and_unlock_wf [OF c1 s1] ack_and_unlock_wf [OF assms(1,2)] by simp
qed

text \<open>
  The path of a packet through \<^const>\<open>rx_established\<close> once its headers are inside the buffer, with
  the intermediate values named.
\<close>

lemma rx_established_path:
  fixes ck c sid
  defines "p \<equiv> tc_pkt c"
  defines "s1 \<equiv> (if rx_is_ce p then (util_spin_lock (tc_socks c sid))\<lparr>tk_flags := tk_flags (tc_socks c sid) OR TCP_SOCK_FLAG_SEND_ECE\<rparr>
      else util_spin_lock (tc_socks c sid))"
  assumes "is_paylen_valid (tc_len c) (ucast (rx_get_hdrlen p)) 0" and "tk_tx_len (tc_socks c sid) \<noteq> 0"
    and ack: "rx_process_ack ck p (tc_len c) s1 = (b, s2)"
    and enq: "(if tk_tx_seq s1 = tcp_ackno p then (0, tc_eqs c (tk_app_bump_qid s2))
        else rx_enqueue_tx_bump (tc_eqs c (tk_app_bump_qid s2)) s2 b) = (ret, q)"
    and dup: "rx_dupack ck p b (tc_sched c) s2 = Some (f, sched1, s3)"
    and sch: "rx_sched_tx ck sched1 s3 (sock_sched_avail s1) (sock_sched_avail s2) = Some sched2"
  defines "c1 \<equiv> c\<lparr>tc_eqs := (tc_eqs c)(tk_app_bump_qid s2 := q)\<rparr>"
  defines "c2 \<equiv> c1\<lparr>tc_sched := sched2\<rparr>"
  shows "rx_established ck c sid =
     (if ret \<noteq> 0 then Inr (-1, put_sock sid (util_spin_unlock s2) c1)
      else if rx_is_ack_only p then Inr (0, put_sock sid (util_spin_unlock s3) c2)
      else if rx_is_payload_dup p s1 \<and> \<not> f then ack_and_unlock ck c2 sid s3
      else if rx_is_out_of_order p s1 then ack_and_unlock ck c2 sid s3
      else if \<not> is_paylen_valid (tc_len c) (ucast (rx_get_hdrlen p)) (ucast (rx_get_paylen p)) then ack_and_unlock ck c2 sid s3
      else rx_deliver ck c2 sid s3 (ucast (rx_get_hdrlen p)) (rx_get_payload_overlap p s1) (ucast (rx_get_paylen p)))"
proof -
  have s1: "s1 = (if rx_is_ce p then (util_spin_lock (tc_socks c sid))\<lparr>tk_flags := tk_flags (util_spin_lock (tc_socks c sid)) OR TCP_SOCK_FLAG_SEND_ECE\<rparr>
      else util_spin_lock (tc_socks c sid))" by (simp add: s1_def util_spin_lock_def)
  have len: "tk_tx_len s1 \<noteq> 0" using assms(4) by (simp add: s1_def util_spin_lock_def)
  show ?thesis
    using len assms(3) unfolding rx_established_def Let_def p_def [symmetric] s1 [symmetric] ack prod.case enq c1_def c2_def
    by (simp add: dup sch)
qed

definition rx_locked :: "tcp_ctx \<Rightarrow> u32 \<Rightarrow> tcp_sock" where
  "rx_locked c sid =
     (if rx_is_ce (tc_pkt c) then (util_spin_lock (tc_socks c sid))\<lparr>tk_flags := tk_flags (tc_socks c sid) OR TCP_SOCK_FLAG_SEND_ECE\<rparr>
      else util_spin_lock (tc_socks c sid))"

lemma rx_locked_frame [simp]:
  "sock_wf (rx_locked c sid) = sock_wf (tc_socks c sid)" "tk_state (rx_locked c sid) = tk_state (tc_socks c sid)"
  "sock_ok (rx_locked c sid) = sock_ok (tc_socks c sid)" "tk_id (rx_locked c sid) = tk_id (tc_socks c sid)"
  by (simp_all add: rx_locked_def sock_ok_defs util_spin_lock_def)

lemma rx_established_wf:
  assumes c: "tcp_wf c" and s: "sock_wf (tc_socks c sid)" and est: "tk_state (tc_socks c sid) = TCP_SOCK_STATE_ESTABLISHED"
  shows "\<exists>r c'. rx_established ck c sid = Inr (r, c') \<and> tcp_wf c'"
proof (cases "is_paylen_valid (tc_len c) (ucast (rx_get_hdrlen (tc_pkt c))) 0")
  case False
  then have "rx_established ck c sid = ack_and_unlock ck c sid (rx_locked c sid)"
    by (simp add: rx_established_def Let_def rx_locked_def util_spin_lock_def)
  then show ?thesis using ack_and_unlock_wf [OF c] s by simp
next
  case True
  let ?p = "tc_pkt c" and ?s = "rx_locked c sid"
  have "tk_tx_len (tc_socks c sid) \<noteq> 0" using s est by (auto simp: sock_wf_def sock_ok_defs)
  obtain b s2 where a: "rx_process_ack ck ?p (tc_len c) ?s = (b, s2)" by (rule prod.exhaust)
  have s2: "sock_wf s2" "tk_state s2 = TCP_SOCK_STATE_ESTABLISHED" "tk_id s2 = tk_id (tc_socks c sid)"
    using rx_process_ack_wf [OF _ _ a] s est by simp_all
  obtain ret q where e: "(if tk_tx_seq ?s = tcp_ackno ?p then (0, tc_eqs c (tk_app_bump_qid s2))
        else rx_enqueue_tx_bump (tc_eqs c (tk_app_bump_qid s2)) s2 b) = (ret, q)" by (rule prod.exhaust)
  have sw: "sched_wf (tc_sched c)" using c by (simp add: tcp_wf_def)
  obtain f sched1 s3 where d: "rx_dupack ck ?p b (tc_sched c) s2 = Some (f, sched1, s3)" "sched_wf sched1" "sock_wf s3"
    "tk_id s3 = tk_id s2" "tk_state s3 = tk_state s2"
    using rx_dupack_returns [OF sw s2(1)] by blast
  obtain sched2 where t: "rx_sched_tx ck sched1 s3 (sock_sched_avail ?s) (sock_sched_avail s2) = Some sched2" "sched_wf sched2"
    using rx_sched_tx_returns [OF d(2) sock_wf_id [OF d(3)]] by blast
  have c1: "tcp_wf (c\<lparr>tc_eqs := (tc_eqs c)(tk_app_bump_qid s2 := q)\<rparr>)" using c by simp
  note c2 = tcp_wf_sched [OF c1 t(2)]
  have est3: "tk_state s3 = TCP_SOCK_STATE_ESTABLISHED" using d(5) s2(2) by simp
  show ?thesis
    unfolding rx_established_path [folded rx_locked_def, OF True \<open>tk_tx_len (tc_socks c sid) \<noteq> 0\<close> a e d(1) t(1)]
    using tcp_wf_put [OF c1 s2(1)] tcp_wf_put [OF c2 d(3)] ack_and_unlock_wf [OF c2 d(3)] rx_deliver_wf [OF c2 d(3) est3]
    by simp
qed

text \<open>Punting touches the queues only; it overruns the slot when the headers do not fit.\<close>

definition punt_result :: "tcp_ctx \<Rightarrow> tcp_result \<Rightarrow> bool" where
  "punt_result c x \<longleftrightarrow> (case x of Inl e \<Rightarrow> e = SlotOverflow \<and> unat (rx_get_hdrlen (tc_pkt c)) > QE_PKT_ROOM
      | Inr (r, c') \<Rightarrow> c' = c\<lparr>tc_eqs := tc_eqs c'\<rparr>)"

lemma punt_result_simps:
  "punt_result c (Inr (r, c))" "punt_result c (Inr (r, c\<lparr>tc_eqs := q\<rparr>))"
  "punt_result c (Inl SlotOverflow) = (unat (rx_get_hdrlen (tc_pkt c)) > QE_PKT_ROOM)"
  by (simp_all add: punt_result_def)

lemma rx_punt_ctl_result: "punt_result c (rx_punt_ctl c)"
  unfolding rx_punt_ctl_def Let_def
  by (simp add: punt_result_simps split: option.split prod.split)

lemma find_in_bucket_bound: "find_in_bucket c lip lport rip rport sids = Some sid \<Longrightarrow> sid < tc_nsocks c"
  by (induction sids) (auto simp: sock_map_lookup_def split: if_splits)

lemma sock_find_bound: "sock_find c = Some sid \<Longrightarrow> sid < tc_nsocks c"
  by (auto simp: sock_find_def Let_def split: if_splits dest: find_in_bucket_bound)

lemma tcp_event_rx_wf:
  assumes "tcp_wf c" and "unat (rx_get_hdrlen (tc_pkt c)) \<le> QE_PKT_ROOM"
  shows "\<exists>r c'. tcp_event_rx ck c = Inr (r, c') \<and> tcp_wf c'"
proof -
  have p: "\<exists>r c'. rx_punt_ctl c = Inr (r, c') \<and> tcp_wf c'" 
    using rx_punt_ctl_result [of c] assms
    by (auto simp: punt_result_def split: sum.splits prod.splits) (metis tcp_wf_upd(2))
  have e: "\<exists>r c'. rx_established ck c sid = Inr (r, c') \<and> tcp_wf c'"
    if "sock_find c = Some sid" "tk_state (tc_socks c sid) = TCP_SOCK_STATE_ESTABLISHED" for sid
    using rx_established_wf [OF assms(1) _ that(2)] tcp_wf_sock [OF assms(1) sock_find_bound [OF that(1)]] by blast
  show ?thesis using assms(1) p e by (auto simp: tcp_event_rx_def split: option.splits)
qed

subsection \<open>Transmission\<close>

lemma tx_bump_le_avail: "unat (tx_get_tx_bump s m) \<le> unat (tk_tx_avail s)"
  using tx_get_tx_bump_min [of s m] sock_sched_avail_min [of s] by linarith

lemma tx_fill_hdr_frame:
  assumes "tx_fill_hdr now p s h n = (p', s')"
  shows "s' = s \<or> s' = s\<lparr>tk_flags := tk_flags s AND NOT TCP_SOCK_FLAG_SEND_ECE\<rparr>" and "sock_wf s' = sock_wf s"
    and "tk_id s' = tk_id s" and "tk_state s' = tk_state s" and "tk_tx_avail s' = tk_tx_avail s"
    and "tk_tx_pending s' = tk_tx_pending s" and "tx_ok s' = tx_ok s" and "rx_ok s' = rx_ok s"
  using assms by (auto simp: tx_fill_hdr_def Let_def tx_ok_def rx_ok_def split: if_splits)

lemma tx_bump_wf:
  assumes "sock_wf s" and "unat b \<le> unat (tk_tx_avail s)"
  shows "sock_wf (tx_sock_tx_bump s b)"
  using assms tx_bump_ok(1) [of s b] by (auto simp: sock_wf_def sock_ok_def rx_ok_def tx_sock_tx_bump_def)

lemma tx_segment_path:
  fixes ck c sid
  defines "s0 \<equiv> util_spin_lock (tc_socks c sid)"
  defines "b \<equiv> tx_get_tx_bump s0 (tx_get_max_paylen (tc_len c) tx_get_hdrlen)"
  assumes fill: "tx_fill_hdr (ck_us_tx ck) (tc_pkt c) s0 tx_get_hdrlen b = (p, s1)"
  defines "s3 \<equiv> tx_sock_sched_next (ck_cycles_per_us ck) (tx_sock_tx_bump s1 b) (tx_get_hdrlen + b) (ck_now ck)"
  assumes add: "sched_add (tc_sched c) (tk_id s3) (tx_sched_tsc (ck_sched ck) s3) (sock_sched_avail s3) = Some (0, sched')"
  defines "c1 \<equiv> c\<lparr>tc_pkt := tx_copy_payload (tc_shm c) s1 p (unat tx_get_hdrlen) b\<rparr>"
  shows "tx_segment ck c sid =
      (if \<not> is_paylen_valid (tc_len c) (ucast tx_get_hdrlen) (ucast b) then Inr (-1, put_sock sid (util_spin_unlock s0) c)
       else if b > 0 then
         Inr (uint (tx_get_hdrlen + b), put_sock sid (util_spin_unlock s3) (if sock_sched_avail s3 > 0 then c1\<lparr>tc_sched := sched'\<rparr> else c1))
       else Inr (uint (tx_get_hdrlen + b), put_sock sid (util_spin_unlock s1) (c\<lparr>tc_pkt := p\<rparr>)))"
  unfolding tx_segment_def Let_def s0_def [symmetric] b_def [symmetric] fill prod.case s3_def [symmetric] add option.case
  by (simp add: c1_def)

lemma tx_segment_wf:
  assumes "tcp_wf c" and "sock_wf (tc_socks c sid)"
  shows "\<exists>r c'. tx_segment ck c sid = Inr (r, c') \<and> tcp_wf c'"
proof -
  define s0 where "s0 = util_spin_lock (tc_socks c sid)"
  define b where "b = tx_get_tx_bump s0 (tx_get_max_paylen (tc_len c) tx_get_hdrlen)"
  obtain p s1 where f: "tx_fill_hdr (ck_us_tx ck) (tc_pkt c) s0 tx_get_hdrlen b = (p, s1)" by (rule prod.exhaust)
  have s0: "sock_wf s0" using assms(2) by (simp add: s0_def)
  have s1: "sock_wf s1" and le: "unat b \<le> unat (tk_tx_avail s1)"
    using tx_fill_hdr_frame [OF f] s0 tx_bump_le_avail by (simp_all add: b_def)
  define s3 where "s3 = tx_sock_sched_next (ck_cycles_per_us ck) (tx_sock_tx_bump s1 b) (tx_get_hdrlen + b) (ck_now ck)"
  have s3: "sock_wf s3" using tx_bump_wf [OF s1 le] by (simp add: s3_def)
  obtain sched' where a: "sched_add (tc_sched c) (tk_id s3) (tx_sched_tsc (ck_sched ck) s3) (sock_sched_avail s3) = Some (0, sched')"
    and w: "sched_wf sched'"
    using txs.add_law [OF _ sock_wf_id [OF s3]] assms(1) unfolding tcp_wf_def by blast
  have c1: "tcp_wf (c\<lparr>tc_pkt := q\<rparr>)" for q using assms(1) by simp
  show ?thesis
    using tcp_wf_put [OF assms(1) s0] tcp_wf_put [OF tcp_wf_sched [OF c1 w] s3] tcp_wf_put [OF c1 s3] tcp_wf_put [OF c1 s1]
    by (simp add: tx_segment_path [OF f [unfolded b_def s0_def] a [unfolded s3_def b_def s0_def], folded s0_def, folded b_def, folded s3_def])
qed

lemma sched_pop_wf: "sched_wf s \<Longrightarrow> sched_wf (snd (sched_pop s))"
  using txs.pop_law [of s] txs.pop_empty [of s] by (cases "sched_contents s") auto

lemma tcp_event_sched_wf:
  assumes "tcp_wf c"
  shows "\<exists>r c'. tcp_event_sched ck c = Inr (r, c') \<and> tcp_wf c'"
proof -
  obtain ret sched' where p: "sched_pop (tc_sched c) = (ret, sched')" by (rule prod.exhaust)
  have c1: "tcp_wf (c\<lparr>tc_sched := sched'\<rparr>)"
    using assms sched_pop_wf [of "tc_sched c"] p by (intro tcp_wf_sched) (simp_all add: tcp_wf_def)
  have t: "\<exists>r c'. tx_segment ck (c\<lparr>tc_sched := sched'\<rparr>) sid = Inr (r, c') \<and> tcp_wf c'" if "sock_map_lookup c i = Some sid" for i sid
    using that tx_segment_wf [OF c1, of sid] tcp_wf_sock [OF c1, of sid] by (auto simp: sock_map_lookup_def split: if_splits)
  show ?thesis using assms c1 t by (auto simp: tcp_event_sched_def p Let_def split: option.splits)
qed

subsection \<open>Messages\<close>

text \<open>
  What the handlers rely on without checking: an application announces no more bytes than its
  transmit ring has room for and releases no more than were received, and a control packet fits
  its slot.
\<close>

definition msg_ok :: "tcp_ctx \<Rightarrow> bool" where
  "msg_ok c \<longleftrightarrow>
     (case tc_qe c of
        QE_bump_cham_tx m \<Rightarrow>
          let s = tc_socks c (bct_sock_id m)
          in unat (tk_tx_pending s) + unat (tk_tx_avail s) + unat (bct_tx_avail m) \<le> unat (tk_tx_len s)
      | QE_bump_cham_rx m \<Rightarrow> unat (bcr_rx_head m) \<le> unat (tk_rx_avail (tc_socks c (bcr_sock_id m)))
      | QE_ctl_tx \<Rightarrow>
          (case tc_cfg c of None \<Rightarrow> True
           | Some cfg \<Rightarrow> let q = tc_dqs c (cfg_slow_fast_pkt_qid cfg) in unat (ip_len (qs_data (snd q (dq_head (fst q))))) \<le> QE_PKT_ROOM)
      | _ \<Rightarrow> True)"

lemma sock_map_lookup_Some: "sock_map_lookup c i = Some sid \<longleftrightarrow> sid = i \<and> i < tc_nsocks c"
  by (auto simp: sock_map_lookup_def)

lemma deq_handle_bump_tx_wf:
  assumes "tcp_wf c" and "tc_qe c = QE_bump_cham_tx m" and "msg_ok c"
  shows "\<exists>r c'. deq_handle_bump_tx ck c m = Inr (r, c') \<and> tcp_wf c'"
proof (cases "sock_map_lookup c (bct_sock_id m)")
  case None
  then show ?thesis using assms(1) by (simp add: deq_handle_bump_tx_def)
next
  case (Some sid)
  define s1 where "s1 = deq_sock_bump_tx (util_spin_lock (tc_socks c sid)) (bct_tx_ip m) (bct_tx_port m) (bct_tx_avail m)"
  have "sock_wf (tc_socks c sid)" using tcp_wf_sock [OF assms(1)] Some by (simp add: sock_map_lookup_Some)
  then have s1: "sock_wf s1"
    using assms(2,3) Some deq_bump_tx_ok [of "util_spin_lock (tc_socks c sid)" "bct_tx_avail m"]
    by (auto simp: s1_def sock_wf_def sock_ok_def msg_ok_def Let_def sock_map_lookup_Some rx_ok_def tx_ok_def
        deq_sock_bump_tx_def util_spin_lock_def)
  obtain sched' where a: "sched_add (tc_sched c) (tk_id s1) (tx_sched_tsc (ck_sched ck) (util_spin_unlock s1)) (bct_tx_avail m) = Some (0, sched')"
    and w: "sched_wf sched'"
    using txs.add_law [OF _ sock_wf_id [OF s1]] assms(1) unfolding tcp_wf_def by blast
  have "deq_handle_bump_tx ck c m = (if \<not> is_qe_bump_valid c then Inr (-1, c)
      else Inr (0, (put_sock sid (util_spin_unlock s1) c)\<lparr>tc_sched := sched'\<rparr>))"
    unfolding deq_handle_bump_tx_def Let_def Some option.case s1_def [symmetric] by (simp add: a)
  then show ?thesis using tcp_wf_sched [OF tcp_wf_put [OF assms(1) s1] w] assms(1) by simp
qed

lemma deq_handle_bump_rx_wf:
  assumes "tcp_wf c" and "tc_qe c = QE_bump_cham_rx m" and "msg_ok c"
  shows "\<exists>r c'. deq_handle_bump_rx ck c m = Inr (r, c') \<and> tcp_wf c'"
proof (cases "sock_map_lookup c (bcr_sock_id m)")
  case None
  then show ?thesis using assms(1) by (simp add: deq_handle_bump_rx_def)
next
  case (Some sid)
  define s1 where "s1 = deq_sock_bump_rx (util_spin_lock (tc_socks c sid)) (bcr_rx_head m)"
  have "sock_wf (tc_socks c sid)" using tcp_wf_sock [OF assms(1)] Some by (simp add: sock_map_lookup_Some)
  then have s1: "sock_wf s1"
    using assms(2,3) Some deq_bump_rx_ok(1) [of "util_spin_lock (tc_socks c sid)" "bcr_rx_head m"]
    by (auto simp: s1_def sock_wf_def sock_ok_def msg_ok_def sock_map_lookup_Some rx_ok_def tx_ok_def
        deq_sock_bump_rx_def util_spin_lock_def Let_def)
  have "deq_handle_bump_rx ck c m = (if \<not> is_qe_bump_valid c then Inr (-1, c)
      else if tk_rx_len (tc_socks c sid) = tk_rx_avail (tc_socks c sid) then ack_and_unlock ck c sid s1
      else Inr (0, put_sock sid (util_spin_unlock s1) c))"
    unfolding deq_handle_bump_rx_def Let_def Some option.case s1_def [symmetric] by (simp add: util_spin_lock_def)
  then show ?thesis using tcp_wf_put [OF assms(1) s1] ack_and_unlock_wf [OF assms(1) s1] assms(1) by simp
qed

lemma deq_handle_retransmit_wf:
  assumes "tcp_wf c"
  shows "\<exists>r c'. deq_handle_retransmit ck c m = Inr (r, c') \<and> tcp_wf c'"
proof (cases "sock_map_lookup c (ctr_sock_id m)")
  case None
  then show ?thesis using assms(1) by (simp add: deq_handle_retransmit_def)
next
  case (Some sid)
  define s0 where "s0 = util_spin_lock (tc_socks c sid)"
  have s0: "sock_wf s0" using tcp_wf_sock [OF assms(1)] Some by (simp add: sock_map_lookup_Some s0_def)
  obtain sched' where r: "remit (ck_remit ck) (tc_sched c) s0 = Some (sched', sock_rewind s0)" "sched_wf sched'"
    using remit_returns [OF _ sock_wf_id [OF s0]] assms(1) unfolding tcp_wf_def by blast
  have "deq_handle_retransmit ck c m = (if \<not> is_qe_ctl_valid c then Inr (-1, c)
      else if deq_is_retransmit_stale s0 (ctr_tx_seq m) (ctr_tx_pending m) then Inr (0, put_sock sid (util_spin_unlock s0) c)
      else Inr (0, put_sock sid (util_spin_unlock (sock_rewind s0)) (c\<lparr>tc_sched := sched'\<rparr>)))"
    unfolding deq_handle_retransmit_def Let_def Some option.case s0_def [symmetric] by (simp add: r)
  then show ?thesis
    using tcp_wf_put [OF assms s0] tcp_wf_put [OF tcp_wf_sched [OF assms r(2)] sock_wf_rewind [OF s0]] assms by simp
qed

text \<open>Sending a control packet changes the packet buffer and its queue only.\<close>

definition ctl_tx_result :: "tcp_ctx \<Rightarrow> tcp_result \<Rightarrow> bool" where
  "ctl_tx_result c x \<longleftrightarrow> (case x of Inl e \<Rightarrow> tc_qe c = QE_ctl_tx \<longrightarrow> \<not> msg_ok c
      | Inr (r, c') \<Rightarrow> c' = c\<lparr>tc_pkt := tc_pkt c', tc_dqs := tc_dqs c'\<rparr>)"

lemma ctl_tx_result_simps:
  "ctl_tx_result c (Inr (r, c))" "ctl_tx_result c (Inr (r, c\<lparr>tc_dqs := q\<rparr>))"
  "ctl_tx_result c (Inr (r, c\<lparr>tc_pkt := p, tc_dqs := q\<rparr>))" "ctl_tx_result c (Inr (r, c\<lparr>tc_dqs := q, tc_pkt := p\<rparr>))"
  "ctl_tx_result c (Inl e) = (tc_qe c = QE_ctl_tx \<longrightarrow> \<not> msg_ok c)"
  by (simp_all add: ctl_tx_result_def)

lemma unat_ucast_16_32 [simp]: "unat (ucast (x :: u16) :: u32) = unat x"
  by (simp add: unat_ucast_up)

lemma deq_handle_ctl_tx_result: "ctl_tx_result c (deq_handle_ctl_tx ck c)"
  unfolding deq_handle_ctl_tx_def Let_def
  by (simp add: ctl_tx_result_simps msg_ok_def Let_def queue_head_def split: option.split prod.split)

lemma tcp_event_deq_wf:
  assumes "tcp_wf c" and "msg_ok c"
  shows "\<exists>r c'. tcp_event_deq ck c = Inr (r, c') \<and> tcp_wf c'"
proof (cases "tc_qe c")
  case (QE_bump_cham_tx m)
  then show ?thesis using deq_handle_bump_tx_wf [OF assms(1) _ assms(2)] assms(1) by (simp add: tcp_event_deq_def)
next
  case (QE_bump_cham_rx m)
  then show ?thesis using deq_handle_bump_rx_wf [OF assms(1) _ assms(2)] assms(1) by (simp add: tcp_event_deq_def)
next
  case QE_ctl_tx
  have "\<exists>r c'. deq_handle_ctl_tx ck c = Inr (r, c') \<and> tcp_wf c'"
    using deq_handle_ctl_tx_result [of c ck] assms QE_ctl_tx
    by (auto simp: ctl_tx_result_def split: sum.splits prod.splits) (metis tcp_wf_upd(1,3))
  then show ?thesis using QE_ctl_tx assms(1) by (simp add: tcp_event_deq_def)
next
  case (QE_tx_retransmit m)
  then show ?thesis using deq_handle_retransmit_wf [OF assms(1)] assms(1) by (simp add: tcp_event_deq_def)
qed (simp add: tcp_event_deq_def assms(1))

end
