(* ===== verification/Tcp_Props.thy ===== *)
theory Tcp_Props
  imports Tcp_Fast
begin

unbundle bit_operations_syntax

text \<open>
  What the TCP fast path guarantees: safety of every sequence of events, the byte streams of the
  two directions, the window, the headers, and the behaviours that lose information.
\<close>

section \<open>Event sequences\<close>

text \<open>
  One event of the fast path, with what its environment supplies: the clock, the packet buffer and
  its length, and for messages the dequeued entry with its offset.
\<close>

datatype tcp_event =
    EvRx tcp_clock bytes nat
  | EvSched tcp_clock bytes nat
  | EvDeq tcp_clock tcp_qe nat bytes nat

fun tcp_load :: "tcp_event \<Rightarrow> tcp_ctx \<Rightarrow> tcp_ctx" where
  "tcp_load (EvRx ck p n) c = c\<lparr>tc_pkt := p, tc_len := n\<rparr>"
| "tcp_load (EvSched ck p n) c = c\<lparr>tc_pkt := p, tc_len := n\<rparr>"
| "tcp_load (EvDeq ck qe o' p n) c = c\<lparr>tc_pkt := p, tc_len := n, tc_qe := qe, tc_qe_off := o'\<rparr>"

fun tcp_exec :: "tcp_event \<Rightarrow> tcp_ctx \<Rightarrow> tcp_result" where
  "tcp_exec (EvRx ck p n) c = tcp_event_rx ck (tcp_load (EvRx ck p n) c)"
| "tcp_exec (EvSched ck p n) c = tcp_event_sched ck (tcp_load (EvSched ck p n) c)"
| "tcp_exec (EvDeq ck qe o' p n) c = tcp_event_deq ck (tcp_load (EvDeq ck qe o' p n) c)"

fun event_ok :: "tcp_event \<Rightarrow> tcp_ctx \<Rightarrow> bool" where
  "event_ok (EvRx ck p n) c \<longleftrightarrow> unat (rx_get_hdrlen p) \<le> QE_PKT_ROOM"
| "event_ok (EvSched ck p n) c \<longleftrightarrow> True"
| "event_ok (EvDeq ck qe o' p n) c \<longleftrightarrow> msg_ok (tcp_load (EvDeq ck qe o' p n) c)"

inductive tcp_reach :: "tcp_ctx \<Rightarrow> tcp_ctx \<Rightarrow> bool" for c0 where
  reach_refl: "tcp_reach c0 c0"
| reach_step: "tcp_reach c0 c \<Longrightarrow> event_ok ev c \<Longrightarrow> tcp_exec ev c = Inr (r, c') \<Longrightarrow> tcp_reach c0 c'"

lemma tcp_wf_load: "tcp_wf (tcp_load ev c) = tcp_wf c"
  by (cases ev) (simp_all add: tcp_wf_def)

lemma tcp_exec_wf:
  assumes "tcp_wf c" and "event_ok ev c"
  shows "\<exists>r c'. tcp_exec ev c = Inr (r, c') \<and> tcp_wf c'"
proof -
  have w: "tcp_wf (tcp_load ev c)" using assms(1) by (simp only: tcp_wf_load)
  show ?thesis
  proof (cases ev)
    case (EvRx ck p n)
    with w assms(2) show ?thesis using tcp_event_rx_wf [of "tcp_load ev c" ck] by simp
  next
    case (EvSched ck p n)
    with w show ?thesis using tcp_event_sched_wf [of "tcp_load ev c" ck] by simp
  next
    case (EvDeq ck qe off p n)
    with w assms(2) show ?thesis using tcp_event_deq_wf [of "tcp_load ev c" ck] by simp
  qed
qed

lemma tcp_reach_wf:
  assumes "tcp_reach c0 c" and "tcp_wf c0"
  shows "tcp_wf c"
  using assms
proof (induction rule: tcp_reach.induct)
  case (reach_step c ev r c')
  then show ?case using tcp_exec_wf [of c ev] by auto
qed

section \<open>The receive stream\<close>

definition rx_view :: "tcp_sock \<Rightarrow> u32 \<times> u32 \<times> u32 \<times> u64 \<times> u32" where
  "rx_view s = (tk_rx_len s, tk_rx_avail s, tk_rx_head s, tk_rx_off s, tk_rx_seq s)"

lemma rx_view_byte: "rx_view s = rx_view s' \<Longrightarrow> rx_byte shm s k = rx_byte shm s' k"
  by (simp add: rx_view_def rx_byte_def)

lemma rx_view_frame [simp]:
  "rx_view (util_spin_lock s) = rx_view s" "rx_view (util_spin_unlock s) = rx_view s"
  "rx_view (rx_locked c sid) = rx_view (tc_socks c sid)" "rx_view (sock_rewind s) = rx_view s"
  "rx_view (sock_ts_rx now s opt) = rx_view s" "rx_view (rx_sock_bump_ack ece s b) = rx_view s"
  "rx_view (s\<lparr>tk_flags := a\<rparr>) = rx_view s" "rx_view (s\<lparr>tk_tx_remote_avail := b\<rparr>) = rx_view s"
  "rx_view (s\<lparr>tk_cc_acks := b\<rparr>) = rx_view s" "rx_view (s\<lparr>tk_rx_dupack_cnt := a\<rparr>) = rx_view s"
  "rx_view (s\<lparr>tk_cc_drops := b\<rparr>) = rx_view s"
  by (simp_all add: rx_view_def util_spin_lock_def util_spin_unlock_def rx_locked_def)

lemma rx_process_ack_view: "rx_process_ack ck p len s = (b, s') \<Longrightarrow> rx_view s' = rx_view s"
  by (auto simp: rx_process_ack_def Let_def split: if_splits)

lemma rx_dupack_view:
  assumes "rx_dupack ck p b sched s = Some (f, sched', s')"
  shows "rx_view s' = rx_view s" and "f \<Longrightarrow> rx_is_ack_only p"
proof -
  have "remit now sched t = Some (sched', t') \<Longrightarrow> t' = sock_rewind t" for now t t' sched'
    by (auto simp: remit_def Let_def split: option.splits)
  then show "rx_view s' = rx_view s" and "f \<Longrightarrow> rx_is_ack_only p"
    using assms by (fastforce simp: rx_dupack_def Let_def split: if_splits option.splits prod.splits)+
qed

text \<open>
  \<open>rx_step p shm s shm' s'\<close>: the stream of the socket grew by payload bytes of the packet, each
  the byte with the sequence number that follows, and nothing else of it changed.
\<close>

definition rx_step :: "bytes \<Rightarrow> bytes \<Rightarrow> tcp_sock \<Rightarrow> bytes \<Rightarrow> tcp_sock \<Rightarrow> bool" where
  "rx_step p shm s shm' s' \<longleftrightarrow>
     (\<exists>n. unat (tk_rx_avail s') = unat (tk_rx_avail s) + n \<and> tk_rx_seq s' = tk_rx_seq s + of_nat n \<and>
        (\<forall>j < unat (tk_rx_avail s). rx_byte shm' s' j = rx_byte shm s j) \<and>
        (n \<noteq> 0 \<longrightarrow> unat (tk_rx_seq s - tcp_seqno p) + n \<le> unat (rx_get_paylen p)) \<and>
        (\<forall>j < n. rx_byte shm' s' (unat (tk_rx_avail s) + j) =
            p (unat (rx_get_hdrlen p) + unat (tk_rx_seq s - tcp_seqno p) + j)))"

lemma rx_step_same: "rx_view s' = rx_view s \<Longrightarrow> rx_step p shm s shm s'"
  unfolding rx_step_def by (rule exI [of _ 0]) (auto simp: rx_view_def rx_byte_def)

lemma ack_and_unlock_frame:
  assumes "ack_and_unlock ck c sid s = Inr (r, c')"
  shows "rx_view (tc_socks c' sid) = rx_view s" and "tc_shm c' = tc_shm c" and "i \<noteq> sid \<Longrightarrow> tc_socks c' i = tc_socks c i"
proof -
  obtain ret c1 s1 where t: "tx_fill_ack ck c s = (ret, c1, s1)" by (rule prod_cases3)
  then have c': "c' = put_sock sid (util_spin_unlock s1) c1" using assms by (simp add: ack_and_unlock_def)
  have "tc_shm c1 = tc_shm c" "tc_socks c1 = tc_socks c" by (subst tx_fill_ack_frame(2) [OF t], simp)+
  then show "tc_shm c' = tc_shm c" "i \<noteq> sid \<Longrightarrow> tc_socks c' i = tc_socks c i" by (simp_all add: c' put_sock_def)
  show "rx_view (tc_socks c' sid) = rx_view s"
    using tx_fill_ack_frame(3) [OF t] by (auto simp: c' put_sock_def)
qed

lemma rx_deliver_frame:
  fixes paylen :: u16
  assumes "rx_deliver ck c sid s hdrlen overlap paylen = Inr (r, c')"
  defines "b \<equiv> rx_get_rx_bump s (ucast (paylen - ucast overlap))"
  shows "rx_view (tc_socks c' sid) = rx_view (rx_sock_bump_rx s b)"
    and "tc_shm c' = (if b > 0 then rx_copy_payload (tc_shm c) s (tc_pkt c) (unat hdrlen + unat overlap) b else tc_shm c)"
    and "i \<noteq> sid \<Longrightarrow> tc_socks c' i = tc_socks c i"
proof -
  obtain ret q where e: "rx_enqueue_rx_bump (tc_eqs c (tk_app_bump_qid (rx_sock_bump_rx s b))) (rx_sock_bump_rx s b) b
      (tcp_src (tc_pkt c)) (ip_src (tc_pkt c)) = (ret, q)" by (rule prod.exhaust)
  define c1 where "c1 = c\<lparr>tc_shm := rx_copy_payload (tc_shm c) s (tc_pkt c) (unat hdrlen + unat overlap) b,
      tc_eqs := (tc_eqs c)(tk_app_bump_qid (rx_sock_bump_rx s b) := q)\<rparr>"
  have d: "rx_deliver ck c sid s hdrlen overlap paylen =
      (if b > 0 then if ret \<noteq> 0 then Inr (-1, put_sock sid (util_spin_unlock (rx_sock_bump_rx s b)) c1)
         else ack_and_unlock ck c1 sid (rx_sock_bump_rx s b) else ack_and_unlock ck c sid s)"
    unfolding rx_deliver_def Let_def b_def [symmetric] e c1_def by simp
  have z: "rx_sock_bump_rx s 0 = s" by (simp add: rx_sock_bump_rx_def)
  have c1: "tc_shm c1 = rx_copy_payload (tc_shm c) s (tc_pkt c) (unat hdrlen + unat overlap) b" "tc_socks c1 = tc_socks c"
    by (simp_all add: c1_def)
  consider "b = 0" "ack_and_unlock ck c sid s = Inr (r, c')"
    | "b > 0" "c' = put_sock sid (util_spin_unlock (rx_sock_bump_rx s b)) c1"
    | "b > 0" "ack_and_unlock ck c1 sid (rx_sock_bump_rx s b) = Inr (r, c')"
    using assms(1) d by (auto split: if_splits simp: word_gt_0)
  then show "rx_view (tc_socks c' sid) = rx_view (rx_sock_bump_rx s b)"
    and "tc_shm c' = (if b > 0 then rx_copy_payload (tc_shm c) s (tc_pkt c) (unat hdrlen + unat overlap) b else tc_shm c)"
    and "i \<noteq> sid \<Longrightarrow> tc_socks c' i = tc_socks c i"
    using ack_and_unlock_frame [of ck c sid s r c'] ack_and_unlock_frame [of ck c1 sid "rx_sock_bump_rx s b" r c'] z c1
    by (cases; simp add: put_sock_def)+
qed

lemma rx_deliver_step:
  fixes paylen :: u16
  assumes ok: "rx_ok s" and d: "rx_deliver ck c sid s hdrlen overlap paylen = Inr (r, c')"
    and ov: "overlap = tk_rx_seq s - tcp_seqno (tc_pkt c)" "unat overlap < unat paylen"
    and hl: "unat hdrlen = unat (rx_get_hdrlen (tc_pkt c))" "unat paylen = unat (rx_get_paylen (tc_pkt c))"
  shows "rx_step (tc_pkt c) (tc_shm c) s (tc_shm c') (tc_socks c' sid)"
proof -
  define b where "b = rx_get_rx_bump s (ucast (paylen - ucast overlap))"
  note f = rx_deliver_frame [OF d, folded b_def]
  have room: "unat (tk_rx_avail s) + unat b \<le> unat (tk_rx_len s)" using rx_room [OF ok] by (simp add: b_def)
  have "unat (ucast overlap :: u16) = unat overlap"
    using ov(2) unat_16_bound [of paylen] by (simp add: unsigned_ucast_eq take_bit_nat_eq_self)
  then have sub: "unat (paylen - ucast overlap) = unat paylen - unat overlap"
    using ov(2) by (subst unat_sub) (simp_all add: word_le_nat_alt)
  have bl: "unat b \<le> unat paylen - unat overlap"
    using rx_get_rx_bump_min [OF ok, of "ucast (paylen - ucast overlap)"] sub by (simp add: b_def)
  define s' where "s' = rx_sock_bump_rx s b"
  define shm' where "shm' = tc_shm c'"
  have v: "rx_view (tc_socks c' sid) = rx_view s'" using f(1) by (simp add: s'_def)
  have s': "tk_rx_len s' = tk_rx_len s" "tk_rx_head s' = tk_rx_head s" "tk_rx_off s' = tk_rx_off s" "tk_rx_seq s' = tk_rx_seq s + b"
    by (simp_all add: s'_def rx_sock_bump_rx_def)
  have av: "unat (tk_rx_avail s') = unat (tk_rx_avail s) + unat b" using rx_bump_ok(2) [OF ok room] by (simp add: s'_def)
  have byte: "rx_byte shm' s' j = (if j < unat (tk_rx_avail s) then rx_byte (tc_shm c) s j
      else tc_pkt c (unat hdrlen + unat overlap + (j - unat (tk_rx_avail s))))" if "j < unat (tk_rx_avail s) + unat b" for j
  proof -
    have "rx_byte shm' s' j = rx_byte shm' s j" by (simp add: rx_byte_def s')
    also have "\<dots> = (if j < unat (tk_rx_avail s) then rx_byte (tc_shm c) s j
      else tc_pkt c (unat hdrlen + unat overlap + (j - unat (tk_rx_avail s))))"
    proof (cases "b > 0")
      case True
      then show ?thesis using f(2) rx_append [OF ok room that] by (simp add: shm'_def)
    next
      case False
      then have "b = 0" by (simp add: word_gt_0)
      then show ?thesis using f(2) that by (simp add: shm'_def)
    qed
    finally show ?thesis .
  qed
  show ?thesis unfolding rx_step_def
  proof (rule exI [of _ "unat b"], intro conjI allI impI)
    show "unat (tk_rx_avail (tc_socks c' sid)) = unat (tk_rx_avail s) + unat b"
      "tk_rx_seq (tc_socks c' sid) = tk_rx_seq s + of_nat (unat b)"
      using v av s' by (simp_all add: rx_view_def)
    show "unat (tk_rx_seq s - tcp_seqno (tc_pkt c)) + unat b \<le> unat (rx_get_paylen (tc_pkt c))"
      using bl ov hl by simp
    fix j
    show "rx_byte (tc_shm c') (tc_socks c' sid) j = rx_byte (tc_shm c) s j" if "j < unat (tk_rx_avail s)"
      using byte [of j] that rx_view_byte [OF v] by (simp add: shm'_def)
    show "rx_byte (tc_shm c') (tc_socks c' sid) (unat (tk_rx_avail s) + j) =
        tc_pkt c (unat (rx_get_hdrlen (tc_pkt c)) + unat (tk_rx_seq s - tcp_seqno (tc_pkt c)) + j)" if "j < unat b"
      using byte [of "unat (tk_rx_avail s) + j"] that rx_view_byte [OF v] hl ov(1) by (simp add: shm'_def)
  qed
qed

lemma ucast_16_32_16: "ucast (ucast (x :: u16) :: u32) = x"
  by (rule bit_word_eqI) (auto simp: bit_simps)

lemma rx_get_paylen_bound: "unat (ucast (rx_get_paylen p) :: u16) = unat (rx_get_paylen p)"
  unfolding rx_get_paylen_def Let_def ucast_16_32_16 unat_ucast_16_32 ..

lemma unat_times_4: "unat (x :: u16) < 16384 \<Longrightarrow> unat (x * 4) = unat x * 4"
  by (simp add: unat_word_ariths)

lemma rx_get_hdrlen_bound: "unat (ucast (rx_get_hdrlen p) :: u16) = unat (rx_get_hdrlen p)"
proof -
  have a: "unat (IPH_HL p) \<le> 15"
    using word_and_le1 [of "p 0" "0x0f"] by (simp add: IPH_HL_def word_le_nat_alt)
  have b: "unat (TCPH_HDRLEN p) \<le> 15"
    using unat_16_bound [of "TCPH_RAW p"] by (simp add: TCPH_HDRLEN_def drop_bit_eq_div unat_div)
  have a4: "unat ((ucast (IPH_HL p) * 4 :: u16)) \<le> 60"
    using a by (subst unat_times_4) (simp_all add: unat_ucast_up)
  have b4: "unat (TCPH_HDRLEN p * 4) \<le> 60" using b by (subst unat_times_4) simp_all
  have "unat ((ucast x :: u32) + ucast y) \<le> 120" if "unat x \<le> 60" "unat y \<le> 60" for x y :: u16
  proof -
    have "unat ((ucast x :: u32) + ucast y) = unat x + unat y" using that by (subst unat_add_small_iff) simp_all
    then show ?thesis using that by linarith
  qed
  then have "unat (rx_get_hdrlen p) \<le> 120" unfolding rx_get_hdrlen_def Let_def using a4 b4 by blast
  then show ?thesis by (simp add: unsigned_ucast_eq take_bit_nat_eq_self)
qed

text \<open>When a payload is neither out of order nor all seen, its overlap is its distance behind the stream.\<close>

lemma overlap_exact:
  assumes "\<not> rx_is_out_of_order p s" and "\<not> rx_is_payload_dup p s"
  shows "rx_get_payload_overlap p s = tk_rx_seq s - tcp_seqno p"
    and "unat (rx_get_payload_overlap p s) < unat (rx_get_paylen p)"
proof -
  show lt: "unat (rx_get_payload_overlap p s) < unat (rx_get_paylen p)"
    using assms(2) by (simp add: rx_is_payload_dup_def word_le_nat_alt)
  show "rx_get_payload_overlap p s = tk_rx_seq s - tcp_seqno p"
  proof (cases "sint (tcp_seqno p - tk_rx_seq s) < 0")
    case True
    then show ?thesis using lt by (auto simp: rx_get_payload_overlap_def Let_def)
  next
    case False
    with assms(1) have "sint (tcp_seqno p - tk_rx_seq s) = 0" by (simp add: rx_is_out_of_order_def)
    then have "tcp_seqno p = tk_rx_seq s" by (metis right_minus_eq signed_0 signed_word_eqI)
    then show ?thesis by (simp add: rx_get_payload_overlap_def Let_def)
  qed
qed

text \<open>The three ways a packet on an established socket ends, with what holds of the socket until then.\<close>

lemma rx_established_cases:
  assumes c: "tcp_wf c" and s: "sock_wf (tc_socks c sid)" and est: "tk_state (tc_socks c sid) = TCP_SOCK_STATE_ESTABLISHED"
    and r: "rx_established ck c sid = Inr (r, c')"
  obtains c2 s3 where "tc_pkt c2 = tc_pkt c" "tc_shm c2 = tc_shm c" "tc_socks c2 = tc_socks c"
    "rx_view s3 = rx_view (tc_socks c sid)"
    "c' = put_sock sid (util_spin_unlock s3) c2 \<or> ack_and_unlock ck c2 sid s3 = Inr (r, c') \<or>
     rx_get_payload_overlap (tc_pkt c) (rx_locked c sid) = tk_rx_seq s3 - tcp_seqno (tc_pkt c) \<and>
     unat (tk_rx_seq s3 - tcp_seqno (tc_pkt c)) < unat (rx_get_paylen (tc_pkt c)) \<and>
     rx_deliver ck c2 sid s3 (ucast (rx_get_hdrlen (tc_pkt c))) (tk_rx_seq s3 - tcp_seqno (tc_pkt c)) (ucast (rx_get_paylen (tc_pkt c)))
       = Inr (r, c')"
proof (cases "is_paylen_valid (tc_len c) (ucast (rx_get_hdrlen (tc_pkt c))) 0")
  case False
  then have "rx_established ck c sid = ack_and_unlock ck c sid (rx_locked c sid)"
    by (simp add: rx_established_def Let_def rx_locked_def util_spin_lock_def)
  then show ?thesis using r that [of c "rx_locked c sid"] by simp
next
  case True
  let ?p = "tc_pkt c" and ?s = "rx_locked c sid"
  have "tk_tx_len (tc_socks c sid) \<noteq> 0" using s est by (auto simp: sock_wf_def sock_ok_defs)
  obtain b s2 where a: "rx_process_ack ck ?p (tc_len c) ?s = (b, s2)" by (rule prod.exhaust)
  have s2: "sock_wf s2" using rx_process_ack_wf [OF _ _ a] s est by simp
  obtain ret q where e: "(if tk_tx_seq ?s = tcp_ackno ?p then (0, tc_eqs c (tk_app_bump_qid s2))
        else rx_enqueue_tx_bump (tc_eqs c (tk_app_bump_qid s2)) s2 b) = (ret, q)" by (rule prod.exhaust)
  have sw: "sched_wf (tc_sched c)" using c by (simp add: tcp_wf_def)
  obtain f sched1 s3 where d: "rx_dupack ck ?p b (tc_sched c) s2 = Some (f, sched1, s3)" "sched_wf sched1" "sock_wf s3"
    using rx_dupack_returns [OF sw s2] by blast
  obtain sched2 where t: "rx_sched_tx ck sched1 s3 (sock_sched_avail ?s) (sock_sched_avail s2) = Some sched2"
    using rx_sched_tx_returns [OF d(2) sock_wf_id [OF d(3)]] by blast
  define c1 where "c1 = c\<lparr>tc_eqs := (tc_eqs c)(tk_app_bump_qid s2 := q)\<rparr>"
  define c2 where "c2 = c1\<lparr>tc_sched := sched2\<rparr>"
  have cc: "tc_pkt c2 = ?p" "tc_shm c2 = tc_shm c" "tc_socks c2 = tc_socks c"
      "tc_pkt c1 = ?p" "tc_shm c1 = tc_shm c" "tc_socks c1 = tc_socks c" by (simp_all add: c1_def c2_def)
  have v2: "rx_view s2 = rx_view (tc_socks c sid)" using rx_process_ack_view [OF a] by simp
  have v3: "rx_view s3 = rx_view (tc_socks c sid)" using rx_dupack_view(1) [OF d(1)] v2 by simp
  note path = rx_established_path [folded rx_locked_def, OF True \<open>tk_tx_len (tc_socks c sid) \<noteq> 0\<close> a e d(1) t,
      folded c1_def, folded c2_def]
  have seq: "tk_rx_seq s3 = tk_rx_seq ?s" using v3 rx_view_frame(3) [of c sid] by (simp add: rx_view_def)
  consider "c' = put_sock sid (util_spin_unlock s2) c1" | "c' = put_sock sid (util_spin_unlock s3) c2"
    | "ack_and_unlock ck c2 sid s3 = Inr (r, c')"
    | "\<not> rx_is_payload_dup ?p ?s" "\<not> rx_is_out_of_order ?p ?s"
      "rx_deliver ck c2 sid s3 (ucast (rx_get_hdrlen ?p)) (rx_get_payload_overlap ?p ?s) (ucast (rx_get_paylen ?p)) = Inr (r, c')"
    using r rx_dupack_view(2) [OF d(1)] unfolding path by (auto split: if_splits)
  then show ?thesis
  proof cases
    case 1
    then show ?thesis by (intro that [of c1 s2]) (simp_all add: cc v2)
  next
    case 4
    then show ?thesis using overlap_exact [OF 4(2,1)] by (intro that [of c2 s3]) (simp_all add: cc v3 seq)
  qed (intro that [of c2 s3]; simp add: cc v3)+
qed

lemma rx_established_step:
  assumes c: "tcp_wf c" and s: "sock_wf (tc_socks c sid)" and est: "tk_state (tc_socks c sid) = TCP_SOCK_STATE_ESTABLISHED"
    and r: "rx_established ck c sid = Inr (r, c')"
  shows "rx_step (tc_pkt c) (tc_shm c) (tc_socks c sid) (tc_shm c') (tc_socks c' sid)"
proof -
  obtain c2 s3 where cc: "tc_pkt c2 = tc_pkt c" "tc_shm c2 = tc_shm c" "tc_socks c2 = tc_socks c"
    and v: "rx_view s3 = rx_view (tc_socks c sid)"
    and alt: "c' = put_sock sid (util_spin_unlock s3) c2 \<or> ack_and_unlock ck c2 sid s3 = Inr (r, c') \<or>
     rx_get_payload_overlap (tc_pkt c) (rx_locked c sid) = tk_rx_seq s3 - tcp_seqno (tc_pkt c) \<and>
     unat (tk_rx_seq s3 - tcp_seqno (tc_pkt c)) < unat (rx_get_paylen (tc_pkt c)) \<and>
     rx_deliver ck c2 sid s3 (ucast (rx_get_hdrlen (tc_pkt c))) (tk_rx_seq s3 - tcp_seqno (tc_pkt c)) (ucast (rx_get_paylen (tc_pkt c)))
       = Inr (r, c')" by (rule rx_established_cases [OF assms])
  have ok: "rx_ok s3" using v s est by (auto simp: rx_view_def sock_wf_def sock_ok_def rx_ok_def)
  from alt consider "c' = put_sock sid (util_spin_unlock s3) c2" | "ack_and_unlock ck c2 sid s3 = Inr (r, c')"
    | "unat (tk_rx_seq s3 - tcp_seqno (tc_pkt c)) < unat (rx_get_paylen (tc_pkt c))"
      "rx_deliver ck c2 sid s3 (ucast (rx_get_hdrlen (tc_pkt c))) (tk_rx_seq s3 - tcp_seqno (tc_pkt c)) (ucast (rx_get_paylen (tc_pkt c)))
       = Inr (r, c')" by blast
  then show ?thesis
  proof cases
    case 3
    have "rx_step (tc_pkt c2) (tc_shm c2) s3 (tc_shm c') (tc_socks c' sid)"
      by (rule rx_deliver_step [OF ok 3(2)]) (simp_all add: cc rx_get_hdrlen_bound rx_get_paylen_bound 3(1))
    then show ?thesis using v rx_view_byte [OF v] unfolding cc rx_step_def rx_view_def by simp
  qed (use v cc ack_and_unlock_frame [of ck c2 sid s3 r c'] in \<open>auto simp: put_sock_def intro!: rx_step_same\<close>)
qed

text \<open>Nothing but the socket itself and the bytes of its receive ring changes.\<close>

lemma rx_established_isolated:
  assumes c: "tcp_wf c" and s: "sock_wf (tc_socks c sid)" and est: "tk_state (tc_socks c sid) = TCP_SOCK_STATE_ESTABLISHED"
    and r: "rx_established ck c sid = Inr (r, c')"
  shows "i \<noteq> sid \<Longrightarrow> tc_socks c' i = tc_socks c i"
    and "a < unat (tk_rx_off (tc_socks c sid)) \<or> unat (tk_rx_off (tc_socks c sid)) + unat (tk_rx_len (tc_socks c sid)) \<le> a \<Longrightarrow>
      tc_shm c' a = tc_shm c a"
proof -
  obtain c2 s3 where cc: "tc_shm c2 = tc_shm c" "tc_socks c2 = tc_socks c"
    and v: "rx_view s3 = rx_view (tc_socks c sid)"
    and alt: "c' = put_sock sid (util_spin_unlock s3) c2 \<or> ack_and_unlock ck c2 sid s3 = Inr (r, c') \<or>
     (\<exists>h o' (n :: u16). rx_deliver ck c2 sid s3 h o' n = Inr (r, c'))" by (rule rx_established_cases [OF assms]) blast
  have ok: "rx_ok s3" and e: "tk_rx_off s3 = tk_rx_off (tc_socks c sid)" "tk_rx_len s3 = tk_rx_len (tc_socks c sid)"
    using v s est by (auto simp: rx_view_def sock_wf_def sock_ok_def rx_ok_def)
  note ack = ack_and_unlock_frame(2,3) [of ck c2 sid s3 r c'] and del = rx_deliver_frame(2,3) [of ck c2 sid s3 _ _ _ r c']
  show "i \<noteq> sid \<Longrightarrow> tc_socks c' i = tc_socks c i"
    using alt ack(2) del(2) cc by (auto simp: put_sock_def)
  assume "a < unat (tk_rx_off (tc_socks c sid)) \<or> unat (tk_rx_off (tc_socks c sid)) + unat (tk_rx_len (tc_socks c sid)) \<le> a"
  then have out: "rx_copy_payload shm s3 p h (rx_get_rx_bump s3 n) a = shm a" for shm p h n
    using rx_copy_payload_outside [OF ok rx_room [OF ok]] e by simp
  show "tc_shm c' a = tc_shm c a"
    using alt ack(1) del(1) cc out by (auto simp: put_sock_def)
qed


section \<open>The send stream\<close>

lemma hdr_cong:
  assumes "\<forall>i < 40. p' i = p i"
  shows "tcp_seqno p' = tcp_seqno p" and "tcp_ackno p' = tcp_ackno p" and "rx_get_hdrlen p' = rx_get_hdrlen p"
    and "rx_get_paylen p' = rx_get_paylen p" and "tcp_wnd p' = tcp_wnd p"
  using assms by (simp_all add: tcp_seqno_def tcp_ackno_def rx_get_hdrlen_def rx_get_paylen_def tcp_wnd_def ip_len_def
      IPH_HL_def TCPH_HDRLEN_def TCPH_RAW_def ld16_def ld32_def)

lemma tx_hdrlen: "tx_get_hdrlen = 52" "unat tx_get_hdrlen = 52" "(ucast tx_get_hdrlen :: u16) = 52"
  by (simp_all add: tx_get_hdrlen_def)

lemma filled_lengths:
  assumes "tx_fill_hdr now p s tx_get_hdrlen b = (p', s')" and "unat b + 52 < 65536"
  shows "rx_get_hdrlen p' = 52" and "unat (rx_get_paylen p') = unat b"
proof -
  note f = tx_fill_hdr_fields [OF assms(1)]
  show "rx_get_hdrlen p' = 52" by (simp add: rx_get_hdrlen_def f Let_def)
  have "unat (52 + b) = 52 + unat b" using assms(2) by (subst unat_add_small_iff) simp_all
  then have t: "unat (ucast (52 + b) :: u16) = 52 + unat b"
    using assms(2) by (simp add: unsigned_ucast_eq take_bit_nat_eq_self)
  then have "unat ((ucast (52 + b) :: u16) - 20) = 32 + unat b" by (subst unat_sub) (simp_all add: word_le_nat_alt)
  then have "unat ((ucast (52 + b) :: u16) - 20 - 32) = unat b" by (subst unat_sub) (simp_all add: word_le_nat_alt)
  then show "unat (rx_get_paylen p') = unat b"
    by (simp add: rx_get_paylen_def f Let_def tx_hdrlen(1))
qed

lemma max_paylen:
  assumes "52 \<le> n" and "n < 65536"
  shows "unat (tx_get_max_paylen n tx_get_hdrlen) = n - 52"
proof -
  have "unat (of_nat n :: u32) = n" using assms(2) by (simp add: unat_of_nat)
  then show ?thesis using assms(1)
    by (simp add: tx_get_max_paylen_def tx_hdrlen(1) Let_def unat_sub word_le_nat_alt word_less_nat_alt)
qed

lemma tx_segment_exact:
  assumes c: "tcp_wf c" and i: "sid < tc_nsocks c" and est: "tk_state (tc_socks c sid) = TCP_SOCK_STATE_ESTABLISHED"
    and len: "52 \<le> tc_len c" "tc_len c < 65536"
  shows "let s = tc_socks c sid; n = min (tc_len c - 52) (unat (sock_sched_avail s))
    in \<exists>c'. tx_segment ck c sid = Inr (52 + int n, c') \<and>
       (\<forall>j < n. tc_pkt c' (52 + j) = tx_byte (tc_shm c) s (unat (tk_tx_pending s) + j)) \<and>
       tcp_seqno (tc_pkt c') = tk_tx_seq s + tk_tx_pending s \<and> rx_get_hdrlen (tc_pkt c') = 52 \<and>
       unat (rx_get_paylen (tc_pkt c')) = n \<and>
       unat (tk_tx_pending (tc_socks c' sid)) = unat (tk_tx_pending s) + n \<and>
       unat (tk_tx_avail (tc_socks c' sid)) = unat (tk_tx_avail s) - n"
proof -
  define s where "s = tc_socks c sid"
  define n where "n = min (tc_len c - 52) (unat (sock_sched_avail s))"
  define s0 where "s0 = util_spin_lock s"
  define b where "b = tx_get_tx_bump s0 (tx_get_max_paylen (tc_len c) tx_get_hdrlen)"
  obtain p s1 where f: "tx_fill_hdr (ck_us_tx ck) (tc_pkt c) s0 tx_get_hdrlen b = (p, s1)" by (rule prod.exhaust)
  have s0: "sock_sched_avail s0 = sock_sched_avail s" "tk_tx_seq s0 = tk_tx_seq s" "tk_tx_pending s0 = tk_tx_pending s"
    "tk_tx_avail s0 = tk_tx_avail s" "tx_byte shm s0 = tx_byte shm s" "tx_ok s0 = tx_ok s" for shm
    by (simp_all add: s0_def util_spin_lock_def sock_sched_avail_def tcp_sock_recovery_avail_def tx_byte_def fun_eq_iff tx_ok_def Let_def)
  have wf: "sock_wf s0" and ok: "tx_ok s0" 
    using tcp_wf_sock [OF c i] est s0(6) by (simp_all add: s0_def s_def) (simp add: sock_wf_def sock_ok_def)
  have b: "unat b = n" using tx_get_tx_bump_min max_paylen [OF len] s0 by (simp add: b_def n_def)
  have s1: "tx_byte shm s1 = tx_byte shm s0" "tx_ok s1" "tk_tx_pending s1 = tk_tx_pending s" "tk_tx_avail s1 = tk_tx_avail s" for shm
    using tx_fill_hdr_frame [OF f] ok s0 by (auto simp: tx_byte_def fun_eq_iff)
  have le: "unat b \<le> unat (tk_tx_avail s1)" using tx_bump_le_avail [of s0] s1 s0 by (simp add: b_def)
  define s3 where "s3 = tx_sock_sched_next (ck_cycles_per_us ck) (tx_sock_tx_bump s1 b) (tx_get_hdrlen + b) (ck_now ck)"
  have s3: "sock_wf s3" using tx_bump_wf [OF _ le] tx_fill_hdr_frame(2) [OF f] wf by (simp add: s3_def)
  obtain sched' where a: "sched_add (tc_sched c) (tk_id s3) (tx_sched_tsc (ck_sched ck) s3) (sock_sched_avail s3) = Some (0, sched')"
    using txs.add_law [OF _ sock_wf_id [OF s3]] c unfolding tcp_wf_def by blast
  define q where "q = tx_copy_payload (tc_shm c) s1 p 52 b"
  have room: "unat (tk_tx_pending s1) + unat b \<le> unat (tk_tx_len s1)" using s1(2) le by (simp add: tx_ok_def)
  have q: "q = (\<lambda>i. if 52 \<le> i \<and> i < 52 + n then tx_byte (tc_shm c) s (unat (tk_tx_pending s) + (i - 52)) else p i)"
    unfolding q_def tx_copy_payload_bytes [OF s1(2) room] s1(1,3) s0(5) b ..
  have nb: "unat b + 52 < 65536" "n \<le> tc_len c - 52" using b len by (simp_all add: n_def)
  have hdr: "tcp_seqno p = tk_tx_seq s + tk_tx_pending s" "rx_get_hdrlen p = 52" "unat (rx_get_paylen p) = n"
    using tx_fill_hdr_fields(9) [OF f] filled_lengths [OF f nb(1)] s0 b by simp_all
  have hq: "tcp_seqno q = tcp_seqno p" "rx_get_hdrlen q = rx_get_hdrlen p" "rx_get_paylen q = rx_get_paylen p"
    using hdr_cong [of q p] by (simp_all add: q)
  have valid: "is_paylen_valid (tc_len c) (ucast tx_get_hdrlen) (ucast b)"
    using nb b len by (simp add: is_paylen_valid_def tx_hdrlen(3) unsigned_ucast_eq take_bit_nat_eq_self)
  have len_n: "uint (tx_get_hdrlen + b) = 52 + int n"
  proof -
    have "unat (tx_get_hdrlen + b) = 52 + n" using nb b by (subst unat_add_small_iff) (simp_all add: tx_hdrlen)
    then show ?thesis by (simp add: uint_nat)
  qed
  have cnt: "unat (tk_tx_pending s3) = unat (tk_tx_pending s) + n" "unat (tk_tx_avail s3) = unat (tk_tx_avail s) - n"
    using tx_bump_ok(2,3) [OF s1(2) le] s1(3,4) b by (simp_all add: s3_def tx_sock_sched_next_def)
  note path = tx_segment_path [OF f [unfolded b_def s0_def s_def] a [unfolded s3_def b_def s0_def s_def],
      folded s_def, folded s0_def, folded b_def, folded s3_def, unfolded tx_hdrlen(2), folded q_def]
  have "\<exists>c'. tx_segment ck c sid = Inr (52 + int n, c') \<and> tc_pkt c' = (if b > 0 then q else p) \<and>
      tc_socks c' sid = util_spin_unlock (if b > 0 then s3 else s1)"
    using path valid len_n by (simp add: put_sock_def)
  moreover have "b > 0 \<longleftrightarrow> n > 0" using b by (simp add: word_less_nat_alt)
  ultimately show ?thesis
    unfolding s_def [symmetric] n_def [symmetric] Let_def
    using hdr hq cnt s1 by (cases "n > 0") (auto simp: q util_spin_unlock_def)
qed

lemma tcp_event_rx_cases:
  assumes "tcp_event_rx ck c = Inr (r, c')"
  obtains (est) sid where "sock_find c = Some sid" "tk_state (tc_socks c sid) = TCP_SOCK_STATE_ESTABLISHED"
      "rx_established ck c sid = Inr (r, c')"
    | (same) "tc_socks c' = tc_socks c" "tc_shm c' = tc_shm c"
proof -
  have punt: "tc_socks c' = tc_socks c \<and> tc_shm c' = tc_shm c" if "rx_punt_ctl c = Inr (r, c')"
    using rx_punt_ctl_result [of c] that by (auto simp: punt_result_def dest!: arg_cong [of _ _ "\<lambda>x. (tc_socks x, tc_shm x)"])
  consider sid where "sock_find c = Some sid" "tk_state (tc_socks c sid) = TCP_SOCK_STATE_ESTABLISHED" "rx_established ck c sid = Inr (r, c')"
    | "c' = c" | "rx_punt_ctl c = Inr (r, c')"
    using assms by (auto simp: tcp_event_rx_def split: if_splits option.splits)
  then show ?thesis by cases (use est same punt in blast)+
qed

section \<open>A small instance\<close>

text \<open>
  One established connection whose send ring wraps around and whose sequence numbers are about to
  wrap, scheduled for transmission, and a packet from its peer that overlaps what was received by
  two bytes.
\<close>

definition demo_sock :: tcp_sock where
  "demo_sock = \<lparr>tk_id = 0, tk_opaque = 7, tk_core = 0, tk_app_bump_qid = 0, tk_local_ip = 1, tk_remote_ip = 2,
     tk_local_port = 80, tk_remote_port = 81, tk_state = TCP_SOCK_STATE_ESTABLISHED, tk_reuport = 0, tk_app_id = 0, tk_ctx_id = 0,
     tk_flags = 0, tk_lock = 0, tk_rx_len = 16, tk_rx_avail = 3, tk_rx_head = 14, tk_rx_off = 0, tk_tx_len = 16, tk_tx_avail = 6,
     tk_tx_head = 13, tk_tx_off = 64, tk_tx_seq = -2, tk_tx_pending = 2, tk_rx_seq = 1000, tk_tx_remote_avail = 100,
     tk_tx_rexmit_seq = 0, tk_tx_rexmit_end_seq = 0, tk_rx_dupack_cnt = 0, tk_cc_acks = 0, tk_cc_ackb = 0, tk_cc_ecnb = 0,
     tk_cc_drops = 0, tk_cc_rate = 0, tk_ts_recent = 5, tk_rtt_est = 0, tk_tx_ready_tsc = 0, tk_recovery_active = 0,
     tk_recovery_end_seq = 0\<rparr>"

definition demo_sched :: cham_scheduler where
  "demo_sched = snd (the (sched_add (sched_init demo_entries) 0 5 6))"

definition demo_eq :: "equeue \<times> tcp_qdata ring" where
  "demo_eq = (\<lparr>eq_tail = 0, eq_nelems = 4, eq_elsize = 32, eq_off = 1024, eq_entries = 0\<rparr>, (\<lambda>_. \<lparr>qs_type = 0, qs_data = TQ_ctl_sig 0\<rparr>))"

definition demo_dq :: "dqueue \<times> bytes ring" where
  "demo_dq = (\<lparr>dq_head = 0, dq_nelems = 4, dq_elsize = 64, dq_off = 2048, dq_entries = 0\<rparr>, (\<lambda>_. \<lparr>qs_type = 0, qs_data = (\<lambda>_. 0)\<rparr>))"

definition peer_sock :: tcp_sock where
  "peer_sock = demo_sock\<lparr>tk_local_ip := 2, tk_remote_ip := 1, tk_local_port := 81, tk_remote_port := 80, tk_tx_seq := 998,
     tk_tx_pending := 0, tk_rx_seq := -1\<rparr>"

definition demo_pkt :: bytes where
  "demo_pkt = fst (tx_fill_hdr 9 of_nat peer_sock tx_get_hdrlen 4)"

definition demo_ctx :: tcp_ctx where
  "demo_ctx = \<lparr>tc_pkt = demo_pkt, tc_len = 60, tc_shm = of_nat, tc_shm_len = 4096, tc_sched = demo_sched, tc_core = 0,
     tc_qe = QE_other 0, tc_qe_off = 0, tc_eqs = (\<lambda>_. demo_eq), tc_dqs = (\<lambda>_. demo_dq), tc_socks = (\<lambda>_. demo_sock), tc_nsocks = 1,
     tc_bkts = (\<lambda>_. [0, -1, -1, -1]), tc_nbkts = 4096,
     tc_cfg = Some \<lparr>cfg_fast_slow_sig_qids = replicate 16 1, cfg_fast_slow_pkt_qids = replicate 16 2, cfg_slow_fast_sig_qid = 3,
       cfg_slow_fast_pkt_qid = 4\<rparr>\<rparr>"

definition demo_clock :: tcp_clock where
  "demo_clock = \<lparr>ck_now = 10, ck_us_rx = 20, ck_remit = 30, ck_us_tx = 40, ck_sched = 50, ck_cycles_per_us = 60\<rparr>"

lemma demo_sock_ok: "sock_ok demo_sock"
  by (simp add: sock_ok_defs demo_sock_def)

lemma demo_sched_ok: "sched_wf demo_sched"
proof -
  have "sched_wf (sched_init demo_entries)" by (rule demo_sched_wf)
  then show ?thesis using txs.add_law [of "sched_init demo_entries" 0 5 6] by (auto simp: demo_sched_def)
qed

lemma demo_wf: "tcp_wf demo_ctx"
  using demo_sched_ok demo_sock_ok by (simp add: tcp_wf_def demo_ctx_def sock_wf_def) (simp add: demo_sock_def)

lemma demo_ring: "tk_rx_off (tc_socks demo_ctx 0) = 0" "tk_rx_len (tc_socks demo_ctx 0) = 16"
  by (simp_all add: demo_ctx_def demo_sock_def)

lemma demo_head: "sched_head demo_sched = Some 0" "se_priority (sc_entries demo_sched 0) = 5" "se_id (sc_entries demo_sched 0) = 0"
  by (simp_all add: demo_sched_def sched_add_def sched_insert_def sched_init_def demo_entries_def entry_clear_def entry_set_def
      upd_entry_def sched_head_def Let_def)

lemma demo_fields:
  "ip_src demo_pkt = 2" "ip_dst demo_pkt = 1" "tcp_src demo_pkt = 81" "tcp_dest demo_pkt = 80" "tcp_seqno demo_pkt = 998"
  "tcp_ackno demo_pkt = -1" "rx_get_hdrlen demo_pkt = 52" "unat (rx_get_paylen demo_pkt) = 4"
proof -
  obtain s' where f: "tx_fill_hdr 9 of_nat peer_sock tx_get_hdrlen 4 = (demo_pkt, s')"
    unfolding demo_pkt_def by (metis prod.collapse)
  show "ip_src demo_pkt = 2" "ip_dst demo_pkt = 1" "tcp_src demo_pkt = 81" "tcp_dest demo_pkt = 80" "tcp_seqno demo_pkt = 998"
    "tcp_ackno demo_pkt = -1"
    by (simp_all add: tx_fill_hdr_fields [OF f] peer_sock_def)
  show "rx_get_hdrlen demo_pkt = 52" "unat (rx_get_paylen demo_pkt) = 4" using filled_lengths [OF f] by simp_all
qed

lemma demo_find: "sock_find demo_ctx = Some 0"
  by (simp add: sock_find_def demo_ctx_def demo_fields Let_def sock_hash_def sock_map_lookup_def flow_matches_def)
    (simp add: demo_sock_def)

section \<open>Properties\<close>

text \<open>
  C19: the fast path is safe for every sequence of events. Starting from a well-formed context and
  through any interleaving of received packets, transmissions and messages whose announced sizes
  are within the rings and whose headers fit a queue slot, every further such event returns
  (no overrun, no division by zero, no endless walk of the scheduler), leaves every socket
  unlocked, every established socket with both rings inside their bounds, and the scheduler well
  formed.
\<close>

theorem tcp_fast_path_safe:
  assumes "tcp_wf c0" and "tcp_reach c0 c" and "event_ok ev c"
  shows "\<exists>r c'. tcp_exec ev c = Inr (r, c') \<and> sched_wf (tc_sched c') \<and>
    (\<forall>sid < tc_nsocks c'. tk_lock (tc_socks c' sid) = 0 \<and>
       (tk_state (tc_socks c' sid) = TCP_SOCK_STATE_ESTABLISHED \<longrightarrow> sock_ok (tc_socks c' sid)))"
proof -
  from tcp_exec_wf [OF tcp_reach_wf [OF assms(2,1)] assms(3)] obtain r c' where "tcp_exec ev c = Inr (r, c')" "tcp_wf c'" by blast
  then show ?thesis by (auto simp: tcp_wf_def sock_wf_def)
qed

theorem tcp_fast_path_safe_witness:
  "\<exists>r c'. tcp_exec (EvRx demo_clock demo_pkt 60) demo_ctx = Inr (r, c') \<and> sched_wf (tc_sched c')"
proof -
  have "event_ok (EvRx demo_clock demo_pkt 60) demo_ctx" by (simp add: demo_fields)
  then show ?thesis using tcp_fast_path_safe [OF demo_wf reach_refl, of "EvRx demo_clock demo_pkt 60"] by blast
qed



text \<open>
  C21: flows are isolated. A received packet changes no socket but the one it is matched to, and no
  byte of the shared memory outside that socket's receive ring; a packet that matches no socket
  changes none of them.
\<close>

theorem tcp_rx_isolated:
  assumes "tcp_wf c" and "tcp_event_rx ck c = Inr (r, c')" and "sock_find c \<noteq> Some i"
    and "\<forall>sid. sock_find c = Some sid \<longrightarrow>
      a < unat (tk_rx_off (tc_socks c sid)) \<or> unat (tk_rx_off (tc_socks c sid)) + unat (tk_rx_len (tc_socks c sid)) \<le> a"
  shows "tc_socks c' i = tc_socks c i \<and> tc_shm c' a = tc_shm c a"
  using assms(2)
proof (cases rule: tcp_event_rx_cases)
  case (est sid)
  note iso = rx_established_isolated [OF assms(1) tcp_wf_sock [OF assms(1) sock_find_bound [OF est(1)]] est(2,3)]
  show ?thesis using iso(1) [of i] iso(2) [of a] assms(3,4) est(1) by auto
qed simp

theorem tcp_rx_isolated_witness:
  "\<exists>r c'. tcp_event_rx demo_clock demo_ctx = Inr (r, c') \<and> tc_socks c' 5 = demo_sock \<and> tc_shm c' 64 = 64"
proof -
  have "unat (rx_get_hdrlen (tc_pkt demo_ctx)) \<le> QE_PKT_ROOM" by (simp add: demo_ctx_def demo_fields)
  then obtain r c' where e: "tcp_event_rx demo_clock demo_ctx = Inr (r, c')" using tcp_event_rx_wf [OF demo_wf] by blast
  have "tc_socks c' 5 = tc_socks demo_ctx 5 \<and> tc_shm c' 64 = tc_shm demo_ctx 64"
    by (rule tcp_rx_isolated [OF demo_wf e]) (simp_all add: demo_find demo_ring)
  then show ?thesis using e by (simp add: demo_ctx_def)
qed

text \<open>
  C22: a transmitted segment carries the right bytes. When the head of the scheduler is due and
  names an established socket, the event returns a segment with as many payload bytes as the
  buffer, the unsent data, the peer's window and recovery allow; the payload is the stretch of the
  socket's send stream that starts at the segment's sequence number, across the wrap-around of the
  ring, the lengths in the headers are those of the segment, and the bytes move from unsent to
  outstanding.
\<close>

theorem tcp_tx_segment_from_stream:
  assumes "tcp_wf c" and "sched_head (tc_sched c) = Some h" and "se_priority (sc_entries (tc_sched c) h) \<le> ck_now ck"
    and "se_id (sc_entries (tc_sched c) h) = sid" and "sid < tc_nsocks c"
    and "tk_state (tc_socks c sid) = TCP_SOCK_STATE_ESTABLISHED" and "52 \<le> tc_len c" and "tc_len c < 65536"
  shows "let s = tc_socks c sid; n = min (tc_len c - 52) (unat (sock_sched_avail s))
    in \<exists>c'. tcp_event_sched ck c = Inr (52 + int n, c') \<and>
       (\<forall>j < n. tc_pkt c' (52 + j) = tx_byte (tc_shm c) s (unat (tk_tx_pending s) + j)) \<and>
       tcp_seqno (tc_pkt c') = tk_tx_seq s + tk_tx_pending s \<and> rx_get_hdrlen (tc_pkt c') = 52 \<and>
       unat (rx_get_paylen (tc_pkt c')) = n \<and>
       unat (tk_tx_pending (tc_socks c' sid)) = unat (tk_tx_pending s) + n \<and>
       unat (tk_tx_avail (tc_socks c' sid)) = unat (tk_tx_avail s) - n"
proof -
  obtain ret sched' where p: "sched_pop (tc_sched c) = (ret, sched')" by (rule prod.exhaust)
  have ret: "ret = 0" using p assms(2) by (auto simp: sched_pop_def sched_head_def Let_def split: if_splits)
  have c1: "tcp_wf (c\<lparr>tc_sched := sched'\<rparr>)"
    using assms(1) sched_pop_wf [of "tc_sched c"] p by (intro tcp_wf_sched) (simp_all add: tcp_wf_def)
  have "tcp_event_sched ck c = tx_segment ck (c\<lparr>tc_sched := sched'\<rparr>) sid"
    using assms p ret by (simp add: tcp_event_sched_def Let_def sock_map_lookup_def is_pktlen_valid_def not_less [symmetric])
  then show ?thesis using tx_segment_exact [OF c1, of sid ck] assms by simp
qed

theorem tcp_tx_segment_from_stream_witness:
  "\<exists>c'. tcp_event_sched demo_clock demo_ctx = Inr (58, c') \<and> tcp_seqno (tc_pkt c') = 0 \<and>
     (\<forall>j < 6. tc_pkt c' (52 + j) = tx_byte of_nat demo_sock (2 + j))"
proof -
  have d: "tc_sched demo_ctx = demo_sched" "tc_socks demo_ctx 0 = demo_sock" "tc_len demo_ctx = 60" "tc_shm demo_ctx = of_nat"
    "ck_now demo_clock = 10" "tc_nsocks demo_ctx = 1"
    by (simp_all add: demo_ctx_def demo_clock_def)
  have s: "tk_state demo_sock = TCP_SOCK_STATE_ESTABLISHED" "unat (sock_sched_avail demo_sock) = 6" "tk_tx_pending demo_sock = 2"
    "tk_tx_seq demo_sock + tk_tx_pending demo_sock = 0"
    by (simp_all add: demo_sock_def sock_sched_avail_def tcp_sock_recovery_avail_def Let_def)
  show ?thesis
    using tcp_tx_segment_from_stream [of demo_ctx 0 demo_clock 0] demo_wf demo_head s unfolding d Let_def by auto
qed

text \<open>
  C23: headers survive the wire. A receiver that parses the header \<^verbatim>\<open>tx_fill_hdr\<close> wrote sees an IPv4
  TCP packet that is not a control packet, with the ACK flag, a header of 52 bytes, the payload
  length, the addresses, ports, sequence and acknowledgement numbers of the sender's socket, its
  free receive space as the window, the ECN echo exactly when the socket has one to send, and the
  timestamps.
\<close>

theorem tcp_header_roundtrip:
  assumes "tx_fill_hdr now p s tx_get_hdrlen n = (p', s')" and "unat n + 52 < 65536"
  shows "rx_is_ip p' \<and> \<not> rx_is_flags_ctl p' \<and> rx_is_ack p' \<and> rx_get_hdrlen p' = 52 \<and> unat (rx_get_paylen p') = unat n \<and>
    ip_src p' = tk_local_ip s \<and> ip_dst p' = tk_remote_ip s \<and> tcp_src p' = tk_local_port s \<and> tcp_dest p' = tk_remote_port s \<and>
    tcp_seqno p' = tk_tx_seq s + tk_tx_pending s \<and> tcp_ackno p' = tk_rx_seq s \<and>
    tcp_wnd p' = ucast (tk_rx_len s - tk_rx_avail s) \<and>
    (TCPH_FLAGS p' AND TAS_TCP_ECE \<noteq> 0 \<longleftrightarrow> tk_flags s AND TCP_SOCK_FLAG_SEND_ECE \<noteq> 0) \<and>
    rx_read_ts p' (52 + unat n) = Some (now, tk_ts_recent s)"
proof -
  note f = tx_fill_hdr_fields [OF assms(1)]
  have fl: "\<not> rx_is_flags_ctl p'" "rx_is_ack p'"
    "TCPH_FLAGS p' AND TAS_TCP_ECE \<noteq> 0 \<longleftrightarrow> tk_flags s AND TCP_SOCK_FLAG_SEND_ECE \<noteq> 0"
    by (simp_all add: rx_is_flags_ctl_def rx_is_ack_def f tx_hdr_flags_def Let_def)
  show ?thesis using fl filled_lengths [OF assms] by (simp add: rx_is_ip_def f)
qed

theorem tcp_header_roundtrip_witness:
  "rx_is_ip demo_pkt \<and> tcp_seqno demo_pkt = 998 \<and> unat (rx_get_paylen demo_pkt) = 4 \<and> rx_read_ts demo_pkt 56 = Some (9, 5)"
proof -
  obtain s' where f: "tx_fill_hdr 9 of_nat peer_sock tx_get_hdrlen 4 = (demo_pkt, s')"
    unfolding demo_pkt_def by (metis prod.collapse)
  show ?thesis using tcp_header_roundtrip [OF f] by (simp add: peer_sock_def demo_sock_def)
qed

text \<open>
  C24: acknowledgements slide the window and nothing else. An acknowledgement number counts exactly
  when it is at most the bytes of the send ring ahead of the oldest unacknowledged one, also when
  the numbers wrap around; then the window moves by that distance, every byte keeps its sequence
  number, and the ring invariant is kept; otherwise nothing moves.
\<close>

theorem tcp_ack_slides_window:
  fixes ackno :: u32 and ece :: bool
  assumes "tx_ok s"
  defines "b \<equiv> rx_get_ack_bump s ackno"
  defines "s' \<equiv> rx_sock_bump_ack ece s b"
  shows "unat b = (if unat (ackno - tk_tx_seq s) \<le> unat (tk_tx_pending s) + unat (tk_tx_avail s) then unat (ackno - tk_tx_seq s) else 0) \<and>
    tk_tx_seq s' = tk_tx_seq s + b \<and> (b \<noteq> 0 \<longrightarrow> tk_tx_seq s' = ackno) \<and> tx_ok s' \<and>
    unat (tk_tx_pending s') = unat (tk_tx_pending s) - unat b \<and>
    unat (tk_tx_pending s') + unat (tk_tx_avail s') = unat (tk_tx_pending s) + unat (tk_tx_avail s) - unat b \<and>
    (\<forall>k. tx_byte shm s' k = tx_byte shm s (unat b + k))"
proof -
  have sum: "unat (tk_tx_pending s) + unat (tk_tx_avail s) < 2 ^ 32" using assms(1) by (rule tx_ok_sum)
  have le: "unat b \<le> unat (tk_tx_pending s) + unat (tk_tx_avail s)" using ack_bump_le [OF sum] by (simp add: b_def)
  have b: "b = (if unat (ackno - tk_tx_seq s) \<le> unat (tk_tx_pending s) + unat (tk_tx_avail s) then ackno - tk_tx_seq s else 0)"
    unfolding b_def rx_get_ack_bump_def rx_is_ack_valid_iff [OF sum] ..
  show ?thesis
    using b le bump_ack_counts [OF le, of ece] bump_ack_ok [OF assms(1) le] tx_byte_ack [OF assms(1) le]
    by (auto simp: s'_def)
qed

theorem tcp_ack_slides_window_witness:
  "tk_tx_seq (rx_sock_bump_ack False demo_sock (rx_get_ack_bump demo_sock 1)) = 1 \<and>
   unat (tk_tx_pending (rx_sock_bump_ack False demo_sock (rx_get_ack_bump demo_sock 1))) = 0"
proof -
  have "tx_ok demo_sock" using demo_sock_ok by (simp add: sock_ok_def)
  moreover have "rx_get_ack_bump demo_sock 1 = 3"
    by (simp add: rx_get_ack_bump_def rx_is_ack_valid_def demo_sock_def Let_def)
  moreover have "tk_tx_pending demo_sock = 2" by (simp add: demo_sock_def)
  ultimately show ?thesis using tcp_ack_slides_window [of demo_sock 1 False] by simp
qed

text \<open>
  The two computations of the send window agree. The transmit path computes the size of the
  next segment in 64-bit signed arithmetic, the scheduler the sendable bytes in 32-bit unsigned
  arithmetic with an early exit; for every socket, consistent or not, the segment is the smaller
  of the room in the packet and what the scheduler computes, which is the least of the unsent
  bytes, what is left of the peer's window, and what recovery permits.
\<close>

theorem tcp_window_equivalence:
  "unat (tx_get_tx_bump s m) = min (unat m) (unat (sock_sched_avail s)) \<and>
   unat (sock_sched_avail s) = min (min (unat (tk_tx_avail s)) (unat (tk_tx_remote_avail s) - unat (tk_tx_pending s)))
     (unat (tcp_sock_recovery_avail s))"
  using tx_get_tx_bump_min [of s m] sock_sched_avail_min [of s] by simp

text \<open>
  C25: a retransmission loses and duplicates nothing. On a well-formed scheduler it always returns;
  all outstanding bytes become unsent again with their sequence numbers unchanged, the socket is
  in recovery up to the end of the original flight, and it is scheduled exactly once, now, for what
  its window allows.
\<close>

theorem tcp_remit_restarts:
  assumes "sched_wf sched" and "sched_id_valid (tk_id s)" and "tx_ok s"
  shows "\<exists>sched' s'. remit now sched s = Some (sched', s') \<and> sched_wf sched' \<and> tx_ok s' \<and>
    tk_tx_pending s' = 0 \<and> unat (tk_tx_avail s') = unat (tk_tx_pending s) + unat (tk_tx_avail s) \<and>
    tk_tx_seq s' = tk_tx_seq s \<and> (\<forall>k. tx_byte shm s' k = tx_byte shm s k) \<and> tk_recovery_active s' \<noteq> 0 \<and>
    (tk_recovery_active s = 0 \<longrightarrow> tk_recovery_end_seq s' = tk_tx_seq s + tk_tx_pending s) \<and>
    sched_contents sched' = ainsert (tk_id s, now, sock_sched_avail s') (aremove (tk_id s) (sched_contents sched))"
proof -
  obtain sched' where r: "remit now sched s = Some (sched', sock_rewind s)" "sched_wf sched'"
    "sched_contents sched' = aadd (tk_id s) now (sock_sched_avail (sock_rewind s)) (aremove (tk_id s) (sched_contents sched))"
    using remit_returns [OF assms(1,2)] by blast
  have "find (\<lambda>y. it_id y = i) (aremove i xs) = None" for i xs by (auto simp: find_None_iff aremove_def)
  then have c: "sched_contents sched' = ainsert (tk_id s, now, sock_sched_avail (sock_rewind s)) (aremove (tk_id s) (sched_contents sched))"
    using r(3) by (simp add: aadd_def)
  have "tk_recovery_active (sock_rewind s) \<noteq> 0"
    "tk_recovery_active s = 0 \<longrightarrow> tk_recovery_end_seq (sock_rewind s) = tk_tx_seq s + tk_tx_pending s"
    by (simp_all add: sock_rewind_def tcp_sock_recovery_enter_def Let_def)
  then show ?thesis using r(1,2) c tx_ok_rewind [OF assms(3)] by (auto simp: tx_byte_def)
qed

theorem tcp_remit_restarts_witness:
  "\<exists>sched' s'. remit 30 demo_sched demo_sock = Some (sched', s') \<and> unat (tk_tx_avail s') = 8 \<and> tk_tx_pending s' = 0"
proof -
  have d: "sched_id_valid (tk_id demo_sock)" "tx_ok demo_sock" "tk_tx_pending demo_sock = 2" "tk_tx_avail demo_sock = 6"
    using demo_sock_ok by (simp_all add: sock_ok_def) (simp_all add: demo_sock_def)
  show ?thesis using tcp_remit_restarts [OF demo_sched_ok d(1,2), of 30 of_nat] d(3,4) by auto
qed

text \<open>
  a control packet with long headers overruns the queue to the slow path. The handler checks the
  header length against the packet but not against the slot: with both queues free, a packet whose
  IP and TCP headers take more than 63 bytes (a SYN with 24 bytes of TCP options has 64) is copied
  past the end of its slot, over the next entry.
\<close>

theorem tcp_punt_overruns_slot:
  assumes "is_pktlen_valid (tc_len c)" and "rx_is_ip (tc_pkt c)" and "rx_is_flags_ctl (tc_pkt c)"
    and "tc_cfg c = Some cfg" and "unat (tc_core c) < MAX_FP_CORES"
    and "\<forall>q. queue_tail (fst (tc_eqs c q)) (snd (tc_eqs c q)) \<noteq> None"
    and "unat (rx_get_hdrlen (tc_pkt c)) \<le> tc_len c" and "unat (rx_get_hdrlen (tc_pkt c)) > QE_PKT_ROOM"
  shows "tcp_event_rx ck c = Inl SlotOverflow"
proof -
  have "is_paylen_valid (tc_len c) (ucast (rx_get_hdrlen (tc_pkt c))) 0"
    using assms(7) by (simp add: is_paylen_valid_def rx_get_hdrlen_bound)
  then show ?thesis using assms by (simp add: tcp_event_rx_def rx_punt_ctl_def Let_def)
qed

theorem tcp_punt_overruns_slot_witness:
  "\<exists>c. tc_len c = 64 \<and> tcp_event_rx demo_clock c = Inl SlotOverflow"
proof -
  define p where "p = st16 32 (bswap16 (push_bit 12 11 OR TAS_TCP_SYN)) (st8 9 6 (st8 0 0x45 (\<lambda>_. 0)))"
  define c where "c = demo_ctx\<lparr>tc_pkt := p, tc_len := 64\<rparr>"
  have p: "rx_is_ip p" "rx_is_flags_ctl p" "unat (rx_get_hdrlen p) = 64"
    by (simp_all add: p_def rx_is_ip_def IPH_V_def IPH_HL_def ip_proto_def rx_is_flags_ctl_def TCPH_FLAGS_def TCPH_RAW_def
        rx_get_hdrlen_def TCPH_HDRLEN_def Let_def field_simps_chm)
  have "tcp_event_rx demo_clock c = Inl SlotOverflow"
    by (rule tcp_punt_overruns_slot)
      (simp_all add: c_def p is_pktlen_valid_def, simp_all add: demo_ctx_def demo_eq_def queue_tail_def)
  then show ?thesis by (intro exI [of _ c]) (simp add: c_def)
qed

text \<open>
  Received data is lost to the application when its queue is full. The payload is copied into
  the ring and the expected sequence number advances before the bump is enqueued; with a full bump
  queue the handler returns -1 with the socket advanced, no acknowledgement and no bump, and the
  bytes will be taken for duplicates when the peer sends them again.
\<close>

theorem tcp_rx_bump_lost:
  fixes paylen :: u16 and overlap :: u32 and s :: tcp_sock
  defines "b \<equiv> rx_get_rx_bump s (ucast (paylen - ucast overlap))"
  assumes "b > 0" and "queue_tail (fst (tc_eqs c (tk_app_bump_qid s))) (snd (tc_eqs c (tk_app_bump_qid s))) = None"
  shows "\<exists>c'. rx_deliver ck c sid s hdrlen overlap paylen = Inr (-1, c') \<and> tk_rx_seq (tc_socks c' sid) = tk_rx_seq s + b \<and>
    tk_rx_avail (tc_socks c' sid) = tk_rx_avail s + b \<and> tc_eqs c' = tc_eqs c \<and> tc_pkt c' = tc_pkt c"
proof -
  have q: "tk_app_bump_qid (rx_sock_bump_rx s b) = tk_app_bump_qid s" by (simp add: rx_sock_bump_rx_def)
  have "rx_enqueue_rx_bump (tc_eqs c (tk_app_bump_qid s)) (rx_sock_bump_rx s b) b (tcp_src (tc_pkt c)) (ip_src (tc_pkt c)) =
      (-1, tc_eqs c (tk_app_bump_qid s))"
    using assms(3) by (simp add: rx_enqueue_rx_bump_def queue_put_def)
  then show ?thesis
    using assms(2) unfolding rx_deliver_def Let_def b_def [symmetric] q
    by (simp add: put_sock_def rx_sock_bump_rx_def util_spin_unlock_def)
qed

theorem tcp_rx_bump_lost_witness:
  "\<exists>c c'. rx_deliver demo_clock c 0 demo_sock 52 2 4 = Inr (-1, c') \<and> tk_rx_seq (tc_socks c' 0) = 1002 \<and> tc_eqs c' = tc_eqs c"
proof -
  define c where "c = demo_ctx\<lparr>tc_eqs := (\<lambda>_. (fst demo_eq, \<lambda>_. \<lparr>qs_type = 1, qs_data = TQ_ctl_sig 0\<rparr>))\<rparr>"
  have b: "rx_get_rx_bump demo_sock (ucast ((4 :: u16) - ucast (2 :: u32))) = 2" "tk_rx_seq demo_sock = 1000"
    by (simp_all add: rx_get_rx_bump_def demo_sock_def)
  have "queue_tail (fst (tc_eqs c q)) (snd (tc_eqs c q)) = None" for q by (simp add: c_def queue_tail_def demo_eq_def)
  then show ?thesis
    using tcp_rx_bump_lost [of demo_sock 4 2 c demo_clock 0 52] unfolding b by auto
qed

text \<open>
  a packet without the ACK flag still releases send-ring space to the application. The bump for
  the application is computed from the acknowledgement number whether or not the flag is set, while
  the socket advances only if it is: after such a packet, the application is told that bytes were
  acknowledged which the socket still holds as unacknowledged and may have to retransmit.
\<close>

theorem tcp_ackless_bump:
  assumes "tcp_wf c" and "sid < tc_nsocks c" and "tk_state (tc_socks c sid) = TCP_SOCK_STATE_ESTABLISHED"
    and "is_paylen_valid (tc_len c) (ucast (rx_get_hdrlen (tc_pkt c))) 0"
    and "\<not> rx_is_ack (tc_pkt c)" and "rx_is_ack_only (tc_pkt c)"
  defines "s \<equiv> tc_socks c sid" and "q \<equiv> tc_eqs c (tk_app_bump_qid (tc_socks c sid))"
  assumes "tcp_ackno (tc_pkt c) \<noteq> tk_tx_seq s"
    and "unat (tcp_ackno (tc_pkt c) - tk_tx_seq s) \<le> unat (tk_tx_pending s) + unat (tk_tx_avail s)"
    and "queue_tail (fst q) (snd q) = Some t"
  shows "\<exists>c'. rx_established ck c sid = Inr (0, c') \<and> tk_tx_seq (tc_socks c' sid) = tk_tx_seq s \<and>
    tk_tx_pending (tc_socks c' sid) = tk_tx_pending s \<and>
    snd (tc_eqs c' (tk_app_bump_qid s)) t = \<lparr>qs_type = TCP_QUEUE_BUMP_APP_TX,
      qs_data = TQ_bump_app_tx \<lparr>bat_opaque = tk_opaque s, bat_tx_head = tcp_ackno (tc_pkt c) - tk_tx_seq s\<rparr>\<rparr>"
proof -
  let ?p = "tc_pkt c" and ?l = "rx_locked c sid"
  have wf: "sock_wf (tc_socks c sid)" using tcp_wf_sock [OF assms(1,2)] .
  have ok: "tx_ok s" using wf assms(3) by (simp add: s_def sock_wf_def sock_ok_def)
  have len: "tk_tx_len (tc_socks c sid) \<noteq> 0" using ok by (auto simp: tx_ok_def s_def)
  obtain b s2 where a: "rx_process_ack ck ?p (tc_len c) ?l = (b, s2)" by (rule prod.exhaust)
  have b: "b = tcp_ackno ?p - tk_tx_seq s" and s2: "tk_tx_seq s2 = tk_tx_seq s" "tk_tx_pending s2 = tk_tx_pending s" "tk_opaque s2 = tk_opaque s"
    "tk_app_bump_qid s2 = tk_app_bump_qid s" "tk_id s2 = tk_id s"
    using a assms(5,10) rx_is_ack_valid_iff [OF tx_ok_sum [OF ok], of "tk_tx_seq s" "tcp_ackno ?p"]
    by (auto simp: rx_process_ack_def Let_def rx_get_ack_bump_def rx_locked_def util_spin_lock_def s_def split: if_splits)
  have t: "t = eq_tail (fst q)" "qs_type (snd q (eq_tail (fst q))) = QUEUE_EMPTY"
    using assms(11) by (auto simp: queue_tail_def split: if_splits)
  obtain q' where e: "(if tk_tx_seq ?l = tcp_ackno ?p then (0, tc_eqs c (tk_app_bump_qid s2))
        else rx_enqueue_tx_bump (tc_eqs c (tk_app_bump_qid s2)) s2 b) = (0, q')"
    and q': "snd q' t = \<lparr>qs_type = TCP_QUEUE_BUMP_APP_TX, qs_data = TQ_bump_app_tx \<lparr>bat_opaque = tk_opaque s, bat_tx_head = b\<rparr>\<rparr>"
    using assms(9) t s2 unfolding s_def q_def
    by (simp add: rx_enqueue_tx_bump_def queue_put_cases rx_locked_def util_spin_lock_def)
  have d: "rx_dupack ck ?p b (tc_sched c) s2 = Some (False, tc_sched c, s2)" using assms(5) by (simp add: rx_dupack_def)
  obtain sched2 where st: "rx_sched_tx ck (tc_sched c) s2 (sock_sched_avail ?l) (sock_sched_avail s2) = Some sched2"
    using rx_sched_tx_returns [of "tc_sched c" s2 ck] assms(1) sock_wf_id [OF wf] s2(5) unfolding tcp_wf_def s_def by metis
  show ?thesis
    unfolding rx_established_path [folded rx_locked_def, OF assms(4) len a e d st]
    using assms(6) s2 q' b by (simp add: put_sock_def util_spin_unlock_def)
qed

theorem tcp_ackless_bump_witness:
  "\<exists>c c'. \<not> rx_is_ack (tc_pkt c) \<and> rx_established demo_clock c 0 = Inr (0, c') \<and> tk_tx_seq (tc_socks c' 0) = -2 \<and>
     qs_data (snd (tc_eqs c' 0) 0) = TQ_bump_app_tx \<lparr>bat_opaque = 7, bat_tx_head = 1\<rparr>"
proof -
  obtain p0 s' where f: "tx_fill_hdr 9 of_nat peer_sock tx_get_hdrlen 0 = (p0, s')" by (rule prod.exhaust)
  define p where "p = TCPH_HDRLEN_FLAGS_SET 8 TAS_TCP_PSH p0"
  define c where "c = demo_ctx\<lparr>tc_pkt := p\<rparr>"
  have raw: "TCPH_RAW p = push_bit 12 8 OR TAS_TCP_PSH"
    by (simp add: p_def TCPH_HDRLEN_FLAGS_SET_def TCPH_RAW_def field_simps_chm)
  have k: "tcp_ackno p = -1" "IPH_HL p = 5" "ip_len p = 52"
    using tx_fill_hdr_fields [OF f] by (simp_all add: p_def TCPH_HDRLEN_FLAGS_SET_def tcp_ackno_def IPH_HL_def ip_len_def
        field_simps_chm peer_sock_def tx_get_hdrlen_def)
  have p: "\<not> rx_is_ack p" "rx_is_ack_only p" "rx_get_hdrlen p = 52"
    by (simp_all add: rx_is_ack_def TCPH_FLAGS_def rx_is_ack_only_def rx_get_paylen_def rx_get_hdrlen_def TCPH_HDRLEN_def raw k Let_def)
  have cc: "tc_pkt c = p" "tc_len c = 60" "tc_socks c 0 = demo_sock" "tc_nsocks c = 1" "tc_eqs c 0 = demo_eq"
    by (simp_all add: c_def demo_ctx_def)
  have s: "tk_state demo_sock = TCP_SOCK_STATE_ESTABLISHED" "tk_app_bump_qid demo_sock = 0" "tk_tx_seq demo_sock = -2"
    "tk_tx_pending demo_sock = 2" "tk_tx_avail demo_sock = 6" "tk_opaque demo_sock = 7" by (simp_all add: demo_sock_def)
  have q: "queue_tail (fst demo_eq) (snd demo_eq) = Some 0" by (simp add: demo_eq_def queue_tail_def)
  have w: "tcp_wf c" using demo_wf by (simp add: c_def)
  have "\<exists>c'. rx_established demo_clock c 0 = Inr (0, c') \<and> tk_tx_seq (tc_socks c' 0) = tk_tx_seq (tc_socks c 0) \<and>
      tk_tx_pending (tc_socks c' 0) = tk_tx_pending (tc_socks c 0) \<and>
      snd (tc_eqs c' (tk_app_bump_qid (tc_socks c 0))) 0 = \<lparr>qs_type = TCP_QUEUE_BUMP_APP_TX,
        qs_data = TQ_bump_app_tx \<lparr>bat_opaque = tk_opaque (tc_socks c 0), bat_tx_head = tcp_ackno (tc_pkt c) - tk_tx_seq (tc_socks c 0)\<rparr>\<rparr>"
    by (rule tcp_ackless_bump [OF w]) (simp_all add: cc s p k q is_paylen_valid_def)
  then obtain c' where "rx_established demo_clock c 0 = Inr (0, c')" "tk_tx_seq (tc_socks c' 0) = -2"
      "qs_data (snd (tc_eqs c' 0) 0) = TQ_bump_app_tx \<lparr>bat_opaque = 7, bat_tx_head = 1\<rparr>"
    unfolding cc s k by auto
  then show ?thesis using p(1) cc(1) by metis
qed

text \<open>
  The size of an application's receive bump is not checked. A bump for more bytes than the
  socket has unread, though no larger than its ring, makes the count of unread bytes wrap around:
  it exceeds the ring, so that the advertised window and the room for payloads are wrong from then
  on.
\<close>

theorem tcp_rx_bump_unchecked:
  assumes "is_qe_valid c" and "tc_qe c = QE_bump_cham_rx m" and "bcr_sock_id m = sid" and "sid < tc_nsocks c"
    and "rx_ok (tc_socks c sid)" and "unat (tk_rx_avail (tc_socks c sid)) < unat (bcr_rx_head m)"
    and "unat (bcr_rx_head m) \<le> unat (tk_rx_len (tc_socks c sid))"
  shows "\<exists>r c'. tcp_event_deq ck c = Inr (r, c') \<and> unat (tk_rx_avail (tc_socks c' sid)) > unat (tk_rx_len (tc_socks c' sid))"
proof -
  define s1 where "s1 = deq_sock_bump_rx (util_spin_lock (tc_socks c sid)) (bcr_rx_head m)"
  have "unat (tk_rx_avail s1) > unat (tk_rx_len s1)"
    using assms(5-7) unat_diff_32 [of "tk_rx_avail (tc_socks c sid)" "bcr_rx_head m"]
    by (simp add: s1_def deq_sock_bump_rx_def util_spin_lock_def Let_def rx_ok_def) linarith
  moreover have "tcp_event_deq ck c = (if tk_rx_len (tc_socks c sid) = tk_rx_avail (tc_socks c sid) then ack_and_unlock ck c sid s1
      else Inr (0, put_sock sid (util_spin_unlock s1) c))"
    using assms(1-4) by (simp add: tcp_event_deq_def deq_handle_bump_rx_def Let_def sock_map_lookup_def s1_def is_qe_valid_def
        is_qe_bump_valid_def util_spin_lock_def not_less [symmetric])
  moreover obtain r c' where "ack_and_unlock ck c sid s1 = Inr (r, c')"
    unfolding ack_and_unlock_def by (cases "tx_fill_ack ck c s1") auto
  moreover from this have "rx_view (tc_socks c' sid) = rx_view s1" by (rule ack_and_unlock_frame)
  ultimately show ?thesis by (auto simp: rx_view_def put_sock_def util_spin_unlock_def)
qed

theorem tcp_rx_bump_unchecked_witness:
  "\<exists>r c'. tcp_event_deq demo_clock (demo_ctx\<lparr>tc_qe := QE_bump_cham_rx \<lparr>bcr_sock_id = 0, bcr_rx_head = 5\<rparr>\<rparr>) = Inr (r, c') \<and>
     unat (tk_rx_avail (tc_socks c' 0)) > unat (tk_rx_len (tc_socks c' 0))"
  by (rule tcp_rx_bump_unchecked [of _ "\<lparr>bcr_sock_id = 0, bcr_rx_head = 5\<rparr>"])
    (simp_all add: is_qe_valid_def demo_ctx_def demo_sock_def rx_ok_def)

end
