(* ===== verification/Tcp_Ebpf.thy ===== *)
theory Tcp_Ebpf
  imports Tcp_Props
begin

unbundle bit_operations_syntax

text \<open>
  The eBPF build of the TCP fast path (\<^verbatim>\<open>protos/tcp/fast/tcp_fast.ebpf.c\<close>). It is the native code with
  helper calls for queues, maps, clock and scheduler; the two places where its control flow differs
  are translated here: after \<^verbatim>\<open>sched_add\<close> the native handlers return on an error, the eBPF ones go on.
\<close>

section \<open>The handlers\<close>

definition ebpf_tx_segment :: "tcp_clock \<Rightarrow> tcp_ctx \<Rightarrow> u32 \<Rightarrow> tcp_result" where
  "ebpf_tx_segment ck c sid =
     (let s0 = util_spin_lock (tc_socks c sid);
          hdrlen = tx_get_hdrlen;
          max_paylen = tx_get_max_paylen (tc_len c) hdrlen;
          tx_bump = tx_get_tx_bump s0 max_paylen
      in if \<not> is_paylen_valid (tc_len c) (ucast hdrlen) (ucast tx_bump)
         then Inr (-1, put_sock sid (util_spin_unlock s0) c)
         else (case tx_fill_hdr (ck_us_tx ck) (tc_pkt c) s0 hdrlen tx_bump of (p, s1) \<Rightarrow>
           if tx_bump > 0
           then let p' = tx_copy_payload (tc_shm c) s1 p (unat hdrlen) tx_bump;
                    s2 = tx_sock_tx_bump s1 tx_bump;
                    s3 = tx_sock_sched_next (ck_cycles_per_us ck) s2 (hdrlen + tx_bump) (ck_now ck);
                    avail = sock_sched_avail s3
                in (case (if avail > 0 then sched_add (tc_sched c) (tk_id s3) (tx_sched_tsc (ck_sched ck) s3) avail else Some (0, tc_sched c)) of
                      None \<Rightarrow> Inl SchedLoop
                    | Some (_, sched') \<Rightarrow>
                        Inr (uint (hdrlen + tx_bump), put_sock sid (util_spin_unlock s3) (c\<lparr>tc_pkt := p', tc_sched := sched'\<rparr>)))
           else Inr (uint (hdrlen + tx_bump), put_sock sid (util_spin_unlock s1) (c\<lparr>tc_pkt := p\<rparr>))))"

definition ebpf_event_sched :: "tcp_clock \<Rightarrow> tcp_ctx \<Rightarrow> tcp_result" where
  "ebpf_event_sched ck c =
     (case sched_head (tc_sched c) of None \<Rightarrow> Inr (0, c)
      | Some h \<Rightarrow>
        let e = sc_entries (tc_sched c) h
        in if se_priority e > ck_now ck then Inr (0, c)
           else (case sched_pop (tc_sched c) of (ret, sched') \<Rightarrow>
             let c1 = c\<lparr>tc_sched := sched'\<rparr>
             in if ret \<noteq> 0 then Inr (-1, c1)
                else (case sock_map_lookup c (se_id e) of None \<Rightarrow> Inr (-1, c1)
                      | Some sid \<Rightarrow>
                          if \<not> is_pktlen_valid (tc_len c) then Inr (-1, c1) else ebpf_tx_segment ck c1 sid)))"

definition ebpf_handle_bump_tx :: "tcp_clock \<Rightarrow> tcp_ctx \<Rightarrow> tcp_queue_bump_cham_tx \<Rightarrow> tcp_result" where
  "ebpf_handle_bump_tx ck c bump =
     (if \<not> is_qe_bump_valid c then Inr (-1, c)
      else case sock_map_lookup c (bct_sock_id bump) of None \<Rightarrow> Inr (-1, c)
      | Some sid \<Rightarrow>
        let s0 = util_spin_lock (tc_socks c sid);
            s1 = deq_sock_bump_tx s0 (bct_tx_ip bump) (bct_tx_port bump) (bct_tx_avail bump);
            s2 = util_spin_unlock s1;
            c1 = put_sock sid s2 c
        in (case sched_add (tc_sched c1) (tk_id s2) (tx_sched_tsc (ck_sched ck) s2) (bct_tx_avail bump) of None \<Rightarrow> Inl SchedLoop
            | Some (_, sched') \<Rightarrow> Inr (0, c1\<lparr>tc_sched := sched'\<rparr>)))"

definition ebpf_event_deq :: "tcp_clock \<Rightarrow> tcp_ctx \<Rightarrow> tcp_result" where
  "ebpf_event_deq ck c =
     (if \<not> is_qe_valid c then Inr (-1, c)
      else case tc_qe c of
        QE_bump_cham_tx bump \<Rightarrow> ebpf_handle_bump_tx ck c bump
      | QE_bump_cham_rx bump \<Rightarrow> deq_handle_bump_rx ck c bump
      | QE_ctl_tx \<Rightarrow> deq_handle_ctl_tx ck c
      | QE_tx_retransmit cmd \<Rightarrow> deq_handle_retransmit ck c cmd
      | QE_other ty \<Rightarrow> Inr (-1, c))"

fun ebpf_exec :: "tcp_event \<Rightarrow> tcp_ctx \<Rightarrow> tcp_result" where
  "ebpf_exec (EvRx ck p n) c = tcp_event_rx ck (tcp_load (EvRx ck p n) c)"
| "ebpf_exec (EvSched ck p n) c = ebpf_event_sched ck (tcp_load (EvSched ck p n) c)"
| "ebpf_exec (EvDeq ck qe o' p n) c = ebpf_event_deq ck (tcp_load (EvDeq ck qe o' p n) c)"

section \<open>Agreement\<close>

text \<open>Wherever the scheduler accepts the socket, the two builds do the same.\<close>

lemma ebpf_tx_segment_eq:
  assumes "\<And>ret sched' s. sched_add (tc_sched c) (tk_id (tc_socks c sid)) (tx_sched_tsc (ck_sched ck) s) (sock_sched_avail s) = Some (ret, sched') \<Longrightarrow> 0 \<le> ret"
  shows "ebpf_tx_segment ck c sid = tx_segment ck c sid"
proof -
  define s0 where "s0 = util_spin_lock (tc_socks c sid)"
  define b where "b = tx_get_tx_bump s0 (tx_get_max_paylen (tc_len c) tx_get_hdrlen)"
  obtain p s1 where f: "tx_fill_hdr (ck_us_tx ck) (tc_pkt c) s0 tx_get_hdrlen b = (p, s1)" by (rule prod.exhaust)
  define s3 where "s3 = tx_sock_sched_next (ck_cycles_per_us ck) (tx_sock_tx_bump s1 b) (tx_get_hdrlen + b) (ck_now ck)"
  have "tk_id s3 = tk_id (tc_socks c sid)" using tx_fill_hdr_frame(3) [OF f] by (simp add: s3_def s0_def)
  then have a: "0 \<le> ret" if "sched_add (tc_sched c) (tk_id s3) (tx_sched_tsc (ck_sched ck) s3) (sock_sched_avail s3) = Some (ret, sched')" for ret sched'
    using assms that by metis
  show ?thesis
    unfolding ebpf_tx_segment_def tx_segment_def Let_def s0_def [symmetric] b_def [symmetric] f prod.case s3_def [symmetric]
    using a by (auto split: option.split)
qed

lemma sched_accepts:
  assumes "tcp_wf c" "sock_wf (tc_socks c sid)" "sched_add (tc_sched c) (tk_id (tc_socks c sid)) p a = Some (ret, sched')"
  shows "ret = 0"
proof -
  have "sched_wf (tc_sched c)" using assms(1) by (simp add: tcp_wf_def)
  from txs.add_law [OF this sock_wf_id [OF assms(2)], of p a] show ?thesis using assms(3) by auto
qed

lemma ebpf_tx_segment_wf:
  assumes "tcp_wf c" "sock_wf (tc_socks c sid)"
  shows "ebpf_tx_segment ck c sid = tx_segment ck c sid"
  by (rule ebpf_tx_segment_eq) (use sched_accepts [OF assms] in auto)

lemma ebpf_event_sched_eq:
  assumes "tcp_wf c"
  shows "ebpf_event_sched ck c = tcp_event_sched ck c"
proof -
  obtain ret sched' where p: "sched_pop (tc_sched c) = (ret, sched')" by (rule prod.exhaust)
  have c1: "tcp_wf (c\<lparr>tc_sched := sched'\<rparr>)"
    using assms sched_pop_wf [of "tc_sched c"] p by (intro tcp_wf_sched) (simp_all add: tcp_wf_def)
  have t: "ebpf_tx_segment ck (c\<lparr>tc_sched := sched'\<rparr>) sid = tx_segment ck (c\<lparr>tc_sched := sched'\<rparr>) sid" if "sock_map_lookup c i = Some sid" for i sid
    using that ebpf_tx_segment_wf [OF c1, of sid] tcp_wf_sock [OF c1, of sid] by (auto simp: sock_map_lookup_def split: if_splits)
  show ?thesis using t by (simp add: ebpf_event_sched_def tcp_event_sched_def p Let_def split: option.split)
qed

lemma ebpf_handle_bump_tx_eq:
  assumes "tcp_wf c" "tc_qe c = QE_bump_cham_tx m"
  shows "ebpf_handle_bump_tx ck c m = deq_handle_bump_tx ck c m"
proof (cases "sock_map_lookup c (bct_sock_id m)")
  case (Some sid)
  have "sock_wf (tc_socks c sid)" using tcp_wf_sock [OF assms(1)] Some by (simp add: sock_map_lookup_Some)
  from sched_accepts [OF assms(1) this] have "\<not> ret < 0" if "sched_add (tc_sched c) (tk_id (tc_socks c sid)) p a = Some (ret, sched')" for p a ret sched'
    using that by blast
  moreover have "tk_id (deq_sock_bump_tx s ip port n) = tk_id s" for s ip port n by (simp add: deq_sock_bump_tx_def)
  ultimately show ?thesis using Some by (auto simp: ebpf_handle_bump_tx_def deq_handle_bump_tx_def Let_def put_sock_def split: option.split)
qed (simp add: ebpf_handle_bump_tx_def deq_handle_bump_tx_def)



section \<open>Outside the invariant\<close>

text \<open>
  If the scheduler refused a socket, the native transmission handler would return with the socket's
  lock held; the eBPF build releases it.
\<close>

lemma tx_segment_keeps_lock:
  fixes ck c sid
  defines "s0 \<equiv> util_spin_lock (tc_socks c sid)"
  defines "b \<equiv> tx_get_tx_bump s0 (tx_get_max_paylen (tc_len c) tx_get_hdrlen)"
  assumes fill: "tx_fill_hdr (ck_us_tx ck) (tc_pkt c) s0 tx_get_hdrlen b = (p, s1)"
  defines "s3 \<equiv> tx_sock_sched_next (ck_cycles_per_us ck) (tx_sock_tx_bump s1 b) (tx_get_hdrlen + b) (ck_now ck)"
  assumes "is_paylen_valid (tc_len c) (ucast tx_get_hdrlen) (ucast b)" "b > 0" "sock_sched_avail s3 > 0"
    and add: "sched_add (tc_sched c) (tk_id s3) (tx_sched_tsc (ck_sched ck) s3) (sock_sched_avail s3) = Some (-1, sched')"
  shows "\<exists>c'. tx_segment ck c sid = Inr (-1, c') \<and> tk_lock (tc_socks c' sid) = 1"
    "\<exists>r c'. ebpf_tx_segment ck c sid = Inr (r, c') \<and> tk_lock (tc_socks c' sid) = 0"
proof -
  have "tk_lock s3 = tk_lock s1" by (simp add: s3_def tx_sock_sched_next_def tx_sock_tx_bump_def)
  moreover have "tk_lock s1 = tk_lock s0" using tx_fill_hdr_frame(1) [OF fill] by auto
  ultimately have "tk_lock s3 = 1" by (simp add: s0_def util_spin_lock_def)
  then show "\<exists>c'. tx_segment ck c sid = Inr (-1, c') \<and> tk_lock (tc_socks c' sid) = 1"
    unfolding tx_segment_def Let_def s0_def [symmetric] b_def [symmetric] fill prod.case s3_def [symmetric] add option.case
    using assms(5-7) by (simp add: put_sock_def)
  show "\<exists>r c'. ebpf_tx_segment ck c sid = Inr (r, c') \<and> tk_lock (tc_socks c' sid) = 0"
    unfolding ebpf_tx_segment_def Let_def s0_def [symmetric] b_def [symmetric] fill prod.case s3_def [symmetric] add option.case
    using assms(5-7) add by (simp add: put_sock_def util_spin_unlock_def)
qed

end
