(* ===== verification/Tcp_Slow_State.thy ===== *)
theory Tcp_Slow_State
  imports Queue_Msgs Tomgr Tcp_Pkt Tcp_Fast
begin

unbundle bit_operations_syntax

text \<open>
  The state of the TCP slow path (\<^verbatim>\<open>protos/tcp/slow/state\<close>, with the timers and the congestion-control
  reset it uses): sockets with their slow-path metadata, the flow table read by the fast path, bound
  and listening ports, listeners with their ring of ready children, control packets for the fast
  path, and the responses to applications. A pointer to a socket is its index in the socket map, a
  pointer to an application context the pair of its indices.
\<close>

section \<open>Data\<close>

abbreviation TCP_SOCK_STATE_INIT :: u8 where "TCP_SOCK_STATE_INIT \<equiv> 1"
abbreviation TCP_SOCK_STATE_LISTEN :: u8 where "TCP_SOCK_STATE_LISTEN \<equiv> 2"
abbreviation TCP_SOCK_STATE_SYN_SENT :: u8 where "TCP_SOCK_STATE_SYN_SENT \<equiv> 3"
abbreviation TCP_SOCK_STATE_SYN_RECV :: u8 where "TCP_SOCK_STATE_SYN_RECV \<equiv> 4"
abbreviation TCP_SOCK_STATE_ACCEPT_PENDING :: u8 where "TCP_SOCK_STATE_ACCEPT_PENDING \<equiv> 5"
abbreviation TCP_SOCK_STATE_FIN_WAIT1 :: u8 where "TCP_SOCK_STATE_FIN_WAIT1 \<equiv> 7"
abbreviation TCP_SOCK_FLAG_SHUT_RD :: u8 where "TCP_SOCK_FLAG_SHUT_RD \<equiv> 0x1"
abbreviation TCP_SOCK_FLAG_SHUT_WR :: u8 where "TCP_SOCK_FLAG_SHUT_WR \<equiv> 0x2"
abbreviation TAS_TCP_CWR :: u16 where "TAS_TCP_CWR \<equiv> 0x80"

abbreviation MIN_PORT :: nat where "MIN_PORT \<equiv> 1002"
abbreviation MAX_PORT :: nat where "MAX_PORT \<equiv> 65534"
abbreviation MAX_SOCKETS :: u32 where "MAX_SOCKETS \<equiv> 65534"
abbreviation MAX_REUSOCK_PORT :: u32 where "MAX_REUSOCK_PORT \<equiv> 8"

abbreviation TCP_QUEUE_NEW_SOCK_REQ :: u8 where "TCP_QUEUE_NEW_SOCK_REQ \<equiv> 3"
abbreviation TCP_QUEUE_NEW_SOCK_RES :: u8 where "TCP_QUEUE_NEW_SOCK_RES \<equiv> 4"
abbreviation TCP_QUEUE_SETOPT_REQ :: u8 where "TCP_QUEUE_SETOPT_REQ \<equiv> 5"
abbreviation TCP_QUEUE_SETOPT_RES :: u8 where "TCP_QUEUE_SETOPT_RES \<equiv> 6"
abbreviation TCP_QUEUE_BIND_REQ :: u8 where "TCP_QUEUE_BIND_REQ \<equiv> 7"
abbreviation TCP_QUEUE_BIND_RES :: u8 where "TCP_QUEUE_BIND_RES \<equiv> 8"
abbreviation TCP_QUEUE_CONNECT_REQ :: u8 where "TCP_QUEUE_CONNECT_REQ \<equiv> 9"
abbreviation TCP_QUEUE_CONNECT_RES :: u8 where "TCP_QUEUE_CONNECT_RES \<equiv> 10"
abbreviation TCP_QUEUE_LISTEN_REQ :: u8 where "TCP_QUEUE_LISTEN_REQ \<equiv> 11"
abbreviation TCP_QUEUE_LISTEN_RES :: u8 where "TCP_QUEUE_LISTEN_RES \<equiv> 12"
abbreviation TCP_QUEUE_LISTEN_NEWCONN :: u8 where "TCP_QUEUE_LISTEN_NEWCONN \<equiv> 13"
abbreviation TCP_QUEUE_ACCEPT_REQ :: u8 where "TCP_QUEUE_ACCEPT_REQ \<equiv> 14"
abbreviation TCP_QUEUE_ACCEPT_RES :: u8 where "TCP_QUEUE_ACCEPT_RES \<equiv> 15"
abbreviation TCP_QUEUE_SHUTDOWN_REQ :: u8 where "TCP_QUEUE_SHUTDOWN_REQ \<equiv> 16"
abbreviation TCP_QUEUE_CLOSE_REQ :: u8 where "TCP_QUEUE_CLOSE_REQ \<equiv> 17"
abbreviation TCP_QUEUE_CTL_TX :: u8 where "TCP_QUEUE_CTL_TX \<equiv> 20"
abbreviation TCP_QUEUE_CTL_TX_PKT :: u8 where "TCP_QUEUE_CTL_TX_PKT \<equiv> 21"
abbreviation TCP_QUEUE_TX_RETRANSMIT :: u8 where "TCP_QUEUE_TX_RETRANSMIT \<equiv> 22"

text \<open>The kinds of retransmission and the timer type of \<^verbatim>\<open>tcp_internal.h\<close>.\<close>

abbreviation TCP_TO_RETX :: u8 where "TCP_TO_RETX \<equiv> 1"
abbreviation TCP_RETX_NONE :: u8 where "TCP_RETX_NONE \<equiv> 0"
abbreviation TCP_RETX_SYN :: u8 where "TCP_RETX_SYN \<equiv> 1"
abbreviation TCP_RETX_SYNACK :: u8 where "TCP_RETX_SYNACK \<equiv> 2"
abbreviation TCP_RETX_FIN :: u8 where "TCP_RETX_FIN \<equiv> 3"
abbreviation TCP_RETX_RETRIES :: u8 where "TCP_RETX_RETRIES \<equiv> 3"

record tcp_port =
  tp_nsocks :: u32
  tp_next_sock :: u32
  tp_sids :: "u32 list"

record tcp_listener_slow =
  ls_active :: u8
  ls_sock_id :: u32
  ls_backlog_len :: u32
  ls_backlog_used :: u32
  ls_ready_head :: u32
  ls_ready_used :: u32
  ls_ready_sids :: "u32 list option"

text \<open>The timer is the index of its entry in the timeout manager.\<close>

record tcp_sock_meta_slow =
  mt_listener_id :: u32
  mt_auto_bound :: u8
  mt_timer :: "nat option"
  mt_retx_kind :: u8
  mt_retx_left :: u8
  mt_cc_tsc :: u64
  mt_cc_rtt :: u32
  mt_cc_last_drops :: u32
  mt_cc_last_acks :: u32
  mt_cc_last_ackb :: u32
  mt_cc_last_ecnb :: u32
  mt_cc_rexmits :: u32
  mt_cnt_tx_pending :: u32
  mt_ts_tx_pending :: u64
  mt_dctcp_unproc_acks :: u32
  mt_dctcp_unproc_ackb :: u32
  mt_dctcp_unproc_ecnb :: u32
  mt_dctcp_unproc_drops :: u32
  mt_dctcp_ecn_rate :: u32
  mt_dctcp_act_rate :: u32
  mt_dctcp_slowstart :: u8

abbreviation TCP_CC_ALGO_CONST_RATE :: u32 where "TCP_CC_ALGO_CONST_RATE \<equiv> 0"
abbreviation TCP_CC_ALGO_DCTCP_RATE :: u32 where "TCP_CC_ALGO_DCTCP_RATE \<equiv> 1"

record tcp_configuration =
  cf_rxbuf_sz :: u32
  cf_txbuf_sz :: u32
  cf_cc_rtt_init :: u32
  cf_cc_algorithm :: u32
  cf_cc_control_granularity :: u32
  cf_cc_control_interval :: u32
  cf_cc_remit_ints :: u32
  cf_cc_dctcp_weight :: u32
  cf_cc_dctcp_init :: u32
  cf_cc_dctcp_step :: u32
  cf_cc_dctcp_mimd :: u32
  cf_cc_dctcp_min :: u32
  cf_cc_dctcp_minpkts :: u32
  cf_cc_const_rate :: u32

subsection \<open>Messages of an application\<close>

record tcp_queue_new_sock_res =
  nsr_sock_id :: u32
  nsr_opaque :: u64
  nsr_core :: u16
  nsr_rx_qid :: u16
  nsr_rx_len :: u32
  nsr_rx_off :: u64
  nsr_tx_qid :: u16
  nsr_tx_len :: u32
  nsr_tx_off :: u64

record tcp_queue_bind_req =
  bq_sock_id :: u32
  bq_local_port :: u16
  bq_local_ip :: u32
  bq_opaque :: u64

record tcp_queue_bind_res =
  bs_success :: u8
  bs_opaque :: u64

record tcp_queue_setopt_req =
  sq_opt :: u8
  sq_sock_id :: u32
  sq_opaque :: u64

record tcp_queue_setopt_res =
  ss_success :: u8
  ss_opaque :: u64

record tcp_queue_connect_req =
  cq_sock_id :: u32
  cq_remote_ip :: u32
  cq_remote_port :: u16
  cq_opaque :: u64

record tcp_queue_connect_res =
  cs_status :: int
  cs_opaque :: u64
  cs_core :: u16
  cs_local_ip :: u32
  cs_local_port :: u16
  cs_remote_ip :: u32
  cs_remote_port :: u16

record tcp_queue_listen_req =
  lq_sock_id :: u32
  lq_backlog :: u32
  lq_opaque :: u64

record tcp_queue_listen_res =
  lr_status :: int
  lr_opaque :: u64

record tcp_queue_listen_newconn =
  ln_opaque :: u64
  ln_remote_ip :: u32
  ln_remote_port :: u16

record tcp_queue_accept_req =
  aq_sock_id :: u32
  aq_opaque :: u64

record tcp_queue_accept_res =
  as_status :: int
  as_opaque :: u64
  as_listen_opaque :: u64
  as_sock_id :: u32
  as_core :: u16
  as_rx_qid :: u16
  as_rx_len :: u32
  as_rx_off :: u64
  as_tx_qid :: u16
  as_tx_len :: u32
  as_tx_off :: u64
  as_local_ip :: u32
  as_local_port :: u16
  as_remote_ip :: u32
  as_remote_port :: u16

record tcp_queue_shutdown_req =
  hq_sock_id :: u32
  hq_how :: u8
  hq_opaque :: u64

record tcp_queue_close_req =
  xq_sock_id :: u32
  xq_opaque :: u64

text \<open>The union of \<^verbatim>\<open>struct tcp_queue_entry\<close>; a new-socket request carries only its opaque value.\<close>

datatype tcp_app_data =
    A_raw
  | A_new_sock_req u64
  | A_new_sock_res tcp_queue_new_sock_res
  | A_bind_req tcp_queue_bind_req
  | A_bind_res tcp_queue_bind_res
  | A_setopt_req tcp_queue_setopt_req
  | A_setopt_res tcp_queue_setopt_res
  | A_connect_req tcp_queue_connect_req
  | A_connect_res tcp_queue_connect_res
  | A_listen_req tcp_queue_listen_req
  | A_listen_res tcp_queue_listen_res
  | A_listen_newconn tcp_queue_listen_newconn
  | A_accept_req tcp_queue_accept_req
  | A_accept_res tcp_queue_accept_res
  | A_shutdown_req tcp_queue_shutdown_req
  | A_close_req tcp_queue_close_req

text \<open>The union of \<^verbatim>\<open>struct tcp_queue_ctl_entry\<close> on the queue to the fast path.\<close>

datatype tcp_sig_data =
    TS_ctl_sig u8
  | TS_ctl_remit tcp_queue_ctl_remit

subsection \<open>Applications and the context\<close>

text \<open>\<^verbatim>\<open>app_bump_qs\<close> is kept as the queue ids by core: the slow path reads nothing else of them.\<close>

record tcp_app_context_slow =
  ax_id :: u8
  ax_app_slow_q :: "dqueue \<times> tcp_app_data ring"
  ax_slow_app_q :: "equeue \<times> tcp_app_data ring"
  ax_app_bump_qs :: "u16 \<Rightarrow> u16"

record tcp_app_slow =
  ap_id :: u8
  ap_n_ctxs :: u8
  ap_next_ctx :: u8
  ap_ctxs :: "u8 \<Rightarrow> tcp_app_context_slow"

text \<open>
  The context. \<open>sl_oob\<close> is not a field of the code: it becomes true when an array of the heap is
  accessed outside its bounds, which the lemmas then exclude or exhibit.
\<close>

record tcp_slow_context =
  sl_config :: tcp_configuration
  sl_n_socks :: u32
  sl_local_ip :: u32
  sl_n_fp_cores :: u32
  sl_n_apps :: u8
  sl_next_app :: u8
  sl_next_core :: u8
  sl_apps :: "u8 \<Rightarrow> tcp_app_slow"
  sl_fast_sig_qs :: "u8 \<Rightarrow> dqueue \<times> tcp_qdata ring"
  sl_fast_pkt_qs :: "u8 \<Rightarrow> dqueue \<times> tcp_qdata ring"
  sl_sig_q :: "equeue \<times> tcp_sig_data ring"
  sl_pkt_q :: "equeue \<times> bytes ring"
  sl_tomgr :: tomgr
  sl_socks :: "u32 \<Rightarrow> tcp_sock"
  sl_ports :: "u16 \<Rightarrow> tcp_port"
  sl_flows :: "u32 \<Rightarrow> u32 list"
  sl_listeners :: "u32 \<Rightarrow> tcp_listener_slow"
  sl_meta :: "u32 \<Rightarrow> tcp_sock_meta_slow"
  sl_bound :: "u16 \<Rightarrow> tcp_port"
  sl_cc_poll_tsc :: u64
  sl_cc_next_sock :: u32
  sl_stats_acks_rx :: u64
  sl_stats_drops :: u64
  sl_stats_retx :: u64
  sl_oob :: bool

text \<open>
  What a handler reads from outside: the time-stamp counter, \<^verbatim>\<open>clock_tsc_after_us(TCP_RETX_US)\<close>, the
  clock in microseconds, \<^verbatim>\<open>clock_us_since_tsc\<close>, the buffers granted by \<^verbatim>\<open>cham_new_queue\<close> (receive,
  then transmit) and whether \<^verbatim>\<open>calloc\<close> succeeds.
\<close>

record slow_env =
  ev_now :: u64
  ev_retx :: u64
  ev_us :: u32
  ev_since :: "u64 \<Rightarrow> u64"
  ev_rxq :: "proto_queue_lib option"
  ev_txq :: "proto_queue_lib option"
  ev_calloc :: bool

type_synonym actx = "u8 \<times> u8"

definition upd_sock :: "u32 \<Rightarrow> (tcp_sock \<Rightarrow> tcp_sock) \<Rightarrow> tcp_slow_context \<Rightarrow> tcp_slow_context" where
  "upd_sock sid f c = c\<lparr>sl_socks := (sl_socks c)(sid := f (sl_socks c sid))\<rparr>"

definition upd_meta :: "u32 \<Rightarrow> (tcp_sock_meta_slow \<Rightarrow> tcp_sock_meta_slow) \<Rightarrow> tcp_slow_context \<Rightarrow> tcp_slow_context" where
  "upd_meta sid f c = c\<lparr>sl_meta := (sl_meta c)(sid := f (sl_meta c sid))\<rparr>"

definition upd_listener :: "u32 \<Rightarrow> (tcp_listener_slow \<Rightarrow> tcp_listener_slow) \<Rightarrow> tcp_slow_context \<Rightarrow> tcp_slow_context" where
  "upd_listener lid f c = c\<lparr>sl_listeners := (sl_listeners c)(lid := f (sl_listeners c lid))\<rparr>"

definition tcp_sock_meta :: "tcp_slow_context \<Rightarrow> u32 \<Rightarrow> tcp_sock_meta_slow" where
  "tcp_sock_meta c sid = sl_meta c (tk_id (sl_socks c sid))"

definition upd_sock_meta :: "u32 \<Rightarrow> (tcp_sock_meta_slow \<Rightarrow> tcp_sock_meta_slow) \<Rightarrow> tcp_slow_context \<Rightarrow> tcp_slow_context" where
  "upd_sock_meta sid f c = upd_meta (tk_id (sl_socks c sid)) f c"

definition tcp_sock_actx :: "tcp_slow_context \<Rightarrow> u32 \<Rightarrow> actx" where
  "tcp_sock_actx c sid = (tk_app_id (sl_socks c sid), tk_ctx_id (sl_socks c sid))"

definition get_actx :: "tcp_slow_context \<Rightarrow> actx \<Rightarrow> tcp_app_context_slow" where
  "get_actx c a = ap_ctxs (sl_apps c (fst a)) (snd a)"

definition upd_actx :: "actx \<Rightarrow> (tcp_app_context_slow \<Rightarrow> tcp_app_context_slow) \<Rightarrow> tcp_slow_context \<Rightarrow> tcp_slow_context" where
  "upd_actx a f c = c\<lparr>sl_apps := (sl_apps c)(fst a :=
     (sl_apps c (fst a))\<lparr>ap_ctxs := (ap_ctxs (sl_apps c (fst a)))(snd a := f (get_actx c a))\<rparr>)\<rparr>"

end
