(* ===== verification/Tcp_Slow_Tables.thy ===== *)
theory Tcp_Slow_Tables
  imports Tcp_Slow_State
begin

unbundle bit_operations_syntax

text \<open>
  The lookup tables of the TCP slow path: flow buckets (\<^verbatim>\<open>tcp_flow.c\<close>), bound ports
  (\<^verbatim>\<open>tcp_sock_state.c\<close>) and listeners with their ring of ready children (\<^verbatim>\<open>tcp_listener.c\<close>).
\<close>

section \<open>Flows\<close>

definition flow_hash :: "u32 \<Rightarrow> u16 \<Rightarrow> u32 \<Rightarrow> u16 \<Rightarrow> u32" where
  "flow_hash local_ip local_port remote_ip remote_port =
     (let hash = local_ip XOR remote_ip XOR push_bit 16 (ucast local_port) XOR ucast remote_port
      in hash XOR drop_bit 16 hash)"

definition sock_bucket :: "tcp_sock \<Rightarrow> u32" where
  "sock_bucket s = flow_hash (tk_local_ip s) (tk_local_port s) (tk_remote_ip s) (tk_remote_port s) mod TCP_FLOW_BUCKETS"

text \<open>The loops over the slots of a bucket: the first free slot is taken, the first slot of the socket freed.\<close>

fun bucket_put :: "u32 \<Rightarrow> u32 list \<Rightarrow> u32 list option" where
  "bucket_put sid [] = None"
| "bucket_put sid (x # xs) = (if x \<noteq> ID_INVALID then map_option ((#) x) (bucket_put sid xs) else Some (sid # xs))"

fun bucket_del :: "u32 \<Rightarrow> u32 list \<Rightarrow> u32 list" where
  "bucket_del sid [] = []"
| "bucket_del sid (x # xs) = (if x \<noteq> sid then x # bucket_del sid xs else ID_INVALID # xs)"

definition tcp_flow_insert :: "tcp_slow_context \<Rightarrow> u32 \<Rightarrow> int \<times> tcp_slow_context" where
  "tcp_flow_insert c sid =
     (let s = sl_socks c sid; hash = sock_bucket s
      in case bucket_put (tk_id s) (sl_flows c hash) of None \<Rightarrow> (-1, c)
         | Some b \<Rightarrow> (0, c\<lparr>sl_flows := (sl_flows c)(hash := b)\<rparr>))"

definition tcp_flow_remove :: "tcp_slow_context \<Rightarrow> u32 \<Rightarrow> tcp_slow_context" where
  "tcp_flow_remove c sid =
     (let s = sl_socks c sid; hash = sock_bucket s
      in c\<lparr>sl_flows := (sl_flows c)(hash := bucket_del (tk_id s) (sl_flows c hash))\<rparr>)"

fun bucket_find :: "tcp_slow_context \<Rightarrow> u32 \<Rightarrow> u16 \<Rightarrow> u32 \<Rightarrow> u16 \<Rightarrow> u32 list \<Rightarrow> u32 option" where
  "bucket_find c lip lport rip rport [] = None"
| "bucket_find c lip lport rip rport (sid # sids) =
     (if sid = ID_INVALID then bucket_find c lip lport rip rport sids
      else if tk_state (sl_socks c sid) = TCP_SOCK_STATE_CLOSED then bucket_find c lip lport rip rport sids
      else if tk_local_ip (sl_socks c sid) = lip \<and> tk_local_port (sl_socks c sid) = lport \<and>
              tk_remote_ip (sl_socks c sid) = rip \<and> tk_remote_port (sl_socks c sid) = rport then Some sid
      else bucket_find c lip lport rip rport sids)"

definition tcp_flow_lookup :: "tcp_slow_context \<Rightarrow> u32 \<Rightarrow> u16 \<Rightarrow> u32 \<Rightarrow> u16 \<Rightarrow> u32 option" where
  "tcp_flow_lookup c local_ip local_port remote_ip remote_port =
     bucket_find c local_ip local_port remote_ip remote_port
       (sl_flows c (flow_hash local_ip local_port remote_ip remote_port mod TCP_FLOW_BUCKETS))"

section \<open>Ports\<close>

text \<open>The common body of \<^verbatim>\<open>tcp_bound_insert\<close> and \<^verbatim>\<open>tcp_listener_insert\<close>, and of the two removals.\<close>

definition port_insert :: "(u32 \<Rightarrow> tcp_sock) \<Rightarrow> u32 \<Rightarrow> bool \<Rightarrow> tcp_port \<Rightarrow> int \<times> tcp_port" where
  "port_insert socks sock_id reuseport e =
     (if tp_nsocks e = 0
      then (0, e\<lparr>tp_sids := (tp_sids e)[0 := sock_id], tp_nsocks := 1, tp_next_sock := 0\<rparr>)
      else if \<not> reuseport \<or> tp_nsocks e \<ge> MAX_REUSOCK_PORT then (- EADDRINUSE, e)
      else if list_ex (\<lambda>sid. tk_reuport (socks sid) = 0) (take (unat (tp_nsocks e)) (tp_sids e)) then (- EADDRINUSE, e)
      else (0, e\<lparr>tp_sids := (tp_sids e)[unat (tp_nsocks e) := sock_id], tp_nsocks := tp_nsocks e + 1\<rparr>))"

definition port_remove :: "u32 \<Rightarrow> tcp_port \<Rightarrow> tcp_port" where
  "port_remove sock_id e =
     (let n = unat (tp_nsocks e); used = take n (tp_sids e)
      in if sock_id \<in> set used
         then let e1 = e\<lparr>tp_sids := remove1 sock_id used @ ID_INVALID # drop n (tp_sids e), tp_nsocks := tp_nsocks e - 1\<rparr>
              in if tp_next_sock e1 \<ge> tp_nsocks e1 then e1\<lparr>tp_next_sock := 0\<rparr> else e1
         else e)"

definition tcp_bound_insert :: "tcp_slow_context \<Rightarrow> u16 \<Rightarrow> u32 \<Rightarrow> bool \<Rightarrow> int \<times> tcp_slow_context" where
  "tcp_bound_insert c port sock_id reuseport =
     (case port_insert (sl_socks c) sock_id reuseport (sl_bound c port) of (ret, e) \<Rightarrow>
        (ret, c\<lparr>sl_bound := (sl_bound c)(port := e)\<rparr>))"

definition tcp_bound_remove :: "tcp_slow_context \<Rightarrow> u16 \<Rightarrow> u32 \<Rightarrow> tcp_slow_context" where
  "tcp_bound_remove c port sock_id =
     (if port = 0 \<or> unat port > MAX_PORT then c
      else c\<lparr>sl_bound := (sl_bound c)(port := port_remove sock_id (sl_bound c port))\<rparr>)"

definition tcp_bound_find_free :: "tcp_slow_context \<Rightarrow> u16" where
  "tcp_bound_find_free c =
     (case List.find (\<lambda>port. tp_nsocks (sl_bound c (of_nat port)) = 0) [MIN_PORT ..< MAX_PORT + 1] of
        None \<Rightarrow> 0 | Some port \<Rightarrow> of_nat port)"

section \<open>Listeners\<close>

definition tcp_listener_insert :: "tcp_slow_context \<Rightarrow> u16 \<Rightarrow> u32 \<Rightarrow> bool \<Rightarrow> int \<times> tcp_slow_context" where
  "tcp_listener_insert c port sock_id reuseport =
     (case port_insert (sl_socks c) sock_id reuseport (sl_ports c port) of (ret, e) \<Rightarrow>
        (ret, c\<lparr>sl_ports := (sl_ports c)(port := e)\<rparr>))"

definition tcp_listener_remove :: "tcp_slow_context \<Rightarrow> u16 \<Rightarrow> u32 \<Rightarrow> tcp_slow_context" where
  "tcp_listener_remove c port sock_id =
     (if port = 0 \<or> unat port > MAX_PORT then c
      else c\<lparr>sl_ports := (sl_ports c)(port := port_remove sock_id (sl_ports c port))\<rparr>)"

definition listener_accepts :: "tcp_slow_context \<Rightarrow> u32 \<Rightarrow> u32 \<Rightarrow> bool" where
  "listener_accepts c local_ip sid \<longleftrightarrow>
     sid \<noteq> ID_INVALID \<and> tk_state (sl_socks c sid) = TCP_SOCK_STATE_LISTEN \<and>
     (tk_local_ip (sl_socks c sid) = 0 \<or> tk_local_ip (sl_socks c sid) = local_ip)"

text \<open>The search starts at \<^verbatim>\<open>next_sock\<close> and goes round once.\<close>

definition tcp_listener_lookup :: "tcp_slow_context \<Rightarrow> u32 \<Rightarrow> u16 \<Rightarrow> u32 \<times> tcp_slow_context" where
  "tcp_listener_lookup c local_ip port =
     (let e = sl_ports c port; n = tp_nsocks e
      in if port = 0 \<or> unat port > MAX_PORT then (ID_INVALID, c)
         else if n = 0 then (ID_INVALID, c)
         else (case List.find (\<lambda>idx. listener_accepts c local_ip (tp_sids e ! unat idx))
                      (map (\<lambda>i. (tp_next_sock e + of_nat i) mod n) [0 ..< unat n]) of
                 None \<Rightarrow> (ID_INVALID, c)
               | Some idx \<Rightarrow> (tp_sids e ! unat idx,
                   c\<lparr>sl_ports := (sl_ports c)(port := e\<lparr>tp_next_sock := (idx + 1) mod n\<rparr>)\<rparr>)))"

definition tcp_listener_zero :: tcp_listener_slow where
  "tcp_listener_zero = \<lparr>ls_active = 0, ls_sock_id = 0, ls_backlog_len = 0, ls_backlog_used = 0, ls_ready_head = 0,
     ls_ready_used = 0, ls_ready_sids = None\<rparr>"

definition tcp_listener_reset :: "tcp_slow_context \<Rightarrow> u32 \<Rightarrow> tcp_slow_context" where
  "tcp_listener_reset c listener_id = upd_listener listener_id (\<lambda>_. tcp_listener_zero) c"

definition listener_backlog_put :: "tcp_listener_slow \<Rightarrow> tcp_listener_slow" where
  "listener_backlog_put l = (if ls_backlog_used l > 0 then l\<lparr>ls_backlog_used := ls_backlog_used l - 1\<rparr> else l)"

text \<open>
  The search for a child in the ready array runs over \<^verbatim>\<open>backlog_len\<close> positions; the second result
  tells whether it leaves the allocated array.
\<close>

definition ready_clear :: "u32 \<Rightarrow> tcp_listener_slow \<Rightarrow> tcp_listener_slow \<times> bool" where
  "ready_clear sock_id l =
     (case ls_ready_sids l of
        None \<Rightarrow> (l, False)
      | Some r \<Rightarrow>
          (case List.find (\<lambda>i. i < length r \<and> r ! i = sock_id) [0 ..< unat (ls_backlog_len l)] of
             None \<Rightarrow> (l, unat (ls_backlog_len l) > length r)
           | Some i \<Rightarrow> (l\<lparr>ls_ready_sids := Some (r[i := ID_INVALID])\<rparr>, False)))"

definition tcp_listener_detach_child :: "tcp_slow_context \<Rightarrow> u32 \<Rightarrow> tcp_slow_context" where
  "tcp_listener_detach_child c sid =
     (let listener_id = mt_listener_id (tcp_sock_meta c sid); l = sl_listeners c listener_id
      in if listener_id = ID_INVALID then c
         else case (if ls_active l \<noteq> 0 then ready_clear (tk_id (sl_socks c sid)) l else (l, False)) of (l1, bad) \<Rightarrow>
           upd_sock_meta sid (\<lambda>m. m\<lparr>mt_listener_id := ID_INVALID\<rparr>)
             (upd_listener listener_id (\<lambda>_. listener_backlog_put l1) (c\<lparr>sl_oob := sl_oob c \<or> bad\<rparr>)))"

definition tcp_listener_ready_push :: "tcp_slow_context \<Rightarrow> u32 \<Rightarrow> u32 \<Rightarrow> int \<times> tcp_slow_context" where
  "tcp_listener_ready_push c listener_id sock_id =
     (let l = sl_listeners c listener_id
      in if ls_active l = 0 \<or> ls_ready_used l \<ge> ls_backlog_len l then (-1, c)
         else let p0 = ls_ready_head l + ls_ready_used l;
                  pos = (if p0 \<ge> ls_backlog_len l then p0 - ls_backlog_len l else p0);
                  bad = (case ls_ready_sids l of None \<Rightarrow> True | Some r \<Rightarrow> unat pos \<ge> length r)
              in (0, upd_listener listener_id
                       (\<lambda>l. l\<lparr>ls_ready_sids := map_option (\<lambda>r. r[unat pos := sock_id]) (ls_ready_sids l), ls_ready_used := ls_ready_used l + 1\<rparr>)
                       (c\<lparr>sl_oob := sl_oob c \<or> bad\<rparr>)))"

text \<open>One iteration of the loop of \<^verbatim>\<open>tcp_listener_ready_pop\<close> on the ring.\<close>

definition ready_take :: "tcp_listener_slow \<Rightarrow> u32 \<times> tcp_listener_slow \<times> bool" where
  "ready_take l =
     (let hd' = ls_ready_head l;
          bad = (case ls_ready_sids l of None \<Rightarrow> True | Some r \<Rightarrow> unat hd' \<ge> length r);
          sid = (case ls_ready_sids l of None \<Rightarrow> ID_INVALID | Some r \<Rightarrow> if bad then ID_INVALID else r ! unat hd');
          h1 = hd' + 1
      in (sid, l\<lparr>ls_ready_sids := map_option (\<lambda>r. r[unat hd' := ID_INVALID]) (ls_ready_sids l),
                 ls_ready_head := (if h1 \<ge> ls_backlog_len l then 0 else h1), ls_ready_used := ls_ready_used l - 1\<rparr>, bad))"

definition ready_pop_step :: "tcp_slow_context \<Rightarrow> u32 \<Rightarrow> u32 option \<times> tcp_slow_context" where
  "ready_pop_step c listener_id =
     (case ready_take (sl_listeners c listener_id) of (sid, l, bad) \<Rightarrow>
        let c1 = upd_listener listener_id (\<lambda>_. l) (c\<lparr>sl_oob := sl_oob c \<or> bad\<rparr>)
        in if sid = ID_INVALID then (None, c1)
           else if mt_listener_id (tcp_sock_meta c1 sid) \<noteq> listener_id then (None, c1)
           else if tk_state (sl_socks c1 sid) \<noteq> TCP_SOCK_STATE_ACCEPT_PENDING
           then (None, upd_listener listener_id listener_backlog_put (upd_sock_meta sid (\<lambda>m. m\<lparr>mt_listener_id := ID_INVALID\<rparr>) c1))
           else (Some sid, c1))"

lemma ready_pop_step_used:
  assumes "ready_pop_step c lid = (r, c')" and "ls_ready_used (sl_listeners c lid) \<noteq> 0"
  shows "unat (ls_ready_used (sl_listeners c' lid)) < unat (ls_ready_used (sl_listeners c lid))"
proof -
  have u: "unat (x - 1) < unat x" if "x \<noteq> 0" for x :: u32
    using that by (simp add: unat_minus_one unat_gt_0)
  have "ls_ready_used (sl_listeners c' lid) = ls_ready_used (sl_listeners c lid) - 1"
    using assms(1)
    by (auto simp: ready_pop_step_def ready_take_def Let_def upd_listener_def upd_sock_meta_def upd_meta_def listener_backlog_put_def
        split: if_splits)
  then show ?thesis using u [OF assms(2)] by simp
qed

function tcp_listener_ready_pop :: "tcp_slow_context \<Rightarrow> u32 \<Rightarrow> u32 option \<times> tcp_slow_context" where
  "tcp_listener_ready_pop c listener_id =
     (let l = sl_listeners c listener_id
      in if ls_active l \<noteq> 0 \<and> ls_ready_used l \<noteq> 0
         then (case ready_pop_step c listener_id of (r, c') \<Rightarrow>
                 if r = None then tcp_listener_ready_pop c' listener_id else (r, c'))
         else (None, c))"
  by auto
termination
  by (relation "measure (\<lambda>(c, lid). unat (ls_ready_used (sl_listeners c lid)))") (auto dest: ready_pop_step_used [OF sym])

declare tcp_listener_ready_pop.simps [simp del]

end
