(* ===== verification/Tcp_Slow_Ctl.thy ===== *)
theory Tcp_Slow_Ctl
  imports Tcp_Slow_Tables
begin

unbundle bit_operations_syntax

text \<open>
  The actions of the TCP slow path on one socket: control packets handed to the fast path
  (\<^verbatim>\<open>state/tcp_ctl_tx.c\<close>), retransmission timers (\<^verbatim>\<open>tcp_timeout.c\<close>), allocation, failure and closing of
  sockets (\<^verbatim>\<open>state/tcp_sock_state.c\<close>), and the responses to applications (\<^verbatim>\<open>app/tcp_app_res.c\<close>).
\<close>

section \<open>Control packets\<close>

definition tcp_sock_rx_wnd :: "tcp_sock \<Rightarrow> u16" where
  "tcp_sock_rx_wnd s = (let wnd = tk_rx_len s - tk_rx_avail s in ucast (if wnd > 65535 then 65535 else wnd))"

definition ctl_fill_ip :: "bool \<Rightarrow> u32 \<Rightarrow> u32 \<Rightarrow> bytes \<Rightarrow> bytes" where
  "ctl_fill_ip ts local_ip remote_ip p =
     (let p1 = st8 1 0 (IPH_VHL_SET 4 5 p);
          p2 = st16 6 (t_beui16 0) (st16 4 (t_beui16 3)
                 (st16 2 (t_beui16 (of_nat (TCP_PKT_INNER + (if ts then TCP_TS_OPT_LEN else 0)))) p1));
          p3 = st8 9 IP_PROTO_TCP (st8 8 0xff p2)
      in st16 10 0 (st32 16 (t_beui32 remote_ip) (st32 12 (t_beui32 local_ip) p3)))"

definition ctl_fill_tcp :: "bool \<Rightarrow> u16 \<Rightarrow> u16 \<Rightarrow> u32 \<Rightarrow> u32 \<Rightarrow> u16 \<Rightarrow> u16 \<Rightarrow> bytes \<Rightarrow> bytes" where
  "ctl_fill_tcp ts local_port remote_port seq ack flags wnd p =
     (let p1 = st16 22 (t_beui16 remote_port) (st16 20 (t_beui16 local_port) p);
          p2 = st32 28 (t_beui32 ack) (st32 24 (t_beui32 seq) p1);
          p3 = TCPH_HDRLEN_FLAGS_SET (of_nat ((TCP_HLEN + (if ts then TCP_TS_OPT_LEN else 0)) div 4)) flags p2
      in st16 38 (t_beui16 0) (st16 36 0 (st16 34 (t_beui16 wnd) p3)))"

text \<open>A packet sent for a socket carries a timestamp option that echoes the peer's last value.\<close>

definition ctl_pkt_fill ::
  "tcp_sock option \<Rightarrow> u32 \<Rightarrow> u16 \<Rightarrow> u32 \<Rightarrow> u16 \<Rightarrow> u32 \<Rightarrow> u32 \<Rightarrow> u16 \<Rightarrow> u16 \<Rightarrow> bytes \<Rightarrow> bytes" where
  "ctl_pkt_fill sock local_ip local_port remote_ip remote_port seq ack flags wnd p =
     (let ts = (sock \<noteq> None);
          p1 = ctl_fill_tcp ts local_port remote_port seq ack flags wnd (ctl_fill_ip ts local_ip remote_ip p)
      in case sock of None \<Rightarrow> p1 | Some s \<Rightarrow> tx_write_tsopt 0 (tk_ts_recent s) p1)"

definition ctl_pkt_enqueue ::
  "tcp_slow_context \<Rightarrow> tcp_sock option \<Rightarrow> u32 \<Rightarrow> u16 \<Rightarrow> u32 \<Rightarrow> u16 \<Rightarrow> u32 \<Rightarrow> u32 \<Rightarrow> u16 \<Rightarrow> u16 \<Rightarrow> int \<times> tcp_slow_context" where
  "ctl_pkt_enqueue c sock local_ip local_port remote_ip remote_port seq ack flags wnd =
     (let pq = sl_pkt_q c; sq = sl_sig_q c
      in case queue_tail (fst pq) (snd pq) of None \<Rightarrow> (-1, c)
      | Some pos \<Rightarrow>
        if queue_tail (fst sq) (snd sq) = None then (-1, c)
        else (case queue_put pq (ctl_pkt_fill sock local_ip local_port remote_ip remote_port seq ack flags wnd (qs_data (snd pq pos)))
                     TCP_QUEUE_CTL_TX_PKT of (r1, pq1) \<Rightarrow>
          if r1 \<noteq> 0 then (-1, c\<lparr>sl_pkt_q := pq1\<rparr>)
          else (case queue_put sq (TS_ctl_sig 1) TCP_QUEUE_CTL_TX of (r2, sq1) \<Rightarrow>
            (if r2 \<noteq> 0 then -1 else 0, c\<lparr>sl_pkt_q := pq1, sl_sig_q := sq1\<rparr>))))"

definition tcp_ctl_tx :: "tcp_slow_context \<Rightarrow> u32 \<Rightarrow> u16 \<Rightarrow> int \<times> tcp_slow_context" where
  "tcp_ctl_tx c sid flags =
     (let s = sl_socks c sid
      in ctl_pkt_enqueue c (Some s) (tk_local_ip s) (tk_local_port s) (tk_remote_ip s) (tk_remote_port s)
           (tk_tx_seq s) (tk_rx_seq s) flags (tcp_sock_rx_wnd s))"

definition tcp_ctl_tx_resend :: "tcp_slow_context \<Rightarrow> u32 \<Rightarrow> u16 \<Rightarrow> int \<times> tcp_slow_context" where
  "tcp_ctl_tx_resend c sid flags =
     (let s = sl_socks c sid;
          seq = (if flags AND (TAS_TCP_SYN OR TAS_TCP_FIN) \<noteq> 0 then tk_tx_seq s - 1 else tk_tx_seq s)
      in ctl_pkt_enqueue c (Some s) (tk_local_ip s) (tk_local_port s) (tk_remote_ip s) (tk_remote_port s)
           seq (tk_rx_seq s) flags (tcp_sock_rx_wnd s))"

definition tcp_ctl_tx_reply ::
  "tcp_slow_context \<Rightarrow> u32 \<Rightarrow> u16 \<Rightarrow> u32 \<Rightarrow> u16 \<Rightarrow> u32 \<Rightarrow> u32 \<Rightarrow> u16 \<Rightarrow> int \<times> tcp_slow_context" where
  "tcp_ctl_tx_reply c local_ip local_port remote_ip remote_port seq ack flags =
     ctl_pkt_enqueue c None local_ip local_port remote_ip remote_port seq ack flags 0"

definition tcp_tx_retransmit :: "tcp_slow_context \<Rightarrow> u32 \<Rightarrow> int \<times> tcp_slow_context" where
  "tcp_tx_retransmit c sid =
     (let s = sl_socks c sid
      in case queue_put (sl_sig_q c) (TS_ctl_remit \<lparr>ctr_sock_id = tk_id s, ctr_tx_seq = tk_tx_seq s, ctr_tx_pending = tk_tx_pending s\<rparr>)
                TCP_QUEUE_TX_RETRANSMIT of (ret, q) \<Rightarrow> (if ret \<noteq> 0 then -1 else 0, c\<lparr>sl_sig_q := q\<rparr>))"

section \<open>Timers\<close>

definition retx_none :: "tcp_sock_meta_slow \<Rightarrow> tcp_sock_meta_slow" where
  "retx_none m = m\<lparr>mt_retx_kind := TCP_RETX_NONE, mt_retx_left := 0\<rparr>"

definition sock_retx_sched :: "slow_env \<Rightarrow> tcp_slow_context \<Rightarrow> u32 \<Rightarrow> int \<times> tcp_slow_context" where
  "sock_retx_sched ev c sid =
     (case tomgr_insert (sl_tomgr c) TCP_TO_RETX (ev_retx ev) (ucast sid) of (tm, timer) \<Rightarrow>
        let c1 = upd_sock_meta sid (\<lambda>m. m\<lparr>mt_timer := timer\<rparr>) (c\<lparr>sl_tomgr := tm\<rparr>)
        in if timer = None then (-1, upd_sock_meta sid retx_none c1) else (0, c1))"

definition tcp_timeout_cancel :: "tcp_slow_context \<Rightarrow> u32 \<Rightarrow> tcp_slow_context" where
  "tcp_timeout_cancel c sid =
     (let c1 = (case mt_timer (tcp_sock_meta c sid) of None \<Rightarrow> c
                | Some e \<Rightarrow> upd_sock_meta sid (\<lambda>m. m\<lparr>mt_timer := None\<rparr>) (c\<lparr>sl_tomgr := fst (tomgr_cancel (sl_tomgr c) e)\<rparr>))
      in upd_sock_meta sid retx_none c1)"

definition tcp_timeout_arm :: "slow_env \<Rightarrow> tcp_slow_context \<Rightarrow> u32 \<Rightarrow> u8 \<Rightarrow> int \<times> tcp_slow_context" where
  "tcp_timeout_arm ev c sid kind =
     (let c1 = tcp_timeout_cancel c sid;
          c2 = upd_sock_meta sid (\<lambda>m. m\<lparr>mt_retx_kind := kind, mt_retx_left := TCP_RETX_RETRIES\<rparr>) c1
      in sock_retx_sched ev c2 sid)"

section \<open>Congestion-control state of a socket\<close>

definition cc_sock_reset :: "tcp_sock \<Rightarrow> tcp_sock" where
  "cc_sock_reset s = tcp_sock_recovery_reset
     (s\<lparr>tk_cc_acks := 0, tk_cc_ackb := 0, tk_cc_ecnb := 0, tk_cc_drops := 0, tk_cc_rate := 0, tk_tx_ready_tsc := 0\<rparr>)"

definition cc_meta_reset :: "tcp_sock_meta_slow \<Rightarrow> tcp_sock_meta_slow" where
  "cc_meta_reset m = m\<lparr>mt_cc_tsc := 0, mt_cc_rtt := 0, mt_cc_last_drops := 0, mt_cc_last_acks := 0, mt_cc_last_ackb := 0,
     mt_cc_last_ecnb := 0, mt_cc_rexmits := 0, mt_cnt_tx_pending := 0, mt_ts_tx_pending := 0, mt_dctcp_unproc_acks := 0,
     mt_dctcp_unproc_ackb := 0, mt_dctcp_unproc_ecnb := 0, mt_dctcp_unproc_drops := 0, mt_dctcp_ecn_rate := 0,
     mt_dctcp_act_rate := 0, mt_dctcp_slowstart := 0\<rparr>"

definition tcp_sock_cc_reset :: "tcp_slow_context \<Rightarrow> u32 \<Rightarrow> tcp_slow_context" where
  "tcp_sock_cc_reset c sid = upd_sock_meta sid cc_meta_reset (upd_sock sid cc_sock_reset c)"

definition cc_init_rate :: "tcp_configuration \<Rightarrow> tcp_sock_meta_slow \<Rightarrow> u32 \<times> tcp_sock_meta_slow" where
  "cc_init_rate cf m =
     (if cf_cc_algorithm cf = TCP_CC_ALGO_CONST_RATE then (cf_cc_const_rate cf, m)
      else if cf_cc_algorithm cf = TCP_CC_ALGO_DCTCP_RATE then (cf_cc_dctcp_init cf, m\<lparr>mt_dctcp_slowstart := 1\<rparr>)
      else (0, m))"

definition tcp_sock_cc_init :: "slow_env \<Rightarrow> tcp_slow_context \<Rightarrow> u32 \<Rightarrow> tcp_slow_context" where
  "tcp_sock_cc_init ev c sid =
     (let c1 = tcp_sock_cc_reset c sid;
          rtt_est = tk_rtt_est (sl_socks c1 sid);
          c2 = upd_sock_meta sid (\<lambda>m. m\<lparr>mt_cc_tsc := ev_now ev, mt_cc_rtt := (if rtt_est \<noteq> 0 then rtt_est else cf_cc_rtt_init (sl_config c1))\<rparr>) c1
      in case cc_init_rate (sl_config c2) (tcp_sock_meta c2 sid) of (rate, m) \<Rightarrow>
           upd_sock sid (\<lambda>s. s\<lparr>tk_cc_rate := rate\<rparr>) (upd_sock_meta sid (\<lambda>_. m) c2))"

definition tcp_cc_ecn_enabled :: "tcp_slow_context \<Rightarrow> bool" where
  "tcp_cc_ecn_enabled c \<longleftrightarrow> cf_cc_algorithm (sl_config c) = TCP_CC_ALGO_DCTCP_RATE"

section \<open>Responses\<close>

definition app_put :: "tcp_slow_context \<Rightarrow> actx \<Rightarrow> tcp_app_data \<Rightarrow> u8 \<Rightarrow> int \<times> tcp_slow_context" where
  "app_put c a d ty =
     (case queue_put (ax_slow_app_q (get_actx c a)) d ty of (ret, q) \<Rightarrow>
        (if ret \<noteq> 0 then -1 else 0, upd_actx a (\<lambda>x. x\<lparr>ax_slow_app_q := q\<rparr>) c))"

definition tcp_app_listen_res :: "tcp_slow_context \<Rightarrow> actx \<Rightarrow> u64 \<Rightarrow> int \<Rightarrow> int \<times> tcp_slow_context" where
  "tcp_app_listen_res c a opaque status = app_put c a (A_listen_res \<lparr>lr_status = status, lr_opaque = opaque\<rparr>) TCP_QUEUE_LISTEN_RES"

definition tcp_app_connect_res :: "tcp_slow_context \<Rightarrow> actx \<Rightarrow> u64 \<Rightarrow> int \<Rightarrow> tcp_sock option \<Rightarrow> int \<times> tcp_slow_context" where
  "tcp_app_connect_res c a opaque status sock =
     app_put c a (A_connect_res (case sock of
         None \<Rightarrow> \<lparr>cs_status = status, cs_opaque = opaque, cs_core = 0, cs_local_ip = 0, cs_local_port = 0, cs_remote_ip = 0, cs_remote_port = 0\<rparr>
       | Some s \<Rightarrow> \<lparr>cs_status = status, cs_opaque = opaque, cs_core = tk_core s, cs_local_ip = tk_local_ip s,
           cs_local_port = tk_local_port s, cs_remote_ip = tk_remote_ip s, cs_remote_port = tk_remote_port s\<rparr>)) TCP_QUEUE_CONNECT_RES"

definition tcp_sock_accept_res_fill :: "tcp_sock \<Rightarrow> tcp_sock \<Rightarrow> tcp_queue_accept_res" where
  "tcp_sock_accept_res_fill listen_sock s =
     \<lparr>as_status = 0, as_opaque = tk_opaque s, as_listen_opaque = tk_opaque listen_sock, as_sock_id = tk_id s, as_core = tk_core s,
      as_rx_qid = 0, as_rx_len = tk_rx_len s, as_rx_off = tk_rx_off s, as_tx_qid = 0, as_tx_len = tk_tx_len s, as_tx_off = tk_tx_off s,
      as_local_ip = tk_local_ip s, as_local_port = tk_local_port s, as_remote_ip = tk_remote_ip s, as_remote_port = tk_remote_port s\<rparr>"

text \<open>Without success only the two opaque values of the zeroed response are set.\<close>

definition accept_res_err :: "u64 \<Rightarrow> u64 \<Rightarrow> int \<Rightarrow> tcp_queue_accept_res" where
  "accept_res_err listen_opaque opaque status =
     \<lparr>as_status = status, as_opaque = opaque, as_listen_opaque = listen_opaque, as_sock_id = 0, as_core = 0, as_rx_qid = 0, as_rx_len = 0,
      as_rx_off = 0, as_tx_qid = 0, as_tx_len = 0, as_tx_off = 0, as_local_ip = 0, as_local_port = 0, as_remote_ip = 0, as_remote_port = 0\<rparr>"

definition tcp_app_accept_res :: "tcp_slow_context \<Rightarrow> actx \<Rightarrow> tcp_sock \<Rightarrow> tcp_sock \<Rightarrow> int \<Rightarrow> int \<times> tcp_slow_context" where
  "tcp_app_accept_res c a listen_sock s status =
     app_put c a (A_accept_res (if status = 0 then tcp_sock_accept_res_fill listen_sock s
       else accept_res_err (tk_opaque listen_sock) (tk_opaque s) status)) TCP_QUEUE_ACCEPT_RES"

definition tcp_app_listen_newconn :: "tcp_slow_context \<Rightarrow> u32 \<Rightarrow> u32 \<Rightarrow> int \<times> tcp_slow_context" where
  "tcp_app_listen_newconn c listen_sid sid =
     app_put c (tcp_sock_actx c listen_sid) (A_listen_newconn \<lparr>ln_opaque = tk_opaque (sl_socks c listen_sid),
       ln_remote_ip = tk_remote_ip (sl_socks c sid), ln_remote_port = tk_remote_port (sl_socks c sid)\<rparr>) TCP_QUEUE_LISTEN_NEWCONN"

section \<open>Sockets\<close>

definition tcp_sock_zero :: tcp_sock where
  "tcp_sock_zero = \<lparr>tk_id = 0, tk_opaque = 0, tk_core = 0, tk_app_bump_qid = 0, tk_local_ip = 0, tk_remote_ip = 0, tk_local_port = 0,
     tk_remote_port = 0, tk_state = 0, tk_reuport = 0, tk_app_id = 0, tk_ctx_id = 0, tk_flags = 0, tk_lock = 0, tk_rx_len = 0,
     tk_rx_avail = 0, tk_rx_head = 0, tk_rx_off = 0, tk_tx_len = 0, tk_tx_avail = 0, tk_tx_head = 0, tk_tx_off = 0, tk_tx_seq = 0,
     tk_tx_pending = 0, tk_rx_seq = 0, tk_tx_remote_avail = 0, tk_tx_rexmit_seq = 0, tk_tx_rexmit_end_seq = 0, tk_rx_dupack_cnt = 0,
     tk_cc_acks = 0, tk_cc_ackb = 0, tk_cc_ecnb = 0, tk_cc_drops = 0, tk_cc_rate = 0, tk_ts_recent = 0, tk_rtt_est = 0,
     tk_tx_ready_tsc = 0, tk_recovery_active = 0, tk_recovery_end_seq = 0\<rparr>"

text \<open>
  The result is the new socket, if any; a socket slot whose buffers could not be created is left
  initialised in part, and \<^verbatim>\<open>n_socks\<close> counts it only at the end.
\<close>

definition tcp_sock_alloc ::
  "slow_env \<Rightarrow> tcp_slow_context \<Rightarrow> u64 \<Rightarrow> u8 \<Rightarrow> u8 \<Rightarrow> u16 \<Rightarrow> u32 option \<times> tcp_slow_context" where
  "tcp_sock_alloc ev c opaque app_id ctx_id app_bump_qid =
     (if sl_n_socks c \<ge> MAX_SOCKETS then (None, c)
      else let sid = sl_n_socks c;
               s0 = tcp_sock_zero\<lparr>tk_id := sid, tk_opaque := opaque, tk_app_bump_qid := app_bump_qid, tk_local_ip := sl_local_ip c,
                      tk_state := TCP_SOCK_STATE_INIT, tk_app_id := app_id, tk_ctx_id := ctx_id\<rparr>;
               c0 = upd_sock sid (\<lambda>_. s0) c
           in case ev_rxq ev of None \<Rightarrow> (None, c0)
           | Some rq \<Rightarrow>
             let c1 = upd_sock sid (\<lambda>s. s\<lparr>tk_rx_len := pq_elsize rq * pq_nelems rq, tk_rx_avail := 0, tk_rx_head := 0, tk_rx_off := pq_off rq\<rparr>) c0
             in (case ev_txq ev of None \<Rightarrow> (None, c1)
             | Some tq \<Rightarrow>
               let c2 = upd_sock sid (\<lambda>s. s\<lparr>tk_tx_len := pq_elsize tq * pq_nelems tq, tk_tx_avail := 0, tk_tx_head := 0, tk_tx_pending := 0,
                          tk_tx_off := pq_off tq, tk_tx_remote_avail := 0, tk_tx_rexmit_seq := 0, tk_tx_rexmit_end_seq := 0,
                          tk_rx_dupack_cnt := 0, tk_ts_recent := 0, tk_rtt_est := 0\<rparr>) c1;
                   c3 = upd_meta sid (\<lambda>m. m\<lparr>mt_listener_id := ID_INVALID, mt_auto_bound := 0\<rparr>) c2
               in (Some sid, c3\<lparr>sl_n_socks := sl_n_socks c3 + 1\<rparr>)))"

definition tcp_sock_new_res_fill :: "tcp_sock \<Rightarrow> tcp_queue_new_sock_res" where
  "tcp_sock_new_res_fill s =
     \<lparr>nsr_sock_id = tk_id s, nsr_opaque = tk_opaque s, nsr_core = tk_core s, nsr_rx_qid = 0, nsr_rx_len = tk_rx_len s,
      nsr_rx_off = tk_rx_off s, nsr_tx_qid = 0, nsr_tx_len = tk_tx_len s, nsr_tx_off = tk_tx_off s\<rparr>"

definition sock_conn_reset :: "tcp_sock \<Rightarrow> tcp_sock" where
  "sock_conn_reset s = s\<lparr>tk_flags := 0, tk_remote_ip := 0, tk_remote_port := 0, tk_tx_seq := 0, tk_tx_pending := 0, tk_rx_seq := 0,
     tk_tx_remote_avail := 0, tk_tx_rexmit_seq := 0, tk_tx_rexmit_end_seq := 0, tk_rx_dupack_cnt := 0, tk_ts_recent := 0,
     tk_rtt_est := 0, tk_tx_ready_tsc := 0\<rparr>"

definition sock_autobind_drop :: "tcp_slow_context \<Rightarrow> u32 \<Rightarrow> tcp_slow_context" where
  "sock_autobind_drop c sid =
     (if mt_auto_bound (tcp_sock_meta c sid) = 0 then c
      else let c1 = tcp_bound_remove c (tk_local_port (sl_socks c sid)) (tk_id (sl_socks c sid));
               c2 = upd_sock sid (\<lambda>s. s\<lparr>tk_local_port := 0, tk_local_ip := sl_local_ip c1\<rparr>) c1
           in upd_sock_meta sid (\<lambda>m. m\<lparr>mt_auto_bound := 0\<rparr>) c2)"

definition tcp_sock_close_final :: "tcp_slow_context \<Rightarrow> u32 \<Rightarrow> tcp_slow_context" where
  "tcp_sock_close_final c sid =
     (let c1 = tcp_timeout_cancel c sid;
          c2 = tcp_listener_detach_child c1 sid;
          c3 = tcp_flow_remove c2 sid;
          c4 = (if mt_listener_id (tcp_sock_meta c3 sid) = ID_INVALID
                then tcp_bound_remove c3 (tk_local_port (sl_socks c3 sid)) (tk_id (sl_socks c3 sid)) else c3);
          c5 = upd_sock sid (\<lambda>s. sock_conn_reset (s\<lparr>tk_state := TCP_SOCK_STATE_CLOSED\<rparr>)) c4;
          c6 = upd_sock_meta sid (\<lambda>m. m\<lparr>mt_auto_bound := 0\<rparr>) c5
      in tcp_sock_cc_reset c6 sid)"

definition tcp_sock_connect_fail :: "tcp_slow_context \<Rightarrow> u32 \<Rightarrow> int \<Rightarrow> tcp_slow_context" where
  "tcp_sock_connect_fail c sid err =
     (let c1 = tcp_timeout_cancel c sid;
          c2 = tcp_flow_remove c1 sid;
          c3 = sock_autobind_drop c2 sid;
          c4 = upd_sock sid sock_conn_reset c3;
          c5 = tcp_sock_cc_reset c4 sid;
          c6 = upd_sock sid (\<lambda>s. s\<lparr>tk_state := TCP_SOCK_STATE_INIT\<rparr>) c5
      in snd (tcp_app_connect_res c6 (tcp_sock_actx c6 sid) (tk_opaque (sl_socks c6 sid)) err (Some (sl_socks c6 sid))))"

text \<open>The loop over all sockets: children of the listener that are not closed are reset and closed.\<close>

definition abort_child :: "u32 \<Rightarrow> u32 \<Rightarrow> tcp_slow_context \<Rightarrow> tcp_slow_context" where
  "abort_child listener_id i c =
     (if mt_listener_id (tcp_sock_meta c i) \<noteq> listener_id then c
      else if tk_state (sl_socks c i) = TCP_SOCK_STATE_CLOSED then c
      else let c1 = (if tk_remote_port (sl_socks c i) \<noteq> 0 then snd (tcp_ctl_tx c i (TAS_TCP_RST OR TAS_TCP_ACK)) else c)
           in tcp_sock_close_final c1 i)"

definition tcp_listener_abort_children :: "tcp_slow_context \<Rightarrow> u32 \<Rightarrow> tcp_slow_context" where
  "tcp_listener_abort_children c listen_sid =
     fold (abort_child (tk_id (sl_socks c listen_sid))) (map of_nat [0 ..< unat (sl_n_socks c)]) c"

section \<open>Expiry\<close>

definition sock_retx_seq :: "tcp_sock \<Rightarrow> u32" where
  "sock_retx_seq s = tk_tx_seq s + tk_tx_pending s - 1"

definition sock_retx_flags :: "tcp_sock \<Rightarrow> u8 \<Rightarrow> u16 option" where
  "sock_retx_flags s kind =
     (if kind = TCP_RETX_SYN then Some (TAS_TCP_SYN OR (if tk_flags s AND TCP_SOCK_FLAG_ECN \<noteq> 0 then TAS_TCP_ECE OR TAS_TCP_CWR else 0))
      else if kind = TCP_RETX_SYNACK then Some (TAS_TCP_SYN OR TAS_TCP_ACK OR (if tk_flags s AND TCP_SOCK_FLAG_ECN \<noteq> 0 then TAS_TCP_ECE else 0))
      else if kind = TCP_RETX_FIN then Some (TAS_TCP_FIN OR TAS_TCP_ACK)
      else None)"

definition sock_retx_tx :: "tcp_slow_context \<Rightarrow> u32 \<Rightarrow> int \<times> tcp_slow_context" where
  "sock_retx_tx c sid =
     (let s = sl_socks c sid
      in case sock_retx_flags s (mt_retx_kind (tcp_sock_meta c sid)) of None \<Rightarrow> (-1, c)
         | Some flags \<Rightarrow> tcp_ctl_tx_reply c (tk_local_ip s) (tk_local_port s) (tk_remote_ip s) (tk_remote_port s)
             (sock_retx_seq s) (tk_rx_seq s) flags)"

definition sock_retx_expire :: "tcp_slow_context \<Rightarrow> u32 \<Rightarrow> tcp_slow_context" where
  "sock_retx_expire c sid =
     (let s = sl_socks c sid; kind = mt_retx_kind (tcp_sock_meta c sid)
      in if kind = TCP_RETX_SYN then tcp_sock_connect_fail c sid ETIMEDOUT
         else if kind = TCP_RETX_SYNACK \<or> kind = TCP_RETX_FIN
         then tcp_sock_close_final (snd (tcp_ctl_tx_reply c (tk_local_ip s) (tk_local_port s) (tk_remote_ip s) (tk_remote_port s)
                (tk_tx_seq s) (tk_rx_seq s) (TAS_TCP_RST OR TAS_TCP_ACK))) sid
         else c)"

definition sock_on_timeout :: "slow_env \<Rightarrow> tcp_slow_context \<Rightarrow> u32 \<Rightarrow> int \<times> tcp_slow_context" where
  "sock_on_timeout ev c sid =
     (if mt_retx_left (tcp_sock_meta c sid) = 0 then (0, sock_retx_expire c sid)
      else case sock_retx_tx c sid of (r1, c1) \<Rightarrow>
        if r1 \<noteq> 0 then (-1, sock_retx_expire c1 sid)
        else let c2 = upd_sock_meta sid (\<lambda>m. m\<lparr>mt_retx_left := mt_retx_left m - 1\<rparr>) c1
             in (case sock_retx_sched ev c2 sid of (r3, c3) \<Rightarrow>
                   if r3 \<noteq> 0 then (-1, sock_retx_expire c3 sid) else (0, c3)))"

abbreviation SLOW_BATCH_SIZE :: nat where "SLOW_BATCH_SIZE \<equiv> 16"

text \<open>
  The loop of \<^verbatim>\<open>tcp_timeout_poll\<close>, with the clock readings of each iteration. The socket whose timer
  expired is found through the \<^verbatim>\<open>data\<close> pointer of the entry.
\<close>

fun timeout_loop :: "slow_env list \<Rightarrow> tcp_slow_context \<Rightarrow> int \<times> tcp_slow_context" where
  "timeout_loop [] c = (0, c)"
| "timeout_loop (ev # evs) c =
     (case tomgr_peek (sl_tomgr c) of None \<Rightarrow> (0, c)
      | Some e \<Rightarrow>
        if te_to (tm_entries (sl_tomgr c) e) \<ge> ev_now ev then (0, c)
        else case tomgr_pop (sl_tomgr c) of (tm, te) \<Rightarrow>
          let c1 = c\<lparr>sl_tomgr := tm\<rparr>
          in (case te of None \<Rightarrow> (-1, c1)
              | Some e' \<Rightarrow>
                let sid = ucast (te_data (tm_entries tm e'));
                    c2 = upd_sock_meta sid (\<lambda>m. m\<lparr>mt_timer := None\<rparr>) c1
                in if mt_retx_kind (tcp_sock_meta c2 sid) = TCP_RETX_NONE then timeout_loop evs c2
                   else timeout_loop evs (snd (sock_on_timeout ev c2 sid))))"

definition tcp_timeout_poll :: "(nat \<Rightarrow> slow_env) \<Rightarrow> tcp_slow_context \<Rightarrow> int \<times> tcp_slow_context" where
  "tcp_timeout_poll ev c = timeout_loop (map ev [0 ..< SLOW_BATCH_SIZE]) c"

end
