(* ===== verification/Tcp_Slow_Rx.thy ===== *)
theory Tcp_Slow_Rx
  imports Tcp_Slow_Ctl
begin

unbundle bit_operations_syntax

text \<open>
  Control packets punted by the fast path (\<^verbatim>\<open>protos/tcp/slow/rx\<close>): parsing, the state machine that
  opens and closes connections, and the loop that polls the queues of the fast-path cores.
\<close>

section \<open>Parsing\<close>

text \<open>The two timestamps are present when \<^verbatim>\<open>ts_valid\<close> is set.\<close>

record tcp_rx_ctl =
  rc_local_ip :: u32
  rc_remote_ip :: u32
  rc_seq :: u32
  rc_ack :: u32
  rc_ts :: "(u32 \<times> u32) option"
  rc_local_port :: u16
  rc_remote_port :: u16
  rc_wnd :: u16
  rc_flags :: u16
  rc_core :: u16

definition ctl_rx_parse :: "bytes \<Rightarrow> u16 \<Rightarrow> tcp_rx_ctl" where
  "ctl_rx_parse p core =
     (let hdrlen = unat (TCPH_HDRLEN p) * 4
      in \<lparr>rc_local_ip = ip_dst p, rc_remote_ip = ip_src p, rc_seq = tcp_seqno p, rc_ack = tcp_ackno p,
          rc_ts = (if hdrlen < TCP_HLEN + TCP_TS_OPT_LEN then None
                   else if p 40 \<noteq> TCP_OPT_TIMESTAMP then None
                   else Some (f_beui32 (ld32 p 42), f_beui32 (ld32 p 46))),
          rc_local_port = tcp_dest p, rc_remote_port = tcp_src p, rc_wnd = tcp_wnd p, rc_flags = TCPH_FLAGS p, rc_core = core\<rparr>)"

definition ctl_sock_ts_rx :: "slow_env \<Rightarrow> tcp_rx_ctl \<Rightarrow> tcp_sock \<Rightarrow> tcp_sock" where
  "ctl_sock_ts_rx ev rx s =
     (case rc_ts rx of None \<Rightarrow> s
      | Some (ts_val, ts_ecr) \<Rightarrow>
        let s1 = s\<lparr>tk_ts_recent := ts_val\<rparr>
        in if ts_ecr = 0 then s1
           else let rtt = ev_us ev - ts_ecr
                in if rtt = 0 \<or> rtt \<ge> TCP_MAX_RTT then s1
                   else if tk_rtt_est s1 \<noteq> 0 then s1\<lparr>tk_rtt_est := (7 * tk_rtt_est s1 + rtt) div 8\<rparr>
                   else s1\<lparr>tk_rtt_est := rtt\<rparr>)"

section \<open>Opening\<close>

definition sock_ack_valid :: "tcp_sock \<Rightarrow> u32 \<Rightarrow> bool" where
  "sock_ack_valid s ack \<longleftrightarrow> ack = tk_tx_seq s + tk_tx_pending s"

definition sock_active_established :: "slow_env \<Rightarrow> tcp_slow_context \<Rightarrow> u32 \<Rightarrow> tcp_rx_ctl \<Rightarrow> tcp_slow_context" where
  "sock_active_established ev c sid rx =
     (let c1 = tcp_timeout_cancel c sid;
          qid = ax_app_bump_qs (get_actx c1 (tcp_sock_actx c1 sid)) (rc_core rx);
          c2 = upd_sock sid (\<lambda>s. s\<lparr>tk_core := rc_core rx, tk_app_bump_qid := qid,
                 tk_flags := (if rc_flags rx AND TAS_TCP_ECE = 0 then tk_flags s AND NOT TCP_SOCK_FLAG_ECN else tk_flags s),
                 tk_rx_seq := rc_seq rx + 1, tk_tx_seq := tk_tx_seq s + 1, tk_tx_remote_avail := ucast (rc_wnd rx),
                 tk_tx_pending := tk_tx_pending s - 1, tk_state := TCP_SOCK_STATE_ESTABLISHED\<rparr>) c1
      in tcp_sock_cc_init ev c2 sid)"

definition sock_passive_established :: "tcp_slow_context \<Rightarrow> u32 \<Rightarrow> tcp_rx_ctl \<Rightarrow> int \<times> tcp_slow_context" where
  "sock_passive_established c sid rx =
     (let c1 = tcp_timeout_cancel c sid;
          c2 = upd_sock sid (\<lambda>s. s\<lparr>tk_tx_remote_avail := ucast (rc_wnd rx), tk_tx_pending := tk_tx_pending s - 1,
                 tk_tx_seq := tk_tx_seq s + 1, tk_state := TCP_SOCK_STATE_ACCEPT_PENDING\<rparr>) c1
      in case tcp_listener_ready_push c2 (mt_listener_id (tcp_sock_meta c2 sid)) (tk_id (sl_socks c2 sid)) of (ret, c3) \<Rightarrow>
           if ret \<noteq> 0 then (-1, tcp_sock_close_final c3 sid) else (0, c3))"

definition tcp_rx_syn_sent :: "slow_env \<Rightarrow> tcp_slow_context \<Rightarrow> u32 \<Rightarrow> tcp_rx_ctl \<Rightarrow> tcp_slow_context" where
  "tcp_rx_syn_sent ev c sid rx =
     (if rc_flags rx AND TAS_TCP_RST \<noteq> 0 then tcp_sock_connect_fail c sid ECONNREFUSED
      else if rc_flags rx AND (TAS_TCP_SYN OR TAS_TCP_ACK) \<noteq> (TAS_TCP_SYN OR TAS_TCP_ACK) then c
      else if \<not> sock_ack_valid (sl_socks c sid) (rc_ack rx) then c
      else let c1 = sock_active_established ev c sid rx;
               c2 = snd (tcp_ctl_tx c1 sid TAS_TCP_ACK);
               s = sl_socks c2 sid
           in snd (tcp_app_connect_res c2 (tcp_sock_actx c2 sid) (tk_opaque s) 0 (Some s)))"

definition synack_flags :: "tcp_sock \<Rightarrow> u16" where
  "synack_flags s = TAS_TCP_SYN OR TAS_TCP_ACK OR (if tk_flags s AND TCP_SOCK_FLAG_ECN \<noteq> 0 then TAS_TCP_ECE else 0)"

definition tcp_rx_syn_recv :: "tcp_slow_context \<Rightarrow> u32 \<Rightarrow> tcp_rx_ctl \<Rightarrow> tcp_slow_context" where
  "tcp_rx_syn_recv c sid rx =
     (if rc_flags rx AND TAS_TCP_RST \<noteq> 0 then tcp_sock_close_final c sid
      else if rc_flags rx AND TAS_TCP_SYN \<noteq> 0 \<and> rc_flags rx AND TAS_TCP_ACK = 0
      then snd (tcp_ctl_tx_resend c sid (synack_flags (sl_socks c sid)))
      else if rc_flags rx AND TAS_TCP_ACK = 0 \<or> \<not> sock_ack_valid (sl_socks c sid) (rc_ack rx) then c
      else case sock_passive_established c sid rx of (ret, c1) \<Rightarrow>
        if ret \<noteq> 0 then c1
        else snd (tcp_app_listen_newconn c1 (mt_listener_id (tcp_sock_meta c1 sid)) sid))"

definition reply_rst :: "tcp_slow_context \<Rightarrow> tcp_rx_ctl \<Rightarrow> tcp_slow_context" where
  "reply_rst c rx = snd (tcp_ctl_tx_reply c (rc_local_ip rx) (rc_local_port rx) (rc_remote_ip rx) (rc_remote_port rx)
     0 (rc_seq rx + 1) (TAS_TCP_RST OR TAS_TCP_ACK))"

definition child_init :: "tcp_slow_context \<Rightarrow> tcp_rx_ctl \<Rightarrow> tcp_sock \<Rightarrow> tcp_sock" where
  "child_init c rx s =
     (let s1 = s\<lparr>tk_local_ip := rc_local_ip rx, tk_local_port := rc_local_port rx, tk_remote_ip := rc_remote_ip rx,
            tk_remote_port := rc_remote_port rx, tk_core := rc_core rx, tk_tx_seq := 1, tk_tx_pending := 1, tk_rx_seq := rc_seq rx + 1,
            tk_tx_remote_avail := ucast (rc_wnd rx), tk_ts_recent := (case rc_ts rx of None \<Rightarrow> 0 | Some (v, _) \<Rightarrow> v),
            tk_state := TCP_SOCK_STATE_SYN_RECV\<rparr>
      in if tcp_cc_ecn_enabled c \<and> rc_flags rx AND (TAS_TCP_ECE OR TAS_TCP_CWR) = (TAS_TCP_ECE OR TAS_TCP_CWR)
         then s1\<lparr>tk_flags := tk_flags s1 OR TCP_SOCK_FLAG_ECN\<rparr> else s1)"

text \<open>The part of \<^verbatim>\<open>tcp_rx_listen_syn\<close> after the child socket \<open>sid\<close> was allocated.\<close>

definition child_open :: "slow_env \<Rightarrow> tcp_slow_context \<Rightarrow> u32 \<Rightarrow> tcp_rx_ctl \<Rightarrow> u32 \<Rightarrow> int \<times> tcp_slow_context" where
  "child_open ev c0 lid rx sid =
     (let c1 = upd_sock_meta sid (\<lambda>m. m\<lparr>mt_listener_id := lid\<rparr>) (upd_sock sid (child_init c0 rx) c0)
      in case tcp_flow_insert c1 sid of (r2, c2) \<Rightarrow>
        if r2 \<noteq> 0 then (-1, reply_rst (upd_sock sid (\<lambda>s. s\<lparr>tk_state := TCP_SOCK_STATE_CLOSED\<rparr>) c2) rx)
        else let c3 = upd_listener lid (\<lambda>l. l\<lparr>ls_backlog_used := ls_backlog_used l + 1\<rparr>) c2
        in (case tcp_ctl_tx c3 sid (synack_flags (sl_socks c3 sid)) of (r4, c4) \<Rightarrow>
          if r4 \<noteq> 0 then (-1, reply_rst (tcp_sock_close_final c4 sid) rx)
          else (case tcp_timeout_arm ev c4 sid TCP_RETX_SYNACK of (r5, c5) \<Rightarrow>
            if r5 \<noteq> 0
            then (-1, tcp_sock_close_final (snd (tcp_ctl_tx_reply c5 (rc_local_ip rx) (rc_local_port rx) (rc_remote_ip rx)
                   (rc_remote_port rx) (tk_tx_seq (sl_socks c5 sid)) (tk_rx_seq (sl_socks c5 sid)) (TAS_TCP_RST OR TAS_TCP_ACK))) sid)
            else (0, c5))))"

definition tcp_rx_listen_syn :: "slow_env \<Rightarrow> tcp_slow_context \<Rightarrow> u32 \<Rightarrow> tcp_rx_ctl \<Rightarrow> int \<times> tcp_slow_context" where
  "tcp_rx_listen_syn ev c listen_sid rx =
     (let lid = tk_id (sl_socks c listen_sid); l = sl_listeners c lid
      in if ls_active l = 0 \<or> ls_backlog_used l \<ge> ls_backlog_len l then (0, reply_rst c rx)
      else if tcp_flow_lookup c (rc_local_ip rx) (rc_local_port rx) (rc_remote_ip rx) (rc_remote_port rx) \<noteq> None then (0, c)
      else case tcp_sock_alloc ev c 0 0 0 0 of (r, c0) \<Rightarrow>
        (case r of None \<Rightarrow> (-1, c0) | Some sid \<Rightarrow> child_open ev c0 lid rx sid))"

section \<open>Closing\<close>

definition tcp_rx_established :: "tcp_slow_context \<Rightarrow> u32 \<Rightarrow> tcp_rx_ctl \<Rightarrow> tcp_slow_context" where
  "tcp_rx_established c sid rx =
     (if rc_flags rx AND TAS_TCP_RST \<noteq> 0 then tcp_sock_close_final c sid
      else if rc_flags rx AND TAS_TCP_FIN \<noteq> 0
      then let c1 = upd_sock sid (\<lambda>s. s\<lparr>tk_rx_seq := rc_seq rx + 1\<rparr>) c
           in tcp_sock_close_final (snd (tcp_ctl_tx c1 sid TAS_TCP_ACK)) sid
      else c)"

definition tcp_rx_fin_wait1 :: "tcp_slow_context \<Rightarrow> u32 \<Rightarrow> tcp_rx_ctl \<Rightarrow> tcp_slow_context" where
  "tcp_rx_fin_wait1 c sid rx =
     (let fin = (rc_flags rx AND TAS_TCP_FIN \<noteq> 0);
          c1 = (if fin then snd (tcp_ctl_tx (upd_sock sid (\<lambda>s. s\<lparr>tk_rx_seq := rc_seq rx + 1\<rparr>) c) sid TAS_TCP_ACK) else c)
      in if rc_flags rx AND TAS_TCP_ACK \<noteq> 0 \<and> rc_ack rx = tk_tx_seq (sl_socks c1 sid)
         then tcp_sock_close_final (tcp_timeout_cancel c1 sid) sid
         else if fin then tcp_sock_close_final (tcp_timeout_cancel c1 sid) sid
         else c1)"

section \<open>Dispatch\<close>

definition sock_ctl_rx :: "slow_env \<Rightarrow> tcp_slow_context \<Rightarrow> u32 \<Rightarrow> tcp_rx_ctl \<Rightarrow> tcp_slow_context" where
  "sock_ctl_rx ev c sid rx =
     (let st = tk_state (sl_socks c sid)
      in if st = TCP_SOCK_STATE_SYN_SENT then tcp_rx_syn_sent ev c sid rx
         else if st = TCP_SOCK_STATE_SYN_RECV then tcp_rx_syn_recv c sid rx
         else if st = TCP_SOCK_STATE_ACCEPT_PENDING \<or> st = TCP_SOCK_STATE_ESTABLISHED then tcp_rx_established c sid rx
         else if st = TCP_SOCK_STATE_FIN_WAIT1 then tcp_rx_fin_wait1 c sid rx
         else c)"

definition ctl_rx :: "slow_env \<Rightarrow> tcp_slow_context \<Rightarrow> bytes \<Rightarrow> int \<times> tcp_slow_context" where
  "ctl_rx ev c pkt =
     (let core = ld16 pkt 52;
          rx = ctl_rx_parse pkt (if ucast core \<ge> sl_n_fp_cores c then 0 else core)
      in case tcp_flow_lookup c (rc_local_ip rx) (rc_local_port rx) (rc_remote_ip rx) (rc_remote_port rx) of
           Some sid \<Rightarrow>
             (0, upd_sock sid util_spin_unlock (sock_ctl_rx ev (upd_sock sid (\<lambda>s. ctl_sock_ts_rx ev rx (util_spin_lock s)) c) sid rx))
         | None \<Rightarrow>
             if rc_flags rx AND TAS_TCP_SYN = 0 \<or> rc_flags rx AND TAS_TCP_ACK \<noteq> 0 then (0, c)
             else (case tcp_listener_lookup c (rc_local_ip rx) (rc_local_port rx) of (lid, c1) \<Rightarrow>
               if lid = ID_INVALID then (0, reply_rst c1 rx) else tcp_rx_listen_syn ev c1 lid rx))"

section \<open>Polling the fast path\<close>

text \<open>
  One message of a core: the signal, then the packet it announces. On both warnings the signal is
  dequeued twice, as the code does.
\<close>

definition sig_dequeue :: "u8 \<Rightarrow> tcp_slow_context \<Rightarrow> tcp_slow_context" where
  "sig_dequeue core c = (case queue_dequeue (fst (sl_fast_sig_qs c core)) (snd (sl_fast_sig_qs c core)) of (_, q) \<Rightarrow>
     c\<lparr>sl_fast_sig_qs := (sl_fast_sig_qs c)(core := q)\<rparr>)"

definition pkt_dequeue :: "u8 \<Rightarrow> tcp_slow_context \<Rightarrow> tcp_slow_context" where
  "pkt_dequeue core c = (case queue_dequeue (fst (sl_fast_pkt_qs c core)) (snd (sl_fast_pkt_qs c core)) of (_, q) \<Rightarrow>
     c\<lparr>sl_fast_pkt_qs := (sl_fast_pkt_qs c)(core := q)\<rparr>)"

definition fast_msg :: "slow_env \<Rightarrow> u8 \<Rightarrow> u32 \<Rightarrow> tcp_slow_context \<Rightarrow> tcp_slow_context" where
  "fast_msg ev core pos c =
     (if qs_type (snd (sl_fast_sig_qs c core) pos) = TCP_QUEUE_CTL_RX
      then (case queue_head (fst (sl_fast_pkt_qs c core)) (snd (sl_fast_pkt_qs c core)) of
              None \<Rightarrow> sig_dequeue core (sig_dequeue core c)
            | Some ppos \<Rightarrow>
                if qs_type (snd (sl_fast_pkt_qs c core) ppos) \<noteq> TCP_QUEUE_CTL_RX_PKT
                then sig_dequeue core (pkt_dequeue core (sig_dequeue core c))
                else sig_dequeue core (pkt_dequeue core (snd (ctl_rx ev c (slot_bytes (qs_data (snd (sl_fast_pkt_qs c core) ppos)))))))
      else sig_dequeue core c)"

function core_loop :: "(nat \<Rightarrow> slow_env) \<Rightarrow> u8 \<Rightarrow> nat \<Rightarrow> tcp_slow_context \<Rightarrow> nat \<times> tcp_slow_context" where
  "core_loop ev core nr c =
     (if nr < SLOW_BATCH_SIZE
      then (case queue_head (fst (sl_fast_sig_qs c core)) (snd (sl_fast_sig_qs c core)) of
              None \<Rightarrow> (nr, c)
            | Some pos \<Rightarrow> core_loop ev core (nr + 1) (fast_msg (ev nr) core pos c))
      else (nr, c))"
  by auto
termination by (relation "measure (\<lambda>(ev, core, nr, c). SLOW_BATCH_SIZE - nr)") auto

declare core_loop.simps [simp del]

text \<open>The cores are visited once each, starting at a different one every time.\<close>

definition tcp_fast_poll :: "(nat \<Rightarrow> slow_env) \<Rightarrow> tcp_slow_context \<Rightarrow> nat \<times> tcp_slow_context" where
  "tcp_fast_poll ev c =
     (let start = unat (sl_next_core c); n = unat (sl_n_fp_cores c);
          visit = (\<lambda>i (nr, c). if nr < SLOW_BATCH_SIZE then core_loop ev (of_nat ((start + i) mod n)) nr c else (nr, c));
          (nr, c1) = fold visit [0 ..< n] (0, c)
      in (nr, c1\<lparr>sl_next_core := of_nat ((start + 1) mod n)\<rparr>))"

end
