(* ===== verification/Tcp_Slow_App.thy ===== *)
theory Tcp_Slow_App
  imports Tcp_Slow_Ctl
begin

unbundle bit_operations_syntax

text \<open>
  The requests of applications (\<^verbatim>\<open>protos/tcp/slow/app/tcp_app_req.c\<close>): new sockets, options, bind,
  connect, listen, accept, shutdown and close, and the loop that polls the application contexts.
\<close>

abbreviation SO_REUSEPORT :: u8 where "SO_REUSEPORT \<equiv> 15"
abbreviation SHUT_RDWR :: u8 where "SHUT_RDWR \<equiv> 2"

section \<open>Socket helpers\<close>

definition sock_autobind_port :: "tcp_slow_context \<Rightarrow> u32 \<Rightarrow> int \<times> tcp_slow_context" where
  "sock_autobind_port c sid =
     (let port = tcp_bound_find_free c
      in if port = 0 then (-1, c)
         else (case tcp_bound_insert c port (tk_id (sl_socks c sid)) False of (ret, c1) \<Rightarrow>
           if ret \<noteq> 0 then (-1, c1)
           else (0, upd_sock sid (\<lambda>s. s\<lparr>tk_local_port := port\<rparr>) (upd_sock_meta sid (\<lambda>m. m\<lparr>mt_auto_bound := 1\<rparr>) c1))))"

definition sock_autobind_ip :: "tcp_slow_context \<Rightarrow> u32 \<Rightarrow> int \<times> tcp_slow_context" where
  "sock_autobind_ip c sid = (0, upd_sock sid (\<lambda>s. s\<lparr>tk_local_ip := sl_local_ip c\<rparr>) c)"

definition sock_connect_start :: "slow_env \<Rightarrow> tcp_slow_context \<Rightarrow> u32 \<Rightarrow> u32 \<Rightarrow> u16 \<Rightarrow> int \<times> tcp_slow_context" where
  "sock_connect_start ev c sid remote_ip remote_port =
     (let c1 = upd_sock sid (\<lambda>s. s\<lparr>tk_remote_ip := remote_ip, tk_remote_port := remote_port, tk_tx_seq := 1, tk_tx_pending := 1,
                 tk_rx_seq := 0, tk_state := TCP_SOCK_STATE_SYN_SENT,
                 tk_flags := (if tcp_cc_ecn_enabled c then tk_flags s OR TCP_SOCK_FLAG_ECN else tk_flags s AND NOT TCP_SOCK_FLAG_ECN)\<rparr>) c
      in case tcp_flow_insert c1 sid of (r2, c2) \<Rightarrow>
        if r2 \<noteq> 0 then (-1, tcp_sock_connect_fail c2 sid ENOBUFS)
        else let flags = (if tk_flags (sl_socks c2 sid) AND TCP_SOCK_FLAG_ECN \<noteq> 0
                          then TAS_TCP_SYN OR (TAS_TCP_ECE OR TAS_TCP_CWR) else TAS_TCP_SYN)
        in (case tcp_ctl_tx c2 sid flags of (r3, c3) \<Rightarrow>
          if r3 \<noteq> 0 then (-1, tcp_sock_connect_fail c3 sid EAGAIN)
          else (case tcp_timeout_arm ev c3 sid TCP_RETX_SYN of (r4, c4) \<Rightarrow>
            if r4 \<noteq> 0 then (-1, tcp_sock_connect_fail c4 sid ENOBUFS) else (0, c4))))"

definition sock_accept_own :: "slow_env \<Rightarrow> tcp_slow_context \<Rightarrow> u32 \<Rightarrow> actx \<Rightarrow> u64 \<Rightarrow> tcp_slow_context" where
  "sock_accept_own ev c sid a opaque =
     (let x = get_actx c a;
          c1 = upd_sock sid (\<lambda>s. s\<lparr>tk_opaque := opaque, tk_app_bump_qid := ax_app_bump_qs x (tk_core s),
                 tk_app_id := ap_id (sl_apps c (fst a)), tk_ctx_id := ax_id x\<rparr>) c;
          c2 = upd_sock_meta sid (\<lambda>m. m\<lparr>mt_listener_id := ID_INVALID\<rparr>) c1;
          c3 = upd_sock sid (\<lambda>s. s\<lparr>tk_state := TCP_SOCK_STATE_ESTABLISHED\<rparr>) c2
      in tcp_sock_cc_init ev c3 sid)"

definition sock_shutdown_start :: "slow_env \<Rightarrow> tcp_slow_context \<Rightarrow> u32 \<Rightarrow> int \<times> tcp_slow_context" where
  "sock_shutdown_start ev c sid =
     (let c1 = upd_sock sid (\<lambda>s. s\<lparr>tk_flags := tk_flags s OR (TCP_SOCK_FLAG_SHUT_RD OR TCP_SOCK_FLAG_SHUT_WR),
                 tk_state := TCP_SOCK_STATE_FIN_WAIT1\<rparr>) c
      in case tcp_ctl_tx c1 sid (TAS_TCP_FIN OR TAS_TCP_ACK) of (r2, c2) \<Rightarrow>
        if r2 \<noteq> 0 then (-1, tcp_sock_close_final c2 sid)
        else (case tcp_timeout_arm ev c2 sid TCP_RETX_FIN of (r3, c3) \<Rightarrow>
          if r3 \<noteq> 0 then (-1, tcp_sock_close_final c3 sid) else (0, c3)))"

definition sock_abort_open :: "tcp_slow_context \<Rightarrow> u32 \<Rightarrow> tcp_slow_context" where
  "sock_abort_open c sid =
     (let s = sl_socks c sid;
          c1 = (if tk_remote_port s \<noteq> 0
                then snd (tcp_ctl_tx c sid (if tk_rx_seq s = 0 then TAS_TCP_RST else TAS_TCP_RST OR TAS_TCP_ACK)) else c)
      in tcp_sock_close_final c1 sid)"

definition sock_close_listen :: "tcp_slow_context \<Rightarrow> u32 \<Rightarrow> tcp_slow_context" where
  "sock_close_listen c sid =
     (let c1 = tcp_listener_remove c (tk_local_port (sl_socks c sid)) (tk_id (sl_socks c sid));
          c2 = tcp_listener_abort_children c1 sid;
          c3 = tcp_listener_reset c2 (tk_id (sl_socks c2 sid))
      in tcp_sock_close_final c3 sid)"

section \<open>Requests\<close>

definition app_new_sock :: "slow_env \<Rightarrow> tcp_slow_context \<Rightarrow> actx \<Rightarrow> u64 \<Rightarrow> int \<times> tcp_slow_context" where
  "app_new_sock ev c a opaque =
     (case tcp_sock_alloc ev c opaque (ap_id (sl_apps c (fst a))) (ax_id (get_actx c a)) (ax_app_bump_qs (get_actx c a) 0) of (r, c1) \<Rightarrow>
        (case r of None \<Rightarrow> (-1, c1)
         | Some sid \<Rightarrow> app_put c1 a (A_new_sock_res (tcp_sock_new_res_fill (sl_socks c1 sid))) TCP_QUEUE_NEW_SOCK_RES))"

definition app_has_room :: "tcp_slow_context \<Rightarrow> actx \<Rightarrow> bool" where
  "app_has_room c a \<longleftrightarrow> queue_tail (fst (ax_slow_app_q (get_actx c a))) (snd (ax_slow_app_q (get_actx c a))) \<noteq> None"

definition app_setopt :: "tcp_slow_context \<Rightarrow> actx \<Rightarrow> tcp_queue_setopt_req \<Rightarrow> int \<times> tcp_slow_context" where
  "app_setopt c a req =
     (if \<not> app_has_room c a then (-1, c)
      else let success = (sq_sock_id req < sl_n_socks c \<and> sq_opt req = SO_REUSEPORT);
               c1 = (if success then upd_sock (sq_sock_id req) (\<lambda>s. s\<lparr>tk_reuport := 1\<rparr>) c else c)
           in case app_put c1 a (A_setopt_res \<lparr>ss_success = of_bool success, ss_opaque = sq_opaque req\<rparr>) TCP_QUEUE_SETOPT_RES of (ret, c2) \<Rightarrow>
                (if ret \<noteq> 0 then -1 else if success then 0 else -1, c2))"

definition bind_sock :: "tcp_slow_context \<Rightarrow> u32 \<Rightarrow> u32 \<Rightarrow> u16 \<Rightarrow> bool \<times> tcp_slow_context" where
  "bind_sock c sid local_ip local_port =
     (case (if tk_local_port (sl_socks c sid) = 0 then sock_autobind_port c sid else (0, c)) of (port_autobind, c1) \<Rightarrow>
        (case (if tk_local_ip (sl_socks c1 sid) = 0 then sock_autobind_ip c1 sid else (0, c1)) of (ip_autobind, c2) \<Rightarrow>
           if port_autobind = 0 \<and> ip_autobind = 0
           then (True, upd_sock sid (\<lambda>s. s\<lparr>tk_local_ip := local_ip, tk_local_port := local_port\<rparr>) c2)
           else (False, c2)))"

definition app_bind :: "tcp_slow_context \<Rightarrow> actx \<Rightarrow> tcp_queue_bind_req \<Rightarrow> int \<times> tcp_slow_context" where
  "app_bind c a req =
     (if \<not> app_has_room c a then (-1, c)
      else let port = unat (bq_local_port req);
               is_port_valid = (MIN_PORT \<le> port \<and> port \<le> MAX_PORT \<or> port = 0);
               (success, c1) = (if bq_sock_id req < sl_n_socks c \<and> is_port_valid
                                then bind_sock c (bq_sock_id req) (bq_local_ip req) (bq_local_port req) else (False, c))
           in case app_put c1 a (A_bind_res \<lparr>bs_success = of_bool success, bs_opaque = bq_opaque req\<rparr>) TCP_QUEUE_BIND_RES of (ret, c2) \<Rightarrow>
                (if ret \<noteq> 0 then -1 else if success then 0 else -1, c2))"

definition app_connect :: "slow_env \<Rightarrow> tcp_slow_context \<Rightarrow> actx \<Rightarrow> tcp_queue_connect_req \<Rightarrow> int \<times> tcp_slow_context" where
  "app_connect ev c a req =
     (if cq_sock_id req \<ge> sl_n_socks c \<or> cq_remote_port req = 0 then (-1, snd (tcp_app_connect_res c a (cq_opaque req) EINVAL None))
      else let sid = cq_sock_id req; s = sl_socks c sid
      in if tk_state s = TCP_SOCK_STATE_LISTEN then (-1, snd (tcp_app_connect_res c a (tk_opaque s) EOPNOTSUPP (Some s)))
      else (case (if tk_local_port s = 0 then sock_autobind_port c sid else (0, c)) of (r1, c1) \<Rightarrow>
        if r1 \<noteq> 0 then (-1, snd (tcp_app_connect_res c1 a (tk_opaque s) EADDRINUSE (Some (sl_socks c1 sid))))
        else (case (if tk_local_ip (sl_socks c1 sid) = 0 then sock_autobind_ip c1 sid else (0, c1)) of (r2, c2) \<Rightarrow>
          if r2 \<noteq> 0 then (-1, snd (tcp_app_connect_res c2 a (tk_opaque s) EADDRINUSE (Some (sl_socks c2 sid))))
          else sock_connect_start ev c2 sid (cq_remote_ip req) (cq_remote_port req))))"

text \<open>An active listener keeps its ready array, whatever the new backlog is.\<close>

definition app_listen :: "slow_env \<Rightarrow> tcp_slow_context \<Rightarrow> actx \<Rightarrow> tcp_queue_listen_req \<Rightarrow> int \<times> tcp_slow_context" where
  "app_listen ev c a req =
     (if lq_sock_id req \<ge> sl_n_socks c then tcp_app_listen_res c a (lq_opaque req) EBADF
      else let sid = lq_sock_id req; s = sl_socks c sid
      in if tk_local_port s = 0 then tcp_app_listen_res c a (lq_opaque req) EINVAL
      else (case tcp_listener_insert c (tk_local_port s) (tk_id s) (tk_reuport s \<noteq> 0) of (ret, c1) \<Rightarrow>
        if ret \<noteq> 0 then tcp_app_listen_res c1 a (lq_opaque req) (- ret)
        else let l = sl_listeners c1 (tk_id s)
        in if ls_active l = 0 \<and> \<not> ev_calloc ev
           then tcp_app_listen_res (tcp_listener_remove (upd_listener (tk_id s) (\<lambda>l. l\<lparr>ls_ready_sids := None\<rparr>) c1) (tk_local_port s) (tk_id s))
                  a (lq_opaque req) ENOMEM
           else let ready = (if ls_active l = 0 then Some (replicate (unat (lq_backlog req)) ID_INVALID) else ls_ready_sids l);
                    c2 = upd_listener (tk_id s) (\<lambda>_. \<lparr>ls_active = 1, ls_sock_id = tk_id s, ls_backlog_len = lq_backlog req,
                           ls_backlog_used = 0, ls_ready_head = 0, ls_ready_used = 0, ls_ready_sids = ready\<rparr>) c1;
                    c3 = upd_sock sid (\<lambda>s. s\<lparr>tk_state := TCP_SOCK_STATE_LISTEN\<rparr>) c2
                in tcp_app_listen_res c3 a (lq_opaque req) 0))"

definition app_accept_err :: "tcp_slow_context \<Rightarrow> actx \<Rightarrow> tcp_sock option \<Rightarrow> u64 \<Rightarrow> int \<Rightarrow> int \<times> tcp_slow_context" where
  "app_accept_err c a listen_sock opaque err =
     tcp_app_accept_res c a (case listen_sock of None \<Rightarrow> tcp_sock_zero | Some s \<Rightarrow> s) (tcp_sock_zero\<lparr>tk_opaque := opaque\<rparr>) err"

definition app_accept :: "slow_env \<Rightarrow> tcp_slow_context \<Rightarrow> actx \<Rightarrow> tcp_queue_accept_req \<Rightarrow> int \<times> tcp_slow_context" where
  "app_accept ev c a req =
     (if aq_sock_id req \<ge> sl_n_socks c then app_accept_err c a None (aq_opaque req) EBADF
      else let lsid = aq_sock_id req; ls = sl_socks c lsid
      in if tk_state ls \<noteq> TCP_SOCK_STATE_LISTEN then app_accept_err c a (Some ls) (aq_opaque req) EINVAL
      else (case tcp_listener_ready_pop c (tk_id ls) of (r, c1) \<Rightarrow>
        (case r of None \<Rightarrow> app_accept_err c1 a (Some ls) (aq_opaque req) EAGAIN
         | Some sid \<Rightarrow>
           let c2 = sock_accept_own ev c1 sid a (aq_opaque req);
               c3 = upd_listener (tk_id ls) listener_backlog_put c2
           in tcp_app_accept_res c3 a (sl_socks c3 lsid) (sl_socks c3 sid) 0)))"

definition app_shutdown :: "slow_env \<Rightarrow> tcp_slow_context \<Rightarrow> tcp_queue_shutdown_req \<Rightarrow> int \<times> tcp_slow_context" where
  "app_shutdown ev c req =
     (if hq_sock_id req \<ge> sl_n_socks c then (-1, c)
      else if hq_how req \<noteq> SHUT_RDWR \<or> tk_state (sl_socks c (hq_sock_id req)) \<noteq> TCP_SOCK_STATE_ESTABLISHED then (-1, c)
      else sock_shutdown_start ev c (hq_sock_id req))"

definition app_close :: "slow_env \<Rightarrow> tcp_slow_context \<Rightarrow> tcp_queue_close_req \<Rightarrow> int \<times> tcp_slow_context" where
  "app_close ev c req =
     (if xq_sock_id req \<ge> sl_n_socks c then (-1, c)
      else let sid = xq_sock_id req; st = tk_state (sl_socks c sid)
      in if st = TCP_SOCK_STATE_LISTEN then (0, sock_close_listen c sid)
         else if st = TCP_SOCK_STATE_SYN_SENT \<or> st = TCP_SOCK_STATE_SYN_RECV \<or> st = TCP_SOCK_STATE_ACCEPT_PENDING
         then (0, sock_abort_open c sid)
         else if st = TCP_SOCK_STATE_ESTABLISHED then sock_shutdown_start ev c sid
         else (0, tcp_sock_close_final c sid))"

section \<open>Polling the applications\<close>

text \<open>The message is selected by the type of its slot; other types are only warned about.\<close>

definition app_msg :: "slow_env \<Rightarrow> actx \<Rightarrow> tcp_app_data qslot \<Rightarrow> tcp_slow_context \<Rightarrow> tcp_slow_context" where
  "app_msg ev a qe c =
     (case (qs_type qe, qs_data qe) of
        (ty, A_new_sock_req r) \<Rightarrow> if ty = TCP_QUEUE_NEW_SOCK_REQ then snd (app_new_sock ev c a r) else c
      | (ty, A_setopt_req r) \<Rightarrow> if ty = TCP_QUEUE_SETOPT_REQ then snd (app_setopt c a r) else c
      | (ty, A_bind_req r) \<Rightarrow> if ty = TCP_QUEUE_BIND_REQ then snd (app_bind c a r) else c
      | (ty, A_connect_req r) \<Rightarrow> if ty = TCP_QUEUE_CONNECT_REQ then snd (app_connect ev c a r) else c
      | (ty, A_listen_req r) \<Rightarrow> if ty = TCP_QUEUE_LISTEN_REQ then snd (app_listen ev c a r) else c
      | (ty, A_accept_req r) \<Rightarrow> if ty = TCP_QUEUE_ACCEPT_REQ then snd (app_accept ev c a r) else c
      | (ty, A_shutdown_req r) \<Rightarrow> if ty = TCP_QUEUE_SHUTDOWN_REQ then snd (app_shutdown ev c r) else c
      | (ty, A_close_req r) \<Rightarrow> if ty = TCP_QUEUE_CLOSE_REQ then snd (app_close ev c r) else c
      | _ \<Rightarrow> c)"

definition actx_dequeue :: "actx \<Rightarrow> tcp_slow_context \<Rightarrow> tcp_slow_context" where
  "actx_dequeue a c = upd_actx a (\<lambda>x. x\<lparr>ax_app_slow_q := snd (queue_dequeue (fst (ax_app_slow_q x)) (snd (ax_app_slow_q x)))\<rparr>) c"

definition app_next_ctx :: "u8 \<Rightarrow> tcp_slow_context \<Rightarrow> tcp_slow_context" where
  "app_next_ctx aid c = c\<lparr>sl_apps := (sl_apps c)(aid := (sl_apps c aid)\<lparr>ap_next_ctx := (ap_next_ctx (sl_apps c aid) + 1) mod ap_n_ctxs (sl_apps c aid)\<rparr>)\<rparr>"

text \<open>
  The loop of \<^verbatim>\<open>tcp_app_poll\<close>; \<open>app_nr\<close> and \<open>ctx_nr\<close> count the applications and contexts seen.
  Every iteration handles a message, or moves to the next application, or to the next context.
\<close>

function app_loop :: "(nat \<Rightarrow> slow_env) \<Rightarrow> nat \<Rightarrow> nat \<Rightarrow> nat \<Rightarrow> tcp_slow_context \<Rightarrow> tcp_slow_context" where
  "app_loop ev msg_nr app_nr ctx_nr c =
     (if msg_nr < SLOW_BATCH_SIZE \<and> sl_n_apps c \<noteq> 0
      then let next = (ctx_nr \<ge> unat (ap_n_ctxs (sl_apps c (sl_next_app c))));
               app_nr1 = (if next then app_nr + 1 else app_nr);
               c1 = (if next then c\<lparr>sl_next_app := (sl_next_app c + 1) mod sl_n_apps c\<rparr> else c);
               aid = sl_next_app c1; app = sl_apps c1 aid; a = (aid, ap_next_ctx app)
           in if app_nr1 \<ge> unat (sl_n_apps c1) \<or> ap_n_ctxs app = 0 then c1
              else (case queue_head (fst (ax_app_slow_q (get_actx c1 a))) (snd (ax_app_slow_q (get_actx c1 a))) of
                      None \<Rightarrow> app_loop ev msg_nr app_nr1 (ctx_nr + 1) (app_next_ctx aid c1)
                    | Some pos \<Rightarrow> app_loop ev (msg_nr + 1) app_nr1 ctx_nr
                        (actx_dequeue a (app_msg (ev msg_nr) a (snd (ax_app_slow_q (get_actx c1 a)) pos) c1)))
      else c)"
  by auto
termination
  by (relation "measures [\<lambda>(ev, m, an, cn, c). SLOW_BATCH_SIZE - m, \<lambda>(ev, m, an, cn, c). unat (sl_n_apps c) - an, \<lambda>(ev, m, an, cn, c). 256 - cn]")
     (auto simp: app_next_ctx_def dest: below_u8)

declare app_loop.simps [simp del]

definition tcp_app_poll :: "(nat \<Rightarrow> slow_env) \<Rightarrow> tcp_slow_context \<Rightarrow> tcp_slow_context" where
  "tcp_app_poll ev c = app_loop ev 0 0 0 c"

end
