(* ===== verification/Tcp_CC.thy ===== *)
theory Tcp_CC
  imports Tcp_Slow_Ctl
begin

unbundle bit_operations_syntax

text \<open>
  Congestion control of the TCP slow path (\<^verbatim>\<open>protos/tcp/slow/tcp_cc.c\<close>): the control loop reads the
  counters the fast path keeps in each socket and sets the rate the fast path paces with. Counters
  and rates are 32 bits wide, products are computed in 64 bits.
\<close>

section \<open>Counters\<close>

abbreviation CC_MAX :: u32 where "CC_MAX \<equiv> 0xffffffff"
abbreviation CC_MAX64 :: u64 where "CC_MAX64 \<equiv> 0xffffffff"
abbreviation TCP_CC_BATCH :: u32 where "TCP_CC_BATCH \<equiv> 128"

record tcp_cc_stats =
  st_drops :: u32
  st_acks :: u32
  st_ackb :: u32
  st_ecnb :: u32
  st_rtt :: u32
  st_tx_pending :: bool

definition cc_stats_read :: "tcp_configuration \<Rightarrow> tcp_sock \<Rightarrow> tcp_sock_meta_slow \<Rightarrow> tcp_cc_stats" where
  "cc_stats_read cf s m =
     \<lparr>st_drops = tk_cc_drops s - mt_cc_last_drops m, st_acks = tk_cc_acks s - mt_cc_last_acks m,
      st_ackb = tk_cc_ackb s - mt_cc_last_ackb m, st_ecnb = tk_cc_ecnb s - mt_cc_last_ecnb m,
      st_rtt = (if tk_rtt_est s \<noteq> 0 then tk_rtt_est s else if mt_cc_rtt m \<noteq> 0 then mt_cc_rtt m else cf_cc_rtt_init cf),
      st_tx_pending = (tk_tx_pending s \<noteq> 0)\<rparr>"

definition cc_stats_commit :: "tcp_slow_context \<Rightarrow> u32 \<Rightarrow> tcp_cc_stats \<Rightarrow> tcp_slow_context" where
  "cc_stats_commit c sid st =
     (let s = sl_socks c sid;
          c1 = upd_sock_meta sid (\<lambda>m. m\<lparr>mt_cc_last_drops := tk_cc_drops s, mt_cc_last_acks := tk_cc_acks s,
                 mt_cc_last_ackb := tk_cc_ackb s, mt_cc_last_ecnb := tk_cc_ecnb s\<rparr>) c
      in c1\<lparr>sl_stats_drops := sl_stats_drops c1 + ucast (st_drops st), sl_stats_acks_rx := sl_stats_acks_rx c1 + ucast (st_acks st)\<rparr>)"

definition cc_rtt :: "tcp_configuration \<Rightarrow> tcp_cc_stats \<Rightarrow> u32" where
  "cc_rtt cf st = (if st_rtt st \<noteq> 0 then st_rtt st else cf_cc_rtt_init cf)"

section \<open>DCTCP\<close>

definition dctcp_act_rate :: "u32 \<Rightarrow> u64 \<Rightarrow> u32" where
  "dctcp_act_rate ackb elapsed_us = (if elapsed_us = 0 then 0 else ucast ((ucast ackb * 8 * 1000) div elapsed_us))"

definition dctcp_ecn_rate :: "tcp_configuration \<Rightarrow> u32 \<Rightarrow> u32 \<Rightarrow> u32 \<Rightarrow> u32" where
  "dctcp_ecn_rate cf prev ecnb ackb =
     (let r0 = (ucast ecnb * CC_MAX64) div ucast ackb;
          r1 = r0 * ucast (cf_cc_dctcp_weight cf) + ucast prev * ucast (CC_MAX - cf_cc_dctcp_weight cf)
      in ucast (r1 div CC_MAX64))"

text \<open>The measured rate, its moving average, and the rate capped at 1.2 times the larger of the two.\<close>

definition dctcp_clamp :: "u32 \<Rightarrow> u32 \<Rightarrow> u32" where
  "dctcp_clamp rate act_rate =
     (let cap = (ucast act_rate * 12 div 10 :: u64) in if (ucast rate :: u64) > cap then ucast cap else rate)"

text \<open>The decrease and increase steps outside slow start, with the updated average of the ECN share.\<close>

definition dctcp_adjust :: "tcp_configuration \<Rightarrow> tcp_sock_meta_slow \<Rightarrow> u32 \<Rightarrow> u32 \<Rightarrow> u32 \<Rightarrow> u32 \<Rightarrow> u32 \<times> tcp_sock_meta_slow" where
  "dctcp_adjust cf m rate drops ecnb0 ackb =
     (if drops > 0 \<or> mt_cc_rexmits m > 0 then (rate div 2, m)
      else let ecnb = (if ackb > 0 \<and> ecnb0 > ackb then ackb else ecnb0);
               m1 = (if ackb > 0 then m\<lparr>mt_dctcp_ecn_rate := dctcp_ecn_rate cf (mt_dctcp_ecn_rate m) ecnb ackb\<rparr> else m)
           in if ecnb > 0
              then (ucast ((ucast rate * ucast (CC_MAX - mt_dctcp_ecn_rate m1 div 2)) div CC_MAX64), m1)
              else if cf_cc_dctcp_mimd cf = 0
              then (if CC_MAX - rate < cf_cc_dctcp_step cf then CC_MAX else rate + cf_cc_dctcp_step cf, m1)
              else let stp = (ucast rate * ucast (cf_cc_dctcp_mimd cf)) div CC_MAX64
                   in (if stp > ucast (CC_MAX - rate) then CC_MAX else rate + ucast stp, m1))"

definition dctcp_next :: "tcp_configuration \<Rightarrow> u32 \<Rightarrow> tcp_sock_meta_slow \<Rightarrow> u32 \<Rightarrow> u32 \<Rightarrow> u32 \<Rightarrow> u32 \<times> tcp_sock_meta_slow" where
  "dctcp_next cf rate m1 ecnb ackb drops =
     (let quiet = (drops = 0 \<and> ecnb = 0 \<and> mt_cc_rexmits m1 = 0);
          (rate1, m2) = (if mt_dctcp_slowstart m1 \<noteq> 0
             then (if quiet then (if (ucast rate :: u64) * 2 \<le> CC_MAX64 then rate * 2 else CC_MAX, m1)
                   else (rate, m1\<lparr>mt_dctcp_slowstart := 0\<rparr>))
             else (rate, m1));
          (rate2, m3) = (if mt_dctcp_slowstart m2 = 0 then dctcp_adjust cf m2 rate1 drops ecnb ackb else (rate1, m2));
          rate3 = (if rate2 < cf_cc_dctcp_min cf then cf_cc_dctcp_min cf else rate2)
      in (rate3, m3\<lparr>mt_cc_rexmits := 0\<rparr>))"

definition dctcp_control :: "tcp_configuration \<Rightarrow> u32 \<Rightarrow> tcp_sock_meta_slow \<Rightarrow> u32 \<Rightarrow> u32 \<Rightarrow> u32 \<Rightarrow> u64 \<Rightarrow> u32 \<times> tcp_sock_meta_slow" where
  "dctcp_control cf cc_rate m ecnb ackb drops elapsed_us =
     (let act = dctcp_act_rate ackb elapsed_us;
          m1 = m\<lparr>mt_dctcp_act_rate := (7 * mt_dctcp_act_rate m + act) div 8\<rparr>;
          act_rate = (if act \<ge> mt_dctcp_act_rate m1 then act else mt_dctcp_act_rate m1)
      in dctcp_next cf (dctcp_clamp cc_rate act_rate) m1 ecnb ackb drops)"

text \<open>Too few acknowledgements are only accumulated.\<close>

definition sock_on_dctcp_tick :: "tcp_slow_context \<Rightarrow> u32 \<Rightarrow> tcp_cc_stats \<Rightarrow> u64 \<Rightarrow> tcp_slow_context" where
  "sock_on_dctcp_tick c sid st elapsed_us =
     (let cf = sl_config c;
          m = (tcp_sock_meta c sid)\<lparr>mt_cc_rtt := cc_rtt cf st\<rparr>;
          ecnb = mt_dctcp_unproc_ecnb m + st_ecnb st; acks = mt_dctcp_unproc_acks m + st_acks st;
          ackb = mt_dctcp_unproc_ackb m + st_ackb st; drops = mt_dctcp_unproc_drops m + st_drops st
      in if acks < cf_cc_dctcp_minpkts cf
         then upd_sock_meta sid (\<lambda>_. m\<lparr>mt_dctcp_unproc_ecnb := ecnb, mt_dctcp_unproc_acks := acks, mt_dctcp_unproc_ackb := ackb,
                mt_dctcp_unproc_drops := drops\<rparr>) c
         else let m1 = m\<lparr>mt_dctcp_unproc_ecnb := 0, mt_dctcp_unproc_acks := 0, mt_dctcp_unproc_ackb := 0, mt_dctcp_unproc_drops := 0\<rparr>
              in case dctcp_control cf (tk_cc_rate (sl_socks c sid)) m1 ecnb ackb drops elapsed_us of (rate, m2) \<Rightarrow>
                   upd_sock sid (\<lambda>s. s\<lparr>tk_cc_rate := rate\<rparr>) (upd_sock_meta sid (\<lambda>_. m2) c))"

section \<open>The control loop\<close>

definition sock_on_const_rate_tick :: "tcp_slow_context \<Rightarrow> u32 \<Rightarrow> tcp_cc_stats \<Rightarrow> tcp_slow_context" where
  "sock_on_const_rate_tick c sid st =
     upd_sock_meta sid (\<lambda>m. m\<lparr>mt_cc_rtt := cc_rtt (sl_config c) st, mt_cc_rexmits := 0\<rparr>)
       (upd_sock sid (\<lambda>s. s\<lparr>tk_cc_rate := cf_cc_const_rate (sl_config c)\<rparr>) c)"

definition sock_on_cc_tick :: "tcp_slow_context \<Rightarrow> u32 \<Rightarrow> tcp_cc_stats \<Rightarrow> u64 \<Rightarrow> tcp_slow_context" where
  "sock_on_cc_tick c sid st elapsed_us =
     (if cf_cc_algorithm (sl_config c) = TCP_CC_ALGO_CONST_RATE then sock_on_const_rate_tick c sid st
      else if cf_cc_algorithm (sl_config c) = TCP_CC_ALGO_DCTCP_RATE then sock_on_dctcp_tick c sid st elapsed_us
      else upd_sock_meta sid (\<lambda>m. m\<lparr>mt_cc_rexmits := 0, mt_cc_rtt := cf_cc_rtt_init (sl_config c)\<rparr>)
             (upd_sock sid (\<lambda>s. s\<lparr>tk_cc_rate := 0\<rparr>) c))"

definition sock_on_tx_stall :: "slow_env \<Rightarrow> tcp_slow_context \<Rightarrow> u32 \<Rightarrow> tcp_cc_stats \<Rightarrow> u64 \<Rightarrow> tcp_slow_context" where
  "sock_on_tx_stall ev c sid st now_tsc =
     (let s = sl_socks c sid; m = tcp_sock_meta c sid; cf = sl_config c; rtt = cc_rtt cf st;
          none = upd_sock_meta sid (\<lambda>m. m\<lparr>mt_cnt_tx_pending := 0\<rparr>) c
      in if tk_tx_rexmit_seq s \<noteq> tk_tx_rexmit_end_seq s then none
         else if st_tx_pending st \<and> st_ackb st = 0
         then let cnt = mt_cnt_tx_pending m; c1 = upd_sock_meta sid (\<lambda>m. m\<lparr>mt_cnt_tx_pending := cnt + 1\<rparr>) c
              in if cnt = 0 then upd_sock_meta sid (\<lambda>m. m\<lparr>mt_ts_tx_pending := now_tsc\<rparr>) c1
                 else if cnt + 1 \<ge> cf_cc_remit_ints cf \<and> ev_since ev (mt_ts_tx_pending m) \<ge> 2 * ucast rtt
                 then (case tcp_tx_retransmit c1 sid of (ret, c2) \<Rightarrow>
                         if ret = 0
                         then (upd_sock_meta sid (\<lambda>m. m\<lparr>mt_cnt_tx_pending := 0, mt_cc_rexmits := mt_cc_rexmits m + 1\<rparr>) c2)
                                \<lparr>sl_stats_retx := sl_stats_retx c2 + 1\<rparr>
                         else c2)
                 else c1
         else none)"

definition cc_poll_sock :: "u64 \<Rightarrow> slow_env \<Rightarrow> nat \<times> tcp_slow_context \<Rightarrow> nat \<times> tcp_slow_context" where
  "cc_poll_sock now_tsc ev = (\<lambda>(nr, c).
     let sid = (if sl_cc_next_sock c \<ge> sl_n_socks c then 0 else sl_cc_next_sock c);
         c1 = c\<lparr>sl_cc_next_sock := sid + 1\<rparr>; s = sl_socks c1 sid; m = tcp_sock_meta c1 sid
     in if tk_state s \<noteq> TCP_SOCK_STATE_ESTABLISHED then (nr, c1)
        else if mt_cc_tsc m = 0 then (nr, upd_sock_meta sid (\<lambda>m. m\<lparr>mt_cc_tsc := now_tsc\<rparr>) c1)
        else let elapsed_us = ev_since ev (mt_cc_tsc m)
             in if elapsed_us < ucast (mt_cc_rtt m) * ucast (cf_cc_control_interval (sl_config c1)) then (nr, c1)
                else let st = cc_stats_read (sl_config c1) s m;
                         c2 = cc_stats_commit c1 sid st;
                         c3 = sock_on_cc_tick c2 sid st elapsed_us;
                         c4 = sock_on_tx_stall ev c3 sid st now_tsc
                     in (nr + 1, upd_sock_meta sid (\<lambda>m. m\<lparr>mt_cc_tsc := now_tsc\<rparr>) c4))"

definition tcp_cc_poll :: "slow_env \<Rightarrow> (nat \<Rightarrow> slow_env) \<Rightarrow> tcp_slow_context \<Rightarrow> nat \<times> tcp_slow_context" where
  "tcp_cc_poll ev0 ev c =
     (if sl_n_socks c = 0 then (0, c)
      else if sl_cc_poll_tsc c \<noteq> 0 \<and> ev_since ev0 (sl_cc_poll_tsc c) < ucast (cf_cc_control_granularity (sl_config c)) then (0, c)
      else let c1 = c\<lparr>sl_cc_poll_tsc := ev_now ev0\<rparr>;
               scanned = (if sl_n_socks c1 < TCP_CC_BATCH then sl_n_socks c1 else TCP_CC_BATCH)
           in fold (\<lambda>i. cc_poll_sock (ev_now ev0) (ev i)) [0 ..< unat scanned] (0, c1))"

section \<open>Exactness of the rate arithmetic\<close>

text \<open>
  The rates in unbounded arithmetic: \<open>UMAX\<close> is \<^verbatim>\<open>UINT_MAX\<close>, the scale of shares and weights. The ECN
  share of the acknowledged bytes enters a weighted average; a marked interval cuts the rate by half
  of that average.
\<close>

abbreviation UMAX :: nat where "UMAX \<equiv> 4294967295"

definition ecn_average :: "nat \<Rightarrow> nat \<Rightarrow> nat \<Rightarrow> nat \<Rightarrow> nat" where
  "ecn_average w prev ecnb ackb = (ecnb * UMAX div ackb * w + prev * (UMAX - w)) div UMAX"

definition rate_cap :: "nat \<Rightarrow> nat \<Rightarrow> nat" where
  "rate_cap rate act = min rate (act * 12 div 10)"

lemma u32_le_M: "unat (x :: u32) \<le> UMAX"
  using unat_32_bound [of x] by simp

lemma unat_M_minus: "unat (CC_MAX - x) = UMAX - unat (x :: u32)"
proof -
  have "x \<le> - 1" by simp
  then have "x \<le> CC_MAX" by (simp add: word_le_nat_alt unat_minus_one_32)
  then show ?thesis by (simp add: unat_sub)
qed

lemma unat_ucast_32_64 [simp]: "unat (ucast (x :: u32) :: u64) = unat x"
  by (rule unat_ucast_up) simp

lemma unat_ucast_64_32: "unat (x :: u64) \<le> UMAX \<Longrightarrow> unat (ucast x :: u32) = unat x"
  by (simp add: unsigned_ucast_eq take_bit_nat_eq_self)

lemma unat_mult_u32: "unat (ucast (x :: u32) * ucast (y :: u32) :: u64) = unat x * unat y"
proof -
  have "unat x * unat y \<le> UMAX * UMAX" by (intro mult_le_mono u32_le_M)
  then show ?thesis by (subst unat_mult_small) simp_all
qed

lemma scaled_le: "(x :: nat) * y div UMAX \<le> x" if "y \<le> UMAX"
proof -
  have "x * y div UMAX \<le> x * UMAX div UMAX" using that by (intro div_le_mono mult_le_mono2)
  then show ?thesis by simp
qed

lemma ecn_average_le: "ecnb \<le> ackb \<Longrightarrow> 0 < ackb \<Longrightarrow> w \<le> UMAX \<Longrightarrow> prev \<le> UMAX \<Longrightarrow>
  ecnb * UMAX div ackb \<le> UMAX \<and> ecnb * UMAX div ackb * w + prev * (UMAX - w) \<le> UMAX * UMAX \<and> ecn_average w prev ecnb ackb \<le> UMAX"
proof -
  assume a: "ecnb \<le> ackb" "0 < ackb" "w \<le> UMAX" "prev \<le> UMAX"
  have "ecnb * UMAX div ackb \<le> ackb * UMAX div ackb" using a by (intro div_le_mono mult_le_mono1)
  then have share: "ecnb * UMAX div ackb \<le> UMAX" using a by simp
  have "ecnb * UMAX div ackb * w + prev * (UMAX - w) \<le> UMAX * w + UMAX * (UMAX - w)"
    using share a by (intro add_mono mult_le_mono) auto
  also have "\<dots> = UMAX * UMAX" using a by (simp add: distrib_left [symmetric])
  finally have s: "ecnb * UMAX div ackb * w + prev * (UMAX - w) \<le> UMAX * UMAX" .
  then have "ecn_average w prev ecnb ackb \<le> UMAX * UMAX div UMAX" unfolding ecn_average_def by (rule div_le_mono)
  with share s show ?thesis by simp
qed

lemma dctcp_ecn_rate_exact:
  assumes "ecnb \<le> ackb" and "0 < ackb"
  shows "unat (dctcp_ecn_rate cf prev ecnb ackb) = ecn_average (unat (cf_cc_dctcp_weight cf)) (unat prev) (unat ecnb) (unat ackb)"
proof -
  let ?w = "cf_cc_dctcp_weight cf"
  have "unat ecnb \<le> unat ackb" "0 < unat ackb" using assms by (simp_all add: word_le_nat_alt unat_gt_0)
  from ecn_average_le [OF this u32_le_M [of ?w] u32_le_M [of prev]]
  have b: "unat ecnb * UMAX div unat ackb \<le> UMAX"
    "unat ecnb * UMAX div unat ackb * unat ?w + unat prev * (UMAX - unat ?w) \<le> UMAX * UMAX"
    "ecn_average (unat ?w) (unat prev) (unat ecnb) (unat ackb) \<le> UMAX" by auto
  have e: "unat (ucast ecnb * CC_MAX64) = unat ecnb * UMAX"
    using unat_mult_u32 [of ecnb CC_MAX] by simp
  define r0 where "r0 = (ucast ecnb * CC_MAX64) div (ucast ackb :: u64)"
  have r0: "unat r0 = unat ecnb * UMAX div unat ackb" by (simp add: r0_def unat_div e)
  have p: "unat (r0 * ucast ?w) = unat r0 * unat ?w" "unat (ucast prev * ucast (CC_MAX - ?w) :: u64) = unat prev * (UMAX - unat ?w)"
  proof -
    have "unat r0 * unat ?w \<le> UMAX * UMAX" unfolding r0 by (intro mult_le_mono b(1) u32_le_M)
    then show "unat (r0 * ucast ?w) = unat r0 * unat ?w" by (subst unat_mult_small) simp_all
    show "unat (ucast prev * ucast (CC_MAX - ?w) :: u64) = unat prev * (UMAX - unat ?w)"
      by (simp only: unat_mult_u32 unat_M_minus)
  qed
  have "unat (r0 * ucast ?w + ucast prev * ucast (CC_MAX - ?w)) = unat r0 * unat ?w + unat prev * (UMAX - unat ?w)"
    using b(2) by (subst unat_add_small) (simp_all add: p r0)
  then have d: "unat ((r0 * ucast ?w + ucast prev * ucast (CC_MAX - ?w)) div CC_MAX64) = ecn_average (unat ?w) (unat prev) (unat ecnb) (unat ackb)"
    by (simp add: unat_div ecn_average_def r0)
  then show ?thesis
    using b(3) by (simp add: dctcp_ecn_rate_def Let_def unat_ucast_64_32 flip: r0_def)
qed

lemma dctcp_clamp_exact: "unat (dctcp_clamp rate act) = rate_cap (unat rate) (unat act)"
proof -
  have m: "unat (ucast act * 12 :: u64) = unat act * 12"
    using unat_mult_u32 [of act 12] by simp
  have c: "unat (ucast act * 12 div 10 :: u64) = unat act * 12 div 10" by (simp add: unat_div m)
  show ?thesis
    using u32_le_M [of rate]
    by (auto simp: dctcp_clamp_def Let_def rate_cap_def word_less_nat_alt c unat_ucast_64_32)
qed

lemma unat_div2: "unat (x div 2 :: u32) = unat x div 2"
  by (simp add: unat_div)

lemma rate_cut_exact:
  "unat (ucast ((ucast (rate :: u32) * ucast (CC_MAX - e div 2)) div CC_MAX64) :: u32) = unat rate * (UMAX - unat (e :: u32) div 2) div UMAX"
proof -
  have "unat ((ucast rate * ucast (CC_MAX - e div 2)) div CC_MAX64) = unat rate * (UMAX - unat e div 2) div UMAX"
    by (simp add: unat_div unat_mult_u32 unat_M_minus unat_div2)
  moreover have "unat rate * (UMAX - unat e div 2) div UMAX \<le> unat rate" by (rule scaled_le) simp
  ultimately show ?thesis using u32_le_M [of rate] by (simp add: unat_ucast_64_32)
qed

lemma rate_step_exact: "unat (if CC_MAX - rate < stp then CC_MAX else rate + stp) = min UMAX (unat (rate :: u32) + unat stp)"
proof (cases "CC_MAX - rate < stp")
  case True
  then show ?thesis using u32_le_M [of rate] by (simp add: word_less_nat_alt unat_M_minus)
next
  case False
  then have "unat stp \<le> UMAX - unat rate" by (simp add: word_less_nat_alt unat_M_minus)
  then have le: "unat rate + unat stp \<le> UMAX" using u32_le_M [of rate] by linarith
  then have "unat (rate + stp) = unat rate + unat stp" by (intro unat_add_small) simp
  then show ?thesis using False le by simp
qed

lemma rate_double_exact: "unat (if (ucast (rate :: u32) :: u64) * 2 \<le> CC_MAX64 then rate * 2 else CC_MAX) = min UMAX (2 * unat rate)"
proof -
  have m: "unat ((ucast rate :: u64) * 2) = unat rate * 2" using unat_mult_u32 [of rate 2] by simp
  show ?thesis
  proof (cases "unat rate * 2 \<le> UMAX")
    case True
    then have "unat (rate * 2) = unat rate * 2" by (subst unat_mult_small) simp_all
    with True show ?thesis by (simp add: word_le_nat_alt m)
  next
    case False
    then show ?thesis by (simp add: word_le_nat_alt m)
  qed
qed

lemma unat_max_u32: "unat (max a b :: u32) = max (unat a) (unat b)"
  by (simp add: max_def word_le_nat_alt)

lemma lower_limit: "unat (if x < lo then lo else x :: u32) = max (unat lo) (unat x)"
  by (simp add: max_def word_less_nat_alt not_le)

lemmas dctcp_next_unfold = dctcp_next_def dctcp_adjust_def Let_def

lemma dctcp_next_min: "dctcp_next cf r m ecnb ackb drops = (r', m') \<Longrightarrow> unat (cf_cc_dctcp_min cf) \<le> unat r'"
  by (auto simp: dctcp_next_def Let_def word_le_nat_alt word_less_nat_alt not_less split: prod.splits)

lemma dctcp_next_leave:
  assumes "\<not> (drops = 0 \<and> ecnb = 0 \<and> mt_cc_rexmits m = 0)"
    and "dctcp_adjust cf (m\<lparr>mt_dctcp_slowstart := 0\<rparr>) r drops ecnb ackb = (d, m3)"
  shows "dctcp_next cf r m ecnb ackb drops = (if d < cf_cc_dctcp_min cf then cf_cc_dctcp_min cf else d, m3\<lparr>mt_cc_rexmits := 0\<rparr>)"
proof (cases "mt_dctcp_slowstart m = 0")
  case True
  then have "m\<lparr>mt_dctcp_slowstart := 0\<rparr> = m" by (cases m) simp
  then show ?thesis using assms(2) by (simp only: dctcp_next_def Let_def True if_True if_False prod.case not_True_eq_False simp_thms)
next
  case False
  have z: "mt_dctcp_slowstart (m\<lparr>mt_dctcp_slowstart := 0\<rparr>) = 0" by simp
  show ?thesis
    by (simp only: dctcp_next_def Let_def False assms if_True if_False prod.case z not_False_eq_True simp_thms)
qed

lemma dctcp_next_loss:
  assumes "dctcp_next cf r m ecnb ackb drops = (r', m')" and "0 < drops \<or> 0 < mt_cc_rexmits m"
  shows "unat r' = max (unat (cf_cc_dctcp_min cf)) (unat r div 2) \<and> mt_dctcp_slowstart m' = 0"
proof -
  have q: "\<not> (drops = 0 \<and> ecnb = 0 \<and> mt_cc_rexmits m = 0)" using assms(2) by auto
  have "dctcp_adjust cf (m\<lparr>mt_dctcp_slowstart := 0\<rparr>) r drops ecnb ackb = (r div 2, m\<lparr>mt_dctcp_slowstart := 0\<rparr>)"
    using assms(2) by (simp add: dctcp_adjust_def)
  from dctcp_next_leave [OF q this] show ?thesis using assms(1) by (auto simp: lower_limit unat_div2 simp del: not_less)
qed

lemma dctcp_next_slowstart:
  assumes "dctcp_next cf r m 0 ackb 0 = (r', m')" and "mt_cc_rexmits m = 0" and "mt_dctcp_slowstart m \<noteq> 0"
  shows "unat r' = max (unat (cf_cc_dctcp_min cf)) (min UMAX (2 * unat r))"
proof -
  define d where "d = (if (ucast r :: u64) * 2 \<le> CC_MAX64 then r * 2 else CC_MAX)"
  have "r' = (if d < cf_cc_dctcp_min cf then cf_cc_dctcp_min cf else d)"
    using assms by (simp add: dctcp_next_def Let_def flip: d_def)
  then have "unat r' = max (unat (cf_cc_dctcp_min cf)) (unat d)" by (simp only: lower_limit)
  then show ?thesis unfolding d_def rate_double_exact .
qed

lemma dctcp_next_step:
  assumes "dctcp_next cf r m 0 ackb 0 = (r', m')" and "mt_cc_rexmits m = 0" and "mt_dctcp_slowstart m = 0" and "cf_cc_dctcp_mimd cf = 0"
  shows "unat r' = max (unat (cf_cc_dctcp_min cf)) (min UMAX (unat r + unat (cf_cc_dctcp_step cf)))"
proof -
  define d where "d = (if CC_MAX - r < cf_cc_dctcp_step cf then CC_MAX else r + cf_cc_dctcp_step cf)"
  have "r' = (if d < cf_cc_dctcp_min cf then cf_cc_dctcp_min cf else d)"
    using assms by (simp add: dctcp_next_unfold flip: d_def)
  then have "unat r' = max (unat (cf_cc_dctcp_min cf)) (unat d)" by (simp only: lower_limit)
  then show ?thesis unfolding d_def rate_step_exact .
qed

lemma dctcp_next_marked:
  assumes "dctcp_next cf r m ecnb ackb 0 = (r', m')" and "mt_cc_rexmits m = 0" and "0 < ecnb" and "ecnb \<le> ackb"
  defines "e \<equiv> dctcp_ecn_rate cf (mt_dctcp_ecn_rate m) ecnb ackb"
  shows "unat r' = max (unat (cf_cc_dctcp_min cf)) (unat r * (UMAX - unat e div 2) div UMAX) \<and> mt_dctcp_ecn_rate m' = e \<and> mt_dctcp_slowstart m' = 0"
proof -
  have ackb: "0 < ackb" "ecnb \<noteq> 0" using assms(3,4) by (auto simp: word_less_nat_alt word_le_nat_alt)
  define d where "d = (ucast ((ucast r * ucast (CC_MAX - e div 2)) div CC_MAX64) :: u32)"
  have a: "dctcp_adjust cf (m\<lparr>mt_dctcp_slowstart := 0\<rparr>) r 0 ecnb ackb = (d, m\<lparr>mt_dctcp_slowstart := 0, mt_dctcp_ecn_rate := e\<rparr>)"
  proof -
    have c: "\<not> (0 < (0 :: u32) \<or> 0 < mt_cc_rexmits (m\<lparr>mt_dctcp_slowstart := 0\<rparr>))" "\<not> ackb < ecnb"
      "mt_dctcp_ecn_rate (m\<lparr>mt_dctcp_slowstart := 0\<rparr>) = mt_dctcp_ecn_rate m"
      using assms(2,4) by (auto simp: not_less)
    show ?thesis
      by (simp only: dctcp_adjust_def Let_def c if_False if_True ackb(1) assms(3) simp_thms flip: e_def) (simp add: d_def)
  qed
  have q: "\<not> (0 = (0 :: u32) \<and> ecnb = 0 \<and> mt_cc_rexmits m = 0)" using ackb(2) by simp
  have "(r', m') = (if d < cf_cc_dctcp_min cf then cf_cc_dctcp_min cf else d, m\<lparr>mt_dctcp_slowstart := 0, mt_dctcp_ecn_rate := e, mt_cc_rexmits := 0\<rparr>)"
    unfolding assms(1) [symmetric] by (rule dctcp_next_leave [OF q a])
  then have "unat r' = max (unat (cf_cc_dctcp_min cf)) (unat d)" "mt_dctcp_ecn_rate m' = e" "mt_dctcp_slowstart m' = 0"
    by (simp_all only: lower_limit prod.inject) simp_all
  then show ?thesis unfolding d_def rate_cut_exact by simp
qed

lemma half_cut: "e \<le> UMAX \<Longrightarrow> R div 2 \<le> R * (UMAX - e div 2) div UMAX"
proof -
  assume "e \<le> UMAX"
  then have "UMAX \<le> 2 * (UMAX - e div 2)" by simp
  then have "R * UMAX \<le> R * (2 * (UMAX - e div 2))" by (rule mult_le_mono2)
  then have le: "R * UMAX \<le> (R * (UMAX - e div 2)) * 2" by (simp only: mult.left_commute mult.commute)
  have "R * UMAX div UMAX div 2 \<le> (R * (UMAX - e div 2)) * 2 div UMAX div 2" by (intro div_le_mono le)
  also have "\<dots> = (R * (UMAX - e div 2)) * 2 div (2 * UMAX)" by (simp only: div_mult2_eq [symmetric] mult.commute)
  also have "\<dots> = R * (UMAX - e div 2) div UMAX" by (simp only: mult.commute [of _ 2] div_mult_mult1 zero_neq_numeral not_False_eq_True)
  finally show ?thesis by simp
qed

text \<open>
  What one control step does to the rate, in unbounded arithmetic: \<open>R\<close> is the current rate capped by
  1.2 times the measured one, \<open>lo\<close> the configured minimum.
\<close>

definition measured_rate :: "tcp_sock_meta_slow \<Rightarrow> u32 \<Rightarrow> u64 \<Rightarrow> nat" where
  "measured_rate m ackb el =
     (let act = dctcp_act_rate ackb el in max (unat act) (unat ((7 * mt_dctcp_act_rate m + act) div 8)))"

lemma dctcp_control_next:
  "\<exists>rate m1. dctcp_control cf r m ecnb ackb drops el = dctcp_next cf rate m1 ecnb ackb drops \<and>
     unat rate = rate_cap (unat r) (measured_rate m ackb el) \<and> mt_cc_rexmits m1 = mt_cc_rexmits m \<and>
     mt_dctcp_slowstart m1 = mt_dctcp_slowstart m \<and> mt_dctcp_ecn_rate m1 = mt_dctcp_ecn_rate m"
proof -
  define act where "act = dctcp_act_rate ackb el"
  define avg where "avg = (7 * mt_dctcp_act_rate m + act) div 8"
  have "unat (if act \<ge> avg then act else avg) = max (unat act) (unat avg)" by (simp add: word_le_nat_alt max_def)
  then show ?thesis
    by (intro exI [of _ "dctcp_clamp r (if act \<ge> avg then act else avg)"] exI [of _ "m\<lparr>mt_dctcp_act_rate := avg\<rparr>"])
      (simp only: dctcp_clamp_exact, simp add: dctcp_control_def measured_rate_def Let_def act_def avg_def)
qed


text \<open>A marked interval: 500 of 1000 bytes acknowledged in 100 microseconds were marked.\<close>

definition demo_cf :: tcp_configuration where
  "demo_cf = \<lparr>cf_rxbuf_sz = 8, cf_txbuf_sz = 8, cf_cc_rtt_init = 50, cf_cc_algorithm = 1, cf_cc_control_granularity = 50,
     cf_cc_control_interval = 2, cf_cc_remit_ints = 4, cf_cc_dctcp_weight = 0x80000000, cf_cc_dctcp_init = 10000, cf_cc_dctcp_step = 1000,
     cf_cc_dctcp_mimd = 0, cf_cc_dctcp_min = 1000, cf_cc_dctcp_minpkts = 1, cf_cc_const_rate = 0\<rparr>"

definition demo_meta :: tcp_sock_meta_slow where
  "demo_meta = \<lparr>mt_listener_id = -1, mt_auto_bound = 0, mt_timer = None, mt_retx_kind = 0, mt_retx_left = 0, mt_cc_tsc = 1, mt_cc_rtt = 50,
     mt_cc_last_drops = 0, mt_cc_last_acks = 0, mt_cc_last_ackb = 0, mt_cc_last_ecnb = 0, mt_cc_rexmits = 0, mt_cnt_tx_pending = 0,
     mt_ts_tx_pending = 0, mt_dctcp_unproc_acks = 0, mt_dctcp_unproc_ackb = 0, mt_dctcp_unproc_ecnb = 0, mt_dctcp_unproc_drops = 0,
     mt_dctcp_ecn_rate = 0, mt_dctcp_act_rate = 0, mt_dctcp_slowstart = 1\<rparr>"


end
