(* ===== verification/Tcp_Slow_Wf.thy ===== *)
theory Tcp_Slow_Wf
  imports Tcp_Slow_Rx Tcp_Slow_App Tcp_CC
begin

unbundle bit_operations_syntax

text \<open>
  The invariant of the TCP slow path and its preservation: the flow table lists exactly the
  connected sockets, each once and in the bucket of its 4-tuple; ready rings stay inside their
  arrays; pending timers belong to existing sockets.
\<close>

section \<open>What the operations leave alone\<close>

lemma upd_sock_proj [simp]:
  "sl_n_socks (upd_sock sid f c) = sl_n_socks c"
  "sl_flows (upd_sock sid f c) = sl_flows c"
  "sl_listeners (upd_sock sid f c) = sl_listeners c"
  "sl_meta (upd_sock sid f c) = sl_meta c"
  "sl_ports (upd_sock sid f c) = sl_ports c"
  "sl_tomgr (upd_sock sid f c) = sl_tomgr c"
  "sl_oob (upd_sock sid f c) = sl_oob c"
  "sl_config (upd_sock sid f c) = sl_config c"
  "sl_n_fp_cores (upd_sock sid f c) = sl_n_fp_cores c"
  "sl_local_ip (upd_sock sid f c) = sl_local_ip c"
  by (simp_all add: upd_sock_def)

lemma upd_meta_proj [simp]:
  "sl_n_socks (upd_meta sid f c) = sl_n_socks c"
  "sl_socks (upd_meta sid f c) = sl_socks c"
  "sl_flows (upd_meta sid f c) = sl_flows c"
  "sl_listeners (upd_meta sid f c) = sl_listeners c"
  "sl_ports (upd_meta sid f c) = sl_ports c"
  "sl_tomgr (upd_meta sid f c) = sl_tomgr c"
  "sl_oob (upd_meta sid f c) = sl_oob c"
  "sl_config (upd_meta sid f c) = sl_config c"
  "sl_n_fp_cores (upd_meta sid f c) = sl_n_fp_cores c"
  "sl_local_ip (upd_meta sid f c) = sl_local_ip c"
  by (simp_all add: upd_meta_def)

lemma upd_sock_meta_proj [simp]:
  "sl_n_socks (upd_sock_meta sid f c) = sl_n_socks c"
  "sl_socks (upd_sock_meta sid f c) = sl_socks c"
  "sl_flows (upd_sock_meta sid f c) = sl_flows c"
  "sl_listeners (upd_sock_meta sid f c) = sl_listeners c"
  "sl_ports (upd_sock_meta sid f c) = sl_ports c"
  "sl_tomgr (upd_sock_meta sid f c) = sl_tomgr c"
  "sl_oob (upd_sock_meta sid f c) = sl_oob c"
  "sl_config (upd_sock_meta sid f c) = sl_config c"
  "sl_n_fp_cores (upd_sock_meta sid f c) = sl_n_fp_cores c"
  "sl_local_ip (upd_sock_meta sid f c) = sl_local_ip c"
  by (simp_all add: upd_sock_meta_def)

lemma upd_listener_proj [simp]:
  "sl_n_socks (upd_listener lid f c) = sl_n_socks c"
  "sl_socks (upd_listener lid f c) = sl_socks c"
  "sl_flows (upd_listener lid f c) = sl_flows c"
  "sl_meta (upd_listener lid f c) = sl_meta c"
  "sl_ports (upd_listener lid f c) = sl_ports c"
  "sl_tomgr (upd_listener lid f c) = sl_tomgr c"
  "sl_oob (upd_listener lid f c) = sl_oob c"
  "sl_config (upd_listener lid f c) = sl_config c"
  "sl_n_fp_cores (upd_listener lid f c) = sl_n_fp_cores c"
  "sl_local_ip (upd_listener lid f c) = sl_local_ip c"
  by (simp_all add: upd_listener_def)

lemma upd_actx_proj [simp]:
  "sl_n_socks (upd_actx a f c) = sl_n_socks c"
  "sl_socks (upd_actx a f c) = sl_socks c"
  "sl_flows (upd_actx a f c) = sl_flows c"
  "sl_listeners (upd_actx a f c) = sl_listeners c"
  "sl_meta (upd_actx a f c) = sl_meta c"
  "sl_ports (upd_actx a f c) = sl_ports c"
  "sl_tomgr (upd_actx a f c) = sl_tomgr c"
  "sl_oob (upd_actx a f c) = sl_oob c"
  "sl_config (upd_actx a f c) = sl_config c"
  "sl_n_fp_cores (upd_actx a f c) = sl_n_fp_cores c"
  "sl_local_ip (upd_actx a f c) = sl_local_ip c"
  by (simp_all add: upd_actx_def)

lemma app_put_proj [simp]:
  "sl_n_socks (snd (app_put c a d ty)) = sl_n_socks c"
  "sl_socks (snd (app_put c a d ty)) = sl_socks c"
  "sl_flows (snd (app_put c a d ty)) = sl_flows c"
  "sl_listeners (snd (app_put c a d ty)) = sl_listeners c"
  "sl_meta (snd (app_put c a d ty)) = sl_meta c"
  "sl_ports (snd (app_put c a d ty)) = sl_ports c"
  "sl_tomgr (snd (app_put c a d ty)) = sl_tomgr c"
  "sl_oob (snd (app_put c a d ty)) = sl_oob c"
  "sl_config (snd (app_put c a d ty)) = sl_config c"
  "sl_n_fp_cores (snd (app_put c a d ty)) = sl_n_fp_cores c"
  "sl_local_ip (snd (app_put c a d ty)) = sl_local_ip c"
  by (simp_all add: app_put_def split: prod.splits)

lemma ctl_pkt_enqueue_proj [simp]:
  "sl_n_socks (snd (ctl_pkt_enqueue c s a b d e f g h w)) = sl_n_socks c"
  "sl_socks (snd (ctl_pkt_enqueue c s a b d e f g h w)) = sl_socks c"
  "sl_flows (snd (ctl_pkt_enqueue c s a b d e f g h w)) = sl_flows c"
  "sl_listeners (snd (ctl_pkt_enqueue c s a b d e f g h w)) = sl_listeners c"
  "sl_meta (snd (ctl_pkt_enqueue c s a b d e f g h w)) = sl_meta c"
  "sl_ports (snd (ctl_pkt_enqueue c s a b d e f g h w)) = sl_ports c"
  "sl_tomgr (snd (ctl_pkt_enqueue c s a b d e f g h w)) = sl_tomgr c"
  "sl_oob (snd (ctl_pkt_enqueue c s a b d e f g h w)) = sl_oob c"
  "sl_config (snd (ctl_pkt_enqueue c s a b d e f g h w)) = sl_config c"
  "sl_n_fp_cores (snd (ctl_pkt_enqueue c s a b d e f g h w)) = sl_n_fp_cores c"
  "sl_local_ip (snd (ctl_pkt_enqueue c s a b d e f g h w)) = sl_local_ip c"
  by (simp_all add: ctl_pkt_enqueue_def Let_def split: prod.splits option.splits)

lemma tcp_tx_retransmit_proj [simp]:
  "sl_n_socks (snd (tcp_tx_retransmit c sid)) = sl_n_socks c"
  "sl_socks (snd (tcp_tx_retransmit c sid)) = sl_socks c"
  "sl_flows (snd (tcp_tx_retransmit c sid)) = sl_flows c"
  "sl_listeners (snd (tcp_tx_retransmit c sid)) = sl_listeners c"
  "sl_meta (snd (tcp_tx_retransmit c sid)) = sl_meta c"
  "sl_ports (snd (tcp_tx_retransmit c sid)) = sl_ports c"
  "sl_tomgr (snd (tcp_tx_retransmit c sid)) = sl_tomgr c"
  "sl_oob (snd (tcp_tx_retransmit c sid)) = sl_oob c"
  "sl_config (snd (tcp_tx_retransmit c sid)) = sl_config c"
  "sl_n_fp_cores (snd (tcp_tx_retransmit c sid)) = sl_n_fp_cores c"
  "sl_local_ip (snd (tcp_tx_retransmit c sid)) = sl_local_ip c"
  by (simp_all add: tcp_tx_retransmit_def Let_def split: prod.splits)

lemma tcp_bound_remove_proj [simp]:
  "sl_n_socks (tcp_bound_remove c port sid) = sl_n_socks c"
  "sl_socks (tcp_bound_remove c port sid) = sl_socks c"
  "sl_flows (tcp_bound_remove c port sid) = sl_flows c"
  "sl_listeners (tcp_bound_remove c port sid) = sl_listeners c"
  "sl_meta (tcp_bound_remove c port sid) = sl_meta c"
  "sl_ports (tcp_bound_remove c port sid) = sl_ports c"
  "sl_tomgr (tcp_bound_remove c port sid) = sl_tomgr c"
  "sl_oob (tcp_bound_remove c port sid) = sl_oob c"
  "sl_config (tcp_bound_remove c port sid) = sl_config c"
  "sl_n_fp_cores (tcp_bound_remove c port sid) = sl_n_fp_cores c"
  "sl_local_ip (tcp_bound_remove c port sid) = sl_local_ip c"
  by (simp_all add: tcp_bound_remove_def)

lemma tcp_bound_insert_proj [simp]:
  "sl_n_socks (snd (tcp_bound_insert c port sid r)) = sl_n_socks c"
  "sl_socks (snd (tcp_bound_insert c port sid r)) = sl_socks c"
  "sl_flows (snd (tcp_bound_insert c port sid r)) = sl_flows c"
  "sl_listeners (snd (tcp_bound_insert c port sid r)) = sl_listeners c"
  "sl_meta (snd (tcp_bound_insert c port sid r)) = sl_meta c"
  "sl_ports (snd (tcp_bound_insert c port sid r)) = sl_ports c"
  "sl_tomgr (snd (tcp_bound_insert c port sid r)) = sl_tomgr c"
  "sl_oob (snd (tcp_bound_insert c port sid r)) = sl_oob c"
  "sl_config (snd (tcp_bound_insert c port sid r)) = sl_config c"
  "sl_n_fp_cores (snd (tcp_bound_insert c port sid r)) = sl_n_fp_cores c"
  "sl_local_ip (snd (tcp_bound_insert c port sid r)) = sl_local_ip c"
  by (simp_all add: tcp_bound_insert_def split: prod.splits)

lemma upd_at [simp]:
  "sl_socks (upd_sock sid f c) = (sl_socks c)(sid := f (sl_socks c sid))"
  "sl_meta (upd_meta mid g c) = (sl_meta c)(mid := g (sl_meta c mid))"
  "sl_meta (upd_sock_meta sid g c) = (sl_meta c)(tk_id (sl_socks c sid) := g (sl_meta c (tk_id (sl_socks c sid))))"
  "sl_listeners (upd_listener lid h c) = (sl_listeners c)(lid := h (sl_listeners c lid))"
  by (simp_all add: upd_sock_def upd_meta_def upd_sock_meta_def upd_listener_def)

lemma tcp_sock_meta_at [simp]: "tcp_sock_meta c sid = sl_meta c (tk_id (sl_socks c sid))"
  by (simp add: tcp_sock_meta_def)

section \<open>The flow table\<close>

definition connected :: "tcp_sock \<Rightarrow> bool" where
  "connected s \<longleftrightarrow> tk_state s \<in> {TCP_SOCK_STATE_SYN_SENT, TCP_SOCK_STATE_SYN_RECV, TCP_SOCK_STATE_ACCEPT_PENDING,
     TCP_SOCK_STATE_ESTABLISHED, TCP_SOCK_STATE_FIN_WAIT1}"

definition bucket_ids :: "u32 list \<Rightarrow> u32 list" where
  "bucket_ids xs = filter (\<lambda>x. x \<noteq> ID_INVALID) xs"

definition flows_wf :: "u32 \<Rightarrow> (u32 \<Rightarrow> tcp_sock) \<Rightarrow> (u32 \<Rightarrow> u32 list) \<Rightarrow> bool" where
  "flows_wf n socks flows \<longleftrightarrow>
     (\<forall>b < TCP_FLOW_BUCKETS. length (flows b) = TCP_FLOW_BUCKET_SLOTS \<and> distinct (bucket_ids (flows b)) \<and>
        (\<forall>x \<in> set (bucket_ids (flows b)). x < n \<and> sock_bucket (socks x) = b \<and> connected (socks x))) \<and>
     (\<forall>x < n. tk_id (socks x) = x \<and> (connected (socks x) \<longrightarrow> x \<in> set (bucket_ids (flows (sock_bucket (socks x))))))"

lemma sock_bucket_lt [simp]: "sock_bucket s < TCP_FLOW_BUCKETS"
  by (simp add: sock_bucket_def word_less_nat_alt unat_mod)

lemma bucket_ids_simps [simp]:
  "bucket_ids [] = []" "bucket_ids (x # xs) = (if x = ID_INVALID then bucket_ids xs else x # bucket_ids xs)"
  by (simp_all add: bucket_ids_def)

lemma bucket_put_ids:
  assumes "bucket_put sid xs = Some ys" and "sid \<noteq> ID_INVALID"
  shows "length ys = length xs" and "set (bucket_ids ys) = insert sid (set (bucket_ids xs))"
    and "sid \<notin> set (bucket_ids xs) \<Longrightarrow> distinct (bucket_ids xs) \<Longrightarrow> distinct (bucket_ids ys)"
  using assms by (induction xs arbitrary: ys) (auto split: if_splits)

lemma bucket_del_ids:
  assumes "sid \<noteq> ID_INVALID"
  shows "length (bucket_del sid xs) = length xs" and "bucket_ids (bucket_del sid xs) = remove1 sid (bucket_ids xs)"
  using assms by (induction xs) auto

lemma flows_wf_sock [wf_intros]:
  assumes "flows_wf n socks flows" and "x < n" and "tk_id s' = x"
    and "connected s' = connected (socks x)" and "connected s' \<Longrightarrow> sock_bucket s' = sock_bucket (socks x)"
  shows "flows_wf n (socks(x := s')) flows"
  using assms unfolding flows_wf_def by auto

text \<open>
  Removing a socket from the bucket it may be in: \<open>old\<close> is the socket as the table knows it.
\<close>

lemma flows_wf_remove:
  assumes w: "flows_wf n (socks(x := old)) flows" and "x < n" and b: "connected old \<Longrightarrow> sock_bucket old = b" and "b < TCP_FLOW_BUCKETS"
    and "tk_id s' = x" and "\<not> connected s'" and inv: "x \<noteq> ID_INVALID"
  shows "flows_wf n (socks(x := s')) (flows(b := bucket_del x (flows b)))"
proof -
  have d: "distinct (bucket_ids (flows b))" using w assms(4) by (simp add: flows_wf_def)
  note del = bucket_del_ids [OF inv]
  have rm: "set (remove1 x (bucket_ids (flows b))) = set (bucket_ids (flows b)) - {x}" using d by simp
  have out: "x \<notin> set (bucket_ids (flows b'))" if "b' < TCP_FLOW_BUCKETS" "b' \<noteq> b" for b'
    using w that b unfolding flows_wf_def by fastforce
  show ?thesis
    unfolding flows_wf_def
  proof (intro conjI allI impI ballI)
    fix b' :: u32 assume "b' < TCP_FLOW_BUCKETS"
    then show "length ((flows(b := bucket_del x (flows b))) b') = TCP_FLOW_BUCKET_SLOTS"
      "distinct (bucket_ids ((flows(b := bucket_del x (flows b))) b'))"
      using w del d unfolding flows_wf_def by (auto simp: distinct_remove1)
  next
    fix b' y assume "b' < TCP_FLOW_BUCKETS" "y \<in> set (bucket_ids ((flows(b := bucket_del x (flows b))) b'))"
    then show "y < n" "sock_bucket ((socks(x := s')) y) = b'" "connected ((socks(x := s')) y)"
      using w out del(2) rm unfolding flows_wf_def by (auto split: if_splits)
  next
    fix y assume "y < n"
    then show "tk_id ((socks(x := s')) y) = y" using w assms(5) by (auto simp: flows_wf_def)
  next
    fix y assume "y < n" "connected ((socks(x := s')) y)"
    then show "y \<in> set (bucket_ids ((flows(b := bucket_del x (flows b))) (sock_bucket ((socks(x := s')) y))))"
      using w assms(6) del(2) rm unfolding flows_wf_def by (auto split: if_splits)
  qed
qed

lemma flows_wf_insert:
  assumes w: "flows_wf n socks flows" and "x < n" and "\<not> connected (socks x)" and "tk_id s' = x" and "connected s'"
    and put: "bucket_put x (flows (sock_bucket s')) = Some bk" and inv: "x \<noteq> ID_INVALID"
  shows "flows_wf n (socks(x := s')) (flows(sock_bucket s' := bk))"
proof -
  note p = bucket_put_ids [OF put inv]
  have out: "x \<notin> set (bucket_ids (flows b))" if "b < TCP_FLOW_BUCKETS" for b
    using w that assms(3) unfolding flows_wf_def by blast
  have known: "y < n" "sock_bucket (socks y) = b" "connected (socks y)" if "b < TCP_FLOW_BUCKETS" "y \<in> set (bucket_ids (flows b))" for b y
    using w that unfolding flows_wf_def by blast+
  show ?thesis
    unfolding flows_wf_def
  proof (intro conjI allI impI ballI)
    fix b :: u32 assume "b < TCP_FLOW_BUCKETS"
    then show "length ((flows(sock_bucket s' := bk)) b) = TCP_FLOW_BUCKET_SLOTS" "distinct (bucket_ids ((flows(sock_bucket s' := bk)) b))"
      using w p out unfolding flows_wf_def by auto
  next
    fix b y assume "b < TCP_FLOW_BUCKETS" "y \<in> set (bucket_ids ((flows(sock_bucket s' := bk)) b))"
    then show "y < n" "sock_bucket ((socks(x := s')) y) = b" "connected ((socks(x := s')) y)"
      using known [of b y] known [of "sock_bucket s'" y] out p(2) assms(2,5) by (auto split: if_splits)
  next
    fix y assume "y < n"
    then show "tk_id ((socks(x := s')) y) = y" using w assms(4) by (auto simp: flows_wf_def)
  next
    fix y assume "y < n" "connected ((socks(x := s')) y)"
    then show "y \<in> set (bucket_ids ((flows(sock_bucket s' := bk)) (sock_bucket ((socks(x := s')) y))))"
      using w p(2) unfolding flows_wf_def by (auto split: if_splits)
  qed
qed

lemma flows_wf_new:
  assumes w: "flows_wf n socks flows" and "n < MAX_SOCKETS" and "tk_id s' = n" and "\<not> connected s'"
  shows "flows_wf (n + 1) (socks(n := s')) flows"
proof -
  have lt: "x < n + 1 \<longleftrightarrow> x < n \<or> x = n" for x
  proof -
    have "unat (n + 1) = unat n + 1" using assms(2) by (subst unat_add_small) (simp_all add: word_less_nat_alt)
    then show ?thesis by (auto simp: word_less_nat_alt word_unat_eq_iff less_Suc_eq)
  qed
  show ?thesis using w assms(3,4) unfolding flows_wf_def lt by fastforce
qed

section \<open>The invariant\<close>

text \<open>
  The ready array of an active listener has \<^verbatim>\<open>backlog_len\<close> slots, the ring indices stay inside it, and
  its entries are sockets past the handshake.
\<close>

definition listener_ok :: "u32 \<Rightarrow> (u32 \<Rightarrow> u8) \<Rightarrow> tcp_listener_slow \<Rightarrow> bool" where
  "listener_ok n st l \<longleftrightarrow> (ls_active l \<noteq> 0 \<longrightarrow>
     (\<exists>r. ls_ready_sids l = Some r \<and> length r = unat (ls_backlog_len l) \<and>
        (\<forall>x \<in> set r. x \<noteq> ID_INVALID \<longrightarrow> x < n \<and> st x \<noteq> TCP_SOCK_STATE_SYN_RECV)) \<and>
     ls_ready_used l \<le> ls_backlog_len l \<and> (ls_backlog_len l \<noteq> 0 \<longrightarrow> ls_ready_head l < ls_backlog_len l))"

definition lst_wf :: "u32 \<Rightarrow> (u32 \<Rightarrow> u8) \<Rightarrow> (u32 \<Rightarrow> tcp_listener_slow) \<Rightarrow> (u32 \<Rightarrow> u32) \<Rightarrow> bool" where
  "lst_wf n st lst lid \<longleftrightarrow> (\<forall>i. listener_ok n st (lst i)) \<and>
     (\<forall>x < n. (lid x = ID_INVALID \<or> lid x < n) \<and> (st x = TCP_SOCK_STATE_SYN_RECV \<longrightarrow> lid x \<noteq> ID_INVALID))"

definition port_ok :: "u32 \<Rightarrow> tcp_port \<Rightarrow> bool" where
  "port_ok n e \<longleftrightarrow> length (tp_sids e) = unat MAX_REUSOCK_PORT \<and> tp_nsocks e \<le> MAX_REUSOCK_PORT \<and>
     (\<forall>x \<in> set (tp_sids e). x = ID_INVALID \<or> x < n)"

definition timers_wf :: "u32 \<Rightarrow> tomgr \<Rightarrow> bool" where
  "timers_wf n tm \<longleftrightarrow> tm_wf tm \<and> (\<forall>e v. timers tm e = Some v \<longrightarrow> ucast (snd (snd v)) < n)"

definition slow_wf :: "tcp_slow_context \<Rightarrow> bool" where
  "slow_wf c \<longleftrightarrow> sl_n_socks c \<le> MAX_SOCKETS \<and> flows_wf (sl_n_socks c) (sl_socks c) (sl_flows c) \<and>
     lst_wf (sl_n_socks c) (\<lambda>x. tk_state (sl_socks c x)) (sl_listeners c) (\<lambda>x. mt_listener_id (sl_meta c x)) \<and>
     (\<forall>p. port_ok (sl_n_socks c) (sl_ports c p)) \<and> timers_wf (sl_n_socks c) (sl_tomgr c) \<and> \<not> sl_oob c"

lemma slow_wf_id: "slow_wf c \<Longrightarrow> x < sl_n_socks c \<Longrightarrow> tk_id (sl_socks c x) = x"
  by (simp add: slow_wf_def flows_wf_def)

lemma slow_wf_valid:
  assumes "slow_wf c" and "x < sl_n_socks c"
  shows "x \<noteq> ID_INVALID"
proof
  assume "x = ID_INVALID"
  moreover have "x < MAX_SOCKETS" using assms by (auto simp: slow_wf_def)
  ultimately show False by simp
qed

lemma slow_wf_cong:
  assumes "sl_n_socks c' = sl_n_socks c" "sl_socks c' = sl_socks c" "sl_flows c' = sl_flows c" "sl_listeners c' = sl_listeners c"
    "sl_meta c' = sl_meta c" "sl_ports c' = sl_ports c" "sl_tomgr c' = sl_tomgr c" "sl_oob c' = sl_oob c"
  shows "slow_wf c' = slow_wf c"
  using assms by (simp add: slow_wf_def)

lemma slow_wf_msgs [simp]:
  "slow_wf (snd (ctl_pkt_enqueue c s a b d e f g h w)) = slow_wf c" "slow_wf (snd (app_put c ax d' ty)) = slow_wf c"
  "slow_wf (snd (tcp_tx_retransmit c sid)) = slow_wf c" "slow_wf (tcp_bound_remove c port sid) = slow_wf c"
  "slow_wf (snd (tcp_bound_insert c port sid r)) = slow_wf c" "slow_wf (upd_actx ax k c) = slow_wf c"
  by (rule slow_wf_cong; simp)+

lemma listener_ok_st:
  assumes "listener_ok n st l" and "st' x = TCP_SOCK_STATE_SYN_RECV \<Longrightarrow> st x = TCP_SOCK_STATE_SYN_RECV" and "\<And>y. y \<noteq> x \<Longrightarrow> st' y = st y"
  shows "listener_ok n st' l"
proof -
  have "st' y = TCP_SOCK_STATE_SYN_RECV \<Longrightarrow> st y = TCP_SOCK_STATE_SYN_RECV" for y using assms(2) assms(3) [of y] by (cases "y = x") auto
  then show ?thesis using assms(1) unfolding listener_ok_def by blast
qed

lemma slow_wf_upd_sock:
  assumes w: "slow_wf c" and "x < sl_n_socks c" and "tk_id (f (sl_socks c x)) = x"
    and "connected (f (sl_socks c x)) = connected (sl_socks c x)"
    and "connected (f (sl_socks c x)) \<Longrightarrow> sock_bucket (f (sl_socks c x)) = sock_bucket (sl_socks c x)"
    and "tk_state (f (sl_socks c x)) = TCP_SOCK_STATE_SYN_RECV \<Longrightarrow> tk_state (sl_socks c x) = TCP_SOCK_STATE_SYN_RECV"
  shows "slow_wf (upd_sock x f c)"
proof -
  have "flows_wf (sl_n_socks c) (sl_socks (upd_sock x f c)) (sl_flows c)"
    unfolding upd_at by (rule flows_wf_sock) (use assms in \<open>simp_all add: slow_wf_def\<close>)
  moreover have "lst_wf (sl_n_socks c) (\<lambda>y. tk_state (sl_socks (upd_sock x f c) y)) (sl_listeners c) (\<lambda>x. mt_listener_id (sl_meta c x))"
    using w assms(6) unfolding slow_wf_def lst_wf_def by (auto intro: listener_ok_st [where x = x])
  ultimately show ?thesis using w by (simp add: slow_wf_def)
qed

lemma slow_wf_upd_meta:
  assumes "slow_wf c" and "\<And>m. mt_listener_id (f m) = mt_listener_id m"
  shows "slow_wf (upd_meta x f c)"
proof -
  have "(\<lambda>y. mt_listener_id (sl_meta (upd_meta x f c) y)) = (\<lambda>y. mt_listener_id (sl_meta c y))" using assms(2) by auto
  then show ?thesis using assms(1) unfolding slow_wf_def by simp
qed

lemma slow_wf_upd_sock_meta: "slow_wf c \<Longrightarrow> (\<And>m. mt_listener_id (f m) = mt_listener_id m) \<Longrightarrow> slow_wf (upd_sock_meta x f c)"
  unfolding upd_sock_meta_def by (rule slow_wf_upd_meta)

lemma slow_wf_upd_listener:
  assumes "slow_wf c" and "listener_ok (sl_n_socks c) (\<lambda>x. tk_state (sl_socks c x)) (f (sl_listeners c lid))"
  shows "slow_wf (upd_listener lid f c)"
  using assms by (auto simp: slow_wf_def lst_wf_def)

lemma slow_wf_tomgr: "slow_wf c \<Longrightarrow> timers_wf (sl_n_socks c) tm \<Longrightarrow> slow_wf (c\<lparr>sl_tomgr := tm\<rparr>)"
  by (simp add: slow_wf_def)

section \<open>Timers\<close>

lemma timers_wf_cancel: "timers_wf n tm \<Longrightarrow> timers_wf n (fst (tomgr_cancel tm e))"
proof -
  assume w: "timers_wf n tm"
  obtain tm' r where t: "tomgr_cancel tm e = (tm', r)" by (rule prod.exhaust)
  show ?thesis
  proof (cases "r = 0")
    case True
    then have "tm_wf tm' \<and> timers tm' = (timers tm)(e := None)" using tmq.cancel_ok t w by (auto simp: timers_wf_def)
    then show ?thesis using w t by (auto simp: timers_wf_def)
  next
    case False
    then show ?thesis using tmq.cancel_fail [OF t] w t by simp
  qed
qed

lemma timers_wf_insert: "timers_wf n tm \<Longrightarrow> sid < n \<Longrightarrow> timers_wf n (fst (tomgr_insert tm ty t (ucast sid)))"
proof -
  assume w: "timers_wf n tm" "sid < n"
  obtain tm' r where t: "tomgr_insert tm ty t (ucast sid) = (tm', r)" by (rule prod.exhaust)
  have u: "(ucast (ucast sid :: u64) :: u32) = sid" by (simp add: word_unat_eq_iff unat_ucast_64_32 u32_le_M)
  show ?thesis
  proof (cases r)
    case None
    then show ?thesis using tomgr_insert_fail [of tm ty t "ucast sid" tm'] t w by simp
  next
    case (Some e)
    then show ?thesis using tomgr_insert_refines [of tm ty t "ucast sid" tm' e] t w u by (auto simp: timers_wf_def)
  qed
qed

lemma timeout_cancel_proj [simp]:
  "sl_n_socks (tcp_timeout_cancel c x) = sl_n_socks c" "sl_socks (tcp_timeout_cancel c x) = sl_socks c"
  "sl_flows (tcp_timeout_cancel c x) = sl_flows c" "sl_listeners (tcp_timeout_cancel c x) = sl_listeners c"
  "sl_ports (tcp_timeout_cancel c x) = sl_ports c" "sl_oob (tcp_timeout_cancel c x) = sl_oob c"
  "mt_listener_id (sl_meta (tcp_timeout_cancel c x) y) = mt_listener_id (sl_meta c y)"
  "sl_config (tcp_timeout_cancel c x) = sl_config c" "sl_local_ip (tcp_timeout_cancel c x) = sl_local_ip c"
  by (simp_all add: tcp_timeout_cancel_def retx_none_def Let_def split: option.splits)

lemma timeout_cancel_tomgr: "timers_wf n (sl_tomgr c) \<Longrightarrow> timers_wf n (sl_tomgr (tcp_timeout_cancel c x))"
  by (simp add: tcp_timeout_cancel_def Let_def timers_wf_cancel split: option.splits)

lemma timeout_cancel_wf [wf_intros]: "slow_wf c \<Longrightarrow> slow_wf (tcp_timeout_cancel c x)"
  by (simp add: slow_wf_def timeout_cancel_tomgr)

lemma retx_sched_proj [simp]:
  "sl_n_socks (snd (sock_retx_sched ev c x)) = sl_n_socks c" "sl_socks (snd (sock_retx_sched ev c x)) = sl_socks c"
  "sl_flows (snd (sock_retx_sched ev c x)) = sl_flows c" "sl_listeners (snd (sock_retx_sched ev c x)) = sl_listeners c"
  "sl_ports (snd (sock_retx_sched ev c x)) = sl_ports c" "sl_oob (snd (sock_retx_sched ev c x)) = sl_oob c"
  "mt_listener_id (sl_meta (snd (sock_retx_sched ev c x)) y) = mt_listener_id (sl_meta c y)"
  "sl_tomgr (snd (sock_retx_sched ev c x)) = fst (tomgr_insert (sl_tomgr c) TCP_TO_RETX (ev_retx ev) (ucast x))"
  by (simp_all add: sock_retx_sched_def retx_none_def Let_def split: prod.splits)

lemma retx_sched_wf [wf_intros]: "slow_wf c \<Longrightarrow> x < sl_n_socks c \<Longrightarrow> slow_wf (snd (sock_retx_sched ev c x))"
  by (simp add: slow_wf_def timers_wf_insert)

lemma timeout_arm_proj [simp]:
  "sl_n_socks (snd (tcp_timeout_arm ev c x k)) = sl_n_socks c" "sl_socks (snd (tcp_timeout_arm ev c x k)) = sl_socks c"
  "sl_flows (snd (tcp_timeout_arm ev c x k)) = sl_flows c"
  by (simp_all add: tcp_timeout_arm_def Let_def)

lemma timeout_arm_wf [wf_intros]: "slow_wf c \<Longrightarrow> x < sl_n_socks c \<Longrightarrow> slow_wf (snd (tcp_timeout_arm ev c x k))"
  unfolding tcp_timeout_arm_def Let_def by (intro retx_sched_wf slow_wf_upd_sock_meta timeout_cancel_wf) simp_all

section \<open>Listeners\<close>

lemma find_index_bound: "List.find P [0 ..< n] = Some i \<Longrightarrow> i < n \<and> P i"
  by (auto simp: find_Some_iff)

lemma backlog_put_ok [simp]: "listener_ok n st (listener_backlog_put l) = listener_ok n st l"
  by (simp add: listener_backlog_put_def listener_ok_def)

lemma listener_ok_clear:
  assumes "listener_ok n st l" and "ls_active l \<noteq> 0"
  shows "listener_ok n st (fst (ready_clear x l)) \<and> \<not> snd (ready_clear x l)"
proof -
  obtain r where r: "ls_ready_sids l = Some r" "length r = unat (ls_backlog_len l)"
    using assms by (auto simp: listener_ok_def)
  show ?thesis
  proof (cases "List.find (\<lambda>i. i < length r \<and> r ! i = x) [0 ..< unat (ls_backlog_len l)]")
    case None
    then show ?thesis using r assms(1) by (simp add: ready_clear_def)
  next
    case (Some i)
    then have "fst (ready_clear x l) = l\<lparr>ls_ready_sids := Some (r[i := ID_INVALID])\<rparr>" "\<not> snd (ready_clear x l)"
      using r(1) by (simp_all add: ready_clear_def)
    then show ?thesis using assms r by (auto simp: listener_ok_def dest!: set_update_subset_insert [THEN subsetD])
  qed
qed

text \<open>Detaching touches one listener and the metadata of the socket.\<close>

lemma detach_proj [simp]:
  "sl_n_socks (tcp_listener_detach_child c x) = sl_n_socks c" "sl_socks (tcp_listener_detach_child c x) = sl_socks c"
  "sl_flows (tcp_listener_detach_child c x) = sl_flows c" "sl_ports (tcp_listener_detach_child c x) = sl_ports c"
  "sl_tomgr (tcp_listener_detach_child c x) = sl_tomgr c" "sl_config (tcp_listener_detach_child c x) = sl_config c"
  "sl_local_ip (tcp_listener_detach_child c x) = sl_local_ip c"
  by (simp_all add: tcp_listener_detach_child_def Let_def split: prod.splits)

lemma detach_meta:
  "mt_listener_id (sl_meta (tcp_listener_detach_child c x) y) =
     (if y = tk_id (sl_socks c x) then ID_INVALID else mt_listener_id (sl_meta c y))"
  by (auto simp: tcp_listener_detach_child_def Let_def split: prod.splits)

lemma detach_listeners:
  assumes "lst_wf n st (sl_listeners c) (\<lambda>y. mt_listener_id (sl_meta c y))" and "tk_id (sl_socks c x) < n"
  shows "(\<forall>i. listener_ok n st (sl_listeners (tcp_listener_detach_child c x) i)) \<and>
     sl_oob (tcp_listener_detach_child c x) = sl_oob c"
proof -
  define lid where "lid = mt_listener_id (sl_meta c (tk_id (sl_socks c x)))"
  define l where "l = sl_listeners c lid"
  have ok: "\<forall>i. listener_ok n st (sl_listeners c i)"
    using assms unfolding lst_wf_def by blast
  show ?thesis
  proof (cases "lid = ID_INVALID")
    case True
    then show ?thesis using ok by (simp add: tcp_listener_detach_child_def flip: lid_def)
  next
    case False
    then have l: "listener_ok n st l" using ok by (simp add: l_def)
    obtain l1 bad where cl: "(if ls_active l \<noteq> 0 then ready_clear (tk_id (sl_socks c x)) l else (l, False)) = (l1, bad)"
      by (rule prod.exhaust)
    have "listener_ok n st l1 \<and> \<not> bad"
      using cl l listener_ok_clear [OF l, of "tk_id (sl_socks c x)"] by (auto split: if_splits)
    moreover have "tcp_listener_detach_child c x = upd_sock_meta x (\<lambda>m. m\<lparr>mt_listener_id := ID_INVALID\<rparr>)
        (upd_listener lid (\<lambda>_. listener_backlog_put l1) (c\<lparr>sl_oob := sl_oob c \<or> bad\<rparr>))"
      using False by (simp only: tcp_listener_detach_child_def Let_def tcp_sock_meta_at lid_def [symmetric] l_def [symmetric] cl if_False prod.case)
    then have "sl_listeners (tcp_listener_detach_child c x) = (sl_listeners c)(lid := listener_backlog_put l1)"
      "sl_oob (tcp_listener_detach_child c x) = (sl_oob c \<or> bad)"
      by simp_all
    ultimately show ?thesis using ok by simp
  qed
qed

section \<open>Closing a socket\<close>

lemma sock_reset_simps [simp]:
  "tk_id (cc_sock_reset s) = tk_id s" "tk_state (cc_sock_reset s) = tk_state s" "tk_id (sock_conn_reset s) = tk_id s"
  "tk_state (sock_conn_reset s) = tk_state s" "sock_bucket (cc_sock_reset s) = sock_bucket s"
  "mt_listener_id (cc_meta_reset m) = mt_listener_id m" "mt_listener_id (retx_none m) = mt_listener_id m"
  by (simp_all add: cc_sock_reset_def sock_conn_reset_def tcp_sock_recovery_reset_def sock_bucket_def cc_meta_reset_def retx_none_def)

lemma connected_cong: "tk_state s = tk_state s' \<Longrightarrow> connected s = connected s'"
  by (simp add: connected_def)

lemma connected_states [simp]:
  "tk_state s = TCP_SOCK_STATE_CLOSED \<Longrightarrow> \<not> connected s" "tk_state s = TCP_SOCK_STATE_INIT \<Longrightarrow> \<not> connected s"
  "tk_state s = TCP_SOCK_STATE_LISTEN \<Longrightarrow> \<not> connected s"
  by (simp_all add: connected_def)

definition closed_sock :: "tcp_sock \<Rightarrow> tcp_sock" where
  "closed_sock s = cc_sock_reset (sock_conn_reset (s\<lparr>tk_state := TCP_SOCK_STATE_CLOSED\<rparr>))"

lemma flow_remove_proj [simp]:
  "sl_n_socks (tcp_flow_remove c x) = sl_n_socks c" "sl_socks (tcp_flow_remove c x) = sl_socks c"
  "sl_listeners (tcp_flow_remove c x) = sl_listeners c" "sl_meta (tcp_flow_remove c x) = sl_meta c"
  "sl_ports (tcp_flow_remove c x) = sl_ports c" "sl_tomgr (tcp_flow_remove c x) = sl_tomgr c"
  "sl_oob (tcp_flow_remove c x) = sl_oob c" "sl_local_ip (tcp_flow_remove c x) = sl_local_ip c"
  "sl_flows (tcp_flow_remove c x) =
     (sl_flows c)(sock_bucket (sl_socks c x) := bucket_del (tk_id (sl_socks c x)) (sl_flows c (sock_bucket (sl_socks c x))))"
  by (simp_all add: tcp_flow_remove_def Let_def)

lemma cc_reset_proj [simp]:
  "sl_n_socks (tcp_sock_cc_reset c x) = sl_n_socks c" "sl_flows (tcp_sock_cc_reset c x) = sl_flows c"
  "sl_listeners (tcp_sock_cc_reset c x) = sl_listeners c" "sl_ports (tcp_sock_cc_reset c x) = sl_ports c"
  "sl_tomgr (tcp_sock_cc_reset c x) = sl_tomgr c" "sl_oob (tcp_sock_cc_reset c x) = sl_oob c"
  "sl_config (tcp_sock_cc_reset c x) = sl_config c"
  "sl_socks (tcp_sock_cc_reset c x) = (sl_socks c)(x := cc_sock_reset (sl_socks c x))"
  "mt_listener_id (sl_meta (tcp_sock_cc_reset c x) y) = mt_listener_id (sl_meta c y)"
  by (simp_all add: tcp_sock_cc_reset_def)

lemma close_final_proj:
  assumes "tk_id (sl_socks c x) = x"
  defines "s \<equiv> sl_socks c x" and "c' \<equiv> tcp_sock_close_final c x"
  shows "sl_n_socks c' = sl_n_socks c" "sl_socks c' = (sl_socks c)(x := closed_sock s)"
    "sl_flows c' = (sl_flows c)(sock_bucket s := bucket_del x (sl_flows c (sock_bucket s)))"
    "sl_listeners c' = sl_listeners (tcp_listener_detach_child (tcp_timeout_cancel c x) x)"
    "mt_listener_id (sl_meta c' y) = (if y = x then ID_INVALID else mt_listener_id (sl_meta c y))"
    "sl_ports c' = sl_ports c" "sl_tomgr c' = sl_tomgr (tcp_timeout_cancel c x)"
    "sl_oob c' = sl_oob (tcp_listener_detach_child (tcp_timeout_cancel c x) x)"
  using assms(1) unfolding s_def c'_def by (simp_all add: tcp_sock_close_final_def Let_def detach_meta closed_sock_def)

lemma close_final_wf [wf_intros]:
  assumes w: "slow_wf c" and x: "x < sl_n_socks c"
  shows "slow_wf (tcp_sock_close_final c x)"
proof -
  let ?n = "sl_n_socks c" and ?s = "sl_socks c x"
  note id = slow_wf_id [OF w x]
  note p = close_final_proj [OF id]
  have c: "tk_id (closed_sock ?s) = x" "\<not> connected (closed_sock ?s)" "tk_state (closed_sock ?s) = TCP_SOCK_STATE_CLOSED"
    using id by (simp_all add: closed_sock_def)
  have "flows_wf ?n (sl_socks c) (sl_flows c)" using w by (simp add: slow_wf_def)
  then have f: "flows_wf ?n ((sl_socks c)(x := closed_sock ?s)) ((sl_flows c)(sock_bucket ?s := bucket_del x (sl_flows c (sock_bucket ?s))))"
    by (intro flows_wf_remove [where old = ?s]) (use x c slow_wf_valid [OF w x] in simp_all)
  define st where "st = (\<lambda>y. tk_state (((sl_socks c)(x := closed_sock ?s)) y))"
  have l0: "lst_wf ?n (\<lambda>y. tk_state (sl_socks c y)) (sl_listeners c) (\<lambda>y. mt_listener_id (sl_meta c y))" using w by (simp add: slow_wf_def)
  then have "lst_wf ?n st (sl_listeners (tcp_timeout_cancel c x)) (\<lambda>y. mt_listener_id (sl_meta (tcp_timeout_cancel c x) y))"
    unfolding lst_wf_def st_def by (auto simp: c intro: listener_ok_st [where x = x])
  from detach_listeners [OF this, of x]
  have d: "\<forall>i. listener_ok ?n st (sl_listeners (tcp_listener_detach_child (tcp_timeout_cancel c x) x) i)"
    "sl_oob (tcp_listener_detach_child (tcp_timeout_cancel c x) x) = sl_oob c"
    using id x by auto
  have "timers_wf ?n (sl_tomgr (tcp_timeout_cancel c x))" by (rule timeout_cancel_tomgr) (use w in \<open>simp add: slow_wf_def\<close>)
  moreover have "lst_wf ?n st (sl_listeners (tcp_sock_close_final c x)) (\<lambda>y. mt_listener_id (sl_meta (tcp_sock_close_final c x) y))"
    using d(1) l0 unfolding lst_wf_def p by (auto simp: st_def c)
  ultimately show ?thesis using w f d(2) unfolding slow_wf_def p by (simp add: st_def)
qed

lemma autobind_drop_proj [simp]:
  "sl_n_socks (sock_autobind_drop c x) = sl_n_socks c" "sl_flows (sock_autobind_drop c x) = sl_flows c"
  "sl_listeners (sock_autobind_drop c x) = sl_listeners c" "sl_ports (sock_autobind_drop c x) = sl_ports c"
  "sl_tomgr (sock_autobind_drop c x) = sl_tomgr c" "sl_oob (sock_autobind_drop c x) = sl_oob c"
  "mt_listener_id (sl_meta (sock_autobind_drop c x) y) = mt_listener_id (sl_meta c y)"
  "y \<noteq> x \<Longrightarrow> sl_socks (sock_autobind_drop c x) y = sl_socks c y" "tk_id (sl_socks (sock_autobind_drop c x) y) = tk_id (sl_socks c y)"
  "tk_state (sl_socks (sock_autobind_drop c x) y) = tk_state (sl_socks c y)"
  by (simp_all add: sock_autobind_drop_def Let_def)

lemma connect_fail_proj:
  fixes err :: int
  assumes "tk_id (sl_socks c x) = x"
  defines "s \<equiv> sl_socks c x" and "c' \<equiv> tcp_sock_connect_fail c x err"
  shows "sl_n_socks c' = sl_n_socks c"
    "sl_flows c' = (sl_flows c)(sock_bucket s := bucket_del x (sl_flows c (sock_bucket s)))"
    "sl_listeners c' = sl_listeners c" "mt_listener_id (sl_meta c' y) = mt_listener_id (sl_meta c y)" "sl_ports c' = sl_ports c"
    "sl_tomgr c' = sl_tomgr (tcp_timeout_cancel c x)" "sl_oob c' = sl_oob c"
    "y \<noteq> x \<Longrightarrow> sl_socks c' y = sl_socks c y" "tk_id (sl_socks c' x) = x" "tk_state (sl_socks c' x) = TCP_SOCK_STATE_INIT"
  using assms(1) unfolding s_def c'_def by (simp_all add: tcp_sock_connect_fail_def tcp_app_connect_res_def Let_def)

lemma connect_fail_wf:
  assumes w: "slow_wf (upd_sock x (\<lambda>_. old) c)" and x: "x < sl_n_socks c" and id: "tk_id (sl_socks c x) = x"
    and b: "connected old \<Longrightarrow> sock_bucket old = sock_bucket (sl_socks c x)"
  shows "slow_wf (tcp_sock_connect_fail c x err)"
proof -
  let ?n = "sl_n_socks c" and ?b = "sock_bucket (sl_socks c x)" and ?c = "tcp_sock_connect_fail c x err"
  note p = connect_fail_proj [OF id, where err = err]
  define s' where "s' = sl_socks ?c x"
  have s': "tk_id s' = x" "tk_state s' = TCP_SOCK_STATE_INIT" using p(9,10) by (simp_all add: s'_def)
  have so: "sl_socks ?c = (sl_socks c)(x := s')" using p(8) by (auto simp: s'_def)
  have inv: "x \<noteq> ID_INVALID" using slow_wf_valid [OF w] x by simp
  have f: "flows_wf ?n ((sl_socks c)(x := s')) ((sl_flows c)(?b := bucket_del x (sl_flows c ?b)))"
    by (rule flows_wf_remove [where old = old]) (use w x b s' inv in \<open>simp_all add: slow_wf_def\<close>)
  have "lst_wf ?n (\<lambda>y. tk_state (((sl_socks c)(x := old)) y)) (sl_listeners c) (\<lambda>y. mt_listener_id (sl_meta c y))"
    using w by (simp add: slow_wf_def)
  then have l: "lst_wf ?n (\<lambda>y. tk_state (((sl_socks c)(x := s')) y)) (sl_listeners c) (\<lambda>y. mt_listener_id (sl_meta c y))"
    unfolding lst_wf_def by (auto simp: s' intro: listener_ok_st [where x = x])
  have "timers_wf ?n (sl_tomgr (tcp_timeout_cancel c x))" by (rule timeout_cancel_tomgr) (use w in \<open>simp add: slow_wf_def\<close>)
  then show ?thesis using w f l unfolding slow_wf_def p(1-7) so by simp
qed

lemma upd_sock_same [simp]: "upd_sock x (\<lambda>_. sl_socks c x) c = c"
  by (simp add: upd_sock_def)

lemma connect_fail_wf' [wf_intros]: "slow_wf c \<Longrightarrow> x < sl_n_socks c \<Longrightarrow> slow_wf (tcp_sock_connect_fail c x err)"
  using connect_fail_wf [of x "sl_socks c x" c] slow_wf_id by simp

lemma cc_reset_wf [wf_intros]: "slow_wf c \<Longrightarrow> x < sl_n_socks c \<Longrightarrow> slow_wf (tcp_sock_cc_reset c x)"
  unfolding tcp_sock_cc_reset_def
  by (intro slow_wf_upd_sock_meta slow_wf_upd_sock) (simp_all add: slow_wf_id connected_def)

lemma cc_init_rate_lid: "cc_init_rate cf m = (rate, m') \<Longrightarrow> mt_listener_id m' = mt_listener_id m"
  by (auto simp: cc_init_rate_def split: if_splits)

lemma slow_wf_set_meta:
  assumes "slow_wf c" and "mt_listener_id m = mt_listener_id (tcp_sock_meta c x)"
  shows "slow_wf (upd_sock_meta x (\<lambda>_. m) c)"
proof -
  have "(\<lambda>y. mt_listener_id (sl_meta (upd_sock_meta x (\<lambda>_. m) c) y)) = (\<lambda>y. mt_listener_id (sl_meta c y))" using assms(2) by auto
  then show ?thesis using assms(1) unfolding slow_wf_def by simp
qed

lemma upd_sock_harmless:
  assumes "slow_wf c" and "x < sl_n_socks c"
    and "\<And>s. tk_id (f s) = tk_id s \<and> tk_state (f s) = tk_state s \<and> sock_bucket (f s) = sock_bucket s"
  shows "slow_wf (upd_sock x f c)"
  using assms by (intro slow_wf_upd_sock) (simp_all add: slow_wf_id connected_def)

lemma cc_init_wf [wf_intros]:
  assumes "slow_wf c" and "x < sl_n_socks c"
  shows "slow_wf (tcp_sock_cc_init ev c x)"
proof -
  define c2 where "c2 = upd_sock_meta x (\<lambda>m. m\<lparr>mt_cc_tsc := ev_now ev,
     mt_cc_rtt := (if tk_rtt_est (sl_socks (tcp_sock_cc_reset c x) x) \<noteq> 0 then tk_rtt_est (sl_socks (tcp_sock_cc_reset c x) x)
       else cf_cc_rtt_init (sl_config (tcp_sock_cc_reset c x)))\<rparr>) (tcp_sock_cc_reset c x)"
  have c2: "slow_wf c2" "x < sl_n_socks c2"
    using assms by (auto simp: c2_def intro!: slow_wf_upd_sock_meta cc_reset_wf)
  obtain rate m where i: "cc_init_rate (sl_config c2) (tcp_sock_meta c2 x) = (rate, m)" by (rule prod.exhaust)
  have "slow_wf (upd_sock_meta x (\<lambda>_. m) c2)" using c2(1) cc_init_rate_lid [OF i] by (rule slow_wf_set_meta)
  then have "slow_wf (upd_sock x (\<lambda>s. s\<lparr>tk_cc_rate := rate\<rparr>) (upd_sock_meta x (\<lambda>_. m) c2))"
    by (rule upd_sock_harmless) (use c2(2) in \<open>simp_all add: sock_bucket_def\<close>)
  then show ?thesis unfolding tcp_sock_cc_init_def Let_def c2_def [symmetric] i by simp
qed

lemma cc_init_n [simp]: "sl_n_socks (tcp_sock_cc_init ev c x) = sl_n_socks c"
  by (simp add: tcp_sock_cc_init_def Let_def split: prod.splits)

section \<open>Control packets\<close>

lemma ctl_tx_wf [simp]:
  "slow_wf (snd (tcp_ctl_tx c x f)) = slow_wf c" "sl_n_socks (snd (tcp_ctl_tx c x f)) = sl_n_socks c" "sl_socks (snd (tcp_ctl_tx c x f)) = sl_socks c"
  "slow_wf (snd (tcp_ctl_tx_resend c x f)) = slow_wf c" "sl_n_socks (snd (tcp_ctl_tx_resend c x f)) = sl_n_socks c"
  "slow_wf (snd (tcp_ctl_tx_reply c a1 a2 a3 a4 a5 a6 f)) = slow_wf c"
  "sl_n_socks (snd (tcp_ctl_tx_reply c a1 a2 a3 a4 a5 a6 f)) = sl_n_socks c"
  "sl_socks (snd (tcp_ctl_tx_reply c a1 a2 a3 a4 a5 a6 f)) = sl_socks c"
  "slow_wf (reply_rst c rx) = slow_wf c" "sl_n_socks (reply_rst c rx) = sl_n_socks c"
  by (simp_all add: tcp_ctl_tx_def tcp_ctl_tx_resend_def tcp_ctl_tx_reply_def reply_rst_def Let_def)

lemma app_res_wf [simp]:
  "slow_wf (snd (tcp_app_listen_res c a o1 st)) = slow_wf c" "slow_wf (snd (tcp_app_connect_res c a o1 st so)) = slow_wf c"
  "slow_wf (snd (tcp_app_accept_res c a s1 s2 st)) = slow_wf c" "slow_wf (snd (tcp_app_listen_newconn c l x)) = slow_wf c"
  by (simp_all add: tcp_app_listen_res_def tcp_app_connect_res_def tcp_app_accept_res_def tcp_app_listen_newconn_def)

lemma connected_iff:
  "connected (s\<lparr>tk_state := v\<rparr>) \<longleftrightarrow> v \<in> {TCP_SOCK_STATE_SYN_SENT, TCP_SOCK_STATE_SYN_RECV, TCP_SOCK_STATE_ACCEPT_PENDING,
     TCP_SOCK_STATE_ESTABLISHED, TCP_SOCK_STATE_FIN_WAIT1}"
  by (simp add: connected_def)

lemma ready_push_wf:
  assumes w: "slow_wf c" and "x < sl_n_socks c" and "tk_state (sl_socks c x) \<noteq> TCP_SOCK_STATE_SYN_RECV"
  shows "slow_wf (snd (tcp_listener_ready_push c lid x)) \<and> sl_n_socks (snd (tcp_listener_ready_push c lid x)) = sl_n_socks c"
proof -
  let ?l = "sl_listeners c lid" and ?n = "sl_n_socks c" and ?st = "\<lambda>y. tk_state (sl_socks c y)"
  show ?thesis
  proof (cases "ls_active ?l = 0 \<or> ls_ready_used ?l \<ge> ls_backlog_len ?l")
    case True
    then show ?thesis using w by (simp add: tcp_listener_ready_push_def)
  next
    case False
    define p0 where "p0 = ls_ready_head ?l + ls_ready_used ?l"
    define pos where "pos = (if p0 \<ge> ls_backlog_len ?l then p0 - ls_backlog_len ?l else p0)"
    have ok: "listener_ok ?n ?st ?l" using w by (simp add: slow_wf_def lst_wf_def)
    with False obtain r where r: "ls_ready_sids ?l = Some r" "length r = unat (ls_backlog_len ?l)" by (auto simp: listener_ok_def)
    have "ls_ready_head ?l < ls_backlog_len ?l" "ls_ready_used ?l < ls_backlog_len ?l"
      using ok False by (auto simp: listener_ok_def not_le)
    then have b: "unat (ls_ready_head ?l) < unat (ls_backlog_len ?l)" "unat (ls_ready_used ?l) < unat (ls_backlog_len ?l)"
      by (simp_all add: word_less_nat_alt)
    have "unat p0 \<le> unat (ls_ready_head ?l) + unat (ls_ready_used ?l)" unfolding p0_def by (simp add: unat_word_ariths)
    then have pos: "unat pos < length r"
      using b unfolding pos_def r(2) by (auto simp: unat_sub word_le_nat_alt)
    define c1 where "c1 = upd_listener lid (\<lambda>l. l\<lparr>ls_ready_sids := map_option (\<lambda>r. r[unat pos := x]) (ls_ready_sids l), ls_ready_used := ls_ready_used l + 1\<rparr>) c"
    have "unat (ls_ready_used ?l + 1) = unat (ls_ready_used ?l) + 1"
      using b unat_32_bound [of "ls_backlog_len ?l"] by (intro unat_add_small_iff) simp_all
    then have u: "ls_ready_used ?l + 1 \<le> ls_backlog_len ?l" using b by (simp add: word_le_nat_alt)
    have "listener_ok ?n ?st (?l\<lparr>ls_ready_sids := map_option (\<lambda>r. r[unat pos := x]) (ls_ready_sids ?l), ls_ready_used := ls_ready_used ?l + 1\<rparr>)"
      using ok False r assms(2,3) u by (auto simp: listener_ok_def dest!: set_update_subset_insert [THEN subsetD])
    then have c1: "slow_wf c1" unfolding c1_def using w by (intro slow_wf_upd_listener)
    have e: "snd (tcp_listener_ready_push c lid x) = c1\<lparr>sl_oob := sl_oob c1\<rparr>"
      using False pos r(1) by (simp add: tcp_listener_ready_push_def Let_def c1_def upd_listener_def flip: p0_def pos_def)
    have "c1\<lparr>sl_oob := sl_oob c1\<rparr> = c1" "sl_n_socks c1 = ?n" by (simp_all add: c1_def)
    then show ?thesis unfolding e using c1 by simp
  qed
qed

lemma active_established_wf:
  assumes w: "slow_wf c" and x: "x < sl_n_socks c" and st: "tk_state (sl_socks c x) = TCP_SOCK_STATE_SYN_SENT"
  shows "slow_wf (sock_active_established ev c x rx)"
  unfolding sock_active_established_def Let_def
  by (intro cc_init_wf slow_wf_upd_sock timeout_cancel_wf w)
    (simp_all add: x st slow_wf_id [OF w x] connected_def sock_bucket_def)

lemma syn_sent_wf:
  assumes "slow_wf c" and "x < sl_n_socks c" and "tk_state (sl_socks c x) = TCP_SOCK_STATE_SYN_SENT"
  shows "slow_wf (tcp_rx_syn_sent ev c x rx)"
  using assms active_established_wf [OF assms] connect_fail_wf' by (simp add: tcp_rx_syn_sent_def Let_def)

lemma passive_established_wf:
  assumes w: "slow_wf c" and x: "x < sl_n_socks c" and st: "tk_state (sl_socks c x) = TCP_SOCK_STATE_SYN_RECV"
  shows "slow_wf (snd (sock_passive_established c x rx))"
proof -
  define c2 where "c2 = upd_sock x (\<lambda>s. s\<lparr>tk_tx_remote_avail := ucast (rc_wnd rx), tk_tx_pending := tk_tx_pending s - 1,
                 tk_tx_seq := tk_tx_seq s + 1, tk_state := TCP_SOCK_STATE_ACCEPT_PENDING\<rparr>) (tcp_timeout_cancel c x)"
  have "slow_wf c2"
    unfolding c2_def using x st slow_wf_id [OF w x]
    by (intro slow_wf_upd_sock timeout_cancel_wf w) (simp_all add: connected_def sock_bucket_def)
  moreover have "x < sl_n_socks c2" "tk_state (sl_socks c2 x) = TCP_SOCK_STATE_ACCEPT_PENDING" "tk_id (sl_socks c2 x) = x"
    using x by (simp_all add: c2_def slow_wf_id [OF w x])
  ultimately have c2: "slow_wf c2" "x < sl_n_socks c2" "tk_state (sl_socks c2 x) = TCP_SOCK_STATE_ACCEPT_PENDING" "tk_id (sl_socks c2 x) = x"
    by auto
  define lid where "lid = mt_listener_id (tcp_sock_meta c2 x)"
  note p = ready_push_wf [of c2 x lid]
  show ?thesis
    unfolding sock_passive_established_def Let_def c2_def [symmetric] lid_def [symmetric] c2(4)
    using p c2 close_final_wf [of "snd (tcp_listener_ready_push c2 lid x)" x] by (auto split: prod.splits)
qed

lemma syn_recv_wf:
  assumes "slow_wf c" and "x < sl_n_socks c" and "tk_state (sl_socks c x) = TCP_SOCK_STATE_SYN_RECV"
  shows "slow_wf (tcp_rx_syn_recv c x rx)"
  using assms passive_established_wf [OF assms, of rx] close_final_wf
  by (auto simp: tcp_rx_syn_recv_def split: prod.splits)

lemma rx_seq_wf: "slow_wf c \<Longrightarrow> x < sl_n_socks c \<Longrightarrow> slow_wf (upd_sock x (\<lambda>s. s\<lparr>tk_rx_seq := v\<rparr>) c)"
  by (rule upd_sock_harmless) (simp_all add: sock_bucket_def)

lemma established_wf: "slow_wf c \<Longrightarrow> x < sl_n_socks c \<Longrightarrow> slow_wf (tcp_rx_established c x rx)"
  by (auto simp: tcp_rx_established_def Let_def intro!: close_final_wf rx_seq_wf)

lemma fin_wait1_wf: "slow_wf c \<Longrightarrow> x < sl_n_socks c \<Longrightarrow> slow_wf (tcp_rx_fin_wait1 c x rx)"
  by (auto simp: tcp_rx_fin_wait1_def Let_def intro!: close_final_wf timeout_cancel_wf rx_seq_wf)

lemma sock_ctl_rx_wf: "slow_wf c \<Longrightarrow> x < sl_n_socks c \<Longrightarrow> slow_wf (sock_ctl_rx ev c x rx)"
  by (auto simp: sock_ctl_rx_def Let_def intro: syn_sent_wf syn_recv_wf established_wf fin_wait1_wf)

section \<open>New sockets\<close>

lemma succ_less: "n < MAX_SOCKETS \<Longrightarrow> x < n + 1 \<longleftrightarrow> x < n \<or> x = (n :: u32)"
proof -
  assume "n < MAX_SOCKETS"
  then have "unat (n + 1) = unat n + 1" by (subst unat_add_small) (simp_all add: word_less_nat_alt)
  then show ?thesis by (auto simp: word_less_nat_alt word_unat_eq_iff less_Suc_eq)
qed

lemma ready_ring_bound:
  assumes "slow_wf c" and "ls_active (sl_listeners c i) \<noteq> 0" and "ls_ready_sids (sl_listeners c i) = Some r"
  shows "sl_n_socks c \<notin> set r"
proof
  assume "sl_n_socks c \<in> set r"
  moreover have "sl_n_socks c \<noteq> ID_INVALID" using assms(1) by (auto simp: slow_wf_def word_le_nat_alt unat_minus_one_32)
  moreover have "listener_ok (sl_n_socks c) (\<lambda>x. tk_state (sl_socks c x)) (sl_listeners c i)"
    using assms(1) by (simp add: slow_wf_def lst_wf_def)
  ultimately show False using assms(2,3) by (auto simp: listener_ok_def)
qed

lemma listener_ok_new:
  assumes "listener_ok n st l" and "n < MAX_SOCKETS" and "\<And>r. ls_active l \<noteq> 0 \<Longrightarrow> ls_ready_sids l = Some r \<Longrightarrow> n \<notin> set r"
    and "\<And>y. y \<noteq> n \<Longrightarrow> st' y = st y"
  shows "listener_ok (n + 1) st' l"
  using assms(1) unfolding listener_ok_def succ_less [OF assms(2)]
  using assms(3,4) by fastforce

lemma listener_ok_enter:
  assumes "listener_ok n st l" and "\<And>r. ls_active l \<noteq> 0 \<Longrightarrow> ls_ready_sids l = Some r \<Longrightarrow> x \<notin> set r" and "\<And>y. y \<noteq> x \<Longrightarrow> st' y = st y"
  shows "listener_ok n st' l"
  using assms(1) unfolding listener_ok_def using assms(2,3) by fastforce

lemma flows_wf_ext:
  assumes "flows_wf n socks flows" and e: "\<And>y. y < n \<Longrightarrow> socks' y = socks y"
  shows "flows_wf n socks' flows"
  unfolding flows_wf_def
proof (intro conjI allI impI ballI)
  fix b y assume "b < TCP_FLOW_BUCKETS" "y \<in> set (bucket_ids (flows b))"
  then have "y < n" "sock_bucket (socks y) = b" "connected (socks y)" using assms(1) unfolding flows_wf_def by blast+
  then show "y < n" "sock_bucket (socks' y) = b" "connected (socks' y)" using e by simp_all
qed (use assms in \<open>auto simp: flows_wf_def\<close>)

lemma slow_wf_beyond:
  assumes w: "slow_wf c" and "\<not> x < sl_n_socks c"
  shows "slow_wf (upd_sock x f c)"
proof -
  let ?s = "(sl_socks c)(x := f (sl_socks c x))"
  have "flows_wf (sl_n_socks c) ?s (sl_flows c)"
    by (rule flows_wf_ext [where socks = "sl_socks c"]) (use assms in \<open>auto simp: slow_wf_def\<close>)
  moreover have "listener_ok (sl_n_socks c) (\<lambda>y. tk_state (?s y)) l" if "listener_ok (sl_n_socks c) (\<lambda>y. tk_state (sl_socks c y)) l" for l
  proof -
    have "y < sl_n_socks c \<Longrightarrow> ?s y = sl_socks c y" for y using assms(2) by auto
    then show ?thesis using that unfolding listener_ok_def by fastforce
  qed
  ultimately show ?thesis using assms unfolding slow_wf_def lst_wf_def by auto
qed

lemma alloc_wf:
  assumes w: "slow_wf c" and a: "tcp_sock_alloc ev c o1 a1 a2 q = (r, c')"
  shows "slow_wf c'" and "r = None \<Longrightarrow> sl_n_socks c' = sl_n_socks c"
    and "r = Some x \<Longrightarrow> x = sl_n_socks c \<and> sl_n_socks c' = x + 1 \<and> x < MAX_SOCKETS \<and> tk_state (sl_socks c' x) = TCP_SOCK_STATE_INIT \<and>
      sl_listeners c' = sl_listeners c"
proof -
  let ?n = "sl_n_socks c"
  have none: "slow_wf c' \<and> sl_n_socks c' = ?n" if "r = None"
  proof (cases "?n \<ge> MAX_SOCKETS")
    case True
    then show ?thesis using a w by (simp add: tcp_sock_alloc_def)
  next
    case False
    then show ?thesis using a w that by (auto simp: tcp_sock_alloc_def Let_def intro!: slow_wf_beyond split: option.splits if_splits)
  qed
  have some: "x = ?n \<and> sl_n_socks c' = x + 1 \<and> x < MAX_SOCKETS \<and> tk_state (sl_socks c' x) = TCP_SOCK_STATE_INIT \<and>
      sl_listeners c' = sl_listeners c \<and> slow_wf c'" if r: "r = Some x" for x
  proof -
    from a r obtain s' m' where n: "?n < MAX_SOCKETS" "x = ?n" and p: "sl_n_socks c' = ?n + 1" "sl_socks c' = (sl_socks c)(?n := s')"
      "sl_flows c' = sl_flows c" "sl_listeners c' = sl_listeners c" "sl_meta c' = (sl_meta c)(?n := m')" "sl_ports c' = sl_ports c"
      "sl_tomgr c' = sl_tomgr c" "sl_oob c' = sl_oob c"
      and s': "tk_id s' = ?n" "tk_state s' = TCP_SOCK_STATE_INIT" and m': "mt_listener_id m' = ID_INVALID"
      by (auto simp: tcp_sock_alloc_def Let_def not_le split: option.splits if_splits)
    have "flows_wf (?n + 1) ((sl_socks c)(?n := s')) (sl_flows c)"
      by (rule flows_wf_new) (use w n s' in \<open>simp_all add: slow_wf_def\<close>)
    moreover have "lst_wf (?n + 1) (\<lambda>y. tk_state (((sl_socks c)(?n := s')) y)) (sl_listeners c) (\<lambda>y. mt_listener_id (((sl_meta c)(?n := m')) y))"
      unfolding lst_wf_def succ_less [OF n(1)]
    proof (intro conjI allI impI)
      fix i
      show "listener_ok (?n + 1) (\<lambda>y. tk_state (((sl_socks c)(?n := s')) y)) (sl_listeners c i)"
        by (rule listener_ok_new [where st = "\<lambda>y. tk_state (sl_socks c y)"])
          (use w n(1) ready_ring_bound [OF w, of i] in \<open>auto simp: slow_wf_def lst_wf_def\<close>)
    qed (use w s' m' in \<open>auto simp: slow_wf_def lst_wf_def\<close>)
    moreover have "port_ok (?n + 1) (sl_ports c q)" for q using w by (fastforce simp: slow_wf_def port_ok_def succ_less [OF n(1)])
    moreover have "timers_wf (?n + 1) (sl_tomgr c)" using w by (auto simp: slow_wf_def timers_wf_def succ_less [OF n(1)])
    moreover have "?n + 1 \<le> MAX_SOCKETS" using n(1) by (simp add: inc_le)
    ultimately show ?thesis using w n p s' unfolding slow_wf_def p by auto
  qed
  show "slow_wf c'" using none some by (cases r) auto
  show "r = None \<Longrightarrow> sl_n_socks c' = ?n" using none by simp
  show "r = Some x \<Longrightarrow> x = ?n \<and> sl_n_socks c' = x + 1 \<and> x < MAX_SOCKETS \<and> tk_state (sl_socks c' x) = TCP_SOCK_STATE_INIT \<and>
      sl_listeners c' = sl_listeners c" using some [of x] by blast
qed

section \<open>Opening a child\<close>

lemma child_init_simps [simp]:
  "tk_id (child_init c rx s) = tk_id s" "tk_state (child_init c rx s) = TCP_SOCK_STATE_SYN_RECV"
  by (simp_all add: child_init_def Let_def)

lemma slow_wf_new_meta:
  assumes w: "slow_wf c" and x: "x < sl_n_socks c" and "lid < sl_n_socks c"
  shows "slow_wf (upd_sock_meta x (\<lambda>m. m\<lparr>mt_listener_id := lid\<rparr>) c)"
proof -
  have "lid \<noteq> ID_INVALID" using slow_wf_valid [OF w assms(3)] .
  then show ?thesis using w assms(3) unfolding slow_wf_def lst_wf_def by (auto simp: slow_wf_id [OF w x])
qed

text \<open>A socket that enters the table: no ready ring knows it yet.\<close>

lemma slow_wf_enter:
  assumes w: "slow_wf c" and x: "x < sl_n_socks c" and n: "\<not> connected (sl_socks c x)" and id: "tk_id s' = x" and "connected s'"
    and put: "bucket_put x (sl_flows c (sock_bucket s')) = Some bk"
    and ring: "\<And>i r. ls_active (sl_listeners c i) \<noteq> 0 \<Longrightarrow> ls_ready_sids (sl_listeners c i) = Some r \<Longrightarrow> tk_state s' = TCP_SOCK_STATE_SYN_RECV \<Longrightarrow> x \<notin> set r"
    and lid: "tk_state s' = TCP_SOCK_STATE_SYN_RECV \<Longrightarrow> mt_listener_id (sl_meta c x) \<noteq> ID_INVALID"
  shows "slow_wf (upd_sock x (\<lambda>_. s') (c\<lparr>sl_flows := (sl_flows c)(sock_bucket s' := bk)\<rparr>))"
proof -
  let ?so = "(sl_socks c)(x := s')"
  have f: "flows_wf (sl_n_socks c) ?so ((sl_flows c)(sock_bucket s' := bk))"
    by (rule flows_wf_insert) (use assms slow_wf_valid [OF w x] in \<open>simp_all add: slow_wf_def\<close>)
  have "listener_ok (sl_n_socks c) (\<lambda>y. tk_state (?so y)) (sl_listeners c i)" for i
  proof (cases "tk_state s' = TCP_SOCK_STATE_SYN_RECV")
    case False
    show ?thesis
      by (rule listener_ok_st [where x = x and st = "\<lambda>y. tk_state (sl_socks c y)"])
        (use w False in \<open>simp_all add: slow_wf_def lst_wf_def\<close>)
  next
    case True
    show ?thesis
      by (rule listener_ok_enter [where st = "\<lambda>y. tk_state (sl_socks c y)" and x = x])
        (use w ring [OF _ _ True, of i] in \<open>simp_all add: slow_wf_def lst_wf_def\<close>)
  qed
  then have l: "lst_wf (sl_n_socks c) (\<lambda>y. tk_state (?so y)) (sl_listeners c) (\<lambda>y. mt_listener_id (sl_meta c y))"
    using w lid unfolding slow_wf_def lst_wf_def by auto
  show ?thesis using w f l by (simp add: slow_wf_def)
qed

lemma child_open_wf:
  assumes w: "slow_wf c0" and x: "x < sl_n_socks c0" and l: "lid < sl_n_socks c0" and st: "tk_state (sl_socks c0 x) = TCP_SOCK_STATE_INIT"
    and ring: "\<And>i r. ls_active (sl_listeners c0 i) \<noteq> 0 \<Longrightarrow> ls_ready_sids (sl_listeners c0 i) = Some r \<Longrightarrow> x \<notin> set r"
  shows "slow_wf (snd (child_open ev c0 lid rx x))"
proof -
  note id = slow_wf_id [OF w x]
  define cm where "cm = upd_sock_meta x (\<lambda>m. m\<lparr>mt_listener_id := lid\<rparr>) c0"
  have cm: "slow_wf cm" "sl_socks cm = sl_socks c0" "sl_n_socks cm = sl_n_socks c0" "sl_listeners cm = sl_listeners c0"
    "mt_listener_id (sl_meta cm x) = lid" "sl_flows cm = sl_flows c0"
    using slow_wf_new_meta [OF w x l] id by (simp_all add: cm_def)
  define s' where "s' = child_init c0 rx (sl_socks c0 x)"
  have s': "tk_id s' = x" "connected s'" by (simp_all add: s'_def id connected_def)
  define c1 where "c1 = upd_sock_meta x (\<lambda>m. m\<lparr>mt_listener_id := lid\<rparr>) (upd_sock x (child_init c0 rx) c0)"
  have c1: "c1 = upd_sock x (\<lambda>_. s') cm"
    by (simp add: c1_def cm_def upd_sock_def upd_sock_meta_def upd_meta_def s'_def id)
  show ?thesis
  proof (cases "bucket_put x (sl_flows c0 (sock_bucket s'))")
    case None
    then have i: "tcp_flow_insert c1 x = (-1, c1)" by (simp add: tcp_flow_insert_def c1 s' cm)
    have "upd_sock x (\<lambda>s. s\<lparr>tk_state := TCP_SOCK_STATE_CLOSED\<rparr>) c1 = upd_sock x (\<lambda>_. s'\<lparr>tk_state := TCP_SOCK_STATE_CLOSED\<rparr>) cm"
      by (simp add: c1 upd_sock_def)
    also have "slow_wf \<dots>" by (rule slow_wf_upd_sock) (use cm x s' st in simp_all)
    finally show ?thesis by (simp add: child_open_def Let_def i flip: c1_def)
  next
    case (Some bk)
    define c2 where "c2 = upd_sock x (\<lambda>_. s') (cm\<lparr>sl_flows := (sl_flows cm)(sock_bucket s' := bk)\<rparr>)"
    have c2: "slow_wf c2" unfolding c2_def
      by (rule slow_wf_enter) (use cm x st s' Some ring slow_wf_valid [OF w l] in auto)
    have i: "tcp_flow_insert c1 x = (0, c2)" using Some by (simp add: tcp_flow_insert_def c1 c2_def s' cm upd_sock_def)
    define c3 where "c3 = upd_listener lid (\<lambda>l. l\<lparr>ls_backlog_used := ls_backlog_used l + 1\<rparr>) c2"
    have c3: "slow_wf c3" "x < sl_n_socks c3" unfolding c3_def
      using c2 x cm by (auto intro!: slow_wf_upd_listener simp: slow_wf_def lst_wf_def listener_ok_def c2_def)
    obtain r4 c4 where t: "tcp_ctl_tx c3 x (synack_flags (sl_socks c3 x)) = (r4, c4)" by (rule prod.exhaust)
    have c4: "slow_wf c4" "x < sl_n_socks c4" using c3 ctl_tx_wf(1,2) [of c3 x "synack_flags (sl_socks c3 x)"] t by simp_all
    obtain r5 c5 where m: "tcp_timeout_arm ev c4 x TCP_RETX_SYNACK = (r5, c5)" by (rule prod.exhaust)
    have c5: "slow_wf c5" "x < sl_n_socks c5"
      using timeout_arm_wf [OF c4, of ev TCP_RETX_SYNACK] timeout_arm_proj(1) [of ev c4 x TCP_RETX_SYNACK] c4 m by simp_all
    show ?thesis using c4 c5
      by (simp only: child_open_def Let_def c1_def [symmetric] i prod.case simp_thms if_False c3_def [symmetric] t m) (simp add: close_final_wf)
  qed
qed

lemma listen_syn_wf:
  assumes w: "slow_wf c" and l: "lsid < sl_n_socks c"
  shows "slow_wf (snd (tcp_rx_listen_syn ev c lsid rx))"
proof -
  obtain r c0 where a: "tcp_sock_alloc ev c 0 0 0 0 = (r, c0)" by (rule prod.exhaust)
  note al = alloc_wf [OF w a]
  have "slow_wf (snd (child_open ev c0 lsid rx x))" if r: "r = Some x" for x
  proof (rule child_open_wf)
    show "slow_wf c0" "tk_state (sl_socks c0 x) = TCP_SOCK_STATE_INIT" using al r by blast+
    show "x < sl_n_socks c0" "lsid < sl_n_socks c0" using al(3) [OF r] l by (auto simp: succ_less)
    show "x \<notin> set rr" if "ls_active (sl_listeners c0 i) \<noteq> 0" "ls_ready_sids (sl_listeners c0 i) = Some rr" for i rr
      using ready_ring_bound [OF w] al(3) [OF r] that by metis
  qed
  then show ?thesis
    using w al(1) by (auto simp: tcp_rx_listen_syn_def Let_def a slow_wf_id [OF w l] split: option.splits)
qed

section \<open>Packets from the fast path\<close>

lemma bucket_find_mem: "bucket_find c lip lport rip rport xs = Some x \<Longrightarrow> x \<in> set (bucket_ids xs) \<and>
   tk_state (sl_socks c x) \<noteq> TCP_SOCK_STATE_CLOSED \<and> flow_matches (sl_socks c x) lip lport rip rport"
  by (induction xs) (auto simp: flow_matches_def split: if_splits)

lemma flow_lookup_bound:
  assumes "slow_wf c" and "tcp_flow_lookup c lip lport rip rport = Some x"
  shows "x < sl_n_socks c" and "connected (sl_socks c x)" and "flow_matches (sl_socks c x) lip lport rip rport"
proof -
  let ?b = "flow_hash lip lport rip rport mod TCP_FLOW_BUCKETS"
  have b: "?b < TCP_FLOW_BUCKETS" by (simp add: word_less_nat_alt unat_mod)
  have m: "x \<in> set (bucket_ids (sl_flows c ?b))" "flow_matches (sl_socks c x) lip lport rip rport"
    using assms(2) bucket_find_mem unfolding tcp_flow_lookup_def by blast+
  then show "x < sl_n_socks c" "connected (sl_socks c x)" "flow_matches (sl_socks c x) lip lport rip rport"
    using assms(1) b unfolding slow_wf_def flows_wf_def by blast+
qed

lemma listener_lookup_wf:
  assumes w: "slow_wf c" and lu: "tcp_listener_lookup c ip port = (lid, c1)"
  shows "slow_wf c1" and "sl_n_socks c1 = sl_n_socks c" and "sl_socks c1 = sl_socks c" and "lid \<noteq> ID_INVALID \<Longrightarrow> lid < sl_n_socks c"
proof -
  let ?e = "sl_ports c port" and ?n = "tp_nsocks (sl_ports c port)"
  have ok: "port_ok (sl_n_socks c) ?e" using w by (simp add: slow_wf_def)
  let ?idxs = "map (\<lambda>i. (tp_next_sock ?e + of_nat i) mod ?n) [0 ..< unat ?n]"
  have "(c1 = c \<and> lid = ID_INVALID) \<or>
     (\<exists>idx. ?n \<noteq> 0 \<and> idx \<in> set ?idxs \<and> lid = tp_sids ?e ! unat idx \<and> c1 = c\<lparr>sl_ports := (sl_ports c)(port := ?e\<lparr>tp_next_sock := (idx + 1) mod ?n\<rparr>)\<rparr>)"
    using lu unfolding tcp_listener_lookup_def Let_def
    by (auto split: if_splits option.splits simp: find_Some_iff in_set_conv_nth simp del: set_map)
  then consider "c1 = c" "lid = ID_INVALID" |
    idx where "?n \<noteq> 0" "idx \<in> set ?idxs" "lid = tp_sids ?e ! unat idx" "c1 = c\<lparr>sl_ports := (sl_ports c)(port := ?e\<lparr>tp_next_sock := (idx + 1) mod ?n\<rparr>)\<rparr>"
    by blast
  then have "slow_wf c1 \<and> sl_n_socks c1 = sl_n_socks c \<and> sl_socks c1 = sl_socks c \<and> (lid \<noteq> ID_INVALID \<longrightarrow> lid < sl_n_socks c)"
  proof cases
    case (2 idx)
    then have "idx < ?n" by (auto simp: word_less_nat_alt unat_mod unat_gt_0)
    then have "unat idx < length (tp_sids ?e)" using ok by (simp add: port_ok_def word_less_nat_alt word_le_nat_alt)
    then have "lid \<in> set (tp_sids ?e)" using 2 by simp
    moreover have "port_ok (sl_n_socks c) (?e\<lparr>tp_next_sock := (idx + 1) mod ?n\<rparr>)" using ok by (simp add: port_ok_def)
    ultimately show ?thesis using w ok 2(4) by (auto simp: slow_wf_def port_ok_def)
  qed (use w in simp)
  then show "slow_wf c1" "sl_n_socks c1 = sl_n_socks c" "sl_socks c1 = sl_socks c" "lid \<noteq> ID_INVALID \<Longrightarrow> lid < sl_n_socks c" by simp_all
qed

lemma ts_rx_simps [simp]:
  "tk_id (ctl_sock_ts_rx ev rx s) = tk_id s" "tk_state (ctl_sock_ts_rx ev rx s) = tk_state s" "sock_bucket (ctl_sock_ts_rx ev rx s) = sock_bucket s"
  by (simp_all add: ctl_sock_ts_rx_def sock_bucket_def Let_def split: option.splits prod.splits)

lemma spin_simps [simp]:
  "tk_id (util_spin_lock s) = tk_id s" "tk_state (util_spin_lock s) = tk_state s" "sock_bucket (util_spin_lock s) = sock_bucket s"
  "tk_id (util_spin_unlock s) = tk_id s" "tk_state (util_spin_unlock s) = tk_state s" "sock_bucket (util_spin_unlock s) = sock_bucket s"
  by (simp_all add: util_spin_lock_def util_spin_unlock_def sock_bucket_def)

lemma close_final_n [simp]: "sl_n_socks (tcp_sock_close_final c x) = sl_n_socks c"
  by (simp add: tcp_sock_close_final_def Let_def)

lemma connect_fail_n [simp]: "sl_n_socks (tcp_sock_connect_fail c x err) = sl_n_socks c"
  by (simp add: tcp_sock_connect_fail_def tcp_app_connect_res_def Let_def)

lemma established_n [simp]:
  "sl_n_socks (snd (tcp_listener_ready_push c lid y)) = sl_n_socks c" "sl_n_socks (sock_active_established ev c x rx) = sl_n_socks c"
  "sl_n_socks (tcp_rx_established c x rx) = sl_n_socks c" "sl_n_socks (tcp_rx_fin_wait1 c x rx) = sl_n_socks c"
  by (simp_all add: tcp_listener_ready_push_def sock_active_established_def tcp_rx_established_def tcp_rx_fin_wait1_def Let_def)

lemma passive_established_n [simp]: "sl_n_socks (snd (sock_passive_established c x rx)) = sl_n_socks c"
proof -
  define c2 where "c2 = upd_sock x (\<lambda>s. s\<lparr>tk_tx_remote_avail := ucast (rc_wnd rx), tk_tx_pending := tk_tx_pending s - 1,
                 tk_tx_seq := tk_tx_seq s + 1, tk_state := TCP_SOCK_STATE_ACCEPT_PENDING\<rparr>) (tcp_timeout_cancel c x)"
  obtain r c3 where p: "tcp_listener_ready_push c2 (mt_listener_id (tcp_sock_meta c2 x)) (tk_id (sl_socks c2 x)) = (r, c3)" by (rule prod.exhaust)
  have "sl_n_socks c2 = sl_n_socks c" by (simp add: c2_def)
  then have "sl_n_socks c3 = sl_n_socks c"
    using established_n(1) [of c2 "mt_listener_id (tcp_sock_meta c2 x)" "tk_id (sl_socks c2 x)"] unfolding p by simp
  then show ?thesis unfolding sock_passive_established_def Let_def c2_def [symmetric] p by simp
qed

lemma syn_recv_n [simp]: "sl_n_socks (tcp_rx_syn_recv c x rx) = sl_n_socks c"
proof -
  obtain r c1 where p: "sock_passive_established c x rx = (r, c1)" by (rule prod.exhaust)
  then have "sl_n_socks c1 = sl_n_socks c" using passive_established_n [of c x rx] by simp
  then show ?thesis by (simp add: tcp_rx_syn_recv_def p tcp_app_listen_newconn_def)
qed

lemma sock_ctl_rx_n [simp]: "sl_n_socks (sock_ctl_rx ev c x rx) = sl_n_socks c"
  by (simp add: sock_ctl_rx_def tcp_rx_syn_sent_def tcp_app_connect_res_def Let_def)

lemma ctl_rx_wf [wf_intros]:
  assumes w: "slow_wf c"
  shows "slow_wf (snd (ctl_rx ev c pkt))"
proof -
  define rx where "rx = ctl_rx_parse pkt (if ucast (ld16 pkt 52) \<ge> sl_n_fp_cores c then 0 else ld16 pkt 52)"
  obtain lid c1 where lu: "tcp_listener_lookup c (rc_local_ip rx) (rc_local_port rx) = (lid, c1)" by (rule prod.exhaust)
  note l = listener_lookup_wf [OF w lu]
  have "slow_wf (upd_sock x util_spin_unlock (sock_ctl_rx ev (upd_sock x (\<lambda>s. ctl_sock_ts_rx ev rx (util_spin_lock s)) c) x rx))"
    if "tcp_flow_lookup c (rc_local_ip rx) (rc_local_port rx) (rc_remote_ip rx) (rc_remote_port rx) = Some x" for x
    using flow_lookup_bound(1) [OF w that] by (intro upd_sock_harmless sock_ctl_rx_wf w) simp_all
  then show ?thesis
    using w l listen_syn_wf [OF l(1), of lid ev rx] unfolding ctl_rx_def Let_def rx_def [symmetric]
    by (auto simp: lu split: option.splits)
qed

section \<open>Timers\<close>

lemma retx_expire_wf: "slow_wf c \<Longrightarrow> x < sl_n_socks c \<Longrightarrow> slow_wf (sock_retx_expire c x)"
  by (auto simp: sock_retx_expire_def Let_def intro!: close_final_wf connect_fail_wf')

lemma on_timeout_wf:
  assumes "slow_wf c" and "x < sl_n_socks c"
  shows "slow_wf (snd (sock_on_timeout ev c x))"
proof -
  obtain r1 c1 where t: "sock_retx_tx c x = (r1, c1)" by (rule prod.exhaust)
  have "slow_wf (snd (sock_retx_tx c x)) \<and> sl_n_socks (snd (sock_retx_tx c x)) = sl_n_socks c"
    using assms by (simp add: sock_retx_tx_def Let_def split: option.splits)
  then have c1: "slow_wf c1" "x < sl_n_socks c1" using t assms by auto
  define c2 where "c2 = upd_sock_meta x (\<lambda>m. m\<lparr>mt_retx_left := mt_retx_left m - 1\<rparr>) c1"
  have c2: "slow_wf c2" "x < sl_n_socks c2" using c1 by (auto simp: c2_def intro!: slow_wf_upd_sock_meta)
  obtain r3 c3 where s: "sock_retx_sched ev c2 x = (r3, c3)" by (rule prod.exhaust)
  have c3: "slow_wf c3" "x < sl_n_socks c3" using retx_sched_wf [OF c2, of ev] retx_sched_proj(1) [of ev c2 x] c2 s by simp_all
  show ?thesis
    using assms c1 c3 by (simp add: sock_on_timeout_def t Let_def s retx_expire_wf flip: c2_def)
qed

lemma timeout_loop_wf: "slow_wf c \<Longrightarrow> slow_wf (snd (timeout_loop evs c))"
proof (induction evs arbitrary: c)
  case (Cons ev evs)
  show ?case
  proof (cases "tomgr_peek (sl_tomgr c)")
    case (Some e)
    obtain tm te where p: "tomgr_pop (sl_tomgr c) = (tm, te)" by (rule prod.exhaust)
    have tw: "timers_wf (sl_n_socks c) (sl_tomgr c)" using Cons.prems by (simp add: slow_wf_def)
    then have w: "tm_wf (sl_tomgr c)" by (simp add: timers_wf_def)
    note pop = tomgr_pop_refines [OF w p]
    have te: "te = Some e" using pop(2) Some by simp
    have tm: "timers tm = (timers (sl_tomgr c))(e := None)" using pop(4) [OF te] .
    define sid where "sid = (ucast (te_data (tm_entries tm e)) :: u32)"
    have "e \<in> dom (timers (sl_tomgr c))" using tomgr_peek_min(2) [OF w Some] by blast
    then have "timers (sl_tomgr c) e = Some (timer_of (sl_tomgr c) e)" by (auto simp: timers_def split: if_splits)
    moreover have "sid = ucast (snd (snd (timer_of (sl_tomgr c) e)))"
      unfolding pop(5) [symmetric] by (simp add: sid_def timer_of_def)
    ultimately have sid: "sid < sl_n_socks c" using tw unfolding timers_wf_def by blast
    define c2 where "c2 = upd_sock_meta sid (\<lambda>m. m\<lparr>mt_timer := None\<rparr>) (c\<lparr>sl_tomgr := tm\<rparr>)"
    have "timers_wf (sl_n_socks c) tm" using tw pop(1) tm by (auto simp: timers_wf_def)
    then have c2: "slow_wf c2" "sid < sl_n_socks c2"
      using Cons.prems sid by (auto simp: c2_def intro!: slow_wf_upd_sock_meta slow_wf_tomgr)
    have "slow_wf (snd (timeout_loop evs c2))" "slow_wf (snd (timeout_loop evs (snd (sock_on_timeout ev c2 sid))))"
      using Cons.IH c2 on_timeout_wf by blast+
    then show ?thesis using Some Cons.prems by (simp add: p te Let_def flip: sid_def c2_def)
  qed (use Cons.prems in simp)
qed simp

section \<open>Congestion control\<close>

lemma dctcp_control_lid: "dctcp_control cf r m ecnb ackb drops el = (r', m') \<Longrightarrow> mt_listener_id m' = mt_listener_id m"
proof -
  have adj: "mt_listener_id (snd (dctcp_adjust cf m rate d e a)) = mt_listener_id m" for m rate d e a
    by (simp add: dctcp_adjust_def Let_def)
  have "mt_listener_id (snd (dctcp_next cf rate m e a d)) = mt_listener_id m" for rate m e a d
  proof -
    obtain r1 m2 where 1: "(if mt_dctcp_slowstart m \<noteq> 0
             then (if d = 0 \<and> e = 0 \<and> mt_cc_rexmits m = 0 then (if (ucast rate :: u64) * 2 \<le> CC_MAX64 then rate * 2 else CC_MAX, m)
                   else (rate, m\<lparr>mt_dctcp_slowstart := 0\<rparr>)) else (rate, m)) = (r1, m2)" by (rule prod.exhaust)
    obtain r2 m3 where 2: "(if mt_dctcp_slowstart m2 = 0 then dctcp_adjust cf m2 r1 d e a else (r1, m2)) = (r2, m3)" by (rule prod.exhaust)
    have "mt_listener_id m3 = mt_listener_id m2" using 2 adj [of m2 r1 d e a] by (auto split: if_splits)
    moreover have "mt_listener_id m2 = mt_listener_id m" using 1 by (auto split: if_splits)
    ultimately show ?thesis unfolding dctcp_next_def Let_def 1 prod.case 2 by simp
  qed
  then have "mt_listener_id (snd (dctcp_control cf r m ecnb ackb drops el)) = mt_listener_id m"
    by (simp add: dctcp_control_def Let_def)
  then show "dctcp_control cf r m ecnb ackb drops el = (r', m') \<Longrightarrow> mt_listener_id m' = mt_listener_id m" by simp
qed

lemma rate_wf: "slow_wf c \<Longrightarrow> x < sl_n_socks c \<Longrightarrow> slow_wf (upd_sock x (\<lambda>s. s\<lparr>tk_cc_rate := v\<rparr>) c)"
  by (rule upd_sock_harmless) (simp_all add: sock_bucket_def)

lemma cc_tick_wf:
  assumes w: "slow_wf c" and x: "x < sl_n_socks c"
  shows "slow_wf (sock_on_cc_tick c x st el)" and "sl_n_socks (sock_on_cc_tick c x st el) = sl_n_socks c"
proof -
  have d: "slow_wf (sock_on_dctcp_tick c x st el) \<and> sl_n_socks (sock_on_dctcp_tick c x st el) = sl_n_socks c"
  proof -
    define m where "m = (tcp_sock_meta c x)\<lparr>mt_cc_rtt := cc_rtt (sl_config c) st, mt_dctcp_unproc_ecnb := 0, mt_dctcp_unproc_acks := 0,
      mt_dctcp_unproc_ackb := 0, mt_dctcp_unproc_drops := 0\<rparr>"
    define e a dr where "e = mt_dctcp_unproc_ecnb (tcp_sock_meta c x) + st_ecnb st" and "a = mt_dctcp_unproc_ackb (tcp_sock_meta c x) + st_ackb st"
      and "dr = mt_dctcp_unproc_drops (tcp_sock_meta c x) + st_drops st"
    obtain r' m' where k: "dctcp_control (sl_config c) (tk_cc_rate (sl_socks c x)) m e a dr el = (r', m')" by (rule prod.exhaust)
    have "slow_wf (upd_sock x (\<lambda>s. s\<lparr>tk_cc_rate := r'\<rparr>) (upd_sock_meta x (\<lambda>_. m') c))"
      using dctcp_control_lid [OF k] w x by (intro rate_wf slow_wf_set_meta) (simp_all add: m_def)
    moreover have "slow_wf (upd_sock_meta x (\<lambda>_. mm) c)" if "mt_listener_id mm = mt_listener_id (tcp_sock_meta c x)" for mm
      using slow_wf_set_meta [OF w that] .
    ultimately show ?thesis using k by (simp add: sock_on_dctcp_tick_def Let_def m_def e_def a_def dr_def)
  qed
  have "slow_wf (sock_on_const_rate_tick c x st) \<and> sl_n_socks (sock_on_const_rate_tick c x st) = sl_n_socks c"
    using w x by (auto simp: sock_on_const_rate_tick_def intro!: slow_wf_upd_sock_meta rate_wf)
  with d show "slow_wf (sock_on_cc_tick c x st el)" "sl_n_socks (sock_on_cc_tick c x st el) = sl_n_socks c"
    using w x by (auto simp: sock_on_cc_tick_def intro!: slow_wf_upd_sock_meta rate_wf)
qed

lemma slow_wf_stats [simp]:
  "slow_wf (c\<lparr>sl_stats_drops := v, sl_stats_acks_rx := v'\<rparr>) = slow_wf c" "slow_wf (c\<lparr>sl_stats_retx := v\<rparr>) = slow_wf c"
  "slow_wf (c\<lparr>sl_cc_next_sock := n\<rparr>) = slow_wf c" "slow_wf (c\<lparr>sl_cc_poll_tsc := v\<rparr>) = slow_wf c"
  by (simp_all add: slow_wf_def)

lemma stats_commit_wf: "slow_wf c \<Longrightarrow> slow_wf (cc_stats_commit c x st) \<and> sl_n_socks (cc_stats_commit c x st) = sl_n_socks c"
  by (auto simp: cc_stats_commit_def Let_def intro!: slow_wf_upd_sock_meta)

lemma tx_stall_wf:
  assumes "slow_wf c"
  shows "slow_wf (sock_on_tx_stall ev c x st now) \<and> sl_n_socks (sock_on_tx_stall ev c x st now) = sl_n_socks c"
proof -
  define c1 where "c1 = upd_sock_meta x (\<lambda>m. m\<lparr>mt_cnt_tx_pending := mt_cnt_tx_pending (tcp_sock_meta c x) + 1\<rparr>) c"
  have c1: "slow_wf c1" "sl_n_socks c1 = sl_n_socks c" using assms by (auto simp: c1_def intro!: slow_wf_upd_sock_meta)
  obtain r c2 where t: "tcp_tx_retransmit c1 x = (r, c2)" by (rule prod.exhaust)
  have c2: "slow_wf c2" "sl_n_socks c2 = sl_n_socks c"
    using c1 slow_wf_msgs(3) [of c1 x] tcp_tx_retransmit_proj(1) [of c1 x] t by simp_all
  have m: "slow_wf (upd_sock_meta x f c')" if "slow_wf c'" "\<And>m. mt_listener_id (f m) = mt_listener_id m" for f c'
    using that by (rule slow_wf_upd_sock_meta)
  show ?thesis
    unfolding sock_on_tx_stall_def Let_def c1_def [symmetric] t prod.case
    using assms c1 c2 by (auto intro!: m)
qed

lemma cc_poll_sock_wf:
  assumes w: "slow_wf c" and n: "sl_n_socks c \<noteq> 0"
  shows "slow_wf (snd (cc_poll_sock now ev (nr, c))) \<and> sl_n_socks (snd (cc_poll_sock now ev (nr, c))) = sl_n_socks c"
proof -
  define x where "x = (if sl_cc_next_sock c \<ge> sl_n_socks c then 0 else sl_cc_next_sock c)"
  have x: "x < sl_n_socks c" using n by (auto simp: x_def word_less_nat_alt unat_gt_0 not_le)
  define c1 where "c1 = c\<lparr>sl_cc_next_sock := x + 1\<rparr>"
  have c1: "slow_wf c1" "sl_n_socks c1 = sl_n_socks c" using w by (simp_all add: c1_def)
  define st where "st = cc_stats_read (sl_config c1) (sl_socks c1 x) (tcp_sock_meta c1 x)"
  note k = stats_commit_wf [OF c1(1), of x st]
  define el where "el = ev_since ev (mt_cc_tsc (tcp_sock_meta c1 x))"
  note t = cc_tick_wf [of "cc_stats_commit c1 x st" x st el]
  note s = tx_stall_wf [of "sock_on_cc_tick (cc_stats_commit c1 x st) x st el" ev x st now]
  have m: "slow_wf (upd_sock_meta x f c')" if "slow_wf c'" "\<And>m. mt_listener_id (f m) = mt_listener_id m" for f c'
    using that by (rule slow_wf_upd_sock_meta)
  show ?thesis
    unfolding cc_poll_sock_def prod.case Let_def x_def [symmetric] c1_def [symmetric] st_def [symmetric] el_def [symmetric]
    using c1 k t s x by (auto intro!: m)
qed

lemma cc_poll_wf: "slow_wf c \<Longrightarrow> slow_wf (snd (tcp_cc_poll ev0 ev c))"
proof (cases "sl_n_socks c = 0")
  case False
  assume w: "slow_wf c"
  have "slow_wf (snd (fold (\<lambda>i. cc_poll_sock now (ev i)) js p))" if "slow_wf (snd p)" "sl_n_socks (snd p) \<noteq> 0" for js p now
    using that
  proof (induction js arbitrary: p)
    case (Cons i js)
    obtain nr c' where p: "p = (nr, c')" by (rule prod.exhaust)
    then show ?case using Cons.IH [of "cc_poll_sock now (ev i) p"] Cons.prems cc_poll_sock_wf [of c' now "ev i" nr] by simp
  qed simp
  then show ?thesis using w False by (auto simp: tcp_cc_poll_def Let_def)
qed (simp add: tcp_cc_poll_def)

end
