(* ===== verification/Tcp_Slow_App_Wf.thy ===== *)
theory Tcp_Slow_App_Wf
  imports Tcp_Slow_Wf
begin

unbundle bit_operations_syntax

text \<open>
  Application requests keep the invariant of the slow path, provided bind, connect and listen are
  not called on a socket that is already connected and listen not on an active listener: the
  handlers do not check this themselves.
\<close>

section \<open>Ports\<close>

lemma port_insert_ok: "port_ok n e \<Longrightarrow> x < n \<Longrightarrow> port_ok n (snd (port_insert socks x r e))"
proof -
  assume a: "port_ok n e" "x < n"
  have len: "length (tp_sids e) = 8" "unat (tp_nsocks e) \<le> 8" using a by (simp_all add: port_ok_def word_le_nat_alt)
  have upd: "\<forall>y \<in> set ((tp_sids e)[k := x]). y = ID_INVALID \<or> y < n" for k
    using a set_update_subset_insert [of "tp_sids e" k x] by (auto simp: port_ok_def)
  have "unat (tp_nsocks e + 1) \<le> 8" if "\<not> tp_nsocks e \<ge> MAX_REUSOCK_PORT"
    using that by (subst unat_add_small) (simp_all add: word_le_nat_alt)
  then show ?thesis using a len upd by (auto simp: port_insert_def port_ok_def word_le_nat_alt)
qed

lemma port_remove_ok: "port_ok n e \<Longrightarrow> port_ok n (port_remove x e)"
proof -
  assume a: "port_ok n e"
  let ?k = "unat (tp_nsocks e)" and ?u = "take (unat (tp_nsocks e)) (tp_sids e)"
  have k: "?k \<le> 8" "length (tp_sids e) = 8" using a by (simp_all add: port_ok_def word_le_nat_alt)
  show ?thesis
  proof (cases "x \<in> set ?u")
    case True
    then have pos: "0 < ?k" "tp_nsocks e \<noteq> 0" by (auto simp: unat_gt_0)
    have "length (remove1 x ?u @ ID_INVALID # drop ?k (tp_sids e)) = 8"
      using True k pos by (simp add: length_remove1)
    moreover have "set (remove1 x ?u @ ID_INVALID # drop ?k (tp_sids e)) \<subseteq> insert ID_INVALID (set (tp_sids e))"
      using set_remove1_subset [of x ?u] set_take_subset [of ?k "tp_sids e"] set_drop_subset [of ?k "tp_sids e"] by auto
    moreover have "unat (tp_nsocks e - 1) \<le> 8" using pos k by (simp add: unat_minus_one)
    ultimately show ?thesis using a True by (auto simp: port_remove_def Let_def port_ok_def word_le_nat_alt)
  next
    case False
    then show ?thesis using a by (simp add: port_remove_def Let_def)
  qed
qed

lemma listener_insert_wf:
  assumes "slow_wf c" and "x < sl_n_socks c"
  shows "slow_wf (snd (tcp_listener_insert c p x r))"
proof -
  have "port_ok (sl_n_socks c) (snd (port_insert (sl_socks c) x r (sl_ports c p)))"
    by (rule port_insert_ok) (use assms in \<open>simp_all add: slow_wf_def\<close>)
  then show ?thesis using assms(1) by (auto simp: tcp_listener_insert_def slow_wf_def split: prod.splits)
qed

lemma listener_ports_proj [simp]:
  "sl_n_socks (snd (tcp_listener_insert c p x r)) = sl_n_socks c" "sl_socks (snd (tcp_listener_insert c p x r)) = sl_socks c"
  "sl_listeners (snd (tcp_listener_insert c p x r)) = sl_listeners c"
  "sl_n_socks (tcp_listener_remove c p x) = sl_n_socks c" "sl_socks (tcp_listener_remove c p x) = sl_socks c"
  by (simp_all add: tcp_listener_insert_def tcp_listener_remove_def split: prod.splits)

lemma listener_remove_wf: "slow_wf c \<Longrightarrow> slow_wf (tcp_listener_remove c p x)"
  by (auto simp: tcp_listener_remove_def slow_wf_def port_remove_ok)

section \<open>Accepting\<close>

lemma ready_pop_step_wf:
  assumes w: "slow_wf c" and act: "ls_active (sl_listeners c lid) \<noteq> 0" and used: "ls_ready_used (sl_listeners c lid) \<noteq> 0"
    and p: "ready_pop_step c lid = (r, c')"
  shows "slow_wf c'" and "sl_n_socks c' = sl_n_socks c" and "sl_socks c' = sl_socks c"
    and "r = Some x \<Longrightarrow> x < sl_n_socks c \<and> tk_state (sl_socks c x) = TCP_SOCK_STATE_ACCEPT_PENDING"
proof -
  let ?l = "sl_listeners c lid" and ?n = "sl_n_socks c" and ?st = "\<lambda>y. tk_state (sl_socks c y)"
  have ok: "listener_ok ?n ?st ?l" using w by (simp add: slow_wf_def lst_wf_def)
  then obtain rs where rs: "ls_ready_sids ?l = Some rs" "length rs = unat (ls_backlog_len ?l)"
    "\<And>y. y \<in> set rs \<Longrightarrow> y \<noteq> ID_INVALID \<Longrightarrow> y < ?n \<and> ?st y \<noteq> TCP_SOCK_STATE_SYN_RECV"
    using act by (auto simp: listener_ok_def)
  have len: "ls_backlog_len ?l \<noteq> 0" using ok act used by (auto simp: listener_ok_def)
  then have hd: "ls_ready_head ?l < ls_backlog_len ?l" using ok act by (simp add: listener_ok_def)
  then have hb: "unat (ls_ready_head ?l) < length rs" using rs by (simp add: word_less_nat_alt)
  define sid where "sid = rs ! unat (ls_ready_head ?l)"
  have mem: "sid \<in> set rs" using hb by (simp add: sid_def)
  define l where "l = ?l\<lparr>ls_ready_sids := Some (rs[unat (ls_ready_head ?l) := ID_INVALID]),
     ls_ready_head := (if ls_ready_head ?l + 1 \<ge> ls_backlog_len ?l then 0 else ls_ready_head ?l + 1), ls_ready_used := ls_ready_used ?l - 1\<rparr>"
  have take': "ready_take ?l = (sid, l, False)" using rs hb by (simp add: ready_take_def Let_def l_def sid_def)
  have "ls_ready_used ?l - 1 \<le> ls_backlog_len ?l"
    using ok act used by (auto simp: listener_ok_def word_le_nat_alt unat_minus_one)
  then have lok: "listener_ok ?n ?st l"
    using act rs len by (auto simp: listener_ok_def l_def word_less_nat_alt unat_gt_0 not_le dest!: set_update_subset_insert [THEN subsetD])
  define c1 where "c1 = upd_listener lid (\<lambda>_. l) (c\<lparr>sl_oob := sl_oob c \<or> False\<rparr>)"
  have "c\<lparr>sl_oob := sl_oob c \<or> False\<rparr> = c" by simp
  then have c1: "slow_wf c1" "sl_n_socks c1 = ?n" "sl_socks c1 = sl_socks c"
    using w lok by (auto simp: c1_def intro!: slow_wf_upd_listener)
  have det: "slow_wf (upd_listener lid listener_backlog_put (upd_sock_meta sid (\<lambda>m. m\<lparr>mt_listener_id := ID_INVALID\<rparr>) c1))"
    if v: "sid \<noteq> ID_INVALID"
  proof -
    have s: "sid < ?n" "?st sid \<noteq> TCP_SOCK_STATE_SYN_RECV" using rs(3) [OF mem v] by auto
    have m: "slow_wf (upd_sock_meta sid (\<lambda>m. m\<lparr>mt_listener_id := ID_INVALID\<rparr>) c1)"
      using c1 s unfolding slow_wf_def lst_wf_def by (auto simp: slow_wf_id [OF w s(1)])
    show ?thesis by (rule slow_wf_upd_listener [OF m]) (use m in \<open>simp add: slow_wf_def lst_wf_def\<close>)
  qed
  have e: "(r, c') = (if sid = ID_INVALID then (None, c1)
           else if mt_listener_id (tcp_sock_meta c1 sid) \<noteq> lid then (None, c1)
           else if tk_state (sl_socks c1 sid) \<noteq> TCP_SOCK_STATE_ACCEPT_PENDING
           then (None, upd_listener lid listener_backlog_put (upd_sock_meta sid (\<lambda>m. m\<lparr>mt_listener_id := ID_INVALID\<rparr>) c1))
           else (Some sid, c1))"
    unfolding p [symmetric] ready_pop_step_def take' prod.case Let_def c1_def [symmetric] ..
  show "slow_wf c'" "sl_n_socks c' = ?n" "sl_socks c' = sl_socks c"
    using e c1 det by (auto split: if_splits)
  show "r = Some x \<Longrightarrow> x < ?n \<and> tk_state (sl_socks c x) = TCP_SOCK_STATE_ACCEPT_PENDING"
    using e c1 rs(3) [OF mem] by (auto split: if_splits)
qed

lemma ready_pop_wf:
  assumes "slow_wf c" and "tcp_listener_ready_pop c lid = (r, c')"
  shows "slow_wf c' \<and> sl_n_socks c' = sl_n_socks c \<and> sl_socks c' = sl_socks c \<and>
    (\<forall>x. r = Some x \<longrightarrow> x < sl_n_socks c \<and> tk_state (sl_socks c x) = TCP_SOCK_STATE_ACCEPT_PENDING)"
  using assms
proof (induction c lid arbitrary: r c' rule: tcp_listener_ready_pop.induct)
  case (1 c lid)
  show ?case
  proof (cases "ls_active (sl_listeners c lid) \<noteq> 0 \<and> ls_ready_used (sl_listeners c lid) \<noteq> 0")
    case True
    obtain r1 c1 where s: "ready_pop_step c lid = (r1, c1)" by (rule prod.exhaust)
    note st = ready_pop_step_wf [OF "1.prems"(1) _ _ s]
    show ?thesis
    proof (cases "r1 = None")
      case none: True
      have "tcp_listener_ready_pop c1 lid = (r, c')"
        using "1.prems"(2) True none by (subst (asm) tcp_listener_ready_pop.simps) (simp add: s Let_def)
      from "1.IH" [OF refl True s [symmetric] none st(1) this] show ?thesis using st True by auto
    next
      case False
      have "(r, c') = (r1, c1)" using "1.prems"(2) True False by (subst (asm) tcp_listener_ready_pop.simps) (simp add: s Let_def)
      then show ?thesis using st True by auto
    qed
  next
    case False
    then have "(r, c') = (None, c)" using "1.prems"(2) by (subst (asm) tcp_listener_ready_pop.simps) (auto simp: Let_def)
    then show ?thesis using "1.prems"(1) by simp
  qed
qed

lemma accept_own_wf:
  assumes w: "slow_wf c" and x: "x < sl_n_socks c" and st: "tk_state (sl_socks c x) = TCP_SOCK_STATE_ACCEPT_PENDING"
  shows "slow_wf (sock_accept_own ev c x a o1)" and "sl_n_socks (sock_accept_own ev c x a o1) = sl_n_socks c"
proof -
  note id = slow_wf_id [OF w x]
  define c1 where "c1 = upd_sock x (\<lambda>s. s\<lparr>tk_opaque := o1, tk_app_bump_qid := ax_app_bump_qs (get_actx c a) (tk_core s),
                 tk_app_id := ap_id (sl_apps c (fst a)), tk_ctx_id := ax_id (get_actx c a)\<rparr>) c"
  have c1: "slow_wf c1" unfolding c1_def using w x by (rule upd_sock_harmless) (simp add: sock_bucket_def)
  have f1: "sl_n_socks c1 = sl_n_socks c" "tk_state (sl_socks c1 x) = TCP_SOCK_STATE_ACCEPT_PENDING" "tk_id (sl_socks c1 x) = x"
    using st id by (simp_all add: c1_def)
  define c2 where "c2 = upd_sock_meta x (\<lambda>m. m\<lparr>mt_listener_id := ID_INVALID\<rparr>) c1"
  have "slow_wf c2" using c1 f1 unfolding slow_wf_def lst_wf_def c2_def by auto
  then have c3: "slow_wf (upd_sock x (\<lambda>s. s\<lparr>tk_state := TCP_SOCK_STATE_ESTABLISHED\<rparr>) c2)"
    by (rule slow_wf_upd_sock) (use x f1 in \<open>simp_all add: c2_def connected_def sock_bucket_def\<close>)
  have "slow_wf (tcp_sock_cc_init ev (upd_sock x (\<lambda>s. s\<lparr>tk_state := TCP_SOCK_STATE_ESTABLISHED\<rparr>) c2) x)"
    using c3 x by (intro cc_init_wf) (simp_all add: c2_def f1)
  then show "slow_wf (sock_accept_own ev c x a o1)" unfolding sock_accept_own_def Let_def c1_def [symmetric] c2_def [symmetric] .
  show "sl_n_socks (sock_accept_own ev c x a o1) = sl_n_socks c" by (simp add: sock_accept_own_def Let_def)
qed

lemma app_accept_wf:
  assumes w: "slow_wf c"
  shows "slow_wf (snd (app_accept ev c a req))"
proof -
  let ?lid = "tk_id (sl_socks c (aq_sock_id req))"
  obtain r c1 where p: "tcp_listener_ready_pop c ?lid = (r, c1)" by (rule prod.exhaust)
  note pw = ready_pop_wf [OF w p]
  have "slow_wf (upd_listener ?lid listener_backlog_put (sock_accept_own ev c1 x a (aq_opaque req)))" if "r = Some x" for x
  proof -
    have o: "slow_wf (sock_accept_own ev c1 x a (aq_opaque req))" by (rule accept_own_wf) (use pw that in auto)
    show ?thesis by (rule slow_wf_upd_listener [OF o]) (use o in \<open>simp add: slow_wf_def lst_wf_def\<close>)
  qed
  then show ?thesis using w pw by (auto simp: app_accept_def app_accept_err_def Let_def p split: option.splits)
qed

section \<open>Closing\<close>

lemma shutdown_start_wf:
  assumes w: "slow_wf c" and x: "x < sl_n_socks c" and st: "tk_state (sl_socks c x) = TCP_SOCK_STATE_ESTABLISHED"
  shows "slow_wf (snd (sock_shutdown_start ev c x))"
proof -
  define c1 where "c1 = upd_sock x (\<lambda>s. s\<lparr>tk_flags := tk_flags s OR (TCP_SOCK_FLAG_SHUT_RD OR TCP_SOCK_FLAG_SHUT_WR),
                 tk_state := TCP_SOCK_STATE_FIN_WAIT1\<rparr>) c"
  have c1: "slow_wf c1" unfolding c1_def
    by (rule slow_wf_upd_sock [OF w x]) (use st in \<open>simp_all add: connected_def sock_bucket_def slow_wf_id [OF w x]\<close>)
  have x1: "x < sl_n_socks c1" using x by (simp add: c1_def)
  obtain r2 c2 where t: "tcp_ctl_tx c1 x (TAS_TCP_FIN OR TAS_TCP_ACK) = (r2, c2)" by (rule prod.exhaust)
  have c2: "slow_wf c2" "x < sl_n_socks c2" using ctl_tx_wf(1,2) [of c1 x "TAS_TCP_FIN OR TAS_TCP_ACK"] c1 x1 unfolding t by simp_all
  obtain r3 c3 where m: "tcp_timeout_arm ev c2 x TCP_RETX_FIN = (r3, c3)" by (rule prod.exhaust)
  have c3: "slow_wf c3" "x < sl_n_socks c3"
    using timeout_arm_wf [OF c2, of ev TCP_RETX_FIN] timeout_arm_proj(1) [of ev c2 x TCP_RETX_FIN] c2 unfolding m by simp_all
  show ?thesis
    unfolding sock_shutdown_start_def Let_def c1_def [symmetric] t prod.case m using close_final_wf c2 c3 by simp
qed

lemma abort_open_wf: "slow_wf c \<Longrightarrow> x < sl_n_socks c \<Longrightarrow> slow_wf (sock_abort_open c x)"
  by (auto simp: sock_abort_open_def Let_def intro!: close_final_wf)

lemma abort_child_wf:
  assumes "slow_wf c" and "x < sl_n_socks c"
  shows "slow_wf (abort_child lid x c) \<and> sl_n_socks (abort_child lid x c) = sl_n_socks c"
  using assms by (auto simp: abort_child_def Let_def intro!: close_final_wf)

lemma abort_children_fold:
  assumes "slow_wf c" and "\<forall>i \<in> set is'. i < sl_n_socks c"
  shows "slow_wf (fold (abort_child lid) is' c) \<and> sl_n_socks (fold (abort_child lid) is' c) = sl_n_socks c"
  using assms
proof (induction is' arbitrary: c)
  case (Cons i is')
  then show ?case using abort_child_wf [of c i lid] by simp
qed simp

lemma abort_children_wf:
  assumes "slow_wf c"
  shows "slow_wf (tcp_listener_abort_children c x) \<and> sl_n_socks (tcp_listener_abort_children c x) = sl_n_socks c"
  unfolding tcp_listener_abort_children_def
proof (rule abort_children_fold [OF assms])
  have "(of_nat k :: u32) < sl_n_socks c" if "k < unat (sl_n_socks c)" for k
  proof -
    have "unat (of_nat k :: u32) = k" using that unat_32_bound [of "sl_n_socks c"] by (simp add: unsigned_of_nat take_bit_nat_eq_self)
    then show ?thesis using that by (simp add: word_less_nat_alt)
  qed
  then show "\<forall>i \<in> set (map of_nat [0 ..< unat (sl_n_socks c)]). i < sl_n_socks c" by auto
qed

lemma close_listen_wf:
  assumes w: "slow_wf c" and x: "x < sl_n_socks c"
  shows "slow_wf (sock_close_listen c x)"
proof -
  define c1 where "c1 = tcp_listener_remove c (tk_local_port (sl_socks c x)) (tk_id (sl_socks c x))"
  have c1: "slow_wf c1" "sl_n_socks c1 = sl_n_socks c" using listener_remove_wf [OF w] by (simp_all add: c1_def)
  define c2 where "c2 = tcp_listener_abort_children c1 x"
  have c2: "slow_wf c2" "sl_n_socks c2 = sl_n_socks c" using abort_children_wf [OF c1(1), of x] c1(2) by (simp_all add: c2_def)
  have "slow_wf (tcp_listener_reset c2 lid)" for lid
    unfolding tcp_listener_reset_def by (rule slow_wf_upd_listener [OF c2(1)]) (simp add: listener_ok_def tcp_listener_zero_def)
  then show ?thesis
    unfolding sock_close_listen_def Let_def c1_def [symmetric] c2_def [symmetric]
    using x c2 by (intro close_final_wf) (simp_all add: tcp_listener_reset_def)
qed

lemma app_close_wf: "slow_wf c \<Longrightarrow> slow_wf (snd (app_close ev c req))"
  by (auto simp: app_close_def Let_def not_le intro!: close_listen_wf abort_open_wf shutdown_start_wf close_final_wf)

lemma app_shutdown_wf: "slow_wf c \<Longrightarrow> slow_wf (snd (app_shutdown ev c req))"
  by (auto simp: app_shutdown_def not_le intro!: shutdown_start_wf)

section \<open>Sockets that are not connected\<close>

lemma unconnected_upd:
  assumes "slow_wf c" and "x < sl_n_socks c" and "\<not> connected (sl_socks c x)"
    and "tk_id (f (sl_socks c x)) = x" and "tk_state (f (sl_socks c x)) = tk_state (sl_socks c x)"
  shows "slow_wf (upd_sock x f c)"
  by (rule slow_wf_upd_sock) (use assms connected_cong [OF assms(5)] in simp_all)

lemma autobind_port_wf:
  assumes w: "slow_wf c" and x: "x < sl_n_socks c" and n: "\<not> connected (sl_socks c x)" and a: "sock_autobind_port c x = (r, c')"
  shows "slow_wf c' \<and> sl_n_socks c' = sl_n_socks c \<and> tk_id (sl_socks c' x) = x \<and> \<not> connected (sl_socks c' x) \<and>
    (\<forall>y. y \<noteq> x \<longrightarrow> sl_socks c' y = sl_socks c y)"
proof -
  define p where "p = tcp_bound_find_free c"
  obtain r1 c1 where b: "tcp_bound_insert c p (tk_id (sl_socks c x)) False = (r1, c1)" by (rule prod.exhaust)
  have c1: "slow_wf c1" "sl_n_socks c1 = sl_n_socks c" "sl_socks c1 = sl_socks c"
    using w slow_wf_msgs(5) [of c p "tk_id (sl_socks c x)" False] tcp_bound_insert_proj [of c p "tk_id (sl_socks c x)" False] unfolding b by simp_all
  have "slow_wf (upd_sock x (\<lambda>s. s\<lparr>tk_local_port := p\<rparr>) (upd_sock_meta x (\<lambda>m. m\<lparr>mt_auto_bound := 1\<rparr>) c1))"
    using c1 x n slow_wf_id [OF w x] by (intro unconnected_upd slow_wf_upd_sock_meta) simp_all
  then show ?thesis
    using a w c1 n slow_wf_id [OF w x] unfolding sock_autobind_port_def Let_def p_def [symmetric] b prod.case
    by (auto simp: connected_def split: if_splits)
qed

lemma autobind_ip_wf:
  assumes "slow_wf c" and "x < sl_n_socks c" and "\<not> connected (sl_socks c x)" and "sock_autobind_ip c x = (r, c')"
  shows "slow_wf c' \<and> sl_n_socks c' = sl_n_socks c \<and> tk_id (sl_socks c' x) = x \<and> \<not> connected (sl_socks c' x)"
  using assms unconnected_upd [of c x "\<lambda>s. s\<lparr>tk_local_ip := sl_local_ip c\<rparr>"] slow_wf_id [of c x]
  by (auto simp: sock_autobind_ip_def connected_def)

text \<open>The two automatic bindings, as bind and connect call them.\<close>

lemma autobind_wf:
  assumes w: "slow_wf c" and x: "x < sl_n_socks c" and n: "\<not> connected (sl_socks c x)"
    and 1: "(if P then sock_autobind_port c x else (0, c)) = (r1, c1)" and 2: "(if Q then sock_autobind_ip c1 x else (0, c1)) = (r2, c2)"
  shows "slow_wf c1 \<and> slow_wf c2 \<and> sl_n_socks c2 = sl_n_socks c \<and> tk_id (sl_socks c2 x) = x \<and> \<not> connected (sl_socks c2 x)"
proof -
  have a: "slow_wf c1" "sl_n_socks c1 = sl_n_socks c" "tk_id (sl_socks c1 x) = x" "\<not> connected (sl_socks c1 x)"
    using 1 w n slow_wf_id [OF w x] autobind_port_wf [OF w x n, of r1 c1] by (auto split: if_splits)
  then show ?thesis using 2 x autobind_ip_wf [of c1 x r2 c2] by (auto split: if_splits)
qed

lemma bind_sock_wf:
  assumes "slow_wf c" and "x < sl_n_socks c" and "\<not> connected (sl_socks c x)"
  shows "slow_wf (snd (bind_sock c x ip port))"
proof -
  obtain r1 c1 where 1: "(if tk_local_port (sl_socks c x) = 0 then sock_autobind_port c x else (0, c)) = (r1, c1)" by (rule prod.exhaust)
  obtain r2 c2 where 2: "(if tk_local_ip (sl_socks c1 x) = 0 then sock_autobind_ip c1 x else (0, c1)) = (r2, c2)" by (rule prod.exhaust)
  note b = autobind_wf [OF assms 1 2]
  then have "slow_wf (upd_sock x (\<lambda>s. s\<lparr>tk_local_ip := ip, tk_local_port := port\<rparr>) c2)"
    using assms(2) by (intro unconnected_upd) simp_all
  then show ?thesis using b unfolding bind_sock_def 1 2 prod.case by simp
qed

lemma connect_start_wf:
  assumes w: "slow_wf c" and x: "x < sl_n_socks c" and n: "\<not> connected (sl_socks c x)"
  shows "slow_wf (snd (sock_connect_start ev c x rip rport))"
proof -
  note id = slow_wf_id [OF w x]
  define f where "f = (\<lambda>s :: tcp_sock. s\<lparr>tk_remote_ip := rip, tk_remote_port := rport, tk_tx_seq := 1, tk_tx_pending := 1,
                 tk_rx_seq := 0, tk_state := TCP_SOCK_STATE_SYN_SENT,
                 tk_flags := (if tcp_cc_ecn_enabled c then tk_flags s OR TCP_SOCK_FLAG_ECN else tk_flags s AND NOT TCP_SOCK_FLAG_ECN)\<rparr>)"
  define s' where "s' = f (sl_socks c x)"
  have s': "tk_id s' = x" "tk_state s' = TCP_SOCK_STATE_SYN_SENT" "connected s'" using id by (simp_all add: s'_def f_def connected_def)
  define c1 where "c1 = upd_sock x f c"
  have c1: "tk_id (sl_socks c1 x) = x" "x < sl_n_socks c1" "sl_socks c1 x = s'" "sl_flows c1 = sl_flows c" "upd_sock x (\<lambda>_. sl_socks c x) c1 = c"
    using s' x by (simp_all add: c1_def s'_def upd_sock_def)
  show ?thesis
  proof (cases "bucket_put x (sl_flows c (sock_bucket s'))")
    case None
    then have i: "tcp_flow_insert c1 x = (-1, c1)" by (simp add: tcp_flow_insert_def c1 Let_def s')
    have "slow_wf (tcp_sock_connect_fail c1 x ENOBUFS)"
      by (rule connect_fail_wf [where old = "sl_socks c x"]) (use c1 w n in simp_all)
    then show ?thesis unfolding sock_connect_start_def Let_def f_def [symmetric] c1_def [symmetric] i by simp
  next
    case (Some bk)
    define c2 where "c2 = upd_sock x (\<lambda>_. s') (c\<lparr>sl_flows := (sl_flows c)(sock_bucket s' := bk)\<rparr>)"
    have i: "tcp_flow_insert c1 x = (0, c2)" using Some by (simp add: tcp_flow_insert_def c1 c2_def Let_def s') (simp add: c1_def upd_sock_def s'_def)
    have c2: "slow_wf c2" unfolding c2_def by (rule slow_wf_enter [OF w x n]) (use s' Some in simp_all)
    have x2: "x < sl_n_socks c2" using x by (simp add: c2_def)
    define fl where "fl = (if tk_flags (sl_socks c2 x) AND TCP_SOCK_FLAG_ECN \<noteq> 0 then TAS_TCP_SYN OR (TAS_TCP_ECE OR TAS_TCP_CWR) else TAS_TCP_SYN)"
    obtain r3 c3 where t: "tcp_ctl_tx c2 x fl = (r3, c3)" by (rule prod.exhaust)
    have c3: "slow_wf c3" "x < sl_n_socks c3" using ctl_tx_wf(1,2) [of c2 x fl] c2 x2 unfolding t by simp_all
    obtain r4 c4 where m: "tcp_timeout_arm ev c3 x TCP_RETX_SYN = (r4, c4)" by (rule prod.exhaust)
    have c4: "slow_wf c4" "x < sl_n_socks c4"
      using timeout_arm_wf [OF c3, of ev TCP_RETX_SYN] timeout_arm_proj(1) [of ev c3 x TCP_RETX_SYN] c3 unfolding m by simp_all
    show ?thesis
      unfolding sock_connect_start_def Let_def f_def [symmetric] c1_def [symmetric] i prod.case fl_def [symmetric] t m
      using connect_fail_wf' c3 c4 by simp
  qed
qed

lemma app_connect_wf:
  assumes w: "slow_wf c" and n: "cq_sock_id req < sl_n_socks c \<Longrightarrow> \<not> connected (sl_socks c (cq_sock_id req))"
  shows "slow_wf (snd (app_connect ev c a req))"
proof (cases "cq_sock_id req < sl_n_socks c")
  case x: True
  let ?x = "cq_sock_id req"
  obtain r1 c1 where 1: "(if tk_local_port (sl_socks c ?x) = 0 then sock_autobind_port c ?x else (0, c)) = (r1, c1)" by (rule prod.exhaust)
  obtain r2 c2 where 2: "(if tk_local_ip (sl_socks c1 ?x) = 0 then sock_autobind_ip c1 ?x else (0, c1)) = (r2, c2)" by (rule prod.exhaust)
  note b = autobind_wf [OF w x n [OF x] 1 2]
  then show ?thesis
    using w x connect_start_wf [of c2 ?x] unfolding app_connect_def Let_def 1 prod.case 2 by auto
qed (use w in \<open>simp add: app_connect_def not_less\<close>)

lemma app_bind_wf:
  assumes "slow_wf c" and "bq_sock_id req < sl_n_socks c \<Longrightarrow> \<not> connected (sl_socks c (bq_sock_id req))"
  shows "slow_wf (snd (app_bind c a req))"
proof -
  have "slow_wf (snd (if bq_sock_id req < sl_n_socks c \<and> P then bind_sock c (bq_sock_id req) ip port else (False, c)))" for P ip port
    using assms bind_sock_wf by simp
  then show ?thesis using assms(1) unfolding app_bind_def Let_def
    by (auto split: prod.splits) (metis slow_wf_msgs(2) snd_conv)+
qed

lemma listener_upd_wf:
  assumes w: "slow_wf c" and x: "x < sl_n_socks c" and n: "\<not> connected (sl_socks c x)"
  shows "slow_wf (upd_sock x (\<lambda>s. s\<lparr>tk_state := TCP_SOCK_STATE_LISTEN\<rparr>) (upd_listener lid (\<lambda>_. \<lparr>ls_active = 1, ls_sock_id = x, ls_backlog_len = b,
     ls_backlog_used = 0, ls_ready_head = 0, ls_ready_used = 0, ls_ready_sids = Some (replicate (unat b) ID_INVALID)\<rparr>) c))"
proof -
  have "listener_ok (sl_n_socks c) st \<lparr>ls_active = 1, ls_sock_id = x, ls_backlog_len = b, ls_backlog_used = 0, ls_ready_head = 0,
      ls_ready_used = 0, ls_ready_sids = Some (replicate (unat b) ID_INVALID)\<rparr>" for st
    by (auto simp: listener_ok_def word_less_nat_alt unat_gt_0)
  then show ?thesis using x n by (intro slow_wf_upd_sock slow_wf_upd_listener w) (simp_all add: slow_wf_id [OF w x])
qed

lemma app_listen_wf:
  assumes w: "slow_wf c" and n: "lq_sock_id req < sl_n_socks c \<Longrightarrow> \<not> connected (sl_socks c (lq_sock_id req)) \<and> ls_active (sl_listeners c (lq_sock_id req)) = 0"
  shows "slow_wf (snd (app_listen ev c a req))"
proof (cases "lq_sock_id req < sl_n_socks c")
  case x: True
  let ?x = "lq_sock_id req"
  note id = slow_wf_id [OF w x]
  obtain r c1 where i: "tcp_listener_insert c (tk_local_port (sl_socks c ?x)) (tk_id (sl_socks c ?x)) (tk_reuport (sl_socks c ?x) \<noteq> 0) = (r, c1)"
    by (rule prod.exhaust)
  have c1: "slow_wf c1" "sl_n_socks c1 = sl_n_socks c" "sl_socks c1 = sl_socks c" "sl_listeners c1 = sl_listeners c"
    using listener_insert_wf [OF w x, of "tk_local_port (sl_socks c ?x)" "tk_reuport (sl_socks c ?x) \<noteq> 0"]
      listener_ports_proj(1-3) [of c "tk_local_port (sl_socks c ?x)" ?x "tk_reuport (sl_socks c ?x) \<noteq> 0"] i unfolding id by simp_all
  have "slow_wf (upd_listener ?x (\<lambda>l. l\<lparr>ls_ready_sids := None\<rparr>) c1)"
    by (rule slow_wf_upd_listener [OF c1(1)]) (use n [OF x] c1 in \<open>simp add: listener_ok_def\<close>)
  then have rm: "slow_wf (tcp_listener_remove (upd_listener ?x (\<lambda>l. l\<lparr>ls_ready_sids := None\<rparr>) c1) p ?x)" for p by (rule listener_remove_wf)
  show ?thesis
    using w c1 rm listener_upd_wf [of c1 ?x ?x "lq_backlog req"] x n [OF x]
    unfolding app_listen_def Let_def i prod.case by (simp add: id)
qed (use w in \<open>simp add: app_listen_def not_less\<close>)

lemma app_setopt_wf: "slow_wf c \<Longrightarrow> slow_wf (snd (app_setopt c a req))"
proof -
  assume w: "slow_wf c"
  have "slow_wf (if P \<and> Q then upd_sock x (\<lambda>s. s\<lparr>tk_reuport := 1\<rparr>) c else c)" if "P \<Longrightarrow> x < sl_n_socks c" for P Q x
    using that w by (auto intro!: upd_sock_harmless simp: sock_bucket_def)
  then show ?thesis using w unfolding app_setopt_def Let_def
    by (auto split: prod.splits) (metis (mono_tags, lifting) slow_wf_msgs(2) snd_conv)+
qed

lemma app_new_sock_wf: "slow_wf c \<Longrightarrow> slow_wf (snd (app_new_sock ev c a o1))"
proof -
  assume w: "slow_wf c"
  obtain r c1 where al: "tcp_sock_alloc ev c o1 (ap_id (sl_apps c (fst a))) (ax_id (get_actx c a)) (ax_app_bump_qs (get_actx c a) 0) = (r, c1)"
    by (rule prod.exhaust)
  show ?thesis using alloc_wf(1) [OF w al] by (simp add: app_new_sock_def al split: option.splits)
qed

end
