(* ===== verification/Tcp_Slow_Main.thy ===== *)
theory Tcp_Slow_Main
  imports Tcp_Slow_App_Wf
begin

unbundle bit_operations_syntax

text \<open>
  The TCP slow path as a state machine: the state set up by \<^verbatim>\<open>tcp_init\<close>, and the steps of the loop in
  \<^verbatim>\<open>main\<close> interleaved with what applications and fast-path cores do to the shared memory. The
  invariant of \<^verbatim>\<open>Tcp_Slow_Wf\<close> holds in every reachable state.
\<close>

section \<open>Initialisation\<close>

definition tcp_port_tbl_init :: "u16 \<Rightarrow> tcp_port" where
  "tcp_port_tbl_init port = \<lparr>tp_nsocks = 0, tp_next_sock = 0, tp_sids = replicate (unat MAX_REUSOCK_PORT) ID_INVALID\<rparr>"

definition tcp_flow_tbl_init :: "u32 \<Rightarrow> u32 list" where
  "tcp_flow_tbl_init b = replicate TCP_FLOW_BUCKET_SLOTS ID_INVALID"

definition tcp_sock_meta_zero :: tcp_sock_meta_slow where
  "tcp_sock_meta_zero = \<lparr>mt_listener_id = 0, mt_auto_bound = 0, mt_timer = None, mt_retx_kind = 0, mt_retx_left = 0, mt_cc_tsc = 0,
     mt_cc_rtt = 0, mt_cc_last_drops = 0, mt_cc_last_acks = 0, mt_cc_last_ackb = 0, mt_cc_last_ecnb = 0, mt_cc_rexmits = 0,
     mt_cnt_tx_pending = 0, mt_ts_tx_pending = 0, mt_dctcp_unproc_acks = 0, mt_dctcp_unproc_ackb = 0, mt_dctcp_unproc_ecnb = 0,
     mt_dctcp_unproc_drops = 0, mt_dctcp_ecn_rate = 0, mt_dctcp_act_rate = 0, mt_dctcp_slowstart = 0\<rparr>"

text \<open>
  The context \<open>c0\<close> holds the configuration, the address and the queues obtained from Chamelio, and
  otherwise unspecified memory; \<open>now\<close> is the clock. The result is \<^const>\<open>None\<close> where the code aborts
  because the timeout manager cannot be allocated.
\<close>

definition tcp_init :: "bool \<Rightarrow> tomgr \<Rightarrow> u64 \<Rightarrow> tcp_slow_context \<Rightarrow> tcp_slow_context option" where
  "tcp_init malloc_ok m0 now c0 =
     map_option (\<lambda>tm. c0\<lparr>sl_ports := tcp_port_tbl_init, sl_flows := tcp_flow_tbl_init, sl_listeners := (\<lambda>_. tcp_listener_zero),
         sl_meta := (\<lambda>_. tcp_sock_meta_zero\<lparr>mt_listener_id := ID_INVALID\<rparr>), sl_bound := tcp_port_tbl_init,
         sl_n_apps := 0, sl_next_app := 0, sl_next_core := 0, sl_n_socks := 0, sl_tomgr := tm, sl_cc_poll_tsc := now,
         sl_cc_next_sock := 0, sl_stats_drops := 0, sl_stats_retx := 0, sl_stats_acks_rx := 0, sl_oob := False\<rparr>)
       (tomgr_init malloc_ok m0)"

lemma tcp_init_wf: "tcp_init ok m0 now c0 = Some c \<Longrightarrow> slow_wf c"
proof -
  assume i: "tcp_init ok m0 now c0 = Some c"
  then obtain tm where tm: "tomgr_init True m0 = Some tm" "sl_tomgr c = tm"
    by (auto simp: tcp_init_def tomgr_init_def split: if_splits)
  have "timers_wf 0 tm" using tomgr_init_wf [OF tm(1)] by (simp add: timers_wf_def)
  then show ?thesis
    using i tm(2) by (auto simp: tcp_init_def slow_wf_def flows_wf_def lst_wf_def listener_ok_def tcp_listener_zero_def port_ok_def
        tcp_port_tbl_init_def tcp_flow_tbl_init_def bucket_ids_def)
qed

section \<open>Steps\<close>

text \<open>
  What the handlers of bind, connect and listen take for granted: the socket is not connected, and a
  socket that is told to listen is not listening.
\<close>

definition req_ok :: "tcp_slow_context \<Rightarrow> tcp_app_data qslot \<Rightarrow> bool" where
  "req_ok c qe =
     (case qs_data qe of
        A_bind_req r \<Rightarrow> bq_sock_id r < sl_n_socks c \<longrightarrow> \<not> connected (sl_socks c (bq_sock_id r))
      | A_connect_req r \<Rightarrow> cq_sock_id r < sl_n_socks c \<longrightarrow> \<not> connected (sl_socks c (cq_sock_id r))
      | A_listen_req r \<Rightarrow> lq_sock_id r < sl_n_socks c \<longrightarrow>
          \<not> connected (sl_socks c (lq_sock_id r)) \<and> ls_active (sl_listeners c (lq_sock_id r)) = 0
      | _ \<Rightarrow> True)"

lemma app_msg_wf: "slow_wf c \<Longrightarrow> req_ok c qe \<Longrightarrow> slow_wf (app_msg ev a qe c)"
  by (cases "qs_data qe") (simp_all add: app_msg_def req_ok_def app_new_sock_wf app_setopt_wf app_bind_wf app_connect_wf app_listen_wf
      app_accept_wf app_shutdown_wf app_close_wf)

text \<open>
  Applications and fast-path cores write to the queues and to the counters of sockets; they change
  neither the addresses nor the states of sockets. The registration of applications is of the same kind.
\<close>

definition shared_change :: "tcp_slow_context \<Rightarrow> tcp_slow_context \<Rightarrow> bool" where
  "shared_change c c' \<longleftrightarrow>
     (\<exists>socks apps na nx fs fp sq pq. c' = c\<lparr>sl_socks := socks, sl_apps := apps, sl_n_apps := na, sl_next_app := nx, sl_fast_sig_qs := fs,
        sl_fast_pkt_qs := fp, sl_sig_q := sq, sl_pkt_q := pq\<rparr> \<and>
        (\<forall>x. tk_id (socks x) = tk_id (sl_socks c x) \<and> tk_state (socks x) = tk_state (sl_socks c x) \<and>
          tk_local_ip (socks x) = tk_local_ip (sl_socks c x) \<and> tk_local_port (socks x) = tk_local_port (sl_socks c x) \<and>
          tk_remote_ip (socks x) = tk_remote_ip (sl_socks c x) \<and> tk_remote_port (socks x) = tk_remote_port (sl_socks c x)))"

lemma shared_change_wf:
  assumes w: "slow_wf c" and "shared_change c c'"
  shows "slow_wf c'"
proof -
  obtain socks apps na nx fs fp sq pq where c': "c' = c\<lparr>sl_socks := socks, sl_apps := apps, sl_n_apps := na, sl_next_app := nx,
        sl_fast_sig_qs := fs, sl_fast_pkt_qs := fp, sl_sig_q := sq, sl_pkt_q := pq\<rparr>"
    and same: "\<And>x. tk_id (socks x) = tk_id (sl_socks c x)" "\<And>x. tk_state (socks x) = tk_state (sl_socks c x)"
      "\<And>x. sock_bucket (socks x) = sock_bucket (sl_socks c x)"
    using assms(2) unfolding shared_change_def by (auto simp: sock_bucket_def)
  have "connected (socks x) = connected (sl_socks c x)" for x by (simp add: connected_def same)
  then show ?thesis using w by (simp add: c' slow_wf_def flows_wf_def same)
qed

lemma actx_dequeue_wf [simp]: "slow_wf (actx_dequeue a c) = slow_wf c"
  by (simp add: actx_dequeue_def)

lemma dequeue_wf [simp]: "slow_wf (sig_dequeue core c) = slow_wf c" "slow_wf (pkt_dequeue core c) = slow_wf c"
  by (auto simp: sig_dequeue_def pkt_dequeue_def slow_wf_def split: prod.splits)

lemma slow_wf_next_core [simp]: "slow_wf (c\<lparr>sl_next_core := v\<rparr>) = slow_wf c"
  by (simp add: slow_wf_def)

lemma fast_msg_wf: "slow_wf c \<Longrightarrow> slow_wf (fast_msg ev core pos c)"
  by (auto simp: fast_msg_def ctl_rx_wf split: option.splits)

lemma core_loop_wf: "slow_wf c \<Longrightarrow> slow_wf (snd (core_loop ev core nr c))"
proof (induction ev core nr c rule: core_loop.induct)
  case (1 ev core nr c)
  then show ?case by (subst core_loop.simps) (auto simp: fast_msg_wf split: option.splits)
qed

lemma fast_poll_wf:
  assumes "slow_wf c"
  shows "slow_wf (snd (tcp_fast_poll ev c))"
proof -
  have "slow_wf (snd (fold (\<lambda>i (nr, c). if nr < SLOW_BATCH_SIZE then core_loop ev (f i) nr c else (nr, c)) is' p))" if "slow_wf (snd p)" for is' f and p :: "nat \<times> tcp_slow_context"
    using that
  proof (induction is' arbitrary: p)
    case (Cons i is')
    have "slow_wf (snd ((case p of (nr, c) \<Rightarrow> if nr < SLOW_BATCH_SIZE then core_loop ev (f i) nr c else (nr, c))))"
      using Cons.prems by (cases p) (simp add: core_loop_wf)
    from Cons.IH [OF this] show ?case by simp
  qed simp
  note f = this [of "(0, c)" "\<lambda>i. of_nat ((unat (sl_next_core c) + i) mod unat (sl_n_fp_cores c))" "[0 ..< unat (sl_n_fp_cores c)]"]
  show ?thesis using f assms by (simp add: tcp_fast_poll_def Let_def case_prod_beta)
qed

inductive slow_step :: "tcp_slow_context \<Rightarrow> tcp_slow_context \<Rightarrow> bool" where
  app: "queue_head (fst (ax_app_slow_q (get_actx c a))) (snd (ax_app_slow_q (get_actx c a))) = Some pos \<Longrightarrow>
    qe = snd (ax_app_slow_q (get_actx c a)) pos \<Longrightarrow> req_ok c qe \<Longrightarrow> slow_step c (actx_dequeue a (app_msg ev a qe c))"
| fast: "slow_step c (snd (tcp_fast_poll evs c))"
| cc: "slow_step c (snd (tcp_cc_poll ev evs c))"
| timeout: "slow_step c (snd (tcp_timeout_poll evs c))"
| shared: "shared_change c c' \<Longrightarrow> slow_step c c'"

inductive slow_reach :: "tcp_slow_context \<Rightarrow> bool" where
  init: "tcp_init True m0 now c0 = Some c \<Longrightarrow> slow_reach c"
| step: "slow_reach c \<Longrightarrow> slow_step c c' \<Longrightarrow> slow_reach c'"

lemma slow_step_wf: "slow_step c c' \<Longrightarrow> slow_wf c \<Longrightarrow> slow_wf c'"
  by (induction rule: slow_step.induct)
    (auto simp: app_msg_wf fast_poll_wf cc_poll_wf tcp_timeout_poll_def timeout_loop_wf shared_change_wf)

lemma slow_reach_wf: "slow_reach c \<Longrightarrow> slow_wf c"
  by (induction rule: slow_reach.induct) (auto simp: tcp_init_wf slow_step_wf)

section \<open>Lookups\<close>

lemma bucket_find_Some:
  assumes "x \<in> set (bucket_ids xs)" and "tk_state (sl_socks c x) \<noteq> TCP_SOCK_STATE_CLOSED" and "flow_matches (sl_socks c x) lip lport rip rport"
  shows "bucket_find c lip lport rip rport xs \<noteq> None"
  using assms by (induction xs) (auto simp: bucket_ids_def flow_matches_def split: if_splits)

lemma flow_matches_bucket: "flow_matches s lip lport rip rport \<Longrightarrow> sock_bucket s = flow_hash lip lport rip rport mod TCP_FLOW_BUCKETS"
  by (auto simp: flow_matches_def sock_bucket_def)

lemma connected_open: "connected s \<Longrightarrow> tk_state s \<noteq> TCP_SOCK_STATE_CLOSED"
  by (auto simp: connected_def)

lemma flow_lookup_complete:
  assumes "slow_wf c" and "x < sl_n_socks c" and "connected (sl_socks c x)" and "flow_matches (sl_socks c x) lip lport rip rport"
  shows "tcp_flow_lookup c lip lport rip rport \<noteq> None"
proof -
  have "x \<in> set (bucket_ids (sl_flows c (sock_bucket (sl_socks c x))))" using assms by (simp add: slow_wf_def flows_wf_def)
  then show ?thesis
    using bucket_find_Some [OF _ connected_open [OF assms(3)] assms(4)] unfolding tcp_flow_lookup_def flow_matches_bucket [OF assms(4), symmetric] by blast
qed

text \<open>A flow is found exactly when some connected socket has its addresses and ports, and what is found is such a socket.\<close>

lemma flow_lookup_iff:
  assumes "slow_wf c"
  shows "tcp_flow_lookup c lip lport rip rport \<noteq> None \<longleftrightarrow>
    (\<exists>x < sl_n_socks c. connected (sl_socks c x) \<and> flow_matches (sl_socks c x) lip lport rip rport)"
  using flow_lookup_bound [OF assms, of lip lport rip rport] flow_lookup_complete [OF assms, of _ lip lport rip rport]
  by (cases "tcp_flow_lookup c lip lport rip rport") auto

lemma find_in_bucket_agrees:
  assumes "\<And>x. x \<in> set (bucket_ids xs) \<Longrightarrow> x < tc_nsocks f" and "tc_socks f = sl_socks c"
  shows "find_in_bucket f lip lport rip rport xs = bucket_find c lip lport rip rport xs"
  using assms by (induction xs) (auto simp: bucket_ids_def sock_map_lookup_def flow_matches_def not_le [symmetric])

lemma sock_hash_flow_hash: "sock_hash lip lport rip rport = flow_hash lip lport rip rport"
  by (simp add: sock_hash_def flow_hash_def Let_def)

lemma sock_find_lookup:
  assumes w: "slow_wf c" and s: "tc_socks f = sl_socks c" "tc_bkts f = sl_flows c" "tc_nbkts f = TCP_FLOW_BUCKETS" "tc_nsocks f = MAX_SOCKETS"
  shows "sock_find f = tcp_flow_lookup c (ip_dst (tc_pkt f)) (tcp_dest (tc_pkt f)) (ip_src (tc_pkt f)) (tcp_src (tc_pkt f))"
proof -
  define b where "b = flow_hash (ip_dst (tc_pkt f)) (tcp_dest (tc_pkt f)) (ip_src (tc_pkt f)) (tcp_src (tc_pkt f)) mod TCP_FLOW_BUCKETS"
  have b: "b < TCP_FLOW_BUCKETS" by (simp add: b_def word_less_nat_alt unat_mod)
  then have "x < sl_n_socks c" if "x \<in> set (bucket_ids (sl_flows c b))" for x
    using that w unfolding slow_wf_def flows_wf_def by blast
  then have "x < tc_nsocks f" if "x \<in> set (bucket_ids (sl_flows c b))" for x
    using that w s(4) less_le_trans [of x "sl_n_socks c" MAX_SOCKETS] by (simp add: slow_wf_def)
  moreover have "take TCP_FLOW_BUCKET_SLOTS (sl_flows c b) = sl_flows c b" using w b by (simp add: slow_wf_def flows_wf_def)
  ultimately show ?thesis
    using b [unfolded not_le [symmetric]] find_in_bucket_agrees [of "sl_flows c b" f c, OF _ s(1)]
    by (simp add: sock_find_def tcp_flow_lookup_def Let_def sock_hash_flow_hash s b_def [symmetric])
qed

end
