(* ===== verification/Tcp_Handshake.thy ===== *)
theory Tcp_Handshake
  imports Tcp_Slow_Main
begin

unbundle bit_operations_syntax

text \<open>
  The connection handshake between the slow paths of two hosts. Control packets are written by
  \<^verbatim>\<open>ctl_pkt_fill\<close>, carried by the fast paths and read by \<^verbatim>\<open>ctl_rx_parse\<close>; three of them take the
  connecting socket to \<^verbatim>\<open>ESTABLISHED\<close> and the listener's child to \<^verbatim>\<open>ACCEPT_PENDING\<close> with agreeing
  sequence numbers, windows and ECN state.
\<close>

section \<open>Packets\<close>

text \<open>
  Between the two slow paths the fast path writes both checksums and the timestamp, and appends the
  number of the receiving core.
\<close>

definition carried :: "bytes \<Rightarrow> bytes \<Rightarrow> bool" where
  "carried p q \<longleftrightarrow> (\<forall>i < 52. i \<notin> {10, 11, 36, 37} \<union> {42..45} \<longrightarrow> q i = p i)"

lemma carried_ld:
  assumes "carried p q"
  shows "ld32 q 12 = ld32 p 12" "ld32 q 16 = ld32 p 16" "ld16 q 20 = ld16 p 20" "ld16 q 22 = ld16 p 22" "ld32 q 24 = ld32 p 24"
    "ld32 q 28 = ld32 p 28" "ld16 q 32 = ld16 p 32" "ld16 q 34 = ld16 p 34" "q 40 = p 40" "ld32 q 46 = ld32 p 46"
  using assms unfolding carried_def ld16_def ld32_def by simp_all

lemma ctl_fill_ld:
  assumes q_def: "q = ctl_pkt_fill (Some s) lip lport rip rport seq ack flags wnd p"
  shows "ld32 q 12 = t_beui32 lip" "ld32 q 16 = t_beui32 rip" "ld16 q 20 = t_beui16 lport" "ld16 q 22 = t_beui16 rport"
    "ld32 q 24 = t_beui32 seq" "ld32 q 28 = t_beui32 ack" "ld16 q 32 = bswap16 (push_bit 12 8 OR (flags AND TAS_TCP_FLAGS))"
    "ld16 q 34 = t_beui16 wnd" "q 40 = TCP_OPT_TIMESTAMP" "ld32 q 46 = t_beui32 (tk_ts_recent s)"
  unfolding q_def ctl_pkt_fill_def ctl_fill_tcp_def ctl_fill_ip_def tx_write_tsopt_def Let_def IPH_VHL_SET_def TCPH_HDRLEN_FLAGS_SET_def
  by (simp_all add: field_simps_chm)

lemma ctl_rx_parse_carried:
  assumes "carried (ctl_pkt_fill (Some s) lip lport rip rport seq ack flags wnd p) q" and "flags AND TAS_TCP_FLAGS = flags"
  shows "ctl_rx_parse q core = \<lparr>rc_local_ip = rip, rc_remote_ip = lip, rc_seq = seq, rc_ack = ack,
    rc_ts = Some (f_beui32 (ld32 q 42), tk_ts_recent s), rc_local_port = rport, rc_remote_port = lport, rc_wnd = wnd, rc_flags = flags, rc_core = core\<rparr>"
proof -
  note l = carried_ld [OF assms(1)] ctl_fill_ld [OF refl]
  have raw: "TCPH_RAW q = push_bit 12 8 OR (flags AND TAS_TCP_FLAGS)" by (simp add: TCPH_RAW_def l)
  have "TCPH_HDRLEN q = 8" by (simp only: TCPH_HDRLEN_def raw hdrlen_flags(1))
  moreover have "TCPH_FLAGS q = flags" unfolding TCPH_FLAGS_def raw hdrlen_flags(2) by (rule assms(2))
  ultimately show ?thesis
    by (simp add: ctl_rx_parse_def Let_def ip_dst_def ip_src_def tcp_seqno_def tcp_ackno_def tcp_dest_def tcp_src_def tcp_wnd_def l)
qed

section \<open>Which packet an operation sends\<close>

text \<open>The packet put into the slot at the tail of the packet queue, if the slot was free.\<close>

definition ctl_sent :: "tcp_slow_context \<Rightarrow> tcp_slow_context \<Rightarrow> bytes option" where
  "ctl_sent c c' = (let pos = eq_tail (fst (sl_pkt_q c)); qe = snd (sl_pkt_q c') pos
     in if qs_type (snd (sl_pkt_q c) pos) = QUEUE_EMPTY \<and> qs_type qe = TCP_QUEUE_CTL_TX_PKT then Some (qs_data qe) else None)"

lemma ctl_sent_cong: "sl_pkt_q c = sl_pkt_q d \<Longrightarrow> sl_pkt_q c' = sl_pkt_q d' \<Longrightarrow> ctl_sent c c' = ctl_sent d d'"
  by (simp add: ctl_sent_def)

lemma ctl_pkt_enqueue_sent:
  assumes "ctl_pkt_enqueue c s lip lport rip rport seq ack flags wnd = (r, c')"
  shows "(r = 0 \<and> ctl_sent c c' = Some (ctl_pkt_fill s lip lport rip rport seq ack flags wnd (qs_data (snd (sl_pkt_q c) (eq_tail (fst (sl_pkt_q c))))))) \<or>
    (r = -1 \<and> ctl_sent c c' = None)"
  using assms by (auto simp: ctl_pkt_enqueue_def Let_def queue_tail_def queue_put_cases ctl_sent_def split: if_splits)

lemma pkt_q_upd [simp]:
  "sl_pkt_q (upd_sock x f c) = sl_pkt_q c" "sl_pkt_q (upd_meta x g c) = sl_pkt_q c" "sl_pkt_q (upd_sock_meta x g c) = sl_pkt_q c"
  "sl_pkt_q (upd_listener x h c) = sl_pkt_q c" "sl_pkt_q (upd_actx a k c) = sl_pkt_q c" "sl_pkt_q (snd (app_put c a d ty)) = sl_pkt_q c"
  by (simp_all add: upd_sock_def upd_meta_def upd_sock_meta_def upd_listener_def upd_actx_def app_put_def split: prod.splits)

lemma pkt_q_ops [simp]:
  "sl_pkt_q (tcp_timeout_cancel c x) = sl_pkt_q c" "sl_pkt_q (snd (sock_retx_sched ev c x)) = sl_pkt_q c"
  "sl_pkt_q (snd (tcp_timeout_arm ev c x k)) = sl_pkt_q c" "sl_pkt_q (snd (tcp_flow_insert c x)) = sl_pkt_q c"
  "sl_pkt_q (tcp_sock_cc_init ev c x) = sl_pkt_q c"
  by (simp_all add: tcp_timeout_cancel_def sock_retx_sched_def tcp_timeout_arm_def tcp_flow_insert_def tcp_sock_cc_init_def
      tcp_sock_cc_reset_def Let_def split: option.splits prod.splits)

section \<open>The three steps\<close>

text \<open>The packet that \<^verbatim>\<open>tcp_ctl_tx\<close> builds from the fields of a socket.\<close>

definition ctl_pkt_of :: "tcp_sock \<Rightarrow> u16 \<Rightarrow> bytes \<Rightarrow> bytes" where
  "ctl_pkt_of s flags p = ctl_pkt_fill (Some s) (tk_local_ip s) (tk_local_port s) (tk_remote_ip s) (tk_remote_port s)
     (tk_tx_seq s) (tk_rx_seq s) flags (tcp_sock_rx_wnd s) p"

lemma ctl_tx_sent:
  assumes "tcp_ctl_tx c x flags = (r, c')"
  shows "(r = 0 \<and> (\<exists>p. ctl_sent c c' = Some (ctl_pkt_of (sl_socks c x) flags p))) \<or> (r = -1 \<and> ctl_sent c c' = None)"
    and "sl_socks c' = sl_socks c" and "sl_n_socks c' = sl_n_socks c" and "sl_meta c' = sl_meta c" and "sl_listeners c' = sl_listeners c"
    and "sl_flows c' = sl_flows c"
proof -
  let ?s = "sl_socks c x"
  have e: "ctl_pkt_enqueue c (Some ?s) (tk_local_ip ?s) (tk_local_port ?s) (tk_remote_ip ?s) (tk_remote_port ?s)
           (tk_tx_seq ?s) (tk_rx_seq ?s) flags (tcp_sock_rx_wnd ?s) = (r, c')"
    using assms by (simp add: tcp_ctl_tx_def Let_def)
  show "(r = 0 \<and> (\<exists>p. ctl_sent c c' = Some (ctl_pkt_of ?s flags p))) \<or> (r = -1 \<and> ctl_sent c c' = None)"
    using ctl_pkt_enqueue_sent [OF e] unfolding ctl_pkt_of_def by blast
  have c': "c' = snd (ctl_pkt_enqueue c (Some ?s) (tk_local_ip ?s) (tk_local_port ?s) (tk_remote_ip ?s) (tk_remote_port ?s)
           (tk_tx_seq ?s) (tk_rx_seq ?s) flags (tcp_sock_rx_wnd ?s))" by (simp add: e)
  show "sl_socks c' = sl_socks c" "sl_n_socks c' = sl_n_socks c" "sl_meta c' = sl_meta c" "sl_listeners c' = sl_listeners c" "sl_flows c' = sl_flows c"
    unfolding c' by simp_all
qed

definition connect_sock :: "tcp_slow_context \<Rightarrow> u32 \<Rightarrow> u16 \<Rightarrow> tcp_sock \<Rightarrow> tcp_sock" where
  "connect_sock c rip rport s = s\<lparr>tk_remote_ip := rip, tk_remote_port := rport, tk_tx_seq := 1, tk_tx_pending := 1,
     tk_rx_seq := 0, tk_state := TCP_SOCK_STATE_SYN_SENT,
     tk_flags := (if tcp_cc_ecn_enabled c then tk_flags s OR TCP_SOCK_FLAG_ECN else tk_flags s AND NOT TCP_SOCK_FLAG_ECN)\<rparr>"

definition syn_flags :: "tcp_sock \<Rightarrow> u16" where
  "syn_flags s = (if tk_flags s AND TCP_SOCK_FLAG_ECN \<noteq> 0 then TAS_TCP_SYN OR (TAS_TCP_ECE OR TAS_TCP_CWR) else TAS_TCP_SYN)"

lemma flow_insert_proj:
  assumes "tcp_flow_insert c x = (r, c')"
  shows "sl_socks c' = sl_socks c" "sl_n_socks c' = sl_n_socks c" "sl_pkt_q c' = sl_pkt_q c" "sl_meta c' = sl_meta c" "sl_listeners c' = sl_listeners c"
  using assms by (auto simp: tcp_flow_insert_def Let_def split: option.splits)

lemma timeout_arm_eq:
  assumes "tcp_timeout_arm ev c x k = (r, c')"
  shows "sl_socks c' = sl_socks c" "sl_n_socks c' = sl_n_socks c" "sl_pkt_q c' = sl_pkt_q c"
    "mt_listener_id (sl_meta c' y) = mt_listener_id (sl_meta c y)" "sl_listeners c' = sl_listeners c"
proof -
  have c': "c' = snd (tcp_timeout_arm ev c x k)" by (simp add: assms)
  show "sl_socks c' = sl_socks c" "sl_n_socks c' = sl_n_socks c" "sl_pkt_q c' = sl_pkt_q c" unfolding c' by simp_all
  show "mt_listener_id (sl_meta c' y) = mt_listener_id (sl_meta c y)" "sl_listeners c' = sl_listeners c"
    unfolding c' tcp_timeout_arm_def Let_def by simp_all
qed

lemma connect_start_sent:
  assumes "sock_connect_start ev c x rip rport = (0, c')"
  shows "sl_socks c' = (sl_socks c)(x := connect_sock c rip rport (sl_socks c x))" and "sl_n_socks c' = sl_n_socks c"
    and "\<exists>p. ctl_sent c c' = Some (ctl_pkt_of (connect_sock c rip rport (sl_socks c x)) (syn_flags (connect_sock c rip rport (sl_socks c x))) p)"
proof -
  let ?s = "connect_sock c rip rport (sl_socks c x)"
  define c1 where "c1 = upd_sock x (connect_sock c rip rport) c"
  obtain r2 c2 where i: "tcp_flow_insert c1 x = (r2, c2)" by (rule prod.exhaust)
  obtain r3 c3 where t: "tcp_ctl_tx c2 x (syn_flags (sl_socks c2 x)) = (r3, c3)" by (rule prod.exhaust)
  obtain r4 c4 where m: "tcp_timeout_arm ev c3 x TCP_RETX_SYN = (r4, c4)" by (rule prod.exhaust)
  have "(if r2 \<noteq> 0 then (-1, tcp_sock_connect_fail c2 x ENOBUFS)
        else if r3 \<noteq> 0 then (-1, tcp_sock_connect_fail c3 x EAGAIN)
        else if r4 \<noteq> 0 then (-1, tcp_sock_connect_fail c4 x ENOBUFS) else (0, c4)) = (0 :: int, c')"
    using assms unfolding sock_connect_start_def Let_def connect_sock_def [symmetric] c1_def [symmetric] i prod.case syn_flags_def [symmetric] t m .
  then have z: "r2 = 0" "r3 = 0" "r4 = 0" "c' = c4" by (auto split: if_splits)
  note f = flow_insert_proj [OF i] and tx = ctl_tx_sent [OF t] and a = timeout_arm_eq [OF m]
  have s2: "sl_socks c2 x = ?s" using f by (simp add: c1_def)
  show "sl_socks c' = (sl_socks c)(x := ?s)" "sl_n_socks c' = sl_n_socks c" using z f tx a by (simp_all add: c1_def)
  have "ctl_sent c c' = ctl_sent c2 c3" using z f a by (intro ctl_sent_cong) (simp_all add: c1_def)
  then show "\<exists>p. ctl_sent c c' = Some (ctl_pkt_of ?s (syn_flags ?s) p)" using tx(1) z by (simp add: s2)
qed

lemma child_open_recv:
  assumes o: "child_open ev c0 lid rx x = (r, c')" and st: "tk_state (sl_socks c' x) = TCP_SOCK_STATE_SYN_RECV"
    and id: "tk_id (sl_socks c0 x) = x"
  defines "s \<equiv> child_init c0 rx (sl_socks c0 x)"
  shows "sl_socks c' = (sl_socks c0)(x := s)" and "\<exists>p. ctl_sent c0 c' = Some (ctl_pkt_of s (synack_flags s) p)"
    and "mt_listener_id (sl_meta c' x) = lid" and "sl_n_socks c' = sl_n_socks c0"
proof -
  define c1 where "c1 = upd_sock_meta x (\<lambda>m. m\<lparr>mt_listener_id := lid\<rparr>) (upd_sock x (child_init c0 rx) c0)"
  obtain r2 c2 where i: "tcp_flow_insert c1 x = (r2, c2)" by (rule prod.exhaust)
  define c3 where "c3 = upd_listener lid (\<lambda>l. l\<lparr>ls_backlog_used := ls_backlog_used l + 1\<rparr>) c2"
  obtain r4 c4 where t: "tcp_ctl_tx c3 x (synack_flags (sl_socks c3 x)) = (r4, c4)" by (rule prod.exhaust)
  obtain r5 c5 where m: "tcp_timeout_arm ev c4 x TCP_RETX_SYNACK = (r5, c5)" by (rule prod.exhaust)
  define rst where "rst = snd (tcp_ctl_tx_reply c5 (rc_local_ip rx) (rc_local_port rx) (rc_remote_ip rx)
                   (rc_remote_port rx) (tk_tx_seq (sl_socks c5 x)) (tk_rx_seq (sl_socks c5 x)) (TAS_TCP_RST OR TAS_TCP_ACK))"
  have e: "(r, c') = (if r2 \<noteq> 0 then (-1, reply_rst (upd_sock x (\<lambda>s. s\<lparr>tk_state := TCP_SOCK_STATE_CLOSED\<rparr>) c2) rx)
        else if r4 \<noteq> 0 then (-1, reply_rst (tcp_sock_close_final c4 x) rx)
        else if r5 \<noteq> 0 then (-1, tcp_sock_close_final rst x) else (0, c5))"
    using o unfolding child_open_def Let_def c1_def [symmetric] i prod.case c3_def [symmetric] t m rst_def [symmetric] by simp
  have cl: "tk_state (sl_socks (tcp_sock_close_final d x) x) = TCP_SOCK_STATE_CLOSED" if "tk_id (sl_socks d x) = x" for d
    using close_final_proj(2) [OF that] by (simp add: closed_sock_def)
  have rs: "sl_socks (reply_rst d rx) = sl_socks d" for d by (simp add: reply_rst_def tcp_ctl_tx_reply_def)
  note f = flow_insert_proj [OF i] and tx = ctl_tx_sent [OF t] and a = timeout_arm_eq [OF m]
  have ids: "tk_id (sl_socks c4 x) = x" "tk_id (sl_socks rst x) = x" using f tx a id by (simp_all add: rst_def c3_def c1_def)
  have z: "r2 = 0" "r4 = 0" "r5 = 0" "c' = c5" using e st cl [OF ids(1)] cl [OF ids(2)] by (auto simp: rs split: if_splits)
  have s3: "sl_socks c3 = (sl_socks c0)(x := s)" using f by (simp add: c3_def c1_def s_def)
  show "sl_socks c' = (sl_socks c0)(x := s)" using z a tx s3 by simp
  have "ctl_sent c0 c' = ctl_sent c3 c4" using z f a by (intro ctl_sent_cong) (simp_all add: c1_def c3_def)
  then show "\<exists>p. ctl_sent c0 c' = Some (ctl_pkt_of s (synack_flags s) p)" using tx(1) z by (simp add: s3)
  show "mt_listener_id (sl_meta c' x) = lid" "sl_n_socks c' = sl_n_socks c0" using z a tx f id by (simp_all add: c3_def c1_def)
qed

lemma alloc_some:
  assumes "tcp_sock_alloc ev c o1 a1 a2 q = (Some x, c')"
  shows "x = sl_n_socks c" and "\<exists>s. sl_socks c' = (sl_socks c)(x := s) \<and> tk_id s = x \<and> tk_flags s = 0" and "sl_pkt_q c' = sl_pkt_q c"
    and "sl_n_socks c' = sl_n_socks c + 1" and "sl_n_socks c < MAX_SOCKETS"
  using assms by (auto simp: tcp_sock_alloc_def Let_def tcp_sock_zero_def not_le split: option.splits if_splits)

lemma listener_lookup_proj:
  assumes "tcp_listener_lookup c ip port = (lid, c1)"
  shows "sl_n_socks c1 = sl_n_socks c" "sl_socks c1 = sl_socks c" "sl_pkt_q c1 = sl_pkt_q c"
  using assms by (auto simp: tcp_listener_lookup_def Let_def split: if_splits option.splits)

lemma alloc_none: "tcp_sock_alloc ev c o1 a1 a2 q = (None, c') \<Longrightarrow> sl_n_socks c' = sl_n_socks c"
  by (auto simp: tcp_sock_alloc_def Let_def split: option.splits if_splits)

lemma listen_syn_recv:
  assumes l: "tcp_rx_listen_syn ev c lsid rx = (r, c')" and n: "sl_n_socks c < sl_n_socks c'"
    and st: "tk_state (sl_socks c' (sl_n_socks c)) = TCP_SOCK_STATE_SYN_RECV"
  shows "\<exists>c0 s0 s p. s = child_init c0 rx s0 \<and> tk_id s0 = sl_n_socks c \<and> tk_flags s0 = 0 \<and>
    sl_socks c' = (sl_socks c)(sl_n_socks c := s) \<and> ctl_sent c c' = Some (ctl_pkt_of s (synack_flags s) p) \<and>
    (\<forall>y. y < sl_n_socks c' \<longrightarrow> y = sl_n_socks c \<or> y < sl_n_socks c)"
proof -
  obtain ro c0 where a: "tcp_sock_alloc ev c 0 0 0 0 = (ro, c0)" by (rule prod.exhaust)
  obtain x where x: "ro = Some x" and o: "child_open ev c0 (tk_id (sl_socks c lsid)) rx x = (r, c')"
    using l n alloc_none [of ev c 0 0 0 0 c0] a unfolding tcp_rx_listen_syn_def Let_def a prod.case
    by (cases ro) (auto split: if_splits)
  note al = alloc_some [OF a [unfolded x]]
  from al(2) obtain s0 where s0: "sl_socks c0 = (sl_socks c)(x := s0)" "tk_id s0 = x" "tk_flags s0 = 0" by blast
  have at: "sl_socks c0 x = s0" by (simp add: s0)
  note co = child_open_recv [OF o, unfolded at]
  define s where "s = child_init c0 rx s0"
  have id: "tk_state (sl_socks c' x) = TCP_SOCK_STATE_SYN_RECV" using st al(1) by simp
  from co(2) [OF id s0(2)] obtain p where p: "ctl_sent c0 c' = Some (ctl_pkt_of s (synack_flags s) p)" unfolding s_def by blast
  have "ctl_sent c c' = ctl_sent c0 c'" by (rule ctl_sent_cong) (simp_all add: al(3))
  with p have p': "ctl_sent c c' = Some (ctl_pkt_of s (synack_flags s) p)" by simp
  have "sl_socks c' = (sl_socks c)(sl_n_socks c := s)" using co(1) [OF id s0(2)] s0(1) al(1) by (simp add: s_def)
  moreover have "\<forall>y. y < sl_n_socks c' \<longrightarrow> y = sl_n_socks c \<or> y < sl_n_socks c"
    using succ_less [OF al(5)] co(4) [OF id s0(2)] al(4) by auto
  ultimately show ?thesis using p' s0 al(1) s_def by blast
qed

lemma ctl_rx_child:
  assumes rxq: "ctl_rx ev c q = (r, c')" and n: "sl_n_socks c < sl_n_socks c'"
    and st: "tk_state (sl_socks c' (sl_n_socks c)) = TCP_SOCK_STATE_SYN_RECV"
  shows "\<exists>core rx c0 s0 s p. rx = ctl_rx_parse q core \<and> tcp_flow_lookup c (rc_local_ip rx) (rc_local_port rx) (rc_remote_ip rx) (rc_remote_port rx) = None \<and>
    s = child_init c0 rx s0 \<and> tk_id s0 = sl_n_socks c \<and> tk_flags s0 = 0 \<and>
    sl_socks c' = (sl_socks c)(sl_n_socks c := s) \<and> ctl_sent c c' = Some (ctl_pkt_of s (synack_flags s) p) \<and>
    (\<forall>y. y < sl_n_socks c' \<longrightarrow> y = sl_n_socks c \<or> y < sl_n_socks c)"
proof -
  define core where "core = (if ucast (ld16 q 52) \<ge> sl_n_fp_cores c then 0 else ld16 q 52)"
  define rx where "rx = ctl_rx_parse q core"
  obtain lid c1 where lu: "tcp_listener_lookup c (rc_local_ip rx) (rc_local_port rx) = (lid, c1)" by (rule prod.exhaust)
  note lp = listener_lookup_proj [OF lu]
  have none: "tcp_flow_lookup c (rc_local_ip rx) (rc_local_port rx) (rc_remote_ip rx) (rc_remote_port rx) = None"
    and ls: "tcp_rx_listen_syn ev c1 lid rx = (r, c')"
    using rxq n unfolding ctl_rx_def Let_def core_def [symmetric] rx_def [symmetric] lu prod.case
    by (auto simp: lp split: option.splits if_splits)
  have sent: "ctl_sent c c' = ctl_sent c1 c'" by (rule ctl_sent_cong) (simp_all add: lp)
  from listen_syn_recv [OF ls, unfolded lp, OF n st] none sent rx_def show ?thesis by metis
qed

text \<open>Congestion control touches none of the fields the handshake is about.\<close>

definition same_conn :: "tcp_sock \<Rightarrow> tcp_sock \<Rightarrow> bool" where
  "same_conn s t \<longleftrightarrow> tk_id s = tk_id t \<and> tk_state s = tk_state t \<and> tk_local_ip s = tk_local_ip t \<and> tk_local_port s = tk_local_port t \<and>
     tk_remote_ip s = tk_remote_ip t \<and> tk_remote_port s = tk_remote_port t \<and> tk_tx_seq s = tk_tx_seq t \<and> tk_tx_pending s = tk_tx_pending t \<and>
     tk_rx_seq s = tk_rx_seq t \<and> tk_tx_remote_avail s = tk_tx_remote_avail t \<and> tk_flags s = tk_flags t \<and> tk_rx_len s = tk_rx_len t \<and>
     tk_rx_avail s = tk_rx_avail t"

lemma cc_init_conn:
  "same_conn (sl_socks (tcp_sock_cc_init ev c x) x) (sl_socks c x)" "y \<noteq> x \<Longrightarrow> sl_socks (tcp_sock_cc_init ev c x) y = sl_socks c y"
  by (simp_all add: same_conn_def tcp_sock_cc_init_def Let_def cc_sock_reset_def tcp_sock_recovery_reset_def split: prod.splits)

lemma same_conn_rx:
  "same_conn (ctl_sock_ts_rx ev rx s) s" "same_conn (util_spin_lock s) s" "same_conn (util_spin_unlock s) s"
  by (auto simp: same_conn_def ctl_sock_ts_rx_def util_spin_lock_def util_spin_unlock_def Let_def split: option.splits prod.splits)

lemma same_conn_trans: "same_conn s t \<Longrightarrow> same_conn t u \<Longrightarrow> same_conn s u"
  by (simp add: same_conn_def)

lemma same_conn_wnd: "same_conn s t \<Longrightarrow> tcp_sock_rx_wnd s = tcp_sock_rx_wnd t"
  by (simp add: same_conn_def tcp_sock_rx_wnd_def)

definition active_sock :: "tcp_rx_ctl \<Rightarrow> tcp_sock \<Rightarrow> tcp_sock" where
  "active_sock rx s = s\<lparr>tk_flags := (if rc_flags rx AND TAS_TCP_ECE = 0 then tk_flags s AND NOT TCP_SOCK_FLAG_ECN else tk_flags s),
     tk_rx_seq := rc_seq rx + 1, tk_tx_seq := tk_tx_seq s + 1, tk_tx_remote_avail := ucast (rc_wnd rx),
     tk_tx_pending := tk_tx_pending s - 1, tk_state := TCP_SOCK_STATE_ESTABLISHED\<rparr>"

lemma syn_sent_established:
  assumes "tk_state (sl_socks c x) = TCP_SOCK_STATE_SYN_SENT" and "rc_flags rx AND TAS_TCP_RST = 0"
    and "rc_flags rx AND (TAS_TCP_SYN OR TAS_TCP_ACK) = TAS_TCP_SYN OR TAS_TCP_ACK" and "sock_ack_valid (sl_socks c x) (rc_ack rx)"
    and "tcp_rx_syn_sent ev c x rx = c'" and "ctl_sent c c' = Some q"
  shows "same_conn (sl_socks c' x) (active_sock rx (sl_socks c x))" and "\<exists>p. q = ctl_pkt_of (sl_socks c' x) TAS_TCP_ACK p"
proof -
  define c1 where "c1 = sock_active_established ev c x rx"
  obtain r2 c2 where t: "tcp_ctl_tx c1 x TAS_TCP_ACK = (r2, c2)" by (rule prod.exhaust)
  note tx = ctl_tx_sent [OF t]
  have e: "c' = snd (tcp_app_connect_res c2 (tcp_sock_actx c2 x) (tk_opaque (sl_socks c2 x)) 0 (Some (sl_socks c2 x)))"
    using assms(2-5) tx(2) by (auto simp: tcp_rx_syn_sent_def Let_def t simp flip: c1_def)
  have c': "sl_socks c' = sl_socks c1" "sl_pkt_q c' = sl_pkt_q c2" unfolding e tcp_app_connect_res_def by (simp_all add: tx)
  have "same_conn (sl_socks c1 x) (active_sock rx (sl_socks c x))"
    unfolding c1_def sock_active_established_def Let_def
    by (rule same_conn_trans [OF cc_init_conn(1)]) (simp add: same_conn_def active_sock_def)
  then show "same_conn (sl_socks c' x) (active_sock rx (sl_socks c x))" using c' by simp
  have "ctl_sent c c' = ctl_sent c1 c2" by (rule ctl_sent_cong) (simp_all add: c' c1_def sock_active_established_def Let_def)
  then show "\<exists>p. q = ctl_pkt_of (sl_socks c' x) TAS_TCP_ACK p" using tx(1) assms(6) c' by auto
qed

definition passive_sock :: "tcp_rx_ctl \<Rightarrow> tcp_sock \<Rightarrow> tcp_sock" where
  "passive_sock rx s = s\<lparr>tk_tx_remote_avail := ucast (rc_wnd rx), tk_tx_pending := tk_tx_pending s - 1,
     tk_tx_seq := tk_tx_seq s + 1, tk_state := TCP_SOCK_STATE_ACCEPT_PENDING\<rparr>"

lemma syn_recv_established:
  assumes "rc_flags rx = TAS_TCP_ACK" and "sock_ack_valid (sl_socks c x) (rc_ack rx)" and id: "tk_id (sl_socks c x) = x"
    and l: "ls_active (sl_listeners c (mt_listener_id (sl_meta c x))) \<noteq> 0"
      "ls_ready_used (sl_listeners c (mt_listener_id (sl_meta c x))) < ls_backlog_len (sl_listeners c (mt_listener_id (sl_meta c x)))"
  shows "sl_socks (tcp_rx_syn_recv c x rx) = (sl_socks c)(x := passive_sock rx (sl_socks c x))"
proof -
  define c2 where "c2 = upd_sock x (passive_sock rx) (tcp_timeout_cancel c x)"
  have c2: "sl_socks c2 = (sl_socks c)(x := passive_sock rx (sl_socks c x))" "sl_listeners c2 = sl_listeners c"
    "mt_listener_id (sl_meta c2 x) = mt_listener_id (sl_meta c x)" "tk_id (sl_socks c2 x) = x"
    using id by (simp_all add: c2_def passive_sock_def)
  obtain r3 c3 where p: "tcp_listener_ready_push c2 (mt_listener_id (sl_meta c2 x)) x = (r3, c3)" by (rule prod.exhaust)
  have c3: "r3 = 0" "sl_socks c3 = sl_socks c2"
    using p l(1) l(2) [unfolded not_le [symmetric]] c2 by (auto simp: tcp_listener_ready_push_def Let_def)
  have "sock_passive_established c x rx = (0, c3)"
    unfolding sock_passive_established_def Let_def passive_sock_def [symmetric] c2_def [symmetric] by (simp add: p c3 c2(4))
  then have "tcp_rx_syn_recv c x rx = snd (tcp_app_listen_newconn c3 (mt_listener_id (tcp_sock_meta c3 x)) x)"
    using assms(1,2) by (simp add: tcp_rx_syn_recv_def)
  then show ?thesis by (simp add: tcp_app_listen_newconn_def c3 c2)
qed

lemma ctl_rx_found:
  assumes "ctl_rx ev c q = (r, c')"
    and find: "\<And>core. tcp_flow_lookup c (rc_local_ip (ctl_rx_parse q core)) (rc_local_port (ctl_rx_parse q core))
      (rc_remote_ip (ctl_rx_parse q core)) (rc_remote_port (ctl_rx_parse q core)) = Some x"
  obtains core rx d where "rx = ctl_rx_parse q core" and "d = upd_sock x (\<lambda>s. ctl_sock_ts_rx ev rx (util_spin_lock s)) c"
    and "c' = upd_sock x util_spin_unlock (sock_ctl_rx ev d x rx)"
proof -
  define core where "core = (if ucast (ld16 q 52) \<ge> sl_n_fp_cores c then 0 else ld16 q 52)"
  have "c' = upd_sock x util_spin_unlock (sock_ctl_rx ev (upd_sock x (\<lambda>s. ctl_sock_ts_rx ev (ctl_rx_parse q core) (util_spin_lock s)) c) x (ctl_rx_parse q core))"
    using assms(1) unfolding ctl_rx_def Let_def core_def [symmetric] find by simp
  then show ?thesis by (rule that [OF refl refl])
qed

text \<open>With no other socket on the flow, the lookup finds the socket that was opened.\<close>

lemma lookup_opened:
  assumes w: "slow_wf c" and w': "slow_wf c'" and "tcp_flow_lookup c lip lport rip rport = None"
    and "sl_socks c' = (sl_socks c)(x := s)" and n: "\<And>y. y < sl_n_socks c' \<Longrightarrow> y = x \<or> y < sl_n_socks c"
    and "x < sl_n_socks c'" and "connected s" and "flow_matches s lip lport rip rport"
  shows "tcp_flow_lookup c' lip lport rip rport = Some x"
proof -
  obtain y where y: "tcp_flow_lookup c' lip lport rip rport = Some y"
    using flow_lookup_complete [OF w', of x lip lport rip rport] assms by auto
  note b = flow_lookup_bound [OF w' y]
  have "y = x"
  proof (rule ccontr)
    assume "y \<noteq> x"
    then have "y < sl_n_socks c" "connected (sl_socks c y)" "flow_matches (sl_socks c y) lip lport rip rport" using b n assms(4) by auto
    then show False using flow_lookup_complete [OF w] assms(3) by blast
  qed
  with y show ?thesis by simp
qed

section \<open>The handshake\<close>

lemma flags_masked:
  "syn_flags s AND TAS_TCP_FLAGS = syn_flags s" "synack_flags s AND TAS_TCP_FLAGS = synack_flags s" "TAS_TCP_ACK AND TAS_TCP_FLAGS = TAS_TCP_ACK"
  by (simp_all add: syn_flags_def synack_flags_def)

lemma synack_flags_bits:
  "synack_flags s AND TAS_TCP_RST = 0" "synack_flags s AND (TAS_TCP_SYN OR TAS_TCP_ACK) = TAS_TCP_SYN OR TAS_TCP_ACK"
  "synack_flags s AND TAS_TCP_ECE = 0 \<longleftrightarrow> tk_flags s AND TCP_SOCK_FLAG_ECN = 0"
  "syn_flags s AND (TAS_TCP_ECE OR TAS_TCP_CWR) = (TAS_TCP_ECE OR TAS_TCP_CWR) \<longleftrightarrow> tk_flags s AND TCP_SOCK_FLAG_ECN \<noteq> 0"
  by (simp_all add: synack_flags_def syn_flags_def)

lemma ctl_rx_parse_of:
  assumes "carried (ctl_pkt_of s flags p) q" and "flags AND TAS_TCP_FLAGS = flags"
  shows "ctl_rx_parse q core = \<lparr>rc_local_ip = tk_remote_ip s, rc_remote_ip = tk_local_ip s, rc_seq = tk_tx_seq s, rc_ack = tk_rx_seq s,
    rc_ts = Some (f_beui32 (ld32 q 42), tk_ts_recent s), rc_local_port = tk_remote_port s, rc_remote_port = tk_local_port s,
    rc_wnd = tcp_sock_rx_wnd s, rc_flags = flags, rc_core = core\<rparr>"
  using ctl_rx_parse_carried [OF assms(1) [unfolded ctl_pkt_of_def] assms(2)] .

text \<open>The child that a SYN of socket \<open>a\<close> opens.\<close>

definition child_of :: "tcp_sock \<Rightarrow> tcp_sock \<Rightarrow> bool" where
  "child_of a b \<longleftrightarrow> tk_state b = TCP_SOCK_STATE_SYN_RECV \<and> tk_local_ip b = tk_remote_ip a \<and> tk_local_port b = tk_remote_port a \<and>
     tk_remote_ip b = tk_local_ip a \<and> tk_remote_port b = tk_local_port a \<and> tk_tx_seq b = 1 \<and> tk_tx_pending b = 1 \<and> tk_rx_seq b = tk_tx_seq a + 1 \<and>
     (tk_flags b AND TCP_SOCK_FLAG_ECN \<noteq> 0 \<longrightarrow> tk_flags a AND TCP_SOCK_FLAG_ECN \<noteq> 0)"

lemma syn_opens_child:
  assumes "ctl_rx ev c q = (r, c')" and "carried (ctl_pkt_of a (syn_flags a) p) q" and "x = sl_n_socks c" and "x < sl_n_socks c'"
    and "tk_state (sl_socks c' x) = TCP_SOCK_STATE_SYN_RECV"
  obtains b p' where "child_of a b" and "sl_socks c' = (sl_socks c)(x := b)" and "tk_id b = x"
    and "ctl_sent c c' = Some (ctl_pkt_of b (synack_flags b) p')" and "\<forall>y. y < sl_n_socks c' \<longrightarrow> y = x \<or> y < sl_n_socks c"
    and "tcp_flow_lookup c (tk_remote_ip a) (tk_remote_port a) (tk_local_ip a) (tk_local_port a) = None"
proof -
  from ctl_rx_child [OF assms(1)] assms(3-5) obtain core rx c0 s0 b p' where rx: "rx = ctl_rx_parse q core"
    and none: "tcp_flow_lookup c (rc_local_ip rx) (rc_local_port rx) (rc_remote_ip rx) (rc_remote_port rx) = None"
    and b: "b = child_init c0 rx s0" "tk_id s0 = x" "tk_flags s0 = 0" and so: "sl_socks c' = (sl_socks c)(x := b)"
    and sent: "ctl_sent c c' = Some (ctl_pkt_of b (synack_flags b) p')" and n: "\<forall>y. y < sl_n_socks c' \<longrightarrow> y = x \<or> y < sl_n_socks c"
    by blast
  note pr = ctl_rx_parse_of [OF assms(2) flags_masked(1), of core, folded rx]
  have "child_of a b" using synack_flags_bits(4) [of a] by (simp add: child_of_def b child_init_def Let_def pr)
  moreover have "tk_id b = x" by (simp add: b)
  ultimately show ?thesis using that so sent n none by (simp add: pr)
qed

text \<open>The SYN-ACK of such a child establishes the connecting socket, whose ACK leaves.\<close>

lemma synack_establishes:
  assumes rxq: "ctl_rx ev c q = (r, c')" and q: "carried (ctl_pkt_of b (synack_flags b) p) q" and ab: "child_of (sl_socks c x) b"
    and a: "tk_state (sl_socks c x) = TCP_SOCK_STATE_SYN_SENT" "tk_tx_seq (sl_socks c x) = 1" "tk_tx_pending (sl_socks c x) = 1"
    and find: "tcp_flow_lookup c (tk_local_ip (sl_socks c x)) (tk_local_port (sl_socks c x)) (tk_remote_ip (sl_socks c x)) (tk_remote_port (sl_socks c x)) = Some x"
    and sent: "ctl_sent c c' = Some p3"
  obtains s p' where "p3 = ctl_pkt_of s TAS_TCP_ACK p'" and "same_conn (sl_socks c' x) s" and "tk_state s = TCP_SOCK_STATE_ESTABLISHED"
    and "tk_tx_seq s = 2" and "tk_tx_pending s = 0" and "tk_rx_seq s = 2" and "tk_tx_remote_avail s = ucast (tcp_sock_rx_wnd b)"
    and "tk_flags s AND TCP_SOCK_FLAG_ECN \<noteq> 0 \<longleftrightarrow> tk_flags b AND TCP_SOCK_FLAG_ECN \<noteq> 0"
    and "tk_local_ip s = tk_remote_ip b" and "tk_local_port s = tk_remote_port b" and "tk_remote_ip s = tk_local_ip b" and "tk_remote_port s = tk_local_port b"
    and "tcp_sock_rx_wnd s = tcp_sock_rx_wnd (sl_socks c x)"
proof -
  note pr = ctl_rx_parse_of [OF q flags_masked(2)]
  have fnd: "tcp_flow_lookup c (rc_local_ip (ctl_rx_parse q core)) (rc_local_port (ctl_rx_parse q core))
      (rc_remote_ip (ctl_rx_parse q core)) (rc_remote_port (ctl_rx_parse q core)) = Some x" for core
    using find ab by (simp add: pr child_of_def)
  obtain core rx d where rx: "rx = ctl_rx_parse q core"
    and d: "d = upd_sock x (\<lambda>s. ctl_sock_ts_rx ev rx (util_spin_lock s)) c"
    and c': "c' = upd_sock x util_spin_unlock (sock_ctl_rx ev d x rx)" by (rule ctl_rx_found [OF rxq fnd])
  have dx: "same_conn (sl_socks d x) (sl_socks c x)" by (simp add: d) (rule same_conn_trans [OF same_conn_rx(1) same_conn_rx(2)])
  define e where "e = tcp_rx_syn_sent ev d x rx"
  have ce: "sock_ctl_rx ev d x rx = e" using dx a by (simp add: sock_ctl_rx_def e_def same_conn_def)
  have se: "ctl_sent d e = Some p3" using sent unfolding c' ce by (simp add: ctl_sent_def d)
  have rxf: "rc_flags rx = synack_flags b" "rc_ack rx = tk_rx_seq b" "rc_seq rx = tk_tx_seq b" "rc_wnd rx = tcp_sock_rx_wnd b" by (simp_all add: rx pr)
  note ss = syn_sent_established [OF _ _ _ _ e_def [symmetric] se]
  have pre: "tk_state (sl_socks d x) = TCP_SOCK_STATE_SYN_SENT" "rc_flags rx AND TAS_TCP_RST = 0"
    "rc_flags rx AND (TAS_TCP_SYN OR TAS_TCP_ACK) = TAS_TCP_SYN OR TAS_TCP_ACK" "sock_ack_valid (sl_socks d x) (rc_ack rx)"
    using dx a ab synack_flags_bits [of b] by (simp_all add: rxf same_conn_def sock_ack_valid_def child_of_def)
  define s where "s = sl_socks e x"
  obtain p' where p': "p3 = ctl_pkt_of s TAS_TCP_ACK p'" using ss(2) [OF pre] unfolding s_def by blast
  have s: "same_conn s (active_sock rx (sl_socks d x))" using ss(1) [OF pre] by (simp add: s_def)
  have ecn: "tk_flags s AND TCP_SOCK_FLAG_ECN \<noteq> 0 \<longleftrightarrow> tk_flags b AND TCP_SOCK_FLAG_ECN \<noteq> 0"
    using s dx ab synack_flags_bits(3) [of b] by (auto simp: same_conn_def active_sock_def rxf child_of_def and.assoc)
  show ?thesis
  proof (rule that [OF p' _ _ _ _ _ _ ecn])
    show "same_conn (sl_socks c' x) s" unfolding c' ce by (simp add: s_def same_conn_rx)
    show "tcp_sock_rx_wnd s = tcp_sock_rx_wnd (sl_socks c x)"
      using s dx by (simp add: same_conn_def active_sock_def tcp_sock_rx_wnd_def)
  qed (use s dx a ab in \<open>simp_all add: same_conn_def active_sock_def rxf child_of_def\<close>)
qed

text \<open>That ACK makes the child ready for \<^verbatim>\<open>accept\<close>.\<close>

lemma ack_readies_child:
  assumes rxq: "ctl_rx ev c q = (r, c')" and q: "carried (ctl_pkt_of s TAS_TCP_ACK p) q"
    and s: "tk_tx_seq s = 2" "tk_rx_seq s = 2" and b: "tk_state (sl_socks c x) = TCP_SOCK_STATE_SYN_RECV" "tk_id (sl_socks c x) = x"
      "tk_tx_seq (sl_socks c x) = 1" "tk_tx_pending (sl_socks c x) = 1"
    and find: "tcp_flow_lookup c (tk_remote_ip s) (tk_remote_port s) (tk_local_ip s) (tk_local_port s) = Some x"
    and l: "ls_active (sl_listeners c (mt_listener_id (sl_meta c x))) \<noteq> 0"
      "ls_ready_used (sl_listeners c (mt_listener_id (sl_meta c x))) < ls_backlog_len (sl_listeners c (mt_listener_id (sl_meta c x)))"
  shows "same_conn (sl_socks c' x) ((sl_socks c x)\<lparr>tk_state := TCP_SOCK_STATE_ACCEPT_PENDING, tk_tx_seq := 2, tk_tx_pending := 0,
    tk_tx_remote_avail := ucast (tcp_sock_rx_wnd s)\<rparr>)"
proof -
  note pr = ctl_rx_parse_of [OF q flags_masked(3)]
  have fnd: "tcp_flow_lookup c (rc_local_ip (ctl_rx_parse q core)) (rc_local_port (ctl_rx_parse q core))
      (rc_remote_ip (ctl_rx_parse q core)) (rc_remote_port (ctl_rx_parse q core)) = Some x" for core
    using find by (simp add: pr)
  obtain core rx d where rx: "rx = ctl_rx_parse q core"
    and d: "d = upd_sock x (\<lambda>s. ctl_sock_ts_rx ev rx (util_spin_lock s)) c"
    and c': "c' = upd_sock x util_spin_unlock (sock_ctl_rx ev d x rx)" by (rule ctl_rx_found [OF rxq fnd])
  have dx: "same_conn (sl_socks d x) (sl_socks c x)" by (simp add: d) (rule same_conn_trans [OF same_conn_rx(1) same_conn_rx(2)])
  have rxf: "rc_flags rx = TAS_TCP_ACK" "rc_ack rx = 2" "rc_wnd rx = tcp_sock_rx_wnd s" by (simp_all add: rx pr s)
  have "sl_socks (tcp_rx_syn_recv d x rx) = (sl_socks d)(x := passive_sock rx (sl_socks d x))"
    by (rule syn_recv_established) (use dx b l rxf in \<open>simp_all add: same_conn_def sock_ack_valid_def d\<close>)
  moreover have "sock_ctl_rx ev d x rx = tcp_rx_syn_recv d x rx" using dx b by (simp add: sock_ctl_rx_def same_conn_def)
  ultimately have "sl_socks c' x = util_spin_unlock (passive_sock rx (sl_socks d x))" unfolding c' by simp
  then show ?thesis
    using dx b by (simp add: same_conn_def passive_sock_def rxf util_spin_unlock_def)
qed

end
