(* ===== verification/Tcp_Handshake_Demo.thy ===== *)
theory Tcp_Handshake_Demo
  imports Tcp_Handshake
begin

unbundle bit_operations_syntax

text \<open>
  When the steps of the handshake succeed: with a free slot in the flow bucket, room in the queues to
  the fast path and a free timer. Two concrete hosts then carry out the handshake.
\<close>

section \<open>Room in the queues\<close>

definition ctl_room :: "tcp_slow_context \<Rightarrow> bool" where
  "ctl_room c \<longleftrightarrow> qs_type (snd (sl_pkt_q c) (eq_tail (fst (sl_pkt_q c)))) = QUEUE_EMPTY \<and> qs_type (snd (sl_sig_q c) (eq_tail (fst (sl_sig_q c)))) = QUEUE_EMPTY"

definition tail_next :: "equeue \<Rightarrow> u32" where
  "tail_next q = ring_advance (eq_elsize q) (eq_nelems q) (eq_tail q)"

text \<open>Room for two packets.\<close>

definition ctl_room2 :: "tcp_slow_context \<Rightarrow> bool" where
  "ctl_room2 c \<longleftrightarrow> ctl_room c \<and> tail_next (fst (sl_pkt_q c)) \<noteq> eq_tail (fst (sl_pkt_q c)) \<and> tail_next (fst (sl_sig_q c)) \<noteq> eq_tail (fst (sl_sig_q c)) \<and>
     qs_type (snd (sl_pkt_q c) (tail_next (fst (sl_pkt_q c)))) = QUEUE_EMPTY \<and> qs_type (snd (sl_sig_q c) (tail_next (fst (sl_sig_q c)))) = QUEUE_EMPTY"

lemma ctl_room_cong: "sl_pkt_q c = sl_pkt_q d \<Longrightarrow> sl_sig_q c = sl_sig_q d \<Longrightarrow> ctl_room c = ctl_room d \<and> ctl_room2 c = ctl_room2 d"
  by (simp add: ctl_room_def ctl_room2_def)

lemma ctl_tx_ok: "ctl_room c \<Longrightarrow> fst (tcp_ctl_tx c x flags) = 0"
  by (simp add: tcp_ctl_tx_def ctl_pkt_enqueue_def Let_def queue_tail_def queue_put_cases ctl_room_def)

lemma ctl_tx_room: "ctl_room2 c \<Longrightarrow> ctl_room (snd (tcp_ctl_tx c x flags))"
  by (simp add: tcp_ctl_tx_def ctl_pkt_enqueue_def Let_def queue_tail_def queue_put_cases ctl_room_def ctl_room2_def tail_next_def)

lemma sig_q_upd [simp]:
  "sl_sig_q (upd_sock x f c) = sl_sig_q c" "sl_sig_q (upd_meta x g c) = sl_sig_q c" "sl_sig_q (upd_sock_meta x g c) = sl_sig_q c"
  "sl_sig_q (upd_listener x h c) = sl_sig_q c"
  by (simp_all add: upd_sock_def upd_meta_def upd_sock_meta_def upd_listener_def)

lemma sig_q_ops [simp]:
  "sl_sig_q (tcp_timeout_cancel c x) = sl_sig_q c" "sl_sig_q (snd (sock_retx_sched ev c x)) = sl_sig_q c"
  "sl_sig_q (snd (tcp_timeout_arm ev c x k)) = sl_sig_q c" "sl_sig_q (snd (tcp_flow_insert c x)) = sl_sig_q c"
  "sl_sig_q (tcp_sock_cc_init ev c x) = sl_sig_q c"
  by (simp_all add: tcp_timeout_cancel_def sock_retx_sched_def tcp_timeout_arm_def tcp_flow_insert_def tcp_sock_cc_init_def
      tcp_sock_cc_reset_def Let_def split: option.splits prod.splits)

lemma ops_room [simp]:
  "ctl_room (upd_sock x f c) = ctl_room c" "ctl_room2 (upd_sock x f c) = ctl_room2 c"
  "ctl_room (upd_sock_meta x g c) = ctl_room c" "ctl_room2 (upd_sock_meta x g c) = ctl_room2 c"
  "ctl_room (upd_listener x h c) = ctl_room c" "ctl_room2 (upd_listener x h c) = ctl_room2 c"
  "ctl_room (snd (tcp_flow_insert c x)) = ctl_room c" "ctl_room2 (snd (tcp_flow_insert c x)) = ctl_room2 c"
  "ctl_room (snd (tcp_timeout_arm ev c x k)) = ctl_room c" "ctl_room (tcp_sock_cc_init ev c x) = ctl_room c"
  "ctl_room (tcp_timeout_cancel c x) = ctl_room c"
  by (simp_all add: ctl_room_def ctl_room2_def)

section \<open>A free slot and a free timer\<close>

lemma bucket_put_ok: "ID_INVALID \<in> set xs \<Longrightarrow> \<exists>b. bucket_put x xs = Some b"
  by (induction xs) auto

lemma flow_insert_ok: "ID_INVALID \<in> set (sl_flows c (sock_bucket (sl_socks c x))) \<Longrightarrow> fst (tcp_flow_insert c x) = 0"
  using bucket_put_ok [of "sl_flows c (sock_bucket (sl_socks c x))" "tk_id (sl_socks c x)"] by (auto simp: tcp_flow_insert_def Let_def)

definition timer_free :: "slow_env \<Rightarrow> tcp_slow_context \<Rightarrow> u32 \<Rightarrow> bool" where
  "timer_free ev c x \<longleftrightarrow> mt_timer (tcp_sock_meta c x) = None \<and> snd (tomgr_insert (sl_tomgr c) TCP_TO_RETX (ev_retx ev) (ucast x)) \<noteq> None"

lemma timeout_arm_ok: "timer_free ev c x \<Longrightarrow> fst (tcp_timeout_arm ev c x k) = 0"
  by (auto simp: timer_free_def tcp_timeout_arm_def tcp_timeout_cancel_def sock_retx_sched_def Let_def split: prod.splits)

lemma timer_free_cong: "sl_tomgr c = sl_tomgr d \<Longrightarrow> mt_timer (tcp_sock_meta c x) = mt_timer (tcp_sock_meta d x) \<Longrightarrow> timer_free ev c x = timer_free ev d x"
  by (simp add: timer_free_def)

lemma flow_insert_timer: "sl_tomgr (snd (tcp_flow_insert c x)) = sl_tomgr c" "sl_meta (snd (tcp_flow_insert c x)) = sl_meta c" "sl_socks (snd (tcp_flow_insert c x)) = sl_socks c"
  by (simp_all add: tcp_flow_insert_def Let_def split: option.splits)

section \<open>The steps succeed\<close>

lemma connect_start_ok:
  assumes "ID_INVALID \<in> set (sl_flows c (sock_bucket (connect_sock c rip rport (sl_socks c x))))" and "ctl_room2 c" and "timer_free ev c x"
  shows "fst (sock_connect_start ev c x rip rport) = 0" and "ctl_room (snd (sock_connect_start ev c x rip rport))"
proof -
  define c1 where "c1 = upd_sock x (connect_sock c rip rport) c"
  obtain r2 c2 where i: "tcp_flow_insert c1 x = (r2, c2)" by (rule prod.exhaust)
  have c2: "c2 = snd (tcp_flow_insert c1 x)" "r2 = fst (tcp_flow_insert c1 x)" by (simp_all add: i)
  have i': "r2 = 0" "ctl_room2 c2" "sl_tomgr c2 = sl_tomgr c" "sl_meta c2 = sl_meta c" "sl_socks c2 = sl_socks c1"
    unfolding c2 using assms by (simp_all add: c1_def flow_insert_ok flow_insert_timer)
  obtain r3 c3 where t: "tcp_ctl_tx c2 x (syn_flags (sl_socks c2 x)) = (r3, c3)" by (rule prod.exhaust)
  have "ctl_room c2" using i'(2) by (simp add: ctl_room2_def)
  then have t': "r3 = 0" "ctl_room c3" "sl_tomgr c3 = sl_tomgr c2" "sl_meta c3 = sl_meta c2" "sl_socks c3 = sl_socks c2"
    using ctl_tx_ok [of c2 x "syn_flags (sl_socks c2 x)"] ctl_tx_room [OF i'(2), of x "syn_flags (sl_socks c2 x)"] t ctl_tx_sent [OF t]
    by (auto simp: tcp_ctl_tx_def Let_def dest: arg_cong [where f = "\<lambda>z. sl_tomgr (snd z)"])
  have tk: "tk_id (sl_socks c1 x) = tk_id (sl_socks c x)" by (simp add: c1_def connect_sock_def)
  have "timer_free ev c3 x" using assms(3) i' t' tk by (simp add: timer_free_def)
  then have m: "fst (tcp_timeout_arm ev c3 x TCP_RETX_SYN) = 0" by (rule timeout_arm_ok)
  obtain c4 where m': "tcp_timeout_arm ev c3 x TCP_RETX_SYN = (0, c4)" using m by (metis prod.collapse)
  have "sock_connect_start ev c x rip rport = (0, c4)"
    unfolding sock_connect_start_def Let_def connect_sock_def [symmetric] c1_def [symmetric] i prod.case syn_flags_def [symmetric] t m' using i' t' by simp
  moreover have "ctl_room c4" using ops_room(9) [of ev c3 x TCP_RETX_SYN] m' t' by simp
  ultimately show "fst (sock_connect_start ev c x rip rport) = 0" "ctl_room (snd (sock_connect_start ev c x rip rport))" by simp_all
qed

lemma child_open_ok:
  assumes f: "ID_INVALID \<in> set (sl_flows c0 (sock_bucket (child_init c0 rx (sl_socks c0 x))))" and r: "ctl_room c0" and t: "timer_free ev c0 x"
  shows "tk_state (sl_socks (snd (child_open ev c0 lid rx x)) x) = TCP_SOCK_STATE_SYN_RECV"
    and "sl_n_socks (snd (child_open ev c0 lid rx x)) = sl_n_socks c0"
    and "sl_listeners (snd (child_open ev c0 lid rx x)) = (sl_listeners c0)(lid := (sl_listeners c0 lid)\<lparr>ls_backlog_used := ls_backlog_used (sl_listeners c0 lid) + 1\<rparr>)"
    and "mt_listener_id (sl_meta (snd (child_open ev c0 lid rx x)) (tk_id (sl_socks c0 x))) = lid"
proof -
  define c1 where "c1 = upd_sock_meta x (\<lambda>m. m\<lparr>mt_listener_id := lid\<rparr>) (upd_sock x (child_init c0 rx) c0)"
  define c2 where "c2 = snd (tcp_flow_insert c1 x)"
  have i: "tcp_flow_insert c1 x = (0, c2)" using flow_insert_ok [of c1 x] f by (simp add: c1_def c2_def prod_eq_iff)
  define c3 where "c3 = upd_listener lid (\<lambda>l. l\<lparr>ls_backlog_used := ls_backlog_used l + 1\<rparr>) c2"
  define c4 where "c4 = snd (tcp_ctl_tx c3 x (synack_flags (sl_socks c3 x)))"
  have "ctl_room c3" using r by (simp add: c3_def c2_def c1_def)
  then have tx: "tcp_ctl_tx c3 x (synack_flags (sl_socks c3 x)) = (0, c4)" by (simp add: c4_def prod_eq_iff ctl_tx_ok)
  note p4 = ctl_tx_sent [OF tx] and p2 = flow_insert_proj [OF i]
  have "sl_tomgr c4 = sl_tomgr c0" "mt_timer (tcp_sock_meta c4 x) = mt_timer (tcp_sock_meta c0 x)"
    using p4 p2 by (simp_all add: c4_def c3_def c2_def c1_def flow_insert_timer tcp_ctl_tx_def Let_def)
  then have "timer_free ev c4 x" using t by (simp add: timer_free_def)
  then obtain c5 where m: "tcp_timeout_arm ev c4 x TCP_RETX_SYNACK = (0, c5)" using timeout_arm_ok by (metis prod.collapse)
  have e: "child_open ev c0 lid rx x = (0, c5)"
    unfolding child_open_def Let_def c1_def [symmetric] i prod.case c3_def [symmetric] tx m by simp
  note p5 = timeout_arm_eq [OF m]
  show "tk_state (sl_socks (snd (child_open ev c0 lid rx x)) x) = TCP_SOCK_STATE_SYN_RECV"
    "sl_n_socks (snd (child_open ev c0 lid rx x)) = sl_n_socks c0"
    "sl_listeners (snd (child_open ev c0 lid rx x)) = (sl_listeners c0)(lid := (sl_listeners c0 lid)\<lparr>ls_backlog_used := ls_backlog_used (sl_listeners c0 lid) + 1\<rparr>)"
    "mt_listener_id (sl_meta (snd (child_open ev c0 lid rx x)) (tk_id (sl_socks c0 x))) = lid"
    unfolding e using p5 p4 p2 by (simp_all add: c3_def c1_def)
qed

lemma syn_sent_ack_sent:
  assumes "rc_flags rx AND TAS_TCP_RST = 0" and "rc_flags rx AND (TAS_TCP_SYN OR TAS_TCP_ACK) = TAS_TCP_SYN OR TAS_TCP_ACK"
    and "sock_ack_valid (sl_socks c x) (rc_ack rx)" and r: "ctl_room c"
  shows "\<exists>p. ctl_sent c (tcp_rx_syn_sent ev c x rx) = Some p"
proof -
  define c1 where "c1 = sock_active_established ev c x rx"
  have c1: "ctl_room c1" "sl_pkt_q c1 = sl_pkt_q c" using r by (simp_all add: c1_def sock_active_established_def Let_def)
  obtain c2 where t: "tcp_ctl_tx c1 x TAS_TCP_ACK = (0, c2)" using ctl_tx_ok [OF c1(1)] by (metis prod.collapse)
  have "ctl_sent c (tcp_rx_syn_sent ev c x rx) = ctl_sent c1 c2"
    by (rule ctl_sent_cong) (use assms in \<open>simp_all add: tcp_rx_syn_sent_def Let_def t c1 tcp_app_connect_res_def flip: c1_def\<close>)
  then show ?thesis using ctl_tx_sent(1) [OF t] by auto
qed

lemma synack_acked:
  assumes rxq: "ctl_rx ev c q = (r, c')" and q: "carried (ctl_pkt_of b (synack_flags b) p) q" and ab: "child_of (sl_socks c x) b"
    and a: "tk_state (sl_socks c x) = TCP_SOCK_STATE_SYN_SENT" "tk_tx_seq (sl_socks c x) = 1" "tk_tx_pending (sl_socks c x) = 1"
    and find: "tcp_flow_lookup c (tk_local_ip (sl_socks c x)) (tk_local_port (sl_socks c x)) (tk_remote_ip (sl_socks c x)) (tk_remote_port (sl_socks c x)) = Some x"
    and r: "ctl_room c"
  shows "\<exists>p. ctl_sent c c' = Some p"
proof -
  note pr = ctl_rx_parse_of [OF q flags_masked(2)]
  have fnd: "tcp_flow_lookup c (rc_local_ip (ctl_rx_parse q core)) (rc_local_port (ctl_rx_parse q core))
      (rc_remote_ip (ctl_rx_parse q core)) (rc_remote_port (ctl_rx_parse q core)) = Some x" for core
    using find ab by (simp add: pr child_of_def)
  obtain core rx d where rx: "rx = ctl_rx_parse q core" and d: "d = upd_sock x (\<lambda>s. ctl_sock_ts_rx ev rx (util_spin_lock s)) c"
    and c': "c' = upd_sock x util_spin_unlock (sock_ctl_rx ev d x rx)" by (rule ctl_rx_found [OF rxq fnd])
  have dx: "same_conn (sl_socks d x) (sl_socks c x)" by (simp add: d) (rule same_conn_trans [OF same_conn_rx(1) same_conn_rx(2)])
  have e: "sock_ctl_rx ev d x rx = tcp_rx_syn_sent ev d x rx" using dx a by (simp add: sock_ctl_rx_def same_conn_def)
  have "\<exists>p. ctl_sent d (tcp_rx_syn_sent ev d x rx) = Some p"
    by (rule syn_sent_ack_sent)
      (use dx a ab r synack_flags_bits [of b] in \<open>simp_all add: rx pr d same_conn_def sock_ack_valid_def child_of_def\<close>)
  then show ?thesis unfolding c' e by (simp add: ctl_sent_def d)
qed

section \<open>Two hosts\<close>

definition demo_sl_ring :: "equeue" where
  "demo_sl_ring = \<lparr>eq_tail = 0, eq_nelems = 4, eq_elsize = 64, eq_off = 0, eq_entries = 0\<rparr>"

definition demo_host :: "u32 \<Rightarrow> tcp_sock \<Rightarrow> tcp_slow_context" where
  "demo_host ip s = \<lparr>sl_config = demo_cf, sl_n_socks = 1, sl_local_ip = ip, sl_n_fp_cores = 1, sl_n_apps = 0, sl_next_app = 0, sl_next_core = 0,
     sl_apps = (\<lambda>_. \<lparr>ap_id = 0, ap_n_ctxs = 1, ap_next_ctx = 0, ap_ctxs = (\<lambda>_. \<lparr>ax_id = 0,
       ax_app_slow_q = (\<lparr>dq_head = 0, dq_nelems = 4, dq_elsize = 64, dq_off = 0, dq_entries = 0\<rparr>, \<lambda>_. \<lparr>qs_type = 0, qs_data = A_raw\<rparr>),
       ax_slow_app_q = (demo_sl_ring, \<lambda>_. \<lparr>qs_type = 0, qs_data = A_raw\<rparr>), ax_app_bump_qs = (\<lambda>_. 0)\<rparr>)\<rparr>),
     sl_fast_sig_qs = (\<lambda>_. (\<lparr>dq_head = 0, dq_nelems = 4, dq_elsize = 64, dq_off = 0, dq_entries = 0\<rparr>, \<lambda>_. \<lparr>qs_type = 0, qs_data = TQ_ctl_sig 0\<rparr>)),
     sl_fast_pkt_qs = (\<lambda>_. (\<lparr>dq_head = 0, dq_nelems = 4, dq_elsize = 64, dq_off = 0, dq_entries = 0\<rparr>, \<lambda>_. \<lparr>qs_type = 0, qs_data = TQ_ctl_sig 0\<rparr>)),
     sl_sig_q = (demo_sl_ring, \<lambda>_. \<lparr>qs_type = 0, qs_data = TS_ctl_sig 0\<rparr>), sl_pkt_q = (demo_sl_ring, \<lambda>_. \<lparr>qs_type = 0, qs_data = (\<lambda>_. 0)\<rparr>),
     sl_tomgr = the (tomgr_init True tm_two), sl_socks = (\<lambda>_. s), sl_ports = tcp_port_tbl_init, sl_flows = tcp_flow_tbl_init,
     sl_listeners = (\<lambda>_. tcp_listener_zero), sl_meta = (\<lambda>_. tcp_sock_meta_zero\<lparr>mt_listener_id := ID_INVALID\<rparr>), sl_bound = tcp_port_tbl_init,
     sl_cc_poll_tsc = 0, sl_cc_next_sock = 0, sl_stats_acks_rx = 0, sl_stats_drops = 0, sl_stats_retx = 0, sl_oob = False\<rparr>"

definition demo_env :: slow_env where
  "demo_env = \<lparr>ev_now = 100, ev_retx = 200, ev_us = 3, ev_since = (\<lambda>t. 100 - t), ev_rxq = Some \<lparr>pq_id = 0, pq_nelems = 1024, pq_elsize = 1, pq_off = 4096\<rparr>,
     ev_txq = Some \<lparr>pq_id = 0, pq_nelems = 1024, pq_elsize = 1, pq_off = 8192\<rparr>, ev_calloc = True\<rparr>"

text \<open>A connecting host and a host that listens on port 80.\<close>

definition demo_client :: tcp_slow_context where
  "demo_client = demo_host 5 (tcp_sock_zero\<lparr>tk_local_ip := 5, tk_local_port := 1002, tk_state := TCP_SOCK_STATE_INIT, tk_rx_len := 1024\<rparr>)"

definition demo_server :: tcp_slow_context where
  "demo_server = (demo_host 9 (tcp_sock_zero\<lparr>tk_local_ip := 9, tk_local_port := 80, tk_state := TCP_SOCK_STATE_LISTEN, tk_rx_len := 1024\<rparr>))
     \<lparr>sl_ports := tcp_port_tbl_init(80 := \<lparr>tp_nsocks = 1, tp_next_sock = 0, tp_sids = 0 # replicate 7 ID_INVALID\<rparr>),
      sl_listeners := (\<lambda>_. tcp_listener_zero)(0 := \<lparr>ls_active = 1, ls_sock_id = 0, ls_backlog_len = 2, ls_backlog_used = 0, ls_ready_head = 0,
        ls_ready_used = 0, ls_ready_sids = Some [ID_INVALID, ID_INVALID]\<rparr>)\<rparr>"

lemma demo_flows: "sl_flows demo_client = tcp_flow_tbl_init" "sl_flows demo_server = tcp_flow_tbl_init" "ID_INVALID \<in> set (tcp_flow_tbl_init b)"
  by (simp_all add: demo_client_def demo_server_def demo_host_def tcp_flow_tbl_init_def)

lemma demo_timers: "timers_wf 1 (sl_tomgr (demo_host ip s))"
proof -
  obtain tm where tm: "tomgr_init True tm_two = Some tm" by (simp add: tomgr_init_def)
  then show ?thesis using tomgr_init_wf [OF tm] by (simp add: demo_host_def timers_wf_def)
qed

lemma one_word: "(x :: u32) < 1 \<longleftrightarrow> x = 0"
  using unat_gt_0 [of x] by (auto simp: word_less_nat_alt)

lemma demo_client_wf: "slow_wf demo_client"
  using demo_timers [of 5 "sl_socks demo_client 0"]
  by (simp add: demo_client_def demo_host_def slow_wf_def flows_wf_def lst_wf_def listener_ok_def tcp_listener_zero_def port_ok_def
        tcp_port_tbl_init_def tcp_flow_tbl_init_def bucket_ids_def one_word connected_def tcp_sock_zero_def)

lemma demo_server_wf: "slow_wf demo_server"
  using demo_timers [of 9 "sl_socks demo_server 0"]
  by (simp add: demo_server_def demo_host_def slow_wf_def flows_wf_def lst_wf_def listener_ok_def tcp_listener_zero_def port_ok_def
        tcp_port_tbl_init_def tcp_flow_tbl_init_def bucket_ids_def one_word connected_def tcp_sock_zero_def)

lemma tomgr_insert_None: "snd (tomgr_insert m ty t d) = None \<longleftrightarrow> tm_size m \<ge> TOMGR_SIZE \<or> find_free_entry m = None"
  by (simp add: tomgr_insert_def Let_def split: option.splits)

lemma tomgr_init_free: "tomgr_init True m0 = Some m \<Longrightarrow> tm_size m = 0 \<and> find_free_entry m \<noteq> None"
  by (auto simp: tomgr_init_def find_free_entry_def find_None_iff intro: exI [where x = 0])

lemma demo_host_ready: "ctl_room2 (demo_host ip s)" "timer_free demo_env (demo_host ip s) x"
proof -
  show "ctl_room2 (demo_host ip s)"
    by (simp add: ctl_room2_def ctl_room_def demo_host_def demo_sl_ring_def tail_next_def ring_advance_def)
  obtain tm where tm: "tomgr_init True tm_two = Some tm" by (simp add: tomgr_init_def)
  have "snd (tomgr_insert tm ty t d) \<noteq> None" for ty t d using tomgr_init_free [OF tm] tomgr_insert_None [of tm ty t d] by simp
  then show "timer_free demo_env (demo_host ip s) x" by (simp add: timer_free_def demo_host_def tm tcp_sock_meta_zero_def)
qed

lemma empty_lookup: "sl_flows c = tcp_flow_tbl_init \<Longrightarrow> tcp_flow_lookup c lip lport rip rport = None"
  by (simp add: tcp_flow_lookup_def tcp_flow_tbl_init_def eval_nat_numeral)

lemma demo_listener: "\<exists>ports. tcp_listener_lookup demo_server 9 80 = (0, demo_server\<lparr>sl_ports := ports\<rparr>)"
  by (simp add: tcp_listener_lookup_def Let_def demo_server_def demo_host_def listener_accepts_def)

lemma demo_alloc:
  assumes "c = demo_server\<lparr>sl_ports := ports\<rparr>"
  shows "\<exists>c0. tcp_sock_alloc demo_env c 0 0 0 0 = (Some 1, c0) \<and> sl_flows c0 = tcp_flow_tbl_init \<and> ctl_room c0 \<and> timer_free demo_env c0 1 \<and>
    sl_listeners c0 = sl_listeners demo_server \<and> tk_id (sl_socks c0 1) = 1 \<and> sl_n_socks c0 = 2"
proof -
  have n: "sl_n_socks c = 1" "sl_tomgr c = sl_tomgr demo_server" "sl_meta c = sl_meta demo_server" "sl_listeners c = sl_listeners demo_server"
    "sl_flows c = tcp_flow_tbl_init" "sl_pkt_q c = sl_pkt_q demo_server" "sl_sig_q c = sl_sig_q demo_server"
    using assms by (simp_all add: demo_server_def demo_host_def)
  have r: "ctl_room c" using demo_host_ready(1) by (simp add: assms demo_server_def ctl_room2_def ctl_room_def)
  have t: "snd (tomgr_insert (sl_tomgr demo_server) TCP_TO_RETX (ev_retx demo_env) (ucast (1 :: u32))) \<noteq> None" "mt_timer (sl_meta demo_server 1) = None"
    using demo_host_ready(2) [of 9 _ 1] by (simp_all add: timer_free_def demo_server_def) (simp add: demo_host_def tcp_sock_meta_zero_def)
  show ?thesis using r t n by (simp add: tcp_sock_alloc_def Let_def demo_env_def ctl_room_def timer_free_def word_le_nat_alt)
qed

lemma demo_server_child:
  assumes q: "carried (ctl_pkt_of a (syn_flags a) p) q" and a: "tk_remote_ip a = 9" "tk_remote_port a = 80" and c': "c' = snd (ctl_rx demo_env demo_server q)"
  shows "1 < sl_n_socks c'" and "tk_state (sl_socks c' 1) = TCP_SOCK_STATE_SYN_RECV" and "mt_listener_id (sl_meta c' 1) = 0"
    and "ls_active (sl_listeners c' 0) = 1" "ls_ready_used (sl_listeners c' 0) = 0" "ls_backlog_len (sl_listeners c' 0) = 2"
proof -
  note pr = ctl_rx_parse_of [OF q flags_masked(1)]
  obtain ports where l: "tcp_listener_lookup demo_server 9 80 = (0, demo_server\<lparr>sl_ports := ports\<rparr>)" using demo_listener by blast
  define c1 where "c1 = demo_server\<lparr>sl_ports := ports\<rparr>"
  obtain c0 where al: "tcp_sock_alloc demo_env c1 0 0 0 0 = (Some 1, c0)" and c0: "sl_flows c0 = tcp_flow_tbl_init" "ctl_room c0" "timer_free demo_env c0 1"
    "sl_listeners c0 = sl_listeners demo_server" "tk_id (sl_socks c0 1) = 1" "sl_n_socks c0 = 2"
    using demo_alloc [OF c1_def] by blast
  define core where "core = (if ucast (ld16 q 52) \<ge> sl_n_fp_cores demo_server then 0 else ld16 q 52)"
  define rx where "rx = ctl_rx_parse q core"
  have rx: "rc_local_ip rx = 9" "rc_local_port rx = 80" "rc_flags rx = syn_flags a" using a by (simp_all add: rx_def pr)
  have fl: "syn_flags a AND TAS_TCP_SYN \<noteq> 0" "syn_flags a AND TAS_TCP_ACK = 0" by (simp_all add: syn_flags_def)
  have none: "tcp_flow_lookup demo_server i1 i2 i3 i4 = None" "tcp_flow_lookup c1 i1 i2 i3 i4 = None" for i1 i2 i3 i4
    using demo_flows(2) by (simp_all add: empty_lookup c1_def)
  have lst: "tk_id (sl_socks c1 0) = 0" "ls_active (sl_listeners c1 0) = 1" "ls_backlog_used (sl_listeners c1 0) = 0" "ls_backlog_len (sl_listeners c1 0) = 2"
    by (simp_all add: c1_def demo_server_def demo_host_def tcp_sock_zero_def)
  have sy: "tcp_rx_listen_syn demo_env c1 0 rx = child_open demo_env c0 0 rx 1"
    unfolding tcp_rx_listen_syn_def Let_def lst none al by simp
  have e: "c' = snd (child_open demo_env c0 0 rx 1)"
    unfolding c' ctl_rx_def Let_def core_def [symmetric] rx_def [symmetric] rx l none using fl by (simp add: sy flip: c1_def)
  have ok: "ID_INVALID \<in> set (sl_flows c0 (sock_bucket (child_init c0 rx (sl_socks c0 1))))" by (simp add: c0 demo_flows)
  note o = child_open_ok [OF ok c0(2,3), of 0, folded e]
  show "1 < sl_n_socks c'" "tk_state (sl_socks c' 1) = TCP_SOCK_STATE_SYN_RECV" "mt_listener_id (sl_meta c' 1) = 0" using o c0 by simp_all
  show "ls_active (sl_listeners c' 0) = 1" "ls_ready_used (sl_listeners c' 0) = 0" "ls_backlog_len (sl_listeners c' 0) = 2"
    using o c0 by (simp_all add: demo_server_def)
qed

end
