(* ===== verification/Tcp_Slow_Props.thy ===== *)
theory Tcp_Slow_Props
  imports Tcp_Handshake_Demo Tcp_Props
begin

unbundle bit_operations_syntax

text \<open>
  Properties of the TCP slow path: safety of its tables in every reachable state, agreement with the
  lookup of the fast path, the handshake between two hosts, and the behaviour on errors.
\<close>

section \<open>Reachable states\<close>

text \<open>A booted slow path; with one application that has posted two requests; after the first request.\<close>

definition demo_actx :: tcp_app_context_slow where
  "demo_actx = \<lparr>ax_id = 0,
     ax_app_slow_q = (\<lparr>dq_head = 0, dq_nelems = 4, dq_elsize = 64, dq_off = 0, dq_entries = 0\<rparr>,
       \<lambda>p. if p = 0 then \<lparr>qs_type = TCP_QUEUE_NEW_SOCK_REQ, qs_data = A_new_sock_req 7\<rparr>
       else if p = 64 then \<lparr>qs_type = TCP_QUEUE_CONNECT_REQ,
         qs_data = A_connect_req \<lparr>cq_sock_id = 0, cq_remote_ip = 9, cq_remote_port = 80, cq_opaque = 7\<rparr>\<rparr>
       else \<lparr>qs_type = 0, qs_data = A_raw\<rparr>),
     ax_slow_app_q = (demo_sl_ring, \<lambda>_. \<lparr>qs_type = 0, qs_data = A_raw\<rparr>), ax_app_bump_qs = (\<lambda>_. 0)\<rparr>"

definition demo_slow0 :: tcp_slow_context where
  "demo_slow0 = the (tcp_init True tm_two 0 (demo_host 5 tcp_sock_zero))"

definition demo_slow1 :: tcp_slow_context where
  "demo_slow1 = demo_slow0\<lparr>sl_apps := (\<lambda>_. \<lparr>ap_id = 0, ap_n_ctxs = 1, ap_next_ctx = 0, ap_ctxs = (\<lambda>_. demo_actx)\<rparr>), sl_n_apps := 1\<rparr>"

definition demo_slow2 :: tcp_slow_context where
  "demo_slow2 = actx_dequeue (0, 0) (app_msg demo_env (0, 0) (snd (ax_app_slow_q (get_actx demo_slow1 (0, 0))) 0) demo_slow1)"

definition demo_slow3 :: tcp_slow_context where
  "demo_slow3 = actx_dequeue (0, 0) (app_msg demo_env (0, 0) (snd (ax_app_slow_q (get_actx demo_slow2 (0, 0))) 64) demo_slow2)"

lemma demo_reach1: "slow_reach demo_slow1"
proof -
  have "tcp_init True tm_two 0 (demo_host 5 tcp_sock_zero) = Some demo_slow0" by (simp add: demo_slow0_def tcp_init_def tomgr_init_def)
  then have "slow_reach demo_slow0" by (rule slow_reach.init)
  moreover have "shared_change demo_slow0 demo_slow1"
    unfolding shared_change_def demo_slow1_def
    by (rule exI [where x = "sl_socks demo_slow0"])
      (intro exI [where x = "sl_next_app demo_slow0"] exI [where x = "sl_fast_sig_qs demo_slow0"] exI [where x = "sl_fast_pkt_qs demo_slow0"]
        exI [where x = "sl_sig_q demo_slow0"] exI [where x = "sl_pkt_q demo_slow0"] exI conjI; force)
  ultimately show ?thesis by (rule slow_reach.step [OF _ slow_step.shared])
qed

lemma demo_slow1_at:
  "get_actx demo_slow1 (0, 0) = demo_actx" "sl_n_socks demo_slow1 = 0" "sl_apps demo_slow1 0 = \<lparr>ap_id = 0, ap_n_ctxs = 1, ap_next_ctx = 0, ap_ctxs = (\<lambda>_. demo_actx)\<rparr>"
  by (simp_all add: demo_slow1_def demo_slow0_def tcp_init_def tomgr_init_def get_actx_def)

lemma apps_upd:
  "sl_apps (upd_sock x f c) = sl_apps c" "sl_apps (upd_meta x g c) = sl_apps c"
  by (simp_all add: upd_sock_def upd_meta_def)

lemma demo_req1: "snd (ax_app_slow_q (get_actx demo_slow1 (0, 0))) 0 = \<lparr>qs_type = TCP_QUEUE_NEW_SOCK_REQ, qs_data = A_new_sock_req 7\<rparr>"
  by (simp add: demo_slow1_at demo_actx_def)

lemma demo_slow2_at:
  "sl_n_socks demo_slow2 = 1" "tk_state (sl_socks demo_slow2 0) = TCP_SOCK_STATE_INIT"
  "ax_app_slow_q (get_actx demo_slow2 (0, 0)) = snd (queue_dequeue (fst (ax_app_slow_q demo_actx)) (snd (ax_app_slow_q demo_actx)))"
  unfolding demo_slow2_def demo_req1
  by (simp_all add: actx_dequeue_def app_msg_def app_new_sock_def tcp_sock_alloc_def demo_slow1_at(2,3) demo_env_def Let_def app_put_def
      queue_put_cases demo_actx_def demo_sl_ring_def get_actx_def upd_actx_def apps_upd word_le_nat_alt)

lemma demo_reach3: "slow_reach demo_slow3"
proof -
  have "slow_step demo_slow1 demo_slow2" unfolding demo_slow2_def
    by (rule slow_step.app [OF _ refl]) (simp_all add: demo_slow1_at demo_actx_def queue_head_def req_ok_def)
  then have r2: "slow_reach demo_slow2" by (rule slow_reach.step [OF demo_reach1])
  have "slow_step demo_slow2 demo_slow3" unfolding demo_slow3_def
    by (rule slow_step.app [OF _ refl])
      (simp_all add: demo_slow2_at demo_actx_def queue_head_def queue_dequeue_def ring_advance_def req_ok_def)
  then show ?thesis by (rule slow_reach.step [OF r2])
qed

lemma listener_lookup_listens:
  assumes "tcp_listener_lookup c lip port = (x, c')" and "x \<noteq> ID_INVALID"
  shows "tk_state (sl_socks c x) = TCP_SOCK_STATE_LISTEN \<and> (tk_local_ip (sl_socks c x) = 0 \<or> tk_local_ip (sl_socks c x) = lip)"
  using assms by (auto simp: tcp_listener_lookup_def Let_def listener_accepts_def find_Some_iff split: if_splits option.splits)



text \<open>
  C28: the slow path and the fast path agree on which socket a packet belongs to. The fast path's
  \<^verbatim>\<open>sock_find\<close>, run on the maps that a reachable slow path shares with it, returns what the slow
  path's own lookup returns for the addresses and ports of the packet.
\<close>

theorem tcp_flow_lookup_agrees:
  assumes "slow_reach c" and "tc_socks f = sl_socks c" and "tc_bkts f = sl_flows c" and "tc_nbkts f = TCP_FLOW_BUCKETS"
    and "tc_nsocks f = MAX_SOCKETS"
  shows "sock_find f = tcp_flow_lookup c (ip_dst (tc_pkt f)) (tcp_dest (tc_pkt f)) (ip_src (tc_pkt f)) (tcp_src (tc_pkt f))"
  using sock_find_lookup [OF slow_reach_wf [OF assms(1)] assms(2-5)] .

definition demo_fast :: tcp_ctx where
  "demo_fast = demo_ctx\<lparr>tc_socks := sl_socks demo_slow3, tc_bkts := sl_flows demo_slow3, tc_nbkts := TCP_FLOW_BUCKETS, tc_nsocks := MAX_SOCKETS\<rparr>"

theorem tcp_flow_lookup_agrees_witness: "sock_find demo_fast = tcp_flow_lookup demo_slow3 1 80 2 81"
proof -
  have "tc_pkt demo_fast = demo_pkt" by (simp add: demo_fast_def demo_ctx_def)
  then show ?thesis using tcp_flow_lookup_agrees [OF demo_reach3, of demo_fast] demo_fields by (simp add: demo_fast_def)
qed

section \<open>Opening a connection\<close>

text \<open>
  C29: the three-way handshake. When \<^verbatim>\<open>connect\<close> succeeds on host A, the SYN it sends reaches host B and
  opens a child of a listener there, the child's SYN-ACK reaches A and A's ACK reaches B, then A's
  socket is established and B's child is ready to be accepted, each with the other's addresses. The
  next sequence number each side sends is the one the other expects, nothing is outstanding, each
  side's send window is the receive window the other advertised, and they agree on the use of ECN.
\<close>

theorem tcp_handshake:
  assumes wa: "slow_wf ca" and sa: "sa < sl_n_socks ca" "\<not> connected (sl_socks ca sa)"
    and free: "tcp_flow_lookup ca (tk_local_ip (sl_socks ca sa)) (tk_local_port (sl_socks ca sa)) rip rport = None"
    and connect: "sock_connect_start ev1 ca sa rip rport = (0, ca1)" and syn: "ctl_sent ca ca1 = Some p1" "carried p1 q1"
    and wb: "slow_wf cb" and listen: "ctl_rx ev2 cb q1 = (r2, cb1)"
    and child: "sb = sl_n_socks cb" "sb < sl_n_socks cb1" "tk_state (sl_socks cb1 sb) = TCP_SOCK_STATE_SYN_RECV"
    and synack: "ctl_sent cb cb1 = Some p2" "carried p2 q2"
    and room: "ls_active (sl_listeners cb1 (mt_listener_id (sl_meta cb1 sb))) \<noteq> 0"
      "ls_ready_used (sl_listeners cb1 (mt_listener_id (sl_meta cb1 sb))) < ls_backlog_len (sl_listeners cb1 (mt_listener_id (sl_meta cb1 sb)))"
    and active: "ctl_rx ev3 ca1 q2 = (r3, ca2)" and ack: "ctl_sent ca1 ca2 = Some p3" "carried p3 q3"
    and finish: "ctl_rx ev4 cb1 q3 = (r4, cb2)"
  shows "tk_state (sl_socks ca2 sa) = TCP_SOCK_STATE_ESTABLISHED \<and> tk_state (sl_socks cb2 sb) = TCP_SOCK_STATE_ACCEPT_PENDING \<and>
    flow_matches (sl_socks cb2 sb) rip rport (tk_local_ip (sl_socks ca2 sa)) (tk_local_port (sl_socks ca2 sa)) \<and>
    flow_matches (sl_socks ca2 sa) (tk_local_ip (sl_socks ca sa)) (tk_local_port (sl_socks ca sa)) rip rport \<and>
    tk_tx_seq (sl_socks ca2 sa) = tk_rx_seq (sl_socks cb2 sb) \<and> tk_rx_seq (sl_socks ca2 sa) = tk_tx_seq (sl_socks cb2 sb) \<and>
    tk_tx_pending (sl_socks ca2 sa) = 0 \<and> tk_tx_pending (sl_socks cb2 sb) = 0 \<and>
    tk_tx_remote_avail (sl_socks ca2 sa) = ucast (tcp_sock_rx_wnd (sl_socks cb2 sb)) \<and>
    tk_tx_remote_avail (sl_socks cb2 sb) = ucast (tcp_sock_rx_wnd (sl_socks ca2 sa)) \<and>
    (tk_flags (sl_socks ca2 sa) AND TCP_SOCK_FLAG_ECN \<noteq> 0 \<longleftrightarrow> tk_flags (sl_socks cb2 sb) AND TCP_SOCK_FLAG_ECN \<noteq> 0)"
proof -
  define a where "a = connect_sock ca rip rport (sl_socks ca sa)"
  have ida: "tk_id a = sa" using slow_wf_id [OF wa sa(1)] by (simp add: a_def connect_sock_def)
  have af: "tk_state a = TCP_SOCK_STATE_SYN_SENT" "tk_tx_seq a = 1" "tk_tx_pending a = 1" "tk_remote_ip a = rip" "tk_remote_port a = rport"
    "tk_local_ip a = tk_local_ip (sl_socks ca sa)" "tk_local_port a = tk_local_port (sl_socks ca sa)"
    by (simp_all add: a_def connect_sock_def)
  note cs = connect_start_sent [OF connect, folded a_def]
  have a1: "sl_socks ca1 sa = a" using cs(1) by simp
  have wa1: "slow_wf ca1" using connect_start_wf [OF wa sa, of ev1 rip rport] connect by simp
  from cs(3) syn obtain p where q1: "carried (ctl_pkt_of a (syn_flags a) p) q1" by auto
  obtain b p' where b: "child_of a b" and sob: "sl_socks cb1 = (sl_socks cb)(sb := b)" and idb: "tk_id b = sb"
    and sentb: "ctl_sent cb cb1 = Some (ctl_pkt_of b (synack_flags b) p')" and nb: "\<forall>y. y < sl_n_socks cb1 \<longrightarrow> y = sb \<or> y < sl_n_socks cb"
    and noneb: "tcp_flow_lookup cb (tk_remote_ip a) (tk_remote_port a) (tk_local_ip a) (tk_local_port a) = None"
    by (rule syn_opens_child [OF listen q1 child])
  have q2: "carried (ctl_pkt_of b (synack_flags b) p') q2" using sentb synack by simp
  have fa: "tcp_flow_lookup ca1 (tk_local_ip a) (tk_local_port a) (tk_remote_ip a) (tk_remote_port a) = Some sa"
    by (rule lookup_opened [OF wa wa1 _ cs(1)]) (use free cs(2) sa af in \<open>simp_all add: connected_def flow_matches_def\<close>)
  obtain s p'' where p3: "p3 = ctl_pkt_of s TAS_TCP_ACK p''" and s: "same_conn (sl_socks ca2 sa) s" "tk_state s = TCP_SOCK_STATE_ESTABLISHED"
    "tk_tx_seq s = 2" "tk_tx_pending s = 0" "tk_rx_seq s = 2" "tk_tx_remote_avail s = ucast (tcp_sock_rx_wnd b)"
    "tk_flags s AND TCP_SOCK_FLAG_ECN \<noteq> 0 \<longleftrightarrow> tk_flags b AND TCP_SOCK_FLAG_ECN \<noteq> 0"
    "tk_local_ip s = tk_remote_ip b" "tk_local_port s = tk_remote_port b" "tk_remote_ip s = tk_local_ip b" "tk_remote_port s = tk_local_port b"
    by (rule synack_establishes [OF active q2, of sa p3]) (use b a1 af fa ack in simp_all)
  have wb1: "slow_wf cb1" using ctl_rx_wf [OF wb, of ev2 q1] listen by simp
  have bf: "tk_state b = TCP_SOCK_STATE_SYN_RECV" "tk_local_ip b = rip" "tk_local_port b = rport" "tk_remote_ip b = tk_local_ip a"
    "tk_remote_port b = tk_local_port a" "tk_tx_seq b = 1" "tk_tx_pending b = 1" "tk_rx_seq b = 2" using b af by (simp_all add: child_of_def)
  have b1: "sl_socks cb1 sb = b" using sob by simp
  have fb: "tcp_flow_lookup cb1 (tk_remote_ip s) (tk_remote_port s) (tk_local_ip s) (tk_local_port s) = Some sb"
    by (rule lookup_opened [OF wb wb1 _ sob nb [rule_format] child(2)]) (use noneb s bf af in \<open>simp_all add: connected_def flow_matches_def\<close>)
  have "same_conn (sl_socks cb2 sb) (b\<lparr>tk_state := TCP_SOCK_STATE_ACCEPT_PENDING, tk_tx_seq := 2, tk_tx_pending := 0,
    tk_tx_remote_avail := ucast (tcp_sock_rx_wnd s)\<rparr>)"
    using ack_readies_child [OF finish ack(2) [unfolded p3] s(3,5) _ _ _ _ fb room] b1 idb bf by simp
  then show ?thesis using s bf af by (simp add: same_conn_def flow_matches_def tcp_sock_rx_wnd_def)
qed


theorem tcp_handshake_witness:
  "\<exists>ca1 ca2 cb1 cb2 p1 p2 p3. sock_connect_start demo_env demo_client 0 9 80 = (0, ca1) \<and> ctl_sent demo_client ca1 = Some p1 \<and>
     cb1 = snd (ctl_rx demo_env demo_server p1) \<and> ctl_sent demo_server cb1 = Some p2 \<and> ca2 = snd (ctl_rx demo_env ca1 p2) \<and>
     ctl_sent ca1 ca2 = Some p3 \<and> cb2 = snd (ctl_rx demo_env cb1 p3) \<and>
     tk_state (sl_socks ca2 0) = TCP_SOCK_STATE_ESTABLISHED \<and> tk_state (sl_socks cb2 1) = TCP_SOCK_STATE_ACCEPT_PENDING \<and>
     tk_tx_seq (sl_socks ca2 0) = tk_rx_seq (sl_socks cb2 1) \<and> tk_rx_seq (sl_socks ca2 0) = tk_tx_seq (sl_socks cb2 1)"
proof -
  define ca1 where "ca1 = snd (sock_connect_start demo_env demo_client 0 9 80)"
  have bk: "ID_INVALID \<in> set (sl_flows demo_client b)" for b by (simp add: demo_flows)
  have rd: "ctl_room2 demo_client" "timer_free demo_env demo_client 0" unfolding demo_client_def by (rule demo_host_ready)+
  have con: "sock_connect_start demo_env demo_client 0 9 80 = (0, ca1)" and rm: "ctl_room ca1"
    using connect_start_ok [OF bk rd, of 9 80] by (simp_all add: ca1_def prod_eq_iff)
  define a where "a = connect_sock demo_client 9 80 (sl_socks demo_client 0)"
  note cs = connect_start_sent [OF con, folded a_def]
  obtain p where p1: "ctl_sent demo_client ca1 = Some (ctl_pkt_of a (syn_flags a) p)" using cs(3) by blast
  have a: "tk_remote_ip a = 9" "tk_remote_port a = 80" "tk_state a = TCP_SOCK_STATE_SYN_SENT" "tk_tx_seq a = 1" "tk_tx_pending a = 1"
    by (simp_all add: a_def connect_sock_def)
  have self: "carried q q" for q by (simp add: carried_def)
  obtain r2 cb1 where l: "ctl_rx demo_env demo_server (ctl_pkt_of a (syn_flags a) p) = (r2, cb1)" by (rule prod.exhaust)
  have cb1: "cb1 = snd (ctl_rx demo_env demo_server (ctl_pkt_of a (syn_flags a) p))" by (simp add: l)
  note ch = demo_server_child [OF self a(1,2) cb1]
  have n: "1 = sl_n_socks demo_server" by (simp add: demo_server_def demo_host_def)
  obtain b p' where b: "child_of a b" and p2: "ctl_sent demo_server cb1 = Some (ctl_pkt_of b (synack_flags b) p')"
    by (rule syn_opens_child [OF l self n ch(1,2)])
  have a1: "sl_socks ca1 0 = a" using cs(1) by simp
  have sa: "0 < sl_n_socks demo_client" "\<not> connected (sl_socks demo_client 0)" by (simp_all add: demo_client_def demo_host_def connected_def)
  have free: "tcp_flow_lookup demo_client i1 i2 i3 i4 = None" for i1 i2 i3 i4 by (simp add: empty_lookup demo_flows)
  obtain r3 ca2 where ac: "ctl_rx demo_env ca1 (ctl_pkt_of b (synack_flags b) p') = (r3, ca2)" by (rule prod.exhaust)
  have w1: "slow_wf ca1" using connect_start_wf [OF demo_client_wf sa, of demo_env 9 80] con by simp
  have fa: "tcp_flow_lookup ca1 (tk_local_ip a) (tk_local_port a) (tk_remote_ip a) (tk_remote_port a) = Some 0"
    by (rule lookup_opened [OF demo_client_wf w1 free cs(1)]) (use cs(2) sa a in \<open>simp_all add: connected_def flow_matches_def\<close>)
  obtain p3 where p3: "ctl_sent ca1 ca2 = Some p3"
    using synack_acked [OF ac self, of 0] b a1 a fa rm by auto
  obtain r4 cb2 where fi: "ctl_rx demo_env cb1 p3 = (r4, cb2)" by (rule prod.exhaust)
  note hs = tcp_handshake [OF demo_client_wf sa free con p1 self demo_server_wf l n ch(1,2) p2 self _ _ ac p3 self fi]
  show ?thesis
    by (intro exI [where x = ca1] exI [where x = ca2] exI [where x = cb1] exI [where x = cb2] exI [where x = "ctl_pkt_of a (syn_flags a) p"]
        exI [where x = "ctl_pkt_of b (synack_flags b) p'"] exI [where x = p3]) (use con p1 l p2 ac p3 fi hs ch in simp)
qed


section \<open>Giving up a connection attempt\<close>

text \<open>
  The timeouts of a socket that is connecting, among other steps that leave its state and its retry
  counter alone. A timer entry is free at every timeout: the expired one was just popped.
\<close>

inductive syn_timeouts :: "u32 \<Rightarrow> nat \<Rightarrow> tcp_slow_context \<Rightarrow> tcp_slow_context \<Rightarrow> bool" for x where
  start: "syn_timeouts x 0 c c"
| other: "syn_timeouts x n c c1 \<Longrightarrow> slow_wf c2 \<Longrightarrow> x < sl_n_socks c2 \<Longrightarrow> tk_state (sl_socks c2 x) = tk_state (sl_socks c1 x) \<Longrightarrow>
    mt_retx_kind (sl_meta c2 x) = mt_retx_kind (sl_meta c1 x) \<Longrightarrow> mt_retx_left (sl_meta c2 x) = mt_retx_left (sl_meta c1 x) \<Longrightarrow> syn_timeouts x n c c2"
| expire: "syn_timeouts x n c c1 \<Longrightarrow> tk_state (sl_socks c1 x) = TCP_SOCK_STATE_SYN_SENT \<Longrightarrow>
    snd (tomgr_insert (sl_tomgr c1) TCP_TO_RETX (ev_retx ev) (ucast x)) \<noteq> None \<Longrightarrow> syn_timeouts x (Suc n) c (snd (sock_on_timeout ev c1 x))"

text \<open>Either still trying, with the retries that are left, or back in the initial state.\<close>

definition syn_trying :: "u32 \<Rightarrow> nat \<Rightarrow> tcp_slow_context \<Rightarrow> bool" where
  "syn_trying x n c \<longleftrightarrow> tk_state (sl_socks c x) = TCP_SOCK_STATE_SYN_SENT \<and> mt_retx_kind (sl_meta c x) = TCP_RETX_SYN \<and>
     n \<le> unat TCP_RETX_RETRIES \<and> unat (mt_retx_left (sl_meta c x)) = unat TCP_RETX_RETRIES - n"

lemma retx_tx_proj:
  assumes "sock_retx_tx c x = (r, c')"
  shows "sl_socks c' = sl_socks c" "sl_meta c' = sl_meta c" "sl_n_socks c' = sl_n_socks c" "sl_tomgr c' = sl_tomgr c"
proof -
  have c': "c' = snd (sock_retx_tx c x)" by (simp add: assms)
  show "sl_socks c' = sl_socks c" "sl_meta c' = sl_meta c" "sl_n_socks c' = sl_n_socks c" "sl_tomgr c' = sl_tomgr c"
    unfolding c' by (simp_all add: sock_retx_tx_def Let_def tcp_ctl_tx_reply_def split: option.splits)
qed

lemma on_timeout_n: "sl_n_socks (snd (sock_on_timeout ev c x)) = sl_n_socks c"
proof -
  obtain r1 c1 where tx: "sock_retx_tx c x = (r1, c1)" by (rule prod.exhaust)
  define c2 where "c2 = upd_sock_meta x (\<lambda>m. m\<lparr>mt_retx_left := mt_retx_left m - 1\<rparr>) c1"
  obtain r3 c3 where sc: "sock_retx_sched ev c2 x = (r3, c3)" by (rule prod.exhaust)
  have "sl_n_socks c3 = sl_n_socks c2" using retx_sched_proj(1) [of ev c2 x] unfolding sc by simp
  then have "sl_n_socks c3 = sl_n_socks c" using retx_tx_proj(3) [OF tx] by (simp add: c2_def)
  moreover have "sl_n_socks (sock_retx_expire d x) = sl_n_socks d" for d by (simp add: sock_retx_expire_def Let_def)
  ultimately show ?thesis using retx_tx_proj(3) [OF tx] by (simp add: sock_on_timeout_def tx Let_def sc flip: c2_def)
qed

lemma on_timeout_trying:
  assumes id: "tk_id (sl_socks c x) = x" and t: "syn_trying x n c"
    and fr: "snd (tomgr_insert (sl_tomgr c) TCP_TO_RETX (ev_retx ev) (ucast x)) \<noteq> None"
  shows "syn_trying x (Suc n) (snd (sock_on_timeout ev c x)) \<or>
    (tk_state (sl_socks (snd (sock_on_timeout ev c x)) x) = TCP_SOCK_STATE_INIT \<and> Suc n \<le> Suc (unat TCP_RETX_RETRIES))"
proof -
  obtain r1 c1 where tx: "sock_retx_tx c x = (r1, c1)" by (rule prod.exhaust)
  note p = retx_tx_proj [OF tx]
  have ex: "tk_state (sl_socks (sock_retx_expire d x) x) = TCP_SOCK_STATE_INIT" if "tk_id (sl_socks d x) = x" "mt_retx_kind (sl_meta d x) = TCP_RETX_SYN" for d
    using that connect_fail_proj(10) [OF that(1)] by (simp add: sock_retx_expire_def)
  define c2 where "c2 = upd_sock_meta x (\<lambda>m. m\<lparr>mt_retx_left := mt_retx_left m - 1\<rparr>) c1"
  obtain tm e where i: "tomgr_insert (sl_tomgr c) TCP_TO_RETX (ev_retx ev) (ucast x) = (tm, Some e)" using fr by (metis option.exhaust prod.collapse)
  define c3 where "c3 = upd_sock_meta x (\<lambda>m. m\<lparr>mt_timer := Some e\<rparr>) (c2\<lparr>sl_tomgr := tm\<rparr>)"
  have sc: "sock_retx_sched ev c2 x = (0, c3)" using p by (simp add: sock_retx_sched_def c2_def i c3_def)
  have c3: "sl_socks c3 = sl_socks c" "mt_retx_kind (sl_meta c3 x) = mt_retx_kind (sl_meta c x)" "mt_retx_left (sl_meta c3 x) = mt_retx_left (sl_meta c x) - 1"
    using p id by (simp_all add: c3_def c2_def)
  show ?thesis
  proof (cases "mt_retx_left (sl_meta c x) = 0 \<or> r1 \<noteq> 0")
    case True
    then show ?thesis using ex [of c] ex [of c1] t id p by (auto simp: sock_on_timeout_def tx syn_trying_def)
  next
    case False
    then have "snd (sock_on_timeout ev c x) = c3" using id by (simp add: sock_on_timeout_def tx sc flip: c2_def)
    moreover have "syn_trying x (Suc n) c3"
      using t False c3 unfolding syn_trying_def by (auto simp: unat_minus_one unat_gt_0 word_unat_eq_iff)
    ultimately show ?thesis by simp
  qed
qed

lemma syn_timeouts_inv:
  assumes "syn_timeouts x n c c'" and "slow_wf c" and "x < sl_n_socks c" and "syn_trying x 0 c"
  shows "slow_wf c' \<and> x < sl_n_socks c' \<and> (syn_trying x n c' \<or> tk_state (sl_socks c' x) = TCP_SOCK_STATE_INIT \<and> n \<le> Suc (unat TCP_RETX_RETRIES))"
  using assms
proof (induction rule: syn_timeouts.induct)
  case (other n c c1 c2)
  then show ?case by (auto simp: syn_trying_def)
next
  case (expire n c c1 ev)
  then have i: "slow_wf c1" "x < sl_n_socks c1" "syn_trying x n c1" by auto
  from on_timeout_trying [OF slow_wf_id [OF i(1,2)] i(3) expire.hyps(3)] on_timeout_wf [OF i(1,2), of ev] i
  show ?case by (auto simp: on_timeout_n)
qed auto

text \<open>
  C30: a connection attempt that gets no answer ends. Once the SYN timer is armed, the socket sees at
  most four timeouts: while fewer have passed it is still in \<^verbatim>\<open>SYN_SENT\<close> with one retry less after
  each, and after the fourth, or earlier when a SYN cannot be sent again, it is back in \<^verbatim>\<open>INIT\<close> and
  no flow lookup finds it.
\<close>

theorem tcp_connect_gives_up:
  assumes "slow_wf c" and "x < sl_n_socks c" and "tk_state (sl_socks c x) = TCP_SOCK_STATE_SYN_SENT"
    and "tcp_timeout_arm ev c x TCP_RETX_SYN = (0, c1)" and "syn_timeouts x n c1 c2"
  shows "n \<le> unat TCP_RETX_RETRIES + 1 \<and>
    (if tk_state (sl_socks c2 x) = TCP_SOCK_STATE_SYN_SENT
     then n \<le> unat TCP_RETX_RETRIES \<and> unat (mt_retx_left (sl_meta c2 x)) = unat TCP_RETX_RETRIES - n
     else tk_state (sl_socks c2 x) = TCP_SOCK_STATE_INIT \<and> (\<forall>lip lport rip rport. tcp_flow_lookup c2 lip lport rip rport \<noteq> Some x))"
proof -
  note id = slow_wf_id [OF assms(1,2)]
  have w1: "slow_wf c1" "sl_n_socks c1 = sl_n_socks c" "sl_socks c1 = sl_socks c"
    using timeout_arm_wf [OF assms(1,2), of ev TCP_RETX_SYN] timeout_arm_eq [OF assms(4)] assms(4) by simp_all
  have m1: "mt_retx_kind (sl_meta c1 x) = TCP_RETX_SYN" "mt_retx_left (sl_meta c1 x) = TCP_RETX_RETRIES"
    using assms(4) id by (auto simp: tcp_timeout_arm_def sock_retx_sched_def Let_def split: prod.splits if_splits)
  have "syn_trying x 0 c1" using assms(3) w1 m1 by (simp add: syn_trying_def)
  note i = syn_timeouts_inv [OF assms(5) w1(1) _ this]
  have "tcp_flow_lookup c2 lip lport rip rport \<noteq> Some x" if "tk_state (sl_socks c2 x) = TCP_SOCK_STATE_INIT" for lip lport rip rport
    using flow_lookup_bound(2) [of c2 lip lport rip rport x] i assms(2) w1(2) that by auto
  then show ?thesis using i assms(2) w1(2) by (auto simp: syn_trying_def)
qed

lemma demo_syn_wf:
  assumes "sock_connect_start demo_env demo_client 0 9 80 = (0, c)"
  shows "slow_wf c" "sl_n_socks c = 1" "tk_state (sl_socks c 0) = TCP_SOCK_STATE_SYN_SENT"
proof -
  have sa: "0 < sl_n_socks demo_client" "\<not> connected (sl_socks demo_client 0)" "sl_n_socks demo_client = 1"
    by (simp_all add: demo_client_def demo_host_def connected_def)
  show "slow_wf c" using connect_start_wf [OF demo_client_wf sa(1,2), of demo_env 9 80] assms by simp
  show "sl_n_socks c = 1" "tk_state (sl_socks c 0) = TCP_SOCK_STATE_SYN_SENT"
    using connect_start_sent(1,2) [OF assms] sa(3) by (simp_all add: connect_sock_def)
qed

text \<open>The connecting client, before its timer is armed.\<close>

definition demo_unarmed :: "tcp_slow_context \<Rightarrow> tcp_slow_context" where
  "demo_unarmed c = c\<lparr>sl_tomgr := sl_tomgr demo_client, sl_meta := sl_meta demo_client\<rparr>"

lemma demo_unarmed_wf:
  assumes "sock_connect_start demo_env demo_client 0 9 80 = (0, c)"
  shows "slow_wf (demo_unarmed c)"
proof -
  note w = demo_syn_wf [OF assms]
  have "timers_wf 1 (sl_tomgr demo_client)" unfolding demo_client_def by (rule demo_timers)
  moreover have "mt_listener_id (sl_meta demo_client x) = ID_INVALID" for x by (simp add: demo_client_def demo_host_def)
  ultimately show ?thesis using w by (simp add: demo_unarmed_def slow_wf_def lst_wf_def one_word)
qed

theorem tcp_connect_gives_up_witness:
  "\<exists>c c1 c2. sock_connect_start demo_env demo_client 0 9 80 = (0, c) \<and> tcp_timeout_arm demo_env (demo_unarmed c) 0 TCP_RETX_SYN = (0, c1) \<and>
     syn_timeouts 0 1 c1 c2 \<and> (tk_state (sl_socks c2 0) = TCP_SOCK_STATE_INIT \<or> unat (mt_retx_left (sl_meta c2 0)) = 2)"
proof -
  have rd: "ctl_room2 demo_client" "timer_free demo_env demo_client 0" unfolding demo_client_def by (rule demo_host_ready)+
  have "ID_INVALID \<in> set (sl_flows demo_client b)" for b by (simp add: demo_flows)
  from connect_start_ok(1) [OF this rd] obtain c where con: "sock_connect_start demo_env demo_client 0 9 80 = (0, c)"
    by (metis prod.collapse)
  note w = demo_syn_wf [OF con] demo_unarmed_wf [OF con]
  have un: "sl_n_socks (demo_unarmed c) = 1" "tk_state (sl_socks (demo_unarmed c) 0) = TCP_SOCK_STATE_SYN_SENT" "0 < sl_n_socks (demo_unarmed c)"
    using w by (simp_all add: demo_unarmed_def)
  have fr: "snd (tomgr_insert (sl_tomgr demo_client) TCP_TO_RETX (ev_retx demo_env) (ucast (0 :: u32))) \<noteq> None"
    using rd(2) by (simp add: timer_free_def)
  have "mt_timer (sl_meta demo_client x) = None" for x by (simp add: demo_client_def demo_host_def tcp_sock_meta_zero_def)
  then have "timer_free demo_env (demo_unarmed c) 0" using fr by (simp add: timer_free_def demo_unarmed_def)
  from timeout_arm_ok [OF this] obtain c1 where arm: "tcp_timeout_arm demo_env (demo_unarmed c) 0 TCP_RETX_SYN = (0, c1)" by (metis prod.collapse)
  have c1: "slow_wf c1" "sl_n_socks c1 = 1" "tk_state (sl_socks c1 0) = TCP_SOCK_STATE_SYN_SENT"
    using timeout_arm_wf [OF w(4) un(3), of demo_env TCP_RETX_SYN] timeout_arm_eq [OF arm] arm un by simp_all
  have tw: "timers_wf 1 (sl_tomgr demo_client)" unfolding demo_client_def by (rule demo_timers)
  define d where "d = c1\<lparr>sl_tomgr := sl_tomgr demo_client\<rparr>"
  have "syn_timeouts 0 0 c1 d"
    by (rule syn_timeouts.other [OF syn_timeouts.start]) (use c1 tw in \<open>simp_all add: d_def slow_wf_tomgr\<close>)
  then have st: "syn_timeouts 0 (Suc 0) c1 (snd (sock_on_timeout demo_env d 0))"
    by (rule syn_timeouts.expire) (use c1 fr in \<open>simp_all add: d_def\<close>)
  show ?thesis using tcp_connect_gives_up [OF w(4) un(3,2) arm st] con arm st by (auto split: if_splits)
qed

section \<open>Binding\<close>

text \<open>The first free port, if any, is free.\<close>

lemma find_free_port:
  assumes "tcp_bound_find_free c = f" and "f \<noteq> 0"
  shows "tp_nsocks (sl_bound c f) = 0"
proof -
  define xs where "xs = [MIN_PORT ..< MAX_PORT + 1]"
  show ?thesis using assms unfolding tcp_bound_find_free_def xs_def [symmetric] by (auto simp: find_Some_iff split: option.splits)
qed

text \<open>
  C40: \<^verbatim>\<open>bind\<close> does not reserve the port it binds. For a socket without a port, and while any port is
  free, a request for a valid port succeeds whether or not that port is already bound; the socket gets
  the requested port, but the reservation is made for the first free port instead, and the entry of
  the requested port stays as it was.
\<close>

theorem tcp_bind_reserves_other_port:
  assumes "bq_sock_id req < sl_n_socks c" and "tk_local_port (sl_socks c (bq_sock_id req)) = 0"
    and "MIN_PORT \<le> unat (bq_local_port req)" and "unat (bq_local_port req) \<le> MAX_PORT"
    and "tcp_bound_find_free c = f" and "f \<noteq> 0" and "f \<noteq> bq_local_port req" and "tp_sids (sl_bound c f) \<noteq> []" and "app_has_room c a"
  shows "\<exists>c'. app_bind c a req = (0, c') \<and> tk_local_port (sl_socks c' (bq_sock_id req)) = bq_local_port req \<and>
    sl_bound c' (bq_local_port req) = sl_bound c (bq_local_port req) \<and>
    tp_nsocks (sl_bound c' f) = 1 \<and> hd (tp_sids (sl_bound c' f)) = tk_id (sl_socks c (bq_sock_id req))"
proof -
  let ?x = "bq_sock_id req"
  define e where "e = (sl_bound c f)\<lparr>tp_sids := (tp_sids (sl_bound c f))[0 := tk_id (sl_socks c ?x)], tp_nsocks := 1, tp_next_sock := 0\<rparr>"
  define c1 where "c1 = upd_sock ?x (\<lambda>s. s\<lparr>tk_local_port := f\<rparr>) (upd_sock_meta ?x (\<lambda>m. m\<lparr>mt_auto_bound := 1\<rparr>) (c\<lparr>sl_bound := (sl_bound c)(f := e)\<rparr>))"
  have ins: "tcp_bound_insert c f (tk_id (sl_socks c ?x)) False = (0, c\<lparr>sl_bound := (sl_bound c)(f := e)\<rparr>)"
    using find_free_port [OF assms(5,6)] by (simp add: tcp_bound_insert_def port_insert_def e_def)
  have auto: "sock_autobind_port c ?x = (0, c1)"
    using assms(6) by (simp add: sock_autobind_port_def assms(5) ins c1_def)
  have c1: "sl_bound c1 = (sl_bound c)(f := e)" "sl_apps c1 = sl_apps c"
    by (simp_all add: c1_def upd_sock_def upd_sock_meta_def upd_meta_def)
  define c2 where "c2 = upd_sock ?x (\<lambda>s. s\<lparr>tk_local_ip := bq_local_ip req, tk_local_port := bq_local_port req\<rparr>)
     (if tk_local_ip (sl_socks c1 ?x) = 0 then snd (sock_autobind_ip c1 ?x) else c1)"
  have bs: "bind_sock c ?x (bq_local_ip req) (bq_local_port req) = (True, c2)"
    using assms(2) by (simp add: bind_sock_def auto sock_autobind_ip_def c2_def)
  have c2: "sl_bound c2 = (sl_bound c)(f := e)" "sl_apps c2 = sl_apps c" "tk_local_port (sl_socks c2 ?x) = bq_local_port req"
    using c1 by (simp_all add: c2_def upd_sock_def sock_autobind_ip_def)
  define c3 where "c3 = snd (app_put c2 a (A_bind_res \<lparr>bs_success = 1, bs_opaque = bq_opaque req\<rparr>) TCP_QUEUE_BIND_RES)"
  have "app_has_room c2 a" using assms(9) by (simp add: app_has_room_def get_actx_def c2)
  then have put: "app_put c2 a (A_bind_res \<lparr>bs_success = 1, bs_opaque = bq_opaque req\<rparr>) TCP_QUEUE_BIND_RES = (0, c3)"
    by (simp add: c3_def app_has_room_def app_put_def queue_tail_def queue_put_cases split: if_splits)
  have "app_bind c a req = (0, c3)" using assms(1,3,4,9) by (simp add: app_bind_def Let_def bs put)
  moreover have "sl_bound c3 = sl_bound c2" "sl_socks c3 = sl_socks c2" by (simp_all add: c3_def app_put_def upd_actx_def split: prod.splits)
  ultimately show ?thesis using c2 assms(7,8) by (simp add: e_def hd_conv_nth)
qed

definition demo_bind_req :: tcp_queue_bind_req where
  "demo_bind_req = \<lparr>bq_sock_id = 0, bq_local_port = 2000, bq_local_ip = 5, bq_opaque = 1\<rparr>"

definition demo_unbound :: tcp_slow_context where
  "demo_unbound = demo_host 5 (tcp_sock_zero\<lparr>tk_state := TCP_SOCK_STATE_INIT\<rparr>)"

lemma demo_first_free: "tcp_bound_find_free demo_unbound = 1002"
proof -
  have "[MIN_PORT ..< MAX_PORT + 1] = MIN_PORT # [Suc MIN_PORT ..< MAX_PORT + 1]" by (rule upt_conv_Cons) simp
  then show ?thesis unfolding tcp_bound_find_free_def by (simp only:) (simp add: demo_unbound_def demo_host_def tcp_port_tbl_init_def del: upt_Suc upt_rec_numeral)
qed

theorem tcp_bind_reserves_other_port_witness:
  "\<exists>c'. app_bind demo_unbound (0, 0) demo_bind_req = (0, c') \<and> tk_local_port (sl_socks c' 0) = 2000 \<and>
     tp_nsocks (sl_bound c' 2000) = 0 \<and> tp_nsocks (sl_bound c' 1002) = 1"
proof -
  have "bq_sock_id demo_bind_req < sl_n_socks demo_unbound" "tk_local_port (sl_socks demo_unbound (bq_sock_id demo_bind_req)) = 0"
    "tp_sids (sl_bound demo_unbound 1002) \<noteq> []" "app_has_room demo_unbound (0, 0)" "tp_nsocks (sl_bound demo_unbound 2000) = 0"
    by (simp_all add: demo_unbound_def demo_host_def demo_bind_req_def tcp_sock_zero_def tcp_port_tbl_init_def app_has_room_def get_actx_def
        queue_tail_def demo_sl_ring_def)
  then show ?thesis using tcp_bind_reserves_other_port [of demo_bind_req demo_unbound 1002 "(0, 0)"] demo_first_free by (auto simp: demo_bind_req_def)
qed

end
