(* ===== verification/Wait_Set.thy ===== *)
theory Wait_Set
  imports Prelude
begin

unbundle bit_operations_syntax

text \<open>
  The wait objects of the application libraries (\<^verbatim>\<open>udp_wait_*\<close> of \<^verbatim>\<open>udp_lib.c\<close>, \<^verbatim>\<open>tcp_wait_*\<close> of
  \<^verbatim>\<open>tcp_lib.c\<close>): the two libraries have the same structures and the same code around their own
  lookup of a socket, so the code stands here once, with the result of the lookup as an argument. The
  array of registered descriptors and the index in every entry keep each other's position; the
  object implements a finite map from descriptors to the events asked for.
\<close>

section \<open>Structures and operations\<close>

abbreviation LIB_MAX_SOCKETS :: nat where "LIB_MAX_SOCKETS \<equiv> 8192"
abbreviation SOCK_INACTIVE :: int where "SOCK_INACTIVE \<equiv> -1"

record wait_entry =
  we_events :: u32
  we_data :: u64
  we_index :: int
  we_sock :: "nat option"

record wait_obj =
  wt_ctx :: nat
  wt_nfds :: nat
  wt_sockfds :: "nat \<Rightarrow> nat"
  wt_entries :: "nat \<Rightarrow> wait_entry"

record wait_event =
  wv_sockfd :: nat
  wv_events :: u32
  wv_data :: u64

definition wait_entry_none :: wait_entry where
  "wait_entry_none = \<lparr>we_events = 0, we_data = 0, we_index = -1, we_sock = None\<rparr>"

text \<open>\<open>up\<close> tells whether the library is connected; \<open>ctx\<close> is \<^const>\<open>None\<close> for a null pointer.\<close>

definition wait_new :: "bool \<Rightarrow> bool \<Rightarrow> nat option \<Rightarrow> int + wait_obj" where
  "wait_new malloc_ok up ctx =
     (if \<not> up then Inl ENOTCONN
      else case ctx of None \<Rightarrow> Inl EINVAL
      | Some x \<Rightarrow> if \<not> malloc_ok then Inl ENOMEM
                 else Inr \<lparr>wt_ctx = x, wt_nfds = 0, wt_sockfds = (\<lambda>_. 0), wt_entries = (\<lambda>_. wait_entry_none)\<rparr>)"

text \<open>\<open>lk\<close> is what the lookup of the descriptor gives: an error number or the socket.\<close>

definition wait_add :: "int + nat \<Rightarrow> wait_obj \<Rightarrow> u32 \<Rightarrow> u64 \<Rightarrow> int + wait_obj" where
  "wait_add lk w events data =
     (case lk of Inl e \<Rightarrow> Inl e
      | Inr k \<Rightarrow>
        if we_index (wt_entries w k) \<noteq> -1 then Inl EEXIST
        else Inr (w\<lparr>wt_entries := (wt_entries w)(k := \<lparr>we_events = events, we_data = data, we_index = int (wt_nfds w), we_sock = Some k\<rparr>),
                    wt_sockfds := (wt_sockfds w)(wt_nfds w := k), wt_nfds := wt_nfds w + 1\<rparr>))"

definition wait_mod :: "int + nat \<Rightarrow> wait_obj \<Rightarrow> u32 \<Rightarrow> u64 \<Rightarrow> int + wait_obj" where
  "wait_mod lk w events data =
     (case lk of Inl e \<Rightarrow> Inl e
      | Inr k \<Rightarrow>
        if we_index (wt_entries w k) = -1 then Inl ENOENT
        else Inr (w\<lparr>wt_entries := (wt_entries w)(k := (wt_entries w k)\<lparr>we_events := events, we_data := data, we_sock := Some k\<rparr>)\<rparr>))"

definition wait_del :: "wait_obj \<Rightarrow> int \<Rightarrow> int + wait_obj" where
  "wait_del w sockfd =
     (if sockfd < 0 \<or> sockfd \<ge> int LIB_MAX_SOCKETS then Inl EBADF
      else let k = nat sockfd; idx = we_index (wt_entries w k)
      in if idx = -1 then Inl ENOENT
         else let nfds = wt_nfds w - 1; last_fd = wt_sockfds w nfds; e1 = (wt_entries w)(last_fd := (wt_entries w last_fd)\<lparr>we_index := idx\<rparr>)
              in Inr (w\<lparr>wt_nfds := nfds, wt_sockfds := (wt_sockfds w)(nat idx := last_fd),
                        wt_entries := e1(k := \<lparr>we_events = 0, we_data = 0, we_index = -1, we_sock = None\<rparr>)\<rparr>))"

text \<open>\<open>inact k\<close> says that socket \<open>k\<close> is inactive, \<open>evs k\<close> are the events it has pending.\<close>

fun wait_collect_loop :: "(nat \<Rightarrow> bool) \<Rightarrow> (nat \<Rightarrow> u32) \<Rightarrow> wait_obj \<Rightarrow> nat list \<Rightarrow> nat \<Rightarrow> wait_event list" where
  "wait_collect_loop inact evs w [] room = []"
| "wait_collect_loop inact evs w (i # is) room =
     (if room = 0 then []
      else let k = wt_sockfds w i; e = wt_entries w k
           in case we_sock e of None \<Rightarrow> wait_collect_loop inact evs w is room
              | Some p \<Rightarrow>
                  if inact p then wait_collect_loop inact evs w is room
                  else let ready = evs p AND we_events e
                       in if ready = 0 then wait_collect_loop inact evs w is room
                          else \<lparr>wv_sockfd = k, wv_events = ready, wv_data = we_data e\<rparr> # wait_collect_loop inact evs w is (room - 1))"

definition wait_collect :: "(nat \<Rightarrow> bool) \<Rightarrow> (nat \<Rightarrow> u32) \<Rightarrow> wait_obj \<Rightarrow> nat \<Rightarrow> wait_event list" where
  "wait_collect inact evs w maxevents = wait_collect_loop inact evs w [0..<wt_nfds w] maxevents"

section \<open>The map of a wait object\<close>

definition wait_ok :: "wait_obj \<Rightarrow> bool" where
  "wait_ok w \<longleftrightarrow>
     (\<forall>i < wt_nfds w. we_index (wt_entries w (wt_sockfds w i)) = int i) \<and>
     (\<forall>k. we_index (wt_entries w k) \<noteq> -1 \<longrightarrow> (\<exists>i < wt_nfds w. we_index (wt_entries w k) = int i \<and> wt_sockfds w i = k) \<and> we_sock (wt_entries w k) = Some k)"

definition wait_map :: "wait_obj \<Rightarrow> nat \<rightharpoonup> u32 \<times> u64" where
  "wait_map w k = (if we_index (wt_entries w k) = -1 then None else Some (we_events (wt_entries w k), we_data (wt_entries w k)))"

abbreviation wait_event_of :: "wait_event \<Rightarrow> nat \<times> u32 \<times> u64" where
  "wait_event_of e \<equiv> (wv_sockfd e, wv_events e, wv_data e)"

lemma wait_okD:
  assumes "wait_ok w"
  shows "i < wt_nfds w \<Longrightarrow> we_index (wt_entries w (wt_sockfds w i)) = int i"
    and "we_index (wt_entries w k) \<noteq> -1 \<Longrightarrow> \<exists>i < wt_nfds w. we_index (wt_entries w k) = int i \<and> wt_sockfds w i = k"
    and "we_index (wt_entries w k) \<noteq> -1 \<Longrightarrow> we_sock (wt_entries w k) = Some k"
  using assms unfolding wait_ok_def by blast+

lemma wait_new_ok: "wait_new True True ctx = Inr w \<Longrightarrow> wait_ok w \<and> wait_map w = Map.empty"
  by (auto simp: wait_new_def wait_ok_def wait_map_def fun_eq_iff wait_entry_none_def split: option.splits if_splits)

lemma wait_add_ok:
  assumes ok: "wait_ok w" and add: "wait_add (Inr j) w ev d = Inr w'"
  shows "wait_ok w'" "wait_map w' = (wait_map w)(j \<mapsto> (ev, d))"
proof -
  let ?k = j
  have free: "we_index (wt_entries w ?k) = -1"
    and w': "w' = w\<lparr>wt_entries := (wt_entries w)(?k := \<lparr>we_events = ev, we_data = d, we_index = int (wt_nfds w), we_sock = Some ?k\<rparr>),
                       wt_sockfds := (wt_sockfds w)(wt_nfds w := ?k), wt_nfds := wt_nfds w + 1\<rparr>"
    using add by (auto simp: wait_add_def split: if_splits)
  have other: "wt_sockfds w i \<noteq> ?k" if "i < wt_nfds w" for i using wait_okD(1) [OF ok that] free by auto
  show "wait_ok w'" unfolding wait_ok_def
  proof (intro conjI allI impI)
    fix i assume "i < wt_nfds w'"
    then show "we_index (wt_entries w' (wt_sockfds w' i)) = int i"
      using wait_okD(1) [OF ok, of i] other [of i] by (cases "i = wt_nfds w") (simp_all add: w')
  next
    fix k assume k: "we_index (wt_entries w' k) \<noteq> -1"
    show "\<exists>i < wt_nfds w'. we_index (wt_entries w' k) = int i \<and> wt_sockfds w' i = k"
    proof (cases "k = ?k")
      case True
      then show ?thesis by (intro exI [of _ "wt_nfds w"]) (simp add: w')
    next
      case False
      then obtain i where "i < wt_nfds w" "we_index (wt_entries w k) = int i" "wt_sockfds w i = k"
        using wait_okD(2) [OF ok, of k] k by (auto simp: w')
      then show ?thesis using False by (intro exI [of _ i]) (simp add: w')
    qed
    show "we_sock (wt_entries w' k) = Some k" using k wait_okD(3) [OF ok, of k] by (cases "k = ?k") (simp_all add: w')
  qed
  show "wait_map w' = (wait_map w)(?k \<mapsto> (ev, d))" by (simp add: fun_eq_iff wait_map_def w')
qed

lemma wait_mod_ok:
  assumes ok: "wait_ok w" and m: "wait_mod (Inr j) w ev d = Inr w'"
  shows "wait_ok w'" "wait_map w' = (wait_map w)(j \<mapsto> (ev, d))"
proof -
  let ?k = j
  have used: "we_index (wt_entries w ?k) \<noteq> -1"
    and w': "w' = w\<lparr>wt_entries := (wt_entries w)(?k := (wt_entries w ?k)\<lparr>we_events := ev, we_data := d, we_sock := Some ?k\<rparr>)\<rparr>"
    using m by (auto simp: wait_mod_def split: if_splits)
  have ix: "we_index (wt_entries w' k) = we_index (wt_entries w k)" for k by (simp add: w')
  show "wait_ok w'" unfolding wait_ok_def ix
    using wait_okD [OF ok] by (simp add: w')
  show "wait_map w' = (wait_map w)(?k \<mapsto> (ev, d))" using used by (simp add: fun_eq_iff wait_map_def w')
qed

lemma wait_del_ok:
  assumes ok: "wait_ok w" and del: "wait_del w sockfd = Inr w'"
  shows "wait_ok w'" "wait_map w' = (wait_map w)(nat sockfd := None)"
proof -
  let ?k = "nat sockfd"
  define n where "n = wt_nfds w - 1"
  define last where "last = wt_sockfds w n"
  have used: "we_index (wt_entries w ?k) \<noteq> -1"
    using del by (auto simp: wait_del_def Let_def split: if_splits)
  then obtain j where j: "j < wt_nfds w" "we_index (wt_entries w ?k) = int j" "wt_sockfds w j = ?k"
    using wait_okD(2) [OF ok] by blast
  have w': "w' = w\<lparr>wt_nfds := n, wt_sockfds := (wt_sockfds w)(j := last),
      wt_entries := ((wt_entries w)(last := (wt_entries w last)\<lparr>we_index := int j\<rparr>))(?k := \<lparr>we_events = 0, we_data = 0, we_index = -1, we_sock = None\<rparr>)\<rparr>"
    using del j(2) by (auto simp: wait_del_def Let_def n_def last_def split: if_splits)
  have n: "n < wt_nfds w" "wt_nfds w = Suc n" using j(1) by (simp_all add: n_def)
  have lx: "we_index (wt_entries w last) = int n" unfolding last_def by (rule wait_okD(1) [OF ok n(1)])
  have lk: "last = ?k \<longleftrightarrow> n = j" using j(2) lx last_def j(3) by auto
  have other: "wt_sockfds w i \<noteq> ?k" if "i < wt_nfds w" "i \<noteq> j" for i using wait_okD(1) [OF ok that(1)] j(2) that(2) by auto
  have nlast: "wt_sockfds w i \<noteq> last" if "i < n" for i using wait_okD(1) [OF ok, of i] that n lx by auto
  have s: "we_sock (wt_entries w last) = Some last" using wait_okD(3) [OF ok, of last] lx by simp
  show "wait_ok w'" unfolding wait_ok_def
  proof (intro conjI allI impI)
    fix i assume "i < wt_nfds w'"
    then have i: "i < n" by (simp add: w')
    show "we_index (wt_entries w' (wt_sockfds w' i)) = int i"
    proof (cases "i = j")
      case True
      then have "last \<noteq> ?k" using lk i by simp
      then show ?thesis using True by (simp add: w')
    next
      case False
      then show ?thesis using i n other [of i] nlast [OF i] wait_okD(1) [OF ok, of i] by (simp add: w')
    qed
  next
    fix k assume k: "we_index (wt_entries w' k) \<noteq> -1"
    have kk: "k \<noteq> ?k" using k by (auto simp: w')
    show "we_sock (wt_entries w' k) = Some k" using kk k s wait_okD(3) [OF ok, of k] by (cases "k = last") (simp_all add: w')
    show "\<exists>i < wt_nfds w'. we_index (wt_entries w' k) = int i \<and> wt_sockfds w' i = k"
    proof (cases "k = last")
      case True
      then have "j < n" using kk lk j(1) n by auto
      then show ?thesis using True kk by (intro exI [of _ j]) (simp add: w')
    next
      case False
      then obtain i where i: "i < wt_nfds w" "we_index (wt_entries w k) = int i" "wt_sockfds w i = k"
        using wait_okD(2) [OF ok, of k] k kk by (auto simp: w')
      then have "i \<noteq> n" "i \<noteq> j" using False last_def kk j(3) by auto
      then show ?thesis using i n False kk by (intro exI [of _ i]) (simp add: w')
    qed
  qed
  show "wait_map w' = (wait_map w)(?k := None)" using lx by (auto simp: fun_eq_iff wait_map_def w')
qed

text \<open>What the sockets have to report for the events asked for.\<close>

definition wait_ready :: "(nat \<Rightarrow> u32) \<Rightarrow> wait_obj \<Rightarrow> (nat \<times> u32 \<times> u64) set" where
  "wait_ready evs w = {(k, r, d). \<exists>ev. wait_map w k = Some (ev, d) \<and> r = evs k AND ev \<and> r \<noteq> 0}"

subsection \<open>Collecting the ready sockets\<close>

lemma collect_len: "length (wait_collect_loop inact evs w js room) \<le> room"
proof (induction js arbitrary: room)
  case (Cons j js)
  have "Suc (length (wait_collect_loop inact evs w js (room - 1))) \<le> room" if "room \<noteq> 0" using Cons.IH [of "room - 1"] that by simp
  then show ?case using Cons.IH by (auto simp: Let_def split: option.splits)
qed simp

lemma collect_loop_set:
  assumes silent: "\<And>k. inact k \<Longrightarrow> evs k = 0"
    and "\<forall>i \<in> set js. we_sock (wt_entries w (wt_sockfds w i)) = Some (wt_sockfds w i) \<and> we_index (wt_entries w (wt_sockfds w i)) \<noteq> -1"
  shows "set (map wait_event_of (wait_collect_loop inact evs w js room)) \<subseteq> wait_ready evs w \<inter> {t. fst t \<in> wt_sockfds w ` set js} \<and>
    (length js \<le> room \<longrightarrow> set (map wait_event_of (wait_collect_loop inact evs w js room)) = wait_ready evs w \<inter> {t. fst t \<in> wt_sockfds w ` set js})"
  using assms(2)
proof (induction js arbitrary: room)
  case (Cons i js)
  let ?k = "wt_sockfds w i"
  let ?e = "wt_entries w ?k"
  let ?r = "evs ?k AND we_events ?e"
  have e: "we_sock ?e = Some ?k" "we_index ?e \<noteq> -1" using Cons.prems by simp_all
  have step: "wait_collect_loop inact evs w (i # js) (Suc m) =
      (if ?r = 0 then wait_collect_loop inact evs w js (Suc m) else \<lparr>wv_sockfd = ?k, wv_events = ?r, wv_data = we_data ?e\<rparr> # wait_collect_loop inact evs w js m)" for m
    using e by (simp add: Let_def silent)
  have mine: "(?k, r, d) \<in> wait_ready evs w \<longleftrightarrow> r = ?r \<and> d = we_data ?e \<and> ?r \<noteq> 0" for r d
    using e by (auto simp: wait_ready_def wait_map_def)
  have ih: "set (map wait_event_of (wait_collect_loop inact evs w js m)) \<subseteq> wait_ready evs w \<inter> {t. fst t \<in> wt_sockfds w ` set js}"
    "length js \<le> m \<Longrightarrow> set (map wait_event_of (wait_collect_loop inact evs w js m)) = wait_ready evs w \<inter> {t. fst t \<in> wt_sockfds w ` set js}" for m
    using Cons.IH [of m] Cons.prems by simp_all
  show ?case
  proof (cases room)
    case (Suc m)
    show ?thesis
    proof (cases "?r = 0")
      case True
      then show ?thesis using ih(1) [of "Suc m"] ih(2) [of "Suc m"] mine unfolding Suc step by auto
    next
      case False
      then have "wait_ready evs w \<inter> {t. fst t \<in> wt_sockfds w ` set (i # js)} =
          insert (?k, ?r, we_data ?e) (wait_ready evs w \<inter> {t. fst t \<in> wt_sockfds w ` set js})"
        using mine by auto
      then show ?thesis using False ih(1) [of m] ih(2) [of m] unfolding Suc step by auto
    qed
  qed simp
qed simp

lemma wait_collect_ready:
  assumes ok: "wait_ok w" and silent: "\<And>k. inact k \<Longrightarrow> evs k = 0"
  shows "set (map wait_event_of (wait_collect inact evs w m)) \<subseteq> wait_ready evs w" "length (wait_collect inact evs w m) \<le> m"
    and "wt_nfds w \<le> m \<Longrightarrow> set (map wait_event_of (wait_collect inact evs w m)) = wait_ready evs w"
proof -
  have reg: "\<forall>i \<in> set [0..<wt_nfds w]. we_sock (wt_entries w (wt_sockfds w i)) = Some (wt_sockfds w i) \<and> we_index (wt_entries w (wt_sockfds w i)) \<noteq> -1"
    using wait_okD [OF ok] by fastforce
  have all: "wait_ready evs w \<inter> {t. fst t \<in> wt_sockfds w ` set [0..<wt_nfds w]} = wait_ready evs w"
    using wait_okD(2) [OF ok] by (fastforce simp: wait_ready_def wait_map_def split: if_splits)
  show "set (map wait_event_of (wait_collect inact evs w m)) \<subseteq> wait_ready evs w"
    using collect_loop_set [of inact evs, OF silent reg, of m] unfolding all wait_collect_def by blast
  show "wt_nfds w \<le> m \<Longrightarrow> set (map wait_event_of (wait_collect inact evs w m)) = wait_ready evs w"
    using collect_loop_set [of inact evs, OF silent reg, of m] unfolding all wait_collect_def by simp
  show "length (wait_collect inact evs w m) \<le> m" unfolding wait_collect_def by (rule collect_len)
qed

section \<open>The interface to the libraries\<close>

text \<open>
  What a library provides: a lookup that returns the descriptor as the index of the socket, and
  pending events that are empty for inactive sockets.
\<close>

locale wait_client =
  fixes lookup :: "nat option \<Rightarrow> int \<Rightarrow> int + nat" and inact :: "nat \<Rightarrow> bool" and evs :: "nat \<Rightarrow> u32"
  assumes lookup_index: "lookup ctx fd = Inr k \<Longrightarrow> k = nat fd"
    and inactive_silent: "inact k \<Longrightarrow> evs k = 0"
begin

lemma add_refines:
  assumes "wait_ok w"
  shows "isl (wait_add (lookup (Some (wt_ctx w)) fd) w ev d) \<longleftrightarrow> isl (lookup (Some (wt_ctx w)) fd) \<or> wait_map w (nat fd) \<noteq> None"
    and "wait_add (lookup (Some (wt_ctx w)) fd) w ev d = Inr w1 \<Longrightarrow> wait_ok w1 \<and> wait_map w1 = (wait_map w)(nat fd \<mapsto> (ev, d))"
proof -
  show "isl (wait_add (lookup (Some (wt_ctx w)) fd) w ev d) \<longleftrightarrow> isl (lookup (Some (wt_ctx w)) fd) \<or> wait_map w (nat fd) \<noteq> None"
    by (cases "lookup (Some (wt_ctx w)) fd") (auto simp: wait_add_def wait_map_def dest: lookup_index)
  show "wait_ok w1 \<and> wait_map w1 = (wait_map w)(nat fd \<mapsto> (ev, d))" if a: "wait_add (lookup (Some (wt_ctx w)) fd) w ev d = Inr w1"
  proof (cases "lookup (Some (wt_ctx w)) fd")
    case (Inr k)
    then show ?thesis using wait_add_ok [OF assms, of "nat fd"] a lookup_index [OF Inr] by simp
  qed (use a in \<open>simp add: wait_add_def\<close>)
qed

lemma mod_refines:
  assumes "wait_ok w"
  shows "isl (wait_mod (lookup (Some (wt_ctx w)) fd) w ev d) \<longleftrightarrow> isl (lookup (Some (wt_ctx w)) fd) \<or> wait_map w (nat fd) = None"
    and "wait_mod (lookup (Some (wt_ctx w)) fd) w ev d = Inr w1 \<Longrightarrow> wait_ok w1 \<and> wait_map w1 = (wait_map w)(nat fd \<mapsto> (ev, d))"
proof -
  show "isl (wait_mod (lookup (Some (wt_ctx w)) fd) w ev d) \<longleftrightarrow> isl (lookup (Some (wt_ctx w)) fd) \<or> wait_map w (nat fd) = None"
    by (cases "lookup (Some (wt_ctx w)) fd") (auto simp: wait_mod_def wait_map_def dest: lookup_index)
  show "wait_ok w1 \<and> wait_map w1 = (wait_map w)(nat fd \<mapsto> (ev, d))" if a: "wait_mod (lookup (Some (wt_ctx w)) fd) w ev d = Inr w1"
  proof (cases "lookup (Some (wt_ctx w)) fd")
    case (Inr k)
    then show ?thesis using wait_mod_ok [OF assms, of "nat fd"] a lookup_index [OF Inr] by simp
  qed (use a in \<open>simp add: wait_mod_def\<close>)
qed

lemma del_refines:
  assumes "wait_ok w"
  shows "isl (wait_del w fd) \<longleftrightarrow> fd < 0 \<or> int LIB_MAX_SOCKETS \<le> fd \<or> wait_map w (nat fd) = None"
    and "wait_del w fd = Inr w1 \<Longrightarrow> wait_ok w1 \<and> wait_map w1 = (wait_map w)(nat fd := None)"
  using wait_del_ok [OF assms, of fd w1] by (auto simp: wait_del_def wait_map_def Let_def split: if_splits)

lemma collect_refines:
  assumes "wait_ok w"
  shows "set (map wait_event_of (wait_collect inact evs w m)) \<subseteq> wait_ready evs w"
    and "wt_nfds w \<le> m \<Longrightarrow> set (map wait_event_of (wait_collect inact evs w m)) = wait_ready evs w"
  using wait_collect_ready [OF assms, of inact evs m] inactive_silent by simp_all

lemma refines_map:
  assumes "wait_ok w"
  shows "(isl (wait_add (lookup (Some (wt_ctx w)) fd) w ev d) \<longleftrightarrow> isl (lookup (Some (wt_ctx w)) fd) \<or> wait_map w (nat fd) \<noteq> None) \<and>
    (wait_add (lookup (Some (wt_ctx w)) fd) w ev d = Inr w1 \<longrightarrow> wait_ok w1 \<and> wait_map w1 = (wait_map w)(nat fd \<mapsto> (ev, d))) \<and>
    (isl (wait_mod (lookup (Some (wt_ctx w)) fd) w ev d) \<longleftrightarrow> isl (lookup (Some (wt_ctx w)) fd) \<or> wait_map w (nat fd) = None) \<and>
    (wait_mod (lookup (Some (wt_ctx w)) fd) w ev d = Inr w1 \<longrightarrow> wait_ok w1 \<and> wait_map w1 = (wait_map w)(nat fd \<mapsto> (ev, d))) \<and>
    (isl (wait_del w fd) \<longleftrightarrow> fd < 0 \<or> int LIB_MAX_SOCKETS \<le> fd \<or> wait_map w (nat fd) = None) \<and>
    (wait_del w fd = Inr w1 \<longrightarrow> wait_ok w1 \<and> wait_map w1 = (wait_map w)(nat fd := None)) \<and>
    set (map wait_event_of (wait_collect inact evs w m)) \<subseteq> wait_ready evs w \<and>
    (wt_nfds w \<le> m \<longrightarrow> set (map wait_event_of (wait_collect inact evs w m)) = wait_ready evs w)"
  using add_refines(2) [OF assms, of fd ev d w1] mod_refines(2) [OF assms, of fd ev d w1] del_refines(2) [OF assms, of fd w1]
    collect_refines(2) [OF assms, of m]
  by (intro conjI impI) (simp_all only: add_refines(1) [OF assms] mod_refines(1) [OF assms] del_refines(1) [OF assms] collect_refines(1) [OF assms] simp_thms)

end

end
