(* ===== verification/Tcp_Lib.thy ===== *)
theory Tcp_Lib
  imports Tcp_Slow_App Wait_Set Byte_Ring
begin

unbundle bit_operations_syntax

text \<open>
  The TCP library of an application (\<^verbatim>\<open>protos/tcp/lib/tcp_lib.c\<close>): the socket calls, the messages
  from slow path and fast path, and the list of sockets whose progress is still to be announced to
  the fast path. A pointer to an entry of \<^verbatim>\<open>tcp->socks\<close> is its index, in messages its index plus one
  so that zero stays the null pointer; a pointer into shared memory is the offset from its base. A
  call that waits for the slow path is a tree: it returns, or it is blocked on events of a socket and
  goes on from the state in which they are pending.
\<close>

section \<open>State\<close>

abbreviation TCP_BUMP_NONE :: int where "TCP_BUMP_NONE \<equiv> -1"
abbreviation TCP_TX_BUMP_THRESH :: u32 where "TCP_TX_BUMP_THRESH \<equiv> 1024"
abbreviation TLIB_BATCH :: nat where "TLIB_BATCH \<equiv> 16"

abbreviation TCP_WAIT_NONBLOCK :: u32 where "TCP_WAIT_NONBLOCK \<equiv> 1"
abbreviation TCP_WAIT_IN :: u32 where "TCP_WAIT_IN \<equiv> 1"
abbreviation TCP_WAIT_OUT :: u32 where "TCP_WAIT_OUT \<equiv> 2"
abbreviation TCP_WAIT_ACCEPT :: u32 where "TCP_WAIT_ACCEPT \<equiv> 4"
abbreviation TCP_WAIT_CONNECTED :: u32 where "TCP_WAIT_CONNECTED \<equiv> 8"
abbreviation TCP_WAIT_SOCKET :: u32 where "TCP_WAIT_SOCKET \<equiv> 16"
abbreviation TCP_WAIT_BIND :: u32 where "TCP_WAIT_BIND \<equiv> 32"
abbreviation TCP_WAIT_SETOPT :: u32 where "TCP_WAIT_SETOPT \<equiv> 64"
abbreviation TCP_WAIT_OP :: u32 where "TCP_WAIT_OP \<equiv> 128"
abbreviation TCP_WAIT_CLOSED :: u32 where "TCP_WAIT_CLOSED \<equiv> 256"

abbreviation TCP_LIB_STATUS_IDLE :: int where "TCP_LIB_STATUS_IDLE \<equiv> -2"
abbreviation TCP_LIB_STATUS_PENDING :: int where "TCP_LIB_STATUS_PENDING \<equiv> -1"
abbreviation TCP_QUEUE_BUMP_CHAM_TX :: u8 where "TCP_QUEUE_BUMP_CHAM_TX \<equiv> 18"
abbreviation TCP_QUEUE_BUMP_CHAM_RX :: u8 where "TCP_QUEUE_BUMP_CHAM_RX \<equiv> 19"

abbreviation EMFILE :: int where "EMFILE \<equiv> 24"
abbreviation ENOPROTOOPT :: int where "ENOPROTOOPT \<equiv> 92"
abbreviation EAFNOSUPPORT :: int where "EAFNOSUPPORT \<equiv> 97"
abbreviation EALREADY :: int where "EALREADY \<equiv> 114"
abbreviation EINPROGRESS :: int where "EINPROGRESS \<equiv> 115"
abbreviation AF_INET :: u16 where "AF_INET \<equiv> 2"
abbreviation SOCKADDR_IN_LEN :: nat where "SOCKADDR_IN_LEN \<equiv> 16"
abbreviation SOCK_NONBLOCK :: u32 where "SOCK_NONBLOCK \<equiv> 0x800"

datatype tcp_lib_state =
    TCP_LIB_STATE_INIT | TCP_LIB_STATE_BOUND | TCP_LIB_STATE_LISTEN | TCP_LIB_STATE_CONNECTING
  | TCP_LIB_STATE_ESTABLISHED | TCP_LIB_STATE_CLOSING | TCP_LIB_STATE_CLOSED

record tcp_socket_lib =
  tl_fd :: int
  tl_sock_id :: u32
  tl_ctx :: "nat option"
  tl_core :: u16
  tl_local_port :: u16
  tl_local_ip :: u32
  tl_remote_port :: u16
  tl_remote_ip :: u32
  tl_rx_qid :: u16
  tl_rx_len :: u32
  tl_rx_avail :: u32
  tl_rx_head :: u32
  tl_rx_buf :: u64
  tl_tx_qid :: u16
  tl_tx_len :: u32
  tl_tx_avail :: u32
  tl_tx_head :: u32
  tl_tx_buf :: u64
  tl_bind_success :: int
  tl_setopt_success :: int
  tl_op_status :: int
  tl_pending_conn :: u32
  tl_state :: tcp_lib_state
  tl_reuseport :: u8
  tl_bump_pending :: bool
  tl_bump_next :: int
  tl_tx_bump_pending :: u32
  tl_rx_bump_pending :: u32

record tcp_context_lib =
  tc_app_slow_q :: "equeue \<times> tcp_app_data ring"
  tc_slow_app_q :: "dqueue \<times> tcp_app_data ring"
  tc_ncores :: u16
  tc_app_fast_qs :: "nat \<Rightarrow> equeue \<times> tcp_qe ring"
  tc_fast_app_qs :: "nat \<Rightarrow> dqueue \<times> tcp_qdata ring"
  tc_bump_head :: int
  tc_bump_tail :: int

text \<open>\<open>tb_up\<close> tells whether \<^verbatim>\<open>tcp\<close> is set.\<close>

record tcp_lib =
  tb_up :: bool
  tb_next_sockfd :: int
  tb_socks :: "nat \<Rightarrow> tcp_socket_lib"
  tb_ctxs :: "nat \<Rightarrow> tcp_context_lib"
  tb_shm :: bytes
  tb_errno :: int

text \<open>
  Where the library does not return: a core without queues, an opaque pointer outside the table,
  \<^verbatim>\<open>abort\<close> on an unknown message, and a list of pending sockets longer than the table.
\<close>

datatype tlib_fault = TL_NoSuchCore | TL_BadOpaque | TL_UnknownMessage | TL_BumpLoop

type_synonym tlib_result = "tlib_fault + int \<times> tcp_lib"

definition put_tsock :: "nat \<Rightarrow> tcp_socket_lib \<Rightarrow> tcp_lib \<Rightarrow> tcp_lib" where
  "put_tsock k s l = l\<lparr>tb_socks := (tb_socks l)(k := s)\<rparr>"

definition put_tctx :: "nat \<Rightarrow> tcp_context_lib \<Rightarrow> tcp_lib \<Rightarrow> tcp_lib" where
  "put_tctx x cx l = l\<lparr>tb_ctxs := (tb_ctxs l)(x := cx)\<rparr>"

definition upd_tsock :: "nat \<Rightarrow> (tcp_socket_lib \<Rightarrow> tcp_socket_lib) \<Rightarrow> tcp_lib \<Rightarrow> tcp_lib" where
  "upd_tsock k f l = put_tsock k (f (tb_socks l k)) l"

definition upd_tctx :: "nat \<Rightarrow> (tcp_context_lib \<Rightarrow> tcp_context_lib) \<Rightarrow> tcp_lib \<Rightarrow> tcp_lib" where
  "upd_tctx x f l = put_tctx x (f (tb_ctxs l x)) l"

definition set_errno :: "int \<Rightarrow> tcp_lib \<Rightarrow> tcp_lib" where
  "set_errno e l = l\<lparr>tb_errno := e\<rparr>"

definition sock_ptr :: "nat \<Rightarrow> u64" where
  "sock_ptr k = of_nat (k + 1)"

text \<open>The socket a pointer of a message points to; \<^const>\<open>None\<close> for the null pointer.\<close>

definition sock_deref :: "u64 \<Rightarrow> tlib_fault + nat option" where
  "sock_deref p =
     (if p = 0 then Inr None else if unat p \<le> LIB_MAX_SOCKETS then Inr (Some (unat p - 1)) else Inl TL_BadOpaque)"

section \<open>Looking up and allocating sockets\<close>

definition tlookup_sock :: "tcp_lib \<Rightarrow> nat option \<Rightarrow> int \<Rightarrow> int + nat" where
  "tlookup_sock l ctx sockfd =
     (if \<not> tb_up l then Inl ENOTCONN
      else if ctx = None then Inl EINVAL
      else if sockfd < 0 \<or> sockfd \<ge> int LIB_MAX_SOCKETS then Inl EBADF
      else let s = tb_socks l (nat sockfd)
           in if tl_fd s \<noteq> sockfd \<or> tl_ctx s \<noteq> ctx \<or> tl_state s = TCP_LIB_STATE_CLOSED then Inl EBADF else Inr (nat sockfd))"

definition tcp_socket_lib_new :: "int \<Rightarrow> nat \<Rightarrow> tcp_socket_lib" where
  "tcp_socket_lib_new fd x =
     \<lparr>tl_fd = fd, tl_sock_id = 0, tl_ctx = Some x, tl_core = 0, tl_local_port = 0, tl_local_ip = 0, tl_remote_port = 0, tl_remote_ip = 0,
      tl_rx_qid = 0, tl_rx_len = 0, tl_rx_avail = 0, tl_rx_head = 0, tl_rx_buf = 0, tl_tx_qid = 0, tl_tx_len = 0, tl_tx_avail = 0,
      tl_tx_head = 0, tl_tx_buf = 0, tl_bind_success = -1, tl_setopt_success = -1, tl_op_status = TCP_LIB_STATUS_IDLE,
      tl_pending_conn = 0, tl_state = TCP_LIB_STATE_INIT, tl_reuseport = 0, tl_bump_pending = False, tl_bump_next = TCP_BUMP_NONE,
      tl_tx_bump_pending = 0, tl_rx_bump_pending = 0\<rparr>"

definition alloc_lib_sock :: "nat \<Rightarrow> tcp_lib \<Rightarrow> nat option \<times> tcp_lib" where
  "alloc_lib_sock x l =
     (let fd = tb_next_sockfd l; l1 = l\<lparr>tb_next_sockfd := fd + 1\<rparr>
      in if fd \<ge> int LIB_MAX_SOCKETS then (None, set_errno EMFILE l1)
         else (Some (nat fd), put_tsock (nat fd) (tcp_socket_lib_new fd x) l1))"

text \<open>A socket address: family, address and port, the last two in network order.\<close>

type_synonym sockaddr = "u16 \<times> u32 \<times> u16"

definition validate_sockaddr_in :: "sockaddr option \<Rightarrow> nat \<Rightarrow> int option" where
  "validate_sockaddr_in addr addrlen =
     (case addr of None \<Rightarrow> Some EINVAL
      | Some (fam, _) \<Rightarrow> if addrlen < SOCKADDR_IN_LEN then Some EINVAL else if fam \<noteq> AF_INET then Some EAFNOSUPPORT else None)"

definition validate_nonblock_flags :: "u32 \<Rightarrow> int option" where
  "validate_nonblock_flags flags = (if flags AND NOT SOCK_NONBLOCK \<noteq> 0 then Some EINVAL else None)"

text \<open>What the caller's address holds afterwards; \<open>addrlen\<close> is \<^const>\<open>None\<close> for a null pointer.\<close>

definition fill_sockaddr :: "tcp_socket_lib \<Rightarrow> sockaddr option \<Rightarrow> nat option \<Rightarrow> sockaddr option \<times> nat option" where
  "fill_sockaddr s addr addrlen =
     (case (addr, addrlen) of
        (Some _, Some n) \<Rightarrow> if n < SOCKADDR_IN_LEN then (addr, addrlen)
                           else (Some (AF_INET, t_beui32 (tl_remote_ip s), t_beui16 (tl_remote_port s)), Some SOCKADDR_IN_LEN)
      | _ \<Rightarrow> (addr, addrlen))"

section \<open>Pending bumps\<close>

text \<open>The sockets of a context with bytes to announce form a list threaded through \<^verbatim>\<open>bump_next\<close>.\<close>

definition sock_mark_bump :: "nat \<Rightarrow> nat \<Rightarrow> tcp_lib \<Rightarrow> tcp_lib" where
  "sock_mark_bump x k l =
     (let s = tb_socks l k
      in if tl_bump_pending s then l
         else let l1 = put_tsock k (s\<lparr>tl_bump_pending := True, tl_bump_next := TCP_BUMP_NONE\<rparr>) l;
                  l2 = (if tc_bump_tail (tb_ctxs l x) = TCP_BUMP_NONE then upd_tctx x (\<lambda>cx. cx\<lparr>tc_bump_head := tl_fd s\<rparr>) l1
                        else upd_tsock (nat (tc_bump_tail (tb_ctxs l x))) (\<lambda>t. t\<lparr>tl_bump_next := tl_fd s\<rparr>) l1)
              in upd_tctx x (\<lambda>cx. cx\<lparr>tc_bump_tail := tl_fd s\<rparr>) l2)"

text \<open>Sending one bump to core \<open>i\<close>; the result tells whether the queue took it.\<close>

definition bump_send :: "nat \<Rightarrow> nat \<Rightarrow> tcp_qe \<Rightarrow> u8 \<Rightarrow> tcp_lib \<Rightarrow> int \<times> tcp_lib" where
  "bump_send x i d ty l =
     (case queue_put (tc_app_fast_qs (tb_ctxs l x) i) d ty of (ret, q) \<Rightarrow>
        (ret, upd_tctx x (\<lambda>cx. cx\<lparr>tc_app_fast_qs := (tc_app_fast_qs cx)(i := q)\<rparr>) l))"

definition flush_tx :: "nat \<Rightarrow> nat \<Rightarrow> tcp_lib \<Rightarrow> int \<times> tcp_lib" where
  "flush_tx x k l =
     (let s = tb_socks l k
      in if tl_tx_bump_pending s = 0 then (0, l)
         else case bump_send x (unat (tl_core s)) (QE_bump_cham_tx \<lparr>bct_sock_id = tl_sock_id s, bct_tx_port = tl_remote_port s,
                  bct_tx_ip = tl_remote_ip s, bct_tx_avail = tl_tx_bump_pending s\<rparr>) TCP_QUEUE_BUMP_CHAM_TX l of (ret, l1) \<Rightarrow>
                if ret = 0 then (0, upd_tsock k (\<lambda>s. s\<lparr>tl_tx_bump_pending := 0\<rparr>) l1) else (-1, l1))"

definition flush_rx :: "nat \<Rightarrow> nat \<Rightarrow> tcp_lib \<Rightarrow> int \<times> tcp_lib" where
  "flush_rx x k l =
     (let s = tb_socks l k
      in if tl_rx_bump_pending s = 0 then (0, l)
         else case bump_send x (unat (tl_core s)) (QE_bump_cham_rx \<lparr>bcr_sock_id = tl_sock_id s, bcr_rx_head = tl_rx_bump_pending s\<rparr>)
                  TCP_QUEUE_BUMP_CHAM_RX l of (ret, l1) \<Rightarrow>
                if ret = 0 then (0, upd_tsock k (\<lambda>s. s\<lparr>tl_rx_bump_pending := 0\<rparr>) l1) else (-1, l1))"

text \<open>
  \<^verbatim>\<open>queue_tail\<close> and \<^verbatim>\<open>queue_enqueue\<close> test the same slot, so a bump that does not fit always takes the
  jump to \<^verbatim>\<open>out\<close>.
\<close>

definition sock_flush_bumps :: "nat \<Rightarrow> nat \<Rightarrow> tcp_lib \<Rightarrow> tlib_fault + tcp_lib" where
  "sock_flush_bumps x k l =
     (let s = tb_socks l k
      in if tl_ctx s \<noteq> Some x \<or> tl_fd s = SOCK_INACTIVE then Inr l
      else if unat (tl_core s) \<ge> unat (tc_ncores (tb_ctxs l x)) then Inl TL_NoSuchCore
      else let l2 = (case flush_tx x k l of (ret, l1) \<Rightarrow> if ret \<noteq> 0 then l1 else snd (flush_rx x k l1));
               s2 = tb_socks l2 k
      in Inr (if tl_tx_bump_pending s2 \<noteq> 0 \<or> tl_rx_bump_pending s2 \<noteq> 0 then sock_mark_bump x k l2 else l2))"

fun flush_loop :: "nat \<Rightarrow> nat \<Rightarrow> int \<Rightarrow> tcp_lib \<Rightarrow> tlib_fault + tcp_lib" where
  "flush_loop 0 x fd l = (if fd = TCP_BUMP_NONE then Inr l else Inl TL_BumpLoop)"
| "flush_loop (Suc fuel) x fd l =
     (if fd = TCP_BUMP_NONE then Inr l
      else let k = nat fd; next = tl_bump_next (tb_socks l k);
               l1 = upd_tsock k (\<lambda>s. s\<lparr>tl_bump_pending := False, tl_bump_next := TCP_BUMP_NONE\<rparr>) l; s = tb_socks l1 k
           in case (if tl_ctx s = Some x \<and> tl_fd s \<noteq> SOCK_INACTIVE \<and> (tl_tx_bump_pending s \<noteq> 0 \<or> tl_rx_bump_pending s \<noteq> 0)
                    then sock_flush_bumps x k l1 else Inr l1) of
                Inl f \<Rightarrow> Inl f | Inr l2 \<Rightarrow> flush_loop fuel x next l2)"

text \<open>A list of more sockets than the table has would be a cycle.\<close>

definition tcp_flush_bumps :: "nat \<Rightarrow> tcp_lib \<Rightarrow> tlib_fault + tcp_lib" where
  "tcp_flush_bumps x l =
     flush_loop LIB_MAX_SOCKETS x (tc_bump_head (tb_ctxs l x))
       (upd_tctx x (\<lambda>cx. cx\<lparr>tc_bump_head := TCP_BUMP_NONE, tc_bump_tail := TCP_BUMP_NONE\<rparr>) l)"

section \<open>Calls that wait for the slow path\<close>

datatype 'a tlib_call =
    Return 'a tcp_lib
  | Blocked nat u32 tcp_lib "tcp_lib \<Rightarrow> 'a tlib_call"

definition tlib_err :: "int \<Rightarrow> tcp_lib \<Rightarrow> int tlib_call" where
  "tlib_err e l = Return (-1) (set_errno e l)"

definition tlib_request :: "nat \<Rightarrow> tcp_app_data \<Rightarrow> u8 \<Rightarrow> tcp_lib \<Rightarrow> int \<times> tcp_lib" where
  "tlib_request x d ty l =
     (case queue_put (tc_app_slow_q (tb_ctxs l x)) d ty of (ret, q) \<Rightarrow> (ret, upd_tctx x (\<lambda>cx. cx\<lparr>tc_app_slow_q := q\<rparr>) l))"

definition tcp_socket :: "nat option \<Rightarrow> tcp_lib \<Rightarrow> int tlib_call" where
  "tcp_socket ctx l =
     (case ctx of None \<Rightarrow> tlib_err EINVAL l
      | Some x \<Rightarrow>
        (case alloc_lib_sock x l of (None, l1) \<Rightarrow> Return (-1) l1
         | (Some k, l1) \<Rightarrow>
           (case tlib_request x (A_new_sock_req (sock_ptr k)) TCP_QUEUE_NEW_SOCK_REQ l1 of (ret, l2) \<Rightarrow>
              if ret \<noteq> 0 then tlib_err EAGAIN (upd_tsock k (\<lambda>s. s\<lparr>tl_fd := SOCK_INACTIVE\<rparr>) l2)
              else Blocked k TCP_WAIT_SOCKET l2 (\<lambda>l3. Return (tl_fd (tb_socks l3 k)) l3))))"

definition bind_done :: "nat \<Rightarrow> sockaddr \<Rightarrow> tcp_lib \<Rightarrow> int tlib_call" where
  "bind_done k sin l =
     (case sin of (_, ip, port) \<Rightarrow>
        if tl_bind_success (tb_socks l k) = 0 then tlib_err EADDRINUSE (upd_tsock k (\<lambda>s. s\<lparr>tl_bind_success := -1\<rparr>) l)
        else Return 0 (upd_tsock k (\<lambda>s. s\<lparr>tl_local_port := f_beui16 port, tl_local_ip := f_beui32 ip, tl_state := TCP_LIB_STATE_BOUND,
                         tl_bind_success := -1\<rparr>) l))"

definition tcp_bind :: "nat option \<Rightarrow> int \<Rightarrow> sockaddr option \<Rightarrow> nat \<Rightarrow> tcp_lib \<Rightarrow> int tlib_call" where
  "tcp_bind ctx sockfd addr addrlen l =
     (case validate_sockaddr_in addr addrlen of Some e \<Rightarrow> tlib_err e l
      | None \<Rightarrow>
        (case tlookup_sock l ctx sockfd of Inl e \<Rightarrow> tlib_err e l
         | Inr k \<Rightarrow>
           (case the addr of (fam, ip, port) \<Rightarrow>
              (case tlib_request (the ctx) (A_bind_req \<lparr>bq_sock_id = tl_sock_id (tb_socks l k), bq_local_port = f_beui16 port,
                      bq_local_ip = f_beui32 ip, bq_opaque = sock_ptr k\<rparr>) TCP_QUEUE_BIND_REQ l of (ret, l1) \<Rightarrow>
                 if ret \<noteq> 0 then tlib_err EAGAIN l1 else Blocked k TCP_WAIT_BIND l1 (bind_done k (fam, ip, port))))))"

definition connect_done :: "nat \<Rightarrow> tcp_lib \<Rightarrow> int tlib_call" where
  "connect_done k l =
     (if tl_op_status (tb_socks l k) \<noteq> 0
      then tlib_err (tl_op_status (tb_socks l k)) (upd_tsock k (\<lambda>s. s\<lparr>tl_op_status := TCP_LIB_STATUS_IDLE\<rparr>) l)
      else Return 0 l)"

definition connect_request :: "nat \<Rightarrow> nat \<Rightarrow> sockaddr \<Rightarrow> u32 \<Rightarrow> tcp_lib \<Rightarrow> int tlib_call" where
  "connect_request x k sin flags l =
     (case sin of (_, ip, port) \<Rightarrow>
        (case tlib_request x (A_connect_req \<lparr>cq_sock_id = tl_sock_id (tb_socks l k), cq_remote_ip = f_beui32 ip,
                cq_remote_port = f_beui16 port, cq_opaque = sock_ptr k\<rparr>) TCP_QUEUE_CONNECT_REQ l of (ret, l1) \<Rightarrow>
           if ret \<noteq> 0 then tlib_err EAGAIN l1
           else let l2 = upd_tsock k (\<lambda>s. s\<lparr>tl_remote_ip := f_beui32 ip, tl_remote_port := f_beui16 port,
                           tl_state := TCP_LIB_STATE_CONNECTING, tl_op_status := TCP_LIB_STATUS_PENDING\<rparr>) l1
           in if flags AND SOCK_NONBLOCK \<noteq> 0 then tlib_err EINPROGRESS l2
              else Blocked k TCP_WAIT_OP l2 (connect_done k)))"

text \<open>The call on a socket that is connecting, once its attempt is no longer pending.\<close>

definition connect_again :: "nat \<Rightarrow> nat \<Rightarrow> sockaddr \<Rightarrow> u32 \<Rightarrow> tcp_lib \<Rightarrow> int tlib_call" where
  "connect_again x k sin flags l =
     (let s = tb_socks l k
      in if tl_op_status s = 0 \<and> tl_state s = TCP_LIB_STATE_ESTABLISHED then Return 0 l
      else if tl_op_status s > 0 then tlib_err (tl_op_status s) (upd_tsock k (\<lambda>s. s\<lparr>tl_op_status := TCP_LIB_STATUS_IDLE\<rparr>) l)
      else connect_request x k sin flags l)"

definition tcp_connect :: "nat option \<Rightarrow> int \<Rightarrow> sockaddr option \<Rightarrow> nat \<Rightarrow> u32 \<Rightarrow> tcp_lib \<Rightarrow> int tlib_call" where
  "tcp_connect ctx sockfd addr addrlen flags l =
     (case validate_nonblock_flags flags of Some e \<Rightarrow> tlib_err e l
      | None \<Rightarrow>
        (case validate_sockaddr_in addr addrlen of Some e \<Rightarrow> tlib_err e l
         | None \<Rightarrow>
           (case tlookup_sock l ctx sockfd of Inl e \<Rightarrow> tlib_err e l
            | Inr k \<Rightarrow>
              let s = tb_socks l k
              in if tl_state s = TCP_LIB_STATE_LISTEN then tlib_err EOPNOTSUPP l
              else if tl_state s = TCP_LIB_STATE_ESTABLISHED then Return 0 l
              else if tl_state s = TCP_LIB_STATE_CONNECTING
              then if tl_op_status s = TCP_LIB_STATUS_PENDING
                   then if flags AND SOCK_NONBLOCK \<noteq> 0 then tlib_err EALREADY l
                        else Blocked k TCP_WAIT_OP l (connect_again (the ctx) k (the addr) flags)
                   else connect_again (the ctx) k (the addr) flags l
              else connect_request (the ctx) k (the addr) flags l)))"

definition tcp_listen :: "nat option \<Rightarrow> int \<Rightarrow> int \<Rightarrow> tcp_lib \<Rightarrow> int tlib_call" where
  "tcp_listen ctx sockfd backlog l =
     (case tlookup_sock l ctx sockfd of Inl e \<Rightarrow> tlib_err e l
      | Inr k \<Rightarrow>
        let s = tb_socks l k
        in if backlog \<le> 0 then tlib_err EINVAL l
        else if tl_local_port s = 0 \<or> tl_state s = TCP_LIB_STATE_CONNECTING \<or> tl_state s = TCP_LIB_STATE_ESTABLISHED then tlib_err EINVAL l
        else if tl_state s = TCP_LIB_STATE_LISTEN then Return 0 l
        else if tl_op_status s = TCP_LIB_STATUS_PENDING then tlib_err EALREADY l
        else if tl_op_status s > 0 then tlib_err (tl_op_status s) (upd_tsock k (\<lambda>s. s\<lparr>tl_op_status := TCP_LIB_STATUS_IDLE\<rparr>) l)
        else (case tlib_request (the ctx) (A_listen_req \<lparr>lq_sock_id = tl_sock_id s, lq_backlog = of_int backlog, lq_opaque = sock_ptr k\<rparr>)
                TCP_QUEUE_LISTEN_REQ l of (ret, l1) \<Rightarrow>
                if ret \<noteq> 0 then tlib_err EAGAIN l1
                else Return 0 (upd_tsock k (\<lambda>s. s\<lparr>tl_op_status := TCP_LIB_STATUS_PENDING\<rparr>) l1)))"

text \<open>\<^verbatim>\<open>tcp_accept\<close> also gives the caller's address and length back.\<close>

definition accept_done ::
  "nat \<Rightarrow> sockaddr option \<Rightarrow> nat option \<Rightarrow> tcp_lib \<Rightarrow> (int \<times> sockaddr option \<times> nat option) tlib_call" where
  "accept_done k addr addrlen l =
     (let s = tb_socks l k
      in if tl_op_status s \<noteq> 0
         then Return (-1, addr, addrlen)
                (upd_tsock k (\<lambda>s. s\<lparr>tl_fd := SOCK_INACTIVE, tl_state := TCP_LIB_STATE_CLOSED\<rparr>) (set_errno (tl_op_status s) l))
         else Return (tl_fd s, fill_sockaddr s addr addrlen) l)"

definition accept_request ::
  "nat \<Rightarrow> nat \<Rightarrow> sockaddr option \<Rightarrow> nat option \<Rightarrow> tcp_lib \<Rightarrow> (int \<times> sockaddr option \<times> nat option) tlib_call" where
  "accept_request x lk addr addrlen l =
     (case alloc_lib_sock x l of (None, l1) \<Rightarrow> Return (-1, addr, addrlen) l1
      | (Some k, l1) \<Rightarrow>
        (case tlib_request x (A_accept_req \<lparr>aq_sock_id = tl_sock_id (tb_socks l1 lk), aq_opaque = sock_ptr k\<rparr>) TCP_QUEUE_ACCEPT_REQ l1 of (ret, l2) \<Rightarrow>
           if ret \<noteq> 0 then Return (-1, addr, addrlen) (set_errno EAGAIN (upd_tsock k (\<lambda>s. s\<lparr>tl_fd := SOCK_INACTIVE\<rparr>) l2))
           else Blocked k TCP_WAIT_OP (upd_tsock k (\<lambda>s. s\<lparr>tl_op_status := TCP_LIB_STATUS_PENDING\<rparr>) l2) (accept_done k addr addrlen)))"

definition tcp_accept ::
  "nat option \<Rightarrow> int \<Rightarrow> sockaddr option \<Rightarrow> nat option \<Rightarrow> u32 \<Rightarrow> tcp_lib \<Rightarrow> (int \<times> sockaddr option \<times> nat option) tlib_call" where
  "tcp_accept ctx sockfd addr addrlen flags l =
     (let fail = (\<lambda>e. Return (-1, addr, addrlen) (set_errno e l))
      in case validate_nonblock_flags flags of Some e \<Rightarrow> fail e
         | None \<Rightarrow>
           (case tlookup_sock l ctx sockfd of Inl e \<Rightarrow> fail e
            | Inr lk \<Rightarrow>
              if tl_state (tb_socks l lk) \<noteq> TCP_LIB_STATE_LISTEN then fail EINVAL
              else if flags AND SOCK_NONBLOCK \<noteq> 0 \<and> tl_pending_conn (tb_socks l lk) = 0 then fail EAGAIN
              else Blocked lk TCP_WAIT_ACCEPT l (accept_request (the ctx) lk addr addrlen)))"

definition setopt_done :: "nat \<Rightarrow> u8 \<Rightarrow> tcp_lib \<Rightarrow> int tlib_call" where
  "setopt_done k opt l =
     (if tl_setopt_success (tb_socks l k) = 0 then tlib_err ENOPROTOOPT (upd_tsock k (\<lambda>s. s\<lparr>tl_setopt_success := -1\<rparr>) l)
      else Return 0 (upd_tsock k (\<lambda>s. s\<lparr>tl_reuseport := (if opt = SO_REUSEPORT then 1 else tl_reuseport s), tl_setopt_success := -1\<rparr>) l))"

definition tcp_setsockopt :: "nat option \<Rightarrow> int \<Rightarrow> u8 \<Rightarrow> tcp_lib \<Rightarrow> int tlib_call" where
  "tcp_setsockopt ctx sockfd opt l =
     (case tlookup_sock l ctx sockfd of Inl e \<Rightarrow> tlib_err e l
      | Inr k \<Rightarrow>
        (case tlib_request (the ctx) (A_setopt_req \<lparr>sq_opt = opt, sq_sock_id = tl_sock_id (tb_socks l k), sq_opaque = sock_ptr k\<rparr>)
                TCP_QUEUE_SETOPT_REQ l of (ret, l1) \<Rightarrow>
           if ret \<noteq> 0 then tlib_err EAGAIN l1 else Blocked k TCP_WAIT_SETOPT l1 (setopt_done k opt)))"

section \<open>Sending and receiving\<close>

definition sock_rx_bump_thresh :: "tcp_socket_lib \<Rightarrow> u32" where
  "sock_rx_bump_thresh s = (let t = tl_rx_len s div 4 in if t = 0 then 1 else t)"

definition tfail :: "int \<Rightarrow> tcp_lib \<Rightarrow> tlib_result" where
  "tfail e l = Inr (-1, set_errno e l)"

text \<open>The destination: the caller's address, or the peer of the socket.\<close>

definition send_addr :: "tcp_socket_lib \<Rightarrow> sockaddr option \<Rightarrow> nat \<Rightarrow> int + sockaddr" where
  "send_addr s addr addrlen =
     (case addr of
        None \<Rightarrow> if tl_remote_port s = 0 then Inl ENOTCONN else Inr (AF_INET, t_beui32 (tl_remote_ip s), t_beui16 (tl_remote_port s))
      | Some a \<Rightarrow> (case validate_sockaddr_in addr addrlen of Some e \<Rightarrow> Inl e | None \<Rightarrow> Inr a))"

definition send_bytes :: "nat \<Rightarrow> nat \<Rightarrow> bytes \<Rightarrow> u32 \<Rightarrow> sockaddr \<Rightarrow> tcp_lib \<Rightarrow> tlib_result" where
  "send_bytes x k buf n sin l =
     (let s = tb_socks l k;
          tail = ring_wrap (tl_tx_len s) (tl_tx_head s + tl_tx_avail s);
          s1 = s\<lparr>tl_tx_avail := tl_tx_avail s + n, tl_remote_ip := f_beui32 (fst (snd sin)), tl_remote_port := f_beui16 (snd (snd sin)),
                 tl_tx_bump_pending := tl_tx_bump_pending s + n\<rparr>;
          l1 = (put_tsock k s1 l)\<lparr>tb_shm := ring_store (tb_shm l) (unat (tl_tx_buf s)) (tl_tx_len s) tail buf 0 n\<rparr>;
          l2 = sock_mark_bump x k l1; s2 = tb_socks l2 k;
          tx_inflight = tl_tx_avail s - tl_tx_bump_pending s2 + n
      in if tx_inflight = 0 \<or> tl_tx_bump_pending s2 \<ge> TCP_TX_BUMP_THRESH
         then (case sock_flush_bumps x k l2 of Inl f \<Rightarrow> Inl f | Inr l3 \<Rightarrow> Inr (sint n, l3))
         else Inr (sint n, l2))"

definition tcp_sendto :: "nat option \<Rightarrow> int \<Rightarrow> bytes \<Rightarrow> csize \<Rightarrow> sockaddr option \<Rightarrow> nat \<Rightarrow> tcp_lib \<Rightarrow> tlib_result" where
  "tcp_sendto ctx sockfd buf len addr addrlen l =
     (case tlookup_sock l ctx sockfd of Inl e \<Rightarrow> tfail e l
      | Inr k \<Rightarrow>
        let s = tb_socks l k
        in if tl_state s \<noteq> TCP_LIB_STATE_ESTABLISHED then tfail ENOTCONN l
        else (case send_addr s addr addrlen of Inl e \<Rightarrow> tfail e l
              | Inr sin \<Rightarrow>
                if len = 0 then Inr (0, l)
                else let room = tl_tx_len s - tl_tx_avail s; n0 = (ucast len :: u32); n = (if n0 > room then room else n0)
                in if n = 0 then tfail EAGAIN l else send_bytes (the ctx) k buf n sin l))"

text \<open>The result also has the sender's address, if asked for, and the caller's buffer.\<close>

definition tcp_recvfrom ::
  "nat option \<Rightarrow> int \<Rightarrow> bytes \<Rightarrow> csize \<Rightarrow> sockaddr option \<Rightarrow> nat \<Rightarrow> tcp_lib \<Rightarrow> tlib_fault + int \<times> sockaddr option \<times> bytes \<times> tcp_lib" where
  "tcp_recvfrom ctx sockfd buf len addr addr_len l =
     (let fail = (\<lambda>e. Inr (-1, addr, buf, set_errno e l))
      in case tlookup_sock l ctx sockfd of Inl e \<Rightarrow> fail e
         | Inr k \<Rightarrow>
           let s = tb_socks l k; x = the ctx
           in if tl_state s \<noteq> TCP_LIB_STATE_ESTABLISHED \<and> tl_state s \<noteq> TCP_LIB_STATE_CLOSING then fail ENOTCONN
           else if addr \<noteq> None \<and> addr_len < SOCKADDR_IN_LEN then fail EINVAL
           else let n0 = (ucast len :: u32); n = (if n0 > tl_rx_avail s then tl_rx_avail s else n0)
           in if n = 0 then fail EAGAIN
           else let addr1 = map_option (\<lambda>_. (AF_INET, t_beui32 (tl_remote_ip s), t_beui16 (tl_remote_port s))) addr;
                    buf1 = ring_load buf 0 (tb_shm l) (unat (tl_rx_buf s)) (tl_rx_len s) (tl_rx_head s) n;
                    s1 = s\<lparr>tl_rx_avail := tl_rx_avail s - n, tl_rx_head := ring_wrap (tl_rx_len s) (tl_rx_head s + n),
                           tl_rx_bump_pending := tl_rx_bump_pending s + n\<rparr>;
                    l2 = sock_mark_bump x k (put_tsock k s1 l); s2 = tb_socks l2 k
           in if tl_rx_avail s = tl_rx_len s \<or> tl_rx_bump_pending s2 \<ge> sock_rx_bump_thresh s2
              then (case sock_flush_bumps x k l2 of Inl f \<Rightarrow> Inl f | Inr l3 \<Rightarrow> Inr (sint n, addr1, buf1, l3))
              else Inr (sint n, addr1, buf1, l2))"

section \<open>Closing\<close>

definition tcp_shutdown :: "nat option \<Rightarrow> int \<Rightarrow> int \<Rightarrow> tcp_lib \<Rightarrow> tlib_result" where
  "tcp_shutdown ctx sockfd how l =
     (case tlookup_sock l ctx sockfd of Inl e \<Rightarrow> tfail e l
      | Inr k \<Rightarrow>
        if how \<noteq> uint SHUT_RDWR then tfail EINVAL l
        else if tl_state (tb_socks l k) \<noteq> TCP_LIB_STATE_ESTABLISHED \<and> tl_state (tb_socks l k) \<noteq> TCP_LIB_STATE_CLOSING then tfail ENOTCONN l
        else (case tcp_flush_bumps (the ctx) l of Inl f \<Rightarrow> Inl f
              | Inr l1 \<Rightarrow>
                (case tlib_request (the ctx) (A_shutdown_req \<lparr>hq_sock_id = tl_sock_id (tb_socks l1 k), hq_how = of_int how, hq_opaque = sock_ptr k\<rparr>)
                        TCP_QUEUE_SHUTDOWN_REQ l1 of (ret, l2) \<Rightarrow>
                   if ret \<noteq> 0 then tfail EAGAIN l2
                   else Inr (0, upd_tsock k (\<lambda>s. s\<lparr>tl_state := TCP_LIB_STATE_CLOSING\<rparr>) l2))))"

text \<open>A full queue to the slow path does not keep the socket from being closed.\<close>

definition tcp_close :: "nat option \<Rightarrow> int \<Rightarrow> tcp_lib \<Rightarrow> tlib_result" where
  "tcp_close ctx sockfd l =
     (case tlookup_sock l ctx sockfd of Inl e \<Rightarrow> tfail e l
      | Inr k \<Rightarrow>
        (case tcp_flush_bumps (the ctx) l of Inl f \<Rightarrow> Inl f
         | Inr l1 \<Rightarrow>
           (let q = tc_app_slow_q (tb_ctxs l1 (the ctx));
                r = (if queue_tail (fst q) (snd q) = None then (0, l1)
                     else tlib_request (the ctx) (A_close_req \<lparr>xq_sock_id = tl_sock_id (tb_socks l1 k), xq_opaque = sock_ptr k\<rparr>) TCP_QUEUE_CLOSE_REQ l1)
            in if fst r \<noteq> 0 then tfail EAGAIN (snd r)
               else Inr (0, upd_tsock k (\<lambda>s. s\<lparr>tl_state := TCP_LIB_STATE_CLOSED, tl_fd := SOCK_INACTIVE\<rparr>) (snd r)))))"

section \<open>Messages from the fast path\<close>

definition handle_tx_bump :: "tcp_queue_bump_app_tx \<Rightarrow> nat \<Rightarrow> tcp_lib \<Rightarrow> tlib_fault + tcp_lib" where
  "handle_tx_bump b k l =
     (let s = tb_socks l k
      in if tl_fd s = SOCK_INACTIVE \<or> tl_tx_len s = 0 then Inr l
      else let tx_bump = (if bat_tx_head b > tl_tx_avail s then tl_tx_avail s else bat_tx_head b)
      in if tx_bump = 0 then Inr l
      else let s1 = s\<lparr>tl_tx_head := ring_wrap (tl_tx_len s) (tl_tx_head s + tx_bump), tl_tx_avail := tl_tx_avail s - tx_bump\<rparr>;
               l1 = put_tsock k s1 l
      in case tl_ctx s1 of
           Some x \<Rightarrow> if tl_tx_bump_pending s1 \<noteq> 0 \<and> tl_fd s1 \<noteq> SOCK_INACTIVE \<and> tl_tx_avail s1 = tl_tx_bump_pending s1
                     then sock_flush_bumps x k l1 else Inr l1
         | None \<Rightarrow> Inr l1)"

definition handle_rx_bump :: "tcp_queue_bump_app_rx \<Rightarrow> nat \<Rightarrow> tcp_lib \<Rightarrow> tcp_lib" where
  "handle_rx_bump b k l =
     (let s = tb_socks l k
      in if tl_fd s = SOCK_INACTIVE \<or> tl_rx_len s = 0 then l
      else let free_bytes = tl_rx_len s - tl_rx_avail s; rx_bump = (if bar_rx_avail b > free_bytes then free_bytes else bar_rx_avail b)
      in if rx_bump = 0 then l
      else put_tsock k (s\<lparr>tl_rx_avail := tl_rx_avail s + rx_bump, tl_remote_port := bar_rx_port b, tl_remote_ip := bar_rx_ip b\<rparr>) l)"

text \<open>Both handlers ignore the null pointer.\<close>

definition tlib_fast_msg :: "tcp_qdata qslot \<Rightarrow> tcp_lib \<Rightarrow> tlib_fault + tcp_lib" where
  "tlib_fast_msg m l =
     (case qs_data m of
        TQ_bump_app_tx b \<Rightarrow>
          if qs_type m \<noteq> TCP_QUEUE_BUMP_APP_TX then Inl TL_UnknownMessage
          else (case sock_deref (bat_opaque b) of Inl f \<Rightarrow> Inl f | Inr None \<Rightarrow> Inr l | Inr (Some k) \<Rightarrow> handle_tx_bump b k l)
      | TQ_bump_app_rx b \<Rightarrow>
          if qs_type m \<noteq> TCP_QUEUE_BUMP_APP_RX then Inl TL_UnknownMessage
          else (case sock_deref (bar_opaque b) of Inl f \<Rightarrow> Inl f | Inr None \<Rightarrow> Inr l | Inr (Some k) \<Rightarrow> Inr (handle_rx_bump b k l))
      | _ \<Rightarrow> Inl TL_UnknownMessage)"

text \<open>As in the UDP library, a ring of \<open>n\<close> slots needs at most \<open>n\<close> rounds and a last test.\<close>

fun tlib_poll_core :: "nat \<Rightarrow> nat \<Rightarrow> nat \<Rightarrow> nat \<times> tcp_lib \<Rightarrow> tlib_fault + nat \<times> tcp_lib" where
  "tlib_poll_core x i 0 (n, l) = Inr (n, l)"
| "tlib_poll_core x i (Suc fuel) (n, l) =
     (let q = tc_fast_app_qs (tb_ctxs l x) i
      in case queue_head (fst q) (snd q) of None \<Rightarrow> Inr (n, l)
         | Some pos \<Rightarrow>
             (case tlib_fast_msg (snd q pos) l of Inl f \<Rightarrow> Inl f
              | Inr l1 \<Rightarrow>
                (case queue_dequeue (fst q) (snd q) of (ret, q') \<Rightarrow>
                   tlib_poll_core x i fuel (n + 1, upd_tctx x (\<lambda>cx. cx\<lparr>tc_fast_app_qs := (tc_fast_app_qs cx)(i := q')\<rparr>) l1))))"

fun tlib_poll_cores :: "nat \<Rightarrow> nat list \<Rightarrow> nat \<times> tcp_lib \<Rightarrow> tlib_fault + nat \<times> tcp_lib" where
  "tlib_poll_cores x [] (n, l) = Inr (n, l)"
| "tlib_poll_cores x (i # is) (n, l) =
     (case tlib_poll_core x i (unat (dq_nelems (fst (tc_fast_app_qs (tb_ctxs l x) i))) + 1) (n, l) of Inl f \<Rightarrow> Inl f
      | Inr nl \<Rightarrow> tlib_poll_cores x is nl)"

definition tcp_poll_fast :: "nat \<Rightarrow> tcp_lib \<Rightarrow> tlib_fault + nat \<times> tcp_lib" where
  "tcp_poll_fast x l =
     (case tcp_flush_bumps x l of Inl f \<Rightarrow> Inl f
      | Inr l1 \<Rightarrow> tlib_poll_cores x [0..<unat (tc_ncores (tb_ctxs l1 x))] (0, l1))"

section \<open>Messages from the slow path\<close>

definition handle_new_sock_res :: "tcp_queue_new_sock_res \<Rightarrow> tcp_socket_lib \<Rightarrow> tcp_socket_lib" where
  "handle_new_sock_res r s =
     s\<lparr>tl_core := nsr_core r, tl_sock_id := nsr_sock_id r, tl_rx_qid := nsr_rx_qid r, tl_rx_len := nsr_rx_len r, tl_rx_buf := nsr_rx_off r,
       tl_tx_qid := nsr_tx_qid r, tl_tx_len := nsr_tx_len r, tl_tx_buf := nsr_tx_off r\<rparr>"

definition unconnected_state :: "tcp_socket_lib \<Rightarrow> tcp_lib_state" where
  "unconnected_state s = (if tl_local_port s \<noteq> 0 then TCP_LIB_STATE_BOUND else TCP_LIB_STATE_INIT)"

definition handle_connect_res :: "tcp_queue_connect_res \<Rightarrow> tcp_socket_lib \<Rightarrow> tcp_socket_lib" where
  "handle_connect_res r s =
     (if tl_state s = TCP_LIB_STATE_CLOSED \<or> tl_fd s = SOCK_INACTIVE then s
      else if cs_status r = 0
      then s\<lparr>tl_op_status := 0, tl_core := cs_core r, tl_local_ip := cs_local_ip r, tl_local_port := cs_local_port r,
             tl_remote_ip := cs_remote_ip r, tl_remote_port := cs_remote_port r, tl_state := TCP_LIB_STATE_ESTABLISHED\<rparr>
      else s\<lparr>tl_op_status := cs_status r, tl_state := unconnected_state s\<rparr>)"

definition handle_listen_res :: "tcp_queue_listen_res \<Rightarrow> tcp_socket_lib \<Rightarrow> tcp_socket_lib" where
  "handle_listen_res r s =
     (if tl_state s = TCP_LIB_STATE_CLOSED \<or> tl_fd s = SOCK_INACTIVE then s
      else s\<lparr>tl_op_status := lr_status r, tl_state := (if lr_status r = 0 then TCP_LIB_STATE_LISTEN else unconnected_state s)\<rparr>)"

definition handle_listen_newconn :: "tcp_socket_lib \<Rightarrow> tcp_socket_lib" where
  "handle_listen_newconn s = (if tl_state s \<noteq> TCP_LIB_STATE_LISTEN then s else s\<lparr>tl_pending_conn := tl_pending_conn s + 1\<rparr>)"

definition accept_fill :: "tcp_queue_accept_res \<Rightarrow> tcp_socket_lib \<Rightarrow> tcp_socket_lib" where
  "accept_fill r s =
     (if as_status r \<noteq> 0 then s\<lparr>tl_op_status := as_status r\<rparr>
      else s\<lparr>tl_op_status := 0, tl_core := as_core r, tl_sock_id := as_sock_id r, tl_rx_qid := as_rx_qid r, tl_rx_len := as_rx_len r,
             tl_rx_buf := as_rx_off r, tl_tx_qid := as_tx_qid r, tl_tx_len := as_tx_len r, tl_tx_buf := as_tx_off r,
             tl_local_ip := as_local_ip r, tl_local_port := as_local_port r, tl_remote_ip := as_remote_ip r,
             tl_remote_port := as_remote_port r, tl_state := TCP_LIB_STATE_ESTABLISHED\<rparr>)"

definition handle_accept_res :: "tcp_queue_accept_res \<Rightarrow> nat \<Rightarrow> tcp_lib \<Rightarrow> tlib_fault + tcp_lib" where
  "handle_accept_res r k l =
     (let s = tb_socks l k
      in if tl_fd s = SOCK_INACTIVE \<and> tl_state s = TCP_LIB_STATE_CLOSED then Inr l
      else case sock_deref (as_listen_opaque r) of Inl f \<Rightarrow> Inl f
      | Inr lp \<Rightarrow>
        let l1 = (case lp of None \<Rightarrow> l
                  | Some j \<Rightarrow> if tl_pending_conn (tb_socks l j) > 0 then upd_tsock j (\<lambda>s. s\<lparr>tl_pending_conn := tl_pending_conn s - 1\<rparr>) l else l)
        in Inr (upd_tsock k (accept_fill r) l1))"

text \<open>These handlers follow the pointer without a test for the null pointer.\<close>

definition on_opaque :: "u64 \<Rightarrow> (nat \<Rightarrow> tlib_fault + tcp_lib) \<Rightarrow> tlib_fault + tcp_lib" where
  "on_opaque p f = (case sock_deref p of Inl e \<Rightarrow> Inl e | Inr None \<Rightarrow> Inl TL_BadOpaque | Inr (Some k) \<Rightarrow> f k)"

definition tlib_slow_msg :: "tcp_app_data qslot \<Rightarrow> tcp_lib \<Rightarrow> tlib_fault + tcp_lib" where
  "tlib_slow_msg m l =
     (let upd = (\<lambda>p f. on_opaque p (\<lambda>k. Inr (upd_tsock k f l))); ty = qs_type m; bad = Inl TL_UnknownMessage
      in case qs_data m of
           A_new_sock_res r \<Rightarrow> if ty = TCP_QUEUE_NEW_SOCK_RES then upd (nsr_opaque r) (handle_new_sock_res r) else bad
         | A_bind_res r \<Rightarrow> if ty = TCP_QUEUE_BIND_RES then upd (bs_opaque r) (\<lambda>s. s\<lparr>tl_bind_success := uint (bs_success r)\<rparr>) else bad
         | A_setopt_res r \<Rightarrow> if ty = TCP_QUEUE_SETOPT_RES then upd (ss_opaque r) (\<lambda>s. s\<lparr>tl_setopt_success := uint (ss_success r)\<rparr>) else bad
         | A_connect_res r \<Rightarrow> if ty = TCP_QUEUE_CONNECT_RES then upd (cs_opaque r) (handle_connect_res r) else bad
         | A_listen_res r \<Rightarrow> if ty = TCP_QUEUE_LISTEN_RES then upd (lr_opaque r) (handle_listen_res r) else bad
         | A_listen_newconn r \<Rightarrow> if ty = TCP_QUEUE_LISTEN_NEWCONN then upd (ln_opaque r) handle_listen_newconn else bad
         | A_accept_res r \<Rightarrow> if ty = TCP_QUEUE_ACCEPT_RES then on_opaque (as_opaque r) (\<lambda>k. handle_accept_res r k l) else bad
         | _ \<Rightarrow> bad)"

fun tlib_slow_loop :: "nat \<Rightarrow> nat \<Rightarrow> tcp_lib \<Rightarrow> tlib_result" where
  "tlib_slow_loop x 0 l = Inr (int TLIB_BATCH, l)"
| "tlib_slow_loop x (Suc n) l =
     (let q = tc_slow_app_q (tb_ctxs l x)
      in case queue_head (fst q) (snd q) of None \<Rightarrow> Inr (-1, l)
         | Some pos \<Rightarrow>
             (case tlib_slow_msg (snd q pos) l of Inl f \<Rightarrow> Inl f
              | Inr l1 \<Rightarrow>
                (case queue_dequeue (fst q) (snd q) of (ret, q') \<Rightarrow> tlib_slow_loop x n (upd_tctx x (\<lambda>cx. cx\<lparr>tc_slow_app_q := q'\<rparr>) l1))))"

definition tcp_poll_slow :: "nat \<Rightarrow> tcp_lib \<Rightarrow> tlib_result" where
  "tcp_poll_slow x l = tlib_slow_loop x TLIB_BATCH l"

section \<open>Waiting\<close>

definition sock_wait_events :: "tcp_socket_lib \<Rightarrow> u32" where
  "sock_wait_events s =
     (let est = (tl_state s = TCP_LIB_STATE_ESTABLISHED); closing = (tl_state s = TCP_LIB_STATE_CLOSING)
      in if tl_fd s = SOCK_INACTIVE then 0
      else (if tl_rx_len s \<noteq> 0 then TCP_WAIT_SOCKET else 0) OR
           (if tl_bind_success s \<noteq> -1 then TCP_WAIT_BIND else 0) OR
           (if tl_setopt_success s \<noteq> -1 then TCP_WAIT_SETOPT else 0) OR
           (if tl_op_status s \<noteq> TCP_LIB_STATUS_IDLE \<and> tl_op_status s \<noteq> TCP_LIB_STATUS_PENDING then TCP_WAIT_OP else 0) OR
           (if tl_state s = TCP_LIB_STATE_LISTEN \<and> tl_pending_conn s > 0 then TCP_WAIT_IN OR TCP_WAIT_ACCEPT else 0) OR
           (if (est \<or> closing) \<and> tl_rx_avail s > 0 then TCP_WAIT_IN else 0) OR
           (if est \<and> tl_tx_len s \<noteq> 0 \<and> tl_tx_avail s < tl_tx_len s then TCP_WAIT_OUT else 0) OR
           (if est \<and> tl_op_status s = 0 then TCP_WAIT_CONNECTED else 0) OR
           (if closing \<or> tl_state s = TCP_LIB_STATE_CLOSED then TCP_WAIT_CLOSED else 0))"

datatype tcp_wait_poll_mode = TCP_WAIT_POLL_BOTH | TCP_WAIT_POLL_FAST | TCP_WAIT_POLL_SLOW

definition twait_poll_ctx :: "nat \<Rightarrow> tcp_wait_poll_mode \<Rightarrow> tcp_lib \<Rightarrow> tlib_fault + tcp_lib" where
  "twait_poll_ctx x mode l =
     (case tcp_flush_bumps x l of Inl f \<Rightarrow> Inl f
      | Inr l0 \<Rightarrow>
        (case (if mode \<noteq> TCP_WAIT_POLL_FAST then tcp_poll_slow x l0 else Inr (0, l0)) of Inl f \<Rightarrow> Inl f
         | Inr (_, l1) \<Rightarrow>
           (case (if mode \<noteq> TCP_WAIT_POLL_SLOW then tcp_poll_fast x l1 else Inr (0, l1)) of Inl f \<Rightarrow> Inl f
            | Inr (_, l2) \<Rightarrow> Inr l2)))"

text \<open>The test of \<^verbatim>\<open>wait_until\<close>, which polls the slow path until it holds.\<close>

definition twait_over :: "tcp_lib \<Rightarrow> nat \<Rightarrow> u32 \<Rightarrow> bool" where
  "twait_over l k events \<longleftrightarrow> sock_wait_events (tb_socks l k) AND events \<noteq> 0"

definition tcp_wait_new :: "bool \<Rightarrow> tcp_lib \<Rightarrow> nat option \<Rightarrow> int + wait_obj" where
  "tcp_wait_new malloc_ok l ctx = wait_new malloc_ok (tb_up l) ctx"

definition tcp_wait_add :: "tcp_lib \<Rightarrow> wait_obj option \<Rightarrow> int \<Rightarrow> u32 \<Rightarrow> u64 \<Rightarrow> int + wait_obj" where
  "tcp_wait_add l wait sockfd events data =
     (case wait of None \<Rightarrow> Inl EINVAL | Some w \<Rightarrow> wait_add (tlookup_sock l (Some (wt_ctx w)) sockfd) w events data)"

definition tcp_wait_mod :: "tcp_lib \<Rightarrow> wait_obj option \<Rightarrow> int \<Rightarrow> u32 \<Rightarrow> u64 \<Rightarrow> int + wait_obj" where
  "tcp_wait_mod l wait sockfd events data =
     (case wait of None \<Rightarrow> Inl EINVAL | Some w \<Rightarrow> wait_mod (tlookup_sock l (Some (wt_ctx w)) sockfd) w events data)"

definition tcp_wait_del :: "wait_obj option \<Rightarrow> int \<Rightarrow> int + wait_obj" where
  "tcp_wait_del wait sockfd = (case wait of None \<Rightarrow> Inl EINVAL | Some w \<Rightarrow> wait_del w sockfd)"

definition twait_collect :: "tcp_lib \<Rightarrow> wait_obj \<Rightarrow> nat \<Rightarrow> wait_event list" where
  "twait_collect l w maxevents =
     wait_collect (\<lambda>k. tl_fd (tb_socks l k) = SOCK_INACTIVE) (\<lambda>k. sock_wait_events (tb_socks l k)) w maxevents"

interpretation tcpw: wait_client "tlookup_sock l" "\<lambda>k. tl_fd (tb_socks l k) = SOCK_INACTIVE" "\<lambda>k. sock_wait_events (tb_socks l k)" for l
  by unfold_locales (auto simp: tlookup_sock_def sock_wait_events_def Let_def split: if_splits)

text \<open>One round of \<^verbatim>\<open>wait\<close>: \<^verbatim>\<open>Inl\<close> the returned value and events, \<^verbatim>\<open>Inr\<close> the state from which it goes on. The caller's array is not null.\<close>

definition twait_round ::
  "wait_obj option \<Rightarrow> int \<Rightarrow> u32 \<Rightarrow> tcp_wait_poll_mode \<Rightarrow> tcp_lib \<Rightarrow> tlib_fault + (int \<times> wait_event list) \<times> tcp_lib + tcp_lib" where
  "twait_round wait maxevents flags mode l =
     (case wait of None \<Rightarrow> Inr (Inl ((-1, []), set_errno EINVAL l))
      | Some w \<Rightarrow>
        if maxevents \<le> 0 then Inr (Inl ((-1, []), set_errno EINVAL l))
        else let evs = twait_collect l w (nat maxevents)
        in if evs \<noteq> [] then Inr (Inl ((int (length evs), evs), l))
        else (case twait_poll_ctx (wt_ctx w) mode l of Inl f \<Rightarrow> Inl f
              | Inr l1 \<Rightarrow>
                let evs1 = twait_collect l1 w (nat maxevents)
                in if evs1 \<noteq> [] then Inr (Inl ((int (length evs1), evs1), l1))
                   else if flags AND TCP_WAIT_NONBLOCK \<noteq> 0 then Inr (Inl ((0, []), l1)) else Inr (Inr l1)))"

end
