(* ===== verification/Tcp_Lib_Wf.thy ===== *)
theory Tcp_Lib_Wf
  imports Tcp_Lib
begin

unbundle bit_operations_syntax

text \<open>
  The invariant of the TCP library: ring positions stay inside the rings, and the sockets with
  something to announce are on the list of their context, which has no cycle.
\<close>

section \<open>Projections\<close>

lemma put_t_simps [simp]:
  "tb_socks (put_tsock k s l) = (tb_socks l)(k := s)" "tb_ctxs (put_tsock k s l) = tb_ctxs l" "tb_next_sockfd (put_tsock k s l) = tb_next_sockfd l"
  "tb_shm (put_tsock k s l) = tb_shm l" "tb_up (put_tsock k s l) = tb_up l" "tb_errno (put_tsock k s l) = tb_errno l"
  "tb_socks (put_tctx x cx l) = tb_socks l" "tb_ctxs (put_tctx x cx l) = (tb_ctxs l)(x := cx)" "tb_next_sockfd (put_tctx x cx l) = tb_next_sockfd l"
  "tb_shm (put_tctx x cx l) = tb_shm l" "tb_up (put_tctx x cx l) = tb_up l" "tb_errno (put_tctx x cx l) = tb_errno l"
  by (simp_all add: put_tsock_def put_tctx_def)

lemma upd_t_simps [simp]:
  "tb_socks (upd_tsock k f l) = (tb_socks l)(k := f (tb_socks l k))" "tb_ctxs (upd_tsock k f l) = tb_ctxs l"
  "tb_next_sockfd (upd_tsock k f l) = tb_next_sockfd l" "tb_shm (upd_tsock k f l) = tb_shm l" "tb_up (upd_tsock k f l) = tb_up l"
  "tb_errno (upd_tsock k f l) = tb_errno l"
  "tb_socks (upd_tctx x g l) = tb_socks l" "tb_ctxs (upd_tctx x g l) = (tb_ctxs l)(x := g (tb_ctxs l x))"
  "tb_next_sockfd (upd_tctx x g l) = tb_next_sockfd l" "tb_shm (upd_tctx x g l) = tb_shm l" "tb_up (upd_tctx x g l) = tb_up l"
  "tb_errno (upd_tctx x g l) = tb_errno l"
  by (simp_all add: upd_tsock_def upd_tctx_def)

lemma set_errno_simps [simp]:
  "tb_socks (set_errno e l) = tb_socks l" "tb_ctxs (set_errno e l) = tb_ctxs l" "tb_next_sockfd (set_errno e l) = tb_next_sockfd l"
  "tb_shm (set_errno e l) = tb_shm l" "tb_up (set_errno e l) = tb_up l" "tb_errno (set_errno e l) = e"
  by (simp_all add: set_errno_def)

section \<open>The list of a context\<close>

primrec bseg :: "(nat \<Rightarrow> tcp_socket_lib) \<Rightarrow> int \<Rightarrow> nat list \<Rightarrow> int \<Rightarrow> bool" where
  "bseg f p [] e \<longleftrightarrow> p = e"
| "bseg f p (k # ks) e \<longleftrightarrow> p = int k \<and> bseg f (tl_bump_next (f k)) ks e"

lemma bseg_append [simp]: "bseg f p (ks @ js) e \<longleftrightarrow> (\<exists>q. bseg f p ks q \<and> bseg f q js e)"
  by (induction ks arbitrary: p) auto

lemma bseg_cong: "bseg f p ks e \<Longrightarrow> (\<And>k. k \<in> set ks \<Longrightarrow> tl_bump_next (g k) = tl_bump_next (f k)) \<Longrightarrow> bseg g p ks e"
  by (induction ks arbitrary: p) auto

text \<open>Linking a new last element.\<close>

lemma bseg_snoc:
  assumes "bseg f p (ks @ [j]) (-1)" "distinct (ks @ [j])" "k \<notin> set (ks @ [j])"
  shows "bseg (f(j := (f j)\<lparr>tl_bump_next := int k\<rparr>, k := s\<lparr>tl_bump_next := -1\<rparr>)) p (ks @ [j, k]) (-1)"
proof -
  let ?g = "f(j := (f j)\<lparr>tl_bump_next := int k\<rparr>, k := s\<lparr>tl_bump_next := -1\<rparr>)"
  have "bseg f p ks (int j)" using assms(1) by auto
  then have "bseg ?g p ks (int j)" by (rule bseg_cong) (use assms(2,3) in auto)
  then show ?thesis using assms(3) by auto
qed

definition bump_list :: "tcp_lib \<Rightarrow> nat \<Rightarrow> nat list \<Rightarrow> bool" where
  "bump_list l x ns \<longleftrightarrow>
     bseg (tb_socks l) (tc_bump_head (tb_ctxs l x)) ns TCP_BUMP_NONE \<and> distinct ns \<and>
     tc_bump_tail (tb_ctxs l x) = (if ns = [] then TCP_BUMP_NONE else int (last ns))"

definition pend_set :: "tcp_lib \<Rightarrow> nat \<Rightarrow> nat set" where
  "pend_set l x = {k. tl_bump_pending (tb_socks l k) \<and> tl_ctx (tb_socks l k) = Some x}"

section \<open>The invariant\<close>

abbreviation sock_active :: "tcp_socket_lib \<Rightarrow> bool" where
  "sock_active s \<equiv> tl_fd s \<noteq> SOCK_INACTIVE"

definition has_bumps :: "tcp_socket_lib \<Rightarrow> bool" where
  "has_bumps s \<longleftrightarrow> tl_tx_bump_pending s \<noteq> 0 \<or> tl_rx_bump_pending s \<noteq> 0"

definition ring_sane :: "u32 \<Rightarrow> u32 \<Rightarrow> u32 \<Rightarrow> bool" where
  "ring_sane len avail head \<longleftrightarrow>
     (if len = 0 then avail = 0 \<and> head = 0 else unat head < unat len \<and> unat avail \<le> unat len \<and> unat len < 2 ^ 31)"

text \<open>\<open>nc x\<close> is the number of cores context \<open>x\<close> has queues for.\<close>

definition tsock_ok :: "(nat \<Rightarrow> nat) \<Rightarrow> nat \<Rightarrow> tcp_socket_lib \<Rightarrow> bool" where
  "tsock_ok nc k s \<longleftrightarrow>
     (sock_active s \<longrightarrow> tl_fd s = int k \<and> k < LIB_MAX_SOCKETS \<and> (\<exists>x. tl_ctx s = Some x \<and> unat (tl_core s) < nc x)) \<and>
     (tl_bump_pending s \<longrightarrow> k < LIB_MAX_SOCKETS \<and> tl_ctx s \<noteq> None) \<and>
     ring_sane (tl_rx_len s) (tl_rx_avail s) (tl_rx_head s) \<and> ring_sane (tl_tx_len s) (tl_tx_avail s) (tl_tx_head s)"

abbreviation ncores :: "tcp_lib \<Rightarrow> nat \<Rightarrow> nat" where
  "ncores l x \<equiv> unat (tc_ncores (tb_ctxs l x))"

text \<open>
  While the list of \<open>x\<close> is flushed, \<open>ks\<close> is what is left of the old list, starting at \<open>fd\<close>; sockets in \<open>E\<close>
  may have bumps without being on a list.
\<close>

definition tlib_inv :: "nat set \<Rightarrow> nat \<Rightarrow> int \<Rightarrow> nat list \<Rightarrow> tcp_lib \<Rightarrow> bool" where
  "tlib_inv E x fd ks l \<longleftrightarrow>
     0 \<le> tb_next_sockfd l \<and> (\<forall>k. tb_next_sockfd l \<le> int k \<longrightarrow> \<not> sock_active (tb_socks l k) \<and> \<not> tl_bump_pending (tb_socks l k)) \<and>
     (\<forall>k. tsock_ok (ncores l) k (tb_socks l k)) \<and>
     (\<forall>k. k \<notin> E \<longrightarrow> sock_active (tb_socks l k) \<longrightarrow> has_bumps (tb_socks l k) \<longrightarrow> tl_bump_pending (tb_socks l k)) \<and>
     bseg (tb_socks l) fd ks TCP_BUMP_NONE \<and>
     (\<forall>y. \<exists>ns. bump_list l y ns \<and> distinct ((if y = x then ks else []) @ ns) \<and> set ((if y = x then ks else []) @ ns) = pend_set l y)"

definition tlib_wf :: "tcp_lib \<Rightarrow> bool" where
  "tlib_wf l \<longleftrightarrow> tlib_inv {} 0 TCP_BUMP_NONE [] l"

lemma tlib_wf_at: "tlib_wf l \<longleftrightarrow> tlib_inv {} x TCP_BUMP_NONE [] l"
  by (simp add: tlib_wf_def tlib_inv_def)

lemma tlib_invD:
  assumes "tlib_inv E x fd ks l"
  shows "0 \<le> tb_next_sockfd l" "tb_next_sockfd l \<le> int k \<Longrightarrow> \<not> sock_active (tb_socks l k) \<and> \<not> tl_bump_pending (tb_socks l k)"
    and "tsock_ok (ncores l) k (tb_socks l k)"
    and "k \<notin> E \<Longrightarrow> sock_active (tb_socks l k) \<Longrightarrow> has_bumps (tb_socks l k) \<Longrightarrow> tl_bump_pending (tb_socks l k)"
    and "bseg (tb_socks l) fd ks TCP_BUMP_NONE"
    and "\<exists>ns. bump_list l y ns \<and> distinct ((if y = x then ks else []) @ ns) \<and> set ((if y = x then ks else []) @ ns) = pend_set l y"
  using assms unfolding tlib_inv_def by blast+

lemma tlib_inv_unmarked:
  assumes "tlib_inv {k} x fd ks l" "\<not> sock_active (tb_socks l k) \<or> \<not> has_bumps (tb_socks l k)"
  shows "tlib_inv {} x fd ks l"
proof -
  have "tl_bump_pending (tb_socks l j)" if "sock_active (tb_socks l j)" "has_bumps (tb_socks l j)" for j
    using tlib_invD(4) [OF assms(1), of j] assms(2) that by (cases "j = k") auto
  then show ?thesis using assms(1) unfolding tlib_inv_def by blast
qed

lemma tlib_inv_mono: "tlib_inv E x fd ks l \<Longrightarrow> E \<subseteq> F \<Longrightarrow> tlib_inv F x fd ks l"
  unfolding tlib_inv_def by blast

text \<open>
  Changes that leave the lists alone: sockets on a list keep their link and context, others may be
  anything, and a descriptor may become active once it has been given out.
\<close>

lemma tlib_inv_step:
  assumes inv: "tlib_inv E x fd ks l" and nx: "tb_next_sockfd l \<le> tb_next_sockfd l'"
    and pend: "\<And>k. tl_bump_pending (tb_socks l' k) = tl_bump_pending (tb_socks l k)"
    and links: "\<And>k. tl_bump_pending (tb_socks l k) \<Longrightarrow>
        tl_bump_next (tb_socks l' k) = tl_bump_next (tb_socks l k) \<and> tl_ctx (tb_socks l' k) = tl_ctx (tb_socks l k)"
    and ok: "\<And>k. tsock_ok (ncores l) k (tb_socks l' k)"
    and act: "\<And>k. sock_active (tb_socks l' k) \<Longrightarrow> sock_active (tb_socks l k) \<or> int k < tb_next_sockfd l'"
    and mk: "\<And>k. k \<notin> F \<Longrightarrow> sock_active (tb_socks l' k) \<Longrightarrow> has_bumps (tb_socks l' k) \<Longrightarrow> tl_bump_pending (tb_socks l' k)"
    and ctxs: "\<And>y. tc_ncores (tb_ctxs l' y) = tc_ncores (tb_ctxs l y)" "\<And>y. tc_bump_head (tb_ctxs l' y) = tc_bump_head (tb_ctxs l y)"
      "\<And>y. tc_bump_tail (tb_ctxs l' y) = tc_bump_tail (tb_ctxs l y)"
  shows "tlib_inv F x fd ks l'"
proof -
  have seg: "bseg (tb_socks l') p ns e" if "bseg (tb_socks l) p ns e" "set ns \<subseteq> pend_set l y" for p ns e y
    by (rule bseg_cong [OF that(1)]) (use links that(2) in \<open>auto simp: pend_set_def\<close>)
  have ps: "pend_set l' y = pend_set l y" for y using pend links by (auto simp: pend_set_def)
  have lists: "\<exists>ns. bump_list l' y ns \<and> distinct ((if y = x then ks else []) @ ns) \<and> set ((if y = x then ks else []) @ ns) = pend_set l' y" for y
  proof -
    obtain ns where ns: "bump_list l y ns" "distinct ((if y = x then ks else []) @ ns)" "set ((if y = x then ks else []) @ ns) = pend_set l y"
      using tlib_invD(6) [OF inv] by blast
    have "set ns \<subseteq> pend_set l y" unfolding ns(3) [symmetric] by (simp only: set_append Un_upper2)
    then have "bump_list l' y ns" using ns(1) seg unfolding bump_list_def ctxs by blast
    then show ?thesis using ns(2,3) unfolding ps by blast
  qed
  have "set ks \<subseteq> pend_set l x" using tlib_invD(6) [OF inv, of x] by auto
  then have sg: "bseg (tb_socks l') fd ks TCP_BUMP_NONE" using seg tlib_invD(5) [OF inv] by blast
  have fresh: "\<not> sock_active (tb_socks l' k) \<and> \<not> tl_bump_pending (tb_socks l' k)" if "tb_next_sockfd l' \<le> int k" for k
    using tlib_invD(2) [OF inv, of k] that nx pend [of k] act [of k] by linarith
  have "0 \<le> tb_next_sockfd l'" using tlib_invD(1) [OF inv] nx by simp
  then show ?thesis unfolding tlib_inv_def ctxs using fresh ok mk sg lists by blast
qed

lemma tlib_inv_frame:
  assumes inv: "tlib_inv E x fd ks l" and "tb_next_sockfd l' = tb_next_sockfd l"
    and "\<And>k. tl_bump_pending (tb_socks l' k) = tl_bump_pending (tb_socks l k)" "\<And>k. tl_bump_next (tb_socks l' k) = tl_bump_next (tb_socks l k)"
      "\<And>k. tl_ctx (tb_socks l' k) = tl_ctx (tb_socks l k)"
      "\<And>k. tsock_ok (ncores l) k (tb_socks l' k)" "\<And>k. sock_active (tb_socks l' k) \<Longrightarrow> sock_active (tb_socks l k)"
      "\<And>k. k \<notin> F \<Longrightarrow> sock_active (tb_socks l' k) \<Longrightarrow> has_bumps (tb_socks l' k) \<Longrightarrow> tl_bump_pending (tb_socks l' k)"
    and "\<And>y. tc_ncores (tb_ctxs l' y) = tc_ncores (tb_ctxs l y)" "\<And>y. tc_bump_head (tb_ctxs l' y) = tc_bump_head (tb_ctxs l y)"
      "\<And>y. tc_bump_tail (tb_ctxs l' y) = tc_bump_tail (tb_ctxs l y)"
  shows "tlib_inv F x fd ks l'"
  by (rule tlib_inv_step [OF inv]) (use assms(2-) in \<open>blast | simp\<close>)+

lemma tlib_inv_ctx:
  assumes "tlib_inv E x fd ks l"
    and "\<And>cx. tc_ncores (g cx) = tc_ncores cx" "\<And>cx. tc_bump_head (g cx) = tc_bump_head cx" "\<And>cx. tc_bump_tail (g cx) = tc_bump_tail cx"
  shows "tlib_inv E x fd ks (upd_tctx y g l)"
  by (rule tlib_inv_frame [OF assms(1)]) (use assms(2-) tlib_invD(3,4) [OF assms(1)] in simp_all)

lemma tlib_inv_sock:
  assumes inv: "tlib_inv E x fd ks l"
    and "tl_bump_pending (f (tb_socks l k)) = tl_bump_pending (tb_socks l k)" "tl_bump_next (f (tb_socks l k)) = tl_bump_next (tb_socks l k)"
      "tl_ctx (f (tb_socks l k)) = tl_ctx (tb_socks l k)" "tsock_ok (ncores l) k (f (tb_socks l k))"
      "sock_active (f (tb_socks l k)) \<Longrightarrow> sock_active (tb_socks l k)"
      "sock_active (f (tb_socks l k)) \<Longrightarrow> has_bumps (f (tb_socks l k)) \<Longrightarrow> has_bumps (tb_socks l k) \<or> k \<in> F" and "E \<subseteq> F"
  shows "tlib_inv F x fd ks (upd_tsock k f l)"
  by (rule tlib_inv_frame [OF inv]) (use assms(2-) tlib_invD(3,4) [OF inv] in \<open>auto split: if_splits\<close>)

section \<open>Marking a socket\<close>

lemma mark_proj [simp]:
  "tb_next_sockfd (sock_mark_bump y k l) = tb_next_sockfd l" "tb_shm (sock_mark_bump y k l) = tb_shm l" "tb_up (sock_mark_bump y k l) = tb_up l"
  "tb_errno (sock_mark_bump y k l) = tb_errno l" "tc_ncores (tb_ctxs (sock_mark_bump y k l) x) = tc_ncores (tb_ctxs l x)"
  "tc_app_fast_qs (tb_ctxs (sock_mark_bump y k l) x) = tc_app_fast_qs (tb_ctxs l x)"
  "tc_app_slow_q (tb_ctxs (sock_mark_bump y k l) x) = tc_app_slow_q (tb_ctxs l x)"
  "tc_slow_app_q (tb_ctxs (sock_mark_bump y k l) x) = tc_slow_app_q (tb_ctxs l x)"
  "tc_fast_app_qs (tb_ctxs (sock_mark_bump y k l) x) = tc_fast_app_qs (tb_ctxs l x)"
  by (simp_all add: sock_mark_bump_def Let_def)

text \<open>What marking and flushing leave of a socket: everything but the four fields of the list.\<close>

definition sock_core :: "tcp_socket_lib \<Rightarrow> tcp_socket_lib" where
  "sock_core s = s\<lparr>tl_bump_pending := False, tl_bump_next := TCP_BUMP_NONE, tl_tx_bump_pending := 0, tl_rx_bump_pending := 0\<rparr>"

lemma sock_core_eqD:
  assumes "sock_core s = sock_core t"
  shows "tl_fd s = tl_fd t" "tl_sock_id s = tl_sock_id t" "tl_ctx s = tl_ctx t" "tl_core s = tl_core t" "tl_state s = tl_state t"
    "tl_rx_len s = tl_rx_len t" "tl_rx_avail s = tl_rx_avail t" "tl_rx_head s = tl_rx_head t" "tl_rx_buf s = tl_rx_buf t"
    "tl_tx_len s = tl_tx_len t" "tl_tx_avail s = tl_tx_avail t" "tl_tx_head s = tl_tx_head t" "tl_tx_buf s = tl_tx_buf t"
    "tl_remote_ip s = tl_remote_ip t" "tl_remote_port s = tl_remote_port t" "tl_op_status s = tl_op_status t"
  by (cases s; cases t; use assms in \<open>simp add: sock_core_def\<close>)+

lemma mark_core [simp]: "sock_core (tb_socks (sock_mark_bump y k l) j) = sock_core (tb_socks l j)"
  by (simp add: sock_mark_bump_def Let_def sock_core_def)

lemma mark_bumps [simp]:
  "tl_tx_bump_pending (tb_socks (sock_mark_bump y k l) j) = tl_tx_bump_pending (tb_socks l j)"
  "tl_rx_bump_pending (tb_socks (sock_mark_bump y k l) j) = tl_rx_bump_pending (tb_socks l j)"
  by (simp_all add: sock_mark_bump_def Let_def)

lemma mark_pending [simp]:
  "tl_bump_pending (tb_socks (sock_mark_bump y k l) j) \<longleftrightarrow> j = k \<or> tl_bump_pending (tb_socks l j)"
  by (auto simp: sock_mark_bump_def Let_def)

lemma mark_list:
  assumes list: "bump_list l y ns" and k: "\<not> tl_bump_pending (tb_socks l k)" "k \<notin> set ns" "tl_fd (tb_socks l k) = int k"
  shows "bump_list (sock_mark_bump y k l) y (ns @ [k])"
proof (cases ns rule: rev_cases)
  case Nil
  then show ?thesis using list k by (simp add: bump_list_def sock_mark_bump_def Let_def)
next
  case (snoc js j)
  let ?s = "(tb_socks l k)\<lparr>tl_bump_pending := True\<rparr>"
  have tail: "tc_bump_tail (tb_ctxs l y) = int j" using list snoc by (simp add: bump_list_def)
  have jk: "j \<noteq> k" using k(2) snoc by auto
  have "tb_socks (sock_mark_bump y k l) = (tb_socks l)(j := (tb_socks l j)\<lparr>tl_bump_next := int k\<rparr>, k := ?s\<lparr>tl_bump_next := -1\<rparr>)"
    using k(1,3) jk tail by (auto simp: sock_mark_bump_def Let_def fun_eq_iff)
  moreover have "bseg (tb_socks l) (tc_bump_head (tb_ctxs l y)) (js @ [j]) (-1)" "distinct (js @ [j])"
    using list snoc by (auto simp: bump_list_def)
  moreover have "tc_bump_head (tb_ctxs (sock_mark_bump y k l) y) = tc_bump_head (tb_ctxs l y)"
    "tc_bump_tail (tb_ctxs (sock_mark_bump y k l) y) = int k"
    using k(1,3) tail by (simp_all add: sock_mark_bump_def Let_def)
  ultimately show ?thesis using bseg_snoc [of "tb_socks l" _ js j k ?s] k(2) snoc by (auto simp: bump_list_def)
qed

text \<open>Only the new socket and the old last one change their link.\<close>

lemma mark_link:
  assumes "bump_list l y ns" "j \<noteq> k" "j \<notin> set ns"
  shows "tl_bump_next (tb_socks (sock_mark_bump y k l) j) = tl_bump_next (tb_socks l j)"
  using assms by (auto simp: sock_mark_bump_def Let_def bump_list_def split: if_splits)

lemma mark_other_ctx: "y' \<noteq> y \<Longrightarrow> tb_ctxs (sock_mark_bump y k l) y' = tb_ctxs l y'"
  by (simp add: sock_mark_bump_def Let_def)

lemma tsock_ok_core: "sock_core s = sock_core t \<Longrightarrow> (tl_bump_pending s \<Longrightarrow> tl_bump_pending t \<or> sock_active t) \<Longrightarrow> tsock_ok nc k t \<Longrightarrow> tsock_ok nc k s"
  using sock_core_eqD [of s t] unfolding tsock_ok_def by auto

lemma mark_inv:
  assumes inv: "tlib_inv E x fd ks l" and k: "sock_active (tb_socks l k)" "tl_ctx (tb_socks l k) = Some y"
  shows "tlib_inv (E - {k}) x fd ks (sock_mark_bump y k l)"
proof (cases "tl_bump_pending (tb_socks l k)")
  case True
  then have "sock_mark_bump y k l = l" by (simp add: sock_mark_bump_def Let_def)
  moreover have "tlib_inv (E - {k}) x fd ks l"
    by (rule tlib_inv_frame [OF inv]) (use True tlib_invD(3,4) [OF inv] in auto)
  ultimately show ?thesis by simp
next
  case False
  let ?l = "sock_mark_bump y k l"
  obtain ns where ns: "bump_list l y ns" "distinct ((if y = x then ks else []) @ ns)" "set ((if y = x then ks else []) @ ns) = pend_set l y"
    using tlib_invD(6) [OF inv] by blast
  have pend: "pend_set ?l y' = pend_set l y' \<union> (if y' = y then {k} else {})" for y'
  proof -
    have "tl_ctx (tb_socks ?l j) = tl_ctx (tb_socks l j)" for j by (rule sock_core_eqD(3) [OF mark_core])
    then show ?thesis using k(2) by (auto simp: pend_set_def)
  qed
  have notin: "k \<notin> pend_set l y'" for y' using False by (simp add: pend_set_def)
  have fdk: "tl_fd (tb_socks l k) = int k" using tlib_invD(3) [OF inv, of k] k(1) by (simp add: tsock_ok_def)
  have sub: "set ns \<subseteq> pend_set l y" unfolding ns(3) [symmetric] by (simp only: set_append Un_upper2)
  have lk: "k \<notin> set ns" using sub notin by blast
  note link = mark_link [OF ns(1)]
  have apart: "j \<noteq> k \<and> j \<notin> set ns" if "j \<in> pend_set l y'" "y' \<noteq> y" for j y'
    using that notin sub by (auto simp: pend_set_def)
  have kss: "set ks \<subseteq> pend_set l x" using tlib_invD(6) [OF inv, of x] by auto
  have seg: "bseg (tb_socks ?l) fd ks TCP_BUMP_NONE"
  proof (rule bseg_cong [OF tlib_invD(5) [OF inv]])
    fix j assume j: "j \<in> set ks"
    have "j \<noteq> k \<and> j \<notin> set ns" using apart [of j x] kss notin [of x] ns(2) j by (cases "y = x") auto
    then show "tl_bump_next (tb_socks ?l j) = tl_bump_next (tb_socks l j)" by (intro link) simp_all
  qed
  have lists: "\<exists>ns. bump_list ?l y' ns \<and> distinct ((if y' = x then ks else []) @ ns) \<and> set ((if y' = x then ks else []) @ ns) = pend_set ?l y'" for y'
  proof (cases "y' = y")
    case True
    define pre where "pre = (if y = x then ks else [])"
    note ns' = ns(2,3) [folded pre_def]
    have "k \<notin> set pre" using ns'(2) notin [of y] by auto
    then have "distinct (pre @ ns @ [k]) \<and> set (pre @ ns @ [k]) = pend_set ?l y" using ns' lk pend [of y] by auto
    then show ?thesis using True mark_list [OF ns(1) False lk fdk] unfolding pre_def by blast
  next
    case other: False
    obtain ms where ms: "bump_list l y' ms" "distinct ((if y' = x then ks else []) @ ms)" "set ((if y' = x then ks else []) @ ms) = pend_set l y'"
      using tlib_invD(6) [OF inv] by blast
    have "set ms \<subseteq> pend_set l y'" unfolding ms(3) [symmetric] by (simp only: set_append Un_upper2)
    then have "bseg (tb_socks ?l) (tc_bump_head (tb_ctxs l y')) ms TCP_BUMP_NONE"
      using ms(1) link apart [OF _ other] by (auto simp: bump_list_def intro!: bseg_cong [of "tb_socks l"])
    then have "bump_list ?l y' ms" using ms(1) mark_other_ctx [OF other] by (simp add: bump_list_def)
    moreover have "pend_set ?l y' = pend_set l y'" using pend [of y'] other by simp
    ultimately show ?thesis using ms(2,3) by metis
  qed
  have act: "sock_active (tb_socks ?l j) \<longleftrightarrow> sock_active (tb_socks l j)" for j using sock_core_eqD(1) [OF mark_core] by simp
  have ok: "tsock_ok (ncores ?l) j (tb_socks ?l j)" for j
    using tsock_ok_core [OF mark_core, of y k l j "ncores l" j] tlib_invD(3) [OF inv, of j] k(1) by auto
  have fresh: "\<not> sock_active (tb_socks ?l j) \<and> \<not> tl_bump_pending (tb_socks ?l j)" if "tb_next_sockfd l \<le> int j" for j
    using tlib_invD(2) [OF inv that] k(1) act [of j] by auto
  have marked: "tl_bump_pending (tb_socks ?l j)" if "j \<notin> E - {k}" "sock_active (tb_socks ?l j)" "has_bumps (tb_socks ?l j)" for j
    using that tlib_invD(4) [OF inv, of j] act [of j] by (auto simp: has_bumps_def)
  show ?thesis unfolding tlib_inv_def using tlib_invD(1) [OF inv] fresh ok marked seg lists by (simp only: mark_proj) blast
qed

section \<open>Flushing\<close>

text \<open>Sending bumps clears some of the counters and touches nothing else but the queues to the cores.\<close>

definition sent_bumps :: "tcp_lib \<Rightarrow> tcp_lib \<Rightarrow> bool" where
  "sent_bumps l l' \<longleftrightarrow>
     tb_next_sockfd l' = tb_next_sockfd l \<and> tb_shm l' = tb_shm l \<and> tb_up l' = tb_up l \<and> tb_errno l' = tb_errno l \<and>
     (\<forall>j. sock_core (tb_socks l' j) = sock_core (tb_socks l j) \<and>
        tl_bump_pending (tb_socks l' j) = tl_bump_pending (tb_socks l j) \<and> tl_bump_next (tb_socks l' j) = tl_bump_next (tb_socks l j) \<and>
        (has_bumps (tb_socks l' j) \<longrightarrow> has_bumps (tb_socks l j))) \<and>
     (\<forall>y. tc_ncores (tb_ctxs l' y) = tc_ncores (tb_ctxs l y) \<and> tc_bump_head (tb_ctxs l' y) = tc_bump_head (tb_ctxs l y) \<and>
        tc_bump_tail (tb_ctxs l' y) = tc_bump_tail (tb_ctxs l y) \<and> tc_app_slow_q (tb_ctxs l' y) = tc_app_slow_q (tb_ctxs l y) \<and>
        tc_slow_app_q (tb_ctxs l' y) = tc_slow_app_q (tb_ctxs l y) \<and> tc_fast_app_qs (tb_ctxs l' y) = tc_fast_app_qs (tb_ctxs l y))"

lemma sent_bumps_refl: "sent_bumps l l"
  by (simp add: sent_bumps_def)

lemma sent_bumps_trans: "sent_bumps l l1 \<Longrightarrow> sent_bumps l1 l2 \<Longrightarrow> sent_bumps l l2"
  by (simp add: sent_bumps_def)

lemma sock_core_bumps [simp]:
  "sock_core (s\<lparr>tl_tx_bump_pending := a\<rparr>) = sock_core s" "sock_core (s\<lparr>tl_rx_bump_pending := a\<rparr>) = sock_core s"
  "sock_core (s\<lparr>tl_bump_pending := b\<rparr>) = sock_core s" "sock_core (s\<lparr>tl_bump_next := n\<rparr>) = sock_core s"
  by (simp_all add: sock_core_def)

lemma flush_parts_sent: "sent_bumps l (snd (flush_tx x k l))" "sent_bumps l (snd (flush_rx x k l))"
  by (auto simp: sent_bumps_def flush_tx_def flush_rx_def bump_send_def Let_def has_bumps_def split: prod.split)

lemma sent_bumps_inv:
  assumes "tlib_inv E x fd ks l" "sent_bumps l l'"
  shows "tlib_inv E x fd ks l'"
proof (rule tlib_inv_frame [OF assms(1)])
  note s = assms(2) [unfolded sent_bumps_def]
  have c: "sock_core (tb_socks l' k) = sock_core (tb_socks l k)" for k using s by blast
  note e = sock_core_eqD [OF c]
  show "tl_ctx (tb_socks l' k) = tl_ctx (tb_socks l k)" for k by (rule e)
  show "sock_active (tb_socks l' k) \<Longrightarrow> sock_active (tb_socks l k)" for k by (simp add: e(1))
  show "tsock_ok (ncores l) k (tb_socks l' k)" for k using tsock_ok_core [OF c] s tlib_invD(3) [OF assms(1)] by blast
  show "tl_bump_pending (tb_socks l' k)" if "k \<notin> E" "sock_active (tb_socks l' k)" "has_bumps (tb_socks l' k)" for k
    using that s tlib_invD(4) [OF assms(1), of k] e(1) by metis
qed (use assms(2) in \<open>simp_all add: sent_bumps_def\<close>)

text \<open>The sockets as the callers see them, after marking too.\<close>

definition same_socks :: "tcp_lib \<Rightarrow> tcp_lib \<Rightarrow> bool" where
  "same_socks l l' \<longleftrightarrow>
     tb_next_sockfd l' = tb_next_sockfd l \<and> tb_shm l' = tb_shm l \<and> tb_up l' = tb_up l \<and> tb_errno l' = tb_errno l \<and>
     (\<forall>j. sock_core (tb_socks l' j) = sock_core (tb_socks l j)) \<and>
     (\<forall>y. tc_ncores (tb_ctxs l' y) = tc_ncores (tb_ctxs l y) \<and> tc_app_slow_q (tb_ctxs l' y) = tc_app_slow_q (tb_ctxs l y) \<and>
        tc_slow_app_q (tb_ctxs l' y) = tc_slow_app_q (tb_ctxs l y) \<and> tc_fast_app_qs (tb_ctxs l' y) = tc_fast_app_qs (tb_ctxs l y))"

lemma same_socks_refl [simp]: "same_socks l l" by (simp add: same_socks_def)

lemma same_socks_trans: "same_socks l l1 \<Longrightarrow> same_socks l1 l2 \<Longrightarrow> same_socks l l2"
  by (simp add: same_socks_def)

lemma same_socks_mark: "same_socks l (sock_mark_bump x k l)"
  by (simp add: same_socks_def)

lemma same_socks_sent: "sent_bumps l l' \<Longrightarrow> same_socks l l'"
  by (simp add: same_socks_def sent_bumps_def)

definition flush_both :: "nat \<Rightarrow> nat \<Rightarrow> tcp_lib \<Rightarrow> tcp_lib" where
  "flush_both x k l = (case flush_tx x k l of (ret, l1) \<Rightarrow> if ret \<noteq> 0 then l1 else snd (flush_rx x k l1))"

lemma flush_both_sent: "sent_bumps l (flush_both x k l)"
  using flush_parts_sent(1) [of l x k] flush_parts_sent(2) sent_bumps_trans by (auto simp: flush_both_def split: prod.split)

lemma sock_flush_eq:
  assumes "tlib_inv E x0 fd ks l" "tl_ctx (tb_socks l k) = Some x" "sock_active (tb_socks l k)"
  shows "sock_flush_bumps x k l =
    Inr (if has_bumps (tb_socks (flush_both x k l) k) then sock_mark_bump x k (flush_both x k l) else flush_both x k l)"
proof -
  have "unat (tl_core (tb_socks l k)) < ncores l x" using tlib_invD(3) [OF assms(1), of k] assms(2,3) by (auto simp: tsock_ok_def)
  then show ?thesis using assms(2,3) by (simp add: sock_flush_bumps_def flush_both_def Let_def has_bumps_def)
qed

lemma sock_flush_inv:
  assumes inv: "tlib_inv E x0 fd ks l" and E: "E \<subseteq> {k}" and k: "tl_ctx (tb_socks l k) = Some x" "sock_active (tb_socks l k)"
  shows "\<exists>l'. sock_flush_bumps x k l = Inr l' \<and> tlib_inv {} x0 fd ks l' \<and> same_socks l l'"
proof -
  let ?l = "flush_both x k l"
  have inv1: "tlib_inv {k} x0 fd ks ?l"
    using tlib_inv_mono [OF sent_bumps_inv [OF inv flush_both_sent] E] .
  have same: "same_socks l ?l" by (rule same_socks_sent [OF flush_both_sent])
  then have c: "sock_core (tb_socks ?l k) = sock_core (tb_socks l k)" by (simp add: same_socks_def)
  show ?thesis
  proof (cases "has_bumps (tb_socks ?l k)")
    case True
    have "tlib_inv ({k} - {k}) x0 fd ks (sock_mark_bump x k ?l)"
      by (rule mark_inv [OF inv1]) (use sock_core_eqD(1,3) [OF c] k in simp_all)
    then show ?thesis using sock_flush_eq [OF inv k] True same_socks_trans [OF same same_socks_mark] by simp
  next
    case False
    have "tlib_inv {} x0 fd ks ?l"
      by (rule tlib_inv_unmarked [OF inv1]) (use False in simp)
    then show ?thesis using sock_flush_eq [OF inv k] False same by simp
  qed
qed

lemma unlink_inv:
  assumes "tlib_inv {} x (int k) (k # ks) l"
  defines "l1 \<equiv> upd_tsock k (\<lambda>s. s\<lparr>tl_bump_pending := False, tl_bump_next := TCP_BUMP_NONE\<rparr>) l"
  shows "tlib_inv {k} x (tl_bump_next (tb_socks l k)) ks l1"
proof -
  have nk: "k \<notin> set ks" "k \<in> pend_set l x" using tlib_invD(6) [OF assms(1), of x] by auto
  have nxt: "tl_bump_next (tb_socks l1 j) = tl_bump_next (tb_socks l j)" if "j \<noteq> k" for j using that by (simp add: l1_def)
  have seg: "bseg (tb_socks l1) p ns e = bseg (tb_socks l) p ns e" if "k \<notin> set ns" for p ns e
    using bseg_cong [of "tb_socks l" p ns e "tb_socks l1"] bseg_cong [of "tb_socks l1" p ns e "tb_socks l"] that nxt by metis
  have pend: "pend_set l1 y = pend_set l y - {k}" for y by (auto simp: pend_set_def l1_def)
  have lists: "\<exists>ns. bump_list l1 y ns \<and> distinct ((if y = x then ks else []) @ ns) \<and> set ((if y = x then ks else []) @ ns) = pend_set l1 y" for y
  proof -
    obtain ns where ns: "bump_list l y ns" "distinct ((if y = x then k # ks else []) @ ns)" "set ((if y = x then k # ks else []) @ ns) = pend_set l y"
      using tlib_invD(6) [OF assms(1)] by blast
    have "k \<notin> set ns"
    proof (cases "y = x")
      case False
      then have "k \<notin> pend_set l y" using nk(2) by (auto simp: pend_set_def)
      then show ?thesis using ns(3) False by auto
    qed (use ns(2) in simp)
    then have "bump_list l1 y ns" using ns(1) seg [of ns] unfolding bump_list_def l1_def upd_t_simps by blast
    moreover have "distinct ((if y = x then ks else []) @ ns) \<and> set ((if y = x then ks else []) @ ns) = pend_set l1 y"
      unfolding pend ns(3) [symmetric] using ns(2) \<open>k \<notin> set ns\<close> nk(1) by (cases "y = x") auto
    ultimately show ?thesis by blast
  qed
  have ok: "tsock_ok (ncores l1) j (tb_socks l1 j)" for j using tlib_invD(3) [OF assms(1), of j] by (auto simp: l1_def tsock_ok_def)
  have fresh: "\<not> sock_active (tb_socks l1 j) \<and> \<not> tl_bump_pending (tb_socks l1 j)" if "tb_next_sockfd l \<le> int j" for j
    using tlib_invD(2) [OF assms(1) that] by (auto simp: l1_def)
  have mk: "tl_bump_pending (tb_socks l1 j)" if "j \<notin> {k}" "sock_active (tb_socks l1 j)" "has_bumps (tb_socks l1 j)" for j
    using tlib_invD(4) [OF assms(1), of j] that by (auto simp: l1_def)
  have nx: "tb_next_sockfd l1 = tb_next_sockfd l" by (simp add: l1_def)
  have sg: "bseg (tb_socks l1) (tl_bump_next (tb_socks l k)) ks TCP_BUMP_NONE" unfolding seg [OF nk(1)] using tlib_invD(5) [OF assms(1)] by simp
  show ?thesis unfolding tlib_inv_def nx using tlib_invD(1) [OF assms(1)] fresh ok mk sg lists by blast
qed

lemma flush_loop_inv:
  assumes "tlib_inv {} x fd ks l" "length ks \<le> fuel"
  shows "\<exists>l'. flush_loop fuel x fd l = Inr l' \<and> tlib_wf l' \<and> same_socks l l'"
  using assms
proof (induction fuel arbitrary: fd ks l)
  case 0
  then show ?case using tlib_invD(5) [OF 0(1)] by (auto simp: tlib_wf_at [of _ x])
next
  case (Suc fuel)
  show ?case
  proof (cases ks)
    case Nil
    then show ?thesis using tlib_invD(5) [OF Suc.prems(1)] Suc.prems(1) by (auto simp: tlib_wf_at [of _ x])
  next
    case (Cons k js)
    have fd: "fd = int k" using tlib_invD(5) [OF Suc.prems(1)] Cons by simp
    define l1 where "l1 = upd_tsock k (\<lambda>s. s\<lparr>tl_bump_pending := False, tl_bump_next := TCP_BUMP_NONE\<rparr>) l"
    let ?s = "tb_socks l1 k"
    have inv1: "tlib_inv {k} x (tl_bump_next (tb_socks l k)) js l1"
      using unlink_inv [of x k js l] Suc.prems(1) unfolding fd Cons l1_def by blast
    have same1: "same_socks l l1" by (simp add: same_socks_def l1_def)
    have "k \<in> pend_set l x" using tlib_invD(6) [OF Suc.prems(1), of x] Cons by auto
    then have ctx: "tl_ctx ?s = Some x" by (simp add: pend_set_def l1_def)
    define r where "r = (if tl_ctx ?s = Some x \<and> sock_active ?s \<and> has_bumps ?s then sock_flush_bumps x k l1 else Inr l1)"
    have "\<exists>l2. r = Inr l2 \<and> tlib_inv {} x (tl_bump_next (tb_socks l k)) js l2 \<and> same_socks l1 l2"
    proof (cases "sock_active ?s \<and> has_bumps ?s")
      case True
      then show ?thesis using sock_flush_inv [OF inv1 _ ctx] ctx by (simp add: r_def)
    next
      case False
      have "tlib_inv {} x (tl_bump_next (tb_socks l k)) js l1"
        by (rule tlib_inv_unmarked [OF inv1]) (use False in blast)
      then show ?thesis using False by (auto simp: r_def)
    qed
    then obtain l2 where l2: "r = Inr l2" "tlib_inv {} x (tl_bump_next (tb_socks l k)) js l2" "same_socks l1 l2" by blast
    have "flush_loop (Suc fuel) x fd l = flush_loop fuel x (tl_bump_next (tb_socks l k)) l2"
      using l2(1) unfolding fd r_def has_bumps_def by (auto simp: l1_def [symmetric] Let_def simp del: upd_t_simps split: if_splits)
    moreover obtain l' where "flush_loop fuel x (tl_bump_next (tb_socks l k)) l2 = Inr l'" "tlib_wf l'" "same_socks l2 l'"
      using Suc.IH [OF l2(2)] Suc.prems(2) Cons by auto
    ultimately show ?thesis using same_socks_trans [OF same1] same_socks_trans [OF l2(3)] by auto
  qed
qed

lemma pend_set_bound: "tlib_inv E x fd ks l \<Longrightarrow> pend_set l y \<subseteq> {..<LIB_MAX_SOCKETS}"
  using tlib_invD(3) by (fastforce simp: pend_set_def tsock_ok_def)

text \<open>Taking the whole list off its context.\<close>

lemma detach_inv:
  assumes wf: "tlib_wf l" and list: "bump_list l x ns" "set ns = pend_set l x"
  defines "l1 \<equiv> upd_tctx x (\<lambda>cx. cx\<lparr>tc_bump_head := TCP_BUMP_NONE, tc_bump_tail := TCP_BUMP_NONE\<rparr>) l"
  shows "tlib_inv {} x (tc_bump_head (tb_ctxs l x)) ns l1"
proof -
  note inv = wf [unfolded tlib_wf_at [of l x]]
  have nc: "ncores l1 = ncores l" by (auto simp: l1_def)
  have pend: "pend_set l1 y = pend_set l y" for y by (simp add: pend_set_def l1_def)
  have lists: "\<exists>ms. bump_list l1 y ms \<and> distinct ((if y = x then ns else []) @ ms) \<and> set ((if y = x then ns else []) @ ms) = pend_set l1 y" for y
  proof (cases "y = x")
    case True
    have "bump_list l1 x []" by (simp add: bump_list_def l1_def)
    then show ?thesis using list True pend by (intro exI [of _ "[]"]) (simp add: bump_list_def)
  next
    case False
    obtain ms where "bump_list l y ms" "distinct ms" "set ms = pend_set l y" using tlib_invD(6) [OF inv, of y] by auto
    then show ?thesis using False pend by (intro exI [of _ ms]) (simp add: bump_list_def l1_def)
  qed
  have eqs: "tb_socks l1 = tb_socks l" "tb_next_sockfd l1 = tb_next_sockfd l" by (simp_all add: l1_def)
  have "bseg (tb_socks l) (tc_bump_head (tb_ctxs l x)) ns TCP_BUMP_NONE" using list(1) by (simp add: bump_list_def)
  then show ?thesis using tlib_invD(1-4) [OF inv] lists unfolding tlib_inv_def nc eqs by blast
qed

lemma flush_bumps_ok:
  assumes wf: "tlib_wf l"
  shows "\<exists>l'. tcp_flush_bumps x l = Inr l' \<and> tlib_wf l' \<and> same_socks l l'"
proof -
  note inv = wf [unfolded tlib_wf_at [of l x]]
  obtain ns where ns: "bump_list l x ns" "distinct ns" "set ns = pend_set l x" using tlib_invD(6) [OF inv, of x] by auto
  have "length ns \<le> LIB_MAX_SOCKETS"
    using card_mono [OF _ pend_set_bound [OF inv], of x] ns(3) distinct_card [OF ns(2)] by simp
  from flush_loop_inv [OF detach_inv [OF wf ns(1,3)] this] show ?thesis
    unfolding tcp_flush_bumps_def by (auto intro: same_socks_trans simp: same_socks_def)
qed

end
