(* ===== verification/Tcp_Lib_Inv.thy ===== *)
theory Tcp_Lib_Inv
  imports Tcp_Lib_Wf
begin

unbundle bit_operations_syntax

text \<open>
  Every call of the TCP library and every message keeps its invariant. A blocked call keeps it from
  whatever state satisfying it the call is resumed in.
\<close>

definition tlib_good :: "tcp_lib \<Rightarrow> bool" where
  "tlib_good l \<longleftrightarrow> tlib_wf l \<and> (\<forall>x. 0 < ncores l x)"

lemma good_inv: "tlib_good l \<Longrightarrow> tlib_inv {} x TCP_BUMP_NONE [] l"
  by (simp add: tlib_good_def tlib_wf_at [of l x])

lemma good_ok: "tlib_good l \<Longrightarrow> tsock_ok (ncores l) k (tb_socks l k)"
  using tlib_invD(3) good_inv by blast

lemma good_cores: "tlib_good l \<Longrightarrow> 0 < ncores l x"
  by (simp add: tlib_good_def)

lemma goodI: "tlib_inv {} x TCP_BUMP_NONE [] l' \<Longrightarrow> tlib_good l \<Longrightarrow> (\<And>y. tc_ncores (tb_ctxs l' y) = tc_ncores (tb_ctxs l y)) \<Longrightarrow> tlib_good l'"
  by (simp add: tlib_good_def tlib_wf_at [of l' x])

section \<open>Small changes\<close>

lemma good_ctx:
  assumes "tlib_good l"
    and "\<And>cx. tc_ncores (g cx) = tc_ncores cx" "\<And>cx. tc_bump_head (g cx) = tc_bump_head cx" "\<And>cx. tc_bump_tail (g cx) = tc_bump_tail cx"
  shows "tlib_good (upd_tctx y g l)"
  by (rule goodI [OF tlib_inv_ctx [OF good_inv [OF assms(1)] assms(2-)] assms(1)]) (simp add: assms(2))

lemma good_errno [simp]: "tlib_good (set_errno e l) = tlib_good l"
  by (simp add: tlib_good_def tlib_wf_def tlib_inv_def bump_list_def pend_set_def)

lemma good_shm [simp]: "tlib_good (l\<lparr>tb_shm := m\<rparr>) = tlib_good l"
  by (simp add: tlib_good_def tlib_wf_def tlib_inv_def bump_list_def pend_set_def)

lemma good_request [simp]:
  assumes "tlib_good l"
  shows "tlib_good (snd (tlib_request x d ty l))"
  by (auto simp: tlib_request_def split: prod.split intro!: good_ctx [OF assms])

lemma request_simps [simp]:
  "tb_socks (snd (tlib_request x d ty l)) = tb_socks l" "tc_ncores (tb_ctxs (snd (tlib_request x d ty l)) y) = tc_ncores (tb_ctxs l y)"
  by (simp_all add: tlib_request_def split: prod.split)

lemma good_sock:
  assumes "tlib_good l"
    and "tl_bump_pending (f (tb_socks l k)) = tl_bump_pending (tb_socks l k)" "tl_bump_next (f (tb_socks l k)) = tl_bump_next (tb_socks l k)"
      "tl_ctx (f (tb_socks l k)) = tl_ctx (tb_socks l k)" "tsock_ok (ncores l) k (f (tb_socks l k))"
      "sock_active (f (tb_socks l k)) \<Longrightarrow> sock_active (tb_socks l k)" "has_bumps (f (tb_socks l k)) \<Longrightarrow> has_bumps (tb_socks l k)"
  shows "tlib_good (upd_tsock k f l)"
proof (rule goodI [OF _ assms(1)])
  show "tlib_inv {} 0 TCP_BUMP_NONE [] (upd_tsock k f l)"
    by (rule tlib_inv_sock [OF good_inv [OF assms(1)]]) (use assms(2-) in auto)
qed simp

text \<open>Fields the invariant does not mention.\<close>

definition keeps_rings :: "(tcp_socket_lib \<Rightarrow> tcp_socket_lib) \<Rightarrow> bool" where
  "keeps_rings f \<longleftrightarrow>
     (\<forall>s. (tl_fd (f s) = tl_fd s \<or> tl_fd (f s) = SOCK_INACTIVE) \<and> tl_ctx (f s) = tl_ctx s \<and> tl_core (f s) = tl_core s \<and>
        tl_rx_len (f s) = tl_rx_len s \<and> tl_rx_avail (f s) = tl_rx_avail s \<and> tl_rx_head (f s) = tl_rx_head s \<and>
        tl_tx_len (f s) = tl_tx_len s \<and> tl_tx_avail (f s) = tl_tx_avail s \<and> tl_tx_head (f s) = tl_tx_head s \<and>
        tl_bump_pending (f s) = tl_bump_pending s \<and> tl_bump_next (f s) = tl_bump_next s \<and>
        tl_tx_bump_pending (f s) = tl_tx_bump_pending s \<and> tl_rx_bump_pending (f s) = tl_rx_bump_pending s)"

lemma good_keeps:
  assumes "tlib_good l" "keeps_rings f"
  shows "tlib_good (upd_tsock k f l)"
proof -
  note f = assms(2) [unfolded keeps_rings_def, rule_format, of "tb_socks l k"]
  have "tsock_ok (ncores l) k (f (tb_socks l k))" using good_ok [OF assms(1), of k] f unfolding tsock_ok_def by metis
  moreover have "sock_active (f (tb_socks l k)) \<Longrightarrow> sock_active (tb_socks l k)" using f by metis
  ultimately show ?thesis using f by (intro good_sock [OF assms(1)]) (simp_all add: has_bumps_def)
qed

section \<open>Allocation\<close>

lemma sock_new_ok: "0 < nc x \<Longrightarrow> k < LIB_MAX_SOCKETS \<Longrightarrow> tsock_ok nc k (tcp_socket_lib_new (int k) x)"
  by (simp add: tsock_ok_def tcp_socket_lib_new_def ring_sane_def)

lemma good_alloc:
  assumes good: "tlib_good l"
  shows "tlib_good (snd (alloc_lib_sock x l))"
proof (rule goodI [OF _ good])
  note inv = good_inv [OF good, of 0]
  let ?l = "snd (alloc_lib_sock x l)" and ?k = "nat (tb_next_sockfd l)"
  have fresh: "\<not> sock_active (tb_socks l ?k)" "\<not> tl_bump_pending (tb_socks l ?k)" using tlib_invD(1) [OF inv] tlib_invD(2) [OF inv, of ?k] by auto
  have socks: "tb_socks ?l = (if tb_next_sockfd l \<ge> int LIB_MAX_SOCKETS then tb_socks l
      else (tb_socks l)(?k := tcp_socket_lib_new (tb_next_sockfd l) x))"
    by (simp add: alloc_lib_sock_def Let_def)
  have ok: "tsock_ok (ncores l) k (tb_socks ?l k)" for k
    using good_ok [OF good, of k] sock_new_ok [of "ncores l" x ?k] good_cores [OF good] tlib_invD(1) [OF inv] by (auto simp: socks)
  show "tlib_inv {} 0 TCP_BUMP_NONE [] ?l"
  proof (rule tlib_inv_step [OF inv])
    show "sock_active (tb_socks ?l k) \<Longrightarrow> sock_active (tb_socks l k) \<or> int k < tb_next_sockfd ?l" for k
      using tlib_invD(1) [OF inv] by (auto simp: socks alloc_lib_sock_def Let_def split: if_splits)
    show "tl_bump_pending (tb_socks ?l k) = tl_bump_pending (tb_socks l k)" for k
      using fresh by (auto simp: socks tcp_socket_lib_new_def)
    show "tl_bump_next (tb_socks ?l k) = tl_bump_next (tb_socks l k) \<and> tl_ctx (tb_socks ?l k) = tl_ctx (tb_socks l k)"
      if "tl_bump_pending (tb_socks l k)" for k using fresh that by (auto simp: socks)
    show "tl_bump_pending (tb_socks ?l k)" if "sock_active (tb_socks ?l k)" "has_bumps (tb_socks ?l k)" for k
      using that tlib_invD(4) [OF inv, of k] by (auto simp: socks tcp_socket_lib_new_def has_bumps_def split: if_splits)
  qed (use ok in \<open>simp_all add: alloc_lib_sock_def Let_def\<close>)
qed (simp add: alloc_lib_sock_def Let_def)

section \<open>Calls that wait\<close>

primrec call_good :: "'a tlib_call \<Rightarrow> bool" where
  "call_good (Return a l) \<longleftrightarrow> tlib_good l"
| "call_good (Blocked k ev l f) \<longleftrightarrow> tlib_good l \<and> (\<forall>l'. tlib_good l' \<longrightarrow> call_good (f l'))"

lemma call_good_map [simp]: "call_good (map_tlib_call g c) = call_good c"
  by (induction c) auto

lemma call_good_err [simp]: "call_good (tlib_err e l) = tlib_good l"
  by (simp add: tlib_err_def)

text \<open>Calls that only change what the invariant does not mention, and ask the slow path.\<close>

lemma request_goodD: "tlib_request x d ty l = (ret, l1) \<Longrightarrow> tlib_good l \<Longrightarrow> tlib_good l1"
  using good_request [of l x d ty] by simp

lemma alloc_goodD: "alloc_lib_sock x l = (r, l1) \<Longrightarrow> tlib_good l \<Longrightarrow> tlib_good l1"
  using good_alloc [of l x] by simp

lemmas call_splits = option.split sum.split prod.split

lemma good_socket: "tlib_good l \<Longrightarrow> call_good (tcp_socket ctx l)"
  by (auto simp: tcp_socket_def keeps_rings_def split: call_splits intro!: good_keeps dest: alloc_goodD request_goodD)

lemma good_bind_done: "tlib_good l \<Longrightarrow> call_good (bind_done k sin l)"
  by (auto simp: bind_done_def keeps_rings_def split: prod.split intro!: good_keeps)

lemma good_bind: "tlib_good l \<Longrightarrow> call_good (tcp_bind ctx sockfd addr addrlen l)"
  by (auto simp: tcp_bind_def good_bind_done split: call_splits dest: request_goodD)

lemma good_connect_done: "tlib_good l \<Longrightarrow> call_good (connect_done k l)"
  by (simp add: connect_done_def keeps_rings_def good_keeps)

lemma good_connect_request: "tlib_good l \<Longrightarrow> call_good (connect_request x k sin flags l)"
  by (auto simp: connect_request_def Let_def keeps_rings_def good_connect_done split: prod.split intro!: good_keeps dest: request_goodD)

lemma good_connect_again: "tlib_good l \<Longrightarrow> call_good (connect_again x k sin flags l)"
  by (simp add: connect_again_def Let_def good_connect_request keeps_rings_def good_keeps)

lemma good_connect: "tlib_good l \<Longrightarrow> call_good (tcp_connect ctx sockfd addr addrlen flags l)"
  by (simp add: tcp_connect_def Let_def good_connect_request good_connect_again split: option.split sum.split)

lemma good_listen: "tlib_good l \<Longrightarrow> call_good (tcp_listen ctx sockfd backlog l)"
  by (auto simp: tcp_listen_def Let_def keeps_rings_def split: sum.split prod.split intro!: good_keeps dest: request_goodD)

lemma good_accept_done: "tlib_good l \<Longrightarrow> call_good (accept_done k addr addrlen l)"
  by (auto simp: accept_done_def Let_def keeps_rings_def intro!: good_keeps)

lemma good_accept_request: "tlib_good l \<Longrightarrow> call_good (accept_request x lk addr addrlen l)"
  by (auto simp: accept_request_def good_accept_done keeps_rings_def split: option.split prod.split intro!: good_keeps
      dest: alloc_goodD request_goodD)

lemma good_accept: "tlib_good l \<Longrightarrow> call_good (tcp_accept ctx sockfd addr addrlen flags l)"
  by (simp add: tcp_accept_def Let_def good_accept_request split: option.split sum.split)

lemma good_setopt: "tlib_good l \<Longrightarrow> call_good (tcp_setsockopt ctx sockfd opt l)"
  by (auto simp: tcp_setsockopt_def setopt_done_def keeps_rings_def split: sum.split prod.split intro!: good_keeps dest: request_goodD)

lemmas good_calls = good_socket good_bind good_connect good_listen good_accept good_setopt

section \<open>Sending and receiving\<close>

lemma lookupD:
  assumes "tlookup_sock l ctx sockfd = Inr k"
  shows "sockfd = int k" "tl_fd (tb_socks l k) = int k" "tl_ctx (tb_socks l k) = ctx" "ctx = Some (the ctx)"
  using assms by (auto simp: tlookup_sock_def Let_def split: if_splits)

lemma same_ncores: "same_socks l l' \<Longrightarrow> tc_ncores (tb_ctxs l' y) = tc_ncores (tb_ctxs l y)"
  by (simp add: same_socks_def)

lemma good_sock_flush:
  assumes "tlib_good l" "tl_ctx (tb_socks l k) = Some x" "sock_active (tb_socks l k)"
  shows "\<exists>l'. sock_flush_bumps x k l = Inr l' \<and> tlib_good l' \<and> same_socks l l'"
  using sock_flush_inv [OF good_inv [OF assms(1)] _ assms(2,3), of 0] goodI [OF _ assms(1)] same_ncores by blast

lemma good_flush:
  assumes "tlib_good l"
  shows "\<exists>l'. tcp_flush_bumps x l = Inr l' \<and> tlib_good l' \<and> same_socks l l'"
  using flush_bumps_ok [of l x] assms same_ncores [of l] unfolding tlib_good_def by metis

text \<open>A socket whose rings advance, and which is then put on the list.\<close>

lemma good_advance:
  assumes good: "tlib_good l" and k: "tl_ctx (tb_socks l k) = Some x" "sock_active (tb_socks l k)"
    and s: "tl_fd s = tl_fd (tb_socks l k)" "tl_ctx s = tl_ctx (tb_socks l k)" "tl_core s = tl_core (tb_socks l k)"
      "tl_bump_pending s = tl_bump_pending (tb_socks l k)" "tl_bump_next s = tl_bump_next (tb_socks l k)"
    and rings: "ring_sane (tl_rx_len s) (tl_rx_avail s) (tl_rx_head s)" "ring_sane (tl_tx_len s) (tl_tx_avail s) (tl_tx_head s)"
    and l1: "tb_socks l1 = (tb_socks l)(k := s)" "tb_ctxs l1 = tb_ctxs l" "tb_next_sockfd l1 = tb_next_sockfd l"
  shows "tlib_good (sock_mark_bump x k l1)"
proof (rule goodI [OF _ good])
  note inv = good_inv [OF good, of 0]
  have ok: "tsock_ok (ncores l) j (tb_socks l1 j)" for j
    using good_ok [OF good, of j] s rings by (auto simp: l1 tsock_ok_def)
  have "tlib_inv {k} 0 TCP_BUMP_NONE [] l1"
    by (rule tlib_inv_frame [OF inv]) (use s ok tlib_invD(4) [OF inv] in \<open>auto simp: l1 split: if_splits\<close>)
  from mark_inv [OF this, of k x] show "tlib_inv {} 0 TCP_BUMP_NONE [] (sock_mark_bump x k l1)"
    using s k by (simp add: l1)
qed (simp add: l1)

lemma ring_sane_add:
  assumes "ring_sane L a h" "n \<noteq> 0" "n \<le> L - a"
  shows "ring_sane L (a + n) h" "unat (a + n) = unat a + unat n" "L \<noteq> 0"
proof -
  have L: "L \<noteq> 0" using assms by (auto simp: ring_sane_def word_le_nat_alt unat_eq_zero)
  have "unat n \<le> unat L - unat a" "unat a \<le> unat L" "unat L < 2 ^ 31"
    using assms L unat_sub [of a L] by (simp_all add: ring_sane_def word_le_nat_alt)
  then show e: "unat (a + n) = unat a + unat n" by (intro unat_add_small_iff) simp_all
  then show "ring_sane L (a + n) h" using assms L \<open>unat n \<le> _\<close> \<open>unat a \<le> _\<close> by (simp add: ring_sane_def)
  show "L \<noteq> 0" by fact
qed

lemma ring_sane_drop:
  assumes "ring_sane L a h" "n \<le> a" "n \<noteq> 0"
  shows "ring_sane L (a - n) (ring_wrap L (h + n))" "unat (a - n) = unat a - unat n" "L \<noteq> 0"
proof -
  show L: "L \<noteq> 0" using assms by (auto simp: ring_sane_def)
  have r: "unat h < unat L" "unat n \<le> unat L" "unat L < 2 ^ 31" "unat n \<le> unat a" "unat a \<le> unat L"
    using assms L by (simp_all add: ring_sane_def word_le_nat_alt)
  show e: "unat (a - n) = unat a - unat n" using r assms(2) by (simp add: unat_sub)
  show "ring_sane L (a - n) (ring_wrap L (h + n))" using wrap_pos(2) [OF r(1-3)] L e r by (simp add: ring_sane_def)
qed

end
