(* ===== verification/Tcp_Lib_Flush.thy ===== *)
theory Tcp_Lib_Flush
  imports Tcp_Lib_Inv
begin

unbundle bit_operations_syntax

text \<open>
  What flushing announces: with the fast path's side of the queues fixed, every byte counted as
  pending is afterwards pending or in a message, and a count stays pending only if the queue is full.
\<close>

section \<open>The queues to the cores\<close>

definition cq :: "(nat \<Rightarrow> dqueue) \<Rightarrow> nat \<Rightarrow> tcp_lib \<Rightarrow> nat \<Rightarrow> tcp_qe spsc" where
  "cq D x l i = \<lparr>sp_eq = fst (tc_app_fast_qs (tb_ctxs l x) i), sp_dq = D i, sp_mem = snd (tc_app_fast_qs (tb_ctxs l x) i)\<rparr>"

definition cqs_wf :: "(nat \<Rightarrow> dqueue) \<Rightarrow> nat \<Rightarrow> tcp_lib \<Rightarrow> bool" where
  "cqs_wf D x l \<longleftrightarrow> (\<forall>i. spsc_wf (cq D x l i))"

definition cq_full :: "(nat \<Rightarrow> dqueue) \<Rightarrow> nat \<Rightarrow> tcp_lib \<Rightarrow> nat \<Rightarrow> bool" where
  "cq_full D x l i \<longleftrightarrow> length (spsc_contents (cq D x l i)) = spsc_cap (cq D x l i)"

text \<open>The bytes the messages of a queue announce for socket \<open>sid\<close>.\<close>

fun msg_tx :: "u32 \<Rightarrow> tcp_qe \<Rightarrow> nat" where
  "msg_tx sid (QE_bump_cham_tx b) = (if bct_sock_id b = sid then unat (bct_tx_avail b) else 0)"
| "msg_tx sid _ = 0"

fun msg_rx :: "u32 \<Rightarrow> tcp_qe \<Rightarrow> nat" where
  "msg_rx sid (QE_bump_cham_rx b) = (if bcr_sock_id b = sid then unat (bcr_rx_head b) else 0)"
| "msg_rx sid _ = 0"

definition queued :: "(tcp_qe \<Rightarrow> nat) \<Rightarrow> tcp_qe qslot list \<Rightarrow> nat" where
  "queued f ms = sum_list (map (f \<circ> qs_data) ms)"

lemma queued_append [simp]: "queued f (ms @ ns) = queued f ms + queued f ns" "queued f [m] = f (qs_data m)" "queued f [] = 0"
  by (simp_all add: queued_def)

definition tx_ledger :: "(nat \<Rightarrow> dqueue) \<Rightarrow> nat \<Rightarrow> tcp_lib \<Rightarrow> nat \<Rightarrow> nat" where
  "tx_ledger D x l k =
     unat (tl_tx_bump_pending (tb_socks l k)) + queued (msg_tx (tl_sock_id (tb_socks l k))) (spsc_contents (cq D x l (unat (tl_core (tb_socks l k)))))"

definition rx_ledger :: "(nat \<Rightarrow> dqueue) \<Rightarrow> nat \<Rightarrow> tcp_lib \<Rightarrow> nat \<Rightarrow> nat" where
  "rx_ledger D x l k =
     unat (tl_rx_bump_pending (tb_socks l k)) + queued (msg_rx (tl_sock_id (tb_socks l k))) (spsc_contents (cq D x l (unat (tl_core (tb_socks l k)))))"

definition sock_of :: "nat \<Rightarrow> tcp_lib \<Rightarrow> nat \<Rightarrow> bool" where
  "sock_of x l k \<longleftrightarrow> tl_ctx (tb_socks l k) = Some x \<and> sock_active (tb_socks l k)"

text \<open>The slow path gives each socket a number of its own.\<close>

definition ids_ok :: "nat \<Rightarrow> tcp_lib \<Rightarrow> bool" where
  "ids_ok x l \<longleftrightarrow> (\<forall>j k. sock_of x l j \<and> sock_of x l k \<and> tl_sock_id (tb_socks l j) = tl_sock_id (tb_socks l k) \<longrightarrow> j = k)"

section \<open>Announcing\<close>

definition announced :: "(nat \<Rightarrow> dqueue) \<Rightarrow> nat \<Rightarrow> tcp_lib \<Rightarrow> tcp_lib \<Rightarrow> bool" where
  "announced D x l l' \<longleftrightarrow>
     same_socks l l' \<and> cqs_wf D x l' \<and>
     (\<forall>i. spsc_cap (cq D x l' i) = spsc_cap (cq D x l i) \<and> (\<exists>ms. spsc_contents (cq D x l' i) = spsc_contents (cq D x l i) @ ms)) \<and>
     (\<forall>j. sock_of x l j \<longrightarrow> tx_ledger D x l' j = tx_ledger D x l j \<and> rx_ledger D x l' j = rx_ledger D x l j) \<and>
     (\<forall>j. has_bumps (tb_socks l' j) \<longrightarrow> has_bumps (tb_socks l j))"

lemma same_sock_of: "same_socks l l' \<Longrightarrow> sock_of x l' k = sock_of x l k"
  using sock_core_eqD(1,3) [of "tb_socks l' k" "tb_socks l k"] by (simp add: same_socks_def sock_of_def)

lemma same_ids: "same_socks l l' \<Longrightarrow> ids_ok x l' = ids_ok x l"
proof -
  assume same: "same_socks l l'"
  then have "tl_sock_id (tb_socks l' j) = tl_sock_id (tb_socks l j)" for j by (auto simp: same_socks_def intro: sock_core_eqD(2))
  then show ?thesis using same_sock_of [OF same] by (simp add: ids_ok_def)
qed

lemma announced_refl: "cqs_wf D x l \<Longrightarrow> announced D x l l"
  by (simp add: announced_def)

lemma announced_trans:
  assumes "announced D x l l1" "announced D x l1 l2"
  shows "announced D x l l2"
proof -
  have same: "same_socks l l1" using assms(1) by (simp add: announced_def)
  have "\<exists>ms. spsc_contents (cq D x l2 i) = spsc_contents (cq D x l i) @ ms" for i
    using assms unfolding announced_def by (metis append.assoc)
  then show ?thesis using assms same_socks_trans [of l l1 l2] same_sock_of [OF same] by (simp add: announced_def)
qed

lemma announced_full: "announced D x l l' \<Longrightarrow> cq_full D x l i \<Longrightarrow> cq_full D x l' i"
  using spscq.within_cap [of "cq D x l' i"] unfolding announced_def cq_full_def cqs_wf_def
  by (metis le_add1 le_antisym length_append)

text \<open>One message.\<close>

lemma bump_send_cq:
  assumes wf: "cqs_wf D x l" and ty: "ty \<noteq> QUEUE_EMPTY" and send: "bump_send x i d ty l = (ret, l1)"
  shows "if cq_full D x l i then ret \<noteq> 0 \<and> (\<forall>j. cq D x l1 j = cq D x l j)
    else ret = 0 \<and> cqs_wf D x l1 \<and> (\<forall>j. spsc_cap (cq D x l1 j) = spsc_cap (cq D x l j)) \<and>
      (\<forall>j. spsc_contents (cq D x l1 j) = spsc_contents (cq D x l j) @ (if j = i then [\<lparr>qs_type = ty, qs_data = d\<rparr>] else []))"
proof -
  let ?s = "cq D x l i" and ?q = "tc_app_fast_qs (tb_ctxs l x) i"
  have w: "spsc_wf ?s" using wf by (simp add: cqs_wf_def)
  have q: "(sp_eq ?s, sp_mem ?s) = ?q" by (simp add: cq_def)
  have cq1: "cq D x l1 j = (if j = i then ?s\<lparr>sp_eq := fst (snd (queue_put ?q d ty)), sp_mem := snd (snd (queue_put ?q d ty))\<rparr> else cq D x l j)" for j
    using send by (auto simp: bump_send_def cq_def split: prod.splits)
  have ret: "ret = fst (queue_put ?q d ty)" using send by (auto simp: bump_send_def split: prod.splits)
  show ?thesis
  proof (cases "cq_full D x l i")
    case True
    then have "spsc_send ?s \<lparr>qs_type = ty, qs_data = d\<rparr> = None" unfolding cq_full_def by (rule spscq.enq_full [OF w])
    then have "fst (queue_put ?q d ty) \<noteq> 0" unfolding queue_put_send q by (auto split: prod.splits if_splits)
    moreover then have "snd (queue_put ?q d ty) = ?q" by (auto simp: queue_put_cases split: if_splits)
    ultimately show ?thesis using True cq1 ret by (simp add: cq_def)
  next
    case False
    then have "length (spsc_contents ?s) < spsc_cap ?s" using spscq.within_cap [OF w] by (simp add: cq_full_def)
    from queue_put_room [OF w ty this, of d] show ?thesis using False cq1 ret wf unfolding q by (auto simp: cqs_wf_def)
  qed
qed

lemma announced_sent:
  assumes wf: "cqs_wf D x l" and ids: "ids_ok x l" and k: "sock_of x l k"
    and send: "bump_send x (unat (tl_core (tb_socks l k))) d ty l = (ret, l1)" "ty \<noteq> QUEUE_EMPTY"
    and d: "\<And>sid. msg_tx sid d = (if sid = tl_sock_id (tb_socks l k) then a else 0)" "\<And>sid. msg_rx sid d = (if sid = tl_sock_id (tb_socks l k) then b else 0)"
    and f: "sock_core (f (tb_socks l k)) = sock_core (tb_socks l k)" "has_bumps (f (tb_socks l k)) \<longrightarrow> has_bumps (tb_socks l k)"
      "unat (tl_tx_bump_pending (tb_socks l k)) = unat (tl_tx_bump_pending (f (tb_socks l k))) + a"
      "unat (tl_rx_bump_pending (tb_socks l k)) = unat (tl_rx_bump_pending (f (tb_socks l k))) + b"
  shows "if cq_full D x l (unat (tl_core (tb_socks l k))) then ret \<noteq> 0 \<and> announced D x l l1 else ret = 0 \<and> announced D x l (upd_tsock k f l1)"
proof -
  note c = bump_send_cq [OF wf send(2,1)]
  have l1: "tb_socks l1 = tb_socks l" using send(1) by (auto simp: bump_send_def split: prod.splits)
  have same: "same_socks l l1" using send(1) by (auto simp: bump_send_def same_socks_def split: prod.splits)
  have cqu: "cq D x (upd_tsock k f l1) i = cq D x l1 i" for i by (simp add: cq_def)
  show ?thesis
  proof (cases "cq_full D x l (unat (tl_core (tb_socks l k)))")
    case True
    then show ?thesis using c same wf l1 by (simp add: announced_def cqs_wf_def tx_ledger_def rx_ledger_def)
  next
    case False
    have same2: "same_socks l (upd_tsock k f l1)" using same f(1) l1 by (simp add: same_socks_def)
    note core = sock_core_eqD [OF f(1)]
    have led: "tx_ledger D x (upd_tsock k f l1) j = tx_ledger D x l j \<and> rx_ledger D x (upd_tsock k f l1) j = rx_ledger D x l j"
      if j: "sock_of x l j" for j
    proof (cases "j = k")
      case True
      then show ?thesis using False c f(3,4) d core(2,4) by (simp add: tx_ledger_def rx_ledger_def cqu l1)
    next
      case other: False
      then have "tl_sock_id (tb_socks l j) \<noteq> tl_sock_id (tb_socks l k)" using ids j k by (auto simp: ids_ok_def)
      then show ?thesis using False c d other by (simp add: tx_ledger_def rx_ledger_def cqu l1)
    qed
    show ?thesis using False c same2 led f(2) l1 by (simp add: announced_def cqu cqs_wf_def)
  qed
qed

text \<open>\<^const>\<open>flush_tx\<close> and \<^const>\<open>flush_rx\<close> have the same shape.\<close>

lemma announced_core:
  assumes "announced D x l l'"
  shows "tl_core (tb_socks l' k) = tl_core (tb_socks l k)"
  by (rule sock_core_eqD(4)) (use assms in \<open>simp add: announced_def same_socks_def\<close>)

lemma announced_part:
  assumes wf: "cqs_wf D x l" and ids: "ids_ok x l" and k: "sock_of x l k" and ty: "ty \<noteq> QUEUE_EMPTY"
    and r: "(if n = 0 then (0, l) else case bump_send x (unat (tl_core (tb_socks l k))) d ty l of (ret, l1) \<Rightarrow>
        if ret = 0 then (0, upd_tsock k f l1) else (-1, l1)) = (ret :: int, l1)"
    and d: "\<And>sid. msg_tx sid d = (if sid = tl_sock_id (tb_socks l k) then a else 0)" "\<And>sid. msg_rx sid d = (if sid = tl_sock_id (tb_socks l k) then b else 0)"
    and f: "sock_core (f (tb_socks l k)) = sock_core (tb_socks l k)" "has_bumps (f (tb_socks l k)) \<longrightarrow> has_bumps (tb_socks l k)"
      "unat (tl_tx_bump_pending (tb_socks l k)) = unat (tl_tx_bump_pending (f (tb_socks l k))) + a"
      "unat (tl_rx_bump_pending (tb_socks l k)) = unat (tl_rx_bump_pending (f (tb_socks l k))) + b"
  shows "announced D x l l1" "ret \<noteq> 0 \<Longrightarrow> cq_full D x l1 (unat (tl_core (tb_socks l1 k)))"
    "ret = 0 \<Longrightarrow> n = 0 \<and> l1 = l \<or> tb_socks l1 k = f (tb_socks l k)"
proof -
  obtain ret0 l0 where send: "bump_send x (unat (tl_core (tb_socks l k))) d ty l = (ret0, l0)" by fastforce
  have socks: "tb_socks l0 = tb_socks l" using send by (auto simp: bump_send_def split: prod.splits)
  note a = announced_sent [where f = f and a = a and b = b, OF wf ids k send ty d f]
  show an: "announced D x l l1" using a r send announced_refl [OF wf] by (auto split: if_splits)
  show "cq_full D x l1 (unat (tl_core (tb_socks l1 k)))" if "ret \<noteq> 0"
    unfolding announced_core [OF an] by (rule announced_full [OF an]) (use a r send that in \<open>auto split: if_splits\<close>)
  show "ret = 0 \<Longrightarrow> n = 0 \<and> l1 = l \<or> tb_socks l1 k = f (tb_socks l k)" using r send socks by (auto split: if_splits)
qed

lemma announced_flush_tx:
  assumes "cqs_wf D x l" "ids_ok x l" "sock_of x l k" "flush_tx x k l = (ret, l1)"
  shows "announced D x l l1" "ret \<noteq> 0 \<Longrightarrow> cq_full D x l1 (unat (tl_core (tb_socks l1 k)))" "ret = 0 \<Longrightarrow> tl_tx_bump_pending (tb_socks l1 k) = 0"
proof -
  note p = announced_part [OF assms(1-3) _ assms(4) [unfolded flush_tx_def Let_def],
      where a = "unat (tl_tx_bump_pending (tb_socks l k))" and b = 0]
  show "announced D x l l1" by (rule p(1)) (auto simp: has_bumps_def)
  show "ret \<noteq> 0 \<Longrightarrow> cq_full D x l1 (unat (tl_core (tb_socks l1 k)))" by (rule p(2)) (auto simp: has_bumps_def)
  have "ret = 0 \<Longrightarrow> tl_tx_bump_pending (tb_socks l k) = 0 \<and> l1 = l \<or> tb_socks l1 k = (tb_socks l k)\<lparr>tl_tx_bump_pending := 0\<rparr>"
    by (rule p(3)) (auto simp: has_bumps_def)
  then show "ret = 0 \<Longrightarrow> tl_tx_bump_pending (tb_socks l1 k) = 0" by auto
qed

lemma announced_flush_rx:
  assumes "cqs_wf D x l" "ids_ok x l" "sock_of x l k" "flush_rx x k l = (ret, l1)"
  shows "announced D x l l1" "ret \<noteq> 0 \<Longrightarrow> cq_full D x l1 (unat (tl_core (tb_socks l1 k)))"
    "ret = 0 \<Longrightarrow> tl_rx_bump_pending (tb_socks l1 k) = 0 \<and> tl_tx_bump_pending (tb_socks l1 k) = tl_tx_bump_pending (tb_socks l k)"
proof -
  note p = announced_part [OF assms(1-3) _ assms(4) [unfolded flush_rx_def Let_def],
      where a = 0 and b = "unat (tl_rx_bump_pending (tb_socks l k))"]
  show "announced D x l l1" by (rule p(1)) (auto simp: has_bumps_def)
  show "ret \<noteq> 0 \<Longrightarrow> cq_full D x l1 (unat (tl_core (tb_socks l1 k)))" by (rule p(2)) (auto simp: has_bumps_def)
  have "ret = 0 \<Longrightarrow> tl_rx_bump_pending (tb_socks l k) = 0 \<and> l1 = l \<or> tb_socks l1 k = (tb_socks l k)\<lparr>tl_rx_bump_pending := 0\<rparr>"
    by (rule p(3)) (auto simp: has_bumps_def)
  then show "ret = 0 \<Longrightarrow> tl_rx_bump_pending (tb_socks l1 k) = 0 \<and> tl_tx_bump_pending (tb_socks l1 k) = tl_tx_bump_pending (tb_socks l k)" by auto
qed

lemma announcedD:
  assumes "announced D x l l'"
  shows "same_socks l l'" "cqs_wf D x l'" "ids_ok x l' = ids_ok x l" "sock_of x l' k = sock_of x l k"
  using assms same_ids same_sock_of by (auto simp: announced_def)

lemma announced_both:
  assumes wf: "cqs_wf D x l" and ids: "ids_ok x l" and k: "sock_of x l k"
  shows "announced D x l (flush_both x k l)"
    "has_bumps (tb_socks (flush_both x k l) k) \<Longrightarrow> cq_full D x (flush_both x k l) (unat (tl_core (tb_socks (flush_both x k l) k)))"
proof -
  obtain ret l1 where t: "flush_tx x k l = (ret, l1)" by fastforce
  obtain ret2 l2 where u: "flush_rx x k l1 = (ret2, l2)" by fastforce
  note a = announced_flush_tx [OF wf ids k t]
  note b = announced_flush_rx [OF announcedD(2) [OF a(1)] _ _ u, unfolded announcedD [OF a(1)], OF ids k]
  have e: "flush_both x k l = (if ret \<noteq> 0 then l1 else l2)" using t u by (simp add: flush_both_def)
  show "announced D x l (flush_both x k l)" unfolding e using a(1) announced_trans [OF a(1) b(1)] by simp
  show "has_bumps (tb_socks (flush_both x k l) k) \<Longrightarrow> cq_full D x (flush_both x k l) (unat (tl_core (tb_socks (flush_both x k l) k)))"
    unfolding e using a(2,3) b(2,3) by (auto simp: has_bumps_def split: if_splits)
qed

section \<open>Flushing a socket and a list\<close>

text \<open>Changes of the list fields announce nothing.\<close>

lemma announced_links:
  assumes "cqs_wf D x l" "same_socks l l'" "tc_app_fast_qs (tb_ctxs l' x) = tc_app_fast_qs (tb_ctxs l x)"
    and "\<And>j. tl_tx_bump_pending (tb_socks l' j) = tl_tx_bump_pending (tb_socks l j)" "\<And>j. tl_rx_bump_pending (tb_socks l' j) = tl_rx_bump_pending (tb_socks l j)"
  shows "announced D x l l'"
proof -
  have c: "sock_core (tb_socks l' j) = sock_core (tb_socks l j)" for j using assms(2) by (simp add: same_socks_def)
  have q: "cq D x l' i = cq D x l i" for i using assms(3) by (simp add: cq_def)
  show ?thesis using assms sock_core_eqD(2,4) [OF c] unfolding announced_def
    by (simp add: q cqs_wf_def tx_ledger_def rx_ledger_def has_bumps_def)
qed

lemma announced_mark: "cqs_wf D x l \<Longrightarrow> announced D x l (sock_mark_bump x k l)"
  by (rule announced_links) (simp_all add: same_socks_mark)

lemma announced_sock_flush:
  assumes inv: "tlib_inv E x0 fd ks l" and wf: "cqs_wf D x l" and ids: "ids_ok x l" and k: "sock_of x l k" and r: "sock_flush_bumps x k l = Inr l'"
  shows "announced D x l l'" "has_bumps (tb_socks l' k) \<Longrightarrow> cq_full D x l' (unat (tl_core (tb_socks l' k)))"
proof -
  note b = announced_both [OF wf ids k]
  have e: "l' = (if has_bumps (tb_socks (flush_both x k l) k) then sock_mark_bump x k (flush_both x k l) else flush_both x k l)"
    using sock_flush_eq [OF inv, of k x] k r by (simp add: sock_of_def)
  have m: "announced D x (flush_both x k l) l'" unfolding e using announced_mark announced_refl announcedD(2) [OF b(1)] by simp
  show a: "announced D x l l'" by (rule announced_trans [OF b(1) m])
  show "cq_full D x l' (unat (tl_core (tb_socks l' k)))" if "has_bumps (tb_socks l' k)"
    unfolding announced_core [OF m] by (rule announced_full [OF m], rule b(2)) (use that m in \<open>simp add: announced_def\<close>)
qed

lemma announced_loop:
  assumes "tlib_inv {} x fd ks l" "cqs_wf D x l" "ids_ok x l" "flush_loop fuel x fd l = Inr l'"
  shows "announced D x l l' \<and> (\<forall>k. sock_of x l k \<and> has_bumps (tb_socks l' k) \<longrightarrow>
      cq_full D x l' (unat (tl_core (tb_socks l k))) \<or> k \<notin> set ks \<and> has_bumps (tb_socks l k))"
  using assms
proof (induction fuel arbitrary: fd ks l)
  case 0
  then show ?case using tlib_invD(5) [OF 0(1)] announced_refl by (cases ks) (auto split: if_splits)
next
  case (Suc fuel)
  show ?case
  proof (cases ks)
    case Nil
    then show ?thesis using tlib_invD(5) [OF Suc.prems(1)] Suc.prems(2,4) announced_refl by auto
  next
    case (Cons k js)
    have fd: "fd = int k" using tlib_invD(5) [OF Suc.prems(1)] Cons by simp
    define l1 where "l1 = upd_tsock k (\<lambda>s. s\<lparr>tl_bump_pending := False, tl_bump_next := TCP_BUMP_NONE\<rparr>) l"
    have inv1: "tlib_inv {k} x (tl_bump_next (tb_socks l k)) js l1"
      using unlink_inv [of x k js l] Suc.prems(1) unfolding fd Cons l1_def by blast
    have a1: "announced D x l l1"
      by (rule announced_links [OF Suc.prems(2)]) (simp_all add: same_socks_def l1_def)
    note d1 = announcedD [OF a1]
    obtain l2 where l2: "(if sock_of x l1 k \<and> has_bumps (tb_socks l1 k) then sock_flush_bumps x k l1 else Inr l1) = Inr l2"
      and rest: "flush_loop fuel x (tl_bump_next (tb_socks l k)) l2 = Inr l'"
      using Suc.prems(4) unfolding fd sock_of_def has_bumps_def
      by (auto simp: l1_def [symmetric] Let_def simp del: upd_t_simps split: if_splits sum.splits)
    have inv2: "tlib_inv {} x (tl_bump_next (tb_socks l k)) js l2"
    proof (cases "sock_of x l1 k \<and> has_bumps (tb_socks l1 k)")
      case True
      then show ?thesis using l2 sock_flush_inv [OF inv1, of k x] by (auto simp: sock_of_def)
    next
      case False
      have "k \<in> pend_set l x" using tlib_invD(6) [OF Suc.prems(1), of x] Cons by auto
      then have "\<not> sock_active (tb_socks l1 k) \<or> \<not> has_bumps (tb_socks l1 k)" using False by (auto simp: sock_of_def pend_set_def l1_def)
      from tlib_inv_unmarked [OF inv1 this] show ?thesis using l2 False by (simp split: if_splits)
    qed
    have f: "announced D x l1 l2" "sock_of x l1 k \<Longrightarrow> has_bumps (tb_socks l2 k) \<Longrightarrow> cq_full D x l2 (unat (tl_core (tb_socks l2 k)))"
      using l2 announced_sock_flush [OF inv1 d1(2)] announced_refl [OF d1(2)] Suc.prems(3) d1(3) by (auto split: if_splits)
    note a2 = announced_trans [OF a1 f(1)]
    note d2 = announcedD [OF a2]
    have ih: "announced D x l2 l' \<and> (\<forall>j. sock_of x l2 j \<and> has_bumps (tb_socks l' j) \<longrightarrow>
        cq_full D x l' (unat (tl_core (tb_socks l2 j))) \<or> j \<notin> set js \<and> has_bumps (tb_socks l2 j))"
      by (rule Suc.IH [OF inv2 d2(2) _ rest]) (use d2(3) Suc.prems(3) in simp)
    have "cq_full D x l' (unat (tl_core (tb_socks l j))) \<or> j \<notin> set ks \<and> has_bumps (tb_socks l j)"
      if j: "sock_of x l j" "has_bumps (tb_socks l' j)" for j
    proof -
      consider "cq_full D x l' (unat (tl_core (tb_socks l j)))" | "j \<notin> set js" "has_bumps (tb_socks l2 j)"
        using ih j d2(4) announced_core [OF a2] by metis
      then show ?thesis
      proof cases
        case 2
        show ?thesis
        proof (cases "j = k")
          case True
          then have "cq_full D x l2 (unat (tl_core (tb_socks l j)))" using f(2) 2 d1(4) j announced_core [OF a2] by metis
          then show ?thesis using announced_full ih by blast
        next
          case False
          then show ?thesis using 2 Cons a2 by (simp add: announced_def)
        qed
      qed simp
    qed
    then show ?thesis using ih announced_trans [OF a2] by blast
  qed
qed

lemma announced_flush:
  assumes good: "tlib_good l" and wf: "cqs_wf D x l" and ids: "ids_ok x l"
  shows "\<exists>l'. tcp_flush_bumps x l = Inr l' \<and> tlib_good l' \<and> announced D x l l' \<and>
    (\<forall>k. sock_of x l k \<and> has_bumps (tb_socks l' k) \<longrightarrow> cq_full D x l' (unat (tl_core (tb_socks l k))))"
proof -
  note inv = good_inv [OF good, of x]
  obtain l' where l': "tcp_flush_bumps x l = Inr l'" "tlib_good l'" using good_flush [OF good] by blast
  obtain ns where ns: "bump_list l x ns" "set ns = pend_set l x" using tlib_invD(6) [OF inv, of x] by auto
  define l1 where "l1 = upd_tctx x (\<lambda>cx. cx\<lparr>tc_bump_head := TCP_BUMP_NONE, tc_bump_tail := TCP_BUMP_NONE\<rparr>) l"
  have a1: "announced D x l l1" by (rule announced_links [OF wf]) (simp_all add: l1_def same_socks_def)
  have inv1: "tlib_inv {} x (tc_bump_head (tb_ctxs l x)) ns l1"
    using detach_inv [OF _ ns] good by (simp add: l1_def tlib_good_def)
  have run: "flush_loop LIB_MAX_SOCKETS x (tc_bump_head (tb_ctxs l x)) l1 = Inr l'" using l'(1) by (simp only: tcp_flush_bumps_def l1_def)
  note r = announced_loop [OF inv1 announcedD(2) [OF a1] _ run, unfolded announcedD(3,4) [OF a1], OF ids]
  have "cq_full D x l' (unat (tl_core (tb_socks l k)))" if k: "sock_of x l k" "has_bumps (tb_socks l' k)" for k
  proof (rule ccontr)
    assume "\<not> ?thesis"
    then have "k \<notin> set ns" "has_bumps (tb_socks l k)" using r k by (auto simp: l1_def)
    moreover have "tl_bump_pending (tb_socks l k)" using tlib_invD(4) [OF inv, of k] k(1) \<open>has_bumps (tb_socks l k)\<close> by (simp add: sock_of_def)
    ultimately show False using k(1) ns(2) by (simp add: pend_set_def sock_of_def)
  qed
  then show ?thesis using l' r announced_trans [OF a1] by blast
qed

end
