(* ===== verification/Tcp_Lib_Calls.thy ===== *)
theory Tcp_Lib_Calls
  imports Tcp_Lib_Flush
begin

unbundle bit_operations_syntax

text \<open>Sending, receiving, closing and the messages, and that they keep the invariant.\<close>

section \<open>Sending\<close>

text \<open>The state in which \<^const>\<open>send_bytes\<close> decides whether to announce at once.\<close>

definition sent_sock :: "u32 \<Rightarrow> sockaddr \<Rightarrow> tcp_socket_lib \<Rightarrow> tcp_socket_lib" where
  "sent_sock n sin s = s\<lparr>tl_tx_avail := tl_tx_avail s + n, tl_remote_ip := f_beui32 (fst (snd sin)), tl_remote_port := f_beui16 (snd (snd sin)),
     tl_tx_bump_pending := tl_tx_bump_pending s + n\<rparr>"

definition send_state :: "nat \<Rightarrow> nat \<Rightarrow> bytes \<Rightarrow> u32 \<Rightarrow> sockaddr \<Rightarrow> tcp_lib \<Rightarrow> tcp_lib" where
  "send_state x k buf n sin l =
     (let s = tb_socks l k
      in sock_mark_bump x k ((put_tsock k (sent_sock n sin s) l)
           \<lparr>tb_shm := ring_store (tb_shm l) (unat (tl_tx_buf s)) (tl_tx_len s) (ring_wrap (tl_tx_len s) (tl_tx_head s + tl_tx_avail s)) buf 0 n\<rparr>))"

definition recv_sock :: "u32 \<Rightarrow> tcp_socket_lib \<Rightarrow> tcp_socket_lib" where
  "recv_sock n s = s\<lparr>tl_rx_avail := tl_rx_avail s - n, tl_rx_head := ring_wrap (tl_rx_len s) (tl_rx_head s + n),
     tl_rx_bump_pending := tl_rx_bump_pending s + n\<rparr>"

definition recv_state :: "nat \<Rightarrow> nat \<Rightarrow> u32 \<Rightarrow> tcp_lib \<Rightarrow> tcp_lib" where
  "recv_state x k n l = sock_mark_bump x k (put_tsock k (recv_sock n (tb_socks l k)) l)"

definition recv_addr :: "tcp_socket_lib \<Rightarrow> sockaddr option \<Rightarrow> sockaddr option" where
  "recv_addr s addr = map_option (\<lambda>_. (AF_INET, t_beui32 (tl_remote_ip s), t_beui16 (tl_remote_port s))) addr"

definition recv_buf :: "tcp_socket_lib \<Rightarrow> u32 \<Rightarrow> bytes \<Rightarrow> bytes \<Rightarrow> bytes" where
  "recv_buf s n buf shm = ring_load buf 0 shm (unat (tl_rx_buf s)) (tl_rx_len s) (tl_rx_head s) n"

text \<open>A state in which socket \<open>k\<close> has been marked, and what follows it when its bumps may be flushed.\<close>

definition maybe_flushed :: "nat \<Rightarrow> nat \<Rightarrow> tcp_lib \<Rightarrow> tcp_lib \<Rightarrow> bool" where
  "maybe_flushed x k l l' \<longleftrightarrow> l' = l \<or> sock_flush_bumps x k l = Inr l'"

lemma maybe_flushed_good:
  assumes "tlib_good l" "sock_of x l k" "maybe_flushed x k l l'"
  shows "tlib_good l' \<and> same_socks l l'"
  using good_sock_flush [OF assms(1), of k x] assms by (auto simp: maybe_flushed_def sock_of_def)

lemma maybe_flushed_announced:
  assumes "tlib_good l" "sock_of x l k" "maybe_flushed x k l l'" "cqs_wf D x l" "ids_ok x l"
  shows "announced D x l l'"
  using announced_sock_flush(1) [OF good_inv [OF assms(1), of 0] assms(4,5,2)] announced_refl [OF assms(4)] assms(3)
  by (auto simp: maybe_flushed_def)

lemma ok_rings:
  assumes "tlib_good l"
  shows "ring_sane (tl_rx_len (tb_socks l k)) (tl_rx_avail (tb_socks l k)) (tl_rx_head (tb_socks l k))"
    "ring_sane (tl_tx_len (tb_socks l k)) (tl_tx_avail (tb_socks l k)) (tl_tx_head (tb_socks l k))"
  using good_ok [OF assms, of k] by (simp_all add: tsock_ok_def)

lemma send_state_good:
  assumes good: "tlib_good l" and k: "sock_of x l k"
    and n: "n \<noteq> 0" "n \<le> tl_tx_len (tb_socks l k) - tl_tx_avail (tb_socks l k)"
  shows "tlib_good (send_state x k buf n sin l)" "sock_of x (send_state x k buf n sin l) k"
    "sock_core (tb_socks (send_state x k buf n sin l) j) = sock_core (if j = k then sent_sock n sin (tb_socks l k) else tb_socks l j)"
proof -
  let ?s = "sent_sock n sin (tb_socks l k)"
  let ?l1 = "(put_tsock k ?s l)\<lparr>tb_shm := ring_store (tb_shm l) (unat (tl_tx_buf (tb_socks l k))) (tl_tx_len (tb_socks l k))
     (ring_wrap (tl_tx_len (tb_socks l k)) (tl_tx_head (tb_socks l k) + tl_tx_avail (tb_socks l k))) buf 0 n\<rparr>"
  have e: "send_state x k buf n sin l = sock_mark_bump x k ?l1" by (simp add: send_state_def Let_def)
  note k' = k [unfolded sock_of_def]
  show "tlib_good (send_state x k buf n sin l)" unfolding e
    by (rule good_advance [OF good, of k x ?s]) (use k' ok_rings [OF good, of k] ring_sane_add(1) [OF ok_rings(2) [OF good] n] in \<open>simp_all add: sent_sock_def\<close>)
  show c: "sock_core (tb_socks (send_state x k buf n sin l) j) = sock_core (if j = k then ?s else tb_socks l j)" for j
    unfolding e by simp
  show "sock_of x (send_state x k buf n sin l) k"
    using sock_core_eqD(1,3) [OF c [of k]] k' by (simp add: sock_of_def sent_sock_def)
qed

lemma recv_state_good:
  assumes good: "tlib_good l" and k: "sock_of x l k" and n: "n \<noteq> 0" "n \<le> tl_rx_avail (tb_socks l k)"
  shows "tlib_good (recv_state x k n l)" "sock_of x (recv_state x k n l) k"
    "sock_core (tb_socks (recv_state x k n l) j) = sock_core (if j = k then recv_sock n (tb_socks l k) else tb_socks l j)"
proof -
  let ?s = "recv_sock n (tb_socks l k)"
  note k' = k [unfolded sock_of_def]
  show "tlib_good (recv_state x k n l)" unfolding recv_state_def
    by (rule good_advance [OF good, of k x ?s])
      (use k' ok_rings [OF good, of k] ring_sane_drop(1) [OF ok_rings(1) [OF good] n(2,1)] in \<open>simp_all add: recv_sock_def\<close>)
  show c: "sock_core (tb_socks (recv_state x k n l) j) = sock_core (if j = k then ?s else tb_socks l j)" for j
    unfolding recv_state_def by simp
  show "sock_of x (recv_state x k n l) k"
    using sock_core_eqD(1,3) [OF c [of k]] k' by (simp add: sock_of_def recv_sock_def)
qed

lemma send_bytes_state:
  assumes good: "tlib_good l" and k: "sock_of x l k"
    and n: "n \<noteq> 0" "n \<le> tl_tx_len (tb_socks l k) - tl_tx_avail (tb_socks l k)"
  shows "\<exists>l'. send_bytes x k buf n sin l = Inr (int (unat n), l') \<and> maybe_flushed x k (send_state x k buf n sin l) l'"
proof -
  note g = send_state_good [OF good k n, of buf sin]
  obtain l3 where l3: "sock_flush_bumps x k (send_state x k buf n sin l) = Inr l3"
    using good_sock_flush [OF g(1), of k x] g(2) by (auto simp: sock_of_def)
  have "unat n < 2 ^ 31" using ring_sane_add [OF ok_rings(2) [OF good] n] by (auto simp: ring_sane_def split: if_splits)
  then have "sint n = int (unat n)" by (rule sint_small_32)
  then show ?thesis using l3 unfolding send_bytes_def send_state_def [symmetric] maybe_flushed_def
    by (simp add: Let_def send_state_def sent_sock_def)
qed

lemma lookup_sock_of: "tlookup_sock l (Some x) sockfd = Inr k \<Longrightarrow> sock_of x l k"
  using lookupD [of l "Some x" sockfd k] by (simp add: sock_of_def)

text \<open>What the calls return.\<close>

lemma sendto_cases:
  assumes good: "tlib_good l"
  obtains (error) e where "tcp_sendto ctx sockfd buf len addr addrlen l = Inr (-1, set_errno e l)"
  | (zero) "tcp_sendto ctx sockfd buf len addr addrlen l = Inr (0, l)"
  | (bytes) x k n sin l' where "tcp_sendto ctx sockfd buf len addr addrlen l = Inr (int (unat n), l')" "sock_of x l k" "n \<noteq> 0"
      "n \<le> tl_tx_len (tb_socks l k) - tl_tx_avail (tb_socks l k)" "maybe_flushed x k (send_state x k buf n sin l) l'"
proof (cases "tlookup_sock l ctx sockfd")
  case (Inl e)
  then show ?thesis using error by (simp add: tcp_sendto_def tfail_def)
next
  case (Inr k)
  then obtain x where x: "ctx = Some x" using lookupD(4) by blast
  then have k: "sock_of x l k" using Inr lookup_sock_of by blast
  let ?s = "tb_socks l k"
  define n where "n = (if (ucast len :: u32) > tl_tx_len ?s - tl_tx_avail ?s then tl_tx_len ?s - tl_tx_avail ?s else ucast len)"
  show ?thesis
  proof (cases "tl_state ?s \<noteq> TCP_LIB_STATE_ESTABLISHED \<or> len = 0 \<or> n = 0 \<or> (\<exists>e. send_addr ?s addr addrlen = Inl e)")
    case True
    then have "(\<exists>e. tcp_sendto ctx sockfd buf len addr addrlen l = Inr (-1, set_errno e l)) \<or> tcp_sendto ctx sockfd buf len addr addrlen l = Inr (0, l)"
      using Inr by (cases "send_addr ?s addr addrlen") (auto simp: tcp_sendto_def tfail_def n_def Let_def)
    then show ?thesis using error zero by blast
  next
    case False
    then obtain sin where sin: "send_addr ?s addr addrlen = Inr sin" by (cases "send_addr ?s addr addrlen") auto
    have n: "n \<noteq> 0" "n \<le> tl_tx_len ?s - tl_tx_avail ?s" using False by (auto simp: n_def)
    obtain l' where "send_bytes x k buf n sin l = Inr (int (unat n), l')" "maybe_flushed x k (send_state x k buf n sin l) l'"
      using send_bytes_state [OF good k n] by blast
    then show ?thesis using Inr x False sin n k by (intro bytes) (auto simp: tcp_sendto_def Let_def n_def)
  qed
qed

lemma good_sendto:
  assumes "tlib_good l"
  shows "\<exists>r l'. tcp_sendto ctx sockfd buf len addr addrlen l = Inr (r, l') \<and> tlib_good l'"
proof (cases rule: sendto_cases [OF assms, of ctx sockfd buf len addr addrlen, case_names error zero bytes])
  case (bytes x k n sin l')
  then show ?thesis using maybe_flushed_good send_state_good [OF assms bytes(2-4), of buf sin] by blast
qed (use assms in simp_all)

lemma recvfrom_taken:
  assumes good: "tlib_good l" and look: "tlookup_sock l (Some x) sockfd = Inr k"
    and st: "tl_state (tb_socks l k) = TCP_LIB_STATE_ESTABLISHED \<or> tl_state (tb_socks l k) = TCP_LIB_STATE_CLOSING"
    and addr: "addr = None \<or> SOCKADDR_IN_LEN \<le> alen"
    and n0: "(if (ucast len :: u32) > tl_rx_avail (tb_socks l k) then tl_rx_avail (tb_socks l k) else ucast len) \<noteq> 0"
  defines "n \<equiv> (if (ucast len :: u32) > tl_rx_avail (tb_socks l k) then tl_rx_avail (tb_socks l k) else ucast len)"
  shows "\<exists>l'. tcp_recvfrom (Some x) sockfd buf len addr alen l =
      Inr (int (unat n), recv_addr (tb_socks l k) addr, recv_buf (tb_socks l k) n buf (tb_shm l), l') \<and>
    maybe_flushed x k (recv_state x k n l) l'"
proof -
  let ?s = "tb_socks l k"
  have n: "n \<noteq> 0" "n \<le> tl_rx_avail ?s" using n0 by (auto simp: n_def)
  have k: "sock_of x l k" by (rule lookup_sock_of [OF look])
  have "unat n < 2 ^ 31" using n ok_rings(1) [OF good, of k] by (auto simp: ring_sane_def word_le_nat_alt split: if_splits)
  then have sn: "sint n = int (unat n)" by (rule sint_small_32)
  note g = recv_state_good [OF good k n]
  obtain l3 where l3: "sock_flush_bumps x k (recv_state x k n l) = Inr l3" using good_sock_flush [OF g(1), of k x] g(2) by (auto simp: sock_of_def)
  define C where "C \<longleftrightarrow> tl_rx_avail ?s = tl_rx_len ?s \<or> tl_rx_bump_pending (tb_socks (recv_state x k n l) k) \<ge> sock_rx_bump_thresh (tb_socks (recv_state x k n l) k)"
  have "tcp_recvfrom (Some x) sockfd buf len addr alen l = Inr (sint n, recv_addr ?s addr, recv_buf ?s n buf (tb_shm l), if C then l3 else recv_state x k n l)"
    using n(1) st addr l3 unfolding tcp_recvfrom_def Let_def C_def recv_addr_def recv_buf_def look sum.case option.sel
    unfolding n_def [symmetric] recv_sock_def [symmetric]
    unfolding recv_state_def [symmetric] by auto
  moreover have "maybe_flushed x k (recv_state x k n l) (if C then l3 else recv_state x k n l)" using l3 by (simp add: maybe_flushed_def)
  ultimately show ?thesis using sn by auto
qed

lemma good_recvfrom:
  assumes good: "tlib_good l"
  shows "\<exists>r a b l'. tcp_recvfrom ctx sockfd buf len addr alen l = Inr (r, a, b, l') \<and> tlib_good l'"
proof (cases "tlookup_sock l ctx sockfd")
  case (Inl e)
  then show ?thesis using good by (simp add: tcp_recvfrom_def)
next
  case (Inr k)
  then obtain x where x: "ctx = Some x" using lookupD(4) by blast
  let ?s = "tb_socks l k" and ?n = "if (ucast len :: u32) > tl_rx_avail (tb_socks l k) then tl_rx_avail (tb_socks l k) else ucast len"
  show ?thesis
  proof (cases "(tl_state ?s = TCP_LIB_STATE_ESTABLISHED \<or> tl_state ?s = TCP_LIB_STATE_CLOSING) \<and> (addr = None \<or> SOCKADDR_IN_LEN \<le> alen) \<and> ?n \<noteq> 0")
    case False
    then show ?thesis using Inr good by (auto simp: tcp_recvfrom_def Let_def)
  next
    case True
    have k: "sock_of x l k" using Inr x lookup_sock_of by blast
    obtain l' a b where "tcp_recvfrom ctx sockfd buf len addr alen l = Inr (int (unat ?n), a, b, l')" "maybe_flushed x k (recv_state x k ?n l) l'"
      using recvfrom_taken [OF good Inr [unfolded x], of addr alen len buf] True x by blast
    moreover have "?n \<noteq> 0" "?n \<le> tl_rx_avail ?s" using True by auto
    ultimately show ?thesis using maybe_flushed_good recv_state_good(1,2) [OF good k, of ?n] by blast
  qed
qed

section \<open>Closing\<close>

lemma good_shutdown:
  assumes "tlib_good l"
  shows "\<exists>r l'. tcp_shutdown ctx sockfd how l = Inr (r, l') \<and> tlib_good l'"
proof -
  obtain l1 where l1: "tcp_flush_bumps (the ctx) l = Inr l1" "tlib_good l1" using good_flush [OF assms] by blast
  show ?thesis using assms l1
    by (auto simp: tcp_shutdown_def tfail_def keeps_rings_def split: sum.split prod.split intro!: good_keeps dest: request_goodD)
qed

lemma good_close:
  assumes "tlib_good l"
  shows "\<exists>r l'. tcp_close ctx sockfd l = Inr (r, l') \<and> tlib_good l'"
proof -
  obtain l1 where l1: "tcp_flush_bumps (the ctx) l = Inr l1" "tlib_good l1" using good_flush [OF assms] by blast
  show ?thesis using assms l1
    by (auto simp: tcp_close_def tfail_def keeps_rings_def Let_def split: sum.split intro!: good_keeps)
qed

section \<open>Messages from the fast path\<close>

text \<open>Messages can be wrong in themselves: a pointer outside the table, an unknown type.\<close>

definition env_fault :: "tlib_fault \<Rightarrow> bool" where
  "env_fault f \<longleftrightarrow> f = TL_BadOpaque \<or> f = TL_UnknownMessage"

definition res_good :: "('a \<Rightarrow> tcp_lib) \<Rightarrow> tlib_fault + 'a \<Rightarrow> bool" where
  "res_good g r \<longleftrightarrow> (case r of Inl f \<Rightarrow> env_fault f | Inr v \<Rightarrow> tlib_good (g v))"

lemma res_good_simps [simp]: "res_good g (Inl f) = env_fault f" "res_good g (Inr v) = tlib_good (g v)"
  by (simp_all add: res_good_def)

lemma env_fault_simps [simp]: "env_fault TL_BadOpaque" "env_fault TL_UnknownMessage"
  by (simp_all add: env_fault_def)

lemma sock_deref_fault: "sock_deref p = Inl f \<Longrightarrow> env_fault f"
  by (auto simp: sock_deref_def split: if_splits)

lemma good_put: "tlib_good l \<Longrightarrow> tsock_ok (ncores l) k s \<Longrightarrow> tl_fd s = tl_fd (tb_socks l k) \<Longrightarrow> tl_ctx s = tl_ctx (tb_socks l k) \<Longrightarrow>
    tl_bump_pending s = tl_bump_pending (tb_socks l k) \<Longrightarrow> tl_bump_next s = tl_bump_next (tb_socks l k) \<Longrightarrow>
    tl_tx_bump_pending s = tl_tx_bump_pending (tb_socks l k) \<Longrightarrow> tl_rx_bump_pending s = tl_rx_bump_pending (tb_socks l k) \<Longrightarrow> tlib_good (put_tsock k s l)"
  using good_sock [of l "\<lambda>_. s" k] by (simp add: upd_tsock_def has_bumps_def)

lemma good_tx_bump:
  assumes good: "tlib_good l"
  shows "res_good id (handle_tx_bump b k l)"
proof -
  let ?s = "tb_socks l k"
  define n where "n = (if bat_tx_head b > tl_tx_avail ?s then tl_tx_avail ?s else bat_tx_head b)"
  define s1 where "s1 = ?s\<lparr>tl_tx_head := ring_wrap (tl_tx_len ?s) (tl_tx_head ?s + n), tl_tx_avail := tl_tx_avail ?s - n\<rparr>"
  show ?thesis
  proof (cases "tl_fd ?s = SOCK_INACTIVE \<or> tl_tx_len ?s = 0 \<or> n = 0")
    case True
    then show ?thesis using good by (auto simp: handle_tx_bump_def Let_def n_def split: if_splits)
  next
    case False
    have n: "n \<le> tl_tx_avail ?s" "n \<noteq> 0" using False by (auto simp: n_def)
    have ok: "tsock_ok (ncores l) k s1"
      using good_ok [OF good, of k] ring_sane_drop(1) [OF ok_rings(2) [OF good] n] by (simp add: tsock_ok_def s1_def)
    have g1: "tlib_good (put_tsock k s1 l)" by (rule good_put [OF good ok]) (simp_all add: s1_def)
    obtain x where x: "tl_ctx s1 = Some x" "tl_ctx ?s = Some x" using good_ok [OF good, of k] False by (auto simp: tsock_ok_def s1_def)
    obtain l' where l': "sock_flush_bumps x k (put_tsock k s1 l) = Inr l'" "tlib_good l'"
      using good_sock_flush [OF g1, of k x] x False by (auto simp: s1_def)
    have "handle_tx_bump b k l = (if tl_tx_bump_pending s1 \<noteq> 0 \<and> tl_fd s1 \<noteq> SOCK_INACTIVE \<and> tl_tx_avail s1 = tl_tx_bump_pending s1
        then sock_flush_bumps x k (put_tsock k s1 l) else Inr (put_tsock k s1 l))"
      using False x unfolding handle_tx_bump_def Let_def n_def [symmetric] s1_def [symmetric] by simp
    then show ?thesis using g1 l' by simp
  qed
qed

lemma good_rx_bump:
  assumes good: "tlib_good l"
  shows "tlib_good (handle_rx_bump b k l)"
proof -
  let ?s = "tb_socks l k"
  define n where "n = (if bar_rx_avail b > tl_rx_len ?s - tl_rx_avail ?s then tl_rx_len ?s - tl_rx_avail ?s else bar_rx_avail b)"
  define s1 where "s1 = ?s\<lparr>tl_rx_avail := tl_rx_avail ?s + n, tl_remote_port := bar_rx_port b, tl_remote_ip := bar_rx_ip b\<rparr>"
  show ?thesis
  proof (cases "tl_fd ?s = SOCK_INACTIVE \<or> tl_rx_len ?s = 0 \<or> n = 0")
    case True
    then show ?thesis using good by (auto simp: handle_rx_bump_def Let_def n_def split: if_splits)
  next
    case False
    have n: "n \<noteq> 0" "n \<le> tl_rx_len ?s - tl_rx_avail ?s" using False by (auto simp: n_def)
    have ok: "tsock_ok (ncores l) k s1"
      using good_ok [OF good, of k] ring_sane_add(1) [OF ok_rings(1) [OF good] n] by (simp add: tsock_ok_def s1_def)
    have "tlib_good (put_tsock k s1 l)" by (rule good_put [OF good ok]) (simp_all add: s1_def)
    then show ?thesis using False unfolding handle_rx_bump_def Let_def n_def [symmetric] s1_def [symmetric] by simp
  qed
qed

lemma good_fast_msg: "tlib_good l \<Longrightarrow> res_good id (tlib_fast_msg m l)"
  by (auto simp: tlib_fast_msg_def good_rx_bump good_tx_bump dest: sock_deref_fault split: tcp_qdata.split sum.split option.split)

lemma good_poll_core: "tlib_good l \<Longrightarrow> res_good snd (tlib_poll_core x i fuel (n, l))"
proof (induction fuel arbitrary: n l)
  case (Suc fuel)
  let ?q = "tc_fast_app_qs (tb_ctxs l x) i"
  show ?case
  proof (cases "queue_head (fst ?q) (snd ?q)")
    case (Some pos)
    obtain ret q' where deq: "queue_dequeue (fst ?q) (snd ?q) = (ret, q')" by (metis prod.exhaust)
    show ?thesis
    proof (cases "tlib_fast_msg (snd ?q pos) l")
      case (Inl f)
      then show ?thesis using Some good_fast_msg [OF Suc.prems, of "snd ?q pos"] by (simp add: Let_def)
    next
      case (Inr l1)
      then have "tlib_good l1" using good_fast_msg [OF Suc.prems, of "snd ?q pos"] by simp
      then have "tlib_good (upd_tctx x (\<lambda>cx. cx\<lparr>tc_fast_app_qs := (tc_fast_app_qs cx)(i := q')\<rparr>) l1)" by (rule good_ctx) simp_all
      from Suc.IH [OF this] show ?thesis using Some Inr deq by (simp add: Let_def)
    qed
  qed (use Suc.prems in \<open>simp add: Let_def\<close>)
qed simp

lemma good_poll_cores: "tlib_good l \<Longrightarrow> res_good snd (tlib_poll_cores x is (n, l))"
proof (induction "is" arbitrary: n l)
  case (Cons i js)
  then show ?case
    using good_poll_core [OF Cons.prems, of x i "unat (dq_nelems (fst (tc_fast_app_qs (tb_ctxs l x) i))) + 1" n]
    by (auto split: sum.split)
qed simp

lemma good_poll_fast:
  assumes "tlib_good l"
  shows "res_good snd (tcp_poll_fast x l)"
proof -
  obtain l1 where "tcp_flush_bumps x l = Inr l1" "tlib_good l1" using good_flush [OF assms] by blast
  then show ?thesis using good_poll_cores by (simp add: tcp_poll_fast_def)
qed

section \<open>Messages from the slow path\<close>

text \<open>
  What the library takes on trust from the slow path: a socket is given its buffers once, of less
  than 2 GiB each, and its core has queues.
\<close>

definition core_ok :: "tcp_lib \<Rightarrow> tcp_socket_lib \<Rightarrow> u16 \<Rightarrow> bool" where
  "core_ok l s core \<longleftrightarrow> (case tl_ctx s of None \<Rightarrow> True | Some x \<Rightarrow> unat core < ncores l x)"

definition grant_ok :: "tcp_lib \<Rightarrow> u64 \<Rightarrow> u16 \<Rightarrow> u32 \<Rightarrow> u32 \<Rightarrow> bool" where
  "grant_ok l p core rxl txl \<longleftrightarrow>
     (case sock_deref p of
        Inr (Some k) \<Rightarrow> tl_rx_len (tb_socks l k) = 0 \<and> tl_tx_len (tb_socks l k) = 0 \<and> core_ok l (tb_socks l k) core \<and>
                        unat rxl < 2 ^ 31 \<and> unat txl < 2 ^ 31
      | _ \<Rightarrow> True)"

definition slow_msg_ok :: "tcp_lib \<Rightarrow> tcp_app_data \<Rightarrow> bool" where
  "slow_msg_ok l d \<longleftrightarrow>
     (case d of
        A_new_sock_res r \<Rightarrow> grant_ok l (nsr_opaque r) (nsr_core r) (nsr_rx_len r) (nsr_tx_len r)
      | A_connect_res r \<Rightarrow> (case sock_deref (cs_opaque r) of Inr (Some k) \<Rightarrow> core_ok l (tb_socks l k) (cs_core r) | _ \<Rightarrow> True)
      | A_accept_res r \<Rightarrow> as_status r = 0 \<longrightarrow> grant_ok l (as_opaque r) (as_core r) (as_rx_len r) (as_tx_len r)
      | _ \<Rightarrow> True)"

lemma good_on_opaque:
  assumes "\<And>k. sock_deref p = Inr (Some k) \<Longrightarrow> res_good id (f k)"
  shows "res_good id (on_opaque p f)"
  using assms sock_deref_fault by (auto simp: on_opaque_def split: sum.split option.split)

text \<open>A socket without buffers that is given some.\<close>

lemma good_grant:
  assumes good: "tlib_good l" and s: "tl_rx_len (tb_socks l k) = 0" "tl_tx_len (tb_socks l k) = 0" "core_ok l (tb_socks l k) (tl_core (f (tb_socks l k)))"
    "unat (tl_rx_len (f (tb_socks l k))) < 2 ^ 31" "unat (tl_tx_len (f (tb_socks l k))) < 2 ^ 31"
    and f: "\<And>s. tl_fd (f s) = tl_fd s \<and> tl_ctx (f s) = tl_ctx s \<and> tl_bump_pending (f s) = tl_bump_pending s \<and> tl_bump_next (f s) = tl_bump_next s \<and>
      tl_tx_bump_pending (f s) = tl_tx_bump_pending s \<and> tl_rx_bump_pending (f s) = tl_rx_bump_pending s \<and>
      tl_rx_avail (f s) = tl_rx_avail s \<and> tl_rx_head (f s) = tl_rx_head s \<and> tl_tx_avail (f s) = tl_tx_avail s \<and> tl_tx_head (f s) = tl_tx_head s"
  shows "tlib_good (upd_tsock k f l)"
proof -
  have "ring_sane L 0 0" if "unat L < 2 ^ 31" for L :: u32 using that by (auto simp: ring_sane_def unat_gt_0)
  moreover have "tl_rx_avail (tb_socks l k) = 0" "tl_rx_head (tb_socks l k) = 0" "tl_tx_avail (tb_socks l k) = 0" "tl_tx_head (tb_socks l k) = 0"
    using ok_rings [OF good, of k] s(1,2) by (simp_all add: ring_sane_def)
  ultimately have "tsock_ok (ncores l) k (f (tb_socks l k))" using good_ok [OF good, of k] s f [of "tb_socks l k"]
    by (auto simp: tsock_ok_def core_ok_def)
  then show ?thesis using f [of "tb_socks l k"] by (intro good_sock [OF good]) (simp_all add: has_bumps_def)
qed

lemma good_connect_res:
  assumes good: "tlib_good l" and core: "core_ok l (tb_socks l k) (cs_core r)"
  shows "tlib_good (upd_tsock k (handle_connect_res r) l)"
proof (rule good_sock [OF good])
  show "tsock_ok (ncores l) k (handle_connect_res r (tb_socks l k))"
    using good_ok [OF good, of k] core by (auto simp: tsock_ok_def handle_connect_res_def core_ok_def)
qed (auto simp: handle_connect_res_def has_bumps_def split: if_splits)

lemma good_accept_res:
  assumes good: "tlib_good l" and ok: "slow_msg_ok l (A_accept_res r)" and k: "sock_deref (as_opaque r) = Inr (Some k)"
  shows "res_good id (handle_accept_res r k l)"
proof -
  let ?dec = "\<lambda>s. s\<lparr>tl_pending_conn := tl_pending_conn s - 1\<rparr>"
  have fill: "tlib_good (upd_tsock k (accept_fill r) l1)"
    if l1: "tlib_good l1" "tl_rx_len (tb_socks l1 k) = tl_rx_len (tb_socks l k)" "tl_tx_len (tb_socks l1 k) = tl_tx_len (tb_socks l k)"
      "tl_ctx (tb_socks l1 k) = tl_ctx (tb_socks l k)" "tb_ctxs l1 = tb_ctxs l" for l1
  proof (cases "as_status r = 0")
    case True
    then show ?thesis using l1 ok k by (intro good_grant) (auto simp: slow_msg_ok_def grant_ok_def core_ok_def accept_fill_def split: option.split)
  next
    case False
    then show ?thesis using l1(1) by (intro good_keeps) (simp_all add: accept_fill_def keeps_rings_def)
  qed
  have dec: "tlib_good (upd_tsock j ?dec l)" for j by (rule good_keeps [OF good]) (simp add: keeps_rings_def)
  show ?thesis using good fill [OF good] fill [OF dec] sock_deref_fault
    by (auto simp: handle_accept_res_def Let_def split: sum.split option.split)
qed

lemma good_slow_msg:
  assumes good: "tlib_good l" and ok: "slow_msg_ok l (qs_data m)"
  shows "res_good id (tlib_slow_msg m l)"
proof (cases "qs_data m")
  case (A_new_sock_res r)
  show ?thesis using A_new_sock_res ok unfolding tlib_slow_msg_def Let_def
    by (auto intro!: good_on_opaque good_grant [OF good] simp: slow_msg_ok_def grant_ok_def handle_new_sock_res_def)
next
  case (A_connect_res r)
  then show ?thesis using ok unfolding tlib_slow_msg_def Let_def
    by (auto intro!: good_on_opaque good_connect_res [OF good] simp: slow_msg_ok_def)
next
  case (A_accept_res r)
  then show ?thesis using ok unfolding tlib_slow_msg_def Let_def by (auto intro!: good_on_opaque good_accept_res [OF good])
qed (auto simp: tlib_slow_msg_def Let_def handle_listen_res_def handle_listen_newconn_def keeps_rings_def intro!: good_on_opaque good_keeps [OF good])

text \<open>The messages one call of \<^const>\<open>tcp_poll_slow\<close> finds, each checked in the state it meets.\<close>

fun slow_input_ok :: "nat \<Rightarrow> nat \<Rightarrow> tcp_lib \<Rightarrow> bool" where
  "slow_input_ok x 0 l \<longleftrightarrow> True"
| "slow_input_ok x (Suc n) l \<longleftrightarrow>
     (let q = tc_slow_app_q (tb_ctxs l x)
      in case queue_head (fst q) (snd q) of None \<Rightarrow> True
         | Some pos \<Rightarrow>
             slow_msg_ok l (qs_data (snd q pos)) \<and>
             (case tlib_slow_msg (snd q pos) l of Inl f \<Rightarrow> True
              | Inr l1 \<Rightarrow>
                (case queue_dequeue (fst q) (snd q) of (ret, q') \<Rightarrow> slow_input_ok x n (upd_tctx x (\<lambda>cx. cx\<lparr>tc_slow_app_q := q'\<rparr>) l1))))"

lemma good_slow_loop: "tlib_good l \<Longrightarrow> slow_input_ok x n l \<Longrightarrow> res_good snd (tlib_slow_loop x n l)"
proof (induction n arbitrary: l)
  case (Suc n)
  let ?q = "tc_slow_app_q (tb_ctxs l x)"
  show ?case
  proof (cases "queue_head (fst ?q) (snd ?q)")
    case (Some pos)
    obtain ret q' where deq: "queue_dequeue (fst ?q) (snd ?q) = (ret, q')" by (metis prod.exhaust)
    have m: "res_good id (tlib_slow_msg (snd ?q pos) l)" using Suc.prems Some by (intro good_slow_msg) (auto simp: Let_def)
    show ?thesis
    proof (cases "tlib_slow_msg (snd ?q pos) l")
      case (Inl f)
      then show ?thesis using Some m by (simp add: Let_def)
    next
      case (Inr l1)
      have "tlib_good (upd_tctx x (\<lambda>cx. cx\<lparr>tc_slow_app_q := q'\<rparr>) l1)" by (rule good_ctx) (use m Inr in simp_all)
      from Suc.IH [OF this] show ?thesis using Some Inr deq Suc.prems(2) by (simp add: Let_def)
    qed
  qed (use Suc.prems in \<open>simp add: Let_def\<close>)
qed simp

lemma good_poll_slow: "tlib_good l \<Longrightarrow> slow_input_ok x TLIB_BATCH l \<Longrightarrow> res_good snd (tcp_poll_slow x l)"
  unfolding tcp_poll_slow_def by (rule good_slow_loop)

lemma good_wait_poll:
  assumes good: "tlib_good l"
    and ok: "mode \<noteq> TCP_WAIT_POLL_FAST \<longrightarrow> (case tcp_flush_bumps x l of Inl f \<Rightarrow> True | Inr l1 \<Rightarrow> slow_input_ok x TLIB_BATCH l1)"
  shows "res_good id (twait_poll_ctx x mode l)"
proof -
  obtain l0 where l0: "tcp_flush_bumps x l = Inr l0" "tlib_good l0" using good_flush [OF good] by blast
  define r where "r = (if mode \<noteq> TCP_WAIT_POLL_FAST then tcp_poll_slow x l0 else Inr (0, l0))"
  have r: "res_good snd r" using good_poll_slow [OF l0(2)] l0 ok by (simp add: r_def)
  show ?thesis
  proof (cases r)
    case (Inl f)
    then show ?thesis using r l0(1) by (simp add: twait_poll_ctx_def r_def [symmetric])
  next
    case (Inr v)
    have "tlib_good (snd v)" using r Inr by simp
    from good_poll_fast [OF this, of x] this show ?thesis using Inr l0(1)
      by (auto simp: twait_poll_ctx_def r_def [symmetric] split: sum.split prod.split)
  qed
qed

end
