(* ===== verification/Tcp_Lib_Props.thy ===== *)
theory Tcp_Lib_Props
  imports Tcp_Lib_Calls
begin

unbundle bit_operations_syntax

text \<open>
  The TCP library as a whole: what holds after any sequence of calls, and what the calls that move
  bytes do.
\<close>

section \<open>Sequences of calls\<close>

datatype tlib_op =
    Op_socket "nat option"
  | Op_bind "nat option" int "sockaddr option" nat
  | Op_connect "nat option" int "sockaddr option" nat u32
  | Op_listen "nat option" int int
  | Op_accept "nat option" int "sockaddr option" "nat option" u32
  | Op_setsockopt "nat option" int u8
  | Op_sendto "nat option" int bytes csize "sockaddr option" nat
  | Op_recvfrom "nat option" int bytes csize "sockaddr option" nat
  | Op_shutdown "nat option" int int
  | Op_close "nat option" int
  | Op_poll_fast nat
  | Op_poll_slow nat
  | Op_wait_poll nat tcp_wait_poll_mode

definition returned :: "('a \<Rightarrow> int) \<Rightarrow> ('a \<Rightarrow> tcp_lib) \<Rightarrow> tlib_fault + 'a \<Rightarrow> tlib_fault + int tlib_call" where
  "returned r g res = (case res of Inl f \<Rightarrow> Inl f | Inr v \<Rightarrow> Inr (Return (r v) (g v)))"

fun tlib_run :: "tlib_op \<Rightarrow> tcp_lib \<Rightarrow> tlib_fault + int tlib_call" where
  "tlib_run (Op_socket ctx) l = Inr (tcp_socket ctx l)"
| "tlib_run (Op_bind ctx fd addr alen) l = Inr (tcp_bind ctx fd addr alen l)"
| "tlib_run (Op_connect ctx fd addr alen flags) l = Inr (tcp_connect ctx fd addr alen flags l)"
| "tlib_run (Op_listen ctx fd backlog) l = Inr (tcp_listen ctx fd backlog l)"
| "tlib_run (Op_accept ctx fd addr alen flags) l = Inr (map_tlib_call fst (tcp_accept ctx fd addr alen flags l))"
| "tlib_run (Op_setsockopt ctx fd opt) l = Inr (tcp_setsockopt ctx fd opt l)"
| "tlib_run (Op_sendto ctx fd buf len addr alen) l = returned fst snd (tcp_sendto ctx fd buf len addr alen l)"
| "tlib_run (Op_recvfrom ctx fd buf len addr alen) l = returned fst (\<lambda>(_, _, _, l). l) (tcp_recvfrom ctx fd buf len addr alen l)"
| "tlib_run (Op_shutdown ctx fd how) l = returned fst snd (tcp_shutdown ctx fd how l)"
| "tlib_run (Op_close ctx fd) l = returned fst snd (tcp_close ctx fd l)"
| "tlib_run (Op_poll_fast x) l = returned (int \<circ> fst) snd (tcp_poll_fast x l)"
| "tlib_run (Op_poll_slow x) l = returned fst snd (tcp_poll_slow x l)"
| "tlib_run (Op_wait_poll x mode) l = returned (\<lambda>_. 0) id (twait_poll_ctx x mode l)"

fun op_input_ok :: "tlib_op \<Rightarrow> tcp_lib \<Rightarrow> bool" where
  "op_input_ok (Op_poll_slow x) l \<longleftrightarrow> slow_input_ok x TLIB_BATCH l"
| "op_input_ok (Op_wait_poll x mode) l \<longleftrightarrow>
     mode \<noteq> TCP_WAIT_POLL_FAST \<longrightarrow> (case tcp_flush_bumps x l of Inl f \<Rightarrow> True | Inr l1 \<Rightarrow> slow_input_ok x TLIB_BATCH l1)"
| "op_input_ok _ l \<longleftrightarrow> True"

fun is_poll :: "tlib_op \<Rightarrow> bool" where
  "is_poll (Op_poll_fast x) \<longleftrightarrow> True"
| "is_poll (Op_poll_slow x) \<longleftrightarrow> True"
| "is_poll (Op_wait_poll x mode) \<longleftrightarrow> True"
| "is_poll _ \<longleftrightarrow> False"

text \<open>
  The other ends of the queues may put and take messages at any time. A blocked call is resumed once
  one of the events it waits for is pending.
\<close>

definition tlib_env :: "tcp_lib \<Rightarrow> tcp_lib \<Rightarrow> bool" where
  "tlib_env l l' \<longleftrightarrow>
     (\<exists>C. l' = l\<lparr>tb_ctxs := C\<rparr> \<and>
        (\<forall>x. tc_ncores (C x) = tc_ncores (tb_ctxs l x) \<and> tc_bump_head (C x) = tc_bump_head (tb_ctxs l x) \<and> tc_bump_tail (C x) = tc_bump_tail (tb_ctxs l x)))"

type_synonym tlib_cfg = "tcp_lib \<times> (nat \<times> u32 \<times> (tcp_lib \<Rightarrow> int tlib_call)) list"

fun settle :: "(nat \<times> u32 \<times> (tcp_lib \<Rightarrow> int tlib_call)) list \<Rightarrow> int tlib_call \<Rightarrow> tlib_cfg" where
  "settle B (Return r l) = (l, B)"
| "settle B (Blocked k ev l f) = (l, (k, ev, f) # B)"

inductive tlib_step :: "tlib_cfg \<Rightarrow> tlib_cfg \<Rightarrow> bool" where
  env: "tlib_env l l' \<Longrightarrow> tlib_step (l, B) (l', B)"
| call: "tlib_run op l = Inr c \<Longrightarrow> op_input_ok op l \<Longrightarrow> tlib_step (l, B) (settle B c)"
| resume: "twait_over l k ev \<Longrightarrow> tlib_step (l, B1 @ (k, ev, f) # B2) (settle (B1 @ B2) (f l))"

definition tlib_init :: "tcp_lib \<Rightarrow> bool" where
  "tlib_init l \<longleftrightarrow> tb_next_sockfd l = 0 \<and>
     (\<forall>k. let s = tb_socks l k in \<not> sock_active s \<and> \<not> tl_bump_pending s \<and> tl_rx_len s = 0 \<and> tl_rx_avail s = 0 \<and> tl_rx_head s = 0 \<and>
        tl_tx_len s = 0 \<and> tl_tx_avail s = 0 \<and> tl_tx_head s = 0) \<and>
     (\<forall>x. 0 < ncores l x \<and> tc_bump_head (tb_ctxs l x) = TCP_BUMP_NONE \<and> tc_bump_tail (tb_ctxs l x) = TCP_BUMP_NONE)"

lemma tlib_init_good: "tlib_init l \<Longrightarrow> tlib_good l"
  by (auto simp: tlib_init_def Let_def tlib_good_def tlib_wf_def tlib_inv_def tsock_ok_def ring_sane_def pend_set_def bump_list_def intro: exI [of _ "[]"])

text \<open>What a call leaves behind.\<close>

definition run_good :: "tlib_fault + int tlib_call \<Rightarrow> bool" where
  "run_good r \<longleftrightarrow> (case r of Inl f \<Rightarrow> env_fault f | Inr c \<Rightarrow> call_good c)"

lemma returned_good: "res_good g res \<Longrightarrow> run_good (returned r g res)"
  by (auto simp: run_good_def returned_def split: sum.split)

lemma run_ok:
  assumes good: "tlib_good l" and ok: "op_input_ok op l"
  shows "run_good (tlib_run op l)" "tlib_run op l = Inl f \<Longrightarrow> is_poll op"
proof -
  have "run_good (tlib_run op l) \<and> (tlib_run op l = Inl f \<longrightarrow> is_poll op)"
  proof (cases op)
    case (Op_sendto ctx fd buf len addr alen)
    then show ?thesis using good_sendto [OF good, of ctx fd buf len addr alen] by (auto simp: run_good_def returned_def)
  next
    case (Op_recvfrom ctx fd buf len addr alen)
    then show ?thesis using good_recvfrom [OF good, of ctx fd buf len addr alen] by (auto simp: run_good_def returned_def)
  next
    case (Op_shutdown ctx fd how)
    then show ?thesis using good_shutdown [OF good, of ctx fd how] by (auto simp: run_good_def returned_def)
  next
    case (Op_close ctx fd)
    then show ?thesis using good_close [OF good, of ctx fd] by (auto simp: run_good_def returned_def)
  next
    case (Op_poll_fast x)
    then show ?thesis using returned_good [OF good_poll_fast [OF good]] by simp
  next
    case (Op_poll_slow x)
    then show ?thesis using ok returned_good [OF good_poll_slow [OF good]] by simp
  next
    case (Op_wait_poll x mode)
    then show ?thesis using returned_good [OF good_wait_poll [OF good]] ok by simp
  qed (use good_calls [OF good] in \<open>simp_all add: run_good_def\<close>)
  then show "run_good (tlib_run op l)" "tlib_run op l = Inl f \<Longrightarrow> is_poll op" by blast+
qed

definition cfg_good :: "tlib_cfg \<Rightarrow> bool" where
  "cfg_good c \<longleftrightarrow> tlib_good (fst c) \<and> (\<forall>(k, ev, f) \<in> set (snd c). \<forall>l. tlib_good l \<longrightarrow> call_good (f l))"

lemma settle_good: "call_good c \<Longrightarrow> \<forall>(k, ev, f) \<in> set B. \<forall>l. tlib_good l \<longrightarrow> call_good (f l) \<Longrightarrow> cfg_good (settle B c)"
  by (cases c) (auto simp: cfg_good_def)

lemma env_good:
  assumes "tlib_good l" "tlib_env l l'"
  shows "tlib_good l'"
proof -
  obtain C where C: "l' = l\<lparr>tb_ctxs := C\<rparr>" "\<And>x. tc_ncores (C x) = tc_ncores (tb_ctxs l x)" "\<And>x. tc_bump_head (C x) = tc_bump_head (tb_ctxs l x)"
    "\<And>x. tc_bump_tail (C x) = tc_bump_tail (tb_ctxs l x)" using assms(2) by (auto simp: tlib_env_def)
  have "tlib_inv {} 0 TCP_BUMP_NONE [] l'"
    by (rule tlib_inv_frame [OF good_inv [OF assms(1)]]) (use C good_ok [OF assms(1)] tlib_invD(4) [OF good_inv [OF assms(1)]] in simp_all)
  then show ?thesis by (rule goodI [OF _ assms(1)]) (simp add: C)
qed

lemma tlib_step_good: "tlib_step c c' \<Longrightarrow> cfg_good c \<Longrightarrow> cfg_good c'"
proof (induction rule: tlib_step.induct)
  case (env l l' B)
  then show ?case using env_good by (auto simp: cfg_good_def)
next
  case (call op l c B)
  then have "call_good c" using run_ok(1) [of l op] by (simp add: cfg_good_def run_good_def)
  then show ?case using call.prems by (intro settle_good) (auto simp: cfg_good_def)
next
  case (resume l k ev B1 f B2)
  then have "call_good (f l)" by (auto simp: cfg_good_def)
  then show ?case by (rule settle_good) (use resume.prems in \<open>auto simp: cfg_good_def\<close>)
qed

lemma tlib_reach_good:
  assumes "tlib_step\<^sup>*\<^sup>* (l0, []) c" "tlib_init l0"
  shows "cfg_good c"
  using assms(1)
proof (induction rule: rtranclp_induct)
  case base
  then show ?case using tlib_init_good [OF assms(2)] by (simp add: cfg_good_def)
qed (use tlib_step_good in blast)

text \<open>
  C32: after any sequence of calls, of resumed calls and of messages from the other ends of the queues,
  the library's state is well formed. An active socket is the table entry of its descriptor, and its
  core has queues; ring positions and counts are within the rings, and a socket with bytes to announce
  is on the list of its context. That list is acyclic and has exactly the marked sockets. No call but
  the polls can then stop the program, and those only on a message with a bad pointer or type.
\<close>

theorem tlib_reach_sane:
  assumes "tlib_init l0" "tlib_step\<^sup>*\<^sup>* (l0, []) (l, B)"
  shows "(\<forall>k. sock_active (tb_socks l k) \<longrightarrow> tl_fd (tb_socks l k) = int k \<and> k < LIB_MAX_SOCKETS \<and>
           (\<exists>x. tl_ctx (tb_socks l k) = Some x \<and> unat (tl_core (tb_socks l k)) < ncores l x)) \<and>
    (\<forall>k. ring_sane (tl_rx_len (tb_socks l k)) (tl_rx_avail (tb_socks l k)) (tl_rx_head (tb_socks l k)) \<and>
         ring_sane (tl_tx_len (tb_socks l k)) (tl_tx_avail (tb_socks l k)) (tl_tx_head (tb_socks l k))) \<and>
    (\<forall>x. \<exists>ns. bump_list l x ns \<and> distinct ns \<and> set ns = pend_set l x \<and>
         (\<forall>k. sock_of x l k \<and> has_bumps (tb_socks l k) \<longrightarrow> k \<in> set ns)) \<and>
    (\<forall>op f. op_input_ok op l \<and> tlib_run op l = Inl f \<longrightarrow> is_poll op \<and> (f = TL_BadOpaque \<or> f = TL_UnknownMessage))"
proof -
  have good: "tlib_good l" using tlib_reach_good [OF assms(2,1)] by (simp add: cfg_good_def)
  note inv = good_inv [OF good]
  have "\<exists>ns. bump_list l x ns \<and> distinct ns \<and> set ns = pend_set l x \<and> (\<forall>k. sock_of x l k \<and> has_bumps (tb_socks l k) \<longrightarrow> k \<in> set ns)" for x
  proof -
    obtain ns where ns: "bump_list l x ns" "distinct ns" "set ns = pend_set l x" using tlib_invD(6) [OF inv [of x], of x] by auto
    have "k \<in> set ns" if "sock_of x l k" "has_bumps (tb_socks l k)" for k
      using tlib_invD(4) [OF inv, of k] that ns(3) by (auto simp: sock_of_def pend_set_def)
    then show ?thesis using ns by blast
  qed
  moreover have "is_poll op \<and> (f = TL_BadOpaque \<or> f = TL_UnknownMessage)" if "op_input_ok op l" "tlib_run op l = Inl f" for op f
    using run_ok [OF good that(1)] that(2) by (auto simp: run_good_def env_fault_def)
  moreover have "sock_active (tb_socks l k) \<longrightarrow> tl_fd (tb_socks l k) = int k \<and> k < LIB_MAX_SOCKETS \<and>
      (\<exists>x. tl_ctx (tb_socks l k) = Some x \<and> unat (tl_core (tb_socks l k)) < ncores l x)" for k
    using good_ok [OF good, of k] unfolding tsock_ok_def by blast
  ultimately show ?thesis using ok_rings [OF good] by blast
qed

section \<open>A concrete library\<close>

text \<open>One context with one core; the tables are empty and the queues of four slots too.\<close>

definition demo_tring :: "tcp_qe ring" where
  "demo_tring = (\<lambda>_. \<lparr>qs_type = 0, qs_data = QE_other 0\<rparr>)"

definition demo_teq :: equeue where
  "demo_teq = \<lparr>eq_tail = 0, eq_nelems = 4, eq_elsize = 32, eq_off = 0, eq_entries = 0\<rparr>"

definition demo_tdq :: dqueue where
  "demo_tdq = \<lparr>dq_head = 0, dq_nelems = 4, dq_elsize = 32, dq_off = 0, dq_entries = 0\<rparr>"

definition demo_tctx :: tcp_context_lib where
  "demo_tctx = \<lparr>tc_app_slow_q = (demo_teq, \<lambda>_. \<lparr>qs_type = 0, qs_data = A_new_sock_req 0\<rparr>),
     tc_slow_app_q = (demo_tdq, \<lambda>_. \<lparr>qs_type = 0, qs_data = A_new_sock_req 0\<rparr>), tc_ncores = 1, tc_app_fast_qs = (\<lambda>_. (demo_teq, demo_tring)),
     tc_fast_app_qs = (\<lambda>_. (demo_tdq, \<lambda>_. \<lparr>qs_type = 0, qs_data = TQ_bump_app_tx \<lparr>bat_opaque = 0, bat_tx_head = 0\<rparr>\<rparr>)),
     tc_bump_head = TCP_BUMP_NONE, tc_bump_tail = TCP_BUMP_NONE\<rparr>"

definition demo_tlib :: tcp_lib where
  "demo_tlib = \<lparr>tb_up = True, tb_next_sockfd = 0, tb_socks = (\<lambda>_. (tcp_socket_lib_new SOCK_INACTIVE 0)\<lparr>tl_ctx := None\<rparr>), tb_ctxs = (\<lambda>_. demo_tctx),
     tb_shm = (\<lambda>_. 0), tb_errno = 0\<rparr>"

lemma demo_tlib_init: "tlib_init demo_tlib"
  by (simp add: tlib_init_def demo_tlib_def tcp_socket_lib_new_def demo_tctx_def)

lemma demo_tq_empty: "spsc_inv \<lparr>sp_eq = demo_teq, sp_dq = demo_tdq, sp_mem = demo_tring\<rparr> []"
  by (simp add: spsc_inv_def demo_teq_def demo_tdq_def ring_geom_def ring_rep_def slot_pos_def demo_tring_def exI [of _ 0])

text \<open>The first socket is asked for; its call is blocked until the slow path answers.\<close>

theorem tlib_reach_sane_witness:
  "\<exists>l B. tlib_step\<^sup>*\<^sup>* (demo_tlib, []) (l, B) \<and> length B = 1 \<and> sock_active (tb_socks l 0) \<and> tl_fd (tb_socks l 0) = int 0 \<and>
     unat (tl_core (tb_socks l 0)) < ncores l 0"
proof -
  obtain l k ev f where c: "tcp_socket (Some 0) demo_tlib = Blocked k ev l f" "tl_fd (tb_socks l 0) = 0" "tl_ctx (tb_socks l 0) = Some 0"
    by (simp add: tcp_socket_def alloc_lib_sock_def Let_def demo_tlib_def demo_tctx_def demo_teq_def tlib_request_def queue_put_cases tcp_socket_lib_new_def
        upd_tctx_def put_tctx_def put_tsock_def)
  have "tlib_step (demo_tlib, []) (l, [(k, ev, f)])"
    using tlib_step.call [of "Op_socket (Some 0)" demo_tlib "Blocked k ev l f" "[]"] c(1) by simp
  then have r: "tlib_step\<^sup>*\<^sup>* (demo_tlib, []) (l, [(k, ev, f)])" by blast
  have act: "sock_active (tb_socks l 0)" using c(2) by simp
  from tlib_reach_sane [OF demo_tlib_init r] act c(3) have "tl_fd (tb_socks l 0) = int 0 \<and> unat (tl_core (tb_socks l 0)) < ncores l 0" by fastforce
  then show ?thesis using r act by (intro exI [of _ l] exI [of _ "[(k, ev, f)]"]) simp
qed

section \<open>Announcing progress to the fast path\<close>

text \<open>
  C33: \<^verbatim>\<open>tcp_flush_bumps\<close> always ends, and announces every pending byte exactly once. For each socket of the
  context, the bytes pending plus the bytes its core's queue announces for it are as many after it as
  before, for both directions; nothing in the queues is overwritten, and a socket still has pending
  bytes only if the queue of its core is full.
\<close>

theorem tcp_flush_exact:
  assumes "tlib_good l" "cqs_wf D x l" "ids_ok x l"
  shows "\<exists>l'. tcp_flush_bumps x l = Inr l' \<and> tlib_good l' \<and> cqs_wf D x l' \<and>
    (\<forall>i. \<exists>ms. spsc_contents (cq D x l' i) = spsc_contents (cq D x l i) @ ms) \<and>
    (\<forall>k. sock_of x l k \<longrightarrow> tx_ledger D x l' k = tx_ledger D x l k \<and> rx_ledger D x l' k = rx_ledger D x l k \<and>
       (has_bumps (tb_socks l' k) \<longrightarrow> cq_full D x l' (unat (tl_core (tb_socks l k)))))"
  using announced_flush [OF assms] unfolding announced_def by blast

text \<open>The socket of the examples below: connected, with rings of 16 bytes, 3 bytes to announce.\<close>

definition demo_tsock :: tcp_socket_lib where
  "demo_tsock = (tcp_socket_lib_new 0 0)\<lparr>tl_sock_id := 5, tl_state := TCP_LIB_STATE_ESTABLISHED, tl_remote_port := 80, tl_remote_ip := 0x0a000002,
     tl_rx_len := 16, tl_rx_avail := 4, tl_rx_head := 14, tl_rx_buf := 0, tl_tx_len := 16, tl_tx_avail := 3, tl_tx_head := 12, tl_tx_buf := 16,
     tl_tx_bump_pending := 3, tl_bump_pending := True\<rparr>"

definition demo_tconn :: tcp_lib where
  "demo_tconn = demo_tlib\<lparr>tb_next_sockfd := 1, tb_socks := (tb_socks demo_tlib)(0 := demo_tsock),
     tb_ctxs := (\<lambda>x. if x = 0 then demo_tctx\<lparr>tc_bump_head := 0, tc_bump_tail := 0\<rparr> else demo_tctx)\<rparr>"

lemma demo_tconn_simps [simp]:
  "tb_socks demo_tconn = (tb_socks demo_tlib)(0 := demo_tsock)" "tb_next_sockfd demo_tconn = 1" "tb_up demo_tconn"
  "tc_app_fast_qs (tb_ctxs demo_tconn x) = (\<lambda>_. (demo_teq, demo_tring))" "tc_ncores (tb_ctxs demo_tconn x) = 1"
  by (simp_all add: demo_tconn_def demo_tlib_def demo_tctx_def)

lemma demo_tlib_sock [simp]: "tb_socks demo_tlib k = (tcp_socket_lib_new SOCK_INACTIVE 0)\<lparr>tl_ctx := None\<rparr>"
  by (simp add: demo_tlib_def)

lemma demo_tconn_good: "tlib_good demo_tconn"
proof -
  have ok: "tsock_ok (ncores demo_tconn) k (tb_socks demo_tconn k)" for k
    by (simp add: tsock_ok_def demo_tsock_def tcp_socket_lib_new_def ring_sane_def)
  have ps: "pend_set demo_tconn y = (if y = 0 then {0} else {})" for y
    by (auto simp: pend_set_def demo_tsock_def tcp_socket_lib_new_def split: if_splits)
  have bl: "bump_list demo_tconn y (if y = 0 then [0] else [])" for y
    by (simp add: bump_list_def demo_tconn_def demo_tsock_def tcp_socket_lib_new_def demo_tctx_def)
  have "\<exists>ns. bump_list demo_tconn y ns \<and> distinct ns \<and> set ns = pend_set demo_tconn y" for y
    by (rule exI [of _ "if y = 0 then [0] else []"]) (use bl [of y] ps [of y] in simp)
  then show ?thesis using ok unfolding tlib_good_def tlib_wf_def tlib_inv_def
    by (auto simp: has_bumps_def demo_tsock_def tcp_socket_lib_new_def split: if_splits)
qed

lemma demo_tconn_queues: "cqs_wf (\<lambda>_. demo_tdq) 0 demo_tconn" "ids_ok 0 demo_tconn" "spsc_contents (cq (\<lambda>_. demo_tdq) 0 demo_tconn i) = []"
  "spsc_cap (cq (\<lambda>_. demo_tdq) 0 demo_tconn i) = 4" "sock_of 0 demo_tconn 0"
proof -
  have q: "cq (\<lambda>_. demo_tdq) 0 demo_tconn i = \<lparr>sp_eq = demo_teq, sp_dq = demo_tdq, sp_mem = demo_tring\<rparr>" for i by (simp add: cq_def)
  show c: "spsc_contents (cq (\<lambda>_. demo_tdq) 0 demo_tconn i) = []" for i unfolding q using spsc_contents_inv [OF demo_tq_empty] .
  show "cqs_wf (\<lambda>_. demo_tdq) 0 demo_tconn" unfolding cqs_wf_def spsc_wf_def c unfolding q using demo_tq_empty by simp
  show "ids_ok 0 demo_tconn" by (simp add: ids_ok_def sock_of_def tcp_socket_lib_new_def split: if_splits)
  show "spsc_cap (cq (\<lambda>_. demo_tdq) 0 demo_tconn i) = 4" unfolding q by (simp add: spsc_cap_def demo_teq_def)
  show "sock_of 0 demo_tconn 0" by (simp add: sock_of_def demo_tsock_def tcp_socket_lib_new_def)
qed

theorem tcp_flush_exact_witness:
  "\<exists>l. tcp_flush_bumps 0 demo_tconn = Inr l \<and> tx_ledger (\<lambda>_. demo_tdq) 0 l 0 = 3 \<and> cqs_wf (\<lambda>_. demo_tdq) 0 l"
proof -
  obtain l where l: "tcp_flush_bumps 0 demo_tconn = Inr l" "tx_ledger (\<lambda>_. demo_tdq) 0 l 0 = tx_ledger (\<lambda>_. demo_tdq) 0 demo_tconn 0"
    "cqs_wf (\<lambda>_. demo_tdq) 0 l"
    using tcp_flush_exact [OF demo_tconn_good demo_tconn_queues(1,2)] demo_tconn_queues(5) by blast
  have "tx_ledger (\<lambda>_. demo_tdq) 0 demo_tconn 0 = 3"
    unfolding tx_ledger_def demo_tconn_queues by (simp add: demo_tsock_def)
  then show ?thesis using l by simp
qed

section \<open>Moving bytes\<close>

text \<open>The state before a call decides whether to announce: queues as before, one count larger.\<close>

lemma send_state_ledger:
  assumes "unat (tl_tx_bump_pending (tb_socks l k) + n) = unat (tl_tx_bump_pending (tb_socks l k)) + unat n"
  shows "tx_ledger D x (send_state x k buf n sin l) j = tx_ledger D x l j + (if j = k then unat n else 0)"
    "rx_ledger D x (send_state x k buf n sin l) j = rx_ledger D x l j" "cq D x (send_state x k buf n sin l) i = cq D x l i"
proof -
  let ?l = "send_state x k buf n sin l"
  show q: "cq D x ?l i = cq D x l i" for i by (simp add: cq_def send_state_def Let_def)
  have "sock_core (tb_socks ?l j) = sock_core (if j = k then sent_sock n sin (tb_socks l k) else tb_socks l j)" by (simp add: send_state_def Let_def)
  note core = sock_core_eqD(2,4) [OF this]
  have "tl_tx_bump_pending (tb_socks ?l j) = tl_tx_bump_pending (tb_socks l j) + (if j = k then n else 0)"
    "tl_rx_bump_pending (tb_socks ?l j) = tl_rx_bump_pending (tb_socks l j)"
    by (simp_all add: send_state_def Let_def sent_sock_def)
  then show "tx_ledger D x ?l j = tx_ledger D x l j + (if j = k then unat n else 0)" "rx_ledger D x ?l j = rx_ledger D x l j"
    using assms core by (simp_all add: tx_ledger_def rx_ledger_def q sent_sock_def)
qed

lemma recv_state_ledger:
  assumes "unat (tl_rx_bump_pending (tb_socks l k) + n) = unat (tl_rx_bump_pending (tb_socks l k)) + unat n"
  shows "rx_ledger D x (recv_state x k n l) j = rx_ledger D x l j + (if j = k then unat n else 0)"
    "tx_ledger D x (recv_state x k n l) j = tx_ledger D x l j" "cq D x (recv_state x k n l) i = cq D x l i"
proof -
  let ?l = "recv_state x k n l"
  show q: "cq D x ?l i = cq D x l i" for i by (simp add: cq_def recv_state_def)
  have "sock_core (tb_socks ?l j) = sock_core (if j = k then recv_sock n (tb_socks l k) else tb_socks l j)" by (simp add: recv_state_def)
  note core = sock_core_eqD(2,4) [OF this]
  have "tl_rx_bump_pending (tb_socks ?l j) = tl_rx_bump_pending (tb_socks l j) + (if j = k then n else 0)"
    "tl_tx_bump_pending (tb_socks ?l j) = tl_tx_bump_pending (tb_socks l j)"
    by (simp_all add: recv_state_def recv_sock_def)
  then show "rx_ledger D x ?l j = rx_ledger D x l j + (if j = k then unat n else 0)" "tx_ledger D x ?l j = tx_ledger D x l j"
    using assms core by (simp_all add: tx_ledger_def rx_ledger_def q recv_sock_def)
qed

text \<open>After a call that may have announced: the sockets as before, and the ledgers.\<close>

lemma maybe_flushed_ledger:
  assumes "tlib_good l" "sock_of x l k" "maybe_flushed x k l l'" "cqs_wf D x l" "ids_ok x l" "sock_of x l j"
  shows "tx_ledger D x l' j = tx_ledger D x l j" "rx_ledger D x l' j = rx_ledger D x l j"
  using maybe_flushed_announced [OF assms(1-5)] assms(6) unfolding announced_def by blast+

lemma min_word32: "unat (if (a :: u32) > b then b else a) = min (unat a) (unat b)"
  by (simp add: word_less_nat_alt min_def)

lemma min_len: "unat len < 2 ^ 32 \<Longrightarrow> unat (if (ucast len :: u32) > b then b else ucast len) = min (unat len) (unat b)" for len :: csize
  unfolding min_word32 by (simp add: unsigned_ucast_eq take_bit_nat_eq_self)

lemma send_state_ids:
  assumes "tlib_good l" "sock_of x l k" "n \<noteq> 0" "n \<le> tl_tx_len (tb_socks l k) - tl_tx_avail (tb_socks l k)"
  shows "ids_ok x (send_state x k buf n sin l) = ids_ok x l" "sock_of x (send_state x k buf n sin l) j = sock_of x l j"
proof -
  have e: "tl_fd (tb_socks (send_state x k buf n sin l) j) = tl_fd (tb_socks l j)" "tl_ctx (tb_socks (send_state x k buf n sin l) j) = tl_ctx (tb_socks l j)"
    "tl_sock_id (tb_socks (send_state x k buf n sin l) j) = tl_sock_id (tb_socks l j)" for j
    using sock_core_eqD(1-3) [OF send_state_good(3) [OF assms, of buf sin j]] by (simp_all add: sent_sock_def)
  show "ids_ok x (send_state x k buf n sin l) = ids_ok x l" "sock_of x (send_state x k buf n sin l) j = sock_of x l j"
    by (simp_all add: ids_ok_def sock_of_def e)
qed

lemma recv_state_ids:
  assumes "tlib_good l" "sock_of x l k" "n \<noteq> 0" "n \<le> tl_rx_avail (tb_socks l k)"
  shows "ids_ok x (recv_state x k n l) = ids_ok x l" "sock_of x (recv_state x k n l) j = sock_of x l j"
proof -
  have e: "tl_fd (tb_socks (recv_state x k n l) j) = tl_fd (tb_socks l j)" "tl_ctx (tb_socks (recv_state x k n l) j) = tl_ctx (tb_socks l j)"
    "tl_sock_id (tb_socks (recv_state x k n l) j) = tl_sock_id (tb_socks l j)" for j
    using sock_core_eqD(1-3) [OF recv_state_good(3) [OF assms, of j]] by (simp_all add: recv_sock_def)
  show "ids_ok x (recv_state x k n l) = ids_ok x l" "sock_of x (recv_state x k n l) j = sock_of x l j"
    by (simp_all add: ids_ok_def sock_of_def e)
qed

lemma room_nat: "tlib_good l \<Longrightarrow> unat (tl_tx_len (tb_socks l k) - tl_tx_avail (tb_socks l k)) = unat (tl_tx_len (tb_socks l k)) - unat (tl_tx_avail (tb_socks l k))"
  using ok_rings(2) [of l k] by (auto simp: ring_sane_def unat_sub word_le_nat_alt split: if_splits)

lemma send_state_shm: "tb_shm (send_state x k buf n sin l) = ring_store (tb_shm l) (unat (tl_tx_buf (tb_socks l k))) (tl_tx_len (tb_socks l k))
    (ring_wrap (tl_tx_len (tb_socks l k)) (tl_tx_head (tb_socks l k) + tl_tx_avail (tb_socks l k))) buf 0 n"
  by (simp add: send_state_def Let_def)

lemma send_state_bytes:
  fixes x buf sin
  assumes good: "tlib_good l" and n: "n \<noteq> 0" "n \<le> tl_tx_len (tb_socks l k) - tl_tx_avail (tb_socks l k)"
  defines "s \<equiv> tb_socks l k" and "shm' \<equiv> tb_shm (send_state x k buf n sin l)"
  shows "j < unat (tl_tx_avail s) + unat n \<Longrightarrow> ring_byte shm' (unat (tl_tx_buf s)) (tl_tx_len s) (tl_tx_head s) j =
      (if j < unat (tl_tx_avail s) then ring_byte (tb_shm l) (unat (tl_tx_buf s)) (tl_tx_len s) (tl_tx_head s) j else buf (j - unat (tl_tx_avail s)))"
    and "a < unat (tl_tx_buf s) \<or> unat (tl_tx_buf s) + unat (tl_tx_len s) \<le> a \<Longrightarrow> shm' a = tb_shm l a"
proof -
  note sane = ring_sane_add [OF ok_rings(2) [OF good] n, folded s_def]
  have r: "unat (tl_tx_head s) < unat (tl_tx_len s)" "unat (tl_tx_avail s) + unat n \<le> unat (tl_tx_len s)" "unat (tl_tx_len s) < 2 ^ 31"
    using sane by (simp_all add: ring_sane_def)
  show "j < unat (tl_tx_avail s) + unat n \<Longrightarrow> ring_byte shm' (unat (tl_tx_buf s)) (tl_tx_len s) (tl_tx_head s) j =
      (if j < unat (tl_tx_avail s) then ring_byte (tb_shm l) (unat (tl_tx_buf s)) (tl_tx_len s) (tl_tx_head s) j else buf (j - unat (tl_tx_avail s)))"
    using ring_append [OF r, of j "tb_shm l" "unat (tl_tx_buf s)" buf 0] by (simp add: shm'_def send_state_shm s_def)
  have w: "unat (ring_wrap (tl_tx_len s) (tl_tx_head s + tl_tx_avail s)) < unat (tl_tx_len s)" using wrap_pos(2) [OF r(1) _ r(3)] r(2) by simp
  show "shm' a = tb_shm l a" if "a < unat (tl_tx_buf s) \<or> unat (tl_tx_buf s) + unat (tl_tx_len s) \<le> a"
    using ring_store_outside [OF w _ r(3) that] r(2) by (simp add: shm'_def send_state_shm s_def)
qed

text \<open>
  C34: \<^verbatim>\<open>tcp_sendto\<close> on a connected socket takes exactly as many bytes as were given and as fit, or fails
  with \<^verbatim>\<open>EAGAIN\<close> and changes nothing else if that is none. The bytes follow the ones already in the
  transmit ring, which stay as they were, also across the end of the ring, and nothing outside the
  ring is written. The bytes taken are pending or announced to the fast path, no byte twice, and no
  other socket's ring or count changes.
\<close>

theorem tcp_sendto_exact:
  assumes good: "tlib_good l" and wf: "cqs_wf D x l" and ids: "ids_ok x l" and look: "tlookup_sock l (Some x) sockfd = Inr k"
    and est: "tl_state (tb_socks l k) = TCP_LIB_STATE_ESTABLISHED" and addr: "send_addr (tb_socks l k) addr addrlen = Inr sin"
    and len: "0 < unat len" "unat len < 2 ^ 32" and pend: "unat (tl_tx_bump_pending (tb_socks l k)) \<le> unat (tl_tx_avail (tb_socks l k))"
  shows "let s = tb_socks l k; n = min (unat len) (unat (tl_tx_len s) - unat (tl_tx_avail s))
    in if n = 0 then tcp_sendto (Some x) sockfd buf len addr addrlen l = Inr (-1, set_errno EAGAIN l)
       else \<exists>l'. tcp_sendto (Some x) sockfd buf len addr addrlen l = Inr (int n, l') \<and> tlib_good l' \<and>
         unat (tl_tx_avail (tb_socks l' k)) = unat (tl_tx_avail s) + n \<and>
         tl_tx_head (tb_socks l' k) = tl_tx_head s \<and> tl_tx_len (tb_socks l' k) = tl_tx_len s \<and> tl_tx_buf (tb_socks l' k) = tl_tx_buf s \<and>
         (\<forall>j < unat (tl_tx_avail s) + n. ring_byte (tb_shm l') (unat (tl_tx_buf s)) (tl_tx_len s) (tl_tx_head s) j =
            (if j < unat (tl_tx_avail s) then ring_byte (tb_shm l) (unat (tl_tx_buf s)) (tl_tx_len s) (tl_tx_head s) j else buf (j - unat (tl_tx_avail s)))) \<and>
         (\<forall>a. a < unat (tl_tx_buf s) \<or> unat (tl_tx_buf s) + unat (tl_tx_len s) \<le> a \<longrightarrow> tb_shm l' a = tb_shm l a) \<and>
         (\<forall>j. j \<noteq> k \<longrightarrow> sock_core (tb_socks l' j) = sock_core (tb_socks l j)) \<and>
         (\<forall>j. sock_of x l j \<longrightarrow> tx_ledger D x l' j = tx_ledger D x l j + (if j = k then n else 0) \<and> rx_ledger D x l' j = rx_ledger D x l j)"
proof -
  let ?s = "tb_socks l k"
  define n where "n = (if (ucast len :: u32) > tl_tx_len ?s - tl_tx_avail ?s then tl_tx_len ?s - tl_tx_avail ?s else ucast len)"
  have un: "unat n = min (unat len) (unat (tl_tx_len ?s) - unat (tl_tx_avail ?s))" unfolding n_def min_len [OF len(2)] room_nat [OF good] ..
  have k: "sock_of x l k" by (rule lookup_sock_of [OF look])
  have call: "tcp_sendto (Some x) sockfd buf len addr addrlen l = (if n = 0 then tfail EAGAIN l else send_bytes x k buf n sin l)"
    using look est addr len(1) by (auto simp: tcp_sendto_def Let_def n_def)
  show ?thesis
  proof (cases "n = 0")
    case True
    then show ?thesis using call un by (simp add: Let_def tfail_def)
  next
    case False
    have nr: "n \<le> tl_tx_len ?s - tl_tx_avail ?s" by (auto simp: n_def)
    have un0: "unat n \<noteq> 0" using False by (simp add: unat_eq_zero)
    let ?l = "send_state x k buf n sin l"
    obtain l' where l': "send_bytes x k buf n sin l = Inr (int (unat n), l')" "maybe_flushed x k ?l l'"
      using send_bytes_state [OF good k False nr] by blast
    note st = send_state_good [OF good k False nr, of buf sin]
    have g: "tlib_good l'" "same_socks ?l l'" using maybe_flushed_good [OF st(1,2) l'(2)] by blast+
    have core: "sock_core (tb_socks l' j) = sock_core (if j = k then sent_sock n sin ?s else tb_socks l j)" for j
      using g(2) st(3) by (simp add: same_socks_def)
    note c = sock_core_eqD [OF core [of k]]
    have av: "unat (tl_tx_avail (tb_socks l' k)) = unat (tl_tx_avail ?s) + unat n"
      using ring_sane_add(2) [OF ok_rings(2) [OF good] False nr] c(11) by (simp add: sent_sock_def)
    have nov: "unat (tl_tx_bump_pending ?s + n) = unat (tl_tx_bump_pending ?s) + unat n"
      using ring_sane_add [OF ok_rings(2) [OF good] False nr] pend by (intro unat_add_small_iff) (auto simp: ring_sane_def split: if_splits)
    note led = send_state_ledger [OF nov, of D x buf sin]
    have wf1: "cqs_wf D x ?l" using wf by (simp add: cqs_wf_def led(3))
    have l2: "tx_ledger D x l' j = tx_ledger D x l j + (if j = k then unat n else 0) \<and> rx_ledger D x l' j = rx_ledger D x l j" if "sock_of x l j" for j
      using maybe_flushed_ledger [OF st(1,2) l'(2) wf1, of j] send_state_ids [OF good k False nr, of buf sin] ids that led(1,2) by simp
    have shm: "tb_shm l' = tb_shm ?l" using g(2) by (simp add: same_socks_def)
    note bytes = send_state_bytes [OF good False nr, of _ x buf sin]
    show ?thesis unfolding Let_def un [symmetric] shm using un0 False call l'(1) g(1) av c(10-13) core l2 bytes by (auto simp: shm sent_sock_def)
  qed
qed

theorem tcp_sendto_exact_witness:
  "\<exists>l'. tcp_sendto (Some 0) 0 (\<lambda>i. of_nat (i + 1)) 3 None 0 demo_tconn = Inr (3, l') \<and> ring_byte (tb_shm l') 16 16 12 5 = 3 \<and>
     tx_ledger (\<lambda>_. demo_tdq) 0 l' 0 = 6"
proof -
  have h: "tlookup_sock demo_tconn (Some 0) 0 = Inr 0" "tl_state (tb_socks demo_tconn 0) = TCP_LIB_STATE_ESTABLISHED"
    "send_addr (tb_socks demo_tconn 0) None 0 = Inr (AF_INET, t_beui32 0x0a000002, t_beui16 80)"
    "unat (tl_tx_bump_pending (tb_socks demo_tconn 0)) \<le> unat (tl_tx_avail (tb_socks demo_tconn 0))"
    by (simp_all add: tlookup_sock_def Let_def demo_tsock_def tcp_socket_lib_new_def send_addr_def)
  have led: "tx_ledger (\<lambda>_. demo_tdq) 0 demo_tconn 0 = 3" unfolding tx_ledger_def demo_tconn_queues by (simp add: demo_tsock_def)
  have v: "tl_tx_len (tb_socks demo_tconn 0) = 16" "tl_tx_avail (tb_socks demo_tconn 0) = 3" "tl_tx_head (tb_socks demo_tconn 0) = 12"
    "tl_tx_buf (tb_socks demo_tconn 0) = 16" "tl_tx_bump_pending (tb_socks demo_tconn 0) = 3" by (simp_all add: demo_tsock_def)
  have n: "min (unat (3 :: csize)) (unat (16 :: u32) - unat (3 :: u32)) = 3" by simp
  note t = tcp_sendto_exact [OF demo_tconn_good demo_tconn_queues(1,2) h(1-3), of 3 "\<lambda>i. of_nat (i + 1)", unfolded Let_def v n]
  obtain l' where l': "tcp_sendto (Some 0) 0 (\<lambda>i. of_nat (i + 1)) 3 None 0 demo_tconn = Inr (int 3, l')"
    "ring_byte (tb_shm l') (unat (16 :: u64)) 16 12 5 = of_nat (5 - unat (3 :: u32) + 1)"
    "tx_ledger (\<lambda>_. demo_tdq) 0 l' 0 = tx_ledger (\<lambda>_. demo_tdq) 0 demo_tconn 0 + 3"
    using t demo_tconn_queues(5) by auto
  then show ?thesis using led by simp
qed

lemma recv_buf_bytes:
  assumes good: "tlib_good l" and n: "n \<noteq> 0" "n \<le> tl_rx_avail (tb_socks l k)"
  shows "recv_buf (tb_socks l k) n buf shm =
    (\<lambda>i. if i < unat n then ring_byte shm (unat (tl_rx_buf (tb_socks l k))) (tl_rx_len (tb_socks l k)) (tl_rx_head (tb_socks l k)) i else buf i)"
proof -
  let ?s = "tb_socks l k"
  have r: "unat (tl_rx_head ?s) < unat (tl_rx_len ?s)" "unat n \<le> unat (tl_rx_len ?s)" "unat (tl_rx_len ?s) < 2 ^ 31"
    using ok_rings(1) [OF good, of k] ring_sane_drop(3) [OF ok_rings(1) [OF good] n(2,1)] n(2) by (simp_all add: ring_sane_def word_le_nat_alt)
  show ?thesis unfolding recv_buf_def ring_load_bytes [OF r] by (rule ext) simp
qed

text \<open>
  C35: \<^verbatim>\<open>tcp_recvfrom\<close> on a connected or closing socket returns exactly the oldest unread bytes, as many
  as asked for and there are, or fails with \<^verbatim>\<open>EAGAIN\<close> if that is none; it writes nothing else of the
  caller's buffer and nothing of the shared memory. What is left unread is the old unread bytes
  without the ones returned, and these are pending or announced to the fast path as free, no byte
  twice; no other socket changes.
\<close>

theorem tcp_recvfrom_exact:
  assumes good: "tlib_good l" and wf: "cqs_wf D x l" and ids: "ids_ok x l" and look: "tlookup_sock l (Some x) sockfd = Inr k"
    and st: "tl_state (tb_socks l k) = TCP_LIB_STATE_ESTABLISHED \<or> tl_state (tb_socks l k) = TCP_LIB_STATE_CLOSING"
    and addr: "addr = None \<or> SOCKADDR_IN_LEN \<le> alen" and len: "unat len < 2 ^ 32"
    and pend: "unat (tl_rx_bump_pending (tb_socks l k)) + unat (tl_rx_avail (tb_socks l k)) \<le> unat (tl_rx_len (tb_socks l k))"
  shows "let s = tb_socks l k; n = min (unat len) (unat (tl_rx_avail s)); byte = ring_byte (tb_shm l) (unat (tl_rx_buf s)) (tl_rx_len s)
    in if n = 0 then tcp_recvfrom (Some x) sockfd buf len addr alen l = Inr (-1, addr, buf, set_errno EAGAIN l)
       else \<exists>addr' l'. tcp_recvfrom (Some x) sockfd buf len addr alen l = Inr (int n, addr', (\<lambda>i. if i < n then byte (tl_rx_head s) i else buf i), l') \<and>
         tlib_good l' \<and> tb_shm l' = tb_shm l \<and>
         unat (tl_rx_avail (tb_socks l' k)) = unat (tl_rx_avail s) - n \<and> (\<forall>i. byte (tl_rx_head (tb_socks l' k)) i = byte (tl_rx_head s) (n + i)) \<and>
         (\<forall>j. j \<noteq> k \<longrightarrow> sock_core (tb_socks l' j) = sock_core (tb_socks l j)) \<and>
         (\<forall>j. sock_of x l j \<longrightarrow> rx_ledger D x l' j = rx_ledger D x l j + (if j = k then n else 0) \<and> tx_ledger D x l' j = tx_ledger D x l j)"
proof -
  let ?s = "tb_socks l k"
  define n where "n = (if (ucast len :: u32) > tl_rx_avail ?s then tl_rx_avail ?s else ucast len)"
  have un: "unat n = min (unat len) (unat (tl_rx_avail ?s))" unfolding n_def min_len [OF len] ..
  have k: "sock_of x l k" by (rule lookup_sock_of [OF look])
  show ?thesis
  proof (cases "n = 0")
    case True
    have "tcp_recvfrom (Some x) sockfd buf len addr alen l = Inr (-1, addr, buf, set_errno EAGAIN l)"
      using True look st addr by (auto simp: tcp_recvfrom_def Let_def n_def)
    then show ?thesis using True un by (simp add: Let_def)
  next
    case False
    have nr: "n \<le> tl_rx_avail ?s" by (auto simp: n_def)
    have un0: "unat n \<noteq> 0" using False by (simp add: unat_eq_zero)
    let ?l = "recv_state x k n l"
    obtain l' where l': "tcp_recvfrom (Some x) sockfd buf len addr alen l = Inr (int (unat n), recv_addr ?s addr, recv_buf ?s n buf (tb_shm l), l')"
      "maybe_flushed x k ?l l'" using recvfrom_taken [OF good look st addr False [unfolded n_def], folded n_def] by blast
    note rs = recv_state_good [OF good k False nr]
    have g: "tlib_good l'" "same_socks ?l l'" using maybe_flushed_good [OF rs(1,2) l'(2)] by blast+
    have core: "sock_core (tb_socks l' j) = sock_core (if j = k then recv_sock n ?s else tb_socks l j)" for j
      using g(2) rs(3) by (simp add: same_socks_def)
    note c = sock_core_eqD [OF core [of k]]
    note drop = ring_sane_drop [OF ok_rings(1) [OF good] nr False]
    have r: "unat (tl_rx_head ?s) < unat (tl_rx_len ?s)" "unat n \<le> unat (tl_rx_len ?s)" "unat (tl_rx_len ?s) < 2 ^ 31"
      using ok_rings(1) [OF good, of k] drop(3) nr by (simp_all add: ring_sane_def word_le_nat_alt)
    have nov: "unat (tl_rx_bump_pending ?s + n) = unat (tl_rx_bump_pending ?s) + unat n"
      using pend r(3) nr by (intro unat_add_small_iff) (simp_all add: word_le_nat_alt)
    note led = recv_state_ledger [OF nov, of D x]
    have wf1: "cqs_wf D x ?l" using wf by (simp add: cqs_wf_def led(3))
    have l2: "rx_ledger D x l' j = rx_ledger D x l j + (if j = k then unat n else 0) \<and> tx_ledger D x l' j = tx_ledger D x l j" if "sock_of x l j" for j
      using maybe_flushed_ledger [OF rs(1,2) l'(2) wf1, of j] recv_state_ids [OF good k False nr] ids that led(1,2) by simp
    have shm: "tb_shm l' = tb_shm l" using g(2) by (simp add: same_socks_def recv_state_def)
    have adv: "ring_byte (tb_shm l) b (tl_rx_len ?s) (tl_rx_head (tb_socks l' k)) i = ring_byte (tb_shm l) b (tl_rx_len ?s) (tl_rx_head ?s) (unat n + i)" for b i
      using ring_byte_advance [OF r] c(8) by (simp add: recv_sock_def)
    show ?thesis unfolding Let_def un [symmetric]
      using un0 l'(1) recv_buf_bytes [OF good False nr] g(1) shm c(7) drop(2) core l2 adv by (auto simp: recv_sock_def)
  qed
qed

text \<open>The four unread bytes of the example start two bytes before the end of the ring.\<close>

definition demo_tread :: tcp_lib where
  "demo_tread = demo_tconn\<lparr>tb_shm := (\<lambda>i. of_nat i)\<rparr>"

lemma demo_tread_simps [simp]:
  "tb_socks demo_tread = tb_socks demo_tconn" "tb_ctxs demo_tread = tb_ctxs demo_tconn" "tb_next_sockfd demo_tread = 1" "tb_up demo_tread"
  "tb_shm demo_tread = (\<lambda>i. of_nat i)"
  by (simp_all add: demo_tread_def)

lemma demo_tread_ok: "tlib_good demo_tread" "cqs_wf (\<lambda>_. demo_tdq) 0 demo_tread" "ids_ok 0 demo_tread" "sock_of 0 demo_tread 0"
  "cq (\<lambda>_. demo_tdq) 0 demo_tread i = cq (\<lambda>_. demo_tdq) 0 demo_tconn i"
proof -
  show q: "cq (\<lambda>_. demo_tdq) 0 demo_tread i = cq (\<lambda>_. demo_tdq) 0 demo_tconn i" for i by (simp add: cq_def)
  show "cqs_wf (\<lambda>_. demo_tdq) 0 demo_tread" using demo_tconn_queues(1) by (simp add: cqs_wf_def q)
  show "tlib_good demo_tread" using demo_tconn_good by (simp add: demo_tread_def)
  show "ids_ok 0 demo_tread" "sock_of 0 demo_tread 0" using demo_tconn_queues(2,5) unfolding ids_ok_def sock_of_def demo_tread_simps by blast+
qed

theorem tcp_recvfrom_exact_witness:
  "\<exists>addr buf l'. tcp_recvfrom (Some 0) 0 (\<lambda>_. 0) 3 None 0 demo_tread = Inr (3, addr, buf, l') \<and> map buf [0, 1, 2, 3] = [14, 15, 0, 0] \<and>
     rx_ledger (\<lambda>_. demo_tdq) 0 l' 0 = 3"
proof -
  have h: "tlookup_sock demo_tread (Some 0) 0 = Inr 0" "tl_state (tb_socks demo_tread 0) = TCP_LIB_STATE_ESTABLISHED \<or> tl_state (tb_socks demo_tread 0) = TCP_LIB_STATE_CLOSING"
    by (simp_all add: tlookup_sock_def Let_def demo_tsock_def tcp_socket_lib_new_def)
  have led: "rx_ledger (\<lambda>_. demo_tdq) 0 demo_tread 0 = 0"
    unfolding rx_ledger_def demo_tread_ok demo_tconn_queues by (simp add: demo_tsock_def tcp_socket_lib_new_def)
  have v: "tl_rx_len (tb_socks demo_tread 0) = 16" "tl_rx_avail (tb_socks demo_tread 0) = 4" "tl_rx_head (tb_socks demo_tread 0) = 14"
    "tl_rx_buf (tb_socks demo_tread 0) = 0" "tl_rx_bump_pending (tb_socks demo_tread 0) = 0"
    by (simp_all add: demo_tsock_def tcp_socket_lib_new_def)
  have n: "min (unat (3 :: csize)) (unat (4 :: u32)) = 3" by simp
  note t = tcp_recvfrom_exact [OF demo_tread_ok(1-3) h, of None 0 3 "\<lambda>_. 0", unfolded Let_def v n]
  obtain addr l' where l': "tcp_recvfrom (Some 0) 0 (\<lambda>_. 0) 3 None 0 demo_tread =
      Inr (int 3, addr, (\<lambda>i. if i < 3 then ring_byte (tb_shm demo_tread) (unat (0 :: u64)) 16 14 i else 0), l')"
    "rx_ledger (\<lambda>_. demo_tdq) 0 l' 0 = rx_ledger (\<lambda>_. demo_tdq) 0 demo_tread 0 + 3"
    using t demo_tread_ok(4) by auto
  then show ?thesis using led by (simp add: ring_byte_def)
qed

section \<open>Waiting\<close>

text \<open>
  C36: a wait object of the TCP library implements a finite map from descriptors to the events asked for,
  like one of the UDP library and by the same lemmas: registering, changing and removing fail exactly
  when they should and otherwise act on the map, and a collection reports registered sockets with the
  pending events that were asked for, all of them if the caller's array is long enough.
\<close>

theorem tcp_wait_refines_map:
  assumes "wait_ok w"
  shows "(isl (tcp_wait_add l (Some w) fd ev d) \<longleftrightarrow> isl (tlookup_sock l (Some (wt_ctx w)) fd) \<or> wait_map w (nat fd) \<noteq> None) \<and>
    (tcp_wait_add l (Some w) fd ev d = Inr w1 \<longrightarrow> wait_ok w1 \<and> wait_map w1 = (wait_map w)(nat fd \<mapsto> (ev, d))) \<and>
    (isl (tcp_wait_mod l (Some w) fd ev d) \<longleftrightarrow> isl (tlookup_sock l (Some (wt_ctx w)) fd) \<or> wait_map w (nat fd) = None) \<and>
    (tcp_wait_mod l (Some w) fd ev d = Inr w1 \<longrightarrow> wait_ok w1 \<and> wait_map w1 = (wait_map w)(nat fd \<mapsto> (ev, d))) \<and>
    (isl (tcp_wait_del (Some w) fd) \<longleftrightarrow> fd < 0 \<or> int LIB_MAX_SOCKETS \<le> fd \<or> wait_map w (nat fd) = None) \<and>
    (tcp_wait_del (Some w) fd = Inr w1 \<longrightarrow> wait_ok w1 \<and> wait_map w1 = (wait_map w)(nat fd := None)) \<and>
    set (map wait_event_of (twait_collect l w m)) \<subseteq> wait_ready (\<lambda>k. sock_wait_events (tb_socks l k)) w \<and>
    (wt_nfds w \<le> m \<longrightarrow> set (map wait_event_of (twait_collect l w m)) = wait_ready (\<lambda>k. sock_wait_events (tb_socks l k)) w)"
  unfolding tcp_wait_add_def tcp_wait_mod_def tcp_wait_del_def twait_collect_def option.case
  by (rule tcpw.refines_map [OF assms])

definition demo_twait :: wait_obj where
  "demo_twait = \<lparr>wt_ctx = 0, wt_nfds = 0, wt_sockfds = (\<lambda>_. 0), wt_entries = (\<lambda>_. wait_entry_none)\<rparr>"

theorem tcp_wait_refines_map_witness:
  "\<exists>w. tcp_wait_add demo_tconn (Some demo_twait) 0 TCP_WAIT_OUT 42 = Inr w \<and> wait_map w 0 = Some (TCP_WAIT_OUT, 42)"
proof -
  have "tcp_wait_new True demo_tconn (Some 0) = Inr demo_twait" by (simp add: tcp_wait_new_def wait_new_def demo_twait_def)
  then have ok: "wait_ok demo_twait" by (simp add: wait_new_ok tcp_wait_new_def)
  obtain w where w: "tcp_wait_add demo_tconn (Some demo_twait) 0 TCP_WAIT_OUT 42 = Inr w"
    by (simp add: tcp_wait_add_def wait_add_def tlookup_sock_def demo_tsock_def demo_twait_def tcp_socket_lib_new_def wait_entry_none_def Let_def)
  have "wait_map w = (wait_map demo_twait)(nat 0 \<mapsto> (TCP_WAIT_OUT, 42))"
    using tcp_wait_refines_map [OF ok, of demo_tconn 0 TCP_WAIT_OUT 42 w] w by blast
  then show ?thesis using w by simp
qed

section \<open>Closing without telling\<close>

text \<open>
  With the queue to the slow path full, \<^verbatim>\<open>tcp_close\<close> reports success and gives up the descriptor, but no
  request is sent: the slow path keeps its socket.
\<close>

lemma tcp_close_full_queue:
  assumes good: "tlib_good l" and look: "tlookup_sock l (Some x) sockfd = Inr k"
    and full: "queue_tail (fst (tc_app_slow_q (tb_ctxs l x))) (snd (tc_app_slow_q (tb_ctxs l x))) = None"
  shows "\<exists>l'. tcp_close (Some x) sockfd l = Inr (0, l') \<and> tl_fd (tb_socks l' k) = SOCK_INACTIVE \<and>
    tc_app_slow_q (tb_ctxs l' x) = tc_app_slow_q (tb_ctxs l x)"
proof -
  obtain l1 where l1: "tcp_flush_bumps x l = Inr l1" "same_socks l l1" using good_flush [OF good] by blast
  then have "tc_app_slow_q (tb_ctxs l1 x) = tc_app_slow_q (tb_ctxs l x)" by (simp add: same_socks_def)
  then show ?thesis using look l1(1) full by (simp add: tcp_close_def Let_def)
qed

end
