(* ===== verification/Udp_Fast.thy ===== *)
theory Udp_Fast
  imports Queue_Msgs Byte_Ring Tcp_Pkt
begin

unbundle bit_operations_syntax

text \<open>
  The UDP fast path (\<^verbatim>\<open>chamelio/protos/udp_fast.c\<close>) and the structures it shares with the slow
  path and the library (\<^verbatim>\<open>protos/udp/include\<close>): reception of a datagram, transmission on a bump
  of the application, release of receive space, the choice of an ephemeral port and the choice of
  the receiving socket. The eBPF build (\<^verbatim>\<open>protos/udp/fast/udp_fast.ebpf.c\<close>) has the same handlers
  around another choice of the socket.
\<close>

section \<open>Structures\<close>

abbreviation UDP_MIN_PORT :: u16 where "UDP_MIN_PORT \<equiv> 1002"
abbreviation UDP_MAX_PORT :: u16 where "UDP_MAX_PORT \<equiv> 65534"
abbreviation UDP_MAX_SOCKETS :: u32 where "UDP_MAX_SOCKETS \<equiv> 65534"
abbreviation UDP_REUSOCK_MAX :: nat where "UDP_REUSOCK_MAX \<equiv> 8"
abbreviation UDP_PORT_SCAN_MAX :: nat where "UDP_PORT_SCAN_MAX \<equiv> 8"
abbreviation UDP_FP_CORES :: nat where "UDP_FP_CORES \<equiv> 16"
abbreviation UDP_PKT_INNER :: nat where "UDP_PKT_INNER \<equiv> 28"
abbreviation UDP_MAX_PAYLOAD :: u16 where "UDP_MAX_PAYLOAD \<equiv> 1472"
abbreviation IP_PROTO_UDP :: u8 where "IP_PROTO_UDP \<equiv> 17"

abbreviation UDP_QUEUE_BUMP_APP_TX :: u8 where "UDP_QUEUE_BUMP_APP_TX \<equiv> 11"
abbreviation UDP_QUEUE_BUMP_APP_RX :: u8 where "UDP_QUEUE_BUMP_APP_RX \<equiv> 12"

record udp_sock =
  us_id :: u32
  us_opaque :: u64
  us_tx_core :: int
  us_rx_core :: int
  us_app_bump_qid :: u16
  us_app_bump_qids :: "u16 list"
  us_local_ip :: u32
  us_local_port :: u16
  us_reuport :: u8
  us_rx_len :: u32
  us_rx_avail :: u32
  us_rx_head :: u32
  us_rx_off :: u64
  us_tx_len :: u32
  us_tx_avail :: u32
  us_tx_head :: u32
  us_tx_off :: u64

record udp_port =
  po_nsocks :: u32
  po_next_sock :: "u32 list"
  po_sids :: "u32 list"

record udp_cfg =
  uc_next_port :: u16

record udp_queue_bump_cham_tx =
  ubt_sock_id :: u32
  ubt_core :: u16
  ubt_tx_port :: u16
  ubt_tx_ip :: u32
  ubt_tx_avail :: u32

record udp_queue_bump_cham_rx =
  ubr_sock_id :: u32
  ubr_core :: u16
  ubr_rx_head :: u32

record udp_queue_bump_app_tx =
  uat_opaque :: u64
  uat_tx_head :: u32

record udp_queue_bump_app_rx =
  uar_opaque :: u64
  uar_core :: u16
  uar_rx_port :: u16
  uar_rx_ip :: u32
  uar_rx_avail :: u32

text \<open>The payload of a bump entry, by the member of the union that its type selects.\<close>

datatype udp_bump =
    UB_cham_tx udp_queue_bump_cham_tx
  | UB_cham_rx udp_queue_bump_cham_rx
  | UB_app_tx udp_queue_bump_app_tx
  | UB_app_rx udp_queue_bump_app_rx

text \<open>The entry handed to \<^verbatim>\<open>udp_event_deq\<close>.\<close>

datatype udp_qe =
    UQE_bump_tx udp_queue_bump_cham_tx
  | UQE_bump_rx udp_queue_bump_cham_rx
  | UQE_other u8

text \<open>
  The context of a handler. The port map has \<open>ux_nports\<close> entries; \<open>ux_cfg\<close> is \<^const>\<open>None\<close> when the
  configuration map has no address.
\<close>

record udp_ctx =
  ux_pkt :: bytes
  ux_len :: nat
  ux_shm :: bytes
  ux_shm_len :: nat
  ux_core :: u16
  ux_ncores :: u16
  ux_qe :: udp_qe
  ux_qe_off :: nat
  ux_eqs :: "u16 \<Rightarrow> equeue \<times> udp_bump ring"
  ux_ports :: "u16 \<Rightarrow> udp_port"
  ux_nports :: nat
  ux_socks :: "u32 \<Rightarrow> udp_sock"
  ux_nsocks :: u32
  ux_cfg :: "udp_cfg option"

text \<open>
  What the C code does without a check: it reads the payload beyond the end of the packet, or
  addresses an element that the socket map or the port map does not have.
\<close>

datatype udp_fault = PktOverread | SockOutOfMap | PortOutOfMap

type_synonym udp_result = "udp_fault + int \<times> udp_ctx"

definition put_usock :: "u32 \<Rightarrow> udp_sock \<Rightarrow> udp_ctx \<Rightarrow> udp_ctx" where
  "put_usock sid s c = c\<lparr>ux_socks := (ux_socks c)(sid := s)\<rparr>"

section \<open>The receiving socket\<close>

text \<open>Round robin over the sockets of a port; \<^const>\<open>None\<close> is the null pointer.\<close>

definition udp_next_sock :: "udp_ctx \<Rightarrow> udp_port \<Rightarrow> u32 \<Rightarrow> udp_port" where
  "udp_next_sock c port idx =
     (if po_nsocks port > 1
      then let next0 = idx + ucast (ux_ncores c);
               next' = (if next0 \<ge> po_nsocks port then ucast (ux_core c) else next0)
           in port\<lparr>po_next_sock := (po_next_sock port)[unat (ux_core c) := next']\<rparr>
      else port)"

definition udp_sock_find :: "udp_ctx \<Rightarrow> u16 \<Rightarrow> udp_fault + u32 option \<times> udp_ctx" where
  "udp_sock_find c dst_port =
     (if dst_port < UDP_MIN_PORT \<or> dst_port > UDP_MAX_PORT then Inr (None, c)
      else if unat (ux_core c) \<ge> UDP_FP_CORES then Inr (None, c)
      else if unat dst_port \<ge> ux_nports c then Inl PortOutOfMap
      else let port = ux_ports c dst_port
      in if po_nsocks port = 0 then Inr (None, c)
      else let idx = po_next_sock port ! unat (ux_core c)
      in if unat idx \<ge> UDP_REUSOCK_MAX then Inr (None, c)
      else let sock_id = po_sids port ! unat idx
      in if sock_id \<ge> ux_nsocks c then Inr (None, c)
      else Inr (Some sock_id, c\<lparr>ux_ports := (ux_ports c)(dst_port := udp_next_sock c port idx)\<rparr>))"

text \<open>The same in the eBPF build.\<close>

definition ebpf_udp_sock_find :: "udp_ctx \<Rightarrow> u16 \<Rightarrow> udp_fault + u32 option \<times> udp_ctx" where
  "ebpf_udp_sock_find c dst_port =
     (if dst_port < UDP_MIN_PORT \<or> dst_port > UDP_MAX_PORT then Inr (None, c)
      else if unat (ux_core c) \<ge> UDP_FP_CORES then Inr (None, c)
      else if unat dst_port \<ge> ux_nports c then Inl PortOutOfMap
      else let port = ux_ports c dst_port
      in if po_nsocks port = 0 \<or> unat (po_nsocks port) > UDP_REUSOCK_MAX then Inr (None, c)
      else let idx = (if po_nsocks port = 1 then 0 else po_next_sock port ! unat (ux_core c))
      in if idx \<ge> po_nsocks port \<or> unat idx \<ge> UDP_REUSOCK_MAX then Inr (None, c)
      else let sock_id = po_sids port ! unat idx
      in if sock_id \<ge> ux_nsocks c then Inr (None, c)
      else Inr (Some sock_id, c\<lparr>ux_ports := (ux_ports c)(dst_port := udp_next_sock c port idx)\<rparr>))"

section \<open>Receiving a datagram\<close>

definition ip_offset :: "bytes \<Rightarrow> u16" where "ip_offset p = f_beui16 (ld16 p 6)"
definition udp_src :: "bytes \<Rightarrow> nat \<Rightarrow> u16" where "udp_src p h = f_beui16 (ld16 p h)"
definition udp_dst :: "bytes \<Rightarrow> nat \<Rightarrow> u16" where "udp_dst p h = f_beui16 (ld16 p (h + 2))"
definition udp_hlen :: "bytes \<Rightarrow> nat \<Rightarrow> u16" where "udp_hlen p h = f_beui16 (ld16 p (h + 4))"

definition udp_ip_hdrs_len :: "bytes \<Rightarrow> nat" where
  "udp_ip_hdrs_len p = unat (IPH_HL p) * 4"

text \<open>The checks of the two headers.\<close>

definition udp_rx_parse :: "udp_ctx \<Rightarrow> bool" where
  "udp_rx_parse c \<longleftrightarrow>
     (let p = ux_pkt c; h = udp_ip_hdrs_len p
      in IP_HLEN \<le> ux_len c \<and> IPH_V p = 4 \<and> 5 \<le> IPH_HL p \<and> ip_proto p = IP_PROTO_UDP \<and>
         ip_offset p AND 0x3FFF = 0 \<and> h + 8 \<le> unat (ip_len p) \<and> h + 8 \<le> ux_len c \<and>
         8 \<le> unat (udp_hlen p h) \<and> h + unat (udp_hlen p h) \<le> unat (ip_len p))"

text \<open>Copying the payload into the receive ring and telling the application.\<close>

definition udp_rx_deliver :: "udp_ctx \<Rightarrow> u32 \<Rightarrow> udp_result" where
  "udp_rx_deliver c sid =
     (let p = ux_pkt c; h = udp_ip_hdrs_len p; sock = ux_socks c sid;
          payload_len = (udp_hlen p h - 8 :: u16); free_bytes = us_rx_len sock - us_rx_avail sock
      in if ucast payload_len > free_bytes then Inr (-1, c)
      else if h + 8 + unat payload_len > ux_len c then Inl PktOverread
      else let tail = ring_wrap (us_rx_len sock) (us_rx_head sock + us_rx_avail sock);
               shm = ring_store (ux_shm c) (unat (us_rx_off sock)) (us_rx_len sock) tail p (h + 8) (ucast payload_len);
               sock1 = sock\<lparr>us_rx_avail := us_rx_avail sock + ucast payload_len, us_rx_core := uint (ux_core c)\<rparr>;
               c1 = (put_usock sid sock1 c)\<lparr>ux_shm := shm\<rparr>;
               qid = us_app_bump_qids sock1 ! unat (ux_core c);
               bump = UB_app_rx \<lparr>uar_opaque = us_opaque sock1, uar_core = ux_core c, uar_rx_port = udp_src p h,
                        uar_rx_ip = ip_src p, uar_rx_avail = ucast payload_len\<rparr>
      in case queue_put (ux_eqs c1 qid) bump UDP_QUEUE_BUMP_APP_RX of (ret, q) \<Rightarrow>
           if ret \<noteq> 0 then Inr (-1, c1) else Inr (0, c1\<lparr>ux_eqs := (ux_eqs c1)(qid := q)\<rparr>))"

definition udp_rx_body :: "(udp_ctx \<Rightarrow> u16 \<Rightarrow> udp_fault + u32 option \<times> udp_ctx) \<Rightarrow> udp_ctx \<Rightarrow> udp_result" where
  "udp_rx_body find_sock c =
     (if \<not> udp_rx_parse c then Inr (-1, c)
      else case find_sock c (udp_dst (ux_pkt c) (udp_ip_hdrs_len (ux_pkt c))) of
        Inl f \<Rightarrow> Inl f
      | Inr (None, c1) \<Rightarrow> Inr (-1, c1)
      | Inr (Some sid, c1) \<Rightarrow> if unat (ux_core c1) \<ge> UDP_FP_CORES then Inr (-1, c1) else udp_rx_deliver c1 sid)"

definition udp_event_rx :: "udp_ctx \<Rightarrow> udp_result" where
  "udp_event_rx = udp_rx_body udp_sock_find"

definition ebpf_udp_event_rx :: "udp_ctx \<Rightarrow> udp_result" where
  "ebpf_udp_event_rx = udp_rx_body ebpf_udp_sock_find"

definition udp_event_sched :: "udp_ctx \<Rightarrow> udp_result" where
  "udp_event_sched c = Inr (-1, c)"

section \<open>Ephemeral ports\<close>

text \<open>The port tried in round \<open>i\<close>: \<^verbatim>\<open>if (nr > MAX_PORT) nr = MIN_PORT + nr - MAX_PORT - 1;\<close> in 16 bits.\<close>

definition udp_scan_port :: "u16 \<Rightarrow> nat \<Rightarrow> u16" where
  "udp_scan_port next_port i =
     (let nr = next_port + of_nat i in if nr > UDP_MAX_PORT then UDP_MIN_PORT + nr - UDP_MAX_PORT - 1 else nr)"

definition udp_port_after :: "u16 \<Rightarrow> u16" where
  "udp_port_after nr = (if nr + 1 > UDP_MAX_PORT then UDP_MIN_PORT else nr + 1)"

fun udp_port_scan :: "(u16 \<Rightarrow> udp_port) \<Rightarrow> nat \<Rightarrow> u16 \<Rightarrow> nat \<Rightarrow> nat \<Rightarrow> udp_fault + u16 option" where
  "udp_port_scan ports nports next_port i 0 = Inr None"
| "udp_port_scan ports nports next_port i (Suc n) =
     (let nr = udp_scan_port next_port i
      in if unat nr \<ge> nports then Inl PortOutOfMap
         else if po_nsocks (ports nr) = 0 then Inr (Some nr)
         else udp_port_scan ports nports next_port (Suc i) n)"

definition udp_scan_start :: "udp_cfg \<Rightarrow> u16" where
  "udp_scan_start cfg =
     (if uc_next_port cfg < UDP_MIN_PORT \<or> uc_next_port cfg > UDP_MAX_PORT then UDP_MIN_PORT else uc_next_port cfg)"

text \<open>Port 0 means that none of the ports tried is free.\<close>

definition udp_find_free_port :: "udp_ctx \<Rightarrow> udp_fault + u16 \<times> udp_ctx" where
  "udp_find_free_port c =
     (case ux_cfg c of None \<Rightarrow> Inr (0, c)
      | Some cfg \<Rightarrow>
          (case udp_port_scan (ux_ports c) (ux_nports c) (udp_scan_start cfg) 0 UDP_PORT_SCAN_MAX of
             Inl f \<Rightarrow> Inl f
           | Inr None \<Rightarrow> Inr (0, c)
           | Inr (Some nr) \<Rightarrow> Inr (nr, c\<lparr>ux_cfg := Some (cfg\<lparr>uc_next_port := udp_port_after nr\<rparr>)\<rparr>)))"

section \<open>Transmitting\<close>

definition udp_fill_hdr :: "udp_sock \<Rightarrow> u32 \<Rightarrow> u16 \<Rightarrow> u16 \<Rightarrow> bytes \<Rightarrow> bytes" where
  "udp_fill_hdr s tx_ip tx_port payload_len p =
     (let p1 = IPH_VHL_SET 4 5 p; p2 = st8 1 0 p1;
          p3 = st16 2 (t_beui16 (28 + payload_len)) p2; p4 = st16 4 (t_beui16 3) p3; p5 = st16 6 (t_beui16 0) p4;
          p6 = st8 8 0xff p5; p7 = st8 9 IP_PROTO_UDP p6;
          p8 = st32 12 (t_beui32 (us_local_ip s)) p7; p9 = st32 16 (t_beui32 tx_ip) p8; p10 = st16 10 0 p9;
          p11 = st16 20 (t_beui16 (us_local_port s)) p10; p12 = st16 22 (t_beui16 tx_port) p11
      in st16 24 (t_beui16 (8 + payload_len)) p12)"

text \<open>The payload; \<^verbatim>\<open>part\<close> has 64 bits here.\<close>

definition udp_tx_copy :: "bytes \<Rightarrow> udp_sock \<Rightarrow> bytes \<Rightarrow> u16 \<Rightarrow> bytes" where
  "udp_tx_copy shm s pkt payload_len =
     (let off = unat (us_tx_off s)
      in if us_tx_head s + ucast payload_len \<le> us_tx_len s
         then mem_copy pkt UDP_PKT_INNER shm (off + unat (us_tx_head s)) (unat payload_len)
         else let part = (ucast (us_tx_len s - us_tx_head s) :: u64)
              in mem_copy (mem_copy pkt UDP_PKT_INNER shm (off + unat (us_tx_head s)) (unat part))
                   (UDP_PKT_INNER + unat part) shm off (unat ((ucast payload_len :: u64) - part)))"

definition udp_tx_paylen :: "nat \<Rightarrow> u32 \<Rightarrow> u16" where
  "udp_tx_paylen len tx_avail =
     (let n0 = ucast tx_avail; max_payload = (of_nat (len - UDP_PKT_INNER) :: u32);
          n1 = (if n0 > UDP_MAX_PAYLOAD then UDP_MAX_PAYLOAD else n0)
      in if ucast n1 > max_payload then ucast max_payload else n1)"

definition udp_sock_tx :: "udp_sock \<Rightarrow> u32 \<Rightarrow> u16 \<Rightarrow> udp_sock" where
  "udp_sock_tx s tx_avail payload_len =
     s\<lparr>us_tx_head := ring_wrap (us_tx_len s) (us_tx_head s + ucast payload_len),
       us_tx_avail := us_tx_avail s + tx_avail - ucast payload_len\<rparr>"

text \<open>The packet, the socket and the bump to the application once the socket has a port.\<close>

definition udp_tx_send :: "udp_ctx \<Rightarrow> u32 \<Rightarrow> udp_queue_bump_cham_tx \<Rightarrow> udp_result" where
  "udp_tx_send c sid b =
     (let sock = ux_socks c sid; n = udp_tx_paylen (ux_len c) (ubt_tx_avail b)
      in if UDP_PKT_INNER + unat n > ux_len c then Inr (-1, c)
      else let p = udp_tx_copy (ux_shm c) sock (udp_fill_hdr sock (ubt_tx_ip b) (ubt_tx_port b) n (ux_pkt c)) n;
               sock1 = udp_sock_tx sock (ubt_tx_avail b) n;
               c1 = (put_usock sid sock1 c)\<lparr>ux_pkt := p\<rparr>;
               qid = us_app_bump_qids sock1 ! unat (ubt_core b)
      in case queue_put (ux_eqs c1 qid) (UB_app_tx \<lparr>uat_opaque = us_opaque sock1, uat_tx_head = ucast n\<rparr>) UDP_QUEUE_BUMP_APP_TX of (ret, q) \<Rightarrow>
           if ret \<noteq> 0 then Inr (-1, c1)
           else Inr (int (UDP_PKT_INNER + unat n), c1\<lparr>ux_eqs := (ux_eqs c1)(qid := q)\<rparr>))"

text \<open>Binding the socket to an ephemeral port at its first transmission.\<close>

definition udp_port_claim :: "udp_port \<Rightarrow> u32 \<Rightarrow> udp_port" where
  "udp_port_claim port sid = port\<lparr>po_sids := (po_sids port)[0 := sid], po_nsocks := po_nsocks port + 1\<rparr>"

definition udp_tx_autobind :: "udp_ctx \<Rightarrow> u32 \<Rightarrow> udp_fault + u16 \<times> udp_ctx" where
  "udp_tx_autobind c sid =
     (case udp_find_free_port c of Inl f \<Rightarrow> Inl f
      | Inr (local_port, c1) \<Rightarrow>
          if local_port = 0 then Inr (0, c1)
          else Inr (local_port,
            put_usock sid ((ux_socks c1 sid)\<lparr>us_local_port := local_port\<rparr>)
              (c1\<lparr>ux_ports := (ux_ports c1)(local_port := udp_port_claim (ux_ports c1 local_port) (us_id (ux_socks c1 sid)))\<rparr>)))"

definition udp_handle_bump_tx :: "udp_ctx \<Rightarrow> udp_queue_bump_cham_tx \<Rightarrow> udp_result" where
  "udp_handle_bump_tx c b =
     (if UDP_PKT_INNER > ux_len c then Inr (-1, c)
      else if unat (ubt_core b) \<ge> UDP_FP_CORES then Inr (-1, c)
      else if ubt_sock_id b \<ge> ux_nsocks c then Inl SockOutOfMap
      else if us_local_port (ux_socks c (ubt_sock_id b)) = 0
      then case udp_tx_autobind c (ubt_sock_id b) of
             Inl f \<Rightarrow> Inl f
           | Inr (local_port, c1) \<Rightarrow> if local_port = 0 then Inr (-1, c1) else udp_tx_send c1 (ubt_sock_id b) b
      else udp_tx_send c (ubt_sock_id b) b)"

section \<open>Releasing receive space\<close>

definition udp_sock_rx_bump :: "udp_sock \<Rightarrow> u32 \<Rightarrow> udp_sock" where
  "udp_sock_rx_bump s n =
     s\<lparr>us_rx_head := ring_wrap (us_rx_len s) (us_rx_head s + n), us_rx_avail := us_rx_avail s - n\<rparr>"

definition udp_handle_bump_rx :: "udp_ctx \<Rightarrow> udp_queue_bump_cham_rx \<Rightarrow> udp_result" where
  "udp_handle_bump_rx c b =
     (if ux_qe_off c + 32 > ux_shm_len c then Inr (-1, c)
      else if unat (ubr_core b) \<ge> UDP_FP_CORES then Inr (-1, c)
      else if ubr_sock_id b \<ge> ux_nsocks c then Inl SockOutOfMap
      else Inr (0, put_usock (ubr_sock_id b) (udp_sock_rx_bump (ux_socks c (ubr_sock_id b)) (ubr_rx_head b)) c))"

definition udp_event_deq :: "udp_ctx \<Rightarrow> udp_result" where
  "udp_event_deq c =
     (if ux_qe_off c + 64 > ux_shm_len c then Inr (-1, c)
      else case ux_qe c of
        UQE_bump_tx b \<Rightarrow> udp_handle_bump_tx c b
      | UQE_bump_rx b \<Rightarrow> udp_handle_bump_rx c b
      | UQE_other _ \<Rightarrow> Inr (-1, c))"

section \<open>The packet that is sent\<close>

text \<open>The rings of a socket: indices inside, counts within the length, lengths below \<open>2 ^ 31\<close>.\<close>

definition urx_ok :: "udp_sock \<Rightarrow> bool" where
  "urx_ok s \<longleftrightarrow> 0 < unat (us_rx_len s) \<and> unat (us_rx_len s) < 2 ^ 31 \<and> unat (us_rx_avail s) \<le> unat (us_rx_len s) \<and>
     unat (us_rx_head s) < unat (us_rx_len s)"

definition utx_ok :: "udp_sock \<Rightarrow> bool" where
  "utx_ok s \<longleftrightarrow> 0 < unat (us_tx_len s) \<and> unat (us_tx_len s) < 2 ^ 31 \<and> unat (us_tx_avail s) \<le> unat (us_tx_len s) \<and>
     unat (us_tx_head s) < unat (us_tx_len s)"

definition urx_byte :: "bytes \<Rightarrow> udp_sock \<Rightarrow> nat \<Rightarrow> u8" where
  "urx_byte shm s = ring_byte shm (unat (us_rx_off s)) (us_rx_len s) (us_rx_head s)"

definition utx_byte :: "bytes \<Rightarrow> udp_sock \<Rightarrow> nat \<Rightarrow> u8" where
  "utx_byte shm s = ring_byte shm (unat (us_tx_off s)) (us_tx_len s) (us_tx_head s)"

lemma udp_tx_paylen_small:
  assumes "unat a \<le> 1472" "UDP_PKT_INNER + unat a \<le> len" "len < 2 ^ 32"
  shows "unat (udp_tx_paylen len a) = unat a" "ucast (udp_tx_paylen len a) = a"
proof -
  have a: "unat (ucast a :: u16) = unat a" using assms by (simp add: unsigned_ucast_eq take_bit_nat_eq_self)
  have m: "unat (of_nat (len - UDP_PKT_INNER) :: u32) = len - UDP_PKT_INNER"
    unfolding unsigned_of_nat of_nat_id using assms by (intro take_bit_nat_eq_self) simp
  have le: "\<not> (ucast a :: u16) > UDP_MAX_PAYLOAD" using assms a by (simp add: word_less_nat_alt)
  have "\<not> (ucast (ucast a :: u16) :: u32) > of_nat (len - UDP_PKT_INNER)"
    unfolding word_less_nat_alt m using assms by (simp add: unat_ucast_up a)
  then have "udp_tx_paylen len a = ucast a" unfolding udp_tx_paylen_def Let_def using le by simp
  then show "unat (udp_tx_paylen len a) = unat a" "ucast (udp_tx_paylen len a) = a"
    using a by (simp_all add: word_unat_eq_iff unat_ucast_up)
qed

lemma ucast_16_small:
  fixes a :: u32
  assumes "unat a \<le> 1472"
  shows "unat (ucast a :: u16) = unat a" "ucast (ucast a :: u16) = a"
proof -
  show u: "unat (ucast a :: u16) = unat a" using assms by (simp add: unsigned_ucast_eq take_bit_nat_eq_self)
  have "unat (ucast (ucast a :: u16) :: u32) = unat a" unfolding u [symmetric] by (rule unat_ucast_up) simp
  then show "ucast (ucast a :: u16) = a" by (simp only: word_unat_eq_iff)
qed

lemma udp_tx_paylen_bound: "unat (udp_tx_paylen len a) \<le> 1472"
proof -
  let ?n1 = "if (ucast a :: u16) > UDP_MAX_PAYLOAD then UDP_MAX_PAYLOAD else ucast a"
  let ?m = "of_nat (len - UDP_PKT_INNER) :: u32"
  have n1: "unat ?n1 \<le> 1472" by (simp add: word_less_nat_alt)
  have "unat (ucast ?m :: u16) \<le> 1472" if "ucast ?n1 > ?m"
  proof -
    have "unat ?m < unat ?n1" using that by (simp add: word_less_nat_alt unat_ucast_up del: if_distrib)
    moreover have "unat (ucast ?m :: u16) \<le> unat ?m" by (simp add: unsigned_ucast_eq take_bit_nat_less_eq_self)
    ultimately show ?thesis using n1 by linarith
  qed
  then show ?thesis unfolding udp_tx_paylen_def Let_def using n1 by (cases "ucast ?n1 > ?m") simp_all
qed

lemma udp_tx_copy_load:
  assumes ok: "utx_ok s" and n: "unat n \<le> unat (us_tx_len s)"
  shows "udp_tx_copy shm s pkt n = ring_load pkt UDP_PKT_INNER shm (unat (us_tx_off s)) (us_tx_len s) (us_tx_head s) (ucast n)"
proof -
  have b: "unat (us_tx_head s) < unat (us_tx_len s)" "unat (ucast n :: u32) \<le> unat (us_tx_len s)" "unat (us_tx_len s) < 2 ^ 31"
    using ok n by (simp_all add: utx_ok_def unat_ucast_up)
  note parts = ring_parts [OF b]
  have u: "unat (ucast (us_tx_len s - us_tx_head s) :: u64) = unat (us_tx_len s - us_tx_head s)" by (simp add: unat_ucast_up)
  have v: "unat ((ucast n :: u64) - ucast (us_tx_len s - us_tx_head s)) = unat n - unat (us_tx_len s - us_tx_head s)"
    if "\<not> us_tx_head s + ucast n \<le> us_tx_len s"
    using parts(4) [OF that] by (subst unat_sub) (simp_all add: word_le_nat_alt u unat_ucast_up)
  show ?thesis using parts(3) v u by (simp add: udp_tx_copy_def ring_load_def Let_def unat_ucast_up)
qed

lemma udp_tx_copy_bytes:
  assumes ok: "utx_ok s" and n: "unat n \<le> unat (us_tx_len s)"
  shows "udp_tx_copy shm s pkt n = (\<lambda>i. if UDP_PKT_INNER \<le> i \<and> i < UDP_PKT_INNER + unat n then utx_byte shm s (i - UDP_PKT_INNER) else pkt i)"
proof -
  have b: "unat (us_tx_head s) < unat (us_tx_len s)" "unat (ucast n :: u32) \<le> unat (us_tx_len s)" "unat (us_tx_len s) < 2 ^ 31"
    using ok n by (simp_all add: utx_ok_def unat_ucast_up)
  have u: "unat (ucast n :: u32) = unat n" by (simp add: unat_ucast_up)
  show ?thesis unfolding udp_tx_copy_load [OF assms] ring_load_bytes [OF b] utx_byte_def u ..
qed

text \<open>The header fields survive the copy of the payload, which starts after them.\<close>

lemma udp_fill_hdr_fields:
  fixes p0 :: bytes
  assumes p: "\<And>i. i < UDP_PKT_INNER \<Longrightarrow> p i = udp_fill_hdr s tx_ip tx_port n p0 i"
  shows "IPH_V p = 4" "IPH_HL p = 5" "ip_proto p = IP_PROTO_UDP" "ip_offset p = 0" "ip_len p = 28 + n"
    and "ip_src p = us_local_ip s" "ip_dst p = tx_ip" "udp_src p 20 = us_local_port s" "udp_dst p 20 = tx_port"
    and "udp_hlen p 20 = 8 + n"
proof -
  let ?q = "udp_fill_hdr s tx_ip tx_port n p0"
  have ld: "ld16 p i = ld16 ?q i" if "i + 2 \<le> UDP_PKT_INNER" for i using that p by (simp add: ld16_def)
  have ld4: "ld32 p i = ld32 ?q i" if "i + 4 \<le> UDP_PKT_INNER" for i using that p by (simp add: ld32_def)
  note defs = udp_fill_hdr_def Let_def IPH_VHL_SET_def field_simps_chm
  show "IPH_V p = 4" "IPH_HL p = 5" "ip_proto p = IP_PROTO_UDP"
    using p [of 0] p [of 9] by (simp_all add: IPH_V_def IPH_HL_def ip_proto_def defs)
  show "ip_offset p = 0" using ld [of 6] by (simp add: ip_offset_def defs)
  show "ip_len p = 28 + n" using ld [of 2] by (simp add: ip_len_def defs)
  show "ip_src p = us_local_ip s" "ip_dst p = tx_ip" using ld4 [of 12] ld4 [of 16] by (simp_all add: ip_src_def ip_dst_def defs)
  show "udp_src p 20 = us_local_port s" "udp_dst p 20 = tx_port" "udp_hlen p 20 = 8 + n"
    using ld [of 20] ld [of 22] ld [of 24] by (simp_all add: udp_src_def udp_dst_def udp_hlen_def defs)
qed

lemma put_usock_simps [simp]:
  "ux_socks (put_usock sid s c) = (ux_socks c)(sid := s)" "ux_shm (put_usock sid s c) = ux_shm c"
  "ux_eqs (put_usock sid s c) = ux_eqs c" "ux_pkt (put_usock sid s c) = ux_pkt c" "ux_len (put_usock sid s c) = ux_len c"
  "ux_ports (put_usock sid s c) = ux_ports c" "ux_nports (put_usock sid s c) = ux_nports c"
  "ux_nsocks (put_usock sid s c) = ux_nsocks c" "ux_cfg (put_usock sid s c) = ux_cfg c"
  "ux_core (put_usock sid s c) = ux_core c" "ux_ncores (put_usock sid s c) = ux_ncores c"
  "ux_qe (put_usock sid s c) = ux_qe c" "ux_qe_off (put_usock sid s c) = ux_qe_off c"
  "ux_shm_len (put_usock sid s c) = ux_shm_len c"
  by (simp_all add: put_usock_def)

section \<open>Successful transmission and delivery\<close>

text \<open>The packet of a transmission: headers, then the oldest bytes of the transmit ring.\<close>

definition udp_tx_packet :: "bytes \<Rightarrow> udp_sock \<Rightarrow> udp_queue_bump_cham_tx \<Rightarrow> bytes \<Rightarrow> bytes" where
  "udp_tx_packet shm s b pkt = (\<lambda>i. if UDP_PKT_INNER \<le> i \<and> i < UDP_PKT_INNER + unat (ubt_tx_avail b)
     then utx_byte shm s (i - UDP_PKT_INNER) else udp_fill_hdr s (ubt_tx_ip b) (ubt_tx_port b) (ucast (ubt_tx_avail b)) pkt i)"

lemma udp_bump_tx_sends:
  assumes len: "1500 \<le> ux_len c" "ux_len c < 2 ^ 32" and core: "unat (ubt_core b) < UDP_FP_CORES" and sid: "ubt_sock_id b < ux_nsocks c"
    and s: "s = ux_socks c (ubt_sock_id b)" "us_local_port s \<noteq> 0" "utx_ok s"
    and n: "unat (ubt_tx_avail b) \<le> 1472" "unat (ubt_tx_avail b) \<le> unat (us_tx_len s)"
    and qid: "qid = us_app_bump_qids s ! unat (ubt_core b)"
    and q: "queue_put (ux_eqs c qid) (UB_app_tx \<lparr>uat_opaque = us_opaque s, uat_tx_head = ubt_tx_avail b\<rparr>) UDP_QUEUE_BUMP_APP_TX = (0, q)"
  shows "udp_handle_bump_tx c b = Inr (int (UDP_PKT_INNER + unat (ubt_tx_avail b)),
    ((put_usock (ubt_sock_id b) (udp_sock_tx s (ubt_tx_avail b) (ucast (ubt_tx_avail b))) c)\<lparr>ux_pkt := udp_tx_packet (ux_shm c) s b (ux_pkt c)\<rparr>)
      \<lparr>ux_eqs := (ux_eqs c)(qid := q)\<rparr>)"
proof -
  define m where "m = udp_tx_paylen (ux_len c) (ubt_tx_avail b)"
  have m: "unat m = unat (ubt_tx_avail b)" "ucast m = ubt_tx_avail b" unfolding m_def using n(1) len by (intro udp_tx_paylen_small; simp)+
  have m': "m = ucast (ubt_tx_avail b)" using n(1) m(1) by (simp add: word_unat_eq_iff unsigned_ucast_eq take_bit_nat_eq_self)
  have p: "udp_tx_copy (ux_shm c) s (udp_fill_hdr s (ubt_tx_ip b) (ubt_tx_port b) m (ux_pkt c)) m = udp_tx_packet (ux_shm c) s b (ux_pkt c)"
    unfolding udp_tx_packet_def m' [symmetric] using s(3) n(2) m(1) by (subst udp_tx_copy_bytes) simp_all
  show ?thesis using assms m p
    by (simp add: udp_handle_bump_tx_def udp_tx_send_def Let_def m_def [symmetric] m' [symmetric] udp_sock_tx_def)
qed

lemma udp_tx_packet_fields:
  fixes shm pkt :: bytes and s :: udp_sock
  assumes "unat (ubt_tx_avail b) \<le> 1472"
  defines "p \<equiv> udp_tx_packet shm s b pkt"
  shows "IPH_V p = 4" "IPH_HL p = 5" "ip_proto p = IP_PROTO_UDP" "ip_offset p = 0" "unat (ip_len p) = 28 + unat (ubt_tx_avail b)"
    and "ip_src p = us_local_ip s" "ip_dst p = ubt_tx_ip b" "udp_src p 20 = us_local_port s" "udp_dst p 20 = ubt_tx_port b"
    and "udp_hlen p 20 - 8 = ucast (ubt_tx_avail b)" "unat (udp_hlen p 20) = 8 + unat (ubt_tx_avail b)"
    and "k < unat (ubt_tx_avail b) \<Longrightarrow> p (28 + k) = utx_byte shm s k"
proof -
  have h: "\<And>i. i < UDP_PKT_INNER \<Longrightarrow> p i = udp_fill_hdr s (ubt_tx_ip b) (ubt_tx_port b) (ucast (ubt_tx_avail b)) pkt i"
    by (simp add: p_def udp_tx_packet_def)
  note f = udp_fill_hdr_fields [of p, OF h]
  have a: "unat (ucast (ubt_tx_avail b) :: u16) = unat (ubt_tx_avail b)" using assms(1) by (simp add: unsigned_ucast_eq take_bit_nat_eq_self)
  have "unat (28 + ucast (ubt_tx_avail b) :: u16) = 28 + unat (ubt_tx_avail b)" "unat (8 + ucast (ubt_tx_avail b) :: u16) = 8 + unat (ubt_tx_avail b)"
    using assms(1) a by (subst unat_add_small_iff; simp)+
  then show "IPH_V p = 4" "IPH_HL p = 5" "ip_proto p = IP_PROTO_UDP" "ip_offset p = 0" "unat (ip_len p) = 28 + unat (ubt_tx_avail b)"
    "ip_src p = us_local_ip s" "ip_dst p = ubt_tx_ip b" "udp_src p 20 = us_local_port s" "udp_dst p 20 = ubt_tx_port b"
    "udp_hlen p 20 - 8 = ucast (ubt_tx_avail b)" "unat (udp_hlen p 20) = 8 + unat (ubt_tx_avail b)"
    using f by simp_all
  show "p (28 + k) = utx_byte shm s k" if "k < unat (ubt_tx_avail b)" using that by (simp add: p_def udp_tx_packet_def)
qed

text \<open>What a delivery does when the ring and the queue have room.\<close>

lemma udp_rx_delivers:
  assumes s: "s = ux_socks c sid" "urx_ok s" and n: "n = (ucast (udp_hlen (ux_pkt c) h - 8 :: u16) :: u32)"
    and room: "unat n \<le> unat (us_rx_len s) - unat (us_rx_avail s)" and h: "h = udp_ip_hdrs_len (ux_pkt c)" "h + 8 + unat n \<le> ux_len c"
    and qid: "qid = us_app_bump_qids s ! unat (ux_core c)"
    and q: "queue_put (ux_eqs c qid) (UB_app_rx \<lparr>uar_opaque = us_opaque s, uar_core = ux_core c, uar_rx_port = udp_src (ux_pkt c) h,
        uar_rx_ip = ip_src (ux_pkt c), uar_rx_avail = n\<rparr>) UDP_QUEUE_BUMP_APP_RX = (0, q)"
  shows "udp_rx_deliver c sid = Inr (0, ((put_usock sid (s\<lparr>us_rx_avail := us_rx_avail s + n, us_rx_core := uint (ux_core c)\<rparr>) c)
     \<lparr>ux_shm := ring_store (ux_shm c) (unat (us_rx_off s)) (us_rx_len s) (ring_wrap (us_rx_len s) (us_rx_head s + us_rx_avail s)) (ux_pkt c) (h + 8) n\<rparr>)
     \<lparr>ux_eqs := (ux_eqs c)(qid := q)\<rparr>)"
proof -
  have "us_rx_avail s \<le> us_rx_len s" using s(2) by (simp add: urx_ok_def word_le_nat_alt)
  then have "\<not> n > us_rx_len s - us_rx_avail s" using room by (simp add: word_less_nat_alt unat_sub not_less)
  then show ?thesis using assms
    by (simp add: udp_rx_deliver_def Let_def unat_ucast_up)
qed

end
