(* ===== verification/Udp_Slow.thy ===== *)
theory Udp_Slow
  imports Udp_Fast
begin

text \<open>
  The UDP slow path (\<^verbatim>\<open>protos/udp/slow/udp_slow.c\<close>): creation of sockets, socket options, binding of
  ports and the loop that serves the applications. Maps live in shared memory and are read by the
  fast path. The buffers that \<^verbatim>\<open>cham_new_queue\<close> grants are arguments. A ghost flag records that the
  code went through a null pointer or outside a map.
\<close>

section \<open>Messages\<close>

abbreviation UDP_QUEUE_NEW_SOCK_REQ :: u8 where "UDP_QUEUE_NEW_SOCK_REQ \<equiv> 3"
abbreviation UDP_QUEUE_NEW_SOCK_RES :: u8 where "UDP_QUEUE_NEW_SOCK_RES \<equiv> 4"
abbreviation UDP_QUEUE_SETOPT_REQ :: u8 where "UDP_QUEUE_SETOPT_REQ \<equiv> 5"
abbreviation UDP_QUEUE_SETOPT_RES :: u8 where "UDP_QUEUE_SETOPT_RES \<equiv> 6"
abbreviation UDP_QUEUE_BIND_REQ :: u8 where "UDP_QUEUE_BIND_REQ \<equiv> 7"
abbreviation UDP_QUEUE_BIND_RES :: u8 where "UDP_QUEUE_BIND_RES \<equiv> 8"
abbreviation SO_REUSEPORT :: u8 where "SO_REUSEPORT \<equiv> 15"

record udp_queue_new_sock_res =
  unr_sock_id :: u32
  unr_opaque :: u64
  unr_core :: u16
  unr_rx_qid :: u16
  unr_rx_len :: u32
  unr_rx_off :: u64
  unr_tx_qid :: u16
  unr_tx_len :: u32
  unr_tx_off :: u64

record udp_queue_bind_req =
  ubq_sock_id :: u32
  ubq_local_port :: u16
  ubq_local_ip :: u32
  ubq_opaque :: u64

record udp_queue_setopt_req =
  usq_opt :: u8
  usq_sock_id :: u32
  usq_opaque :: u64

text \<open>Bind and setopt answer with the same two fields.\<close>

record udp_queue_done_res =
  udr_success :: u8
  udr_opaque :: u64

datatype udp_msg =
    UM_new_sock_req u64
  | UM_new_sock_res udp_queue_new_sock_res
  | UM_bind_req udp_queue_bind_req
  | UM_bind_res udp_queue_done_res
  | UM_setopt_req udp_queue_setopt_req
  | UM_setopt_res udp_queue_done_res

section \<open>State\<close>

record udp_app_context_slow =
  uax_id :: u8
  uax_app_slow_q :: "dqueue \<times> udp_msg ring"
  uax_slow_app_q :: "equeue \<times> udp_msg ring"
  uax_app_bump_qs :: "proto_queue_lib list"
  uax_fast_bump_qs :: "proto_queue_lib list"

record udp_app_slow =
  uap_id :: u8
  uap_n_ctxs :: u8
  uap_next_ctx :: u8
  uap_ctxs :: "u8 \<Rightarrow> udp_app_context_slow"

record udp_slow_context =
  uw_n_socks :: u32
  uw_n_fp_cores :: u32
  uw_local_ip :: u32
  uw_n_apps :: u8
  uw_next_app :: u8
  uw_apps :: "u8 \<Rightarrow> udp_app_slow"
  uw_socks :: "u32 \<Rightarrow> udp_sock"
  uw_ports :: "u16 \<Rightarrow> udp_port"
  uw_cfg :: udp_cfg
  uw_oob :: bool

abbreviation UDP_NPORTS :: nat where "UDP_NPORTS \<equiv> 65534"

type_synonym uactx = "u8 \<times> u8"

definition uget_actx :: "udp_slow_context \<Rightarrow> uactx \<Rightarrow> udp_app_context_slow" where
  "uget_actx c a = uap_ctxs (uw_apps c (fst a)) (snd a)"

definition uupd_actx :: "uactx \<Rightarrow> (udp_app_context_slow \<Rightarrow> udp_app_context_slow) \<Rightarrow> udp_slow_context \<Rightarrow> udp_slow_context" where
  "uupd_actx a f c = c\<lparr>uw_apps := (uw_apps c)(fst a := (uw_apps c (fst a))\<lparr>uap_ctxs :=
     (uap_ctxs (uw_apps c (fst a)))(snd a := f (uap_ctxs (uw_apps c (fst a)) (snd a)))\<rparr>)\<rparr>"

definition uapp_put :: "uactx \<Rightarrow> udp_msg \<Rightarrow> u8 \<Rightarrow> udp_slow_context \<Rightarrow> int \<times> udp_slow_context" where
  "uapp_put a d ty c =
     (case queue_put (uax_slow_app_q (uget_actx c a)) d ty of (ret, q) \<Rightarrow> (ret, uupd_actx a (\<lambda>x. x\<lparr>uax_slow_app_q := q\<rparr>) c))"

definition uapp_full :: "uactx \<Rightarrow> udp_slow_context \<Rightarrow> bool" where
  "uapp_full a c \<longleftrightarrow> queue_tail (fst (uax_slow_app_q (uget_actx c a))) (snd (uax_slow_app_q (uget_actx c a))) = None"

definition uupd_sock :: "u32 \<Rightarrow> (udp_sock \<Rightarrow> udp_sock) \<Rightarrow> udp_slow_context \<Rightarrow> udp_slow_context" where
  "uupd_sock sid f c = (if sid \<ge> UDP_MAX_SOCKETS then c\<lparr>uw_oob := True\<rparr> else c\<lparr>uw_socks := (uw_socks c)(sid := f (uw_socks c sid))\<rparr>)"

section \<open>Initial state\<close>

text \<open>What \<^verbatim>\<open>init_udp_slow_context\<close> leaves in the tables and counters.\<close>

definition udp_port_init :: udp_port where
  "udp_port_init = \<lparr>po_nsocks = 0, po_next_sock = map of_nat [0..<UDP_FP_CORES], po_sids = replicate UDP_REUSOCK_MAX 0\<rparr>"

definition udp_slow_init :: "u32 \<Rightarrow> u32 \<Rightarrow> (u32 \<Rightarrow> udp_sock) \<Rightarrow> (u8 \<Rightarrow> udp_app_slow) \<Rightarrow> udp_slow_context" where
  "udp_slow_init n_fp_cores local_ip socks apps =
     \<lparr>uw_n_socks = 0, uw_n_fp_cores = n_fp_cores, uw_local_ip = local_ip, uw_n_apps = 0, uw_next_app = 0, uw_apps = apps,
      uw_socks = socks, uw_ports = (\<lambda>_. udp_port_init), uw_cfg = \<lparr>uc_next_port = UDP_MIN_PORT\<rparr>, uw_oob = False\<rparr>"

section \<open>New sockets\<close>

definition udp_sock_new :: "udp_slow_context \<Rightarrow> udp_app_context_slow \<Rightarrow> u64 \<Rightarrow> u16 \<Rightarrow> udp_sock \<Rightarrow> udp_sock" where
  "udp_sock_new c x opaque core s =
     s\<lparr>us_id := uw_n_socks c, us_tx_core := uint core, us_rx_core := -1, us_local_ip := uw_local_ip c,
       us_app_bump_qid := pq_id (uax_app_bump_qs x ! unat core),
       us_app_bump_qids := map pq_id (take (unat (uw_n_fp_cores c)) (uax_app_bump_qs x)) @ drop (unat (uw_n_fp_cores c)) (us_app_bump_qids s),
       us_opaque := opaque, us_local_port := 0, us_reuport := 0\<rparr>"

definition udp_sock_core :: "udp_slow_context \<Rightarrow> u16" where
  "udp_sock_core c = (if uw_n_fp_cores c \<noteq> 0 then ucast (uw_n_socks c mod uw_n_fp_cores c) else 0)"

definition udp_handle_new_sock ::
  "proto_queue_lib option \<Rightarrow> proto_queue_lib option \<Rightarrow> uactx \<Rightarrow> u64 \<Rightarrow> udp_slow_context \<Rightarrow> int \<times> udp_slow_context" where
  "udp_handle_new_sock rxq txq a opaque c =
     (if uw_n_socks c \<ge> UDP_MAX_SOCKETS then (-1, c)
      else if uapp_full a c then (-1, c)
      else let sid = uw_n_socks c; core = udp_sock_core c;
               c1 = uupd_sock sid (udp_sock_new c (uget_actx c a) opaque core) c
      in case rxq of None \<Rightarrow> (-1, c1)
         | Some rq \<Rightarrow>
           let rx_len = pq_elsize rq * pq_nelems rq;
               c2 = uupd_sock sid (\<lambda>s. s\<lparr>us_rx_len := rx_len, us_rx_avail := 0, us_rx_head := 0, us_rx_off := pq_off rq\<rparr>) c1
           in (case txq of None \<Rightarrow> (-1, c2\<lparr>uw_oob := True\<rparr>)
              | Some tq \<Rightarrow>
                let tx_len = pq_nelems tq * pq_elsize tq;
                    c3 = uupd_sock sid (\<lambda>s. s\<lparr>us_tx_len := tx_len, us_tx_avail := 0, us_tx_head := 0, us_tx_off := pq_off tq\<rparr>) c2;
                    res = \<lparr>unr_sock_id = sid, unr_opaque = opaque, unr_core = core, unr_rx_qid = pq_id rq, unr_rx_len = rx_len,
                            unr_rx_off = pq_off rq, unr_tx_qid = pq_id tq, unr_tx_len = tx_len, unr_tx_off = pq_off tq\<rparr>
                in (case uapp_put a (UM_new_sock_res res) UDP_QUEUE_NEW_SOCK_RES c3 of (ret, c4) \<Rightarrow>
                      if ret \<noteq> 0 then (-1, c4) else (0, c4\<lparr>uw_n_socks := uw_n_socks c4 + 1\<rparr>))))"

section \<open>Socket options\<close>

text \<open>
  On a bad socket id the handler answers and goes on: it overwrites the response in the slot it has
  already published and enqueues the following slot as it is.
\<close>

definition usetopt_mark :: "udp_queue_setopt_req \<Rightarrow> udp_slow_context \<Rightarrow> udp_slow_context" where
  "usetopt_mark r c = (if usq_opt r = SO_REUSEPORT then uupd_sock (usq_sock_id r) (\<lambda>s. s\<lparr>us_reuport := 1\<rparr>) c else c)"

definition usetopt_again :: "uactx \<Rightarrow> u32 \<Rightarrow> udp_queue_done_res \<Rightarrow> udp_slow_context \<Rightarrow> int \<times> udp_slow_context" where
  "usetopt_again a pos res c =
     (case uax_slow_app_q (uget_actx c a) of (q, m) \<Rightarrow>
        (case queue_enqueue q (m(pos := (m pos)\<lparr>qs_data := UM_setopt_res res\<rparr>)) UDP_QUEUE_SETOPT_RES of (ret, q') \<Rightarrow>
           (ret, uupd_actx a (\<lambda>x. x\<lparr>uax_slow_app_q := q'\<rparr>) c)))"

definition udp_handle_sock_setopt :: "uactx \<Rightarrow> udp_queue_setopt_req \<Rightarrow> udp_slow_context \<Rightarrow> int \<times> udp_slow_context" where
  "udp_handle_sock_setopt a r c =
     (if uapp_full a c then (-1, c)
      else let pos = eq_tail (fst (uax_slow_app_q (uget_actx c a)))
      in if usq_sock_id r > UDP_MAX_SOCKETS
         then (case uapp_put a (UM_setopt_res \<lparr>udr_success = 0, udr_opaque = usq_opaque r\<rparr>) UDP_QUEUE_SETOPT_RES c of (ret, c1) \<Rightarrow>
                 if ret \<noteq> 0 then (-1, c1)
                 else (case usetopt_again a pos \<lparr>udr_success = 1, udr_opaque = usq_opaque r\<rparr> (usetopt_mark r c1) of (ret, c2) \<Rightarrow>
                         (if ret \<noteq> 0 then -1 else 0, c2)))
         else (case uapp_put a (UM_setopt_res \<lparr>udr_success = 1, udr_opaque = usq_opaque r\<rparr>) UDP_QUEUE_SETOPT_RES (usetopt_mark r c) of (ret, c1) \<Rightarrow>
                 (if ret \<noteq> 0 then -1 else 0, c1)))"

section \<open>Binding\<close>

text \<open>The slow path's scan for a free port, over the same maps as the fast path's.\<close>

definition udp_slow_free_port :: "udp_slow_context \<Rightarrow> udp_fault + u16 \<times> udp_slow_context" where
  "udp_slow_free_port c =
     (case udp_port_scan (uw_ports c) UDP_NPORTS (udp_scan_start (uw_cfg c)) 0 UDP_PORT_SCAN_MAX of
        Inl f \<Rightarrow> Inl f
      | Inr None \<Rightarrow> Inr (0, c)
      | Inr (Some nr) \<Rightarrow> Inr (nr, c\<lparr>uw_cfg := \<lparr>uc_next_port = udp_port_after nr\<rparr>\<rparr>))"

definition ubind_fail :: "uactx \<Rightarrow> udp_queue_bind_req \<Rightarrow> udp_slow_context \<Rightarrow> int \<times> udp_slow_context" where
  "ubind_fail a r c = (-1, snd (uapp_put a (UM_bind_res \<lparr>udr_success = 0, udr_opaque = ubq_opaque r\<rparr>) UDP_QUEUE_BIND_RES c))"

definition udp_port_bind :: "udp_port \<Rightarrow> u32 \<Rightarrow> udp_port" where
  "udp_port_bind port sid = port\<lparr>po_sids := (po_sids port)[unat (po_nsocks port) := sid], po_nsocks := po_nsocks port + 1\<rparr>"

text \<open>From the chosen port on.\<close>

definition ubind_port :: "uactx \<Rightarrow> udp_queue_bind_req \<Rightarrow> u16 \<Rightarrow> udp_slow_context \<Rightarrow> int \<times> udp_slow_context" where
  "ubind_port a r local_port c =
     (if unat local_port \<ge> UDP_NPORTS then (-1, c\<lparr>uw_oob := True\<rparr>)
      else let port = uw_ports c local_port
      in if po_nsocks port \<noteq> 0 \<and> us_reuport (uw_socks c (ubq_sock_id r)) = 0 then ubind_fail a r c
      else if unat (po_nsocks port) \<ge> UDP_REUSOCK_MAX then ubind_fail a r c
      else let c1 = uupd_sock (ubq_sock_id r) (\<lambda>s. s\<lparr>us_local_ip := ubq_local_ip r, us_local_port := local_port\<rparr>) c;
               c2 = c1\<lparr>uw_ports := (uw_ports c1)(local_port := udp_port_bind port (ubq_sock_id r))\<rparr>
      in case uapp_put a (UM_bind_res \<lparr>udr_success = 1, udr_opaque = ubq_opaque r\<rparr>) UDP_QUEUE_BIND_RES c2 of (ret, c3) \<Rightarrow>
           (if ret \<noteq> 0 then -1 else 0, c3))"

definition udp_handle_bind :: "uactx \<Rightarrow> udp_queue_bind_req \<Rightarrow> udp_slow_context \<Rightarrow> int \<times> udp_slow_context" where
  "udp_handle_bind a r c =
     (if uapp_full a c then (-1, c)
      else if ubq_sock_id r \<ge> UDP_MAX_SOCKETS then (-1, c\<lparr>uw_oob := True\<rparr>)
      else let sock = uw_socks c (ubq_sock_id r);
               local_port = (if us_local_port sock \<noteq> 0 then us_local_port sock else ubq_local_port r)
      in if local_port > UDP_MAX_PORT then ubind_fail a r c
      else if local_port = 0
      then (case udp_slow_free_port c of
              Inl f \<Rightarrow> (-1, c\<lparr>uw_oob := True\<rparr>)
            | Inr (nr, c1) \<Rightarrow> if nr = 0 then ubind_fail a r c1 else ubind_port a r nr c1)
      else ubind_port a r local_port c)"

section \<open>Serving the applications\<close>

abbreviation UDP_SLOW_BATCH :: nat where "UDP_SLOW_BATCH \<equiv> 16"

definition udp_app_msg :: "proto_queue_lib option \<Rightarrow> proto_queue_lib option \<Rightarrow> uactx \<Rightarrow> udp_msg qslot \<Rightarrow> udp_slow_context \<Rightarrow> udp_slow_context" where
  "udp_app_msg rxq txq a m c =
     (case qs_data m of
        UM_new_sock_req opaque \<Rightarrow> if qs_type m = UDP_QUEUE_NEW_SOCK_REQ then snd (udp_handle_new_sock rxq txq a opaque c) else c
      | UM_setopt_req r \<Rightarrow> if qs_type m = UDP_QUEUE_SETOPT_REQ then snd (udp_handle_sock_setopt a r c) else c
      | UM_bind_req r \<Rightarrow> if qs_type m = UDP_QUEUE_BIND_REQ then snd (udp_handle_bind a r c) else c
      | _ \<Rightarrow> c)"

definition udp_actx_dequeue :: "uactx \<Rightarrow> udp_slow_context \<Rightarrow> udp_slow_context" where
  "udp_actx_dequeue a c =
     (case queue_dequeue (fst (uax_app_slow_q (uget_actx c a))) (snd (uax_app_slow_q (uget_actx c a))) of (ret, q) \<Rightarrow>
        uupd_actx a (\<lambda>x. x\<lparr>uax_app_slow_q := q\<rparr>) c)"

definition udp_next_ctx :: "u8 \<Rightarrow> udp_slow_context \<Rightarrow> udp_slow_context" where
  "udp_next_ctx aid c = c\<lparr>uw_apps := (uw_apps c)(aid := (uw_apps c aid)\<lparr>uap_next_ctx :=
     (uap_next_ctx (uw_apps c aid) + 1) mod uap_n_ctxs (uw_apps c aid)\<rparr>)\<rparr>"

text \<open>\<open>grant i\<close> holds the buffers granted while message \<open>i\<close> of the batch is handled.\<close>

function udp_poll_loop ::
  "(nat \<Rightarrow> proto_queue_lib option \<times> proto_queue_lib option) \<Rightarrow> nat \<Rightarrow> nat \<Rightarrow> nat \<Rightarrow> udp_slow_context \<Rightarrow> udp_slow_context" where
  "udp_poll_loop grant msgs_i apps_polled ctxs_polled c =
     (if msgs_i < UDP_SLOW_BATCH \<and> uw_n_apps c \<noteq> 0
      then let next = (ctxs_polled \<ge> unat (uap_n_ctxs (uw_apps c (uw_next_app c))));
               apps1 = (if next then apps_polled + 1 else apps_polled);
               c1 = (if next then c\<lparr>uw_next_app := (uw_next_app c + 1) mod uw_n_apps c\<rparr> else c);
               aid = uw_next_app c1; app = uw_apps c1 aid; a = (aid, uap_next_ctx app)
           in if apps1 \<ge> unat (uw_n_apps c1) \<or> uap_n_ctxs app = 0 then c1
              else (case queue_head (fst (uax_app_slow_q (uget_actx c1 a))) (snd (uax_app_slow_q (uget_actx c1 a))) of
                      None \<Rightarrow> udp_poll_loop grant msgs_i apps1 (ctxs_polled + 1) (udp_next_ctx aid c1)
                    | Some pos \<Rightarrow> udp_poll_loop grant (msgs_i + 1) apps1 ctxs_polled
                        (udp_actx_dequeue a (udp_app_msg (fst (grant msgs_i)) (snd (grant msgs_i)) a
                           (snd (uax_app_slow_q (uget_actx c1 a)) pos) c1)))
      else c)"
  by auto

termination
  by (relation "measures [\<lambda>(g, m, an, cn, c). UDP_SLOW_BATCH - m, \<lambda>(g, m, an, cn, c). unat (uw_n_apps c) - an, \<lambda>(g, m, an, cn, c). 256 - cn]")
     (auto simp: udp_next_ctx_def dest: below_u8)

declare udp_poll_loop.simps [simp del]

definition udp_poll_apps ::
  "(nat \<Rightarrow> proto_queue_lib option \<times> proto_queue_lib option) \<Rightarrow> udp_slow_context \<Rightarrow> udp_slow_context" where
  "udp_poll_apps grant c = udp_poll_loop grant 0 0 0 c"

end
