(* ===== verification/Udp_Lib.thy ===== *)
theory Udp_Lib
  imports Udp_Slow Wait_Set
begin

unbundle bit_operations_syntax

text \<open>
  The UDP library of an application (\<^verbatim>\<open>protos/udp/lib/udp_lib.c\<close>): socket calls that write requests
  and bumps into queues, the polling of the answers, and the wait objects. A pointer to an entry of
  \<^verbatim>\<open>udp->socks\<close> is its index, a pointer into shared memory the offset from its base; \<^verbatim>\<open>opaque\<close> values
  are such indices. Blocking calls are split at their wait: the part before it, the condition it
  waits for and the part after it.
\<close>

section \<open>State\<close>

abbreviation UDP_WAIT_NONBLOCK :: u32 where "UDP_WAIT_NONBLOCK \<equiv> 1"
abbreviation UDP_WAIT_IN :: u32 where "UDP_WAIT_IN \<equiv> 1"
abbreviation UDP_WAIT_OUT :: u32 where "UDP_WAIT_OUT \<equiv> 2"
abbreviation UDP_WAIT_SOCKET :: u32 where "UDP_WAIT_SOCKET \<equiv> 4"
abbreviation UDP_WAIT_BIND :: u32 where "UDP_WAIT_BIND \<equiv> 8"
abbreviation UDP_WAIT_SETOPT :: u32 where "UDP_WAIT_SETOPT \<equiv> 16"
abbreviation UDP_QUEUE_BUMP_CHAM_TX :: u8 where "UDP_QUEUE_BUMP_CHAM_TX \<equiv> 9"
abbreviation UDP_QUEUE_BUMP_CHAM_RX :: u8 where "UDP_QUEUE_BUMP_CHAM_RX \<equiv> 10"

record udp_socket_lib =
  ul_fd :: int
  ul_sock_id :: u32
  ul_ctx :: "nat option"
  ul_tx_core :: int
  ul_rx_core :: int
  ul_rx_port :: u16
  ul_rx_ip :: u32
  ul_tx_port :: u16
  ul_tx_ip :: u32
  ul_rx_qid :: u16
  ul_rx_len :: u32
  ul_rx_avail :: u32
  ul_rx_head :: u32
  ul_rx_buf :: u64
  ul_tx_qid :: u16
  ul_tx_len :: u32
  ul_tx_avail :: u32
  ul_tx_head :: u32
  ul_tx_buf :: u64
  ul_bind_success :: int
  ul_setopt_success :: int

record udp_context_lib =
  lx_app_slow_q :: "equeue \<times> udp_msg ring"
  lx_slow_app_q :: "dqueue \<times> udp_msg ring"
  lx_ncores :: u16
  lx_app_fast_qs :: "nat \<Rightarrow> equeue \<times> udp_bump ring"
  lx_fast_app_qs :: "nat \<Rightarrow> dqueue \<times> udp_bump ring"

text \<open>The library: \<open>ub_up\<close> tells whether \<^verbatim>\<open>udp\<close> is set; contexts are found by their index.\<close>

record udp_lib =
  ub_up :: bool
  ub_next_sockfd :: int
  ub_socks :: "nat \<Rightarrow> udp_socket_lib"
  ub_ctxs :: "nat \<Rightarrow> udp_context_lib"
  ub_shm :: bytes
  ub_errno :: int

text \<open>
  Where the library does not return: a queue index that no core has, an \<^verbatim>\<open>opaque\<close> pointer outside
  the table, or \<^verbatim>\<open>abort\<close> on an unknown message.
\<close>

datatype ulib_fault = NoSuchCore | BadOpaque | UnknownMessage

definition put_lsock :: "nat \<Rightarrow> udp_socket_lib \<Rightarrow> udp_lib \<Rightarrow> udp_lib" where
  "put_lsock k s l = l\<lparr>ub_socks := (ub_socks l)(k := s)\<rparr>"

definition put_lctx :: "nat \<Rightarrow> udp_context_lib \<Rightarrow> udp_lib \<Rightarrow> udp_lib" where
  "put_lctx x cx l = l\<lparr>ub_ctxs := (ub_ctxs l)(x := cx)\<rparr>"

definition lerr :: "int \<Rightarrow> udp_lib \<Rightarrow> ulib_fault + int \<times> udp_lib" where
  "lerr e l = Inr (-1, l\<lparr>ub_errno := e\<rparr>)"

section \<open>Looking up a socket\<close>

text \<open>The result is the error number or the index of the socket. \<open>ctx\<close> is \<^const>\<open>None\<close> for a null pointer.\<close>

definition ulookup_sock :: "udp_lib \<Rightarrow> nat option \<Rightarrow> int \<Rightarrow> int + nat" where
  "ulookup_sock l ctx sockfd =
     (if \<not> ub_up l then Inl ENOTCONN
      else if ctx = None then Inl EINVAL
      else if sockfd < 0 \<or> sockfd \<ge> int LIB_MAX_SOCKETS then Inl EBADF
      else let s = ub_socks l (nat sockfd)
           in if ul_fd s \<noteq> sockfd \<or> ul_ctx s \<noteq> ctx then Inl EBADF else Inr (nat sockfd))"

section \<open>Creating and binding\<close>

definition udp_socket_lib_new :: "int \<Rightarrow> nat \<Rightarrow> udp_socket_lib" where
  "udp_socket_lib_new fd x =
     \<lparr>ul_fd = fd, ul_sock_id = 0, ul_ctx = Some x, ul_tx_core = -1, ul_rx_core = -1, ul_rx_port = 0, ul_rx_ip = 0, ul_tx_port = 0,
      ul_tx_ip = 0, ul_rx_qid = 0, ul_rx_len = 0, ul_rx_avail = 0, ul_rx_head = 0, ul_rx_buf = 0, ul_tx_qid = 0, ul_tx_len = 0,
      ul_tx_avail = 0, ul_tx_head = 0, ul_tx_buf = 0, ul_bind_success = -1, ul_setopt_success = -1\<rparr>"

definition ulib_request :: "nat \<Rightarrow> udp_msg \<Rightarrow> u8 \<Rightarrow> udp_lib \<Rightarrow> int \<times> udp_lib" where
  "ulib_request x d ty l =
     (case queue_put (lx_app_slow_q (ub_ctxs l x)) d ty of (ret, q) \<Rightarrow> (ret, put_lctx x ((ub_ctxs l x)\<lparr>lx_app_slow_q := q\<rparr>) l))"

text \<open>\<^verbatim>\<open>udp_socket\<close> up to its wait for \<^const>\<open>UDP_WAIT_SOCKET\<close>: the socket and \<^verbatim>\<open>0\<close>, or \<^verbatim>\<open>-1\<close>.\<close>

definition udp_socket_req :: "nat option \<Rightarrow> udp_lib \<Rightarrow> int \<times> udp_lib" where
  "udp_socket_req ctx l =
     (case ctx of None \<Rightarrow> (-1, l)
      | Some x \<Rightarrow>
        let fd = ub_next_sockfd l; l1 = l\<lparr>ub_next_sockfd := fd + 1\<rparr>
        in if fd \<ge> int LIB_MAX_SOCKETS then (-1, l1)
           else let l2 = put_lsock (nat fd) (udp_socket_lib_new fd x) l1
                in (case ulib_request x (UM_new_sock_req (of_int fd)) UDP_QUEUE_NEW_SOCK_REQ l2 of (ret, l3) \<Rightarrow>
                      if ret \<noteq> 0 then (-1, l3) else (fd, l3)))"

text \<open>The address is the pair of \<^verbatim>\<open>sin_addr\<close> and \<^verbatim>\<open>sin_port\<close>, in network order.\<close>

definition udp_bind_req :: "nat option \<Rightarrow> int \<Rightarrow> u32 \<times> u16 \<Rightarrow> udp_lib \<Rightarrow> int \<times> udp_lib" where
  "udp_bind_req ctx sockfd addr l =
     (case ulookup_sock l ctx sockfd of Inl e \<Rightarrow> (-1, l\<lparr>ub_errno := e\<rparr>)
      | Inr k \<Rightarrow>
        let r = \<lparr>ubq_sock_id = ul_sock_id (ub_socks l k), ubq_local_port = f_beui16 (snd addr), ubq_local_ip = f_beui32 (fst addr),
                 ubq_opaque = of_nat k\<rparr>
        in (case ulib_request (the ctx) (UM_bind_req r) UDP_QUEUE_BIND_REQ l of (ret, l1) \<Rightarrow> if ret \<noteq> 0 then (-1, l1) else (0, l1)))"

definition udp_bind_done :: "int \<Rightarrow> u32 \<times> u16 \<Rightarrow> udp_lib \<Rightarrow> int \<times> udp_lib" where
  "udp_bind_done sockfd addr l =
     (let s = ub_socks l (nat sockfd)
      in if ul_bind_success s = 0 then (-1, l)
         else (0, put_lsock (nat sockfd) (s\<lparr>ul_tx_port := snd addr, ul_tx_ip := fst addr, ul_bind_success := -1\<rparr>) l))"

text \<open>The request names the socket by its descriptor.\<close>

definition udp_setsockopt_req :: "nat option \<Rightarrow> int \<Rightarrow> u8 \<Rightarrow> udp_lib \<Rightarrow> int \<times> udp_lib" where
  "udp_setsockopt_req ctx sockfd opt l =
     (case ulookup_sock l ctx sockfd of Inl e \<Rightarrow> (-1, l\<lparr>ub_errno := e\<rparr>)
      | Inr k \<Rightarrow>
        let r = \<lparr>usq_opt = opt, usq_sock_id = of_int sockfd, usq_opaque = of_nat k\<rparr>
        in (case ulib_request (the ctx) (UM_setopt_req r) UDP_QUEUE_SETOPT_REQ l of (ret, l1) \<Rightarrow> if ret \<noteq> 0 then (-1, l1) else (0, l1)))"

definition udp_setsockopt_done :: "int \<Rightarrow> udp_lib \<Rightarrow> int \<times> udp_lib" where
  "udp_setsockopt_done sockfd l =
     (let s = ub_socks l (nat sockfd)
      in if ul_setopt_success s = 0 then (-1, l) else (0, put_lsock (nat sockfd) (s\<lparr>ul_setopt_success := -1\<rparr>) l))"

section \<open>Sending\<close>

text \<open>The queue to the core of the socket; a core outside the table is a fault.\<close>

definition ulib_core_ok :: "udp_context_lib \<Rightarrow> int \<Rightarrow> bool" where
  "ulib_core_ok cx core \<longleftrightarrow> 0 \<le> core \<and> core < uint (lx_ncores cx)"

text \<open>\<open>buf\<close> and \<open>len\<close> are the caller's buffer, \<open>addr\<close> the destination in network order.\<close>

definition udp_sendto :: "nat option \<Rightarrow> int \<Rightarrow> bytes \<Rightarrow> csize \<Rightarrow> u32 \<times> u16 \<Rightarrow> udp_lib \<Rightarrow> ulib_fault + int \<times> udp_lib" where
  "udp_sendto ctx sockfd buf len addr l =
     (case ulookup_sock l ctx sockfd of Inl e \<Rightarrow> lerr e l
      | Inr k \<Rightarrow>
        let s = ub_socks l k; x = the ctx; cx = ub_ctxs l x
        in if len = 0 then Inr (0, l)
        else if len > ucast (ul_tx_len s - ul_tx_avail s) then lerr EAGAIN l
        else let n = (ucast len :: u32)
        in if \<not> ulib_core_ok cx (ul_tx_core s) then Inl NoSuchCore
        else let i = nat (ul_tx_core s); q = lx_app_fast_qs cx i
        in if queue_tail (fst q) (snd q) = None then lerr EAGAIN l
        else let tail = ring_wrap (ul_tx_len s) (ul_tx_head s + ul_tx_avail s);
                 shm = ring_store (ub_shm l) (unat (ul_tx_buf s)) (ul_tx_len s) tail buf 0 n;
                 bump = UB_cham_tx \<lparr>ubt_sock_id = ul_sock_id s, ubt_core = of_int (ul_tx_core s), ubt_tx_port = f_beui16 (snd addr),
                          ubt_tx_ip = f_beui32 (fst addr), ubt_tx_avail = n\<rparr>;
                 s1 = s\<lparr>ul_tx_avail := ul_tx_avail s + n, ul_tx_ip := f_beui32 (fst addr), ul_tx_port := f_beui16 (snd addr)\<rparr>
        in (case queue_put q bump UDP_QUEUE_BUMP_CHAM_TX of (ret, q') \<Rightarrow>
              if ret \<noteq> 0 then Inr (-1, (put_lsock k (s1\<lparr>ul_tx_avail := ul_tx_avail s\<rparr>) l)\<lparr>ub_shm := shm\<rparr>)
              else Inr (sint n, (put_lctx x (cx\<lparr>lx_app_fast_qs := (lx_app_fast_qs cx)(i := q')\<rparr>) (put_lsock k s1 l))\<lparr>ub_shm := shm\<rparr>)))"

section \<open>Receiving\<close>

text \<open>\<open>buf\<close> is the caller's buffer before the call; the result has the sender's address and the buffer.\<close>

definition udp_recvfrom ::
  "nat option \<Rightarrow> int \<Rightarrow> bytes \<Rightarrow> csize \<Rightarrow> udp_lib \<Rightarrow> ulib_fault + int \<times> (u32 \<times> u16) option \<times> bytes \<times> udp_lib" where
  "udp_recvfrom ctx sockfd buf len l =
     (case ulookup_sock l ctx sockfd of Inl e \<Rightarrow> Inr (-1, None, buf, l\<lparr>ub_errno := e\<rparr>)
      | Inr k \<Rightarrow>
        let s = ub_socks l k; x = the ctx; cx = ub_ctxs l x;
            n0 = (ucast len :: u32); n = (if n0 > ul_rx_avail s then ul_rx_avail s else n0)
        in if n = 0 then Inr (0, None, buf, l)
        else let addr = (t_beui32 (ul_rx_ip s), t_beui16 (ul_rx_port s))
        in if \<not> ulib_core_ok cx (ul_rx_core s) then Inl NoSuchCore
        else let i = nat (ul_rx_core s); q = lx_app_fast_qs cx i
        in if queue_tail (fst q) (snd q) = None then Inr (-1, Some addr, buf, l\<lparr>ub_errno := EAGAIN\<rparr>)
        else let buf1 = ring_load buf 0 (ub_shm l) (unat (ul_rx_buf s)) (ul_rx_len s) (ul_rx_head s) n;
                 bump = UB_cham_rx \<lparr>ubr_sock_id = ul_sock_id s, ubr_core = of_int (ul_rx_core s), ubr_rx_head = n\<rparr>;
                 s1 = s\<lparr>ul_rx_avail := ul_rx_avail s - n, ul_rx_head := ring_wrap (ul_rx_len s) (ul_rx_head s + n)\<rparr>;
                 l1 = put_lsock k s1 l
        in (case queue_put q bump UDP_QUEUE_BUMP_CHAM_RX of (ret, q') \<Rightarrow>
              if ret \<noteq> 0 then Inr (-1, Some addr, buf1, l1)
              else Inr (sint n, Some addr, buf1, put_lctx x (cx\<lparr>lx_app_fast_qs := (lx_app_fast_qs cx)(i := q')\<rparr>) l1)))"

section \<open>Messages from the fast path\<close>

definition ulib_tx_bump :: "udp_socket_lib \<Rightarrow> udp_queue_bump_app_tx \<Rightarrow> udp_socket_lib" where
  "ulib_tx_bump s b =
     s\<lparr>ul_tx_head := ring_wrap (ul_tx_len s) (ul_tx_head s + uat_tx_head b), ul_tx_avail := ul_tx_avail s - uat_tx_head b\<rparr>"

definition ulib_rx_bump :: "udp_socket_lib \<Rightarrow> udp_queue_bump_app_rx \<Rightarrow> udp_socket_lib" where
  "ulib_rx_bump s b =
     s\<lparr>ul_rx_core := uint (uar_core b), ul_rx_avail := ul_rx_avail s + uar_rx_avail b, ul_rx_port := uar_rx_port b, ul_rx_ip := uar_rx_ip b\<rparr>"

definition ulib_deref :: "u64 \<Rightarrow> nat option" where
  "ulib_deref p = (if unat p < LIB_MAX_SOCKETS then Some (unat p) else None)"

definition ulib_fast_msg :: "udp_bump qslot \<Rightarrow> udp_lib \<Rightarrow> ulib_fault + udp_lib" where
  "ulib_fast_msg m l =
     (case qs_data m of
        UB_app_tx b \<Rightarrow>
          if qs_type m \<noteq> UDP_QUEUE_BUMP_APP_TX then Inl UnknownMessage
          else (case ulib_deref (uat_opaque b) of None \<Rightarrow> Inl BadOpaque
                | Some k \<Rightarrow> Inr (put_lsock k (ulib_tx_bump (ub_socks l k) b) l))
      | UB_app_rx b \<Rightarrow>
          if qs_type m \<noteq> UDP_QUEUE_BUMP_APP_RX then Inl UnknownMessage
          else (case ulib_deref (uar_opaque b) of None \<Rightarrow> Inl BadOpaque
                | Some k \<Rightarrow> Inr (put_lsock k (ulib_rx_bump (ub_socks l k) b) l))
      | _ \<Rightarrow> Inl UnknownMessage)"

text \<open>
  One core's queue is read until it is empty. A ring has at most \<^verbatim>\<open>nelems\<close> messages, so that many
  rounds and the last test are enough when nobody adds to it meanwhile.
\<close>

fun ulib_poll_core :: "nat \<Rightarrow> nat \<Rightarrow> nat \<Rightarrow> nat \<times> udp_lib \<Rightarrow> ulib_fault + nat \<times> udp_lib" where
  "ulib_poll_core x i 0 (n, l) = Inr (n, l)"
| "ulib_poll_core x i (Suc fuel) (n, l) =
     (let q = lx_fast_app_qs (ub_ctxs l x) i
      in case queue_head (fst q) (snd q) of None \<Rightarrow> Inr (n, l)
         | Some pos \<Rightarrow>
             (case ulib_fast_msg (snd q pos) l of Inl f \<Rightarrow> Inl f
              | Inr l1 \<Rightarrow>
                (case queue_dequeue (fst q) (snd q) of (ret, q') \<Rightarrow>
                   ulib_poll_core x i fuel (n + 1,
                     put_lctx x ((ub_ctxs l1 x)\<lparr>lx_fast_app_qs := (lx_fast_app_qs (ub_ctxs l1 x))(i := q')\<rparr>) l1))))"

fun ulib_poll_cores :: "nat \<Rightarrow> nat list \<Rightarrow> nat \<times> udp_lib \<Rightarrow> ulib_fault + nat \<times> udp_lib" where
  "ulib_poll_cores x [] (n, l) = Inr (n, l)"
| "ulib_poll_cores x (i # is) (n, l) =
     (case ulib_poll_core x i (unat (dq_nelems (fst (lx_fast_app_qs (ub_ctxs l x) i))) + 1) (n, l) of Inl f \<Rightarrow> Inl f
      | Inr nl \<Rightarrow> ulib_poll_cores x is nl)"

definition udp_poll_fast :: "nat \<Rightarrow> udp_lib \<Rightarrow> ulib_fault + nat \<times> udp_lib" where
  "udp_poll_fast x l = ulib_poll_cores x [0..<unat (lx_ncores (ub_ctxs l x))] (0, l)"

section \<open>Messages from the slow path\<close>

abbreviation LIB_BATCH_SIZE :: nat where "LIB_BATCH_SIZE \<equiv> 16"

definition ulib_new_sock_res :: "udp_socket_lib \<Rightarrow> udp_queue_new_sock_res \<Rightarrow> udp_socket_lib" where
  "ulib_new_sock_res s r =
     s\<lparr>ul_tx_core := uint (unr_core r), ul_sock_id := unr_sock_id r, ul_rx_qid := unr_rx_qid r, ul_rx_len := unr_rx_len r,
       ul_rx_buf := unr_rx_off r, ul_tx_qid := unr_tx_qid r, ul_tx_len := unr_tx_len r, ul_tx_buf := unr_tx_off r\<rparr>"

definition ulib_slow_msg :: "udp_msg qslot \<Rightarrow> udp_lib \<Rightarrow> ulib_fault + udp_lib" where
  "ulib_slow_msg m l =
     (let on = (\<lambda>p f. case ulib_deref p of None \<Rightarrow> Inl BadOpaque | Some k \<Rightarrow> Inr (put_lsock k (f (ub_socks l k)) l))
      in case qs_data m of
           UM_new_sock_res r \<Rightarrow> if qs_type m = UDP_QUEUE_NEW_SOCK_RES then on (unr_opaque r) (\<lambda>s. ulib_new_sock_res s r) else Inl UnknownMessage
         | UM_bind_res r \<Rightarrow> if qs_type m = UDP_QUEUE_BIND_RES then on (udr_opaque r) (\<lambda>s. s\<lparr>ul_bind_success := uint (udr_success r)\<rparr>) else Inl UnknownMessage
         | UM_setopt_res r \<Rightarrow> if qs_type m = UDP_QUEUE_SETOPT_RES then on (udr_opaque r) (\<lambda>s. s\<lparr>ul_setopt_success := uint (udr_success r)\<rparr>) else Inl UnknownMessage
         | _ \<Rightarrow> Inl UnknownMessage)"

text \<open>The count is lost when the queue runs empty before the batch is full: the result is \<^verbatim>\<open>-1\<close>.\<close>

fun ulib_slow_loop :: "nat \<Rightarrow> nat \<Rightarrow> udp_lib \<Rightarrow> ulib_fault + int \<times> udp_lib" where
  "ulib_slow_loop x 0 l = Inr (int LIB_BATCH_SIZE, l)"
| "ulib_slow_loop x (Suc n) l =
     (let q = lx_slow_app_q (ub_ctxs l x)
      in case queue_head (fst q) (snd q) of None \<Rightarrow> Inr (-1, l)
         | Some pos \<Rightarrow>
             (case ulib_slow_msg (snd q pos) l of Inl f \<Rightarrow> Inl f
              | Inr l1 \<Rightarrow>
                (case queue_dequeue (fst q) (snd q) of (ret, q') \<Rightarrow>
                   ulib_slow_loop x n (put_lctx x ((ub_ctxs l1 x)\<lparr>lx_slow_app_q := q'\<rparr>) l1))))"

definition udp_poll_slow :: "nat \<Rightarrow> udp_lib \<Rightarrow> ulib_fault + int \<times> udp_lib" where
  "udp_poll_slow x l = ulib_slow_loop x LIB_BATCH_SIZE l"

section \<open>Waiting\<close>

definition udp_sock_wait_events :: "udp_socket_lib \<Rightarrow> u32" where
  "udp_sock_wait_events s =
     (if ul_fd s = SOCK_INACTIVE then 0
      else (if ul_rx_len s \<noteq> 0 then UDP_WAIT_SOCKET else 0) OR
           (if ul_rx_avail s > 0 then UDP_WAIT_IN else 0) OR
           (if ul_tx_len s \<noteq> 0 \<and> ul_tx_avail s < ul_tx_len s then UDP_WAIT_OUT else 0) OR
           (if ul_bind_success s \<noteq> -1 then UDP_WAIT_BIND else 0) OR
           (if ul_setopt_success s \<noteq> -1 then UDP_WAIT_SETOPT else 0))"

text \<open>The test of \<^verbatim>\<open>udp_wait_until\<close>.\<close>

definition udp_wait_over :: "udp_lib \<Rightarrow> nat \<Rightarrow> u32 \<Rightarrow> bool" where
  "udp_wait_over l k events \<longleftrightarrow> udp_sock_wait_events (ub_socks l k) AND events \<noteq> 0"

datatype udp_wait_poll_mode = UDP_WAIT_POLL_BOTH | UDP_WAIT_POLL_FAST | UDP_WAIT_POLL_SLOW

definition udp_wait_poll_ctx :: "nat \<Rightarrow> udp_wait_poll_mode \<Rightarrow> udp_lib \<Rightarrow> ulib_fault + udp_lib" where
  "udp_wait_poll_ctx x mode l =
     (case (if mode \<noteq> UDP_WAIT_POLL_FAST then udp_poll_slow x l else Inr (0, l)) of Inl f \<Rightarrow> Inl f
      | Inr (_, l1) \<Rightarrow>
          (case (if mode \<noteq> UDP_WAIT_POLL_SLOW then udp_poll_fast x l1 else Inr (0, l1)) of Inl f \<Rightarrow> Inl f
           | Inr (_, l2) \<Rightarrow> Inr l2))"

text \<open>The wait objects, by the operations shared with the TCP library.\<close>

definition udp_wait_new :: "bool \<Rightarrow> udp_lib \<Rightarrow> nat option \<Rightarrow> int + wait_obj" where
  "udp_wait_new malloc_ok l ctx = wait_new malloc_ok (ub_up l) ctx"

definition udp_wait_add :: "udp_lib \<Rightarrow> wait_obj option \<Rightarrow> int \<Rightarrow> u32 \<Rightarrow> u64 \<Rightarrow> int + wait_obj" where
  "udp_wait_add l wait sockfd events data =
     (case wait of None \<Rightarrow> Inl EINVAL | Some w \<Rightarrow> wait_add (ulookup_sock l (Some (wt_ctx w)) sockfd) w events data)"

definition udp_wait_mod :: "udp_lib \<Rightarrow> wait_obj option \<Rightarrow> int \<Rightarrow> u32 \<Rightarrow> u64 \<Rightarrow> int + wait_obj" where
  "udp_wait_mod l wait sockfd events data =
     (case wait of None \<Rightarrow> Inl EINVAL | Some w \<Rightarrow> wait_mod (ulookup_sock l (Some (wt_ctx w)) sockfd) w events data)"

definition udp_wait_del :: "wait_obj option \<Rightarrow> int \<Rightarrow> int + wait_obj" where
  "udp_wait_del wait sockfd = (case wait of None \<Rightarrow> Inl EINVAL | Some w \<Rightarrow> wait_del w sockfd)"

definition udp_wait_collect :: "udp_lib \<Rightarrow> wait_obj \<Rightarrow> nat \<Rightarrow> wait_event list" where
  "udp_wait_collect l w maxevents =
     wait_collect (\<lambda>k. ul_fd (ub_socks l k) = SOCK_INACTIVE) (\<lambda>k. udp_sock_wait_events (ub_socks l k)) w maxevents"

interpretation udpw: wait_client "ulookup_sock l" "\<lambda>k. ul_fd (ub_socks l k) = SOCK_INACTIVE" "\<lambda>k. udp_sock_wait_events (ub_socks l k)" for l
  by unfold_locales (auto simp: ulookup_sock_def udp_sock_wait_events_def Let_def split: if_splits)

text \<open>
  One round of \<^verbatim>\<open>udp_wait_impl\<close>: \<^verbatim>\<open>Inl\<close> the value it returns with the events it stores, or \<^verbatim>\<open>Inr\<close> the
  state after polling, from which the loop goes on.
\<close>

definition udp_wait_round ::
  "wait_obj option \<Rightarrow> int \<Rightarrow> u32 \<Rightarrow> udp_wait_poll_mode \<Rightarrow> udp_lib \<Rightarrow> (int \<times> wait_event list) + (ulib_fault + udp_lib)" where
  "udp_wait_round wait maxevents flags mode l =
     (case wait of None \<Rightarrow> Inl (-1, [])
      | Some w \<Rightarrow>
        if maxevents \<le> 0 then Inl (-1, [])
        else let evs = udp_wait_collect l w (nat maxevents)
        in if evs \<noteq> [] then Inl (int (length evs), evs)
        else if flags AND UDP_WAIT_NONBLOCK \<noteq> 0 then Inl (0, [])
        else Inr (udp_wait_poll_ctx (wt_ctx w) mode l))"

end
