(* ===== verification/Udp_Link.thy ===== *)
theory Udp_Link
  imports Udp_Lib
begin

text \<open>
  An application and a fast-path core around the same UDP sockets. The two sides keep copies of the
  ring positions of every socket and tell each other about progress by bumps in two queues. The
  link of one socket says how the copies differ by what is still in the queues, and which bytes the
  rings hold. All the code of both sides that touches the rings keeps it.
\<close>

section \<open>Bumps in flight\<close>

definition txb :: "u32 \<Rightarrow> udp_bump qslot list \<Rightarrow> udp_queue_bump_cham_tx list" where
  "txb sid ms = concat (map (\<lambda>m. case qs_data m of UB_cham_tx b \<Rightarrow> if ubt_sock_id b = sid then [b] else [] | _ \<Rightarrow> []) ms)"

definition rxb :: "u32 \<Rightarrow> udp_bump qslot list \<Rightarrow> udp_queue_bump_cham_rx list" where
  "rxb sid ms = concat (map (\<lambda>m. case qs_data m of UB_cham_rx b \<Rightarrow> if ubr_sock_id b = sid then [b] else [] | _ \<Rightarrow> []) ms)"

definition atb :: "u64 \<Rightarrow> udp_bump qslot list \<Rightarrow> udp_queue_bump_app_tx list" where
  "atb p ms = concat (map (\<lambda>m. case qs_data m of UB_app_tx b \<Rightarrow> if uat_opaque b = p then [b] else [] | _ \<Rightarrow> []) ms)"

definition arb :: "u64 \<Rightarrow> udp_bump qslot list \<Rightarrow> udp_queue_bump_app_rx list" where
  "arb p ms = concat (map (\<lambda>m. case qs_data m of UB_app_rx b \<Rightarrow> if uar_opaque b = p then [b] else [] | _ \<Rightarrow> []) ms)"

lemma bumps_simps [simp]:
  "txb sid [] = []" "rxb sid [] = []" "atb p [] = []" "arb p [] = []"
  "txb sid (xs @ ys) = txb sid xs @ txb sid ys" "rxb sid (xs @ ys) = rxb sid xs @ rxb sid ys"
  "atb p (xs @ ys) = atb p xs @ atb p ys" "arb p (xs @ ys) = arb p xs @ arb p ys"
  by (simp_all add: txb_def rxb_def atb_def arb_def)

lemma bumps_Cons [simp]:
  "txb sid (m # ms) = (case qs_data m of UB_cham_tx b \<Rightarrow> if ubt_sock_id b = sid then [b] else [] | _ \<Rightarrow> []) @ txb sid ms"
  "rxb sid (m # ms) = (case qs_data m of UB_cham_rx b \<Rightarrow> if ubr_sock_id b = sid then [b] else [] | _ \<Rightarrow> []) @ rxb sid ms"
  "atb p (m # ms) = (case qs_data m of UB_app_tx b \<Rightarrow> if uat_opaque b = p then [b] else [] | _ \<Rightarrow> []) @ atb p ms"
  "arb p (m # ms) = (case qs_data m of UB_app_rx b \<Rightarrow> if uar_opaque b = p then [b] else [] | _ \<Rightarrow> []) @ arb p ms"
  by (simp_all add: txb_def rxb_def atb_def arb_def)

abbreviation tx_sum :: "udp_queue_bump_cham_tx list \<Rightarrow> nat" where "tx_sum bs \<equiv> sum_list (map (\<lambda>b. unat (ubt_tx_avail b)) bs)"
abbreviation rx_sum :: "udp_queue_bump_cham_rx list \<Rightarrow> nat" where "rx_sum bs \<equiv> sum_list (map (\<lambda>b. unat (ubr_rx_head b)) bs)"
abbreviation at_sum :: "udp_queue_bump_app_tx list \<Rightarrow> nat" where "at_sum bs \<equiv> sum_list (map (\<lambda>b. unat (uat_tx_head b)) bs)"
abbreviation ar_sum :: "udp_queue_bump_app_rx list \<Rightarrow> nat" where "ar_sum bs \<equiv> sum_list (map (\<lambda>b. unat (uar_rx_avail b)) bs)"

section \<open>The link of one socket\<close>

text \<open>A datagram: its bytes, its destination address and port.\<close>

type_synonym udp_dgram = "u8 list \<times> u32 \<times> u16"

text \<open>The datagrams that wait in the transmit ring from byte \<open>p\<close> on, one for each bump.\<close>

fun datagrams :: "(nat \<Rightarrow> u8) \<Rightarrow> nat \<Rightarrow> udp_queue_bump_cham_tx list \<Rightarrow> udp_dgram list" where
  "datagrams f p [] = []"
| "datagrams f p (b # bs) =
     (map f [p..<p + unat (ubt_tx_avail b)], ubt_tx_ip b, ubt_tx_port b) # datagrams f (p + unat (ubt_tx_avail b)) bs"

definition tx_link ::
  "bytes \<Rightarrow> udp_socket_lib \<Rightarrow> udp_sock \<Rightarrow> udp_queue_bump_cham_tx list \<Rightarrow> udp_queue_bump_app_tx list \<Rightarrow> udp_dgram list \<Rightarrow> udp_dgram list \<Rightarrow> bool" where
  "tx_link shm ls fs cb ab accepted sent \<longleftrightarrow>
     utx_ok fs \<and> us_tx_avail fs = 0 \<and> ul_tx_len ls = us_tx_len fs \<and> ul_tx_buf ls = us_tx_off fs \<and>
     unat (ul_tx_head ls) < unat (us_tx_len fs) \<and> unat (ul_tx_avail ls) = at_sum ab + tx_sum cb \<and>
     unat (ul_tx_avail ls) \<le> unat (us_tx_len fs) \<and>
     (unat (ul_tx_head ls) + at_sum ab) mod unat (us_tx_len fs) = unat (us_tx_head fs) \<and>
     (\<forall>b \<in> set cb. unat (ubt_tx_avail b) \<le> 1472 \<and> ubt_core b = 0) \<and>
     accepted = sent @ datagrams (utx_byte shm fs) 0 cb"

definition rx_link ::
  "bytes \<Rightarrow> udp_socket_lib \<Rightarrow> udp_sock \<Rightarrow> udp_queue_bump_cham_rx list \<Rightarrow> udp_queue_bump_app_rx list \<Rightarrow> u8 list \<Rightarrow> u8 list \<Rightarrow> bool" where
  "rx_link shm ls fs cb ab arrived read \<longleftrightarrow>
     urx_ok fs \<and> ul_rx_len ls = us_rx_len fs \<and> ul_rx_buf ls = us_rx_off fs \<and>
     unat (ul_rx_head ls) < unat (us_rx_len fs) \<and>
     unat (us_rx_avail fs) = rx_sum cb + unat (ul_rx_avail ls) + ar_sum ab \<and>
     (unat (us_rx_head fs) + rx_sum cb) mod unat (us_rx_len fs) = unat (ul_rx_head ls) \<and>
     (\<forall>b \<in> set cb. ubr_core b = 0) \<and> (\<forall>b \<in> set ab. uar_core b = 0) \<and> (ul_rx_core ls = 0 \<or> ul_rx_avail ls = 0) \<and>
     arrived = read @ map (ring_byte shm (unat (ul_rx_buf ls)) (ul_rx_len ls) (ul_rx_head ls)) [0..<unat (ul_rx_avail ls) + ar_sum ab]"

lemma datagrams_cong:
  assumes "\<And>k. k < p + tx_sum bs \<Longrightarrow> f k = g k"
  shows "datagrams f p bs = datagrams g p bs"
  using assms by (induction bs arbitrary: p) (auto simp: add.assoc)

lemma datagrams_shift: "datagrams f (d + p) bs = datagrams (\<lambda>k. f (d + k)) p bs"
proof (induction bs arbitrary: p)
  case (Cons b bs)
  have "map f [d + p..<d + p + n] = map (\<lambda>k. f (d + k)) [p..<p + n]" for n
    by (rule nth_equalityI) (simp_all add: add.assoc)
  then show ?case using Cons [of "p + unat (ubt_tx_avail b)"] by (simp add: add.assoc)
qed simp

lemma datagrams_snoc:
  "datagrams f p (bs @ [b]) = datagrams f p bs @
     [(map f [p + tx_sum bs..<p + tx_sum bs + unat (ubt_tx_avail b)], ubt_tx_ip b, ubt_tx_port b)]"
  by (induction bs arbitrary: p) (simp_all add: add.assoc)

text \<open>Only the waiting bytes matter.\<close>

lemma tx_link_shm:
  assumes "tx_link shm ls fs cb ab acc sent" "\<And>k. k < tx_sum cb \<Longrightarrow> utx_byte shm' fs k = utx_byte shm fs k"
  shows "tx_link shm' ls fs cb ab acc sent"
proof -
  have "datagrams (utx_byte shm' fs) 0 cb = datagrams (utx_byte shm fs) 0 cb" by (rule datagrams_cong) (simp add: assms(2))
  then show ?thesis using assms(1) by (simp add: tx_link_def)
qed

lemma rx_link_shm:
  assumes "rx_link shm ls fs cb ab arr read"
    "\<And>k. ring_byte shm' (unat (ul_rx_buf ls)) (ul_rx_len ls) (ul_rx_head ls) k = ring_byte shm (unat (ul_rx_buf ls)) (ul_rx_len ls) (ul_rx_head ls) k"
  shows "rx_link shm' ls fs cb ab arr read"
proof -
  have "ring_byte shm' (unat (ul_rx_buf ls)) (ul_rx_len ls) (ul_rx_head ls) = ring_byte shm (unat (ul_rx_buf ls)) (ul_rx_len ls) (ul_rx_head ls)"
    by (rule ext) (rule assms(2))
  then show ?thesis using assms(1) unfolding rx_link_def by metis
qed

subsection \<open>Transmission\<close>

lemma tx_link_send:
  assumes link: "tx_link shm ls fs cb ab acc sent" and n: "unat n \<le> unat (ul_tx_len ls) - unat (ul_tx_avail ls)" "unat n \<le> 1472"
    and ls': "ul_tx_avail ls' = ul_tx_avail ls + n" "ul_tx_len ls' = ul_tx_len ls" "ul_tx_buf ls' = ul_tx_buf ls" "ul_tx_head ls' = ul_tx_head ls"
    and b: "ubt_tx_avail b = n" "ubt_tx_ip b = ip" "ubt_tx_port b = port" "ubt_core b = 0"
    and shm': "shm' = ring_store shm (unat (ul_tx_buf ls)) (ul_tx_len ls) (ring_wrap (ul_tx_len ls) (ul_tx_head ls + ul_tx_avail ls)) buf 0 n"
  shows "tx_link shm' ls' fs (cb @ [b]) ab (acc @ [(map buf [0..<unat n], ip, port)]) sent"
proof -
  let ?L = "unat (us_tx_len fs)" and ?t = "ring_wrap (ul_tx_len ls) (ul_tx_head ls + ul_tx_avail ls)"
  note l = link [unfolded tx_link_def utx_ok_def]
  have av: "unat (ul_tx_avail ls) + unat n \<le> ?L" using n l by auto
  have sum: "unat (ul_tx_avail ls + n) = unat (ul_tx_avail ls) + unat n" using av l by (intro unat_add_small_iff) simp_all
  have "unat ?t = (unat (ul_tx_head ls) + unat (ul_tx_avail ls)) mod ?L"
    using wrap_pos(1) [of "ul_tx_head ls" "ul_tx_len ls" "ul_tx_avail ls"] l by simp
  also have "\<dots> = (unat (us_tx_head fs) + tx_sum cb) mod ?L" using l by (metis (no_types, lifting) add.assoc mod_add_left_eq)
  finally have t: "unat ?t = (unat (us_tx_head fs) + tx_sum cb) mod unat (us_tx_len fs)" .
  have byte: "utx_byte shm' fs j = (if j < tx_sum cb then utx_byte shm fs j else buf (j - tx_sum cb))" if "j < tx_sum cb + unat n" for j
    using ring_append_at [OF t _ _ _ that, of shm "unat (us_tx_off fs)" buf 0] l av
    by (simp add: utx_byte_def shm')
  have "datagrams (utx_byte shm' fs) 0 cb = datagrams (utx_byte shm fs) 0 cb" by (rule datagrams_cong) (simp add: byte)
  moreover have "map (utx_byte shm' fs) [tx_sum cb..<tx_sum cb + unat n] = map buf [0..<unat n]"
    by (rule nth_equalityI) (simp_all add: byte)
  ultimately have "datagrams (utx_byte shm' fs) 0 (cb @ [b]) = datagrams (utx_byte shm fs) 0 cb @ [(map buf [0..<unat n], ip, port)]"
    by (simp add: datagrams_snoc b)
  then show ?thesis using l sum av n(2) b ls' by (simp add: tx_link_def utx_ok_def)
qed

lemma tx_link_transmit:
  assumes link: "tx_link shm ls fs (b # cb) ab acc sent" and n: "unat n = unat (ubt_tx_avail b)" "ucast n = ubt_tx_avail b"
  shows "tx_link shm ls (udp_sock_tx fs (ubt_tx_avail b) n) cb (ab @ [\<lparr>uat_opaque = p, uat_tx_head = ucast n\<rparr>]) acc
    (sent @ [(map (utx_byte shm fs) [0..<unat n], ubt_tx_ip b, ubt_tx_port b)])"
proof -
  let ?L = "unat (us_tx_len fs)" and ?a = "ubt_tx_avail b"
  note l = link [unfolded tx_link_def utx_ok_def]
  have a: "unat ?a \<le> ?L" using l by simp
  have h: "unat (us_tx_head fs) < ?L" "?L < 2 ^ 31" using l by simp_all
  note w = wrap_pos [OF h(1) a h(2)]
  have fs': "udp_sock_tx fs ?a n = fs\<lparr>us_tx_head := ring_wrap (us_tx_len fs) (us_tx_head fs + ?a), us_tx_avail := 0\<rparr>"
    using l n by (simp add: udp_sock_tx_def)
  have "(unat (ul_tx_head ls) + (at_sum ab + unat ?a)) mod ?L = (unat (us_tx_head fs) + unat ?a) mod ?L"
    using l by (metis (no_types, lifting) add.assoc mod_add_left_eq)
  then have hd: "(unat (ul_tx_head ls) + at_sum (ab @ [\<lparr>uat_opaque = p, uat_tx_head = ucast n\<rparr>])) mod ?L = unat (ring_wrap (us_tx_len fs) (us_tx_head fs + ?a))"
    using w(1) n by simp
  have shift: "utx_byte shm (udp_sock_tx fs ?a n) k = utx_byte shm fs (unat ?a + k)" for k
    using ring_byte_advance [OF h(1) a h(2), of shm "unat (us_tx_off fs)" k] by (simp add: utx_byte_def fs')
  have d: "datagrams (utx_byte shm fs) (unat ?a) cb = datagrams (utx_byte shm (udp_sock_tx fs ?a n)) 0 cb"
    using datagrams_shift [of "utx_byte shm fs" "unat ?a" 0 cb] by (simp add: shift [abs_def, symmetric] fun_eq_iff)
  show ?thesis unfolding tx_link_def utx_ok_def using l w hd d n by (simp add: fs' add.assoc)
qed

lemma tx_link_ack:
  assumes link: "tx_link shm ls fs cb (a # ab) acc sent"
  shows "tx_link shm (ulib_tx_bump ls a) fs cb ab acc sent"
proof -
  let ?L = "unat (us_tx_len fs)" and ?n = "uat_tx_head a"
  note l = link [unfolded tx_link_def utx_ok_def]
  have n: "unat ?n \<le> unat (ul_tx_avail ls)" "unat ?n \<le> ?L" using l by simp_all
  have h: "unat (ul_tx_head ls) < ?L" "?L < 2 ^ 31" using l by simp_all
  note w = wrap_pos [OF h(1) n(2) h(2)]
  have "unat (ul_tx_avail ls - ?n) = unat (ul_tx_avail ls) - unat ?n" using n(1) by (simp add: unat_sub word_le_nat_alt)
  moreover have "(unat (ring_wrap (us_tx_len fs) (ul_tx_head ls + ?n)) + at_sum ab) mod ?L = unat (us_tx_head fs)"
    using w(1) l by (simp add: mod_add_left_eq add.assoc)
  ultimately show ?thesis using l w by (simp add: tx_link_def utx_ok_def ulib_tx_bump_def)
qed

subsection \<open>Reception\<close>

lemma rx_link_arrive:
  assumes link: "rx_link shm ls fs cb ab arr read" and n: "unat n \<le> unat (us_rx_len fs) - unat (us_rx_avail fs)"
    and fs': "us_rx_avail fs' = us_rx_avail fs + n" "us_rx_len fs' = us_rx_len fs" "us_rx_off fs' = us_rx_off fs" "us_rx_head fs' = us_rx_head fs"
    and b: "uar_rx_avail b = n" "uar_core b = 0"
    and shm': "shm' = ring_store shm (unat (us_rx_off fs)) (us_rx_len fs) (ring_wrap (us_rx_len fs) (us_rx_head fs + us_rx_avail fs)) pkt p n"
  shows "rx_link shm' ls fs' cb (ab @ [b]) (arr @ map (\<lambda>k. pkt (p + k)) [0..<unat n]) read"
proof -
  let ?L = "unat (us_rx_len fs)" and ?t = "ring_wrap (us_rx_len fs) (us_rx_head fs + us_rx_avail fs)"
  let ?a = "unat (ul_rx_avail ls) + ar_sum ab" and ?rb = "\<lambda>m. ring_byte m (unat (ul_rx_buf ls)) (ul_rx_len ls) (ul_rx_head ls)"
  note l = link [unfolded rx_link_def urx_ok_def]
  have av: "unat (us_rx_avail fs) + unat n \<le> ?L" using n l by auto
  have sum: "unat (us_rx_avail fs + n) = unat (us_rx_avail fs) + unat n" using av l by (intro unat_add_small_iff) simp_all
  have "unat ?t = (unat (us_rx_head fs) + unat (us_rx_avail fs)) mod ?L"
    using wrap_pos(1) [of "us_rx_head fs" "us_rx_len fs" "us_rx_avail fs"] l by simp
  also have "\<dots> = (unat (ul_rx_head ls) + ?a) mod ?L" using l by (metis (no_types, lifting) add.assoc mod_add_left_eq)
  finally have t: "unat ?t = (unat (ul_rx_head ls) + ?a) mod unat (us_rx_len fs)" .
  have byte: "?rb shm' j = (if j < ?a then ?rb shm j else pkt (p + (j - ?a)))" if "j < ?a + unat n" for j
    using ring_append_at [OF t _ _ _ that, of shm "unat (us_rx_off fs)" pkt p] l av by (simp add: shm')
  have "map (?rb shm') [0..<?a + unat n] = map (?rb shm) [0..<?a] @ map (\<lambda>k. pkt (p + k)) [0..<unat n]"
    by (rule nth_equalityI) (auto simp: byte nth_append)
  then show ?thesis using l sum av b fs' by (simp add: rx_link_def urx_ok_def add.assoc)
qed

lemma rx_link_announce:
  assumes link: "rx_link shm ls fs cb (a # ab) arr read"
  shows "rx_link shm (ulib_rx_bump ls a) fs cb ab arr read"
proof -
  note l = link [unfolded rx_link_def urx_ok_def]
  have "unat (ul_rx_avail ls + uar_rx_avail a) = unat (ul_rx_avail ls) + unat (uar_rx_avail a)"
    using l by (intro unat_add_small_iff) simp_all
  then show ?thesis using l by (simp add: rx_link_def urx_ok_def ulib_rx_bump_def add.assoc)
qed

lemma rx_link_read:
  assumes link: "rx_link shm ls fs cb ab arr read" and n: "unat n \<le> unat (ul_rx_avail ls)"
    and ls': "ul_rx_avail ls' = ul_rx_avail ls - n" "ul_rx_head ls' = ring_wrap (ul_rx_len ls) (ul_rx_head ls + n)"
      "ul_rx_len ls' = ul_rx_len ls" "ul_rx_buf ls' = ul_rx_buf ls" "ul_rx_core ls' = ul_rx_core ls"
    and b: "ubr_rx_head b = n" "ubr_core b = 0"
  shows "rx_link shm ls' fs (cb @ [b]) ab arr
    (read @ map (ring_byte shm (unat (ul_rx_buf ls)) (ul_rx_len ls) (ul_rx_head ls)) [0..<unat n])"
proof -
  let ?L = "unat (us_rx_len fs)" and ?rb = "ring_byte shm (unat (ul_rx_buf ls)) (ul_rx_len ls)"
  note l = link [unfolded rx_link_def urx_ok_def]
  have h: "unat (ul_rx_head ls) < ?L" "unat n \<le> ?L" "?L < 2 ^ 31" using l n by simp_all
  have len: "ul_rx_len ls = us_rx_len fs" using l by simp
  note w = wrap_pos [OF h, folded len]
  have sub: "unat (ul_rx_avail ls - n) = unat (ul_rx_avail ls) - unat n" using n by (simp add: unat_sub word_le_nat_alt)
  have z: "ul_rx_core ls = 0 \<or> ul_rx_avail ls - n = 0" using l n by (auto simp: word_unat_eq_iff sub)
  have adv: "?rb (ring_wrap (ul_rx_len ls) (ul_rx_head ls + n)) k = ?rb (ul_rx_head ls) (unat n + k)" for k
    using ring_byte_advance [OF h, of shm "unat (ul_rx_buf ls)" k] len by simp
  have split: "map (?rb (ul_rx_head ls)) [0..<unat (ul_rx_avail ls) + ar_sum ab] =
      map (?rb (ul_rx_head ls)) [0..<unat n] @ map (?rb (ring_wrap (ul_rx_len ls) (ul_rx_head ls + n))) [0..<unat (ul_rx_avail ls) - unat n + ar_sum ab]"
    by (rule nth_equalityI) (use n in \<open>auto simp: nth_append adv\<close>)
  have "(unat (us_rx_head fs) + (rx_sum cb + unat n)) mod ?L = unat (ring_wrap (ul_rx_len ls) (ul_rx_head ls + n))"
    using l w(1) by (metis (no_types, lifting) add.assoc mod_add_left_eq)
  then show ?thesis unfolding rx_link_def urx_ok_def using l ls' b n sub z split w(2) by (simp add: add.assoc)
qed

lemma rx_link_release:
  assumes link: "rx_link shm ls fs (b # cb) ab arr read"
  shows "rx_link shm ls (udp_sock_rx_bump fs (ubr_rx_head b)) cb ab arr read"
proof -
  let ?L = "unat (us_rx_len fs)" and ?n = "ubr_rx_head b"
  note l = link [unfolded rx_link_def urx_ok_def]
  have n: "unat ?n \<le> unat (us_rx_avail fs)" "unat ?n \<le> ?L" using l by simp_all
  have h: "unat (us_rx_head fs) < ?L" "?L < 2 ^ 31" using l by simp_all
  note w = wrap_pos [OF h(1) n(2) h(2)]
  have sub: "unat (us_rx_avail fs - ?n) = unat (us_rx_avail fs) - unat ?n" using n(1) by (simp add: unat_sub word_le_nat_alt)
  have "(unat (ring_wrap (us_rx_len fs) (us_rx_head fs + ?n)) + rx_sum cb) mod ?L = unat (ul_rx_head ls)"
    using w(1) l by (simp add: mod_add_left_eq add.assoc)
  then show ?thesis using l w sub by (simp add: rx_link_def urx_ok_def udp_sock_rx_bump_def)
qed

subsection \<open>What the two directions depend on\<close>

lemma tx_link_fields:
  assumes "tx_link shm ls fs cb ab acc sent"
    and "ul_tx_len ls' = ul_tx_len ls" "ul_tx_buf ls' = ul_tx_buf ls" "ul_tx_head ls' = ul_tx_head ls" "ul_tx_avail ls' = ul_tx_avail ls"
    and "us_tx_len fs' = us_tx_len fs" "us_tx_off fs' = us_tx_off fs" "us_tx_head fs' = us_tx_head fs" "us_tx_avail fs' = us_tx_avail fs"
  shows "tx_link shm ls' fs' cb ab acc sent"
proof -
  have "utx_byte shm fs' = utx_byte shm fs" using assms(6-8) by (simp add: utx_byte_def)
  then show ?thesis using assms by (simp add: tx_link_def utx_ok_def)
qed

lemma rx_link_fields:
  assumes "rx_link shm ls fs cb ab arr read"
    and "ul_rx_len ls' = ul_rx_len ls" "ul_rx_buf ls' = ul_rx_buf ls" "ul_rx_head ls' = ul_rx_head ls" "ul_rx_avail ls' = ul_rx_avail ls"
      "ul_rx_core ls' = ul_rx_core ls"
    and "us_rx_len fs' = us_rx_len fs" "us_rx_off fs' = us_rx_off fs" "us_rx_head fs' = us_rx_head fs" "us_rx_avail fs' = us_rx_avail fs"
  shows "rx_link shm ls' fs' cb ab arr read"
  using assms by (simp add: rx_link_def urx_ok_def)

section \<open>All sockets of an application\<close>

text \<open>What went through one socket: accepted and transmitted datagrams, arrived and read bytes.\<close>

record usock_hist =
  uh_acc :: "udp_dgram list"
  uh_sent :: "udp_dgram list"
  uh_arr :: "u8 list"
  uh_read :: "u8 list"

definition ring_apart :: "u64 \<Rightarrow> u32 \<Rightarrow> u64 \<Rightarrow> u32 \<Rightarrow> bool" where
  "ring_apart a la b lb \<longleftrightarrow> unat a + unat la \<le> unat b \<or> unat b + unat lb \<le> unat a"

text \<open>No two rings of the \<open>N\<close> sockets \<open>F\<close> overlap.\<close>

definition rings_apart :: "(u32 \<Rightarrow> udp_sock) \<Rightarrow> u32 \<Rightarrow> bool" where
  "rings_apart F N \<longleftrightarrow>
     (\<forall>s < N. \<forall>t < N. ring_apart (us_rx_off (F s)) (us_rx_len (F s)) (us_tx_off (F t)) (us_tx_len (F t)) \<and>
        (s \<noteq> t \<longrightarrow> ring_apart (us_rx_off (F s)) (us_rx_len (F s)) (us_rx_off (F t)) (us_rx_len (F t)) \<and>
                  ring_apart (us_tx_off (F s)) (us_tx_len (F s)) (us_tx_off (F t)) (us_tx_len (F t))))"

definition cmsg_ok :: "u32 \<Rightarrow> udp_bump qslot \<Rightarrow> bool" where
  "cmsg_ok N m \<longleftrightarrow> (case qs_data m of
       UB_cham_tx b \<Rightarrow> qs_type m = UDP_QUEUE_BUMP_CHAM_TX \<and> ubt_sock_id b < N
     | UB_cham_rx b \<Rightarrow> qs_type m = UDP_QUEUE_BUMP_CHAM_RX \<and> ubr_sock_id b < N
     | _ \<Rightarrow> False)"

definition amsg_ok :: "(u32 \<Rightarrow> udp_sock) \<Rightarrow> u32 \<Rightarrow> udp_bump qslot \<Rightarrow> bool" where
  "amsg_ok F N m \<longleftrightarrow> (case qs_data m of
       UB_app_tx b \<Rightarrow> qs_type m = UDP_QUEUE_BUMP_APP_TX \<and> (\<exists>sid < N. uat_opaque b = us_opaque (F sid))
     | UB_app_rx b \<Rightarrow> qs_type m = UDP_QUEUE_BUMP_APP_RX \<and> (\<exists>sid < N. uar_opaque b = us_opaque (F sid))
     | _ \<Rightarrow> False)"

text \<open>The library's socket for a socket of the fast path.\<close>

abbreviation lsock :: "(nat \<Rightarrow> udp_socket_lib) \<Rightarrow> (u32 \<Rightarrow> udp_sock) \<Rightarrow> u32 \<Rightarrow> udp_socket_lib" where
  "lsock S F sid \<equiv> S (unat (us_opaque (F sid)))"

definition sock_linked ::
  "(nat \<Rightarrow> udp_socket_lib) \<Rightarrow> (u32 \<Rightarrow> udp_sock) \<Rightarrow> u16 \<Rightarrow> udp_bump qslot list \<Rightarrow> udp_bump qslot list \<Rightarrow> bytes \<Rightarrow> usock_hist \<Rightarrow> u32 \<Rightarrow> bool" where
  "sock_linked S F qid C A shm h sid \<longleftrightarrow>
     unat (us_opaque (F sid)) < LIB_MAX_SOCKETS \<and> ul_sock_id (lsock S F sid) = sid \<and> ul_tx_core (lsock S F sid) = 0 \<and>
     us_app_bump_qids (F sid) ! 0 = qid \<and> us_local_port (F sid) \<noteq> 0 \<and>
     tx_link shm (lsock S F sid) (F sid) (txb sid C) (atb (us_opaque (F sid)) A) (uh_acc h) (uh_sent h) \<and>
     rx_link shm (lsock S F sid) (F sid) (rxb sid C) (arb (us_opaque (F sid)) A) (uh_arr h) (uh_read h)"

definition linked ::
  "(nat \<Rightarrow> udp_socket_lib) \<Rightarrow> (u32 \<Rightarrow> udp_sock) \<Rightarrow> u32 \<Rightarrow> u16 \<Rightarrow> udp_bump qslot list \<Rightarrow> udp_bump qslot list \<Rightarrow> bytes \<Rightarrow> (u32 \<Rightarrow> usock_hist) \<Rightarrow> bool" where
  "linked S F N qid C A shm H \<longleftrightarrow>
     (\<forall>m \<in> set C. cmsg_ok N m) \<and> (\<forall>m \<in> set A. amsg_ok F N m) \<and> rings_apart F N \<and>
     (\<forall>sid < N. sock_linked S F qid C A shm (H sid) sid)"

lemma rings_apartD:
  assumes "rings_apart F N" "s < N" "t < N"
  shows "ring_apart (us_rx_off (F s)) (us_rx_len (F s)) (us_tx_off (F t)) (us_tx_len (F t))"
    and "s \<noteq> t \<Longrightarrow> ring_apart (us_rx_off (F s)) (us_rx_len (F s)) (us_rx_off (F t)) (us_rx_len (F t))"
    and "s \<noteq> t \<Longrightarrow> ring_apart (us_tx_off (F s)) (us_tx_len (F s)) (us_tx_off (F t)) (us_tx_len (F t))"
  using assms unfolding rings_apart_def by blast+

lemma linked_sock: "linked S F N qid C A shm H \<Longrightarrow> sid < N \<Longrightarrow> sock_linked S F qid C A shm (H sid) sid"
  by (simp add: linked_def)

lemma linked_inj:
  assumes "linked S F N qid C A shm H" "s < N" "t < N" "us_opaque (F s) = us_opaque (F t)"
  shows "s = t"
proof -
  have "ul_sock_id (lsock S F s) = s" "ul_sock_id (lsock S F t) = t" 
    using linked_sock [OF assms(1,2)] linked_sock [OF assms(1,3)] unfolding sock_linked_def by blast+
  then show ?thesis using assms(4) by metis
qed

text \<open>
  A step on socket \<open>sid\<close> keeps the link when it keeps the link of \<open>sid\<close>, leaves the library's other
  sockets and the fast path's other sockets alone, adds or takes only messages of \<open>sid\<close>, and writes
  only into the rings of \<open>sid\<close>.
\<close>

lemma linked_step:
  assumes lk: "linked S F N qid C A shm H" and sid: "sid < N"
    and S': "\<And>k. k \<noteq> unat (us_opaque (F sid)) \<Longrightarrow> S' k = S k"
    and F': "\<And>t. t \<noteq> sid \<Longrightarrow> F' t = F t" "us_opaque (F' sid) = us_opaque (F sid)" "us_rx_off (F' sid) = us_rx_off (F sid)"
      "us_rx_len (F' sid) = us_rx_len (F sid)" "us_tx_off (F' sid) = us_tx_off (F sid)" "us_tx_len (F' sid) = us_tx_len (F sid)"
    and C': "\<And>t. t \<noteq> sid \<Longrightarrow> txb t C' = txb t C \<and> rxb t C' = rxb t C"
    and A': "\<And>p. p \<noteq> us_opaque (F sid) \<Longrightarrow> atb p A' = atb p A \<and> arb p A' = arb p A"
    and ok: "\<forall>m \<in> set C'. cmsg_ok N m" "\<forall>m \<in> set A'. amsg_ok F N m"
    and shm: "\<And>i. \<not> (unat (us_rx_off (F sid)) \<le> i \<and> i < unat (us_rx_off (F sid)) + unat (us_rx_len (F sid))) \<Longrightarrow>
       \<not> (unat (us_tx_off (F sid)) \<le> i \<and> i < unat (us_tx_off (F sid)) + unat (us_tx_len (F sid))) \<Longrightarrow> shm' i = shm i"
    and own: "sock_linked S' F' qid C' A' shm' h' sid"
  shows "linked S' F' N qid C' A' shm' (H(sid := h'))"
proof -
  have other: "sock_linked S' F' qid C' A' shm' (H t) t" if t: "t < N" "t \<noteq> sid" for t
  proof -
    have ap: "rings_apart F N" using lk by (simp add: linked_def)
    have l: "sock_linked S F qid C A shm (H t) t" using linked_sock [OF lk t(1)] .
    have opq: "us_opaque (F t) \<noteq> us_opaque (F sid)" using linked_inj [OF lk t(1) sid] t(2) by blast
    then have ls: "lsock S' F' t = lsock S F t" using S' F'(1) [OF t(2)] by (simp add: word_unat_eq_iff)
    have tx0: "0 < unat (us_tx_len (F t))" "0 < unat (us_rx_len (F t))"
      "ul_rx_buf (lsock S F t) = us_rx_off (F t)" "ul_rx_len (lsock S F t) = us_rx_len (F t)"
      using l by (simp_all add: sock_linked_def tx_link_def rx_link_def utx_ok_def urx_ok_def)
    note apart = rings_apartD [OF ap sid t(1)] rings_apartD [OF ap t(1) sid]
    have tx: "utx_byte shm' (F t) k = utx_byte shm (F t) k" for k
      unfolding utx_byte_def using apart t(2) tx0(1) by (intro ring_byte_cong shm) (auto simp: ring_apart_def)
    have rx: "ring_byte shm' (unat (us_rx_off (F t))) (us_rx_len (F t)) hd k = ring_byte shm (unat (us_rx_off (F t))) (us_rx_len (F t)) hd k" for hd k
      using apart t(2) tx0(2) by (intro ring_byte_cong shm) (auto simp: ring_apart_def)
    show ?thesis using l ls F'(1) [OF t(2)] C' [OF t(2)] A' [OF opq] tx rx tx0
      by (auto simp: sock_linked_def intro: tx_link_shm rx_link_shm)
  qed
  moreover have "us_rx_off (F' t) = us_rx_off (F t) \<and> us_rx_len (F' t) = us_rx_len (F t) \<and>
      us_tx_off (F' t) = us_tx_off (F t) \<and> us_tx_len (F' t) = us_tx_len (F t)" for t using F' by (cases "t = sid") auto
  then have "rings_apart F' N" using lk by (simp add: linked_def rings_apart_def)
  moreover have "us_opaque (F' t) = us_opaque (F t)" for t using F'(1,2) by (cases "t = sid") auto
  then have "\<forall>m \<in> set A'. amsg_ok F' N m" using ok(2) by (auto simp: amsg_ok_def split: udp_bump.splits)
  ultimately show ?thesis using ok(1) own unfolding linked_def by (metis fun_upd_apply)
qed

section \<open>The steps that keep the link\<close>

lemma sock_linkedD:
  assumes "sock_linked S F qid C A shm h sid"
  shows "unat (us_opaque (F sid)) < LIB_MAX_SOCKETS" "ul_sock_id (lsock S F sid) = sid" "ul_tx_core (lsock S F sid) = 0"
    "us_app_bump_qids (F sid) ! 0 = qid" "us_local_port (F sid) \<noteq> 0"
    "tx_link shm (lsock S F sid) (F sid) (txb sid C) (atb (us_opaque (F sid)) A) (uh_acc h) (uh_sent h)"
    "rx_link shm (lsock S F sid) (F sid) (rxb sid C) (arb (us_opaque (F sid)) A) (uh_arr h) (uh_read h)"
  using assms unfolding sock_linked_def by blast+

text \<open>Writing into one ring of a socket leaves the other one alone.\<close>

lemma rx_link_tx_store:
  assumes rx: "rx_link shm ls fs cb ab arr read" and tx: "tx_link shm ls fs cb' ab' acc sent"
    and ap: "ring_apart (us_rx_off fs) (us_rx_len fs) (us_tx_off fs) (us_tx_len fs)"
    and t: "unat t < unat (us_tx_len fs)" "unat n \<le> unat (us_tx_len fs)"
  shows "rx_link (ring_store shm (unat (us_tx_off fs)) (us_tx_len fs) t buf p n) ls fs cb ab arr read"
proof (rule rx_link_shm [OF rx])
  note r = rx [unfolded rx_link_def urx_ok_def] and x = tx [unfolded tx_link_def utx_ok_def]
  show "ring_byte (ring_store shm (unat (us_tx_off fs)) (us_tx_len fs) t buf p n) (unat (ul_rx_buf ls)) (ul_rx_len ls) (ul_rx_head ls) k =
    ring_byte shm (unat (ul_rx_buf ls)) (ul_rx_len ls) (ul_rx_head ls) k" for k
    using r x t ap by (intro ring_byte_store_other) (auto simp: ring_apart_def)
qed

lemma tx_link_rx_store:
  assumes rx: "rx_link shm ls fs cb ab arr read" and tx: "tx_link shm ls fs cb' ab' acc sent"
    and ap: "ring_apart (us_rx_off fs) (us_rx_len fs) (us_tx_off fs) (us_tx_len fs)"
    and t: "unat t < unat (us_rx_len fs)" "unat n \<le> unat (us_rx_len fs)"
  shows "tx_link (ring_store shm (unat (us_rx_off fs)) (us_rx_len fs) t pkt p n) ls fs cb' ab' acc sent"
proof (rule tx_link_shm [OF tx])
  note r = rx [unfolded rx_link_def urx_ok_def] and x = tx [unfolded tx_link_def utx_ok_def]
  show "utx_byte (ring_store shm (unat (us_rx_off fs)) (us_rx_len fs) t pkt p n) fs k = utx_byte shm fs k" for k
    unfolding utx_byte_def using r x t ap by (intro ring_byte_store_other) (auto simp: ring_apart_def)
qed

lemma linked_send:
  assumes lk: "linked S F N qid C A shm H" and sid: "sid < N" and ls: "ls = lsock S F sid"
    and n: "unat n \<le> unat (ul_tx_len ls) - unat (ul_tx_avail ls)" "unat n \<le> 1472"
    and b: "b = \<lparr>ubt_sock_id = ul_sock_id ls, ubt_core = 0, ubt_tx_port = port, ubt_tx_ip = ip, ubt_tx_avail = n\<rparr>"
  shows "linked (S(unat (us_opaque (F sid)) := ls\<lparr>ul_tx_avail := ul_tx_avail ls + n, ul_tx_ip := ip, ul_tx_port := port\<rparr>)) F N qid
    (C @ [\<lparr>qs_type = UDP_QUEUE_BUMP_CHAM_TX, qs_data = UB_cham_tx b\<rparr>]) A
    (ring_store shm (unat (ul_tx_buf ls)) (ul_tx_len ls) (ring_wrap (ul_tx_len ls) (ul_tx_head ls + ul_tx_avail ls)) buf 0 n)
    (H(sid := (H sid)\<lparr>uh_acc := uh_acc (H sid) @ [(map buf [0..<unat n], ip, port)]\<rparr>))"
    (is "linked ?S F N qid ?C A ?shm (H(sid := ?h))")
proof (rule linked_step [OF lk sid])
  note d = sock_linkedD [OF linked_sock [OF lk sid], folded ls]
  note x = d(6) [unfolded tx_link_def utx_ok_def] and r = d(7) [unfolded rx_link_def urx_ok_def]
  have t: "unat (ring_wrap (ul_tx_len ls) (ul_tx_head ls + ul_tx_avail ls)) < unat (us_tx_len (F sid))" "unat n \<le> unat (us_tx_len (F sid))"
    using wrap_pos(2) [of "ul_tx_head ls" "ul_tx_len ls" "ul_tx_avail ls"] x n by auto
  have eq: "ul_tx_buf ls = us_tx_off (F sid)" "ul_tx_len ls = us_tx_len (F sid)" using x by auto
  have ap: "rings_apart F N" using lk by (simp add: linked_def)
  have rx: "rx_link ?shm ls (F sid) (rxb sid C) (arb (us_opaque (F sid)) A) (uh_arr (H sid)) (uh_read (H sid))"
    using rx_link_tx_store [OF d(7,6) rings_apartD(1) [OF ap sid sid] t] unfolding eq .
  have rx': "rx_link ?shm (?S (unat (us_opaque (F sid)))) (F sid) (rxb sid ?C) (arb (us_opaque (F sid)) A) (uh_arr (H sid)) (uh_read (H sid))"
    using rx by (simp add: rx_link_fields)
  have tx: "tx_link ?shm (?S (unat (us_opaque (F sid)))) (F sid) (txb sid C @ [b]) (atb (us_opaque (F sid)) A)
      (uh_acc (H sid) @ [(map buf [0..<unat n], ip, port)]) (uh_sent (H sid))"
    by (rule tx_link_send [OF d(6) n]) (simp_all add: b)
  show "sock_linked ?S F qid ?C A ?shm ?h sid"
    using d(1-5) tx rx' by (simp add: sock_linked_def b)
  show "\<forall>m \<in> set ?C. cmsg_ok N m" using lk sid d(2) by (auto simp: linked_def cmsg_ok_def b)
  show "\<forall>m \<in> set A. amsg_ok F N m" using lk by (simp add: linked_def)
  show "?shm i = shm i" if "\<not> (unat (us_tx_off (F sid)) \<le> i \<and> i < unat (us_tx_off (F sid)) + unat (us_tx_len (F sid)))" for i
    using that x t unfolding eq by (intro ring_store_outside) auto
  show "txb u ?C = txb u C \<and> rxb u ?C = rxb u C" if "u \<noteq> sid" for u using that d(2) by (simp add: b)
qed simp_all

lemma linked_read:
  assumes lk: "linked S F N qid C A shm H" and sid: "sid < N" and ls: "ls = lsock S F sid"
    and n: "unat n \<le> unat (ul_rx_avail ls)"
    and b: "b = \<lparr>ubr_sock_id = ul_sock_id ls, ubr_core = 0, ubr_rx_head = n\<rparr>"
  shows "linked (S(unat (us_opaque (F sid)) := ls\<lparr>ul_rx_avail := ul_rx_avail ls - n, ul_rx_head := ring_wrap (ul_rx_len ls) (ul_rx_head ls + n)\<rparr>))
    F N qid (C @ [\<lparr>qs_type = UDP_QUEUE_BUMP_CHAM_RX, qs_data = UB_cham_rx b\<rparr>]) A shm
    (H(sid := (H sid)\<lparr>uh_read := uh_read (H sid) @
       map (ring_byte shm (unat (ul_rx_buf ls)) (ul_rx_len ls) (ul_rx_head ls)) [0..<unat n]\<rparr>))"
    (is "linked ?S F N qid ?C A shm (H(sid := ?h))")
proof (rule linked_step [OF lk sid])
  note d = sock_linkedD [OF linked_sock [OF lk sid], folded ls]
  have rx: "rx_link shm (?S (unat (us_opaque (F sid)))) (F sid) (rxb sid C @ [b]) (arb (us_opaque (F sid)) A) (uh_arr (H sid))
      (uh_read (H sid) @ map (ring_byte shm (unat (ul_rx_buf ls)) (ul_rx_len ls) (ul_rx_head ls)) [0..<unat n])"
    by (rule rx_link_read [OF d(7) n]) (simp_all add: b)
  have tx: "tx_link shm (?S (unat (us_opaque (F sid)))) (F sid) (txb sid C) (atb (us_opaque (F sid)) A) (uh_acc (H sid)) (uh_sent (H sid))"
    by (rule tx_link_fields [OF d(6)]) simp_all
  show "sock_linked ?S F qid ?C A shm ?h sid" using d(1-5) tx rx by (simp add: sock_linked_def b)
  show "\<forall>m \<in> set ?C. cmsg_ok N m" using lk sid d(2) by (auto simp: linked_def cmsg_ok_def b)
  show "\<forall>m \<in> set A. amsg_ok F N m" using lk by (simp add: linked_def)
  show "txb u ?C = txb u C \<and> rxb u ?C = rxb u C" if "u \<noteq> sid" for u using that d(2) by (simp add: b)
qed simp_all

text \<open>The library handles the oldest message of the fast path.\<close>

lemma linked_lib_msg:
  assumes lk: "linked S F N qid C (m # A) shm H" and l: "ub_socks l = S"
  shows "\<exists>l'. ulib_fast_msg m l = Inr l' \<and> linked (ub_socks l') F N qid C A shm H \<and> l'\<lparr>ub_socks := S\<rparr> = l"
proof -
  have A: "\<forall>x \<in> set A. amsg_ok F N x" "amsg_ok F N m" and C: "\<forall>x \<in> set C. cmsg_ok N x" using lk by (simp_all add: linked_def)
  have ty: "\<exists>sid < N. (\<exists>b. qs_data m = UB_app_tx b \<and> qs_type m = UDP_QUEUE_BUMP_APP_TX \<and> uat_opaque b = us_opaque (F sid)) \<or>
      (\<exists>b. qs_data m = UB_app_rx b \<and> qs_type m = UDP_QUEUE_BUMP_APP_RX \<and> uar_opaque b = us_opaque (F sid))"
    using A(2) by (auto simp: amsg_ok_def split: udp_bump.splits)
  then obtain sid where sid: "sid < N" and
    dm: "(\<exists>b. qs_data m = UB_app_tx b \<and> qs_type m = UDP_QUEUE_BUMP_APP_TX \<and> uat_opaque b = us_opaque (F sid)) \<or>
      (\<exists>b. qs_data m = UB_app_rx b \<and> qs_type m = UDP_QUEUE_BUMP_APP_RX \<and> uar_opaque b = us_opaque (F sid))" by blast
  let ?k = "unat (us_opaque (F sid))" and ?ls = "lsock S F sid"
  note d = sock_linkedD [OF linked_sock [OF lk sid]]
  have deref: "ulib_deref (us_opaque (F sid)) = Some ?k" using d(1) by (simp add: ulib_deref_def)
  from dm show ?thesis
  proof (elim disjE exE conjE)
    fix b assume b: "qs_data m = UB_app_tx b" "qs_type m = UDP_QUEUE_BUMP_APP_TX" "uat_opaque b = us_opaque (F sid)"
    let ?S = "S(?k := ulib_tx_bump ?ls b)"
    have "linked ?S F N qid C A shm (H(sid := H sid))"
    proof (rule linked_step [OF lk sid])
      have "tx_link shm (ulib_tx_bump ?ls b) (F sid) (txb sid C) (atb (us_opaque (F sid)) A) (uh_acc (H sid)) (uh_sent (H sid))"
        using d(6) b by (intro tx_link_ack) simp
      moreover have "rx_link shm (ulib_tx_bump ?ls b) (F sid) (rxb sid C) (arb (us_opaque (F sid)) A) (uh_arr (H sid)) (uh_read (H sid))"
        by (rule rx_link_fields [of shm ?ls "F sid"]) (use d(7) b in \<open>simp_all add: ulib_tx_bump_def\<close>)
      ultimately show "sock_linked ?S F qid C A shm (H sid) sid" using d(1-5) by (simp add: sock_linked_def ulib_tx_bump_def)
    qed (use A C b in simp_all)
    then show ?thesis using b deref l by (simp add: ulib_fast_msg_def put_lsock_def)
  next
    fix b assume b: "qs_data m = UB_app_rx b" "qs_type m = UDP_QUEUE_BUMP_APP_RX" "uar_opaque b = us_opaque (F sid)"
    let ?S = "S(?k := ulib_rx_bump ?ls b)"
    have "linked ?S F N qid C A shm (H(sid := H sid))"
    proof (rule linked_step [OF lk sid])
      have "rx_link shm (ulib_rx_bump ?ls b) (F sid) (rxb sid C) (arb (us_opaque (F sid)) A) (uh_arr (H sid)) (uh_read (H sid))"
        using d(7) b by (intro rx_link_announce) simp
      moreover have "tx_link shm (ulib_rx_bump ?ls b) (F sid) (txb sid C) (atb (us_opaque (F sid)) A) (uh_acc (H sid)) (uh_sent (H sid))"
        by (rule tx_link_fields [of shm ?ls "F sid"]) (use d(6) b in \<open>simp_all add: ulib_rx_bump_def\<close>)
      ultimately show "sock_linked ?S F qid C A shm (H sid) sid" using d(1-5) by (simp add: sock_linked_def ulib_rx_bump_def)
    qed (use A C b in simp_all)
    then show ?thesis using b deref l by (simp add: ulib_fast_msg_def put_lsock_def)
  qed
qed

lemma linked_transmit:
  assumes lk: "linked S F N qid (m # C) A shm H" and m: "qs_data m = UB_cham_tx b"
    and n: "unat n = unat (ubt_tx_avail b)" "ucast n = ubt_tx_avail b" and sid: "sid = ubt_sock_id b"
  shows "linked S (F(sid := udp_sock_tx (F sid) (ubt_tx_avail b) n)) N qid C
    (A @ [\<lparr>qs_type = UDP_QUEUE_BUMP_APP_TX, qs_data = UB_app_tx \<lparr>uat_opaque = us_opaque (F sid), uat_tx_head = ucast n\<rparr>\<rparr>]) shm
    (H(sid := (H sid)\<lparr>uh_sent := uh_sent (H sid) @ [(map (utx_byte shm (F sid)) [0..<unat n], ubt_tx_ip b, ubt_tx_port b)]\<rparr>))"
    (is "linked S ?F N qid C ?A shm (H(sid := ?h))")
proof -
  have sN: "sid < N" using lk m sid by (simp add: linked_def cmsg_ok_def)
  note d = sock_linkedD [OF linked_sock [OF lk sN]]
  have tx: "tx_link shm (lsock S F sid) (udp_sock_tx (F sid) (ubt_tx_avail b) n) (txb sid C)
      (atb (us_opaque (F sid)) A @ [\<lparr>uat_opaque = us_opaque (F sid), uat_tx_head = ucast n\<rparr>]) (uh_acc (H sid))
      (uh_sent (H sid) @ [(map (utx_byte shm (F sid)) [0..<unat n], ubt_tx_ip b, ubt_tx_port b)])"
    using d(6) m sid by (intro tx_link_transmit n) simp
  have rx: "rx_link shm (lsock S F sid) (udp_sock_tx (F sid) (ubt_tx_avail b) n) (rxb sid C) (arb (us_opaque (F sid)) A) (uh_arr (H sid)) (uh_read (H sid))"
    by (rule rx_link_fields [of shm "lsock S F sid" "F sid"]) (use d(7) m in \<open>simp_all add: udp_sock_tx_def\<close>)
  have own: "sock_linked S ?F qid C ?A shm ?h sid"
    using d(1-5) tx rx by (simp add: sock_linked_def udp_sock_tx_def)
  have A: "\<forall>x \<in> set ?A. amsg_ok F N x" using lk sN by (auto simp: linked_def amsg_ok_def)
  have C: "\<forall>x \<in> set C. cmsg_ok N x" using lk by (simp add: linked_def)
  show ?thesis
    by (rule linked_step [OF lk sN _ _ _ _ _ _ _ _ _ C A _ own]) (use m sid in \<open>auto simp: udp_sock_tx_def\<close>)
qed

lemma linked_release:
  assumes lk: "linked S F N qid (m # C) A shm H" and m: "qs_data m = UB_cham_rx b" and sid: "sid = ubr_sock_id b"
  shows "linked S (F(sid := udp_sock_rx_bump (F sid) (ubr_rx_head b))) N qid C A shm H" (is "linked S ?F N qid C A shm H")
proof -
  have sN: "sid < N" using lk m sid by (simp add: linked_def cmsg_ok_def)
  note d = sock_linkedD [OF linked_sock [OF lk sN]]
  have rx: "rx_link shm (lsock S F sid) (udp_sock_rx_bump (F sid) (ubr_rx_head b)) (rxb sid C) (arb (us_opaque (F sid)) A) (uh_arr (H sid)) (uh_read (H sid))"
    using d(7) m sid by (intro rx_link_release) simp
  have tx: "tx_link shm (lsock S F sid) (udp_sock_rx_bump (F sid) (ubr_rx_head b)) (txb sid C) (atb (us_opaque (F sid)) A) (uh_acc (H sid)) (uh_sent (H sid))"
    by (rule tx_link_fields [of shm "lsock S F sid" "F sid"]) (use d(6) m in \<open>simp_all add: udp_sock_rx_bump_def\<close>)
  have own: "sock_linked S ?F qid C A shm (H sid) sid"
    using d(1-5) tx rx by (simp add: sock_linked_def udp_sock_rx_bump_def)
  have A: "\<forall>x \<in> set A. amsg_ok F N x" and C: "\<forall>x \<in> set C. cmsg_ok N x" using lk by (simp_all add: linked_def)
  have "linked S ?F N qid C A shm (H(sid := H sid))"
    by (rule linked_step [OF lk sN _ _ _ _ _ _ _ _ _ C A _ own]) (use m sid in \<open>auto simp: udp_sock_rx_bump_def\<close>)
  then show ?thesis by simp
qed

lemma linked_arrive:
  assumes lk: "linked S F N qid C A shm H" and sid: "sid < N" and n: "unat n \<le> unat (us_rx_len (F sid)) - unat (us_rx_avail (F sid))"
    and b: "b = \<lparr>uar_opaque = us_opaque (F sid), uar_core = 0, uar_rx_port = port, uar_rx_ip = ip, uar_rx_avail = n\<rparr>"
  shows "linked S (F(sid := (F sid)\<lparr>us_rx_avail := us_rx_avail (F sid) + n, us_rx_core := core\<rparr>)) N qid C
    (A @ [\<lparr>qs_type = UDP_QUEUE_BUMP_APP_RX, qs_data = UB_app_rx b\<rparr>])
    (ring_store shm (unat (us_rx_off (F sid))) (us_rx_len (F sid)) (ring_wrap (us_rx_len (F sid)) (us_rx_head (F sid) + us_rx_avail (F sid))) pkt p n)
    (H(sid := (H sid)\<lparr>uh_arr := uh_arr (H sid) @ map (\<lambda>k. pkt (p + k)) [0..<unat n]\<rparr>))"
    (is "linked S ?F N qid C ?A ?shm (H(sid := ?h))")
proof -
  note d = sock_linkedD [OF linked_sock [OF lk sid]]
  note r = d(7) [unfolded rx_link_def urx_ok_def]
  let ?fs = "(F sid)\<lparr>us_rx_avail := us_rx_avail (F sid) + n, us_rx_core := core\<rparr>"
  have t: "unat (ring_wrap (us_rx_len (F sid)) (us_rx_head (F sid) + us_rx_avail (F sid))) < unat (us_rx_len (F sid))"
    "unat n \<le> unat (us_rx_len (F sid))"
    using wrap_pos(2) [of "us_rx_head (F sid)" "us_rx_len (F sid)" "us_rx_avail (F sid)"] r n by auto
  have ap: "rings_apart F N" using lk by (simp add: linked_def)
  have rx: "rx_link ?shm (lsock S F sid) ?fs (rxb sid C) (arb (us_opaque (F sid)) A @ [b]) (uh_arr (H sid) @ map (\<lambda>k. pkt (p + k)) [0..<unat n]) (uh_read (H sid))"
    by (rule rx_link_arrive [OF d(7) n]) (simp_all add: b)
  have "tx_link ?shm (lsock S F sid) (F sid) (txb sid C) (atb (us_opaque (F sid)) A) (uh_acc (H sid)) (uh_sent (H sid))"
    using tx_link_rx_store [OF d(7,6) rings_apartD(1) [OF ap sid sid] t] .
  then have tx: "tx_link ?shm (lsock S F sid) ?fs (txb sid C) (atb (us_opaque (F sid)) A) (uh_acc (H sid)) (uh_sent (H sid))"
    by (rule tx_link_fields) simp_all
  have own: "sock_linked S ?F qid C ?A ?shm ?h sid" using d(1-5) tx rx by (simp add: sock_linked_def b)
  have A: "\<forall>x \<in> set ?A. amsg_ok F N x" using lk sid by (auto simp: linked_def amsg_ok_def b)
  have C: "\<forall>x \<in> set C. cmsg_ok N x" using lk by (simp add: linked_def)
  show ?thesis
  proof (rule linked_step [OF lk sid _ _ _ _ _ _ _ _ _ C A _ own])
    show "?shm i = shm i" if "\<not> (unat (us_rx_off (F sid)) \<le> i \<and> i < unat (us_rx_off (F sid)) + unat (us_rx_len (F sid)))" for i
      using that r t by (intro ring_store_outside) auto
  qed (auto simp: b)
qed

section \<open>The system\<close>

text \<open>
  One application context and one fast-path core with the queue of each direction between them and
  the shared memory. A component runs on its own view: the library sees the producer's side of the
  one queue and the consumer's side of the other, the fast path the opposite.
\<close>

record udp_sys =
  yk_lib :: udp_lib
  yk_fp :: udp_ctx
  yk_x :: nat
  yk_qid :: u16
  yk_cq :: "udp_bump spsc"
  yk_aq :: "udp_bump spsc"
  yk_shm :: bytes
  yk_hist :: "u32 \<Rightarrow> usock_hist"

definition lib_view :: "udp_sys \<Rightarrow> udp_lib" where
  "lib_view y = (yk_lib y)\<lparr>ub_shm := yk_shm y, ub_ctxs := (ub_ctxs (yk_lib y))(yk_x y :=
     (ub_ctxs (yk_lib y) (yk_x y))\<lparr>lx_app_fast_qs := (\<lambda>_. (sp_eq (yk_cq y), sp_mem (yk_cq y))),
        lx_fast_app_qs := (\<lambda>_. (sp_dq (yk_aq y), sp_mem (yk_aq y)))\<rparr>)\<rparr>"

definition lib_put :: "udp_lib \<Rightarrow> udp_sys \<Rightarrow> udp_sys" where
  "lib_put l y =
     (let c = lx_app_fast_qs (ub_ctxs l (yk_x y)) 0; a = lx_fast_app_qs (ub_ctxs l (yk_x y)) 0
      in y\<lparr>yk_lib := l, yk_shm := ub_shm l, yk_cq := (yk_cq y)\<lparr>sp_eq := fst c, sp_mem := snd c\<rparr>,
           yk_aq := (yk_aq y)\<lparr>sp_dq := fst a, sp_mem := snd a\<rparr>\<rparr>)"

definition fp_view :: "bytes \<Rightarrow> nat \<Rightarrow> udp_qe \<Rightarrow> udp_sys \<Rightarrow> udp_ctx" where
  "fp_view pkt len qe y = (yk_fp y)\<lparr>ux_shm := yk_shm y, ux_pkt := pkt, ux_len := len, ux_qe := qe,
     ux_eqs := (ux_eqs (yk_fp y))(yk_qid y := (sp_eq (yk_aq y), sp_mem (yk_aq y)))\<rparr>"

definition fp_put :: "udp_ctx \<Rightarrow> udp_sys \<Rightarrow> udp_sys" where
  "fp_put c y = y\<lparr>yk_fp := c, yk_shm := ux_shm c,
     yk_aq := (yk_aq y)\<lparr>sp_eq := fst (ux_eqs c (yk_qid y)), sp_mem := snd (ux_eqs c (yk_qid y))\<rparr>\<rparr>"

definition qe_of :: "udp_bump qslot \<Rightarrow> udp_qe" where
  "qe_of m = (case qs_data m of
       UB_cham_tx b \<Rightarrow> if qs_type m = UDP_QUEUE_BUMP_CHAM_TX then UQE_bump_tx b else UQE_other (qs_type m)
     | UB_cham_rx b \<Rightarrow> if qs_type m = UDP_QUEUE_BUMP_CHAM_RX then UQE_bump_rx b else UQE_other (qs_type m)
     | _ \<Rightarrow> UQE_other (qs_type m))"

definition sys_sockfd :: "udp_sys \<Rightarrow> u32 \<Rightarrow> int" where
  "sys_sockfd y sid = uint (us_opaque (ux_socks (yk_fp y) sid))"

definition aq_room :: "udp_sys \<Rightarrow> bool" where
  "aq_room y \<longleftrightarrow> length (spsc_contents (yk_aq y)) < spsc_cap (yk_aq y)"

definition hist_upd :: "u32 \<Rightarrow> (usock_hist \<Rightarrow> usock_hist) \<Rightarrow> udp_sys \<Rightarrow> udp_sys" where
  "hist_upd sid f y = y\<lparr>yk_hist := (yk_hist y)(sid := f (yk_hist y sid))\<rparr>"

text \<open>The socket that the port table names for the packet.\<close>

definition rx_target :: "udp_ctx \<Rightarrow> u32 option" where
  "rx_target c = (case udp_sock_find c (udp_dst (ux_pkt c) (udp_ip_hdrs_len (ux_pkt c))) of Inr (found, _) \<Rightarrow> found | Inl _ \<Rightarrow> None)"

text \<open>
  The steps: a call of the library on one of its sockets, a poll of the fast path's messages, a
  bump handled by the fast path, a packet from the network. Datagrams stay below the largest
  payload, the fast path's buffers have room for one, and the queue to the application has a free
  slot when the fast path runs. What a send accepted, what a packet carries, what arrived and what
  was read is recorded from the arguments and results.
\<close>

inductive udp_step :: "udp_sys \<Rightarrow> udp_sys \<Rightarrow> bool" where
  send: "sid < ux_nsocks (yk_fp y) \<Longrightarrow> unat len \<le> 1472 \<Longrightarrow>
    udp_sendto (Some (yk_x y)) (sys_sockfd y sid) buf len addr (lib_view y) = Inr (r, l) \<Longrightarrow>
    udp_step y (if r > 0 then hist_upd sid (\<lambda>h. h\<lparr>uh_acc := uh_acc h @ [(map buf [0..<unat len], f_beui32 (fst addr), f_beui16 (snd addr))]\<rparr>)
                  (lib_put l y) else lib_put l y)"
| recv: "sid < ux_nsocks (yk_fp y) \<Longrightarrow>
    udp_recvfrom (Some (yk_x y)) (sys_sockfd y sid) buf len (lib_view y) = Inr (r, from, buf', l) \<Longrightarrow>
    udp_step y (if r > 0 then hist_upd sid (\<lambda>h. h\<lparr>uh_read := uh_read h @ map buf' [0..<nat r]\<rparr>) (lib_put l y) else lib_put l y)"
| poll: "udp_poll_fast (yk_x y) (lib_view y) = Inr (n, l) \<Longrightarrow> udp_step y (lib_put l y)"
| deq: "spsc_recv (yk_cq y) = Some (m, cq) \<Longrightarrow> aq_room y \<Longrightarrow> 1500 \<le> len \<Longrightarrow> len < 2 ^ 32 \<Longrightarrow>
    udp_event_deq (fp_view pkt len (qe_of m) y) = Inr (r, c) \<Longrightarrow>
    udp_step y (let y1 = (fp_put c y)\<lparr>yk_cq := cq\<rparr>
      in case qs_data m of
           UB_cham_tx b \<Rightarrow> if r > 0 then hist_upd (ubt_sock_id b) (\<lambda>h. h\<lparr>uh_sent := uh_sent h @
             [(map (ux_pkt c) [UDP_PKT_INNER..<nat r], ip_dst (ux_pkt c), udp_dst (ux_pkt c) 20)]\<rparr>) y1 else y1
         | _ \<Rightarrow> y1)"
| rx: "aq_room y \<Longrightarrow> udp_event_rx (fp_view pkt len qe y) = Inr (r, c) \<Longrightarrow>
    udp_step y (case rx_target (fp_view pkt len qe y) of
        Some sid \<Rightarrow> if r = 0 then hist_upd sid (\<lambda>h. h\<lparr>uh_arr := uh_arr h @
            map (\<lambda>k. pkt (udp_ip_hdrs_len pkt + 8 + k)) [0..<unat (udp_hlen pkt (udp_ip_hdrs_len pkt)) - 8]\<rparr>) (fp_put c y) else fp_put c y
      | None \<Rightarrow> fp_put c y)"

inductive udp_reach :: "udp_sys \<Rightarrow> udp_sys \<Rightarrow> bool" for y0 :: udp_sys where
  start: "udp_reach y0 y0"
| step: "udp_reach y0 y \<Longrightarrow> udp_step y z \<Longrightarrow> udp_reach y0 z"

definition sys_inv :: "udp_sys \<Rightarrow> bool" where
  "sys_inv y \<longleftrightarrow> spsc_wf (yk_cq y) \<and> spsc_wf (yk_aq y) \<and> lx_ncores (ub_ctxs (yk_lib y) (yk_x y)) = 1 \<and> ux_core (yk_fp y) = 0 \<and>
     ux_qe_off (yk_fp y) + 64 \<le> ux_shm_len (yk_fp y) \<and>
     linked (ub_socks (yk_lib y)) (ux_socks (yk_fp y)) (ux_nsocks (yk_fp y)) (yk_qid y)
       (spsc_contents (yk_cq y)) (spsc_contents (yk_aq y)) (yk_shm y) (yk_hist y)"

section \<open>The library's steps\<close>

lemma spsc_same [simp]:
  "s\<lparr>sp_eq := sp_eq s, sp_mem := sp_mem s\<rparr> = s" "s\<lparr>sp_dq := sp_dq s, sp_mem := sp_mem s\<rparr> = s" for s :: "'d spsc"
  by simp_all

lemma lib_view_simps [simp]:
  "ub_socks (lib_view y) = ub_socks (yk_lib y)" "ub_shm (lib_view y) = yk_shm y" "ub_up (lib_view y) = ub_up (yk_lib y)"
  "lx_app_fast_qs (ub_ctxs (lib_view y) (yk_x y)) i = (sp_eq (yk_cq y), sp_mem (yk_cq y))"
  "lx_fast_app_qs (ub_ctxs (lib_view y) (yk_x y)) i = (sp_dq (yk_aq y), sp_mem (yk_aq y))"
  "lx_ncores (ub_ctxs (lib_view y) (yk_x y)) = lx_ncores (ub_ctxs (yk_lib y) (yk_x y))"
  by (simp_all add: lib_view_def)

lemma udp_sendto_result:
  assumes "udp_sendto (Some x) sockfd buf len addr l = Inr (r, l')" "unat len \<le> 1472"
  obtains (none) e where "r \<le> 0" "l' = l\<lparr>ub_errno := e\<rparr>"
  | (sent) k q where "sockfd = int k" "r = int (unat len)" "r > 0"
    "unat len \<le> unat (ul_tx_len (ub_socks l k) - ul_tx_avail (ub_socks l k))"
    "queue_tail (fst (lx_app_fast_qs (ub_ctxs l x) (nat (ul_tx_core (ub_socks l k))))) (snd (lx_app_fast_qs (ub_ctxs l x) (nat (ul_tx_core (ub_socks l k))))) \<noteq> None"
    "queue_put (lx_app_fast_qs (ub_ctxs l x) (nat (ul_tx_core (ub_socks l k))))
       (UB_cham_tx \<lparr>ubt_sock_id = ul_sock_id (ub_socks l k), ubt_core = of_int (ul_tx_core (ub_socks l k)), ubt_tx_port = f_beui16 (snd addr),
          ubt_tx_ip = f_beui32 (fst addr), ubt_tx_avail = ucast len\<rparr>) UDP_QUEUE_BUMP_CHAM_TX = (0, q)"
    "l' = (put_lctx x ((ub_ctxs l x)\<lparr>lx_app_fast_qs := (lx_app_fast_qs (ub_ctxs l x))(nat (ul_tx_core (ub_socks l k)) := q)\<rparr>)
       (put_lsock k ((ub_socks l k)\<lparr>ul_tx_avail := ul_tx_avail (ub_socks l k) + ucast len, ul_tx_ip := f_beui32 (fst addr), ul_tx_port := f_beui16 (snd addr)\<rparr>) l))
       \<lparr>ub_shm := ring_store (ub_shm l) (unat (ul_tx_buf (ub_socks l k))) (ul_tx_len (ub_socks l k))
          (ring_wrap (ul_tx_len (ub_socks l k)) (ul_tx_head (ub_socks l k) + ul_tx_avail (ub_socks l k))) buf 0 (ucast len)\<rparr>"
proof (cases "ulookup_sock l (Some x) sockfd")
  case (Inl e)
  then show ?thesis using assms none [of e] by (simp add: udp_sendto_def lerr_def)
next
  case (Inr k)
  have fd: "sockfd = int k" using Inr by (auto simp: ulookup_sock_def Let_def split: if_splits)
  let ?s = "ub_socks l k" and ?q = "lx_app_fast_qs (ub_ctxs l x) (nat (ul_tx_core (ub_socks l k)))"
  consider "len = 0" | "len > ucast (ul_tx_len ?s - ul_tx_avail ?s)" | "queue_tail (fst ?q) (snd ?q) = None"
    | "len \<noteq> 0" "\<not> len > ucast (ul_tx_len ?s - ul_tx_avail ?s)" "queue_tail (fst ?q) (snd ?q) \<noteq> None" by blast
  then show ?thesis
  proof cases
    case 1
    then show ?thesis using assms Inr none [of "ub_errno l"] by (simp add: udp_sendto_def)
  next
    case 2
    then show ?thesis using assms Inr none [of EAGAIN] by (auto simp: udp_sendto_def lerr_def Let_def split: if_splits intro: none [of "ub_errno l"])
  next
    case 3
    then show ?thesis using assms Inr none [of EAGAIN] none [of "ub_errno l"] by (auto simp: udp_sendto_def lerr_def Let_def split: if_splits)
  next
    case 4
    define d where "d = UB_cham_tx \<lparr>ubt_sock_id = ul_sock_id ?s, ubt_core = of_int (ul_tx_core ?s), ubt_tx_port = f_beui16 (snd addr),
          ubt_tx_ip = f_beui32 (fst addr), ubt_tx_avail = ucast len\<rparr>"
    obtain q where q: "queue_put ?q d UDP_QUEUE_BUMP_CHAM_TX = (0, q)"
      using 4(3) by (auto simp: queue_put_cases queue_tail_def split: if_splits)
    have len: "unat (ucast len :: u32) = unat len" using assms(2) by (simp add: unsigned_ucast_eq take_bit_nat_eq_self)
    have sl: "sint (ucast len :: u32) = int (unat len)"
      using assms(2) len sint_small_32 [of "ucast len"] by simp
    have "unat len \<le> unat (ul_tx_len ?s - ul_tx_avail ?s)" using 4(2) by (simp add: word_less_nat_alt unat_ucast_up not_less)
    moreover have "0 < int (unat len)" using 4(1) unat_eq_zero [of len] by (metis gr0I of_nat_0_less_iff)
    ultimately show ?thesis using assms(1) Inr fd 4 q sl
      by (intro sent [of k q]) (auto simp: udp_sendto_def Let_def d_def [symmetric] split: if_splits)
  qed
qed

lemma sys_invD:
  assumes "sys_inv y"
  shows "spsc_wf (yk_cq y)" "spsc_wf (yk_aq y)" "lx_ncores (ub_ctxs (yk_lib y) (yk_x y)) = 1" "ux_core (yk_fp y) = 0"
    "ux_qe_off (yk_fp y) + 64 \<le> ux_shm_len (yk_fp y)"
    "linked (ub_socks (yk_lib y)) (ux_socks (yk_fp y)) (ux_nsocks (yk_fp y)) (yk_qid y)
       (spsc_contents (yk_cq y)) (spsc_contents (yk_aq y)) (yk_shm y) (yk_hist y)"
  using assms by (simp_all add: sys_inv_def)

lemma lib_put_simps [simp]:
  "yk_lib (lib_put l y) = l" "yk_fp (lib_put l y) = yk_fp y" "yk_x (lib_put l y) = yk_x y" "yk_qid (lib_put l y) = yk_qid y"
  "yk_shm (lib_put l y) = ub_shm l" "yk_hist (lib_put l y) = yk_hist y"
  "yk_cq (lib_put l y) = (yk_cq y)\<lparr>sp_eq := fst (lx_app_fast_qs (ub_ctxs l (yk_x y)) 0), sp_mem := snd (lx_app_fast_qs (ub_ctxs l (yk_x y)) 0)\<rparr>"
  "yk_aq (lib_put l y) = (yk_aq y)\<lparr>sp_dq := fst (lx_fast_app_qs (ub_ctxs l (yk_x y)) 0), sp_mem := snd (lx_fast_app_qs (ub_ctxs l (yk_x y)) 0)\<rparr>"
  by (simp_all add: lib_put_def Let_def)

lemma hist_upd_simps [simp]:
  "yk_lib (hist_upd sid f y) = yk_lib y" "yk_fp (hist_upd sid f y) = yk_fp y" "yk_x (hist_upd sid f y) = yk_x y" "yk_qid (hist_upd sid f y) = yk_qid y"
  "yk_shm (hist_upd sid f y) = yk_shm y" "yk_cq (hist_upd sid f y) = yk_cq y" "yk_aq (hist_upd sid f y) = yk_aq y"
  "yk_hist (hist_upd sid f y) = (yk_hist y)(sid := f (yk_hist y sid))"
  by (simp_all add: hist_upd_def)

lemma lib_errno_inv:
  assumes "sys_inv y"
  shows "sys_inv (lib_put ((lib_view y)\<lparr>ub_errno := e\<rparr>) y)"
  using sys_invD [OF assms] by (simp add: sys_inv_def)

lemma put_lib_simps [simp]:
  "ub_socks (put_lctx x cx l) = ub_socks l" "ub_shm (put_lctx x cx l) = ub_shm l" "ub_ctxs (put_lctx x cx l) = (ub_ctxs l)(x := cx)"
  "ub_socks (put_lsock k s l) = (ub_socks l)(k := s)" "ub_shm (put_lsock k s l) = ub_shm l" "ub_ctxs (put_lsock k s l) = ub_ctxs l"
  "ub_up (put_lctx x cx l) = ub_up l" "ub_up (put_lsock k s l) = ub_up l"
  by (simp_all add: put_lctx_def put_lsock_def)

text \<open>A message of the library into the queue to the fast path.\<close>

lemma cq_put:
  assumes "sys_inv y" "ty \<noteq> QUEUE_EMPTY" "queue_tail (sp_eq (yk_cq y)) (sp_mem (yk_cq y)) \<noteq> None"
    "queue_put (sp_eq (yk_cq y), sp_mem (yk_cq y)) d ty = (0, q)"
  shows "spsc_wf ((yk_cq y)\<lparr>sp_eq := fst q, sp_mem := snd q\<rparr>)"
    "spsc_contents ((yk_cq y)\<lparr>sp_eq := fst q, sp_mem := snd q\<rparr>) = spsc_contents (yk_cq y) @ [\<lparr>qs_type = ty, qs_data = d\<rparr>]"
  using queue_put_room [OF sys_invD(1) [OF assms(1)] assms(2) queue_tail_usable [OF sys_invD(1) [OF assms(1)] assms(3)], of d] assms(4)
  by auto

lemma sys_sockfd_nat: "sys_sockfd y sid = int k \<Longrightarrow> k = unat (us_opaque (ux_socks (yk_fp y) sid))"
  by (simp add: sys_sockfd_def unat_eq_nat_uint)

lemma send_inv:
  assumes inv: "sys_inv y" and sid: "sid < ux_nsocks (yk_fp y)" and len: "unat len \<le> 1472"
    and call: "udp_sendto (Some (yk_x y)) (sys_sockfd y sid) buf len addr (lib_view y) = Inr (r, l)"
  shows "sys_inv (if r > 0 then hist_upd sid (\<lambda>h. h\<lparr>uh_acc := uh_acc h @ [(map buf [0..<unat len], f_beui32 (fst addr), f_beui16 (snd addr))]\<rparr>)
     (lib_put l y) else lib_put l y)"
  using call len
proof (cases rule: udp_sendto_result)
  case (none e)
  then show ?thesis using lib_errno_inv [OF inv] by simp
next
  case (sent k q)
  let ?S = "ub_socks (yk_lib y)" and ?F = "ux_socks (yk_fp y)"
  have k: "k = unat (us_opaque (?F sid))" using sent(1) by (rule sys_sockfd_nat)
  note d = sock_linkedD [OF linked_sock [OF sys_invD(6) [OF inv] sid]]
  have n: "unat (ucast len :: u32) = unat len" using len by (simp add: unsigned_ucast_eq take_bit_nat_eq_self)
  have le: "unat (ul_tx_avail (?S k)) \<le> unat (ul_tx_len (?S k))" using d(6) k by (auto simp: tx_link_def)
  have room: "unat (ucast len :: u32) \<le> unat (ul_tx_len (?S k)) - unat (ul_tx_avail (?S k))"
    using sent(4) le n by (simp add: unat_sub word_le_nat_alt)
  have core: "ul_tx_core (?S k) = 0" using d(3) k by simp
  have put: "queue_put (sp_eq (yk_cq y), sp_mem (yk_cq y))
       (UB_cham_tx \<lparr>ubt_sock_id = ul_sock_id (?S k), ubt_core = 0, ubt_tx_port = f_beui16 (snd addr),
          ubt_tx_ip = f_beui32 (fst addr), ubt_tx_avail = ucast len\<rparr>) UDP_QUEUE_BUMP_CHAM_TX = (0, q)"
    using sent(6) core by simp
  have tail: "queue_tail (sp_eq (yk_cq y)) (sp_mem (yk_cq y)) \<noteq> None" using sent(5) by simp
  note c = cq_put [OF inv _ tail put, simplified]
  note lk = linked_send [OF sys_invD(6) [OF inv] sid refl, of "ucast len" _ "f_beui16 (snd addr)" "f_beui32 (fst addr)" buf,
      folded k, OF room _ refl, unfolded n]
  show ?thesis unfolding sent(7) using sent(3) sys_invD [OF inv] c lk len core by (simp add: sys_inv_def put_lctx_def)
qed

lemma udp_recvfrom_result:
  assumes "udp_recvfrom (Some x) sockfd buf len l = Inr (r, from, buf', l')"
  obtains (none) e where "r \<le> 0" "l' = l\<lparr>ub_errno := e\<rparr>"
  | (got) k n q where "sockfd = int k" "r = sint n" "n \<noteq> 0" "n \<le> ul_rx_avail (ub_socks l k)" "n \<le> ucast len"
    "queue_tail (fst (lx_app_fast_qs (ub_ctxs l x) (nat (ul_rx_core (ub_socks l k))))) (snd (lx_app_fast_qs (ub_ctxs l x) (nat (ul_rx_core (ub_socks l k))))) \<noteq> None"
    "queue_put (lx_app_fast_qs (ub_ctxs l x) (nat (ul_rx_core (ub_socks l k))))
       (UB_cham_rx \<lparr>ubr_sock_id = ul_sock_id (ub_socks l k), ubr_core = of_int (ul_rx_core (ub_socks l k)), ubr_rx_head = n\<rparr>)
       UDP_QUEUE_BUMP_CHAM_RX = (0, q)"
    "buf' = ring_load buf 0 (ub_shm l) (unat (ul_rx_buf (ub_socks l k))) (ul_rx_len (ub_socks l k)) (ul_rx_head (ub_socks l k)) n"
    "l' = put_lctx x ((ub_ctxs l x)\<lparr>lx_app_fast_qs := (lx_app_fast_qs (ub_ctxs l x))(nat (ul_rx_core (ub_socks l k)) := q)\<rparr>)
       (put_lsock k ((ub_socks l k)\<lparr>ul_rx_avail := ul_rx_avail (ub_socks l k) - n,
          ul_rx_head := ring_wrap (ul_rx_len (ub_socks l k)) (ul_rx_head (ub_socks l k) + n)\<rparr>) l)"
proof (cases "ulookup_sock l (Some x) sockfd")
  case (Inl e)
  then show ?thesis using assms none [of e] by (simp add: udp_recvfrom_def)
next
  case (Inr k)
  have fd: "sockfd = int k" using Inr by (auto simp: ulookup_sock_def Let_def split: if_splits)
  let ?s = "ub_socks l k" and ?q = "lx_app_fast_qs (ub_ctxs l x) (nat (ul_rx_core (ub_socks l k)))"
  define n where "n = (if ucast len > ul_rx_avail ?s then ul_rx_avail ?s else ucast len)"
  have nle: "n \<le> ul_rx_avail ?s" "n \<le> ucast len" by (auto simp: n_def)
  consider "n = 0" | "queue_tail (fst ?q) (snd ?q) = None" | "n \<noteq> 0" "queue_tail (fst ?q) (snd ?q) \<noteq> None" by blast
  then show ?thesis
  proof cases
    case 1
    then show ?thesis using assms Inr none [of "ub_errno l"] by (simp add: udp_recvfrom_def Let_def n_def [symmetric])
  next
    case 2
    then show ?thesis using assms Inr none [of EAGAIN] none [of "ub_errno l"]
      by (auto simp: udp_recvfrom_def Let_def n_def [symmetric] split: if_splits)
  next
    case 3
    define d where "d = UB_cham_rx \<lparr>ubr_sock_id = ul_sock_id ?s, ubr_core = of_int (ul_rx_core ?s), ubr_rx_head = n\<rparr>"
    obtain q where q: "queue_put ?q d UDP_QUEUE_BUMP_CHAM_RX = (0, q)"
      using 3(2) by (auto simp: queue_put_cases queue_tail_def split: if_splits)
    show ?thesis using assms(1) Inr fd 3 q nle
      by (intro got [of k n q]) (auto simp: udp_recvfrom_def Let_def n_def [symmetric] d_def [symmetric] split: if_splits)
  qed
qed

lemma recv_inv:
  assumes inv: "sys_inv y" and sid: "sid < ux_nsocks (yk_fp y)"
    and call: "udp_recvfrom (Some (yk_x y)) (sys_sockfd y sid) buf len (lib_view y) = Inr (r, from, buf', l)"
  shows "sys_inv (if r > 0 then hist_upd sid (\<lambda>h. h\<lparr>uh_read := uh_read h @ map buf' [0..<nat r]\<rparr>) (lib_put l y) else lib_put l y)"
  using call
proof (cases rule: udp_recvfrom_result)
  case (none e)
  then show ?thesis using lib_errno_inv [OF inv] by simp
next
  case (got k n q)
  let ?S = "ub_socks (yk_lib y)" and ?F = "ux_socks (yk_fp y)"
  have k: "k = unat (us_opaque (?F sid))" using got(1) by (rule sys_sockfd_nat)
  note d = sock_linkedD [OF linked_sock [OF sys_invD(6) [OF inv] sid], folded k]
  note r = d(7) [unfolded rx_link_def urx_ok_def]
  have n: "unat n \<le> unat (ul_rx_avail (?S k))" using got(4) by (simp add: word_le_nat_alt)
  have nL: "unat n \<le> unat (ul_rx_len (?S k))" "unat (ul_rx_head (?S k)) < unat (ul_rx_len (?S k))" "unat (ul_rx_len (?S k)) < 2 ^ 31"
    using r n by auto
  have sn: "sint n = int (unat n)" by (rule sint_small_32) (use nL in linarith)
  have pos: "0 < unat n" using got(3) by (simp add: unat_gt_0)
  have rn: "r = int (unat n)" using got(2) sn by (rule trans)
  have rpos: "r > 0" "nat r = unat n" unfolding rn using pos by (metis of_nat_0_less_iff, metis nat_int)
  have core: "ul_rx_core (?S k) = 0" using r n pos by (auto simp: word_unat_eq_iff)
  have put: "queue_put (sp_eq (yk_cq y), sp_mem (yk_cq y))
       (UB_cham_rx \<lparr>ubr_sock_id = ul_sock_id (?S k), ubr_core = 0, ubr_rx_head = n\<rparr>) UDP_QUEUE_BUMP_CHAM_RX = (0, q)"
    using got(7) core by simp
  have tail: "queue_tail (sp_eq (yk_cq y)) (sp_mem (yk_cq y)) \<noteq> None" using got(6) by simp
  note c = cq_put [OF inv _ tail put, simplified]
  have bytes: "map buf' [0..<unat n] = map (ring_byte (yk_shm y) (unat (ul_rx_buf (?S k))) (ul_rx_len (?S k)) (ul_rx_head (?S k))) [0..<unat n]"
    unfolding got(8) using ring_load_bytes [OF nL(2,1,3)] by simp
  note lk = linked_read [OF sys_invD(6) [OF inv] sid refl, of n, folded k, OF n refl, folded bytes]
  show ?thesis unfolding got(9) using rpos sys_invD [OF inv] c lk core by (simp add: sys_inv_def put_lctx_def)
qed

text \<open>A poll handles every waiting message, in order, and leaves the queue empty.\<close>

lemma poll_core_linked:
  assumes "spsc_wf aq" "linked (ub_socks l) F N qid C (spsc_contents aq) shm H" "length (spsc_contents aq) < fuel"
    and "lx_fast_app_qs (ub_ctxs l x) i = (sp_dq aq, sp_mem aq)"
  shows "\<exists>l' q. ulib_poll_core x i fuel (n, l) = Inr (n + length (spsc_contents aq), l') \<and> linked (ub_socks l') F N qid C [] shm H \<and>
    lx_fast_app_qs (ub_ctxs l' x) i = q \<and> spsc_wf (aq\<lparr>sp_dq := fst q, sp_mem := snd q\<rparr>) \<and> spsc_contents (aq\<lparr>sp_dq := fst q, sp_mem := snd q\<rparr>) = [] \<and>
    ub_shm l' = ub_shm l \<and> lx_app_fast_qs (ub_ctxs l' x) = lx_app_fast_qs (ub_ctxs l x) \<and> lx_ncores (ub_ctxs l' x) = lx_ncores (ub_ctxs l x)"
  using assms
proof (induction "spsc_contents aq" arbitrary: aq l n fuel)
  case Nil
  then obtain f where f: "fuel = Suc f" by (cases fuel) auto
  have "queue_head (sp_dq aq) (sp_mem aq) = None" using queue_take_empty [of aq] Nil by simp
  then show ?case using Nil f by (simp add: Let_def)
next
  case (Cons m ms)
  obtain f where f: "fuel = Suc f" "length ms < f" using Cons.prems(3) Cons.hyps(2) [symmetric] by (cases fuel) auto
  obtain p q r where t: "queue_head (sp_dq aq) (sp_mem aq) = Some p" "sp_mem aq p = m" "queue_dequeue (sp_dq aq) (sp_mem aq) = (0, q, r)"
    "spsc_wf (aq\<lparr>sp_dq := q, sp_mem := r\<rparr>)" "spsc_contents (aq\<lparr>sp_dq := q, sp_mem := r\<rparr>) = ms"
    using queue_take_first [OF Cons.prems(1) Cons.hyps(2) [symmetric]] by blast
  obtain l1 where l1: "ulib_fast_msg m l = Inr l1" "linked (ub_socks l1) F N qid C ms shm H" "l1\<lparr>ub_socks := ub_socks l\<rparr> = l"
    using linked_lib_msg [of "ub_socks l" F N qid C m ms shm H l] Cons.prems(2) Cons.hyps(2) by auto
  have same: "ub_ctxs l1 = ub_ctxs l" "ub_shm l1 = ub_shm l"
    using arg_cong [OF l1(3), of ub_ctxs] arg_cong [OF l1(3), of ub_shm] by simp_all
  let ?l2 = "put_lctx x ((ub_ctxs l1 x)\<lparr>lx_fast_app_qs := (lx_fast_app_qs (ub_ctxs l1 x))(i := (q, r))\<rparr>) l1"
  have "ulib_poll_core x i fuel (n, l) = ulib_poll_core x i f (n + 1, ?l2)" using f(1) t l1(1) Cons.prems(4) by (simp add: Let_def)
  moreover note Cons.hyps(1) [of "aq\<lparr>sp_dq := q, sp_mem := r\<rparr>" ?l2 f "n + 1", OF t(5) [symmetric] t(4)]
  ultimately show ?case using t(5) f(2) l1(2) same Cons.hyps(2) [symmetric] by simp
qed

lemma poll_linked:
  assumes inv: "sys_inv y"
  shows "\<exists>l. udp_poll_fast (yk_x y) (lib_view y) = Inr (length (spsc_contents (yk_aq y)), l) \<and> sys_inv (lib_put l y) \<and>
    spsc_contents (yk_aq (lib_put l y)) = []"
proof -
  note d = sys_invD [OF inv]
  have fuel: "length (spsc_contents (yk_aq y)) < unat (dq_nelems (sp_dq (yk_aq y))) + 1" using spsc_wf_nelems [OF d(2)] by simp
  obtain l q where p: "ulib_poll_core (yk_x y) 0 (unat (dq_nelems (sp_dq (yk_aq y))) + 1) (0, lib_view y) = Inr (0 + length (spsc_contents (yk_aq y)), l)"
    "linked (ub_socks l) (ux_socks (yk_fp y)) (ux_nsocks (yk_fp y)) (yk_qid y) (spsc_contents (yk_cq y)) [] (yk_shm y) (yk_hist y)"
    "lx_fast_app_qs (ub_ctxs l (yk_x y)) 0 = q" "spsc_wf ((yk_aq y)\<lparr>sp_dq := fst q, sp_mem := snd q\<rparr>)" "spsc_contents ((yk_aq y)\<lparr>sp_dq := fst q, sp_mem := snd q\<rparr>) = []"
    "ub_shm l = ub_shm (lib_view y)" "lx_app_fast_qs (ub_ctxs l (yk_x y)) = lx_app_fast_qs (ub_ctxs (lib_view y) (yk_x y))"
    "lx_ncores (ub_ctxs l (yk_x y)) = lx_ncores (ub_ctxs (lib_view y) (yk_x y))"
    using poll_core_linked [OF d(2) _ fuel, of "lib_view y" _ _ _ _ _ _ "yk_x y" 0 0] d(6) by fastforce
  have "udp_poll_fast (yk_x y) (lib_view y) = Inr (length (spsc_contents (yk_aq y)), l)"
    using p(1) d(3) by (simp add: udp_poll_fast_def)
  moreover have "sys_inv (lib_put l y)" using d p by (simp add: sys_inv_def)
  moreover have "spsc_contents (yk_aq (lib_put l y)) = []" using p by simp
  ultimately show ?thesis by blast
qed

lemma poll_returns:
  "sys_inv y \<Longrightarrow> \<exists>l. udp_poll_fast (yk_x y) (lib_view y) = Inr (length (spsc_contents (yk_aq y)), l) \<and> spsc_contents (yk_aq (lib_put l y)) = []"
  using poll_linked by blast

lemma poll_inv: "sys_inv y \<Longrightarrow> udp_poll_fast (yk_x y) (lib_view y) = Inr (n, l) \<Longrightarrow> sys_inv (lib_put l y)"
  using poll_linked [of y] by auto

section \<open>The fast path's steps\<close>

lemma fp_view_simps [simp]:
  "ux_socks (fp_view pkt len qe y) = ux_socks (yk_fp y)" "ux_nsocks (fp_view pkt len qe y) = ux_nsocks (yk_fp y)"
  "ux_shm (fp_view pkt len qe y) = yk_shm y" "ux_pkt (fp_view pkt len qe y) = pkt" "ux_len (fp_view pkt len qe y) = len"
  "ux_core (fp_view pkt len qe y) = ux_core (yk_fp y)" "ux_qe (fp_view pkt len qe y) = qe" "ux_qe_off (fp_view pkt len qe y) = ux_qe_off (yk_fp y)"
  "ux_shm_len (fp_view pkt len qe y) = ux_shm_len (yk_fp y)" "ux_ports (fp_view pkt len qe y) = ux_ports (yk_fp y)"
  "ux_nports (fp_view pkt len qe y) = ux_nports (yk_fp y)" "ux_ncores (fp_view pkt len qe y) = ux_ncores (yk_fp y)"
  "ux_eqs (fp_view pkt len qe y) (yk_qid y) = (sp_eq (yk_aq y), sp_mem (yk_aq y))"
  by (simp_all add: fp_view_def)

lemma fp_put_simps [simp]:
  "yk_lib (fp_put c y) = yk_lib y" "yk_fp (fp_put c y) = c" "yk_x (fp_put c y) = yk_x y" "yk_qid (fp_put c y) = yk_qid y"
  "yk_shm (fp_put c y) = ux_shm c" "yk_hist (fp_put c y) = yk_hist y" "yk_cq (fp_put c y) = yk_cq y"
  "yk_aq (fp_put c y) = (yk_aq y)\<lparr>sp_eq := fst (ux_eqs c (yk_qid y)), sp_mem := snd (ux_eqs c (yk_qid y))\<rparr>"
  by (simp_all add: fp_put_def)

lemma aq_put:
  assumes "sys_inv y" "aq_room y" "ty \<noteq> QUEUE_EMPTY"
  obtains q where "queue_put (sp_eq (yk_aq y), sp_mem (yk_aq y)) d ty = (0, q)"
    "spsc_wf ((yk_aq y)\<lparr>sp_eq := fst q, sp_mem := snd q\<rparr>)"
    "spsc_contents ((yk_aq y)\<lparr>sp_eq := fst q, sp_mem := snd q\<rparr>) = spsc_contents (yk_aq y) @ [\<lparr>qs_type = ty, qs_data = d\<rparr>]"
  using queue_put_room [OF sys_invD(2) [OF assms(1)] assms(3), of d] assms(2) unfolding aq_room_def
  by (metis fst_conv snd_conv)

text \<open>A transmission: the packet carries the oldest waiting datagram.\<close>

lemma tx_event:
  assumes inv: "sys_inv y" and room: "aq_room y" and len: "1500 \<le> len" "len < 2 ^ 32"
    and m: "spsc_contents (yk_cq y) = m # C" "qs_data m = UB_cham_tx b"
    and call: "udp_event_deq (fp_view pkt len (qe_of m) y) = Inr (r, c)"
    and cq: "spsc_wf cq" "spsc_contents cq = C"
  shows "r > 0" "sys_inv (hist_upd (ubt_sock_id b) (\<lambda>h. h\<lparr>uh_sent := uh_sent h @
    [(map (ux_pkt c) [UDP_PKT_INNER..<nat r], ip_dst (ux_pkt c), udp_dst (ux_pkt c) 20)]\<rparr>) ((fp_put c y)\<lparr>yk_cq := cq\<rparr>))"
proof -
  let ?F = "ux_socks (yk_fp y)" and ?sid = "ubt_sock_id b" and ?v = "fp_view pkt len (qe_of m) y"
  note d = sys_invD [OF inv]
  have lk: "linked (ub_socks (yk_lib y)) ?F (ux_nsocks (yk_fp y)) (yk_qid y) (m # C) (spsc_contents (yk_aq y)) (yk_shm y) (yk_hist y)"
    using d(6) m(1) by simp
  have ok: "qs_type m = UDP_QUEUE_BUMP_CHAM_TX" "?sid < ux_nsocks (yk_fp y)" using lk m(2) by (simp_all add: linked_def cmsg_ok_def)
  note s = sock_linkedD [OF linked_sock [OF lk ok(2)]]
  have b: "unat (ubt_tx_avail b) \<le> 1472" "ubt_core b = 0" "utx_ok (?F ?sid)" "unat (ubt_tx_avail b) \<le> unat (us_tx_len (?F ?sid))"
    using s(6) m(2) by (simp_all add: tx_link_def)
  have n: "unat (ucast (ubt_tx_avail b) :: u16) = unat (ubt_tx_avail b)" "ucast (ucast (ubt_tx_avail b) :: u16) = ubt_tx_avail b"
    by (rule ucast_16_small [OF b(1)])+
  let ?A = "UB_app_tx \<lparr>uat_opaque = us_opaque (?F ?sid), uat_tx_head = ubt_tx_avail b\<rparr>"
  obtain q where q: "queue_put (sp_eq (yk_aq y), sp_mem (yk_aq y)) ?A UDP_QUEUE_BUMP_APP_TX = (0, q)"
    "spsc_wf ((yk_aq y)\<lparr>sp_eq := fst q, sp_mem := snd q\<rparr>)"
    "spsc_contents ((yk_aq y)\<lparr>sp_eq := fst q, sp_mem := snd q\<rparr>) = spsc_contents (yk_aq y) @ [\<lparr>qs_type = UDP_QUEUE_BUMP_APP_TX, qs_data = ?A\<rparr>]"
    by (rule aq_put [OF inv room, where ty = UDP_QUEUE_BUMP_APP_TX and d = ?A]) simp
  define p where "p = udp_tx_packet (yk_shm y) (?F ?sid) b pkt"
  note pf = udp_tx_packet_fields [OF b(1), where shm = "yk_shm y" and s = "?F ?sid" and pkt = pkt, folded p_def]
  have "udp_event_deq ?v = udp_handle_bump_tx ?v b" using d(5) ok m(2) by (simp add: udp_event_deq_def qe_of_def)
  then have ev: "udp_handle_bump_tx ?v b = Inr (r, c)" using call by simp
  note sends = udp_bump_tx_sends [of ?v b "?F ?sid" "yk_qid y" q]
  have rc: "r = int (UDP_PKT_INNER + unat (ubt_tx_avail b))"
    "c = ((put_usock ?sid (udp_sock_tx (?F ?sid) (ubt_tx_avail b) (ucast (ubt_tx_avail b))) ?v)\<lparr>ux_pkt := p\<rparr>)\<lparr>ux_eqs := (ux_eqs ?v)(yk_qid y := q)\<rparr>"
    using sends ev len b ok s(4,5) q(1) by (simp_all add: p_def)
  show "r > 0" unfolding rc(1) by (simp only: of_nat_0_less_iff)
  have bytes: "map p [UDP_PKT_INNER..<UDP_PKT_INNER + unat (ubt_tx_avail b)] = map (utx_byte (yk_shm y) (?F ?sid)) [0..<unat (ubt_tx_avail b)]"
    by (rule nth_equalityI) (simp_all add: pf(12))
  have nr: "nat r = UDP_PKT_INNER + unat (ubt_tx_avail b)" unfolding rc(1) by (rule nat_int)
  note t = linked_transmit [OF lk m(2) n refl, unfolded n]
  have "sys_inv (hist_upd ?sid (\<lambda>h. h\<lparr>uh_sent := uh_sent h @ [(map p [UDP_PKT_INNER..<UDP_PKT_INNER + unat (ubt_tx_avail b)], ip_dst p, udp_dst p 20)]\<rparr>) ((fp_put c y)\<lparr>yk_cq := cq\<rparr>))"
    unfolding bytes pf(7,9) sys_inv_def using d cq q(2,3) t by (simp add: rc(2))
  moreover have "ux_pkt c = p" by (simp add: rc(2))
  ultimately show "sys_inv (hist_upd ?sid (\<lambda>h. h\<lparr>uh_sent := uh_sent h @
    [(map (ux_pkt c) [UDP_PKT_INNER..<nat r], ip_dst (ux_pkt c), udp_dst (ux_pkt c) 20)]\<rparr>) ((fp_put c y)\<lparr>yk_cq := cq\<rparr>))"
    unfolding nr by simp
qed

lemma release_event:
  assumes inv: "sys_inv y" and m: "spsc_contents (yk_cq y) = m # C" "qs_data m = UB_cham_rx b"
    and call: "udp_event_deq (fp_view pkt len (qe_of m) y) = Inr (r, c)"
    and cq: "spsc_wf cq" "spsc_contents cq = C"
  shows "sys_inv ((fp_put c y)\<lparr>yk_cq := cq\<rparr>)"
proof -
  let ?F = "ux_socks (yk_fp y)" and ?sid = "ubr_sock_id b" and ?v = "fp_view pkt len (qe_of m) y"
  note d = sys_invD [OF inv]
  have lk: "linked (ub_socks (yk_lib y)) ?F (ux_nsocks (yk_fp y)) (yk_qid y) (m # C) (spsc_contents (yk_aq y)) (yk_shm y) (yk_hist y)"
    using d(6) m(1) by simp
  have ok: "qs_type m = UDP_QUEUE_BUMP_CHAM_RX" "?sid < ux_nsocks (yk_fp y)" using lk m(2) by (simp_all add: linked_def cmsg_ok_def)
  note s = sock_linkedD [OF linked_sock [OF lk ok(2)]]
  have b: "ubr_core b = 0" using s(7) m(2) by (simp add: rx_link_def)
  have "udp_event_deq ?v = Inr (0, put_usock ?sid (udp_sock_rx_bump (?F ?sid) (ubr_rx_head b)) ?v)"
    using d(5) ok b m(2) by (simp add: udp_event_deq_def qe_of_def udp_handle_bump_rx_def)
  then have c: "c = put_usock ?sid (udp_sock_rx_bump (?F ?sid) (ubr_rx_head b)) ?v" using call by simp
  show ?thesis unfolding sys_inv_def using d cq linked_release [OF lk m(2) refl] by (simp add: c)
qed

lemma deq_inv:
  assumes inv: "sys_inv y" and recv: "spsc_recv (yk_cq y) = Some (m, cq)" and room: "aq_room y" and len: "1500 \<le> len" "len < 2 ^ 32"
    and call: "udp_event_deq (fp_view pkt len (qe_of m) y) = Inr (r, c)"
  shows "sys_inv (let y1 = (fp_put c y)\<lparr>yk_cq := cq\<rparr>
      in case qs_data m of
           UB_cham_tx b \<Rightarrow> if r > 0 then hist_upd (ubt_sock_id b) (\<lambda>h. h\<lparr>uh_sent := uh_sent h @
             [(map (ux_pkt c) [UDP_PKT_INNER..<nat r], ip_dst (ux_pkt c), udp_dst (ux_pkt c) 20)]\<rparr>) y1 else y1
         | _ \<Rightarrow> y1)"
proof -
  note d = sys_invD [OF inv]
  obtain x C where C: "spsc_contents (yk_cq y) = x # C"
    using spscq.deq_empty [OF d(1)] recv by (cases "spsc_contents (yk_cq y)") auto
  obtain s' where s': "spsc_recv (yk_cq y) = Some (x, s')" "spsc_wf s'" "spsc_contents s' = C"
    using spscq.deq_some [OF d(1) C] by blast
  then have m: "spsc_contents (yk_cq y) = m # C" and cq: "spsc_wf cq" "spsc_contents cq = C" using recv C by simp_all
  have "cmsg_ok (ux_nsocks (yk_fp y)) m" using d(6) m by (simp add: linked_def)
  then consider b where "qs_data m = UB_cham_tx b" | b where "qs_data m = UB_cham_rx b"
    by (cases "qs_data m") (simp_all add: cmsg_ok_def)
  then show ?thesis
  proof cases
    case 1
    then show ?thesis using tx_event [OF inv room len m 1 call cq] by simp
  next
    case 2
    then show ?thesis using release_event [OF inv m 2 call cq] by simp
  qed
qed

text \<open>A packet: either it is dropped before any ring is touched, or its payload arrives at the target.\<close>

lemma udp_sock_find_frame:
  assumes "udp_sock_find c dst = Inr (found, c')"
  shows "ux_socks c' = ux_socks c" "ux_nsocks c' = ux_nsocks c" "ux_shm c' = ux_shm c" "ux_eqs c' = ux_eqs c" "ux_core c' = ux_core c"
    "ux_pkt c' = ux_pkt c" "ux_len c' = ux_len c" "ux_qe_off c' = ux_qe_off c" "ux_shm_len c' = ux_shm_len c"
    "found = Some sid \<Longrightarrow> sid < ux_nsocks c"
  using assms by (auto simp: udp_sock_find_def Let_def not_le split: if_splits)

lemma dropped_inv:
  assumes inv: "sys_inv y" and c: "ux_socks c = ux_socks (yk_fp y)" "ux_nsocks c = ux_nsocks (yk_fp y)" "ux_shm c = yk_shm y"
    "ux_eqs c (yk_qid y) = (sp_eq (yk_aq y), sp_mem (yk_aq y))" "ux_core c = ux_core (yk_fp y)" "ux_qe_off c = ux_qe_off (yk_fp y)"
    "ux_shm_len c = ux_shm_len (yk_fp y)"
  shows "sys_inv (fp_put c y)"
  using sys_invD [OF inv] c by (simp add: sys_inv_def)

lemma deliver_inv:
  assumes inv: "sys_inv y" and room: "aq_room y" and sid: "sid < ux_nsocks (yk_fp y)"
    and c1: "ux_socks c1 = ux_socks (yk_fp y)" "ux_nsocks c1 = ux_nsocks (yk_fp y)" "ux_shm c1 = yk_shm y"
      "ux_eqs c1 (yk_qid y) = (sp_eq (yk_aq y), sp_mem (yk_aq y))" "ux_core c1 = ux_core (yk_fp y)" "ux_qe_off c1 = ux_qe_off (yk_fp y)"
      "ux_shm_len c1 = ux_shm_len (yk_fp y)" "ux_pkt c1 = pkt"
    and hl: "8 \<le> unat (udp_hlen pkt (udp_ip_hdrs_len pkt))"
    and call: "udp_rx_deliver c1 sid = Inr (r, c)"
  shows "sys_inv (if r = 0 then hist_upd sid (\<lambda>h. h\<lparr>uh_arr := uh_arr h @
     map (\<lambda>k. pkt (udp_ip_hdrs_len pkt + 8 + k)) [0..<unat (udp_hlen pkt (udp_ip_hdrs_len pkt)) - 8]\<rparr>) (fp_put c y) else fp_put c y)"
proof -
  let ?F = "ux_socks (yk_fp y)" and ?h = "udp_ip_hdrs_len pkt"
  let ?s = "?F sid"
  define n where "n = (ucast (udp_hlen pkt ?h - 8 :: u16) :: u32)"
  note d = sys_invD [OF inv]
  note s = sock_linkedD [OF linked_sock [OF d(6) sid]]
  have le: "us_rx_avail ?s \<le> us_rx_len ?s" using s(7) by (simp add: rx_link_def urx_ok_def word_le_nat_alt)
  have u: "unat (udp_hlen pkt ?h - 8) = unat (udp_hlen pkt ?h) - 8" using hl by (subst unat_sub) (simp_all add: word_le_nat_alt)
  have n: "unat n = unat (udp_hlen pkt ?h) - 8" by (simp add: n_def unat_ucast_up u)
  show ?thesis
  proof (cases "n > us_rx_len ?s - us_rx_avail ?s")
    case True
    then have "r = -1" "c = c1" using call c1 by (simp_all add: udp_rx_deliver_def Let_def n_def)
    then show ?thesis using dropped_inv [OF inv c1(1-7)] by simp
  next
    case False
    have nle: "unat n \<le> unat (us_rx_len ?s) - unat (us_rx_avail ?s)"
      using False le by (simp add: word_le_nat_alt unat_sub not_less)
    define b where "b = \<lparr>uar_opaque = us_opaque ?s, uar_core = (0 :: u16), uar_rx_port = udp_src pkt ?h, uar_rx_ip = ip_src pkt, uar_rx_avail = n\<rparr>"
    obtain q where q: "queue_put (sp_eq (yk_aq y), sp_mem (yk_aq y)) (UB_app_rx b) UDP_QUEUE_BUMP_APP_RX = (0, q)"
      "spsc_wf ((yk_aq y)\<lparr>sp_eq := fst q, sp_mem := snd q\<rparr>)"
      "spsc_contents ((yk_aq y)\<lparr>sp_eq := fst q, sp_mem := snd q\<rparr>) = spsc_contents (yk_aq y) @ [\<lparr>qs_type = UDP_QUEUE_BUMP_APP_RX, qs_data = UB_app_rx b\<rparr>]"
      by (rule aq_put [OF inv room, where ty = UDP_QUEUE_BUMP_APP_RX and d = "UB_app_rx b"]) simp
    let ?shm = "ring_store (yk_shm y) (unat (us_rx_off ?s)) (us_rx_len ?s) (ring_wrap (us_rx_len ?s) (us_rx_head ?s + us_rx_avail ?s)) pkt (?h + 8) n"
    let ?fs = "?s\<lparr>us_rx_avail := us_rx_avail ?s + n, us_rx_core := uint (ux_core c1)\<rparr>"
    have rc: "r = 0" "c = ((put_usock sid ?fs c1)\<lparr>ux_shm := ?shm\<rparr>)\<lparr>ux_eqs := (ux_eqs c1)(yk_qid y := q)\<rparr>"
      using call c1 False d(4) s(4) q(1) [unfolded b_def]
      by (auto simp: udp_rx_deliver_def Let_def n_def [symmetric] split: if_splits)
    note a = linked_arrive [OF d(6) sid nle b_def, of "uint (ux_core c1)" pkt "?h + 8", unfolded n]
    have "sys_inv (hist_upd sid (\<lambda>h. h\<lparr>uh_arr := uh_arr h @ map (\<lambda>k. pkt (?h + 8 + k)) [0..<unat (udp_hlen pkt ?h) - 8]\<rparr>) (fp_put c y))"
      unfolding sys_inv_def using d q(2,3) a c1 by (simp add: rc)
    then show ?thesis using rc(1) by simp
  qed
qed

lemma rx_inv:
  assumes inv: "sys_inv y" and room: "aq_room y" and call: "udp_event_rx (fp_view pkt len qe y) = Inr (r, c)"
  shows "sys_inv (case rx_target (fp_view pkt len qe y) of
        Some sid \<Rightarrow> if r = 0 then hist_upd sid (\<lambda>h. h\<lparr>uh_arr := uh_arr h @
            map (\<lambda>k. pkt (udp_ip_hdrs_len pkt + 8 + k)) [0..<unat (udp_hlen pkt (udp_ip_hdrs_len pkt)) - 8]\<rparr>) (fp_put c y) else fp_put c y
      | None \<Rightarrow> fp_put c y)"
proof -
  let ?v = "fp_view pkt len qe y"
  show ?thesis
  proof (cases "udp_rx_parse ?v")
    case False
    then have "r = -1" "c = ?v" using call by (simp_all add: udp_event_rx_def udp_rx_body_def)
    then show ?thesis using dropped_inv [OF inv] by (simp split: option.split)
  next
    case True
    have hl: "8 \<le> unat (udp_hlen pkt (udp_ip_hdrs_len pkt))" using True by (simp add: udp_rx_parse_def Let_def)
    obtain found c1 where f: "udp_sock_find ?v (udp_dst pkt (udp_ip_hdrs_len pkt)) = Inr (found, c1)"
      using call True by (auto simp: udp_event_rx_def udp_rx_body_def split: sum.splits)
    note fr = udp_sock_find_frame [OF f]
    show ?thesis
    proof (cases found)
      case None
      then have "c = c1" using call True f by (simp add: udp_event_rx_def udp_rx_body_def)
      then show ?thesis using None f dropped_inv [OF inv, of c1] fr by (simp add: rx_target_def)
    next
      case (Some sid)
      then have "udp_rx_deliver c1 sid = Inr (r, c)" using call True f fr(5) sys_invD(4) [OF inv]
        by (simp add: udp_event_rx_def udp_rx_body_def)
      from deliver_inv [OF inv room _ _ _ _ _ _ _ _ _ hl this] show ?thesis
        using Some f fr by (simp add: rx_target_def)
    qed
  qed
qed

section \<open>Reachable states\<close>

lemma udp_step_inv:
  assumes "udp_step y z" "sys_inv y"
  shows "sys_inv z"
  using assms
proof (cases rule: udp_step.cases)
  case (send sid len buf addr r l)
  then show ?thesis using send_inv [OF assms(2) send(2,3,4)] by simp
next
  case (recv sid buf len r sender buf' l)
  then show ?thesis using recv_inv [OF assms(2) recv(2,3)] by simp
next
  case (poll n l)
  then show ?thesis using poll_inv [OF assms(2) poll(2)] by simp
next
  case (deq m cq len pkt r c)
  then show ?thesis using deq_inv [OF assms(2) deq(2-6)] by simp
next
  case (rx pkt len qe r c)
  then show ?thesis using rx_inv [OF assms(2) rx(2,3)] by simp
qed

lemma udp_reach_inv: "udp_reach y0 y \<Longrightarrow> sys_inv y0 \<Longrightarrow> sys_inv y"
  by (induction rule: udp_reach.induct) (auto intro: udp_step_inv)

end
