(* ===== verification/Udp_Props.thy ===== *)
theory Udp_Props
  imports Udp_Link "HOL-Library.Sublist"
begin

unbundle bit_operations_syntax

text \<open>The properties of the UDP protocol, with the concrete states at which they are applied.\<close>

section \<open>Datagrams end to end between an application and its core\<close>

text \<open>Sockets as they are after creation and binding: both sides agree and nothing is in flight.\<close>

definition sock_fresh :: "udp_socket_lib \<Rightarrow> udp_sock \<Rightarrow> bool" where
  "sock_fresh ls fs \<longleftrightarrow>
     0 < unat (us_rx_len fs) \<and> unat (us_rx_len fs) < 2 ^ 31 \<and> us_rx_avail fs = 0 \<and> us_rx_head fs = 0 \<and>
     0 < unat (us_tx_len fs) \<and> unat (us_tx_len fs) < 2 ^ 31 \<and> us_tx_avail fs = 0 \<and> us_tx_head fs = 0 \<and>
     ul_rx_len ls = us_rx_len fs \<and> ul_rx_buf ls = us_rx_off fs \<and> ul_rx_avail ls = 0 \<and> ul_rx_head ls = 0 \<and>
     ul_tx_len ls = us_tx_len fs \<and> ul_tx_buf ls = us_tx_off fs \<and> ul_tx_avail ls = 0 \<and> ul_tx_head ls = 0"

definition udp_sys_init :: "udp_sys \<Rightarrow> bool" where
  "udp_sys_init y \<longleftrightarrow>
     spsc_wf (yk_cq y) \<and> spsc_wf (yk_aq y) \<and> spsc_contents (yk_cq y) = [] \<and> spsc_contents (yk_aq y) = [] \<and>
     lx_ncores (ub_ctxs (yk_lib y) (yk_x y)) = 1 \<and> ux_core (yk_fp y) = 0 \<and> ux_qe_off (yk_fp y) + 64 \<le> ux_shm_len (yk_fp y) \<and>
     rings_apart (ux_socks (yk_fp y)) (ux_nsocks (yk_fp y)) \<and>
     (\<forall>sid < ux_nsocks (yk_fp y). yk_hist y sid = \<lparr>uh_acc = [], uh_sent = [], uh_arr = [], uh_read = []\<rparr> \<and>
        unat (us_opaque (ux_socks (yk_fp y) sid)) < LIB_MAX_SOCKETS \<and>
        ul_sock_id (lsock (ub_socks (yk_lib y)) (ux_socks (yk_fp y)) sid) = sid \<and>
        ul_tx_core (lsock (ub_socks (yk_lib y)) (ux_socks (yk_fp y)) sid) = 0 \<and>
        us_app_bump_qids (ux_socks (yk_fp y) sid) ! 0 = yk_qid y \<and> us_local_port (ux_socks (yk_fp y) sid) \<noteq> 0 \<and>
        sock_fresh (lsock (ub_socks (yk_lib y)) (ux_socks (yk_fp y)) sid) (ux_socks (yk_fp y) sid))"

lemma sock_fresh_links:
  assumes "sock_fresh ls fs"
  shows "tx_link shm ls fs [] [] [] []" "rx_link shm ls fs [] [] [] []"
  using assms by (simp_all add: sock_fresh_def tx_link_def rx_link_def utx_ok_def urx_ok_def)

lemma udp_sys_init_inv:
  assumes "udp_sys_init y"
  shows "sys_inv y"
proof -
  have "sock_linked (ub_socks (yk_lib y)) (ux_socks (yk_fp y)) (yk_qid y) [] [] (yk_shm y) (yk_hist y sid) sid"
    if "sid < ux_nsocks (yk_fp y)" for sid
    using assms that sock_fresh_links unfolding udp_sys_init_def sock_linked_def by simp
  then show ?thesis using assms by (simp add: udp_sys_init_def sys_inv_def linked_def)
qed


subsection \<open>A concrete system\<close>

text \<open>One socket with rings of 2048 bytes, queues of four slots.\<close>

definition demo_uring :: "udp_bump ring" where
  "demo_uring = (\<lambda>_. \<lparr>qs_type = 0, qs_data = UB_app_tx \<lparr>uat_opaque = 0, uat_tx_head = 0\<rparr>\<rparr>)"

definition demo_uq :: "udp_bump spsc" where
  "demo_uq = \<lparr>sp_eq = \<lparr>eq_tail = 0, eq_nelems = 4, eq_elsize = 32, eq_off = 0, eq_entries = 0\<rparr>,
     sp_dq = \<lparr>dq_head = 0, dq_nelems = 4, dq_elsize = 32, dq_off = 0, dq_entries = 0\<rparr>, sp_mem = demo_uring\<rparr>"

definition demo_ufs :: udp_sock where
  "demo_ufs = \<lparr>us_id = 0, us_opaque = 7, us_tx_core = 0, us_rx_core = -1, us_app_bump_qid = 5, us_app_bump_qids = replicate 16 5,
     us_local_ip = 0x0a000001, us_local_port = 2000, us_reuport = 0, us_rx_len = 2048, us_rx_avail = 0, us_rx_head = 0, us_rx_off = 4096,
     us_tx_len = 2048, us_tx_avail = 0, us_tx_head = 0, us_tx_off = 8192\<rparr>"

definition demo_uls :: udp_socket_lib where
  "demo_uls = (udp_socket_lib_new 7 0)\<lparr>ul_tx_core := 0, ul_rx_len := 2048, ul_rx_buf := 4096, ul_tx_len := 2048, ul_tx_buf := 8192\<rparr>"

definition demo_ufp :: udp_ctx where
  "demo_ufp = \<lparr>ux_pkt = (\<lambda>_. 0), ux_len = 0, ux_shm = (\<lambda>_. 0), ux_shm_len = 65536, ux_core = 0, ux_ncores = 1, ux_qe = UQE_other 0, ux_qe_off = 0,
     ux_eqs = (\<lambda>_. (sp_eq demo_uq, sp_mem demo_uq)), ux_ports = (\<lambda>_. udp_port_init), ux_nports = UDP_NPORTS,
     ux_socks = (\<lambda>_. demo_ufs), ux_nsocks = 1, ux_cfg = None\<rparr>"

definition demo_ulib :: udp_lib where
  "demo_ulib = \<lparr>ub_up = True, ub_next_sockfd = 8, ub_socks = (\<lambda>_. demo_uls),
     ub_ctxs = (\<lambda>_. \<lparr>lx_app_slow_q = (sp_eq demo_uq, (\<lambda>_. \<lparr>qs_type = 0, qs_data = UM_new_sock_req 0\<rparr>)),
        lx_slow_app_q = (sp_dq demo_uq, (\<lambda>_. \<lparr>qs_type = 0, qs_data = UM_new_sock_req 0\<rparr>)), lx_ncores = 1,
        lx_app_fast_qs = (\<lambda>_. (sp_eq demo_uq, sp_mem demo_uq)), lx_fast_app_qs = (\<lambda>_. (sp_dq demo_uq, sp_mem demo_uq))\<rparr>),
     ub_shm = (\<lambda>_. 0), ub_errno = 0\<rparr>"

definition demo_usys :: udp_sys where
  "demo_usys = \<lparr>yk_lib = demo_ulib, yk_fp = demo_ufp, yk_x = 0, yk_qid = 5, yk_cq = demo_uq, yk_aq = demo_uq, yk_shm = (\<lambda>_. 0),
     yk_hist = (\<lambda>_. \<lparr>uh_acc = [], uh_sent = [], uh_arr = [], uh_read = []\<rparr>)\<rparr>"

lemma demo_uq_empty: "spsc_inv demo_uq []"
  by (simp add: spsc_inv_def demo_uq_def ring_geom_def ring_rep_def slot_pos_def demo_uring_def exI [of _ 0])

lemma demo_usys_init: "udp_sys_init demo_usys"
  using spsc_contents_inv [OF demo_uq_empty] demo_uq_empty
  by (simp add: udp_sys_init_def demo_usys_def spsc_wf_def demo_ulib_def demo_ufp_def demo_ufs_def demo_uls_def udp_socket_lib_new_def
      sock_fresh_def rings_apart_def ring_apart_def)

lemma demo_usys_send:
  "\<exists>l. udp_sendto (Some 0) 7 (\<lambda>k. of_nat k) 3 (0x0100000a, 0xd107) (lib_view demo_usys) = Inr (3, l)"
  by (simp add: udp_sendto_def ulookup_sock_def Let_def lib_view_def demo_usys_def demo_ulib_def demo_uls_def udp_socket_lib_new_def ulib_core_ok_def
      queue_put_cases queue_tail_def demo_uq_def demo_uring_def)


section \<open>Across the wire\<close>

text \<open>
  C38: a datagram of at most 1472 bytes sent by one host and received by another arrives complete and
  unchanged. The sender's handler returns the length of the packet; when the receiver gets these
  bytes and its port table names a socket whose ring and queue have room, the receiver appends
  exactly the sender's bytes to that socket's unread stream, keeps the bytes that were unread, and
  announces their number with the sender's address and port.
\<close>

theorem udp_wire_roundtrip:
  assumes tx: "1500 \<le> ux_len c" "ux_len c < 2 ^ 32" "unat (ubt_core b) < UDP_FP_CORES" "ubt_sock_id b < ux_nsocks c"
      "s = ux_socks c (ubt_sock_id b)" "us_local_port s \<noteq> 0" "utx_ok s" "unat (ubt_tx_avail b) \<le> 1472" "unat (ubt_tx_avail b) \<le> unat (us_tx_len s)"
      "queue_put (ux_eqs c (us_app_bump_qids s ! unat (ubt_core b))) (UB_app_tx \<lparr>uat_opaque = us_opaque s, uat_tx_head = ubt_tx_avail b\<rparr>) UDP_QUEUE_BUMP_APP_TX = (0, q)"
    and rx: "unat (ux_core d) < UDP_FP_CORES" "\<And>pkt len. udp_sock_find (d\<lparr>ux_pkt := pkt, ux_len := len\<rparr>) (ubt_tx_port b) = Inr (Some sid, d1 pkt len)"
      "t = ux_socks d sid" "urx_ok t" "unat (ubt_tx_avail b) \<le> unat (us_rx_len t) - unat (us_rx_avail t)"
      "queue_put (ux_eqs d (us_app_bump_qids t ! unat (ux_core d))) (UB_app_rx \<lparr>uar_opaque = us_opaque t, uar_core = ux_core d,
         uar_rx_port = us_local_port s, uar_rx_ip = us_local_ip s, uar_rx_avail = ubt_tx_avail b\<rparr>) UDP_QUEUE_BUMP_APP_RX = (0, q')"
  shows "\<exists>r c' d'. udp_handle_bump_tx c b = Inr (r, c') \<and> udp_event_rx (d\<lparr>ux_pkt := ux_pkt c', ux_len := nat r\<rparr>) = Inr (0, d') \<and>
    unat (us_rx_avail (ux_socks d' sid)) = unat (us_rx_avail t) + unat (ubt_tx_avail b) \<and>
    (\<forall>j < unat (us_rx_avail t). urx_byte (ux_shm d') (ux_socks d' sid) j = urx_byte (ux_shm d) t j) \<and>
    (\<forall>j < unat (ubt_tx_avail b). urx_byte (ux_shm d') (ux_socks d' sid) (unat (us_rx_avail t) + j) = utx_byte (ux_shm c) s j) \<and>
    ux_eqs d' (us_app_bump_qids t ! unat (ux_core d)) = q'"
proof -
  define p where "p = udp_tx_packet (ux_shm c) s b (ux_pkt c)"
  let ?n = "ubt_tx_avail b" and ?len = "UDP_PKT_INNER + unat (ubt_tx_avail b)"
  note pf = udp_tx_packet_fields [OF tx(8), where shm = "ux_shm c" and s = s and pkt = "ux_pkt c", folded p_def]
  note sends = udp_bump_tx_sends [OF tx(1-9) refl tx(10), folded p_def]
  let ?d = "d\<lparr>ux_pkt := p, ux_len := ?len\<rparr>"
  have hl: "udp_ip_hdrs_len p = 20" by (simp add: udp_ip_hdrs_len_def pf)
  have parse: "udp_rx_parse ?d" by (simp add: udp_rx_parse_def Let_def hl pf)
  have f: "udp_sock_find ?d (ubt_tx_port b) = Inr (Some sid, d1 p ?len)" by (rule rx(2))
  note fr = udp_sock_find_frame [OF f]
  have n: "(ucast (udp_hlen p 20 - 8 :: u16) :: u32) = ?n" unfolding pf(10) by (rule ucast_16_small(2) [OF tx(8)])
  let ?t = "t\<lparr>us_rx_avail := us_rx_avail t + ?n, us_rx_core := uint (ux_core d)\<rparr>"
  let ?shm = "ring_store (ux_shm d) (unat (us_rx_off t)) (us_rx_len t) (ring_wrap (us_rx_len t) (us_rx_head t + us_rx_avail t)) p 28 ?n"
  have deliver: "udp_rx_deliver (d1 p ?len) sid = Inr (0, ((put_usock sid ?t (d1 p ?len))\<lparr>ux_shm := ?shm\<rparr>)
     \<lparr>ux_eqs := (ux_eqs d)(us_app_bump_qids t ! unat (ux_core d) := q')\<rparr>)"
  proof -
    note same = fr(1-7) [simplified]
    have "udp_rx_deliver (d1 p ?len) sid = Inr (0, ((put_usock sid ?t (d1 p ?len))\<lparr>ux_shm := ring_store (ux_shm (d1 p ?len)) (unat (us_rx_off t)) (us_rx_len t)
        (ring_wrap (us_rx_len t) (us_rx_head t + us_rx_avail t)) (ux_pkt (d1 p ?len)) (20 + 8) ?n\<rparr>)
      \<lparr>ux_eqs := (ux_eqs (d1 p ?len))(us_app_bump_qids t ! unat (ux_core d) := q')\<rparr>)"
      unfolding same(5) [symmetric]
    proof (rule udp_rx_delivers)
      show "t = ux_socks (d1 p ?len) sid" by (simp add: same(1) rx(3))
      show "?n = ucast (udp_hlen (ux_pkt (d1 p ?len)) 20 - 8)" "20 = udp_ip_hdrs_len (ux_pkt (d1 p ?len))"
        unfolding same(6) n hl by (rule refl)+
      show "20 + 8 + unat ?n \<le> ux_len (d1 p ?len)" by (simp add: same(7))
      show "queue_put (ux_eqs (d1 p ?len) (us_app_bump_qids t ! unat (ux_core (d1 p ?len)))) (UB_app_rx \<lparr>uar_opaque = us_opaque t,
          uar_core = ux_core (d1 p ?len), uar_rx_port = udp_src (ux_pkt (d1 p ?len)) 20, uar_rx_ip = ip_src (ux_pkt (d1 p ?len)),
          uar_rx_avail = ?n\<rparr>) UDP_QUEUE_BUMP_APP_RX = (0, q')"
        unfolding same(4-6) pf(6,8) by (rule rx(6))
    qed (rule refl rx(4,5))+
    then show ?thesis unfolding same by simp
  qed
  have ev: "udp_event_rx ?d = Inr (0, ((put_usock sid ?t (d1 p ?len))\<lparr>ux_shm := ?shm\<rparr>)\<lparr>ux_eqs := (ux_eqs d)(us_app_bump_qids t ! unat (ux_core d) := q')\<rparr>)"
    using parse f fr rx(1) deliver by (simp add: udp_event_rx_def udp_rx_body_def hl pf(9))
  have room: "unat (us_rx_avail t) + unat ?n \<le> unat (us_rx_len t)" using rx(4,5) by (auto simp: urx_ok_def)
  have av: "unat (us_rx_avail t + ?n) = unat (us_rx_avail t) + unat ?n"
    using room rx(4) by (intro unat_add_small_iff) (auto simp: urx_ok_def)
  have byte: "urx_byte ?shm ?t j = (if j < unat (us_rx_avail t) then urx_byte (ux_shm d) t j else p (28 + (j - unat (us_rx_avail t))))"
    if "j < unat (us_rx_avail t) + unat ?n" for j
    using ring_append [OF _ room _ that, of "us_rx_head t"] rx(4) by (simp add: urx_byte_def urx_ok_def)
  have pos: "urx_byte ?shm ?t (unat (us_rx_avail t) + j) = utx_byte (ux_shm c) s j" if "j < unat ?n" for j
    using byte [of "unat (us_rx_avail t) + j"] that pf(12) by simp
  have old: "urx_byte ?shm ?t j = urx_byte (ux_shm d) t j" if "j < unat (us_rx_avail t)" for j using byte [of j] that by simp
  show ?thesis
  proof (intro exI conjI)
    show "udp_handle_bump_tx c b = Inr (int ?len, ((put_usock (ubt_sock_id b) (udp_sock_tx s ?n (ucast ?n)) c)\<lparr>ux_pkt := p\<rparr>)
      \<lparr>ux_eqs := (ux_eqs c)(us_app_bump_qids s ! unat (ubt_core b) := q)\<rparr>)" by (rule sends)
    show "udp_event_rx (d\<lparr>ux_pkt := ux_pkt (((put_usock (ubt_sock_id b) (udp_sock_tx s ?n (ucast ?n)) c)\<lparr>ux_pkt := p\<rparr>)
      \<lparr>ux_eqs := (ux_eqs c)(us_app_bump_qids s ! unat (ubt_core b) := q)\<rparr>), ux_len := nat (int ?len)\<rparr>) =
      Inr (0, ((put_usock sid ?t (d1 p ?len))\<lparr>ux_shm := ?shm\<rparr>)\<lparr>ux_eqs := (ux_eqs d)(us_app_bump_qids t ! unat (ux_core d) := q')\<rparr>)"
      unfolding nat_int using ev by simp
  qed (use av pos old in simp_all)
qed

definition demo_utx :: udp_ctx where
  "demo_utx = demo_ufp\<lparr>ux_len := 1500, ux_shm := (\<lambda>i. of_nat i)\<rparr>"

definition demo_ubump :: udp_queue_bump_cham_tx where
  "demo_ubump = \<lparr>ubt_sock_id = 0, ubt_core = 0, ubt_tx_port = 3000, ubt_tx_ip = 0x0a000002, ubt_tx_avail = 3\<rparr>"

definition demo_urx :: udp_ctx where
  "demo_urx = demo_ufp\<lparr>ux_ports := (\<lambda>_. udp_port_bind udp_port_init 0)\<rparr>"

lemma udp_port_first:
  "po_nsocks (udp_port_bind udp_port_init sid) = 1" "po_next_sock (udp_port_bind udp_port_init sid) ! 0 = 0"
  "po_sids (udp_port_bind udp_port_init sid) ! 0 = sid"
  by (simp_all add: udp_port_bind_def udp_port_init_def del: upt_rec_numeral)

lemma demo_urx_find:
  "udp_sock_find (demo_urx\<lparr>ux_pkt := pkt, ux_len := len\<rparr>) (ubt_tx_port demo_ubump) =
    Inr (Some 0, (demo_urx\<lparr>ux_pkt := pkt, ux_len := len\<rparr>)\<lparr>ux_ports := (\<lambda>_. udp_port_bind udp_port_init 0)(3000 := udp_port_bind udp_port_init 0)\<rparr>)"
  by (simp add: udp_sock_find_def demo_urx_def demo_ufp_def udp_port_first udp_next_sock_def demo_ubump_def Let_def)

theorem udp_wire_roundtrip_witness:
  "\<exists>r c' d'. udp_handle_bump_tx demo_utx demo_ubump = Inr (r, c') \<and>
     udp_event_rx (demo_urx\<lparr>ux_pkt := ux_pkt c', ux_len := nat r\<rparr>) = Inr (0, d') \<and>
     unat (us_rx_avail (ux_socks d' 0)) = 3 \<and> urx_byte (ux_shm d') (ux_socks d' 0) 2 = utx_byte (ux_shm demo_utx) demo_ufs 2"
proof -
  let ?q = "snd (queue_put (ux_eqs demo_utx 5) (UB_app_tx \<lparr>uat_opaque = 7, uat_tx_head = 3\<rparr>) UDP_QUEUE_BUMP_APP_TX)"
  let ?q' = "snd (queue_put (ux_eqs demo_urx 5) (UB_app_rx \<lparr>uar_opaque = 7, uar_core = 0, uar_rx_port = 2000, uar_rx_ip = 0x0a000001, uar_rx_avail = 3\<rparr>)
    UDP_QUEUE_BUMP_APP_RX)"
  have s: "demo_ufs = ux_socks demo_utx (ubt_sock_id demo_ubump)" "demo_ufs = ux_socks demo_urx 0"
    by (simp_all add: demo_utx_def demo_urx_def demo_ufp_def)
  have "\<exists>r c' d'. udp_handle_bump_tx demo_utx demo_ubump = Inr (r, c') \<and>
     udp_event_rx (demo_urx\<lparr>ux_pkt := ux_pkt c', ux_len := nat r\<rparr>) = Inr (0, d') \<and>
     unat (us_rx_avail (ux_socks d' 0)) = unat (us_rx_avail demo_ufs) + unat (ubt_tx_avail demo_ubump) \<and>
    (\<forall>j < unat (us_rx_avail demo_ufs). urx_byte (ux_shm d') (ux_socks d' 0) j = urx_byte (ux_shm demo_urx) demo_ufs j) \<and>
    (\<forall>j < unat (ubt_tx_avail demo_ubump). urx_byte (ux_shm d') (ux_socks d' 0) (unat (us_rx_avail demo_ufs) + j) = utx_byte (ux_shm demo_utx) demo_ufs j) \<and>
    ux_eqs d' (us_app_bump_qids demo_ufs ! unat (ux_core demo_urx)) = ?q'"
    by (rule udp_wire_roundtrip [where q = ?q, OF _ _ _ _ s(1) _ _ _ _ _ _ demo_urx_find s(2)])
       (simp_all add: demo_utx_def demo_urx_def demo_ufp_def demo_ubump_def demo_ufs_def utx_ok_def urx_ok_def queue_put_cases demo_uq_def demo_uring_def)
  then obtain r c' d' where w: "udp_handle_bump_tx demo_utx demo_ubump = Inr (r, c')"
    "udp_event_rx (demo_urx\<lparr>ux_pkt := ux_pkt c', ux_len := nat r\<rparr>) = Inr (0, d')"
    "unat (us_rx_avail (ux_socks d' 0)) = 3" "\<forall>j < 3. urx_byte (ux_shm d') (ux_socks d' 0) j = utx_byte (ux_shm demo_utx) demo_ufs j"
    by (auto simp: demo_ufs_def demo_ubump_def)
  then show ?thesis by (intro exI [of _ r] exI [of _ c'] exI [of _ d']) simp
qed

section \<open>The receiving socket\<close>

text \<open>A port of the slow path: sockets fill the table from the front, every id is a socket's.\<close>

definition udp_port_ok :: "u32 \<Rightarrow> udp_port \<Rightarrow> bool" where
  "udp_port_ok N p \<longleftrightarrow> length (po_sids p) = UDP_REUSOCK_MAX \<and> length (po_next_sock p) = UDP_FP_CORES \<and> unat (po_nsocks p) \<le> UDP_REUSOCK_MAX \<and>
     (\<forall>i < unat (po_nsocks p). po_sids p ! i < N)"

text \<open>
  A socket bound to a port that no other socket has is found by the eBPF build on every core, and
  by the native build on core 0; the native build on any other of the first eight cores takes the
  entry of the table with the core's number, which no socket filled: it names socket 0, whatever
  port that socket has.
\<close>

theorem udp_bound_lookup:
  assumes "UDP_MIN_PORT \<le> port" and "port < UDP_MAX_PORT" and "ux_nports c = UDP_NPORTS" and "sid < ux_nsocks c"
    and "unat (ux_core c) < UDP_FP_CORES" and "ux_ports c port = udp_port_bind udp_port_init sid"
  shows "(\<exists>c'. ebpf_udp_sock_find c port = Inr (Some sid, c')) \<and>
    (ux_core c = 0 \<longrightarrow> (\<exists>c'. udp_sock_find c port = Inr (Some sid, c'))) \<and>
    (0 < unat (ux_core c) \<and> unat (ux_core c) < UDP_REUSOCK_MAX \<longrightarrow> (\<exists>c'. udp_sock_find c port = Inr (Some 0, c')))"
proof -
  have p: "po_nsocks (ux_ports c port) = 1" "po_sids (ux_ports c port) = sid # replicate 7 0"
    "po_next_sock (ux_ports c port) ! unat (ux_core c) = of_nat (unat (ux_core c))"
    using assms(5) unfolding assms(6) udp_port_bind_def udp_port_init_def by (simp_all add: numeral_eq_Suc del: upt_Suc)
  have np: "\<not> unat port \<ge> UDP_NPORTS" using assms(2) by (simp add: word_less_nat_alt)
  have rg: "\<not> (port < UDP_MIN_PORT \<or> port > UDP_MAX_PORT)" using assms(1,2) by auto
  have ix: "unat (of_nat (unat (ux_core c)) :: u32) = unat (ux_core c)"
    by (simp add: unat_ucast_up)
  have e: "\<exists>c'. ebpf_udp_sock_find c port = Inr (Some sid, c')"
    using rg np assms p by (simp add: ebpf_udp_sock_find_def Let_def not_le)
  have n0: "\<exists>c'. udp_sock_find c port = Inr (Some sid, c')" if "ux_core c = 0"
    using rg np assms p that by (simp add: udp_sock_find_def Let_def not_le)
  have z: "(sid # replicate 7 0) ! unat (ux_core c) = 0" if "0 < unat (ux_core c)" "unat (ux_core c) < UDP_REUSOCK_MAX"
    using that by (cases "unat (ux_core c)") (simp_all del: replicate.simps)
  have "0 < ux_nsocks c" using assms(4) by (metis word_not_simps(1) word_neq_0_conv)
  then have n1: "\<exists>c'. udp_sock_find c port = Inr (Some 0, c')" if "0 < unat (ux_core c)" "unat (ux_core c) < UDP_REUSOCK_MAX"
    using rg np assms p ix z [OF that] that by (simp add: udp_sock_find_def Let_def not_le)
  show ?thesis using e n0 n1 by blast
qed

theorem udp_bound_lookup_witness:
  "(\<exists>c'. ebpf_udp_sock_find (demo_ufp\<lparr>ux_core := 1, ux_nsocks := 3, ux_ports := (\<lambda>_. udp_port_bind udp_port_init 2)\<rparr>) 2000 = Inr (Some 2, c')) \<and>
   (\<exists>c'. udp_sock_find (demo_ufp\<lparr>ux_core := 1, ux_nsocks := 3, ux_ports := (\<lambda>_. udp_port_bind udp_port_init 2)\<rparr>) 2000 = Inr (Some 0, c'))"
  using udp_bound_lookup [of 2000 "demo_ufp\<lparr>ux_core := 1, ux_nsocks := 3, ux_ports := (\<lambda>_. udp_port_bind udp_port_init 2)\<rparr>" 2]
  by (simp add: demo_ufp_def)

section \<open>Oversized datagrams\<close>

lemma udp_tx_paylen_large:
  assumes "1472 < unat a" "unat a < 65536" "1500 \<le> len" "len < 2 ^ 32"
  shows "udp_tx_paylen len a = 1472"
proof -
  have a: "unat (ucast a :: u16) = unat a" using assms by (simp add: unsigned_ucast_eq take_bit_nat_eq_self)
  have m: "unat (of_nat (len - UDP_PKT_INNER) :: u32) = len - UDP_PKT_INNER"
    unfolding unsigned_of_nat of_nat_id using assms by (intro take_bit_nat_eq_self) simp
  have gt: "(ucast a :: u16) > UDP_MAX_PAYLOAD" using assms a by (simp add: word_less_nat_alt)
  have "\<not> (ucast UDP_MAX_PAYLOAD :: u32) > of_nat (len - UDP_PKT_INNER)"
    unfolding word_less_nat_alt m using assms by simp
  then show ?thesis unfolding udp_tx_paylen_def Let_def using gt by simp
qed

text \<open>
  a datagram longer than 1472 bytes is cut. Its packet carries the first 1472 bytes, the rest
  stays in the ring and is never scheduled; the packet of the next datagram then starts with the
  bytes left over from this one instead of its own.
\<close>

theorem udp_large_datagram_misframes:
  assumes len: "1500 \<le> ux_len c" "ux_len c < 2 ^ 32" and core: "ubt_core b1 = 0" "ubt_core b2 = 0"
    and sid: "ubt_sock_id b1 < ux_nsocks c" "ubt_sock_id b2 = ubt_sock_id b1"
    and s: "s = ux_socks c (ubt_sock_id b1)" "us_local_port s \<noteq> 0" "utx_ok s" "us_tx_avail s = 0"
    and n: "1472 < unat (ubt_tx_avail b1)" "unat (ubt_tx_avail b1) < 65536" "unat (ubt_tx_avail b2) \<le> 1472"
      "unat (ubt_tx_avail b1) + unat (ubt_tx_avail b2) \<le> unat (us_tx_len s)"
    and q: "queue_put (ux_eqs c (us_app_bump_qids s ! 0)) (UB_app_tx \<lparr>uat_opaque = us_opaque s, uat_tx_head = 1472\<rparr>) UDP_QUEUE_BUMP_APP_TX = (0, q1)"
      "queue_put q1 (UB_app_tx \<lparr>uat_opaque = us_opaque s, uat_tx_head = ubt_tx_avail b2\<rparr>) UDP_QUEUE_BUMP_APP_TX = (0, q2)"
  shows "\<exists>c1 c2. udp_handle_bump_tx c b1 = Inr (1500, c1) \<and> unat (us_tx_avail (ux_socks c1 (ubt_sock_id b1))) = unat (ubt_tx_avail b1) - 1472 \<and>
    udp_handle_bump_tx c1 b2 = Inr (int (UDP_PKT_INNER + unat (ubt_tx_avail b2)), c2) \<and>
    (\<forall>k < unat (ubt_tx_avail b2). ux_pkt c2 (UDP_PKT_INNER + k) = utx_byte (ux_shm c) s (1472 + k))"
proof -
  let ?a = "ubt_tx_avail b1" and ?sid = "ubt_sock_id b1" and ?qid = "us_app_bump_qids s ! 0"
  have pl: "udp_tx_paylen (ux_len c) ?a = 1472" using n len by (intro udp_tx_paylen_large) simp_all
  define p where "p = udp_tx_copy (ux_shm c) s (udp_fill_hdr s (ubt_tx_ip b1) (ubt_tx_port b1) 1472 (ux_pkt c)) 1472"
  define s1 where "s1 = udp_sock_tx s ?a 1472"
  define c1 where "c1 = ((put_usock ?sid s1 c)\<lparr>ux_pkt := p\<rparr>)\<lparr>ux_eqs := (ux_eqs c)(?qid := q1)\<rparr>"
  have h: "unat (us_tx_head s) < unat (us_tx_len s)" "unat (1472 :: u32) \<le> unat (us_tx_len s)" "unat (us_tx_len s) < 2 ^ 31"
    using s(3) n by (simp_all add: utx_ok_def)
  note w = wrap_pos [OF h]
  have s1: "s1 = s\<lparr>us_tx_head := ring_wrap (us_tx_len s) (us_tx_head s + 1472), us_tx_avail := ?a - 1472\<rparr>"
    using s(4) by (simp add: s1_def udp_sock_tx_def)
  have u: "unat (?a - 1472) = unat ?a - 1472" using n(1) by (subst unat_sub) (simp_all add: word_le_nat_alt)
  have k1: "us_app_bump_qids s1 = us_app_bump_qids s" "us_opaque s1 = us_opaque s" "ucast UDP_MAX_PAYLOAD = (1472 :: u32)" by (simp_all add: s1)
  have "udp_handle_bump_tx c b1 = udp_tx_send c ?sid b1"
    using len core(1) sid(1) s(1,2) by (auto simp: udp_handle_bump_tx_def)
  moreover have "udp_tx_send c ?sid b1 = Inr (1500, c1)"
    unfolding udp_tx_send_def Let_def s(1) [symmetric] pl p_def [symmetric] s1_def [symmetric] k1 using len core(1) q(1)
    by (simp add: c1_def)
  ultimately have e1: "udp_handle_bump_tx c b1 = Inr (1500, c1)" by (rule trans)
  have ok1: "utx_ok s1" using s(3) w(2) u n h by (simp add: utx_ok_def s1)
  have e2: "udp_handle_bump_tx c1 b2 = Inr (int (UDP_PKT_INNER + unat (ubt_tx_avail b2)),
    ((put_usock (ubt_sock_id b2) (udp_sock_tx s1 (ubt_tx_avail b2) (ucast (ubt_tx_avail b2))) c1)\<lparr>ux_pkt := udp_tx_packet (ux_shm c1) s1 b2 (ux_pkt c1)\<rparr>)
      \<lparr>ux_eqs := (ux_eqs c1)(?qid := q2)\<rparr>)"
    by (rule udp_bump_tx_sends) (use len core sid s n q ok1 in \<open>simp_all add: c1_def s1\<close>)
  have byte: "utx_byte (ux_shm c1) s1 k = utx_byte (ux_shm c) s (1472 + k)" for k
    using ring_byte_advance [OF h, of "ux_shm c" "unat (us_tx_off s)" k] by (simp add: utx_byte_def s1 c1_def)
  show ?thesis using e1 e2 u byte
    by (intro exI [of _ c1] exI) (auto simp: udp_tx_packet_def c1_def s1)
qed

theorem udp_large_datagram_misframes_witness:
  "\<exists>c1 c2. udp_handle_bump_tx demo_utx (demo_ubump\<lparr>ubt_tx_avail := 1500\<rparr>) = Inr (1500, c1) \<and>
     unat (us_tx_avail (ux_socks c1 0)) = 28 \<and> udp_handle_bump_tx c1 demo_ubump = Inr (31, c2) \<and>
     (\<forall>k < 3. ux_pkt c2 (UDP_PKT_INNER + k) = utx_byte (ux_shm demo_utx) demo_ufs (1472 + k))"
proof -
  let ?b1 = "demo_ubump\<lparr>ubt_tx_avail := 1500\<rparr>"
  let ?q1 = "snd (queue_put (ux_eqs demo_utx 5) (UB_app_tx \<lparr>uat_opaque = 7, uat_tx_head = 1472\<rparr>) UDP_QUEUE_BUMP_APP_TX)"
  let ?q2 = "snd (queue_put ?q1 (UB_app_tx \<lparr>uat_opaque = 7, uat_tx_head = 3\<rparr>) UDP_QUEUE_BUMP_APP_TX)"
  have s: "demo_ufs = ux_socks demo_utx (ubt_sock_id ?b1)" by (simp add: demo_utx_def demo_ufp_def)
  have "\<exists>c1 c2. udp_handle_bump_tx demo_utx ?b1 = Inr (1500, c1) \<and> unat (us_tx_avail (ux_socks c1 (ubt_sock_id ?b1))) = unat (ubt_tx_avail ?b1) - 1472 \<and>
    udp_handle_bump_tx c1 demo_ubump = Inr (int (UDP_PKT_INNER + unat (ubt_tx_avail demo_ubump)), c2) \<and>
    (\<forall>k < unat (ubt_tx_avail demo_ubump). ux_pkt c2 (UDP_PKT_INNER + k) = utx_byte (ux_shm demo_utx) demo_ufs (1472 + k))"
    by (rule udp_large_datagram_misframes [OF _ _ _ _ _ _ s, where ?q1.0 = ?q1 and ?q2.0 = ?q2])
       (simp_all add: demo_utx_def demo_ufp_def demo_ubump_def demo_ufs_def utx_ok_def queue_put_cases demo_uq_def demo_uring_def ring_advance_def Let_def)
  then show ?thesis by (simp add: demo_ubump_def)
qed

end
