(* ===== verification/Udp_Wait.thy ===== *)
theory Udp_Wait
  imports Udp_Props
begin

unbundle bit_operations_syntax

text \<open>
  The wait objects of the UDP library as finite maps from socket descriptors to the events asked
  for, by the lemmas on wait objects.
\<close>

text \<open>
  A wait object implements a finite map from descriptors to the events asked for. Adding fails
  exactly for unusable or registered descriptors, changing for unusable or unregistered ones, removing
  for unregistered ones, and on success each acts on the map; a collection reports only registered
  sockets, with exactly the events that are both pending and asked for, and reports all of them when
  the caller's array is long enough.
\<close>

theorem udp_wait_refines_map:
  assumes "wait_ok w"
  shows "(isl (udp_wait_add l (Some w) fd ev d) \<longleftrightarrow> isl (ulookup_sock l (Some (wt_ctx w)) fd) \<or> wait_map w (nat fd) \<noteq> None) \<and>
    (udp_wait_add l (Some w) fd ev d = Inr w1 \<longrightarrow> wait_ok w1 \<and> wait_map w1 = (wait_map w)(nat fd \<mapsto> (ev, d))) \<and>
    (isl (udp_wait_mod l (Some w) fd ev d) \<longleftrightarrow> isl (ulookup_sock l (Some (wt_ctx w)) fd) \<or> wait_map w (nat fd) = None) \<and>
    (udp_wait_mod l (Some w) fd ev d = Inr w1 \<longrightarrow> wait_ok w1 \<and> wait_map w1 = (wait_map w)(nat fd \<mapsto> (ev, d))) \<and>
    (isl (udp_wait_del (Some w) fd) \<longleftrightarrow> fd < 0 \<or> int LIB_MAX_SOCKETS \<le> fd \<or> wait_map w (nat fd) = None) \<and>
    (udp_wait_del (Some w) fd = Inr w1 \<longrightarrow> wait_ok w1 \<and> wait_map w1 = (wait_map w)(nat fd := None)) \<and>
    set (map wait_event_of (udp_wait_collect l w m)) \<subseteq> wait_ready (\<lambda>k. udp_sock_wait_events (ub_socks l k)) w \<and>
    (wt_nfds w \<le> m \<longrightarrow> set (map wait_event_of (udp_wait_collect l w m)) = wait_ready (\<lambda>k. udp_sock_wait_events (ub_socks l k)) w)"
  unfolding udp_wait_add_def udp_wait_mod_def udp_wait_del_def udp_wait_collect_def option.case
  by (rule udpw.refines_map [OF assms])

text \<open>A new wait object in the concrete library state; its socket is added.\<close>

definition demo_wait :: wait_obj where
  "demo_wait = \<lparr>wt_ctx = 0, wt_nfds = 0, wt_sockfds = (\<lambda>_. 0), wt_entries = (\<lambda>_. wait_entry_none)\<rparr>"

theorem udp_wait_refines_map_witness:
  "\<exists>w. udp_wait_add demo_ulib (Some demo_wait) 7 UDP_WAIT_IN 42 = Inr w \<and> wait_map w 7 = Some (UDP_WAIT_IN, 42) \<and>
     set (map wait_event_of (udp_wait_collect demo_ulib demo_wait 1)) \<subseteq> wait_ready (\<lambda>k. udp_sock_wait_events (ub_socks demo_ulib k)) demo_wait"
proof -
  have "udp_wait_new True demo_ulib (Some 0) = Inr demo_wait" by (simp add: udp_wait_new_def wait_new_def demo_ulib_def demo_wait_def)
  then have ok: "wait_ok demo_wait" by (simp add: wait_new_ok udp_wait_new_def demo_ulib_def)
  obtain w where w: "udp_wait_add demo_ulib (Some demo_wait) 7 UDP_WAIT_IN 42 = Inr w"
    by (simp add: udp_wait_add_def wait_add_def ulookup_sock_def demo_ulib_def demo_uls_def demo_wait_def udp_socket_lib_new_def wait_entry_none_def Let_def)
  have "wait_map w = (wait_map demo_wait)(nat 7 \<mapsto> (UDP_WAIT_IN, 42))"
    using udp_wait_refines_map [OF ok, of demo_ulib 7 UDP_WAIT_IN 42 w] w by blast
  moreover have "set (map wait_event_of (udp_wait_collect demo_ulib demo_wait 1)) \<subseteq> wait_ready (\<lambda>k. udp_sock_wait_events (ub_socks demo_ulib k)) demo_wait"
    using udp_wait_refines_map [OF ok, of demo_ulib 7 UDP_WAIT_IN 42 w 1] by blast
  ultimately show ?thesis using w by simp
qed

end
