(* ===== verification/Udp_Bind.thy ===== *)
theory Udp_Bind
  imports Udp_Slow
begin

unbundle bit_operations_syntax

text \<open>
  The port table and the sockets that the UDP slow path and the fast-path cores share: every handler
  of either side keeps the two consistent, so a lookup by port only finds sockets bound to it.
\<close>

section \<open>The invariant\<close>

definition bound_sids :: "udp_port \<Rightarrow> u32 list" where
  "bound_sids port = take (unat (po_nsocks port)) (po_sids port)"

text \<open>
  A port lists at most eight sockets, all of them bound to it, and every socket but the first asked
  for sharing; a bound socket is listed at its port.
\<close>

definition binds_ok :: "(u16 \<Rightarrow> udp_port) \<Rightarrow> (u32 \<Rightarrow> udp_sock) \<Rightarrow> u32 \<Rightarrow> bool" where
  "binds_ok ports socks n \<longleftrightarrow>
     po_nsocks (ports 0) = 0 \<and>
     (\<forall>p. unat (po_nsocks (ports p)) \<le> UDP_REUSOCK_MAX \<and> length (po_sids (ports p)) = UDP_REUSOCK_MAX \<and>
        (\<forall>sid \<in> set (bound_sids (ports p)). sid < n \<and> us_local_port (socks sid) = p) \<and>
        (\<forall>sid \<in> set (tl (bound_sids (ports p))). us_reuport (socks sid) \<noteq> 0)) \<and>
     (\<forall>sid < n. us_id (socks sid) = sid \<and>
        (us_local_port (socks sid) \<noteq> 0 \<longrightarrow> sid \<in> set (bound_sids (ports (us_local_port (socks sid))))))"

lemma binds_okD:
  assumes "binds_ok ports socks n"
  shows "unat (po_nsocks (ports p)) \<le> UDP_REUSOCK_MAX" "length (po_sids (ports p)) = UDP_REUSOCK_MAX"
    and "sid \<in> set (bound_sids (ports p)) \<Longrightarrow> sid < n \<and> us_local_port (socks sid) = p"
    and "sid \<in> set (tl (bound_sids (ports p))) \<Longrightarrow> us_reuport (socks sid) \<noteq> 0"
    and "sid < n \<Longrightarrow> us_id (socks sid) = sid"
    and "sid < n \<Longrightarrow> us_local_port (socks sid) \<noteq> 0 \<Longrightarrow> sid \<in> set (bound_sids (ports (us_local_port (socks sid))))"
    and "bound_sids (ports 0) = []"
  using assms unfolding binds_ok_def bound_sids_def by (blast, blast, blast, blast, blast, blast, simp)

text \<open>Only the list of a port and four fields of a socket matter.\<close>

lemma binds_ok_cong:
  assumes "binds_ok ports socks n"
    and "\<And>p. po_nsocks (ports' p) = po_nsocks (ports p)" "\<And>p. po_sids (ports' p) = po_sids (ports p)"
    and "\<And>sid. us_id (socks' sid) = us_id (socks sid)" "\<And>sid. us_local_port (socks' sid) = us_local_port (socks sid)"
      "\<And>sid. us_reuport (socks sid) \<noteq> 0 \<Longrightarrow> us_reuport (socks' sid) \<noteq> 0"
  shows "binds_ok ports' socks' n"
  using assms unfolding binds_ok_def bound_sids_def by simp

lemma binds_ok_unbound:
  assumes "binds_ok ports socks n" "n \<le> sid"
  shows "binds_ok ports (socks(sid := s)) n"
proof -
  have "k \<noteq> sid" if "k \<in> set (bound_sids (ports p))" for k p using binds_okD(3) [OF assms(1) that] assms(2) by auto
  moreover have "k \<noteq> sid" if "k \<in> set (tl (bound_sids (ports p)))" for k p
    using calculation [of k p] that by (cases "bound_sids (ports p)") auto
  moreover have "k \<noteq> sid" if "k < n" for k using that assms(2) by auto
  ultimately show ?thesis using assms(1) unfolding binds_ok_def by auto
qed

lemma bound_sids_bind:
  assumes "unat (po_nsocks port) < UDP_REUSOCK_MAX" "length (po_sids port) = UDP_REUSOCK_MAX"
  shows "bound_sids (udp_port_bind port sid) = bound_sids port @ [sid]" "unat (po_nsocks (udp_port_bind port sid)) = Suc (unat (po_nsocks port))"
    and "length (po_sids (udp_port_bind port sid)) = UDP_REUSOCK_MAX"
proof -
  have n: "unat (po_nsocks port + 1) = Suc (unat (po_nsocks port))"
    using assms(1) unat_add_small [of "po_nsocks port" 1] by simp
  show "bound_sids (udp_port_bind port sid) = bound_sids port @ [sid]"
    using assms n by (simp add: bound_sids_def udp_port_bind_def take_Suc_conv_app_nth)
  show "unat (po_nsocks (udp_port_bind port sid)) = Suc (unat (po_nsocks port))" by (simp add: udp_port_bind_def n)
  show "length (po_sids (udp_port_bind port sid)) = UDP_REUSOCK_MAX" using assms(2) by (simp add: udp_port_bind_def)
qed

lemma binds_ok_bind:
  assumes ok: "binds_ok ports socks n" and sid: "sid < n" and p: "p \<noteq> 0"
    and own: "us_local_port (socks sid) = 0 \<or> us_local_port (socks sid) = p"
    and room: "unat (po_nsocks (ports p)) < UDP_REUSOCK_MAX" and shr: "po_nsocks (ports p) = 0 \<or> us_reuport (socks sid) \<noteq> 0"
    and s: "us_id s = us_id (socks sid)" "us_reuport s = us_reuport (socks sid)" "us_local_port s = p"
  shows "binds_ok (ports(p := udp_port_bind (ports p) sid)) (socks(sid := s)) n"
proof -
  note b = bound_sids_bind [OF room binds_okD(2) [OF ok, of p], of sid]
  have tl: "set (tl (bound_sids (ports p) @ [sid])) \<subseteq> set (tl (bound_sids (ports p))) \<union> (if po_nsocks (ports p) = 0 then {} else {sid})"
    by (cases "bound_sids (ports p)") (use binds_okD(2) [OF ok, of p] in \<open>auto simp: bound_sids_def\<close>)
  have free: "sid \<notin> set (bound_sids (ports q))" if "q \<noteq> p" for q
    using binds_okD(3) [OF ok, of sid q] binds_okD(7) [OF ok] own that by (cases "q = 0") auto
  show ?thesis unfolding binds_ok_def
  proof (intro conjI allI impI ballI)
    show "po_nsocks ((ports(p := udp_port_bind (ports p) sid)) 0) = 0" using ok p by (simp add: binds_ok_def)
    fix q
    show "unat (po_nsocks ((ports(p := udp_port_bind (ports p) sid)) q)) \<le> UDP_REUSOCK_MAX"
      using binds_okD(1) [OF ok, of q] room b(2) by (cases "q = p") simp_all
    show "length (po_sids ((ports(p := udp_port_bind (ports p) sid)) q)) = UDP_REUSOCK_MAX"
      using binds_okD(2) [OF ok, of q] b(3) by (cases "q = p") simp_all
  next
    fix q k assume k: "k \<in> set (bound_sids ((ports(p := udp_port_bind (ports p) sid)) q))"
    show "k < n" using k b(1) binds_okD(3) [OF ok, of k q] sid by (cases "q = p") auto
    show "us_local_port ((socks(sid := s)) k) = q"
      using k b(1) binds_okD(3) [OF ok, of k q] free [of q] s(3) by (cases "q = p") auto
  next
    fix q k assume k: "k \<in> set (tl (bound_sids ((ports(p := udp_port_bind (ports p) sid)) q)))"
    show "us_reuport ((socks(sid := s)) k) \<noteq> 0"
    proof (cases "q = p")
      case True
      then show ?thesis using k b(1) tl shr s(2) binds_okD(4) [OF ok, of k p] by (auto split: if_splits)
    next
      case False
      then show ?thesis using k s(2) binds_okD(4) [OF ok, of k q] by auto
    qed
  next
    fix k assume k: "k < n"
    show "us_id ((socks(sid := s)) k) = k" using binds_okD(5) [OF ok, of k] k s(1) by (cases "k = sid") simp_all
    show "us_local_port ((socks(sid := s)) k) \<noteq> 0 \<Longrightarrow>
        k \<in> set (bound_sids ((ports(p := udp_port_bind (ports p) sid)) (us_local_port ((socks(sid := s)) k))))"
      using binds_okD(6) [OF ok, of k] k s(3) b(1) by (cases "k = sid") auto
  qed
qed

lemma binds_ok_new:
  assumes "binds_ok ports socks n" and "us_id (socks n) = n" and "us_local_port (socks n) = 0" and "unat n < 2 ^ 32 - 1"
  shows "binds_ok ports socks (n + 1)"
proof -
  have lt: "k < n + 1 \<longleftrightarrow> k < n \<or> k = n" for k
    using unat_add_small [of n 1] assms(4) by (auto simp: word_less_nat_alt less_Suc_eq word_unat_eq_iff)
  show ?thesis using assms(1-3) unfolding binds_ok_def lt by blast
qed


section \<open>Handlers of the slow path\<close>

text \<open>Applications only ask to bind sockets that exist; the library takes the index from the answer.\<close>

definition reqs_ok :: "(u8 \<Rightarrow> udp_app_slow) \<Rightarrow> u32 \<Rightarrow> bool" where
  "reqs_ok apps n \<longleftrightarrow>
     (\<forall>aid cid pos r. qs_data (snd (uax_app_slow_q (uap_ctxs (apps aid) cid)) pos) = UM_bind_req r \<longrightarrow> ubq_sock_id r < n)"

definition uslow_ok :: "udp_slow_context \<Rightarrow> bool" where
  "uslow_ok c \<longleftrightarrow> binds_ok (uw_ports c) (uw_socks c) (uw_n_socks c) \<and> uw_n_socks c \<le> UDP_MAX_SOCKETS \<and> reqs_ok (uw_apps c) (uw_n_socks c)"

abbreviation app_reqs :: "(u8 \<Rightarrow> udp_app_slow) \<Rightarrow> u8 \<Rightarrow> u8 \<Rightarrow> u32 \<Rightarrow> udp_msg" where
  "app_reqs apps aid cid pos \<equiv> qs_data (snd (uax_app_slow_q (uap_ctxs (apps aid) cid)) pos)"

lemma uapp_put_proj [simp]:
  "uw_ports (snd (uapp_put a d ty c)) = uw_ports c" "uw_socks (snd (uapp_put a d ty c)) = uw_socks c"
  "uw_n_socks (snd (uapp_put a d ty c)) = uw_n_socks c" "app_reqs (uw_apps (snd (uapp_put a d ty c))) = app_reqs (uw_apps c)"
  by (auto simp: uapp_put_def uupd_actx_def fun_eq_iff split: prod.splits)

lemma usetopt_again_proj [simp]:
  "uw_ports (snd (usetopt_again a pos r c)) = uw_ports c" "uw_socks (snd (usetopt_again a pos r c)) = uw_socks c"
  "uw_n_socks (snd (usetopt_again a pos r c)) = uw_n_socks c" "app_reqs (uw_apps (snd (usetopt_again a pos r c))) = app_reqs (uw_apps c)"
  by (auto simp: usetopt_again_def uupd_actx_def fun_eq_iff split: prod.splits)

lemma uupd_sock_proj [simp]:
  "uw_ports (uupd_sock sid f c) = uw_ports c" "uw_n_socks (uupd_sock sid f c) = uw_n_socks c" "uw_apps (uupd_sock sid f c) = uw_apps c"
  "sid < UDP_MAX_SOCKETS \<Longrightarrow> uw_socks (uupd_sock sid f c) = (uw_socks c)(sid := f (uw_socks c sid))"
  by (auto simp: uupd_sock_def)

text \<open>The invariant depends on the tables, the counter and the requests waiting.\<close>

lemma uslow_ok_cong:
  assumes "uslow_ok c" "uw_ports c' = uw_ports c" "uw_socks c' = uw_socks c" "uw_n_socks c' = uw_n_socks c"
    "app_reqs (uw_apps c') = app_reqs (uw_apps c)"
  shows "uslow_ok c'"
proof -
  have "app_reqs (uw_apps c') aid cid pos = app_reqs (uw_apps c) aid cid pos" for aid cid pos
    using assms(5) by meson
  then show ?thesis using assms(1-4) by (simp add: uslow_ok_def reqs_ok_def)
qed

lemma uapp_put_ok: "uslow_ok c \<Longrightarrow> uslow_ok (snd (uapp_put a d ty c))"
  by (rule uslow_ok_cong) simp_all

lemma uslow_ok_oob: "uslow_ok c \<Longrightarrow> uslow_ok (c\<lparr>uw_oob := b\<rparr>)" "uslow_ok c \<Longrightarrow> uslow_ok (c\<lparr>uw_cfg := g\<rparr>)"
  by (simp_all add: uslow_ok_def)

lemma uslow_ok_beyond: "uslow_ok c \<Longrightarrow> uw_n_socks c \<le> sid \<Longrightarrow> uslow_ok (uupd_sock sid f c)"
  by (simp add: uslow_ok_def uupd_sock_def binds_ok_unbound)

lemma new_sock_ok:
  assumes "uslow_ok c"
  shows "uslow_ok (snd (udp_handle_new_sock rxq txq a opaque c))"
proof -
  let ?n = "uw_n_socks c"
  define c1 where "c1 = uupd_sock ?n (udp_sock_new c (uget_actx c a) opaque (udp_sock_core c)) c"
  have c1: "uslow_ok c1" "uw_n_socks c1 = ?n" unfolding c1_def by (simp_all add: uslow_ok_beyond [OF assms])
  have added: "uslow_ok (d\<lparr>uw_n_socks := uw_n_socks d + 1\<rparr>)"
    if "uslow_ok d" "uw_n_socks d = ?n" "us_id (uw_socks d ?n) = ?n" "us_local_port (uw_socks d ?n) = 0" "?n < UDP_MAX_SOCKETS" for d
  proof -
    have n: "unat ?n < 65534" using that(5) by (simp add: word_less_nat_alt)
    have "unat (?n + 1) = Suc (unat ?n)" using n unat_add_small [of ?n 1] by simp
    then have le: "?n + 1 \<le> UDP_MAX_SOCKETS" "k < ?n \<Longrightarrow> k < ?n + 1" for k using n by (simp_all add: word_le_nat_alt word_less_nat_alt)
    have "binds_ok (uw_ports d) (uw_socks d) (?n + 1)"
      using binds_ok_new [of "uw_ports d" "uw_socks d" ?n] that n by (simp add: uslow_ok_def)
    then show ?thesis using that(1,2) le by (simp add: uslow_ok_def reqs_ok_def)
  qed
  show ?thesis
  proof (cases "?n \<ge> UDP_MAX_SOCKETS \<or> uapp_full a c \<or> rxq = None")
    case True
    then show ?thesis using assms c1 by (auto simp: udp_handle_new_sock_def c1_def Let_def)
  next
    case False
    then obtain rq where rq: "rxq = Some rq" and n: "?n < UDP_MAX_SOCKETS" by auto
    define c2 where "c2 = uupd_sock ?n (\<lambda>s. s\<lparr>us_rx_len := pq_elsize rq * pq_nelems rq, us_rx_avail := 0, us_rx_head := 0, us_rx_off := pq_off rq\<rparr>) c1"
    have c2: "uslow_ok c2" "uw_n_socks c2 = ?n" unfolding c2_def by (simp_all add: uslow_ok_beyond c1)
    show ?thesis
    proof (cases txq)
      case None
      then show ?thesis using False rq c2 by (simp add: udp_handle_new_sock_def c1_def [symmetric] c2_def [symmetric] Let_def uslow_ok_oob)
    next
      case (Some tq)
      define c3 where "c3 = uupd_sock ?n (\<lambda>s. s\<lparr>us_tx_len := pq_nelems tq * pq_elsize tq, us_tx_avail := 0, us_tx_head := 0, us_tx_off := pq_off tq\<rparr>) c2"
      have c3: "uslow_ok c3" "uw_n_socks c3 = ?n" unfolding c3_def by (simp_all add: uslow_ok_beyond c2)
      have s3: "us_id (uw_socks c3 ?n) = ?n" "us_local_port (uw_socks c3 ?n) = 0"
        using n unfolding c3_def c2_def c1_def by (simp_all add: udp_sock_new_def)
      define res where "res = \<lparr>unr_sock_id = ?n, unr_opaque = opaque, unr_core = udp_sock_core c, unr_rx_qid = pq_id rq,
          unr_rx_len = pq_elsize rq * pq_nelems rq, unr_rx_off = pq_off rq, unr_tx_qid = pq_id tq,
          unr_tx_len = pq_nelems tq * pq_elsize tq, unr_tx_off = pq_off tq\<rparr>"
      obtain ret c4 where c4: "uapp_put a (UM_new_sock_res res) UDP_QUEUE_NEW_SOCK_RES c3 = (ret, c4)" by fastforce
      have "snd (udp_handle_new_sock rxq txq a opaque c) = (if ret \<noteq> 0 then c4 else c4\<lparr>uw_n_socks := uw_n_socks c4 + 1\<rparr>)"
        using False rq Some c4 by (simp add: udp_handle_new_sock_def c1_def [symmetric] c2_def [symmetric] c3_def [symmetric] res_def [symmetric] Let_def)
      moreover have "uslow_ok c4" using uapp_put_ok [OF c3(1), of a "UM_new_sock_res res" UDP_QUEUE_NEW_SOCK_RES] c4 by simp
      moreover have "uw_n_socks c4 = ?n" "uw_socks c4 = uw_socks c3"
        using uapp_put_proj(2,3) [of a "UM_new_sock_res res" UDP_QUEUE_NEW_SOCK_RES c3] c4 c3(2) by simp_all
      ultimately show ?thesis using s3 n added by simp
    qed
  qed
qed


lemma usetopt_mark_ok:
  assumes "uslow_ok c"
  shows "uslow_ok (usetopt_mark r c)"
proof (cases "usq_opt r = SO_REUSEPORT \<and> usq_sock_id r < UDP_MAX_SOCKETS")
  case True
  have "binds_ok (uw_ports c) ((uw_socks c)(usq_sock_id r := (uw_socks c (usq_sock_id r))\<lparr>us_reuport := 1\<rparr>)) (uw_n_socks c)"
    by (rule binds_ok_cong [of "uw_ports c" "uw_socks c"]) (use assms in \<open>auto simp: uslow_ok_def\<close>)
  then show ?thesis using True assms by (simp add: usetopt_mark_def uslow_ok_def)
next
  case False
  then show ?thesis using assms by (auto simp: usetopt_mark_def uupd_sock_def uslow_ok_oob not_less)
qed

lemma setopt_ok:
  assumes "uslow_ok c"
  shows "uslow_ok (snd (udp_handle_sock_setopt a r c))"
proof -
  have again: "uslow_ok (snd (usetopt_again a pos res d))" if "uslow_ok d" for pos res d
    using that by (rule uslow_ok_cong) simp_all
  have "uslow_ok c2" if "uapp_put a d ty c = (ret, c1)" "usetopt_again a pos res (usetopt_mark r c1) = (ret', c2)" for d ty ret c1 pos res ret' c2
    using again [OF usetopt_mark_ok [OF uapp_put_ok [OF assms]], of pos res r a d ty] that by simp
  moreover have "uslow_ok c1" if "uapp_put a d ty c = (ret, c1)" for d ty ret c1 using uapp_put_ok [OF assms, of a d ty] that by simp
  moreover have "uslow_ok c1" if "uapp_put a d ty (usetopt_mark r c) = (ret, c1)" for d ty ret c1
    using uapp_put_ok [OF usetopt_mark_ok [OF assms], of a d ty r] that by simp
  ultimately show ?thesis using assms by (auto simp: udp_handle_sock_setopt_def Let_def split: prod.splits)
qed

lemma bind_fail_ok: "uslow_ok c \<Longrightarrow> uslow_ok (snd (ubind_fail a r c))"
  by (simp add: ubind_fail_def uapp_put_ok)

lemma bind_port_ok:
  assumes ok: "uslow_ok c" and sid: "ubq_sock_id r < uw_n_socks c" and p: "p \<noteq> 0"
    and own: "us_local_port (uw_socks c (ubq_sock_id r)) = 0 \<or> us_local_port (uw_socks c (ubq_sock_id r)) = p"
  shows "uslow_ok (snd (ubind_port a r p c))"
proof -
  let ?sid = "ubq_sock_id r"
  have lim: "?sid < UDP_MAX_SOCKETS" using sid ok by (simp add: uslow_ok_def less_le_trans)
  define c1 where "c1 = uupd_sock ?sid (\<lambda>s. s\<lparr>us_local_ip := ubq_local_ip r, us_local_port := p\<rparr>) c"
  define c2 where "c2 = c1\<lparr>uw_ports := (uw_ports c1)(p := udp_port_bind (uw_ports c p) ?sid)\<rparr>"
  have "uslow_ok c2" if "po_nsocks (uw_ports c p) = 0 \<or> us_reuport (uw_socks c ?sid) \<noteq> 0" "unat (po_nsocks (uw_ports c p)) < UDP_REUSOCK_MAX"
    using binds_ok_bind [of "uw_ports c" "uw_socks c" "uw_n_socks c" ?sid p, OF _ sid p own that(2,1), of "(uw_socks c ?sid)\<lparr>us_local_ip := ubq_local_ip r, us_local_port := p\<rparr>"] ok lim
    unfolding c2_def c1_def uslow_ok_def by simp
  then have "uslow_ok (snd (uapp_put a d ty c2))"
    if "po_nsocks (uw_ports c p) = 0 \<or> us_reuport (uw_socks c ?sid) \<noteq> 0" "unat (po_nsocks (uw_ports c p)) < UDP_REUSOCK_MAX" for d ty
    using uapp_put_ok that by blast
  then show ?thesis
    using ok by (auto simp: ubind_port_def Let_def c1_def [symmetric] c2_def [symmetric] split_beta uslow_ok_oob bind_fail_ok)
qed

lemma bind_ok:
  assumes ok: "uslow_ok c" and sid: "ubq_sock_id r < uw_n_socks c"
  shows "uslow_ok (snd (udp_handle_bind a r c))"
proof -
  have free: "uslow_ok c1 \<and> uw_n_socks c1 = uw_n_socks c \<and> uw_socks c1 = uw_socks c" if "udp_slow_free_port c = Inr (nr, c1)" for nr c1
    using that ok by (auto simp: udp_slow_free_port_def uslow_ok_oob split: sum.splits option.splits)
  let ?own = "us_local_port (uw_socks c (ubq_sock_id r))"
  define p where "p = (if ?own \<noteq> 0 then ?own else ubq_local_port r)"
  have eq: "udp_handle_bind a r c =
     (if uapp_full a c then (-1, c) else if UDP_MAX_SOCKETS \<le> ubq_sock_id r then (-1, c\<lparr>uw_oob := True\<rparr>)
      else if UDP_MAX_PORT < p then ubind_fail a r c
      else if p = 0 then (case udp_slow_free_port c of Inl f \<Rightarrow> (-1, c\<lparr>uw_oob := True\<rparr>)
                          | Inr (nr, c1) \<Rightarrow> if nr = 0 then ubind_fail a r c1 else ubind_port a r nr c1)
      else ubind_port a r p c)" by (simp only: udp_handle_bind_def Let_def p_def)
  have scan: "uslow_ok (snd (if nr = 0 then ubind_fail a r c1 else ubind_port a r nr c1))"
    if "udp_slow_free_port c = Inr (nr, c1)" "p = 0" for nr c1
    using free [OF that(1)] that(2) sid bind_fail_ok [of c1 a r] bind_port_ok [of c1 r nr a] by (auto simp: p_def split: if_splits)
  have "uslow_ok (snd (ubind_port a r p c))" if "p \<noteq> 0"
    by (rule bind_port_ok [OF ok sid that]) (simp add: p_def)
  then show ?thesis unfolding eq
    using ok scan bind_fail_ok [OF ok] uslow_ok_oob(1) [OF ok] by (auto split: sum.split)
qed

lemma app_msg_ok:
  assumes "uslow_ok c" and "\<And>r. qs_data m = UM_bind_req r \<Longrightarrow> ubq_sock_id r < uw_n_socks c"
  shows "uslow_ok (udp_app_msg rxq txq a m c)"
  using assms by (auto simp: udp_app_msg_def new_sock_ok setopt_ok bind_ok split: udp_msg.split)

lemma uslow_moves_ok:
  assumes "uslow_ok c"
  shows "uslow_ok (udp_next_ctx aid c)" "uslow_ok (udp_actx_dequeue a c)" "uslow_ok (c\<lparr>uw_next_app := k\<rparr>)"
proof -
  show "uslow_ok (udp_next_ctx aid c)" by (rule uslow_ok_cong [OF assms]) (auto simp: udp_next_ctx_def fun_eq_iff)
  show "uslow_ok (udp_actx_dequeue a c)"
    by (rule uslow_ok_cong [OF assms]) (auto simp: udp_actx_dequeue_def uupd_actx_def uget_actx_def queue_dequeue_def Let_def fun_eq_iff)
  show "uslow_ok (c\<lparr>uw_next_app := k\<rparr>)" by (rule uslow_ok_cong [OF assms]) simp_all
qed

lemma poll_loop_ok: "uslow_ok c \<Longrightarrow> uslow_ok (udp_poll_loop grant msgs_i apps_polled ctxs_polled c)"
proof (induction grant msgs_i apps_polled ctxs_polled c rule: udp_poll_loop.induct)
  case (1 grant msgs_i apps_polled ctxs_polled c)
  have req: "ubq_sock_id r < uw_n_socks d" if "uslow_ok d" "qs_data (snd (uax_app_slow_q (uget_actx d a)) pos) = UM_bind_req r" for d a pos r
    using that by (auto simp: uslow_ok_def reqs_ok_def uget_actx_def)
  show ?case
  proof (cases "msgs_i < UDP_SLOW_BATCH \<and> uw_n_apps c \<noteq> 0")
    case True
    define nxt where "nxt = (unat (uap_n_ctxs (uw_apps c (uw_next_app c))) \<le> ctxs_polled)"
    define apps1 where "apps1 = (if nxt then apps_polled + 1 else apps_polled)"
    define c1 where "c1 = (if nxt then c\<lparr>uw_next_app := (uw_next_app c + 1) mod uw_n_apps c\<rparr> else c)"
    define a where "a = (uw_next_app c1, uap_next_ctx (uw_apps c1 (uw_next_app c1)))"
    note defs = nxt_def apps1_def c1_def a_def
    have c1: "uslow_ok c1" using 1(3) by (simp add: c1_def uslow_moves_ok)
    note ih = 1(1,2) [OF True nxt_def apps1_def c1_def refl refl a_def]
    have ev: "udp_poll_loop grant msgs_i apps_polled ctxs_polled c =
       (if unat (uw_n_apps c1) \<le> apps1 \<or> uap_n_ctxs (uw_apps c1 (uw_next_app c1)) = 0 then c1
        else case queue_head (fst (uax_app_slow_q (uget_actx c1 a))) (snd (uax_app_slow_q (uget_actx c1 a))) of
            None \<Rightarrow> udp_poll_loop grant msgs_i apps1 (ctxs_polled + 1) (udp_next_ctx (uw_next_app c1) c1)
          | Some pos \<Rightarrow> udp_poll_loop grant (msgs_i + 1) apps1 ctxs_polled
              (udp_actx_dequeue a (udp_app_msg (fst (grant msgs_i)) (snd (grant msgs_i)) a (snd (uax_app_slow_q (uget_actx c1 a)) pos) c1)))"
      using True by (subst udp_poll_loop.simps) (simp only: Let_def defs if_True simp_thms)
    have msg: "uslow_ok (udp_actx_dequeue a (udp_app_msg rxq txq a (snd (uax_app_slow_q (uget_actx c1 a)) pos) c1))" for rxq txq pos
      by (rule uslow_moves_ok, rule app_msg_ok [OF c1], rule req [OF c1])
    show ?thesis unfolding ev using c1 ih msg by (auto simp: uslow_moves_ok split: option.split)
  next
    case False
    then have "udp_poll_loop grant msgs_i apps_polled ctxs_polled c = c" by (subst udp_poll_loop.simps, subst if_not_P) simp_all
    then show ?thesis using 1(3) by simp
  qed
qed

lemma poll_apps_ok: "uslow_ok c \<Longrightarrow> uslow_ok (udp_poll_apps grant c)"
  by (simp add: udp_poll_apps_def poll_loop_ok)


section \<open>Handlers of the fast path\<close>

abbreviation xbinds :: "udp_ctx \<Rightarrow> u32 \<Rightarrow> bool" where
  "xbinds x n \<equiv> binds_ok (ux_ports x) (ux_socks x) n"

lemma next_sock_lists [simp]: "po_nsocks (udp_next_sock x port idx) = po_nsocks port" "po_sids (udp_next_sock x port idx) = po_sids port"
  by (simp_all add: udp_next_sock_def Let_def)

lemma binds_ok_put:
  assumes "binds_ok ports socks n" "us_id s = us_id (socks sid)" "us_local_port s = us_local_port (socks sid)" "us_reuport s = us_reuport (socks sid)"
  shows "binds_ok ports (socks(sid := s)) n"
  by (rule binds_ok_cong [OF assms(1)]) (use assms(2-) in auto)

lemma rx_deliver_binds:
  assumes "xbinds x n" "udp_rx_deliver x sid = Inr (r, x')"
  shows "xbinds x' n"
  using assms by (auto simp: udp_rx_deliver_def put_usock_def Let_def intro!: binds_ok_put split: if_splits prod.splits)

lemma find_binds:
  assumes "xbinds x n" "find_sock = udp_sock_find \<or> find_sock = ebpf_udp_sock_find" "find_sock x p = Inr (ret, x')"
  shows "xbinds x' n"
proof -
  have "x' = x \<or> (\<exists>idx. x' = x\<lparr>ux_ports := (ux_ports x)(p := udp_next_sock x (ux_ports x p) idx)\<rparr>)"
    using assms(2,3) by (auto simp: udp_sock_find_def ebpf_udp_sock_find_def Let_def split: if_splits)
  then show ?thesis
    by (elim disjE exE) (use assms(1) in \<open>auto intro: binds_ok_cong [OF assms(1)]\<close>)
qed

lemma event_rx_binds:
  assumes "xbinds x n" "find_sock = udp_sock_find \<or> find_sock = ebpf_udp_sock_find" "udp_rx_body find_sock x = Inr (r, x')"
  shows "xbinds x' n"
  using assms(1,3) by (auto simp: udp_rx_body_def split: if_splits sum.splits prod.splits option.splits
      dest: find_binds [OF assms(1,2)] intro: rx_deliver_binds)

lemma tx_send_binds:
  assumes "xbinds x n" "udp_tx_send x sid b = Inr (r, x')"
  shows "xbinds x' n"
  using assms by (auto simp: udp_tx_send_def udp_sock_tx_def put_usock_def Let_def intro!: binds_ok_put split: if_splits prod.splits)

lemma port_scan_free: "udp_port_scan ports nports start i k = Inr (Some nr) \<Longrightarrow> po_nsocks (ports nr) = 0"
  by (induction k arbitrary: i) (auto simp: Let_def split: if_splits)

lemma port_claim_bind: "po_nsocks port = 0 \<Longrightarrow> udp_port_claim port sid = udp_port_bind port sid"
  by (simp add: udp_port_claim_def udp_port_bind_def)

lemma find_free_port_binds:
  assumes "udp_find_free_port x = Inr (p, x1)"
  shows "ux_ports x1 = ux_ports x" "ux_socks x1 = ux_socks x" "p \<noteq> 0 \<Longrightarrow> po_nsocks (ux_ports x p) = 0"
  using assms by (auto simp: udp_find_free_port_def port_scan_free split: option.splits sum.splits)

lemma autobind_binds:
  assumes ok: "xbinds x n" and sid: "sid < n" "us_local_port (ux_socks x sid) = 0" and ev: "udp_tx_autobind x sid = Inr (p, x')"
  shows "xbinds x' n"
proof -
  obtain x1 where x1: "udp_find_free_port x = Inr (p, x1)" and x': "x' = (if p = 0 then x1 else
      put_usock sid ((ux_socks x1 sid)\<lparr>us_local_port := p\<rparr>) (x1\<lparr>ux_ports := (ux_ports x1)(p := udp_port_claim (ux_ports x1 p) (us_id (ux_socks x1 sid)))\<rparr>))"
    using ev by (auto simp: udp_tx_autobind_def split: sum.splits if_splits)
  note f = find_free_port_binds [OF x1]
  show ?thesis
  proof (cases "p = 0")
    case True
    then show ?thesis using ok f x' by simp
  next
    case False
    have "binds_ok ((ux_ports x)(p := udp_port_bind (ux_ports x p) sid)) ((ux_socks x)(sid := (ux_socks x sid)\<lparr>us_local_port := p\<rparr>)) n"
      by (rule binds_ok_bind [OF ok sid(1) False]) (use sid f(3) [OF False] in simp_all)
    then show ?thesis using False f binds_okD(5) [OF ok sid(1)] by (simp add: x' put_usock_def port_claim_bind)
  qed
qed

lemma event_deq_binds:
  assumes ok: "xbinds x n" and ev: "udp_event_deq x = Inr (r, x')" and id: "\<And>b. ux_qe x = UQE_bump_tx b \<Longrightarrow> ubt_sock_id b < n"
  shows "xbinds x' n"
proof (cases "ux_qe x")
  case (UQE_bump_tx b)
  then have "udp_handle_bump_tx x b = Inr (r, x') \<or> x' = x" using ev by (auto simp: udp_event_deq_def split: if_splits)
  moreover have "xbinds x' n" if "udp_handle_bump_tx x b = Inr (r, x')"
    using that ok tx_send_binds autobind_binds [OF ok id [OF UQE_bump_tx]]
    by (auto simp: udp_handle_bump_tx_def split: if_splits sum.splits)
  ultimately show ?thesis using ok by auto
next
  case (UQE_bump_rx b)
  have "binds_ok (ux_ports x) ((ux_socks x)(k := udp_sock_rx_bump (ux_socks x k) m)) n" for k m
    by (rule binds_ok_put [OF ok]) (simp_all add: udp_sock_rx_bump_def)
  then show ?thesis using UQE_bump_rx ev ok
    by (auto simp: udp_event_deq_def udp_handle_bump_rx_def put_usock_def split: if_splits)
qed (use ev ok in \<open>auto simp: udp_event_deq_def split: if_splits\<close>)

section \<open>Both sides together\<close>

text \<open>
  A core works on the maps of the slow path. Applications register and put requests into their
  queues between the steps; they name sockets that exist.
\<close>

definition core_view :: "udp_slow_context \<Rightarrow> udp_ctx \<Rightarrow> udp_ctx" where
  "core_view c x = x\<lparr>ux_ports := uw_ports c, ux_nports := UDP_NPORTS, ux_socks := uw_socks c, ux_nsocks := UDP_MAX_SOCKETS, ux_cfg := Some (uw_cfg c)\<rparr>"

definition core_put :: "udp_ctx \<Rightarrow> udp_slow_context \<Rightarrow> udp_slow_context" where
  "core_put x c = c\<lparr>uw_ports := ux_ports x, uw_socks := ux_socks x, uw_cfg := the (ux_cfg x)\<rparr>"

inductive bind_reach :: "udp_slow_context \<Rightarrow> bool" where
  start: "bind_reach (udp_slow_init ncores ip socks apps)" if "reqs_ok apps 0"
| app: "bind_reach c \<Longrightarrow> reqs_ok apps (uw_n_socks c) \<Longrightarrow> bind_reach (c\<lparr>uw_apps := apps, uw_n_apps := k\<rparr>)"
| slow: "bind_reach c \<Longrightarrow> bind_reach (udp_poll_apps grant c)" if "\<not> uw_oob (udp_poll_apps grant c)"
| rx: "bind_reach c \<Longrightarrow> ev \<in> {udp_event_rx, ebpf_udp_event_rx} \<Longrightarrow> ev (core_view c x) = Inr (r, x') \<Longrightarrow> bind_reach (core_put x' c)"
| deq: "bind_reach c \<Longrightarrow> (\<And>b. ux_qe x = UQE_bump_tx b \<Longrightarrow> ubt_sock_id b < uw_n_socks c) \<Longrightarrow> udp_event_deq (core_view c x) = Inr (r, x') \<Longrightarrow>
    bind_reach (core_put x' c)"

lemma core_put_ok: "uslow_ok c \<Longrightarrow> xbinds x (uw_n_socks c) \<Longrightarrow> uslow_ok (core_put x c)"
  by (simp add: uslow_ok_def core_put_def)

lemma bind_reach_ok: "bind_reach c \<Longrightarrow> uslow_ok c"
proof (induction rule: bind_reach.induct)
  case (start ncores ip socks apps)
  then show ?case by (simp add: uslow_ok_def udp_slow_init_def binds_ok_def bound_sids_def udp_port_init_def)
next
  case (app c apps k)
  then show ?case by (simp add: uslow_ok_def)
next
  case (slow grant c)
  then show ?case by (simp add: poll_apps_ok)
next
  case (rx c ev x r x')
  have x: "xbinds (core_view c x) (uw_n_socks c)" using rx.IH by (simp add: core_view_def uslow_ok_def)
  then show ?case using rx event_rx_binds [OF x] by (auto simp: udp_event_rx_def ebpf_udp_event_rx_def intro!: core_put_ok)
next
  case (deq c x r x')
  have x: "xbinds (core_view c x) (uw_n_socks c)" using deq.IH by (simp add: core_view_def uslow_ok_def)
  then show ?case using deq event_deq_binds [OF x] by (auto simp: core_view_def intro!: core_put_ok)
qed

lemma ebpf_find_bound:
  assumes ok: "xbinds x n" and f: "ebpf_udp_sock_find x p = Inr (Some sid, x')"
  shows "sid \<in> set (bound_sids (ux_ports x p))"
proof -
  obtain idx where i: "idx < po_nsocks (ux_ports x p)" and s: "sid = po_sids (ux_ports x p) ! unat idx"
    using f by (auto simp: ebpf_udp_sock_find_def Let_def not_le split: if_splits)
  then have "unat idx < unat (po_nsocks (ux_ports x p))" by (simp add: word_less_nat_alt)
  then show ?thesis using s binds_okD(1,2) [OF ok, of p] by (auto simp: bound_sids_def in_set_conv_nth intro!: exI [of _ "unat idx"])
qed



subsection \<open>A concrete run\<close>

text \<open>One application with one context; its queue holds the given request, the answers go to an empty queue.\<close>

definition demo_bring :: "udp_msg qslot \<Rightarrow> udp_msg ring" where
  "demo_bring m = (\<lambda>pos. if pos = 0 then m else \<lparr>qs_type = 0, qs_data = UM_new_sock_req 0\<rparr>)"

definition demo_bapps :: "udp_msg qslot \<Rightarrow> u8 \<Rightarrow> udp_app_slow" where
  "demo_bapps m = (\<lambda>_. \<lparr>uap_id = 0, uap_n_ctxs = 1, uap_next_ctx = 0, uap_ctxs = (\<lambda>_. \<lparr>uax_id = 0,
     uax_app_slow_q = (\<lparr>dq_head = 0, dq_nelems = 4, dq_elsize = 512, dq_off = 0, dq_entries = 0\<rparr>, demo_bring m),
     uax_slow_app_q = (\<lparr>eq_tail = 0, eq_nelems = 4, eq_elsize = 512, eq_off = 4096, eq_entries = 4096\<rparr>, (\<lambda>_. \<lparr>qs_type = 0, qs_data = UM_new_sock_req 0\<rparr>)),
     uax_app_bump_qs = [\<lparr>pq_id = 5, pq_nelems = 4, pq_elsize = 32, pq_off = 8192\<rparr>], uax_fast_bump_qs = []\<rparr>)\<rparr>)"

definition demo_bgrant :: "nat \<Rightarrow> proto_queue_lib option \<times> proto_queue_lib option" where
  "demo_bgrant = (\<lambda>_. (Some \<lparr>pq_id = 6, pq_nelems = 2048, pq_elsize = 1, pq_off = 16384\<rparr>, Some \<lparr>pq_id = 7, pq_nelems = 2048, pq_elsize = 1, pq_off = 20480\<rparr>))"

definition demo_bsock :: udp_sock where
  "demo_bsock = \<lparr>us_id = 0, us_opaque = 0, us_tx_core = 0, us_rx_core = 0, us_app_bump_qid = 0, us_app_bump_qids = replicate 16 0,
     us_local_ip = 0, us_local_port = 0, us_reuport = 0, us_rx_len = 0, us_rx_avail = 0, us_rx_head = 0, us_rx_off = 0,
     us_tx_len = 0, us_tx_avail = 0, us_tx_head = 0, us_tx_off = 0\<rparr>"

definition demo_b1 :: udp_slow_context where
  "demo_b1 = (udp_slow_init 1 0x0a000001 (\<lambda>_. demo_bsock) (demo_bapps \<lparr>qs_type = UDP_QUEUE_NEW_SOCK_REQ, qs_data = UM_new_sock_req 7\<rparr>))\<lparr>uw_n_apps := 1\<rparr>"

lemma poll_one:
  assumes "uw_n_apps c = 1" "uw_next_app c = 0" "uap_n_ctxs (uw_apps c 0) = 1" "uap_next_ctx (uw_apps c 0) = 0"
    "uax_app_slow_q (uap_ctxs (uw_apps c 0) 0) = (\<lparr>dq_head = 0, dq_nelems = 4, dq_elsize = 512, dq_off = 0, dq_entries = 0\<rparr>, demo_bring m)"
    "qs_type m \<noteq> 0"
    "d = udp_actx_dequeue (0, 0) (udp_app_msg (fst (grant 0)) (snd (grant 0)) (0, 0) m c)"
    "uw_n_apps d = 1" "uw_next_app d = 0" "uap_n_ctxs (uw_apps d 0) = 1" "uap_next_ctx (uw_apps d 0) = 0"
    "queue_head (fst (uax_app_slow_q (uap_ctxs (uw_apps d 0) 0))) (snd (uax_app_slow_q (uap_ctxs (uw_apps d 0) 0))) = None"
  shows "udp_poll_apps grant c = udp_next_ctx 0 d"
proof -
  have "udp_poll_apps grant c = udp_poll_loop grant 1 0 0 d"
    unfolding udp_poll_apps_def by (subst udp_poll_loop.simps) (simp add: assms(1-7) uget_actx_def queue_head_def demo_bring_def Let_def)
  also have "\<dots> = udp_poll_loop grant 1 0 1 (udp_next_ctx 0 d)"
    by (subst udp_poll_loop.simps) (simp add: assms(8-) uget_actx_def Let_def)
  also have "\<dots> = udp_next_ctx 0 d"
    by (subst udp_poll_loop.simps) (simp add: assms(8-) uget_actx_def Let_def udp_next_ctx_def)
  finally show ?thesis .
qed

definition demo_b2 :: udp_slow_context where
  "demo_b2 = udp_poll_apps demo_bgrant demo_b1"

lemmas demo_b_defs = demo_b1_def udp_slow_init_def demo_bapps_def demo_bring_def demo_bgrant_def demo_bsock_def

lemma demo_b2_at: "uw_n_socks demo_b2 = 1" "uw_n_apps demo_b2 = 1" "uw_next_app demo_b2 = 0" "us_local_port (uw_socks demo_b2 0) = 0"
  "us_reuport (uw_socks demo_b2 0) = 0" "uw_ports demo_b2 = (\<lambda>_. udp_port_init)" "uw_oob demo_b2 = False"
proof -
  define m where "m = \<lparr>qs_type = UDP_QUEUE_NEW_SOCK_REQ, qs_data = UM_new_sock_req 7\<rparr>"
  define d where "d = udp_actx_dequeue (0, 0) (udp_app_msg (fst (demo_bgrant 0)) (snd (demo_bgrant 0)) (0, 0) m demo_b1)"
  note ev = d_def m_def demo_b_defs udp_app_msg_def udp_handle_new_sock_def uapp_full_def uget_actx_def queue_tail_def uupd_sock_def uapp_put_def
    queue_put_cases uupd_actx_def udp_actx_dequeue_def queue_dequeue_def Let_def udp_sock_new_def queue_head_def ring_advance_def
  have d: "uw_n_apps d = 1" "uw_next_app d = 0" "uap_n_ctxs (uw_apps d 0) = 1" "uap_next_ctx (uw_apps d 0) = 0"
    "queue_head (fst (uax_app_slow_q (uap_ctxs (uw_apps d 0) 0))) (snd (uax_app_slow_q (uap_ctxs (uw_apps d 0) 0))) = None"
    "uw_n_socks d = 1" "us_local_port (uw_socks d 0) = 0" "us_reuport (uw_socks d 0) = 0" "uw_ports d = (\<lambda>_. udp_port_init)" "uw_oob d = False"
    by (simp_all add: ev)
  have b: "demo_b2 = udp_next_ctx 0 d" unfolding demo_b2_def
    by (rule poll_one [of demo_b1 m d demo_bgrant, OF _ _ _ _ _ _ d_def d(1-5)]) (simp_all add: m_def demo_b_defs)
  show "uw_n_socks demo_b2 = 1" "uw_n_apps demo_b2 = 1" "uw_next_app demo_b2 = 0" "us_local_port (uw_socks demo_b2 0) = 0"
  "us_reuport (uw_socks demo_b2 0) = 0" "uw_ports demo_b2 = (\<lambda>_. udp_port_init)" "uw_oob demo_b2 = False"
    unfolding b using d by (simp_all add: udp_next_ctx_def)
qed


definition demo_breq :: "udp_msg qslot" where
  "demo_breq = \<lparr>qs_type = UDP_QUEUE_BIND_REQ, qs_data = UM_bind_req \<lparr>ubq_sock_id = 0, ubq_local_port = 2000, ubq_local_ip = 0x0a000001, ubq_opaque = 7\<rparr>\<rparr>"

definition demo_b3 :: udp_slow_context where
  "demo_b3 = udp_poll_apps demo_bgrant (demo_b2\<lparr>uw_apps := demo_bapps demo_breq, uw_n_apps := 1\<rparr>)"

lemma demo_b3_at: "uw_n_socks demo_b3 = 1" "us_local_port (uw_socks demo_b3 0) = 2000" "po_nsocks (uw_ports demo_b3 2000) = 1" "uw_oob demo_b3 = False"
proof -
  define c where "c = demo_b2\<lparr>uw_apps := demo_bapps demo_breq, uw_n_apps := 1\<rparr>"
  define d where "d = udp_actx_dequeue (0, 0) (udp_app_msg (fst (demo_bgrant 0)) (snd (demo_bgrant 0)) (0, 0) demo_breq c)"
  note ev = d_def c_def demo_breq_def demo_bapps_def demo_bring_def udp_app_msg_def udp_handle_bind_def ubind_port_def uapp_full_def uget_actx_def
    queue_tail_def uupd_sock_def uapp_put_def queue_put_cases uupd_actx_def udp_actx_dequeue_def queue_dequeue_def Let_def
    queue_head_def ring_advance_def demo_b2_at udp_port_bind_def udp_port_init_def
  have d: "uw_n_apps d = 1" "uw_next_app d = 0" "uap_n_ctxs (uw_apps d 0) = 1" "uap_next_ctx (uw_apps d 0) = 0"
    "queue_head (fst (uax_app_slow_q (uap_ctxs (uw_apps d 0) 0))) (snd (uax_app_slow_q (uap_ctxs (uw_apps d 0) 0))) = None"
    "uw_n_socks d = 1" "us_local_port (uw_socks d 0) = 2000" "po_nsocks (uw_ports d 2000) = 1" "uw_oob d = False"
    by (simp_all add: ev)
  have b: "demo_b3 = udp_next_ctx 0 d" unfolding demo_b3_def c_def [symmetric]
    by (rule poll_one [of c demo_breq d demo_bgrant, OF _ _ _ _ _ _ d_def d(1-5)]) (simp_all add: c_def demo_b2_at demo_bapps_def demo_breq_def)
  show "uw_n_socks demo_b3 = 1" "us_local_port (uw_socks demo_b3 0) = 2000" "po_nsocks (uw_ports demo_b3 2000) = 1" "uw_oob demo_b3 = False"
    unfolding b using d by (simp_all add: udp_next_ctx_def)
qed

lemma demo_b3_reach: "bind_reach demo_b3"
proof -
  let ?apps = "demo_bapps \<lparr>qs_type = UDP_QUEUE_NEW_SOCK_REQ, qs_data = UM_new_sock_req 7\<rparr>"
  let ?c0 = "udp_slow_init 1 0x0a000001 (\<lambda>_. demo_bsock) ?apps"
  have r: "reqs_ok ?apps n" "reqs_ok (demo_bapps demo_breq) 1" for n
    by (simp_all add: reqs_ok_def demo_bapps_def demo_bring_def demo_breq_def)
  have b: "demo_b1 = ?c0\<lparr>uw_apps := ?apps, uw_n_apps := 1\<rparr>" by (simp add: demo_b1_def udp_slow_init_def)
  have "bind_reach demo_b1" unfolding b by (rule bind_reach.app [OF bind_reach.start [OF r(1)] r(1)])
  then have "bind_reach demo_b2" unfolding demo_b2_def by (rule bind_reach.slow [rotated]) (simp add: demo_b2_def [symmetric] demo_b2_at)
  then have "bind_reach (demo_b2\<lparr>uw_apps := demo_bapps demo_breq, uw_n_apps := 1\<rparr>)" by (rule bind_reach.app) (simp add: demo_b2_at r)
  then show ?thesis unfolding demo_b3_def by (rule bind_reach.slow [rotated]) (simp add: demo_b3_def [symmetric] demo_b3_at)
qed


end
