(* ===== verification/Txcache.thy ===== *)
theory Txcache
  imports Prelude
begin

unbundle bit_operations_syntax

text \<open>
  The cache of packet buffers of a fast-path core (\<^verbatim>\<open>chamelio/fast/txcache.c\<close>), a ring of 256 buffer
  pointers. The pool of DPDK behind it is a parameter: \<open>po_bulk\<close> stands for \<^verbatim>\<open>rte_pktmbuf_alloc_bulk\<close>, which
  returns as many buffers as asked for or none, and \<open>po_free\<close> for \<^verbatim>\<open>rte_pktmbuf_free\<close>.
\<close>

type_synonym mbuf = ptr

record 'p pool_ops =
  po_bulk :: "'p \<Rightarrow> nat \<Rightarrow> mbuf list option \<times> 'p"
  po_free :: "mbuf \<Rightarrow> 'p \<Rightarrow> 'p"

text \<open>What the code relies on: \<open>bufs p\<close> are the free buffers of the pool \<open>p\<close>.\<close>

definition pool_laws :: "'p pool_ops \<Rightarrow> ('p \<Rightarrow> mbuf multiset) \<Rightarrow> bool" where
  "pool_laws ops bufs \<longleftrightarrow>
     (\<forall>p n. case po_bulk ops p n of
        (None, p') \<Rightarrow> bufs p' = bufs p
      | (Some bs, p') \<Rightarrow> length bs = n \<and> bufs p = mset bs + bufs p') \<and>
     (\<forall>p b. bufs (po_free ops b p) = add_mset b (bufs p))"

abbreviation TX_CACHE_SIZE :: nat where "TX_CACHE_SIZE \<equiv> 256"

record txcache =
  tx_cache_n :: u16
  tx_cache_head :: u16
  tx_cache_mbs :: "nat \<Rightarrow> mbuf"

definition store_mbs :: "nat \<Rightarrow> mbuf list \<Rightarrow> (nat \<Rightarrow> mbuf) \<Rightarrow> nat \<Rightarrow> mbuf" where
  "store_mbs at bs a = (\<lambda>i. if at \<le> i \<and> i < at + length bs then bs ! (i - at) else a i)"

text \<open>Refilling; the second part of the array is filled only when the first could be.\<close>

definition txcache_grow :: "'p pool_ops \<Rightarrow> txcache \<times> 'p \<Rightarrow> txcache \<times> 'p" where
  "txcache_grow ops = (\<lambda>(c, p).
     let grow = of_nat TX_CACHE_SIZE - tx_cache_n c;
         tail = (tx_cache_head c + tx_cache_n c) AND of_nat (TX_CACHE_SIZE - 1)
     in if unat tail + unat grow \<le> TX_CACHE_SIZE
        then (case po_bulk ops p (unat grow) of
                (None, p1) \<Rightarrow> (c, p1)
              | (Some bs, p1) \<Rightarrow> (c\<lparr>tx_cache_mbs := store_mbs (unat tail) bs (tx_cache_mbs c), tx_cache_n := tx_cache_n c + grow\<rparr>, p1))
        else let g = of_nat TX_CACHE_SIZE - tail
             in (case po_bulk ops p (unat g) of
                   (None, p1) \<Rightarrow> (c, p1)
                 | (Some bs, p1) \<Rightarrow>
                     let a = store_mbs (unat tail) bs (tx_cache_mbs c)
                     in (case po_bulk ops p1 (unat (grow - g)) of
                           (None, p2) \<Rightarrow> (c\<lparr>tx_cache_mbs := a, tx_cache_n := tx_cache_n c + g\<rparr>, p2)
                         | (Some bs2, p2) \<Rightarrow>
                             (c\<lparr>tx_cache_mbs := store_mbs 0 bs2 a, tx_cache_n := tx_cache_n c + (g + (grow - g))\<rparr>, p2))))"

text \<open>The result is the number of buffers and the index of the first; they are adjacent in the array.\<close>

definition txcache_alloc :: "'p pool_ops \<Rightarrow> u16 \<Rightarrow> txcache \<times> 'p \<Rightarrow> u16 \<times> nat \<times> txcache \<times> 'p" where
  "txcache_alloc ops num cp =
     (if num = 0 then (0, 0, cp)
      else let (c, p) = (if tx_cache_n (fst cp) < num then txcache_grow ops cp else cp);
               room = (if unat (tx_cache_head c) + unat (tx_cache_n c) \<le> TX_CACHE_SIZE then tx_cache_n c
                       else of_nat TX_CACHE_SIZE - tx_cache_head c);
               num1 = (if num < room then num else room)
           in (num1, unat (tx_cache_head c),
               c\<lparr>tx_cache_head := (tx_cache_head c + num1) AND of_nat (TX_CACHE_SIZE - 1), tx_cache_n := tx_cache_n c - num1\<rparr>, p))"

text \<open>Putting one buffer back; a full cache leaves it to the pool.\<close>

definition txcache_free :: "'p pool_ops \<Rightarrow> mbuf \<Rightarrow> txcache \<times> 'p \<Rightarrow> txcache \<times> 'p" where
  "txcache_free ops mb = (\<lambda>(c, p).
     if unat (tx_cache_n c) < TX_CACHE_SIZE
     then let head = (if tx_cache_head c = 0 then of_nat (TX_CACHE_SIZE - 1) else (tx_cache_head c - 1) AND of_nat (TX_CACHE_SIZE - 1))
          in (c\<lparr>tx_cache_mbs := (tx_cache_mbs c)(unat head := mb), tx_cache_head := head, tx_cache_n := tx_cache_n c + 1\<rparr>, p)
     else (c, po_free ops mb p))"

definition txcache_unalloc :: "u16 \<Rightarrow> txcache \<Rightarrow> txcache" where
  "txcache_unalloc num c =
     (if num = 0 then c
      else c\<lparr>tx_cache_head := (tx_cache_head c - num) AND of_nat (TX_CACHE_SIZE - 1), tx_cache_n := tx_cache_n c + num\<rparr>)"

section \<open>The buffers in order\<close>

definition cache_wf :: "txcache \<Rightarrow> bool" where
  "cache_wf c \<longleftrightarrow> unat (tx_cache_head c) < TX_CACHE_SIZE \<and> unat (tx_cache_n c) \<le> TX_CACHE_SIZE"

definition cache_list :: "txcache \<Rightarrow> mbuf list" where
  "cache_list c = map (\<lambda>i. tx_cache_mbs c ((unat (tx_cache_head c) + i) mod TX_CACHE_SIZE)) [0..<unat (tx_cache_n c)]"

lemma and_255: "unat (x AND of_nat (TX_CACHE_SIZE - 1) :: u16) = unat x mod TX_CACHE_SIZE"
proof -
  have e: "(of_nat (TX_CACHE_SIZE - 1) :: u16) = mask 8" by (simp add: mask_eq_exp_minus_1)
  show ?thesis unfolding e take_bit_eq_mask [symmetric] unsigned_take_bit_eq by (simp add: take_bit_eq_mod)
qed

lemma cache_nth: "i < unat (tx_cache_n c) \<Longrightarrow> cache_list c ! i = tx_cache_mbs c ((unat (tx_cache_head c) + i) mod TX_CACHE_SIZE)"
  by (simp add: cache_list_def)

lemma cache_length [simp]: "length (cache_list c) = unat (tx_cache_n c)"
  by (simp add: cache_list_def)

text \<open>Taking \<open>k\<close> buffers from the front.\<close>

lemma cache_take:
  assumes wf: "cache_wf c" and k: "unat k \<le> unat (tx_cache_n c)"
  defines "c' \<equiv> c\<lparr>tx_cache_head := (tx_cache_head c + k) AND of_nat (TX_CACHE_SIZE - 1), tx_cache_n := tx_cache_n c - k\<rparr>"
  shows "cache_wf c'" "cache_list c' = drop (unat k) (cache_list c)"
proof -
  have s: "unat (tx_cache_head c + k) = unat (tx_cache_head c) + unat k" using wf k by (intro unat_add_small_iff) (simp_all add: cache_wf_def)
  have n: "unat (tx_cache_n c - k) = unat (tx_cache_n c) - unat k" using k by (simp add: unat_sub word_le_nat_alt)
  have h: "unat (tx_cache_head c') = (unat (tx_cache_head c) + unat k) mod TX_CACHE_SIZE" unfolding c'_def using s and_255 by simp
  have "unat (tx_cache_n c - k) \<le> TX_CACHE_SIZE" using wf n unfolding cache_wf_def by linarith
  then show "cache_wf c'" using h by (simp add: cache_wf_def c'_def)
  show "cache_list c' = drop (unat k) (cache_list c)"
    by (rule nth_equalityI) (use n h in \<open>auto simp: cache_nth c'_def mod_add_left_eq add.assoc\<close>)
qed

text \<open>Storing buffers behind the last one.\<close>

lemma cache_append:
  assumes wf: "cache_wf c" and t: "t = (unat (tx_cache_head c) + unat (tx_cache_n c)) mod TX_CACHE_SIZE"
    and m: "t + length bs \<le> TX_CACHE_SIZE" "unat (tx_cache_n c) + length bs \<le> TX_CACHE_SIZE" and k: "unat k = length bs"
  defines "c' \<equiv> c\<lparr>tx_cache_mbs := store_mbs t bs (tx_cache_mbs c), tx_cache_n := tx_cache_n c + k\<rparr>"
  shows "cache_wf c'" "cache_list c' = cache_list c @ bs"
proof -
  let ?h = "unat (tx_cache_head c)" and ?n = "unat (tx_cache_n c)"
  have n: "unat (tx_cache_n c + k) = ?n + length bs" using m(2) k by (subst unat_add_small_iff) simp_all
  show "cache_wf c'" using wf m(2) n by (simp add: cache_wf_def c'_def)
  have new: "(?h + (?n + j)) mod TX_CACHE_SIZE = t + j" if "j < length bs" for j
  proof -
    have "(?h + (?n + j)) mod TX_CACHE_SIZE = (t + j) mod TX_CACHE_SIZE" unfolding t by (simp add: mod_add_left_eq add.assoc)
    then show ?thesis using that m(1) by simp
  qed
  show "cache_list c' = cache_list c @ bs"
  proof (rule nth_equalityI)
    show "length (cache_list c') = length (cache_list c @ bs)" using n by (simp add: c'_def)
    fix i assume "i < length (cache_list c')"
    then have i: "i < ?n + length bs" using n by (simp add: c'_def)
    have e: "cache_list c' ! i = store_mbs t bs (tx_cache_mbs c) ((?h + i) mod TX_CACHE_SIZE)" using i n by (simp add: cache_nth c'_def)
    show "cache_list c' ! i = (cache_list c @ bs) ! i"
    proof (cases "i < ?n")
      case True
      have "(?h + i) mod TX_CACHE_SIZE \<noteq> t + j" if "j < length bs" for j
        using that True m(2) new [OF that] mod_add_eq_iff [of i TX_CACHE_SIZE "?n + j" ?h] by auto
      then have "\<not> (t \<le> (?h + i) mod TX_CACHE_SIZE \<and> (?h + i) mod TX_CACHE_SIZE < t + length bs)"
        by (metis add_less_cancel_left le_Suc_ex)
      then show ?thesis unfolding e store_mbs_def using True by (auto simp: nth_append cache_nth)
    next
      case False
      then obtain j where j: "i = ?n + j" "j < length bs" using i by (metis add_less_cancel_left le_Suc_ex not_le)
      then show ?thesis unfolding e store_mbs_def using new [OF j(2)] by (simp add: nth_append)
    qed
  qed
qed

lemma cache_prepend:
  assumes wf: "cache_wf c" and m: "unat m + unat (tx_cache_n c) \<le> TX_CACHE_SIZE"
    and h: "unat h = (unat (tx_cache_head c) + (TX_CACHE_SIZE - unat m)) mod TX_CACHE_SIZE"
  defines "c' \<equiv> c\<lparr>tx_cache_head := h, tx_cache_n := tx_cache_n c + m\<rparr>"
  shows "cache_wf c'" "cache_list c' = map (\<lambda>j. tx_cache_mbs c ((unat h + j) mod TX_CACHE_SIZE)) [0..<unat m] @ cache_list c"
proof -
  have n: "unat (tx_cache_n c + m) = unat m + unat (tx_cache_n c)" using m by (subst unat_add_small_iff) simp_all
  show "cache_wf c'" using wf m n h by (simp add: cache_wf_def c'_def)
  have "(unat h + (unat m + j)) mod TX_CACHE_SIZE = (unat (tx_cache_head c) + j) mod TX_CACHE_SIZE" for j
  proof -
    have "(unat h + (unat m + j)) mod TX_CACHE_SIZE = (unat (tx_cache_head c) + (TX_CACHE_SIZE - unat m) + (unat m + j)) mod TX_CACHE_SIZE"
      unfolding h by (rule mod_add_left_eq)
    also have "unat (tx_cache_head c) + (TX_CACHE_SIZE - unat m) + (unat m + j) = (unat (tx_cache_head c) + j) + TX_CACHE_SIZE" using m by simp
    finally show ?thesis by (simp only: mod_add_self2)
  qed
  then show "cache_list c' = map (\<lambda>j. tx_cache_mbs c ((unat h + j) mod TX_CACHE_SIZE)) [0..<unat m] @ cache_list c"
    by (intro nth_equalityI) (auto simp: n c'_def cache_nth nth_append cache_list_def split: nat_diff_split)
qed

section \<open>The operations on the buffers in order\<close>

lemma grow_appends:
  assumes wf: "cache_wf c" and laws: "pool_laws ops bufs" and r: "txcache_grow ops (c, p) = (c', p')"
  shows "\<exists>new. cache_wf c' \<and> cache_list c' = cache_list c @ new \<and> bufs p = mset new + bufs p'"
proof -
  let ?n = "unat (tx_cache_n c)" and ?h = "unat (tx_cache_head c)"
  define grow :: u16 where "grow = of_nat TX_CACHE_SIZE - tx_cache_n c"
  define tail :: u16 where "tail = (tx_cache_head c + tx_cache_n c) AND of_nat (TX_CACHE_SIZE - 1)"
  have g: "unat grow = TX_CACHE_SIZE - ?n" using wf by (simp add: grow_def cache_wf_def unat_sub word_le_nat_alt)
  have t: "unat tail = (?h + ?n) mod TX_CACHE_SIZE"
    unfolding tail_def and_255 using wf by (subst unat_add_small_iff) (simp_all add: cache_wf_def)
  have bulk: "length bs = k \<and> bufs q = mset bs + bufs q'" if "po_bulk ops q k = (Some bs, q')" for q k bs q'
    using laws that unfolding pool_laws_def by (metis (mono_tags, lifting) case_prod_conv option.simps(5))
  have none: "bufs q' = bufs q" if "po_bulk ops q k = (None, q')" for q k q'
    using laws that unfolding pool_laws_def by (metis (mono_tags, lifting) case_prod_conv option.simps(4))
  note r = r [unfolded txcache_grow_def case_prod_conv Let_def, folded grow_def, folded tail_def]
  show ?thesis
  proof (cases "unat tail + unat grow \<le> TX_CACHE_SIZE")
    case True
    obtain o1 p1 where b: "po_bulk ops p (unat grow) = (o1, p1)" by fastforce
    show ?thesis
    proof (cases o1)
      case None
      then show ?thesis using r wf True b none [of p] by (intro exI [of _ "[]"]) auto
    next
      case (Some bs)
      then have l: "length bs = unat grow" "bufs p = mset bs + bufs p1" using bulk b by blast+
      show ?thesis using r True b Some cache_append [OF wf t, of bs grow] l g wf
        by (intro exI [of _ bs]) (auto simp: cache_wf_def)
    qed
  next
    case False
    define k :: u16 where "k = of_nat TX_CACHE_SIZE - tail"
    note r = r [folded k_def]
    have tl: "unat tail < TX_CACHE_SIZE" using t by simp
    then have k: "unat k = TX_CACHE_SIZE - unat tail" by (simp add: k_def unat_sub word_le_nat_alt)
    have kg: "unat (grow - k) = unat grow - unat k" using False k by (simp add: unat_sub word_le_nat_alt)
    obtain o1 p1 where b: "po_bulk ops p (unat k) = (o1, p1)" by fastforce
    show ?thesis
    proof (cases o1)
      case None
      then show ?thesis using r wf False b none [of p] by (intro exI [of _ "[]"]) auto
    next
      case (Some bs)
      then have l: "length bs = unat k" "bufs p = mset bs + bufs p1" using bulk b by blast+
      define c1 where "c1 = c\<lparr>tx_cache_mbs := store_mbs (unat tail) bs (tx_cache_mbs c), tx_cache_n := tx_cache_n c + k\<rparr>"
      have n1: "?n + unat k \<le> TX_CACHE_SIZE" using False k g wf tl unfolding cache_wf_def by linarith
      have c1: "cache_wf c1" "cache_list c1 = cache_list c @ bs" unfolding c1_def
        using cache_append [OF wf t, of bs k] l(1) k tl n1 by simp_all
      obtain o2 p2 where b2: "po_bulk ops p1 (unat (grow - k)) = (o2, p2)" by fastforce
      show ?thesis
      proof (cases o2)
        case None
        then show ?thesis using r c1 l False b b2 Some none [OF b2 [unfolded None]]
          by (intro exI [of _ bs]) (auto simp: c1_def [symmetric])
      next
        case (Some bs2)
        then have l2: "length bs2 = unat (grow - k)" "bufs p1 = mset bs2 + bufs p2" using bulk b2 by blast+
        have n1': "unat (tx_cache_n c1) = ?n + unat k" unfolding c1_def using n1 by (simp add: unat_add_small)
        have z: "0 = (unat (tx_cache_head c1) + unat (tx_cache_n c1)) mod TX_CACHE_SIZE"
        proof -
          have "(unat (tx_cache_head c1) + unat (tx_cache_n c1)) mod TX_CACHE_SIZE = (?h + ?n + unat k) mod TX_CACHE_SIZE"
            by (simp only: n1') (simp add: c1_def add.assoc)
          also have "\<dots> = (unat tail + unat k) mod TX_CACHE_SIZE" unfolding t by (rule mod_add_left_eq [symmetric])
          finally show ?thesis using k tl by simp
        qed
        have e: "c1\<lparr>tx_cache_mbs := store_mbs 0 bs2 (tx_cache_mbs c1), tx_cache_n := tx_cache_n c1 + (grow - k)\<rparr> =
            c\<lparr>tx_cache_mbs := store_mbs 0 bs2 (store_mbs (unat tail) bs (tx_cache_mbs c)), tx_cache_n := tx_cache_n c + (k + (grow - k))\<rparr>"
          by (simp add: c1_def)
        have "length bs2 \<le> TX_CACHE_SIZE" "unat (tx_cache_n c1) + length bs2 \<le> TX_CACHE_SIZE" using l2(1) kg n1' g wf False k tl unfolding cache_wf_def by linarith+
        note a = cache_append [OF c1(1) z, of bs2 "grow - k", simplified add_0, OF this l2(1) [symmetric], unfolded e]
        show ?thesis using r a c1(2) l(2) l2(2) False b b2 \<open>o1 = Some bs\<close> Some
          by (intro exI [of _ "bs @ bs2"]) auto
      qed
    qed
  qed
qed

text \<open>
  An allocation hands out buffers from the front, after appending what the pool gave, if it was asked. The
  part of the array they are in stays as it is until something is put back in front of them.
\<close>

definition alloc_post :: "('p \<Rightarrow> mbuf multiset) \<Rightarrow> u16 \<Rightarrow> txcache \<times> 'p \<Rightarrow> u16 \<times> nat \<times> txcache \<times> 'p \<Rightarrow> mbuf list \<Rightarrow> mbuf list \<Rightarrow> bool" where
  "alloc_post bufs num cp res new L \<longleftrightarrow>
     (case cp of (c, p) \<Rightarrow> case res of (k, i, c', p') \<Rightarrow>
        cache_wf c' \<and> L = cache_list c @ new \<and> bufs p = mset new + bufs p' \<and>
        k \<le> num \<and> unat k \<le> length L \<and> (k = 0 \<longrightarrow> num = 0 \<or> L = []) \<and> length L \<le> TX_CACHE_SIZE \<and>
        cache_list c' = drop (unat k) L \<and>
        map (\<lambda>j. tx_cache_mbs c' (i + j)) [0..<unat k] = take (unat k) L \<and>
        (0 < unat k \<longrightarrow> i + unat k \<le> TX_CACHE_SIZE \<and> unat (tx_cache_head c') = (i + unat k) mod TX_CACHE_SIZE))"

lemma alloc_from:
  assumes wf: "cache_wf c" and num: "num \<noteq> 0"
  defines "room \<equiv> (if unat (tx_cache_head c) + unat (tx_cache_n c) \<le> TX_CACHE_SIZE then tx_cache_n c else of_nat TX_CACHE_SIZE - tx_cache_head c)"
  defines "k \<equiv> (if num < room then num else room)"
  defines "c' \<equiv> c\<lparr>tx_cache_head := (tx_cache_head c + k) AND of_nat (TX_CACHE_SIZE - 1), tx_cache_n := tx_cache_n c - k\<rparr>"
  shows "alloc_post bufs num (c, p) (k, unat (tx_cache_head c), c', p) [] (cache_list c)"
proof -
  let ?h = "unat (tx_cache_head c)" and ?n = "unat (tx_cache_n c)"
  have h: "?h < TX_CACHE_SIZE" "?n \<le> TX_CACHE_SIZE" using wf by (simp_all add: cache_wf_def)
  have room: "unat room = min ?n (TX_CACHE_SIZE - ?h)" using h by (auto simp: room_def unat_sub word_le_nat_alt)
  have k: "unat k = min (unat num) (unat room)" by (simp add: k_def word_less_nat_alt)
  have kn: "unat k \<le> ?n" "?h + unat k \<le> TX_CACHE_SIZE" using k room h by linarith+
  have le: "k \<le> num" using k by (simp add: word_le_nat_alt)
  have zero: "cache_list c = []" if "k = 0"
  proof -
    have "unat num \<noteq> 0" using num by (metis unat_eq_zero)
    then have "?n = 0" using k room h that by simp
    then show ?thesis by (simp add: cache_list_def)
  qed
  have s: "unat (tx_cache_head c + k) = ?h + unat k" using kn by (intro unat_add_small_iff) simp_all
  have hd: "unat (tx_cache_head c') = (?h + unat k) mod TX_CACHE_SIZE" unfolding c'_def using s and_255 by simp
  have got: "map (\<lambda>j. tx_cache_mbs c' (?h + j)) [0..<unat k] = take (unat k) (cache_list c)"
    by (rule nth_equalityI) (use kn in \<open>auto simp: c'_def cache_nth\<close>)
  show ?thesis unfolding alloc_post_def using cache_take [OF wf kn(1)] le zero hd got kn h(2) by (auto simp: c'_def)
qed

lemma txcache_alloc_takes:
  assumes wf: "cache_wf c" and laws: "pool_laws ops bufs"
  shows "\<exists>new L. alloc_post bufs num (c, p) (txcache_alloc ops num (c, p)) new L"
proof (cases "num = 0")
  case True
  then show ?thesis using wf by (intro exI [of _ "[]"] exI [of _ "cache_list c"]) (simp add: alloc_post_def txcache_alloc_def cache_wf_def)
next
  case False
  obtain c1 p1 where g: "(if tx_cache_n c < num then txcache_grow ops (c, p) else (c, p)) = (c1, p1)" by fastforce
  then obtain new where new: "cache_wf c1" "cache_list c1 = cache_list c @ new" "bufs p = mset new + bufs p1"
    using grow_appends [OF wf laws] wf by (metis (no_types, lifting) append.right_neutral add_0 mset.simps(1) prod.inject)
  have "alloc_post bufs num (c1, p1) (txcache_alloc ops num (c, p)) [] (cache_list c1)"
    using alloc_from [OF new(1) False, of bufs p1] g False by (simp add: txcache_alloc_def Let_def)
  then show ?thesis using new
    by (intro exI [of _ new] exI [of _ "cache_list c1"]) (simp add: alloc_post_def split: prod.splits)
qed

text \<open>Putting the last \<open>m\<close> of the buffers handed out back.\<close>

lemma txcache_unalloc_restores:
  assumes post: "alloc_post bufs num cp (k, i, c', p') new L" and m: "m \<le> k"
  shows "cache_wf (txcache_unalloc m c')" "cache_list (txcache_unalloc m c') = drop (unat k - unat m) L"
proof -
  have P: "cache_wf c'" "unat k \<le> length L" "length L \<le> TX_CACHE_SIZE" "cache_list c' = drop (unat k) L"
    "map (\<lambda>j. tx_cache_mbs c' (i + j)) [0..<unat k] = take (unat k) L"
    "0 < unat k \<longrightarrow> i + unat k \<le> TX_CACHE_SIZE \<and> unat (tx_cache_head c') = (i + unat k) mod TX_CACHE_SIZE"
    using post by (cases cp; simp add: alloc_post_def)+
  have mk: "unat m \<le> unat k" using m by (simp add: word_le_nat_alt)
  have n: "unat (tx_cache_n c') = length L - unat k" using arg_cong [OF P(4), of length] by simp
  have both: "cache_wf (txcache_unalloc m c') \<and> cache_list (txcache_unalloc m c') = drop (unat k - unat m) L"
  proof (cases "m = 0")
    case True
    then show ?thesis using P by (simp add: txcache_unalloc_def)
  next
    case False
    then have k: "0 < unat k" using mk by (metis gr0I le_zero_eq unat_eq_zero)
    have i: "i + unat k \<le> TX_CACHE_SIZE" "unat (tx_cache_head c') = (i + unat k) mod TX_CACHE_SIZE" using P(6) k by auto
    have pos: "0 < unat m" using False by (metis gr0I unat_eq_zero)
    define h where "h = (tx_cache_head c' - m) AND of_nat (TX_CACHE_SIZE - 1)"
    have h: "unat h = i + (unat k - unat m)"
    proof -
      have "int (unat h) = uint (tx_cache_head c' - m) mod 256" unfolding h_def and_255 by (simp add: zmod_int)
      also have "\<dots> = (uint (tx_cache_head c') - uint m) mod 256" unfolding uint_word_ariths by (simp add: mod_mod_cancel)
      also have "\<dots> = (int (i + unat k) mod 256 - int (unat m)) mod 256" using i(2) by (metis uint_nat zmod_int of_nat_numeral)
      also have "\<dots> = int (i + (unat k - unat m)) mod 256" using mk by (simp add: mod_diff_left_eq of_nat_diff algebra_simps)
      finally have "int (unat h) = int (i + (unat k - unat m)) mod 256" .
      then have "unat h = (i + (unat k - unat m)) mod 256" by (metis nat_int of_nat_numeral zmod_int)
      then show ?thesis using i(1) mk pos by simp
    qed
    have step: "unat h = (unat (tx_cache_head c') + (TX_CACHE_SIZE - unat m)) mod TX_CACHE_SIZE"
    proof -
      have "(unat (tx_cache_head c') + (TX_CACHE_SIZE - unat m)) mod TX_CACHE_SIZE = (i + unat k + (TX_CACHE_SIZE - unat m)) mod TX_CACHE_SIZE"
        unfolding i(2) by (rule mod_add_left_eq)
      also have "i + unat k + (TX_CACHE_SIZE - unat m) = (i + (unat k - unat m)) + TX_CACHE_SIZE" using mk i(1) by simp
      also have "\<dots> mod TX_CACHE_SIZE = (i + (unat k - unat m)) mod TX_CACHE_SIZE" by (rule mod_add_self2)
      also have "\<dots> = unat h" unfolding h using i(1) mk pos by (intro mod_less) linarith
      finally show ?thesis by (rule sym)
    qed
    have front: "map (\<lambda>j. tx_cache_mbs c' ((unat h + j) mod TX_CACHE_SIZE)) [0..<unat m] = drop (unat k - unat m) (take (unat k) L)"
      unfolding P(5) [symmetric] by (rule nth_equalityI) (use mk i(1) h in \<open>auto simp: add.assoc\<close>)
    have "drop (unat k - unat m) (take (unat k) L) @ drop (unat k) L = drop (unat k - unat m) L"
      by (metis append_take_drop_id diff_le_self drop_append length_take min.absorb2 P(2) diff_is_0_eq drop_0)
    moreover have "unat m + unat (tx_cache_n c') \<le> TX_CACHE_SIZE" using n mk P(2,3) by linarith
    ultimately show ?thesis using cache_prepend [OF P(1) _ step] P(4) False front
      unfolding txcache_unalloc_def h_def [symmetric] by simp
  qed
  then show "cache_wf (txcache_unalloc m c')" "cache_list (txcache_unalloc m c') = drop (unat k - unat m) L" by blast+
qed

lemma txcache_free_puts:
  assumes wf: "cache_wf c"
  shows "txcache_free ops mb (c, p) = (c', p') \<Longrightarrow>
    cache_wf c' \<and> (if length (cache_list c) < TX_CACHE_SIZE then cache_list c' = mb # cache_list c \<and> p' = p
                  else c' = c \<and> p' = po_free ops mb p)"
proof -
  assume r: "txcache_free ops mb (c, p) = (c', p')"
  show ?thesis
  proof (cases "unat (tx_cache_n c) < TX_CACHE_SIZE")
    case True
    define h where "h = (if tx_cache_head c = 0 then of_nat (TX_CACHE_SIZE - 1) else (tx_cache_head c - 1) AND of_nat (TX_CACHE_SIZE - 1))"
    define c1 where "c1 = c\<lparr>tx_cache_mbs := (tx_cache_mbs c)(unat h := mb)\<rparr>"
    have hd: "unat (tx_cache_head c) < TX_CACHE_SIZE" using wf by (simp add: cache_wf_def)
    have h: "unat h = (unat (tx_cache_head c) + (TX_CACHE_SIZE - 1)) mod TX_CACHE_SIZE"
    proof (cases "tx_cache_head c = 0")
      case False
      then have "unat (tx_cache_head c - 1) = unat (tx_cache_head c) - 1" "0 < unat (tx_cache_head c)"
        by (simp_all add: unat_minus_one unat_gt_0)
      then have "unat h = unat (tx_cache_head c) - 1" using hd False unfolding h_def by (simp only: and_255 if_False) simp
      moreover have "(unat (tx_cache_head c) + (TX_CACHE_SIZE - 1)) mod TX_CACHE_SIZE = unat (tx_cache_head c) - 1"
        using hd \<open>0 < unat (tx_cache_head c)\<close> by (subst le_mod_geq) auto
      ultimately show ?thesis by simp
    qed (simp add: h_def)
    have keep: "cache_list c1 = cache_list c"
    proof (rule nth_equalityI)
      fix j assume "j < length (cache_list c1)"
      then have j: "j < unat (tx_cache_n c)" by (simp add: c1_def)
      have "(unat (tx_cache_head c) + j) mod TX_CACHE_SIZE \<noteq> unat h"
        unfolding h using mod_add_eq_iff [of j TX_CACHE_SIZE "TX_CACHE_SIZE - 1" "unat (tx_cache_head c)"] j True by auto
      then show "cache_list c1 ! j = cache_list c ! j" using j by (simp add: cache_nth c1_def)
    qed (simp add: c1_def)
    have e: "c' = c1\<lparr>tx_cache_head := h, tx_cache_n := tx_cache_n c1 + 1\<rparr>" "p' = p"
      using r True unfolding txcache_free_def case_prod_conv Let_def h_def [symmetric] by (auto simp: c1_def)
    have w: "cache_wf c1" using wf by (simp add: cache_wf_def c1_def)
    have "unat h < TX_CACHE_SIZE" using h by simp
    then show ?thesis unfolding e using cache_prepend [OF w, of 1 h] h True keep by (simp add: c1_def)
  next
    case False
    then show ?thesis using r wf by (auto simp: txcache_free_def)
  qed
qed

end
