(* ===== verification/Fast_Infra.thy ===== *)
theory Fast_Infra
  imports Txcache Tcp_Pkt Arp Netvirt Scheduler
begin

unbundle bit_operations_syntax

text \<open>
  The state of a fast-path core (\<^verbatim>\<open>chamelio/fast/include/fast.h\<close>), the transmit buffer and its flush
  (\<^verbatim>\<open>chamelio/fast/fast.c\<close>), and the infrastructure protocols under the protocol handlers: address resolution
  and the GRE encapsulation of \<^verbatim>\<open>chamelio/fast/infra.c\<close>. A packet buffer is a pointer; its metadata and bytes
  are found in the memory of the core. The protocol handlers, the contents of a guest's shared memory besides its
  queues, the DPDK packet pool, the NIC and DPDK's pseudo-header checksum are parameters.
\<close>

section \<open>Packet buffers\<close>

record rte_mbuf =
  mb_data_off :: nat
  mb_pkt_len :: u32
  mb_data_len :: u16
  mb_l2_len :: nat
  mb_l3_len :: nat
  mb_l4_len :: nat
  mb_outer_l2_len :: nat
  mb_outer_l3_len :: nat
  mb_ol_flags :: u64
  mb_buf :: bytes

text \<open>The packet of a buffer, and a change of its bytes.\<close>

definition pktmbuf_mtod :: "rte_mbuf \<Rightarrow> bytes" where
  "pktmbuf_mtod m = (\<lambda>i. mb_buf m (mb_data_off m + i))"

definition upd_pkt :: "(bytes \<Rightarrow> bytes) \<Rightarrow> rte_mbuf \<Rightarrow> rte_mbuf" where
  "upd_pkt f m = m\<lparr>mb_buf := (\<lambda>i. if i < mb_data_off m then mb_buf m i else f (pktmbuf_mtod m) (i - mb_data_off m))\<rparr>"

lemma mtod_upd [simp]: "pktmbuf_mtod (upd_pkt f m) = f (pktmbuf_mtod m)"
  by (rule ext) (simp add: pktmbuf_mtod_def upd_pkt_def)

lemma upd_pkt_other [simp]: "mb_data_off (upd_pkt f m) = mb_data_off m" "mb_ol_flags (upd_pkt f m) = mb_ol_flags m"
  by (simp_all add: upd_pkt_def)

section \<open>The state of a core\<close>

abbreviation PROTOQ_ID_INVALID :: u16 where "PROTOQ_ID_INVALID \<equiv> 0xffff"
abbreviation MAX_PROTO_QUEUES :: nat where "MAX_PROTO_QUEUES \<equiv> 128"
abbreviation CHAMELIO_MAX_GUESTS :: nat where "CHAMELIO_MAX_GUESTS \<equiv> 4"
abbreviation CHAM_PROTO_INVALID :: u8 where "CHAM_PROTO_INVALID \<equiv> 0"
abbreviation FAST_DEQ_BATCH_SIZE :: nat where "FAST_DEQ_BATCH_SIZE \<equiv> 32"
abbreviation FAST_SCHED_BATCH_SIZE :: nat where "FAST_SCHED_BATCH_SIZE \<equiv> 16"
abbreviation FAST_RX_BATCH_SIZE :: nat where "FAST_RX_BATCH_SIZE \<equiv> 16"
abbreviation FAST_CTL_BATCH_SIZE :: nat where "FAST_CTL_BATCH_SIZE \<equiv> 32"
abbreviation TXBUF_SIZE :: nat where "TXBUF_SIZE \<equiv> 64"

record cham_dqueue =
  cd_id :: u16
  cd_dq :: dqueue
  cd_next :: u16
  cd_prev :: u16

record cham_map =
  cm_id :: u16
  cm_nelems :: u32
  cm_elsize :: u32
  cm_size :: u32
  cm_off :: u64
  cm_addr :: ptr

text \<open>
  The context the handlers get. The packet is the buffer, the offset of the packet in it and the room behind;
  \<open>ec_rings\<close> and \<open>ec_shm\<close> are the queues and the rest of the guest's shared memory.
\<close>

record ('s, 'd) cham_ebpf_ctx =
  ec_pkt :: "mbuf \<times> nat"
  ec_room :: nat
  ec_shm_base :: ptr
  ec_shm_end :: ptr
  ec_sched :: cham_scheduler
  ec_qid :: u16
  ec_qe :: u32
  ec_ncores :: u16
  ec_core :: u16
  ec_equeues :: "u32 \<Rightarrow> u16 \<times> equeue"
  ec_nmaps :: u16
  ec_maps :: "u16 \<Rightarrow> cham_map"
  ec_rings :: "u16 \<Rightarrow> 'd ring"
  ec_shm :: 's

record ('s, 'd) proto_fast =
  pf_type :: u8
  ndqueues :: u16
  dqueues_head :: u16
  dqueues_tail :: u16
  dqueues :: "u16 \<Rightarrow> cham_dqueue"
  pf_ectx :: "('s, 'd) cham_ebpf_ctx"
  has_event_rx :: u8
  has_event_sched :: u8
  has_event_deq :: u8
  event_rx_vm :: ptr
  event_sched_vm :: ptr
  event_deq_vm :: ptr

record ('s, 'd) guest_fast =
  gf_id :: u8
  gf_ip :: u32
  gf_gre_key :: u32
  gf_budget :: u64
  gf_proto :: "('s, 'd) proto_fast"
  gf_shm_base :: ptr
  gf_shm_len :: u64

datatype fp_proto_mode = FP_PROTO_EBPF | FP_PROTO_HAND | FP_PROTO_OTHER

record ('p, 's, 'd) fast_context =
  fc_id :: u8
  fc_eth_addr :: mac
  fc_ip :: u32
  fc_cores_max :: u16
  fc_jit_combined :: bool
  fc_mode :: fp_proto_mode
  fc_virt_gre :: bool
  fc_perf_iso :: bool
  fc_n_guests :: u8
  fc_next_sched_guest :: u8
  fc_next_queues_guest :: u8
  fc_guests :: "nat \<Rightarrow> ('s, 'd) guest_fast"
  fc_tx_n :: u16
  fc_tx_mbs :: "nat \<Rightarrow> mbuf"
  fc_cache :: txcache
  fc_fcq :: cqueue
  fc_cfq :: "dqueue \<times> qdata ring"
  fc_txq :: "dqueue \<times> qdata ring"
  fc_arp :: arp_table
  fc_inner :: netvirt_table
  fc_agg :: "ptr \<times> ptr \<times> ptr"
  fc_pool :: 'p
  fc_mem :: "mbuf \<Rightarrow> rte_mbuf"
  fc_sent :: "mbuf list"

text \<open>\<open>fc_sent\<close> are the buffers the NIC has taken, in order; the code has no such field.\<close>

definition set_mb :: "mbuf \<Rightarrow> (rte_mbuf \<Rightarrow> rte_mbuf) \<Rightarrow> ('p, 's, 'd) fast_context \<Rightarrow> ('p, 's, 'd) fast_context" where
  "set_mb mb f x = x\<lparr>fc_mem := (fc_mem x)(mb := f (fc_mem x mb))\<rparr>"

definition set_guest :: "nat \<Rightarrow> (('s, 'd) guest_fast \<Rightarrow> ('s, 'd) guest_fast) \<Rightarrow> ('p, 's, 'd) fast_context \<Rightarrow> ('p, 's, 'd) fast_context" where
  "set_guest i f x = x\<lparr>fc_guests := (fc_guests x)(i := f (fc_guests x i))\<rparr>"

text \<open>A buffer appended to the transmit buffer (\<^verbatim>\<open>ctx->tx_mbs[ctx->tx_n] = mb; ctx->tx_n++\<close>).\<close>

definition tx_push :: "mbuf \<Rightarrow> ('p, 's, 'd) fast_context \<Rightarrow> ('p, 's, 'd) fast_context" where
  "tx_push mb x = x\<lparr>fc_tx_mbs := (fc_tx_mbs x)(unat (fc_tx_n x) := mb), fc_tx_n := fc_tx_n x + 1\<rparr>"

text \<open>The operations of the buffer cache on the context; freeing clears the offload flags.\<close>

definition cache_alloc :: "'p pool_ops \<Rightarrow> u16 \<Rightarrow> ('p, 's, 'd) fast_context \<Rightarrow> u16 \<times> nat \<times> ('p, 's, 'd) fast_context" where
  "cache_alloc ops num x =
     (case txcache_alloc ops num (fc_cache x, fc_pool x) of (k, i, c, p) \<Rightarrow> (k, i, x\<lparr>fc_cache := c, fc_pool := p\<rparr>))"

definition cache_free :: "'p pool_ops \<Rightarrow> mbuf \<Rightarrow> ('p, 's, 'd) fast_context \<Rightarrow> ('p, 's, 'd) fast_context" where
  "cache_free ops mb x =
     (case txcache_free ops mb (fc_cache x, fc_pool x) of (c, p) \<Rightarrow> set_mb mb (mb_ol_flags_update (\<lambda>_. 0)) (x\<lparr>fc_cache := c, fc_pool := p\<rparr>))"

definition cache_unalloc :: "u16 \<Rightarrow> ('p, 's, 'd) fast_context \<Rightarrow> ('p, 's, 'd) fast_context" where
  "cache_unalloc num x = x\<lparr>fc_cache := txcache_unalloc num (fc_cache x)\<rparr>"

text \<open>The buffers waiting for the NIC.\<close>

definition tx_list :: "('p, 's, 'd) fast_context \<Rightarrow> mbuf list" where
  "tx_list x = map (fc_tx_mbs x) [0..<unat (fc_tx_n x)]"

text \<open>
  \<open>nic n\<close> is what \<^verbatim>\<open>rte_eth_tx_burst\<close> returns when given \<open>n\<close> packets, the number of packets, from the first, that the NIC took.
\<close>

definition fast_txflush :: "(nat \<Rightarrow> int) \<Rightarrow> ('p, 's, 'd) fast_context \<Rightarrow> int \<times> ('p, 's, 'd) fast_context" where
  "fast_txflush nic x =
     (if fc_tx_n x = 0 then (0, x)
      else let ret = nic (unat (fc_tx_n x));
               x1 = x\<lparr>fc_sent := fc_sent x @ take (nat ret) (tx_list x)\<rparr>
           in if ret = int (unat (fc_tx_n x)) then (ret, x1\<lparr>fc_tx_n := 0\<rparr>)
              else if ret > 0
              then let unsent = unat (fc_tx_n x) - nat ret
                   in (ret, x1\<lparr>fc_tx_mbs := (\<lambda>i. if i < unsent then fc_tx_mbs x (i + nat ret) else fc_tx_mbs x i), fc_tx_n := of_nat unsent\<rparr>)
              else (ret, x1))"

definition fast_budg_charge :: "nat \<Rightarrow> u64 \<Rightarrow> ('p, 's, 'd) fast_context \<Rightarrow> ('p, 's, 'd) fast_context" where
  "fast_budg_charge g cyc = set_guest g (\<lambda>s. s\<lparr>gf_budget := gf_budget s - cyc\<rparr>)"

section \<open>Infrastructure protocols\<close>

abbreviation ETH_HLEN :: nat where "ETH_HLEN \<equiv> 14"
abbreviation GRE_HLEN :: nat where "GRE_HLEN \<equiv> 8"
abbreviation GRE_INNER :: nat where "GRE_INNER \<equiv> 42"
abbreviation ETH_TYPE_IP :: u16 where "ETH_TYPE_IP \<equiv> 0x0800"
abbreviation GRE_PROTO_IP :: u16 where "GRE_PROTO_IP \<equiv> 0x0800"
abbreviation IP_PROTO_GRE :: u8 where "IP_PROTO_GRE \<equiv> 47"
abbreviation IP_PROTO_UDP :: u8 where "IP_PROTO_UDP \<equiv> 17"
abbreviation INFRA_RET_OK :: int where "INFRA_RET_OK \<equiv> 0"
abbreviation INFRA_RET_ERR :: int where "INFRA_RET_ERR \<equiv> -1"
abbreviation INFRA_RET_MBUF :: int where "INFRA_RET_MBUF \<equiv> 1"

text \<open>A hardware address in a packet.\<close>

definition st_mac :: "nat \<Rightarrow> mac \<Rightarrow> bytes \<Rightarrow> bytes" where
  "st_mac o' m p = (\<lambda>i. if o' \<le> i \<and> i < o' + ETH_ADDR_LEN then m ! (i - o') else p i)"

definition ld_mac :: "bytes \<Rightarrow> nat \<Rightarrow> mac" where
  "ld_mac p o' = map (\<lambda>i. p (o' + i)) [0 ..< ETH_ADDR_LEN]"

text \<open>Six bytes copied into a 64-bit field; the upper two keep the value \<open>old\<close> that was in the slot.\<close>

definition u64_of_mac :: "u64 \<Rightarrow> mac \<Rightarrow> u64" where
  "u64_of_mac old m = (push_bit 48 (drop_bit 48 old)) OR
     foldr (\<lambda>i w. w OR push_bit (8 * i) (ucast (m ! i))) [0 ..< ETH_ADDR_LEN] 0"

subsection \<open>Receiving\<close>

definition process_arp_rx_req :: "u64 \<times> u64 \<Rightarrow> bytes \<Rightarrow> ('p, 's, 'd) fast_context \<Rightarrow> ('p, 's, 'd) fast_context" where
  "process_arp_rx_req old pkt x =
     x\<lparr>fc_fcq := snd (queue_put (fc_fcq x)
        (D_arp_pkt_rx_req \<lparr>arq_spa = f_beui32 (ld32 pkt 28), arq_tpa = f_beui32 (ld32 pkt 38), arq_sha = u64_of_mac (fst old) (ld_mac pkt 22)\<rparr>)
        QUEUE_ARP_RX_REQ)\<rparr>"

definition process_arp_rx_rep :: "u64 \<times> u64 \<Rightarrow> bytes \<Rightarrow> ('p, 's, 'd) fast_context \<Rightarrow> ('p, 's, 'd) fast_context" where
  "process_arp_rx_rep old pkt x =
     x\<lparr>fc_fcq := snd (queue_put (fc_fcq x)
        (D_arp_pkt_rx_rep \<lparr>arr_spa = f_beui32 (ld32 pkt 28), arr_sha = u64_of_mac (fst old) (ld_mac pkt 22),
                           arr_tpa = f_beui32 (ld32 pkt 38), arr_tha = u64_of_mac (snd old) (ld_mac pkt 32)\<rparr>)
        QUEUE_ARP_RX_REP)\<rparr>"

definition process_rx_arp :: "u64 \<times> u64 \<Rightarrow> bytes \<Rightarrow> ('p, 's, 'd) fast_context \<Rightarrow> int \<times> ('p, 's, 'd) fast_context" where
  "process_rx_arp old pkt x =
     (if queue_tail (fst (fc_fcq x)) (snd (fc_fcq x)) = None then (INFRA_RET_ERR, x)
      else if f_beui16 (ld16 pkt 20) = ARP_OPER_REQUEST then (INFRA_RET_OK, process_arp_rx_req old pkt x)
      else if f_beui16 (ld16 pkt 20) = ARP_OPER_REPLY then (INFRA_RET_OK, process_arp_rx_rep old pkt x)
      else (INFRA_RET_OK, x))"

text \<open>The guest a packet is for and where the packet of the guest starts.\<close>

definition process_rx_ip :: "bytes \<Rightarrow> ('p, 's, 'd) fast_context \<Rightarrow> (u32 \<times> nat) option" where
  "process_rx_ip pkt x =
     (if fc_virt_gre x
      then (case netvirt_table_get (fc_inner x) (f_beui32 (ld32 pkt 38)) (f_beui32 (ld32 pkt 58)) of
              None \<Rightarrow> None | Some e \<Rightarrow> Some (ne_gid (fc_inner x e), ETH_HLEN + IP_HLEN + GRE_HLEN))
      else Some (0, ETH_HLEN))"

definition infra_rx :: "u64 \<times> u64 \<Rightarrow> mbuf \<Rightarrow> ('p, 's, 'd) fast_context \<Rightarrow> (u32 \<times> nat) option \<times> ('p, 's, 'd) fast_context" where
  "infra_rx old mb x =
     (let pkt = pktmbuf_mtod (fc_mem x mb)
      in if f_beui16 (ld16 pkt 12) = ETH_TYPE_ARP then (None, snd (process_rx_arp old pkt x))
         else (process_rx_ip pkt x, x))"

subsection \<open>Transmitting\<close>

definition pending_msg :: "u32 \<Rightarrow> mbuf \<Rightarrow> csize \<Rightarrow> u8 \<Rightarrow> qdata" where
  "pending_msg ip mb len gid = D_mbuf_pending \<lparr>mbp_ip = ip, mbp_gid = gid, mbp_pkt_len = len, mbp_mb = mb\<rparr>"

definition put_fcq :: "qdata \<Rightarrow> u8 \<Rightarrow> ('p, 's, 'd) fast_context \<Rightarrow> int \<times> ('p, 's, 'd) fast_context" where
  "put_fcq d ty x = (case queue_put (fc_fcq x) d ty of (r, q) \<Rightarrow> (r, x\<lparr>fc_fcq := q\<rparr>))"

definition tx_eth :: "mac \<Rightarrow> mac \<Rightarrow> bytes \<Rightarrow> bytes" where
  "tx_eth dst src p = st16 12 (t_beui16 ETH_TYPE_IP) (st_mac 6 src (st_mac 0 dst p))"

text \<open>Leaving the buffer to the control path until the address is known.\<close>

definition tx_pending :: "nat \<Rightarrow> csize \<Rightarrow> mbuf \<Rightarrow> u32 \<Rightarrow> ('p, 's, 'd) fast_context \<Rightarrow> int \<times> ('p, 's, 'd) fast_context" where
  "tx_pending g pkt_len mb ip x =
     (case put_fcq (pending_msg ip mb pkt_len (gf_id (fc_guests x g))) QUEUE_MBUF_PENDING x of
        (r, x') \<Rightarrow> if r \<noteq> 0 then (INFRA_RET_ERR, x') else (INFRA_RET_MBUF, x'))"

definition process_tx_arp :: "nat \<Rightarrow> csize \<Rightarrow> mbuf \<Rightarrow> u32 \<Rightarrow> ('p, 's, 'd) fast_context \<Rightarrow> int \<times> ('p, 's, 'd) fast_context" where
  "process_tx_arp g pkt_len mb ip x =
     (case arp_lookup (fc_arp x) ip of
        None \<Rightarrow>
          (case arp_insert_pending (fc_arp x) ip of (tab, ae) \<Rightarrow>
           case ae of None \<Rightarrow> (INFRA_RET_ERR, x)
           | Some _ \<Rightarrow>
              (let x1 = x\<lparr>fc_arp := tab\<rparr>
               in if queue_tail (fst (fc_fcq x1)) (snd (fc_fcq x1)) = None then (INFRA_RET_ERR, x1)
                  else tx_pending g pkt_len mb ip (snd (put_fcq (D_arp_lookup \<lparr>alk_ip = ip\<rparr>) QUEUE_ARP_LOOKUP x1))))
      | Some i \<Rightarrow>
          if ae_pending (buckets (fc_arp x) i) \<noteq> 0 then tx_pending g pkt_len mb ip x
          else (INFRA_RET_OK, set_mb mb (upd_pkt (tx_eth (ae_mac (buckets (fc_arp x) i)) (fc_eth_addr x))) x))"

definition process_tx_mbuf :: "csize \<Rightarrow> rte_mbuf \<Rightarrow> rte_mbuf" where
  "process_tx_mbuf pkt_len m =
     (let len = ucast (pkt_len + of_nat ETH_HLEN)
      in m\<lparr>mb_pkt_len := len, mb_data_len := ucast len, mb_l2_len := ETH_HLEN, mb_ol_flags := 0\<rparr>)"

abbreviation TX_F_TCP_CKSUM :: u64 where "TX_F_TCP_CKSUM \<equiv> push_bit 52 1"
abbreviation TX_F_UDP_CKSUM :: u64 where "TX_F_UDP_CKSUM \<equiv> push_bit 52 3"
abbreviation TX_F_IP_CKSUM :: u64 where "TX_F_IP_CKSUM \<equiv> push_bit 54 1"
abbreviation TX_F_IPV4 :: u64 where "TX_F_IPV4 \<equiv> push_bit 55 1"
abbreviation TX_F_OUTER_IP_CKSUM :: u64 where "TX_F_OUTER_IP_CKSUM \<equiv> push_bit 58 1"
abbreviation TX_F_OUTER_IPV4 :: u64 where "TX_F_OUTER_IPV4 \<equiv> push_bit 59 1"
abbreviation TX_F_TUNNEL_GRE :: u64 where "TX_F_TUNNEL_GRE \<equiv> push_bit 45 2"

text \<open>
  \<open>ck\<close> is \<^verbatim>\<open>rte_ipv4_phdr_cksum\<close>, of the bytes from the IP header on. The checksum is at offset 16 of a TCP header
  and 6 of a UDP header.
\<close>

type_synonym phdr_cksum = "bytes \<Rightarrow> u64 \<Rightarrow> u16"

definition at_off :: "nat \<Rightarrow> bytes \<Rightarrow> bytes" where
  "at_off o' p = (\<lambda>i. p (o' + i))"

definition process_tx_chksum :: "phdr_cksum \<Rightarrow> rte_mbuf \<Rightarrow> rte_mbuf" where
  "process_tx_chksum ck m0 =
     (let m = upd_pkt (st16 (ETH_HLEN + 10) 0) m0;
          proto = pktmbuf_mtod m (ETH_HLEN + 9)
      in if proto = IP_PROTO_TCP
         then let m1 = upd_pkt (st16 (ETH_HLEN + 36) 0) m;
                  m2 = m1\<lparr>mb_ol_flags := TX_F_IPV4 OR TX_F_IP_CKSUM OR TX_F_TCP_CKSUM\<rparr>
              in upd_pkt (\<lambda>p. st16 (ETH_HLEN + 36) (ck (at_off ETH_HLEN p) (mb_ol_flags m2)) p) m2
         else if proto = IP_PROTO_UDP
         then let m1 = upd_pkt (st16 (ETH_HLEN + 26) 0) m;
                  m2 = m1\<lparr>mb_ol_flags := TX_F_IPV4 OR TX_F_IP_CKSUM OR TX_F_UDP_CKSUM\<rparr>
              in upd_pkt (\<lambda>p. st16 (ETH_HLEN + 26) (ck (at_off ETH_HLEN p) (mb_ol_flags m2)) p) m2
         else m)"

definition process_tx_mbuf_gre :: "csize \<Rightarrow> rte_mbuf \<Rightarrow> rte_mbuf" where
  "process_tx_mbuf_gre pkt_len m =
     (let len = ucast (pkt_len + of_nat ETH_HLEN + of_nat IP_HLEN + of_nat GRE_HLEN) :: u16
      in m\<lparr>mb_pkt_len := ucast len, mb_data_len := len, mb_l2_len := GRE_HLEN, mb_l3_len := IP_HLEN, mb_l4_len := 0,
           mb_outer_l2_len := ETH_HLEN, mb_outer_l3_len := IP_HLEN, mb_ol_flags := 0\<rparr>)"

definition gre_flags :: u64 where
  "gre_flags = TX_F_OUTER_IPV4 OR TX_F_OUTER_IP_CKSUM OR TX_F_TUNNEL_GRE OR TX_F_IPV4 OR TX_F_IP_CKSUM"

definition process_tx_chksum_gre :: "phdr_cksum \<Rightarrow> rte_mbuf \<Rightarrow> rte_mbuf" where
  "process_tx_chksum_gre ck m0 =
     (let m = upd_pkt (st16 (GRE_INNER + 10) 0 \<circ> st16 (ETH_HLEN + 10) 0) m0;
          proto = pktmbuf_mtod m (GRE_INNER + 9)
      in if proto = IP_PROTO_TCP
         then let m1 = upd_pkt (st16 (GRE_INNER + 36) 0) m
              in (upd_pkt (\<lambda>p. st16 (GRE_INNER + 36) (ck (at_off GRE_INNER p) (mb_ol_flags m1)) p) m1)\<lparr>mb_ol_flags := gre_flags OR TX_F_TCP_CKSUM\<rparr>
         else if proto = IP_PROTO_UDP
         then let m1 = upd_pkt (st16 (GRE_INNER + 26) 0) m
              in (upd_pkt (\<lambda>p. st16 (GRE_INNER + 26) (ck (at_off GRE_INNER p) (mb_ol_flags m1)) p) m1)\<lparr>mb_ol_flags := gre_flags OR TX_F_UDP_CKSUM\<rparr>
         else m)"

text \<open>The version byte is that of \<^const>\<open>IPH_VHL_SET\<close>, here at the outer header; of the GRE flags only the key bit is set.\<close>

definition process_tx_hdrs_gre :: "u32 \<Rightarrow> u32 \<Rightarrow> u32 \<Rightarrow> csize \<Rightarrow> bytes \<Rightarrow> bytes" where
  "process_tx_hdrs_gre own_ip gre_key outer_remote_ip pkt_len =
     st32 38 (t_beui32 gre_key) \<circ> st16 36 (t_beui16 GRE_PROTO_IP) \<circ> st16 34 (t_beui16 (push_bit 13 1)) \<circ>
     st32 (ETH_HLEN + 16) (t_beui32 outer_remote_ip) \<circ> st32 (ETH_HLEN + 12) (t_beui32 own_ip) \<circ> st16 (ETH_HLEN + 10) 0 \<circ>
     st8 (ETH_HLEN + 9) IP_PROTO_GRE \<circ> st8 (ETH_HLEN + 8) 0xff \<circ> st16 (ETH_HLEN + 6) (t_beui16 0) \<circ> st16 (ETH_HLEN + 4) (t_beui16 3) \<circ>
     st16 (ETH_HLEN + 2) (t_beui16 (ucast (pkt_len + of_nat GRE_HLEN + of_nat IP_HLEN))) \<circ>
     st8 (ETH_HLEN + 1) 0 \<circ> st8 ETH_HLEN (push_bit 4 4 OR 5)"

definition infra_tx :: "phdr_cksum \<Rightarrow> nat \<Rightarrow> mbuf \<Rightarrow> csize \<Rightarrow> ('p, 's, 'd) fast_context \<Rightarrow> int \<times> ('p, 's, 'd) fast_context" where
  "infra_tx ck g mb pkt_len x =
     (let pkt = pktmbuf_mtod (fc_mem x mb);
          outer = (if fc_virt_gre x
                   then map_option (\<lambda>e. ne_outer_ip (fc_inner x e))
                          (netvirt_table_get (fc_inner x) (gf_gre_key (fc_guests x g)) (f_beui32 (ld32 pkt 58)))
                   else Some (f_beui32 (ld32 pkt (ETH_HLEN + 16))))
      in case outer of
           None \<Rightarrow> (INFRA_RET_ERR, x)
         | Some ip \<Rightarrow>
             (case process_tx_arp g pkt_len mb ip x of (r, x1) \<Rightarrow>
                if r \<noteq> 0 then (r, x1)
                else if fc_virt_gre x
                then (INFRA_RET_OK, set_mb mb (process_tx_chksum_gre ck \<circ> process_tx_mbuf_gre pkt_len \<circ>
                        upd_pkt (process_tx_hdrs_gre (fc_ip x) (gf_gre_key (fc_guests x g)) ip pkt_len)) x1)
                else (INFRA_RET_OK, set_mb mb (process_tx_chksum ck \<circ> process_tx_mbuf pkt_len) x1)))"

end
