(* ===== verification/Fast_Ctl.thy ===== *)
theory Fast_Ctl
  imports Fast_Infra
begin

unbundle bit_operations_syntax

text \<open>
  The messages of the control path to a fast-path core (\<^verbatim>\<open>chamelio/fast/controlif.c\<close>): registering guests, queues,
  maps and handlers, enabling and disabling queues, and sending packets on behalf of the control path. The queues a
  guest has enabled form a list threaded through the array of its queues.
\<close>

section \<open>The handlers\<close>

definition upd_proto :: "(('s, 'd) proto_fast \<Rightarrow> ('s, 'd) proto_fast) \<Rightarrow> ('s, 'd) guest_fast \<Rightarrow> ('s, 'd) guest_fast" where
  "upd_proto f g = g\<lparr>gf_proto := f (gf_proto g)\<rparr>"

definition upd_dq :: "u16 \<Rightarrow> (cham_dqueue \<Rightarrow> cham_dqueue) \<Rightarrow> ('s, 'd) proto_fast \<Rightarrow> ('s, 'd) proto_fast" where
  "upd_dq i f p = p\<lparr>dqueues := (dqueues p)(i := f (dqueues p i))\<rparr>"

text \<open>\<open>budget\<close> is the value of the counter that the pointer in the message names.\<close>

definition handle_new_guest :: "u64 \<Rightarrow> queue_new_guest_req \<Rightarrow> ('p, 's, 'd) fast_context \<Rightarrow> ('p, 's, 'd) fast_context" where
  "handle_new_guest budget req x =
     (if unat (ng_id req) \<ge> CHAMELIO_MAX_GUESTS then x
      else (set_guest (unat (ng_id req)) (\<lambda>g.
        (upd_proto (\<lambda>p. p\<lparr>ndqueues := 0, pf_type := CHAM_PROTO_INVALID, dqueues_head := PROTOQ_ID_INVALID, dqueues_tail := PROTOQ_ID_INVALID,
            has_event_rx := 0, has_event_sched := 0, has_event_deq := 0, event_rx_vm := 0, event_sched_vm := 0, event_deq_vm := 0,
            pf_ectx := (pf_ectx p)\<lparr>ec_ncores := fc_cores_max x, ec_core := ucast (fc_id x), ec_sched := sched_init (ec_sched (pf_ectx p)),
              ec_shm_base := ng_shm_base req, ec_shm_end := ng_shm_base req + ng_shm_len req, ec_nmaps := 0\<rparr>\<rparr>) g)
          \<lparr>gf_id := ng_id req, gf_budget := budget, gf_shm_base := ng_shm_base req, gf_shm_len := ng_shm_len req,
           gf_gre_key := (if fc_virt_gre x then ng_gre_key req else gf_gre_key g),
           gf_ip := (if fc_virt_gre x then ng_guest_ip req else gf_ip g)\<rparr>) x)\<lparr>fc_n_guests := fc_n_guests x + 1\<rparr>)"

definition handle_new_queue :: "queue_new_queue_req \<Rightarrow> ('p, 's, 'd) fast_context \<Rightarrow> ('p, 's, 'd) fast_context" where
  "handle_new_queue req = set_guest (unat (nqq_gid req)) (\<lambda>g.
     let qid = ucast (nqq_qid req) :: u16; addr = gf_shm_base g + nqq_off req
     in upd_proto (\<lambda>p. upd_dq qid (\<lambda>_. \<lparr>cd_id = qid,
          cd_dq = \<lparr>dq_head = 0, dq_nelems = nqq_nelems req, dq_elsize = nqq_elsize req, dq_off = nqq_off req, dq_entries = addr\<rparr>,
          cd_next = PROTOQ_ID_INVALID, cd_prev = PROTOQ_ID_INVALID\<rparr>)
          (p\<lparr>pf_type := nqq_proto_type req,
             pf_ectx := (pf_ectx p)\<lparr>ec_equeues := (ec_equeues (pf_ectx p))(nqq_qid req :=
               (qid, \<lparr>eq_tail = 0, eq_nelems = nqq_nelems req, eq_elsize = nqq_elsize req, eq_off = nqq_off req, eq_entries = addr\<rparr>))\<rparr>\<rparr>)) g)"

definition handle_new_map :: "queue_new_map_req \<Rightarrow> ('p, 's, 'd) fast_context \<Rightarrow> ('p, 's, 'd) fast_context" where
  "handle_new_map req = set_guest (unat (nmq_gid req)) (\<lambda>g. upd_proto (\<lambda>p.
     let e = pf_ectx p
     in p\<lparr>pf_type := nmq_proto_type req, pf_ectx := e\<lparr>ec_nmaps := ec_nmaps e + 1, ec_maps := (ec_maps e)(ec_nmaps e :=
          \<lparr>cm_id = ucast (nmq_mid req), cm_nelems = nmq_nelems req, cm_elsize = nmq_elsize req, cm_size = nmq_elsize req * nmq_nelems req,
           cm_off = nmq_off req, cm_addr = gf_shm_base g + nmq_off req\<rparr>)\<rparr>\<rparr>) g)"

text \<open>The list of enabled queues: appending a queue, taking one out.\<close>

definition dqueue_link :: "u16 \<Rightarrow> dqueue \<Rightarrow> ('s, 'd) proto_fast \<Rightarrow> ('s, 'd) proto_fast" where
  "dqueue_link qid dq p =
     (let p1 = upd_dq qid (\<lambda>q. q\<lparr>cd_id := qid, cd_dq := dq\<rparr>) p;
          p2 = (if dqueues_tail p1 = PROTOQ_ID_INVALID then p1\<lparr>dqueues_head := qid\<rparr>
                else upd_dq (dqueues_tail p1) (\<lambda>q. q\<lparr>cd_next := qid\<rparr>) p1)
      in (upd_dq qid (\<lambda>q. q\<lparr>cd_prev := dqueues_tail p2, cd_next := PROTOQ_ID_INVALID\<rparr>) p2)
           \<lparr>dqueues_tail := qid, ndqueues := ndqueues p2 + 1\<rparr>)"

definition dqueue_unlink :: "u16 \<Rightarrow> ('s, 'd) proto_fast \<Rightarrow> ('s, 'd) proto_fast" where
  "dqueue_unlink qid p =
     (let q = dqueues p qid;
          p1 = (if dqueues_head p = cd_id q then p\<lparr>dqueues_head := cd_next q\<rparr> else p);
          p2 = (if dqueues_tail p1 = cd_id q then p1\<lparr>dqueues_tail := cd_prev q\<rparr> else p1);
          p3 = (if cd_next q \<noteq> PROTOQ_ID_INVALID then upd_dq (cd_next q) (\<lambda>q. q\<lparr>cd_prev := PROTOQ_ID_INVALID\<rparr>) p2 else p2);
          q3 = dqueues p3 qid;
          p4 = (if cd_prev q3 \<noteq> PROTOQ_ID_INVALID then upd_dq (cd_prev q3) (\<lambda>q. q\<lparr>cd_next := PROTOQ_ID_INVALID\<rparr>) p3 else p3)
      in (upd_dq qid (\<lambda>q. q\<lparr>cd_next := PROTOQ_ID_INVALID, cd_prev := PROTOQ_ID_INVALID\<rparr>) p4)\<lparr>ndqueues := ndqueues p4 - 1\<rparr>)"

definition handle_enableq :: "queue_enableq_req \<Rightarrow> ('p, 's, 'd) fast_context \<Rightarrow> ('p, 's, 'd) fast_context" where
  "handle_enableq req = set_guest (unat (enq_gid req)) (\<lambda>g. upd_proto (\<lambda>p.
     dqueue_link (enq_qid req) \<lparr>dq_head = 0, dq_nelems = enq_nelems req, dq_elsize = ucast (enq_elsize req), dq_off = enq_off req,
       dq_entries = gf_shm_base g + enq_off req\<rparr> (p\<lparr>pf_type := enq_proto_type req\<rparr>)) g)"

definition handle_disableq :: "queue_disableq_req \<Rightarrow> ('p, 's, 'd) fast_context \<Rightarrow> ('p, 's, 'd) fast_context" where
  "handle_disableq req = set_guest (unat (dis_gid req)) (upd_proto (dqueue_unlink (dis_qid req)))"

definition mark_events :: "('s, 'd) proto_fast \<Rightarrow> ('s, 'd) proto_fast" where
  "mark_events p = p\<lparr>has_event_rx := 1, has_event_deq := 1, has_event_sched := 1\<rparr>"

definition handle_upload_ebpf :: "queue_up_ebpf_req \<Rightarrow> ('p, 's, 'd) fast_context \<Rightarrow> ('p, 's, 'd) fast_context" where
  "handle_upload_ebpf req x =
     (if fc_jit_combined x
      then (if unat (ueq_gid req) < CHAMELIO_MAX_GUESTS then set_guest (unat (ueq_gid req)) (upd_proto mark_events) x else x)
             \<lparr>fc_agg := (ueq_agg_rx_fn req, ueq_agg_deq_fn req, ueq_agg_sched_fn req)\<rparr>
      else set_guest (unat (ueq_gid req)) (upd_proto (\<lambda>p. (mark_events p)
             \<lparr>event_rx_vm := ueq_event_rx_vm req, event_sched_vm := ueq_event_sched_vm req, event_deq_vm := ueq_event_deq_vm req\<rparr>)) x)"

text \<open>An ARP packet laid out over the start of a packet.\<close>

definition st_arp_pkt :: "arp_pkt \<Rightarrow> bytes \<Rightarrow> bytes" where
  "st_arp_pkt a = st32 38 (arp_tpa a) \<circ> st_mac 32 (arp_tha a) \<circ> st32 28 (arp_spa a) \<circ> st_mac 22 (arp_sha a) \<circ> st16 20 (arp_oper a) \<circ>
     st8 19 (arp_plen a) \<circ> st8 18 (arp_hlen a) \<circ> st16 16 (arp_ptype a) \<circ> st16 14 (arp_htype a) \<circ> st16 12 (eth_type a) \<circ>
     st_mac 6 (eth_src a) \<circ> st_mac 0 (eth_dst a)"

text \<open>
  The control path writes nothing but ARP packets to its transmit queue. Whether the cache had a buffer is not
  checked: the slot at its head is used in any case.
\<close>

definition handle_arp_tx_pkt :: "'p pool_ops \<Rightarrow> ('p, 's, 'd) fast_context \<Rightarrow> ('p, 's, 'd) fast_context" where
  "handle_arp_tx_pkt ops x =
     (case queue_head (fst (fc_txq x)) (snd (fc_txq x)) of
        None \<Rightarrow> x
      | Some slot \<Rightarrow>
          (case cache_alloc ops 1 x of (k, i, x1) \<Rightarrow>
             let mb = tx_cache_mbs (fc_cache x1) i;
                 x2 = set_mb mb (\<lambda>m. (case qs_data (snd (fc_txq x1) slot) of D_arp_pkt a \<Rightarrow> upd_pkt (st_arp_pkt a) | _ \<Rightarrow> id)
                        (m\<lparr>mb_data_off := 0, mb_data_len := 42, mb_pkt_len := 42\<rparr>)) x1;
                 x3 = tx_push mb x2
             in (case queue_dequeue (fst (fc_txq x3)) (snd (fc_txq x3)) of (r, q, m) \<Rightarrow> x3\<lparr>fc_txq := (q, m)\<rparr>)))"

definition handle_arp_update :: "queue_arp_update \<Rightarrow> ('p, 's, 'd) fast_context \<Rightarrow> ('p, 's, 'd) fast_context" where
  "handle_arp_update u x = x\<lparr>fc_arp := fst (arp_insert (fc_arp x) (aup_ip u) (aup_mac u))\<rparr>"

definition handle_mbuf :: "'p pool_ops \<Rightarrow> phdr_cksum \<Rightarrow> queue_mbuf_tx \<Rightarrow> ('p, 's, 'd) fast_context \<Rightarrow> ('p, 's, 'd) fast_context" where
  "handle_mbuf ops ck qmb x =
     (if unat (fc_tx_n x) > TXBUF_SIZE then cache_free ops (mbt_mb qmb) x
      else case infra_tx ck (unat (mbt_gid qmb)) (mbt_mb qmb) (mbt_pkt_len qmb) x of (r, x1) \<Rightarrow>
        if r = INFRA_RET_ERR then cache_free ops (mbt_mb qmb) x1
        else if r = INFRA_RET_MBUF then x1
        else tx_push (mbt_mb qmb) x1)"

section \<open>Polling\<close>

text \<open>
  One message: \<open>Some\<close> the context to dequeue from when the type is known. \<open>bud\<close> reads the counter at an address. A message
  carries the payload its type announces.
\<close>

definition ctl_dispatch :: "'p pool_ops \<Rightarrow> phdr_cksum \<Rightarrow> (ptr \<Rightarrow> u64) \<Rightarrow> u8 \<Rightarrow> qdata \<Rightarrow> ('p, 's, 'd) fast_context \<Rightarrow> ('p, 's, 'd) fast_context option" where
  "ctl_dispatch ops ck bud ty d x =
     (if ty = QUEUE_NEW_GUEST_REQ then (case d of D_new_guest_req r \<Rightarrow> Some (handle_new_guest (bud (ng_budget r)) r x) | _ \<Rightarrow> Some x)
      else if ty = QUEUE_NEW_MAP_REQ then (case d of D_new_map_req r \<Rightarrow> Some (handle_new_map r x) | _ \<Rightarrow> Some x)
      else if ty = QUEUE_NEW_QUEUE_REQ then (case d of D_new_queue_req r \<Rightarrow> Some (handle_new_queue r x) | _ \<Rightarrow> Some x)
      else if ty = QUEUE_ENABLEQ_REQ then (case d of D_enableq_req r \<Rightarrow> Some (handle_enableq r x) | _ \<Rightarrow> Some x)
      else if ty = QUEUE_DISABLEQ_REQ then (case d of D_disableq_req r \<Rightarrow> Some (handle_disableq r x) | _ \<Rightarrow> Some x)
      else if ty = QUEUE_UPLOAD_EBPF_REQ then (case d of D_up_ebpf_req r \<Rightarrow> Some (handle_upload_ebpf r x) | _ \<Rightarrow> Some x)
      else if ty = QUEUE_ARP_TX_PKT then Some (handle_arp_tx_pkt ops x)
      else if ty = QUEUE_ARP_UPDATE then (case d of D_arp_update r \<Rightarrow> Some (handle_arp_update r x) | _ \<Rightarrow> Some x)
      else if ty = QUEUE_MBUF_TX then (case d of D_mbuf_tx r \<Rightarrow> Some (handle_mbuf ops ck r x) | _ \<Rightarrow> Some x)
      else None)"

fun ctl_loop :: "'p pool_ops \<Rightarrow> phdr_cksum \<Rightarrow> (ptr \<Rightarrow> u64) \<Rightarrow> nat \<Rightarrow> ('p, 's, 'd) fast_context \<Rightarrow> ('p, 's, 'd) fast_context" where
  "ctl_loop ops ck bud 0 x = x"
| "ctl_loop ops ck bud (Suc n) x =
     (case queue_head (fst (fc_cfq x)) (snd (fc_cfq x)) of
        None \<Rightarrow> x
      | Some slot \<Rightarrow>
          (let e = snd (fc_cfq x) slot
           in ctl_loop ops ck bud n
                (case ctl_dispatch ops ck bud (qs_type e) (qs_data e) x of
                   None \<Rightarrow> x
                 | Some x1 \<Rightarrow> (case queue_dequeue (fst (fc_cfq x1)) (snd (fc_cfq x1)) of (r, q, m) \<Rightarrow> x1\<lparr>fc_cfq := (q, m)\<rparr>))))"

definition controlif_poll :: "'p pool_ops \<Rightarrow> phdr_cksum \<Rightarrow> (ptr \<Rightarrow> u64) \<Rightarrow> ('p, 's, 'd) fast_context \<Rightarrow> int \<times> ('p, 's, 'd) fast_context" where
  "controlif_poll ops ck bud x =
     (0, ctl_loop ops ck bud (min FAST_CTL_BATCH_SIZE (TXBUF_SIZE - unat (fc_tx_n x))) x)"

end
