(* ===== verification/Fast_Poll.thy ===== *)
theory Fast_Poll
  imports Fast_Ctl
begin

unbundle bit_operations_syntax

text \<open>
  The polling loop of a fast-path core (\<^verbatim>\<open>fast.c\<close>, \<^verbatim>\<open>fast_rx.c\<close>, \<^verbatim>\<open>fast_queues.c\<close>, \<^verbatim>\<open>fast_sched.c\<close> and the context
  set-up of \<^verbatim>\<open>fast_ebpf.h\<close>): packets from the NIC, entries of the guests' queues, scheduled transmissions and messages
  of the control path are handed to the protocol handlers, and what these produce goes through the infrastructure
  protocols to the transmit buffer. Prefetches, statistics and log messages are left out. A guest's cycles are an
  argument, as are the answers of the NIC.
\<close>

section \<open>Running a handler\<close>

datatype event = Ev_rx | Ev_sched | Ev_deq

text \<open>
  \<open>hd_vm\<close> is \<^verbatim>\<open>ebpf_vm_exec\<close>, which returns its own status besides the program's value, and \<open>hd_hand\<close> the dispatch to the
  handwritten handlers. Both get the context and the bytes from \<^verbatim>\<open>ctx->pkt\<close> on.
\<close>

record ('s, 'd) handlers =
  hd_vm :: "event \<Rightarrow> ptr \<Rightarrow> ('s, 'd) cham_ebpf_ctx \<Rightarrow> bytes \<Rightarrow> int \<times> int \<times> ('s, 'd) cham_ebpf_ctx \<times> bytes"
  hd_hand :: "event \<Rightarrow> u8 \<Rightarrow> ('s, 'd) cham_ebpf_ctx \<Rightarrow> bytes \<Rightarrow> int \<times> ('s, 'd) cham_ebpf_ctx \<times> bytes"

abbreviation FAST_L3_PKT_ROOM :: nat where "FAST_L3_PKT_ROOM \<equiv> 1500"

definition fast_ebpf_pkt_room :: "bool \<Rightarrow> nat" where
  "fast_ebpf_pkt_room virt_gre = (if virt_gre then FAST_L3_PKT_ROOM - IP_HLEN - GRE_HLEN else FAST_L3_PKT_ROOM)"

definition upd_ectx :: "(('s, 'd) cham_ebpf_ctx \<Rightarrow> ('s, 'd) cham_ebpf_ctx) \<Rightarrow> ('s, 'd) guest_fast \<Rightarrow> ('s, 'd) guest_fast" where
  "upd_ectx f = upd_proto (\<lambda>p. p\<lparr>pf_ectx := f (pf_ectx p)\<rparr>)"

definition fast_ebpf_ctx_set_pkt :: "mbuf \<Rightarrow> nat \<Rightarrow> nat \<Rightarrow> ('p, 's, 'd) fast_context \<Rightarrow> ('p, 's, 'd) fast_context" where
  "fast_ebpf_ctx_set_pkt mb pkt_off g x =
     set_guest g (upd_ectx (\<lambda>e. e\<lparr>ec_pkt := (mb, mb_data_off (fc_mem x mb) + pkt_off), ec_room := fast_ebpf_pkt_room (fc_virt_gre x)\<rparr>)) x"

definition fast_ebpf_ctx_set_pkt_l2 :: "mbuf \<Rightarrow> nat \<Rightarrow> ('p, 's, 'd) fast_context \<Rightarrow> ('p, 's, 'd) fast_context" where
  "fast_ebpf_ctx_set_pkt_l2 mb g x =
     fast_ebpf_ctx_set_pkt mb (ETH_HLEN + (if fc_virt_gre x then IP_HLEN + GRE_HLEN else 0)) g x"

definition event_vm :: "event \<Rightarrow> ('s, 'd) proto_fast \<Rightarrow> ptr" where
  "event_vm ev p = (case ev of Ev_rx \<Rightarrow> event_rx_vm p | Ev_sched \<Rightarrow> event_sched_vm p | Ev_deq \<Rightarrow> event_deq_vm p)"

text \<open>The switch over the mode: the status, the value and the context with the handler's effects.\<close>

definition run_event :: "('s, 'd) handlers \<Rightarrow> event \<Rightarrow> nat \<Rightarrow> ('p, 's, 'd) fast_context \<Rightarrow> int \<times> int \<times> ('p, 's, 'd) fast_context" where
  "run_event h ev g x =
     (let p = gf_proto (fc_guests x g); e = pf_ectx p; (mb, o') = ec_pkt e; pkt = at_off o' (mb_buf (fc_mem x mb));
          fin = (\<lambda>e' pkt'. set_mb mb (\<lambda>m. m\<lparr>mb_buf := \<lambda>i. if i < o' then mb_buf m i else pkt' (i - o')\<rparr>) (set_guest g (upd_ectx (\<lambda>_. e')) x))
      in case fc_mode x of
           FP_PROTO_EBPF \<Rightarrow> (case hd_vm h ev (event_vm ev p) e pkt of (er, r, e', pkt') \<Rightarrow> (er, r, fin e' pkt'))
         | FP_PROTO_HAND \<Rightarrow> (case hd_hand h ev (pf_type p) e pkt of (r, e', pkt') \<Rightarrow> (0, r, fin e' pkt'))
         | FP_PROTO_OTHER \<Rightarrow> (-1, -1, x))"

text \<open>What follows a handler that produced a packet: whether the buffer was used up.\<close>

definition send_result :: "phdr_cksum \<Rightarrow> nat \<Rightarrow> mbuf \<Rightarrow> int \<Rightarrow> ('p, 's, 'd) fast_context \<Rightarrow> bool \<times> ('p, 's, 'd) fast_context" where
  "send_result ck g mb len x =
     (case infra_tx ck g mb (of_int len) x of (ret, x1) \<Rightarrow>
        if ret = INFRA_RET_OK then (True, tx_push mb x1)
        else if ret = INFRA_RET_MBUF then (True, x1)
        else (False, x1))"

definition mbs_at :: "nat \<Rightarrow> nat \<Rightarrow> ('p, 's, 'd) fast_context \<Rightarrow> mbuf" where
  "mbs_at base k x = tx_cache_mbs (fc_cache x) (base + k)"

section \<open>Polling the guests' queues\<close>

definition dqueue_rotate_head :: "u16 \<Rightarrow> ('s, 'd) proto_fast \<Rightarrow> ('s, 'd) proto_fast" where
  "dqueue_rotate_head i p =
     (let qid = cd_id (dqueues p i);
          p1 = (upd_dq (dqueues_tail p) (\<lambda>q. q\<lparr>cd_next := qid\<rparr>) p)\<lparr>dqueues_tail := qid\<rparr>;
          p2 = p1\<lparr>dqueues_head := (if ndqueues p1 = 1 then qid else cd_next (dqueues p1 i))\<rparr>
      in upd_dq i (\<lambda>q. q\<lparr>cd_next := PROTOQ_ID_INVALID\<rparr>) p2)"

text \<open>One entry of a queue; the result is -1 or 0 and whether the buffer was used up.\<close>

definition queues_poll_guest_dequeue ::
  "('s, 'd) handlers \<Rightarrow> phdr_cksum \<Rightarrow> nat \<Rightarrow> u16 \<Rightarrow> u32 \<Rightarrow> mbuf \<Rightarrow> ('p, 's, 'd) fast_context \<Rightarrow> int \<times> bool \<times> ('p, 's, 'd) fast_context" where
  "queues_poll_guest_dequeue h ck g i slot mb x =
     (let x1 = fast_ebpf_ctx_set_pkt_l2 mb g (set_mb mb (mb_data_off_update (\<lambda>_. 0)) x);
          x2 = set_guest g (upd_ectx (\<lambda>e. e\<lparr>ec_qe := slot, ec_qid := cd_id (dqueues (gf_proto (fc_guests x1 g)) i)\<rparr>)) x1
      in case run_event h Ev_deq g x2 of (exec_ret, deq_ret, x3) \<Rightarrow>
           if deq_ret < 0 \<or> exec_ret < 0 then (-1, False, x3)
           else if deq_ret > 0 then (0, send_result ck g mb deq_ret x3)
           else (0, False, x3))"

text \<open>Draining one queue.\<close>

function drain_queue ::
  "('s, 'd) handlers \<Rightarrow> phdr_cksum \<Rightarrow> nat \<Rightarrow> u16 \<Rightarrow> nat \<Rightarrow> nat \<Rightarrow> nat \<Rightarrow> nat \<Rightarrow> ('p, 's, 'd) fast_context \<Rightarrow>
   int \<times> nat \<times> nat \<times> ('p, 's, 'd) fast_context" where
  "drain_queue h ck g i base mx ntx ndeq x =
     (if ndeq < mx then
        (let p = gf_proto (fc_guests x g) in
         case queue_head (cd_dq (dqueues p i)) (ec_rings (pf_ectx p) i) of
           None \<Rightarrow> (0, ntx, ndeq, x)
         | Some slot \<Rightarrow>
             (case queues_poll_guest_dequeue h ck g i slot (mbs_at base ntx x) x of (r, used, x1) \<Rightarrow>
                let ntx1 = (if used then ntx + 1 else ntx)
                in if r < 0 then (-1, ntx1, ndeq + 1, x1)
                   else let p1 = gf_proto (fc_guests x1 g)
                        in case queue_dequeue (cd_dq (dqueues p1 i)) (ec_rings (pf_ectx p1) i) of (r2, q, m) \<Rightarrow>
                             let x2 = set_guest g (\<lambda>s. upd_ectx (\<lambda>e. e\<lparr>ec_rings := (ec_rings e)(i := m)\<rparr>)
                                        (upd_proto (upd_dq i (\<lambda>c. c\<lparr>cd_dq := q\<rparr>)) s)) x1
                             in if r2 < 0 then (-1, ntx1, ndeq + 1, x2)
                                else drain_queue h ck g i base mx ntx1 (ndeq + 1) x2))
      else (0, ntx, ndeq, x))"
  by pat_completeness auto
termination by (relation "measure (\<lambda>(h, ck, g, i, base, mx, ntx, ndeq, x). mx - ndeq)") auto

declare drain_queue.simps [simp del]

text \<open>The loop over the enabled queues; the first argument counts down from their number.\<close>

fun poll_dqueues ::
  "nat \<Rightarrow> ('s, 'd) handlers \<Rightarrow> phdr_cksum \<Rightarrow> nat \<Rightarrow> nat \<Rightarrow> nat \<Rightarrow> nat \<Rightarrow> nat \<Rightarrow> ('p, 's, 'd) fast_context \<Rightarrow>
   int \<times> nat \<times> nat \<times> ('p, 's, 'd) fast_context" where
  "poll_dqueues 0 h ck g base mx ntx ndeq x = (0, ntx, ndeq, x)"
| "poll_dqueues (Suc j) h ck g base mx ntx ndeq x =
     (if ndeq < mx then
        (let i = dqueues_head (gf_proto (fc_guests x g)) in
         case drain_queue h ck g i base mx ntx ndeq x of (r, ntx1, ndeq1, x1) \<Rightarrow>
           if r < 0 then (-1, ntx1, ndeq1, x1)
           else poll_dqueues j h ck g base mx ntx1 ndeq1 (set_guest g (upd_proto (dqueue_rotate_head i)) x1))
      else (0, ntx, ndeq, x))"

definition queues_poll_guest ::
  "('s, 'd) handlers \<Rightarrow> phdr_cksum \<Rightarrow> u64 \<Rightarrow> nat \<Rightarrow> nat \<Rightarrow> nat \<Rightarrow> nat \<Rightarrow> nat \<Rightarrow> ('p, 's, 'd) fast_context \<Rightarrow>
   int \<times> nat \<times> nat \<times> ('p, 's, 'd) fast_context" where
  "queues_poll_guest h ck cyc g base mx ntx ndeq x =
     (let s = fc_guests x g
      in if dqueues_head (gf_proto s) = PROTOQ_ID_INVALID then (0, ntx, ndeq, x)
         else if fc_perf_iso x \<and> sint (gf_budget s) \<le> 0 then (0, ntx, ndeq, x)
         else case poll_dqueues (unat (ndqueues (gf_proto s))) h ck g base mx ntx ndeq x of (r, ntx1, ndeq1, x1) \<Rightarrow>
           if r < 0 then (-1, ntx1, ndeq1, x1)
           else (0, ntx1, ndeq1, if fc_perf_iso x \<and> ndeq < ndeq1 then fast_budg_charge g cyc x1 else x1))"

text \<open>The loop over the guests; \<open>lst\<close> is the last one an entry was taken from.\<close>

fun queues_guests ::
  "nat \<Rightarrow> ('s, 'd) handlers \<Rightarrow> phdr_cksum \<Rightarrow> (nat \<Rightarrow> u64) \<Rightarrow> nat \<Rightarrow> nat \<Rightarrow> nat \<Rightarrow> nat \<Rightarrow> nat \<Rightarrow> nat \<Rightarrow> nat option \<Rightarrow> ('p, 's, 'd) fast_context \<Rightarrow>
   int \<times> nat \<times> nat \<times> nat option \<times> ('p, 's, 'd) fast_context" where
  "queues_guests 0 h ck cyc start i base mx ntx ndeq lst x = (0, ntx, ndeq, lst, x)"
| "queues_guests (Suc n) h ck cyc start i base mx ntx ndeq lst x =
     (if ndeq < mx then
        (let gid = (start + i) mod unat (fc_n_guests x) in
         case queues_poll_guest h ck (cyc gid) gid base mx ntx ndeq x of (r, ntx1, ndeq1, x1) \<Rightarrow>
           if r \<noteq> 0 then (-1, ntx1, ndeq1, lst, x1)
           else queues_guests n h ck cyc start (i + 1) base mx ntx1 ndeq1 (if ndeq < ndeq1 then Some gid else lst) x1)
      else (0, ntx, ndeq, lst, x))"

text \<open>The number of buffers a poll asks for.\<close>

definition batch_room :: "nat \<Rightarrow> ('p, 's, 'd) fast_context \<Rightarrow> u16" where
  "batch_room batch x = of_int (min (int batch) (int TXBUF_SIZE - int (unat (fc_tx_n x))))"

definition start_guest :: "u8 \<Rightarrow> u8 \<Rightarrow> nat" where
  "start_guest nxt n = (if nxt \<ge> n then 0 else unat nxt)"

definition fast_queues_poll ::
  "'p pool_ops \<Rightarrow> ('s, 'd) handlers \<Rightarrow> phdr_cksum \<Rightarrow> (nat \<Rightarrow> u64) \<Rightarrow> (nat \<Rightarrow> int) \<Rightarrow> ('p, 's, 'd) fast_context \<Rightarrow> int \<times> ('p, 's, 'd) fast_context" where
  "fast_queues_poll ops h ck cyc nic x =
     (if fc_n_guests x = 0 then (0, x)
      else case cache_alloc ops (batch_room FAST_DEQ_BATCH_SIZE x) x of (mx, base, x1) \<Rightarrow>
        if mx = 0 then (0, x1)
        else case queues_guests (unat (fc_n_guests x)) h ck cyc (start_guest (fc_next_queues_guest x) (fc_n_guests x)) 0 base (unat mx) 0 0 None x1 of
          (r, ntx, ndeq, lst, x2) \<Rightarrow>
            if r \<noteq> 0 then (-1, x2)
            else let x3 = (case lst of None \<Rightarrow> x2 | Some g \<Rightarrow> x2\<lparr>fc_next_queues_guest := of_nat ((g + 1) mod unat (fc_n_guests x2))\<rparr>);
                     x4 = snd (fast_txflush nic x3)
                 in (int ndeq, cache_unalloc (mx - of_nat ntx) x4))"

section \<open>Polling the schedulers\<close>

definition sched_ready :: "('p, 's, 'd) fast_context \<Rightarrow> nat \<Rightarrow> bool" where
  "sched_ready x g = (case fc_mode x of
     FP_PROTO_EBPF \<Rightarrow> event_sched_vm (gf_proto (fc_guests x g)) \<noteq> 0
   | FP_PROTO_HAND \<Rightarrow> pf_type (gf_proto (fc_guests x g)) \<noteq> CHAM_PROTO_INVALID
   | FP_PROTO_OTHER \<Rightarrow> False)"

text \<open>
  The transmissions of one guest. Nothing in this loop bounds the number of packets that the infrastructure protocols
  refuse, so it is a partial function.
\<close>

partial_function (option) sched_loop ::
  "('s, 'd) handlers \<Rightarrow> phdr_cksum \<Rightarrow> nat \<Rightarrow> nat \<Rightarrow> nat \<Rightarrow> int \<Rightarrow> bool \<Rightarrow> nat \<Rightarrow> ('p, 's, 'd) fast_context \<Rightarrow>
   (int \<times> bool \<times> nat \<times> ('p, 's, 'd) fast_context) option" where
  "sched_loop h ck g base mx ret did ntx x =
     (if ntx < mx then
        (if sched_head (ec_sched (pf_ectx (gf_proto (fc_guests x g)))) = None then Some (ret, did, ntx, x)
         else let mb = mbs_at base ntx x;
                  x1 = fast_ebpf_ctx_set_pkt_l2 mb g (set_mb mb (mb_data_off_update (\<lambda>_. 0)) x)
              in case run_event h Ev_sched g x1 of (exec_ret, sched_ret, x2) \<Rightarrow>
                   if sched_ret \<le> 0 \<or> exec_ret < 0 then Some (sched_ret, did, ntx, x2)
                   else case send_result ck g mb sched_ret x2 of (used, x3) \<Rightarrow>
                     sched_loop h ck g base mx sched_ret (did \<or> used) (if used then ntx + 1 else ntx) x3)
      else Some (ret, did, ntx, x))"

definition sched_poll_guest ::
  "('s, 'd) handlers \<Rightarrow> phdr_cksum \<Rightarrow> u64 \<Rightarrow> nat \<Rightarrow> nat \<Rightarrow> nat \<Rightarrow> nat \<Rightarrow> ('p, 's, 'd) fast_context \<Rightarrow> (int \<times> nat \<times> ('p, 's, 'd) fast_context) option" where
  "sched_poll_guest h ck cyc g base mx ntx x =
     (if \<not> sched_ready x g then Some (0, ntx, x)
      else if fc_perf_iso x \<and> sint (gf_budget (fc_guests x g)) \<le> 0 then Some (0, ntx, x)
      else map_option (\<lambda>(ret, did, ntx1, x1).
             (if ret < 0 then -1 else if did then 1 else 0, ntx1, if fc_perf_iso x \<and> ntx < ntx1 then fast_budg_charge g cyc x1 else x1))
           (sched_loop h ck g base mx 0 False ntx x))"

fun sched_guests ::
  "nat \<Rightarrow> ('s, 'd) handlers \<Rightarrow> phdr_cksum \<Rightarrow> (nat \<Rightarrow> u64) \<Rightarrow> nat \<Rightarrow> nat \<Rightarrow> nat \<Rightarrow> nat \<Rightarrow> nat \<Rightarrow> nat option \<Rightarrow> ('p, 's, 'd) fast_context \<Rightarrow>
   (nat \<times> nat option \<times> ('p, 's, 'd) fast_context) option" where
  "sched_guests 0 h ck cyc start i base mx ntx lst x = Some (ntx, lst, x)"
| "sched_guests (Suc n) h ck cyc start i base mx ntx lst x =
     (if ntx < mx then
        (let gid = (start + i) mod unat (fc_n_guests x) in
         case sched_poll_guest h ck (cyc gid) gid base mx ntx x of
           None \<Rightarrow> None
         | Some (r, ntx1, x1) \<Rightarrow> sched_guests n h ck cyc start (i + 1) base mx ntx1 (if r > 0 then Some gid else lst) x1)
      else Some (ntx, lst, x))"

definition fast_sched_poll ::
  "'p pool_ops \<Rightarrow> ('s, 'd) handlers \<Rightarrow> phdr_cksum \<Rightarrow> (nat \<Rightarrow> u64) \<Rightarrow> (nat \<Rightarrow> int) \<Rightarrow> ('p, 's, 'd) fast_context \<Rightarrow> (int \<times> ('p, 's, 'd) fast_context) option" where
  "fast_sched_poll ops h ck cyc nic x =
     (if fc_n_guests x = 0 then Some (0, x)
      else case cache_alloc ops (batch_room FAST_SCHED_BATCH_SIZE x) x of (mx, base, x1) \<Rightarrow>
        if mx = 0 then Some (0, x1)
        else case sched_guests (unat (fc_n_guests x)) h ck cyc (start_guest (fc_next_sched_guest x) (fc_n_guests x)) 0 base (unat mx) 0 None x1 of
          None \<Rightarrow> None
        | Some (ntx, lst, x2) \<Rightarrow>
            (let x3 = (case lst of None \<Rightarrow> x2 | Some g \<Rightarrow> x2\<lparr>fc_next_sched_guest := of_nat ((g + 1) mod unat (fc_n_guests x))\<rparr>);
                 x4 = snd (fast_txflush nic x3)
             in Some (int ntx, cache_unalloc (mx - of_nat ntx) x4)))"

section \<open>Receiving\<close>

definition rx_poll_guest ::
  "('s, 'd) handlers \<Rightarrow> phdr_cksum \<Rightarrow> u64 \<Rightarrow> nat \<Rightarrow> mbuf \<Rightarrow> nat \<Rightarrow> ('p, 's, 'd) fast_context \<Rightarrow> bool \<times> ('p, 's, 'd) fast_context" where
  "rx_poll_guest h ck cyc g mb pkt_off x =
     (let x1 = fast_ebpf_ctx_set_pkt mb pkt_off g (set_guest g (upd_ectx (\<lambda>e. e\<lparr>ec_core := ucast (fc_id x)\<rparr>)) x)
      in case run_event h Ev_rx g x1 of (exec_ret, rx_ret, x2) \<Rightarrow>
           let did = (rx_ret \<ge> 0 \<and> exec_ret \<ge> 0);
               (mb_tx, x3) = (if rx_ret > 0 then send_result ck g mb rx_ret x2 else (False, x2))
           in (mb_tx, if fc_perf_iso x \<and> did then fast_budg_charge g cyc x3 else x3))"

text \<open>The packets of a batch one by one, with the buffers that were used up.\<close>

fun rx_loop ::
  "('s, 'd) handlers \<Rightarrow> phdr_cksum \<Rightarrow> (mbuf \<Rightarrow> u64) \<Rightarrow> (mbuf \<Rightarrow> u64 \<times> u64) \<Rightarrow> mbuf list \<Rightarrow> ('p, 's, 'd) fast_context \<Rightarrow>
   bool list \<times> ('p, 's, 'd) fast_context" where
  "rx_loop h ck cyc old [] x = ([], x)"
| "rx_loop h ck cyc old (mb # mbs) x =
     (case infra_rx (old mb) mb x of
        (None, x1) \<Rightarrow> (case rx_loop h ck cyc old mbs x1 of (bs, x2) \<Rightarrow> (False # bs, x2))
      | (Some (g, o'), x1) \<Rightarrow>
          (case rx_poll_guest h ck (cyc mb) (unat g) mb o' x1 of (b, x2) \<Rightarrow>
             case rx_loop h ck cyc old mbs x2 of (bs, x3) \<Rightarrow> (b # bs, x3)))"

fun free_unused :: "'p pool_ops \<Rightarrow> (mbuf \<times> bool) list \<Rightarrow> ('p, 's, 'd) fast_context \<Rightarrow> ('p, 's, 'd) fast_context" where
  "free_unused ops [] x = x"
| "free_unused ops ((mb, used) # ms) x = free_unused ops ms (if used then x else cache_free ops mb x)"

text \<open>\<open>got\<close> is the batch \<^verbatim>\<open>rte_eth_rx_burst\<close> returns for the number of packets asked for.\<close>

definition fast_rx_poll ::
  "'p pool_ops \<Rightarrow> ('s, 'd) handlers \<Rightarrow> phdr_cksum \<Rightarrow> (mbuf \<Rightarrow> u64) \<Rightarrow> (mbuf \<Rightarrow> u64 \<times> u64) \<Rightarrow> (nat \<Rightarrow> mbuf list) \<Rightarrow> (nat \<Rightarrow> int) \<Rightarrow>
   ('p, 's, 'd) fast_context \<Rightarrow> int \<times> ('p, 's, 'd) fast_context" where
  "fast_rx_poll ops h ck cyc old got nic x =
     (let mbs = got (min FAST_RX_BATCH_SIZE (TXBUF_SIZE - unat (fc_tx_n x)))
      in if mbs = [] then (0, x)
         else case rx_loop h ck cyc old mbs x of (used, x1) \<Rightarrow>
           (int (length mbs), free_unused ops (zip mbs used) (snd (fast_txflush nic x1))))"

section \<open>One round of the loop\<close>

text \<open>What the NIC, the clock and shared memory answer during a round.\<close>

record round_io =
  io_rx :: "nat \<Rightarrow> mbuf list"
  io_old :: "mbuf \<Rightarrow> u64 \<times> u64"
  io_rx_cyc :: "mbuf \<Rightarrow> u64"
  io_q_cyc :: "nat \<Rightarrow> u64"
  io_s_cyc :: "nat \<Rightarrow> u64"
  io_bud :: "ptr \<Rightarrow> u64"
  io_nic :: "nat \<Rightarrow> nat \<Rightarrow> int"

text \<open>
  The body of \<^verbatim>\<open>loop_fast_default\<close>: the three polls, then the messages of the control path and a flush. A failing queue poll
  is only logged. The first result is the value of the queue poll.
\<close>

definition fast_polls :: "'p pool_ops \<Rightarrow> ('s, 'd) handlers \<Rightarrow> phdr_cksum \<Rightarrow> round_io \<Rightarrow> ('p, 's, 'd) fast_context \<Rightarrow>
   (int \<times> ('p, 's, 'd) fast_context) option" where
  "fast_polls ops h ck io x =
     (case fast_rx_poll ops h ck (io_rx_cyc io) (io_old io) (io_rx io) (io_nic io 0) x of (_, x1) \<Rightarrow>
      case fast_queues_poll ops h ck (io_q_cyc io) (io_nic io 1) x1 of (r, x2) \<Rightarrow>
      map_option (\<lambda>(_, x3). (r, x3)) (fast_sched_poll ops h ck (io_s_cyc io) (io_nic io 2) x2))"

definition loop_fast_default :: "'p pool_ops \<Rightarrow> ('s, 'd) handlers \<Rightarrow> phdr_cksum \<Rightarrow> round_io \<Rightarrow> ('p, 's, 'd) fast_context \<Rightarrow>
   (int \<times> ('p, 's, 'd) fast_context) option" where
  "loop_fast_default ops h ck io x =
     map_option (\<lambda>(r, x3). (r, snd (fast_txflush (io_nic io 3) (snd (controlif_poll ops ck (io_bud io) x3)))))
       (fast_polls ops h ck io x)"

end
