(* ===== verification/Fast_Bufs.thy ===== *)
theory Fast_Bufs
  imports Fast_Poll
begin

text \<open>
  Where the packet buffers of a core are: in its cache, in the pool, in the transmit buffer, with the NIC, or in a message
  to or from the control path. No poll loses or duplicates one.
\<close>

section \<open>Buffers in messages\<close>

definition slot_pending :: "qdata qslot \<Rightarrow> mbuf multiset" where
  "slot_pending s = (if qs_type s = QUEUE_MBUF_PENDING then (case qs_data s of D_mbuf_pending r \<Rightarrow> {#mbp_mb r#} | _ \<Rightarrow> {#}) else {#})"

definition slot_given :: "qdata qslot \<Rightarrow> mbuf multiset" where
  "slot_given s = (if qs_type s = QUEUE_MBUF_TX then (case qs_data s of D_mbuf_tx r \<Rightarrow> {#mbt_mb r#} | _ \<Rightarrow> {#}) else {#})"

definition ring_bag :: "('d qslot \<Rightarrow> 'b multiset) \<Rightarrow> csize \<Rightarrow> u32 \<Rightarrow> 'd ring \<Rightarrow> 'b multiset" where
  "ring_bag f E N m = (\<Sum>k < unat N. f (m (slot_pos E N k)))"

definition on_slot :: "csize \<Rightarrow> u32 \<Rightarrow> u32 \<Rightarrow> bool" where
  "on_slot E N pos \<longleftrightarrow> ring_geom E N \<and> (\<exists>k < unat N. pos = slot_pos E N k)"

lemma ring_bag_upd:
  assumes "on_slot E N pos"
  shows "ring_bag f E N (m(pos := s)) + f (m pos) = ring_bag f E N m + f s"
proof -
  obtain k where k: "k < unat N" "pos = slot_pos E N k" and g: "ring_geom E N" using assms by (auto simp: on_slot_def)
  have d: "slot_pos E N j = pos \<longleftrightarrow> j = k" if "j < unat N" for j using slot_pos_eq_iff [OF g, of j k] that k by simp
  have split: "{..<unat N} = insert k ({..<unat N} - {k})" using k by auto
  have rest: "(\<Sum>j \<in> {..<unat N} - {k}. f ((m(pos := s)) (slot_pos E N j))) = (\<Sum>j \<in> {..<unat N} - {k}. f (m (slot_pos E N j)))"
    by (rule sum.cong) (use d in auto)
  have "ring_bag f E N m' = f (m' pos) + (\<Sum>j \<in> {..<unat N} - {k}. f (m' (slot_pos E N j)))" for m'
    unfolding ring_bag_def by (subst split, subst sum.insert) (simp_all add: k(2))
  then show ?thesis using rest by (simp add: ac_simps)
qed

lemma on_slot_advance: "on_slot E N pos \<Longrightarrow> on_slot E N (ring_advance E N pos)"
proof -
  assume a: "on_slot E N pos"
  then obtain k where k: "k < unat N" "pos = slot_pos E N k" and g: "ring_geom E N" by (auto simp: on_slot_def)
  have "ring_advance E N pos = slot_pos E N (Suc k)" using ring_advance_slot_pos [OF g, of k] k by simp
  also have "\<dots> = slot_pos E N (Suc k mod unat N)" by simp
  finally show ?thesis using g k(1) unfolding on_slot_def by (metis mod_less_divisor gr_zeroI not_less_zero)
qed

definition pend_mbufs :: "cqueue \<Rightarrow> mbuf multiset" where
  "pend_mbufs c = ring_bag slot_pending (eq_elsize (fst c)) (eq_nelems (fst c)) (snd c)"

definition given_mbufs :: "dqueue \<times> qdata ring \<Rightarrow> mbuf multiset" where
  "given_mbufs c = ring_bag slot_given (dq_elsize (fst c)) (dq_nelems (fst c)) (snd c)"

definition fcq_wf :: "cqueue \<Rightarrow> bool" where
  "fcq_wf c \<longleftrightarrow> on_slot (eq_elsize (fst c)) (eq_nelems (fst c)) (eq_tail (fst c))"

definition cfq_wf :: "dqueue \<times> qdata ring \<Rightarrow> bool" where
  "cfq_wf c \<longleftrightarrow> on_slot (dq_elsize (fst c)) (dq_nelems (fst c)) (dq_head (fst c))"

lemma queue_put_pend:
  assumes "fcq_wf c" and "queue_put c d ty = (r, c')"
  shows "fcq_wf c' \<and> (r = 0 \<or> r = -1) \<and>
    pend_mbufs c' = pend_mbufs c + (if r = 0 then slot_pending \<lparr>qs_type = ty, qs_data = d\<rparr> else {#})"
proof (cases "qs_type (snd c (eq_tail (fst c))) = QUEUE_EMPTY")
  case True
  then have e: "slot_pending (snd c (eq_tail (fst c))) = {#}" by (simp add: slot_pending_def)
  show ?thesis using assms True ring_bag_upd [of _ _ "eq_tail (fst c)" slot_pending "snd c" "\<lparr>qs_type = ty, qs_data = d\<rparr>"] e
    by (auto simp: queue_put_cases fcq_wf_def pend_mbufs_def on_slot_advance)
next
  case False
  then show ?thesis using assms by (auto simp: queue_put_cases)
qed

lemma queue_dequeue_given:
  assumes "cfq_wf c" and "queue_head (fst c) (snd c) = Some slot" and "queue_dequeue (fst c) (snd c) = (r, q, m)"
  shows "cfq_wf (q, m) \<and> given_mbufs c = given_mbufs (q, m) + slot_given (snd c slot)"
proof -
  let ?s = "(snd c (dq_head (fst c)))\<lparr>qs_type := QUEUE_EMPTY\<rparr>"
  have s: "slot = dq_head (fst c)" "qs_type (snd c slot) \<noteq> QUEUE_EMPTY" using assms(2) by (auto simp: queue_head_def split: if_splits)
  have "slot_given ?s = {#}" by (simp add: slot_given_def)
  then show ?thesis using assms s ring_bag_upd [of _ _ "dq_head (fst c)" slot_given "snd c" ?s]
    by (auto simp: queue_dequeue_def Let_def cfq_wf_def given_mbufs_def on_slot_advance)
qed

section \<open>Buffers of a context\<close>

definition held :: "('p \<Rightarrow> mbuf multiset) \<Rightarrow> ('p, 's, 'd) fast_context \<Rightarrow> mbuf multiset" where
  "held bufs x = mset (cache_list (fc_cache x)) + bufs (fc_pool x) + mset (tx_list x) + mset (fc_sent x) +
     pend_mbufs (fc_fcq x) + given_mbufs (fc_cfq x)"

definition fast_wf :: "('p, 's, 'd) fast_context \<Rightarrow> bool" where
  "fast_wf x \<longleftrightarrow> cache_wf (fc_cache x) \<and> unat (fc_tx_n x) \<le> TXBUF_SIZE \<and> fcq_wf (fc_fcq x) \<and> cfq_wf (fc_cfq x)"

text \<open>
  What the code between taking buffers from the cache and putting the rest back does: the buffers \<open>bs\<close> go to the transmit
  buffer or to the control path, and nothing else moves.
\<close>

definition moved :: "mbuf list \<Rightarrow> ('p, 's, 'd) fast_context \<Rightarrow> ('p, 's, 'd) fast_context \<Rightarrow> bool" where
  "moved bs x x' \<longleftrightarrow> fcq_wf (fc_fcq x') \<and> fc_cache x' = fc_cache x \<and> fc_pool x' = fc_pool x \<and> fc_cfq x' = fc_cfq x \<and>
     fc_sent x' = fc_sent x \<and> fc_n_guests x' = fc_n_guests x \<and> unat (fc_tx_n x') \<le> unat (fc_tx_n x) + length bs \<and>
     mset (tx_list x') + pend_mbufs (fc_fcq x') = mset (tx_list x) + pend_mbufs (fc_fcq x) + mset bs"

lemma moved_refl: "fcq_wf (fc_fcq x) \<Longrightarrow> moved [] x x"
  by (simp add: moved_def)

lemma moved_trans: "moved as x y \<Longrightarrow> moved bs y z \<Longrightarrow> moved (as @ bs) x z"
  by (auto simp: moved_def ac_simps)

lemma moved_wf: "moved bs x y \<Longrightarrow> fcq_wf (fc_fcq y)"
  by (simp add: moved_def)

lemma moved_mbs_at: "moved bs x y \<Longrightarrow> mbs_at base k y = mbs_at base k x"
  by (simp add: moved_def mbs_at_def)

text \<open>Changes that touch the guests, the memory of the buffers or other fields only.\<close>

lemma moved_frame:
  assumes "fc_fcq x' = fc_fcq x" "fc_cache x' = fc_cache x" "fc_pool x' = fc_pool x" "fc_cfq x' = fc_cfq x"
    "fc_sent x' = fc_sent x" "fc_n_guests x' = fc_n_guests x" "fc_tx_n x' = fc_tx_n x" "fc_tx_mbs x' = fc_tx_mbs x"
  shows "moved bs x y \<Longrightarrow> moved bs x' y" "moved bs y x \<Longrightarrow> moved bs y x'"
  using assms by (auto simp: moved_def tx_list_def)

lemma frame_simps [simp]:
  "fc_fcq (set_mb mb f x) = fc_fcq x" "fc_cache (set_mb mb f x) = fc_cache x" "fc_pool (set_mb mb f x) = fc_pool x"
  "fc_cfq (set_mb mb f x) = fc_cfq x" "fc_sent (set_mb mb f x) = fc_sent x" "fc_n_guests (set_mb mb f x) = fc_n_guests x"
  "fc_tx_n (set_mb mb f x) = fc_tx_n x" "fc_tx_mbs (set_mb mb f x) = fc_tx_mbs x" "fc_txq (set_mb mb f x) = fc_txq x"
  "fc_fcq (set_guest g k x) = fc_fcq x" "fc_cache (set_guest g k x) = fc_cache x" "fc_pool (set_guest g k x) = fc_pool x"
  "fc_cfq (set_guest g k x) = fc_cfq x" "fc_sent (set_guest g k x) = fc_sent x" "fc_n_guests (set_guest g k x) = fc_n_guests x"
  "fc_tx_n (set_guest g k x) = fc_tx_n x" "fc_tx_mbs (set_guest g k x) = fc_tx_mbs x" "fc_txq (set_guest g k x) = fc_txq x"
  by (simp_all add: set_mb_def set_guest_def)

lemma moved_set [simp]:
  "moved bs (set_mb mb f x) y = moved bs x y" "moved bs y (set_mb mb f x) = moved bs y x"
  "moved bs (set_guest g k x) y = moved bs x y" "moved bs y (set_guest g k x) = moved bs y x"
  "moved bs (fast_budg_charge g cyc x) y = moved bs x y" "moved bs y (fast_budg_charge g cyc x) = moved bs y x"
  by (simp_all add: moved_def tx_list_def fast_budg_charge_def)

lemma moved_set_pkt [simp]:
  "moved bs y (fast_ebpf_ctx_set_pkt mb o' g x) = moved bs y x" "moved bs y (fast_ebpf_ctx_set_pkt_l2 mb g x) = moved bs y x"
  "moved bs (fast_ebpf_ctx_set_pkt mb o' g x) y = moved bs x y" "moved bs (fast_ebpf_ctx_set_pkt_l2 mb g x) y = moved bs x y"
  by (simp_all add: fast_ebpf_ctx_set_pkt_l2_def fast_ebpf_ctx_set_pkt_def)

section \<open>The infrastructure protocols\<close>

lemma put_fcq_moved:
  assumes "fcq_wf (fc_fcq x)" and "put_fcq d ty x = (r, x')"
  shows "moved (if r = 0 then sorted_list_of_multiset (slot_pending \<lparr>qs_type = ty, qs_data = d\<rparr>) else []) x x' \<and> (r = 0 \<or> r = -1)"
  using assms queue_put_pend [OF assms(1), of d ty]
  by (auto simp: put_fcq_def moved_def tx_list_def split: prod.splits)

lemma put_pending_moved:
  "fcq_wf (fc_fcq x) \<Longrightarrow> put_fcq (pending_msg ip mb len gid) QUEUE_MBUF_PENDING x = (r, x') \<Longrightarrow>
     moved (if r = 0 then [mb] else []) x x' \<and> (r = 0 \<or> r = -1)"
  using put_fcq_moved [of x "pending_msg ip mb len gid" QUEUE_MBUF_PENDING r x'] by (auto simp: slot_pending_def pending_msg_def)

lemma put_other_moved:
  "fcq_wf (fc_fcq x) \<Longrightarrow> ty \<noteq> QUEUE_MBUF_PENDING \<Longrightarrow> moved [] x (snd (put_fcq d ty x))"
  using put_fcq_moved [of x d ty] by (cases "put_fcq d ty x") (auto simp: slot_pending_def split: if_splits)

definition used_bufs :: "int \<Rightarrow> mbuf \<Rightarrow> mbuf list" where
  "used_bufs r mb = (if r = INFRA_RET_MBUF then [mb] else [])"

lemma process_tx_arp_moved:
  assumes wf: "fcq_wf (fc_fcq x)" and r: "process_tx_arp g len mb ip x = (r, x')"
  shows "moved (used_bufs r mb) x x'"
proof -
  have pend: "moved (used_bufs q mb) y y'" if "tx_pending g len mb ip y = (q, y')" "fcq_wf (fc_fcq y)" for y q y'
  proof -
    obtain q0 y0 where p: "put_fcq (pending_msg ip mb len (gf_id (fc_guests y g))) QUEUE_MBUF_PENDING y = (q0, y0)" by fastforce
    show ?thesis using that(1) put_pending_moved [OF that(2) p] p by (auto simp: tx_pending_def used_bufs_def split: if_splits)
  qed
  note r = r [unfolded process_tx_arp_def Let_def]
  show ?thesis
  proof (cases "arp_lookup (fc_arp x) ip")
    case None
    obtain tab ae where ins: "arp_insert_pending (fc_arp x) ip = (tab, ae)" by fastforce
    define x1 where "x1 = x\<lparr>fc_arp := tab\<rparr>"
    have m1: "moved [] x x1" using moved_refl [OF wf] by (simp add: x1_def moved_def tx_list_def)
    have m2: "moved [] x1 (snd (put_fcq (D_arp_lookup \<lparr>alk_ip = ip\<rparr>) QUEUE_ARP_LOOKUP x1))"
      using moved_wf [OF m1] by (intro put_other_moved) simp_all
    have m3: "moved (used_bufs q mb) x y'" if "tx_pending g len mb ip (snd (put_fcq (D_arp_lookup \<lparr>alk_ip = ip\<rparr>) QUEUE_ARP_LOOKUP x1)) = (q, y')" for q y'
      using moved_trans [OF moved_trans [OF m1 m2] pend [OF that moved_wf [OF m2]]] by simp
    show ?thesis using r None ins m1 m3 moved_refl [OF wf]
      by (auto simp: x1_def [symmetric] used_bufs_def split: option.splits if_splits)
  next
    case (Some i)
    show ?thesis
    proof (cases "ae_pending (buckets (fc_arp x) i) = 0")
      case True
      then show ?thesis using r Some moved_refl [OF wf] by (auto simp: used_bufs_def)
    next
      case False
      then show ?thesis using r Some pend [OF _ wf, of r x'] by simp
    qed
  qed
qed

lemma infra_tx_moved:
  assumes "fcq_wf (fc_fcq x)" and "infra_tx ck g mb len x = (r, x')"
  shows "moved (used_bufs r mb) x x'"
proof -
  have a: "moved (used_bufs q mb) x y" if "process_tx_arp g len mb ip x = (q, y)" for ip q y
    using process_tx_arp_moved [OF assms(1) that] .
  have "moved [] x x" using moved_refl assms(1) by blast
  then show ?thesis using assms(2) by (auto simp: infra_tx_def Let_def used_bufs_def split: option.splits prod.splits if_splits dest!: a)
qed

lemma tx_push_moved:
  assumes "fcq_wf (fc_fcq x)" and "unat (fc_tx_n x) < TXBUF_SIZE"
  shows "moved [mb] x (tx_push mb x)"
proof -
  have n: "unat (fc_tx_n x + 1) = unat (fc_tx_n x) + 1" using assms(2) by (intro unat_add_small_iff) simp_all
  have "map ((fc_tx_mbs x)(unat (fc_tx_n x) := mb)) [0..<unat (fc_tx_n x)] = map (fc_tx_mbs x) [0..<unat (fc_tx_n x)]" by simp
  then show ?thesis using assms(1) n by (simp add: moved_def tx_push_def tx_list_def)
qed

lemma send_result_moved:
  assumes "fcq_wf (fc_fcq x)" and "unat (fc_tx_n x) < TXBUF_SIZE" and "send_result ck g mb len x = (used, x')"
  shows "moved (if used then [mb] else []) x x'"
proof -
  obtain r x1 where r: "infra_tx ck g mb (of_int len) x = (r, x1)" by fastforce
  note m = infra_tx_moved [OF assms(1) r]
  show ?thesis
  proof (cases "r = INFRA_RET_OK")
    case True
    then have m1: "moved [] x x1" using m by (simp add: used_bufs_def)
    then have "unat (fc_tx_n x1) < TXBUF_SIZE" using assms(2) by (auto simp: moved_def)
    from moved_trans [OF m1 tx_push_moved [OF moved_wf [OF m1] this]] show ?thesis
      using assms(3) r True by (auto simp: send_result_def)
  next
    case False
    then show ?thesis using m assms(3) r by (auto simp: send_result_def used_bufs_def split: if_splits)
  qed
qed

lemma run_event_moved: "moved bs y (snd (snd (run_event h ev g x))) = moved bs y x"
  by (simp add: run_event_def Let_def split: fp_proto_mode.split prod.split)

lemma run_event_tx_n: "fc_tx_n (snd (snd (run_event h ev g x))) = fc_tx_n x"
  by (simp add: run_event_def Let_def split: fp_proto_mode.split prod.split)

section \<open>The loops of the polls\<close>

text \<open>
  From \<open>ntx\<close> to \<open>ntx'\<close> buffers of the batch at \<open>base\<close> are used up, no more than there were steps from \<open>n\<close> to \<open>n'\<close>, and these stay
  within \<open>mx\<close>.
\<close>

definition used_up :: "nat \<Rightarrow> nat \<Rightarrow> nat \<Rightarrow> nat \<Rightarrow> ('p, 's, 'd) fast_context \<Rightarrow> nat \<Rightarrow> nat \<Rightarrow> ('p, 's, 'd) fast_context \<Rightarrow> bool" where
  "used_up base mx ntx n x ntx' n' x' \<longleftrightarrow>
     ntx \<le> ntx' \<and> ntx' + n \<le> ntx + n' \<and> n' \<le> mx \<and> moved (map (\<lambda>k. mbs_at base k x) [ntx..<ntx']) x x'"

text \<open>There is room in the transmit buffer for the rest of the batch.\<close>

definition has_room :: "nat \<Rightarrow> nat \<Rightarrow> ('p, 's, 'd) fast_context \<Rightarrow> bool" where
  "has_room mx n x \<longleftrightarrow> fcq_wf (fc_fcq x) \<and> n \<le> mx \<and> unat (fc_tx_n x) + (mx - n) \<le> TXBUF_SIZE"

lemma used_up_refl: "has_room mx n x \<Longrightarrow> used_up base mx ntx n x ntx n x"
  by (simp add: used_up_def has_room_def moved_refl)

lemma used_up_trans:
  assumes "used_up base mx a n x b m y" and "used_up base mx b m y c k z"
  shows "used_up base mx a n x c k z"
proof -
  have "[a..<b] @ [b..<c] = [a..<c]" using assms by (metis used_up_def le_add_diff_inverse upt_add_eq_append)
  moreover have "map (\<lambda>k. mbs_at base k y) [b..<c] = map (\<lambda>k. mbs_at base k x) [b..<c]"
    using assms(1) moved_mbs_at unfolding used_up_def by (metis (no_types, lifting) map_eq_conv)
  ultimately show ?thesis using assms moved_trans unfolding used_up_def
    by (smt (verit) add_le_cancel_right add.commute add.left_commute le_trans map_append nat_add_left_cancel_le)
qed

lemma used_up_room: "has_room mx n x \<Longrightarrow> used_up base mx ntx n x ntx' n' x' \<Longrightarrow> has_room mx n' x'"
  by (auto simp: used_up_def has_room_def moved_def)

lemma used_up_set [simp]:
  "used_up base mx a n x b m (set_guest g f y) = used_up base mx a n x b m y"
  "used_up base mx a n x b m (fast_budg_charge g c y) = used_up base mx a n x b m y"
  by (simp_all add: used_up_def)

lemma used_up_one:
  assumes "has_room mx n x" "n < mx" "moved (if used then [mbs_at base ntx x] else []) x y"
  shows "used_up base mx ntx n x (if used then ntx + 1 else ntx) (n + 1) y"
  using assms by (auto simp: used_up_def)

lemma dequeue_moved:
  assumes room: "has_room mx n x" "n < mx" and r: "queues_poll_guest_dequeue h ck g i slot mb x = (r, used, x')"
  shows "moved (if used then [mb] else []) x x'"
proof -
  define x1 where "x1 = fast_ebpf_ctx_set_pkt_l2 mb g (set_mb mb (mb_data_off_update (\<lambda>_. 0)) x)"
  define x2 where "x2 = set_guest g (upd_ectx (\<lambda>e. e\<lparr>ec_qe := slot, ec_qid := cd_id (dqueues (gf_proto (fc_guests x1 g)) i)\<rparr>)) x1"
  obtain er dr x3 where e: "run_event h Ev_deq g x2 = (er, dr, x3)" by (metis prod.exhaust)
  have "moved [] x x" using room by (simp add: has_room_def moved_refl)
  then have m: "moved [] x x3" using run_event_moved [of "[]" x h Ev_deq g x2] e by (simp add: x2_def x1_def)
  have "unat (fc_tx_n x3) < TXBUF_SIZE" using m room by (auto simp: moved_def has_room_def)
  then have "moved (if u then [mb] else []) x y" if "send_result ck g mb dr x3 = (u, y)" for u y
    using moved_trans [OF m send_result_moved [OF moved_wf [OF m] _ that]] by simp
  then show ?thesis using r m unfolding queues_poll_guest_dequeue_def Let_def x1_def [symmetric] x2_def [symmetric] e
    by (auto split: if_splits)
qed

lemma drain_queue_used_up:
  "has_room mx n x \<Longrightarrow> drain_queue h ck g i base mx ntx n x = (r, ntx', n', x') \<Longrightarrow> used_up base mx ntx n x ntx' n' x'"
proof (induction h ck g i base mx ntx n x arbitrary: r ntx' n' x' rule: drain_queue.induct)
  case (1 h ck g i base mx ntx n x)
  let ?p = "gf_proto (fc_guests x g)"
  show ?case
  proof (cases "n < mx \<and> queue_head (cd_dq (dqueues ?p i)) (ec_rings (pf_ectx ?p) i) \<noteq> None")
    case False
    then show ?thesis using "1.prems" used_up_refl by (subst (asm) drain_queue.simps) (auto simp: Let_def split: if_splits)
  next
    case True
    then obtain slot where n: "n < mx" and slot: "queue_head (cd_dq (dqueues ?p i)) (ec_rings (pf_ectx ?p) i) = Some slot" by auto
    obtain r1 used x1 where d: "queues_poll_guest_dequeue h ck g i slot (mbs_at base ntx x) x = (r1, used, x1)" by (metis prod.exhaust)
    define ntx1 where "ntx1 = (if used then ntx + 1 else ntx)"
    have u: "used_up base mx ntx n x ntx1 (n + 1) x1"
      using used_up_one [OF "1.prems"(1) n dequeue_moved [OF "1.prems"(1) n d]] by (simp add: ntx1_def)
    show ?thesis
    proof (cases "r1 < 0")
      case True
      then show ?thesis using "1.prems"(2) n slot d u by (subst (asm) drain_queue.simps) (simp add: Let_def ntx1_def)
    next
      case False
      let ?p1 = "gf_proto (fc_guests x1 g)"
      obtain r2 q m where q: "queue_dequeue (cd_dq (dqueues ?p1 i)) (ec_rings (pf_ectx ?p1) i) = (r2, q, m)" by (metis prod.exhaust)
      define x2 where "x2 = set_guest g (\<lambda>s. upd_ectx (\<lambda>e. e\<lparr>ec_rings := (ec_rings e)(i := m)\<rparr>) (upd_proto (upd_dq i (\<lambda>c. c\<lparr>cd_dq := q\<rparr>)) s)) x1"
      have u2: "used_up base mx ntx n x ntx1 (n + 1) x2" using u by (simp add: x2_def)
      have res: "(if r2 < 0 then (-1, ntx1, n + 1, x2) else drain_queue h ck g i base mx ntx1 (n + 1) x2) = (r, ntx', n', x')"
        using "1.prems"(2) n slot d q False unfolding ntx1_def x2_def by (subst (asm) drain_queue.simps) (simp add: Let_def split del: if_split)
      show ?thesis
      proof (cases "r2 < 0")
        case False
        have "used_up base mx ntx1 (n + 1) x2 ntx' n' x'"
          using "1.IH" [OF n refl slot d [symmetric] _ ntx1_def _ _ q [symmetric] _ x2_def] res False \<open>\<not> r1 < 0\<close> used_up_room [OF "1.prems"(1) u2] by auto
        then show ?thesis using used_up_trans [OF u2] by blast
      qed (use res u2 in auto)
    qed
  qed
qed

lemma poll_dqueues_used_up:
  "has_room mx n x \<Longrightarrow> poll_dqueues j h ck g base mx ntx n x = (r, ntx', n', x') \<Longrightarrow> used_up base mx ntx n x ntx' n' x'"
proof (induction j arbitrary: ntx n x)
  case 0
  then show ?case using used_up_refl by simp
next
  case (Suc j)
  show ?case
  proof (cases "n < mx")
    case True
    let ?i = "dqueues_head (gf_proto (fc_guests x g))"
    obtain r1 a m y where d: "drain_queue h ck g ?i base mx ntx n x = (r1, a, m, y)" by (metis prod.exhaust)
    have u: "used_up base mx ntx n x a m (set_guest g (upd_proto (dqueue_rotate_head ?i)) y)"
      using drain_queue_used_up [OF Suc.prems(1) d] by simp
    show ?thesis using Suc.prems(2) True d u used_up_trans [OF u Suc.IH [OF used_up_room [OF Suc.prems(1) u]]]
      by (auto simp: Let_def split: if_splits)
  next
    case False
    then show ?thesis using Suc.prems used_up_refl by simp
  qed
qed

lemma queues_poll_guest_used_up:
  assumes "has_room mx n x" and "queues_poll_guest h ck cyc g base mx ntx n x = (r, ntx', n', x')"
  shows "used_up base mx ntx n x ntx' n' x'"
  using assms used_up_refl [OF assms(1)] poll_dqueues_used_up [OF assms(1)]
  by (auto simp: queues_poll_guest_def Let_def split: if_splits prod.splits)

lemma queues_guests_used_up:
  "has_room mx n x \<Longrightarrow> queues_guests k h ck cyc start i base mx ntx n lst x = (r, ntx', n', lst', x') \<Longrightarrow> used_up base mx ntx n x ntx' n' x'"
proof (induction k arbitrary: i ntx n lst x)
  case 0
  then show ?case using used_up_refl by auto
next
  case (Suc k)
  show ?case
  proof (cases "n < mx")
    case True
    let ?g = "(start + i) mod unat (fc_n_guests x)"
    obtain r1 a m y where d: "queues_poll_guest h ck (cyc ?g) ?g base mx ntx n x = (r1, a, m, y)" by (metis prod.exhaust)
    note u = queues_poll_guest_used_up [OF Suc.prems(1) d]
    show ?thesis using Suc.prems(2) True d u used_up_trans [OF u Suc.IH [OF used_up_room [OF Suc.prems(1) u]]]
      by (auto simp: Let_def split: if_splits)
  next
    case False
    then show ?thesis using Suc.prems used_up_refl by auto
  qed
qed

section \<open>The transmissions of the scheduler end\<close>

text \<open>
  What makes the loop over a scheduler end: every transmission makes a measure of the guest's context smaller (such as the
  bytes still to be sent), which the position of the packet buffer does not matter for.
\<close>

definition sched_drains :: "('s, 'd) handlers \<Rightarrow> (('s, 'd) cham_ebpf_ctx \<Rightarrow> nat) \<Rightarrow> bool" where
  "sched_drains h \<mu> \<longleftrightarrow>
     (\<forall>vm e pkt. case hd_vm h Ev_sched vm e pkt of (er, r, e', pkt') \<Rightarrow> 0 < r \<and> 0 \<le> er \<longrightarrow> \<mu> e' < \<mu> e) \<and>
     (\<forall>ty e pkt. case hd_hand h Ev_sched ty e pkt of (r, e', pkt') \<Rightarrow> 0 < r \<longrightarrow> \<mu> e' < \<mu> e) \<and>
     (\<forall>e q n. \<mu> (e\<lparr>ec_pkt := q, ec_room := n\<rparr>) = \<mu> e)"

abbreviation guest_ctx :: "('p, 's, 'd) fast_context \<Rightarrow> nat \<Rightarrow> ('s, 'd) cham_ebpf_ctx" where
  "guest_ctx x g \<equiv> pf_ectx (gf_proto (fc_guests x g))"

lemma guest_ctx_set_mb [simp]: "fc_guests (set_mb mb f x) = fc_guests x"
  by (simp add: set_mb_def)

lemma guest_ctx_push [simp]: "fc_guests (tx_push mb x) = fc_guests x"
  by (simp add: tx_push_def)

lemma process_tx_arp_guests: "process_tx_arp g len mb ip x = (r, x') \<Longrightarrow> fc_guests x' = fc_guests x"
  by (auto simp: process_tx_arp_def tx_pending_def put_fcq_def Let_def split: option.splits prod.splits if_splits)

lemma send_result_guests: "send_result ck g mb len x = (u, x') \<Longrightarrow> fc_guests x' = fc_guests x"
  by (auto simp: send_result_def infra_tx_def Let_def split: option.splits prod.splits if_splits dest!: process_tx_arp_guests)

lemma run_event_drains:
  assumes "sched_drains h \<mu>" and "run_event h Ev_sched g x = (er, r, x')" and "0 < r" and "0 \<le> er"
  shows "\<mu> (guest_ctx x' g) < \<mu> (guest_ctx x g)"
proof -
  have vm: "\<mu> e' < \<mu> e" if "hd_vm h Ev_sched vm e pkt = (er, r, e', pkt')" for vm e pkt e' pkt'
    using assms(1,3,4) that unfolding sched_drains_def by (metis (mono_tags, lifting) case_prod_conv)
  have hand: "\<mu> e' < \<mu> e" if "hd_hand h Ev_sched ty e pkt = (r, e', pkt')" for ty e pkt e' pkt'
    using assms(1,3) that unfolding sched_drains_def by (metis (mono_tags, lifting) case_prod_conv)
  show ?thesis using assms(2,3)
    by (auto simp: run_event_def Let_def set_guest_def upd_ectx_def upd_proto_def split: fp_proto_mode.splits prod.splits dest: vm hand)
qed

lemma set_pkt_measure:
  assumes "sched_drains h \<mu>"
  shows "\<mu> (guest_ctx (fast_ebpf_ctx_set_pkt_l2 mb g x) g) = \<mu> (guest_ctx x g)"
  using assms by (simp add: sched_drains_def fast_ebpf_ctx_set_pkt_l2_def fast_ebpf_ctx_set_pkt_def set_guest_def upd_ectx_def upd_proto_def)

lemma sched_loop_used_up:
  assumes dr: "sched_drains h \<mu>"
  shows "has_room mx ntx x \<Longrightarrow>
    \<exists>r did' ntx' x'. sched_loop h ck g base mx ret did ntx x = Some (r, did', ntx', x') \<and> used_up base mx ntx ntx x ntx' ntx' x'"
proof (induction "\<mu> (guest_ctx x g)" arbitrary: ret did ntx x rule: less_induct)
  case less
  note stop = used_up_refl [OF less.prems]
  show ?case
  proof (cases "ntx < mx \<and> sched_head (ec_sched (guest_ctx x g)) \<noteq> None")
    case False
    then show ?thesis using stop by (subst sched_loop.simps) auto
  next
    case True
    define mb where "mb = mbs_at base ntx x"
    define x1 where "x1 = fast_ebpf_ctx_set_pkt_l2 mb g (set_mb mb (mb_data_off_update (\<lambda>_. 0)) x)"
    obtain er sr x2 where e: "run_event h Ev_sched g x1 = (er, sr, x2)" by (metis prod.exhaust)
    have m: "moved [] x x2" using run_event_moved [of "[]" x h Ev_sched g x1] e less.prems by (simp add: x1_def has_room_def moved_refl)
    show ?thesis
    proof (cases "sr \<le> 0 \<or> er < 0")
      case stop: True
      have "used_up base mx ntx ntx x ntx ntx x2" using m less.prems by (simp add: used_up_def has_room_def)
      then show ?thesis using True stop e by (subst sched_loop.simps) (auto simp: Let_def mb_def [symmetric] x1_def [symmetric])
    next
      case False
      obtain used x3 where s: "send_result ck g mb sr x2 = (used, x3)" by fastforce
      define ntx1 where "ntx1 = (if used then ntx + 1 else ntx)"
      have "unat (fc_tx_n x2) < TXBUF_SIZE" using m True less.prems by (auto simp: moved_def has_room_def)
      from moved_trans [OF m send_result_moved [OF moved_wf [OF m] this s]]
      have u: "used_up base mx ntx ntx x ntx1 ntx1 x3" using True less.prems by (auto simp: used_up_def ntx1_def mb_def has_room_def)
      have "\<mu> (guest_ctx x3 g) < \<mu> (guest_ctx x g)"
        using run_event_drains [OF dr e] False send_result_guests [OF s] set_pkt_measure [OF dr, of mb g "set_mb mb (mb_data_off_update (\<lambda>_. 0)) x"]
        by (simp add: x1_def)
      from less.hyps [OF this used_up_room [OF less.prems u], of sr "did \<or> used"] used_up_trans [OF u]
      show ?thesis using True False e s by (subst sched_loop.simps) (auto simp: Let_def mb_def [symmetric] x1_def [symmetric] ntx1_def [symmetric])
    qed
  qed
qed

end
