(* ===== verification/Fast_Props.thy ===== *)
theory Fast_Props
  imports Fast_Bufs
begin

unbundle bit_operations_syntax

text \<open>
  The polls, the messages of the control path and a whole round of the loop keep the invariant of a core and every packet
  buffer, and the queues of a guest are served in turn.
\<close>

section \<open>The scheduler poll\<close>

lemma sched_poll_guest_used_up:
  assumes "sched_drains h \<mu>" and "has_room mx ntx x"
  shows "\<exists>r ntx' x'. sched_poll_guest h ck cyc g base mx ntx x = Some (r, ntx', x') \<and> used_up base mx ntx ntx x ntx' ntx' x'"
proof -
  obtain r did a y where l: "sched_loop h ck g base mx 0 False ntx x = Some (r, did, a, y)" and u: "used_up base mx ntx ntx x a a y"
    using sched_loop_used_up [OF assms] by blast
  show ?thesis
  proof (cases "\<not> sched_ready x g \<or> (fc_perf_iso x \<and> sint (gf_budget (fc_guests x g)) \<le> 0)")
    case True
    then show ?thesis using used_up_refl [OF assms(2)] by (auto simp: sched_poll_guest_def)
  next
    case False
    then show ?thesis using l u by (auto simp: sched_poll_guest_def)
  qed
qed

lemma sched_guests_used_up:
  assumes dr: "sched_drains h \<mu>"
  shows "has_room mx ntx x \<Longrightarrow>
    \<exists>ntx' lst' x'. sched_guests k h ck cyc start i base mx ntx lst x = Some (ntx', lst', x') \<and> used_up base mx ntx ntx x ntx' ntx' x'"
proof (induction k arbitrary: i ntx lst x)
  case 0
  then show ?case using used_up_refl by auto
next
  case (Suc k)
  show ?case
  proof (cases "ntx < mx")
    case True
    let ?g = "(start + i) mod unat (fc_n_guests x)"
    obtain r a y where d: "sched_poll_guest h ck (cyc ?g) ?g base mx ntx x = Some (r, a, y)" and u: "used_up base mx ntx ntx x a a y"
      using sched_poll_guest_used_up [OF dr Suc.prems] by blast
    from Suc.IH [OF used_up_room [OF Suc.prems u], of "i + 1" "if r > 0 then Some ?g else lst"] used_up_trans [OF u] d True
    show ?thesis by (auto simp: Let_def)
  next
    case False
    then show ?thesis using Suc.prems used_up_refl by auto
  qed
qed

section \<open>Taking a batch from the cache and putting the rest back\<close>

definition nic_ok :: "(nat \<Rightarrow> int) \<Rightarrow> bool" where
  "nic_ok nic \<longleftrightarrow> (\<forall>n. nic n \<le> int n)"

lemma txflush_list:
  assumes "nic_ok nic"
  shows "fc_sent (snd (fast_txflush nic x)) @ tx_list (snd (fast_txflush nic x)) = fc_sent x @ tx_list x"
    and "unat (fc_tx_n (snd (fast_txflush nic x))) \<le> unat (fc_tx_n x)"
proof -
  let ?n = "unat (fc_tx_n x)" and ?r = "nic (unat (fc_tx_n x))"
  have le: "?r \<le> int ?n" using assms unfolding nic_ok_def by blast
  have w: "?n < 65536" by (rule unat_16_bound)
  have u: "unat (of_nat (?n - nat ?r) :: u16) = ?n - nat ?r" using w by (simp add: unat_of_nat)
  have l: "length (tx_list x) = ?n" by (simp add: tx_list_def)
  consider "fc_tx_n x = 0" | "fc_tx_n x \<noteq> 0" "?r = int ?n" | "fc_tx_n x \<noteq> 0" "?r \<noteq> int ?n" "0 < ?r" | "fc_tx_n x \<noteq> 0" "?r \<noteq> int ?n" "?r \<le> 0" by linarith
  then have "fc_sent (snd (fast_txflush nic x)) @ tx_list (snd (fast_txflush nic x)) = fc_sent x @ tx_list x \<and>
    unat (fc_tx_n (snd (fast_txflush nic x))) \<le> ?n"
  proof cases
    case 3
    have "map (\<lambda>i. if i < ?n - nat ?r then fc_tx_mbs x (i + nat ?r) else fc_tx_mbs x i) [0..<?n - nat ?r] = drop (nat ?r) (tx_list x)"
      by (rule nth_equalityI) (auto simp: tx_list_def add.commute)
    then have "tx_list (snd (fast_txflush nic x)) = drop (nat ?r) (tx_list x)" using 3 u by (simp add: fast_txflush_def Let_def tx_list_def)
    moreover have "fc_sent (snd (fast_txflush nic x)) = fc_sent x @ take (nat ?r) (tx_list x)"
      "unat (fc_tx_n (snd (fast_txflush nic x))) \<le> ?n" using 3 u by (simp_all add: fast_txflush_def Let_def)
    ultimately show ?thesis by simp
  qed (use l in \<open>auto simp: fast_txflush_def Let_def tx_list_def\<close>)
  then show "fc_sent (snd (fast_txflush nic x)) @ tx_list (snd (fast_txflush nic x)) = fc_sent x @ tx_list x"
    "unat (fc_tx_n (snd (fast_txflush nic x))) \<le> unat (fc_tx_n x)" by blast+
qed

lemma txflush_frame [simp]:
  "fc_cache (snd (fast_txflush nic x)) = fc_cache x" "fc_pool (snd (fast_txflush nic x)) = fc_pool x"
  "fc_fcq (snd (fast_txflush nic x)) = fc_fcq x" "fc_cfq (snd (fast_txflush nic x)) = fc_cfq x"
  by (simp_all add: fast_txflush_def Let_def)

lemma txflush_held:
  assumes "nic_ok nic"
  shows "held bufs (snd (fast_txflush nic x)) = held bufs x" and "fast_wf x \<Longrightarrow> fast_wf (snd (fast_txflush nic x))"
proof -
  have "mset (fc_sent (snd (fast_txflush nic x))) + mset (tx_list (snd (fast_txflush nic x))) = mset (fc_sent x) + mset (tx_list x)"
    using txflush_list(1) [OF assms] by (metis mset_append)
  then show "held bufs (snd (fast_txflush nic x)) = held bufs x" by (simp add: held_def ac_simps)
  show "fast_wf x \<Longrightarrow> fast_wf (snd (fast_txflush nic x))" using txflush_list(2) [OF assms, of x] by (simp add: fast_wf_def)
qed

lemma batch_room_bound:
  assumes "fast_wf x" "batch \<le> TXBUF_SIZE"
  shows "unat (batch_room batch x) + unat (fc_tx_n x) \<le> TXBUF_SIZE"
proof -
  have n: "unat (fc_tx_n x) \<le> TXBUF_SIZE" using assms by (simp add: fast_wf_def)
  define m where "m = min batch (TXBUF_SIZE - unat (fc_tx_n x))"
  have "batch_room batch x = of_nat m" unfolding batch_room_def m_def using n
    by (metis of_int_of_nat_eq of_nat_diff of_nat_min)
  moreover have "m < 65536" using assms(2) by (simp add: m_def)
  ultimately show ?thesis using n by (simp add: unat_of_nat m_def)
qed

lemma cache_alloc_post:
  assumes wf: "fast_wf x" and laws: "pool_laws ops bufs" and a: "cache_alloc ops num x = (mx, base, x1)"
  shows "\<exists>c' p' new L. x1 = x\<lparr>fc_cache := c', fc_pool := p'\<rparr> \<and> alloc_post bufs num (fc_cache x, fc_pool x) (mx, base, c', p') new L"
proof -
  obtain c' p' where t: "txcache_alloc ops num (fc_cache x, fc_pool x) = (mx, base, c', p')"
    and x1: "x1 = x\<lparr>fc_cache := c', fc_pool := p'\<rparr>" using a by (auto simp: cache_alloc_def split: prod.splits)
  have "cache_wf (fc_cache x)" using wf by (simp add: fast_wf_def)
  from txcache_alloc_takes [OF this laws, of num "fc_pool x"] t x1 show ?thesis by auto
qed

lemma batch_has_room:
  assumes wf: "fast_wf x" and laws: "pool_laws ops bufs" and b: "batch \<le> TXBUF_SIZE"
    and a: "cache_alloc ops (batch_room batch x) x = (mx, base, x1)"
  shows "has_room (unat mx) 0 x1"
proof -
  obtain c' p' new L where x1: "x1 = x\<lparr>fc_cache := c', fc_pool := p'\<rparr>"
    and post: "alloc_post bufs (batch_room batch x) (fc_cache x, fc_pool x) (mx, base, c', p') new L"
    using cache_alloc_post [OF wf laws a] by blast
  have "mx \<le> batch_room batch x" using post unfolding alloc_post_def prod.case by blast
  then show ?thesis using batch_room_bound [OF wf b] wf unfolding has_room_def x1 by (simp add: fast_wf_def word_le_nat_alt)
qed

text \<open>The buffers of a batch, the loop that uses up the first of them, the flush, and the rest put back.\<close>

lemma batch_conserves:
  assumes wf: "fast_wf x" and laws: "pool_laws ops bufs" and nic: "nic_ok nic" and b: "batch \<le> TXBUF_SIZE"
    and a: "cache_alloc ops (batch_room batch x) x = (mx, base, x1)"
    and u: "used_up base (unat mx) 0 0 x1 ntx n x2"
    and x3: "moved [] x2 x3"
  shows "fast_wf (cache_unalloc (mx - of_nat ntx) (snd (fast_txflush nic x3)))"
    "held bufs (cache_unalloc (mx - of_nat ntx) (snd (fast_txflush nic x3))) = held bufs x"
proof -
  obtain c' p' new L where x1: "x1 = x\<lparr>fc_cache := c', fc_pool := p'\<rparr>"
    and post: "alloc_post bufs (batch_room batch x) (fc_cache x, fc_pool x) (mx, base, c', p') new L"
    using cache_alloc_post [OF wf laws a] by blast
  have P: "mx \<le> batch_room batch x" "unat mx \<le> length L" "L = cache_list (fc_cache x) @ new" "bufs (fc_pool x) = mset new + bufs p'"
    "map (\<lambda>j. tx_cache_mbs c' (base + j)) [0..<unat mx] = take (unat mx) L"
    using post unfolding alloc_post_def prod.case by blast+
  note room = batch_has_room [OF wf laws b a]
  have m: "ntx \<le> unat mx" "moved (map (\<lambda>k. mbs_at base k x1) [0..<ntx]) x1 x2" using u by (auto simp: used_up_def)
  have front: "map (\<lambda>k. mbs_at base k x1) [0..<ntx] = take ntx L"
  proof -
    have "map (\<lambda>k. mbs_at base k x1) [0..<ntx] = take ntx (map (\<lambda>j. tx_cache_mbs c' (base + j)) [0..<unat mx])"
      using m(1) by (simp add: mbs_at_def x1 take_map)
    then show ?thesis unfolding P(5) using m(1) by simp
  qed
  have mv: "moved (take ntx L) x1 x3" using moved_trans [OF m(2) x3] front by simp
  have cnt: "unat (mx - of_nat ntx) = unat mx - ntx" "mx - of_nat ntx \<le> mx"
  proof -
    have "unat (of_nat ntx :: u16) = ntx" using m(1) unat_16_bound [of mx] by (simp add: unat_of_nat)
    then have "(of_nat ntx :: u16) \<le> mx" using m(1) by (simp add: word_le_nat_alt)
    then show "unat (mx - of_nat ntx) = unat mx - ntx" using \<open>unat (of_nat ntx :: u16) = ntx\<close> by (simp add: unat_sub)
    then show "mx - of_nat ntx \<le> mx" by (simp add: word_le_nat_alt)
  qed
  have c3: "fc_cache x3 = c'" "fc_pool x3 = p'" "fc_cfq x3 = fc_cfq x" "fc_sent x3 = fc_sent x" "fcq_wf (fc_fcq x3)"
    using mv by (auto simp: moved_def x1)
  have tx: "unat (fc_tx_n x3) \<le> TXBUF_SIZE"
    using mv room m(1) P(2) by (auto simp: moved_def has_room_def)
  let ?y = "snd (fast_txflush nic x3)"
  have rst: "cache_wf (txcache_unalloc (mx - of_nat ntx) c')" "cache_list (txcache_unalloc (mx - of_nat ntx) c') = drop ntx L"
    using txcache_unalloc_restores [OF post cnt(2)] cnt(1) m(1) by simp_all
  have fl: "mset (fc_sent ?y) + mset (tx_list ?y) = mset (fc_sent x3) + mset (tx_list x3)" "unat (fc_tx_n ?y) \<le> unat (fc_tx_n x3)"
    using txflush_list(1) [OF nic, of x3, THEN arg_cong, of mset] txflush_list(2) [OF nic, of x3] by simp_all
  show "fast_wf (cache_unalloc (mx - of_nat ntx) ?y)"
    using wf c3 tx fl(2) rst(1) by (simp add: fast_wf_def cache_unalloc_def)
  have t1: "mset (tx_list x3) + pend_mbufs (fc_fcq x3) = mset (tx_list x) + pend_mbufs (fc_fcq x) + mset (take ntx L)"
    using mv by (simp add: moved_def x1 tx_list_def)
  have t2: "mset (take ntx L) + mset (drop ntx L) = mset (cache_list (fc_cache x)) + mset new"
    by (metis P(3) append_take_drop_id mset_append)
  have "held bufs (cache_unalloc (mx - of_nat ntx) ?y) = mset (drop ntx L) + bufs p' + (mset (fc_sent ?y) + mset (tx_list ?y)) + pend_mbufs (fc_fcq x3) + given_mbufs (fc_cfq x)"
    using rst(2) c3 by (simp add: held_def cache_unalloc_def tx_list_def ac_simps)
  also have "\<dots> = mset (drop ntx L) + bufs p' + mset (fc_sent x) + (mset (tx_list x3) + pend_mbufs (fc_fcq x3)) + given_mbufs (fc_cfq x)"
    unfolding fl(1) c3(4) by (simp add: ac_simps)
  also have "\<dots> = (mset (take ntx L) + mset (drop ntx L)) + bufs p' + mset (fc_sent x) + (mset (tx_list x) + pend_mbufs (fc_fcq x)) + given_mbufs (fc_cfq x)"
    unfolding t1 by (simp add: ac_simps)
  also have "\<dots> = held bufs x" unfolding t2 held_def P(4) by (simp add: ac_simps)
  finally show "held bufs (cache_unalloc (mx - of_nat ntx) ?y) = held bufs x" .
qed

lemma moved_next_guest:
  "fcq_wf (fc_fcq x) \<Longrightarrow> moved [] x (case l of None \<Rightarrow> x | Some g \<Rightarrow> x\<lparr>fc_next_queues_guest := f g\<rparr>)"
  "fcq_wf (fc_fcq x) \<Longrightarrow> moved [] x (case l of None \<Rightarrow> x | Some g \<Rightarrow> x\<lparr>fc_next_sched_guest := f g\<rparr>)"
  by (cases l; simp add: moved_def tx_list_def)+

lemma moved_held:
  assumes "moved bs x y" "fast_wf x" "unat (fc_tx_n x) + length bs \<le> TXBUF_SIZE"
  shows "fast_wf y \<and> held bufs y = held bufs x + mset bs"
proof -
  have t: "mset (tx_list y) + pend_mbufs (fc_fcq y) = mset (tx_list x) + pend_mbufs (fc_fcq x) + mset bs" using assms(1) by (simp add: moved_def)
  have "held bufs y = (mset (tx_list y) + pend_mbufs (fc_fcq y)) + (mset (cache_list (fc_cache x)) + bufs (fc_pool x) + mset (fc_sent x) + given_mbufs (fc_cfq x))"
    using assms(1) by (simp add: held_def moved_def ac_simps)
  also have "\<dots> = held bufs x + mset bs" unfolding t by (simp add: held_def ac_simps)
  finally show ?thesis using assms by (auto simp: fast_wf_def moved_def)
qed

lemma cache_alloc_none:
  assumes wf: "fast_wf x" and laws: "pool_laws ops bufs" and a: "cache_alloc ops num x = (0, base, x1)"
  shows "fast_wf x1 \<and> held bufs x1 = held bufs x"
proof -
  obtain c' p' new L where x1: "x1 = x\<lparr>fc_cache := c', fc_pool := p'\<rparr>"
    and post: "alloc_post bufs num (fc_cache x, fc_pool x) (0, base, c', p') new L" using cache_alloc_post [OF wf laws a] by blast
  then have P: "cache_wf c'" "cache_list c' = cache_list (fc_cache x) @ new" "bufs (fc_pool x) = mset new + bufs p'"
    unfolding alloc_post_def prod.case by auto
  show ?thesis using wf P by (simp add: held_def x1 tx_list_def fast_wf_def ac_simps)
qed

lemma fast_queues_poll_conserves:
  assumes wf: "fast_wf x" and laws: "pool_laws ops bufs" and nic: "nic_ok nic"
    and r: "fast_queues_poll ops h ck cyc nic x = (r, x')" and ok: "0 \<le> r"
  shows "fast_wf x' \<and> held bufs x' = held bufs x"
proof (cases "fc_n_guests x = 0")
  case True
  then show ?thesis using r wf by (simp add: fast_queues_poll_def)
next
  case False
  obtain mx base x1 where a: "cache_alloc ops (batch_room FAST_DEQ_BATCH_SIZE x) x = (mx, base, x1)" by (metis prod.exhaust)
  let ?l = "queues_guests (unat (fc_n_guests x)) h ck cyc (start_guest (fc_next_queues_guest x) (fc_n_guests x)) 0 base (unat mx) 0 0 None x1"
  obtain q ntx n lst x2 where l: "?l = (q, ntx, n, lst, x2)" by (metis prod.exhaust)
  define x3 where "x3 = (case lst of None \<Rightarrow> x2 | Some g \<Rightarrow> x2\<lparr>fc_next_queues_guest := of_nat ((g + 1) mod unat (fc_n_guests x2))\<rparr>)"
  show ?thesis
  proof (cases "mx = 0")
    case True
    then show ?thesis using r False a cache_alloc_none [OF wf laws] by (auto simp: fast_queues_poll_def)
  next
    case nz: False
    have b: "FAST_DEQ_BATCH_SIZE \<le> TXBUF_SIZE" by simp
    note u = queues_guests_used_up [OF batch_has_room [OF wf laws b a] l]
    have m: "moved [] x2 x3" unfolding x3_def using u by (intro moved_next_guest(1)) (auto simp: used_up_def moved_def)
    have "x' = cache_unalloc (mx - of_nat ntx) (snd (fast_txflush nic x3))"
      using r ok False nz a l by (auto simp: fast_queues_poll_def Let_def x3_def split: if_splits)
    then show ?thesis using batch_conserves [OF wf laws nic b a u m] by simp
  qed
qed

text \<open>A poll that fails keeps the invariant, but the buffers of the batch that were not used are in no place any more.\<close>

lemma fast_queues_poll_fails:
  assumes wf: "fast_wf x" and laws: "pool_laws ops bufs" and r: "fast_queues_poll ops h ck cyc nic x = (r, x')" and fail: "r < 0"
  shows "\<exists>mx base x1 ntx. cache_alloc ops (batch_room FAST_DEQ_BATCH_SIZE x) x = (mx, base, x1) \<and> 0 < unat mx \<and> ntx \<le> unat mx \<and> fast_wf x' \<and>
    held bufs x = held bufs x' + mset (map (\<lambda>k. mbs_at base k x1) [ntx..<unat mx])"
proof -
  obtain mx base x1 where a: "cache_alloc ops (batch_room FAST_DEQ_BATCH_SIZE x) x = (mx, base, x1)" by (metis prod.exhaust)
  let ?l = "queues_guests (unat (fc_n_guests x)) h ck cyc (start_guest (fc_next_queues_guest x) (fc_n_guests x)) 0 base (unat mx) 0 0 None x1"
  obtain q ntx n lst x2 where l: "?l = (q, ntx, n, lst, x2)" by (metis prod.exhaust)
  have nz: "mx \<noteq> 0" and x': "x' = x2" using r fail a l by (auto simp: fast_queues_poll_def Let_def split: if_splits)
  have b: "FAST_DEQ_BATCH_SIZE \<le> TXBUF_SIZE" by simp
  note room = batch_has_room [OF wf laws b a]
  have m: "ntx \<le> unat mx" "moved (map (\<lambda>k. mbs_at base k x1) [0..<ntx]) x1 x2"
    using queues_guests_used_up [OF room l] by (auto simp: used_up_def)
  obtain c' p' new L where x1: "x1 = x\<lparr>fc_cache := c', fc_pool := p'\<rparr>"
    and post: "alloc_post bufs (batch_room FAST_DEQ_BATCH_SIZE x) (fc_cache x, fc_pool x) (mx, base, c', p') new L" using cache_alloc_post [OF wf laws a] by blast
  have P: "cache_wf c'" "L = cache_list (fc_cache x) @ new" "bufs (fc_pool x) = mset new + bufs p'" "cache_list c' = drop (unat mx) L"
    "map (\<lambda>k. mbs_at base k x1) [0..<unat mx] = take (unat mx) L"
    using post unfolding alloc_post_def prod.case by (auto simp: mbs_at_def x1)
  have w1: "fast_wf x1" using wf P(1) by (simp add: fast_wf_def x1)
  have mh: "fast_wf x2" "held bufs x2 = held bufs x1 + mset (map (\<lambda>k. mbs_at base k x1) [0..<ntx])"
    using moved_held [OF m(2) w1] room m(1) by (auto simp: has_room_def)
  have up: "[0..<unat mx] = [0..<ntx] @ [ntx..<unat mx]" using m(1) by (metis le_add_diff_inverse upt_add_eq_append zero_le)
  have "mset (take (unat mx) L) + mset (drop (unat mx) L) = mset (cache_list (fc_cache x)) + mset new" by (metis P(2) append_take_drop_id mset_append)
  then have "held bufs x = held bufs x1 + mset (take (unat mx) L)" using P(3,4) by (simp add: held_def x1 tx_list_def ac_simps)
  then have "held bufs x = held bufs x1 + (mset (map (\<lambda>k. mbs_at base k x1) [0..<ntx]) + mset (map (\<lambda>k. mbs_at base k x1) [ntx..<unat mx]))"
    unfolding P(5) [symmetric] up by simp
  then have "held bufs x = held bufs x2 + mset (map (\<lambda>k. mbs_at base k x1) [ntx..<unat mx])" using mh(2) by (simp add: ac_simps)
  moreover have "0 < unat mx" using nz by (metis gr0I unat_eq_zero)
  ultimately show ?thesis using a m(1) mh(1) x' by blast
qed

lemma fast_sched_poll_conserves:
  assumes wf: "fast_wf x" and laws: "pool_laws ops bufs" and nic: "nic_ok nic" and dr: "sched_drains h \<mu>"
  shows "\<exists>r x'. fast_sched_poll ops h ck cyc nic x = Some (r, x') \<and> fast_wf x' \<and> held bufs x' = held bufs x"
proof (cases "fc_n_guests x = 0")
  case True
  then show ?thesis using wf by (simp add: fast_sched_poll_def)
next
  case False
  obtain mx base x1 where a: "cache_alloc ops (batch_room FAST_SCHED_BATCH_SIZE x) x = (mx, base, x1)" by (metis prod.exhaust)
  show ?thesis
  proof (cases "mx = 0")
    case True
    then show ?thesis using False a cache_alloc_none [OF wf laws] by (auto simp: fast_sched_poll_def)
  next
    case nz: False
    have b: "FAST_SCHED_BATCH_SIZE \<le> TXBUF_SIZE" by simp
    obtain ntx lst x2 where l: "sched_guests (unat (fc_n_guests x)) h ck cyc (start_guest (fc_next_sched_guest x) (fc_n_guests x)) 0 base (unat mx) 0 None x1 = Some (ntx, lst, x2)"
      and u: "used_up base (unat mx) 0 0 x1 ntx ntx x2"
      using sched_guests_used_up [OF dr batch_has_room [OF wf laws b a]] by blast
    define x3 where "x3 = (case lst of None \<Rightarrow> x2 | Some g \<Rightarrow> x2\<lparr>fc_next_sched_guest := of_nat ((g + 1) mod unat (fc_n_guests x))\<rparr>)"
    have m: "moved [] x2 x3" unfolding x3_def using u by (intro moved_next_guest(2)) (auto simp: used_up_def moved_def)
    have "fast_sched_poll ops h ck cyc nic x = Some (int ntx, cache_unalloc (mx - of_nat ntx) (snd (fast_txflush nic x3)))"
      using False nz a l by (simp add: fast_sched_poll_def Let_def x3_def)
    then show ?thesis using batch_conserves [OF wf laws nic b a u m] by simp
  qed
qed

section \<open>Receiving\<close>

lemma cache_free_held:
  assumes wf: "fast_wf x" and laws: "pool_laws ops bufs"
  shows "fast_wf (cache_free ops mb x) \<and> held bufs (cache_free ops mb x) = add_mset mb (held bufs x)"
    and "length (cache_list (fc_cache x)) \<le> length (cache_list (fc_cache (cache_free ops mb x)))"
proof -
  obtain c' p' where t: "txcache_free ops mb (fc_cache x, fc_pool x) = (c', p')" by fastforce
  have cw: "cache_wf (fc_cache x)" using wf by (simp add: fast_wf_def)
  note f = txcache_free_puts [OF cw t]
  have e: "cache_free ops mb x = set_mb mb (mb_ol_flags_update (\<lambda>_. 0)) (x\<lparr>fc_cache := c', fc_pool := p'\<rparr>)" using t by (simp add: cache_free_def)
  have "bufs (po_free ops mb (fc_pool x)) = add_mset mb (bufs (fc_pool x))" using laws by (simp add: pool_laws_def)
  then show "fast_wf (cache_free ops mb x) \<and> held bufs (cache_free ops mb x) = add_mset mb (held bufs x)"
    using f wf by (auto simp: e held_def fast_wf_def tx_list_def split: if_splits)
  show "length (cache_list (fc_cache x)) \<le> length (cache_list (fc_cache (cache_free ops mb x)))"
    using f arg_cong [of _ _ length] by (auto simp: e split: if_splits simp del: cache_length)
qed

lemma free_unused_held:
  assumes laws: "pool_laws ops bufs"
  shows "fast_wf x \<Longrightarrow> fast_wf (free_unused ops ms x) \<and>
    held bufs (free_unused ops ms x) = held bufs x + mset (map fst (filter (\<lambda>m. \<not> snd m) ms))"
proof (induction ms arbitrary: x)
  case (Cons m ms)
  show ?case using Cons.IH [of x] Cons.IH [of "cache_free ops (fst m) x"] Cons.prems cache_free_held(1) [OF Cons.prems laws]
    by (cases m) (auto simp: ac_simps)
qed simp

lemma infra_rx_moved: "fcq_wf (fc_fcq x) \<Longrightarrow> infra_rx old mb x = (g, x') \<Longrightarrow> moved [] x x'"
proof -
  assume wf: "fcq_wf (fc_fcq x)" and r: "infra_rx old mb x = (g, x')"
  have p: "moved [] x (x\<lparr>fc_fcq := snd (queue_put (fc_fcq x) d ty)\<rparr>)" if "ty \<noteq> QUEUE_MBUF_PENDING" for d ty
    using put_other_moved [OF wf that, of d] by (simp add: put_fcq_def split: prod.splits)
  show ?thesis using r moved_refl [OF wf] p [of QUEUE_ARP_RX_REQ] p [of QUEUE_ARP_RX_REP]
    by (auto simp: infra_rx_def process_rx_arp_def process_arp_rx_req_def process_arp_rx_rep_def Let_def split: if_splits)
qed

lemma rx_poll_guest_moved:
  assumes wf: "fcq_wf (fc_fcq x)" and n: "unat (fc_tx_n x) < TXBUF_SIZE" and r: "rx_poll_guest h ck cyc g mb o' x = (used, x')"
  shows "moved (if used then [mb] else []) x x'"
proof -
  define x1 where "x1 = fast_ebpf_ctx_set_pkt mb o' g (set_guest g (upd_ectx (\<lambda>e. e\<lparr>ec_core := ucast (fc_id x)\<rparr>)) x)"
  obtain er rr x2 where e: "run_event h Ev_rx g x1 = (er, rr, x2)" by (metis prod.exhaust)
  have m: "moved [] x x2" using run_event_moved [of "[]" x h Ev_rx g x1] e moved_refl [OF wf] by (simp add: x1_def)
  then have "unat (fc_tx_n x2) < TXBUF_SIZE" using n by (auto simp: moved_def)
  then have s: "moved (if u then [mb] else []) x y" if "send_result ck g mb rr x2 = (u, y)" for u y
    using moved_trans [OF m send_result_moved [OF moved_wf [OF m] _ that]] by simp
  obtain u y where t: "(if rr > 0 then send_result ck g mb rr x2 else (False, x2)) = (u, y)" by fastforce
  then have "moved (if u then [mb] else []) x y" using s m by (auto split: if_splits)
  then show ?thesis using r t unfolding rx_poll_guest_def Let_def x1_def [symmetric] e prod.case by (auto split: if_splits)
qed

lemma rx_loop_moved:
  "fcq_wf (fc_fcq x) \<Longrightarrow> unat (fc_tx_n x) + length mbs \<le> TXBUF_SIZE \<Longrightarrow> rx_loop h ck cyc old mbs x = (us, x') \<Longrightarrow>
     length us = length mbs \<and> moved (map fst (filter snd (zip mbs us))) x x'"
proof (induction mbs arbitrary: x us)
  case Nil
  then show ?case using moved_refl by simp
next
  case (Cons mb mbs)
  obtain g x1 where i: "infra_rx (old mb) mb x = (g, x1)" by fastforce
  note m1 = infra_rx_moved [OF Cons.prems(1) i]
  have n1: "unat (fc_tx_n x1) + length (mb # mbs) \<le> TXBUF_SIZE" using m1 Cons.prems(2) by (auto simp: moved_def)
  obtain b x2 where g: "(case g of None \<Rightarrow> (False, x1) | Some (g, o') \<Rightarrow> rx_poll_guest h ck (cyc mb) (unat g) mb o' x1) = (b, x2)" by fastforce
  have m2: "moved (if b then [mb] else []) x x2"
  proof (cases g)
    case None
    then show ?thesis using g m1 by auto
  next
    case (Some p)
    then show ?thesis using g moved_trans [OF m1 rx_poll_guest_moved [OF moved_wf [OF m1], of h ck "cyc mb" _ mb _ b x2]] n1 by (cases p) auto
  qed
  have "unat (fc_tx_n x2) + length mbs \<le> TXBUF_SIZE" using m2 Cons.prems(2) by (auto simp: moved_def split: if_splits)
  moreover obtain bs where bs: "rx_loop h ck cyc old mbs x2 = (bs, x')" "us = b # bs"
    using Cons.prems(3) i g by (auto split: option.splits prod.splits)
  ultimately have IH: "length bs = length mbs \<and> moved (map fst (filter snd (zip mbs bs))) x2 x'"
    using Cons.IH [OF moved_wf [OF m2]] by blast
  then show ?case using moved_trans [OF m2] bs(2) by (cases b) force+
qed

lemma mset_used_unused: "length us = length mbs \<Longrightarrow>
   mset (map fst (filter snd (zip mbs us))) + mset (map fst (filter (\<lambda>m. \<not> snd m) (zip mbs us))) = mset mbs"
  by (induction us mbs rule: list_induct2) auto

lemma fast_rx_poll_conserves:
  assumes wf: "fast_wf x" and laws: "pool_laws ops bufs" and nic: "nic_ok nic" and got: "\<And>n. length (got n) \<le> n"
    and r: "fast_rx_poll ops h ck cyc old got nic x = (r, x')"
  shows "fast_wf x' \<and> held bufs x' = held bufs x + mset (got (min FAST_RX_BATCH_SIZE (TXBUF_SIZE - unat (fc_tx_n x))))"
proof -
  define mbs where "mbs = got (min FAST_RX_BATCH_SIZE (TXBUF_SIZE - unat (fc_tx_n x)))"
  show ?thesis
  proof (cases "mbs = []")
    case True
    then have "x' = x" using r by (simp add: fast_rx_poll_def mbs_def [symmetric] Let_def)
    then show ?thesis unfolding mbs_def [symmetric] using wf True by simp
  next
    case False
    obtain us x1 where l: "rx_loop h ck cyc old mbs x = (us, x1)" by fastforce
    have n: "unat (fc_tx_n x) + length mbs \<le> TXBUF_SIZE"
      using got [of "min FAST_RX_BATCH_SIZE (TXBUF_SIZE - unat (fc_tx_n x))"] wf unfolding mbs_def [symmetric] fast_wf_def by linarith
    have m: "length us = length mbs" "moved (map fst (filter snd (zip mbs us))) x x1"
      using rx_loop_moved [OF _ n l] wf by (auto simp: fast_wf_def)
    have "length (map fst (filter snd (zip mbs us))) \<le> length mbs" using m(1) length_filter_le [of snd "zip mbs us"] by simp
    then have h1: "fast_wf x1" "held bufs x1 = held bufs x + mset (map fst (filter snd (zip mbs us)))"
      using moved_held [OF m(2) wf] n by auto
    have x': "x' = free_unused ops (zip mbs us) (snd (fast_txflush nic x1))"
      using r False l by (simp add: fast_rx_poll_def mbs_def [symmetric] Let_def)
    show ?thesis unfolding mbs_def [symmetric] x'
      using free_unused_held [OF laws txflush_held(2) [OF nic h1(1)], of "zip mbs us"] txflush_held(1) [OF nic, of bufs x1] h1(2) mset_used_unused [OF m(1)]
      by (simp add: ac_simps)
  qed
qed

section \<open>The messages of the control path\<close>

text \<open>What the handling of one message does, apart from the queue the message came from.\<close>

definition kept :: "('p \<Rightarrow> mbuf multiset) \<Rightarrow> mbuf multiset \<Rightarrow> ('p, 's, 'd) fast_context \<Rightarrow> ('p, 's, 'd) fast_context \<Rightarrow> bool" where
  "kept bufs b x x' \<longleftrightarrow> fc_cfq x' = fc_cfq x \<and> cache_wf (fc_cache x') \<and> fcq_wf (fc_fcq x') \<and> unat (fc_tx_n x') \<le> unat (fc_tx_n x) + 1 \<and>
     length (cache_list (fc_cache x)) \<le> length (cache_list (fc_cache x')) + 1 \<and> held bufs x' = held bufs x + b"

lemma kept_frame:
  assumes "fast_wf x" "fc_fcq x' = fc_fcq x" "fc_cache x' = fc_cache x" "fc_pool x' = fc_pool x" "fc_cfq x' = fc_cfq x"
    "fc_sent x' = fc_sent x" "fc_tx_n x' = fc_tx_n x" "fc_tx_mbs x' = fc_tx_mbs x"
  shows "kept bufs {#} x x'"
  using assms by (simp add: kept_def held_def fast_wf_def tx_list_def)

lemma kept_moved: "moved bs x y \<Longrightarrow> fast_wf x \<Longrightarrow> length bs \<le> 1 \<Longrightarrow> unat (fc_tx_n x) < TXBUF_SIZE \<Longrightarrow> kept bufs (mset bs) x y"
  using moved_held [of bs x y bufs] by (auto simp: kept_def moved_def fast_wf_def)

lemma cache_free_frame [simp]: "fc_cfq (cache_free ops mb y) = fc_cfq y" "fc_tx_n (cache_free ops mb y) = fc_tx_n y"
  by (simp_all add: cache_free_def split: prod.split)

lemma handle_mbuf_kept:
  assumes wf: "fast_wf x" and laws: "pool_laws ops bufs" and n: "unat (fc_tx_n x) < TXBUF_SIZE"
  shows "kept bufs {#mbt_mb q#} x (handle_mbuf ops ck q x)"
proof -
  obtain r x1 where r: "infra_tx ck (unat (mbt_gid q)) (mbt_mb q) (mbt_pkt_len q) x = (r, x1)" by fastforce
  have f: "fcq_wf (fc_fcq x)" using wf by (simp add: fast_wf_def)
  note m = infra_tx_moved [OF f r]
  show ?thesis
  proof (cases "r = INFRA_RET_MBUF")
    case True
    then show ?thesis using m r n kept_moved [OF _ wf _ n, of "[mbt_mb q]"] by (simp add: handle_mbuf_def used_bufs_def)
  next
    case False
    then have m1: "moved [] x x1" using m by (simp add: used_bufs_def)
    then have w1: "fast_wf x1" "held bufs x1 = held bufs x" "fc_cache x1 = fc_cache x" "fc_cfq x1 = fc_cfq x" "unat (fc_tx_n x1) \<le> unat (fc_tx_n x)"
      using moved_held [OF m1 wf, of bufs] n by (auto simp: moved_def)
    show ?thesis
    proof (cases "r = INFRA_RET_ERR")
      case True
      have "handle_mbuf ops ck q x = cache_free ops (mbt_mb q) x1" using r n True by (simp add: handle_mbuf_def)
      then show ?thesis using cache_free_held [OF w1(1) laws, of "mbt_mb q"] w1 by (auto simp: kept_def fast_wf_def)
    next
      case ok: False
      then have "handle_mbuf ops ck q x = tx_push (mbt_mb q) x1" using r n False by (simp add: handle_mbuf_def)
      moreover have "moved [mbt_mb q] x (tx_push (mbt_mb q) x1)"
        using moved_trans [OF m1 tx_push_moved [OF moved_wf [OF m1]]] n w1(5) by simp
      ultimately show ?thesis using kept_moved [OF _ wf _ n, of "[mbt_mb q]"] by simp
    qed
  qed
qed

lemma handle_arp_tx_pkt_kept:
  assumes wf: "fast_wf x" and laws: "pool_laws ops bufs" and n: "unat (fc_tx_n x) < TXBUF_SIZE" and c: "cache_list (fc_cache x) \<noteq> []"
  shows "kept bufs {#} x (handle_arp_tx_pkt ops x)"
proof (cases "queue_head (fst (fc_txq x)) (snd (fc_txq x))")
  case None
  then show ?thesis using wf by (simp add: handle_arp_tx_pkt_def kept_frame)
next
  case (Some slot)
  obtain k i x1 where a: "cache_alloc ops 1 x = (k, i, x1)" by (metis prod.exhaust)
  obtain c' p' new L where x1: "x1 = x\<lparr>fc_cache := c', fc_pool := p'\<rparr>"
    and post: "alloc_post bufs 1 (fc_cache x, fc_pool x) (k, i, c', p') new L" using cache_alloc_post [OF wf laws a] by blast
  have P: "k \<le> 1" "k = 0 \<longrightarrow> L = []" "L = cache_list (fc_cache x) @ new" "cache_wf c'" "bufs (fc_pool x) = mset new + bufs p'"
    "cache_list c' = drop (unat k) L" "map (\<lambda>j. tx_cache_mbs c' (i + j)) [0..<unat k] = take (unat k) L"
    using post unfolding alloc_post_def prod.case by auto
  have k: "unat k = 1" using P(1,2,3) c by (metis append_is_Nil_conv le_antisym unat_1 word_le_nat_alt word_not_simps(1) unat_eq_zero less_one not_le word_gt_0)
  obtain mb rest where L0: "L = mb # rest" using P(3) c by (metis append_is_Nil_conv list.exhaust)
  have L: "L = mb # rest" "tx_cache_mbs c' i = mb" "cache_list c' = rest" using L0 P(6,7) k unfolding L0 by simp_all
  define x2 where "x2 = set_mb mb (\<lambda>m. (case qs_data (snd (fc_txq x1) slot) of D_arp_pkt a \<Rightarrow> upd_pkt (st_arp_pkt a) | _ \<Rightarrow> id)
      (m\<lparr>mb_data_off := 0, mb_data_len := 42, mb_pkt_len := 42\<rparr>)) x1"
  have e: "\<exists>q. handle_arp_tx_pkt ops x = (tx_push mb x2)\<lparr>fc_txq := q\<rparr>"
    using Some a L(2) by (auto simp: handle_arp_tx_pkt_def Let_def x2_def x1 split: prod.splits)
  have w2: "fcq_wf (fc_fcq x2)" "unat (fc_tx_n x2) < TXBUF_SIZE" using wf n by (simp_all add: x2_def x1 fast_wf_def)
  have m: "moved [mb] x1 (tx_push mb x2)" using tx_push_moved [OF w2, of mb] by (simp add: x2_def)
  have w1: "fast_wf x1" using wf P(4) by (simp add: fast_wf_def x1)
  have h: "add_mset mb (held bufs x1) = held bufs x"
  proof -
    have "add_mset mb (mset rest) = mset (cache_list (fc_cache x)) + mset new" using P(3) L(1) by (metis mset.simps(2) mset_append)
    then show ?thesis using P(5) L(3) by (simp add: held_def x1 tx_list_def ac_simps)
  qed
  have len: "length (cache_list (fc_cache x)) \<le> length (cache_list c') + 1" using L P(3) by (metis add.commute length_Cons length_append le_add1 plus_1_eq_Suc)
  have "unat (fc_tx_n x1) + length [mb] \<le> TXBUF_SIZE" using n by (simp add: x1)
  note mh = moved_held [OF m w1 this, of bufs]
  have "fc_cache (tx_push mb x2) = c'" "fc_cfq (tx_push mb x2) = fc_cfq x" "unat (fc_tx_n (tx_push mb x2)) \<le> unat (fc_tx_n x) + 1"
    using m by (auto simp: moved_def x1)
  then have "kept bufs {#} x (tx_push mb x2)" using mh h len P(4) by (auto simp: kept_def fast_wf_def)
  moreover have "kept bufs {#} x (y\<lparr>fc_txq := q\<rparr>) = kept bufs {#} x y" for y q by (simp add: kept_def held_def tx_list_def)
  ultimately show ?thesis using e by auto
qed

lemma ctl_dispatch_kept:
  assumes wf: "fast_wf x" and laws: "pool_laws ops bufs" and n: "unat (fc_tx_n x) < TXBUF_SIZE" and c: "cache_list (fc_cache x) \<noteq> []"
    and d: "ctl_dispatch ops ck bud ty d x = Some x'"
  shows "kept bufs (slot_given \<lparr>qs_type = ty, qs_data = d\<rparr>) x x'"
proof -
  have self: "kept bufs {#} x x" using wf by (rule kept_frame) simp_all
  have f: "kept bufs {#} x (handle_new_guest b r1 x)" "kept bufs {#} x (handle_new_map r2 x)" "kept bufs {#} x (handle_new_queue r3 x)"
    "kept bufs {#} x (handle_enableq r4 x)" "kept bufs {#} x (handle_disableq r5 x)" "kept bufs {#} x (handle_upload_ebpf r6 x)"
    "kept bufs {#} x (handle_arp_update r7 x)" for b r1 r2 r3 r4 r5 r6 r7
    by (rule kept_frame [OF wf]; simp add: handle_new_guest_def handle_new_map_def handle_new_queue_def handle_enableq_def
          handle_disableq_def handle_upload_ebpf_def handle_arp_update_def)+
  show ?thesis
  proof (cases "ty = QUEUE_MBUF_TX")
    case True
    then show ?thesis using d self handle_mbuf_kept [OF wf laws n] by (auto simp: ctl_dispatch_def slot_given_def split: qdata.splits)
  next
    case False
    then have "slot_given \<lparr>qs_type = ty, qs_data = d\<rparr> = {#}" by (simp add: slot_given_def)
    then show ?thesis using False d self f handle_arp_tx_pkt_kept [OF wf laws n c]
      by (auto simp: ctl_dispatch_def split: if_splits qdata.splits)
  qed
qed

lemma ctl_loop_conserves:
  assumes laws: "pool_laws ops bufs"
  shows "fast_wf x \<Longrightarrow> unat (fc_tx_n x) + n \<le> TXBUF_SIZE \<Longrightarrow> n \<le> length (cache_list (fc_cache x)) \<Longrightarrow>
    fast_wf (ctl_loop ops ck bud n x) \<and> held bufs (ctl_loop ops ck bud n x) = held bufs x"
proof (induction n arbitrary: x)
  case (Suc n)
  show ?case
  proof (cases "queue_head (fst (fc_cfq x)) (snd (fc_cfq x))")
    case None
    then show ?thesis using Suc.prems by simp
  next
    case (Some slot)
    define e where "e = snd (fc_cfq x) slot"
    have loop: "ctl_loop ops ck bud (Suc n) x = ctl_loop ops ck bud n (case ctl_dispatch ops ck bud (qs_type e) (qs_data e) x of None \<Rightarrow> x
        | Some x1 \<Rightarrow> (case queue_dequeue (fst (fc_cfq x1)) (snd (fc_cfq x1)) of (r, q, m) \<Rightarrow> x1\<lparr>fc_cfq := (q, m)\<rparr>))"
      using Some by (simp add: e_def Let_def)
    have pre: "unat (fc_tx_n x) < TXBUF_SIZE" "cache_list (fc_cache x) \<noteq> []" using Suc.prems by (auto simp del: cache_length)
    show ?thesis
    proof (cases "ctl_dispatch ops ck bud (qs_type e) (qs_data e) x")
      case None
      then show ?thesis unfolding loop using Suc.IH [OF Suc.prems(1)] Suc.prems by simp
    next
      case (Some x1)
      note k = ctl_dispatch_kept [OF Suc.prems(1) laws pre Some]
      obtain r q m where q: "queue_dequeue (fst (fc_cfq x1)) (snd (fc_cfq x1)) = (r, q, m)" by (metis prod.exhaust)
      define x2 where "x2 = x1\<lparr>fc_cfq := (q, m)\<rparr>"
      have c1: "fc_cfq x1 = fc_cfq x" using k by (simp add: kept_def)
      have "cfq_wf (fc_cfq x)" using Suc.prems(1) by (simp add: fast_wf_def)
      from queue_dequeue_given [OF this] \<open>queue_head (fst (fc_cfq x)) (snd (fc_cfq x)) = Some slot\<close> q
      have g: "cfq_wf (q, m)" "given_mbufs (fc_cfq x) = given_mbufs (q, m) + slot_given e" by (auto simp: c1 e_def)
      have h1: "held bufs x1 = held bufs x + slot_given e" using k by (simp add: kept_def slot_given_def)
      have w2: "fast_wf x2" using k g(1) Suc.prems(2) by (auto simp: fast_wf_def x2_def kept_def)
      have "held bufs x1 = held bufs x2 + slot_given e" using g(2) c1 by (simp add: held_def x2_def tx_list_def ac_simps)
      then have h2: "held bufs x2 = held bufs x" using h1 by simp
      have "unat (fc_tx_n x2) + n \<le> TXBUF_SIZE" "n \<le> length (cache_list (fc_cache x2))"
        using k Suc.prems(2,3) by (auto simp: kept_def x2_def)
      from Suc.IH [OF w2 this] h2 show ?thesis unfolding loop Some by (simp add: q x2_def [symmetric])
    qed
  qed
qed simp

lemma controlif_poll_conserves:
  assumes "pool_laws ops bufs" and "fast_wf x" and "FAST_CTL_BATCH_SIZE \<le> length (cache_list (fc_cache x))"
  shows "fast_wf (snd (controlif_poll ops ck bud x)) \<and> held bufs (snd (controlif_poll ops ck bud x)) = held bufs x"
  unfolding controlif_poll_def snd_conv
  by (rule ctl_loop_conserves [OF assms(1,2)]) (use assms in \<open>auto simp: fast_wf_def simp del: cache_length\<close>)

section \<open>A round of the loop\<close>

text \<open>What the environment answers is what DPDK documents: at most as many packets as asked for.\<close>

definition io_ok :: "round_io \<Rightarrow> bool" where
  "io_ok io \<longleftrightarrow> (\<forall>n. length (io_rx io n) \<le> n) \<and> (\<forall>i. nic_ok (io_nic io i))"

text \<open>The packets received in a round.\<close>

definition rx_batch :: "round_io \<Rightarrow> ('p, 's, 'd) fast_context \<Rightarrow> mbuf list" where
  "rx_batch io x = io_rx io (min FAST_RX_BATCH_SIZE (TXBUF_SIZE - unat (fc_tx_n x)))"

lemma fast_polls_conserve:
  assumes wf: "fast_wf x" and laws: "pool_laws ops bufs" and io: "io_ok io" and dr: "sched_drains h \<mu>"
    and ok: "\<And>r x3. fast_polls ops h ck io x = Some (r, x3) \<Longrightarrow> 0 \<le> r"
  shows "\<exists>r x3. fast_polls ops h ck io x = Some (r, x3) \<and> fast_wf x3 \<and> held bufs x3 = held bufs x + mset (rx_batch io x)"
proof -
  obtain q x1 where r1: "fast_rx_poll ops h ck (io_rx_cyc io) (io_old io) (io_rx io) (io_nic io 0) x = (q, x1)" by fastforce
  obtain r x2 where r2: "fast_queues_poll ops h ck (io_q_cyc io) (io_nic io 1) x1 = (r, x2)" by fastforce
  have nic: "nic_ok (io_nic io i)" and got: "length (io_rx io n) \<le> n" for i n using io by (auto simp: io_ok_def)
  have h1: "fast_wf x1" "held bufs x1 = held bufs x + mset (rx_batch io x)"
    using fast_rx_poll_conserves [OF wf laws nic got r1] by (simp_all add: rx_batch_def)
  have eq: "fast_polls ops h ck io x = map_option (\<lambda>(_, x3). (r, x3)) (fast_sched_poll ops h ck (io_s_cyc io) (io_nic io 2) x2)"
    using r1 r2 by (simp add: fast_polls_def)
  have w2: "fast_wf x2" using fast_queues_poll_conserves [OF h1(1) laws nic r2] fast_queues_poll_fails [OF h1(1) laws r2] by (cases "0 \<le> r") auto
  from fast_sched_poll_conserves [OF w2 laws nic dr] obtain s x3
    where r3: "fast_sched_poll ops h ck (io_s_cyc io) (io_nic io 2) x2 = Some (s, x3)" "fast_wf x3" "held bufs x3 = held bufs x2" by blast
  then have res: "fast_polls ops h ck io x = Some (r, x3)" using eq by simp
  then have "held bufs x2 = held bufs x1" using ok fast_queues_poll_conserves [OF h1(1) laws nic r2] by blast
  then show ?thesis using res r3 h1(2) by simp
qed


definition demo_pool :: "mbuf list pool_ops" where
  "demo_pool = \<lparr>po_bulk = (\<lambda>p n. if n \<le> length p then (Some (take n p), drop n p) else (None, p)), po_free = (#)\<rparr>"

definition demo_handlers :: "(unit, unit) handlers" where
  "demo_handlers = \<lparr>hd_vm = (\<lambda>ev vm e pkt. (-1, -1, e, pkt)), hd_hand = (\<lambda>ev ty e pkt. (-1, e, pkt))\<rparr>"

definition demo_mbuf :: rte_mbuf where
  "demo_mbuf = \<lparr>mb_data_off = 128, mb_pkt_len = 60, mb_data_len = 60, mb_l2_len = 0, mb_l3_len = 0, mb_l4_len = 0,
     mb_outer_l2_len = 0, mb_outer_l3_len = 0, mb_ol_flags = 0, mb_buf = \<lambda>_. 0\<rparr>"

definition demo_ectx :: "(unit, unit) cham_ebpf_ctx" where
  "demo_ectx = \<lparr>ec_pkt = (0, 0), ec_room = 0, ec_shm_base = 0, ec_shm_end = 0,
     ec_sched = \<lparr>sc_entries = \<lambda>_. \<lparr>se_id = 0, se_next = 0, se_priority = 0, se_avail = 0, se_opaque = 0\<rparr>, sc_vtime = 0, sc_head = -1, sc_tail = -1\<rparr>,
     ec_qid = 0, ec_qe = 0, ec_ncores = 1, ec_core = 0,
     ec_equeues = (\<lambda>_. (0, \<lparr>eq_tail = 0, eq_nelems = 4, eq_elsize = 64, eq_off = 0, eq_entries = 0\<rparr>)), ec_nmaps = 0,
     ec_maps = (\<lambda>_. \<lparr>cm_id = 0, cm_nelems = 0, cm_elsize = 0, cm_size = 0, cm_off = 0, cm_addr = 0\<rparr>),
     ec_rings = (\<lambda>_ _. \<lparr>qs_type = 0, qs_data = ()\<rparr>), ec_shm = ()\<rparr>"

definition demo_guest :: "(unit, unit) guest_fast" where
  "demo_guest = \<lparr>gf_id = 0, gf_ip = 1, gf_gre_key = 0, gf_budget = 0,
     gf_proto = \<lparr>pf_type = 1, ndqueues = 0, dqueues_head = 0xffff, dqueues_tail = 0xffff,
       dqueues = (\<lambda>i. \<lparr>cd_id = i, cd_dq = \<lparr>dq_head = 0, dq_nelems = 4, dq_elsize = 64, dq_off = 0, dq_entries = 0\<rparr>, cd_next = 0xffff, cd_prev = 0xffff\<rparr>),
       pf_ectx = demo_ectx, has_event_rx = 1, has_event_sched = 1, has_event_deq = 1, event_rx_vm = 0, event_sched_vm = 0, event_deq_vm = 0\<rparr>,
     gf_shm_base = 0, gf_shm_len = 0\<rparr>"

text \<open>A core with forty buffers in its cache and no guest registered yet.\<close>

definition demo_core :: "(mbuf list, unit, unit) fast_context" where
  "demo_core = \<lparr>fc_id = 0, fc_eth_addr = replicate 6 1, fc_ip = 1, fc_cores_max = 1, fc_jit_combined = False, fc_mode = FP_PROTO_HAND,
     fc_virt_gre = False, fc_perf_iso = False, fc_n_guests = 0, fc_next_sched_guest = 0, fc_next_queues_guest = 0, fc_guests = (\<lambda>_. demo_guest),
     fc_tx_n = 0, fc_tx_mbs = (\<lambda>_. 0), fc_cache = \<lparr>tx_cache_n = 40, tx_cache_head = 0, tx_cache_mbs = of_nat\<rparr>,
     fc_fcq = (\<lparr>eq_tail = 0, eq_nelems = 4, eq_elsize = 64, eq_off = 0, eq_entries = 0\<rparr>, \<lambda>_. \<lparr>qs_type = 0, qs_data = D_raw\<rparr>),
     fc_cfq = (\<lparr>dq_head = 0, dq_nelems = 4, dq_elsize = 64, dq_off = 0, dq_entries = 0\<rparr>, \<lambda>_. \<lparr>qs_type = 0, qs_data = D_raw\<rparr>),
     fc_txq = (\<lparr>dq_head = 0, dq_nelems = 4, dq_elsize = 64, dq_off = 0, dq_entries = 0\<rparr>, \<lambda>_. \<lparr>qs_type = 0, qs_data = D_raw\<rparr>),
     fc_arp = arp_table_init \<lparr>buckets = \<lambda>_. \<lparr>ae_ip = 0, ae_pending = 0, ae_mac = [], ae_te = None\<rparr>\<rparr>,
     fc_inner = netvirt_table_init (\<lambda>_. \<lparr>ne_keya = 0, ne_keyb = 0, ne_gid = 0, ne_gre_key = 0, ne_inner_ip = 0, ne_outer_ip = 0\<rparr>),
     fc_agg = (0, 0, 0), fc_pool = [], fc_mem = (\<lambda>_. demo_mbuf), fc_sent = []\<rparr>"

text \<open>One packet arrives.\<close>

definition demo_io :: round_io where
  "demo_io = \<lparr>io_rx = (\<lambda>n. if n = 0 then [] else [1000]), io_old = (\<lambda>_. (0, 0)), io_rx_cyc = (\<lambda>_. 0), io_q_cyc = (\<lambda>_. 0), io_s_cyc = (\<lambda>_. 0),
     io_bud = (\<lambda>_. 0), io_nic = (\<lambda>_. int)\<rparr>"

lemma demo_core_wf: "fast_wf demo_core"
proof -
  have "on_slot 64 4 0" unfolding on_slot_def by (rule conjI, simp add: ring_geom_def, rule exI [of _ 0]) (simp add: slot_pos_def)
  then show ?thesis by (simp add: fast_wf_def demo_core_def cache_wf_def fcq_wf_def cfq_wf_def)
qed

lemma demo_laws: "pool_laws demo_pool mset" "io_ok demo_io" "sched_drains demo_handlers (\<lambda>_. 0)"
  by (simp_all add: pool_laws_def demo_pool_def io_ok_def demo_io_def nic_ok_def sched_drains_def demo_handlers_def
      mset_append [symmetric] del: mset_append)

lemma demo_polls: "\<exists>x3. fast_polls demo_pool demo_handlers ck demo_io demo_core = Some (0, x3) \<and> length (cache_list (fc_cache x3)) = 41"
  by (simp add: fast_polls_def fast_rx_poll_def fast_queues_poll_def fast_sched_poll_def demo_io_def demo_core_def infra_rx_def
      process_rx_ip_def rx_poll_guest_def run_event_def demo_handlers_def demo_guest_def demo_ectx_def demo_mbuf_def pktmbuf_mtod_def ld16_def
      f_beui16_def bswap16_def fast_ebpf_ctx_set_pkt_def set_guest_def set_mb_def upd_ectx_def upd_proto_def cache_free_def txcache_free_def
      fast_txflush_def Let_def)


end
