(* ===== verification/Fast_Turns.thy ===== *)
theory Fast_Turns
  imports Fast_Props
begin

text \<open>
  The list of enabled queues of a guest: enabling a queue appends it, a poll moves the queues it has visited to the end. So a
  queue is never skipped for another one, however full that is.
\<close>

section \<open>The list\<close>

fun queues_linked :: "(u16 \<Rightarrow> u16) \<Rightarrow> u16 list \<Rightarrow> bool" where
  "queues_linked nx [] = True"
| "queues_linked nx [q] = (nx q = PROTOQ_ID_INVALID)"
| "queues_linked nx (q # r # qs) = (nx q = r \<and> queues_linked nx (r # qs))"

lemma queues_linked_other [simp]: "q \<notin> set qs \<Longrightarrow> queues_linked (nx(q := v)) qs = queues_linked nx qs"
  by (induction nx qs rule: queues_linked.induct) auto

lemma queues_linked_snoc: "queues_linked nx qs \<Longrightarrow> qs \<noteq> [] \<Longrightarrow> distinct (qs @ [r]) \<Longrightarrow> nx r = PROTOQ_ID_INVALID \<Longrightarrow> queues_linked (nx(last qs := r)) (qs @ [r])"
  by (induction nx qs rule: queues_linked.induct) (auto split: if_splits)

lemma queues_linked_tl: "queues_linked nx (q # qs) \<Longrightarrow> queues_linked nx qs"
  by (cases qs) auto

text \<open>The fields the list is made of.\<close>

definition dq_links :: "('s, 'd) proto_fast \<Rightarrow> u16 \<times> u16 \<times> u16 \<times> (u16 \<Rightarrow> u16) \<times> (u16 \<Rightarrow> u16)" where
  "dq_links p = (ndqueues p, dqueues_head p, dqueues_tail p, \<lambda>i. cd_id (dqueues p i), \<lambda>i. cd_next (dqueues p i))"

definition dq_chain :: "('s, 'd) proto_fast \<Rightarrow> u16 list \<Rightarrow> bool" where
  "dq_chain p qs \<longleftrightarrow> distinct qs \<and> PROTOQ_ID_INVALID \<notin> set qs \<and> (case dq_links p of (n, hd', tl', ids, nx) \<Rightarrow>
     length qs = unat n \<and> (\<forall>q \<in> set qs. ids q = q) \<and> queues_linked nx qs \<and>
     (if qs = [] then hd' = PROTOQ_ID_INVALID \<and> tl' = PROTOQ_ID_INVALID else hd' = hd qs \<and> tl' = last qs))"

lemma dq_chain_links: "dq_links p' = dq_links p \<Longrightarrow> dq_chain p' qs = dq_chain p qs"
  by (simp add: dq_chain_def)

lemma next_upd: "(\<lambda>i. cd_next (dqueues (upd_dq j f p) i)) = (\<lambda>i. cd_next (dqueues p i))(j := cd_next (f (dqueues p j)))"
  by (auto simp: upd_dq_def)

lemma id_upd: "(\<lambda>i. cd_id (dqueues (upd_dq j f p) i)) = (\<lambda>i. cd_id (dqueues p i))(j := cd_id (f (dqueues p j)))"
  by (auto simp: upd_dq_def)

lemma upd_dq_frame [simp]:
  "ndqueues (upd_dq j f p) = ndqueues p" "dqueues_head (upd_dq j f p) = dqueues_head p" "dqueues_tail (upd_dq j f p) = dqueues_tail p"
  by (simp_all add: upd_dq_def)

text \<open>Enabling a queue that is not enabled appends it.\<close>

lemma dqueue_link_appends:
  assumes c: "dq_chain p qs" and q: "q \<notin> set qs" "q \<noteq> PROTOQ_ID_INVALID" and n: "length qs < 65535"
  shows "dq_chain (dqueue_link q dq p) (qs @ [q])"
proof -
  let ?nx = "\<lambda>i. cd_next (dqueues p i)" and ?id = "\<lambda>i. cd_id (dqueues p i)"
  have C: "distinct qs" "PROTOQ_ID_INVALID \<notin> set qs" "length qs = unat (ndqueues p)" "\<forall>q \<in> set qs. ?id q = q" "queues_linked ?nx qs"
    "if qs = [] then dqueues_head p = PROTOQ_ID_INVALID \<and> dqueues_tail p = PROTOQ_ID_INVALID else dqueues_head p = hd qs \<and> dqueues_tail p = last qs"
    using c by (simp_all add: dq_chain_def dq_links_def)
  have cnt: "unat (ndqueues p + 1) = unat (ndqueues p) + 1" using C(3) n by (intro unat_add_small_iff) simp_all
  show ?thesis
  proof (cases "qs = []")
    case True
    then have "dqueues_tail p = PROTOQ_ID_INVALID" using C(6) by simp
    then have "dq_links (dqueue_link q dq p) = (ndqueues p + 1, q, q, ?id(q := q), ?nx(q := PROTOQ_ID_INVALID))"
      by (auto simp: dq_links_def dqueue_link_def Let_def upd_dq_def)
    then show ?thesis using True q C(3) cnt by (simp add: dq_chain_def)
  next
    case False
    then have t: "dqueues_tail p = last qs" "last qs \<noteq> PROTOQ_ID_INVALID" "last qs \<noteq> q" using C(2,6) q by (auto dest: last_in_set)
    have l: "dq_links (dqueue_link q dq p) = (ndqueues p + 1, hd qs, q, ?id(q := q), (?nx(q := PROTOQ_ID_INVALID))(last qs := q))"
      using t C(6) False by (auto simp: dq_links_def dqueue_link_def Let_def upd_dq_def)
    have "queues_linked ((?nx(q := PROTOQ_ID_INVALID))(last qs := q)) (qs @ [q])"
      using C(1,5) q False by (intro queues_linked_snoc) simp_all
    then show ?thesis unfolding dq_chain_def l using False q C(1-4) cnt by auto
  qed
qed

text \<open>Visiting the queue at the head moves it to the end.\<close>

lemma dqueue_rotate:
  assumes c: "dq_chain p (q # qs)"
  shows "dq_chain (dqueue_rotate_head q p) (qs @ [q])"
proof -
  let ?nx = "\<lambda>i. cd_next (dqueues p i)" and ?id = "\<lambda>i. cd_id (dqueues p i)"
  have C: "distinct (q # qs)" "PROTOQ_ID_INVALID \<notin> set (q # qs)" "length (q # qs) = unat (ndqueues p)" "\<forall>r \<in> set (q # qs). ?id r = r" "queues_linked ?nx (q # qs)"
    "dqueues_head p = q" "dqueues_tail p = last (q # qs)"
    using c by (simp_all add: dq_chain_def dq_links_def)
  have id: "cd_id (dqueues p q) = q" using C(4) by simp
  show ?thesis
  proof (cases qs)
    case Nil
    then have "ndqueues p = 1" using C(3) by (metis length_Cons list.size(3) One_nat_def unat_1 unsigned_word_eqI)
    then have "dq_links (dqueue_rotate_head q p) = (ndqueues p, q, q, ?id, ?nx(q := PROTOQ_ID_INVALID))"
      using C(7) Nil id by (auto simp: dq_links_def dqueue_rotate_head_def Let_def upd_dq_def)
    then show ?thesis using Nil C by (simp add: dq_chain_def)
  next
    case (Cons r rs)
    then have n: "ndqueues p \<noteq> 1" using C(3) by (metis One_nat_def Suc_inject length_Cons list.distinct(1) length_0_conv unat_1)
    have t: "dqueues_tail p = last qs" "last qs \<in> set qs" using C(7) Cons by auto
    then have ne: "last qs \<noteq> q" using C(1) by auto
    have l: "dq_links (dqueue_rotate_head q p) = (ndqueues p, r, q, ?id, (?nx(q := PROTOQ_ID_INVALID))(last qs := q))"
      using n t ne id C(5) Cons by (auto simp: dq_links_def dqueue_rotate_head_def Let_def upd_dq_def)
    have "queues_linked ((?nx(q := PROTOQ_ID_INVALID))(last qs := q)) (qs @ [q])"
      using C(1) queues_linked_tl [OF C(5)] Cons by (intro queues_linked_snoc) auto
    then show ?thesis unfolding dq_chain_def l using Cons C(1-4) by auto
  qed
qed

section \<open>Polling\<close>

lemma run_event_guests: "dq_links (gf_proto (fc_guests (snd (snd (run_event h ev g x))) g')) = dq_links (gf_proto (fc_guests x g'))"
  by (simp add: run_event_def Let_def dq_links_def set_guest_def upd_ectx_def upd_proto_def split: fp_proto_mode.split prod.split)

lemma set_pkt_links:
  "dq_links (gf_proto (fc_guests (fast_ebpf_ctx_set_pkt_l2 mb g x) g')) = dq_links (gf_proto (fc_guests x g'))"
  "dq_links (gf_proto (fc_guests (set_guest g (upd_ectx f) x) g')) = dq_links (gf_proto (fc_guests x g'))"
  by (simp_all add: fast_ebpf_ctx_set_pkt_l2_def fast_ebpf_ctx_set_pkt_def dq_links_def set_guest_def upd_ectx_def upd_proto_def)

lemma dequeue_links:
  assumes "queues_poll_guest_dequeue h ck g i slot mb x = (r, used, x')"
  shows "dq_links (gf_proto (fc_guests x' g')) = dq_links (gf_proto (fc_guests x g'))"
proof -
  define x1 where "x1 = fast_ebpf_ctx_set_pkt_l2 mb g (set_mb mb (mb_data_off_update (\<lambda>_. 0)) x)"
  define x2 where "x2 = set_guest g (upd_ectx (\<lambda>e. e\<lparr>ec_qe := slot, ec_qid := cd_id (dqueues (gf_proto (fc_guests x1 g)) i)\<rparr>)) x1"
  obtain er dr x3 where e: "run_event h Ev_deq g x2 = (er, dr, x3)" by (metis prod.exhaust)
  have l: "dq_links (gf_proto (fc_guests x3 g')) = dq_links (gf_proto (fc_guests x g'))"
    using run_event_guests [of h Ev_deq g x2 g'] e by (simp add: x2_def x1_def set_pkt_links)
  have s: "fc_guests y = fc_guests x3" if "send_result ck g mb dr x3 = (u, y)" for u y using send_result_guests [OF that] .
  show ?thesis using assms l s unfolding queues_poll_guest_dequeue_def Let_def x1_def [symmetric] x2_def [symmetric] e
    by (auto split: if_splits)
qed

lemma drain_queue_links:
  "drain_queue h ck g i base mx ntx n x = (r, ntx', n', x') \<Longrightarrow> dq_links (gf_proto (fc_guests x' g')) = dq_links (gf_proto (fc_guests x g'))"
proof (induction h ck g i base mx ntx n x arbitrary: r ntx' n' x' rule: drain_queue.induct)
  case (1 h ck g i base mx ntx n x)
  let ?p = "gf_proto (fc_guests x g)"
  show ?case
  proof (cases "n < mx \<and> queue_head (cd_dq (dqueues ?p i)) (ec_rings (pf_ectx ?p) i) \<noteq> None")
    case False
    then show ?thesis using "1.prems" by (subst (asm) drain_queue.simps) (auto simp: Let_def split: if_splits)
  next
    case True
    then obtain slot where n: "n < mx" and slot: "queue_head (cd_dq (dqueues ?p i)) (ec_rings (pf_ectx ?p) i) = Some slot" by auto
    obtain r1 used x1 where d: "queues_poll_guest_dequeue h ck g i slot (mbs_at base ntx x) x = (r1, used, x1)" by (metis prod.exhaust)
    define ntx1 where "ntx1 = (if used then ntx + 1 else ntx)"
    note l1 = dequeue_links [OF d, of g']
    let ?p1 = "gf_proto (fc_guests x1 g)"
    obtain r2 q m where q: "queue_dequeue (cd_dq (dqueues ?p1 i)) (ec_rings (pf_ectx ?p1) i) = (r2, q, m)" by (metis prod.exhaust)
    define x2 where "x2 = set_guest g (\<lambda>s. upd_ectx (\<lambda>e. e\<lparr>ec_rings := (ec_rings e)(i := m)\<rparr>) (upd_proto (upd_dq i (\<lambda>c. c\<lparr>cd_dq := q\<rparr>)) s)) x1"
    have l2: "dq_links (gf_proto (fc_guests x2 g')) = dq_links (gf_proto (fc_guests x1 g'))"
      by (auto simp: x2_def dq_links_def set_guest_def upd_ectx_def upd_proto_def upd_dq_def fun_eq_iff)
    have res: "(if r1 < 0 then (-1, ntx1, n + 1, x1) else if r2 < 0 then (-1, ntx1, n + 1, x2) else drain_queue h ck g i base mx ntx1 (n + 1) x2) = (r, ntx', n', x')"
      using "1.prems" n slot d q unfolding ntx1_def x2_def
      by (subst (asm) drain_queue.simps) (cases "r1 < 0"; simp add: Let_def split del: if_split)
    show ?thesis
    proof (cases "r1 < 0 \<or> r2 < 0")
      case True
      then show ?thesis using res l1 l2 by (auto split: if_splits)
    next
      case False
      have "dq_links (gf_proto (fc_guests x' g')) = dq_links (gf_proto (fc_guests x2 g'))"
        using "1.IH" [OF n refl slot d [symmetric] _ ntx1_def _ _ q [symmetric] _ x2_def] res False by auto
      then show ?thesis using l1 l2 by simp
    qed
  qed
qed

lemma poll_dqueues_turns:
  "dq_chain (gf_proto (fc_guests x g)) qs \<Longrightarrow> j \<le> length qs \<Longrightarrow> poll_dqueues j h ck g base mx ntx n x = (r, ntx', n', x') \<Longrightarrow> 0 \<le> r \<Longrightarrow>
     \<exists>k \<le> j. dq_chain (gf_proto (fc_guests x' g)) (rotate k qs) \<and> (n' < mx \<longrightarrow> k = j) \<and> (0 < j \<and> n < mx \<longrightarrow> 0 < k)"
proof (induction j arbitrary: ntx n x qs)
  case 0
  then show ?case by auto
next
  case (Suc j)
  show ?case
  proof (cases "n < mx")
    case True
    obtain q rest where qs: "qs = q # rest" using Suc.prems(2) by (cases qs) auto
    have hd: "dqueues_head (gf_proto (fc_guests x g)) = q" using Suc.prems(1) by (simp add: qs dq_chain_def dq_links_def)
    obtain r1 a m y where d: "drain_queue h ck g q base mx ntx n x = (r1, a, m, y)" by (metis prod.exhaust)
    have r1: "\<not> r1 < 0" using Suc.prems(3,4) True hd d by (auto simp: Let_def)
    define y' where "y' = set_guest g (upd_proto (dqueue_rotate_head q)) y"
    have "dq_chain (gf_proto (fc_guests y g)) (q # rest)" using dq_chain_links [OF drain_queue_links [OF d]] Suc.prems(1) by (simp add: qs)
    then have c: "dq_chain (gf_proto (fc_guests y' g)) (rest @ [q])" using dqueue_rotate by (simp add: y'_def set_guest_def upd_proto_def)
    have "poll_dqueues j h ck g base mx a m y' = (r, ntx', n', x')" using Suc.prems(3) True hd d r1 by (simp add: Let_def y'_def)
    from Suc.IH [OF c _ this Suc.prems(4)] Suc.prems(2)
    obtain k where k: "k \<le> j" "dq_chain (gf_proto (fc_guests x' g)) (rotate k (rest @ [q]))" "n' < mx \<longrightarrow> k = j" by (auto simp: qs)
    have "rotate k (rest @ [q]) = rotate (Suc k) qs" by (simp add: qs rotate1_rotate_swap)
    then show ?thesis using k by (intro exI [of _ "Suc k"]) auto
  next
    case False
    then show ?thesis using Suc.prems by (intro exI [of _ 0]) auto
  qed
qed


text \<open>Two queues are enabled, the first has an entry, and the batch has room for one.\<close>

definition turn_handlers :: "(unit, unit) handlers" where
  "turn_handlers = demo_handlers\<lparr>hd_hand := (\<lambda>ev ty e pkt. (0, e, pkt))\<rparr>"

definition turn_proto :: "(unit, unit) proto_fast" where
  "turn_proto =
     (let d = \<lparr>dq_head = 0, dq_nelems = 4, dq_elsize = 64, dq_off = 0, dq_entries = 0\<rparr>
      in dqueue_link 2 d (dqueue_link 1 d ((gf_proto demo_guest)\<lparr>pf_ectx := demo_ectx
           \<lparr>ec_rings := (\<lambda>i p. \<lparr>qs_type = (if i = 1 \<and> p = 0 then 30 else 0), qs_data = ()\<rparr>)\<rparr>\<rparr>)))"

definition turn_core :: "(mbuf list, unit, unit) fast_context" where
  "turn_core = demo_core\<lparr>fc_n_guests := 1, fc_guests := (\<lambda>_. demo_guest\<lparr>gf_proto := turn_proto\<rparr>)\<rparr>"

lemma turn_chain: "dq_chain turn_proto [1, 2]"
proof -
  have "dq_chain ((gf_proto demo_guest)\<lparr>pf_ectx := e\<rparr>) []" for e by (simp add: dq_chain_def dq_links_def demo_guest_def)
  from dqueue_link_appends [OF dqueue_link_appends [OF this, of 1], of 2] show ?thesis by (simp add: turn_proto_def Let_def)
qed

lemma turn_poll: "fst (queues_poll_guest turn_handlers (\<lambda>_ _. 0) 0 0 0 1 0 0 turn_core) = 0"
proof -
  note defs = turn_core_def turn_proto_def demo_core_def demo_guest_def demo_ectx_def turn_handlers_def demo_handlers_def
    dqueue_link_def upd_dq_def Let_def set_guest_def set_mb_def upd_ectx_def upd_proto_def
  have d: "\<exists>y. drain_queue turn_handlers (\<lambda>_ _. 0) 0 1 0 1 0 0 turn_core = (0, 0, 1, y)"
    by (simp add: drain_queue.simps queue_head_def queue_dequeue_def queues_poll_guest_dequeue_def run_event_def
        fast_ebpf_ctx_set_pkt_l2_def fast_ebpf_ctx_set_pkt_def defs)
  have s: "unat (ndqueues (gf_proto (fc_guests turn_core 0))) = Suc (Suc 0)" "dqueues_head (gf_proto (fc_guests turn_core 0)) = 1" "\<not> fc_perf_iso turn_core"
    by (simp_all add: defs)
  show ?thesis using d by (auto simp: queues_poll_guest_def Let_def s)
qed


section \<open>Disabling\<close>

text \<open>Disabling the middle one of three queues cuts the list: the third one is not reached any more.\<close>

lemma dqueue_unlink_cuts:
  fixes p :: "('s, 'd) proto_fast" and d1 d2 d3 :: dqueue
  assumes "dqueues_head p = PROTOQ_ID_INVALID" "dqueues_tail p = PROTOQ_ID_INVALID" "ndqueues p = 0"
  defines "p' \<equiv> dqueue_unlink 2 (dqueue_link 3 d3 (dqueue_link 2 d2 (dqueue_link 1 d1 p)))"
  shows "ndqueues p' = 2 \<and> dqueues_head p' = 1 \<and> cd_next (dqueues p' 1) = PROTOQ_ID_INVALID \<and> dqueues_tail p' = 3"
  using assms(1-3) unfolding p'_def by (simp add: dqueue_unlink_def dqueue_link_def Let_def upd_dq_def)

end
