(* ===== verification/Fast_Gre.thy ===== *)
theory Fast_Gre
  imports Fast_Props
begin

unbundle bit_operations_syntax

text \<open>
  The GRE encapsulation of the infrastructure protocols: a packet that one host's core encapsulates is given, unchanged but
  for its checksums, to the guest of the other host's table that has the sender's GRE key and the packet's destination.
\<close>

lemma st_mac_other [field_simps_chm]: "i < o' \<or> o' + 6 \<le> i \<Longrightarrow> st_mac o' m p i = p i"
  by (auto simp: st_mac_def)

lemma ld_st_mac [field_simps_chm]:
  "i + 2 \<le> o' \<or> o' + 6 \<le> i \<Longrightarrow> ld16 (st_mac o' m p) i = ld16 p i"
  "i + 4 \<le> o' \<or> o' + 6 \<le> i \<Longrightarrow> ld32 (st_mac o' m p) i = ld32 p i"
  by (auto simp: ld16_def ld32_def st_mac_def)

lemma mtod_meta [simp]:
  "pktmbuf_mtod (m\<lparr>mb_ol_flags := f\<rparr>) = pktmbuf_mtod m" "pktmbuf_mtod (process_tx_mbuf_gre len m) = pktmbuf_mtod m"
  by (simp_all add: pktmbuf_mtod_def process_tx_mbuf_gre_def Let_def)

text \<open>The checksum fields of an encapsulated packet.\<close>

definition cksum_bytes :: "bytes \<Rightarrow> nat set" where
  "cksum_bytes p = {GRE_INNER + 10, GRE_INNER + 11} \<union>
     (if p (GRE_INNER + 9) = IP_PROTO_TCP then {GRE_INNER + 36, GRE_INNER + 37}
      else if p (GRE_INNER + 9) = IP_PROTO_UDP then {GRE_INNER + 26, GRE_INNER + 27} else {})"

lemma chksum_gre_bytes:
  assumes "i \<notin> cksum_bytes (pktmbuf_mtod m)" "i \<notin> {24, 25}"
  shows "pktmbuf_mtod (process_tx_chksum_gre ck m) i = pktmbuf_mtod m i"
  using assms by (auto simp: process_tx_chksum_gre_def Let_def cksum_bytes_def st16_def split: if_splits)

lemma ld_cong:
  "(\<And>j. i \<le> j \<Longrightarrow> j < i + 2 \<Longrightarrow> p j = q j) \<Longrightarrow> ld16 p i = ld16 q i"
  "(\<And>j. i \<le> j \<Longrightarrow> j < i + 4 \<Longrightarrow> p j = q j) \<Longrightarrow> ld32 p i = ld32 q i"
  by (simp_all add: ld16_def ld32_def)

lemma hdrs_gre_fields:
  fixes p :: bytes and own key outer :: u32 and len :: csize and dst src :: mac
  defines "q \<equiv> process_tx_hdrs_gre own key outer len (tx_eth dst src p)"
  shows "ld16 q 12 = t_beui16 ETH_TYPE_IP" "ld32 q 38 = t_beui32 key" "ld32 q 30 = t_beui32 outer" "ld32 q 26 = t_beui32 own"
    "GRE_INNER \<le> i \<Longrightarrow> q i = p i"
  by (simp_all add: q_def process_tx_hdrs_gre_def tx_eth_def field_simps_chm)

lemma process_tx_arp_ok:
  assumes "process_tx_arp g len mb ip x = (INFRA_RET_OK, x1)"
  shows "\<exists>dst. x1 = set_mb mb (upd_pkt (tx_eth dst (fc_eth_addr x))) x"
  using assms by (auto simp: process_tx_arp_def tx_pending_def Let_def split: option.splits prod.splits if_splits)

text \<open>The packet an encapsulation leaves.\<close>

lemma infra_tx_gre:
  assumes r: "infra_tx ck g mb len x = (INFRA_RET_OK, x')" and gre: "fc_virt_gre x"
  defines "p \<equiv> pktmbuf_mtod (fc_mem x mb)"
  shows "\<exists>e dst m. netvirt_table_get (fc_inner x) (gf_gre_key (fc_guests x g)) (f_beui32 (ld32 p 58)) = Some e \<and>
    pktmbuf_mtod m = process_tx_hdrs_gre (fc_ip x) (gf_gre_key (fc_guests x g)) (ne_outer_ip (fc_inner x e)) len (tx_eth dst (fc_eth_addr x) p) \<and>
    fc_mem x' mb = process_tx_chksum_gre ck m"
proof -
  obtain e where e: "netvirt_table_get (fc_inner x) (gf_gre_key (fc_guests x g)) (f_beui32 (ld32 p 58)) = Some e"
    using r gre by (auto simp: infra_tx_def Let_def p_def split: option.splits)
  obtain q x1 where a: "process_tx_arp g len mb (ne_outer_ip (fc_inner x e)) x = (q, x1)" by fastforce
  have q: "q = INFRA_RET_OK" and x': "x' = set_mb mb (process_tx_chksum_gre ck \<circ> process_tx_mbuf_gre len \<circ>
      upd_pkt (process_tx_hdrs_gre (fc_ip x) (gf_gre_key (fc_guests x g)) (ne_outer_ip (fc_inner x e)) len)) x1"
    using r gre e a by (auto simp: infra_tx_def Let_def p_def split: if_splits)
  obtain dst where x1: "x1 = set_mb mb (upd_pkt (tx_eth dst (fc_eth_addr x))) x" using process_tx_arp_ok a q by blast
  show ?thesis
    by (rule exI [of _ e], rule exI [of _ dst], rule exI, intro conjI, rule e, rule mtod_meta(2) [THEN trans])
       (simp_all add: x' x1 set_mb_def p_def)
qed

text \<open>
  C16: a packet survives the tunnel and reaches only its own network. When a core has encapsulated the packet of a guest and the
  packet arrives at a core of another host, that core looks up the GRE key of the sending guest and the inner destination in its
  own table, hands the packet to exactly the guest found there (none if there is none), at the offset behind the GRE header,
  and every byte from there on is the one the sending guest wrote, except for the checksum fields. The outer destination is
  the host the sender's table names.
\<close>

theorem infra_gre_roundtrip:
  assumes r: "infra_tx ck g mb len x = (INFRA_RET_OK, x')" and gre: "fc_virt_gre x" "fc_virt_gre y"
    and wire: "pktmbuf_mtod (fc_mem y mb') = pktmbuf_mtod (fc_mem x' mb)"
  shows "infra_rx old mb' y =
      (map_option (\<lambda>e. (ne_gid (fc_inner y e), GRE_INNER))
        (netvirt_table_get (fc_inner y) (gf_gre_key (fc_guests x g)) (f_beui32 (ld32 (pktmbuf_mtod (fc_mem x mb)) (GRE_INNER + 16)))), y) \<and>
    (\<forall>i. GRE_INNER \<le> i \<and> i \<notin> cksum_bytes (pktmbuf_mtod (fc_mem x mb)) \<longrightarrow> pktmbuf_mtod (fc_mem y mb') i = pktmbuf_mtod (fc_mem x mb) i) \<and>
    (\<exists>e. netvirt_table_get (fc_inner x) (gf_gre_key (fc_guests x g)) (f_beui32 (ld32 (pktmbuf_mtod (fc_mem x mb)) (GRE_INNER + 16))) = Some e \<and>
       f_beui32 (ld32 (pktmbuf_mtod (fc_mem y mb')) (ETH_HLEN + 16)) = ne_outer_ip (fc_inner x e))"
proof -
  define p where "p = pktmbuf_mtod (fc_mem x mb)"
  obtain e dst m where e: "netvirt_table_get (fc_inner x) (gf_gre_key (fc_guests x g)) (f_beui32 (ld32 p 58)) = Some e"
    and m: "pktmbuf_mtod m = process_tx_hdrs_gre (fc_ip x) (gf_gre_key (fc_guests x g)) (ne_outer_ip (fc_inner x e)) len (tx_eth dst (fc_eth_addr x) p)"
    and x': "fc_mem x' mb = process_tx_chksum_gre ck m" using infra_tx_gre [OF r gre(1)] unfolding p_def by blast
  define q where "q = pktmbuf_mtod m"
  have inner: "q i = p i" if "GRE_INNER \<le> i" for i using hdrs_gre_fields(5) [OF that] unfolding q_def m by blast
  then have ck: "cksum_bytes q = cksum_bytes p" by (simp add: cksum_bytes_def)
  have w: "pktmbuf_mtod (fc_mem y mb') i = q i" if "i \<notin> cksum_bytes p" "i \<notin> {24, 25}" for i
    using chksum_gre_bytes [of i m ck] that ck unfolding wire x' q_def by simp
  have out: "i \<notin> cksum_bytes p" if "i < 52 \<or> (58 \<le> i \<and> i < 62)" for i using that by (auto simp: cksum_bytes_def)
  have f: "ld16 (pktmbuf_mtod (fc_mem y mb')) 12 = ld16 q 12" "ld32 (pktmbuf_mtod (fc_mem y mb')) 38 = ld32 q 38"
    "ld32 (pktmbuf_mtod (fc_mem y mb')) 30 = ld32 q 30" "ld32 (pktmbuf_mtod (fc_mem y mb')) 58 = ld32 q 58"
    by (intro ld_cong w out; auto)+
  have "ld32 q 58 = ld32 p 58" by (intro ld_cong inner) simp
  moreover have "f_beui16 (t_beui16 ETH_TYPE_IP) \<noteq> ETH_TYPE_ARP" by (simp add: f_beui16_def t_beui16_def)
  ultimately have rx: "infra_rx old mb' y = (map_option (\<lambda>e. (ne_gid (fc_inner y e), GRE_INNER))
      (netvirt_table_get (fc_inner y) (gf_gre_key (fc_guests x g)) (f_beui32 (ld32 p 58))), y)"
    using f hdrs_gre_fields(1,2) gre(2) unfolding q_def m
    by (simp add: infra_rx_def process_rx_ip_def Let_def f_beui32_def t_beui32_def split: option.split)
  have bytes: "\<forall>i. GRE_INNER \<le> i \<and> i \<notin> cksum_bytes p \<longrightarrow> pktmbuf_mtod (fc_mem y mb') i = p i" using w inner by auto
  have "f_beui32 (ld32 (pktmbuf_mtod (fc_mem y mb')) 30) = ne_outer_ip (fc_inner x e)"
    using f(3) hdrs_gre_fields(3) unfolding q_def m by (simp add: f_beui32_def t_beui32_def)
  then show ?thesis using rx bytes e unfolding p_def by simp
qed

text \<open>A core whose tables know one destination.\<close>

definition gre_core :: "(mbuf list, unit, unit) fast_context" where
  "gre_core = demo_core\<lparr>fc_virt_gre := True, fc_guests := (\<lambda>_. demo_guest\<lparr>gf_gre_key := 7\<rparr>),
     fc_arp := \<lparr>buckets = \<lambda>_. \<lparr>ae_ip = 9, ae_pending = 0, ae_mac = replicate 6 2, ae_te = None\<rparr>\<rparr>,
     fc_inner := (\<lambda>_. \<lparr>ne_keya = 7, ne_keyb = 0, ne_gid = 3, ne_gre_key = 7, ne_inner_ip = 0, ne_outer_ip = 9\<rparr>)\<rparr>"

lemma gre_core_get: "netvirt_table_get (fc_inner gre_core) 7 0 = Some (ucast (hash_ints 7 0))"
  by (simp add: netvirt_table_get_def nv_get_loop.simps gre_core_def)

lemma gre_core_dst: "f_beui32 (ld32 (pktmbuf_mtod (fc_mem gre_core mb)) 58) = 0" "gf_gre_key (fc_guests gre_core g) = 7"
  by (simp_all add: gre_core_def demo_core_def demo_mbuf_def pktmbuf_mtod_def ld32_def f_beui32_def bswap32_def)

lemma gre_core_tx: "fst (infra_tx ck 0 1000 100 gre_core) = INFRA_RET_OK"
proof -
  have "arp_lookup (fc_arp gre_core) 9 \<noteq> None" "ae_pending (buckets (fc_arp gre_core) i) = 0" "fc_virt_gre gre_core" for i
    by (simp_all add: arp_lookup_def arp_lookup_loop.simps gre_core_def)
  moreover have "ne_outer_ip (fc_inner gre_core e) = 9" for e by (simp add: gre_core_def)
  ultimately show ?thesis by (auto simp: infra_tx_def process_tx_arp_def Let_def gre_core_dst gre_core_get split: prod.splits)
qed

theorem infra_gre_roundtrip_witness:
  "\<exists>x'. infra_tx (\<lambda>_ _. 0) 0 1000 100 gre_core = (INFRA_RET_OK, x') \<and>
     infra_rx (0, 0) 1000 (gre_core\<lparr>fc_mem := fc_mem x'\<rparr>) = (Some (3, GRE_INNER), gre_core\<lparr>fc_mem := fc_mem x'\<rparr>)"
proof -
  obtain x' where t: "infra_tx (\<lambda>_ _. 0) 0 1000 100 gre_core = (INFRA_RET_OK, x')" using gre_core_tx by (metis prod.exhaust fst_conv)
  have v: "fc_virt_gre gre_core" "fc_virt_gre (gre_core\<lparr>fc_mem := fc_mem x'\<rparr>)" "fc_inner (gre_core\<lparr>fc_mem := fc_mem x'\<rparr>) = fc_inner gre_core"
    "ne_gid (fc_inner gre_core e) = 3" for e by (simp_all add: gre_core_def)
  from infra_gre_roundtrip [OF t v(1,2), of 1000 "(0, 0)"] show ?thesis using t by (simp add: v(3,4) gre_core_dst gre_core_get)
qed

end
