(* ===== verification/Control_Guest.thy ===== *)
theory Control_Guest
  imports Control_Arp Shmalloc Fast_Infra
begin

text \<open>
  The requests of a guest to the control path (\<^verbatim>\<open>chamelio/control/control_guest.c\<close>): choosing a protocol, getting queues and
  maps in shared memory, enabling and disabling queues on the cores. A failing \<^verbatim>\<open>assert\<close> and an access outside an array are
  faults.
\<close>

section \<open>The requests\<close>

datatype guest_fault = AssertFails | OutOfArray

record proto_queue_control =
  qc_id :: u16
  qc_nelems :: u32
  qc_elsize :: u32
  qc_off :: u64
  qc_core :: u16

record proto_control =
  pc_proto_type :: u8
  pc_nqueues :: u16
  pc_queues :: "nat \<Rightarrow> proto_queue_control"
  pc_nmaps :: u16

text \<open>\<open>gc_shm\<close> are the bytes of the guest's region.\<close>

record guest_control =
  gc_id :: u8
  gc_alloc :: shm_allocator
  gc_shm :: bytes
  gc_resq :: cqueue
  gc_proto :: proto_control

record guest_ctl_context = control_context +
  cg_mode :: fp_proto_mode
  cg_shm_len :: u64

abbreviation MAX_PROTO_MAPS :: nat where "MAX_PROTO_MAPS \<equiv> 8"
abbreviation CORE_INVALID :: u16 where "CORE_INVALID \<equiv> 0xffff"
abbreviation CHAM_PROTO_TCP :: u8 where "CHAM_PROTO_TCP \<equiv> 1"
abbreviation CHAM_PROTO_UDP :: u8 where "CHAM_PROTO_UDP \<equiv> 2"

definition res_full :: "guest_control \<Rightarrow> bool" where
  "res_full g \<longleftrightarrow> queue_tail (fst (gc_resq g)) (snd (gc_resq g)) = None"

text \<open>A response, with the assertion that it was accepted.\<close>

definition respond :: "qdata \<Rightarrow> u8 \<Rightarrow> 'c \<Rightarrow> guest_control \<Rightarrow> guest_fault + 'c \<times> guest_control" where
  "respond d ty c g = (case queue_put (gc_resq g) d ty of (r, q) \<Rightarrow> if r \<noteq> 0 then Inl AssertFails else Inr (c, g\<lparr>gc_resq := q\<rparr>))"

text \<open>A message to the first \<open>n\<close> cores.\<close>

fun send_cores :: "nat \<Rightarrow> qdata \<Rightarrow> u8 \<Rightarrow> (nat \<Rightarrow> cqueue) \<Rightarrow> (nat \<Rightarrow> cqueue) option" where
  "send_cores 0 d ty qs = Some qs"
| "send_cores (Suc n) d ty qs =
     (case send_cores n d ty qs of None \<Rightarrow> None
      | Some qs' \<Rightarrow> (case queue_put (qs' n) d ty of (r, q) \<Rightarrow> if r \<noteq> 0 then None else Some (qs'(n := q))))"

definition control_guest_new_proto ::
  "queue_new_proto_req \<Rightarrow> guest_ctl_context \<Rightarrow> guest_control \<Rightarrow> guest_fault + guest_ctl_context \<times> guest_control" where
  "control_guest_new_proto req c g =
     (let none = D_new_proto_res \<lparr>npr_success = 0, npr_n_fp_cores = 0, npr_local_ip = 0, npr_shm_len = 0\<rparr>
      in if res_full g then Inl AssertFails
         else if npq_proto_type req \<noteq> CHAM_PROTO_TCP \<and> npq_proto_type req \<noteq> CHAM_PROTO_UDP then respond none QUEUE_NEW_PROTO_RES c g
         else if cg_mode c \<noteq> FP_PROTO_EBPF \<and> cg_mode c \<noteq> FP_PROTO_HAND then respond none QUEUE_NEW_PROTO_RES c g
         else respond (D_new_proto_res \<lparr>npr_success = 1, npr_n_fp_cores = ca_cores c, npr_local_ip = ca_ip c, npr_shm_len = cg_shm_len c\<rparr>)
                QUEUE_NEW_PROTO_RES c
                (g\<lparr>gc_proto := (gc_proto g)\<lparr>pc_proto_type := npq_proto_type req, pc_nqueues := 0, pc_nmaps := 0\<rparr>\<rparr>))"

text \<open>\<open>old\<close> is what the slot of the response holds from an earlier message; \<open>m1\<close> and \<open>m2\<close> are the results of \<^verbatim>\<open>calloc\<close>
  in the allocator, and \<open>junk\<close> the value of the one field of the message to the cores that is not written.\<close>

definition zero_block :: "shm_handle \<Rightarrow> bytes \<Rightarrow> bytes" where
  "zero_block h m = (\<lambda>i. if unat (sh_off h) \<le> i \<and> i < unat (sh_off h) + unat (sh_len h) then 0 else m i)"

definition control_guest_new_queue ::
  "bool \<Rightarrow> bool \<Rightarrow> u64 \<Rightarrow> queue_new_queue_res \<Rightarrow> queue_new_queue_req \<Rightarrow> guest_ctl_context \<Rightarrow> guest_control \<Rightarrow> guest_fault + guest_ctl_context \<times> guest_control" where
  "control_guest_new_queue m1 m2 junk old req c g0 =
     (let nqueues = pc_nqueues (gc_proto g0);
          g = g0\<lparr>gc_proto := (gc_proto g0)\<lparr>pc_nqueues := nqueues + 1\<rparr>\<rparr>;
          fail = respond (D_new_queue_res (old\<lparr>nqr_elsize := 0, nqr_nelems := 0\<rparr>)) QUEUE_NEW_QUEUE_RES c
      in if res_full g then Inl AssertFails
         else if unat nqueues \<ge> MAX_PROTO_QUEUES then fail g
         else (case shmalloc_alloc m1 m2 (gc_alloc g) (nqq_elsize req * ucast (nqq_nelems req)) of
                 (r, al, None) \<Rightarrow> fail (g\<lparr>gc_alloc := al\<rparr>)
               | (r, al, Some h) \<Rightarrow>
                   let pq = \<lparr>qc_id = nqueues, qc_nelems = nqq_nelems req, qc_elsize = ucast (nqq_elsize req), qc_off = sh_off h, qc_core = CORE_INVALID\<rparr>;
                       g1 = g\<lparr>gc_alloc := al, gc_shm := zero_block h (gc_shm g),
                              gc_proto := (gc_proto g)\<lparr>pc_queues := (pc_queues (gc_proto g))(unat nqueues := pq)\<rparr>\<rparr>;
                       msg = D_new_queue_req \<lparr>nqq_gid = gc_id g, nqq_proto_type = pc_proto_type (gc_proto g), nqq_qid = ucast nqueues,
                               nqq_nelems = qc_nelems pq, nqq_elsize = ucast (qc_elsize pq), nqq_off = qc_off pq, nqq_opaque = junk\<rparr>
                   in (case send_cores (unat (ca_cores c)) msg QUEUE_NEW_QUEUE_REQ (ca_cfqs c) of
                         None \<Rightarrow> Inl AssertFails
                       | Some qs \<Rightarrow> respond (D_new_queue_res \<lparr>nqr_qid = ucast nqueues, nqr_nelems = nqq_nelems req, nqr_elsize = nqq_elsize req,
                                       nqr_off = sh_off h, nqr_opaque = nqq_opaque req\<rparr>) QUEUE_NEW_QUEUE_RES (c\<lparr>ca_cfqs := qs\<rparr>) g1)))"

definition control_guest_new_map ::
  "bool \<Rightarrow> bool \<Rightarrow> u64 \<Rightarrow> queue_new_map_res \<Rightarrow> queue_new_map_req \<Rightarrow> guest_ctl_context \<Rightarrow> guest_control \<Rightarrow> guest_fault + guest_ctl_context \<times> guest_control" where
  "control_guest_new_map m1 m2 junk old req c g =
     (let nmaps = pc_nmaps (gc_proto g);
          fail = respond (D_new_map_res (old\<lparr>nmr_nelems := 0, nmr_elsize := 0\<rparr>)) QUEUE_NEW_MAP_RES c
      in if res_full g then Inl AssertFails
         else if unat nmaps \<ge> MAX_PROTO_MAPS then fail g
         else (case shmalloc_alloc m1 m2 (gc_alloc g) (ucast (nmq_elsize req * nmq_nelems req)) of
                 (r, al, None) \<Rightarrow> fail (g\<lparr>gc_alloc := al\<rparr>)
               | (r, al, Some h) \<Rightarrow>
                   let g1 = g\<lparr>gc_alloc := al, gc_proto := (gc_proto g)\<lparr>pc_nmaps := nmaps + 1\<rparr>\<rparr>;
                       msg = D_new_map_req \<lparr>nmq_gid = gc_id g, nmq_proto_type = pc_proto_type (gc_proto g), nmq_mid = ucast nmaps,
                               nmq_nelems = nmq_nelems req, nmq_elsize = nmq_elsize req, nmq_off = sh_off h, nmq_opaque = junk\<rparr>
                   in (case send_cores (unat (ca_cores c)) msg QUEUE_NEW_MAP_REQ (ca_cfqs c) of
                         None \<Rightarrow> Inl AssertFails
                       | Some qs \<Rightarrow> respond (D_new_map_res \<lparr>nmr_id = nmaps, nmr_off = sh_off h, nmr_nelems = nmq_nelems req, nmr_elsize = nmq_elsize req,
                                       nmr_opaque = nmq_opaque req\<rparr>) QUEUE_NEW_MAP_RES (c\<lparr>ca_cfqs := qs\<rparr>) g1)))"

text \<open>The two requests about a queue share their checks and the note of the core.\<close>

definition queue_request ::
  "u16 \<Rightarrow> u16 \<Rightarrow> (proto_queue_control \<Rightarrow> qdata) \<Rightarrow> u8 \<Rightarrow> guest_ctl_context \<Rightarrow> guest_control \<Rightarrow> guest_fault + guest_ctl_context \<times> guest_control" where
  "queue_request core qid msg ty c g =
     (if unat core \<ge> unat (ca_cores c) then Inr (c, g)
      else if qid \<ge> pc_nqueues (gc_proto g) then Inr (c, g)
      else if queue_tail (fst (ca_cfqs c (unat core))) (snd (ca_cfqs c (unat core))) = None then Inl AssertFails
      else if unat qid \<ge> MAX_PROTO_QUEUES then Inl OutOfArray
      else let pq = pc_queues (gc_proto g) (unat qid);
               g1 = g\<lparr>gc_proto := (gc_proto g)\<lparr>pc_queues := (pc_queues (gc_proto g))(unat qid := pq\<lparr>qc_core := core\<rparr>)\<rparr>\<rparr>
           in case queue_put (ca_cfqs c (unat core)) (msg pq) ty of (r, q) \<Rightarrow>
                if r \<noteq> 0 then Inl AssertFails else Inr (c\<lparr>ca_cfqs := (ca_cfqs c)(unat core := q)\<rparr>, g1))"

definition control_guest_enableq ::
  "queue_enableq_req \<Rightarrow> guest_ctl_context \<Rightarrow> guest_control \<Rightarrow> guest_fault + guest_ctl_context \<times> guest_control" where
  "control_guest_enableq req c g = queue_request (enq_core req) (enq_qid req)
     (\<lambda>pq. D_enableq_req \<lparr>enq_qid = enq_qid req, enq_gid = ucast (gc_id g), enq_proto_type = pc_proto_type (gc_proto g), enq_off = qc_off pq,
        enq_nelems = qc_nelems pq, enq_elsize = qc_elsize pq, enq_core = enq_core req\<rparr>) QUEUE_ENABLEQ_REQ c g"

definition control_guest_disableq ::
  "queue_disableq_req \<Rightarrow> guest_ctl_context \<Rightarrow> guest_control \<Rightarrow> guest_fault + guest_ctl_context \<times> guest_control" where
  "control_guest_disableq req c g = queue_request (dis_core req) (dis_qid req)
     (\<lambda>pq. D_disableq_req \<lparr>dis_qid = dis_qid req, dis_gid = ucast (gc_id g), dis_core = dis_core req\<rparr>) QUEUE_DISABLEQ_REQ c g"

section \<open>What a guest is granted\<close>

lemma send_cores_puts:
  "send_cores n d ty qs = Some qs' \<Longrightarrow>
     (\<forall>i < n. queue_put (qs i) d ty = (0, qs' i)) \<and> (\<forall>i \<ge> n. qs' i = qs i)"
proof (induction n arbitrary: qs')
  case (Suc n)
  then obtain qs1 q where s: "send_cores n d ty qs = Some qs1" "queue_put (qs1 n) d ty = (0, q)" "qs' = qs1(n := q)"
    by (auto split: option.splits prod.splits if_splits)
  show ?case using Suc.IH [OF s(1)] s(2,3) by (auto simp: less_Suc_eq)
qed simp

lemma queue_put_slot:
  "queue_put c d ty = (0, c') \<Longrightarrow> snd c' (eq_tail (fst c)) = \<lparr>qs_type = ty, qs_data = d\<rparr>"
  by (auto simp: queue_put_cases split: if_splits)

lemma respond_slot:
  "respond d ty c g = Inr (c', g') \<Longrightarrow> c' = c \<and> snd (gc_resq g') (eq_tail (fst (gc_resq g))) = \<lparr>qs_type = ty, qs_data = d\<rparr> \<and>
     gc_alloc g' = gc_alloc g \<and> gc_shm g' = gc_shm g \<and> gc_proto g' = gc_proto g"
proof -
  assume r: "respond d ty c g = Inr (c', g')"
  obtain v q where p: "queue_put (gc_resq g) d ty = (v, q)" by (metis surj_pair)
  then have "v = 0" "c' = c" "g' = g\<lparr>gc_resq := q\<rparr>" using r by (auto simp: respond_def split: if_splits)
  then show ?thesis using queue_put_slot p by simp
qed

lemma alloc_fresh_block:
  assumes "shm_inv tot a live" and "shmalloc_alloc m1 m2 a len = (r, a', Some h)"
  shows "shm_inv tot a' (h # live) \<and> foot h \<subseteq> {..<tot} \<and> (\<forall>b \<in> set live. foot h \<inter> foot b = {}) \<and> sh_len h = ALIGN_UP len"
proof -
  note i = shmalloc_alloc_inv [OF assms]
  have "disjoint_blocks (h # live)" using disjoint_blocks_appendD [OF shm_inv_disjoint] i by blast
  then have "foot h \<inter> foot (live ! j) = {}" if "j < length live" for j
    using that unfolding disjoint_blocks_def by (metis length_Cons nat.distinct(1) not_less_eq nth_Cons_0 nth_Cons_Suc zero_less_Suc)
  moreover have "foot h \<subseteq> {..<tot}" using i by (auto simp: shm_inv_def blk_ok_def foot_def)
  ultimately show ?thesis using i by (metis in_set_conv_nth)
qed

text \<open>The two ways a queue request ends: a refusal, or a response after every core has been told.\<close>

definition new_queue_msg :: "u64 \<Rightarrow> queue_new_queue_req \<Rightarrow> guest_control \<Rightarrow> shm_handle \<Rightarrow> queue_new_queue_req" where
  "new_queue_msg junk req g h = \<lparr>nqq_gid = gc_id g, nqq_proto_type = pc_proto_type (gc_proto g), nqq_qid = ucast (pc_nqueues (gc_proto g)),
     nqq_nelems = nqq_nelems req, nqq_elsize = ucast (ucast (nqq_elsize req) :: u32), nqq_off = sh_off h, nqq_opaque = junk\<rparr>"

definition new_queue_res :: "queue_new_queue_req \<Rightarrow> u16 \<Rightarrow> shm_handle \<Rightarrow> queue_new_queue_res" where
  "new_queue_res req qid h = \<lparr>nqr_qid = ucast qid, nqr_nelems = nqq_nelems req, nqr_elsize = nqq_elsize req, nqr_off = sh_off h, nqr_opaque = nqq_opaque req\<rparr>"

lemma new_queue_outcome:
  assumes r: "control_guest_new_queue m1 m2 junk old req c g = Inr (c', g')"
  shows "(\<exists>g1. gc_resq g1 = gc_resq g \<and> gc_alloc g1 = gc_alloc g \<and> gc_shm g1 = gc_shm g \<and>
      respond (D_new_queue_res (old\<lparr>nqr_elsize := 0, nqr_nelems := 0\<rparr>)) QUEUE_NEW_QUEUE_RES c g1 = Inr (c', g')) \<or>
    (\<exists>v al h qs g2. unat (pc_nqueues (gc_proto g)) < MAX_PROTO_QUEUES \<and>
      shmalloc_alloc m1 m2 (gc_alloc g) (nqq_elsize req * ucast (nqq_nelems req)) = (v, al, Some h) \<and>
      send_cores (unat (ca_cores c)) (D_new_queue_req (new_queue_msg junk req g h)) QUEUE_NEW_QUEUE_REQ (ca_cfqs c) = Some qs \<and>
      gc_resq g2 = gc_resq g \<and> gc_alloc g2 = al \<and> gc_shm g2 = zero_block h (gc_shm g) \<and>
      respond (D_new_queue_res (new_queue_res req (pc_nqueues (gc_proto g)) h)) QUEUE_NEW_QUEUE_RES (c\<lparr>ca_cfqs := qs\<rparr>) g2 = Inr (c', g'))"
proof -
  define g1 where "g1 = g\<lparr>gc_proto := (gc_proto g)\<lparr>pc_nqueues := pc_nqueues (gc_proto g) + 1\<rparr>\<rparr>"
  note r = r [unfolded control_guest_new_queue_def Let_def, folded g1_def]
  have tail: "\<not> res_full g1" using r by (auto split: if_splits)
  obtain v al ho where a: "shmalloc_alloc m1 m2 (gc_alloc g) (nqq_elsize req * ucast (nqq_nelems req)) = (v, al, ho)" by (metis prod.exhaust)
  have g1: "gc_resq g1 = gc_resq g" "gc_alloc g1 = gc_alloc g" "gc_shm g1 = gc_shm g" by (simp_all add: g1_def)
  consider "unat (pc_nqueues (gc_proto g)) \<ge> MAX_PROTO_QUEUES" | "unat (pc_nqueues (gc_proto g)) < MAX_PROTO_QUEUES" "ho = None"
    | h where "unat (pc_nqueues (gc_proto g)) < MAX_PROTO_QUEUES" "ho = Some h" by (cases ho) force+
  then show ?thesis
  proof cases
    case 1
    then show ?thesis using r tail g1 by (intro disjI1 exI [of _ g1]) simp
  next
    case 2
    then have "al = gc_alloc g" using a shmalloc_alloc_result(2) by blast
    then show ?thesis using r tail a 2 g1 by (intro disjI1 exI [of _ "g1\<lparr>gc_alloc := al\<rparr>"]) simp
  next
    case 3
    obtain qs where qs: "send_cores (unat (ca_cores c)) (D_new_queue_req (new_queue_msg junk req g h)) QUEUE_NEW_QUEUE_REQ (ca_cfqs c) = Some qs"
      using r tail a 3 by (auto simp: g1_def new_queue_msg_def split: option.splits)
    define g2 where "g2 = g1\<lparr>gc_alloc := al, gc_shm := zero_block h (gc_shm g1), gc_proto := (gc_proto g1)\<lparr>pc_queues := (pc_queues (gc_proto g1))
        (unat (pc_nqueues (gc_proto g)) := \<lparr>qc_id = pc_nqueues (gc_proto g), qc_nelems = nqq_nelems req, qc_elsize = ucast (nqq_elsize req),
          qc_off = sh_off h, qc_core = CORE_INVALID\<rparr>)\<rparr>\<rparr>"
    have "respond (D_new_queue_res (new_queue_res req (pc_nqueues (gc_proto g)) h)) QUEUE_NEW_QUEUE_RES (c\<lparr>ca_cfqs := qs\<rparr>) g2 = Inr (c', g')"
      using r tail a 3 qs unfolding g2_def by (simp add: g1_def new_queue_msg_def new_queue_res_def)
    then show ?thesis using a 3 qs g1 by (intro disjI2 exI [of _ v] exI [of _ al] exI [of _ h] exI [of _ qs] exI [of _ g2]) (simp add: g2_def)
  qed
qed


definition small_guest :: guest_control where
  "small_guest = \<lparr>gc_id = 1, gc_alloc = the (shmalloc_init True True 4096 1024), gc_shm = (\<lambda>_. 7),
     gc_resq = (\<lparr>eq_tail = 0, eq_nelems = 4, eq_elsize = 64, eq_off = 0, eq_entries = 0\<rparr>, \<lambda>_. \<lparr>qs_type = 0, qs_data = D_raw\<rparr>),
     gc_proto = \<lparr>pc_proto_type = 1, pc_nqueues = 0,
       pc_queues = (\<lambda>_. \<lparr>qc_id = 0, qc_nelems = 0, qc_elsize = 0, qc_off = 0, qc_core = 0\<rparr>), pc_nmaps = 0\<rparr>\<rparr>"

definition small_ctl_guest :: guest_ctl_context where
  "small_ctl_guest = control_context.extend small_ctl \<lparr>cg_mode = FP_PROTO_HAND, cg_shm_len = 1024\<rparr>"

definition queue_of_eight :: queue_new_queue_req where
  "queue_of_eight = \<lparr>nqq_gid = 0, nqq_proto_type = 1, nqq_qid = 0, nqq_nelems = 4, nqq_elsize = 8, nqq_off = 0, nqq_opaque = 9\<rparr>"

lemma small_guest_inv: "shm_inv 1024 (gc_alloc small_guest) []"
  using shmalloc_init_inv [of 4096 1024] by (simp add: small_guest_def shmalloc_init_def)

lemma small_guest_granted:
  "\<exists>c' g'. control_guest_new_queue True True 0 \<lparr>nqr_qid = 0, nqr_nelems = 0, nqr_elsize = 0, nqr_off = 0, nqr_opaque = 0\<rparr>
     queue_of_eight small_ctl_guest small_guest = Inr (c', g') \<and> gc_alloc g' \<noteq> gc_alloc small_guest"
proof -
  have a: "shmalloc_alloc True True \<lparr>sa_base = 4096, sa_free = [\<lparr>sh_addr = 4096, sh_off = 0, sh_len = 1024\<rparr>]\<rparr> 32 =
      (0, \<lparr>sa_base = 4096, sa_free = [\<lparr>sh_addr = 4160, sh_off = 64, sh_len = 960\<rparr>]\<rparr>, Some \<lparr>sh_addr = 4096, sh_off = 0, sh_len = 64\<rparr>)"
    by (simp add: shmalloc_alloc_def ALIGN_UP_def Let_def)
  have c: "ca_cores small_ctl_guest = 1"
    "ca_cfqs small_ctl_guest = (\<lambda>_. (\<lparr>eq_tail = 0, eq_nelems = 4, eq_elsize = 64, eq_off = 0, eq_entries = 0\<rparr>, \<lambda>_. \<lparr>qs_type = 0, qs_data = D_raw\<rparr>))"
    by (simp_all add: small_ctl_guest_def small_ctl_def control_context.defs Let_def)
  have s: "\<exists>qs. send_cores (Suc 0) d ty (ca_cfqs small_ctl_guest) = Some qs" for d ty
    unfolding c send_cores.simps queue_put_cases by simp
  have q: "nqq_elsize queue_of_eight * ucast (nqq_nelems queue_of_eight) = 32" by (simp add: queue_of_eight_def)
  show ?thesis unfolding control_guest_new_queue_def Let_def q
    using s by (auto simp: small_guest_def shmalloc_init_def a c(1) res_full_def queue_tail_def respond_def queue_put_cases
        simp del: send_cores.simps split: option.splits)
qed


section \<open>Requests the code does not handle\<close>

text \<open>
  The number of queues is counted before it is compared with the size of the array, so after 128 queues a refused request makes
  the id 128 pass the check of an enabling request.
\<close>

lemma guest_enableq_out_of_array:
  assumes "pc_nqueues (gc_proto g) = 128" and "\<not> res_full g"
    and "0 < ca_cores c" and "queue_tail (fst (ca_cfqs c 0)) (snd (ca_cfqs c 0)) \<noteq> None"
    and "enq_core e = 0" and "enq_qid e = 128"
  shows "\<exists>c' g'. control_guest_new_queue m1 m2 junk old req c g = Inr (c', g') \<and> control_guest_enableq e c' g' = Inl OutOfArray"
proof -
  define g1 where "g1 = g\<lparr>gc_proto := (gc_proto g)\<lparr>pc_nqueues := 129\<rparr>\<rparr>"
  have "\<not> res_full g1" using assms(2) by (simp add: res_full_def g1_def)
  then obtain q where q: "queue_put (gc_resq g1) d QUEUE_NEW_QUEUE_RES = (0, q d)" for d
    unfolding res_full_def queue_tail_def queue_put_cases by (auto split: if_splits)
  have "control_guest_new_queue m1 m2 junk old req c g = Inr (c, g1\<lparr>gc_resq := q (D_new_queue_res (old\<lparr>nqr_elsize := 0, nqr_nelems := 0\<rparr>))\<rparr>)"
    using assms(1,2) q by (simp add: control_guest_new_queue_def Let_def respond_def g1_def res_full_def)
  moreover have "control_guest_enableq e c (g1\<lparr>gc_resq := r\<rparr>) = Inl OutOfArray" for r
    using assms(3-6) by (simp add: control_guest_enableq_def queue_request_def g1_def word_less_nat_alt)
  ultimately show ?thesis by blast
qed

text \<open>The size of a map is a product of 32-bit numbers: a map of 65536 elements of 65536 bytes gets an empty block.\<close>

lemma guest_map_size_wraps:
  assumes "nmq_elsize req = 65536" "nmq_nelems req = 65536" and "control_guest_new_map m1 m2 junk old req c g = Inr (c', g')"
    and "pc_nmaps (gc_proto g') \<noteq> pc_nmaps (gc_proto g)"
  shows "\<exists>v al h. shmalloc_alloc m1 m2 (gc_alloc g) 0 = (v, al, Some h) \<and> gc_alloc g' = al"
  using assms by (auto simp: control_guest_new_map_def Let_def split: if_splits prod.splits option.splits dest!: respond_slot)

end
