(* ===== verification/Control_Budget.thy ===== *)
theory Control_Budget
  imports Prelude
begin

text \<open>
  The periodic refill of the guests' cycle budgets (\<^verbatim>\<open>chamelio/control/control_budget.c\<close>). A budget is a signed 64-bit counter per
  guest and core, which the cores decrease. The credit of an interval is computed in floating point: \<open>credit\<close> stands for the
  value of \<^verbatim>\<open>creds * perf_iso_boost / n_guests\<close> as a 64-bit integer.
\<close>

definition budget_share :: "u64 \<Rightarrow> u32 \<Rightarrow> u32 \<Rightarrow> u64" where
  "budget_share tot idx nr =
     (if nr = 0 then 0
      else let share = tot div ucast nr
           in if ucast idx < tot mod ucast nr then share + 1 else share)"

record budget_control =
  bc_ts_refresh :: u64
  bc_cap :: u64
  bc_n_guests :: u8
  bc_cores :: u32
  bc_perf_iso :: bool
  bc_budgets :: "nat \<Rightarrow> nat \<Rightarrow> u64"

abbreviation INT64_MAX :: u64 where "INT64_MAX \<equiv> 0x7fffffffffffffff"

text \<open>One counter: \<open>cap\<close> and \<open>add\<close> are the shares of its core.\<close>

definition refill :: "u64 \<Rightarrow> u64 \<Rightarrow> u64 \<Rightarrow> u64" where
  "refill cap add budg =
     (let add' = (if sint budg \<ge> sint cap then 0 else if sint budg > sint (cap - add) then cap - budg else add)
      in budg + add')"

definition control_budget_refresh :: "(u64 \<Rightarrow> u8 \<Rightarrow> u64) \<Rightarrow> u64 \<Rightarrow> budget_control \<Rightarrow> budget_control" where
  "control_budget_refresh credit now c =
     (let creds = (if bc_ts_refresh c \<noteq> 0 then now - bc_ts_refresh c else 0)
      in if bc_n_guests c = 0 then c\<lparr>bc_ts_refresh := now\<rparr>
         else let add = credit creds (bc_n_guests c)
              in c\<lparr>bc_budgets := (\<lambda>i j. if i < unat (bc_n_guests c) \<and> j < unat (bc_cores c)
                     then (if bc_perf_iso c
                           then refill (budget_share (bc_cap c) (of_nat j) (bc_cores c)) (budget_share add (of_nat j) (bc_cores c)) (bc_budgets c i j)
                           else INT64_MAX)
                     else bc_budgets c i j),
                   bc_ts_refresh := now\<rparr>)"

section \<open>Shares\<close>

lemma unat_budget_share:
  assumes "nr \<noteq> 0"
  shows "unat (budget_share tot idx nr) = unat tot div unat nr + (if unat idx < unat tot mod unat nr then 1 else 0)"
proof -
  have n: "unat (ucast nr :: u64) = unat nr" by (rule unat_ucast_up) simp
  have p: "0 < unat nr" using assms by (simp add: unat_gt_0)
  have d: "unat (tot div ucast nr) = unat tot div unat nr" "unat (tot mod ucast nr) = unat tot mod unat nr"
    by (simp_all add: unat_div unat_mod n)
  have lt: "unat (ucast idx :: u64) = unat idx" by (rule unat_ucast_up) simp
  have "unat tot div unat nr + 1 < 2 ^ 64" if "unat idx < unat tot mod unat nr"
  proof -
    have "unat nr \<noteq> 1" using that by auto
    then have "2 \<le> unat nr" using p by simp
    then have "unat tot div unat nr \<le> unat tot div 2" by (rule div_le_mono2 [rotated]) simp
    then show ?thesis using unat_64_bound [of tot] by simp
  qed
  then show ?thesis using assms d lt by (auto simp: budget_share_def Let_def word_less_nat_alt unat_add_small)
qed

text \<open>The shares of the cores add up to the whole.\<close>

lemma share_sum: "0 < n \<Longrightarrow> (\<Sum>j < n. t div n + (if j < t mod n then 1 else 0)) = (t :: nat)"
proof -
  assume n: "0 < n"
  have "(\<Sum>j < n. if j < t mod n then 1 else 0 :: nat) = card {j. j < n \<and> j < t mod n}"
    by (simp add: sum.If_cases Int_def)
  also have "{j. j < n \<and> j < t mod n} = {..<t mod n}" using n by (auto intro: less_trans)
  finally show ?thesis by (simp add: sum.distrib)
qed

lemma budget_shares_sum:
  assumes "nr \<noteq> 0"
  shows "(\<Sum>j < unat nr. unat (budget_share tot (of_nat j) nr)) = unat tot"
proof -
  have "(\<Sum>j < unat nr. unat (budget_share tot (of_nat j) nr)) = (\<Sum>j < unat nr. unat tot div unat nr + (if j < unat tot mod unat nr then 1 else 0))"
  proof (rule sum.cong)
    fix j assume "j \<in> {..<unat nr}"
    then have "unat (of_nat j :: u32) = j" using unat_32_bound [of nr] by (simp add: unat_of_nat)
    then show "unat (budget_share tot (of_nat j) nr) = unat tot div unat nr + (if j < unat tot mod unat nr then 1 else 0)"
      using unat_budget_share [OF assms, of tot "of_nat j"] by simp
  qed simp
  then show ?thesis using share_sum [of "unat nr" "unat tot"] assms by (simp add: unat_gt_0)
qed

lemma budget_share_le: "unat (budget_share tot idx nr) \<le> unat tot"
proof (cases "nr = 0")
  case False
  then have p: "0 < unat nr" by (simp add: unat_gt_0)
  show ?thesis
  proof (cases "unat idx < unat tot mod unat nr")
    case True
    have "unat tot div unat nr \<le> unat nr * (unat tot div unat nr)" using p by (cases "unat nr") auto
    then have "unat tot div unat nr + unat tot mod unat nr \<le> unat tot" using mult_div_mod_eq [of "unat nr" "unat tot"] by linarith
    then show ?thesis using True unat_budget_share [OF False, of tot idx] by simp
  qed (use unat_budget_share [OF False, of tot idx] in simp)
qed (simp add: budget_share_def)

section \<open>Refilling\<close>

lemma int_unat_63: "unat (a :: u64) < 2 ^ 63 \<Longrightarrow> int (unat a) < 2 ^ 63"
  by (metis of_nat_less_iff of_nat_numeral of_nat_power)

lemma sint_small_64: "unat (a :: u64) < 2 ^ 63 \<Longrightarrow> sint a = int (unat a)"
proof -
  assume "unat a < 2 ^ 63"
  then have "int (unat a) < 2 ^ 63" by (rule int_unat_63)
  then have "uint a < 2 ^ 63" by simp
  then have "signed_take_bit 63 (uint a) = uint a" by (intro signed_take_bit_int_eq_self) (auto intro: order_trans [of _ 0])
  then show ?thesis by (simp add: sint_uint)
qed

lemma sint_bounds_64: "- (2 ^ 63) \<le> sint (a :: u64)" "sint (a :: u64) < 2 ^ 63"
  using sint_greater_eq [of a] sint_less [of a] by simp_all

lemma sint_add_64: "- (2 ^ 63) \<le> sint a + sint b \<Longrightarrow> sint a + sint b < 2 ^ 63 \<Longrightarrow> sint (a + b :: u64) = sint a + sint b"
  by (simp add: sint_word_ariths signed_take_bit_int_eq_self)

lemma sint_sub_64: "- (2 ^ 63) \<le> sint a - sint b \<Longrightarrow> sint a - sint b < 2 ^ 63 \<Longrightarrow> sint (a - b :: u64) = sint a - sint b"
  by (simp add: sint_word_ariths signed_take_bit_int_eq_self)

lemma refill_exact:
  assumes c: "unat cap < 2 ^ 63" and a: "unat add < 2 ^ 63"
  shows "sint (refill cap add b) = (if sint b \<ge> int (unat cap) then sint b else min (sint b + int (unat add)) (int (unat cap)))"
proof -
  note sc = sint_small_64 [OF c] and sa = sint_small_64 [OF a]
  have bd: "int (unat cap) < 2 ^ 63" "int (unat add) < 2 ^ 63" using int_unat_63 c a by blast+
  have d: "sint (cap - add) = int (unat cap) - int (unat add)" using sint_sub_64 [of cap add] bd unfolding sc sa by linarith
  note b = sint_bounds_64 [of b]
  consider "sint b \<ge> int (unat cap)" | "sint b < int (unat cap)" "sint b > int (unat cap) - int (unat add)" | "sint b \<le> int (unat cap) - int (unat add)" "sint b < int (unat cap)"
    by linarith
  then show ?thesis
  proof cases
    case 1
    then show ?thesis using sc by (simp add: refill_def)
  next
    case 2
    have "refill cap add b = cap" using 2 sc d by (simp add: refill_def Let_def)
    then show ?thesis using 2 sc by simp
  next
    case 3
    have "refill cap add b = b + add" using 3 sc d by (simp add: refill_def Let_def)
    moreover have "sint (b + add) = sint b + int (unat add)" using sint_add_64 [of b add] b bd 3 unfolding sa by linarith
    ultimately show ?thesis using 3 by simp
  qed
qed

text \<open>
  C18: a refill gives exactly the credit, up to the cap. With isolation on and a cap and a credit below \<open>2 ^ 63\<close>, every core of every
  registered guest gets its share of the credit, but its budget never rises above its share of the cap, and a budget above that is
  left alone; the shares of the cores add up to the credit and to the cap. No sum or difference overflows.
\<close>

theorem budget_refresh_exact:
  assumes "bc_perf_iso c" and "unat (bc_cap c) < 2 ^ 63" and "i < unat (bc_n_guests c)" and "j < unat (bc_cores c)"
    and "add = credit (if bc_ts_refresh c = 0 then 0 else now - bc_ts_refresh c) (bc_n_guests c)" and "unat add < 2 ^ 63"
  shows "sint (bc_budgets (control_budget_refresh credit now c) i j) =
      (if sint (bc_budgets c i j) \<ge> int (unat (budget_share (bc_cap c) (of_nat j) (bc_cores c))) then sint (bc_budgets c i j)
       else min (sint (bc_budgets c i j) + int (unat (budget_share add (of_nat j) (bc_cores c)))) (int (unat (budget_share (bc_cap c) (of_nat j) (bc_cores c))))) \<and>
    (\<Sum>k < unat (bc_cores c). unat (budget_share add (of_nat k) (bc_cores c))) = unat add \<and>
    (\<Sum>k < unat (bc_cores c). unat (budget_share (bc_cap c) (of_nat k) (bc_cores c))) = unat (bc_cap c)"
proof -
  have nz: "bc_cores c \<noteq> 0" "bc_n_guests c \<noteq> 0" using assms(3,4) by auto
  have "bc_budgets (control_budget_refresh credit now c) i j =
      refill (budget_share (bc_cap c) (of_nat j) (bc_cores c)) (budget_share add (of_nat j) (bc_cores c)) (bc_budgets c i j)"
    using assms nz by (auto simp: control_budget_refresh_def Let_def)
  moreover have "unat (budget_share (bc_cap c) (of_nat j) (bc_cores c)) < 2 ^ 63" "unat (budget_share add (of_nat j) (bc_cores c)) < 2 ^ 63"
    using budget_share_le assms(2,6) by (meson le_less_trans)+
  ultimately show ?thesis using refill_exact budget_shares_sum nz(1) by simp
qed

theorem budget_refresh_exact_witness:
  "sint (bc_budgets (control_budget_refresh (\<lambda>cr n. cr div 2) 1100
      \<lparr>bc_ts_refresh = 100, bc_cap = 300, bc_n_guests = 1, bc_cores = 2, bc_perf_iso = True, bc_budgets = \<lambda>_ _. - 400\<rparr>) 0 1) = - 150"
proof -
  have s: "budget_share 300 1 2 = 150" "budget_share 500 1 2 = 250" by (simp_all add: budget_share_def)
  have n: "sint (- 400 :: u64) = - 400" by simp
  show ?thesis
    using budget_refresh_exact [of "\<lparr>bc_ts_refresh = 100, bc_cap = 300, bc_n_guests = 1, bc_cores = 2, bc_perf_iso = True, bc_budgets = \<lambda>_ _. - 400\<rparr>"
        0 1 500 "\<lambda>cr n. cr div 2" 1100] by (simp add: s n)
qed

end
