(* ===== verification/Spec2Isabelle.thy ===== *)
theory Spec2Isabelle
  imports Queue_Concurrency Scheduler Shmalloc Control_Arp Netvirt Tcp_Ebpf Tcp_Slow_Props Tcp_Lib_Props Udp_Wait Udp_Bind
    Fast_Turns Fast_Gre Control_Guest Control_Budget
begin

text \<open>
  A verification of Chamelio, a user-space network stack whose fast path runs protocol event
  handlers over queues and byte rings in shared memory.

  \<^bold>\<open>The program.\<close> A fast-path core polls the network card, the transmit scheduler and the queues
  of its guests, and calls the handlers of the guest's protocol: one for a received packet, one for a
  scheduled transmission, one for a dequeued message. A protocol has three parts: the fast-path
  handlers, a slow-path process that owns the tables and the control plane, and a library inside each
  application. The three share maps (sockets, ports, flows), byte rings for payload, and
  single-producer/single-consumer queues for everything else. The control path of Chamelio resolves
  addresses, keeps the network-virtualisation tables and sets up guests.

  \<^bold>\<open>Utilities.\<close>
  \<^item> \<^verbatim>\<open>Ring_Queue\<close>, \<^verbatim>\<open>Queue_Concurrency\<close>: \<^verbatim>\<open>lib/utils/queue\<close>. The enqueueing and the dequeueing view of
    a ring of slots are records; the type word of a slot says who owns it. A queue refines a bounded
    FIFO (locale \<^verbatim>\<open>bounded_fifo\<close>, interpretation \<^verbatim>\<open>spscq\<close>), also when every store of the two sides is
    a separate step of an interleaving semantics.
  \<^item> \<^verbatim>\<open>Queue_Msgs\<close>: the message structures of \<^verbatim>\<open>queue_types.h\<close> and the pattern of writing a message
    into the slot at the tail.
  \<^item> \<^verbatim>\<open>Scheduler\<close>: \<^verbatim>\<open>lib/utils/scheduler\<close>. The linked list in an array implements a stable priority
    list (locale \<^verbatim>\<open>tx_scheduler\<close>, interpretation \<^verbatim>\<open>txs\<close>). The walks over the links are partial
    functions, proved to return on well-formed schedulers.
  \<^item> \<^verbatim>\<open>Shmalloc\<close>: \<^verbatim>\<open>lib/utils/shm/shmalloc.c\<close>. Live and free blocks are disjoint and cover the region
    (locale \<^verbatim>\<open>region_allocator\<close>, interpretation \<^verbatim>\<open>shmr\<close>); first fit.
  \<^item> \<^verbatim>\<open>Tomgr\<close>: \<^verbatim>\<open>lib/utils/tomgr\<close>. The heap of deadlines implements a map of pending timers (locale
    \<^verbatim>\<open>timer_queue\<close>, interpretation \<^verbatim>\<open>tmq\<close>), up to the two defects proved there.
  \<^item> \<^verbatim>\<open>Byte_Order\<close>, \<^verbatim>\<open>Byte_Ring\<close>: the conversions of \<^verbatim>\<open>utils.h\<close>, and the shape of the copies into and
    out of a byte ring that both protocols and both sides use, with 32-bit positions.

  \<^bold>\<open>Control path.\<close>
  \<^item> \<^verbatim>\<open>Probe_Table\<close> is the interface of an open-addressed table (locale \<^verbatim>\<open>probe_table\<close>); \<^verbatim>\<open>Arp\<close> and
    \<^verbatim>\<open>Netvirt\<close> (\<^verbatim>\<open>chamelio/arp\<close>, \<^verbatim>\<open>chamelio/netvirt\<close>) interpret it as \<^verbatim>\<open>arpt\<close> and \<^verbatim>\<open>nvt\<close>. \<^verbatim>\<open>Netvirt\<close> also
    has the parser of the table's configuration file, with the conversions of \<^verbatim>\<open>sscanf\<close> it uses.
  \<^item> \<^verbatim>\<open>Control_Arp\<close>: the ARP handlers of \<^verbatim>\<open>control_arp.c\<close> over the table, the timers and the queues.
  \<^item> \<^verbatim>\<open>Control_Guest\<close>: the requests of a guest in \<^verbatim>\<open>control_guest.c\<close>, with what the control path puts into
    the queues of the cores and of the guest. A failing \<^verbatim>\<open>assert\<close> and an access outside an array are
    faults of the result. A granted queue is shown to be memory of the guest that nothing else uses.
  \<^item> \<^verbatim>\<open>Control_Budget\<close>: the refill of \<^verbatim>\<open>control_budget.c\<close>. The credit of an interval is a floating-point
    product in the code and a parameter here; how it is divided, added and capped is exact.

  \<^bold>\<open>Fast-path core.\<close> What runs around the protocol handlers, \<^verbatim>\<open>chamelio/fast\<close>. The handlers, the
  packet pool and the card of DPDK, its pseudo-header checksum and the cycle counter are parameters.
  \<^item> \<^verbatim>\<open>Txcache\<close>: the ring of packet buffers of \<^verbatim>\<open>txcache.c\<close> implements a list of buffers.
  \<^item> \<^verbatim>\<open>Fast_Infra\<close>: the records of \<^verbatim>\<open>fast.h\<close>, the transmit buffer, and \<^verbatim>\<open>infra.c\<close> (address resolution
    and GRE). \<^verbatim>\<open>Fast_Gre\<close> shows that decapsulation inverts encapsulation on the other host.
  \<^item> \<^verbatim>\<open>Fast_Ctl\<close>: the messages of the control path, \<^verbatim>\<open>controlif.c\<close>.
  \<^item> \<^verbatim>\<open>Fast_Poll\<close>: the polls of the card, the queues and the schedulers and one round of the loop. The
    loop over a guest's scheduled transmissions has no bound of its own and is a partial function; it
    returns when the handler's answers use up its scheduler (\<^verbatim>\<open>sched_drains\<close>).
  \<^item> \<^verbatim>\<open>Fast_Bufs\<close>, \<^verbatim>\<open>Fast_Props\<close>: a round returns and neither loses nor duplicates a packet buffer.
    \<^verbatim>\<open>Fast_Turns\<close>: the enabled queues of a guest are served in turn.

  \<^bold>\<open>TCP.\<close>
  \<^item> \<^verbatim>\<open>Tcp_Sock\<close>, \<^verbatim>\<open>Tcp_Pkt\<close>, \<^verbatim>\<open>Tcp_Fast\<close>: the socket of \<^verbatim>\<open>tcp.h\<close> and the operations on it, packets as
    byte functions, and the three handlers of \<^verbatim>\<open>chamelio/protos/tcp_fast.c\<close> with everything they call.
    \<^verbatim>\<open>Tcp_Props\<close> shows that every sequence of events keeps the rings and the scheduler well formed,
    that the received stream grows by exactly the in-window bytes that follow it, that a segment
    carries the stretch of the send stream its sequence number names, and how the window moves.
    \<^verbatim>\<open>Tcp_Ebpf\<close> has the handlers in which the eBPF build differs and shows that the builds agree.
  \<^item> \<^verbatim>\<open>Tcp_Slow_State\<close>, \<^verbatim>\<open>Tcp_Slow_Tables\<close>, \<^verbatim>\<open>Tcp_Slow_Ctl\<close>, \<^verbatim>\<open>Tcp_Slow_Rx\<close>, \<^verbatim>\<open>Tcp_Slow_App\<close>, \<^verbatim>\<open>Tcp_CC\<close>:
    \<^verbatim>\<open>protos/tcp/slow\<close>. One record holds the process state; the tables are functions and lists of the
    sizes of the code; each handler is one definition. The ghost field \<open>sl_oob\<close> records an access
    outside an array. \<^verbatim>\<open>Tcp_Slow_Wf\<close> and \<^verbatim>\<open>Tcp_Slow_App_Wf\<close> prove the invariant handler by handler,
    \<^verbatim>\<open>Tcp_Slow_Main\<close> has the state machine of the process loop and \<^verbatim>\<open>Tcp_Slow_Props\<close> its properties.
    The environment of this machine is assumed not to bind, connect or listen on connected sockets,
    which the handlers do not check. \<^verbatim>\<open>Tcp_Handshake\<close> composes two hosts, packet by packet.
  \<^item> \<^verbatim>\<open>Tcp_Lib\<close>: \<^verbatim>\<open>protos/tcp/lib/tcp_lib.c\<close>. A call that waits for the slow path is a tree (type
    \<^verbatim>\<open>tlib_call\<close>): it returns, or it is blocked on events of a socket and goes on from the state in which
    they are pending. The list of sockets with bytes to announce is threaded through the table; the
    loop that empties it has the size of the table as fuel, which is enough because the list is
    acyclic (\<^verbatim>\<open>Tcp_Lib_Wf\<close>). \<^verbatim>\<open>Tcp_Lib_Inv\<close> and \<^verbatim>\<open>Tcp_Lib_Calls\<close> prove the invariant call by call and
    message by message, \<^verbatim>\<open>Tcp_Lib_Flush\<close> that every byte is announced once, \<^verbatim>\<open>Tcp_Lib_Props\<close> has the
    state machine of all calls and the properties. Of the slow path it is assumed that a socket is
    given its buffers once, smaller than 2 GiB, and a core that has queues (\<^verbatim>\<open>slow_msg_ok\<close>).
  \<^item> \<^verbatim>\<open>Tcp_CC\<close> compares the fixed-point DCTCP computation with real numbers.

  \<^bold>\<open>UDP.\<close>
  \<^item> \<^verbatim>\<open>Udp_Fast\<close>: \<^verbatim>\<open>chamelio/protos/udp_fast.c\<close> and the lookup of the eBPF build. What the code does
    without a check (reading past the packet, leaving a map) is a fault value of the result.
  \<^item> \<^verbatim>\<open>Udp_Slow\<close>: \<^verbatim>\<open>protos/udp/slow/udp_slow.c\<close>; the ghost field \<open>uw_oob\<close> is like \<open>sl_oob\<close>.
  \<^item> \<^verbatim>\<open>Udp_Lib\<close>: \<^verbatim>\<open>protos/udp/lib/udp_lib.c\<close>. A call that blocks is split at its wait: the request,
    the polls that complete it, and what follows. The polling loops have fuel: a queue of \<open>n\<close> slots
    is drained in at most \<open>n\<close> rounds, and \<open>n + 1\<close> are given.
  \<^item> \<^verbatim>\<open>Udp_Bind\<close>: slow path and cores on the shared maps; a datagram only reaches sockets of its port.
  \<^item> \<^verbatim>\<open>Udp_Link\<close>, \<^verbatim>\<open>Udp_Props\<close>: library and core around the rings and bump queues. The composed system
    has one core, bound sockets, datagrams of at most 1472 bytes and room in the application's queue
    when the core announces; without the last two, data is lost, which is proved or recorded.
  \<^item> \<^verbatim>\<open>Udp_Wait\<close>: the wait objects of the library as finite maps.

  \<^bold>\<open>Both libraries.\<close> \<^verbatim>\<open>Wait_Set\<close> has the wait objects, which the two libraries copy from each other: what
  they need of a library is the locale \<^verbatim>\<open>wait_client\<close>, interpreted as \<^verbatim>\<open>tcpw\<close> and \<^verbatim>\<open>udpw\<close>.

  \<^bold>\<open>Conventions.\<close> Integers keep their width as words; positions wrap as in C. Memory is a function
  from addresses to bytes, a queue memory one from offsets to slots. A null pointer is \<^const>\<open>None\<close>,
  an error return an \<^typ>\<open>int\<close>, a fault a value of its own type. Results of \<^verbatim>\<open>malloc\<close> and \<^verbatim>\<open>calloc\<close>,
  clock readings and resources granted by other processes are arguments. Handlers are atomic
  except in \<^verbatim>\<open>Queue_Concurrency\<close>. Definitions named \<open>demo\<close> are the concrete states of the witnesses.

  \<^bold>\<open>Not modelled.\<close> Process set-up, command lines, Unix-domain sockets, PCI devices, logging and
  the DPDK driver, which are input and output; the compiler and verifier front end and the eBPF virtual
  machine, whose code is elsewhere; the loop of the program that combines fast and control path, the
  statistics, the power management and the start-up of the cores.
\<close>

end
